(* ===== verification/NeoC_Prelude.thy ===== *)
theory NeoC_Prelude
  imports Main "HOL-Library.Word" "HOL-Library.Sublist"
begin

text \<open>
  The shared vocabulary of the development: machine integers, the error codes of
  \<^verbatim>\<open>include/neoc/neoc_error.h\<close>, results, commands on a state, the allocator, and the generic
  lemmas on words, byte lists and commands that the component theories use.

  A C function that returns \<^verbatim>\<open>neoc_error_t\<close> is a function into \<open>'a result\<close>: \<open>Ok\<close> carries what the
  function stores through its result pointers, \<open>Err\<close> the error code, and \<open>Fault\<close> stands for
  an execution that has no defined outcome in C (an access outside an object, an indeterminate
  read, a loop that never ends).  A function that updates an object through a pointer is a
  \<open>cmd\<close>: it maps the object to a result and the updated object, on the error paths too.
\<close>

unbundle bit_operations_syntax

type_synonym byte = "8 word"
type_synonym u16 = "16 word"
type_synonym u32 = "32 word"
type_synonym u64 = "64 word"
type_synonym size_t = "64 word"

named_theorems cmd_simps \<open>evaluation of commands and results\<close>
named_theorems codec_laws \<open>what the primitive writers append and the primitive readers consume\<close>

subsection \<open>Error codes\<close>

text \<open>
  One constructor per numeric value of the enumeration.  The header gives several names
  to one value (\<^verbatim>\<open>INVALID_DATA\<close> and \<^verbatim>\<open>INVALID_FORMAT\<close> are both -10): those are abbreviations.
\<close>

datatype neoc_error =
    NEOC_ERROR_NULL_POINTER | NEOC_ERROR_INVALID_ARGUMENT | NEOC_ERROR_OUT_OF_MEMORY
  | NEOC_ERROR_BUFFER_TOO_SMALL | NEOC_ERROR_INVALID_STATE | NEOC_ERROR_NOT_IMPLEMENTED
  | NEOC_ERROR_INVALID_LENGTH | NEOC_ERROR_END_OF_STREAM | NEOC_ERROR_BUFFER_OVERFLOW
  | NEOC_ERROR_INVALID_FORMAT | NEOC_ERROR_INVALID_HEX | NEOC_ERROR_INVALID_BASE58
  | NEOC_ERROR_INVALID_BASE64 | NEOC_ERROR_DESERIALIZE | NEOC_ERROR_SERIALIZE
  | NEOC_ERROR_OUT_OF_BOUNDS | NEOC_ERROR_NOT_FOUND | NEOC_ERROR_INVALID_SIZE
  | NEOC_ERROR_INVALID_PASSWORD | NEOC_ERROR_CRYPTO | NEOC_ERROR_CRYPTO_INIT
  | NEOC_ERROR_CRYPTO_INVALID_KEY | NEOC_ERROR_CRYPTO_SIGN | NEOC_ERROR_CRYPTO_VERIFY
  | NEOC_ERROR_CRYPTO_HASH | NEOC_ERROR_CRYPTO_RANDOM | NEOC_ERROR_NETWORK
  | NEOC_ERROR_PROTOCOL | NEOC_ERROR_RPC | NEOC_ERROR_HTTP | NEOC_ERROR_TX_INVALID
  | NEOC_ERROR_TX_SIZE | NEOC_ERROR_TX_SCRIPT | NEOC_ERROR_TX_WITNESS
  | NEOC_ERROR_CONTRACT_INVALID | NEOC_ERROR_CONTRACT_INVOKE | NEOC_ERROR_CONTRACT_MANIFEST
  | NEOC_ERROR_WALLET_INVALID | NEOC_ERROR_WALLET_LOCKED | NEOC_ERROR_WALLET_DECRYPT
  | NEOC_ERROR_WALLET_ACCOUNT | NEOC_ERROR_SYSTEM | NEOC_ERROR_IO | NEOC_ERROR_TIMEOUT
  | NEOC_ERROR_CANCELLED | NEOC_ERROR_FILE | NEOC_ERROR_FILE_NOT_FOUND
  | NEOC_ERROR_INTERNAL | NEOC_ERROR_NOT_SUPPORTED

abbreviation "NEOC_ERROR_MEMORY \<equiv> NEOC_ERROR_OUT_OF_MEMORY"
abbreviation "NEOC_ERROR_INVALID_PARAM \<equiv> NEOC_ERROR_INVALID_ARGUMENT"
abbreviation "NEOC_ERROR_INVALID_DATA \<equiv> NEOC_ERROR_INVALID_FORMAT"
abbreviation "NEOC_ERROR_INVALID_TYPE \<equiv> NEOC_ERROR_INVALID_FORMAT"
abbreviation "NEOC_ERROR_OVERFLOW \<equiv> NEOC_ERROR_BUFFER_OVERFLOW"

subsection \<open>Results\<close>

datatype 'a result = Ok 'a | Err neoc_error | Fault

definition bind_r :: "'a result \<Rightarrow> ('a \<Rightarrow> 'b result) \<Rightarrow> 'b result" where
  "bind_r r f = (case r of Ok x \<Rightarrow> f x | Err e \<Rightarrow> Err e | Fault \<Rightarrow> Fault)"

lemma bind_r_simps [simp, cmd_simps]:
  "bind_r (Ok x) f = f x" "bind_r (Err e) f = Err e" "bind_r Fault f = Fault"
  by (simp_all add: bind_r_def)

lemma bind_r_Ok_iff: "bind_r r f = Ok y \<longleftrightarrow> (\<exists>x. r = Ok x \<and> f x = Ok y)"
  by (cases r) auto

lemma bind_r_Ok_ex: "(\<exists>y. bind_r r f = Ok y) \<longleftrightarrow> (\<exists>x. r = Ok x \<and> (\<exists>y. f x = Ok y))"
  by (cases r) auto

lemma bind_r_Fault_iff: "bind_r r f = Fault \<longleftrightarrow> r = Fault \<or> (\<exists>x. r = Ok x \<and> f x = Fault)"
  by (cases r) auto

subsection \<open>Commands: a result and the updated object\<close>

type_synonym ('s, 'a) cmd = "'s \<Rightarrow> 'a result \<times> 's"

definition return_c :: "'a \<Rightarrow> ('s, 'a) cmd" where
  "return_c x s = (Ok x, s)"

definition fail_c :: "neoc_error \<Rightarrow> ('s, 'a) cmd" where
  "fail_c e s = (Err e, s)"

definition lift_c :: "'a result \<Rightarrow> ('s, 'a) cmd" where
  "lift_c r s = (r, s)"

definition bind_c :: "('s, 'a) cmd \<Rightarrow> ('a \<Rightarrow> ('s, 'b) cmd) \<Rightarrow> ('s, 'b) cmd" where
  "bind_c m f s =
     (case m s of
        (Ok x, s') \<Rightarrow> f x s'
      | (Err e, s') \<Rightarrow> (Err e, s')
      | (Fault, s') \<Rightarrow> (Fault, s'))"

definition then_c :: "('s, 'a) cmd \<Rightarrow> ('s, 'b) cmd \<Rightarrow> ('s, 'b) cmd" where
  "then_c m n = bind_c m (\<lambda>_. n)"

text \<open>A C loop that runs one fallible command per item and stops at the first error.\<close>

fun foreach_c :: "('a \<Rightarrow> ('s, unit) cmd) \<Rightarrow> 'a list \<Rightarrow> ('s, unit) cmd" where
  "foreach_c f [] = return_c ()"
| "foreach_c f (x # xs) = then_c (f x) (foreach_c f xs)"

lemma foreach_c_cong [fundef_cong]:
  "xs = ys \<Longrightarrow> (\<And>x. x \<in> set ys \<Longrightarrow> f x = g x) \<Longrightarrow> foreach_c f xs = foreach_c g ys"
  by (induction ys arbitrary: xs) auto

text \<open>The same loop for a function on each item whose results are collected.\<close>

fun map_r :: "('a \<Rightarrow> 'b result) \<Rightarrow> 'a list \<Rightarrow> 'b list result" where
  "map_r f [] = Ok []"
| "map_r f (x # xs) = bind_r (f x) (\<lambda>y. bind_r (map_r f xs) (\<lambda>ys. Ok (y # ys)))"

lemma map_r_cong [fundef_cong]:
  "xs = ys \<Longrightarrow> (\<And>x. x \<in> set ys \<Longrightarrow> f x = g x) \<Longrightarrow> map_r f xs = map_r g ys"
  by (induction ys arbitrary: xs) auto

lemma map_r_Ok: "(\<And>x. x \<in> set xs \<Longrightarrow> f x = Ok (g x)) \<Longrightarrow> map_r f xs = Ok (map g xs)"
  by (induction xs) auto

lemma cmd_eval [cmd_simps]:
  "return_c x s = (Ok x, s)"
  "fail_c e s = (Err e, s)"
  "lift_c r s = (r, s)"
  by (simp_all add: return_c_def fail_c_def lift_c_def)

lemma bind_c_eval [cmd_simps]:
  "m s = (Ok x, s') \<Longrightarrow> bind_c m f s = f x s'"
  "m s = (Err e, s') \<Longrightarrow> bind_c m f s = (Err e, s')"
  "m s = (Fault, s') \<Longrightarrow> bind_c m f s = (Fault, s')"
  by (simp_all add: bind_c_def)

lemma then_c_eval [cmd_simps]:
  "m s = (Ok x, s') \<Longrightarrow> then_c m n s = n s'"
  "m s = (Err e, s') \<Longrightarrow> then_c m n s = (Err e, s')"
  "m s = (Fault, s') \<Longrightarrow> then_c m n s = (Fault, s')"
  by (simp_all add: then_c_def bind_c_eval)

lemma bind_c_return [simp]: "bind_c (return_c x) f = f x"
  by (rule ext) (simp add: bind_c_def cmd_eval)

lemma then_c_return [simp]: "then_c (return_c x) n = n"
  by (simp add: then_c_def)

lemma bind_c_Pair [simp]:
  "bind_c (Pair (Ok x)) f = f x" "bind_c (Pair (Err e)) f = Pair (Err e)"
  "bind_c (Pair Fault) f = Pair Fault"
  by (simp_all add: bind_c_def fun_eq_iff)

lemma then_c_Pair [simp]:
  "then_c (Pair (Ok x)) n = n" "then_c (Pair (Err e)) n = Pair (Err e)"
  "then_c (Pair Fault) n = Pair Fault"
  by (simp_all add: then_c_def)

lemma bind_c_fail [simp]: "bind_c (fail_c e) f = fail_c e" "then_c (fail_c e) n = fail_c e"
  by (simp_all add: fun_eq_iff bind_c_def then_c_def cmd_eval)

lemma bind_c_lift [simp]:
  "bind_c (lift_c (Ok x)) f = f x" "bind_c (lift_c (Err e)) f = fail_c e" "bind_c (lift_c Fault) f = lift_c Fault"
  by (simp_all add: fun_eq_iff bind_c_def cmd_eval)

lemma bind_c_return_right [simp]: "bind_c m return_c = m" "bind_c m (\<lambda>x. Pair (Ok x)) = m"
  by (simp_all add: fun_eq_iff bind_c_def cmd_eval split: prod.split result.split)

lemma bind_c_assoc: "bind_c (bind_c m f) g = bind_c m (\<lambda>x. bind_c (f x) g)"
  by (rule ext) (simp add: bind_c_def split: prod.split result.split)

lemma then_c_assoc: "then_c (then_c m n) p = then_c m (then_c n p)"
  by (simp add: then_c_def bind_c_assoc)

lemma foreach_c_append:
  "foreach_c f (xs @ ys) = then_c (foreach_c f xs) (foreach_c f ys)"
  by (induction xs) (simp_all add: then_c_assoc)

subsection \<open>Allocation\<close>

text \<open>
  \<open>A n\<close> tells whether \<^verbatim>\<open>malloc\<close> grants a request for \<open>n\<close> bytes.  A definition that allocates
  takes the allocator as an argument and has the out-of-memory branch of the source.
\<close>

type_synonym allocator = "nat \<Rightarrow> bool"

definition malloc_c :: "allocator \<Rightarrow> nat \<Rightarrow> ('s, unit) cmd" where
  "malloc_c A n = (if A n then return_c () else fail_c NEOC_ERROR_MEMORY)"

definition malloc_r :: "allocator \<Rightarrow> nat \<Rightarrow> unit result" where
  "malloc_r A n = (if A n then Ok () else Err NEOC_ERROR_MEMORY)"

text \<open>\<^verbatim>\<open>neoc_malloc\<close> refuses a request for zero bytes; for others it is \<^verbatim>\<open>malloc\<close>, and the definitions whose
  request is never zero use \<open>malloc_r\<close>.\<close>

definition neoc_malloc_r :: "allocator \<Rightarrow> nat \<Rightarrow> unit result" where
  "neoc_malloc_r A n = (if n = 0 then Err NEOC_ERROR_MEMORY else malloc_r A n)"

definition grants :: "allocator \<Rightarrow> nat \<Rightarrow> bool" where
  "grants A k \<longleftrightarrow> (\<forall>n\<le>k. A n)"

lemma grantsD: "grants A k \<Longrightarrow> n \<le> k \<Longrightarrow> A n"
  by (simp add: grants_def)

lemma grants_mono: "grants A k \<Longrightarrow> n \<le> k \<Longrightarrow> grants A n"
  by (simp add: grants_def)

lemma grants_all [simp]: "grants (\<lambda>_. True) k"
  by (simp add: grants_def)

lemma malloc_granted [simp]:
  "A n \<Longrightarrow> malloc_c A n = return_c ()" "A n \<Longrightarrow> malloc_r A n = Ok ()"
  by (simp_all add: malloc_c_def malloc_r_def)

lemma malloc_refused [simp]:
  "\<not> A n \<Longrightarrow> malloc_c A n = fail_c NEOC_ERROR_MEMORY" "\<not> A n \<Longrightarrow> malloc_r A n = Err NEOC_ERROR_MEMORY"
  by (simp_all add: malloc_c_def malloc_r_def)

lemma neoc_malloc_r_simps [simp]:
  "neoc_malloc_r A 0 = Err NEOC_ERROR_MEMORY" "0 < n \<Longrightarrow> neoc_malloc_r A n = malloc_r A n"
  by (simp_all add: neoc_malloc_r_def)

subsection \<open>Words and byte lists\<close>

lemma strict_prefix_append_same [simp]: "strict_prefix (xs @ ys) (xs @ zs) \<longleftrightarrow> strict_prefix ys zs"
  by (simp add: strict_prefix_def)

lemma unat_of_nat_size: "n < 2 ^ 64 \<Longrightarrow> unat (of_nat n :: size_t) = n"
  by (simp add: unat_of_nat take_bit_nat_eq_self)

lemma unat_plus_size:
  fixes a b :: size_t
  assumes "unat a + unat b < 2 ^ 64"
  shows "unat (a + b) = unat a + unat b"
  using assms by (simp add: unat_word_ariths)

lemma unat_size_less [simp]: "unat (x :: size_t) < 18446744073709551616"
  using unsigned_less [of x, where ?'a = nat] by simp

lemma unat_inc:
  assumes "(x :: size_t) < y"
  shows "unat (x + 1) = Suc (unat x)"
proof -
  have "unat y < 2 ^ 64" by simp
  then have "Suc (unat x) < 2 ^ 64" using assms unfolding word_less_nat_alt by linarith
  then show ?thesis by (simp add: unat_word_ariths)
qed

lemma unat_pred: "0 < (n :: size_t) \<Longrightarrow> unat (n - 1) = unat n - 1"
  by (simp add: unat_sub word_le_nat_alt word_less_nat_alt Suc_leI)

lemma size_le_iff: "(a :: size_t) \<le> b \<longleftrightarrow> unat a \<le> unat b"
  by (rule word_le_nat_alt)

lemma size_less_iff: "(a :: size_t) < b \<longleftrightarrow> unat a < unat b"
  by (rule word_less_nat_alt)

lemma unat_minus_1_size: "unat (- 1 :: size_t) = 18446744073709551615"
  by (simp add: unsigned_minus_1_eq_mask mask_eq_exp_minus_1)

lemma byte_of_and: "(ucast (v AND 0xFF) :: byte) = ucast (v :: 'a::len word)"
proof (rule bit_word_eqI)
  fix n
  assume "n < LENGTH(8)"
  then have "bit (0xFF :: 'a word) n \<longleftrightarrow> n < LENGTH('a)"
    using bit_mask_iff [of 8 n, where ?'a = "'a word"] by (simp add: mask_eq_exp_minus_1 possible_bit_word)
  then show "bit (ucast (v AND 0xFF) :: byte) n = bit (ucast v :: byte) n"
    by (auto simp: bit_simps dest: bit_imp_le_length)
qed

lemma xor_right_cancel: "x XOR z = y XOR z \<Longrightarrow> x = (y :: 'a::len word)"
proof -
  assume "x XOR z = y XOR z"
  then have "(x XOR z) XOR z = (y XOR z) XOR z" by simp
  then show "x = y" unfolding xor.assoc by simp
qed

lemma xor_left_cancel: "z XOR x = z XOR y \<Longrightarrow> x = (y :: 'a::len word)"
  by (rule xor_right_cancel [of _ z]) (simp add: xor.commute)

lemma ucast_up_inj:
  fixes a b :: "'a::len word"
  assumes "(ucast a :: 'b::len word) = ucast b" and "LENGTH('a) \<le> LENGTH('b)"
  shows "a = b"
proof (rule bit_word_eqI)
  fix n
  assume "n < LENGTH('a)"
  with assms(2) show "bit a n = bit b n"
    using arg_cong [OF assms(1), of "\<lambda>w. bit w n"] by (simp add: bit_simps)
qed

text \<open>The \<open>n\<close> low bytes of a word, least significant first.\<close>

definition le_bytes :: "nat \<Rightarrow> 'a::len word \<Rightarrow> byte list" where
  "le_bytes n v = map (\<lambda>i. ucast (drop_bit (8 * i) v)) [0..<n]"

lemma length_le_bytes [simp]: "length (le_bytes n v) = n"
  by (simp add: le_bytes_def)

text \<open>The word whose bytes are given, least significant first.\<close>

fun of_le :: "byte list \<Rightarrow> 'a::len word" where
  "of_le [] = 0"
| "of_le (b # bs) = ucast b OR push_bit 8 (of_le bs)"

lemma bit_of_le:
  "bit (of_le bs :: 'a::len word) n \<longleftrightarrow>
     n < LENGTH('a) \<and> n div 8 < length bs \<and> bit (bs ! (n div 8)) (n mod 8)"
proof (induction bs arbitrary: n)
  case Nil
  then show ?case by simp
next
  case (Cons b bs)
  show ?case
  proof (cases "n < 8")
    case True
    then show ?thesis by (auto simp: bit_simps)
  next
    case False
    then obtain m where n: "n = m + 8"
      by (metis add.commute le_Suc_ex not_less)
    have "\<not> bit b n"
      using False bit_imp_le_length [of b n] by auto
    moreover have "(m + 8) div 8 = Suc (m div 8)" by simp
    ultimately show ?thesis
      using Cons.IH [of m] by (auto simp: n bit_simps)
  qed
qed

lemma of_le_le_bytes:
  fixes v :: "'a::len word"
  assumes "LENGTH('a) \<le> 8 * n"
  shows "of_le (le_bytes n v) = v"
proof (rule bit_word_eqI)
  fix k
  assume k: "k < LENGTH('a)"
  then have "k div 8 < n" using assms by auto
  then show "bit (of_le (le_bytes n v) :: 'a word) k = bit v k"
    using k by (simp add: bit_of_le le_bytes_def bit_simps)
qed

text \<open>The \<open>of_le\<close> of a wide word's bytes read into a wider word.\<close>

lemma of_le_ucast:
  fixes v :: "'a::len word"
  assumes "LENGTH('a) \<le> LENGTH('b)" and "8 * n = LENGTH('a)"
  shows "(of_le (le_bytes n v) :: 'b::len word) = ucast v"
proof (rule bit_word_eqI)
  fix k
  assume k: "k < LENGTH('b)"
  have "k div 8 < n \<longleftrightarrow> k < LENGTH('a)" using assms(2) by auto
  then show "bit (of_le (le_bytes n v) :: 'b word) k = bit (ucast v :: 'b word) k"
    using k by (auto simp: bit_of_le le_bytes_def bit_simps dest: bit_imp_le_length)
qed

lemma unat_ucast_down:
  fixes v :: "'a::len word"
  assumes "unat v < 2 ^ LENGTH('b)"
  shows "unat (ucast v :: 'b::len word) = unat v"
  using assms by (simp add: unsigned_ucast_eq take_bit_nat_eq_self)

lemma ucast_ucast_down:
  fixes v :: "'a::len word"
  assumes "unat v < 2 ^ LENGTH('b)"
  shows "ucast (ucast v :: 'b::len word) = v"
  by (rule word_unat_eq_iff [THEN iffD2])
     (use assms in \<open>simp add: unsigned_ucast_eq unsigned_take_bit_eq take_bit_nat_eq_self\<close>)

end
