(* ===== verification/Binary_Writer.thy ===== *)
theory Binary_Writer
  imports NeoC_Prelude
begin

text \<open>
  \<^verbatim>\<open>src/serialization/binary_writer.c\<close>: the growable output buffer behind every serializer of
  the library.  The state is the C struct; sizes and positions are 64-bit words, so the
  wrap-around of \<^verbatim>\<open>position + required\<close> and of the doubled capacity is the machine's.  The
  contract \<open>writes\<close> says what a command appends to the contents, and the lemmas show that
  the primitive writers have it and that sequencing composes it.
\<close>

subsection \<open>State\<close>

record neoc_binary_writer =
  w_data :: "byte list"
  w_capacity :: size_t
  w_position :: size_t
  w_auto_grow :: bool

definition MIN_CAPACITY :: size_t where "MIN_CAPACITY = 16"
definition GROWTH_FACTOR :: size_t where "GROWTH_FACTOR = 2"

subsection \<open>Operations\<close>

text \<open>The \<^verbatim>\<open>while\<close> loop of \<open>ensure_capacity\<close>; \<open>None\<close> when it never ends.\<close>

partial_function (option) grow_loop :: "size_t \<Rightarrow> size_t \<Rightarrow> size_t option" where
  "grow_loop new_capacity required =
     (if new_capacity < required then grow_loop (new_capacity * GROWTH_FACTOR) required
      else Some new_capacity)"

text \<open>
  \<^verbatim>\<open>realloc\<close> keeps the old bytes.  The bytes past them are indeterminate in C; they are
  zero here, and no operation reads beyond the position.
\<close>

definition resize :: "nat \<Rightarrow> byte list \<Rightarrow> byte list" where
  "resize n xs = take n xs @ replicate (n - length xs) 0"

definition ensure_capacity :: "allocator \<Rightarrow> size_t \<Rightarrow> (neoc_binary_writer, unit) cmd" where
  "ensure_capacity A required w =
     (if w_position w + required \<le> w_capacity w then (Ok (), w)
      else if \<not> w_auto_grow w then (Err NEOC_ERROR_BUFFER_OVERFLOW, w)
      else
        (case grow_loop (w_capacity w * GROWTH_FACTOR) (w_position w + required) of
           None \<Rightarrow> (Fault, w)
         | Some new_capacity \<Rightarrow>
             (if \<not> A (unat new_capacity) then (Err NEOC_ERROR_MEMORY, w)
              else (Ok (), w\<lparr>w_data := resize (unat new_capacity) (w_data w),
                             w_capacity := new_capacity\<rparr>))))"

definition sizeof_binary_writer :: nat where "sizeof_binary_writer = 32"

definition neoc_binary_writer_create :: "allocator \<Rightarrow> size_t \<Rightarrow> bool \<Rightarrow> neoc_binary_writer result" where
  "neoc_binary_writer_create A initial_capacity auto_grow =
     bind_r (malloc_r A sizeof_binary_writer) (\<lambda>_.
       let capacity = (if MIN_CAPACITY < initial_capacity then initial_capacity else MIN_CAPACITY) in
       bind_r (malloc_r A (unat capacity)) (\<lambda>_.
         Ok \<lparr>w_data = replicate (unat capacity) 0, w_capacity = capacity, w_position = 0,
             w_auto_grow = auto_grow\<rparr>))"

text \<open>\<^verbatim>\<open>writer->data[writer->position++] = value\<close>\<close>

definition store_byte :: "byte \<Rightarrow> (neoc_binary_writer, unit) cmd" where
  "store_byte value w =
     (if unat (w_position w) < length (w_data w)
      then (Ok (), w\<lparr>w_data := (w_data w)[unat (w_position w) := value],
                     w_position := w_position w + 1\<rparr>)
      else (Fault, w))"

definition neoc_binary_writer_write_byte :: "allocator \<Rightarrow> byte \<Rightarrow> (neoc_binary_writer, unit) cmd" where
  "neoc_binary_writer_write_byte A value = then_c (ensure_capacity A 1) (store_byte value)"

text \<open>
  \<^verbatim>\<open>memcpy(writer->data + writer->position, data, len)\<close> and the advance of the position.
  A copy that leaves either object is a fault.
\<close>

definition store_bytes :: "byte list \<Rightarrow> size_t \<Rightarrow> (neoc_binary_writer, unit) cmd" where
  "store_bytes data len w =
     (let p = unat (w_position w); n = unat len in
      if n \<le> length data \<and> p + n \<le> length (w_data w)
      then (Ok (), w\<lparr>w_data := take p (w_data w) @ take n data @ drop (p + n) (w_data w),
                     w_position := w_position w + len\<rparr>)
      else (Fault, w))"

definition neoc_binary_writer_write_bytes ::
  "allocator \<Rightarrow> byte list option \<Rightarrow> size_t \<Rightarrow> (neoc_binary_writer, unit) cmd" where
  "neoc_binary_writer_write_bytes A data len =
     (case data of
        None \<Rightarrow> fail_c NEOC_ERROR_INVALID_ARGUMENT
      | Some bs \<Rightarrow>
          if len = 0 then return_c ()
          else then_c (ensure_capacity A len) (store_bytes bs len))"

definition neoc_binary_writer_write_bool :: "allocator \<Rightarrow> bool \<Rightarrow> (neoc_binary_writer, unit) cmd" where
  "neoc_binary_writer_write_bool A value =
     neoc_binary_writer_write_byte A (if value then 1 else 0)"

definition neoc_binary_writer_write_uint16 :: "allocator \<Rightarrow> u16 \<Rightarrow> (neoc_binary_writer, unit) cmd" where
  "neoc_binary_writer_write_uint16 A value =
     then_c (ensure_capacity A 2)
       (then_c (store_byte (ucast (value AND 0xFF)))
               (store_byte (ucast (drop_bit 8 value AND 0xFF))))"

definition neoc_binary_writer_write_uint32 :: "allocator \<Rightarrow> u32 \<Rightarrow> (neoc_binary_writer, unit) cmd" where
  "neoc_binary_writer_write_uint32 A value =
     then_c (ensure_capacity A 4)
       (then_c (store_byte (ucast (value AND 0xFF)))
       (then_c (store_byte (ucast (drop_bit 8 value AND 0xFF)))
       (then_c (store_byte (ucast (drop_bit 16 value AND 0xFF)))
               (store_byte (ucast (drop_bit 24 value AND 0xFF))))))"

definition neoc_binary_writer_write_uint64 :: "allocator \<Rightarrow> u64 \<Rightarrow> (neoc_binary_writer, unit) cmd" where
  "neoc_binary_writer_write_uint64 A value =
     then_c (ensure_capacity A 8)
       (foreach_c (\<lambda>i. store_byte (ucast (drop_bit (i * 8) value AND 0xFF))) [0..<8])"

text \<open>
  The signed variants cast to the unsigned type of the same width, so the argument is the
  two's complement word itself.
\<close>

definition neoc_binary_writer_write_int16 :: "allocator \<Rightarrow> 16 word \<Rightarrow> (neoc_binary_writer, unit) cmd" where
  "neoc_binary_writer_write_int16 A value = neoc_binary_writer_write_uint16 A value"

definition neoc_binary_writer_write_int32 :: "allocator \<Rightarrow> 32 word \<Rightarrow> (neoc_binary_writer, unit) cmd" where
  "neoc_binary_writer_write_int32 A value = neoc_binary_writer_write_uint32 A value"

definition neoc_binary_writer_write_int64 :: "allocator \<Rightarrow> 64 word \<Rightarrow> (neoc_binary_writer, unit) cmd" where
  "neoc_binary_writer_write_int64 A value = neoc_binary_writer_write_uint64 A value"

definition neoc_binary_writer_write_var_int :: "allocator \<Rightarrow> u64 \<Rightarrow> (neoc_binary_writer, unit) cmd" where
  "neoc_binary_writer_write_var_int A value =
     (if value < 0xFD then neoc_binary_writer_write_byte A (ucast value)
      else if value \<le> 0xFFFF then
        then_c (neoc_binary_writer_write_byte A 0xFD) (neoc_binary_writer_write_uint16 A (ucast value))
      else if value \<le> 0xFFFFFFFF then
        then_c (neoc_binary_writer_write_byte A 0xFE) (neoc_binary_writer_write_uint32 A (ucast value))
      else
        then_c (neoc_binary_writer_write_byte A 0xFF) (neoc_binary_writer_write_uint64 A value))"

definition neoc_binary_writer_write_var_bytes ::
  "allocator \<Rightarrow> byte list option \<Rightarrow> size_t \<Rightarrow> (neoc_binary_writer, unit) cmd" where
  "neoc_binary_writer_write_var_bytes A data len =
     then_c (neoc_binary_writer_write_var_int A len)
       (if 0 < len \<and> data \<noteq> None then neoc_binary_writer_write_bytes A data len
        else return_c ())"

text \<open>A C string is its bytes before the terminating zero.\<close>

definition neoc_binary_writer_write_var_string ::
  "allocator \<Rightarrow> byte list option \<Rightarrow> (neoc_binary_writer, unit) cmd" where
  "neoc_binary_writer_write_var_string A str =
     (case str of
        None \<Rightarrow> neoc_binary_writer_write_var_int A 0
      | Some cs \<Rightarrow> neoc_binary_writer_write_var_bytes A (Some cs) (of_nat (length cs)))"

definition neoc_binary_writer_get_position :: "neoc_binary_writer \<Rightarrow> size_t" where
  "neoc_binary_writer_get_position w = w_position w"

definition neoc_binary_writer_get_data :: "neoc_binary_writer \<Rightarrow> (byte list \<times> size_t) result" where
  "neoc_binary_writer_get_data w = Ok (w_data w, w_position w)"

definition neoc_binary_writer_to_array :: "allocator \<Rightarrow> neoc_binary_writer \<Rightarrow> byte list result" where
  "neoc_binary_writer_to_array A w =
     bind_r (malloc_r A (unat (w_position w))) (\<lambda>_.
       if unat (w_position w) \<le> length (w_data w)
       then Ok (take (unat (w_position w)) (w_data w)) else Fault)"

definition neoc_binary_writer_reset :: "neoc_binary_writer \<Rightarrow> neoc_binary_writer" where
  "neoc_binary_writer_reset w = w\<lparr>w_position := 0\<rparr>"

subsection \<open>Invariant and contents\<close>

definition w_contents :: "neoc_binary_writer \<Rightarrow> byte list" where
  "w_contents w = take (unat (w_position w)) (w_data w)"

definition writer_inv :: "neoc_binary_writer \<Rightarrow> bool" where
  "writer_inv w \<longleftrightarrow>
     length (w_data w) = unat (w_capacity w) \<and> w_position w \<le> w_capacity w
     \<and> 0 < w_capacity w \<and> unat (w_capacity w) < 2 ^ 63"

lemma length_w_contents: "writer_inv w \<Longrightarrow> length (w_contents w) = unat (w_position w)"
  by (simp add: writer_inv_def w_contents_def size_le_iff)

lemma length_resize [simp]: "length (resize n xs) = n"
  by (simp add: resize_def)

lemma take_resize: "k \<le> n \<Longrightarrow> k \<le> length xs \<Longrightarrow> take k (resize n xs) = take k xs"
  by (simp add: resize_def min_def)

subsection \<open>Growth\<close>

lemma grow_loop_total:
  assumes "0 < unat c" and "unat c < 2 * unat req" and "unat req < 2 ^ 62"
  shows "\<exists>c'. grow_loop c req = Some c' \<and> unat req \<le> unat c' \<and> unat c' < 2 * unat req"
  using assms
proof (induction "unat req - unat c" arbitrary: c rule: less_induct)
  case less
  show ?case
  proof (cases "c < req")
    case False
    with less.prems show ?thesis
      by (subst grow_loop.simps) (auto simp: size_less_iff)
  next
    case True
    have two: "unat (c * GROWTH_FACTOR) = 2 * unat c"
      using less.prems by (simp add: GROWTH_FACTOR_def unat_word_ariths)
    have "\<exists>c'. grow_loop (c * GROWTH_FACTOR) req = Some c' \<and> unat req \<le> unat c' \<and> unat c' < 2 * unat req"
      by (rule less.hyps) (use True less.prems two in \<open>auto simp: size_less_iff\<close>)
    with True show ?thesis by (subst grow_loop.simps) simp
  qed
qed

text \<open>The doubling wraps to zero before it reaches a requirement above $2^{63}$.\<close>

lemma grow_loop_zero: "grow_loop 0 req = Some c \<Longrightarrow> req = 0"
proof -
  have "c = 0 \<longrightarrow> req = 0" if "grow_loop c req = Some r" for c r
    by (rule grow_loop.raw_induct [where P = "\<lambda>c req r. c = 0 \<longrightarrow> req = 0", OF _ that])
       (auto simp: word_greater_zero_iff split: if_splits)
  then show "grow_loop 0 req = Some c \<Longrightarrow> req = 0" by blast
qed

lemma ensure_capacity_cases:
  assumes inv: "writer_inv w" and room: "unat (w_position w) + unat n < 2 ^ 62"
  obtains
    (ready) w' where "ensure_capacity A n w = (Ok (), w')" and "writer_inv w'"
      and "w_contents w' = w_contents w" and "w_position w' = w_position w"
      and "unat (w_position w) + unat n \<le> unat (w_capacity w')"
      and "w_capacity w \<le> w_capacity w'" and "w_auto_grow w' = w_auto_grow w"
  | (full) "ensure_capacity A n w = (Err NEOC_ERROR_BUFFER_OVERFLOW, w)"
      and "\<not> w_auto_grow w" and "unat (w_capacity w) < unat (w_position w) + unat n"
  | (nomem) "ensure_capacity A n w = (Err NEOC_ERROR_MEMORY, w)"
      and "w_auto_grow w" and "\<exists>k < 2 * (unat (w_position w) + unat n). \<not> A k"
      and "unat (w_capacity w) < unat (w_position w) + unat n"
proof -
  let ?req = "w_position w + n"
  have req: "unat ?req = unat (w_position w) + unat n"
    using room by (simp add: unat_plus_size)
  show thesis
  proof (cases "?req \<le> w_capacity w")
    case True
    with inv req show ?thesis
      by (intro ready [of w]) (auto simp: ensure_capacity_def size_le_iff)
  next
    case small: False
    then have less: "unat (w_capacity w) < unat ?req" by (simp add: size_le_iff)
    show ?thesis
    proof (cases "w_auto_grow w")
      case False
      with small less req show ?thesis by (intro full) (auto simp: ensure_capacity_def)
    next
      case True
      have c2: "unat (w_capacity w * GROWTH_FACTOR) = 2 * unat (w_capacity w)"
        using inv by (simp add: writer_inv_def GROWTH_FACTOR_def unat_word_ariths)
      have "\<exists>c'. grow_loop (w_capacity w * GROWTH_FACTOR) ?req = Some c'
              \<and> unat ?req \<le> unat c' \<and> unat c' < 2 * unat ?req"
        by (rule grow_loop_total)
           (use inv less room req c2 in \<open>auto simp: writer_inv_def size_less_iff\<close>)
      then obtain c' where c': "grow_loop (w_capacity w * GROWTH_FACTOR) ?req = Some c'"
        "unat ?req \<le> unat c'" "unat c' < 2 * unat ?req" by blast
      show ?thesis
      proof (cases "A (unat c')")
        case False
        with True small c' less req show ?thesis
          by (intro nomem) (auto simp: ensure_capacity_def intro!: exI [of _ "unat c'"])
      next
        case granted: True
        let ?w' = "w\<lparr>w_data := resize (unat c') (w_data w), w_capacity := c'\<rparr>"
        have "w_contents ?w' = w_contents w"
          using inv c' less by (simp add: w_contents_def take_resize writer_inv_def size_le_iff)
        moreover have "writer_inv ?w'"
          using inv c' less room req by (auto simp: writer_inv_def size_le_iff size_less_iff)
        ultimately show ?thesis
          using True granted small c' less req
          by (intro ready [of ?w']) (auto simp: ensure_capacity_def size_le_iff)
      qed
    qed
  qed
qed

subsection \<open>The contract of a writing command\<close>

text \<open>
  \<open>refusal A w n e\<close>: the error \<open>e\<close> is justified when \<open>w\<close> is asked for \<open>n\<close> more bytes, because
  a fixed buffer is too small or because the allocator refused a request.
\<close>

definition refusal :: "allocator \<Rightarrow> neoc_binary_writer \<Rightarrow> nat \<Rightarrow> neoc_error \<Rightarrow> bool" where
  "refusal A w n e \<longleftrightarrow>
     unat (w_capacity w) < unat (w_position w) + n
     \<and> (if w_auto_grow w
        then e = NEOC_ERROR_MEMORY \<and> (\<exists>k < 2 * (unat (w_position w) + n). \<not> A k)
        else e = NEOC_ERROR_BUFFER_OVERFLOW)"

definition writes :: "allocator \<Rightarrow> (neoc_binary_writer, unit) cmd \<Rightarrow> byte list \<Rightarrow> bool" where
  "writes A m bs \<longleftrightarrow>
     (\<forall>w. writer_inv w \<longrightarrow> unat (w_position w) + length bs < 2 ^ 62 \<longrightarrow>
        (case m w of
           (Ok _, w') \<Rightarrow> writer_inv w' \<and> w_contents w' = w_contents w @ bs
             \<and> w_auto_grow w' = w_auto_grow w \<and> w_capacity w \<le> w_capacity w'
         | (Err e, w') \<Rightarrow> writer_inv w' \<and> (\<exists>bs'. strict_prefix bs' bs \<and> w_contents w' = w_contents w @ bs')
             \<and> w_auto_grow w' = w_auto_grow w \<and> refusal A w (length bs) e
         | (Fault, w') \<Rightarrow> False))"

text \<open>\<open>stores\<close>: the same for a command that runs after the capacity was ensured.\<close>

definition stores :: "(neoc_binary_writer, unit) cmd \<Rightarrow> byte list \<Rightarrow> bool" where
  "stores m bs \<longleftrightarrow>
     (\<forall>w. writer_inv w \<longrightarrow> unat (w_position w) + length bs \<le> unat (w_capacity w) \<longrightarrow>
        (\<exists>w'. m w = (Ok (), w') \<and> writer_inv w' \<and> w_contents w' = w_contents w @ bs
           \<and> w_capacity w' = w_capacity w \<and> w_auto_grow w' = w_auto_grow w))"

lemma w_position_contents:
  "writer_inv w \<Longrightarrow> writer_inv w' \<Longrightarrow> w_contents w' = w_contents w @ bs \<Longrightarrow>
     unat (w_position w') = unat (w_position w) + length bs"
  by (metis length_append length_w_contents)

lemma stores_return: "stores (return_c ()) []"
  by (simp add: stores_def cmd_eval)

lemma stores_then: "stores m bs \<Longrightarrow> stores n cs \<Longrightarrow> stores (then_c m n) (bs @ cs)"
  unfolding stores_def
  by (clarsimp simp: then_c_eval)
     (metis (no_types, opaque_lifting) add.assoc add_leD1 append_assoc then_c_eval(1) w_position_contents)

lemma stores_store_byte: "stores (store_byte v) [v]"
  unfolding stores_def store_byte_def
  by (auto simp: writer_inv_def w_contents_def size_le_iff unat_plus_size take_Suc_conv_app_nth
      less_diff_conv)

lemma stores_store_bytes:
  assumes "unat len \<le> length bs"
  shows "stores (store_bytes bs len) (take (unat len) bs)"
  unfolding stores_def
proof (intro allI impI)
  fix w
  assume inv: "writer_inv w"
    and room: "unat (w_position w) + length (take (unat len) bs) \<le> unat (w_capacity w)"
  let ?w' = "snd (store_bytes bs len w)"
  have n: "length (take (unat len) bs) = unat len" using assms by simp
  have pos: "unat (w_position w + len) = unat (w_position w) + unat len"
    using room n inv by (intro unat_plus_size) (simp add: writer_inv_def)
  show "\<exists>w'. store_bytes bs len w = (Ok (), w') \<and> writer_inv w'
      \<and> w_contents w' = w_contents w @ take (unat len) bs
      \<and> w_capacity w' = w_capacity w \<and> w_auto_grow w' = w_auto_grow w"
    using assms inv room n pos
    by (auto simp: store_bytes_def Let_def writer_inv_def w_contents_def size_le_iff)
qed

lemma stores_foreach:
  "(\<And>x. x \<in> set xs \<Longrightarrow> stores (f x) (enc x)) \<Longrightarrow> stores (foreach_c f xs) (concat (map enc xs))"
  by (induction xs) (auto intro: stores_then stores_return)

lemma writesI_ensure:
  assumes "stores m bs" and "bs \<noteq> []" and "unat n = length bs"
  shows "writes A (then_c (ensure_capacity A n) m) bs"
  unfolding writes_def
proof (intro allI impI)
  fix w
  assume inv: "writer_inv w" and room: "unat (w_position w) + length bs < 2 ^ 62"
  have nil: "strict_prefix [] bs" using assms(2) by (simp add: strict_prefix_def)
  from inv room assms(3) have room': "unat (w_position w) + unat n < 2 ^ 62" by simp
  show "case then_c (ensure_capacity A n) m w of
      (Ok _, w') \<Rightarrow> writer_inv w' \<and> w_contents w' = w_contents w @ bs
        \<and> w_auto_grow w' = w_auto_grow w \<and> w_capacity w \<le> w_capacity w'
    | (Err e, w') \<Rightarrow> writer_inv w' \<and> (\<exists>bs'. strict_prefix bs' bs \<and> w_contents w' = w_contents w @ bs')
        \<and> w_auto_grow w' = w_auto_grow w \<and> refusal A w (length bs) e
    | (Fault, w') \<Rightarrow> False"
    using inv room'
  proof (cases rule: ensure_capacity_cases [of w n A])
    case (ready w')
    then have "unat (w_position w') + length bs \<le> unat (w_capacity w')" using assms(3) by simp
    with assms(1) ready(2) obtain w'' where "m w' = (Ok (), w'')" "writer_inv w''"
      "w_contents w'' = w_contents w' @ bs" "w_capacity w'' = w_capacity w'"
      "w_auto_grow w'' = w_auto_grow w'"
      unfolding stores_def by blast
    with ready show ?thesis by (simp add: then_c_eval)
  next
    case full
    with inv nil assms(3) show ?thesis
      by (auto simp: then_c_eval refusal_def intro!: exI [of _ "[]"])
  next
    case nomem
    with inv nil assms(3) show ?thesis
      by (auto simp: then_c_eval refusal_def intro!: exI [of _ "[]"])
  qed
qed

lemma writes_return [codec_laws]: "writes A (return_c ()) []"
  by (simp add: writes_def cmd_eval)

lemma writes_OkD:
  "writes A m bs \<Longrightarrow> m w = (Ok u, w') \<Longrightarrow> writer_inv w \<Longrightarrow> unat (w_position w) + length bs < 2 ^ 62 \<Longrightarrow>
     writer_inv w' \<and> w_contents w' = w_contents w @ bs \<and> w_auto_grow w' = w_auto_grow w
     \<and> w_capacity w \<le> w_capacity w'"
  unfolding writes_def by fastforce

lemma writes_ErrD:
  "writes A m bs \<Longrightarrow> m w = (Err e, w') \<Longrightarrow> writer_inv w \<Longrightarrow> unat (w_position w) + length bs < 2 ^ 62 \<Longrightarrow>
     writer_inv w' \<and> (\<exists>bs'. strict_prefix bs' bs \<and> w_contents w' = w_contents w @ bs')
     \<and> w_auto_grow w' = w_auto_grow w \<and> refusal A w (length bs) e"
  unfolding writes_def by fastforce

lemma writes_no_Fault:
  "writes A m bs \<Longrightarrow> writer_inv w \<Longrightarrow> unat (w_position w) + length bs < 2 ^ 62 \<Longrightarrow> m w \<noteq> (Fault, w')"
  unfolding writes_def by fastforce

lemma refusal_append:
  assumes "refusal A w1 (length cs) e"
    and "unat (w_position w1) = unat (w_position w) + length bs"
    and "w_capacity w \<le> w_capacity w1" and "w_auto_grow w1 = w_auto_grow w"
  shows "refusal A w (length (bs @ cs)) e"
  using assms by (auto simp: refusal_def size_le_iff add.assoc split: if_splits)

lemma refusal_prefix:
  assumes "refusal A w (length bs) e"
  shows "refusal A w (length (bs @ cs)) e"
proof -
  have "\<exists>k < 2 * (unat (w_position w) + length (bs @ cs)). \<not> A k"
    if "k < 2 * (unat (w_position w) + length bs)" "\<not> A k" for k
    using that by (intro exI [of _ k]) simp
  with assms show ?thesis by (auto simp: refusal_def split: if_splits)
qed

lemma writes_then [codec_laws]:
  assumes m: "writes A m bs" and n: "writes A n cs"
  shows "writes A (then_c m n) (bs @ cs)"
  unfolding writes_def
proof (intro allI impI)
  fix w
  assume inv: "writer_inv w" and room: "unat (w_position w) + length (bs @ cs) < 2 ^ 62"
  then have room_m: "unat (w_position w) + length bs < 2 ^ 62" by simp
  obtain r w1 where mw: "m w = (r, w1)" by fastforce
  show "case then_c m n w of
      (Ok _, w') \<Rightarrow> writer_inv w' \<and> w_contents w' = w_contents w @ bs @ cs
        \<and> w_auto_grow w' = w_auto_grow w \<and> w_capacity w \<le> w_capacity w'
    | (Err e, w') \<Rightarrow> writer_inv w' \<and> (\<exists>bs'. strict_prefix bs' (bs @ cs) \<and> w_contents w' = w_contents w @ bs')
        \<and> w_auto_grow w' = w_auto_grow w \<and> refusal A w (length (bs @ cs)) e
    | (Fault, w') \<Rightarrow> False"
  proof (cases r)
    case (Ok u)
    note w1 = writes_OkD [OF m mw [unfolded Ok] inv room_m]
    then have pos: "unat (w_position w1) = unat (w_position w) + length bs"
      using inv w_position_contents by blast
    with room have room_n: "unat (w_position w1) + length cs < 2 ^ 62" by simp
    obtain r2 w2 where nw: "n w1 = (r2, w2)" by fastforce
    have eq: "then_c m n w = (r2, w2)" using mw nw Ok by (simp add: then_c_eval)
    show ?thesis
    proof (cases r2)
      case (Ok u2)
      with writes_OkD [OF n nw [unfolded Ok] _ room_n] w1 eq show ?thesis by auto
    next
      case (Err e)
      with writes_ErrD [OF n nw [unfolded Err] _ room_n] w1 eq pos
      show ?thesis by (auto intro: refusal_append [simplified])
    next
      case Fault
      with writes_no_Fault [OF n _ room_n] nw w1 show ?thesis by blast
    qed
  next
    case (Err e)
    note w1 = writes_ErrD [OF m mw [unfolded Err] inv room_m]
    then obtain bs' where "strict_prefix bs' bs" "w_contents w1 = w_contents w @ bs'" by blast
    moreover from this have "strict_prefix bs' (bs @ cs)"
      by (auto simp: strict_prefix_def prefix_def)
    ultimately show ?thesis
      using w1 mw Err by (auto simp: then_c_eval intro: refusal_prefix [simplified])
  next
    case Fault
    with writes_no_Fault [OF m inv room_m] mw show ?thesis by blast
  qed
qed

lemma writes_foreach:
  "(\<And>x. x \<in> set xs \<Longrightarrow> writes A (f x) (enc x)) \<Longrightarrow> writes A (foreach_c f xs) (concat (map enc xs))"
  by (induction xs) (auto intro: codec_laws)

text \<open>Where there is room, or where the allocator grants what growth asks for, a writing
  command succeeds.\<close>

lemma writes_succeeds:
  assumes "writes A m bs" and "writer_inv w" and "unat (w_position w) + length bs < 2 ^ 62"
    and "unat (w_position w) + length bs \<le> unat (w_capacity w)
         \<or> w_auto_grow w \<and> grants A (2 * (unat (w_position w) + length bs))"
  obtains w' where "m w = (Ok (), w')" and "writer_inv w'" and "w_contents w' = w_contents w @ bs"
    and "w_auto_grow w' = w_auto_grow w"
proof (cases "m w")
  case (Pair r w')
  show ?thesis
  proof (cases r)
    case (Ok u)
    with that Pair writes_OkD [OF assms(1) _ assms(2,3)] show ?thesis by force
  next
    case (Err e)
    with writes_ErrD [OF assms(1) _ assms(2,3)] Pair have "refusal A w (length bs) e" by blast
    with assms(4) have False by (auto simp: refusal_def grants_def)
    then show ?thesis ..
  next
    case Fault
    with writes_no_Fault [OF assms(1-3)] Pair show ?thesis by blast
  qed
qed

subsection \<open>What the primitive writers append\<close>

definition enc_var_int :: "u64 \<Rightarrow> byte list" where
  "enc_var_int v =
     (if v < 0xFD then [ucast v]
      else if v \<le> 0xFFFF then 0xFD # le_bytes 2 v
      else if v \<le> 0xFFFFFFFF then 0xFE # le_bytes 4 v
      else 0xFF # le_bytes 8 v)"

definition enc_var_bytes :: "byte list \<Rightarrow> byte list" where
  "enc_var_bytes bs = enc_var_int (of_nat (length bs)) @ bs"

lemma writes_write_byte [codec_laws]: "writes A (neoc_binary_writer_write_byte A v) [v]"
  unfolding neoc_binary_writer_write_byte_def
  by (rule writesI_ensure) (auto intro: stores_store_byte)

lemma writes_write_bool: "writes A (neoc_binary_writer_write_bool A b) [of_bool b]"
  using writes_write_byte [of A "of_bool b"] by (simp add: neoc_binary_writer_write_bool_def of_bool_def)

lemma writes_write_bytes_take:
  assumes "unat len \<le> length bs"
  shows "writes A (neoc_binary_writer_write_bytes A (Some bs) len) (take (unat len) bs)"
proof (cases "len = 0")
  case True
  then show ?thesis by (simp add: neoc_binary_writer_write_bytes_def writes_return)
next
  case False
  then have "unat len \<noteq> 0" by (simp add: unat_eq_zero)
  with False show ?thesis
    using assms by (auto simp: neoc_binary_writer_write_bytes_def
        intro!: writesI_ensure stores_store_bytes)
qed

lemma writes_write_bytes [codec_laws]:
  assumes "length bs < 2 ^ 64"
  shows "writes A (neoc_binary_writer_write_bytes A (Some bs) (of_nat (length bs))) bs"
  using writes_write_bytes_take [of "of_nat (length bs)" bs A] assms
  by (simp add: unat_of_nat_size)

lemma le_bytes_2: "le_bytes 2 v = [ucast v, ucast (drop_bit 8 v)]"
  by (simp add: le_bytes_def numeral_2_eq_2)

lemma le_bytes_4:
  "le_bytes 4 v = [ucast v, ucast (drop_bit 8 v), ucast (drop_bit 16 v), ucast (drop_bit 24 v)]"
  by (simp add: le_bytes_def upt_rec)

lemma writes_write_uint16 [codec_laws]: "writes A (neoc_binary_writer_write_uint16 A v) (le_bytes 2 v)"
proof -
  have "stores (then_c (store_byte (ucast v)) (store_byte (ucast (drop_bit 8 v))))
          ([ucast v] @ [ucast (drop_bit 8 v)])"
    by (intro stores_then stores_store_byte)
  then show ?thesis
    unfolding neoc_binary_writer_write_uint16_def byte_of_and
    by (intro writesI_ensure) (simp_all add: le_bytes_2)
qed

lemma writes_write_uint32 [codec_laws]: "writes A (neoc_binary_writer_write_uint32 A v) (le_bytes 4 v)"
proof -
  have "stores (then_c (store_byte (ucast v)) (then_c (store_byte (ucast (drop_bit 8 v)))
          (then_c (store_byte (ucast (drop_bit 16 v))) (store_byte (ucast (drop_bit 24 v))))))
          ([ucast v] @ [ucast (drop_bit 8 v)] @ [ucast (drop_bit 16 v)] @ [ucast (drop_bit 24 v)])"
    by (intro stores_then stores_store_byte)
  then show ?thesis
    unfolding neoc_binary_writer_write_uint32_def byte_of_and
    by (intro writesI_ensure) (simp_all add: le_bytes_4)
qed

lemma writes_write_uint64 [codec_laws]: "writes A (neoc_binary_writer_write_uint64 A v) (le_bytes 8 v)"
proof -
  have "stores (foreach_c (\<lambda>i. store_byte (ucast (drop_bit (i * 8) v))) [0..<8])
          (concat (map (\<lambda>i. [ucast (drop_bit (i * 8) v)]) [0..<8]))"
    by (intro stores_foreach stores_store_byte)
  moreover have "concat (map (\<lambda>i. [ucast (drop_bit (i * 8) v)]) [0..<8]) = le_bytes 8 v"
    by (simp add: le_bytes_def mult.commute)
  ultimately show ?thesis
    unfolding neoc_binary_writer_write_uint64_def byte_of_and
    by (intro writesI_ensure) (simp_all flip: length_0_conv)
qed

lemma le_bytes_ucast:
  fixes v :: "'a::len word"
  assumes "8 * n \<le> LENGTH('b)"
  shows "le_bytes n (ucast v :: 'b::len word) = le_bytes n v"
proof -
  have "(ucast (drop_bit (8 * i) (ucast v :: 'b word)) :: byte) = ucast (drop_bit (8 * i) v)"
    if "i < n" for i
    by (rule bit_word_eqI) (use that assms in \<open>auto simp: bit_simps dest: bit_imp_le_length\<close>)
  then show ?thesis by (simp add: le_bytes_def)
qed

lemma writes_write_var_int [codec_laws]: "writes A (neoc_binary_writer_write_var_int A v) (enc_var_int v)"
proof -
  have "writes A (then_c (neoc_binary_writer_write_byte A 0xFD) (neoc_binary_writer_write_uint16 A (ucast v)))
          ([0xFD] @ le_bytes 2 (ucast v :: u16))"
    and "writes A (then_c (neoc_binary_writer_write_byte A 0xFE) (neoc_binary_writer_write_uint32 A (ucast v)))
          ([0xFE] @ le_bytes 4 (ucast v :: u32))"
    and "writes A (then_c (neoc_binary_writer_write_byte A 0xFF) (neoc_binary_writer_write_uint64 A v))
          ([0xFF] @ le_bytes 8 v)"
    by (intro codec_laws)+
  then show ?thesis
    by (auto simp: neoc_binary_writer_write_var_int_def enc_var_int_def le_bytes_ucast
        intro: writes_write_byte)
qed

lemma writes_write_var_bytes [codec_laws]:
  assumes "length bs < 2 ^ 64"
  shows "writes A (neoc_binary_writer_write_var_bytes A (Some bs) (of_nat (length bs))) (enc_var_bytes bs)"
proof (cases "bs = []")
  case True
  then show ?thesis
    using writes_write_var_int [of A 0]
    by (auto simp: neoc_binary_writer_write_var_bytes_def enc_var_bytes_def then_c_def bind_c_def
        writes_def split: prod.splits result.splits)
next
  case False
  then have "(0 :: size_t) < of_nat (length bs)"
    using assms by (simp add: size_less_iff unat_of_nat_size)
  then show ?thesis
    using writes_then [OF writes_write_var_int writes_write_bytes [OF assms]]
    by (simp add: neoc_binary_writer_write_var_bytes_def enc_var_bytes_def)
qed

lemma writer_create_fresh:
  assumes "neoc_binary_writer_create A n g = Ok w" and "unat n < 2 ^ 63"
  shows "writer_inv w" and "w_contents w = []" and "w_auto_grow w = g" and "w_position w = 0"
  using assms
  by (auto simp: neoc_binary_writer_create_def bind_r_Ok_iff Let_def MIN_CAPACITY_def writer_inv_def
      w_contents_def word_greater_zero_iff split: if_splits)

lemma to_array_contents:
  assumes "writer_inv w" and "A (unat (w_position w))"
  shows "neoc_binary_writer_to_array A w = Ok (w_contents w)"
  using assms by (simp add: neoc_binary_writer_to_array_def w_contents_def writer_inv_def size_le_iff)

end
