(* ===== verification/Binary_Reader.thy ===== *)
theory Binary_Reader
  imports NeoC_Prelude
begin

text \<open>
  \<^verbatim>\<open>src/serialization/binary_reader.c\<close>: the cursor over a byte buffer behind every deserializer.
  The bounds checks are the source's, on 64-bit words, so \<^verbatim>\<open>position + len\<close> can wrap; an access
  outside the buffer is a \<open>Fault\<close>.  The contract \<open>reads\<close> says what a command consumes and
  returns on a well-formed input, the contract \<open>reader_safe\<close> that it is memory safe on every
  input.
\<close>

subsection \<open>State\<close>

record neoc_binary_reader =
  r_data :: "byte list"
  r_size :: size_t
  r_position :: size_t
  r_marker :: size_t

definition SIZE_MAX :: size_t where "SIZE_MAX = - 1"

definition sizeof_binary_reader :: nat where "sizeof_binary_reader = 40"

subsection \<open>Operations\<close>

definition neoc_binary_reader_create ::
  "allocator \<Rightarrow> byte list option \<Rightarrow> size_t \<Rightarrow> neoc_binary_reader result" where
  "neoc_binary_reader_create A data sz =
     (case data of
        None \<Rightarrow> Err NEOC_ERROR_INVALID_ARGUMENT
      | Some bs \<Rightarrow>
          bind_r (malloc_r A sizeof_binary_reader) (\<lambda>_.
          bind_r (malloc_r A (unat sz)) (\<lambda>_.
            if unat sz \<le> length bs
            then Ok \<lparr>r_data = take (unat sz) bs, r_size = sz, r_position = 0, r_marker = SIZE_MAX\<rparr>
            else Fault)))"

definition advance :: "nat \<Rightarrow> neoc_binary_reader \<Rightarrow> neoc_binary_reader" where
  "advance n r = r\<lparr>r_position := r_position r + of_nat n\<rparr>"

text \<open>The \<open>n\<close> bytes from the position, an access outside the buffer being a fault.\<close>

definition fetch :: "nat \<Rightarrow> neoc_binary_reader \<Rightarrow> byte list result" where
  "fetch n r =
     (if unat (r_position r) + n \<le> length (r_data r)
      then Ok (take n (drop (unat (r_position r)) (r_data r))) else Fault)"

text \<open>The accesses, then the advance of the position.\<close>

definition take_bytes :: "nat \<Rightarrow> (neoc_binary_reader, byte list) cmd" where
  "take_bytes n r =
     (case fetch n r of
        Ok bs \<Rightarrow> (Ok bs, advance n r) | Err e \<Rightarrow> (Err e, r) | Fault \<Rightarrow> (Fault, r))"

definition neoc_binary_reader_read_byte :: "(neoc_binary_reader, byte) cmd" where
  "neoc_binary_reader_read_byte r =
     (if r_size r \<le> r_position r then (Err NEOC_ERROR_END_OF_STREAM, r)
      else bind_c (take_bytes 1) (\<lambda>bs. return_c (bs ! 0)) r)"

definition neoc_binary_reader_read_bytes :: "size_t \<Rightarrow> (neoc_binary_reader, byte list) cmd" where
  "neoc_binary_reader_read_bytes len r =
     (if len = 0 then (Ok [], r)
      else if r_size r < r_position r + len then (Err NEOC_ERROR_END_OF_STREAM, r)
      else take_bytes (unat len) r)"

definition neoc_binary_reader_read_bool :: "(neoc_binary_reader, bool) cmd" where
  "neoc_binary_reader_read_bool =
     bind_c neoc_binary_reader_read_byte (\<lambda>byte_val. return_c (byte_val \<noteq> 0))"

definition neoc_binary_reader_read_uint16 :: "(neoc_binary_reader, u16) cmd" where
  "neoc_binary_reader_read_uint16 r =
     (if r_size r < r_position r + 2 then (Err NEOC_ERROR_END_OF_STREAM, r)
      else bind_c (take_bytes 2)
             (\<lambda>bs. return_c (ucast (bs ! 0) OR push_bit 8 (ucast (bs ! 1)))) r)"

definition neoc_binary_reader_read_uint32 :: "(neoc_binary_reader, u32) cmd" where
  "neoc_binary_reader_read_uint32 r =
     (if r_size r < r_position r + 4 then (Err NEOC_ERROR_END_OF_STREAM, r)
      else bind_c (take_bytes 4)
             (\<lambda>bs. return_c (ucast (bs ! 0) OR push_bit 8 (ucast (bs ! 1))
                OR push_bit 16 (ucast (bs ! 2)) OR push_bit 24 (ucast (bs ! 3)))) r)"

definition neoc_binary_reader_read_uint64 :: "(neoc_binary_reader, u64) cmd" where
  "neoc_binary_reader_read_uint64 r =
     (if r_size r < r_position r + 8 then (Err NEOC_ERROR_END_OF_STREAM, r)
      else bind_c (take_bytes 8)
             (\<lambda>bs. return_c (fold (\<lambda>i value. value OR push_bit (i * 8) (ucast (bs ! i))) [0..<8] 0)) r)"

definition neoc_binary_reader_read_int16 :: "(neoc_binary_reader, 16 word) cmd" where
  "neoc_binary_reader_read_int16 = neoc_binary_reader_read_uint16"

definition neoc_binary_reader_read_int32 :: "(neoc_binary_reader, 32 word) cmd" where
  "neoc_binary_reader_read_int32 = neoc_binary_reader_read_uint32"

definition neoc_binary_reader_read_int64 :: "(neoc_binary_reader, 64 word) cmd" where
  "neoc_binary_reader_read_int64 = neoc_binary_reader_read_uint64"

definition neoc_binary_reader_read_var_int :: "(neoc_binary_reader, u64) cmd" where
  "neoc_binary_reader_read_var_int =
     bind_c neoc_binary_reader_read_byte (\<lambda>prefix.
       if prefix < 0xFD then return_c (ucast prefix)
       else if prefix = 0xFD then
         bind_c neoc_binary_reader_read_uint16 (\<lambda>val. return_c (ucast val))
       else if prefix = 0xFE then
         bind_c neoc_binary_reader_read_uint32 (\<lambda>val. return_c (ucast val))
       else neoc_binary_reader_read_uint64)"

text \<open>The result is \<open>None\<close> for the pair of a null pointer and length zero.\<close>

definition neoc_binary_reader_read_var_bytes :: "allocator \<Rightarrow> (neoc_binary_reader, byte list option) cmd" where
  "neoc_binary_reader_read_var_bytes A =
     bind_c neoc_binary_reader_read_var_int (\<lambda>len.
       if SIZE_MAX < len then fail_c NEOC_ERROR_INVALID_FORMAT
       else if len = 0 then return_c None
       else bind_c (malloc_c A (unat len)) (\<lambda>_.
         bind_c (neoc_binary_reader_read_bytes len) (\<lambda>data. return_c (Some data))))"

text \<open>The characters before the terminating zero that the function appends.\<close>

definition neoc_binary_reader_read_var_string :: "allocator \<Rightarrow> (neoc_binary_reader, byte list) cmd" where
  "neoc_binary_reader_read_var_string A =
     bind_c (neoc_binary_reader_read_var_bytes A) (\<lambda>data.
       case data of
         None \<Rightarrow> bind_c (malloc_c A 1) (\<lambda>_. return_c [])
       | Some bs \<Rightarrow> bind_c (malloc_c A (length bs + 1)) (\<lambda>_. return_c bs))"

definition neoc_binary_reader_get_position :: "neoc_binary_reader \<Rightarrow> size_t" where
  "neoc_binary_reader_get_position r = r_position r"

definition neoc_binary_reader_get_remaining :: "neoc_binary_reader \<Rightarrow> size_t" where
  "neoc_binary_reader_get_remaining r =
     (if r_size r \<le> r_position r then 0 else r_size r - r_position r)"

definition neoc_binary_reader_is_at_end :: "neoc_binary_reader \<Rightarrow> bool" where
  "neoc_binary_reader_is_at_end r \<longleftrightarrow> r_size r \<le> r_position r"

definition neoc_binary_reader_seek :: "size_t \<Rightarrow> (neoc_binary_reader, unit) cmd" where
  "neoc_binary_reader_seek position r =
     (if r_size r < position then (Err NEOC_ERROR_INVALID_ARGUMENT, r)
      else (Ok (), r\<lparr>r_position := position\<rparr>))"

definition neoc_binary_reader_skip :: "size_t \<Rightarrow> (neoc_binary_reader, unit) cmd" where
  "neoc_binary_reader_skip count r =
     (if r_size r < r_position r + count then (Err NEOC_ERROR_END_OF_STREAM, r)
      else (Ok (), r\<lparr>r_position := r_position r + count\<rparr>))"

definition neoc_binary_reader_mark :: "(neoc_binary_reader, unit) cmd" where
  "neoc_binary_reader_mark r = (Ok (), r\<lparr>r_marker := r_position r\<rparr>)"

definition neoc_binary_reader_reset :: "(neoc_binary_reader, unit) cmd" where
  "neoc_binary_reader_reset r =
     (if r_marker r = SIZE_MAX then (Err NEOC_ERROR_INVALID_STATE, r)
      else (Ok (), r\<lparr>r_position := r_marker r\<rparr>))"

definition neoc_binary_reader_read_encoded_ec_point :: "allocator \<Rightarrow> (neoc_binary_reader, byte list) cmd" where
  "neoc_binary_reader_read_encoded_ec_point A =
     bind_c neoc_binary_reader_read_byte (\<lambda>byte.
       if byte = 0x02 \<or> byte = 0x03 then
         bind_c (malloc_c A 33) (\<lambda>_.
           bind_c (neoc_binary_reader_read_bytes 32) (\<lambda>bs. return_c (byte # bs)))
       else fail_c NEOC_ERROR_INVALID_DATA)"

definition read_push_size :: "byte \<Rightarrow> (neoc_binary_reader, size_t) cmd" where
  "read_push_size byte =
     (if byte = 0x0C then bind_c neoc_binary_reader_read_byte (\<lambda>size8. return_c (ucast size8))
      else if byte = 0x0D then bind_c neoc_binary_reader_read_uint16 (\<lambda>size16. return_c (ucast size16))
      else if byte = 0x0E then bind_c neoc_binary_reader_read_uint32 (\<lambda>size32. return_c (ucast size32))
      else fail_c NEOC_ERROR_INVALID_DATA)"

definition neoc_binary_reader_read_push_data :: "allocator \<Rightarrow> (neoc_binary_reader, byte list) cmd" where
  "neoc_binary_reader_read_push_data A =
     bind_c neoc_binary_reader_read_byte (\<lambda>byte.
       bind_c (read_push_size byte) (\<lambda>size.
         if size = 0 then bind_c (malloc_c A 1) (\<lambda>_. return_c [])
         else bind_c (malloc_c A (unat size)) (\<lambda>_. neoc_binary_reader_read_bytes size)))"

definition neoc_binary_reader_read_var_bytes_max ::
  "allocator \<Rightarrow> size_t \<Rightarrow> (neoc_binary_reader, byte list) cmd" where
  "neoc_binary_reader_read_var_bytes_max A max_length =
     bind_c neoc_binary_reader_read_var_int (\<lambda>len.
       if max_length < len then fail_c NEOC_ERROR_INVALID_DATA
       else if len = 0 then bind_c (malloc_c A 1) (\<lambda>_. return_c [])
       else bind_c (malloc_c A (unat len)) (\<lambda>_. neoc_binary_reader_read_bytes len))"

definition neoc_binary_reader_read_var_int_max :: "u64 \<Rightarrow> (neoc_binary_reader, u64) cmd" where
  "neoc_binary_reader_read_var_int_max max_value =
     bind_c neoc_binary_reader_read_var_int (\<lambda>value.
       if max_value < value then fail_c NEOC_ERROR_INVALID_DATA else return_c value)"

definition neoc_binary_reader_read_push_string :: "allocator \<Rightarrow> (neoc_binary_reader, byte list) cmd" where
  "neoc_binary_reader_read_push_string A =
     bind_c (neoc_binary_reader_read_push_data A) (\<lambda>data.
       bind_c (malloc_c A (length data + 1)) (\<lambda>_. return_c data))"

text \<open>
  The number of operand bytes of a \<^verbatim>\<open>PUSHINT\<close> opcode.  \<^verbatim>\<open>NEOC_OP_PUSHINT8 = 0x00\<close> up to
  \<^verbatim>\<open>NEOC_OP_PUSHINT256 = 0x05\<close>, \<^verbatim>\<open>NEOC_OP_PUSHM1 = 0x0F\<close>, \<^verbatim>\<open>NEOC_OP_PUSH0 = 0x10\<close>,
  \<^verbatim>\<open>NEOC_OP_PUSH1 = 0x11\<close>, \<^verbatim>\<open>NEOC_OP_PUSH16 = 0x20\<close> (\<^verbatim>\<open>include/neoc/script/opcode.h\<close>).
\<close>

definition pushint_count :: "byte \<Rightarrow> size_t option" where
  "pushint_count byte =
     (if byte = 0x00 then Some 1 else if byte = 0x01 then Some 2 else if byte = 0x02 then Some 4
      else if byte = 0x03 then Some 8 else if byte = 0x04 then Some 16
      else if byte = 0x05 then Some 32 else None)"

text \<open>
  The integer's bytes, least significant first, and the sign flag.  \<^verbatim>\<open>*(int32_t*)*data = val\<close>
  stores the bytes of \<open>val\<close> in the order of a little-endian host.
\<close>

definition neoc_binary_reader_read_push_big_int ::
  "allocator \<Rightarrow> (neoc_binary_reader, byte list \<times> bool) cmd" where
  "neoc_binary_reader_read_push_big_int A =
     bind_c neoc_binary_reader_read_byte (\<lambda>byte.
       if byte = 0x10 then return_c ([], False)
       else if 0x11 \<le> byte \<and> byte \<le> 0x20 then
         bind_c (malloc_c A 4) (\<lambda>_. return_c (le_bytes 4 (ucast (byte - 0x11 + 1) :: 32 word), False))
       else if byte = 0x0F then
         bind_c (malloc_c A 4) (\<lambda>_. return_c (le_bytes 4 (1 :: 32 word), True))
       else
         (case pushint_count byte of
            None \<Rightarrow> fail_c NEOC_ERROR_INVALID_DATA
          | Some count \<Rightarrow>
              bind_c (malloc_c A (unat count)) (\<lambda>_.
                bind_c (neoc_binary_reader_read_bytes count) (\<lambda>data.
                  return_c (data, bit (data ! (unat count - 1)) 7)))))"

text \<open>\<^verbatim>\<open>-(int32_t)result\<close> overflows for the least integer, which is undefined in C.\<close>

definition neoc_binary_reader_read_push_int :: "allocator \<Rightarrow> (neoc_binary_reader, 32 word) cmd" where
  "neoc_binary_reader_read_push_int A =
     bind_c (neoc_binary_reader_read_push_big_int A) (\<lambda>(data, is_negative).
       if 4 < length data then fail_c NEOC_ERROR_INVALID_DATA
       else
         let result = fold (\<lambda>i result. result OR push_bit (i * 8) (ucast (data ! i)))
                        [0..<length data] (0 :: u32)
         in if is_negative
            then (if result = 0x80000000 then lift_c Fault else return_c (- result))
            else return_c result)"

subsection \<open>Invariant, remaining bytes\<close>

definition r_rest :: "neoc_binary_reader \<Rightarrow> byte list" where
  "r_rest r = drop (unat (r_position r)) (r_data r)"

definition reader_inv :: "neoc_binary_reader \<Rightarrow> bool" where
  "reader_inv r \<longleftrightarrow>
     length (r_data r) = unat (r_size r) \<and> r_position r \<le> r_size r \<and> unat (r_size r) < 2 ^ 63
     \<and> (r_marker r = SIZE_MAX \<or> r_marker r \<le> r_size r)"

lemma length_r_rest: "reader_inv r \<Longrightarrow> length (r_rest r) = unat (r_size r) - unat (r_position r)"
  by (simp add: reader_inv_def r_rest_def)

lemma advance_0 [simp]: "advance 0 r = r"
  by (simp add: advance_def)

lemma advance_advance [simp]: "advance m (advance n r) = advance (n + m) r"
  by (simp add: advance_def add.assoc)

lemma unat_advance:
  assumes "reader_inv r" and "n \<le> length (r_rest r)"
  shows "unat (r_position r + of_nat n) = unat (r_position r) + n"
proof -
  have "n < 2 ^ 63" using assms by (auto simp: length_r_rest reader_inv_def)
  moreover from this have "unat (of_nat n :: size_t) = n" by (simp add: unat_of_nat_size)
  ultimately show ?thesis
    using assms by (subst unat_plus_size) (auto simp: reader_inv_def size_le_iff)
qed

lemma advance_inv: "reader_inv r \<Longrightarrow> n \<le> length (r_rest r) \<Longrightarrow> reader_inv (advance n r)"
  using unat_advance [of r n] length_r_rest [of r]
  by (auto simp: reader_inv_def advance_def size_le_iff)

lemma advance_rest: "reader_inv r \<Longrightarrow> n \<le> length (r_rest r) \<Longrightarrow> r_rest (advance n r) = drop n (r_rest r)"
  using unat_advance [of r n] by (simp add: r_rest_def advance_def add.commute)

lemma take_bytes_eval:
  assumes "reader_inv r" and "n \<le> length (r_rest r)"
  shows "take_bytes n r = (Ok (take n (r_rest r)), advance n r)"
  using assms by (auto simp: take_bytes_def fetch_def r_rest_def reader_inv_def size_le_iff)

text \<open>The source's bounds check, where the sum cannot wrap, is the mathematical one.\<close>

lemma bounds_check:
  assumes "reader_inv r" and "unat n \<le> 2 ^ 63"
  shows "r_size r < r_position r + n \<longleftrightarrow> length (r_rest r) < unat n"
proof -
  have "unat (r_position r + n) = unat (r_position r) + unat n"
    using assms by (intro unat_plus_size) (auto simp: reader_inv_def size_le_iff)
  with assms show ?thesis
    by (auto simp: size_less_iff length_r_rest reader_inv_def size_le_iff)
qed

lemma at_end_iff: "reader_inv r \<Longrightarrow> r_size r \<le> r_position r \<longleftrightarrow> r_rest r = []"
  by (simp add: reader_inv_def r_rest_def size_le_iff)

subsection \<open>The contract of a reading command\<close>

definition reads :: "(neoc_binary_reader, 'a) cmd \<Rightarrow> byte list \<Rightarrow> 'a \<Rightarrow> bool" where
  "reads m bs x \<longleftrightarrow>
     (\<forall>r rest. reader_inv r \<longrightarrow> r_rest r = bs @ rest \<longrightarrow> m r = (Ok x, advance (length bs) r))"

lemma readsD: "reads m bs x \<Longrightarrow> reader_inv r \<Longrightarrow> r_rest r = bs @ rest \<Longrightarrow> m r = (Ok x, advance (length bs) r)"
  by (simp add: reads_def)

lemma reads_return [codec_laws]: "reads (return_c x) [] x"
  by (simp add: reads_def cmd_eval)

lemma reads_bind [codec_laws]:
  assumes "reads m bs x" and "reads (f x) cs y"
  shows "reads (bind_c m f) (bs @ cs) y"
  unfolding reads_def
proof (intro allI impI)
  fix r rest
  assume inv: "reader_inv r" and rest: "r_rest r = (bs @ cs) @ rest"
  then have m: "m r = (Ok x, advance (length bs) r)" using assms(1) by (auto intro: readsD)
  have len: "length bs \<le> length (r_rest r)" using rest by simp
  have "f x (advance (length bs) r) = (Ok y, advance (length cs) (advance (length bs) r))"
    by (rule readsD [OF assms(2)]) (use inv rest len in \<open>auto simp: advance_inv advance_rest\<close>)
  with m show "bind_c m f r = (Ok y, advance (length (bs @ cs)) r)"
    by (simp add: bind_c_eval)
qed

text \<open>A command that continues with a pure computation on the value read.\<close>

lemma reads_map: "reads m bs x \<Longrightarrow> y = g x \<Longrightarrow> reads (bind_c m (\<lambda>x. return_c (g x))) bs y"
  using reads_bind [of m bs x "\<lambda>x. return_c (g x)" "[]"] reads_return by fastforce

lemma reads_read_byte [codec_laws]: "reads neoc_binary_reader_read_byte [b] b"
  by (auto simp: reads_def neoc_binary_reader_read_byte_def at_end_iff bind_c_eval cmd_eval take_bytes_eval)

lemma reads_take_bytes:
  assumes "unat n = length bs" and "length bs < 2 ^ 63"
    and "\<And>r. m r = (if r_size r < r_position r + n then (Err e, r) else bind_c (take_bytes (unat n)) (\<lambda>bs. return_c (g bs)) r)"
  shows "reads m bs (g bs)"
  unfolding reads_def
proof (intro allI impI)
  fix r rest
  assume inv: "reader_inv r" and rest: "r_rest r = bs @ rest"
  then have "\<not> r_size r < r_position r + n"
    using assms(1,2) by (simp add: bounds_check)
  with inv rest assms(1) show "m r = (Ok (g bs), advance (length bs) r)"
    by (simp add: assms(3) bind_c_eval cmd_eval take_bytes_eval)
qed

lemma reads_read_bytes [codec_laws]:
  assumes "unat n = length bs" and "length bs < 2 ^ 63"
  shows "reads (neoc_binary_reader_read_bytes n) bs bs"
proof (cases "n = 0")
  case True
  then show ?thesis using assms by (auto simp: reads_def neoc_binary_reader_read_bytes_def)
next
  case False
  show ?thesis
    by (rule reads_take_bytes [OF assms, where g = "\<lambda>bs. bs" and e = NEOC_ERROR_END_OF_STREAM])
       (use False in \<open>simp add: neoc_binary_reader_read_bytes_def\<close>)
qed

lemma fold_or_bytes:
  "fold (\<lambda>i v. v OR push_bit (i * 8) (ucast (bs ! i))) [0..<length bs] (0 :: 'a::len word) = of_le bs"
proof (induction bs rule: rev_induct)
  case Nil
  then show ?case by simp
next
  case (snoc b bs)
  have "fold (\<lambda>i v. v OR push_bit (i * 8) (ucast ((bs @ [b]) ! i))) [0..<length bs] (0 :: 'a word)
      = fold (\<lambda>i v. v OR push_bit (i * 8) (ucast (bs ! i))) [0..<length bs] 0"
    by (rule fold_cong) (auto simp: nth_append)
  moreover have "(of_le (bs @ [b]) :: 'a word) = of_le bs OR push_bit (length bs * 8) (ucast b)"
    by (induction bs) (simp_all add: push_bit_or push_bit_push_bit or.assoc)
  ultimately show ?case using snoc by simp
qed

lemma of_le_2: "length bs = 2 \<Longrightarrow> (ucast (bs ! 0) OR push_bit 8 (ucast (bs ! 1)) :: 'a::len word) = of_le bs"
  by (auto simp: numeral_2_eq_2 length_Suc_conv)

lemma of_le_4:
  "length bs = 4 \<Longrightarrow>
     (ucast (bs ! 0) OR push_bit 8 (ucast (bs ! 1)) OR push_bit 16 (ucast (bs ! 2))
        OR push_bit 24 (ucast (bs ! 3)) :: 'a::len word) = of_le bs"
  by (auto simp: eval_nat_numeral length_Suc_conv push_bit_or or.assoc)

lemma reads_read_uint16 [codec_laws]: "reads neoc_binary_reader_read_uint16 (le_bytes 2 v) v"
proof -
  let ?g = "\<lambda>bs :: byte list. ucast (bs ! 0) OR push_bit 8 (ucast (bs ! 1)) :: u16"
  have "reads neoc_binary_reader_read_uint16 (le_bytes 2 v) (?g (le_bytes 2 v))"
    by (rule reads_take_bytes [where n = 2 and e = NEOC_ERROR_END_OF_STREAM and g = ?g])
       (simp_all add: neoc_binary_reader_read_uint16_def)
  moreover have "?g (le_bytes 2 v) = v" by (subst of_le_2) (simp_all add: of_le_le_bytes)
  ultimately show ?thesis by simp
qed

lemma reads_read_uint32 [codec_laws]: "reads neoc_binary_reader_read_uint32 (le_bytes 4 v) v"
proof -
  let ?g = "\<lambda>bs :: byte list. ucast (bs ! 0) OR push_bit 8 (ucast (bs ! 1))
              OR push_bit 16 (ucast (bs ! 2)) OR push_bit 24 (ucast (bs ! 3)) :: u32"
  have "reads neoc_binary_reader_read_uint32 (le_bytes 4 v) (?g (le_bytes 4 v))"
    by (rule reads_take_bytes [where n = 4 and e = NEOC_ERROR_END_OF_STREAM and g = ?g])
       (simp_all add: neoc_binary_reader_read_uint32_def)
  moreover have "?g (le_bytes 4 v) = v" by (subst of_le_4) (simp_all add: of_le_le_bytes)
  ultimately show ?thesis by simp
qed

lemma reads_read_uint64 [codec_laws]: "reads neoc_binary_reader_read_uint64 (le_bytes 8 v) v"
proof -
  let ?g = "\<lambda>bs :: byte list. fold (\<lambda>i value. value OR push_bit (i * 8) (ucast (bs ! i))) [0..<8] (0 :: u64)"
  have "reads neoc_binary_reader_read_uint64 (le_bytes 8 v) (?g (le_bytes 8 v))"
    by (rule reads_take_bytes [where n = 8 and e = NEOC_ERROR_END_OF_STREAM and g = ?g])
       (simp_all add: neoc_binary_reader_read_uint64_def)
  moreover have "?g (le_bytes 8 v) = v"
    using fold_or_bytes [of "le_bytes 8 v", where ?'a = 64] by (simp add: of_le_le_bytes)
  ultimately show ?thesis by simp
qed

subsection \<open>Memory safety on every input\<close>

text \<open>
  \<open>reader_safe m\<close>: from every well-formed reader, whatever the bytes are, the command has a
  defined outcome, keeps the buffer and moves the position forward inside it.
\<close>

definition reader_safe :: "(neoc_binary_reader, 'a) cmd \<Rightarrow> bool" where
  "reader_safe m \<longleftrightarrow>
     (\<forall>r. reader_inv r \<longrightarrow>
        fst (m r) \<noteq> Fault \<and> (\<exists>k \<le> length (r_rest r). snd (m r) = advance k r))"

text \<open>No C object is larger than \<^verbatim>\<open>PTRDIFF_MAX\<close>, so no allocation of that size succeeds.\<close>

definition alloc_bounded :: "allocator \<Rightarrow> bool" where
  "alloc_bounded A \<longleftrightarrow> (\<forall>n. A n \<longrightarrow> n < 2 ^ 63)"

lemma reader_safe_return [codec_laws]: "reader_safe (return_c x)"
  by (auto simp: reader_safe_def cmd_eval intro: exI [of _ 0])

lemma reader_safe_fail [codec_laws]: "reader_safe (fail_c e)"
  by (auto simp: reader_safe_def cmd_eval intro: exI [of _ 0])

lemma reader_safe_malloc: "reader_safe (malloc_c A n)"
  by (simp add: malloc_c_def reader_safe_return reader_safe_fail)

lemma reader_safe_bind [codec_laws]:
  assumes m: "reader_safe m" and f: "\<And>x. reader_safe (f x)"
  shows "reader_safe (bind_c m f)"
  unfolding reader_safe_def
proof (intro allI impI)
  fix r
  assume inv: "reader_inv r"
  obtain res r1 where mr: "m r = (res, r1)" by fastforce
  with m inv obtain k where k: "k \<le> length (r_rest r)" "r1 = advance k r" and "res \<noteq> Fault"
    unfolding reader_safe_def by (metis fst_conv snd_conv)
  show "fst (bind_c m f r) \<noteq> Fault \<and> (\<exists>k \<le> length (r_rest r). snd (bind_c m f r) = advance k r)"
  proof (cases res)
    case (Ok x)
    have inv1: "reader_inv r1" using k inv by (simp add: advance_inv)
    with f [of x] obtain j where j: "j \<le> length (r_rest r1)" "snd (f x r1) = advance j r1"
      and "fst (f x r1) \<noteq> Fault" unfolding reader_safe_def by blast
    moreover have "k + j \<le> length (r_rest r)" using j k inv by (simp add: advance_rest)
    ultimately show ?thesis using mr Ok k by (auto simp: bind_c_eval)
  next
    case (Err e)
    with mr k show ?thesis by (auto simp: bind_c_eval)
  next
    case Fault
    with \<open>res \<noteq> Fault\<close> show ?thesis by simp
  qed
qed

lemma reader_safe_check:
  assumes "unat n \<le> 2 ^ 63"
    and "\<And>r. m r = (if r_size r < r_position r + n then (Err e, r) else bind_c (take_bytes (unat n)) (\<lambda>bs. return_c (g bs)) r)"
  shows "reader_safe m"
  unfolding reader_safe_def
proof (intro allI impI)
  fix r
  assume "reader_inv r"
  with assms(1) show "fst (m r) \<noteq> Fault \<and> (\<exists>k \<le> length (r_rest r). snd (m r) = advance k r)"
    unfolding assms(2)
    by (auto simp: bounds_check bind_c_eval cmd_eval take_bytes_eval not_less intro: exI [of _ 0])
qed

lemma reader_safe_byte [codec_laws]: "reader_safe neoc_binary_reader_read_byte"
  unfolding reader_safe_def neoc_binary_reader_read_byte_def
  by (auto simp: at_end_iff bind_c_eval cmd_eval take_bytes_eval Suc_le_eq intro: exI [of _ 0] exI [of _ 1])

lemma reader_safe_bytes [codec_laws]:
  assumes "unat n \<le> 2 ^ 63"
  shows "reader_safe (neoc_binary_reader_read_bytes n)"
proof (cases "n = 0")
  case True
  then show ?thesis by (auto simp: reader_safe_def neoc_binary_reader_read_bytes_def intro: exI [of _ 0])
next
  case False
  show ?thesis
    by (rule reader_safe_check [OF assms, where e = NEOC_ERROR_END_OF_STREAM and g = "\<lambda>bs. bs"])
       (use False in \<open>simp add: neoc_binary_reader_read_bytes_def\<close>)
qed

lemma reader_safe_uint16 [codec_laws]: "reader_safe neoc_binary_reader_read_uint16"
  by (rule reader_safe_check [where n = 2 and e = NEOC_ERROR_END_OF_STREAM
        and g = "\<lambda>bs. ucast (bs ! 0) OR push_bit 8 (ucast (bs ! 1))"])
     (simp_all add: neoc_binary_reader_read_uint16_def)

lemma reader_safe_uint32 [codec_laws]: "reader_safe neoc_binary_reader_read_uint32"
  by (rule reader_safe_check [where n = 4 and e = NEOC_ERROR_END_OF_STREAM
        and g = "\<lambda>bs. ucast (bs ! 0) OR push_bit 8 (ucast (bs ! 1))
                OR push_bit 16 (ucast (bs ! 2)) OR push_bit 24 (ucast (bs ! 3))"])
     (simp_all add: neoc_binary_reader_read_uint32_def)

lemma reader_safe_uint64 [codec_laws]: "reader_safe neoc_binary_reader_read_uint64"
  by (rule reader_safe_check [where n = 8 and e = NEOC_ERROR_END_OF_STREAM
        and g = "\<lambda>bs. fold (\<lambda>i value. value OR push_bit (i * 8) (ucast (bs ! i))) [0..<8] 0"])
     (simp_all add: neoc_binary_reader_read_uint64_def)

lemma reader_safe_var_int [codec_laws]: "reader_safe neoc_binary_reader_read_var_int"
  unfolding neoc_binary_reader_read_var_int_def
  by (intro reader_safe_bind codec_laws) (auto intro: codec_laws)

text \<open>A command that runs only after an allocation was granted.\<close>

lemma reader_safe_alloc:
  assumes "alloc_bounded A" and "n \<le> 2 ^ 63 \<Longrightarrow> reader_safe (g ())"
  shows "reader_safe (bind_c (malloc_c A n) g)"
proof (cases "A n")
  case True
  with assms show ?thesis by (simp add: alloc_bounded_def less_imp_le)
next
  case False
  then show ?thesis by (simp add: reader_safe_fail)
qed

lemma reader_safe_alloc_bytes [codec_laws]:
  assumes "alloc_bounded A"
  shows "reader_safe (bind_c (malloc_c A (unat n)) (\<lambda>_. neoc_binary_reader_read_bytes n))"
  by (intro reader_safe_alloc assms reader_safe_bytes)

lemma reader_safe_var_bytes [codec_laws]:
  assumes "alloc_bounded A"
  shows "reader_safe (neoc_binary_reader_read_var_bytes A)"
  unfolding neoc_binary_reader_read_var_bytes_def
  by (intro reader_safe_bind reader_safe_var_int)
     (auto intro!: reader_safe_alloc assms intro: codec_laws)

lemma reader_safe_alloc_return [codec_laws]: "reader_safe (bind_c (malloc_c A n) (\<lambda>_. return_c x))"
  by (intro reader_safe_bind reader_safe_malloc reader_safe_return)

lemma reader_safe_var_string [codec_laws]:
  "alloc_bounded A \<Longrightarrow> reader_safe (neoc_binary_reader_read_var_string A)"
  unfolding neoc_binary_reader_read_var_string_def
  by (intro reader_safe_bind reader_safe_var_bytes)
     (auto intro: codec_laws split: option.split)

lemma reader_safe_ec_point [codec_laws]: "reader_safe (neoc_binary_reader_read_encoded_ec_point A)"
  unfolding neoc_binary_reader_read_encoded_ec_point_def
  by (auto intro!: reader_safe_bind reader_safe_malloc reader_safe_bytes intro: codec_laws)

lemma reader_safe_push_size [codec_laws]: "reader_safe (read_push_size b)"
  unfolding read_push_size_def
  by (auto intro!: reader_safe_bind intro: codec_laws)

lemma reader_safe_push_data [codec_laws]:
  "alloc_bounded A \<Longrightarrow> reader_safe (neoc_binary_reader_read_push_data A)"
  unfolding neoc_binary_reader_read_push_data_def
  by (intro reader_safe_bind codec_laws) (auto intro: codec_laws)

lemma reader_safe_push_string [codec_laws]:
  "alloc_bounded A \<Longrightarrow> reader_safe (neoc_binary_reader_read_push_string A)"
  unfolding neoc_binary_reader_read_push_string_def
  by (intro reader_safe_bind reader_safe_push_data reader_safe_malloc reader_safe_return)

lemma reader_safe_var_bytes_max [codec_laws]:
  "alloc_bounded A \<Longrightarrow> reader_safe (neoc_binary_reader_read_var_bytes_max A n)"
  unfolding neoc_binary_reader_read_var_bytes_max_def
  by (intro reader_safe_bind codec_laws) (auto intro: codec_laws)

lemma reader_safe_var_int_max [codec_laws]: "reader_safe (neoc_binary_reader_read_var_int_max n)"
  unfolding neoc_binary_reader_read_var_int_max_def
  by (intro reader_safe_bind codec_laws) (auto intro: codec_laws)

lemma reader_safe_push_big_int [codec_laws]: "reader_safe (neoc_binary_reader_read_push_big_int A)"
proof -
  have "unat count \<le> 2 ^ 63" if "pushint_count b = Some count" for b count
    using that by (auto simp: pushint_count_def split: if_splits)
  then show ?thesis
    unfolding neoc_binary_reader_read_push_big_int_def
    by (auto intro!: reader_safe_bind reader_safe_malloc reader_safe_bytes
        intro: codec_laws split: option.split)
qed

end
