(* ===== verification/Codec.thy ===== *)
theory Codec
  imports Binary_Writer Binary_Reader
begin

text \<open>
  The wire format shared by \<^verbatim>\<open>binary_writer.c\<close> and \<^verbatim>\<open>binary_reader.c\<close>.  The locale \<open>codec\<close> is the
  interface between a serializer and a deserializer: what the one appends, the other
  consumes.  Its lemmas (round trip through a fresh buffer, unique decoding, sequences) are
  proved once and hold for every interpretation; the primitive pairs of the two files are
  interpreted here, the structured ones in the theories of their components.
\<close>

subsection \<open>Whole-buffer runs\<close>

text \<open>
  The frame every \<^verbatim>\<open>*_serialize\<close> function of the library puts around its writes: create a
  growing writer, write, copy the contents out, free the writer.
\<close>

definition run_writer :: "allocator \<Rightarrow> size_t \<Rightarrow> (neoc_binary_writer, unit) cmd \<Rightarrow> byte list result" where
  "run_writer A initial_capacity m =
     bind_r (neoc_binary_writer_create A initial_capacity True) (\<lambda>w.
       case m w of
         (Ok _, w') \<Rightarrow> neoc_binary_writer_to_array A w'
       | (Err e, _) \<Rightarrow> Err e
       | (Fault, _) \<Rightarrow> Fault)"

text \<open>The frame of a \<^verbatim>\<open>*_deserialize\<close> function.\<close>

definition run_reader :: "allocator \<Rightarrow> byte list option \<Rightarrow> size_t \<Rightarrow> (neoc_binary_reader, 'a) cmd \<Rightarrow> 'a result" where
  "run_reader A data len m =
     bind_r (neoc_binary_reader_create A data len) (\<lambda>r. fst (m r))"

lemma reader_create_fresh:
  assumes "length bs < 2 ^ 63" and "grants A (max 40 (length bs))"
  obtains r where "neoc_binary_reader_create A (Some bs) (of_nat (length bs)) = Ok r"
    and "reader_inv r" and "r_rest r = bs"
proof
  have len: "unat (of_nat (length bs) :: size_t) = length bs"
    using assms(1) by (simp add: unat_of_nat_size)
  let ?r = "\<lparr>r_data = bs, r_size = of_nat (length bs), r_position = 0, r_marker = SIZE_MAX\<rparr>"
  show "neoc_binary_reader_create A (Some bs) (of_nat (length bs)) = Ok ?r"
    using assms(2) len by (simp add: neoc_binary_reader_create_def sizeof_binary_reader_def grants_def)
  show "reader_inv ?r" using assms(1) len by (simp add: reader_inv_def)
  show "r_rest ?r = bs" by (simp add: r_rest_def)
qed

lemma run_reader_reads:
  assumes "reads m bs x" and "length (bs @ rest) < 2 ^ 63" and "grants A (max 40 (length (bs @ rest)))"
  shows "run_reader A (Some (bs @ rest)) (of_nat (length (bs @ rest))) m = Ok x"
  using assms(2,3)
proof (rule reader_create_fresh)
  fix r
  assume "neoc_binary_reader_create A (Some (bs @ rest)) (of_nat (length (bs @ rest))) = Ok r"
    and "reader_inv r" and "r_rest r = bs @ rest"
  with readsD [OF assms(1)] show ?thesis by (simp add: run_reader_def)
qed

text \<open>
  A writing command run on a fresh growing buffer either yields exactly its bytes or fails
  with the out-of-memory code, and it yields them when the allocator grants the requests.
\<close>

lemma run_writer_cases:
  assumes "writes A m bs" and "length bs < 2 ^ 62" and "unat cap < 2 ^ 63"
  shows "run_writer A cap m = Ok bs \<or> run_writer A cap m = Err NEOC_ERROR_MEMORY"
proof (cases "neoc_binary_writer_create A cap True")
  case (Ok w)
  note fresh = writer_create_fresh [OF Ok assms(3)]
  then have room: "unat (w_position w) + length bs < 2 ^ 62" using assms(2) by simp
  obtain res w' where mw: "m w = (res, w')" by fastforce
  show ?thesis
  proof (cases res)
    case ok: (Ok u)
    have "writer_inv w'" and "w_contents w' = bs"
      using writes_OkD [OF assms(1) mw [unfolded ok] fresh(1) room] fresh(2) by auto
    then show ?thesis
      using Ok mw ok to_array_contents [of w' A]
      by (cases "A (unat (w_position w'))") (simp_all add: run_writer_def neoc_binary_writer_to_array_def)
  next
    case (Err e)
    then have "refusal A w (length bs) e" using writes_ErrD [OF assms(1) _ fresh(1) room] mw by blast
    then have "e = NEOC_ERROR_MEMORY" using fresh(3) by (simp add: refusal_def)
    with Ok mw Err show ?thesis by (simp add: run_writer_def)
  next
    case Fault
    with writes_no_Fault [OF assms(1) fresh(1) room] mw show ?thesis by blast
  qed
qed (auto simp: run_writer_def neoc_binary_writer_create_def malloc_r_def Let_def split: if_splits)

lemma run_writer_Ok:
  assumes "writes A m bs" and "length bs < 2 ^ 62" and "unat cap < 2 ^ 63"
    and "grants A (max 32 (unat cap + 2 * length bs))"
  shows "run_writer A cap m = Ok bs"
proof -
  have A: "A n" if "n \<le> max 32 (unat cap + 2 * length bs)" for n
    using assms(4) that by (simp add: grants_def)
  obtain w where w: "neoc_binary_writer_create A cap True = Ok w"
    by (simp add: neoc_binary_writer_create_def Let_def A sizeof_binary_writer_def MIN_CAPACITY_def)
  note fresh = writer_create_fresh [OF w assms(3)]
  have "grants A (2 * (unat (w_position w) + length bs))"
    using fresh(4) A by (simp add: grants_def)
  with fresh assms(2) obtain w' where "m w = (Ok (), w')" "writer_inv w'" "w_contents w' = bs"
    using writes_succeeds [OF assms(1) fresh(1)] by auto
  moreover from this have "A (unat (w_position w'))"
    using A length_w_contents [of w'] by simp
  ultimately show ?thesis using w by (simp add: run_writer_def to_array_contents)
qed

lemma run_writer_no_Fault:
  "writes A m bs \<Longrightarrow> length bs < 2 ^ 62 \<Longrightarrow> unat cap < 2 ^ 63 \<Longrightarrow> run_writer A cap m \<noteq> Fault"
  using run_writer_cases by fastforce

subsection \<open>Unambiguous encodings\<close>

text \<open>
  No encoding is the start of another one, in inputs of at most the length a reader accepts.
\<close>

definition prefix_free :: "('a \<Rightarrow> bool) \<Rightarrow> ('a \<Rightarrow> byte list) \<Rightarrow> bool" where
  "prefix_free ok enc \<longleftrightarrow>
     (\<forall>x y bs cs. ok x \<longrightarrow> ok y \<longrightarrow> enc x @ bs = enc y @ cs \<longrightarrow> length (enc x @ bs) < 2 ^ 63 \<longrightarrow> x = y \<and> bs = cs)"

lemma prefix_freeD:
  "prefix_free ok enc \<Longrightarrow> ok x \<Longrightarrow> ok y \<Longrightarrow> enc x @ bs = enc y @ cs \<Longrightarrow> length (enc x @ bs) < 2 ^ 63 \<Longrightarrow> x = y \<and> bs = cs"
  unfolding prefix_free_def by blast

lemma prefix_free_fixed: "prefix_free (\<lambda>bs. length bs = n) (\<lambda>bs. bs)"
  by (simp add: prefix_free_def)

lemma prefix_free_same_length:
  assumes "prefix_free ok enc" and "length xs = length ys" and "list_all ok xs" and "list_all ok ys"
    and "concat (map enc xs) @ bs = concat (map enc ys) @ cs" and "length (concat (map enc xs) @ bs) < 2 ^ 63"
  shows "xs = ys \<and> bs = cs"
  using assms(2-)
proof (induction xs ys rule: list_induct2)
  case (Cons x xs y ys)
  have "x = y \<and> concat (map enc xs) @ bs = concat (map enc ys) @ cs"
    using Cons.prems by (intro prefix_freeD [OF assms(1)]) auto
  with Cons show ?case by auto
qed simp

subsection \<open>The interface\<close>

locale codec =
  fixes wr :: "allocator \<Rightarrow> 'a \<Rightarrow> (neoc_binary_writer, unit) cmd"
    and rd :: "allocator \<Rightarrow> (neoc_binary_reader, 'b) cmd"
    and enc :: "'a \<Rightarrow> byte list"
    and val :: "'a \<Rightarrow> 'b"
    and ok :: "'a \<Rightarrow> bool"
  assumes wr_law: "ok x \<Longrightarrow> writes A (wr A x) (enc x)"
    and rd_law: "ok x \<Longrightarrow> grants A (length (enc x)) \<Longrightarrow> reads (rd A) (enc x) (val x)"
begin

lemma roundtrip:
  assumes "ok x" and "length (enc x) < 2 ^ 62" and "unat cap < 2 ^ 63"
    and "grants A (max 40 (unat cap + 2 * length (enc x)))"
  shows "bind_r (run_writer A cap (wr A x)) (\<lambda>bs. run_reader A (Some bs) (of_nat (length bs)) (rd A))
         = Ok (val x)"
proof -
  have "grants A (max 32 (unat cap + 2 * length (enc x)))" "grants A (length (enc x))"
    "grants A (max 40 (length (enc x)))"
    using assms(4) by (auto simp: grants_def)
  with assms show ?thesis
    using run_writer_Ok [OF wr_law [OF assms(1)] assms(2,3)]
      run_reader_reads [OF rd_law [OF assms(1)], of A "[]"] by simp
qed

lemma sequence_written:
  "(\<And>x. x \<in> set xs \<Longrightarrow> ok x) \<Longrightarrow> writes A (foreach_c (wr A) xs) (concat (map enc xs))"
  by (intro writes_foreach wr_law)

end

text \<open>Reading \<open>n\<close> items in a row, stopping at the first error.\<close>

fun repeat_c :: "nat \<Rightarrow> ('s, 'a) cmd \<Rightarrow> ('s, 'a list) cmd" where
  "repeat_c 0 m = return_c []"
| "repeat_c (Suc n) m = bind_c m (\<lambda>x. bind_c (repeat_c n m) (\<lambda>xs. return_c (x # xs)))"

lemma reads_repeat:
  "(\<And>x. x \<in> set xs \<Longrightarrow> reads m (enc x) (val x)) \<Longrightarrow> reads (repeat_c (length xs) m) (concat (map enc xs)) (map val xs)"
proof (induction xs)
  case Nil
  then show ?case using reads_return [of "[]"] by simp
next
  case (Cons x xs)
  have "reads (bind_c (repeat_c (length xs) m) (\<lambda>ys. return_c (val x # ys))) (concat (map enc xs)) (val x # map val xs)"
    by (rule reads_map [where x = "map val xs"]) (use Cons in auto)
  then show ?case using reads_bind [of m "enc x" "val x"] Cons.prems [of x] by simp
qed

context codec begin

lemma sequence_read:
  assumes "\<And>x. x \<in> set xs \<Longrightarrow> ok x" and "grants A (length (concat (map enc xs)))"
  shows "reads (repeat_c (length xs) (rd A)) (concat (map enc xs)) (map val xs)"
  using assms
proof (induction xs)
  case Nil
  then show ?case using reads_return [of "[]"] by simp
next
  case (Cons x xs)
  have g: "grants A (length (enc x))" "grants A (length (concat (map enc xs)))"
    using Cons.prems(2) by (auto simp: grants_def)
  have "reads (bind_c (repeat_c (length xs) (rd A)) (\<lambda>ys. return_c (val x # ys)))
          (concat (map enc xs)) (val x # map val xs)"
    by (rule reads_map [where x = "map val xs"]) (use Cons g in auto)
  then show ?case
    using reads_bind [OF rd_law [of x A]] Cons.prems(1) g(1) by simp
qed

end

text \<open>
  The same interface for values that are built from several objects: both directions may allocate more
  than the bytes they transfer, and \<open>need x\<close> is a size up to which requests have to be granted for \<open>x\<close>.
  Every plain codec is one, with the length of the encoding as its need.
\<close>

locale object_codec =
  fixes wr :: "allocator \<Rightarrow> 'a \<Rightarrow> (neoc_binary_writer, unit) cmd"
    and rd :: "allocator \<Rightarrow> (neoc_binary_reader, 'b) cmd"
    and enc :: "'a \<Rightarrow> byte list"
    and val :: "'a \<Rightarrow> 'b"
    and ok :: "'a \<Rightarrow> bool"
    and need :: "'a \<Rightarrow> nat"
  assumes object_wr: "ok x \<Longrightarrow> grants A (need x) \<Longrightarrow> writes A (wr A x) (enc x)"
    and object_rd: "ok x \<Longrightarrow> grants A (need x) \<Longrightarrow> reads (rd A) (enc x) (val x)"
begin

lemma object_roundtrip:
  assumes "ok x" and "length (enc x) < 2 ^ 62" and "unat cap < 2 ^ 63"
    and "grants A (max 40 (unat cap + 2 * length (enc x) + need x))"
  shows "bind_r (run_writer A cap (wr A x)) (\<lambda>bs. run_reader A (Some bs) (of_nat (length bs)) (rd A))
         = Ok (val x)"
proof -
  have g: "grants A (max 32 (unat cap + 2 * length (enc x)))" "grants A (need x)" "grants A (max 40 (length (enc x)))"
    using assms(4) by (auto simp: grants_def)
  with assms show ?thesis
    using run_writer_Ok [OF object_wr [OF assms(1) g(2)] assms(2,3)]
      run_reader_reads [OF object_rd [OF assms(1) g(2)], of "[]"] by simp
qed

lemma object_injective:
  assumes "ok x" and "ok y" and "enc x = enc y" and "length (enc x) < 2 ^ 63"
  shows "val x = val y"
proof -
  let ?A = "\<lambda>_. True"
  have "run_reader ?A (Some (enc z @ [])) (of_nat (length (enc z @ []))) (rd ?A) = Ok (val z)"
    if "ok z" "length (enc z) < 2 ^ 63" for z
    by (rule run_reader_reads [OF object_rd]) (use that in simp_all)
  from this [OF assms(1)] this [OF assms(2)] assms(3,4) show ?thesis by simp
qed

lemma unique_decoding:
  assumes "ok x" and "ok y" and "enc x @ bs = enc y @ cs" and "length (enc x @ bs) < 2 ^ 63"
  shows "val x = val y" and "length (enc x) = length (enc y)" and "bs = cs"
proof -
  let ?A = "\<lambda>_. True"
  obtain r where r: "reader_inv r" "r_rest r = enc x @ bs"
    using reader_create_fresh [OF assms(4), of ?A] by auto
  have "rd ?A r = (Ok (val x), advance (length (enc x)) r)"
    using readsD [OF object_rd [OF assms(1)] r] by simp
  moreover have "rd ?A r = (Ok (val y), advance (length (enc y)) r)"
    using readsD [OF object_rd [OF assms(2)] r(1) r(2) [unfolded assms(3)]] by simp
  ultimately have "val x = val y" and adv: "advance (length (enc x)) r = advance (length (enc y)) r"
    by auto
  moreover have "length (enc x) = length (enc y)"
    using arg_cong [OF adv, of r_position] unat_advance [OF r(1), of "length (enc x)"]
      unat_advance [OF r(1), of "length (enc y)"] r(2) assms(3)
    by (simp add: advance_def) (metis add_left_cancel le_add1 length_append)
  ultimately show "val x = val y" "length (enc x) = length (enc y)" "bs = cs"
    using assms(3) by auto
qed

lemma prefix_free: "inj_on val (Collect ok) \<Longrightarrow> prefix_free ok enc"
  unfolding prefix_free_def by (metis inj_onD mem_Collect_eq unique_decoding(1,3))

end

sublocale codec \<subseteq> object_codec wr rd enc val ok "\<lambda>x. length (enc x)"
  by unfold_locales (rule wr_law, assumption, rule rd_law)

subsection \<open>What a reader promises about its results\<close>

text \<open>
  \<open>yields m P\<close>: from every well-formed reader the command has a defined outcome, moves forward inside
  the buffer, and what it returns satisfies \<open>P\<close>.
\<close>

definition yields :: "(neoc_binary_reader, 'a) cmd \<Rightarrow> ('a \<Rightarrow> bool) \<Rightarrow> bool" where
  "yields m P \<longleftrightarrow>
     (\<forall>r. reader_inv r \<longrightarrow>
        fst (m r) \<noteq> Fault \<and> (\<exists>k \<le> length (r_rest r). snd (m r) = advance k r) \<and> (\<forall>x. fst (m r) = Ok x \<longrightarrow> P x))"

lemma yields_safe: "yields m P \<Longrightarrow> reader_safe m"
  by (simp add: yields_def reader_safe_def)

lemma yields_True: "reader_safe m \<Longrightarrow> yields m (\<lambda>_. True)"
  by (simp add: yields_def reader_safe_def)

lemma yields_weaken: "yields m P \<Longrightarrow> (\<And>x. P x \<Longrightarrow> Q x) \<Longrightarrow> yields m Q"
  by (simp add: yields_def)

lemma yields_return: "P x \<Longrightarrow> yields (return_c x) P"
  by (auto simp: yields_def cmd_eval intro: exI [of _ 0])

lemma yields_fail: "yields (fail_c e) P"
  by (auto simp: yields_def cmd_eval intro: exI [of _ 0])

lemma yields_lift: "res \<noteq> Fault \<Longrightarrow> (\<And>x. res = Ok x \<Longrightarrow> P x) \<Longrightarrow> yields (lift_c res) P"
  by (auto simp: yields_def cmd_eval intro: exI [of _ 0])

lemma yields_bind:
  assumes m: "yields m P" and f: "\<And>x. P x \<Longrightarrow> yields (f x) Q"
  shows "yields (bind_c m f) Q"
  unfolding yields_def
proof (intro allI impI)
  fix r
  assume inv: "reader_inv r"
  obtain res r1 where mr: "m r = (res, r1)" by fastforce
  from m inv mr obtain k where k: "k \<le> length (r_rest r)" "r1 = advance k r" and "res \<noteq> Fault"
    and P: "\<And>x. res = Ok x \<Longrightarrow> P x"
    unfolding yields_def by (metis fst_conv snd_conv)
  show "fst (bind_c m f r) \<noteq> Fault \<and> (\<exists>k \<le> length (r_rest r). snd (bind_c m f r) = advance k r)
    \<and> (\<forall>x. fst (bind_c m f r) = Ok x \<longrightarrow> Q x)"
  proof (cases res)
    case (Ok x)
    have inv1: "reader_inv r1" using k inv by (simp add: advance_inv)
    with f [OF P [OF Ok]] obtain j where j: "j \<le> length (r_rest r1)" "snd (f x r1) = advance j r1"
      and "fst (f x r1) \<noteq> Fault" "\<forall>y. fst (f x r1) = Ok y \<longrightarrow> Q y" unfolding yields_def by blast
    moreover have "k + j \<le> length (r_rest r)" using j k inv by (simp add: advance_rest)
    ultimately show ?thesis using mr Ok k by (auto simp: bind_c_eval)
  next
    case (Err e)
    with mr k show ?thesis by (auto simp: bind_c_eval)
  next
    case Fault
    with \<open>res \<noteq> Fault\<close> show ?thesis by simp
  qed
qed

lemma yields_then: "yields m P \<Longrightarrow> yields n Q \<Longrightarrow> yields (then_c m n) Q"
  unfolding then_c_def by (rule yields_bind)

lemma yields_malloc: "yields (malloc_c A n) (\<lambda>_. True)"
  by (rule yields_True) (rule reader_safe_malloc)

lemma yields_repeat: "yields m P \<Longrightarrow> yields (repeat_c n m) (\<lambda>xs. length xs = n \<and> list_all P xs)"
proof (induction n)
  case 0
  then show ?case by (simp add: yields_return)
next
  case (Suc n)
  show ?case
    unfolding repeat_c.simps
    by (rule yields_bind [OF Suc.prems], rule yields_bind [OF Suc.IH [OF Suc.prems]], rule yields_return) simp
qed

lemma yields_read_bytes:
  assumes "unat n \<le> 2 ^ 63"
  shows "yields (neoc_binary_reader_read_bytes n) (\<lambda>bs. length bs = unat n)"
proof -
  have "length bs = unat n" if "fst (neoc_binary_reader_read_bytes n r) = Ok bs" for r bs
    using that by (auto simp: neoc_binary_reader_read_bytes_def take_bytes_def fetch_def split: if_splits)
  with reader_safe_bytes [OF assms] show ?thesis unfolding yields_def reader_safe_def by blast
qed

subsection \<open>The variable-length integer and the variable-length byte string\<close>

lemma reads_read_var_int [codec_laws]: "reads neoc_binary_reader_read_var_int (enc_var_int v) v"
proof -
  note defs = neoc_binary_reader_read_var_int_def enc_var_int_def
  consider (one) "v < 0xFD" | (two) "\<not> v < 0xFD" "v \<le> 0xFFFF"
    | (four) "\<not> v < 0xFD" "\<not> v \<le> 0xFFFF" "v \<le> 0xFFFFFFFF"
    | (eight) "\<not> v < 0xFD" "\<not> v \<le> 0xFFFF" "\<not> v \<le> 0xFFFFFFFF" by blast
  then show ?thesis
  proof cases
    case one
    then have small: "unat v < 0xFD" by (simp add: word_less_nat_alt)
    then have byte: "(ucast v :: byte) < 0xFD" "ucast (ucast v :: byte) = v"
      by (simp_all add: word_less_nat_alt unat_ucast_down ucast_ucast_down)
    have "reads neoc_binary_reader_read_var_int ([ucast v] @ []) v"
      unfolding neoc_binary_reader_read_var_int_def
      by (rule reads_bind [OF reads_read_byte]) (use byte reads_return in \<open>auto\<close>)
    with one show ?thesis by (simp add: enc_var_int_def)
  next
    case two
    then have "unat v < 2 ^ 16" by (simp add: word_le_nat_alt)
    then have again: "ucast (ucast v :: u16) = v" by (simp add: ucast_ucast_down)
    have "reads neoc_binary_reader_read_var_int ([0xFD] @ le_bytes 2 (ucast v :: u16)) v"
      unfolding neoc_binary_reader_read_var_int_def
      by (rule reads_bind [OF reads_read_byte])
         (use again in \<open>simp add: reads_map [OF reads_read_uint16]\<close>)
    with two show ?thesis by (simp add: enc_var_int_def le_bytes_ucast)
  next
    case four
    then have "unat v < 2 ^ 32" by (simp add: word_le_nat_alt)
    then have again: "ucast (ucast v :: u32) = v" by (simp add: ucast_ucast_down)
    have "reads neoc_binary_reader_read_var_int ([0xFE] @ le_bytes 4 (ucast v :: u32)) v"
      unfolding neoc_binary_reader_read_var_int_def
      by (rule reads_bind [OF reads_read_byte])
         (use again in \<open>simp add: reads_map [OF reads_read_uint32]\<close>)
    with four show ?thesis by (simp add: enc_var_int_def le_bytes_ucast)
  next
    case eight
    have "reads neoc_binary_reader_read_var_int ([0xFF] @ le_bytes 8 v) v"
      unfolding neoc_binary_reader_read_var_int_def
      by (rule reads_bind [OF reads_read_byte])
         (use reads_read_uint64 in \<open>auto\<close>)
    with eight show ?thesis by (simp add: enc_var_int_def)
  qed
qed

definition null_if_empty :: "byte list \<Rightarrow> byte list option" where
  "null_if_empty bs = (if bs = [] then None else Some bs)"

lemma of_nat_size_eq_0_iff: "length bs < 2 ^ 64 \<Longrightarrow> (of_nat (length bs) :: size_t) = 0 \<longleftrightarrow> bs = []"
  using unat_eq_zero [of "of_nat (length bs) :: size_t"] by (simp add: unat_of_nat_size)

lemma reads_read_var_bytes [codec_laws]:
  assumes "length bs < 2 ^ 63" and "A (length bs)"
  shows "reads (neoc_binary_reader_read_var_bytes A) (enc_var_bytes bs) (null_if_empty bs)"
proof -
  have len: "unat (of_nat (length bs) :: size_t) = length bs"
    using assms(1) by (simp add: unat_of_nat_size)
  have "\<not> SIZE_MAX < len" for len :: size_t
    by (simp add: SIZE_MAX_def not_less)
  moreover have "reads (bind_c (neoc_binary_reader_read_bytes (of_nat (length bs)))
                   (\<lambda>data. return_c (Some data))) bs (Some bs)"
    by (rule reads_map [OF reads_read_bytes]) (use assms len in auto)
  ultimately show ?thesis
    using assms len
    unfolding neoc_binary_reader_read_var_bytes_def enc_var_bytes_def
    by (intro reads_bind [OF reads_read_var_int])
       (use reads_return [of None] in \<open>auto simp: null_if_empty_def of_nat_size_eq_0_iff\<close>)
qed

lemma length_enc_var_bytes: "length (enc_var_bytes bs) = length (enc_var_int (of_nat (length bs))) + length bs"
  by (simp add: enc_var_bytes_def)

lemma enc_var_int_pos: "0 < length (enc_var_int v)"
  by (simp add: enc_var_int_def)

lemma enc_var_int_le_9: "length (enc_var_int v) \<le> 9"
  by (simp add: enc_var_int_def)

lemma reads_read_var_string [codec_laws]:
  assumes "length bs < 2 ^ 63" and "grants A (length (enc_var_bytes bs))"
  shows "reads (neoc_binary_reader_read_var_string A) (enc_var_bytes bs) bs"
proof -
  have g: "A (length bs)" "A (length bs + 1)" "bs = [] \<Longrightarrow> A 1"
    using assms(2) enc_var_int_pos [of "of_nat (length bs)"]
    by (auto simp: grants_def length_enc_var_bytes Suc_le_eq)
  have "reads (neoc_binary_reader_read_var_string A) (enc_var_bytes bs @ []) bs"
    unfolding neoc_binary_reader_read_var_string_def
    by (rule reads_bind [OF reads_read_var_bytes])
       (use assms g reads_return in \<open>auto simp: null_if_empty_def\<close>)
  then show ?thesis by simp
qed

subsection \<open>The primitive codecs\<close>

interpretation byte_codec: codec "neoc_binary_writer_write_byte" "\<lambda>_. neoc_binary_reader_read_byte"
  "\<lambda>v. [v]" "\<lambda>v. v" "\<lambda>_. True"
  by unfold_locales (intro codec_laws)+

interpretation bool_codec: codec "neoc_binary_writer_write_bool" "\<lambda>_. neoc_binary_reader_read_bool"
  "\<lambda>b. [of_bool b]" "\<lambda>b. b" "\<lambda>_. True"
  by unfold_locales
     (rule writes_write_bool, simp add: neoc_binary_reader_read_bool_def reads_map [OF reads_read_byte])

interpretation uint16_codec: codec "neoc_binary_writer_write_uint16" "\<lambda>_. neoc_binary_reader_read_uint16"
  "le_bytes 2" "\<lambda>v. v" "\<lambda>_. True"
  by unfold_locales (intro codec_laws)+

interpretation uint32_codec: codec "neoc_binary_writer_write_uint32" "\<lambda>_. neoc_binary_reader_read_uint32"
  "le_bytes 4" "\<lambda>v. v" "\<lambda>_. True"
  by unfold_locales (intro codec_laws)+

interpretation uint64_codec: codec "neoc_binary_writer_write_uint64" "\<lambda>_. neoc_binary_reader_read_uint64"
  "le_bytes 8" "\<lambda>v. v" "\<lambda>_. True"
  by unfold_locales (intro codec_laws)+

interpretation var_int_codec: codec "neoc_binary_writer_write_var_int" "\<lambda>_. neoc_binary_reader_read_var_int"
  "enc_var_int" "\<lambda>v. v" "\<lambda>_. True"
  by unfold_locales (intro codec_laws)+

interpretation var_bytes_codec: codec
  "\<lambda>A bs. neoc_binary_writer_write_var_bytes A (Some bs) (of_nat (length bs))"
  "neoc_binary_reader_read_var_bytes" "enc_var_bytes" "null_if_empty" "\<lambda>bs. length bs < 2 ^ 62"
  by unfold_locales
     (auto intro!: writes_write_var_bytes reads_read_var_bytes simp: grants_def length_enc_var_bytes)

interpretation var_string_codec: codec
  "\<lambda>A s. neoc_binary_writer_write_var_string A (Some s)"
  "neoc_binary_reader_read_var_string" "enc_var_bytes" "\<lambda>s. s" "\<lambda>s. length s < 2 ^ 62"
  by unfold_locales
     (auto intro!: writes_write_var_bytes reads_read_var_string
       simp: neoc_binary_writer_write_var_string_def)

subsection \<open>Counted lists\<close>

definition enc_list :: "('a \<Rightarrow> byte list) \<Rightarrow> 'a list \<Rightarrow> byte list" where
  "enc_list enc xs = enc_var_int (of_nat (length xs)) @ concat (map enc xs)"

lemma prefix_free_var_int: "prefix_free (\<lambda>_. True) enc_var_int"
  by (rule var_int_codec.prefix_free) simp

lemma prefix_free_list:
  assumes "prefix_free ok enc"
  shows "prefix_free (\<lambda>xs. length xs < 2 ^ 64 \<and> list_all ok xs) (enc_list enc)"
  unfolding prefix_free_def enc_list_def append_assoc
proof (intro allI impI)
  fix xs ys bs cs
  assume xs: "length xs < 2 ^ 64 \<and> list_all ok xs" and ys: "length ys < 2 ^ 64 \<and> list_all ok ys"
    and eq: "enc_var_int (of_nat (length xs)) @ concat (map enc xs) @ bs = enc_var_int (of_nat (length ys)) @ concat (map enc ys) @ cs"
    and len: "length (enc_var_int (of_nat (length xs)) @ concat (map enc xs) @ bs) < 2 ^ 63"
  have "(of_nat (length xs) :: u64) = of_nat (length ys) \<and> concat (map enc xs) @ bs = concat (map enc ys) @ cs"
    using prefix_freeD [OF prefix_free_var_int _ _ eq len] by simp
  moreover from this have "length xs = length ys" using xs ys by (metis unat_of_nat_size)
  ultimately show "xs = ys \<and> bs = cs"
    using xs ys len by (intro prefix_free_same_length [OF assms]) auto
qed

lemma prefix_free_byte: "prefix_free (\<lambda>_. True) (\<lambda>b. [b])"
  by (simp add: prefix_free_def)

lemma prefix_free_var_bytes: "prefix_free (\<lambda>bs. length bs < 2 ^ 62) enc_var_bytes"
  by (rule var_bytes_codec.prefix_free) (auto simp: inj_on_def null_if_empty_def split: if_splits)

subsection \<open>Pointers\<close>

text \<open>An array of pointers is a list of options; a null pointer has no encoding.\<close>

definition enc_ptr :: "('a \<Rightarrow> byte list) \<Rightarrow> 'a option \<Rightarrow> byte list" where
  "enc_ptr enc p = (case p of None \<Rightarrow> [] | Some x \<Rightarrow> enc x)"

definition on_ptr :: "('a \<Rightarrow> bool) \<Rightarrow> 'a option \<Rightarrow> bool" where
  "on_ptr ok p \<longleftrightarrow> (case p of None \<Rightarrow> False | Some x \<Rightarrow> ok x)"

lemma ptr_simps [simp]:
  "enc_ptr enc (Some x) = enc x" "enc_ptr enc None = []" "on_ptr ok (Some x) = ok x" "\<not> on_ptr ok None"
  by (simp_all add: enc_ptr_def on_ptr_def)

lemma on_ptrE: "on_ptr ok p \<Longrightarrow> (\<And>x. p = Some x \<Longrightarrow> ok x \<Longrightarrow> thesis) \<Longrightarrow> thesis"
  by (cases p) auto

lemma prefix_free_ptr:
  assumes "prefix_free ok enc"
  shows "prefix_free (on_ptr ok) (enc_ptr enc)"
  unfolding prefix_free_def
proof (intro allI impI)
  fix p q bs cs
  assume "on_ptr ok p" and "on_ptr ok q"
    and eq: "enc_ptr enc p @ bs = enc_ptr enc q @ cs" and len: "length (enc_ptr enc p @ bs) < 2 ^ 63"
  then obtain x y where p: "p = Some x" "ok x" and q: "q = Some y" "ok y" by (elim on_ptrE)
  show "p = q \<and> bs = cs"
    using prefix_freeD [OF assms p(2) q(2)] eq len unfolding p(1) q(1) ptr_simps(1) by blast
qed

text \<open>One encoding after another.\<close>

definition enc_pair :: "('a \<Rightarrow> byte list) \<Rightarrow> ('b \<Rightarrow> byte list) \<Rightarrow> 'a \<times> 'b \<Rightarrow> byte list" where
  "enc_pair enc1 enc2 p = enc1 (fst p) @ enc2 (snd p)"

lemma prefix_free_pair:
  assumes "prefix_free ok1 enc1" and "prefix_free ok2 enc2"
  shows "prefix_free (\<lambda>p. ok1 (fst p) \<and> ok2 (snd p)) (enc_pair enc1 enc2)"
  unfolding prefix_free_def enc_pair_def append_assoc
proof (intro allI impI)
  fix p q bs cs
  assume ok: "ok1 (fst p) \<and> ok2 (snd p)" "ok1 (fst q) \<and> ok2 (snd q)"
    and eq: "enc1 (fst p) @ enc2 (snd p) @ bs = enc1 (fst q) @ enc2 (snd q) @ cs"
    and len: "length (enc1 (fst p) @ enc2 (snd p) @ bs) < 2 ^ 63"
  have one: "fst p = fst q \<and> enc2 (snd p) @ bs = enc2 (snd q) @ cs"
    using ok eq len by (intro prefix_freeD [OF assms(1)]) simp_all
  have "snd p = snd q \<and> bs = cs"
    using ok one len by (intro prefix_freeD [OF assms(2)]) simp_all
  with one show "p = q \<and> bs = cs" by (simp add: prod_eq_iff)
qed

lemma prefix_free_weaken: "prefix_free ok enc \<Longrightarrow> (\<And>x. ok' x \<Longrightarrow> ok x) \<Longrightarrow> prefix_free ok' enc"
  unfolding prefix_free_def by blast

lemma length_in_list: "x \<in> set xs \<Longrightarrow> length (enc x) \<le> length (enc_list enc xs)"
  using member_le_sum_list [of "length (enc x)" "map (\<lambda>x. length (enc x)) xs"]
  by (auto simp: enc_list_def length_concat comp_def intro: trans_le_add2)

lemma writes_list:
  "(\<And>x. x \<in> set xs \<Longrightarrow> writes A (f x) (enc x)) \<Longrightarrow>
     writes A (then_c (neoc_binary_writer_write_var_int A (of_nat (length xs))) (foreach_c f xs)) (enc_list enc xs)"
  unfolding enc_list_def by (intro writes_then writes_write_var_int writes_foreach)

end
