(* ===== verification/Stream_Ops.thy ===== *)
theory Stream_Ops
  imports Codec
begin

text \<open>
  Sequences of calls on one writer and on one reader.  A client of the serialization layer is
  a list of operations; the theorems describe whole runs: what a run of writes leaves in the
  buffer, that no run of reads leaves the buffer, and where the 64-bit size arithmetic of the
  source stops protecting the caller.
\<close>

subsection \<open>Runs of the writer\<close>

datatype write_op =
    Write_Byte byte | Write_Bytes "byte list" | Write_Bool bool
  | Write_UInt16 u16 | Write_UInt32 u32 | Write_UInt64 u64
  | Write_Int16 "16 word" | Write_Int32 "32 word" | Write_Int64 "64 word"
  | Write_Var_Int u64 | Write_Var_Bytes "byte list" | Write_Var_String "byte list"

fun exec_write :: "allocator \<Rightarrow> write_op \<Rightarrow> (neoc_binary_writer, unit) cmd" where
  "exec_write A (Write_Byte v) = neoc_binary_writer_write_byte A v"
| "exec_write A (Write_Bytes bs) = neoc_binary_writer_write_bytes A (Some bs) (of_nat (length bs))"
| "exec_write A (Write_Bool b) = neoc_binary_writer_write_bool A b"
| "exec_write A (Write_UInt16 v) = neoc_binary_writer_write_uint16 A v"
| "exec_write A (Write_UInt32 v) = neoc_binary_writer_write_uint32 A v"
| "exec_write A (Write_UInt64 v) = neoc_binary_writer_write_uint64 A v"
| "exec_write A (Write_Int16 v) = neoc_binary_writer_write_int16 A v"
| "exec_write A (Write_Int32 v) = neoc_binary_writer_write_int32 A v"
| "exec_write A (Write_Int64 v) = neoc_binary_writer_write_int64 A v"
| "exec_write A (Write_Var_Int v) = neoc_binary_writer_write_var_int A v"
| "exec_write A (Write_Var_Bytes bs) = neoc_binary_writer_write_var_bytes A (Some bs) (of_nat (length bs))"
| "exec_write A (Write_Var_String s) = neoc_binary_writer_write_var_string A (Some s)"

text \<open>The abstract specification: the bytes an operation stands for.\<close>

fun enc_write :: "write_op \<Rightarrow> byte list" where
  "enc_write (Write_Byte v) = [v]"
| "enc_write (Write_Bytes bs) = bs"
| "enc_write (Write_Bool b) = [of_bool b]"
| "enc_write (Write_UInt16 v) = le_bytes 2 v"
| "enc_write (Write_UInt32 v) = le_bytes 4 v"
| "enc_write (Write_UInt64 v) = le_bytes 8 v"
| "enc_write (Write_Int16 v) = le_bytes 2 v"
| "enc_write (Write_Int32 v) = le_bytes 4 v"
| "enc_write (Write_Int64 v) = le_bytes 8 v"
| "enc_write (Write_Var_Int v) = enc_var_int v"
| "enc_write (Write_Var_Bytes bs) = enc_var_bytes bs"
| "enc_write (Write_Var_String s) = enc_var_bytes s"

lemma writes_exec_write:
  assumes "length (enc_write x) < 2 ^ 62"
  shows "writes A (exec_write A x) (enc_write x)"
proof -
  have "length bs < 2 ^ 64" if "length (enc_var_bytes bs) < 2 ^ 62" for bs
    using that by (simp add: length_enc_var_bytes)
  moreover have "writes A (exec_write A (Write_Bool b)) (enc_write (Write_Bool b))" for b
    unfolding exec_write.simps enc_write.simps by (rule writes_write_bool)
  ultimately show ?thesis
    using assms
    by (cases x)
       (auto simp: neoc_binary_writer_write_int16_def neoc_binary_writer_write_int32_def
         neoc_binary_writer_write_int64_def neoc_binary_writer_write_var_string_def
         simp del: exec_write.simps(3) enc_write.simps(3)
         intro!: writes_write_bytes writes_write_var_bytes intro: codec_laws)
qed

lemma writes_run:
  assumes "length (concat (map enc_write xs)) < 2 ^ 62"
  shows "writes A (foreach_c (exec_write A) xs) (concat (map enc_write xs))"
proof (rule writes_foreach)
  fix x
  assume "x \<in> set xs"
  then have "length (enc_write x) \<le> length (concat (map enc_write xs))"
    by (auto simp: length_concat intro!: member_le_sum_list)
  with assms show "writes A (exec_write A x) (enc_write x)" by (simp add: writes_exec_write)
qed

subsection \<open>Runs of the reader\<close>

datatype read_op =
    Read_Byte | Read_Bytes size_t | Read_Bool | Read_UInt16 | Read_UInt32 | Read_UInt64
  | Read_Var_Int | Read_Var_Bytes | Read_Var_String | Read_EC_Point | Read_Push_Data
  | Read_Push_String | Read_Push_Big_Int | Read_Var_Bytes_Max size_t | Read_Var_Int_Max u64
  | Seek size_t | Skip size_t | Mark | Reset

text \<open>The outcome of one operation (did it fault?) and the reader after it.\<close>

definition outcome :: "('a result \<times> neoc_binary_reader) \<Rightarrow> bool \<times> neoc_binary_reader" where
  "outcome p = (fst p = Fault, snd p)"

fun exec_read :: "allocator \<Rightarrow> read_op \<Rightarrow> neoc_binary_reader \<Rightarrow> bool \<times> neoc_binary_reader" where
  "exec_read A Read_Byte r = outcome (neoc_binary_reader_read_byte r)"
| "exec_read A (Read_Bytes n) r = outcome (neoc_binary_reader_read_bytes n r)"
| "exec_read A Read_Bool r = outcome (neoc_binary_reader_read_bool r)"
| "exec_read A Read_UInt16 r = outcome (neoc_binary_reader_read_uint16 r)"
| "exec_read A Read_UInt32 r = outcome (neoc_binary_reader_read_uint32 r)"
| "exec_read A Read_UInt64 r = outcome (neoc_binary_reader_read_uint64 r)"
| "exec_read A Read_Var_Int r = outcome (neoc_binary_reader_read_var_int r)"
| "exec_read A Read_Var_Bytes r = outcome (neoc_binary_reader_read_var_bytes A r)"
| "exec_read A Read_Var_String r = outcome (neoc_binary_reader_read_var_string A r)"
| "exec_read A Read_EC_Point r = outcome (neoc_binary_reader_read_encoded_ec_point A r)"
| "exec_read A Read_Push_Data r = outcome (neoc_binary_reader_read_push_data A r)"
| "exec_read A Read_Push_String r = outcome (neoc_binary_reader_read_push_string A r)"
| "exec_read A Read_Push_Big_Int r = outcome (neoc_binary_reader_read_push_big_int A r)"
| "exec_read A (Read_Var_Bytes_Max n) r = outcome (neoc_binary_reader_read_var_bytes_max A n r)"
| "exec_read A (Read_Var_Int_Max n) r = outcome (neoc_binary_reader_read_var_int_max n r)"
| "exec_read A (Seek n) r = outcome (neoc_binary_reader_seek n r)"
| "exec_read A (Skip n) r = outcome (neoc_binary_reader_skip n r)"
| "exec_read A Mark r = outcome (neoc_binary_reader_mark r)"
| "exec_read A Reset r = outcome (neoc_binary_reader_reset r)"

fun run_reads :: "allocator \<Rightarrow> read_op list \<Rightarrow> neoc_binary_reader \<Rightarrow> bool \<times> neoc_binary_reader" where
  "run_reads A [] r = (False, r)"
| "run_reads A (x # xs) r =
     (let (fault, r') = exec_read A x r in if fault then (True, r') else run_reads A xs r')"

text \<open>Caller-supplied counts that cannot make \<^verbatim>\<open>position + count\<close> wrap.\<close>

fun sane_count :: "read_op \<Rightarrow> bool" where
  "sane_count (Read_Bytes n) = (unat n \<le> 2 ^ 63)"
| "sane_count (Skip n) = (unat n \<le> 2 ^ 63)"
| "sane_count _ = True"

text \<open>An operation that moves the cursor only forward and keeps the marker.\<close>

fun forward_op :: "read_op \<Rightarrow> bool" where
  "forward_op (Seek n) = False"
| "forward_op (Skip n) = False"
| "forward_op Mark = False"
| "forward_op Reset = False"
| "forward_op _ = True"

lemma outcome_safe:
  assumes "reader_safe m" and "reader_inv r"
  shows "\<exists>k \<le> length (r_rest r). outcome (m r) = (False, advance k r)"
  using assms by (auto simp: reader_safe_def outcome_def)

lemma exec_forward:
  assumes "alloc_bounded A" and "forward_op x" and "sane_count x" and "reader_inv r"
  shows "\<exists>k \<le> length (r_rest r). exec_read A x r = (False, advance k r)"
proof -
  have bool: "reader_safe neoc_binary_reader_read_bool"
    unfolding neoc_binary_reader_read_bool_def by (intro codec_laws)
  show ?thesis
    using assms bool
    by (cases x) (auto intro!: outcome_safe intro: codec_laws)
qed

lemma exec_read_safe:
  assumes "alloc_bounded A" and "sane_count x" and "reader_inv r"
  shows "\<not> fst (exec_read A x r)" and "reader_inv (snd (exec_read A x r))"
proof -
  have "\<not> fst (exec_read A x r) \<and> reader_inv (snd (exec_read A x r))"
  proof (cases "forward_op x")
    case True
    with exec_forward [OF assms(1) _ assms(2,3)] assms(3) show ?thesis
      by (auto simp: advance_inv)
  next
    case False
    with assms(2,3) show ?thesis
      by (cases x)
         (auto simp: outcome_def neoc_binary_reader_seek_def neoc_binary_reader_skip_def
           neoc_binary_reader_mark_def neoc_binary_reader_reset_def reader_inv_def not_less)
  qed
  then show "\<not> fst (exec_read A x r)" and "reader_inv (snd (exec_read A x r))" by auto
qed

lemma run_reads_safe:
  assumes "alloc_bounded A" and "list_all sane_count xs" and "reader_inv r"
  shows "\<not> fst (run_reads A xs r) \<and> reader_inv (snd (run_reads A xs r))"
  using assms(2,3)
proof (induction xs arbitrary: r)
  case (Cons x xs)
  with exec_read_safe [OF assms(1), of x r] show ?case
    by (auto simp: Let_def split: prod.split)
qed simp

lemma run_reads_append:
  "run_reads A (xs @ ys) r = (let (fault, r') = run_reads A xs r in if fault then (True, r') else run_reads A ys r')"
  by (induction xs arbitrary: r) (auto simp: Let_def split: prod.split)

lemma run_forward:
  assumes "alloc_bounded A" and "list_all sane_count xs" and "list_all forward_op xs" and "reader_inv r"
  shows "\<exists>k \<le> length (r_rest r). run_reads A xs r = (False, advance k r)"
  using assms(2-4)
proof (induction xs arbitrary: r)
  case Nil
  then show ?case by (auto intro: exI [of _ 0])
next
  case (Cons x xs)
  then obtain k where k: "k \<le> length (r_rest r)" "exec_read A x r = (False, advance k r)"
    using exec_forward [OF assms(1), of x r] by auto
  have inv: "reader_inv (advance k r)" using k Cons.prems(3) by (simp add: advance_inv)
  then obtain j where j: "j \<le> length (r_rest (advance k r))"
    "run_reads A xs (advance k r) = (False, advance j (advance k r))"
    using Cons.IH [of "advance k r"] Cons.prems(1,2) by auto
  have "k + j \<le> length (r_rest r)" using j(1) k Cons.prems(3) by (simp add: advance_rest)
  moreover have "run_reads A (x # xs) r = (False, advance (k + j) r)" using k j by simp
  ultimately show ?case by blast
qed

subsection \<open>Growth that never ends\<close>

lemma grow_loop_diverges:
  assumes "unat c = 2 ^ j" and "j \<le> 63" and "2 ^ 63 < unat req"
  shows "grow_loop c req = None"
  using assms(1,2)
proof (induction "63 - j" arbitrary: c j)
  case 0
  then have "unat c = 2 ^ 63" by simp
  then have "unat (c * GROWTH_FACTOR) = unat (0 :: size_t)"
    by (simp add: GROWTH_FACTOR_def unat_word_ariths)
  then have "c * GROWTH_FACTOR = 0" by (simp only: word_unat_eq_iff)
  moreover have "grow_loop 0 req = None"
    using grow_loop_zero [of req] assms(3) by (cases "grow_loop 0 req") auto
  moreover have "c < req" using \<open>unat c = 2 ^ 63\<close> assms(3) by (simp add: size_less_iff)
  ultimately show ?case by (subst grow_loop.simps) simp
next
  case (Suc n)
  then have j: "j < 63" by simp
  then have small: "(2::nat) ^ j < 2 ^ 63" by (intro power_strict_increasing) auto
  then have "unat (c * GROWTH_FACTOR) = 2 ^ Suc j"
    using Suc.prems by (simp add: GROWTH_FACTOR_def unat_word_ariths)
  with Suc.hyps(1) [of "Suc j" "c * GROWTH_FACTOR"] Suc.hyps(2) j
  have "grow_loop (c * GROWTH_FACTOR) req = None" by simp
  moreover have "c < req" using Suc.prems small assms(3) by (simp add: size_less_iff)
  ultimately show ?case by (subst grow_loop.simps) simp
qed

subsection \<open>Properties\<close>

text \<open>C1. A run of writes refines the concatenation of what its operations encode.  On a well-formed
  writer, as long as the total stays below $2^{62}$ bytes, the run never leaves the buffer and never hangs; it
  either appends exactly the encodings, in order, or stops with the out-of-memory or overflow code (and
  only where the buffer was really too small) having appended a proper prefix of them.  The invariant
  holds afterwards in both cases.\<close>

theorem writer_run_refines:
  assumes "writer_inv w" and "unat (w_position w) + length (concat (map enc_write ops)) < 2 ^ 62"
  shows "case foreach_c (exec_write A) ops w of
      (Ok _, w') \<Rightarrow> writer_inv w' \<and> w_contents w' = w_contents w @ concat (map enc_write ops)
    | (Err e, w') \<Rightarrow> writer_inv w'
        \<and> (\<exists>bs. strict_prefix bs (concat (map enc_write ops)) \<and> w_contents w' = w_contents w @ bs)
        \<and> refusal A w (length (concat (map enc_write ops))) e
    | (Fault, w') \<Rightarrow> False"
proof -
  have law: "writes A (foreach_c (exec_write A) ops) (concat (map enc_write ops))"
    using assms(2) by (intro writes_run) simp
  obtain res w' where run: "foreach_c (exec_write A) ops w = (res, w')" by fastforce
  show ?thesis
  proof (cases res)
    case (Ok u)
    with run writes_OkD [OF law _ assms] show ?thesis by auto
  next
    case (Err e)
    with run writes_ErrD [OF law _ assms] show ?thesis by auto
  next
    case Fault
    with run writes_no_Fault [OF law assms] show ?thesis by blast
  qed
qed

text \<open>A writer with a one-byte buffer, for the witnesses.\<close>

definition tiny_writer :: "bool \<Rightarrow> neoc_binary_writer" where
  "tiny_writer grow = \<lparr>w_data = [0], w_capacity = 1, w_position = 0, w_auto_grow = grow\<rparr>"

theorem writer_run_refines_witness:
  "writer_inv (tiny_writer False)
   \<and> w_contents (snd (foreach_c (exec_write (\<lambda>_. True)) [Write_Byte 7, Write_UInt16 1] (tiny_writer False))) = [7]
   \<and> refusal (\<lambda>_. True) (tiny_writer False) 3 NEOC_ERROR_BUFFER_OVERFLOW"
proof -
  have inv: "writer_inv (tiny_writer False)" by (simp add: writer_inv_def tiny_writer_def)
  have "foreach_c (exec_write (\<lambda>_. True)) [Write_Byte 7, Write_UInt16 1] (tiny_writer False)
      = (Err NEOC_ERROR_BUFFER_OVERFLOW, \<lparr>w_data = [7], w_capacity = 1, w_position = 1, w_auto_grow = False\<rparr>)"
    by (simp add: neoc_binary_writer_write_byte_def neoc_binary_writer_write_uint16_def then_c_def bind_c_def
        ensure_capacity_def store_byte_def tiny_writer_def size_le_iff)
  with inv writer_run_refines [OF inv, of "[Write_Byte 7, Write_UInt16 1]" "\<lambda>_. True"]
  show ?thesis by (simp add: tiny_writer_def w_contents_def)
qed

text \<open>C2. Memory safety of the reader.  Whatever bytes a well-formed reader holds and whatever
  sequence of reads, seeks, skips, marks and resets a client issues, no operation reads outside
  the buffer, and the position and the marker stay inside it, provided the counts passed to
  \<^verbatim>\<open>read_bytes\<close> and \<^verbatim>\<open>skip\<close> are at most $2^{63}$.  (\<open>alloc_bounded\<close>: no C object exceeds
  \<^verbatim>\<open>PTRDIFF_MAX\<close> bytes.)\<close>

theorem reader_run_safe:
  assumes "alloc_bounded A" and "list_all sane_count ops" and "reader_inv r"
  shows "\<not> fst (run_reads A ops r) \<and> reader_inv (snd (run_reads A ops r))"
  using run_reads_safe [OF assms] by auto

text \<open>A reader of two bytes at position 1, for the witnesses.\<close>

definition tiny_reader :: neoc_binary_reader where
  "tiny_reader = \<lparr>r_data = [5, 6], r_size = 2, r_position = 1, r_marker = SIZE_MAX\<rparr>"

lemma tiny_reader_inv: "reader_inv tiny_reader"
  by (simp add: reader_inv_def tiny_reader_def word_le_nat_alt)

lemma alloc_bounded_example: "alloc_bounded (\<lambda>n. n < 2 ^ 20)"
  by (simp add: alloc_bounded_def)

theorem reader_run_safe_witness:
  "reader_inv (snd (run_reads (\<lambda>n. n < 2 ^ 20) [Mark, Read_Var_Bytes, Skip 9, Read_UInt64, Reset] tiny_reader))"
  using reader_run_safe [OF alloc_bounded_example _ tiny_reader_inv,
      of "[Mark, Read_Var_Bytes, Skip 9, Read_UInt64, Reset]"] by simp

text \<open>\<^verbatim>\<open>mark\<close> and \<^verbatim>\<open>reset\<close> bracket any reads: after a mark, any sequence of consuming reads, failing
  ones included, and a reset, the reader is where it was when it was marked.\<close>

theorem mark_reset_restores:
  assumes "alloc_bounded A" and "list_all sane_count ops" and "list_all forward_op ops" and "reader_inv r"
  shows "run_reads A (Mark # ops @ [Reset]) r = (False, r\<lparr>r_marker := r_position r\<rparr>)"
proof -
  let ?m = "r\<lparr>r_marker := r_position r\<rparr>"
  have inv: "reader_inv ?m" and ne: "r_position r \<noteq> SIZE_MAX"
    using assms(4) by (auto simp: reader_inv_def SIZE_MAX_def size_le_iff unat_minus_1_size)
  from run_forward [OF assms(1-3) inv] obtain k where "run_reads A ops ?m = (False, advance k ?m)" by blast
  then have "run_reads A (ops @ [Reset]) ?m = (False, ?m)"
    using ne by (simp add: run_reads_append outcome_def neoc_binary_reader_reset_def advance_def)
  then show ?thesis by (simp add: outcome_def neoc_binary_reader_mark_def)
qed

theorem mark_reset_restores_witness:
  "r_position (snd (run_reads (\<lambda>n. n < 2 ^ 20) [Mark, Read_Byte, Read_Byte, Reset] tiny_reader)) = 1"
  using mark_reset_restores [OF alloc_bounded_example _ _ tiny_reader_inv, of "[Read_Byte, Read_Byte]"]
  by (simp add: tiny_reader_def)

text \<open>The bounds checks add before they compare, so a huge count slips through: on a well-formed
  reader past its first byte, skipping \<^verbatim>\<open>SIZE_MAX\<close> bytes succeeds and moves the position one
  byte backwards, and reading \<^verbatim>\<open>SIZE_MAX\<close> bytes leaves the buffer.\<close>

theorem reader_bounds_check_wraps:
  assumes "reader_inv r" and "0 < r_position r"
  shows "neoc_binary_reader_skip SIZE_MAX r = (Ok (), r\<lparr>r_position := r_position r - 1\<rparr>)
         \<and> neoc_binary_reader_read_bytes SIZE_MAX r = (Fault, r)"
proof -
  have wrap: "r_position r + SIZE_MAX = r_position r - 1" by (simp add: SIZE_MAX_def)
  have "unat (r_position r - 1) = unat (r_position r) - 1"
    using assms(2) by (simp add: unat_minus_one word_greater_zero_iff)
  then have "r_position r - 1 \<le> r_size r" using assms(1) by (auto simp: reader_inv_def size_le_iff)
  then have "\<not> r_size r < r_position r + SIZE_MAX" by (simp add: wrap not_less)
  moreover have "SIZE_MAX \<noteq> 0" "length (r_data r) < unat SIZE_MAX"
    using assms(1) by (auto simp: SIZE_MAX_def reader_inv_def unat_minus_1_size)
  ultimately show ?thesis
    by (simp add: neoc_binary_reader_skip_def neoc_binary_reader_read_bytes_def wrap take_bytes_def fetch_def)
qed

theorem reader_bounds_check_wraps_witness:
  "neoc_binary_reader_skip SIZE_MAX tiny_reader = (Ok (), tiny_reader\<lparr>r_position := 0\<rparr>)"
  using reader_bounds_check_wraps [OF tiny_reader_inv] by (simp add: tiny_reader_def)

text \<open>C37. Growth ends where it should: for a total below $2^{62}$ bytes \<^verbatim>\<open>ensure_capacity\<close> on a growing writer
  with a granting allocator returns, with room for the request, the contents unchanged and
  less than twice the required capacity.\<close>

theorem ensure_capacity_terminates:
  assumes "writer_inv w" and "w_auto_grow w" and "unat (w_position w) + unat n < 2 ^ 62"
    and "unat (w_capacity w) < unat (w_position w) + unat n"
    and "grants A (2 * (unat (w_position w) + unat n))"
  shows "\<exists>w'. ensure_capacity A n w = (Ok (), w') \<and> writer_inv w' \<and> w_contents w' = w_contents w
    \<and> w_position w' = w_position w
    \<and> unat (w_position w) + unat n \<le> unat (w_capacity w')"
  using assms(1,3)
proof (cases rule: ensure_capacity_cases [where A = A])
  case (ready w')
  then show ?thesis by auto
qed (use assms in \<open>auto simp: grants_def\<close>)

theorem ensure_capacity_terminates_witness:
  "\<exists>w'. ensure_capacity (\<lambda>_. True) 100 (tiny_writer True) = (Ok (), w') \<and> 100 \<le> unat (w_capacity w')"
proof -
  have "writer_inv (tiny_writer True)" by (simp add: writer_inv_def tiny_writer_def)
  then show ?thesis
    using ensure_capacity_terminates [of "tiny_writer True" 100 "\<lambda>_. True"] by (auto simp: tiny_writer_def)
qed

text \<open>Growth that never ends: a growing writer whose capacity is a power of two (the default is 16)
  and that is asked for a total above $2^{63}$ bytes doubles its capacity until it wraps to zero and
  then loops forever.\<close>

theorem ensure_capacity_hangs:
  assumes "unat (w_capacity w) = 2 ^ j" and "j < 63" and "w_auto_grow w"
    and "2 ^ 63 < unat (w_position w + n)"
  shows "ensure_capacity A n w = (Fault, w)"
proof -
  have lt: "(2::nat) ^ j < 2 ^ 63" using assms(2) by (intro power_strict_increasing) auto
  then have "unat (w_capacity w * GROWTH_FACTOR) = 2 ^ Suc j"
    using assms(1) by (simp add: GROWTH_FACTOR_def unat_word_ariths)
  then have "grow_loop (w_capacity w * GROWTH_FACTOR) (w_position w + n) = None"
    using assms(2,4) by (intro grow_loop_diverges [of _ "Suc j"]) auto
  moreover have "\<not> w_position w + n \<le> w_capacity w"
    using assms(1,4) lt by (simp add: size_le_iff)
  ultimately show ?thesis using assms(3) by (simp add: ensure_capacity_def)
qed

theorem ensure_capacity_hangs_witness:
  "ensure_capacity (\<lambda>_. True) (- 1) (tiny_writer True) = (Fault, tiny_writer True)"
  by (rule ensure_capacity_hangs [of _ 0]) (simp_all add: tiny_writer_def unat_minus_1_size)

text \<open>Length-prefixed byte strings survive the trip: a byte string written with \<^verbatim>\<open>write_var_bytes\<close> to a
  fresh growing buffer and read back with \<^verbatim>\<open>read_var_bytes\<close> is the same byte string (a null pointer
  for the empty one).\<close>

theorem var_bytes_roundtrip:
  assumes "length bs < 2 ^ 61" and "unat cap < 2 ^ 63"
    and "grants A (max 40 (unat cap + 2 * (length bs + 9)))"
  shows "bind_r (run_writer A cap (neoc_binary_writer_write_var_bytes A (Some bs) (of_nat (length bs))))
           (\<lambda>out. run_reader A (Some out) (of_nat (length out)) (neoc_binary_reader_read_var_bytes A))
         = Ok (null_if_empty bs)"
proof -
  have "length (enc_var_bytes bs) \<le> length bs + 9"
    using enc_var_int_le_9 [of "of_nat (length bs)"] by (simp add: length_enc_var_bytes)
  with assms show ?thesis
    by (intro var_bytes_codec.roundtrip) (auto elim!: grants_mono)
qed

theorem var_bytes_roundtrip_witness:
  "bind_r (run_writer (\<lambda>_. True) 0 (neoc_binary_writer_write_var_bytes (\<lambda>_. True) (Some (replicate 300 7)) 300))
     (\<lambda>out. run_reader (\<lambda>_. True) (Some out) (of_nat (length out)) (neoc_binary_reader_read_var_bytes (\<lambda>_. True)))
   = Ok (Some (replicate 300 7))"
  using var_bytes_roundtrip [of "replicate 300 7" 0 "\<lambda>_. True"] by (simp add: null_if_empty_def)

end
