(* ===== verification/Text_Codec.thy ===== *)
theory Text_Codec
  imports NeoC_Prelude "HOL-Library.Char_ord"
begin

text \<open>
  The interface of the text encodings (hexadecimal, Base64, Base58): an encoder from bytes
  to characters and a decoder back.  A C string is the list of its characters before the
  terminating zero; a result buffer is the list of what was written to it.
\<close>

locale text_codec =
  fixes encode :: "byte list \<Rightarrow> string result"
    and decode :: "string \<Rightarrow> byte list result"
    and ok :: "byte list \<Rightarrow> bool"
  assumes decode_encode: "ok bs \<Longrightarrow> \<exists>s. encode bs = Ok s \<and> decode s = Ok bs"
begin

lemma encode_succeeds: "ok bs \<Longrightarrow> \<exists>s. encode bs = Ok s"
  using decode_encode by blast

lemma bind_roundtrip: "ok bs \<Longrightarrow> bind_r (encode bs) decode = Ok bs"
  using decode_encode by fastforce

lemma encode_inj: "ok bs \<Longrightarrow> ok cs \<Longrightarrow> encode bs = encode cs \<Longrightarrow> bs = cs"
  using decode_encode by (metis result.inject(1))

end

subsection \<open>Characters\<close>

definition ord_c :: "char \<Rightarrow> int" where
  "ord_c c = of_char c"

definition chr_c :: "int \<Rightarrow> char" where
  "chr_c v = char_of v"

lemma chr_ord_c [simp]: "chr_c (ord_c c) = c"
  by (simp add: chr_c_def ord_c_def)

lemma ord_c_int: "ord_c c = int (of_char c)"
  by (simp add: ord_c_def of_nat_of_char)

lemma ord_c_bounds: "0 \<le> ord_c c" "ord_c c < 256"
  by (simp_all add: ord_c_int)

lemma ord_chr_c: "0 \<le> v \<Longrightarrow> v < 256 \<Longrightarrow> ord_c (chr_c v) = v"
  by (simp add: chr_c_def ord_c_def)

lemma char_le_iff: "c \<le> d \<longleftrightarrow> ord_c c \<le> ord_c d"
  by (simp add: less_eq_char_def ord_c_int)

lemma ord_c_eq_iff: "ord_c c = ord_c d \<longleftrightarrow> c = d"
  by (simp add: ord_c_def)

lemma chr_c_eq_iff: "0 \<le> v \<Longrightarrow> v < 256 \<Longrightarrow> chr_c v = c \<longleftrightarrow> v = ord_c c"
  by (metis chr_ord_c ord_chr_c)

text \<open>The decimal digits the \<^verbatim>\<open>printf\<close> conversions for unsigned numbers print.\<close>

function show_nat :: "nat \<Rightarrow> string" where
  "show_nat n = (if n < 10 then [chr_c (48 + int n)] else show_nat (n div 10) @ [chr_c (48 + int (n mod 10))])"
  by pat_completeness auto
termination by (relation "measure id") auto

declare show_nat.simps [simp del]

end
