(* ===== verification/Hex.thy ===== *)
theory Hex
  imports Text_Codec
begin

text \<open>
  \<^verbatim>\<open>src/utils/neoc_hex.c\<close>: hexadecimal text.  No C object reaches \<^verbatim>\<open>PTRDIFF_MAX\<close> bytes, so the
  buffer sizes computed from a length are natural numbers here.
\<close>

subsection \<open>Digits\<close>

definition neoc_hex_is_valid_char :: "char \<Rightarrow> bool" where
  "neoc_hex_is_valid_char c \<longleftrightarrow>
     (CHR ''0'' \<le> c \<and> c \<le> CHR ''9'') \<or> (CHR ''a'' \<le> c \<and> c \<le> CHR ''f'') \<or> (CHR ''A'' \<le> c \<and> c \<le> CHR ''F'')"

definition neoc_hex_char_to_value :: "char \<Rightarrow> int" where
  "neoc_hex_char_to_value c =
     (if CHR ''0'' \<le> c \<and> c \<le> CHR ''9'' then ord_c c - ord_c (CHR ''0'')
      else if CHR ''a'' \<le> c \<and> c \<le> CHR ''f'' then ord_c c - ord_c (CHR ''a'') + 10
      else if CHR ''A'' \<le> c \<and> c \<le> CHR ''F'' then ord_c c - ord_c (CHR ''A'') + 10
      else -1)"

definition neoc_hex_value_to_char :: "int \<Rightarrow> bool \<Rightarrow> char" where
  "neoc_hex_value_to_char value uppercase =
     (if value < 0 \<or> 15 < value then chr_c 0
      else if value < 10 then chr_c (ord_c (CHR ''0'') + value)
      else if uppercase then chr_c (ord_c (CHR ''A'') + value - 10)
      else chr_c (ord_c (CHR ''a'') + value - 10))"

subsection \<open>Encoding\<close>

text \<open>\<^verbatim>\<open>sprintf(_, "%02x", b)\<close> and \<^verbatim>\<open>"%02X"\<close>: two digits, the high one first.\<close>

definition sprintf_02x :: "bool \<Rightarrow> byte \<Rightarrow> string" where
  "sprintf_02x uppercase b =
     [neoc_hex_value_to_char (uint b div 16) uppercase, neoc_hex_value_to_char (uint b mod 16) uppercase]"

definition neoc_hex_encode :: "byte list option \<Rightarrow> nat \<Rightarrow> bool \<Rightarrow> bool \<Rightarrow> string result" where
  "neoc_hex_encode data buffer_size uppercase include_prefix =
     (case data of
        None \<Rightarrow> Err NEOC_ERROR_INVALID_ARGUMENT
      | Some bs \<Rightarrow>
          (let prefix_len = (if include_prefix then 2 else 0);
               required_size = prefix_len + length bs * 2 + 1
           in if buffer_size < required_size then Err NEOC_ERROR_BUFFER_TOO_SMALL
              else Ok ((if include_prefix then ''0x'' else []) @ concat (map (sprintf_02x uppercase) bs))))"

definition neoc_hex_encode_buffer_size :: "nat \<Rightarrow> bool \<Rightarrow> nat" where
  "neoc_hex_encode_buffer_size data_length include_prefix =
     (if include_prefix then 2 else 0) + data_length * 2 + 1"

text \<open>A function that reports failure by a null result: the error code goes to the error record.\<close>

definition neoc_hex_encode_alloc :: "allocator \<Rightarrow> byte list option \<Rightarrow> bool \<Rightarrow> bool \<Rightarrow> string result" where
  "neoc_hex_encode_alloc A data uppercase include_prefix =
     (let buffer_size = neoc_hex_encode_buffer_size (length (case data of None \<Rightarrow> [] | Some bs \<Rightarrow> bs)) include_prefix
      in bind_r (malloc_r A buffer_size) (\<lambda>_. neoc_hex_encode data buffer_size uppercase include_prefix))"

definition neoc_hex_encode_reverse :: "allocator \<Rightarrow> byte list option \<Rightarrow> string result" where
  "neoc_hex_encode_reverse A data =
     (case data of
        None \<Rightarrow> Err NEOC_ERROR_INVALID_ARGUMENT
      | Some bs \<Rightarrow>
          (let buffer_size = length bs * 2 + 1 in
           bind_r (malloc_r A buffer_size) (\<lambda>_.
           bind_r (neoc_malloc_r A (length bs)) (\<lambda>_.
             neoc_hex_encode (Some (rev bs)) buffer_size False False))))"

subsection \<open>Decoding\<close>

definition has_hex_prefix :: "string \<Rightarrow> bool" where
  "has_hex_prefix s \<longleftrightarrow>
     2 \<le> length s \<and> s ! 0 = CHR ''0'' \<and> (s ! 1 = CHR ''x'' \<or> s ! 1 = CHR ''X'')"

definition neoc_hex_skip_prefix :: "string \<Rightarrow> string" where
  "neoc_hex_skip_prefix s = (if has_hex_prefix s then drop 2 s else s)"

text \<open>The decoding loop; the digit values are the source's inline expressions.\<close>

fun hex_decode_pairs :: "string \<Rightarrow> byte list result" where
  "hex_decode_pairs (high # low # hex) =
     (let high_val = neoc_hex_char_to_value high; low_val = neoc_hex_char_to_value low in
      if high_val = -1 \<or> low_val = -1 then Err NEOC_ERROR_INVALID_FORMAT
      else bind_r (hex_decode_pairs hex) (\<lambda>bs. Ok (word_of_int (push_bit 4 high_val OR low_val) # bs)))"
| "hex_decode_pairs _ = Ok []"

definition neoc_hex_decode :: "string option \<Rightarrow> nat \<Rightarrow> byte list result" where
  "neoc_hex_decode hex_string buffer_size =
     (case hex_string of
        None \<Rightarrow> Err NEOC_ERROR_INVALID_ARGUMENT
      | Some s \<Rightarrow>
          (let hex = neoc_hex_skip_prefix s; hex_len = length hex in
           if hex_len mod 2 \<noteq> 0 then Err NEOC_ERROR_INVALID_FORMAT
           else if buffer_size < hex_len div 2 then Err NEOC_ERROR_BUFFER_TOO_SMALL
           else hex_decode_pairs hex))"

definition neoc_hex_decode_buffer_size :: "string option \<Rightarrow> nat" where
  "neoc_hex_decode_buffer_size hex_string =
     (case hex_string of
        None \<Rightarrow> 0
      | Some s \<Rightarrow> (if has_hex_prefix s then length s - 2 else length s) div 2)"

definition neoc_hex_decode_alloc :: "allocator \<Rightarrow> string option \<Rightarrow> byte list result" where
  "neoc_hex_decode_alloc A hex_string =
     (case hex_string of
        None \<Rightarrow> Err NEOC_ERROR_INVALID_ARGUMENT
      | Some s \<Rightarrow>
          (let buffer_size = neoc_hex_decode_buffer_size (Some s) in
           if buffer_size = 0 then Err NEOC_ERROR_INVALID_FORMAT
           else bind_r (malloc_r A buffer_size) (\<lambda>_. neoc_hex_decode (Some s) buffer_size)))"

text \<open>
  The reversal runs over the whole buffer of \<^verbatim>\<open>strlen(hex) / 2\<close> bytes; where fewer were decoded it
  moves bytes that were never written, which is a \<open>Fault\<close>.
\<close>

definition neoc_hex_decode_reverse :: "allocator \<Rightarrow> string option \<Rightarrow> byte list result" where
  "neoc_hex_decode_reverse A hex =
     (case hex of
        None \<Rightarrow> Err NEOC_ERROR_INVALID_ARGUMENT
      | Some s \<Rightarrow>
          if length s mod 2 \<noteq> 0 then Err NEOC_ERROR_INVALID_FORMAT
          else
            (let data_len = length s div 2 in
             bind_r (neoc_malloc_r A data_len) (\<lambda>_.
             bind_r (neoc_hex_decode (Some s) data_len) (\<lambda>bs.
               if length bs = data_len then Ok (rev bs) else Fault))))"

subsection \<open>Validation, normalisation, comparison\<close>

definition neoc_hex_is_valid_string :: "string option \<Rightarrow> bool \<Rightarrow> bool" where
  "neoc_hex_is_valid_string str allow_0x_prefix =
     (case str of
        None \<Rightarrow> False
      | Some s \<Rightarrow>
          if length s = 0 then False
          else
            (let t = (if allow_0x_prefix \<and> has_hex_prefix s then drop 2 s else s) in
             if length t = 0 then False
             else if length t mod 2 \<noteq> 0 then False
             else list_all neoc_hex_is_valid_char t))"

text \<open>\<^verbatim>\<open>tolower\<close> and \<^verbatim>\<open>toupper\<close> of the C locale.\<close>

definition tolower_c :: "char \<Rightarrow> char" where
  "tolower_c c = (if CHR ''A'' \<le> c \<and> c \<le> CHR ''Z'' then chr_c (ord_c c + 32) else c)"

definition toupper_c :: "char \<Rightarrow> char" where
  "toupper_c c = (if CHR ''a'' \<le> c \<and> c \<le> CHR ''z'' then chr_c (ord_c c - 32) else c)"

definition neoc_hex_normalize :: "string option \<Rightarrow> nat \<Rightarrow> bool \<Rightarrow> string result" where
  "neoc_hex_normalize hex_string buffer_size uppercase =
     (case hex_string of
        None \<Rightarrow> Err NEOC_ERROR_INVALID_ARGUMENT
      | Some s \<Rightarrow>
          (let trimmed = neoc_hex_skip_prefix s; len = length trimmed in
           if len mod 2 \<noteq> 0 then Err NEOC_ERROR_INVALID_FORMAT
           else if buffer_size < len + 1 then Err NEOC_ERROR_BUFFER_TOO_SMALL
           else if list_all neoc_hex_is_valid_char trimmed
           then Ok (map (if uppercase then toupper_c else tolower_c) trimmed)
           else Err NEOC_ERROR_INVALID_FORMAT))"

text \<open>The loop over the common length: the first difference decides.\<close>

fun hex_compare_loop :: "string \<Rightarrow> string \<Rightarrow> int option" where
  "hex_compare_loop (x # xs) (y # ys) =
     (let ca = tolower_c x; cb = tolower_c y in
      if ca \<noteq> cb then Some (ord_c ca - ord_c cb) else hex_compare_loop xs ys)"
| "hex_compare_loop _ _ = None"

text \<open>
  Two null pointers compare equal; \<^verbatim>\<open>strlen\<close> of a single one is undefined.  \<^verbatim>\<open>(int)(len_a - len_b)\<close>
  is the difference modulo $2^{64}$ cut to 32 bits.
\<close>

definition neoc_hex_compare :: "string option \<Rightarrow> string option \<Rightarrow> int result" where
  "neoc_hex_compare hex1 hex2 =
     (case (hex1, hex2) of
        (None, None) \<Rightarrow> Ok 0
      | (Some s, Some t) \<Rightarrow>
          (let a = neoc_hex_skip_prefix s; b = neoc_hex_skip_prefix t;
               len_a = length a; len_b = length b
           in if len_a mod 2 \<noteq> 0 \<or> len_b mod 2 \<noteq> 0
              then Ok (sint (ucast (of_nat len_a - of_nat len_b :: size_t) :: 32 word))
              else
                (case hex_compare_loop a b of
                   Some d \<Rightarrow> Ok d
                 | None \<Rightarrow> Ok (if len_a = len_b then 0 else if len_a < len_b then -1 else 1)))
      | _ \<Rightarrow> Fault)"

definition neoc_hex_equal :: "string option \<Rightarrow> string option \<Rightarrow> bool result" where
  "neoc_hex_equal hex1 hex2 = bind_r (neoc_hex_compare hex1 hex2) (\<lambda>d. Ok (d = 0))"

subsection \<open>Digit lemmas\<close>

lemmas hex_char_defs =
  neoc_hex_is_valid_char_def neoc_hex_char_to_value_def neoc_hex_value_to_char_def char_le_iff

lemma ord_consts [simp]:
  "ord_c (CHR ''0'') = 48" "ord_c (CHR ''9'') = 57" "ord_c (CHR ''a'') = 97" "ord_c (CHR ''f'') = 102"
  "ord_c (CHR ''z'') = 122" "ord_c (CHR ''A'') = 65" "ord_c (CHR ''F'') = 70" "ord_c (CHR ''Z'') = 90"
  "ord_c (CHR ''x'') = 120" "ord_c (CHR ''X'') = 88"
  by (simp_all add: ord_c_def)

lemma char_value_roundtrip:
  "0 \<le> v \<Longrightarrow> v < 16 \<Longrightarrow> neoc_hex_char_to_value (neoc_hex_value_to_char v u) = v"
  by (auto simp: hex_char_defs ord_chr_c)

lemma value_to_char_valid: "0 \<le> v \<Longrightarrow> v < 16 \<Longrightarrow> neoc_hex_is_valid_char (neoc_hex_value_to_char v u)"
  by (auto simp: hex_char_defs ord_chr_c)

lemma char_to_value_invalid: "neoc_hex_char_to_value c = -1 \<longleftrightarrow> \<not> neoc_hex_is_valid_char c"
  by (auto simp: hex_char_defs)

lemma char_to_value_range:
  "neoc_hex_is_valid_char c \<Longrightarrow> 0 \<le> neoc_hex_char_to_value c \<and> neoc_hex_char_to_value c < 16"
  by (auto simp: hex_char_defs)

lemma value_char_roundtrip:
  "neoc_hex_is_valid_char c \<Longrightarrow>
     neoc_hex_value_to_char (neoc_hex_char_to_value c) u = (if u then toupper_c else tolower_c) c"
  using ord_c_bounds [of c]
  by (auto simp: hex_char_defs tolower_c_def toupper_c_def chr_c_eq_iff ord_chr_c)

lemma byte_nibbles: "(word_of_int (push_bit 4 (uint b div 16) OR uint b mod 16) :: byte) = b"
proof -
  have "push_bit 4 (drop_bit 4 (uint b)) OR take_bit 4 (uint b) = uint b"
    by (rule bit_eqI) (auto simp: bit_simps)
  then show ?thesis by (simp add: drop_bit_eq_div take_bit_eq_mod)
qed

lemma nibble_bounds: "0 \<le> uint (b :: byte) div 16" "uint b div 16 < 16"
  using uint_lt2p [of b] by (simp_all add: pos_imp_zdiv_nonneg_iff)

lemma or_nibbles:
  assumes "0 \<le> h" and "h < 16" and "0 \<le> l" and "l < 16"
  shows "uint (word_of_int (push_bit 4 h OR l) :: byte) div 16 = h"
    and "uint (word_of_int (push_bit 4 h OR l) :: byte) mod 16 = l"
proof -
  have l: "take_bit 4 l = l" using assms by (simp add: take_bit_eq_mod)
  have "push_bit 4 h AND take_bit 4 l = 0" by (rule bit_eqI) (auto simp: bit_simps)
  then have sum: "push_bit 4 h OR l = 16 * h + l"
    using plus_and_or [of "push_bit 4 h" l] l by (simp add: push_bit_eq_mult)
  have "uint (word_of_int (push_bit 4 h OR l) :: byte) = (16 * h + l) mod 256"
    unfolding sum by (subst uint_word_of_int) simp
  then have "uint (word_of_int (push_bit 4 h OR l) :: byte) = 16 * h + l"
    using assms by simp
  then show "uint (word_of_int (push_bit 4 h OR l) :: byte) div 16 = h"
    and "uint (word_of_int (push_bit 4 h OR l) :: byte) mod 16 = l"
    using assms by simp_all
qed

lemma sprintf_pair:
  assumes "neoc_hex_is_valid_char h" and "neoc_hex_is_valid_char l"
  shows "sprintf_02x u (word_of_int (push_bit 4 (neoc_hex_char_to_value h) OR neoc_hex_char_to_value l))
         = map (if u then toupper_c else tolower_c) [h, l]"
  using char_to_value_range [OF assms(1)] char_to_value_range [OF assms(2)] assms
  by (simp add: sprintf_02x_def or_nibbles value_char_roundtrip)

subsection \<open>The decoding loop\<close>

lemma length_encoded [simp]: "length (concat (map (sprintf_02x u) bs)) = 2 * length bs"
  by (induction bs) (simp_all add: sprintf_02x_def)

lemma encoded_valid: "list_all neoc_hex_is_valid_char (concat (map (sprintf_02x u) bs))"
proof (induction bs)
  case (Cons b bs)
  with nibble_bounds [of b] show ?case by (simp add: sprintf_02x_def value_to_char_valid)
qed simp

lemma decode_pairs_encoded: "hex_decode_pairs (concat (map (sprintf_02x u) bs)) = Ok bs"
proof (induction bs)
  case (Cons b bs)
  with nibble_bounds [of b] show ?case
    by (simp add: sprintf_02x_def char_value_roundtrip byte_nibbles Let_def Cons.IH [unfolded sprintf_02x_def])
qed simp

lemma decode_pairs_encode:
  "even (length s) \<Longrightarrow> list_all neoc_hex_is_valid_char s \<Longrightarrow>
     \<exists>bs. hex_decode_pairs s = Ok bs \<and> 2 * length bs = length s
       \<and> concat (map (sprintf_02x u) bs) = map (if u then toupper_c else tolower_c) s"
proof (induction s rule: hex_decode_pairs.induct)
  case (1 high low hex)
  then obtain bs where "hex_decode_pairs hex = Ok bs" "2 * length bs = length hex"
    "concat (map (sprintf_02x u) bs) = map (if u then toupper_c else tolower_c) hex"
    by (auto simp: char_to_value_invalid)
  with "1.prems" show ?case
    by (simp add: char_to_value_invalid sprintf_pair)
qed auto

lemma decode_pairs_invalid:
  "even (length s) \<Longrightarrow> \<not> list_all neoc_hex_is_valid_char s \<Longrightarrow> hex_decode_pairs s = Err NEOC_ERROR_INVALID_FORMAT"
  by (induction s rule: hex_decode_pairs.induct) (auto simp: char_to_value_invalid)

lemma no_prefix: "list_all neoc_hex_is_valid_char s \<Longrightarrow> \<not> has_hex_prefix s"
proof
  assume "list_all neoc_hex_is_valid_char s" and p: "has_hex_prefix s"
  then have "neoc_hex_is_valid_char (s ! 1)"
    by (simp add: list_all_length has_hex_prefix_def)
  with p show False by (auto simp: has_hex_prefix_def hex_char_defs)
qed

lemma skip_prefix_valid [simp]: "list_all neoc_hex_is_valid_char s \<Longrightarrow> neoc_hex_skip_prefix s = s"
  by (simp add: neoc_hex_skip_prefix_def no_prefix)

lemma skip_prefix_0x [simp]: "neoc_hex_skip_prefix (CHR ''0'' # CHR ''x'' # s) = s"
  by (simp add: neoc_hex_skip_prefix_def has_hex_prefix_def)

lemma decode_Ok_iff:
  "(\<exists>bs. neoc_hex_decode (Some s) n = Ok bs) \<longleftrightarrow>
     even (length (neoc_hex_skip_prefix s)) \<and> length (neoc_hex_skip_prefix s) div 2 \<le> n
     \<and> list_all neoc_hex_is_valid_char (neoc_hex_skip_prefix s)"
proof (cases "list_all neoc_hex_is_valid_char (neoc_hex_skip_prefix s)")
  case True
  with decode_pairs_encode [of "neoc_hex_skip_prefix s" True] show ?thesis
    by (auto simp: neoc_hex_decode_def Let_def)
next
  case False
  with decode_pairs_invalid [of "neoc_hex_skip_prefix s"] show ?thesis
    by (auto simp: neoc_hex_decode_def Let_def)
qed

lemma hex_decode_encode:
  assumes "neoc_hex_encode (Some bs) n u p = Ok s" and "length bs \<le> m"
  shows "neoc_hex_decode (Some s) m = Ok bs"
  using assms encoded_valid [of u bs]
  by (auto simp: neoc_hex_encode_def neoc_hex_decode_def Let_def decode_pairs_encoded split: if_splits)

lemma hex_encode_Ok:
  "neoc_hex_encode (Some bs) (neoc_hex_encode_buffer_size (length bs) p) u p
   = Ok ((if p then ''0x'' else []) @ concat (map (sprintf_02x u) bs))"
  by (simp add: neoc_hex_encode_def neoc_hex_encode_buffer_size_def)

interpretation hex_codec: text_codec
  "\<lambda>bs. neoc_hex_encode (Some bs) (neoc_hex_encode_buffer_size (length bs) p) u p"
  "\<lambda>s. neoc_hex_decode (Some s) (neoc_hex_decode_buffer_size (Some s))" "\<lambda>_. True" for u p
proof
  fix bs :: "byte list"
  let ?s = "(if p then ''0x'' else []) @ concat (map (sprintf_02x u) bs)"
  have size: "length bs \<le> neoc_hex_decode_buffer_size (Some ?s)"
    using no_prefix [OF encoded_valid [of u bs]]
    by (auto simp: neoc_hex_decode_buffer_size_def has_hex_prefix_def)
  show "\<exists>s. neoc_hex_encode (Some bs) (neoc_hex_encode_buffer_size (length bs) p) u p = Ok s
      \<and> neoc_hex_decode (Some s) (neoc_hex_decode_buffer_size (Some s)) = Ok bs"
    using hex_decode_encode [OF hex_encode_Ok size] hex_encode_Ok [of bs p u] by blast
qed

subsection \<open>Comparison\<close>

lemma compare_loop_None:
  "length a = length b \<Longrightarrow> hex_compare_loop a b = None \<longleftrightarrow> map tolower_c a = map tolower_c b"
  by (induction a b rule: list_induct2) (auto simp: Let_def)

lemma compare_loop_nonzero: "hex_compare_loop a b = Some d \<Longrightarrow> d \<noteq> 0"
  by (induction a b rule: hex_compare_loop.induct) (auto simp: Let_def ord_c_eq_iff split: if_splits)

lemma compare_even:
  assumes "even (length (neoc_hex_skip_prefix s))" and "even (length (neoc_hex_skip_prefix t))"
  shows "neoc_hex_equal (Some s) (Some t) =
           Ok (map tolower_c (neoc_hex_skip_prefix s) = map tolower_c (neoc_hex_skip_prefix t))"
proof -
  let ?a = "neoc_hex_skip_prefix s" and ?b = "neoc_hex_skip_prefix t"
  show ?thesis
  proof (cases "hex_compare_loop ?a ?b")
    case None
    then show ?thesis
      using assms compare_loop_None [of ?a ?b] map_eq_imp_length_eq [of tolower_c ?a tolower_c ?b]
      by (auto simp: neoc_hex_equal_def neoc_hex_compare_def Let_def odd_iff_mod_2_eq_one)
  next
    case (Some d)
    then have "map tolower_c ?a \<noteq> map tolower_c ?b"
      using compare_loop_None [of ?a ?b] map_eq_imp_length_eq [of tolower_c ?a tolower_c ?b] by auto
    with assms Some compare_loop_nonzero [OF Some] show ?thesis
      by (simp add: neoc_hex_equal_def neoc_hex_compare_def Let_def odd_iff_mod_2_eq_one)
  qed
qed

lemma decoded_lower:
  assumes "neoc_hex_decode (Some s) n = Ok bs"
  shows "concat (map (sprintf_02x u) bs) = map (if u then toupper_c else tolower_c) (neoc_hex_skip_prefix s)"
    and "even (length (neoc_hex_skip_prefix s))"
    and "list_all neoc_hex_is_valid_char (neoc_hex_skip_prefix s)"
  using assms decode_Ok_iff [of s n] decode_pairs_encode [of "neoc_hex_skip_prefix s" u]
  by (auto simp: neoc_hex_decode_def Let_def split: if_splits)

lemma length_skip_prefix: "length (neoc_hex_skip_prefix s) \<le> length s"
  by (simp add: neoc_hex_skip_prefix_def)

subsection \<open>Properties\<close>

text \<open> Hexadecimal round trip: whatever the letter case and the prefix option, encoding
  any bytes into a buffer of the size that \<open>neoc_hex_encode_buffer_size\<close> announces succeeds,
  and decoding the text into a buffer of the size that \<open>neoc_hex_decode_buffer_size\<close> announces
  gives the bytes back.\<close>

theorem hex_roundtrip:
  "bind_r (neoc_hex_encode (Some bs) (neoc_hex_encode_buffer_size (length bs) p) u p)
     (\<lambda>s. neoc_hex_decode (Some s) (neoc_hex_decode_buffer_size (Some s))) = Ok bs"
  by (rule hex_codec.bind_roundtrip) simp

text \<open> The decoder accepts a text exactly when, after an optional \<^verbatim>\<open>0x\<close>, it has an even
  number of characters, all of them hexadecimal digits, and the buffer has room for half as
  many bytes; encoding what it returns gives the text that \<open>neoc_hex_normalize\<close> computes.\<close>

theorem hex_decode_normalizes:
  "(\<exists>bs. neoc_hex_decode (Some s) n = Ok bs
      \<and> neoc_hex_encode (Some bs) (length s + 1) u False = neoc_hex_normalize (Some s) (length s + 1) u)
   \<longleftrightarrow> even (length (neoc_hex_skip_prefix s)) \<and> length (neoc_hex_skip_prefix s) div 2 \<le> n
       \<and> list_all neoc_hex_is_valid_char (neoc_hex_skip_prefix s)"
proof -
  have "neoc_hex_encode (Some bs) (length s + 1) u False = neoc_hex_normalize (Some s) (length s + 1) u"
    if "neoc_hex_decode (Some s) n = Ok bs" for bs
  proof -
    note d = decoded_lower(1) [OF that, of u] decoded_lower(2,3) [OF that]
    have "2 * length bs = length (neoc_hex_skip_prefix s)"
      using arg_cong [OF d(1), of length] by simp
    then show ?thesis
      using d length_skip_prefix [of s] by (simp add: neoc_hex_encode_def neoc_hex_normalize_def Let_def)
  qed
  then show ?thesis using decode_Ok_iff [of s n] by blast
qed

text \<open> On texts that decode, \<open>neoc_hex_equal\<close> is equality of the decoded bytes: letter
  case and prefix do not matter, and nothing else is ignored.\<close>

theorem hex_equal_decoded:
  assumes "neoc_hex_decode (Some s) n = Ok bs" and "neoc_hex_decode (Some t) m = Ok cs"
  shows "neoc_hex_equal (Some s) (Some t) = Ok (bs = cs)"
proof -
  note s = decoded_lower(1) [OF assms(1), of False] decoded_lower(2,3) [OF assms(1)]
    and t = decoded_lower(1) [OF assms(2), of False] decoded_lower(2,3) [OF assms(2)]
  have "bs = cs \<longleftrightarrow> concat (map (sprintf_02x False) bs) = concat (map (sprintf_02x False) cs)"
    using decode_pairs_encoded by (metis result.inject(1))
  with s t show ?thesis by (simp add: compare_even)
qed

theorem hex_equal_decoded_witness:
  "neoc_hex_equal (Some ''0xAB01'') (Some ''ab01'') = Ok True"
proof -
  have "neoc_hex_decode (Some ''0xAB01'') 2 = Ok [0xAB, 0x01]"
    and "neoc_hex_decode (Some ''ab01'') 2 = Ok [0xAB, 0x01]" by code_simp+
  from hex_equal_decoded [OF this] show ?thesis by simp
qed

text \<open> Texts of equal odd length always compare equal, whatever their characters are:
  the length check of \<open>neoc_hex_compare\<close> returns the difference of the lengths before any
  character is looked at.\<close>

theorem hex_equal_ignores_odd_texts:
  assumes "odd (length (neoc_hex_skip_prefix s))"
    and "length (neoc_hex_skip_prefix s) = length (neoc_hex_skip_prefix t)"
  shows "neoc_hex_equal (Some s) (Some t) = Ok True"
  using assms by (simp add: neoc_hex_equal_def neoc_hex_compare_def Let_def odd_iff_mod_2_eq_one)

theorem hex_equal_ignores_odd_texts_witness: "neoc_hex_equal (Some ''abc'') (Some ''123'') = Ok True"
  by (rule hex_equal_ignores_odd_texts) (simp_all add: neoc_hex_skip_prefix_def has_hex_prefix_def)

text \<open> \<open>neoc_hex_decode_reverse\<close> returns the decoded bytes in reverse order for a non-empty text
  without prefix; for every decodable text with a \<^verbatim>\<open>0x\<close> prefix it sizes its buffer by the
  unstripped text and reverses a byte that was never written.\<close>

theorem hex_decode_reverse_outcome:
  assumes "A (length s div 2)" and "neoc_hex_decode (Some s) (length s div 2) = Ok bs" and "s \<noteq> []"
  shows "neoc_hex_decode_reverse A (Some s) = (if has_hex_prefix s then Fault else Ok (rev bs))"
proof -
  note d = decoded_lower(1) [OF assms(2), of False] decoded_lower(2,3) [OF assms(2)]
  have "2 * length bs = length (neoc_hex_skip_prefix s)"
    using arg_cong [OF d(1), of length] by simp
  then have len: "2 * length bs = (if has_hex_prefix s then length s - 2 else length s)"
    by (simp add: neoc_hex_skip_prefix_def)
  have two: "has_hex_prefix s \<Longrightarrow> 2 \<le> length s" by (simp add: has_hex_prefix_def)
  have "even (length s)"
    using d(2) two by (auto simp: neoc_hex_skip_prefix_def split: if_splits)
  moreover from this have "0 < length s div 2" using assms(3) by (cases s; cases "tl s") auto
  ultimately show ?thesis using assms(1,2) len two
    by (cases "has_hex_prefix s") (auto simp: neoc_hex_decode_reverse_def Let_def)
qed

theorem hex_decode_reverse_outcome_witness:
  "neoc_hex_decode_reverse (\<lambda>_. True) (Some ''0x0102'') = Fault"
proof -
  have "neoc_hex_decode (Some ''0x0102'') (length ''0x0102'' div 2) = Ok [0x01, 0x02]" by code_simp
  from hex_decode_reverse_outcome [OF _ this, of "\<lambda>_. True"] show ?thesis
    by (simp add: has_hex_prefix_def)
qed

end
