(* ===== verification/Base64.thy ===== *)
theory Base64
  imports Text_Codec
begin

text \<open>
  \<^verbatim>\<open>src/utils/neoc_base64.c\<close>: Base64 and its URL-safe variant.  A function that reports failure
  by a null result stands for the error it records.
\<close>

subsection \<open>Alphabet\<close>

definition BASE64_CHARS :: string where
  "BASE64_CHARS = ''ABCDEFGHIJKLMNOPQRSTUVWXYZabcdefghijklmnopqrstuvwxyz0123456789+/''"

definition BASE64_DECODE_TABLE :: "int list" where
  "BASE64_DECODE_TABLE = [
    -1,-1,-1,-1,-1,-1,-1,-1,-1,-1,-1,-1,-1,-1,-1,-1,
    -1,-1,-1,-1,-1,-1,-1,-1,-1,-1,-1,-1,-1,-1,-1,-1,
    -1,-1,-1,-1,-1,-1,-1,-1,-1,-1,-1,62,-1,-1,-1,63,
    52,53,54,55,56,57,58,59,60,61,-1,-1,-1,-1,-1,-1,
    -1, 0, 1, 2, 3, 4, 5, 6, 7, 8, 9,10,11,12,13,14,
    15,16,17,18,19,20,21,22,23,24,25,-1,-1,-1,-1,-1,
    -1,26,27,28,29,30,31,32,33,34,35,36,37,38,39,40,
    41,42,43,44,45,46,47,48,49,50,51,-1,-1,-1,-1,-1,
    -1,-1,-1,-1,-1,-1,-1,-1,-1,-1,-1,-1,-1,-1,-1,-1,
    -1,-1,-1,-1,-1,-1,-1,-1,-1,-1,-1,-1,-1,-1,-1,-1,
    -1,-1,-1,-1,-1,-1,-1,-1,-1,-1,-1,-1,-1,-1,-1,-1,
    -1,-1,-1,-1,-1,-1,-1,-1,-1,-1,-1,-1,-1,-1,-1,-1,
    -1,-1,-1,-1,-1,-1,-1,-1,-1,-1,-1,-1,-1,-1,-1,-1,
    -1,-1,-1,-1,-1,-1,-1,-1,-1,-1,-1,-1,-1,-1,-1,-1,
    -1,-1,-1,-1,-1,-1,-1,-1,-1,-1,-1,-1,-1,-1,-1,-1,
    -1,-1,-1,-1,-1,-1,-1,-1,-1,-1,-1,-1,-1,-1,-1,-1]"

subsection \<open>Encoding\<close>

definition base64_char :: "u32 \<Rightarrow> char" where
  "base64_char v = BASE64_CHARS ! unat (v AND 0x3F)"

text \<open>The encoding loop, three bytes per turn; the last turn may have one or two.\<close>

fun base64_encode_loop :: "byte list \<Rightarrow> string" where
  "base64_encode_loop [] = []"
| "base64_encode_loop [a] =
     (let chunk = push_bit 16 (ucast a) :: u32 in
      [base64_char (drop_bit 18 chunk), base64_char (drop_bit 12 chunk), CHR ''='', CHR ''=''])"
| "base64_encode_loop [a, b] =
     (let chunk = push_bit 16 (ucast a) OR push_bit 8 (ucast b) :: u32 in
      [base64_char (drop_bit 18 chunk), base64_char (drop_bit 12 chunk),
       base64_char (drop_bit 6 chunk), CHR ''=''])"
| "base64_encode_loop (a # b # c # data) =
     (let chunk = push_bit 16 (ucast a) OR push_bit 8 (ucast b) OR ucast c :: u32 in
      [base64_char (drop_bit 18 chunk), base64_char (drop_bit 12 chunk),
       base64_char (drop_bit 6 chunk), base64_char chunk] @ base64_encode_loop data)"

definition neoc_base64_encode :: "byte list option \<Rightarrow> nat \<Rightarrow> nat \<Rightarrow> string result" where
  "neoc_base64_encode data data_len buffer_size =
     (case data of
        None \<Rightarrow> Err NEOC_ERROR_INVALID_ARGUMENT
      | Some bs \<Rightarrow>
          (let encoded_len = ((data_len + 2) div 3) * 4 in
           if buffer_size < encoded_len + 1 then Err NEOC_ERROR_BUFFER_TOO_SMALL
           else if length bs < data_len then Fault
           else Ok (base64_encode_loop (take data_len bs))))"

definition neoc_base64_encode_buffer_size :: "nat \<Rightarrow> nat" where
  "neoc_base64_encode_buffer_size data_length = ((data_length + 2) div 3) * 4 + 1"

definition neoc_base64_encode_alloc :: "allocator \<Rightarrow> byte list option \<Rightarrow> nat \<Rightarrow> string result" where
  "neoc_base64_encode_alloc A data data_length =
     (if data = None \<and> 0 < data_length then Err NEOC_ERROR_INVALID_ARGUMENT
      else let buffer_size = neoc_base64_encode_buffer_size data_length in
        bind_r (malloc_r A buffer_size) (\<lambda>_. neoc_base64_encode data data_length buffer_size))"

subsection \<open>Decoding\<close>

definition base64_padding :: "string \<Rightarrow> nat" where
  "base64_padding s =
     (if 1 \<le> length s \<and> s ! (length s - 1) = CHR ''='' then 1 else 0)
     + (if 2 \<le> length s \<and> s ! (length s - 2) = CHR ''='' then 1 else 0)"

text \<open>The subtraction is the machine's: a padded string of fewer than four characters wraps.\<close>

definition neoc_base64_decode_buffer_size :: "string option \<Rightarrow> size_t" where
  "neoc_base64_decode_buffer_size base64_string =
     (case base64_string of
        None \<Rightarrow> 0
      | Some s \<Rightarrow>
          if length s = 0 then 0
          else of_nat ((length s div 4) * 3) - of_nat (base64_padding s))"

text \<open>The value of one character: the inner loop over \<open>k\<close>.\<close>

definition base64_val :: "char \<Rightarrow> u32 result" where
  "base64_val c =
     (if c = CHR ''='' then Ok 0
      else let val = BASE64_DECODE_TABLE ! of_char c in
        if val = -1 then Err NEOC_ERROR_INVALID_FORMAT else Ok (word_of_int val))"

definition base64_chunk :: "u32 \<Rightarrow> u32 \<Rightarrow> u32 \<Rightarrow> u32 \<Rightarrow> u32" where
  "base64_chunk v0 v1 v2 v3 = push_bit 18 v0 OR push_bit 12 v1 OR push_bit 6 v2 OR v3"

text \<open>The decoding loop; \<open>j\<close> is the output index, and only indices below \<open>output_len\<close> are stored.\<close>

fun base64_decode_loop :: "nat \<Rightarrow> nat \<Rightarrow> string \<Rightarrow> byte list result" where
  "base64_decode_loop output_len j (c0 # c1 # c2 # c3 # encoded) =
     bind_r (base64_val c0) (\<lambda>v0. bind_r (base64_val c1) (\<lambda>v1.
     bind_r (base64_val c2) (\<lambda>v2. bind_r (base64_val c3) (\<lambda>v3.
       let chunk = base64_chunk v0 v1 v2 v3 in
       bind_r (base64_decode_loop output_len (j + 3) encoded) (\<lambda>bs.
         Ok ((if j < output_len then [ucast (drop_bit 16 chunk AND 0xFF)] else [])
           @ (if j + 1 < output_len then [ucast (drop_bit 8 chunk AND 0xFF)] else [])
           @ (if j + 2 < output_len then [ucast (chunk AND 0xFF)] else [])
           @ bs))))))"
| "base64_decode_loop output_len j _ = Ok []"

definition base64_output_len :: "string \<Rightarrow> nat" where
  "base64_output_len s =
     (length s div 4) * 3
     - (if 0 < length s \<and> s ! (length s - 1) = CHR ''='' then 1 else 0)
     - (if 1 < length s \<and> s ! (length s - 2) = CHR ''='' then 1 else 0)"

definition neoc_base64_decode :: "string option \<Rightarrow> nat \<Rightarrow> byte list result" where
  "neoc_base64_decode encoded buffer_size =
     (case encoded of
        None \<Rightarrow> Err NEOC_ERROR_INVALID_ARGUMENT
      | Some s \<Rightarrow>
          if length s mod 4 \<noteq> 0 then Err NEOC_ERROR_INVALID_FORMAT
          else if buffer_size < base64_output_len s then Err NEOC_ERROR_BUFFER_TOO_SMALL
          else base64_decode_loop (base64_output_len s) 0 s)"

definition neoc_base64_decode_alloc :: "allocator \<Rightarrow> string option \<Rightarrow> byte list result" where
  "neoc_base64_decode_alloc A base64_string =
     (case base64_string of
        None \<Rightarrow> Err NEOC_ERROR_INVALID_ARGUMENT
      | Some s \<Rightarrow>
          (let buffer_size = neoc_base64_decode_buffer_size (Some s) in
           if buffer_size = 0 then Err NEOC_ERROR_INVALID_FORMAT
           else bind_r (malloc_r A (unat buffer_size)) (\<lambda>_. neoc_base64_decode (Some s) (unat buffer_size))))"

subsection \<open>Validity and the URL-safe variant\<close>

definition isalnum_c :: "char \<Rightarrow> bool" where
  "isalnum_c c \<longleftrightarrow>
     (CHR ''0'' \<le> c \<and> c \<le> CHR ''9'') \<or> (CHR ''a'' \<le> c \<and> c \<le> CHR ''z'') \<or> (CHR ''A'' \<le> c \<and> c \<le> CHR ''Z'')"

definition neoc_base64_is_valid_char :: "char \<Rightarrow> bool" where
  "neoc_base64_is_valid_char c \<longleftrightarrow>
     isalnum_c c \<or> c = CHR ''+'' \<or> c = CHR ''/'' \<or> c = CHR ''='' \<or> c = CHR ''-'' \<or> c = CHR ''_''"

definition neoc_base64_is_valid_string :: "string option \<Rightarrow> bool" where
  "neoc_base64_is_valid_string str =
     (case str of
        None \<Rightarrow> False
      | Some s \<Rightarrow> length s \<noteq> 0 \<and> length s mod 4 = 0 \<and> list_all neoc_base64_is_valid_char s)"

definition base64_to_url :: "char \<Rightarrow> char" where
  "base64_to_url c = (if c = CHR ''+'' then CHR ''-'' else if c = CHR ''/'' then CHR ''_'' else c)"

definition base64_of_url :: "char \<Rightarrow> char" where
  "base64_of_url c = (if c = CHR ''-'' then CHR ''+'' else if c = CHR ''_'' then CHR ''/'' else c)"

definition neoc_base64_url_encode :: "byte list option \<Rightarrow> nat \<Rightarrow> nat \<Rightarrow> string result" where
  "neoc_base64_url_encode data data_length buffer_size =
     bind_r (neoc_base64_encode data data_length buffer_size) (\<lambda>s. Ok (map base64_to_url s))"

definition neoc_base64_url_decode :: "allocator \<Rightarrow> string option \<Rightarrow> nat \<Rightarrow> byte list result" where
  "neoc_base64_url_decode A base64_string buffer_size =
     (case base64_string of
        None \<Rightarrow> Err NEOC_ERROR_INVALID_ARGUMENT
      | Some s \<Rightarrow>
          bind_r (malloc_r A (length s + 1)) (\<lambda>_.
            neoc_base64_decode (Some (map base64_of_url s)) buffer_size))"

subsection \<open>The alphabet and the table are inverse\<close>

lemma base64_table_inverts:
  "\<forall>i \<in> set [0..<64]. BASE64_DECODE_TABLE ! of_char (BASE64_CHARS ! i) = int i \<and> BASE64_CHARS ! i \<noteq> CHR ''=''"
  unfolding BASE64_CHARS_def BASE64_DECODE_TABLE_def by code_simp

lemma and_3F: "(v AND 0x3F :: u32) = take_bit 6 v"
  by (simp add: take_bit_eq_mask mask_eq_exp_minus_1)

lemma base64_val_char [simp]: "base64_val (base64_char v) = Ok (take_bit 6 v)"
proof -
  have "unat (take_bit 6 v) < 64" by (simp add: unsigned_take_bit_eq take_bit_nat_less_exp [of 6, simplified])
  with base64_table_inverts have
    "BASE64_DECODE_TABLE ! of_char (BASE64_CHARS ! unat (take_bit 6 v)) = int (unat (take_bit 6 v))"
    "BASE64_CHARS ! unat (take_bit 6 v) \<noteq> CHR ''=''" by auto
  moreover have "uint (take_bit 6 v) \<noteq> - 1"
    using uint_ge_0 [of "take_bit 6 v"] by linarith
  ultimately show ?thesis by (simp add: base64_val_def base64_char_def and_3F Let_def)
qed

lemma base64_val_pad [simp]: "base64_val (CHR ''='') = Ok 0"
  by (simp add: base64_val_def)

lemma base64_char_no_pad: "base64_char v \<noteq> CHR ''=''"
proof -
  have "unat (take_bit 6 v) < 64" by (simp add: unsigned_take_bit_eq take_bit_nat_less_exp [of 6, simplified])
  with base64_table_inverts show ?thesis by (simp add: base64_char_def and_3F)
qed

subsection \<open>Chunks\<close>

lemma base64_chunk_sextets:
  fixes x :: u32
  shows "base64_chunk (take_bit 6 (drop_bit 18 x)) (take_bit 6 (drop_bit 12 x)) (take_bit 6 (drop_bit 6 x))
      (take_bit 6 x) = take_bit 24 x"
proof (rule bit_word_eqI)
  fix n :: nat
  consider "n < 6" | "6 \<le> n" "n < 12" | "12 \<le> n" "n < 18" | "18 \<le> n" by linarith
  then show "bit (base64_chunk (take_bit 6 (drop_bit 18 x)) (take_bit 6 (drop_bit 12 x))
      (take_bit 6 (drop_bit 6 x)) (take_bit 6 x)) n = bit (take_bit 24 x) n"
    unfolding base64_chunk_def by cases (auto simp: bit_simps)
qed

lemma chunk_bytes:
  fixes a b c :: byte
  defines "x \<equiv> push_bit 16 (ucast a) OR push_bit 8 (ucast b) OR ucast c :: u32"
  shows "(ucast (drop_bit 16 (take_bit 24 x)) :: byte) = a" "(ucast (drop_bit 8 (take_bit 24 x)) :: byte) = b"
    "(ucast (take_bit 24 x) :: byte) = c"
  unfolding x_def by (rule bit_word_eqI; auto simp: bit_simps dest: bit_imp_le_length)+

lemma chunk_low_zero:
  fixes a b :: byte
  shows "take_bit 6 (drop_bit 6 (push_bit 16 (ucast a) :: u32)) = 0" "take_bit 6 (push_bit 16 (ucast a) :: u32) = 0"
    "take_bit 6 (push_bit 16 (ucast a) OR push_bit 8 (ucast b) :: u32) = 0"
  by (rule bit_word_eqI; auto simp: bit_simps)+

subsection \<open>Decoding inverts encoding\<close>

lemma decode_loop_encode_loop:
  "base64_decode_loop (j + length bs) j (base64_encode_loop bs) = Ok bs"
proof (induction bs arbitrary: j rule: base64_encode_loop.induct)
  case (2 a)
  define x :: u32 where "x = push_bit 16 (ucast a)"
  have "base64_chunk (take_bit 6 (drop_bit 18 x)) (take_bit 6 (drop_bit 12 x)) 0 0 = take_bit 24 x"
    using base64_chunk_sextets [of x] by (simp only: x_def chunk_low_zero)
  moreover have "(ucast (drop_bit 16 (take_bit 24 x)) :: byte) = a"
    using chunk_bytes(1) [of a 0 0] by (simp only: x_def) simp
  ultimately show ?case by (simp add: Let_def byte_of_and flip: x_def)
next
  case (3 a b)
  define x :: u32 where "x = push_bit 16 (ucast a) OR push_bit 8 (ucast b)"
  have "base64_chunk (take_bit 6 (drop_bit 18 x)) (take_bit 6 (drop_bit 12 x)) (take_bit 6 (drop_bit 6 x)) 0 = take_bit 24 x"
    using base64_chunk_sextets [of x] by (simp only: x_def chunk_low_zero)
  moreover have "(ucast (drop_bit 16 (take_bit 24 x)) :: byte) = a" "(ucast (drop_bit 8 (take_bit 24 x)) :: byte) = b"
    using chunk_bytes(1,2) [of a b 0] by (simp_all only: x_def) simp_all
  moreover have "base64_encode_loop [a, b] = [base64_char (drop_bit 18 x), base64_char (drop_bit 12 x),
       base64_char (drop_bit 6 x), CHR ''='']"
    by (simp only: base64_encode_loop.simps Let_def x_def)
  ultimately show ?case by (simp add: Let_def byte_of_and del: base64_encode_loop.simps)
next
  case (4 a b c data)
  define x :: u32 where "x = push_bit 16 (ucast a) OR push_bit 8 (ucast b) OR ucast c"
  have "(ucast (drop_bit 16 (take_bit 24 x)) :: byte) = a" "(ucast (drop_bit 8 (take_bit 24 x)) :: byte) = b"
    "(ucast (take_bit 24 x) :: byte) = c"
    using chunk_bytes [of a b c] by (simp_all only: x_def)
  moreover have "base64_encode_loop (a # b # c # data) = [base64_char (drop_bit 18 x), base64_char (drop_bit 12 x),
       base64_char (drop_bit 6 x), base64_char x] @ base64_encode_loop data"
    by (simp only: base64_encode_loop.simps Let_def x_def)
  moreover have "base64_decode_loop (Suc (Suc (Suc (j + length data)))) (j + 3) (base64_encode_loop data) = Ok data"
    using 4 [OF refl, of "j + 3"] by (simp add: eval_nat_numeral)
  ultimately show ?case
    by (simp add: Let_def byte_of_and base64_chunk_sextets del: base64_encode_loop.simps)
qed simp

lemma length_encode_loop: "length (base64_encode_loop bs) = (length bs + 2) div 3 * 4"
proof (induction bs rule: base64_encode_loop.induct)
  case (4 a b c data)
  have "(length (a # b # c # data) + 2) div 3 = Suc ((length data + 2) div 3)" by simp
  with 4 show ?case by (simp add: Let_def)
qed (simp_all add: Let_def)

lemma encode_loop_Nil_iff: "base64_encode_loop bs = [] \<longleftrightarrow> bs = []"
  by (cases bs rule: base64_encode_loop.cases) (simp_all add: Let_def)

lemma encode_loop_ends:
  "bs \<noteq> [] \<Longrightarrow> \<exists>pre c d. base64_encode_loop bs = pre @ [c, d]
     \<and> of_bool (d = CHR ''='') + of_bool (c = CHR ''='') = (3 - length bs mod 3) mod 3"
proof (induction bs rule: base64_encode_loop.induct)
  case (4 a b c data)
  show ?case
  proof (cases "data = []")
    case True
    then show ?thesis by (auto simp: Let_def base64_char_no_pad)
  next
    case False
    with 4 obtain pre c' d where *: "base64_encode_loop data = pre @ [c', d]"
      "of_bool (d = CHR ''='') + of_bool (c' = CHR ''='') = (3 - length data mod 3) mod 3" by blast
    then have "length (a # b # c # data) mod 3 = length data mod 3" by simp
    with * show ?thesis by (auto simp: Let_def)
  qed
qed (auto simp: Let_def base64_char_no_pad)

lemma padded_thirds: "(n + 2) div 3 * 3 - (3 - n mod 3) mod 3 = (n :: nat)"
proof -
  obtain q r where n: "n = 3 * q + r" "r < 3" using mod_less_divisor [of 3 n] by (metis mult_div_mod_eq zero_less_numeral)
  then consider "r = 0" | "r = 1" | "r = 2" by linarith
  moreover have "Suc (Suc (3 * q)) mod 3 = 2" "Suc (3 * q) mod 3 = 1" by presburger+
  ultimately show ?thesis by cases (simp_all add: n(1))
qed

lemma output_len_encode_loop: "base64_output_len (base64_encode_loop bs) = length bs"
proof (cases "bs = []")
  case False
  from encode_loop_ends [OF False] obtain pre c d where
    ends: "base64_encode_loop bs = pre @ [c, d]"
      "of_bool (d = CHR ''='') + of_bool (c = CHR ''='') = (3 - length bs mod 3) mod 3" by blast
  let ?s = "base64_encode_loop bs"
  have "?s ! (length ?s - 1) = d" "?s ! (length ?s - 2) = c" "1 < length ?s"
    by (simp_all add: ends(1) nth_append)
  then have "base64_output_len ?s
      = (length bs + 2) div 3 * 3 - (of_bool (d = CHR ''='') + of_bool (c = CHR ''=''))"
    by (simp add: base64_output_len_def length_encode_loop)
  also have "\<dots> = length bs" unfolding ends(2) by (rule padded_thirds)
  finally show ?thesis .
qed (simp add: base64_output_len_def)

lemma padding_output_len:
  assumes "length s mod 4 = 0"
  shows "base64_output_len s = length s div 4 * 3 - base64_padding s"
    and "base64_padding s \<le> length s div 4 * 3"
  using assms by (auto simp: base64_output_len_def base64_padding_def)

lemma decode_buffer_size_output_len:
  assumes "length s mod 4 = 0" and "length s < 2 ^ 63"
  shows "unat (neoc_base64_decode_buffer_size (Some s)) = base64_output_len s"
proof -
  have "base64_padding s \<le> length s div 4 * 3" "length s div 4 * 3 < 2 ^ 64"
    using padding_output_len(2) [OF assms(1)] assms(2) by auto
  then have "of_nat (length s div 4 * 3) - of_nat (base64_padding s)
      = (of_nat (base64_output_len s) :: size_t)"
    by (simp add: padding_output_len(1) [OF assms(1)] of_nat_diff)
  moreover have "base64_output_len s < 2 ^ 64" using assms(2) by (simp add: base64_output_len_def)
  ultimately have "unat (of_nat (length s div 4 * 3) - of_nat (base64_padding s) :: size_t) = base64_output_len s"
    by (simp only: unat_of_nat_size)
  then show ?thesis
    by (cases s) (simp_all add: neoc_base64_decode_buffer_size_def base64_output_len_def)
qed

interpretation base64_codec: text_codec
  "\<lambda>bs. neoc_base64_encode (Some bs) (length bs) (neoc_base64_encode_buffer_size (length bs))"
  "\<lambda>s. neoc_base64_decode (Some s) (unat (neoc_base64_decode_buffer_size (Some s)))"
  "\<lambda>bs. length bs < 2 ^ 62"
proof
  fix bs :: "byte list"
  assume len: "length bs < 2 ^ 62"
  let ?s = "base64_encode_loop bs"
  have "length ?s mod 4 = 0" "length ?s < 2 ^ 63" using len by (auto simp: length_encode_loop)
  then have "neoc_base64_decode (Some ?s) (unat (neoc_base64_decode_buffer_size (Some ?s))) = Ok bs"
    using decode_loop_encode_loop [of 0 bs]
    by (simp add: neoc_base64_decode_def decode_buffer_size_output_len output_len_encode_loop)
  moreover have "neoc_base64_encode (Some bs) (length bs) (neoc_base64_encode_buffer_size (length bs)) = Ok ?s"
    by (simp add: neoc_base64_encode_def neoc_base64_encode_buffer_size_def)
  ultimately show "\<exists>s. neoc_base64_encode (Some bs) (length bs) (neoc_base64_encode_buffer_size (length bs)) = Ok s
      \<and> neoc_base64_decode (Some s) (unat (neoc_base64_decode_buffer_size (Some s))) = Ok bs" by blast
qed

subsection \<open>Which texts decode\<close>

lemma base64_alphabet_decodes:
  "\<forall>n \<in> set [0..<256].
     (BASE64_DECODE_TABLE ! n \<noteq> -1) =
     ((48 \<le> n \<and> n \<le> 57) \<or> (97 \<le> n \<and> n \<le> 122) \<or> (65 \<le> n \<and> n \<le> 90) \<or> n = 43 \<or> n = 47)"
  unfolding BASE64_DECODE_TABLE_def by code_simp

lemma base64_val_Ok_iff:
  "(\<exists>v. base64_val c = Ok v) \<longleftrightarrow> neoc_base64_is_valid_char c \<and> c \<noteq> CHR ''-'' \<and> c \<noteq> CHR ''_''"
proof -
  have n: "of_char c \<in> set [0..<256::nat]" by simp
  have eq: "c = d \<longleftrightarrow> of_char c = (of_char d :: nat)" for d by simp
  show ?thesis
    using bspec [OF base64_alphabet_decodes n]
    unfolding base64_val_def neoc_base64_is_valid_char_def isalnum_c_def less_eq_char_def eq
    by (auto simp: Let_def)
qed

lemma base64_val_no_Fault: "base64_val c \<noteq> Fault"
  by (simp add: base64_val_def Let_def)

lemma decode_loop_Ok_iff:
  "length s mod 4 = 0 \<Longrightarrow>
     (\<exists>bs. base64_decode_loop n j s = Ok bs)
     \<longleftrightarrow> list_all (\<lambda>c. neoc_base64_is_valid_char c \<and> c \<noteq> CHR ''-'' \<and> c \<noteq> CHR ''_'') s"
proof (induction n j s rule: base64_decode_loop.induct)
  case (1 n j c0 c1 c2 c3 s)
  then have "length s mod 4 = 0" by simp
  with "1.prems" "1.IH" show ?case
    by (simp add: bind_r_Ok_ex Let_def base64_val_Ok_iff)
qed auto

lemma encode_valid_chars: "list_all (\<lambda>c. neoc_base64_is_valid_char c \<and> c \<noteq> CHR ''-'' \<and> c \<noteq> CHR ''_'') (base64_encode_loop bs)"
proof -
  have "\<exists>out. base64_decode_loop (0 + length bs) 0 (base64_encode_loop bs) = Ok out"
    using decode_loop_encode_loop by blast
  then show ?thesis by (subst (asm) decode_loop_Ok_iff) (simp_all add: length_encode_loop)
qed

lemma base64_of_to_url: "c \<noteq> CHR ''-'' \<Longrightarrow> c \<noteq> CHR ''_'' \<Longrightarrow> base64_of_url (base64_to_url c) = c"
  by (simp add: base64_of_url_def base64_to_url_def)

lemma map_of_to_url: "map base64_of_url (map base64_to_url (base64_encode_loop bs)) = base64_encode_loop bs"
  unfolding map_map
proof (rule map_idI)
  fix c
  assume "c \<in> set (base64_encode_loop bs)"
  with encode_valid_chars [of bs] have "c \<noteq> CHR ''-''" "c \<noteq> CHR ''_''" unfolding list_all_iff by blast+
  then show "(base64_of_url \<circ> base64_to_url) c = c" by (simp only: o_apply base64_of_to_url not_False_eq_True)
qed

subsection \<open>Properties\<close>

text \<open>Base64 round trip: encoding into a buffer of the announced size succeeds, and decoding the text
  into a buffer of the size announced for it returns the original bytes.\<close>

theorem base64_roundtrip:
  assumes "length bs < 2 ^ 62"
  shows "bind_r (neoc_base64_encode (Some bs) (length bs) (neoc_base64_encode_buffer_size (length bs)))
           (\<lambda>s. neoc_base64_decode (Some s) (unat (neoc_base64_decode_buffer_size (Some s)))) = Ok bs"
  using assms by (rule base64_codec.bind_roundtrip)

theorem base64_roundtrip_witness:
  "bind_r (neoc_base64_encode (Some [0, 255, 16, 7]) (length [0, 255, 16, 7 :: byte])
       (neoc_base64_encode_buffer_size (length [0, 255, 16, 7 :: byte])))
     (\<lambda>s. neoc_base64_decode (Some s) (unat (neoc_base64_decode_buffer_size (Some s)))) = Ok [0, 255, 16, 7]"
  by (rule base64_roundtrip) simp

text \<open>The URL-safe variant has the same round trip, and its text never holds the two characters that
  are special in a URL.\<close>

theorem base64_url_roundtrip:
  assumes "A ((length bs + 2) div 3 * 4 + 1)" and "length bs \<le> n"
  shows "\<exists>s. neoc_base64_url_encode (Some bs) (length bs) (neoc_base64_encode_buffer_size (length bs)) = Ok s
    \<and> CHR ''+'' \<notin> set s \<and> CHR ''/'' \<notin> set s \<and> neoc_base64_url_decode A (Some s) n = Ok bs"
proof -
  let ?s = "map base64_to_url (base64_encode_loop bs)"
  have "neoc_base64_url_encode (Some bs) (length bs) (neoc_base64_encode_buffer_size (length bs)) = Ok ?s"
    by (simp add: neoc_base64_url_encode_def neoc_base64_encode_def neoc_base64_encode_buffer_size_def)
  moreover have "CHR ''+'' \<notin> set ?s \<and> CHR ''/'' \<notin> set ?s" by (auto simp: base64_to_url_def split: if_splits)
  moreover have "neoc_base64_url_decode A (Some ?s) n = Ok bs"
    using assms decode_loop_encode_loop [of 0 bs] map_of_to_url [of bs]
    by (simp add: neoc_base64_url_decode_def neoc_base64_decode_def length_encode_loop output_len_encode_loop)
  ultimately show ?thesis by blast
qed

theorem base64_url_roundtrip_witness:
  "\<exists>s. neoc_base64_url_encode (Some [251, 255]) (length [251, 255 :: byte])
        (neoc_base64_encode_buffer_size (length [251, 255 :: byte])) = Ok s
    \<and> CHR ''+'' \<notin> set s \<and> CHR ''/'' \<notin> set s \<and> neoc_base64_url_decode (\<lambda>_. True) (Some s) 2 = Ok [251, 255]"
  by (rule base64_url_roundtrip) simp_all

text \<open>What \<^verbatim>\<open>neoc_base64_is_valid_string\<close> says of the decoder: with a large enough buffer, a text decodes
  exactly when it is empty, or valid and free of the two URL-safe characters, which the
  validity test accepts and the decoder refuses.  A padding sign counts as a valid
  character at every place.\<close>

theorem base64_valid_iff_decodes:
  assumes "length s div 4 * 3 \<le> n"
  shows "(\<exists>bs. neoc_base64_decode (Some s) n = Ok bs)
    \<longleftrightarrow> s = [] \<or> neoc_base64_is_valid_string (Some s) \<and> CHR ''-'' \<notin> set s \<and> CHR ''_'' \<notin> set s"
proof (cases "length s mod 4 = 0")
  case True
  then have "base64_output_len s \<le> n" using assms padding_output_len(1) [of s] by simp
  then show ?thesis
    using True decode_loop_Ok_iff [OF True, of "base64_output_len s" 0]
    by (auto simp: neoc_base64_decode_def neoc_base64_is_valid_string_def list_all_iff)
next
  case False
  then show ?thesis by (auto simp: neoc_base64_decode_def neoc_base64_is_valid_string_def)
qed

theorem base64_valid_iff_decodes_witness:
  "neoc_base64_is_valid_string (Some ''ab-_'') \<and> \<not> (\<exists>bs. neoc_base64_decode (Some ''ab-_'') 3 = Ok bs)"
  using base64_valid_iff_decodes [of "''ab-_''" 3]
  by (simp add: neoc_base64_is_valid_string_def neoc_base64_is_valid_char_def isalnum_c_def less_eq_char_def)

text \<open>The size announced for decoding wraps around on short padded texts: for \<^verbatim>\<open>"="\<close> it is the largest
  64-bit number, and a caller that allocates it is told that memory ran out instead of
  that the text is malformed.\<close>

theorem base64_decode_size_wraps:
  assumes "alloc_limit < 2 ^ 64 - 1"
  shows "neoc_base64_decode_buffer_size (Some ''='') = - 1
    \<and> neoc_base64_decode_alloc (\<lambda>n. n \<le> alloc_limit) (Some ''='') = Err NEOC_ERROR_MEMORY
    \<and> neoc_base64_decode (Some ''='') n = Err NEOC_ERROR_INVALID_FORMAT"
  using assms
  by (simp add: neoc_base64_decode_buffer_size_def base64_padding_def neoc_base64_decode_alloc_def Let_def
      unat_minus_1_size neoc_base64_decode_def)

theorem base64_decode_size_wraps_witness:
  "neoc_base64_decode_alloc (\<lambda>n. n \<le> 1000) (Some ''='') = Err NEOC_ERROR_MEMORY"
  using base64_decode_size_wraps [of 1000 0] by simp

end
