(* ===== verification/Opcode.thy ===== *)
theory Opcode
  imports NeoC_Prelude
begin

text \<open>
  \<^verbatim>\<open>src/script/opcode.c\<close> and \<^verbatim>\<open>include/neoc/script/opcode.h\<close>: the operation codes of the virtual machine.  The C
  enumeration is cast from arbitrary script bytes, so an opcode is a byte; the names are those
  of the header.
\<close>

type_synonym neoc_opcode = byte

abbreviation (input) "NEOC_OP_PUSHINT8 \<equiv> (0x00 :: neoc_opcode)"
abbreviation (input) "NEOC_OP_PUSHINT16 \<equiv> (0x01 :: neoc_opcode)"
abbreviation (input) "NEOC_OP_PUSHINT32 \<equiv> (0x02 :: neoc_opcode)"
abbreviation (input) "NEOC_OP_PUSHINT64 \<equiv> (0x03 :: neoc_opcode)"
abbreviation (input) "NEOC_OP_PUSHINT128 \<equiv> (0x04 :: neoc_opcode)"
abbreviation (input) "NEOC_OP_PUSHINT256 \<equiv> (0x05 :: neoc_opcode)"
abbreviation (input) "NEOC_OP_PUSHA \<equiv> (0x0A :: neoc_opcode)"
abbreviation (input) "NEOC_OP_PUSHNULL \<equiv> (0x0B :: neoc_opcode)"
abbreviation (input) "NEOC_OP_PUSHDATA1 \<equiv> (0x0C :: neoc_opcode)"
abbreviation (input) "NEOC_OP_PUSHDATA2 \<equiv> (0x0D :: neoc_opcode)"
abbreviation (input) "NEOC_OP_PUSHDATA4 \<equiv> (0x0E :: neoc_opcode)"
abbreviation (input) "NEOC_OP_PUSHM1 \<equiv> (0x0F :: neoc_opcode)"
abbreviation (input) "NEOC_OP_PUSH0 \<equiv> (0x10 :: neoc_opcode)"
abbreviation (input) "NEOC_OP_PUSH1 \<equiv> (0x11 :: neoc_opcode)"
abbreviation (input) "NEOC_OP_PUSH16 \<equiv> (0x20 :: neoc_opcode)"
abbreviation (input) "NEOC_OP_JMP \<equiv> (0x22 :: neoc_opcode)"
abbreviation (input) "NEOC_OP_JMP_L \<equiv> (0x23 :: neoc_opcode)"
abbreviation (input) "NEOC_OP_JMPIF \<equiv> (0x24 :: neoc_opcode)"
abbreviation (input) "NEOC_OP_JMPIF_L \<equiv> (0x25 :: neoc_opcode)"
abbreviation (input) "NEOC_OP_JMPIFNOT \<equiv> (0x26 :: neoc_opcode)"
abbreviation (input) "NEOC_OP_JMPIFNOT_L \<equiv> (0x27 :: neoc_opcode)"
abbreviation (input) "NEOC_OP_JMPEQ \<equiv> (0x28 :: neoc_opcode)"
abbreviation (input) "NEOC_OP_JMPEQ_L \<equiv> (0x29 :: neoc_opcode)"
abbreviation (input) "NEOC_OP_JMPNE \<equiv> (0x2A :: neoc_opcode)"
abbreviation (input) "NEOC_OP_JMPNE_L \<equiv> (0x2B :: neoc_opcode)"
abbreviation (input) "NEOC_OP_JMPGT \<equiv> (0x2C :: neoc_opcode)"
abbreviation (input) "NEOC_OP_JMPGT_L \<equiv> (0x2D :: neoc_opcode)"
abbreviation (input) "NEOC_OP_JMPGE \<equiv> (0x2E :: neoc_opcode)"
abbreviation (input) "NEOC_OP_JMPGE_L \<equiv> (0x2F :: neoc_opcode)"
abbreviation (input) "NEOC_OP_JMPLT \<equiv> (0x30 :: neoc_opcode)"
abbreviation (input) "NEOC_OP_JMPLT_L \<equiv> (0x31 :: neoc_opcode)"
abbreviation (input) "NEOC_OP_JMPLE \<equiv> (0x32 :: neoc_opcode)"
abbreviation (input) "NEOC_OP_JMPLE_L \<equiv> (0x33 :: neoc_opcode)"
abbreviation (input) "NEOC_OP_CALL \<equiv> (0x34 :: neoc_opcode)"
abbreviation (input) "NEOC_OP_CALL_L \<equiv> (0x35 :: neoc_opcode)"
abbreviation (input) "NEOC_OP_ASSERT \<equiv> (0x39 :: neoc_opcode)"
abbreviation (input) "NEOC_OP_ENDTRY \<equiv> (0x3D :: neoc_opcode)"
abbreviation (input) "NEOC_OP_ENDTRY_L \<equiv> (0x3E :: neoc_opcode)"
abbreviation (input) "NEOC_OP_ENDFINALLY \<equiv> (0x3F :: neoc_opcode)"
abbreviation (input) "NEOC_OP_RET \<equiv> (0x40 :: neoc_opcode)"
abbreviation (input) "NEOC_OP_SYSCALL \<equiv> (0x41 :: neoc_opcode)"
abbreviation (input) "NEOC_OP_PACKMAP \<equiv> (0xBE :: neoc_opcode)"
abbreviation (input) "NEOC_OP_PACK \<equiv> (0xC0 :: neoc_opcode)"
abbreviation (input) "NEOC_OP_NEWARRAY0 \<equiv> (0xC2 :: neoc_opcode)"
abbreviation (input) "NEOC_OP_NEWMAP \<equiv> (0xC8 :: neoc_opcode)"

text \<open>The table: opcode, name, operand size (negative for a length prefix of that many bytes).\<close>

definition opcode_table :: "(neoc_opcode \<times> string \<times> int) list" where
  "opcode_table = [
    (0x00, ''PUSHINT8'', 1), (0x01, ''PUSHINT16'', 2), (0x02, ''PUSHINT32'', 4), (0x03, ''PUSHINT64'', 8),
    (0x04, ''PUSHINT128'', 16), (0x05, ''PUSHINT256'', 32), (0x0A, ''PUSHA'', 4), (0x0B, ''PUSHNULL'', 0),
    (0x0C, ''PUSHDATA1'', -1), (0x0D, ''PUSHDATA2'', -2), (0x0E, ''PUSHDATA4'', -4), (0x0F, ''PUSHM1'', 0),
    (0x10, ''PUSH0'', 0), (0x11, ''PUSH1'', 0), (0x12, ''PUSH2'', 0), (0x13, ''PUSH3'', 0),
    (0x14, ''PUSH4'', 0), (0x15, ''PUSH5'', 0), (0x16, ''PUSH6'', 0), (0x17, ''PUSH7'', 0),
    (0x18, ''PUSH8'', 0), (0x19, ''PUSH9'', 0), (0x1A, ''PUSH10'', 0), (0x1B, ''PUSH11'', 0),
    (0x1C, ''PUSH12'', 0), (0x1D, ''PUSH13'', 0), (0x1E, ''PUSH14'', 0), (0x1F, ''PUSH15'', 0),
    (0x20, ''PUSH16'', 0), (0x21, ''NOP'', 0), (0x22, ''JMP'', 1), (0x23, ''JMP_L'', 4),
    (0x24, ''JMPIF'', 1), (0x25, ''JMPIF_L'', 4), (0x26, ''JMPIFNOT'', 1), (0x27, ''JMPIFNOT_L'', 4),
    (0x28, ''JMPEQ'', 1), (0x29, ''JMPEQ_L'', 4), (0x2A, ''JMPNE'', 1), (0x2B, ''JMPNE_L'', 4),
    (0x2C, ''JMPGT'', 1), (0x2D, ''JMPGT_L'', 4), (0x2E, ''JMPGE'', 1), (0x2F, ''JMPGE_L'', 4),
    (0x30, ''JMPLT'', 1), (0x31, ''JMPLT_L'', 4), (0x32, ''JMPLE'', 1), (0x33, ''JMPLE_L'', 4),
    (0x34, ''CALL'', 1), (0x35, ''CALL_L'', 4), (0x36, ''CALLA'', 0), (0x37, ''CALLT'', 2),
    (0x38, ''ABORT'', 0), (0x39, ''ASSERT'', 0), (0x3A, ''THROW'', 0), (0x3B, ''TRY'', 2),
    (0x3C, ''TRY_L'', 8), (0x3D, ''ENDTRY'', 1), (0x3E, ''ENDTRY_L'', 4), (0x3F, ''ENDFINALLY'', 0),
    (0x40, ''RET'', 0), (0x41, ''SYSCALL'', 4), (0x43, ''DEPTH'', 0), (0x45, ''DROP'', 0),
    (0x46, ''NIP'', 0), (0x48, ''XDROP'', 0), (0x49, ''CLEAR'', 0), (0x4A, ''DUP'', 0),
    (0x4B, ''OVER'', 0), (0x4D, ''PICK'', 0), (0x4E, ''TUCK'', 0), (0x50, ''SWAP'', 0),
    (0x51, ''ROT'', 0), (0x52, ''ROLL'', 0), (0x53, ''REVERSE3'', 0), (0x54, ''REVERSE4'', 0),
    (0x55, ''REVERSEN'', 0), (0x56, ''INITSSLOT'', 1), (0x57, ''INITSLOT'', 2), (0x58, ''LDSFLD0'', 0),
    (0x59, ''LDSFLD1'', 0), (0x5A, ''LDSFLD2'', 0), (0x5B, ''LDSFLD3'', 0), (0x5C, ''LDSFLD4'', 0),
    (0x5D, ''LDSFLD5'', 0), (0x5E, ''LDSFLD6'', 0), (0x5F, ''LDSFLD'', 1), (0x60, ''STSFLD0'', 0),
    (0x61, ''STSFLD1'', 0), (0x62, ''STSFLD2'', 0), (0x63, ''STSFLD3'', 0), (0x64, ''STSFLD4'', 0),
    (0x65, ''STSFLD5'', 0), (0x66, ''STSFLD6'', 0), (0x67, ''STSFLD'', 1), (0x68, ''LDLOC0'', 0),
    (0x69, ''LDLOC1'', 0), (0x6A, ''LDLOC2'', 0), (0x6B, ''LDLOC3'', 0), (0x6C, ''LDLOC4'', 0),
    (0x6D, ''LDLOC5'', 0), (0x6E, ''LDLOC6'', 0), (0x6F, ''LDLOC'', 1), (0x70, ''STLOC0'', 0),
    (0x71, ''STLOC1'', 0), (0x72, ''STLOC2'', 0), (0x73, ''STLOC3'', 0), (0x74, ''STLOC4'', 0),
    (0x75, ''STLOC5'', 0), (0x76, ''STLOC6'', 0), (0x77, ''STLOC'', 1), (0x78, ''LDARG0'', 0),
    (0x79, ''LDARG1'', 0), (0x7A, ''LDARG2'', 0), (0x7B, ''LDARG3'', 0), (0x7C, ''LDARG4'', 0),
    (0x7D, ''LDARG5'', 0), (0x7E, ''LDARG6'', 0), (0x7F, ''LDARG'', 1), (0x80, ''STARG0'', 0),
    (0x81, ''STARG1'', 0), (0x82, ''STARG2'', 0), (0x83, ''STARG3'', 0), (0x84, ''STARG4'', 0),
    (0x85, ''STARG5'', 0), (0x86, ''STARG6'', 0), (0x87, ''STARG'', 1), (0x88, ''NEWBUFFER'', 0),
    (0x89, ''MEMCPY'', 0), (0x8B, ''CAT'', 0), (0x8C, ''SUBSTR'', 0), (0x8D, ''LEFT'', 0),
    (0x8E, ''RIGHT'', 0), (0x90, ''INVERT'', 0), (0x91, ''AND'', 0), (0x92, ''OR'', 0),
    (0x93, ''XOR'', 0), (0x97, ''EQUAL'', 0), (0x98, ''NOTEQUAL'', 0), (0x99, ''SIGN'', 0),
    (0x9A, ''ABS'', 0), (0x9B, ''NEGATE'', 0), (0x9C, ''INC'', 0), (0x9D, ''DEC'', 0),
    (0x9E, ''ADD'', 0), (0x9F, ''SUB'', 0), (0xA0, ''MUL'', 0), (0xA1, ''DIV'', 0),
    (0xA2, ''MOD'', 0), (0xA3, ''POW'', 0), (0xA4, ''SQRT'', 0), (0xA5, ''MODMUL'', 0),
    (0xA6, ''MODPOW'', 0), (0xA8, ''SHL'', 0), (0xA9, ''SHR'', 0), (0xAA, ''NOT'', 0),
    (0xAB, ''BOOLAND'', 0), (0xAC, ''BOOLOR'', 0), (0xB1, ''NZ'', 0), (0xB3, ''NUMEQUAL'', 0),
    (0xB4, ''NUMNOTEQUAL'', 0), (0xB5, ''LT'', 0), (0xB6, ''LE'', 0), (0xB7, ''GT'', 0),
    (0xB8, ''GE'', 0), (0xB9, ''MIN'', 0), (0xBA, ''MAX'', 0), (0xBB, ''WITHIN'', 0),
    (0xBE, ''PACKMAP'', 0), (0xBF, ''PACKSTRUCT'', 0), (0xC0, ''PACK'', 0), (0xC1, ''UNPACK'', 0),
    (0xC2, ''NEWARRAY0'', 0), (0xC3, ''NEWARRAY'', 0), (0xC4, ''NEWARRAY_T'', 1), (0xC5, ''NEWSTRUCT0'', 0),
    (0xC6, ''NEWSTRUCT'', 0), (0xC8, ''NEWMAP'', 0), (0xCA, ''SIZE'', 0), (0xCB, ''HASKEY'', 0),
    (0xCC, ''KEYS'', 0), (0xCD, ''VALUES'', 0), (0xCE, ''PICKITEM'', 0), (0xCF, ''APPEND'', 0),
    (0xD0, ''SETITEM'', 0), (0xD1, ''REVERSEITEMS'', 0), (0xD2, ''REMOVE'', 0), (0xD3, ''CLEARITEMS'', 0),
    (0xD4, ''POPITEM'', 0), (0xD8, ''ISNULL'', 0), (0xD9, ''ISTYPE'', 1), (0xDB, ''CONVERT'', 1)]"

fun find_opcode :: "(neoc_opcode \<times> 'a) list \<Rightarrow> neoc_opcode \<Rightarrow> 'a option" where
  "find_opcode [] opcode = None"
| "find_opcode ((code, info) # rest) opcode = (if code = opcode then Some info else find_opcode rest opcode)"

definition neoc_opcode_get_name :: "neoc_opcode \<Rightarrow> string" where
  "neoc_opcode_get_name opcode =
     (case find_opcode opcode_table opcode of Some (name, _) \<Rightarrow> name | None \<Rightarrow> ''UNKNOWN'')"

definition neoc_opcode_get_operand_size :: "neoc_opcode \<Rightarrow> int" where
  "neoc_opcode_get_operand_size opcode =
     (case find_opcode opcode_table opcode of Some (_, operand_size) \<Rightarrow> operand_size | None \<Rightarrow> 0)"

text \<open>All 256 opcode bytes, for statements checked byte by byte.\<close>

definition all_opcodes :: "neoc_opcode list" where
  "all_opcodes = map of_nat [0..<256]"

lemma in_all_opcodes: "op \<in> set all_opcodes"
proof -
  have "unat op < 256" using unsigned_less [of op, where ?'a = nat] by simp
  then have "of_nat (unat op) \<in> (of_nat ` {0..<256} :: neoc_opcode set)" by (intro imageI) simp
  then show ?thesis by (simp add: all_opcodes_def)
qed

end
