(* ===== verification/Hash.thy ===== *)
theory Hash
  imports NeoC_Prelude
begin

text \<open>
  \<^verbatim>\<open>src/crypto/neoc_hash.c\<close> and \<^verbatim>\<open>src/crypto/hash.c\<close>.  The digests themselves come from OpenSSL and are
  parameters: a record of functions that return the digest or \<open>None\<close> when the library call
  reports failure.  The two checksums that the repository computes itself, MurmurHash3 and CRC-32,
  are translated bit by bit.
\<close>

subsection \<open>The cryptographic library\<close>

record crypto =
  crypto_initialized :: bool
  ossl_sha256 :: "byte list \<Rightarrow> byte list option"
  ossl_ripemd160 :: "byte list \<Rightarrow> byte list option"
  ossl_hmac_sha256 :: "byte list \<Rightarrow> byte list \<Rightarrow> byte list option"
  ossl_hmac_sha512 :: "byte list \<Rightarrow> byte list \<Rightarrow> byte list option"

text \<open>What the code relies on: after initialisation the digests are computed, at their widths.\<close>

definition crypto_works :: "crypto \<Rightarrow> bool" where
  "crypto_works C \<longleftrightarrow> crypto_initialized C
     \<and> (\<forall>bs. \<exists>d. ossl_sha256 C bs = Some d \<and> length d = 32)
     \<and> (\<forall>bs. \<exists>d. ossl_ripemd160 C bs = Some d \<and> length d = 20)"

subsection \<open>\<^verbatim>\<open>neoc_hash.c\<close>\<close>

definition neoc_crypto_init :: "(crypto, unit) cmd" where
  "neoc_crypto_init C = (if crypto_initialized C then (Ok (), C) else (Ok (), C\<lparr>crypto_initialized := True\<rparr>))"

definition neoc_crypto_cleanup :: "crypto \<Rightarrow> crypto" where
  "neoc_crypto_cleanup C = (if \<not> crypto_initialized C then C else C\<lparr>crypto_initialized := False\<rparr>)"

definition neoc_crypto_is_initialized :: "crypto \<Rightarrow> bool" where
  "neoc_crypto_is_initialized C = crypto_initialized C"

text \<open>The three OpenSSL calls (init, update, final) succeed together or one of them fails.\<close>

definition digest_calls :: "byte list option \<Rightarrow> byte list result" where
  "digest_calls d = (case d of None \<Rightarrow> Err NEOC_ERROR_CRYPTO_HASH | Some digest \<Rightarrow> Ok digest)"

definition neoc_sha256 :: "crypto \<Rightarrow> byte list option \<Rightarrow> byte list result" where
  "neoc_sha256 C data =
     (case data of
        None \<Rightarrow> Err NEOC_ERROR_NULL_POINTER
      | Some bs \<Rightarrow>
          if \<not> crypto_initialized C then Err NEOC_ERROR_CRYPTO_INIT
          else digest_calls (ossl_sha256 C bs))"

definition neoc_sha256_double :: "crypto \<Rightarrow> byte list option \<Rightarrow> byte list result" where
  "neoc_sha256_double C data =
     (case data of
        None \<Rightarrow> Err NEOC_ERROR_NULL_POINTER
      | Some bs \<Rightarrow> bind_r (neoc_sha256 C (Some bs)) (\<lambda>first_hash. neoc_sha256 C (Some first_hash)))"

definition neoc_ripemd160 :: "crypto \<Rightarrow> byte list option \<Rightarrow> nat \<Rightarrow> byte list result" where
  "neoc_ripemd160 C data data_length =
     (if data = None \<and> 0 < data_length then Err NEOC_ERROR_NULL_POINTER
      else if \<not> crypto_initialized C then Err NEOC_ERROR_CRYPTO_INIT
      else digest_calls (ossl_ripemd160 C (case data of None \<Rightarrow> [] | Some bs \<Rightarrow> bs)))"

definition neoc_hash160 :: "crypto \<Rightarrow> byte list option \<Rightarrow> byte list result" where
  "neoc_hash160 C data =
     (case data of
        None \<Rightarrow> Err NEOC_ERROR_NULL_POINTER
      | Some bs \<Rightarrow>
          bind_r (neoc_sha256 C (Some bs)) (\<lambda>sha256_hash. neoc_ripemd160 C (Some sha256_hash) 32))"

definition neoc_hash256 :: "crypto \<Rightarrow> byte list option \<Rightarrow> byte list result" where
  "neoc_hash256 C data = neoc_sha256 C data"

definition neoc_hmac_sha256 :: "crypto \<Rightarrow> byte list option \<Rightarrow> byte list option \<Rightarrow> byte list result" where
  "neoc_hmac_sha256 C key data =
     (case (key, data) of
        (Some k, Some bs) \<Rightarrow>
          if \<not> crypto_initialized C then Err NEOC_ERROR_CRYPTO_INIT
          else (case ossl_hmac_sha256 C k bs of
                  None \<Rightarrow> Err NEOC_ERROR_CRYPTO_HASH
                | Some d \<Rightarrow> if length d \<noteq> 32 then Err NEOC_ERROR_CRYPTO_HASH else Ok d)
      | _ \<Rightarrow> Err NEOC_ERROR_NULL_POINTER)"

subsection \<open>\<^verbatim>\<open>hash.c\<close>\<close>

text \<open>
  This file calls the one-shot functions and ignores their result: a failed call would leave
  the digest unwritten, which is a \<open>Fault\<close>.
\<close>

definition one_shot :: "byte list option \<Rightarrow> byte list result" where
  "one_shot d = (case d of None \<Rightarrow> Fault | Some digest \<Rightarrow> Ok digest)"

definition neoc_hash_sha256 :: "crypto \<Rightarrow> byte list option \<Rightarrow> byte list result" where
  "neoc_hash_sha256 C data =
     (case data of None \<Rightarrow> Err NEOC_ERROR_INVALID_ARGUMENT | Some bs \<Rightarrow> one_shot (ossl_sha256 C bs))"

definition neoc_hash_sha256_sha256 :: "crypto \<Rightarrow> byte list option \<Rightarrow> byte list result" where
  "neoc_hash_sha256_sha256 C data =
     (case data of
        None \<Rightarrow> Err NEOC_ERROR_INVALID_ARGUMENT
      | Some bs \<Rightarrow> bind_r (one_shot (ossl_sha256 C bs)) (\<lambda>temp. one_shot (ossl_sha256 C temp)))"

definition neoc_hash_ripemd160 :: "crypto \<Rightarrow> byte list option \<Rightarrow> byte list result" where
  "neoc_hash_ripemd160 C data =
     (case data of None \<Rightarrow> Err NEOC_ERROR_INVALID_ARGUMENT | Some bs \<Rightarrow> one_shot (ossl_ripemd160 C bs))"

definition neoc_hash_hash160 :: "crypto \<Rightarrow> byte list option \<Rightarrow> byte list result" where
  "neoc_hash_hash160 C data =
     (case data of
        None \<Rightarrow> Err NEOC_ERROR_INVALID_ARGUMENT
      | Some bs \<Rightarrow> bind_r (one_shot (ossl_sha256 C bs)) (\<lambda>h. one_shot (ossl_ripemd160 C h)))"

definition neoc_hash_hash256 :: "crypto \<Rightarrow> byte list option \<Rightarrow> byte list result" where
  "neoc_hash_hash256 C data = neoc_hash_sha256_sha256 C data"

definition rotl32 :: "nat \<Rightarrow> u32 \<Rightarrow> u32" where
  "rotl32 r k = push_bit r k OR drop_bit (32 - r) k"

definition murmur_mix :: "u32 \<Rightarrow> u32" where
  "murmur_mix k = rotl32 15 (k * 0xcc9e2d51) * 0x1b873593"

text \<open>The block loop (four bytes per turn, as a little-endian host reads a \<^verbatim>\<open>uint32_t\<close>) and the tail.\<close>

fun murmur_loop :: "byte list \<Rightarrow> u32 \<Rightarrow> u32" where
  "murmur_loop (a # b # c # d # data) hash =
     murmur_loop data (rotl32 13 (hash XOR murmur_mix (of_le [a, b, c, d])) * 5 + 0xe6546b64)"
| "murmur_loop [] hash = hash"
| "murmur_loop [a] hash = hash XOR murmur_mix (ucast a)"
| "murmur_loop [a, b] hash = hash XOR murmur_mix (push_bit 8 (ucast b) XOR ucast a)"
| "murmur_loop [a, b, c] hash =
     hash XOR murmur_mix (push_bit 16 (ucast c) XOR push_bit 8 (ucast b) XOR ucast a)"

definition murmur_final :: "u32 \<Rightarrow> u32" where
  "murmur_final h0 =
     (let h1 = h0 XOR drop_bit 16 h0;
          h2 = h1 * 0x85ebca6b;
          h3 = h2 XOR drop_bit 13 h2;
          h4 = h3 * 0xc2b2ae35
      in h4 XOR drop_bit 16 h4)"

definition neoc_hash_murmur32 :: "byte list \<Rightarrow> u32 \<Rightarrow> u32" where
  "neoc_hash_murmur32 data seed = murmur_final (murmur_loop data seed XOR of_nat (length data))"

definition crc_shift :: "u32 \<Rightarrow> u32" where
  "crc_shift crc = drop_bit 1 crc XOR (0xEDB88320 AND - (crc AND 1))"

definition crc_byte :: "byte \<Rightarrow> u32 \<Rightarrow> u32" where
  "crc_byte b crc = (crc_shift ^^ 8) (crc XOR ucast b)"

definition neoc_hash_crc32 :: "byte list \<Rightarrow> u32" where
  "neoc_hash_crc32 data = NOT (fold crc_byte data 0xFFFFFFFF)"

definition neoc_hash_hmac_sha512 :: "crypto \<Rightarrow> byte list option \<Rightarrow> byte list option \<Rightarrow> byte list result" where
  "neoc_hash_hmac_sha512 C data key =
     (case (data, key) of
        (Some bs, Some k) \<Rightarrow>
          (case ossl_hmac_sha512 C k bs of
             None \<Rightarrow> Err NEOC_ERROR_CRYPTO_HASH
           | Some d \<Rightarrow> if length d \<noteq> 64 then Err NEOC_ERROR_CRYPTO_HASH else Ok d)
      | _ \<Rightarrow> Err NEOC_ERROR_INVALID_ARGUMENT)"

definition neoc_hash_verify :: "crypto \<Rightarrow> byte list option \<Rightarrow> byte list option \<Rightarrow> bool result" where
  "neoc_hash_verify C data hash =
     (case (data, hash) of
        (Some bs, Some h) \<Rightarrow>
          if length h = 20 then bind_r (neoc_hash_hash160 C (Some bs)) (\<lambda>computed. Ok (take 20 computed = h))
          else if length h = 32 then bind_r (neoc_hash_sha256 C (Some bs)) (\<lambda>computed. Ok (take 32 computed = h))
          else Ok False
      | _ \<Rightarrow> Ok False)"

subsection \<open>Digests have their widths\<close>

lemma crypto_worksD:
  assumes "crypto_works C"
  obtains (sha) d where "neoc_sha256 C (Some bs) = Ok d" and "ossl_sha256 C bs = Some d" and "length d = 32"
  using assms by (auto simp: crypto_works_def neoc_sha256_def digest_calls_def)

lemma sha256_double_works:
  assumes "crypto_works C"
  shows "\<exists>d. neoc_sha256_double C (Some bs) = Ok d \<and> length d = 32"
proof -
  obtain d1 where "neoc_sha256 C (Some bs) = Ok d1" using assms by (rule crypto_worksD)
  moreover obtain d2 where "neoc_sha256 C (Some d1) = Ok d2" "length d2 = 32" using assms by (rule crypto_worksD)
  ultimately show ?thesis by (simp add: neoc_sha256_double_def)
qed

lemma hash160_works:
  assumes "crypto_works C"
  shows "\<exists>d. neoc_hash160 C (Some bs) = Ok d \<and> length d = 20"
proof -
  obtain d1 where "neoc_sha256 C (Some bs) = Ok d1" using assms by (rule crypto_worksD)
  moreover obtain d2 where "ossl_ripemd160 C d1 = Some d2" "length d2 = 20"
    using assms unfolding crypto_works_def by blast
  moreover have "crypto_initialized C" using assms by (simp add: crypto_works_def)
  ultimately show ?thesis by (simp add: neoc_hash160_def neoc_ripemd160_def digest_calls_def)
qed

text \<open>A library that satisfies the assumption, for concrete runs: its digests depend on the length only.\<close>

definition toy_crypto :: crypto where
  "toy_crypto = \<lparr>crypto_initialized = True,
     ossl_sha256 = \<lambda>bs. Some (replicate 32 (of_nat (length bs))),
     ossl_ripemd160 = \<lambda>bs. Some (replicate 20 (of_nat (length bs))),
     ossl_hmac_sha256 = \<lambda>k bs. Some (replicate 32 0), ossl_hmac_sha512 = \<lambda>k bs. Some (replicate 64 0)\<rparr>"

lemma toy_crypto_works: "crypto_works toy_crypto"
  by (simp add: crypto_works_def toy_crypto_def)

subsection \<open>CRC-32\<close>

lemma crc_shift_bit31: "bit (crc_shift c) 31 \<longleftrightarrow> bit c 0"
proof -
  have "- (c AND 1) = (if bit c 0 then - 1 else 0)"
    by (auto simp: and_one_eq mod_2_eq_odd bit_0)
  moreover have "bit (0xEDB88320 :: u32) 31" by simp
  ultimately show ?thesis by (auto simp: crc_shift_def bit_simps dest: bit_imp_le_length)
qed

lemma crc_shift_inj: "inj crc_shift"
proof (rule injI)
  fix c d
  assume eq: "crc_shift c = crc_shift d"
  then have low: "bit c 0 \<longleftrightarrow> bit d 0" using crc_shift_bit31 by metis
  then have "c AND 1 = d AND 1" by (simp add: and_one_eq mod_2_eq_odd bit_0)
  with eq have "drop_bit 1 c = drop_bit 1 d" unfolding crc_shift_def by (metis xor_right_cancel)
  then have "bit c (Suc n) \<longleftrightarrow> bit d (Suc n)" for n
    by (metis bit_drop_bit_eq comp_apply plus_1_eq_Suc)
  with low have "bit c n \<longleftrightarrow> bit d n" for n by (cases n) auto
  then show "c = d" by (simp add: bit_eq_iff)
qed

lemma crc_byte_inj_state: "crc_byte b c = crc_byte b d \<Longrightarrow> c = d"
proof -
  assume "crc_byte b c = crc_byte b d"
  then have "c XOR ucast b = d XOR ucast b"
    unfolding crc_byte_def using inj_fn [OF crc_shift_inj, of 8] by (simp add: inj_eq)
  then show "c = d" by (rule xor_right_cancel)
qed

lemma crc_byte_inj_byte: "crc_byte a c = crc_byte b c \<Longrightarrow> a = b"
proof -
  assume "crc_byte a c = crc_byte b c"
  then have "c XOR ucast a = c XOR (ucast b :: u32)"
    unfolding crc_byte_def using inj_fn [OF crc_shift_inj, of 8] by (simp add: inj_eq)
  then have "(ucast a :: u32) = ucast b" by (rule xor_left_cancel)
  then show "a = b" by (rule ucast_up_inj) simp
qed

lemma crc_fold_inj: "fold crc_byte bs c = fold crc_byte bs d \<Longrightarrow> c = d"
  by (induction bs arbitrary: c d) (auto dest: crc_byte_inj_state)

text \<open>CRC-32 detects every corruption of a single byte: two messages that differ in exactly one byte
  have different checksums, whatever surrounds it.\<close>

theorem crc32_detects_byte_error:
  assumes "a \<noteq> b"
  shows "neoc_hash_crc32 (pre @ [a] @ post) \<noteq> neoc_hash_crc32 (pre @ [b] @ post)"
proof
  assume "neoc_hash_crc32 (pre @ [a] @ post) = neoc_hash_crc32 (pre @ [b] @ post)"
  then have "fold crc_byte post (crc_byte a (fold crc_byte pre 0xFFFFFFFF))
      = fold crc_byte post (crc_byte b (fold crc_byte pre 0xFFFFFFFF))"
    by (simp add: neoc_hash_crc32_def)
  then have "a = b" by (metis crc_fold_inj crc_byte_inj_byte)
  with assms show False ..
qed

theorem crc32_detects_byte_error_witness:
  "neoc_hash_crc32 ([1, 2] @ [3] @ [4]) \<noteq> neoc_hash_crc32 ([1, 2] @ [7] @ [4])"
  by (rule crc32_detects_byte_error) simp

end
