(* ===== verification/Interop_Service.thy ===== *)
theory Interop_Service
  imports Hash Text_Codec
begin

text \<open>
  \<^verbatim>\<open>src/script/interop_service.c\<close>: the system calls of the virtual machine.  The hash of a service is the
  first four bytes of the SHA-256 digest of its name; the table is filled once, at the first
  use.  A service is its position in the enumeration, which is its position in the table.
\<close>

type_synonym neoc_interop_service = nat

record interop_table =
  it_hashes :: "u32 list"
  it_initialized :: bool

abbreviation (input) "NEOC_INTEROP_SYSTEM_CONTRACT_CALL \<equiv> (8 :: neoc_interop_service)"
abbreviation (input) "NEOC_INTEROP_SYSTEM_CRYPTO_CHECKSIG \<equiv> (14 :: neoc_interop_service)"
abbreviation (input) "NEOC_INTEROP_SYSTEM_CRYPTO_CHECKMULTISIG \<equiv> (15 :: neoc_interop_service)"
abbreviation (input) "NEOC_INTEROP_COUNT \<equiv> (55 :: neoc_interop_service)"

definition interop_names :: "string list" where
  "interop_names = [
    ''System.Binary.Serialize'', ''System.Binary.Deserialize'', ''System.Binary.Base64Encode'',
    ''System.Binary.Base64Decode'', ''System.Binary.Base58Encode'', ''System.Binary.Base58Decode'',
    ''System.Binary.Itoa'', ''System.Binary.Atoi'', ''System.Contract.Call'',
    ''System.Contract.CallNative'', ''System.Contract.GetCallFlags'', ''System.Contract.CreateStandardAccount'',
    ''System.Contract.CreateMultiSigAccount'', ''System.Contract.GetHash'', ''System.Crypto.CheckSig'',
    ''System.Crypto.CheckMultisig'', ''System.Iterator.Create'', ''System.Iterator.Next'',
    ''System.Iterator.Value'', ''System.Json.Serialize'', ''System.Json.Deserialize'',
    ''System.Runtime.Platform'', ''System.Runtime.GetTrigger'', ''System.Runtime.GetTime'',
    ''System.Runtime.GetScriptContainer'', ''System.Runtime.GetExecutingScriptHash'', ''System.Runtime.GetCallingScriptHash'',
    ''System.Runtime.GetEntryScriptHash'', ''System.Runtime.CheckWitness'', ''System.Runtime.GetInvocationCounter'',
    ''System.Runtime.Log'', ''System.Runtime.Notify'', ''System.Runtime.GetNotifications'',
    ''System.Runtime.GasRefund'', ''System.Runtime.BurnGas'', ''System.Runtime.CurrentIndex'',
    ''System.Runtime.GetNextValidators'', ''System.Runtime.GetNetwork'', ''System.Runtime.LoadContract'',
    ''System.Storage.GetContext'', ''System.Storage.GetReadOnlyContext'', ''System.Storage.AsReadOnly'',
    ''System.Storage.Get'', ''System.Storage.Find'', ''System.Storage.Put'',
    ''System.Storage.Delete'', ''Neo.Native.Tokens.NEO'', ''Neo.Native.Tokens.GAS'',
    ''Neo.Native.Policy'', ''Neo.Native.RoleManagement'', ''Neo.Native.Oracle'',
    ''Neo.Native.Ledger'', ''Neo.Native.Management'', ''Neo.Native.Crypto'',
    ''Neo.Native.Std'']"

text \<open>The table as the program is loaded: no hash is known.\<close>

definition initial_interop_table :: interop_table where
  "initial_interop_table = \<lparr>it_hashes = replicate (length interop_names) 0, it_initialized = False\<rparr>"

definition string_bytes :: "string \<Rightarrow> byte list" where
  "string_bytes s = map of_char s"

definition interop_hash_of :: "crypto \<Rightarrow> string \<Rightarrow> u32" where
  "interop_hash_of C name =
     (case neoc_sha256 C (Some (string_bytes name)) of
        Ok sha256 \<Rightarrow> ucast (sha256 ! 0) OR push_bit 8 (ucast (sha256 ! 1))
          OR push_bit 16 (ucast (sha256 ! 2)) OR push_bit 24 (ucast (sha256 ! 3))
      | _ \<Rightarrow> 0)"

definition initialize_interop_table :: "crypto \<Rightarrow> interop_table \<Rightarrow> interop_table" where
  "initialize_interop_table C T =
     (if it_initialized T then T
      else T\<lparr>it_hashes := map (interop_hash_of C) interop_names, it_initialized := True\<rparr>)"

text \<open>The descriptor of a service (its name and hash), and the table after the call.\<close>

definition neoc_interop_get_descriptor ::
  "crypto \<Rightarrow> neoc_interop_service \<Rightarrow> interop_table \<Rightarrow> (string \<times> u32) option \<times> interop_table" where
  "neoc_interop_get_descriptor C service T =
     (let T' = initialize_interop_table C T in
      (if service < NEOC_INTEROP_COUNT then Some (interop_names ! service, it_hashes T' ! service) else None, T'))"

definition neoc_interop_get_hash :: "crypto \<Rightarrow> neoc_interop_service \<Rightarrow> interop_table \<Rightarrow> u32 \<times> interop_table" where
  "neoc_interop_get_hash C service T =
     (let (desc, T') = neoc_interop_get_descriptor C service T in
      (case desc of Some (_, hash) \<Rightarrow> hash | None \<Rightarrow> 0, T'))"

definition neoc_interop_get_name :: "crypto \<Rightarrow> neoc_interop_service \<Rightarrow> interop_table \<Rightarrow> string option \<times> interop_table" where
  "neoc_interop_get_name C service T =
     (let (desc, T') = neoc_interop_get_descriptor C service T in (map_option fst desc, T'))"

fun first_at :: "'a \<Rightarrow> 'a list \<Rightarrow> nat option" where
  "first_at x [] = None"
| "first_at x (y # ys) = (if y = x then Some 0 else map_option Suc (first_at x ys))"

definition neoc_interop_find_by_name ::
  "crypto \<Rightarrow> string option \<Rightarrow> interop_table \<Rightarrow> neoc_interop_service \<times> interop_table" where
  "neoc_interop_find_by_name C name T =
     (case name of
        None \<Rightarrow> (NEOC_INTEROP_COUNT, T)
      | Some s \<Rightarrow>
          let T' = initialize_interop_table C T in
          (case first_at s interop_names of Some i \<Rightarrow> i | None \<Rightarrow> NEOC_INTEROP_COUNT, T'))"

definition neoc_interop_find_by_hash ::
  "crypto \<Rightarrow> u32 \<Rightarrow> interop_table \<Rightarrow> neoc_interop_service \<times> interop_table" where
  "neoc_interop_find_by_hash C hash T =
     (let T' = initialize_interop_table C T in
      (case first_at hash (it_hashes T') of Some i \<Rightarrow> i | None \<Rightarrow> NEOC_INTEROP_COUNT, T'))"

subsection \<open>Lemmas\<close>

lemma length_interop_names [simp]: "length interop_names = NEOC_INTEROP_COUNT"
  by (simp add: interop_names_def)

lemma distinct_interop_names: "distinct interop_names"
  unfolding interop_names_def by code_simp

definition interop_table_ok :: "crypto \<Rightarrow> interop_table \<Rightarrow> bool" where
  "interop_table_ok C T \<longleftrightarrow> (it_initialized T \<longrightarrow> it_hashes T = map (interop_hash_of C) interop_names)"

lemma initialize_ok: "interop_table_ok C T \<Longrightarrow> it_hashes (initialize_interop_table C T) = map (interop_hash_of C) interop_names"
  by (simp add: interop_table_ok_def initialize_interop_table_def)

lemma get_hash_ok:
  assumes "interop_table_ok C T" and "service < NEOC_INTEROP_COUNT"
  shows "fst (neoc_interop_get_hash C service T) = interop_hash_of C (interop_names ! service)"
  using assms initialize_ok [of C T]
  by (simp add: neoc_interop_get_hash_def neoc_interop_get_descriptor_def Let_def)

lemma get_hash_keeps_ok: "interop_table_ok C T \<Longrightarrow> interop_table_ok C (snd (neoc_interop_get_hash C service T))"
  by (auto simp: interop_table_ok_def neoc_interop_get_hash_def neoc_interop_get_descriptor_def Let_def
      initialize_interop_table_def)

lemma first_at_Some: "first_at x xs = Some i \<longleftrightarrow> i < length xs \<and> xs ! i = x \<and> (\<forall>j<i. xs ! j \<noteq> x)"
proof (induction xs arbitrary: i)
  case (Cons y ys)
  show ?case
  proof (cases i)
    case (Suc k)
    then show ?thesis using Cons.IH [of k] by (auto simp: All_less_Suc2)
  qed auto
qed simp

lemma first_at_nth: "distinct xs \<Longrightarrow> i < length xs \<Longrightarrow> first_at (xs ! i) xs = Some i"
  by (auto simp: first_at_Some distinct_conv_nth)

subsection \<open>Properties\<close>

text \<open>Name and service are inverse: looking a service's own name up gives the service back, from any
  state of the table.\<close>

theorem interop_name_roundtrip:
  assumes "service < NEOC_INTEROP_COUNT"
  shows "fst (neoc_interop_find_by_name C (fst (neoc_interop_get_name C service T)) T') = service"
  using assms distinct_interop_names
  by (simp add: neoc_interop_find_by_name_def neoc_interop_get_name_def neoc_interop_get_descriptor_def Let_def
      first_at_nth)

theorem interop_name_roundtrip_witness:
  "fst (neoc_interop_find_by_name toy_crypto (fst (neoc_interop_get_name toy_crypto 14 initial_interop_table))
     initial_interop_table) = NEOC_INTEROP_SYSTEM_CRYPTO_CHECKSIG"
  by (rule interop_name_roundtrip) simp

text \<open>A hash asked for before \<^verbatim>\<open>neoc_crypto_init\<close> is zero, and it stays zero: the table is marked as filled
  although no digest could be computed, so initialising the library later does not repair it.
  Every system call emitted from then on has hash zero.\<close>

theorem interop_hash_stuck_at_zero:
  assumes "\<not> crypto_initialized C" and "service < NEOC_INTEROP_COUNT" and "service' < NEOC_INTEROP_COUNT"
    and "snd (neoc_interop_get_hash C service initial_interop_table) = T"
  shows "fst (neoc_interop_get_hash (snd (neoc_crypto_init C)) service' T) = 0"
proof -
  have "interop_hash_of C = (\<lambda>_. 0)"
    using assms(1) by (simp add: fun_eq_iff interop_hash_of_def neoc_sha256_def)
  then have "it_initialized T" "it_hashes T = map (\<lambda>_. 0) interop_names"
    using assms(4)
    by (auto simp: neoc_interop_get_hash_def neoc_interop_get_descriptor_def Let_def
        initialize_interop_table_def initial_interop_table_def)
  then show ?thesis
    using assms(3)
    by (simp add: neoc_interop_get_hash_def neoc_interop_get_descriptor_def Let_def initialize_interop_table_def)
qed

theorem interop_hash_stuck_at_zero_witness:
  "fst (neoc_interop_get_hash (snd (neoc_crypto_init (toy_crypto\<lparr>crypto_initialized := False\<rparr>))) 8
     (snd (neoc_interop_get_hash (toy_crypto\<lparr>crypto_initialized := False\<rparr>) 14 initial_interop_table))) = 0"
  by (rule interop_hash_stuck_at_zero [where service = 14]) simp_all

end
