(* ===== verification/Base58.thy ===== *)
theory Base58
  imports Text_Codec Hash
begin

text \<open>
  \<^verbatim>\<open>src/utils/neoc_base58.c\<close>: Base58 and Base58Check.  Both directions convert a number between two
  bases in place, digit by digit, in a buffer whose size is estimated beforehand; a digit
  that does not fit is a store outside the buffer, a \<open>Fault\<close>.  Two lemmas on powers show that
  the estimates are always large enough, and a lemma on the inner loop that it multiplies
  and adds on canonical digit lists.
\<close>

subsection \<open>Alphabet\<close>

definition NEOC_BASE58_ALPHABET :: string where
  "NEOC_BASE58_ALPHABET = ''123456789ABCDEFGHJKLMNPQRSTUVWXYZabcdefghijkmnopqrstuvwxyz''"

definition NEOC_BASE58_CHECKSUM_LENGTH :: nat where "NEOC_BASE58_CHECKSUM_LENGTH = 4"

text \<open>\<^verbatim>\<open>strchr\<close> also finds the terminating zero.\<close>

definition strchr_index :: "string \<Rightarrow> char \<Rightarrow> nat option" where
  "strchr_index s c =
     (let t = s @ [CHR 0x00] in
      if c \<in> set t then Some (length (takeWhile (\<lambda>d. d \<noteq> c) t)) else None)"

definition neoc_base58_decode_char :: "char \<Rightarrow> int" where
  "neoc_base58_decode_char c =
     (case strchr_index NEOC_BASE58_ALPHABET c of None \<Rightarrow> -1 | Some i \<Rightarrow> int i)"

definition neoc_base58_is_valid_char :: "char \<Rightarrow> bool" where
  "neoc_base58_is_valid_char c \<longleftrightarrow> strchr_index NEOC_BASE58_ALPHABET c \<noteq> None"

definition neoc_base58_is_valid_string :: "string option \<Rightarrow> bool" where
  "neoc_base58_is_valid_string str =
     (case str of None \<Rightarrow> False | Some s \<Rightarrow> list_all neoc_base58_is_valid_char s \<and> s \<noteq> [])"

subsection \<open>Sizes\<close>

text \<open>
  The sizes are computed in \<^verbatim>\<open>size_t\<close>: the product of a length and the factor wraps at \<open>2 ^ 64\<close>, so the
  estimate of a text or of data of \<open>2 ^ 64\<close> divided by the factor is far too small.  \<open>size_scaled n a b c\<close> is the
  C expression \<open>n * a / b + c\<close>.  (Sums of lengths of objects in memory do not wrap.)
\<close>

definition size_scaled :: "nat \<Rightarrow> nat \<Rightarrow> nat \<Rightarrow> nat \<Rightarrow> nat" where
  "size_scaled n a b c = (n * a mod 2 ^ 64 div b + c) mod 2 ^ 64"

lemma size_scaled_eq [simp]:
  assumes "n * a < 2 ^ 64" and "1 < b" and "c < 2 ^ 63"
  shows "size_scaled n a b c = n * a div b + c"
proof -
  have "n * a div b \<le> n * a div 2" using assms(2) by (intro div_le_mono2) simp_all
  also have "\<dots> < 2 ^ 63" using assms(1) by simp
  finally show ?thesis using assms by (simp add: size_scaled_def)
qed

definition neoc_base58_encode_buffer_size :: "nat \<Rightarrow> nat" where
  "neoc_base58_encode_buffer_size data_length =
     (if data_length = 0 then 2 else size_scaled data_length 138 100 2)"

definition neoc_base58_decode_buffer_size :: "string option \<Rightarrow> nat" where
  "neoc_base58_decode_buffer_size base58_string =
     (case base58_string of
        None \<Rightarrow> 0
      | Some s \<Rightarrow>
          if s = [] then 0
          else let zeros = length (takeWhile (\<lambda>c. c = CHR ''1'') s) in
            (zeros + size_scaled (length s - zeros) 733 1000 1) mod 2 ^ 64)"

definition neoc_base58_check_encode_buffer_size :: "nat \<Rightarrow> nat" where
  "neoc_base58_check_encode_buffer_size data_length =
     neoc_base58_encode_buffer_size (data_length + NEOC_BASE58_CHECKSUM_LENGTH)"

definition neoc_base58_check_decode_buffer_size :: "string option \<Rightarrow> nat" where
  "neoc_base58_check_decode_buffer_size base58_string =
     (let raw_size = neoc_base58_decode_buffer_size base58_string in
      if raw_size < NEOC_BASE58_CHECKSUM_LENGTH then 0 else raw_size - NEOC_BASE58_CHECKSUM_LENGTH)"

subsection \<open>Conversion between bases\<close>

text \<open>
  The inner loop of both directions, \<open>buf = mult * buf + carry\<close> in base \<open>base\<close>, least significant
  digit first.  \<^verbatim>\<open>carry\<close> is never negative, so \<^verbatim>\<open>%\<close>, \<^verbatim>\<open>/\<close> and \<^verbatim>\<open>>>\<close> are those of natural numbers.
\<close>

function digit_loop :: "nat \<Rightarrow> nat \<Rightarrow> byte list \<Rightarrow> nat \<Rightarrow> nat \<Rightarrow> nat \<Rightarrow> (byte list \<times> nat) result" where
  "digit_loop mult base buf len carry j =
     (if j < len \<or> carry \<noteq> 0 then
        (if j < length buf then
           let c = carry + mult * unat (buf ! j) in
           digit_loop mult base (buf[j := of_nat (c mod base)]) (if len \<le> j then j + 1 else len)
             (c div base) (j + 1)
         else Fault)
      else Ok (buf, len))"
  by pat_completeness auto
termination by (relation "measure (\<lambda>(_, _, buf, _, _, j). length buf - j)") auto

fun base58_encode_loop :: "byte list \<Rightarrow> byte list \<times> nat \<Rightarrow> (byte list \<times> nat) result" where
  "base58_encode_loop [] st = Ok st"
| "base58_encode_loop (b # data) (buf, len) =
     bind_r (digit_loop 256 58 buf len (unat b) 0) (base58_encode_loop data)"

definition neoc_base58_encode :: "allocator \<Rightarrow> byte list option \<Rightarrow> nat \<Rightarrow> string result" where
  "neoc_base58_encode A data buffer_size =
     (case data of
        None \<Rightarrow> Err NEOC_ERROR_INVALID_ARGUMENT
      | Some bs \<Rightarrow>
          if length bs = 0 then
            (if buffer_size < 1 then Err NEOC_ERROR_BUFFER_TOO_SMALL else Ok [])
          else
            let zeros = length (takeWhile (\<lambda>b. b = 0) bs);
                bufsize = size_scaled (length bs) 138 100 1
            in bind_r (malloc_r A bufsize) (\<lambda>_.
               bind_r (base58_encode_loop (drop zeros bs) (replicate bufsize 0, 0)) (\<lambda>(buf, len).
                 if buffer_size < zeros + len + 1 then Err NEOC_ERROR_BUFFER_TOO_SMALL
                 else Ok (replicate zeros (CHR ''1'')
                   @ map (\<lambda>k. NEOC_BASE58_ALPHABET ! unat (buf ! (len - 1 - k))) [0..<len]))))"

fun base58_decode_loop :: "string \<Rightarrow> byte list \<times> nat \<Rightarrow> (byte list \<times> nat) result" where
  "base58_decode_loop [] st = Ok st"
| "base58_decode_loop (c # encoded) (buf, len) =
     (let carry = neoc_base58_decode_char c in
      if carry < 0 then Err NEOC_ERROR_INVALID_FORMAT
      else bind_r (digit_loop 58 256 buf len (nat carry) 0) (base58_decode_loop encoded))"

definition neoc_base58_decode :: "allocator \<Rightarrow> string option \<Rightarrow> nat \<Rightarrow> byte list result" where
  "neoc_base58_decode A encoded buffer_size =
     (case encoded of
        None \<Rightarrow> Err NEOC_ERROR_INVALID_ARGUMENT
      | Some s \<Rightarrow>
          let zeros = length (takeWhile (\<lambda>c. c = CHR ''1'') s);
              bufsize = size_scaled (length s) 733 1000 1
          in bind_r (malloc_r A bufsize) (\<lambda>_.
             bind_r (base58_decode_loop (drop zeros s) (replicate bufsize 0, 0)) (\<lambda>(buf, len).
               let skip = length (takeWhile (\<lambda>b. b = 0) (rev (take len buf)));
                   result_len = zeros + (len - skip)
               in if buffer_size < result_len then Err NEOC_ERROR_BUFFER_TOO_SMALL
                  else Ok (replicate zeros 0 @ map (\<lambda>k. buf ! (len - 1 - k)) [0..<len - skip]))))"

subsection \<open>Allocating variants and checksums\<close>

text \<open>The final \<^verbatim>\<open>realloc\<close> only gives memory back; whether it succeeds does not change the text.\<close>

definition neoc_base58_encode_alloc :: "allocator \<Rightarrow> byte list option \<Rightarrow> string result" where
  "neoc_base58_encode_alloc A data =
     (case data of
        None \<Rightarrow> Err NEOC_ERROR_INVALID_ARGUMENT
      | Some bs \<Rightarrow>
          let buffer_size = neoc_base58_encode_buffer_size (length bs) in
          bind_r (malloc_r A buffer_size) (\<lambda>_. neoc_base58_encode A (Some bs) buffer_size))"

definition neoc_base58_decode_alloc :: "allocator \<Rightarrow> string option \<Rightarrow> byte list result" where
  "neoc_base58_decode_alloc A base58_string =
     (case base58_string of
        None \<Rightarrow> Err NEOC_ERROR_INVALID_ARGUMENT
      | Some s \<Rightarrow>
          let buffer_size = neoc_base58_decode_buffer_size (Some s) in
          if buffer_size = 0 then Err NEOC_ERROR_INVALID_ARGUMENT
          else bind_r (malloc_r A buffer_size) (\<lambda>_. neoc_base58_decode A (Some s) buffer_size))"

definition neoc_base58_check_encode :: "crypto \<Rightarrow> allocator \<Rightarrow> byte list option \<Rightarrow> nat \<Rightarrow> string result" where
  "neoc_base58_check_encode C A data buffer_size =
     (case data of
        None \<Rightarrow> Err NEOC_ERROR_INVALID_ARGUMENT
      | Some bs \<Rightarrow>
          bind_r (neoc_sha256_double C (Some bs)) (\<lambda>hash.
          bind_r (malloc_r A (length bs + 4)) (\<lambda>_.
            neoc_base58_encode A (Some (bs @ take 4 hash)) buffer_size)))"

definition neoc_base58_check_decode :: "crypto \<Rightarrow> allocator \<Rightarrow> string option \<Rightarrow> nat \<Rightarrow> byte list result" where
  "neoc_base58_check_decode C A encoded buffer_size =
     (case encoded of
        None \<Rightarrow> Err NEOC_ERROR_INVALID_ARGUMENT
      | Some s \<Rightarrow>
          let temp_size = neoc_base58_decode_buffer_size (Some s) in
          if temp_size = 0 then Err NEOC_ERROR_INVALID_ARGUMENT
          else bind_r (malloc_r A temp_size) (\<lambda>_.
            bind_r (neoc_base58_decode A (Some s) temp_size) (\<lambda>temp_buffer.
              if length temp_buffer < 4 then Err NEOC_ERROR_INVALID_SIZE
              else
                let result_len = length temp_buffer - 4 in
                bind_r (neoc_sha256_double C (Some (take result_len temp_buffer))) (\<lambda>hash.
                  if drop result_len temp_buffer \<noteq> take 4 hash then Err NEOC_ERROR_INVALID_FORMAT
                  else if buffer_size < result_len then Err NEOC_ERROR_BUFFER_TOO_SMALL
                  else Ok (take result_len temp_buffer)))))"

definition neoc_base58_check_encode_alloc :: "crypto \<Rightarrow> allocator \<Rightarrow> byte list option \<Rightarrow> string result" where
  "neoc_base58_check_encode_alloc C A data =
     (case data of
        None \<Rightarrow> Err NEOC_ERROR_INVALID_ARGUMENT
      | Some bs \<Rightarrow>
          let buffer_size = neoc_base58_check_encode_buffer_size (length bs) in
          bind_r (malloc_r A buffer_size) (\<lambda>_. neoc_base58_check_encode C A (Some bs) buffer_size))"

definition neoc_base58_check_decode_alloc :: "crypto \<Rightarrow> allocator \<Rightarrow> string option \<Rightarrow> byte list result" where
  "neoc_base58_check_decode_alloc C A base58_string =
     (case base58_string of
        None \<Rightarrow> Err NEOC_ERROR_INVALID_ARGUMENT
      | Some s \<Rightarrow>
          let buffer_size = neoc_base58_decode_buffer_size (Some s) in
          if buffer_size = 0 then Err NEOC_ERROR_INVALID_ARGUMENT
          else bind_r (malloc_r A buffer_size) (\<lambda>_.
            bind_r (neoc_base58_check_decode C A (Some s) buffer_size) (\<lambda>bs.
              if length bs < NEOC_BASE58_CHECKSUM_LENGTH then Err NEOC_ERROR_INVALID_FORMAT
              else Ok bs)))"

subsection \<open>Digit lists\<close>

text \<open>The canonical digits of a number, least significant first, and the value of digits, most
  significant first.\<close>

fun digits :: "nat \<Rightarrow> nat \<Rightarrow> nat list" where
  "digits b n = (if n = 0 \<or> b < 2 then [] else n mod b # digits b (n div b))"

declare digits.simps [simp del]

definition be_val :: "nat \<Rightarrow> nat \<Rightarrow> nat list \<Rightarrow> nat" where
  "be_val b = foldl (\<lambda>a d. a * b + d)"

lemma digits_0 [simp]: "digits b 0 = []"
  by (simp add: digits.simps)

lemma digits_rec: "1 < b \<Longrightarrow> 0 < n \<Longrightarrow> digits b n = n mod b # digits b (n div b)"
  by (subst digits.simps) simp

lemma digits_less: "1 < b \<Longrightarrow> d \<in> set (digits b n) \<Longrightarrow> d < b"
  by (induction b n rule: digits.induct) (subst (asm) (2) digits.simps, auto split: if_splits)

lemma digits_Nil_iff: "1 < b \<Longrightarrow> digits b n = [] \<longleftrightarrow> n = 0"
  by (subst digits.simps) simp

lemma length_digits_le: "1 < b \<Longrightarrow> length (digits b n) \<le> k \<longleftrightarrow> n < b ^ k"
proof (induction k arbitrary: n)
  case 0
  then show ?case by (simp add: digits_Nil_iff)
next
  case (Suc k)
  show ?case
  proof (cases "n = 0")
    case False
    then have "length (digits b n) \<le> Suc k \<longleftrightarrow> n div b < b ^ k"
      using Suc by (simp add: digits_rec)
    also have "\<dots> \<longleftrightarrow> n < b ^ Suc k"
      using Suc.prems by (simp add: div_less_iff_less_mult mult.commute)
    finally show ?thesis .
  qed (use Suc.prems in simp)
qed

lemma digits_last: "1 < b \<Longrightarrow> digits b n \<noteq> [] \<Longrightarrow> last (digits b n) \<noteq> 0"
proof (induction n rule: less_induct)
  case (less n)
  then have n: "0 < n" by (cases "n = 0") auto
  show ?case
  proof (cases "n div b = 0")
    case True
    then have "n mod b = n" using less.prems(1) by (simp add: div_eq_0_iff)
    with True n less.prems show ?thesis by (simp add: digits_rec)
  next
    case False
    then have "digits b (n div b) \<noteq> []" using less.prems by (simp add: digits_Nil_iff)
    with less.IH [of "n div b"] n less.prems show ?thesis by (simp add: digits_rec)
  qed
qed

lemma be_val_snoc: "be_val b v (ds @ [d]) = be_val b v ds * b + d"
  by (simp add: be_val_def)

lemma be_val_Cons: "be_val b v (d # ds) = be_val b (v * b + d) ds"
  by (simp add: be_val_def)

lemma digits_be_val:
  assumes "1 < b" and "list_all (\<lambda>d. d < b) ds"
  shows "rev (digits b (be_val b 0 ds)) = dropWhile (\<lambda>d. d = 0) ds"
  using assms(2)
proof (induction ds rule: rev_induct)
  case Nil
  then show ?case by (simp add: be_val_def)
next
  case (snoc d ds)
  let ?v = "be_val b 0 ds"
  from snoc have d: "d < b" and ih: "rev (digits b ?v) = dropWhile (\<lambda>d. d = 0) ds" by auto
  show ?case
  proof (cases "?v * b + d = 0")
    case True
    then have "?v = 0" "d = 0" using assms(1) by auto
    with ih have "dropWhile (\<lambda>d. d = 0) ds = []" by simp
    with \<open>?v = 0\<close> \<open>d = 0\<close> show ?thesis by (auto simp: be_val_snoc dropWhile_append dropWhile_eq_Nil_conv)
  next
    case False
    then have "rev (digits b (be_val b 0 (ds @ [d]))) = rev (digits b ?v) @ [d]"
      using assms(1) d by (simp add: be_val_snoc digits_rec)
    moreover have "d \<noteq> 0" if "dropWhile (\<lambda>d. d = 0) ds = []"
    proof -
      have "digits b ?v = []" using ih that by simp
      then have "?v = 0" using assms(1) by (simp only: digits_Nil_iff)
      with False show ?thesis by simp
    qed
    ultimately show ?thesis
      using ih by (cases "dropWhile (\<lambda>d. d = 0) ds = []") (simp_all add: dropWhile_append dropWhile_eq_Nil_conv)
  qed
qed

lemma be_val_digits: "1 < b \<Longrightarrow> be_val b 0 (rev (digits b n)) = n"
proof (induction n rule: less_induct)
  case (less n)
  show ?case
  proof (cases "n = 0")
    case False
    then have "n div b < n" using less.prems by simp
    with less False show ?thesis by (simp add: digits_rec be_val_snoc)
  qed (simp add: be_val_def)
qed

subsection \<open>The inner loop multiplies and adds\<close>

fun mul_add :: "nat \<Rightarrow> nat \<Rightarrow> nat list \<Rightarrow> nat \<Rightarrow> nat list" where
  "mul_add m b [] c = digits b c"
| "mul_add m b (d # ds) c = (c + m * d) mod b # mul_add m b ds ((c + m * d) div b)"

lemma mul_add_digits:
  assumes "1 < b" and "0 < m"
  shows "mul_add m b (digits b n) c = digits b (m * n + c)"
proof (induction n arbitrary: c rule: less_induct)
  case (less n)
  show ?case
  proof (cases "n = 0")
    case False
    let ?q = "n div b" and ?r = "n mod b"
    have split: "m * n + c = b * (m * ?q) + (c + m * ?r)"
      by (metis (no_types, lifting) add.assoc add.commute distrib_left mult.left_commute mult_div_mod_eq)
    have "(m * n + c) mod b = (c + m * ?r) mod b" unfolding split by (rule mod_mult_self4)
    moreover have "(m * n + c) div b = m * ?q + (c + m * ?r) div b"
      unfolding split using assms(1) by simp
    moreover have "?q < n" using False assms(1) by simp
    ultimately show ?thesis
      using False assms less by (simp add: digits_rec)
  qed simp
qed

declare digit_loop.simps [simp del]

abbreviation digit_bytes :: "nat list \<Rightarrow> byte list" where
  "digit_bytes \<equiv> map of_nat"

lemma unat_digit: "d < 256 \<Longrightarrow> unat (of_nat d :: byte) = d"
  by (simp add: unat_of_nat take_bit_nat_eq_self)

text \<open>The loop past the digits in use: the carry is written out until it is zero.\<close>

lemma digit_loop_carry:
  assumes "1 < b" and "b \<le> 256"
  shows "digit_loop m b (pre @ replicate k 0) (length pre) c (length pre)
    = (if length (digits b c) \<le> k
       then Ok (pre @ digit_bytes (digits b c) @ replicate (k - length (digits b c)) 0,
                length pre + length (digits b c))
       else Fault)"
proof (induction c arbitrary: pre k rule: less_induct)
  case (less c)
  show ?case
  proof (cases "c = 0")
    case True
    then show ?thesis by (subst digit_loop.simps) simp
  next
    case False
    then have q: "c div b < c" and ds: "digits b c = c mod b # digits b (c div b)"
      using assms by (simp_all add: digits_rec)
    show ?thesis
    proof (cases k)
      case 0
      with False ds show ?thesis by (subst digit_loop.simps) simp
    next
      case (Suc k')
      let ?pre = "pre @ [of_nat (c mod b)]"
      have "digit_loop m b (pre @ replicate k 0) (length pre) c (length pre)
          = digit_loop m b (?pre @ replicate k' 0) (length ?pre) (c div b) (length ?pre)"
        using False Suc by (subst digit_loop.simps) (simp add: nth_append list_update_append)
      also note less.IH [OF q, of ?pre k']
      finally show ?thesis using Suc ds by simp
    qed
  qed
qed

lemma digit_loop_mul_add:
  assumes "1 < b" and "b \<le> 256" and "list_all (\<lambda>d. d < 256) ds"
  shows "digit_loop m b (pre @ digit_bytes ds @ replicate k 0) (length pre + length ds) c (length pre)
    = (if length (mul_add m b ds c) \<le> length ds + k
       then Ok (pre @ digit_bytes (mul_add m b ds c) @ replicate (length ds + k - length (mul_add m b ds c)) 0,
                length pre + length (mul_add m b ds c))
       else Fault)"
  using assms(3)
proof (induction ds arbitrary: pre c)
  case Nil
  then show ?case using digit_loop_carry [OF assms(1,2), of m pre k c] by simp
next
  case (Cons d ds)
  let ?x = "c + m * d"
  let ?pre = "pre @ [of_nat (?x mod b)]"
  from Cons.prems have d: "d < 256" and ds: "list_all (\<lambda>d. d < 256) ds" by auto
  have "digit_loop m b (pre @ digit_bytes (d # ds) @ replicate k 0) (length pre + length (d # ds)) c (length pre)
      = digit_loop m b (?pre @ digit_bytes ds @ replicate k 0) (length ?pre + length ds) (?x div b) (length ?pre)"
    using d by (subst digit_loop.simps) (simp add: nth_append list_update_append unat_digit Let_def)
  also note Cons.IH [OF ds, of ?pre "?x div b"]
  finally show ?case by simp
qed

text \<open>The state of the outer loops: the buffer holds the canonical digits of a number.\<close>

definition digit_state :: "nat \<Rightarrow> nat \<Rightarrow> nat \<Rightarrow> byte list \<times> nat" where
  "digit_state b S v =
     (digit_bytes (digits b v) @ replicate (S - length (digits b v)) 0, length (digits b v))"

lemma digit_state_0: "(replicate S 0, 0) = digit_state b S 0"
  by (simp add: digit_state_def)

lemma digit_loop_state:
  assumes "1 < b" and "b \<le> 256" and "0 < m" and "m * v + c < b ^ S"
  shows "digit_loop m b (fst (digit_state b S v)) (snd (digit_state b S v)) c 0
    = Ok (digit_state b S (m * v + c))"
proof -
  have "v \<le> m * v + c" using assms(3) by (cases m) auto
  with assms have fits: "length (digits b v) \<le> S" "length (digits b (m * v + c)) \<le> S"
    by (simp_all add: length_digits_le)
  have "list_all (\<lambda>d. d < 256) (digits b v)"
    using digits_less [OF assms(1)] assms(2) by (fastforce simp: list_all_iff)
  from digit_loop_mul_add [OF assms(1,2) this, of m "[]" "S - length (digits b v)" c]
  show ?thesis unfolding digit_state_def mul_add_digits [OF assms(1,3)] using fits by simp
qed

lemma digit_loop_fault:
  assumes "1 < b" and "b \<le> 256" and "0 < m" and "v < b ^ S" and "b ^ S \<le> m * v + c"
  shows "digit_loop m b (fst (digit_state b S v)) (snd (digit_state b S v)) c 0 = Fault"
proof -
  have fits: "length (digits b v) \<le> S" "\<not> length (digits b (m * v + c)) \<le> S"
    using assms by (simp_all add: length_digits_le)
  have "list_all (\<lambda>d. d < 256) (digits b v)"
    using digits_less [OF assms(1)] assms(2) by (fastforce simp: list_all_iff)
  from digit_loop_mul_add [OF assms(1,2) this, of m "[]" "S - length (digits b v)" c]
  show ?thesis unfolding digit_state_def mul_add_digits [OF assms(1,3)] using fits by simp
qed

subsection \<open>The buffer estimates\<close>

lemma power_estimate:
  fixes a b :: nat
  assumes "a ^ p \<le> b ^ q" and "q * n < p * k" and "0 < p" and "1 < b"
  shows "a ^ n \<le> b ^ k"
proof -
  have "(a ^ n) ^ p = (a ^ p) ^ n" by (simp flip: power_mult add: mult.commute)
  also have "\<dots> \<le> (b ^ q) ^ n" using assms(1) by (rule power_mono) simp
  also have "\<dots> \<le> (b ^ k) ^ p"
    using assms by (simp flip: power_mult add: mult.commute)
  finally show ?thesis using assms(3) by simp
qed

lemma base58_encode_estimate: "(256::nat) ^ n \<le> 58 ^ (n * 138 div 100 + 1)"
proof (rule power_estimate [where p = 8 and q = 11])
  show "11 * n < 8 * (n * 138 div 100 + 1)"
    using dividend_less_div_times [of 100 "n * 138"] by simp
qed simp_all

lemma base58_decode_estimate: "(58::nat) ^ n \<le> 256 ^ (n * 733 div 1000 + 1)"
proof (rule power_estimate [where p = 71 and q = 52])
  show "52 * n < 71 * (n * 733 div 1000 + 1)"
    using dividend_less_div_times [of 1000 "n * 733"] by simp
qed simp_all

subsection \<open>The outer loops\<close>

lemma base58_encode_loop_val:
  assumes "v < 256 ^ k" and "256 ^ (k + length bs) \<le> (58::nat) ^ S"
  shows "base58_encode_loop bs (digit_state 58 S v) = Ok (digit_state 58 S (be_val 256 v (map unat bs)))"
  using assms
proof (induction bs arbitrary: v k)
  case (Cons b bs)
  let ?v = "256 * v + unat b"
  have "unat b < 256" using unsigned_less [of b, where ?'a = nat] by simp
  then have v: "?v < 256 ^ Suc k" using Cons.prems(1) by simp
  have "(256::nat) ^ Suc k \<le> 256 ^ (k + length (b # bs))" by (rule power_increasing) simp_all
  with v Cons.prems(2) have "?v < 58 ^ S" by linarith
  then have "digit_loop 256 58 (fst (digit_state 58 S v)) (snd (digit_state 58 S v)) (unat b) 0
      = Ok (digit_state 58 S ?v)" by (intro digit_loop_state) simp_all
  then have "base58_encode_loop (b # bs) (digit_state 58 S v) = base58_encode_loop bs (digit_state 58 S ?v)"
    by (cases "digit_state 58 S v") simp
  also have "\<dots> = Ok (digit_state 58 S (be_val 256 ?v (map unat bs)))"
    using Cons.IH [OF v] Cons.prems(2) by simp
  finally show ?case by (simp add: be_val_Cons mult.commute)
qed (simp add: be_val_def)

text \<open>The digits of a text; the zero character cannot occur in a C string.\<close>

definition b58_digits :: "string \<Rightarrow> nat list" where
  "b58_digits s = map (nat \<circ> neoc_base58_decode_char) s"

definition no_nul :: "string \<Rightarrow> bool" where
  "no_nul s \<longleftrightarrow> CHR 0x00 \<notin> set s"

lemma first_index:
  "c \<in> set xs \<Longrightarrow> length (takeWhile (\<lambda>d. d \<noteq> c) xs) < length xs"
  "c \<in> set xs \<Longrightarrow> xs ! length (takeWhile (\<lambda>d. d \<noteq> c) xs) = c"
  by (induction xs) auto

lemma decode_char_range:
  assumes "c \<noteq> CHR 0x00"
  shows "neoc_base58_decode_char c < 58" and "neoc_base58_decode_char c < 0 \<longleftrightarrow> \<not> neoc_base58_is_valid_char c"
proof -
  let ?t = "NEOC_BASE58_ALPHABET @ [CHR 0x00]"
  have len: "length NEOC_BASE58_ALPHABET = 58" by (simp add: NEOC_BASE58_ALPHABET_def)
  have "length (takeWhile (\<lambda>d. d \<noteq> c) ?t) < 58" if "c \<in> set ?t"
  proof -
    have "c \<in> set NEOC_BASE58_ALPHABET" using that assms by simp
    then have "takeWhile (\<lambda>d. d \<noteq> c) ?t = takeWhile (\<lambda>d. d \<noteq> c) NEOC_BASE58_ALPHABET" by (simp add: takeWhile_append1)
    moreover have "length (takeWhile (\<lambda>d. d \<noteq> c) NEOC_BASE58_ALPHABET) < length NEOC_BASE58_ALPHABET"
      using \<open>c \<in> set NEOC_BASE58_ALPHABET\<close> by (rule first_index)
    ultimately show ?thesis by (simp only: len)
  qed
  then show "neoc_base58_decode_char c < 58" "neoc_base58_decode_char c < 0 \<longleftrightarrow> \<not> neoc_base58_is_valid_char c"
    by (simp_all add: neoc_base58_decode_char_def neoc_base58_is_valid_char_def strchr_index_def Let_def)
qed

lemma base58_decode_loop_val:
  assumes "v < 58 ^ k" and "58 ^ (k + length s) \<le> (256::nat) ^ S" and "no_nul s"
  shows "base58_decode_loop s (digit_state 256 S v)
    = (if list_all neoc_base58_is_valid_char s then Ok (digit_state 256 S (be_val 58 v (b58_digits s)))
       else Err NEOC_ERROR_INVALID_FORMAT)"
  using assms
proof (induction s arbitrary: v k)
  case (Cons c s)
  let ?c = "neoc_base58_decode_char c"
  have nul: "c \<noteq> CHR 0x00" "no_nul s" using Cons.prems(3) by (auto simp: no_nul_def)
  show ?case
  proof (cases "neoc_base58_is_valid_char c")
    case False
    with nul show ?thesis
      by (cases "digit_state 256 S v") (simp add: decode_char_range)
  next
    case True
    let ?v = "58 * v + nat ?c"
    have "0 \<le> ?c" "nat ?c < 58" using True decode_char_range [OF nul(1)] by auto
    then have v: "?v < 58 ^ Suc k" using Cons.prems(1) by simp
    have "(58::nat) ^ Suc k \<le> 58 ^ (k + length (c # s))" by (rule power_increasing) simp_all
    with v Cons.prems(2) have "?v < 256 ^ S" by linarith
    then have "digit_loop 58 256 (fst (digit_state 256 S v)) (snd (digit_state 256 S v)) (nat ?c) 0
        = Ok (digit_state 256 S ?v)" by (intro digit_loop_state) simp_all
    then have "base58_decode_loop (c # s) (digit_state 256 S v) = base58_decode_loop s (digit_state 256 S ?v)"
      using \<open>0 \<le> ?c\<close> by (cases "digit_state 256 S v") simp
    also note Cons.IH [OF v _ nul(2)]
    finally show ?thesis using True Cons.prems(2) by (simp add: be_val_Cons b58_digits_def mult.commute)
  qed
qed (simp add: be_val_def b58_digits_def)

text \<open>Whatever the size of the scratch buffer, a conversion that ends without a fault computed the value.\<close>

lemma base58_decode_loop_sound:
  assumes "v < 256 ^ S" and "no_nul s" and "base58_decode_loop s (digit_state 256 S v) = Ok st"
  shows "list_all neoc_base58_is_valid_char s \<and> st = digit_state 256 S (be_val 58 v (b58_digits s))"
  using assms
proof (induction s arbitrary: v)
  case (Cons c s)
  let ?c = "neoc_base58_decode_char c"
  let ?v = "58 * v + nat ?c"
  have nul: "c \<noteq> CHR 0x00" "no_nul s" using Cons.prems(2) by (auto simp: no_nul_def)
  let ?loop = "digit_loop 58 256 (fst (digit_state 256 S v)) (snd (digit_state 256 S v)) (nat ?c) 0"
  have st: "\<not> ?c < 0" "bind_r ?loop (base58_decode_loop s) = Ok st"
    using Cons.prems(3) by (cases "digit_state 256 S v"; simp add: Let_def split: if_splits)+
  have fits: "?v < 256 ^ S"
  proof (rule ccontr)
    assume "\<not> ?v < 256 ^ S"
    then have "?loop = Fault" using Cons.prems(1) by (intro digit_loop_fault) simp_all
    with st(2) show False by simp
  qed
  then have "?loop = Ok (digit_state 256 S ?v)" by (intro digit_loop_state) simp_all
  with st(2) have "base58_decode_loop s (digit_state 256 S ?v) = Ok st" by simp
  from Cons.IH [OF fits nul(2) this] show ?case
    using st(1) decode_char_range(2) [OF nul(1)] by (simp add: be_val_Cons b58_digits_def mult.commute)
qed (simp add: be_val_def b58_digits_def)

subsection \<open>Decoding inverts encoding\<close>

lemma b58_alphabet_inverts:
  "\<forall>i \<in> set [0..<58]. neoc_base58_decode_char (NEOC_BASE58_ALPHABET ! i) = int i
     \<and> (NEOC_BASE58_ALPHABET ! i = CHR ''1'' \<longleftrightarrow> i = 0) \<and> NEOC_BASE58_ALPHABET ! i \<noteq> CHR 0x00"
  unfolding neoc_base58_decode_char_def strchr_index_def NEOC_BASE58_ALPHABET_def by code_simp

lemma b58_alphabet:
  assumes "d < 58"
  shows "neoc_base58_decode_char (NEOC_BASE58_ALPHABET ! d) = int d"
    "NEOC_BASE58_ALPHABET ! d = CHR ''1'' \<longleftrightarrow> d = 0" "NEOC_BASE58_ALPHABET ! d \<noteq> CHR 0x00"
    "neoc_base58_is_valid_char (NEOC_BASE58_ALPHABET ! d)"
  using bspec [OF b58_alphabet_inverts, of d] decode_char_range(2) [of "NEOC_BASE58_ALPHABET ! d"] assms by auto

lemma rev_nth_map: "map (\<lambda>k. f (xs ! (length xs - 1 - k))) [0..<length xs] = rev (map f xs)"
  by (rule nth_equalityI) (auto simp: rev_nth)

lemma map_state_digits:
  assumes "1 < b" and "b \<le> 256"
  shows "map (\<lambda>k. f (fst (digit_state b S v) ! (snd (digit_state b S v) - 1 - k))) [0..<snd (digit_state b S v)]
    = rev (map (f \<circ> of_nat) (digits b v))"
proof -
  let ?ds = "digit_bytes (digits b v)"
  have "map (\<lambda>k. f (fst (digit_state b S v) ! (snd (digit_state b S v) - 1 - k))) [0..<snd (digit_state b S v)]
      = map (\<lambda>k. f (?ds ! (length ?ds - 1 - k))) [0..<length ?ds]"
    by (rule map_cong) (auto simp: digit_state_def nth_append)
  then show ?thesis by (simp only: rev_nth_map map_map)
qed

text \<open>The encoder's text: a digit one for each leading zero byte, then the digits in base 58.\<close>

definition b58_text :: "byte list \<Rightarrow> string" where
  "b58_text bs =
     replicate (length (takeWhile (\<lambda>b. b = 0) bs)) (CHR ''1'')
     @ rev (map (\<lambda>d. NEOC_BASE58_ALPHABET ! d) (digits 58 (be_val 256 0 (map unat bs))))"

lemma be_val_zeros: "list_all (\<lambda>d. d = 0) zs \<Longrightarrow> be_val b 0 (zs @ ds) = be_val b 0 ds"
  by (induction zs) (auto simp: be_val_Cons)

lemma be_val_skip: "be_val 256 0 (map unat (drop (length (takeWhile (\<lambda>b. b = 0) bs)) bs)) = be_val 256 0 (map unat bs)"
proof -
  have "be_val 256 0 (map unat (takeWhile (\<lambda>b. b = 0) bs) @ map unat (dropWhile (\<lambda>b. b = 0) bs))
      = be_val 256 0 (map unat (dropWhile (\<lambda>b. b = 0) bs))"
    by (rule be_val_zeros) (auto simp: list_all_iff dest: set_takeWhileD)
  then show ?thesis by (simp flip: map_append dropWhile_eq_drop)
qed

lemma neoc_base58_encode_eq:
  assumes "bs \<noteq> []" and short: "length bs < 2 ^ 56"
  shows "neoc_base58_encode A (Some bs) n =
    (if \<not> A (length bs * 138 div 100 + 1) then Err NEOC_ERROR_MEMORY
     else if n < length (b58_text bs) + 1 then Err NEOC_ERROR_BUFFER_TOO_SMALL
     else Ok (b58_text bs))"
proof -
  let ?z = "length (takeWhile (\<lambda>b. b = 0) bs)" and ?S = "length bs * 138 div 100 + 1"
  let ?v = "be_val 256 0 (map unat bs)"
  have "length (drop ?z bs) \<le> length bs" by simp
  then have "(256::nat) ^ (0 + length (drop ?z bs)) \<le> 256 ^ length bs" by (intro power_increasing) simp_all
  also have "\<dots> \<le> 58 ^ ?S" by (rule base58_encode_estimate)
  finally have loop: "base58_encode_loop (drop ?z bs) (replicate ?S 0, 0) = Ok (digit_state 58 ?S ?v)"
    using base58_encode_loop_val [of 0 0 "drop ?z bs" ?S] be_val_skip [of bs] by (simp only: digit_state_0 [of ?S 58]) simp
  have "map (\<lambda>k. NEOC_BASE58_ALPHABET ! unat (fst (digit_state 58 ?S ?v) ! (snd (digit_state 58 ?S ?v) - 1 - k)))
          [0..<snd (digit_state 58 ?S ?v)]
      = rev (map ((\<lambda>b :: byte. NEOC_BASE58_ALPHABET ! unat b) \<circ> of_nat) (digits 58 ?v))"
    by (rule map_state_digits [where f = "\<lambda>b. NEOC_BASE58_ALPHABET ! unat b"]) simp_all
  also have "\<dots> = rev (map (\<lambda>d. NEOC_BASE58_ALPHABET ! d) (digits 58 ?v))"
    using digits_less [of 58 _ ?v] by (fastforce intro!: arg_cong [of _ _ rev] simp: unat_digit)
  finally have chars: "replicate ?z (CHR ''1'')
      @ map (\<lambda>k. NEOC_BASE58_ALPHABET ! unat (fst (digit_state 58 ?S ?v) ! (snd (digit_state 58 ?S ?v) - 1 - k)))
          [0..<snd (digit_state 58 ?S ?v)] = b58_text bs"
    by (simp add: b58_text_def)
  have len: "?z + snd (digit_state 58 ?S ?v) = length (b58_text bs)"
    by (simp add: b58_text_def digit_state_def)
  show ?thesis
  proof (cases "A ?S")
    case True
    then show ?thesis
      using assms(1) short loop chars len
      by (cases "digit_state 58 ?S ?v") (simp add: neoc_base58_encode_def Let_def)
  next
    case False
    with assms(1) short show ?thesis by (simp add: neoc_base58_encode_def Let_def)
  qed
qed

text \<open>The decoder's bytes: a zero byte for each leading one, then the digits in base 256.\<close>

definition b58_bytes :: "string \<Rightarrow> byte list" where
  "b58_bytes s =
     replicate (length (takeWhile (\<lambda>c. c = CHR ''1'') s)) 0
     @ rev (digit_bytes (digits 256 (be_val 58 0 (b58_digits s))))"

lemma be_val_skip_ones:
  "be_val 58 0 (b58_digits (drop (length (takeWhile (\<lambda>c. c = CHR ''1'') s)) s)) = be_val 58 0 (b58_digits s)"
proof -
  have one: "nat (neoc_base58_decode_char (CHR ''1'')) = 0"
    using b58_alphabet(1) [of 0] by (simp add: NEOC_BASE58_ALPHABET_def)
  have "be_val 58 0 (b58_digits (takeWhile (\<lambda>c. c = CHR ''1'') s) @ b58_digits (dropWhile (\<lambda>c. c = CHR ''1'') s))
      = be_val 58 0 (b58_digits (dropWhile (\<lambda>c. c = CHR ''1'') s))"
    using one by (intro be_val_zeros) (auto simp: list_all_iff b58_digits_def dest: set_takeWhileD)
  then show ?thesis by (simp add: b58_digits_def flip: map_append dropWhile_eq_drop)
qed

lemma state_no_skip:
  assumes "1 < b" and "b \<le> 256"
  shows "takeWhile (\<lambda>x. x = 0) (rev (take (snd (digit_state b S v)) (fst (digit_state b S v)))) = []"
proof (cases "digits b v = []")
  case False
  let ?d = "last (digits b v)"
  have "?d \<noteq> 0" "?d < 256"
    using digits_last [OF assms(1) False] digits_less [OF assms(1), of ?d v] False assms(2) by auto
  then have "(of_nat ?d :: byte) \<noteq> 0" using unat_digit [of ?d] by force
  then show ?thesis
    using False by (cases "digits b v" rule: rev_cases) (auto simp: digit_state_def)
qed (simp add: digit_state_def)

lemma state_bytes:
  "replicate z 0 @ map (\<lambda>k. fst (digit_state 256 S v) ! (snd (digit_state 256 S v) - 1 - k)) [0..<snd (digit_state 256 S v)]
   = replicate z 0 @ rev (digit_bytes (digits 256 v))"
  using map_state_digits [of 256 "\<lambda>b. b" S v] by (simp add: comp_def)

lemma neoc_base58_decode_eq:
  assumes "no_nul s" and short: "length s < 2 ^ 54"
  shows "neoc_base58_decode A (Some s) n =
    (if \<not> A (length s * 733 div 1000 + 1) then Err NEOC_ERROR_MEMORY
     else if \<not> list_all neoc_base58_is_valid_char s then Err NEOC_ERROR_INVALID_FORMAT
     else if n < length (b58_bytes s) then Err NEOC_ERROR_BUFFER_TOO_SMALL
     else Ok (b58_bytes s))"
proof -
  let ?z = "length (takeWhile (\<lambda>c. c = CHR ''1'') s)" and ?S = "length s * 733 div 1000 + 1"
  let ?v = "be_val 58 0 (b58_digits s)"
  have "length (drop ?z s) \<le> length s" by simp
  then have "(58::nat) ^ (0 + length (drop ?z s)) \<le> 58 ^ length s" by (intro power_increasing) simp_all
  also have "\<dots> \<le> 256 ^ ?S" by (rule base58_decode_estimate)
  finally have fits: "(58::nat) ^ (0 + length (drop ?z s)) \<le> 256 ^ ?S" .
  have nn: "no_nul (drop ?z s)" using assms(1) by (auto simp: no_nul_def dest: in_set_dropD)
  have "neoc_base58_is_valid_char (CHR ''1'')"
    using b58_alphabet(4) [of 0] by (simp add: NEOC_BASE58_ALPHABET_def)
  then have "list_all neoc_base58_is_valid_char (takeWhile (\<lambda>c. c = CHR ''1'') s)"
    by (auto simp: list_all_iff dest: set_takeWhileD)
  then have valid: "list_all neoc_base58_is_valid_char (drop ?z s) \<longleftrightarrow> list_all neoc_base58_is_valid_char s"
    by (metis dropWhile_eq_drop list_all_append takeWhile_dropWhile_id)
  have loop: "base58_decode_loop (drop ?z s) (replicate ?S 0, 0)
      = (if list_all neoc_base58_is_valid_char s then Ok (digit_state 256 ?S ?v) else Err NEOC_ERROR_INVALID_FORMAT)"
    using base58_decode_loop_val [OF _ fits nn, of 0] valid be_val_skip_ones [of s]
    by (simp only: digit_state_0 [of ?S 256]) simp
  have bytes: "replicate ?z 0 @ map (\<lambda>k. fst (digit_state 256 ?S ?v) ! (snd (digit_state 256 ?S ?v) - 1 - k))
      [0..<snd (digit_state 256 ?S ?v)] = b58_bytes s"
    using state_bytes [of ?z ?S ?v] by (simp add: b58_bytes_def)
  have len: "?z + snd (digit_state 256 ?S ?v) = length (b58_bytes s)"
    by (simp add: b58_bytes_def digit_state_def)
  show ?thesis
    using loop bytes len state_no_skip [of 256 ?S ?v] short
    by (cases "digit_state 256 ?S ?v") (auto simp: neoc_base58_decode_def Let_def)
qed

lemma neoc_base58_decode_Ok:
  assumes "no_nul s" and "neoc_base58_decode A (Some s) n = Ok p"
  shows "p = b58_bytes s \<and> list_all neoc_base58_is_valid_char s"
proof -
  let ?z = "length (takeWhile (\<lambda>c. c = CHR ''1'') s)" and ?S = "size_scaled (length s) 733 1000 1"
  let ?v = "be_val 58 0 (b58_digits s)"
  have nn: "no_nul (drop ?z s)" using assms(1) by (auto simp: no_nul_def dest: in_set_dropD)
  obtain st where st: "base58_decode_loop (drop ?z s) (digit_state 256 ?S 0) = Ok st"
    using assms(2) by (auto simp: neoc_base58_decode_def Let_def bind_r_Ok_iff digit_state_0 [of _ 256] split: if_splits)
  from base58_decode_loop_sound [OF _ nn this]
  have v: "list_all neoc_base58_is_valid_char (drop ?z s)" "st = digit_state 256 ?S ?v"
    using be_val_skip_ones [of s] by simp_all
  have "neoc_base58_is_valid_char (CHR ''1'')"
    using b58_alphabet(4) [of 0] by (simp add: NEOC_BASE58_ALPHABET_def)
  then have "list_all neoc_base58_is_valid_char (takeWhile (\<lambda>c. c = CHR ''1'') s)"
    by (auto simp: list_all_iff dest: set_takeWhileD)
  then have "list_all neoc_base58_is_valid_char s"
    using v(1) by (metis dropWhile_eq_drop list_all_append takeWhile_dropWhile_id)
  moreover have "p = b58_bytes s"
    using assms(2) st v(2) state_no_skip [of 256 ?S ?v] state_bytes [of ?z ?S ?v] unfolding digit_state_0 [of ?S 256, symmetric]
    by (cases "digit_state 256 ?S ?v") (auto simp: neoc_base58_decode_def Let_def bind_r_Ok_iff b58_bytes_def split: if_splits)
  ultimately show ?thesis by simp
qed

subsection \<open>The two texts are inverse\<close>

lemma takeWhile_replicate_append:
  "\<not> P (hd (ys @ [z])) \<Longrightarrow> \<not> P z \<Longrightarrow> P x \<Longrightarrow> takeWhile P (replicate n x @ ys) = replicate n x"
  by (cases ys) (simp_all add: takeWhile_append takeWhile_replicate)

lemma b58_digits_text:
  "b58_digits (rev (map (\<lambda>d. NEOC_BASE58_ALPHABET ! d) (digits 58 v))) = rev (digits 58 v)"
proof -
  have "nat (neoc_base58_decode_char (NEOC_BASE58_ALPHABET ! d)) = d" if "d \<in> set (digits 58 v)" for d
    using digits_less [of 58 d v] that b58_alphabet(1) [of d] by simp
  then show ?thesis unfolding b58_digits_def rev_map map_map by (intro map_idI) simp
qed

lemma leading_ones:
  "takeWhile (\<lambda>c. c = CHR ''1'') (replicate n (CHR ''1'') @ rev (map (\<lambda>d. NEOC_BASE58_ALPHABET ! d) (digits 58 v)))
   = replicate n (CHR ''1'')"
proof (cases "digits 58 v" rule: rev_cases)
  case (snoc ds d)
  then have "d \<noteq> 0" "d < 58" using digits_last [of 58 v] digits_less [of 58 d v] by auto
  then have "NEOC_BASE58_ALPHABET ! d \<noteq> CHR ''1''" using b58_alphabet(2) by simp
  with snoc show ?thesis by (simp add: takeWhile_append takeWhile_replicate)
qed (simp add: takeWhile_replicate)

lemma b58_bytes_text: "b58_bytes (b58_text bs) = bs"
proof -
  let ?v = "be_val 256 0 (map unat bs)" and ?z = "length (takeWhile (\<lambda>b. b = 0) bs)"
  have "be_val 58 0 (b58_digits (b58_text bs)) = be_val 58 0 (rev (digits 58 ?v))"
    using be_val_skip_ones [of "b58_text bs"] leading_ones [of ?z ?v] b58_digits_text [of ?v]
    by (simp add: b58_text_def)
  also have "\<dots> = ?v" by (rule be_val_digits) simp
  finally have "b58_bytes (b58_text bs) = replicate ?z 0 @ rev (digit_bytes (digits 256 ?v))"
    using leading_ones [of ?z ?v] by (simp add: b58_bytes_def b58_text_def)
  also have "rev (digit_bytes (digits 256 ?v)) = digit_bytes (dropWhile (\<lambda>d. d = 0) (map unat bs))"
    using digits_be_val [of 256 "map unat bs"] unsigned_less [where ?'a = nat and ?'b = 8]
    by (simp add: rev_map list_all_iff)
  also have "\<dots> = dropWhile (\<lambda>b. b = 0) bs"
    by (simp add: dropWhile_map comp_def unat_eq_zero)
  also have "replicate ?z 0 = takeWhile (\<lambda>b. b = 0) bs"
    by (rule replicate_length_same) (auto dest: set_takeWhileD)
  finally show ?thesis by simp
qed

lemma no_nul_text: "no_nul (b58_text bs)"
proof -
  have "NEOC_BASE58_ALPHABET ! d \<noteq> CHR 0x00" if "d \<in> set (digits 58 v)" for d v
    using digits_less [of 58 d v] that b58_alphabet(3) [of d] by simp
  then show ?thesis by (fastforce simp: no_nul_def b58_text_def)
qed

lemma valid_text: "list_all neoc_base58_is_valid_char (b58_text bs)"
proof -
  have "neoc_base58_is_valid_char (NEOC_BASE58_ALPHABET ! d)" if "d \<in> set (digits 58 v)" for d v
    using digits_less [of 58 d v] that b58_alphabet(4) [of d] by simp
  moreover have "neoc_base58_is_valid_char (CHR ''1'')"
    using b58_alphabet(4) [of 0] by (simp add: NEOC_BASE58_ALPHABET_def)
  ultimately show ?thesis by (auto simp: list_all_iff b58_text_def)
qed

lemma valid_char_digit:
  assumes "neoc_base58_is_valid_char c" and "c \<noteq> CHR 0x00"
  obtains d where "d < 58" and "c = NEOC_BASE58_ALPHABET ! d" and "nat (neoc_base58_decode_char c) = d"
proof -
  have "c \<in> set NEOC_BASE58_ALPHABET"
    using assms by (auto simp: neoc_base58_is_valid_char_def strchr_index_def Let_def split: if_splits)
  then obtain d where "d < length NEOC_BASE58_ALPHABET" "c = NEOC_BASE58_ALPHABET ! d" by (auto simp: in_set_conv_nth)
  moreover have "length NEOC_BASE58_ALPHABET = 58" by (simp add: NEOC_BASE58_ALPHABET_def)
  ultimately show thesis using that b58_alphabet(1) [of d] by simp
qed

lemma text_digits:
  assumes "list_all neoc_base58_is_valid_char s" and "no_nul s"
  shows "map (\<lambda>d. NEOC_BASE58_ALPHABET ! d) (b58_digits s) = s" and "list_all (\<lambda>d. d < 58) (b58_digits s)"
    and "dropWhile (\<lambda>d. d = 0) (b58_digits s) = b58_digits (dropWhile (\<lambda>c. c = CHR ''1'') s)"
proof -
  have c: "NEOC_BASE58_ALPHABET ! nat (neoc_base58_decode_char c) = c" "nat (neoc_base58_decode_char c) < 58"
    "nat (neoc_base58_decode_char c) = 0 \<longleftrightarrow> c = CHR ''1''" if "c \<in> set s" for c
  proof -
    have "neoc_base58_is_valid_char c" "c \<noteq> CHR 0x00" using assms that by (auto simp: list_all_iff no_nul_def)
    then obtain d where "d < 58" "c = NEOC_BASE58_ALPHABET ! d" "nat (neoc_base58_decode_char c) = d" by (rule valid_char_digit)
    then show "NEOC_BASE58_ALPHABET ! nat (neoc_base58_decode_char c) = c" "nat (neoc_base58_decode_char c) < 58"
      "nat (neoc_base58_decode_char c) = 0 \<longleftrightarrow> c = CHR ''1''" using b58_alphabet(2) by auto
  qed
  show "map (\<lambda>d. NEOC_BASE58_ALPHABET ! d) (b58_digits s) = s" using c(1) by (simp add: b58_digits_def map_idI)
  show "list_all (\<lambda>d. d < 58) (b58_digits s)" using c(2) by (auto simp: b58_digits_def list_all_iff)
  have "dropWhile (\<lambda>c. nat (neoc_base58_decode_char c) = 0) s = dropWhile (\<lambda>c. c = CHR ''1'') s"
    using c(3) by (intro dropWhile_cong) auto
  then show "dropWhile (\<lambda>d. d = 0) (b58_digits s) = b58_digits (dropWhile (\<lambda>c. c = CHR ''1'') s)"
    by (simp add: b58_digits_def dropWhile_map comp_def)
qed

lemma leading_zeros: "takeWhile (\<lambda>b. b = 0) (replicate n 0 @ rev (digit_bytes (digits 256 v))) = (replicate n 0 :: byte list)"
proof (cases "digits 256 v" rule: rev_cases)
  case (snoc ds d)
  then have "d \<noteq> 0" "d < 256" using digits_last [of 256 v] digits_less [of 256 d v] by auto
  then have "(of_nat d :: byte) \<noteq> 0" using unat_digit [of d] by force
  with snoc show ?thesis by (simp add: takeWhile_append takeWhile_replicate)
qed (simp add: takeWhile_replicate)

text \<open>Base58 is canonical: a text the decoder accepts is the one the encoder makes of the bytes.\<close>

lemma b58_text_bytes:
  assumes "list_all neoc_base58_is_valid_char s" and "no_nul s"
  shows "b58_text (b58_bytes s) = s"
proof -
  let ?v = "be_val 58 0 (b58_digits s)" and ?one = "\<lambda>c. c = CHR ''1''"
  let ?z = "length (takeWhile ?one s)"
  have "map unat (rev (digit_bytes (digits 256 ?v))) = rev (digits 256 ?v)"
    unfolding rev_map map_map using digits_less [of 256 _ ?v] by (intro map_idI) (simp add: unat_digit)
  then have "be_val 256 0 (map unat (b58_bytes s)) = be_val 256 0 (replicate ?z 0 @ rev (digits 256 ?v))"
    by (simp add: b58_bytes_def)
  also have "\<dots> = ?v" using be_val_digits [of 256 ?v] by (simp add: be_val_zeros list_all_iff)
  finally have v: "be_val 256 0 (map unat (b58_bytes s)) = ?v" .
  have "rev (digits 58 ?v) = b58_digits (dropWhile ?one s)"
    using digits_be_val [of 58 "b58_digits s"] text_digits(2,3) [OF assms] by simp
  moreover have "map (\<lambda>d. NEOC_BASE58_ALPHABET ! d) (b58_digits (dropWhile ?one s)) = dropWhile ?one s"
    using assms by (intro text_digits) (auto simp: list_all_iff no_nul_def dest: set_dropWhileD)
  ultimately have "rev (map (\<lambda>d. NEOC_BASE58_ALPHABET ! d) (digits 58 ?v)) = dropWhile ?one s" by (simp add: rev_map)
  moreover have "takeWhile (\<lambda>b. b = 0) (b58_bytes s) = replicate ?z 0" by (simp add: b58_bytes_def leading_zeros)
  moreover have "replicate ?z (CHR ''1'') = takeWhile ?one s" by (rule replicate_length_same) (auto dest: set_takeWhileD)
  ultimately show ?thesis using v by (simp add: b58_text_def)
qed

lemma be_val_less: "list_all (\<lambda>d. d < b) ds \<Longrightarrow> be_val b 0 ds < b ^ length ds"
proof (induction ds rule: rev_induct)
  case (snoc d ds)
  then have "be_val b 0 ds + 1 \<le> b ^ length ds" and d: "d < b" by auto
  then have "(be_val b 0 ds + 1) * b \<le> b ^ length ds * b" by (intro mult_le_mono1)
  with d show ?case by (simp add: be_val_snoc mult.commute)
qed (simp add: be_val_def)

text \<open>The announced sizes suffice.\<close>

lemma length_text_le:
  assumes "length bs < 2 ^ 56"
  shows "length (b58_text bs) + 1 \<le> neoc_base58_encode_buffer_size (length bs)"
proof (cases "bs = []")
  case False
  let ?r = "dropWhile (\<lambda>b. b = 0) bs" and ?z = "length (takeWhile (\<lambda>b. b = 0) bs)"
  have n: "length bs = ?z + length ?r" by (metis length_append takeWhile_dropWhile_id)
  have "be_val 256 0 (map unat bs) = be_val 256 0 (map unat ?r)" using be_val_skip [of bs] by (simp flip: dropWhile_eq_drop)
  also have "\<dots> < 256 ^ length ?r"
    using be_val_less [of 256 "map unat ?r"] unsigned_less [where ?'a = nat and ?'b = 8] by (simp add: list_all_iff)
  also have "\<dots> \<le> 58 ^ (length ?r * 138 div 100 + 1)" by (rule base58_encode_estimate)
  finally have "length (digits 58 (be_val 256 0 (map unat bs))) \<le> length ?r * 138 div 100 + 1"
    by (simp add: length_digits_le)
  moreover have "?z + (length ?r * 138 div 100 + 1) + 1 \<le> length bs * 138 div 100 + 2"
    unfolding n by simp
  ultimately show ?thesis using False assms by (simp add: b58_text_def neoc_base58_encode_buffer_size_def)
qed (simp add: b58_text_def be_val_def neoc_base58_encode_buffer_size_def)

lemma length_bytes_le:
  assumes "no_nul s" and "list_all neoc_base58_is_valid_char s" and "s \<noteq> []" and short: "length s < 2 ^ 54"
  shows "length (b58_bytes s) \<le> neoc_base58_decode_buffer_size (Some s)"
proof -
  let ?r = "dropWhile (\<lambda>c. c = CHR ''1'') s" and ?z = "length (takeWhile (\<lambda>c. c = CHR ''1'') s)"
  have n: "length s = ?z + length ?r" by (metis length_append takeWhile_dropWhile_id)
  have "nat (neoc_base58_decode_char c) < 58" if "c \<in> set ?r" for c
  proof -
    have "c \<noteq> CHR 0x00" using assms(1) that set_dropWhileD [OF that] by (auto simp: no_nul_def)
    then show ?thesis using decode_char_range(1) [of c] by simp
  qed
  then have "be_val 58 0 (b58_digits ?r) < 58 ^ length ?r"
    using be_val_less [of 58 "b58_digits ?r"] by (simp add: list_all_iff b58_digits_def)
  also have "\<dots> \<le> 256 ^ (length ?r * 733 div 1000 + 1)" by (rule base58_decode_estimate)
  finally have "be_val 58 0 (b58_digits s) < 256 ^ (length ?r * 733 div 1000 + 1)"
    using be_val_skip_ones [of s] by (simp flip: dropWhile_eq_drop)
  then have "length (digits 256 (be_val 58 0 (b58_digits s))) \<le> length ?r * 733 div 1000 + 1"
    by (subst length_digits_le) simp_all
  moreover have "length s - ?z = length ?r" using n by simp
  moreover have "?z \<le> length s" by (rule length_takeWhile_le)
  ultimately show ?thesis using assms(3) short by (simp add: b58_bytes_def neoc_base58_decode_buffer_size_def Let_def)
qed

lemma text_short:
  assumes "length bs < 2 ^ 53"
  shows "length (b58_text bs) < 2 ^ 54"
  using length_text_le [of bs] assms by (simp add: neoc_base58_encode_buffer_size_def split: if_splits)

interpretation base58_codec: text_codec
  "\<lambda>bs. neoc_base58_encode (\<lambda>_. True) (Some bs) (neoc_base58_encode_buffer_size (length bs))"
  "\<lambda>s. neoc_base58_decode (\<lambda>_. True) (Some s) (neoc_base58_decode_buffer_size (Some s))" "\<lambda>bs. length bs < 2 ^ 53"
proof
  fix bs :: "byte list"
  assume short: "length bs < 2 ^ 53"
  let ?enc = "neoc_base58_encode (\<lambda>_. True) (Some bs) (neoc_base58_encode_buffer_size (length bs))"
  have "?enc = Ok (b58_text bs)"
  proof (cases "bs = []")
    case True
    then show ?thesis
      by (simp add: neoc_base58_encode_def neoc_base58_encode_buffer_size_def b58_text_def be_val_def)
  next
    case False
    then show ?thesis using length_text_le [of bs] short by (simp add: neoc_base58_encode_eq)
  qed
  moreover have "length (b58_bytes (b58_text bs)) \<le> neoc_base58_decode_buffer_size (Some (b58_text bs))"
    using length_bytes_le [OF no_nul_text valid_text, of bs] text_short [OF short]
    by (cases "b58_text bs = []") (simp_all add: b58_bytes_def b58_digits_def be_val_def)
  ultimately show "\<exists>s. ?enc = Ok s \<and> neoc_base58_decode (\<lambda>_. True) (Some s) (neoc_base58_decode_buffer_size (Some s)) = Ok bs"
    using text_short [OF short] by (simp add: neoc_base58_decode_eq no_nul_text valid_text b58_bytes_text)
qed

subsection \<open>Base58Check\<close>

lemma decode_buffer_size_le:
  assumes "length s < 2 ^ 54"
  shows "neoc_base58_decode_buffer_size (Some s) \<le> length s + 1" "0 < length s \<Longrightarrow> 0 < neoc_base58_decode_buffer_size (Some s)"
proof -
  let ?z = "length (takeWhile (\<lambda>c. c = CHR ''1'') s)"
  have "?z \<le> length s" by (rule length_takeWhile_le)
  moreover have "(length s - ?z) * 733 div 1000 \<le> length s - ?z" by simp
  ultimately have le: "(length s - ?z) * 733 div 1000 + ?z \<le> length s" by (simp only: le_diff_conv2)
  then show "neoc_base58_decode_buffer_size (Some s) \<le> length s + 1"
    using assms by (simp add: neoc_base58_decode_buffer_size_def Let_def)
  show "0 < neoc_base58_decode_buffer_size (Some s)" if "0 < length s"
    using le assms that by (auto simp: neoc_base58_decode_buffer_size_def Let_def)
qed

text \<open>Encoding with a checksum yields the Base58 text of the payload and the four checksum bytes.\<close>

lemma check_encode_Ok:
  assumes "crypto_works C" and "grants A (neoc_base58_check_encode_buffer_size (length bs))" and short: "length bs < 2 ^ 52"
  obtains hash where "neoc_sha256_double C (Some bs) = Ok hash" and "length hash = 32"
    and "neoc_base58_check_encode C A (Some bs) (neoc_base58_check_encode_buffer_size (length bs))
           = Ok (b58_text (bs @ take 4 hash))"
proof -
  obtain hash where h: "neoc_sha256_double C (Some bs) = Ok hash" "length hash = 32"
    using sha256_double_works [OF assms(1)] by blast
  let ?p = "bs @ take 4 hash"
  have len: "length ?p = length bs + 4" using h by simp
  have A: "A k" if "k \<le> (length bs + 4) * 138 div 100 + 2" for k
    using assms(2) that short
    by (simp add: grants_def neoc_base58_check_encode_buffer_size_def neoc_base58_encode_buffer_size_def
        NEOC_BASE58_CHECKSUM_LENGTH_def)
  have "A (length bs + 4)" "A (length ?p * 138 div 100 + 1)" by (rule A; simp add: len)+
  moreover have "\<not> neoc_base58_check_encode_buffer_size (length bs) < length (b58_text ?p) + 1"
    using length_text_le [of ?p] len short
    by (simp add: neoc_base58_check_encode_buffer_size_def NEOC_BASE58_CHECKSUM_LENGTH_def)
  moreover have "?p \<noteq> []" using len by auto
  ultimately have "neoc_base58_check_encode C A (Some bs) (neoc_base58_check_encode_buffer_size (length bs))
      = Ok (b58_text ?p)"
    using h(1) neoc_base58_encode_eq [of ?p A] len short by (simp add: neoc_base58_check_encode_def)
  with that h show thesis by blast
qed

lemma check_decode_text:
  assumes "neoc_sha256_double C (Some bs) = Ok hash" and "length hash = 32"
    and "grants A (neoc_base58_check_encode_buffer_size (length bs))" and "length bs \<le> n"
    and short: "length bs < 2 ^ 52"
  shows "neoc_base58_check_decode C A (Some (b58_text (bs @ take 4 hash))) n = Ok bs"
proof -
  let ?p = "bs @ take 4 hash"
  let ?s = "b58_text ?p"
  have len: "length ?p = length bs + 4" using assms(2) by simp
  have ss: "length ?s < 2 ^ 54" using short len by (intro text_short) simp
  have tl: "length ?s + 1 \<le> neoc_base58_check_encode_buffer_size (length bs)"
    using length_text_le [of ?p] len short by (simp add: neoc_base58_check_encode_buffer_size_def NEOC_BASE58_CHECKSUM_LENGTH_def)
  have ne: "?s \<noteq> []" using b58_bytes_text [of ?p] len by (auto simp: b58_bytes_def b58_digits_def be_val_def)
  have size_le: "neoc_base58_decode_buffer_size (Some ?s) \<le> neoc_base58_check_encode_buffer_size (length bs)"
    using decode_buffer_size_le(1) [OF ss] tl by simp
  then have A1: "A (neoc_base58_decode_buffer_size (Some ?s))" by (rule grantsD [OF assms(3)])
  have "length ?s * 733 div 1000 + 1 \<le> length ?s + 1" by simp
  also note tl
  finally have A2: "A (length ?s * 733 div 1000 + 1)" by (rule grantsD [OF assms(3)])
  have "\<not> neoc_base58_decode_buffer_size (Some ?s) < length ?p"
    using length_bytes_le [OF no_nul_text valid_text ne ss] by (simp add: b58_bytes_text)
  then have "neoc_base58_decode A (Some ?s) (neoc_base58_decode_buffer_size (Some ?s)) = Ok ?p"
    using A2 neoc_base58_decode_eq [OF no_nul_text [of ?p] ss, of A] valid_text [of ?p] by (simp add: b58_bytes_text)
  moreover have "neoc_base58_decode_buffer_size (Some ?s) \<noteq> 0"
    using decode_buffer_size_le(2) [OF ss] ne by simp
  ultimately show ?thesis
    using A1 assms(1-4) len by (simp add: neoc_base58_check_decode_def Let_def del: length_append)
qed

lemma check_encode_buffer:
  assumes "crypto_works C" and "grants A (neoc_base58_check_encode_buffer_size (length bs))"
    and "neoc_base58_check_encode_buffer_size (length bs) \<le> n" and short: "length bs < 2 ^ 52"
  obtains hash where "neoc_sha256_double C (Some bs) = Ok hash" and "length hash = 32"
    and "neoc_base58_check_encode C A (Some bs) n = Ok (b58_text (bs @ take 4 hash))"
    and "length (b58_text (bs @ take 4 hash)) < neoc_base58_check_encode_buffer_size (length bs)"
  using assms(1,2) short
proof (rule check_encode_Ok)
  fix hash
  assume h: "neoc_sha256_double C (Some bs) = Ok hash" "length hash = 32"
    "neoc_base58_check_encode C A (Some bs) (neoc_base58_check_encode_buffer_size (length bs)) = Ok (b58_text (bs @ take 4 hash))"
  let ?p = "bs @ take 4 hash"
  have "length ?p = length bs + 4" using h(2) by simp
  then have l: "length (b58_text ?p) < neoc_base58_check_encode_buffer_size (length bs)"
    using length_text_le [of ?p] short by (simp add: neoc_base58_check_encode_buffer_size_def NEOC_BASE58_CHECKSUM_LENGTH_def)
  have "?p \<noteq> []" using \<open>length ?p = length bs + 4\<close> by auto
  then have "neoc_base58_check_encode C A (Some bs) n = Ok (b58_text ?p)"
    using h l assms(3) short by (auto simp: neoc_base58_check_encode_def neoc_base58_encode_eq bind_r_Ok_iff split: if_splits)
  with h l show thesis by (intro that)
qed

text \<open>And so is Base58Check.\<close>

lemma check_decode_canonical:
  assumes "no_nul s" and "neoc_base58_check_decode C A (Some s) n = Ok bs"
  obtains hash where "neoc_sha256_double C (Some bs) = Ok hash" and "s = b58_text (bs @ take 4 hash)" and "length bs \<le> n"
    and "4 \<le> length (bs @ take 4 hash)"
proof -
  let ?t = "neoc_base58_decode_buffer_size (Some s)"
  from assms(2) obtain p hash where p: "neoc_base58_decode A (Some s) ?t = Ok p"
    "neoc_sha256_double C (Some (take (length p - 4) p)) = Ok hash"
    "drop (length p - 4) p = take 4 hash" "bs = take (length p - 4) p" "length p - 4 \<le> n" "4 \<le> length p"
    by (auto simp: neoc_base58_check_decode_def Let_def bind_r_Ok_iff split: if_splits)
  have q: "p = b58_bytes s" "list_all neoc_base58_is_valid_char s"
    using neoc_base58_decode_Ok [OF assms(1) p(1)] by simp_all
  have a: "p = bs @ take 4 hash" using p(3,4) by (metis append_take_drop_id)
  then have "s = b58_text (bs @ take 4 hash)" using b58_text_bytes [OF q(2) assms(1)] q(1) by simp
  moreover have "neoc_sha256_double C (Some bs) = Ok hash" using p(2) unfolding p(4) .
  moreover have "length bs \<le> n" using p(5) unfolding p(4) by simp
  moreover have "4 \<le> length (bs @ take 4 hash)" using p(6) unfolding a .
  ultimately show thesis by (intro that)
qed

lemma check_alloc_outcome:
  assumes "crypto_works C" and "grants A (neoc_base58_check_encode_buffer_size (length bs))"
    and short: "length bs < 2 ^ 52"
  shows "bind_r (neoc_base58_check_encode_alloc C A (Some bs)) (\<lambda>s. neoc_base58_check_decode_alloc C A (Some s))
    = (if length bs < 4 then Err NEOC_ERROR_INVALID_FORMAT else Ok bs)"
  using assms
proof (rule check_encode_Ok)
  fix hash
  let ?p = "bs @ take 4 hash"
  let ?s = "b58_text ?p"
  let ?t = "neoc_base58_decode_buffer_size (Some ?s)"
  assume h: "neoc_sha256_double C (Some bs) = Ok hash" "length hash = 32"
    "neoc_base58_check_encode C A (Some bs) (neoc_base58_check_encode_buffer_size (length bs)) = Ok ?s"
  have len: "length ?p = length bs + 4" using h(2) by simp
  then have ne: "?s \<noteq> []" using b58_bytes_text [of ?p] by (auto simp: b58_bytes_def b58_digits_def be_val_def)
  have ss: "length ?s < 2 ^ 54" using short len by (intro text_short) simp
  have "?t \<le> neoc_base58_check_encode_buffer_size (length bs)"
    using decode_buffer_size_le(1) [OF ss] length_text_le [of ?p] len short
    by (simp add: neoc_base58_check_encode_buffer_size_def NEOC_BASE58_CHECKSUM_LENGTH_def)
  then have "A ?t" by (rule grantsD [OF assms(2)])
  moreover have "?t \<noteq> 0" using decode_buffer_size_le(2) [OF ss] ne by simp
  moreover have "length bs \<le> ?t"
    using length_bytes_le [OF no_nul_text valid_text ne ss] len by (simp add: b58_bytes_text)
  then have "neoc_base58_check_decode C A (Some ?s) ?t = Ok bs"
    using check_decode_text [OF h(1,2) assms(2) _ short] by simp
  moreover have "A (neoc_base58_check_encode_buffer_size (length bs))" by (rule grantsD [OF assms(2)]) simp
  ultimately show ?thesis
    using h(3) by (simp add: neoc_base58_check_encode_alloc_def neoc_base58_check_decode_alloc_def Let_def
        NEOC_BASE58_CHECKSUM_LENGTH_def)
qed

lemma check_alloc_roundtrip:
  assumes "crypto_works C" and "grants A (neoc_base58_check_encode_buffer_size (length bs))" and "4 \<le> length bs"
    and short: "length bs < 2 ^ 52"
  obtains s where "neoc_base58_check_encode_alloc C A (Some bs) = Ok s"
    and "length s < neoc_base58_check_encode_buffer_size (length bs)"
    and "neoc_base58_check_decode_alloc C A (Some s) = Ok bs"
  using assms(1,2) short
proof (rule check_encode_Ok)
  fix hash
  let ?s = "b58_text (bs @ take 4 hash)"
  assume h: "length hash = 32"
    "neoc_base58_check_encode C A (Some bs) (neoc_base58_check_encode_buffer_size (length bs)) = Ok ?s"
  have "A (neoc_base58_check_encode_buffer_size (length bs))" by (rule grantsD [OF assms(2)]) simp
  then have enc: "neoc_base58_check_encode_alloc C A (Some bs) = Ok ?s"
    using h(2) by (simp add: neoc_base58_check_encode_alloc_def Let_def)
  moreover have "length ?s < neoc_base58_check_encode_buffer_size (length bs)"
    using length_text_le [of "bs @ take 4 hash"] h(1) short
    by (simp add: neoc_base58_check_encode_buffer_size_def NEOC_BASE58_CHECKSUM_LENGTH_def)
  moreover have "neoc_base58_check_decode_alloc C A (Some ?s) = Ok bs"
    using check_alloc_outcome [OF assms(1,2) short] assms(3) enc by simp
  ultimately show thesis by (rule that)
qed

subsection \<open>Properties\<close>

text \<open>C30. Base58 round trip: for every byte string of less than \<open>2 ^ 53\<close> bytes, encoding into a buffer of the announced size
  succeeds, and decoding into a buffer of the announced size returns the original bytes, leading zeros included.  In particular no
  conversion stores a digit outside its scratch buffer.  The bound is what the size arithmetic in \<^verbatim>\<open>size_t\<close> needs: the products with
  138 and with 733 wrap for lengths of about \<open>2 ^ 57\<close> and \<open>2 ^ 54\<close>.\<close>

theorem base58_roundtrip:
  assumes "length bs < 2 ^ 53"
  shows "bind_r (neoc_base58_encode (\<lambda>_. True) (Some bs) (neoc_base58_encode_buffer_size (length bs)))
     (\<lambda>s. neoc_base58_decode (\<lambda>_. True) (Some s) (neoc_base58_decode_buffer_size (Some s))) = Ok bs"
  using assms by (rule base58_codec.bind_roundtrip)

theorem base58_roundtrip_witness:
  "bind_r (neoc_base58_encode (\<lambda>_. True) (Some [0, 0, 255, 7]) (neoc_base58_encode_buffer_size (length [0, 0, 255, 7 :: byte])))
     (\<lambda>s. neoc_base58_decode (\<lambda>_. True) (Some s) (neoc_base58_decode_buffer_size (Some s))) = Ok [0, 0, 255, 7]"
  by (rule base58_roundtrip) simp

text \<open>The scratch buffers never overflow: whatever the bytes or the text, as long as they have less than \<open>2 ^ 56\<close> bytes and \<open>2 ^ 54\<close> characters, whatever the allocator and the
  size of the caller's buffer, neither direction faults.\<close>

theorem base58_memory_safe:
  assumes "no_nul s" and "length s < 2 ^ 54" and "length bs < 2 ^ 56"
  shows "neoc_base58_encode A (Some bs) n \<noteq> Fault \<and> neoc_base58_decode A (Some s) n \<noteq> Fault"
  using neoc_base58_encode_eq [of bs A n] neoc_base58_decode_eq [OF assms(1,2), of A n] assms(3)
  by (cases "bs = []") (simp_all add: neoc_base58_encode_def)

theorem base58_memory_safe_witness:
  "neoc_base58_encode (\<lambda>_. True) (Some [0, 255]) 9 \<noteq> Fault \<and> neoc_base58_decode (\<lambda>_. True) (Some ''1zz'') 9 \<noteq> Fault"
  by (rule base58_memory_safe) (simp_all add: no_nul_def)

text \<open>Base58Check round trip: with a working digest and an allocator that grants requests up to the
  announced text size, a payload encoded with its checksum and decoded again is unchanged, for
  every payload of less than \<open>2 ^ 52\<close> bytes.\<close>

theorem base58_check_roundtrip:
  assumes "crypto_works C" and "grants A (neoc_base58_check_encode_buffer_size (length bs))" and "length bs \<le> n"
    and "length bs < 2 ^ 52"
  shows "bind_r (neoc_base58_check_encode C A (Some bs) (neoc_base58_check_encode_buffer_size (length bs)))
    (\<lambda>s. neoc_base58_check_decode C A (Some s) n) = Ok bs"
  using assms(1,2,4)
proof (rule check_encode_Ok)
  fix hash
  assume "neoc_sha256_double C (Some bs) = Ok hash" "length hash = 32"
    "neoc_base58_check_encode C A (Some bs) (neoc_base58_check_encode_buffer_size (length bs))
       = Ok (b58_text (bs @ take 4 hash))"
  then show ?thesis using check_decode_text assms(2-4) by simp
qed

theorem base58_check_roundtrip_witness:
  "bind_r (neoc_base58_check_encode toy_crypto (\<lambda>_. True) (Some [0, 7]) (neoc_base58_check_encode_buffer_size (length [0, 7 :: byte])))
    (\<lambda>s. neoc_base58_check_decode toy_crypto (\<lambda>_. True) (Some s) 2) = Ok [0, 7]"
  by (rule base58_check_roundtrip [OF toy_crypto_works]) simp_all

text \<open>The checksum is enforced and texts are canonical: a text is accepted with payload \<open>bs\<close> only when it is the Base58 text
  of \<open>bs\<close> followed by the first four bytes of the double digest of \<open>bs\<close>, which is the text the encoder makes.  So no two texts have
  the same payload.\<close>

theorem base58_check_decode_sound:
  assumes "no_nul s" and "neoc_base58_check_decode C A (Some s) n = Ok bs" and "length bs < 2 ^ 52"
  shows "\<exists>hash. neoc_sha256_double C (Some bs) = Ok hash \<and> s = b58_text (bs @ take 4 hash) \<and> length bs \<le> n
    \<and> neoc_base58_check_encode C (\<lambda>_. True) (Some bs) (length s + 1) = Ok s"
  using assms(1,2)
proof (rule check_decode_canonical)
  fix hash
  assume h: "neoc_sha256_double C (Some bs) = Ok hash" "s = b58_text (bs @ take 4 hash)" "length bs \<le> n" "4 \<le> length (bs @ take 4 hash)"
  then have "bs @ take 4 hash \<noteq> []" by auto
  moreover have "length (bs @ take 4 hash) < 2 ^ 56" using assms(3) by simp
  ultimately show ?thesis using h by (simp add: neoc_base58_check_encode_def neoc_base58_encode_eq)
qed

theorem base58_check_decode_sound_witness:
  "\<exists>hash. neoc_sha256_double toy_crypto (Some [7]) = Ok hash \<and> b58_text [7, 32, 32, 32, 32] = b58_text ([7] @ take 4 hash)
     \<and> neoc_base58_check_encode toy_crypto (\<lambda>_. True) (Some [7]) (length (b58_text [7, 32, 32, 32, 32]) + 1) = Ok (b58_text [7, 32, 32, 32, 32])"
proof -
  have h: "neoc_sha256_double toy_crypto (Some [7]) = Ok (replicate 32 32)"
    by (simp add: neoc_sha256_double_def neoc_sha256_def digest_calls_def toy_crypto_def)
  have "neoc_base58_check_decode toy_crypto (\<lambda>_. True) (Some (b58_text ([7] @ take 4 (replicate 32 32)))) 1 = Ok [7]"
    by (rule check_decode_text [OF h]) simp_all
  moreover have "take 4 (replicate 32 (32 :: byte)) = [32, 32, 32, 32]" by (simp add: numeral_eq_Suc)
  ultimately show ?thesis
    using base58_check_decode_sound [OF no_nul_text, of toy_crypto "\<lambda>_. True" "[7] @ [32, 32, 32, 32]" 1 "[7]"]
    by auto
qed

text \<open>The allocating decoder refuses what the allocating encoder produced for a payload shorter than
  the checksum: it compares the length of the payload, from which the checksum is already gone,
  with the checksum length.\<close>

theorem base58_check_alloc_rejects_short:
  assumes "crypto_works C" and "grants A (neoc_base58_check_encode_buffer_size (length bs))" and "length bs < 2 ^ 52"
  shows "bind_r (neoc_base58_check_encode_alloc C A (Some bs)) (\<lambda>s. neoc_base58_check_decode_alloc C A (Some s))
    = (if length bs < 4 then Err NEOC_ERROR_INVALID_FORMAT else Ok bs)"
  using assms by (rule check_alloc_outcome)

theorem base58_check_alloc_rejects_short_witness:
  "bind_r (neoc_base58_check_encode_alloc toy_crypto (\<lambda>_. True) (Some [1, 2, 3]))
     (\<lambda>s. neoc_base58_check_decode_alloc toy_crypto (\<lambda>_. True) (Some s)) = Err NEOC_ERROR_INVALID_FORMAT"
  using base58_check_alloc_rejects_short [OF toy_crypto_works, of "\<lambda>_. True" "[1, 2, 3]"] by simp

end
