(* ===== verification/Hash_Types.thy ===== *)
theory Hash_Types
  imports Base58 Hex Codec
begin

text \<open>
  \<^verbatim>\<open>src/types/neoc_hash160.c\<close> and \<^verbatim>\<open>src/types/neoc_hash256.c\<close>: the 20-byte script hash and the 32-byte hash.  The C
  structs hold one byte array; a hash is that array, a list of 20 or 32 bytes.  The two
  functions that hash public keys are in the theory of the script helpers they call.
\<close>

type_synonym neoc_hash160 = "byte list"
type_synonym neoc_hash256 = "byte list"

definition NEOC_HASH160_SIZE :: nat where "NEOC_HASH160_SIZE = 20"
definition NEOC_HASH256_SIZE :: nat where "NEOC_HASH256_SIZE = 32"
definition NEOC_ADDRESS_VERSION :: byte where "NEOC_ADDRESS_VERSION = 0x35"

lemmas hash_sizes = NEOC_HASH160_SIZE_def NEOC_HASH256_SIZE_def

subsection \<open>Shared helpers\<close>

definition skip_hex_prefix :: "string \<Rightarrow> string" where
  "skip_hex_prefix hex =
     (if 2 \<le> length hex \<and> hex ! 0 = CHR ''0'' \<and> (hex ! 1 = CHR ''x'' \<or> hex ! 1 = CHR ''X'')
      then drop 2 hex else hex)"

text \<open>The static function of both files, with the expected number of bytes.\<close>

definition decode_exact_hex :: "string option \<Rightarrow> nat \<Rightarrow> byte list result" where
  "decode_exact_hex hex_string expected_bytes =
     (case hex_string of
        None \<Rightarrow> Err NEOC_ERROR_NULL_POINTER
      | Some s \<Rightarrow>
          let digits = skip_hex_prefix s;
              digits_len = length digits;
              required_chars = expected_bytes * 2;
              odd_length = (digits_len mod 2 \<noteq> 0);
              padded_len = digits_len + (if odd_length then 1 else 0)
          in
          if digits_len = 0 then Err NEOC_ERROR_INVALID_ARGUMENT
          else if \<not> list_all neoc_hex_is_valid_char digits then Err NEOC_ERROR_INVALID_HEX
          else if required_chars < padded_len then Err NEOC_ERROR_BUFFER_TOO_SMALL
          else if padded_len < required_chars then Err NEOC_ERROR_INVALID_ARGUMENT
          else
            let normalized = (if odd_length then CHR ''0'' # digits else digits) in
            (case neoc_hex_decode (Some normalized) expected_bytes of
               Err e \<Rightarrow> if e = NEOC_ERROR_INVALID_FORMAT then Err NEOC_ERROR_INVALID_HEX else Err e
             | Fault \<Rightarrow> Fault
             | Ok output \<Rightarrow>
                 if length output \<noteq> expected_bytes then
                   (if length output < expected_bytes then Err NEOC_ERROR_INVALID_ARGUMENT
                    else Err NEOC_ERROR_BUFFER_TOO_SMALL)
                 else Ok output))"

text \<open>\<^verbatim>\<open>memcmp\<close> on two arrays of the same length: only the sign is defined.\<close>

fun memcmp_c :: "byte list \<Rightarrow> byte list \<Rightarrow> int" where
  "memcmp_c (x # xs) (y # ys) = (if x < y then - 1 else if y < x then 1 else memcmp_c xs ys)"
| "memcmp_c _ _ = 0"

definition compare_pointers :: "byte list option \<Rightarrow> byte list option \<Rightarrow> int" where
  "compare_pointers a b =
     (case (a, b) of
        (Some x, Some y) \<Rightarrow> memcmp_c x y
      | (None, None) \<Rightarrow> 0 | (Some _, None) \<Rightarrow> 1 | (None, Some _) \<Rightarrow> - 1)"

subsection \<open>Hash160\<close>

definition neoc_hash160_init_zero :: "neoc_hash160 result" where
  "neoc_hash160_init_zero = Ok (replicate NEOC_HASH160_SIZE 0)"

definition neoc_hash160_from_bytes :: "byte list option \<Rightarrow> neoc_hash160 result" where
  "neoc_hash160_from_bytes data =
     (case data of
        None \<Rightarrow> Err NEOC_ERROR_NULL_POINTER
      | Some bs \<Rightarrow> if length bs < NEOC_HASH160_SIZE then Fault else Ok (take NEOC_HASH160_SIZE bs))"

definition neoc_hash160_from_data :: "byte list option \<Rightarrow> neoc_hash160 result" where
  "neoc_hash160_from_data data =
     (case data of
        None \<Rightarrow> Err NEOC_ERROR_NULL_POINTER
      | Some bs \<Rightarrow> if length bs \<noteq> NEOC_HASH160_SIZE then Err NEOC_ERROR_INVALID_ARGUMENT else Ok bs)"

definition neoc_hash160_from_hex :: "string option \<Rightarrow> neoc_hash160 result" where
  "neoc_hash160_from_hex hex_string = decode_exact_hex hex_string NEOC_HASH160_SIZE"

definition neoc_hash160_from_address :: "crypto \<Rightarrow> allocator \<Rightarrow> string option \<Rightarrow> neoc_hash160 result" where
  "neoc_hash160_from_address C A address =
     (case address of
        None \<Rightarrow> Err NEOC_ERROR_NULL_POINTER
      | Some s \<Rightarrow>
          (case neoc_base58_check_decode_alloc C A (Some s) of
             Err _ \<Rightarrow> Err NEOC_ERROR_INVALID_BASE58
           | Fault \<Rightarrow> Fault
           | Ok decoded \<Rightarrow>
               if length decoded \<noteq> 1 + NEOC_HASH160_SIZE then Err NEOC_ERROR_INVALID_FORMAT
               else if decoded ! 0 \<noteq> NEOC_ADDRESS_VERSION then Err NEOC_ERROR_INVALID_FORMAT
               else Ok (map (\<lambda>i. decoded ! (1 + NEOC_HASH160_SIZE - 1 - i)) [0..<NEOC_HASH160_SIZE])))"

definition neoc_hash160_from_script :: "crypto \<Rightarrow> byte list option \<Rightarrow> neoc_hash160 result" where
  "neoc_hash160_from_script C script =
     (case script of
        None \<Rightarrow> Err NEOC_ERROR_NULL_POINTER
      | Some bs \<Rightarrow>
          bind_r (neoc_hash160 C (Some bs)) (\<lambda>hash_result.
            Ok (map (\<lambda>i. hash_result ! (NEOC_HASH160_SIZE - 1 - i)) [0..<NEOC_HASH160_SIZE])))"

definition neoc_hash160_from_script_hex :: "crypto \<Rightarrow> allocator \<Rightarrow> string option \<Rightarrow> neoc_hash160 result" where
  "neoc_hash160_from_script_hex C A script_hex =
     (case script_hex of
        None \<Rightarrow> Err NEOC_ERROR_NULL_POINTER
      | Some s \<Rightarrow>
          (case neoc_hex_decode_alloc A (Some s) of
             Err _ \<Rightarrow> Err NEOC_ERROR_INVALID_HEX
           | Fault \<Rightarrow> Fault
           | Ok script \<Rightarrow> neoc_hash160_from_script C (Some script)))"

definition neoc_hash160_copy :: "neoc_hash160 option \<Rightarrow> neoc_hash160 result" where
  "neoc_hash160_copy src = (case src of None \<Rightarrow> Err NEOC_ERROR_NULL_POINTER | Some h \<Rightarrow> Ok h)"

definition neoc_hash160_to_bytes :: "neoc_hash160 option \<Rightarrow> nat \<Rightarrow> byte list result" where
  "neoc_hash160_to_bytes hash buffer_size =
     (case hash of
        None \<Rightarrow> Err NEOC_ERROR_NULL_POINTER
      | Some h \<Rightarrow> if buffer_size < NEOC_HASH160_SIZE then Err NEOC_ERROR_BUFFER_TOO_SMALL else Ok h)"

definition neoc_hash160_to_little_endian_bytes :: "neoc_hash160 option \<Rightarrow> nat \<Rightarrow> byte list result" where
  "neoc_hash160_to_little_endian_bytes hash buffer_size =
     (case hash of
        None \<Rightarrow> Err NEOC_ERROR_NULL_POINTER
      | Some h \<Rightarrow>
          if buffer_size < NEOC_HASH160_SIZE then Err NEOC_ERROR_BUFFER_TOO_SMALL
          else Ok (map (\<lambda>i. h ! (NEOC_HASH160_SIZE - 1 - i)) [0..<NEOC_HASH160_SIZE]))"

definition neoc_hash160_to_hex :: "neoc_hash160 option \<Rightarrow> nat \<Rightarrow> bool \<Rightarrow> string result" where
  "neoc_hash160_to_hex hash buffer_size uppercase =
     (case hash of
        None \<Rightarrow> Err NEOC_ERROR_NULL_POINTER
      | Some h \<Rightarrow>
          if buffer_size < neoc_hex_encode_buffer_size NEOC_HASH160_SIZE False
          then Err NEOC_ERROR_BUFFER_TOO_SMALL
          else neoc_hex_encode (Some h) buffer_size uppercase False)"

definition neoc_hash160_to_address :: "crypto \<Rightarrow> allocator \<Rightarrow> neoc_hash160 option \<Rightarrow> nat \<Rightarrow> string result" where
  "neoc_hash160_to_address C A hash buffer_size =
     (case hash of
        None \<Rightarrow> Err NEOC_ERROR_NULL_POINTER
      | Some h \<Rightarrow>
          let versioned = NEOC_ADDRESS_VERSION
                # map (\<lambda>i. h ! (NEOC_HASH160_SIZE - 1 - i)) [0..<NEOC_HASH160_SIZE]
          in (case neoc_base58_check_encode_alloc C A (Some versioned) of
                Err _ \<Rightarrow> Err NEOC_ERROR_INVALID_FORMAT
              | Fault \<Rightarrow> Fault
              | Ok address \<Rightarrow>
                  if buffer_size \<le> length address then Err NEOC_ERROR_BUFFER_TOO_SMALL else Ok address))"

definition neoc_hash160_compare :: "neoc_hash160 option \<Rightarrow> neoc_hash160 option \<Rightarrow> int" where
  "neoc_hash160_compare a b = compare_pointers a b"

definition neoc_hash160_equal :: "neoc_hash160 option \<Rightarrow> neoc_hash160 option \<Rightarrow> bool" where
  "neoc_hash160_equal a b \<longleftrightarrow> neoc_hash160_compare a b = 0"

definition neoc_hash160_is_zero :: "neoc_hash160 option \<Rightarrow> bool" where
  "neoc_hash160_is_zero hash =
     (case hash of None \<Rightarrow> False | Some h \<Rightarrow> neoc_hash160_equal (Some h) (Some (replicate NEOC_HASH160_SIZE 0)))"

definition neoc_hash160_serialize :: "allocator \<Rightarrow> neoc_hash160 \<Rightarrow> (neoc_binary_writer, unit) cmd" where
  "neoc_hash160_serialize A hash = neoc_binary_writer_write_bytes A (Some hash) (of_nat NEOC_HASH160_SIZE)"

definition neoc_hash160_deserialize :: "(neoc_binary_reader, neoc_hash160) cmd" where
  "neoc_hash160_deserialize = neoc_binary_reader_read_bytes (of_nat NEOC_HASH160_SIZE)"

definition neoc_hash160_serialized_size :: nat where
  "neoc_hash160_serialized_size = NEOC_HASH160_SIZE"

definition neoc_hash160_from_string :: "string option \<Rightarrow> neoc_hash160 result" where
  "neoc_hash160_from_string str =
     (case str of
        None \<Rightarrow> Err NEOC_ERROR_NULL_POINTER
      | Some s \<Rightarrow>
          let hex_str = skip_hex_prefix s in
          if length hex_str \<noteq> 40 then Err NEOC_ERROR_INVALID_ARGUMENT
          else neoc_hash160_from_hex (Some hex_str))"

definition neoc_hash160_to_string :: "neoc_hash160 option \<Rightarrow> nat \<Rightarrow> string result" where
  "neoc_hash160_to_string hash buffer_size = neoc_hash160_to_hex hash buffer_size False"

subsection \<open>Hash256\<close>

definition neoc_hash256_init_zero :: "neoc_hash256 result" where
  "neoc_hash256_init_zero = Ok (replicate NEOC_HASH256_SIZE 0)"

definition neoc_hash256_from_bytes :: "byte list option \<Rightarrow> neoc_hash256 result" where
  "neoc_hash256_from_bytes data =
     (case data of
        None \<Rightarrow> Err NEOC_ERROR_NULL_POINTER
      | Some bs \<Rightarrow> if length bs < NEOC_HASH256_SIZE then Fault else Ok (take NEOC_HASH256_SIZE bs))"

definition neoc_hash256_from_data :: "byte list option \<Rightarrow> neoc_hash256 result" where
  "neoc_hash256_from_data data =
     (case data of
        None \<Rightarrow> Err NEOC_ERROR_NULL_POINTER
      | Some bs \<Rightarrow> if length bs \<noteq> NEOC_HASH256_SIZE then Err NEOC_ERROR_INVALID_ARGUMENT else Ok bs)"

definition neoc_hash256_from_hex :: "string option \<Rightarrow> neoc_hash256 result" where
  "neoc_hash256_from_hex hex_string = decode_exact_hex hex_string NEOC_HASH256_SIZE"

definition neoc_hash256_from_data_hash :: "crypto \<Rightarrow> byte list option \<Rightarrow> neoc_hash256 result" where
  "neoc_hash256_from_data_hash C data =
     (case data of None \<Rightarrow> Err NEOC_ERROR_NULL_POINTER | Some bs \<Rightarrow> neoc_hash256 C (Some bs))"

definition neoc_hash256_from_data_double_hash :: "crypto \<Rightarrow> byte list option \<Rightarrow> neoc_hash256 result" where
  "neoc_hash256_from_data_double_hash C data =
     (case data of None \<Rightarrow> Err NEOC_ERROR_NULL_POINTER | Some bs \<Rightarrow> neoc_sha256_double C (Some bs))"

definition neoc_hash256_copy :: "neoc_hash256 option \<Rightarrow> neoc_hash256 result" where
  "neoc_hash256_copy src = (case src of None \<Rightarrow> Err NEOC_ERROR_NULL_POINTER | Some h \<Rightarrow> Ok h)"

definition neoc_hash256_to_bytes :: "neoc_hash256 option \<Rightarrow> nat \<Rightarrow> byte list result" where
  "neoc_hash256_to_bytes hash buffer_size =
     (case hash of
        None \<Rightarrow> Err NEOC_ERROR_NULL_POINTER
      | Some h \<Rightarrow> if buffer_size < NEOC_HASH256_SIZE then Err NEOC_ERROR_BUFFER_TOO_SMALL else Ok h)"

definition neoc_hash256_to_little_endian_bytes :: "neoc_hash256 option \<Rightarrow> nat \<Rightarrow> byte list result" where
  "neoc_hash256_to_little_endian_bytes hash buffer_size =
     (case hash of
        None \<Rightarrow> Err NEOC_ERROR_NULL_POINTER
      | Some h \<Rightarrow>
          if buffer_size < NEOC_HASH256_SIZE then Err NEOC_ERROR_BUFFER_TOO_SMALL
          else Ok (map (\<lambda>i. h ! (NEOC_HASH256_SIZE - 1 - i)) [0..<NEOC_HASH256_SIZE]))"

definition neoc_hash256_to_hex :: "neoc_hash256 option \<Rightarrow> nat \<Rightarrow> bool \<Rightarrow> string result" where
  "neoc_hash256_to_hex hash buffer_size uppercase =
     (case hash of
        None \<Rightarrow> Err NEOC_ERROR_NULL_POINTER
      | Some h \<Rightarrow>
          if buffer_size < neoc_hex_encode_buffer_size NEOC_HASH256_SIZE False
          then Err NEOC_ERROR_BUFFER_TOO_SMALL
          else neoc_hex_encode (Some h) buffer_size uppercase False)"

definition neoc_hash256_compare :: "neoc_hash256 option \<Rightarrow> neoc_hash256 option \<Rightarrow> int" where
  "neoc_hash256_compare a b = compare_pointers a b"

definition neoc_hash256_equal :: "neoc_hash256 option \<Rightarrow> neoc_hash256 option \<Rightarrow> bool" where
  "neoc_hash256_equal a b \<longleftrightarrow> neoc_hash256_compare a b = 0"

definition neoc_hash256_is_zero :: "neoc_hash256 option \<Rightarrow> bool" where
  "neoc_hash256_is_zero hash =
     (case hash of None \<Rightarrow> False | Some h \<Rightarrow> neoc_hash256_equal (Some h) (Some (replicate NEOC_HASH256_SIZE 0)))"

definition neoc_hash256_serialize :: "allocator \<Rightarrow> neoc_hash256 \<Rightarrow> (neoc_binary_writer, unit) cmd" where
  "neoc_hash256_serialize A hash = neoc_binary_writer_write_bytes A (Some hash) (of_nat NEOC_HASH256_SIZE)"

definition neoc_hash256_deserialize :: "(neoc_binary_reader, neoc_hash256) cmd" where
  "neoc_hash256_deserialize = neoc_binary_reader_read_bytes (of_nat NEOC_HASH256_SIZE)"

definition neoc_hash256_serialized_size :: nat where
  "neoc_hash256_serialized_size = NEOC_HASH256_SIZE"

definition neoc_hash256_from_string :: "string option \<Rightarrow> neoc_hash256 result" where
  "neoc_hash256_from_string str =
     (case str of
        None \<Rightarrow> Err NEOC_ERROR_NULL_POINTER
      | Some s \<Rightarrow>
          let hex_str = skip_hex_prefix s in
          if length hex_str \<noteq> 64 then Err NEOC_ERROR_INVALID_ARGUMENT
          else neoc_hash256_from_hex (Some hex_str))"

definition neoc_hash256_to_string :: "neoc_hash256 option \<Rightarrow> nat \<Rightarrow> string result" where
  "neoc_hash256_to_string hash buffer_size =
     (case hash of
        None \<Rightarrow> Err NEOC_ERROR_NULL_POINTER
      | Some h \<Rightarrow>
          if buffer_size < 65 then Err NEOC_ERROR_BUFFER_TOO_SMALL
          else neoc_hash256_to_hex (Some h) buffer_size False)"

subsection \<open>Lemmas\<close>

lemma map_rev_index: "length xs = n \<Longrightarrow> map (\<lambda>i. xs ! (n - 1 - i)) [0..<n] = rev xs"
  by (rule nth_equalityI) (auto simp: rev_nth)

lemma map_rev_index_tail: "length xs = 1 + n \<Longrightarrow> map (\<lambda>i. xs ! (1 + n - 1 - i)) [0..<n] = rev (tl xs)"
  by (cases xs) (auto intro!: nth_equalityI simp: rev_nth nth_Cons' Suc_diff_Suc)

lemma skip_hex_prefix_eq: "skip_hex_prefix s = neoc_hex_skip_prefix s"
  by (simp add: skip_hex_prefix_def neoc_hex_skip_prefix_def has_hex_prefix_def)

lemma decode_exact_hex_encoded:
  assumes "length h = n" and "0 < n"
  shows "decode_exact_hex (Some (concat (map (sprintf_02x u) h))) n = Ok h"
proof -
  obtain b bs where "h = b # bs" using assms by (cases h) auto
  then have "concat (map (sprintf_02x u) h) \<noteq> []" by (simp add: sprintf_02x_def)
  then show ?thesis
    using assms encoded_valid [of u h] decode_pairs_encoded [of u h]
    by (simp add: decode_exact_hex_def Let_def skip_hex_prefix_eq neoc_hex_decode_def del: concat_eq_Nil_conv)
qed

lemma decode_exact_hex_Ok_iff:
  assumes "0 < n"
  shows "(\<exists>h. decode_exact_hex (Some s) n = Ok h)
    \<longleftrightarrow> list_all neoc_hex_is_valid_char (skip_hex_prefix s) \<and> length (skip_hex_prefix s) \<in> {2 * n - 1, 2 * n}"
proof (cases "list_all neoc_hex_is_valid_char (skip_hex_prefix s) \<and> length (skip_hex_prefix s) \<in> {2 * n - 1, 2 * n}")
  case True
  let ?d = "skip_hex_prefix s"
  define t where "t = (if length ?d mod 2 \<noteq> 0 then CHR ''0'' # ?d else ?d)"
  have valid: "list_all neoc_hex_is_valid_char t"
    using True by (simp add: t_def neoc_hex_is_valid_char_def)
  have len: "length t = 2 * n" using True assms by (auto simp: t_def)
  from decode_pairs_encode [of t True] valid len obtain h
    where h: "hex_decode_pairs t = Ok h" "length h = n" by (auto dest: arg_cong [of _ _ length])
  have "neoc_hex_decode (Some t) n = Ok h"
    using valid len h(1) by (simp add: neoc_hex_decode_def)
  moreover have "length ?d + (if length ?d mod 2 \<noteq> 0 then 1 else 0) = 2 * n" using len by (simp add: t_def split: if_splits)
  moreover have "?d \<noteq> []" using True assms by auto
  ultimately show ?thesis
    using True h(2)
    by (cases "length ?d mod 2 = 0") (simp_all add: decode_exact_hex_def Let_def mult.commute t_def)
next
  case False
  then show ?thesis
    using assms by (auto simp: decode_exact_hex_def Let_def split: if_splits)
qed

lemma memcmp_zero_iff: "length xs = length ys \<Longrightarrow> memcmp_c xs ys = 0 \<longleftrightarrow> xs = ys"
  by (induction xs ys rule: memcmp_c.induct) (auto simp: not_less_iff_gr_or_eq)

lemma memcmp_antisym: "memcmp_c xs ys = - memcmp_c ys xs"
  by (induction xs ys rule: memcmp_c.induct) auto

interpretation hash160_codec: codec neoc_hash160_serialize "\<lambda>_. neoc_hash160_deserialize" "\<lambda>h. h" "\<lambda>h. h"
  "\<lambda>h. length h = 20"
proof
  fix h :: neoc_hash160 and A
  assume "length h = 20"
  then show "writes A (neoc_hash160_serialize A h) h"
    using writes_write_bytes [of h A] by (simp add: neoc_hash160_serialize_def hash_sizes)
  from \<open>length h = 20\<close> show "reads neoc_hash160_deserialize h h"
    unfolding neoc_hash160_deserialize_def by (intro reads_read_bytes) (simp_all add: hash_sizes)
qed

interpretation hash256_codec: codec neoc_hash256_serialize "\<lambda>_. neoc_hash256_deserialize" "\<lambda>h. h" "\<lambda>h. h"
  "\<lambda>h. length h = 32"
proof
  fix h :: neoc_hash256 and A
  assume "length h = 32"
  then show "writes A (neoc_hash256_serialize A h) h"
    using writes_write_bytes [of h A] by (simp add: neoc_hash256_serialize_def hash_sizes)
  from \<open>length h = 32\<close> show "reads neoc_hash256_deserialize h h"
    unfolding neoc_hash256_deserialize_def by (intro reads_read_bytes) (simp_all add: hash_sizes)
qed

lemma to_address_Ok:
  assumes "crypto_works C" and "grants A (neoc_base58_check_encode_buffer_size 21)" and "length h = 20" and "36 \<le> n"
  obtains s where "neoc_hash160_to_address C A (Some h) n = Ok s" and "neoc_hash160_from_address C A (Some s) = Ok h" and "length s < 36"
proof -
  let ?v = "NEOC_ADDRESS_VERSION # rev h"
  have "grants A (neoc_base58_check_encode_buffer_size (length ?v))" using assms(2,3) by simp
  then obtain s where s: "neoc_base58_check_encode_alloc C A (Some ?v) = Ok s"
    "length s < neoc_base58_check_encode_buffer_size (length ?v)" "neoc_base58_check_decode_alloc C A (Some s) = Ok ?v"
    by (rule check_alloc_roundtrip [OF assms(1)]) (use assms(3) in simp_all)
  moreover have n: "neoc_base58_check_encode_buffer_size (length ?v) = 36"
    using assms(3) by (simp add: neoc_base58_check_encode_buffer_size_def neoc_base58_encode_buffer_size_def
        NEOC_BASE58_CHECKSUM_LENGTH_def)
  ultimately have "neoc_hash160_to_address C A (Some h) n = Ok s"
    using assms(3,4) map_rev_index [of h 20] by (simp add: neoc_hash160_to_address_def hash_sizes)
  moreover have "neoc_hash160_from_address C A (Some s) = Ok h"
    using s(3) assms(3) map_rev_index_tail [of ?v 20] by (simp add: neoc_hash160_from_address_def hash_sizes)
  ultimately show thesis using s(2) n by (intro that) simp_all
qed

lemma from_script_works:
  assumes "crypto_works C"
  obtains h where "neoc_hash160_from_script C (Some bs) = Ok h" and "length h = 20"
  using hash160_works [OF assms, of bs] that by (auto simp: neoc_hash160_from_script_def hash_sizes)

subsection \<open>Properties\<close>

text \<open>C31. A script hash survives its address: with a working digest, an address made from a 20-byte hash
  (into a buffer of at least 36 bytes) is accepted and yields the same hash.\<close>

theorem hash160_address_roundtrip:
  assumes "crypto_works C" and "grants A (neoc_base58_check_encode_buffer_size 21)" and "length h = 20" and "36 \<le> n"
  shows "bind_r (neoc_hash160_to_address C A (Some h) n) (\<lambda>s. neoc_hash160_from_address C A (Some s)) = Ok h"
  using assms by (rule to_address_Ok) simp

theorem hash160_address_roundtrip_witness:
  "bind_r (neoc_hash160_to_address toy_crypto (\<lambda>_. True) (Some (replicate 20 9)) 64)
     (\<lambda>s. neoc_hash160_from_address toy_crypto (\<lambda>_. True) (Some s)) = Ok (replicate 20 9)"
  by (rule hash160_address_roundtrip [OF toy_crypto_works]) simp_all

text \<open>A hash survives its hexadecimal text, with and without going through the string functions.\<close>

theorem hash_hex_roundtrip:
  assumes "length h = 20" and "length k = 32"
  shows "bind_r (neoc_hash160_to_hex (Some h) 41 u) (\<lambda>s. neoc_hash160_from_hex (Some s)) = Ok h
    \<and> bind_r (neoc_hash160_to_string (Some h) 41) (\<lambda>s. neoc_hash160_from_string (Some s)) = Ok h
    \<and> bind_r (neoc_hash256_to_hex (Some k) 65 u) (\<lambda>s. neoc_hash256_from_hex (Some s)) = Ok k
    \<and> bind_r (neoc_hash256_to_string (Some k) 65) (\<lambda>s. neoc_hash256_from_string (Some s)) = Ok k"
proof -
  have enc: "neoc_hex_encode (Some x) (2 * length x + 1) v False = Ok (concat (map (sprintf_02x v) x))" for x v
    using hex_encode_Ok [of x False v] by (simp add: neoc_hex_encode_buffer_size_def mult.commute)
  have skip: "skip_hex_prefix (concat (map (sprintf_02x v) x)) = concat (map (sprintf_02x v) x)" for v x
    using encoded_valid [of v x] by (simp add: skip_hex_prefix_eq)
  show ?thesis
    using assms enc [of h] enc [of k] decode_exact_hex_encoded [of h 20] decode_exact_hex_encoded [of k 32]
    by (simp add: neoc_hash160_to_hex_def neoc_hash160_from_hex_def neoc_hash160_to_string_def
        neoc_hash160_from_string_def neoc_hash256_to_hex_def neoc_hash256_from_hex_def neoc_hash256_to_string_def
        neoc_hash256_from_string_def hash_sizes neoc_hex_encode_buffer_size_def skip Let_def)
qed

theorem hash_hex_roundtrip_witness:
  "bind_r (neoc_hash160_to_hex (Some (replicate 20 7)) 41 True) (\<lambda>s. neoc_hash160_from_hex (Some s)) = Ok (replicate 20 7)"
  using hash_hex_roundtrip [of "replicate 20 7" "replicate 32 0" True] by simp

text \<open>Which texts \<^verbatim>\<open>neoc_hash160_from_hex\<close> accepts: 40 hexadecimal digits after an optional prefix, and
  also 39, the missing first digit being taken as zero.\<close>

theorem hash160_from_hex_accepts:
  "(\<exists>h. neoc_hash160_from_hex (Some s) = Ok h)
   \<longleftrightarrow> list_all neoc_hex_is_valid_char (skip_hex_prefix s) \<and> length (skip_hex_prefix s) \<in> {39, 40}"
  using decode_exact_hex_Ok_iff [of 20 s] by (simp add: neoc_hash160_from_hex_def hash_sizes)

text \<open>\<^verbatim>\<open>neoc_hash160_compare\<close> is an order on hashes: it is zero exactly on equal ones (null pointers
  included), and swapping the arguments changes the sign.\<close>

theorem hash160_compare_order:
  assumes "\<forall>h \<in> set_option a \<union> set_option b. length h = 20"
  shows "(neoc_hash160_compare a b = 0 \<longleftrightarrow> a = b) \<and> neoc_hash160_compare a b = - neoc_hash160_compare b a"
proof (cases a; cases b)
  fix x y
  assume "a = Some x" "b = Some y"
  then show ?thesis
    using assms memcmp_antisym [of x y] memcmp_zero_iff [of x y]
    by (simp add: neoc_hash160_compare_def compare_pointers_def)
qed (simp_all add: neoc_hash160_compare_def compare_pointers_def)

theorem hash160_compare_order_witness:
  "neoc_hash160_compare (Some (replicate 20 1)) (Some (replicate 20 2))
   = - neoc_hash160_compare (Some (replicate 20 2)) (Some (replicate 20 1))"
  using hash160_compare_order [of "Some (replicate 20 1)" "Some (replicate 20 2)"] by simp

end
