(* ===== verification/Script_Builder.thy ===== *)
theory Script_Builder
  imports Opcode Interop_Service Hash_Types
begin

text \<open>
  \<^verbatim>\<open>src/script/script_builder.c\<close> and \<^verbatim>\<open>src/script/script_builder_full.c\<close>: scripts for the virtual machine.  A
  builder holds one growing writer, so its state is that writer.  \<open>C\<close> is the cryptographic
  library and \<open>T\<close> the table of system calls at the time of the call; filling the table
  again from the same library does not change it (\<open>get_hash_keeps_ok\<close>), so one \<open>T\<close> serves a
  whole script.
\<close>

type_synonym neoc_script_builder = neoc_binary_writer

subsection \<open>\<^verbatim>\<open>script_builder.c\<close>\<close>

definition sizeof_script_builder :: nat where "sizeof_script_builder = 8"

definition neoc_script_builder_create :: "allocator \<Rightarrow> neoc_script_builder result" where
  "neoc_script_builder_create A =
     bind_r (malloc_r A sizeof_script_builder) (\<lambda>_. neoc_binary_writer_create A 256 True)"

definition neoc_script_builder_emit :: "allocator \<Rightarrow> neoc_opcode \<Rightarrow> (neoc_script_builder, unit) cmd" where
  "neoc_script_builder_emit A opcode = neoc_binary_writer_write_byte A opcode"

definition neoc_script_builder_emit_with_data ::
  "allocator \<Rightarrow> neoc_opcode \<Rightarrow> byte list option \<Rightarrow> size_t \<Rightarrow> (neoc_script_builder, unit) cmd" where
  "neoc_script_builder_emit_with_data A opcode data data_len =
     then_c (neoc_binary_writer_write_byte A opcode)
       (if data \<noteq> None \<and> 0 < data_len then neoc_binary_writer_write_bytes A data data_len else return_c ())"

definition neoc_script_builder_emit_syscall ::
  "allocator \<Rightarrow> crypto \<Rightarrow> interop_table \<Rightarrow> neoc_interop_service \<Rightarrow> (neoc_script_builder, unit) cmd" where
  "neoc_script_builder_emit_syscall A C T service =
     then_c (neoc_binary_writer_write_byte A NEOC_OP_SYSCALL)
       (neoc_binary_writer_write_uint32 A (fst (neoc_interop_get_hash C service T)))"

definition neoc_script_builder_push_integer :: "allocator \<Rightarrow> 64 word \<Rightarrow> (neoc_script_builder, unit) cmd" where
  "neoc_script_builder_push_integer A value =
     (let v = sint value in
      if v = -1 then neoc_script_builder_emit A NEOC_OP_PUSHM1
      else if 0 \<le> v \<and> v \<le> 16 then neoc_script_builder_emit A (NEOC_OP_PUSH0 + ucast value)
      else if -128 \<le> v \<and> v \<le> 127 then
        then_c (neoc_script_builder_emit A NEOC_OP_PUSHINT8) (neoc_binary_writer_write_byte A (ucast value))
      else if -32768 \<le> v \<and> v \<le> 32767 then
        then_c (neoc_script_builder_emit A NEOC_OP_PUSHINT16) (neoc_binary_writer_write_int16 A (ucast value))
      else if -2147483648 \<le> v \<and> v \<le> 2147483647 then
        then_c (neoc_script_builder_emit A NEOC_OP_PUSHINT32) (neoc_binary_writer_write_int32 A (ucast value))
      else
        then_c (neoc_script_builder_emit A NEOC_OP_PUSHINT64) (neoc_binary_writer_write_int64 A value))"

definition neoc_script_builder_push_bool :: "allocator \<Rightarrow> bool \<Rightarrow> (neoc_script_builder, unit) cmd" where
  "neoc_script_builder_push_bool A value =
     neoc_script_builder_emit A (if value then NEOC_OP_PUSH1 else NEOC_OP_PUSH0)"

definition neoc_script_builder_push_data ::
  "allocator \<Rightarrow> byte list option \<Rightarrow> size_t \<Rightarrow> (neoc_script_builder, unit) cmd" where
  "neoc_script_builder_push_data A data data_len =
     (if data = None \<and> 0 < data_len then fail_c NEOC_ERROR_NULL_POINTER
      else if data_len = 0 then neoc_script_builder_emit A NEOC_OP_PUSH0
      else
        then_c
          (if data_len \<le> 0xFF then
             then_c (neoc_script_builder_emit A NEOC_OP_PUSHDATA1) (neoc_binary_writer_write_byte A (ucast data_len))
           else if data_len \<le> 0xFFFF then
             then_c (neoc_script_builder_emit A NEOC_OP_PUSHDATA2) (neoc_binary_writer_write_uint16 A (ucast data_len))
           else
             then_c (neoc_script_builder_emit A NEOC_OP_PUSHDATA4) (neoc_binary_writer_write_uint32 A (ucast data_len)))
          (neoc_binary_writer_write_bytes A data data_len))"

definition neoc_script_builder_push_string ::
  "allocator \<Rightarrow> byte list option \<Rightarrow> (neoc_script_builder, unit) cmd" where
  "neoc_script_builder_push_string A str =
     (case str of
        None \<Rightarrow> fail_c NEOC_ERROR_NULL_POINTER
      | Some s \<Rightarrow> neoc_script_builder_push_data A (Some s) (of_nat (length s)))"

definition neoc_script_builder_contract_call ::
  "allocator \<Rightarrow> crypto \<Rightarrow> interop_table \<Rightarrow> neoc_hash160 option \<Rightarrow> byte list option \<Rightarrow> size_t \<Rightarrow> 64 word
   \<Rightarrow> (neoc_script_builder, unit) cmd" where
  "neoc_script_builder_contract_call A C T script_hash method param_count call_flags =
     (if script_hash = None \<or> method = None then fail_c NEOC_ERROR_NULL_POINTER
      else
        then_c (if param_count = 0 then neoc_script_builder_emit A NEOC_OP_NEWARRAY0
                else then_c (neoc_script_builder_push_integer A param_count)
                            (neoc_script_builder_emit A NEOC_OP_PACK))
        (then_c (neoc_script_builder_push_integer A call_flags)
        (then_c (neoc_script_builder_push_string A method)
        (bind_c (lift_c (neoc_hash160_to_bytes script_hash 20)) (\<lambda>hash_bytes.
          then_c (neoc_script_builder_push_data A (Some hash_bytes) 20)
            (neoc_script_builder_emit_syscall A C T NEOC_INTEROP_SYSTEM_CONTRACT_CALL))))))"

definition neoc_script_builder_to_array :: "allocator \<Rightarrow> neoc_script_builder \<Rightarrow> byte list result" where
  "neoc_script_builder_to_array A builder = neoc_binary_writer_to_array A builder"

definition neoc_script_builder_get_size :: "neoc_script_builder \<Rightarrow> size_t" where
  "neoc_script_builder_get_size builder = neoc_binary_writer_get_position builder"

definition neoc_script_builder_reset :: "neoc_script_builder \<Rightarrow> neoc_script_builder" where
  "neoc_script_builder_reset builder = neoc_binary_writer_reset builder"

definition neoc_script_builder_build_verification_script ::
  "allocator \<Rightarrow> crypto \<Rightarrow> interop_table \<Rightarrow> byte list option \<Rightarrow> byte list result" where
  "neoc_script_builder_build_verification_script A C T public_key =
     (case public_key of
        None \<Rightarrow> Err NEOC_ERROR_INVALID_ARGUMENT
      | Some key \<Rightarrow>
          if length key \<noteq> 33 \<and> length key \<noteq> 65 then Err NEOC_ERROR_INVALID_ARGUMENT
          else bind_r (malloc_r A (1 + 1 + length key + 1 + 4)) (\<lambda>_.
            Ok ([NEOC_OP_PUSHDATA1] @ [of_nat (length key)] @ key @ [NEOC_OP_SYSCALL]
                @ le_bytes 4 (fst (neoc_interop_get_hash C NEOC_INTEROP_SYSTEM_CRYPTO_CHECKSIG T)))))"

text \<open>The frame of the functions that build one script: create, emit, copy out, free.\<close>

definition run_builder :: "allocator \<Rightarrow> (neoc_script_builder, unit) cmd \<Rightarrow> byte list result" where
  "run_builder A m =
     bind_r (neoc_script_builder_create A) (\<lambda>b.
       case m b of
         (Ok _, b') \<Rightarrow> neoc_script_builder_to_array A b'
       | (Err e, _) \<Rightarrow> Err e
       | (Fault, _) \<Rightarrow> Fault)"

subsection \<open>\<^verbatim>\<open>script_builder_full.c\<close>\<close>

text \<open>
  Contract parameters (\<^verbatim>\<open>include/neoc/contract/contract_parameter.h\<close>): one constructor per type tag, with the member
  of the union that the constructors of \<^verbatim>\<open>contract_parameter.c\<close> fill for it.  Array items,
  map keys and map values are pointers and may be null.
\<close>

datatype contract_parameter =
    Param_Any | Param_Boolean bool | Param_Integer "64 word" | Param_Byte_Array "byte list option" size_t
  | Param_String "byte list option" | Param_Hash160 "byte list" | Param_Hash256 "byte list"
  | Param_Public_Key "byte list" | Param_Signature "byte list"
  | Param_Array "contract_parameter option list"
  | Param_Map "(contract_parameter option \<times> contract_parameter option) list"
  | Param_Interop_Interface | Param_Void

definition neoc_script_builder_push_null :: "allocator \<Rightarrow> (neoc_script_builder, unit) cmd" where
  "neoc_script_builder_push_null A = neoc_script_builder_emit A NEOC_OP_PUSHNULL"

definition neoc_script_builder_push_hash160 ::
  "allocator \<Rightarrow> neoc_hash160 option \<Rightarrow> (neoc_script_builder, unit) cmd" where
  "neoc_script_builder_push_hash160 A hash =
     (if hash = None then fail_c NEOC_ERROR_INVALID_ARGUMENT
      else bind_c (lift_c (neoc_hash160_to_little_endian_bytes hash 20)) (\<lambda>buffer.
        neoc_script_builder_push_data A (Some buffer) 20))"

definition neoc_script_builder_emit_push_int :: "allocator \<Rightarrow> 64 word \<Rightarrow> (neoc_script_builder, unit) cmd" where
  "neoc_script_builder_emit_push_int A value = neoc_script_builder_push_integer A value"

definition push_byte_array :: "allocator \<Rightarrow> byte list option \<Rightarrow> size_t \<Rightarrow> (neoc_script_builder, unit) cmd" where
  "push_byte_array A data len =
     (if data = None \<and> 0 < len then fail_c NEOC_ERROR_INVALID_ARGUMENT
      else if len = 0 then neoc_script_builder_emit A NEOC_OP_PUSH0
      else neoc_script_builder_push_data A data len)"

definition push_hash256 :: "allocator \<Rightarrow> neoc_hash256 option \<Rightarrow> (neoc_script_builder, unit) cmd" where
  "push_hash256 A hash =
     (if hash = None then fail_c NEOC_ERROR_INVALID_ARGUMENT
      else bind_c (lift_c (neoc_hash256_to_little_endian_bytes hash 32)) (\<lambda>buffer.
        neoc_script_builder_push_data A (Some buffer) 32))"

text \<open>
  The signature case reads the pointer and the length of the \<^verbatim>\<open>byte_array\<close> member from the 64 bytes
  that \<^verbatim>\<open>neoc_contract_param_create_signature\<close> stored in the \<^verbatim>\<open>signature\<close> member of the same union: on a
  little-endian 64-bit host they are its first and its second eight bytes.  Using such a
  pointer is a fault.
\<close>

definition push_signature_bytes :: "allocator \<Rightarrow> byte list \<Rightarrow> (neoc_script_builder, unit) cmd" where
  "push_signature_bytes A signature =
     (let data = of_le (take 8 signature) :: u64; len = of_le (take 8 (drop 8 signature)) :: size_t in
      if data = 0 \<and> 0 < len then fail_c NEOC_ERROR_INVALID_ARGUMENT
      else if len = 0 then neoc_script_builder_emit A NEOC_OP_PUSH0
      else lift_c Fault)"

function (sequential) neoc_script_builder_push_param ::
      "allocator \<Rightarrow> contract_parameter option \<Rightarrow> (neoc_script_builder, unit) cmd"
  and push_items :: "allocator \<Rightarrow> contract_parameter option list \<Rightarrow> (neoc_script_builder, unit) cmd"
  and push_entries ::
      "allocator \<Rightarrow> (contract_parameter option \<times> contract_parameter option) list \<Rightarrow> (neoc_script_builder, unit) cmd"
where
  "neoc_script_builder_push_param A None = neoc_script_builder_push_null A"
| "neoc_script_builder_push_param A (Some Param_Any) = return_c ()"
| "neoc_script_builder_push_param A (Some Param_Void) = return_c ()"
| "neoc_script_builder_push_param A (Some (Param_Boolean b)) = neoc_script_builder_push_bool A b"
| "neoc_script_builder_push_param A (Some (Param_Integer v)) = neoc_script_builder_push_integer A v"
| "neoc_script_builder_push_param A (Some (Param_Byte_Array data len)) = push_byte_array A data len"
| "neoc_script_builder_push_param A (Some (Param_Signature s)) = push_signature_bytes A s"
| "neoc_script_builder_push_param A (Some (Param_Public_Key k)) = neoc_script_builder_push_data A (Some k) 33"
| "neoc_script_builder_push_param A (Some (Param_String s)) =
     neoc_script_builder_push_string A (case s of None \<Rightarrow> Some [] | Some cs \<Rightarrow> Some cs)"
| "neoc_script_builder_push_param A (Some (Param_Hash160 h)) = neoc_script_builder_push_hash160 A (Some h)"
| "neoc_script_builder_push_param A (Some (Param_Hash256 h)) = push_hash256 A (Some h)"
| "neoc_script_builder_push_param A (Some (Param_Array items)) =
     (if items = [] then neoc_script_builder_emit A NEOC_OP_NEWARRAY0
      else then_c (push_items A items)
             (then_c (neoc_script_builder_push_integer A (of_nat (length items)))
                     (neoc_script_builder_emit A NEOC_OP_PACK)))"
| "neoc_script_builder_push_param A (Some (Param_Map entries)) =
     (if entries = [] then neoc_script_builder_emit A NEOC_OP_NEWMAP
      else then_c (push_entries A entries)
             (then_c (neoc_script_builder_push_integer A (of_nat (length entries)))
                     (neoc_script_builder_emit A NEOC_OP_PACKMAP)))"
| "neoc_script_builder_push_param A (Some Param_Interop_Interface) = fail_c NEOC_ERROR_NOT_IMPLEMENTED"
| "push_items A [] = return_c ()"
| "push_items A (p # ps) = then_c (neoc_script_builder_push_param A p) (push_items A ps)"
| "push_entries A [] = return_c ()"
| "push_entries A ((key, val) # es) =
     then_c (neoc_script_builder_push_param A val)
       (then_c (neoc_script_builder_push_param A key) (push_entries A es))"
  by pat_completeness auto
termination
  by (relation "measure (case_sum (\<lambda>(_, p). size_option size p)
        (case_sum (\<lambda>(_, ps). size_list (size_option size) ps)
          (\<lambda>(_, es). size_list (size_prod (size_option size) (size_option size)) es)))") auto

definition neoc_script_builder_push_params ::
  "allocator \<Rightarrow> contract_parameter option list \<Rightarrow> (neoc_script_builder, unit) cmd" where
  "neoc_script_builder_push_params A params =
     (if params = [] then neoc_script_builder_emit A NEOC_OP_NEWARRAY0
      else then_c (foreach_c (neoc_script_builder_push_param A) params)
             (then_c (neoc_script_builder_push_integer A (of_nat (length params)))
                     (neoc_script_builder_emit A NEOC_OP_PACK)))"

text \<open>The body of the loop over the public keys.\<close>

definition push_checked_key :: "allocator \<Rightarrow> byte list option \<Rightarrow> (neoc_script_builder, unit) cmd" where
  "push_checked_key A key =
     (case key of
        None \<Rightarrow> fail_c NEOC_ERROR_INVALID_ARGUMENT
      | Some k \<Rightarrow>
          if length k = 0 then fail_c NEOC_ERROR_INVALID_ARGUMENT
          else neoc_script_builder_push_data A (Some k) (of_nat (length k)))"

definition neoc_script_builder_build_multisig_script ::
  "allocator \<Rightarrow> crypto \<Rightarrow> interop_table \<Rightarrow> int \<Rightarrow> byte list option list option \<Rightarrow> byte list result" where
  "neoc_script_builder_build_multisig_script A C T minimum_signatures public_keys =
     (case public_keys of
        None \<Rightarrow> Err NEOC_ERROR_INVALID_ARGUMENT
      | Some keys \<Rightarrow>
          if length keys = 0 \<or> minimum_signatures \<le> 0 \<or> int (length keys) < minimum_signatures
          then Err NEOC_ERROR_INVALID_ARGUMENT
          else run_builder A
            (then_c (neoc_script_builder_push_integer A (word_of_int minimum_signatures))
            (then_c (foreach_c (push_checked_key A) keys)
            (then_c (neoc_script_builder_push_integer A (of_nat (length keys)))
                    (neoc_script_builder_emit_syscall A C T NEOC_INTEROP_SYSTEM_CRYPTO_CHECKMULTISIG)))))"

definition neoc_script_builder_emit_app_call ::
  "allocator \<Rightarrow> crypto \<Rightarrow> interop_table \<Rightarrow> neoc_hash160 option \<Rightarrow> byte list option \<Rightarrow> byte
   \<Rightarrow> (neoc_script_builder, unit) cmd" where
  "neoc_script_builder_emit_app_call A C T script_hash method param_count =
     (if script_hash = None \<or> method = None then fail_c NEOC_ERROR_INVALID_ARGUMENT
      else
        then_c (if param_count = 0 then neoc_script_builder_emit A NEOC_OP_NEWARRAY0
                else then_c (neoc_script_builder_push_integer A (ucast param_count))
                            (neoc_script_builder_emit A NEOC_OP_PACK))
        (then_c (neoc_script_builder_push_integer A 0x0F)
        (then_c (neoc_script_builder_push_string A method)
        (bind_c (lift_c (neoc_hash160_to_little_endian_bytes script_hash 20)) (\<lambda>hash_le.
          then_c (neoc_script_builder_push_data A (Some hash_le) 20)
            (neoc_script_builder_emit_syscall A C T NEOC_INTEROP_SYSTEM_CONTRACT_CALL))))))"

subsection \<open>What the operations append\<close>

definition enc_push_int :: "64 word \<Rightarrow> byte list" where
  "enc_push_int value =
     (let v = sint value in
      if v = -1 then [0x0F]
      else if 0 \<le> v \<and> v \<le> 16 then [0x10 + ucast value]
      else if -128 \<le> v \<and> v \<le> 127 then 0x00 # le_bytes 1 value
      else if -32768 \<le> v \<and> v \<le> 32767 then 0x01 # le_bytes 2 value
      else if -2147483648 \<le> v \<and> v \<le> 2147483647 then 0x02 # le_bytes 4 value
      else 0x03 # le_bytes 8 value)"

definition enc_push_data :: "byte list \<Rightarrow> byte list" where
  "enc_push_data bs =
     (if bs = [] then [0x10]
      else if length bs \<le> 0xFF then 0x0C # le_bytes 1 (of_nat (length bs) :: size_t) @ bs
      else if length bs \<le> 0xFFFF then 0x0D # le_bytes 2 (of_nat (length bs) :: size_t) @ bs
      else 0x0E # le_bytes 4 (of_nat (length bs) :: size_t) @ bs)"

definition enc_syscall :: "u32 \<Rightarrow> byte list" where
  "enc_syscall hash = 0x41 # le_bytes 4 hash"

lemma le_bytes_1: "le_bytes 1 v = [ucast v]"
  by (simp add: le_bytes_def)

lemma writes_emit [codec_laws]: "writes A (neoc_script_builder_emit A opcode) [opcode]"
  unfolding neoc_script_builder_emit_def by (rule writes_write_byte)

lemma writes_emit_then [codec_laws]:
  "writes A m bs \<Longrightarrow> writes A (then_c (neoc_script_builder_emit A opcode) m) (opcode # bs)"
  using writes_then [OF writes_emit] by fastforce

lemma writes_emit_syscall [codec_laws]:
  "writes A (neoc_script_builder_emit_syscall A C T service) (enc_syscall (fst (neoc_interop_get_hash C service T)))"
  using writes_then [OF writes_write_byte writes_write_uint32]
  unfolding neoc_script_builder_emit_syscall_def enc_syscall_def by fastforce

lemma writes_push_integer [codec_laws]: "writes A (neoc_script_builder_push_integer A v) (enc_push_int v)"
proof -
  have "writes A (neoc_binary_writer_write_byte A (ucast v)) (le_bytes 1 v)"
    unfolding le_bytes_1 by (rule writes_write_byte)
  moreover have "writes A (neoc_binary_writer_write_int16 A (ucast v)) (le_bytes 2 v)"
    using writes_write_uint16 [of A "ucast v"] by (simp add: neoc_binary_writer_write_int16_def le_bytes_ucast)
  moreover have "writes A (neoc_binary_writer_write_int32 A (ucast v)) (le_bytes 4 v)"
    using writes_write_uint32 [of A "ucast v"] by (simp add: neoc_binary_writer_write_int32_def le_bytes_ucast)
  moreover have "writes A (neoc_binary_writer_write_int64 A v) (le_bytes 8 v)"
    using writes_write_uint64 by (simp add: neoc_binary_writer_write_int64_def)
  ultimately show ?thesis
    unfolding neoc_script_builder_push_integer_def enc_push_int_def Let_def
    by (auto intro: writes_emit writes_emit_then)
qed

lemma writes_push_data [codec_laws]:
  assumes "unat len \<le> length bs"
  shows "writes A (neoc_script_builder_push_data A (Some bs) len) (enc_push_data (take (unat len) bs))"
proof (cases "len = 0")
  case True
  then show ?thesis using writes_emit by (simp add: neoc_script_builder_push_data_def enc_push_data_def)
next
  case False
  let ?ds = "take (unat len) bs"
  have ne: "?ds \<noteq> []" using False assms by (auto simp: unat_eq_zero)
  have n: "length ?ds = unat len" using assms by simp
  have body: "writes A (neoc_binary_writer_write_bytes A (Some bs) len) ?ds"
    using assms by (rule writes_write_bytes_take)
  have w1: "writes A (neoc_binary_writer_write_byte A (ucast len)) (le_bytes 1 len)"
    unfolding le_bytes_1 by (rule writes_write_byte)
  have w2: "writes A (neoc_binary_writer_write_uint16 A (ucast len)) (le_bytes 2 len)"
    using writes_write_uint16 [of A "ucast len"] by (simp add: le_bytes_ucast)
  have w4: "writes A (neoc_binary_writer_write_uint32 A (ucast len)) (le_bytes 4 len)"
    using writes_write_uint32 [of A "ucast len"] by (simp add: le_bytes_ucast)
  note heads = writes_then [OF writes_emit_then [OF w1] body] writes_then [OF writes_emit_then [OF w2] body]
    writes_then [OF writes_emit_then [OF w4] body]
  have conds: "len \<le> 0xFF \<longleftrightarrow> length ?ds \<le> 0xFF" "len \<le> 0xFFFF \<longleftrightarrow> length ?ds \<le> 0xFFFF"
    unfolding n by (simp_all add: size_le_iff)
  have of_len: "(of_nat (length ?ds) :: size_t) = len" unfolding n by simp
  show ?thesis
    unfolding neoc_script_builder_push_data_def enc_push_data_def of_len conds
    using heads False ne by auto
qed

lemma writes_push_bytes [codec_laws]:
  assumes "length bs < 2 ^ 64"
  shows "writes A (neoc_script_builder_push_data A (Some bs) (of_nat (length bs))) (enc_push_data bs)"
  using writes_push_data [of "of_nat (length bs)" bs A] assms by (simp add: unat_of_nat_size)

lemma writes_push_string [codec_laws]:
  "length s < 2 ^ 64 \<Longrightarrow> writes A (neoc_script_builder_push_string A (Some s)) (enc_push_data s)"
  by (simp add: neoc_script_builder_push_string_def writes_push_bytes)

lemma run_builder_eq: "run_builder A m = bind_r (malloc_r A sizeof_script_builder) (\<lambda>_. run_writer A 256 m)"
proof -
  have eq: "neoc_script_builder_to_array = neoc_binary_writer_to_array"
    by (simp add: fun_eq_iff neoc_script_builder_to_array_def)
  show ?thesis
    unfolding run_builder_def run_writer_def neoc_script_builder_create_def malloc_r_def eq by simp
qed

lemma run_builder_Ok:
  assumes "writes A m bs" and "length bs < 2 ^ 62" and "grants A (256 + 2 * length bs)"
  shows "run_builder A m = Ok bs"
proof -
  have "A sizeof_script_builder" using assms(3) by (simp add: grants_def sizeof_script_builder_def)
  moreover have "run_writer A 256 m = Ok bs" using assms by (intro run_writer_Ok) (auto elim: grants_mono)
  ultimately show ?thesis by (simp add: run_builder_eq)
qed

lemma run_builder_cases:
  assumes "writes A m bs" and "length bs < 2 ^ 62"
  shows "run_builder A m = Ok bs \<or> run_builder A m = Err NEOC_ERROR_MEMORY"
  using run_writer_cases [OF assms, of 256]
  by (cases "A sizeof_script_builder") (auto simp: run_builder_eq)

subsection \<open>Contract parameters\<close>

text \<open>The bytes a parameter stands for; \<open>None\<close> for one that cannot be pushed.\<close>

function (sequential) enc_param :: "contract_parameter option \<Rightarrow> byte list option"
  and enc_items :: "contract_parameter option list \<Rightarrow> byte list option"
  and enc_entries :: "(contract_parameter option \<times> contract_parameter option) list \<Rightarrow> byte list option"
where
  "enc_param None = Some [0x0B]"
| "enc_param (Some Param_Any) = Some []"
| "enc_param (Some Param_Void) = Some []"
| "enc_param (Some (Param_Boolean b)) = Some [if b then 0x11 else 0x10]"
| "enc_param (Some (Param_Integer v)) = Some (enc_push_int v)"
| "enc_param (Some (Param_Byte_Array None len)) = (if len = 0 then Some [0x10] else None)"
| "enc_param (Some (Param_Byte_Array (Some bs) len)) =
     (if unat len \<le> length bs then Some (enc_push_data (take (unat len) bs)) else None)"
| "enc_param (Some (Param_Signature s)) = None"
| "enc_param (Some (Param_Public_Key k)) = (if length k = 33 then Some (enc_push_data k) else None)"
| "enc_param (Some (Param_String None)) = Some [0x10]"
| "enc_param (Some (Param_String (Some s))) = (if length s < 2 ^ 64 then Some (enc_push_data s) else None)"
| "enc_param (Some (Param_Hash160 h)) = (if length h = 20 then Some (enc_push_data (rev h)) else None)"
| "enc_param (Some (Param_Hash256 h)) = (if length h = 32 then Some (enc_push_data (rev h)) else None)"
| "enc_param (Some (Param_Array items)) =
     (if items = [] then Some [0xC2]
      else map_option (\<lambda>bs. bs @ enc_push_int (of_nat (length items)) @ [0xC0]) (enc_items items))"
| "enc_param (Some (Param_Map entries)) =
     (if entries = [] then Some [0xC8]
      else map_option (\<lambda>bs. bs @ enc_push_int (of_nat (length entries)) @ [0xBE]) (enc_entries entries))"
| "enc_param (Some Param_Interop_Interface) = None"
| "enc_items [] = Some []"
| "enc_items (p # ps) = (case (enc_param p, enc_items ps) of (Some x, Some y) \<Rightarrow> Some (x @ y) | _ \<Rightarrow> None)"
| "enc_entries [] = Some []"
| "enc_entries ((key, val) # es) =
     (case (enc_param val, enc_param key, enc_entries es) of
        (Some v, Some k, Some y) \<Rightarrow> Some (v @ k @ y) | _ \<Rightarrow> None)"
  by pat_completeness auto
termination
  by (relation "measure (case_sum (size_option size)
        (case_sum (size_list (size_option size)) (size_list (size_prod (size_option size) (size_option size)))))") auto

lemma writes_push_byte_array:
  "unat len \<le> length bs \<Longrightarrow> writes A (push_byte_array A (Some bs) len) (enc_push_data (take (unat len) bs))"
  using writes_push_data [of len bs A] writes_emit [of A NEOC_OP_PUSH0]
  by (cases "len = 0") (simp_all add: push_byte_array_def enc_push_data_def)

lemma writes_push_hash160 [codec_laws]:
  "length h = 20 \<Longrightarrow> writes A (neoc_script_builder_push_hash160 A (Some h)) (enc_push_data (rev h))"
  using writes_push_data [of 20 "rev h" A] map_rev_index [of h 20]
  by (simp add: neoc_script_builder_push_hash160_def neoc_hash160_to_little_endian_bytes_def hash_sizes)

lemma writes_push_hash256 [codec_laws]:
  "length h = 32 \<Longrightarrow> writes A (push_hash256 A (Some h)) (enc_push_data (rev h))"
  using writes_push_data [of 32 "rev h" A] map_rev_index [of h 32]
  by (simp add: push_hash256_def neoc_hash256_to_little_endian_bytes_def hash_sizes)

lemma writes_push_params_of:
  "enc_param p = Some bs \<Longrightarrow> writes A (neoc_script_builder_push_param A p) bs"
  "enc_items ps = Some cs \<Longrightarrow> writes A (push_items A ps) cs"
  "enc_entries es = Some ds \<Longrightarrow> writes A (push_entries A es) ds"
proof (induction p and ps and es arbitrary: bs and cs and ds rule: enc_param_enc_items_enc_entries.induct)
  case 1
  then show ?case by (auto simp: neoc_script_builder_push_null_def intro: writes_emit)
next
  case (4 b)
  then show ?case
    using writes_emit [of A "if b then NEOC_OP_PUSH1 else NEOC_OP_PUSH0"]
    by (simp add: neoc_script_builder_push_bool_def)
next
  case (6 len)
  then show ?case by (auto simp: push_byte_array_def intro: writes_emit split: if_splits)
next
  case (9 k)
  then show ?case using writes_push_data [of 33 k A] by (auto split: if_splits)
next
  case (10)
  then show ?case using writes_push_string [of "[]" A] by (simp add: enc_push_data_def)
next
  case (14 items)
  then show ?case
    by (auto intro!: writes_then writes_push_integer intro: writes_emit split: if_splits)
next
  case (15 entries)
  then show ?case
    by (auto intro!: writes_then writes_push_integer intro: writes_emit split: if_splits)
next
  case (18 p ps)
  then show ?case by (auto intro!: writes_then split: option.splits)
next
  case (20 key val es)
  then show ?case by (auto intro!: writes_then split: option.splits)
qed (auto intro: codec_laws writes_push_byte_array split: if_splits)

subsection \<open>Reading pushes back\<close>

lemma of_le_le_bytes_trunc: "(of_le (le_bytes n v) :: 'b::len word) = ucast (take_bit (8 * n) (v :: 'a::len word))"
proof (rule bit_word_eqI)
  fix k
  assume "k < LENGTH('b)"
  moreover have "k div 8 < n \<longleftrightarrow> k < 8 * n" by auto
  ultimately show "bit (of_le (le_bytes n v) :: 'b word) k = bit (ucast (take_bit (8 * n) v) :: 'b word) k"
    by (auto simp: bit_of_le le_bytes_def bit_simps dest: bit_imp_le_length)
qed

lemma reads_read_push_size:
  fixes n :: size_t
  shows "unat n < 2 ^ 8 \<Longrightarrow> reads (read_push_size 0x0C) (le_bytes 1 n) n"
    and "unat n < 2 ^ 16 \<Longrightarrow> reads (read_push_size 0x0D) (le_bytes 2 n) n"
    and "unat n < 2 ^ 32 \<Longrightarrow> reads (read_push_size 0x0E) (le_bytes 4 n) n"
proof -
  show "reads (read_push_size 0x0C) (le_bytes 1 n) n" if "unat n < 2 ^ 8"
    using that reads_map [OF reads_read_byte, of n ucast "ucast n"]
    unfolding le_bytes_1 by (simp add: read_push_size_def ucast_ucast_down)
  show "reads (read_push_size 0x0D) (le_bytes 2 n) n" if "unat n < 2 ^ 16"
    using that reads_map [OF reads_read_uint16, of n ucast "ucast n"]
    by (simp add: read_push_size_def ucast_ucast_down le_bytes_ucast)
  show "reads (read_push_size 0x0E) (le_bytes 4 n) n" if "unat n < 2 ^ 32"
    using that reads_map [OF reads_read_uint32, of n ucast "ucast n"]
    by (simp add: read_push_size_def ucast_ucast_down le_bytes_ucast)
qed

lemma reads_read_push_data:
  assumes "bs \<noteq> []" and "length bs < 2 ^ 32" and "A (length bs)"
  shows "reads (neoc_binary_reader_read_push_data A) (enc_push_data bs) bs"
proof -
  let ?n = "of_nat (length bs) :: size_t"
  have n: "unat ?n = length bs" using assms(2) by (simp add: unat_of_nat_size)
  have ne: "?n \<noteq> 0" using assms by (simp add: of_nat_size_eq_0_iff)
  have body: "reads (neoc_binary_reader_read_bytes ?n) bs bs" using n assms(2) by (intro reads_read_bytes) simp_all
  have step: "reads (neoc_binary_reader_read_push_data A) ([op] @ le @ bs) bs"
    if "reads (read_push_size op) le ?n" for op le
    unfolding neoc_binary_reader_read_push_data_def
    by (intro reads_bind [OF reads_read_byte] reads_bind [OF that]) (use ne n assms(3) body in simp)
  show ?thesis
    using step [OF reads_read_push_size(1) [of ?n]] step [OF reads_read_push_size(2) [of ?n]]
      step [OF reads_read_push_size(3) [of ?n]] assms n by (simp add: enc_push_data_def)
qed

lemma reads_read_push_big_int:
  assumes "pushint_count op = Some n" and "unat n = length bs" and "A (length bs)"
  shows "reads (neoc_binary_reader_read_push_big_int A) (op # bs) (bs, bit (bs ! (length bs - 1)) 7)"
proof -
  have op: "op \<noteq> 0x10" "\<not> (0x11 \<le> op \<and> op \<le> 0x20)" "op \<noteq> 0x0F" and len: "length bs \<le> 32"
  proof -
    have "unat op \<le> 5" "unat n \<le> 32" using assms(1) by (auto simp: pushint_count_def split: if_splits)
    then show "op \<noteq> 0x10" "\<not> (0x11 \<le> op \<and> op \<le> 0x20)" "op \<noteq> 0x0F" "length bs \<le> 32"
      using assms(2) by (auto simp: word_le_nat_alt)
  qed
  have body: "reads (neoc_binary_reader_read_bytes n) bs bs" using assms(2) len by (intro reads_read_bytes) simp_all
  have "reads (neoc_binary_reader_read_push_big_int A) ([op] @ bs) (bs, bit (bs ! (length bs - 1)) 7)"
    unfolding neoc_binary_reader_read_push_big_int_def
    by (rule reads_bind [OF reads_read_byte])
       (use op assms body in \<open>auto simp: reads_map [OF body]\<close>)
  then show ?thesis by simp
qed

text \<open>The value \<^verbatim>\<open>read_push_int\<close> computes from the bytes and the sign of a push.\<close>

definition push_int_value :: "byte list \<Rightarrow> bool \<Rightarrow> 32 word result" where
  "push_int_value bs neg =
     (let result = of_le bs :: u32 in
      if neg then (if result = 0x80000000 then Fault else Ok (- result)) else Ok result)"

lemma read_push_int_run:
  assumes "reads (neoc_binary_reader_read_push_big_int A) enc (bs, neg)" and "length bs \<le> 4"
    and "reader_inv r" and "r_rest r = enc @ rest"
  shows "fst (neoc_binary_reader_read_push_int A r) = push_int_value bs neg"
  using readsD [OF assms(1,3,4)] assms(2)
  by (simp add: neoc_binary_reader_read_push_int_def bind_c_eval fold_or_bytes push_int_value_def Let_def cmd_eval)

lemma run_read_push_int:
  assumes "reads (neoc_binary_reader_read_push_big_int A) enc (bs, neg)" and "length bs \<le> 4"
    and "length enc < 2 ^ 63" and "grants A (max 40 (length enc))"
  shows "run_reader A (Some enc) (of_nat (length enc)) (neoc_binary_reader_read_push_int A) = push_int_value bs neg"
  using assms(3,4)
proof (rule reader_create_fresh)
  fix r
  assume "neoc_binary_reader_create A (Some enc) (of_nat (length enc)) = Ok r" "reader_inv r" "r_rest r = enc"
  with read_push_int_run [OF assms(1,2), of r "[]"] show ?thesis by (simp add: run_reader_def)
qed

text \<open>The widths of the pushes, and what the sign bit and the value of their operands are.\<close>

definition push_width :: "64 word \<Rightarrow> nat" where
  "push_width v =
     (if -128 \<le> sint v \<and> sint v \<le> 127 then 1 else if -32768 \<le> sint v \<and> sint v \<le> 32767 then 2 else 4)"

lemma enc_push_int_wide:
  assumes "sint v \<noteq> -1" and "\<not> (0 \<le> sint v \<and> sint v \<le> 16)" and "-2147483648 \<le> sint v" and "sint v \<le> 2147483647"
  obtains op n where "enc_push_int v = op # le_bytes (push_width v) v" and "pushint_count op = Some n"
    and "unat n = push_width v"
proof -
  consider (one) "-128 \<le> sint v \<and> sint v \<le> 127" | (two) "\<not> (-128 \<le> sint v \<and> sint v \<le> 127)" "-32768 \<le> sint v \<and> sint v \<le> 32767"
    | (four) "\<not> (-128 \<le> sint v \<and> sint v \<le> 127)" "\<not> (-32768 \<le> sint v \<and> sint v \<le> 32767)" by blast
  then show thesis
  proof cases
    case one
    with assms have "enc_push_int v = 0 # le_bytes 1 v" "push_width v = 1"
      unfolding enc_push_int_def push_width_def Let_def by auto
    with that [of 0 1] show ?thesis by (simp add: pushint_count_def)
  next
    case two
    with assms have "enc_push_int v = 1 # le_bytes 2 v" "push_width v = 2"
      unfolding enc_push_int_def push_width_def Let_def by auto
    with that [of 1 2] show ?thesis by (simp add: pushint_count_def)
  next
    case four
    with assms have "enc_push_int v = 2 # le_bytes 4 v" "push_width v = 4"
      unfolding enc_push_int_def push_width_def Let_def by auto
    with that [of 2 4] show ?thesis by (simp add: pushint_count_def)
  qed
qed

lemma sign_bit_operand:
  assumes "0 < n" and "n \<le> 8"
  shows "bit (le_bytes n (v :: 64 word) ! (n - 1)) 7 \<longleftrightarrow> bit v (8 * n - 1)"
proof -
  have "7 + 8 * (n - 1) = 8 * n - 1" using assms by simp
  then show ?thesis using assms by (simp add: le_bytes_def bit_simps add.commute)
qed

lemma sint_range_bits:
  fixes v :: "64 word"
  assumes "- (2 ^ (m - 1)) \<le> sint v" and "sint v < 2 ^ (m - 1)" and "0 < m" and "m \<le> 64"
  shows "bit v (m - 1) \<longleftrightarrow> sint v < 0"
    and "uint (take_bit m v) = (if sint v < 0 then sint v + 2 ^ m else sint v)"
proof -
  have pow: "(2::int) ^ m = 2 * 2 ^ (m - 1)" using assms(3) by (simp flip: power_Suc)
  have "uint (take_bit m v) = take_bit m (sint v)"
    using assms(4) by (simp add: unsigned_take_bit_eq signed_take_bit_take_bit take_bit_signed_take_bit sint_uint)
  also have "\<dots> = (if sint v < 0 then sint v + 2 ^ m else sint v)"
  proof (cases "sint v < 0")
    case True
    have "take_bit m (sint v) = (sint v + 2 ^ m) mod 2 ^ m" by (simp add: take_bit_eq_mod)
    also have "\<dots> = sint v + 2 ^ m" using True assms(1) pow by (intro mod_pos_pos_trivial) auto
    finally show ?thesis using True by simp
  next
    case False
    then show ?thesis using assms(2) pow by (simp add: take_bit_eq_mod)
  qed
  finally show val: "uint (take_bit m v) = (if sint v < 0 then sint v + 2 ^ m else sint v)" .
  have "bit v (m - 1) \<longleftrightarrow> bit (uint (take_bit m v)) (m - 1)"
    using assms(3,4) by (auto simp: bit_uint_iff bit_take_bit_iff)
  also have "\<dots> \<longleftrightarrow> sint v < 0"
  proof (cases "sint v < 0")
    case True
    let ?p = "2 ^ (m - 1) :: int"
    have "sint v div ?p + 1 = (sint v + ?p) div ?p" by (subst div_add_self2) simp_all
    also have "\<dots> = 0" using True assms(1) by (intro div_pos_pos_trivial) auto
    finally have "sint v div ?p = - 1" by simp
    then show ?thesis unfolding val using True pow by (simp add: bit_iff_odd)
  next
    case False
    then show ?thesis unfolding val using assms(2) by (simp add: bit_iff_odd div_pos_pos_trivial)
  qed
  finally show "bit v (m - 1) \<longleftrightarrow> sint v < 0" .
qed

lemma push_int_operand_value:
  assumes "sint v \<noteq> -1" and "\<not> (0 \<le> sint v \<and> sint v \<le> 16)" and "-2147483648 \<le> sint v" and "sint v \<le> 2147483647"
  defines "bs \<equiv> le_bytes (push_width v) v"
  shows "bit (bs ! (length bs - 1)) 7 \<longleftrightarrow> sint v < 0"
    and "(of_le bs :: u32) = word_of_int (if sint v < 0 then sint v + 2 ^ (8 * push_width v) else sint v)"
proof -
  let ?m = "8 * push_width v"
  have w: "push_width v = 1 \<or> push_width v = 2 \<or> push_width v = 4" by (simp add: push_width_def)
  have range: "- (2 ^ (?m - 1)) \<le> sint v" "sint v < 2 ^ (?m - 1)" "0 < ?m" "?m \<le> 64"
    using assms by (auto simp: push_width_def)
  show "bit (bs ! (length bs - 1)) 7 \<longleftrightarrow> sint v < 0"
    using sint_range_bits(1) [OF range] sign_bit_operand [of "push_width v" v] w by (auto simp: bs_def)
  have "(of_le bs :: u32) = word_of_int (uint (take_bit ?m v))"
    unfolding bs_def of_le_le_bytes_trunc by simp
  then show "(of_le bs :: u32) = word_of_int (if sint v < 0 then sint v + 2 ^ ?m else sint v)"
    using sint_range_bits(2) [OF range] by simp
qed

lemma reads_push_int_wide:
  assumes "sint v \<noteq> -1" and "\<not> (0 \<le> sint v \<and> sint v \<le> 16)" and "-2147483648 \<le> sint v" and "sint v \<le> 2147483647"
    and "grants A 40"
  shows "reads (neoc_binary_reader_read_push_big_int A) (enc_push_int v)
    (le_bytes (push_width v) v, sint v < 0)"
  using assms(1-4)
proof (rule enc_push_int_wide)
  fix op n
  assume enc: "enc_push_int v = op # le_bytes (push_width v) v" "pushint_count op = Some n" "unat n = push_width v"
  have "A (length (le_bytes (push_width v) v))"
    by (rule grantsD [OF assms(5)]) (simp add: push_width_def)
  with enc reads_read_push_big_int [OF enc(2), of "le_bytes (push_width v) v" A]
    push_int_operand_value(1) [OF assms(1-4)] show ?thesis by simp
qed

lemma uint_eq_sint: "0 \<le> sint (v :: 64 word) \<Longrightarrow> uint v = sint v"
  using sint_range_bits(2) [of 64 v] sint_range_size [of v] by (simp add: word_size take_bit_word_eq_self)

lemma reads_push_int_small:
  assumes "0 \<le> sint v" and "sint v \<le> 16" and "grants A 40"
  shows "\<exists>bs. reads (neoc_binary_reader_read_push_big_int A) (enc_push_int v) (bs, False)
    \<and> length bs \<le> 4 \<and> (of_le bs :: u32) = ucast v"
proof -
  let ?op = "0x10 + ucast v :: byte"
  have u: "unat v \<le> 16" using assms uint_eq_sint [of v] by (simp add: unat_eq_nat_uint)
  then have v8: "unat (ucast v :: byte) = unat v" by (simp add: unat_ucast_down)
  then have op: "unat ?op = 16 + unat v" using u by (simp add: unat_word_ariths)
  have enc: "enc_push_int v = [?op]" using assms by (simp add: enc_push_int_def Let_def)
  show ?thesis
  proof (cases "v = 0")
    case True
    have "reads (neoc_binary_reader_read_push_big_int A) ([0x10] @ []) ([], False)"
      unfolding neoc_binary_reader_read_push_big_int_def
      by (rule reads_bind [OF reads_read_byte]) (simp add: reads_return)
    with True enc show ?thesis by (intro exI [of _ "[]"]) simp
  next
    case False
    let ?bs = "le_bytes 4 (ucast (?op - 0x11 + 1) :: 32 word)"
    have "?op \<noteq> 0x10" "0x11 \<le> ?op" "?op \<le> 0x20"
      using op u False by (auto simp: word_le_nat_alt word_unat_eq_iff)
    moreover have "A 4" by (rule grantsD [OF assms(3)]) simp
    ultimately have "reads (neoc_binary_reader_read_push_big_int A) ([?op] @ []) (?bs, False)"
      unfolding neoc_binary_reader_read_push_big_int_def
      by (intro reads_bind [OF reads_read_byte]) (simp add: reads_return)
    moreover have "(of_le ?bs :: u32) = ucast v"
    proof -
      have "?op - 0x11 + 1 = ucast v" by simp
      then show ?thesis using v8 u by (simp add: of_le_le_bytes word_unat_eq_iff unat_ucast_down)
    qed
    ultimately show ?thesis using enc by (intro exI [of _ ?bs]) simp
  qed
qed

lemma reads_push_int_minus1:
  assumes "sint v = -1" and "grants A 40"
  shows "reads (neoc_binary_reader_read_push_big_int A) (enc_push_int v) (le_bytes 4 (1 :: 32 word), True)"
proof -
  have "A 4" by (rule grantsD [OF assms(2)]) simp
  then have "reads (neoc_binary_reader_read_push_big_int A) ([0x0F] @ []) (le_bytes 4 (1 :: 32 word), True)"
    unfolding neoc_binary_reader_read_push_big_int_def
    by (intro reads_bind [OF reads_read_byte]) (simp add: reads_return word_le_nat_alt)
  then show ?thesis using assms(1) by (simp add: enc_push_int_def Let_def)
qed

lemma uint_of_small: "0 \<le> k \<Longrightarrow> k < 2 ^ 32 \<Longrightarrow> uint (word_of_int k :: u32) = k"
  by (simp add: uint_word_of_int)

lemma length_enc_push_int: "length (enc_push_int v) \<le> 9"
  by (simp add: enc_push_int_def Let_def)

subsection \<open>Properties\<close>

text \<open>C33. Integers survive the trip through a script: minus one and every integer from 0 to $2^{31} - 1$, pushed
  by the builder (in the shortest form: one opcode, or an operand of 1, 2 or 4 bytes) and read
  back by \<^verbatim>\<open>read_push_int\<close>, is the same integer.\<close>

theorem push_int_roundtrip:
  assumes "sint v = -1 \<or> (0 \<le> sint v \<and> sint v \<le> 2147483647)" and "grants A 1000"
  shows "bind_r (run_builder A (neoc_script_builder_push_integer A v))
    (\<lambda>s. run_reader A (Some s) (of_nat (length s)) (neoc_binary_reader_read_push_int A)) = Ok (ucast v)"
proof -
  let ?s = "enc_push_int v"
  have len: "length ?s \<le> 9" by (rule length_enc_push_int)
  then have g: "grants A (256 + 2 * length ?s)" "grants A (max 40 (length ?s))" "grants A 40"
    using assms(2) by (auto elim!: grants_mono)
  have "run_builder A (neoc_script_builder_push_integer A v) = Ok ?s"
    by (rule run_builder_Ok [OF writes_push_integer]) (use len g in auto)
  moreover have "\<exists>bs neg. reads (neoc_binary_reader_read_push_big_int A) ?s (bs, neg) \<and> length bs \<le> 4
      \<and> push_int_value bs neg = Ok (ucast v)"
  proof -
    consider (m1) "sint v = -1" | (small) "0 \<le> sint v" "sint v \<le> 16" | (wide) "16 < sint v" "sint v \<le> 2147483647"
      using assms(1) by linarith
    then show ?thesis
    proof cases
      case m1
      have "word_of_int (sint v) = v" by simp
      from this [unfolded m1] have "v = -1" by simp
      moreover have "push_int_value (le_bytes 4 (1 :: 32 word)) True = Ok (- 1)"
        by (simp add: push_int_value_def of_le_le_bytes)
      moreover have "(ucast (- 1 :: 64 word) :: 32 word) = - 1" by (rule bit_word_eqI) (simp add: bit_simps)
      ultimately show ?thesis
        using reads_push_int_minus1 [OF m1 g(3)] by (intro exI [of _ "le_bytes 4 (1 :: 32 word)"] exI [of _ True]) auto
    next
      case small
      then obtain bs where "reads (neoc_binary_reader_read_push_big_int A) ?s (bs, False)" "length bs \<le> 4"
        "(of_le bs :: u32) = ucast v" using reads_push_int_small [OF small g(3)] by blast
      then show ?thesis by (intro exI [of _ bs] exI [of _ False]) (simp add: push_int_value_def)
    next
      case wide
      let ?bs = "le_bytes (push_width v) v"
      have "(of_le ?bs :: u32) = word_of_int (sint v)" using push_int_operand_value(2) [of v] wide by simp
      also have "\<dots> = word_of_int (uint v)" using uint_eq_sint [of v] wide by (simp only:)
      also have "\<dots> = ucast v" by simp
      finally have "push_int_value ?bs False = Ok (ucast v)" by (simp add: push_int_value_def)
      moreover have "length ?bs \<le> 4" by (simp add: push_width_def)
      ultimately show ?thesis using reads_push_int_wide [of v A] wide g(3) by (intro exI [of _ ?bs] exI [of _ False]) auto
    qed
  qed
  then obtain bs neg where "reads (neoc_binary_reader_read_push_big_int A) ?s (bs, neg)" "length bs \<le> 4"
    "push_int_value bs neg = Ok (ucast v)" by blast
  then have "run_reader A (Some ?s) (of_nat (length ?s)) (neoc_binary_reader_read_push_int A) = Ok (ucast v)"
    using run_read_push_int [of A ?s bs neg] len g(2) by simp
  ultimately show ?thesis by simp
qed

theorem push_int_roundtrip_witness:
  "bind_r (run_builder (\<lambda>_. True) (neoc_script_builder_push_integer (\<lambda>_. True) 70000))
    (\<lambda>s. run_reader (\<lambda>_. True) (Some s) (of_nat (length s)) (neoc_binary_reader_read_push_int (\<lambda>_. True))) = Ok 70000"
proof -
  have "sint (70000 :: 64 word) = 70000" by (simp add: signed_take_bit_int_eq_self)
  with push_int_roundtrip [of 70000 "\<lambda>_. True"] show ?thesis by simp
qed

text \<open>Other negative integers do not survive it.  \<^verbatim>\<open>read_push_int\<close> takes the operand bytes, which are already in
  two's complement, as a magnitude and negates them again: for a pushed \<open>v\<close> between $-2^{31}$ and -2 with an
  operand of \<open>n\<close> bytes it returns \<open>-(v + 256^n)\<close> (254 becomes the magnitude of -2, so -2 comes back
  as -254), and for $-2^{31}$ the negation overflows.\<close>

theorem push_int_negative_misread:
  assumes "-2147483648 \<le> sint v" and "sint v \<le> -2" and "grants A 1000"
  shows "bind_r (run_builder A (neoc_script_builder_push_integer A v))
    (\<lambda>s. run_reader A (Some s) (of_nat (length s)) (neoc_binary_reader_read_push_int A))
    = (if sint v = -2147483648 then Fault else Ok (- word_of_int (sint v + 256 ^ push_width v)))"
proof -
  let ?s = "enc_push_int v" and ?bs = "le_bytes (push_width v) v"
  have len: "length ?s \<le> 9" by (rule length_enc_push_int)
  then have g: "grants A (256 + 2 * length ?s)" "grants A (max 40 (length ?s))" "grants A 40"
    using assms(3) by (auto elim!: grants_mono)
  have run: "run_builder A (neoc_script_builder_push_integer A v) = Ok ?s"
    by (rule run_builder_Ok [OF writes_push_integer]) (use len g in auto)
  have "reads (neoc_binary_reader_read_push_big_int A) ?s (?bs, True)"
    using reads_push_int_wide [of v A] assms(1,2) g(3) by simp
  then have read: "run_reader A (Some ?s) (of_nat (length ?s)) (neoc_binary_reader_read_push_int A) = push_int_value ?bs True"
    using run_read_push_int [of A ?s ?bs True] len g(2) by (simp add: push_width_def)
  have val: "(of_le ?bs :: u32) = word_of_int (sint v + 256 ^ push_width v)"
    using push_int_operand_value(2) [of v] assms(1,2) by (simp add: power_mult)
  have "(word_of_int (sint v + 256 ^ push_width v) :: u32) = 0x80000000 \<longleftrightarrow> sint v = -2147483648"
  proof -
    have "0 \<le> sint v + 256 ^ push_width v" "sint v + 256 ^ push_width v < 2 ^ 32"
      using assms(1,2) by (auto simp: push_width_def)
    then have "uint (word_of_int (sint v + 256 ^ push_width v) :: u32) = sint v + 256 ^ push_width v"
      by (rule uint_of_small)
    then have "(word_of_int (sint v + 256 ^ push_width v) :: u32) = 0x80000000
        \<longleftrightarrow> sint v + 256 ^ push_width v = 2147483648"
      by (simp add: word_uint_eq_iff)
    also have "\<dots> \<longleftrightarrow> sint v = -2147483648" using assms(1,2) by (auto simp: push_width_def split: if_splits)
    finally show ?thesis .
  qed
  with run read val show ?thesis by (simp add: push_int_value_def)
qed

theorem push_int_negative_misread_witness:
  "bind_r (run_builder (\<lambda>_. True) (neoc_script_builder_push_integer (\<lambda>_. True) (- 2)))
    (\<lambda>s. run_reader (\<lambda>_. True) (Some s) (of_nat (length s)) (neoc_binary_reader_read_push_int (\<lambda>_. True))) = Ok (- 254)"
proof -
  have "sint (- 2 :: 64 word) = - 2" by (simp add: sint_uint)
  with push_int_negative_misread [of "- 2" "\<lambda>_. True"] show ?thesis by (simp add: push_width_def)
qed

text \<open>Byte strings survive the trip through a script, except the empty one: the builder pushes it with the
  opcode \<^verbatim>\<open>PUSH0\<close>, which \<^verbatim>\<open>read_push_data\<close> does not accept.\<close>

theorem push_data_roundtrip:
  assumes "length bs < 2 ^ 32" and "grants A (300 + 2 * length bs)"
  shows "bind_r (run_builder A (neoc_script_builder_push_data A (Some bs) (of_nat (length bs))))
    (\<lambda>s. run_reader A (Some s) (of_nat (length s)) (neoc_binary_reader_read_push_data A))
    = (if bs = [] then Err NEOC_ERROR_INVALID_DATA else Ok bs)"
proof -
  let ?s = "enc_push_data bs"
  have len: "length ?s \<le> length bs + 5" by (simp add: enc_push_data_def)
  then have g: "grants A (256 + 2 * length ?s)" "grants A (max 40 (length ?s))" "A (length bs)"
    using assms(2) by (auto elim!: grants_mono intro: grantsD)
  have "length bs < 2 ^ 64" using assms(1) by simp
  then have "run_builder A (neoc_script_builder_push_data A (Some bs) (of_nat (length bs))) = Ok ?s"
    by (intro run_builder_Ok [OF writes_push_bytes]) (use len g assms(1) in auto)
  moreover have "run_reader A (Some ?s) (of_nat (length ?s)) (neoc_binary_reader_read_push_data A)
      = (if bs = [] then Err NEOC_ERROR_INVALID_DATA else Ok bs)"
  proof (cases "bs = []")
    case False
    have "length ?s < 2 ^ 63" using len assms(1) by simp
    then show ?thesis
      using run_reader_reads [OF reads_read_push_data [of bs A], of "[]"] assms(1) g(2,3) False by simp
  next
    case True
    then have s: "?s = [0x10]" by (simp add: enc_push_data_def)
    have "length ?s < 2 ^ 63" by (simp add: s)
    then show ?thesis
      using g(2)
    proof (rule reader_create_fresh)
      fix r
      assume r: "neoc_binary_reader_create A (Some ?s) (of_nat (length ?s)) = Ok r" "reader_inv r" "r_rest r = ?s"
      then have "neoc_binary_reader_read_byte r = (Ok 0x10, advance 1 r)"
        using readsD [OF reads_read_byte r(2)] s by fastforce
      with r(1) True show ?thesis
        by (simp add: run_reader_def neoc_binary_reader_read_push_data_def bind_c_eval read_push_size_def cmd_eval)
    qed
  qed
  ultimately show ?thesis by simp
qed

theorem push_data_roundtrip_witness:
  "bind_r (run_builder (\<lambda>_. True) (neoc_script_builder_push_data (\<lambda>_. True) (Some [1, 2, 3]) (of_nat (length [1, 2, 3 :: byte]))))
    (\<lambda>s. run_reader (\<lambda>_. True) (Some s) (of_nat (length s)) (neoc_binary_reader_read_push_data (\<lambda>_. True))) = Ok [1, 2, 3]"
  using push_data_roundtrip [of "[1, 2, 3]" "\<lambda>_. True"] by simp

text \<open>C32. Pushing a contract parameter, however deeply its arrays and maps are nested, appends exactly the bytes
  the specification \<open>enc_param\<close> gives for it, or stops with a justified error having appended a
  proper prefix of them; it never leaves the buffer.\<close>

theorem push_param_refines:
  assumes "enc_param p = Some bs" and "writer_inv w" and "unat (w_position w) + length bs < 2 ^ 62"
  shows "case neoc_script_builder_push_param A p w of
      (Ok _, w') \<Rightarrow> writer_inv w' \<and> w_contents w' = w_contents w @ bs
    | (Err e, w') \<Rightarrow> writer_inv w' \<and> (\<exists>cs. strict_prefix cs bs \<and> w_contents w' = w_contents w @ cs)
        \<and> refusal A w (length bs) e
    | (Fault, w') \<Rightarrow> False"
proof -
  note law = writes_push_params_of(1) [OF assms(1), of A]
  obtain res w' where run: "neoc_script_builder_push_param A p w = (res, w')" by fastforce
  show ?thesis
  proof (cases res)
    case (Ok u)
    with run writes_OkD [OF law _ assms(2,3)] show ?thesis by auto
  next
    case (Err e)
    with run writes_ErrD [OF law _ assms(2,3)] show ?thesis by auto
  next
    case Fault
    with run writes_no_Fault [OF law assms(2,3)] show ?thesis by blast
  qed
qed

theorem push_param_refines_witness:
  "case neoc_script_builder_push_param (\<lambda>_. True)
      (Some (Param_Array [Some (Param_Boolean True), None, Some (Param_Array [])]))
      \<lparr>w_data = [0], w_capacity = 1, w_position = 0, w_auto_grow = True\<rparr> of
      (Ok _, w') \<Rightarrow> w_contents w' = [0x11, 0x0B, 0xC2, 0x13, 0xC0]
    | (Err e, w') \<Rightarrow> False
    | (Fault, w') \<Rightarrow> False"
proof -
  let ?p = "Some (Param_Array [Some (Param_Boolean True), None, Some (Param_Array [])])"
  let ?w = "\<lparr>w_data = [0], w_capacity = 1, w_position = 0, w_auto_grow = True\<rparr> :: neoc_binary_writer"
  have "sint (3 :: 64 word) = 3" by (simp add: sint_uint)
  then have enc: "enc_param ?p = Some [0x11, 0x0B, 0xC2, 0x13, 0xC0]" by (simp add: enc_push_int_def)
  have "writer_inv ?w" by (simp add: writer_inv_def)
  with push_param_refines [OF enc, of ?w "\<lambda>_. True"] show ?thesis
    by (auto simp: w_contents_def refusal_def split: prod.splits result.splits)
qed

text \<open>A signature parameter cannot be pushed: the pointer and the length are taken from the signature's own first
  sixteen bytes, and unless one of the two happens to be zero the copy reads through a wild
  pointer.\<close>

theorem push_signature_param_faults:
  assumes "of_le (take 8 sig) \<noteq> (0 :: u64)" and "of_le (take 8 (drop 8 sig)) \<noteq> (0 :: size_t)"
  shows "neoc_script_builder_push_param A (Some (Param_Signature sig)) w = (Fault, w)"
  using assms by (simp add: push_signature_bytes_def Let_def cmd_eval)

theorem push_signature_param_faults_witness:
  "fst (neoc_script_builder_push_param (\<lambda>_. True)
      (Some (Param_Signature ([1, 0, 0, 0, 0, 0, 0, 0] @ [5, 0, 0, 0, 0, 0, 0, 0] @ replicate 48 0)))
      \<lparr>w_data = [0], w_capacity = 1, w_position = 0, w_auto_grow = True\<rparr>) = Fault"
  by (subst push_signature_param_faults) simp_all

text \<open>The two ways to emit a contract call order the contract hash differently: \<^verbatim>\<open>contract_call\<close> pushes it as stored,
  \<^verbatim>\<open>emit_app_call\<close> reversed.  With all call flags, the same method and the same argument count,
  the one on a hash is the other on the reversed hash, byte for byte.\<close>

theorem contract_call_hash_order:
  assumes "length h = 20" and "param_count = ucast (n :: byte)"
  shows "neoc_script_builder_contract_call A C T (Some h) (Some method) param_count 0x0F
    = neoc_script_builder_emit_app_call A C T (Some (rev h)) (Some method) n"
proof -
  have "param_count = 0 \<longleftrightarrow> n = 0" using assms(2) ucast_up_inj [of n 0, where ?'b = 64] by auto
  moreover have "neoc_hash160_to_bytes (Some h) 20 = neoc_hash160_to_little_endian_bytes (Some (rev h)) 20"
    using assms(1) map_rev_index [of "rev h" 20]
    by (simp add: neoc_hash160_to_bytes_def neoc_hash160_to_little_endian_bytes_def hash_sizes)
  ultimately show ?thesis
    using assms by (simp add: neoc_script_builder_contract_call_def neoc_script_builder_emit_app_call_def)
qed

theorem contract_call_hash_order_witness:
  "neoc_script_builder_contract_call (\<lambda>_. True) toy_crypto initial_interop_table (Some (1 # replicate 19 0)) (Some [97]) 2 0x0F
   = neoc_script_builder_emit_app_call (\<lambda>_. True) toy_crypto initial_interop_table (Some (replicate 19 0 @ [1])) (Some [97]) 2"
  using contract_call_hash_order [of "1 # replicate 19 0" 2 2 "\<lambda>_. True" toy_crypto initial_interop_table "[97]"]
  by simp

end
