(* ===== verification/Script_Reader.thy ===== *)
theory Script_Reader
  imports Script_Builder
begin

text \<open>
  \<^verbatim>\<open>src/script/script_reader.c\<close>: the disassembler.  Its state is the script, the position in it and the
  output text with the size of its buffer; a text of \<open>n\<close> characters needs \<open>n + 1\<close> bytes.  Counts come
  from length prefixes of at most four bytes, so no sum of sizes wraps.
\<close>

record neoc_script_reader =
  sr_script :: "byte list"
  sr_position :: nat
  sr_output :: string
  sr_output_size :: nat

subsection \<open>Tables\<close>

definition get_operand_size_info :: "neoc_opcode \<Rightarrow> nat \<times> nat" where
  "get_operand_size_info opcode =
     (if opcode \<in> set [NEOC_OP_PUSHINT8, NEOC_OP_JMP, NEOC_OP_JMPIF, NEOC_OP_JMPIFNOT, NEOC_OP_JMPEQ, NEOC_OP_JMPNE,
          NEOC_OP_JMPGT, NEOC_OP_JMPGE, NEOC_OP_JMPLT, NEOC_OP_JMPLE, NEOC_OP_CALL, NEOC_OP_ENDTRY] then (1, 0)
      else if opcode \<in> set [NEOC_OP_PUSHINT16, NEOC_OP_JMP_L, NEOC_OP_JMPIF_L, NEOC_OP_JMPIFNOT_L, NEOC_OP_JMPEQ_L,
          NEOC_OP_JMPNE_L, NEOC_OP_JMPGT_L, NEOC_OP_JMPGE_L, NEOC_OP_JMPLT_L, NEOC_OP_JMPLE_L, NEOC_OP_CALL_L,
          NEOC_OP_ENDTRY_L] then (2, 0)
      else if opcode \<in> set [NEOC_OP_PUSHINT32, NEOC_OP_PUSHA, NEOC_OP_SYSCALL, NEOC_OP_ENDFINALLY] then (4, 0)
      else if opcode \<in> set [NEOC_OP_PUSHINT64, NEOC_OP_PUSHINT128, NEOC_OP_PUSHINT256] then (8, 0)
      else if opcode = NEOC_OP_PUSHDATA1 then (0, 1)
      else if opcode = NEOC_OP_PUSHDATA2 then (0, 2)
      else if opcode = NEOC_OP_PUSHDATA4 then (0, 4)
      else (0, 0))"

definition opcode_names :: "(neoc_opcode \<times> string) list" where
  "opcode_names = [
    (0x00, ''PUSHINT8''), (0x01, ''PUSHINT16''), (0x02, ''PUSHINT32''), (0x03, ''PUSHINT64''), (0x04, ''PUSHINT128''),
    (0x05, ''PUSHINT256''), (0x0A, ''PUSHA''), (0x0B, ''PUSHNULL''), (0x0C, ''PUSHDATA1''), (0x0D, ''PUSHDATA2''),
    (0x0E, ''PUSHDATA4''), (0x0F, ''PUSHM1''), (0x10, ''PUSH0''), (0x11, ''PUSH1''), (0x12, ''PUSH2''),
    (0x13, ''PUSH3''), (0x14, ''PUSH4''), (0x15, ''PUSH5''), (0x16, ''PUSH6''), (0x17, ''PUSH7''),
    (0x18, ''PUSH8''), (0x19, ''PUSH9''), (0x1A, ''PUSH10''), (0x1B, ''PUSH11''), (0x1C, ''PUSH12''),
    (0x1D, ''PUSH13''), (0x1E, ''PUSH14''), (0x1F, ''PUSH15''), (0x20, ''PUSH16''), (0x21, ''NOP''),
    (0x22, ''JMP''), (0x23, ''JMP_L''), (0x24, ''JMPIF''), (0x25, ''JMPIF_L''), (0x26, ''JMPIFNOT''),
    (0x27, ''JMPIFNOT_L''), (0x28, ''JMPEQ''), (0x29, ''JMPEQ_L''), (0x2A, ''JMPNE''), (0x2B, ''JMPNE_L''),
    (0x2C, ''JMPGT''), (0x2D, ''JMPGT_L''), (0x2E, ''JMPGE''), (0x2F, ''JMPGE_L''), (0x30, ''JMPLT''),
    (0x31, ''JMPLT_L''), (0x32, ''JMPLE''), (0x33, ''JMPLE_L''), (0x34, ''CALL''), (0x35, ''CALL_L''),
    (0x36, ''CALLA''), (0x37, ''CALLT''), (0x38, ''ABORT''), (0x39, ''ASSERT''), (0x3A, ''THROW''),
    (0x3B, ''TRY''), (0x3C, ''TRY_L''), (0x3D, ''ENDTRY''), (0x3E, ''ENDTRY_L''), (0x3F, ''ENDFINALLY''),
    (0x40, ''RET''), (0x41, ''SYSCALL'')]"

definition opcode_to_string :: "neoc_opcode \<Rightarrow> string" where
  "opcode_to_string opcode = (case find_opcode opcode_names opcode of Some name \<Rightarrow> name | None \<Rightarrow> ''UNKNOWN'')"

subsection \<open>Reading and printing\<close>

definition neoc_script_reader_init :: "byte list option \<Rightarrow> nat \<Rightarrow> neoc_script_reader result" where
  "neoc_script_reader_init script output_size =
     (case script of
        None \<Rightarrow> Err NEOC_ERROR_NULL_POINTER
      | Some bs \<Rightarrow> Ok \<lparr>sr_script = bs, sr_position = 0, sr_output = [], sr_output_size = output_size\<rparr>)"

definition neoc_script_reader_read_byte :: "(neoc_script_reader, byte) cmd" where
  "neoc_script_reader_read_byte r =
     (if length (sr_script r) \<le> sr_position r then (Err NEOC_ERROR_END_OF_STREAM, r)
      else (Ok (sr_script r ! sr_position r), r\<lparr>sr_position := sr_position r + 1\<rparr>))"

definition neoc_script_reader_read_bytes :: "nat \<Rightarrow> (neoc_script_reader, byte list) cmd" where
  "neoc_script_reader_read_bytes count r =
     (if length (sr_script r) < sr_position r + count then (Err NEOC_ERROR_END_OF_STREAM, r)
      else (Ok (take count (drop (sr_position r) (sr_script r))), r\<lparr>sr_position := sr_position r + count\<rparr>))"

definition neoc_script_reader_has_more :: "neoc_script_reader \<Rightarrow> bool" where
  "neoc_script_reader_has_more r \<longleftrightarrow> sr_position r < length (sr_script r)"

definition neoc_script_reader_get_position :: "neoc_script_reader \<Rightarrow> nat" where
  "neoc_script_reader_get_position r = sr_position r"

definition neoc_script_reader_append_output :: "string \<Rightarrow> (neoc_script_reader, unit) cmd" where
  "neoc_script_reader_append_output str r =
     (if sr_output_size r < length (sr_output r) + length str + 1 then (Err NEOC_ERROR_BUFFER_TOO_SMALL, r)
      else (Ok (), r\<lparr>sr_output := sr_output r @ str\<rparr>))"

text \<open>The argument is the formatted text; it goes through a buffer of 256 bytes.\<close>

definition neoc_script_reader_append_formatted :: "string \<Rightarrow> (neoc_script_reader, unit) cmd" where
  "neoc_script_reader_append_formatted formatted r =
     (if 256 \<le> length formatted then (Err NEOC_ERROR_BUFFER_TOO_SMALL, r)
      else neoc_script_reader_append_output formatted r)"

text \<open>A length prefix, least significant byte first; the bytes read before an error stay consumed.\<close>

fun read_prefix_size :: "nat \<Rightarrow> (neoc_script_reader, nat) cmd" where
  "read_prefix_size 0 = return_c 0"
| "read_prefix_size (Suc n) =
     bind_c neoc_script_reader_read_byte (\<lambda>b.
       bind_c (read_prefix_size n) (\<lambda>rest. return_c (unat b + 256 * rest)))"

definition hex_of :: "byte list \<Rightarrow> string" where
  "hex_of bs = concat (map (sprintf_02x False) bs)"

text \<open>A command whose error is not propagated.\<close>

definition try_c :: "('s, 'a) cmd \<Rightarrow> ('a \<Rightarrow> ('s, unit) cmd) \<Rightarrow> ('s, unit) cmd" where
  "try_c m f s = (case m s of (Ok x, s') \<Rightarrow> f x s' | (Err _, s') \<Rightarrow> (Ok (), s') | (Fault, s') \<Rightarrow> (Fault, s'))"

subsection \<open>Disassembly\<close>

definition print_fixed :: "nat \<Rightarrow> (neoc_script_reader, unit) cmd" where
  "print_fixed fixed_size =
     try_c (neoc_script_reader_read_bytes fixed_size) (\<lambda>operand_data.
       neoc_script_reader_append_formatted ('' '' @ hex_of operand_data))"

text \<open>The text of the operand is appended without looking at the result.\<close>

definition print_prefixed :: "allocator \<Rightarrow> nat \<Rightarrow> (neoc_script_reader, unit) cmd" where
  "print_prefixed A prefix_size =
     try_c (read_prefix_size prefix_size) (\<lambda>operand_size.
       if operand_size = 0 then return_c ()
       else then_c (neoc_script_reader_append_formatted ('' '' @ show_nat operand_size @ '' ''))
         (if \<not> A operand_size then return_c ()
          else try_c (neoc_script_reader_read_bytes operand_size) (\<lambda>operand_data.
            try_c (neoc_script_reader_append_output
                     (hex_of (take (if 255 < operand_size then 255 else operand_size) operand_data)))
              return_c)))"

definition print_operand :: "allocator \<Rightarrow> neoc_opcode \<Rightarrow> (neoc_script_reader, unit) cmd" where
  "print_operand A opcode =
     (let (fixed_size, prefix_size) = get_operand_size_info opcode in
      if 0 < fixed_size then print_fixed fixed_size
      else if 0 < prefix_size then print_prefixed A prefix_size
      else return_c ())"

text \<open>One turn of the loop of \<^verbatim>\<open>neoc_script_reader_to_opcode_string\<close>, at an opcode that was read.\<close>

definition print_opcode :: "allocator \<Rightarrow> neoc_opcode \<Rightarrow> (neoc_script_reader, unit) cmd" where
  "print_opcode A opcode =
     then_c (neoc_script_reader_append_output (opcode_to_string opcode))
     (then_c (print_operand A opcode)
       (neoc_script_reader_append_output [CHR 0x0A]))"

definition print_turn :: "allocator \<Rightarrow> (neoc_script_reader, unit) cmd" where
  "print_turn A = bind_c neoc_script_reader_read_byte (print_opcode A)"

subsection \<open>Every turn moves on\<close>

text \<open>No command moves the position back, leaves the script, changes it, or overfills the output buffer.\<close>

definition sr_step :: "neoc_script_reader \<Rightarrow> neoc_script_reader \<Rightarrow> bool" where
  "sr_step r r' \<longleftrightarrow>
     sr_script r' = sr_script r \<and> sr_position r \<le> sr_position r'
     \<and> (sr_position r \<le> length (sr_script r) \<longrightarrow> sr_position r' \<le> length (sr_script r))
     \<and> sr_output_size r' = sr_output_size r
     \<and> (length (sr_output r) < sr_output_size r \<longrightarrow> length (sr_output r') < sr_output_size r)"

lemma sr_step_refl [simp]: "sr_step r r"
  by (simp add: sr_step_def)

lemma sr_step_trans: "sr_step r r' \<Longrightarrow> sr_step r' r'' \<Longrightarrow> sr_step r r''"
  by (auto simp: sr_step_def)

definition moves_on :: "(neoc_script_reader, 'a) cmd \<Rightarrow> bool" where
  "moves_on m \<longleftrightarrow> (\<forall>r. fst (m r) \<noteq> Fault \<and> sr_step r (snd (m r)))"

lemma moves_on_return: "moves_on (return_c x)"
  by (simp add: moves_on_def cmd_eval)

lemma moves_onD: "moves_on m \<Longrightarrow> m r = (res, r') \<Longrightarrow> res \<noteq> Fault \<and> sr_step r r'"
  by (auto simp: moves_on_def dest: spec [of _ r])

lemma moves_onD_fst: "moves_on m \<Longrightarrow> fst (m r) \<noteq> Fault" "moves_on m \<Longrightarrow> sr_step r (snd (m r))"
  unfolding moves_on_def by blast+

lemma moves_on_bind:
  assumes "moves_on m" and "\<And>x. moves_on (f x)"
  shows "moves_on (bind_c m f)"
  unfolding moves_on_def
proof
  fix r
  obtain res r1 where m: "m r = (res, r1)" by fastforce
  note m' = moves_onD [OF assms(1) m]
  show "fst (bind_c m f r) \<noteq> Fault \<and> sr_step r (snd (bind_c m f r))"
  proof (cases res)
    case (Ok x)
    with m have "bind_c m f r = f x r1" by (simp add: bind_c_eval)
    then show ?thesis using m' moves_onD_fst [OF assms(2) [of x], of r1] sr_step_trans [of r r1] by simp
  qed (use m m' in \<open>simp_all add: bind_c_eval\<close>)
qed

lemma moves_on_try:
  assumes "moves_on m" and "\<And>x. moves_on (f x)"
  shows "moves_on (try_c m f)"
  unfolding moves_on_def
proof
  fix r
  obtain res r1 where m: "m r = (res, r1)" by fastforce
  note m' = moves_onD [OF assms(1) m]
  show "fst (try_c m f r) \<noteq> Fault \<and> sr_step r (snd (try_c m f r))"
  proof (cases res)
    case (Ok x)
    with m have "try_c m f r = f x r1" by (simp add: try_c_def)
    then show ?thesis using m' moves_onD_fst [OF assms(2) [of x], of r1] sr_step_trans [of r r1] by simp
  qed (use m m' in \<open>simp_all add: try_c_def\<close>)
qed

lemma moves_on_then: "moves_on m \<Longrightarrow> moves_on n \<Longrightarrow> moves_on (then_c m n)"
  unfolding then_c_def by (rule moves_on_bind)

lemma moves_on_read_byte: "moves_on neoc_script_reader_read_byte"
  by (simp add: moves_on_def neoc_script_reader_read_byte_def sr_step_def)

lemma moves_on_read_bytes: "moves_on (neoc_script_reader_read_bytes n)"
  by (simp add: moves_on_def neoc_script_reader_read_bytes_def sr_step_def)

lemma moves_on_append: "moves_on (neoc_script_reader_append_output s)"
  by (simp add: moves_on_def neoc_script_reader_append_output_def sr_step_def)

lemma moves_on_formatted: "moves_on (neoc_script_reader_append_formatted s)"
  using moves_on_append [of s] by (simp add: moves_on_def neoc_script_reader_append_formatted_def)

lemma moves_on_prefix_size: "moves_on (read_prefix_size n)"
  by (induction n) (simp_all add: moves_on_return moves_on_bind moves_on_read_byte)

lemma moves_on_if: "moves_on m \<Longrightarrow> moves_on n \<Longrightarrow> moves_on (if c then m else n)"
  by simp

lemma moves_on_print_opcode: "moves_on (print_opcode A opcode)"
proof -
  have fixed: "moves_on (print_fixed n)" for n
    unfolding print_fixed_def by (intro moves_on_try moves_on_read_bytes moves_on_formatted)
  have prefixed: "moves_on (print_prefixed A n)" for n
    unfolding print_prefixed_def
    by (intro moves_on_try moves_on_prefix_size moves_on_if moves_on_then moves_on_formatted
        moves_on_read_bytes moves_on_append moves_on_return)
  have "moves_on (print_operand A opcode)"
    unfolding print_operand_def Let_def
    by (cases "get_operand_size_info opcode") (simp only: prod.case, intro moves_on_if fixed prefixed moves_on_return)
  then show ?thesis
    unfolding print_opcode_def by (intro moves_on_then moves_on_append)
qed

lemma print_turn_advances:
  assumes "neoc_script_reader_has_more r"
  shows "sr_position r < sr_position (snd (print_turn A r))" and "sr_step r (snd (print_turn A r))"
    and "fst (print_turn A r) \<noteq> Fault"
proof -
  let ?r1 = "r\<lparr>sr_position := sr_position r + 1\<rparr>"
  have turn: "print_turn A r = print_opcode A (sr_script r ! sr_position r) ?r1"
    using assms by (simp add: print_turn_def bind_c_def neoc_script_reader_read_byte_def neoc_script_reader_has_more_def)
  have one: "sr_step r ?r1" using assms by (simp add: sr_step_def neoc_script_reader_has_more_def)
  have "fst (print_turn A r) \<noteq> Fault" "sr_step ?r1 (snd (print_turn A r))"
    using moves_on_print_opcode unfolding turn moves_on_def by blast+
  with one show "sr_position r < sr_position (snd (print_turn A r))" "sr_step r (snd (print_turn A r))"
    "fst (print_turn A r) \<noteq> Fault" by (auto intro: sr_step_trans simp: sr_step_def)
qed

text \<open>The loop, and the function around it; the result holds the text in the output buffer.\<close>

function print_loop :: "allocator \<Rightarrow> (neoc_script_reader, unit) cmd" where
  "print_loop A r =
     (if neoc_script_reader_has_more r then
        (case print_turn A r of
           (Ok _, r') \<Rightarrow> print_loop A r'
         | (Err e, r') \<Rightarrow> (Err e, r')
         | (Fault, r') \<Rightarrow> (Fault, r'))
      else (Ok (), r))"
  by pat_completeness auto
termination
proof (relation "measure (\<lambda>(_, r). length (sr_script r) - sr_position r)")
  fix A r res r' u
  assume more: "neoc_script_reader_has_more r" and p: "(res, r') = print_turn A r" "res = Ok u"
  from p have "r' = snd (print_turn A r)" by (metis snd_conv)
  with print_turn_advances(1,2) [OF more, of A] more
  show "((A, r'), A, r) \<in> measure (\<lambda>(_, r). length (sr_script r) - sr_position r)"
    by (auto simp: sr_step_def neoc_script_reader_has_more_def)
qed auto

declare print_loop.simps [simp del]

definition run_disassembler :: "allocator \<Rightarrow> byte list option \<Rightarrow> nat \<Rightarrow> unit result \<times> nat \<times> string" where
  "run_disassembler A script buffer_size =
     (case neoc_script_reader_init script buffer_size of
        Ok r \<Rightarrow> (case print_loop A r of (res, r') \<Rightarrow> (res, neoc_script_reader_get_position r', sr_output r'))
      | Err e \<Rightarrow> (Err e, 0, [])
      | Fault \<Rightarrow> (Fault, 0, []))"

definition neoc_script_reader_to_opcode_string :: "allocator \<Rightarrow> byte list option \<Rightarrow> nat \<Rightarrow> unit result \<times> string" where
  "neoc_script_reader_to_opcode_string A script buffer_size =
     (case run_disassembler A script buffer_size of (res, _, output) \<Rightarrow> (res, output))"

text \<open>
  The script length passed on is half the length of the text, not the number of decoded bytes: with
  a prefix the last byte of the buffer was never written.  The run does not depend on that byte until
  it moves past it, and reading it is a fault; zero stands for it here.
\<close>

definition neoc_script_reader_to_opcode_string_hex ::
  "allocator \<Rightarrow> string option \<Rightarrow> nat \<Rightarrow> unit result \<times> string" where
  "neoc_script_reader_to_opcode_string_hex A script_hex buffer_size =
     (case script_hex of
        None \<Rightarrow> (Err NEOC_ERROR_NULL_POINTER, [])
      | Some s \<Rightarrow>
          let script_length = length s div 2 in
          if script_length = 0 \<or> \<not> A script_length then (Err NEOC_ERROR_OUT_OF_MEMORY, [])
          else
            (case neoc_hex_decode (Some s) script_length of
               Err e \<Rightarrow> (Err e, [])
             | Fault \<Rightarrow> (Fault, [])
             | Ok script_bytes \<Rightarrow>
                 let unwritten = script_length - length script_bytes in
                 (case run_disassembler A (Some (script_bytes @ replicate unwritten 0)) buffer_size of
                    (res, position, output) \<Rightarrow>
                      (if length script_bytes < position then Fault else res, output))))"

definition sprintf_08x :: "u32 \<Rightarrow> string" where
  "sprintf_08x h = hex_of (rev (le_bytes 4 h))"

definition neoc_script_reader_get_interop_service ::
  "crypto \<Rightarrow> interop_table \<Rightarrow> string option \<Rightarrow> neoc_interop_service result" where
  "neoc_script_reader_get_interop_service C T hash_string =
     (case hash_string of
        None \<Rightarrow> Err NEOC_ERROR_NULL_POINTER
      | Some s \<Rightarrow>
          (case first_at s (map (\<lambda>i. sprintf_08x (fst (neoc_interop_get_hash C i T))) [0..<NEOC_INTEROP_COUNT]) of
             Some i \<Rightarrow> Ok i
           | None \<Rightarrow> Err NEOC_ERROR_NOT_FOUND))"

subsection \<open>Properties\<close>

lemma print_loop_outcome:
  "sr_step r (snd (print_loop A r)) \<and> fst (print_loop A r) \<noteq> Fault
   \<and> (fst (print_loop A r) = Ok () \<longrightarrow> \<not> neoc_script_reader_has_more (snd (print_loop A r)))"
proof (induction A r rule: print_loop.induct)
  case (1 A r)
  show ?case
  proof (cases "neoc_script_reader_has_more r")
    case False
    then show ?thesis by (simp add: print_loop.simps)
  next
    case True
    note adv = print_turn_advances(2,3) [OF True, of A]
    obtain res r' where t: "print_turn A r = (res, r')" by fastforce
    show ?thesis
    proof (cases res)
      case (Ok u)
      with True t have "print_loop A r = print_loop A r'" by (subst print_loop.simps) simp
      with "1.IH" [OF True t [symmetric] Ok] adv t show ?thesis by (auto intro: sr_step_trans)
    next
      case (Err e)
      with True t adv show ?thesis by (subst (1 2 3 4) print_loop.simps) simp
    next
      case Fault
      with adv t show ?thesis by simp
    qed
  qed
qed

text \<open>
  What the disassembler prints: an instruction is an opcode and the bytes of its operand, as the
  reader's own table has them.
\<close>

fun enc_prefix :: "nat \<Rightarrow> nat \<Rightarrow> byte list" where
  "enc_prefix 0 n = []"
| "enc_prefix (Suc p) n = of_nat (n mod 256) # enc_prefix p (n div 256)"

definition instr_ok :: "neoc_opcode \<times> byte list \<Rightarrow> bool" where
  "instr_ok = (\<lambda>(opcode, operand).
     case get_operand_size_info opcode of (fixed_size, prefix_size) \<Rightarrow>
       if 0 < fixed_size then length operand = fixed_size
       else if 0 < prefix_size then length operand < 256 ^ prefix_size
       else operand = [])"

definition instr_bytes :: "neoc_opcode \<times> byte list \<Rightarrow> byte list" where
  "instr_bytes = (\<lambda>(opcode, operand).
     opcode # enc_prefix (snd (get_operand_size_info opcode)) (length operand) @ operand)"

text \<open>The text of an operand.\<close>

definition operand_text :: "neoc_opcode \<Rightarrow> byte list \<Rightarrow> string" where
  "operand_text opcode operand =
     (if operand = [] then []
      else if 0 < fst (get_operand_size_info opcode) then '' '' @ hex_of operand
      else '' '' @ show_nat (length operand) @ '' '' @ hex_of (take 255 operand))"

definition instr_text :: "neoc_opcode \<times> byte list \<Rightarrow> string" where
  "instr_text = (\<lambda>(opcode, operand).
     opcode_to_string opcode @ operand_text opcode operand @ [CHR 0x0A])"

definition script_text :: "(neoc_opcode \<times> byte list) list \<Rightarrow> string" where
  "script_text ins = concat (map instr_text ins)"

lemma operand_info_cases:
  obtains "get_operand_size_info opcode = (0, 0)"
  | n where "get_operand_size_info opcode = (n, 0)" and "0 < n" and "n \<le> 8"
  | p where "get_operand_size_info opcode = (0, p)" and "0 < p" and "p \<le> 4"
proof -
  have table: "(if a then (1, 0) else if b then (2, 0) else if c then (4, 0) else if d then (8, 0)
      else if e then (0, 1) else if f then (0, 2) else if g then (0, 4) else (0, 0 :: nat))
    \<in> {0 :: nat} \<times> {0, 1, 2, 4} \<union> {1, 2, 4, 8} \<times> {0}" for a b c d e f g
    by simp
  have "get_operand_size_info opcode \<in> {0} \<times> {0, 1, 2, 4} \<union> {1, 2, 4, 8} \<times> {0}"
    unfolding get_operand_size_info_def by (rule table)
  then show thesis using that by (cases "get_operand_size_info opcode") auto
qed

lemma read_prefix_enc:
  assumes "sr_script r = before @ enc_prefix p n @ rest" and "sr_position r = length before" and "n < 256 ^ p"
  shows "read_prefix_size p r = (Ok n, r\<lparr>sr_position := sr_position r + p\<rparr>)"
  using assms
proof (induction p arbitrary: n r before)
  case 0
  then show ?case by (simp add: cmd_eval)
next
  case (Suc p)
  let ?b = "of_nat (n mod 256) :: byte"
  let ?r = "r\<lparr>sr_position := sr_position r + 1\<rparr>"
  have "read_prefix_size p ?r = (Ok (n div 256), ?r\<lparr>sr_position := sr_position ?r + p\<rparr>)"
    using Suc.prems by (intro Suc.IH [where before = "before @ [?b]"]) (simp_all add: less_mult_imp_div_less mult.commute)
  moreover have "unat ?b = n mod 256" by (simp add: unat_of_nat take_bit_nat_eq_self)
  ultimately show ?case
    using Suc.prems
    by (simp add: bind_c_def neoc_script_reader_read_byte_def cmd_eval nth_append)
qed

lemma length_enc_prefix [simp]: "length (enc_prefix p n) = p"
  by (induction p arbitrary: n) simp_all

lemma length_hex_of [simp]: "length (hex_of bs) = 2 * length bs"
  by (simp add: hex_of_def)

lemma length_show_nat_10: "n < 10 ^ k \<Longrightarrow> 0 < k \<Longrightarrow> length (show_nat n) \<le> k"
proof (induction k arbitrary: n)
  case (Suc k)
  show ?case
  proof (cases "n < 10")
    case True
    then show ?thesis by (simp add: show_nat.simps [of n])
  next
    case False
    with Suc.prems have "0 < k" "n div 10 < 10 ^ k" by (cases k, simp_all add: less_mult_imp_div_less mult.commute)
    with Suc.IH [of "n div 10"] False show ?thesis by (simp add: show_nat.simps [of n])
  qed
qed simp

lemma read_bytes_here:
  assumes "sr_script r = before @ bs @ rest" and "sr_position r = length before"
  shows "neoc_script_reader_read_bytes (length bs) r = (Ok bs, r\<lparr>sr_position := sr_position r + length bs\<rparr>)"
  using assms by (simp add: neoc_script_reader_read_bytes_def)

lemma append_fits:
  "length (sr_output r) + length t < sr_output_size r \<Longrightarrow>
     neoc_script_reader_append_output t r = (Ok (), r\<lparr>sr_output := sr_output r @ t\<rparr>)"
  by (simp add: neoc_script_reader_append_output_def)

lemma formatted_fits:
  "length (sr_output r) + length t < sr_output_size r \<Longrightarrow> length t < 256 \<Longrightarrow>
     neoc_script_reader_append_formatted t r = (Ok (), r\<lparr>sr_output := sr_output r @ t\<rparr>)"
  by (simp add: neoc_script_reader_append_formatted_def append_fits)

lemma print_fixed_here:
  assumes "sr_script r = before @ operand @ rest" and "sr_position r = length before"
    and "length (sr_output r) + length ('' '' @ hex_of operand) < sr_output_size r" and "length operand \<le> 8"
  shows "print_fixed (length operand) r =
           (Ok (), r\<lparr>sr_position := sr_position r + length operand, sr_output := sr_output r @ '' '' @ hex_of operand\<rparr>)"
  unfolding print_fixed_def try_c_def read_bytes_here [OF assms(1,2)]
  using assms(3,4) by (simp add: formatted_fits)

lemma print_prefixed_here:
  assumes script: "sr_script r = before @ enc_prefix p (length operand) @ operand @ rest" "sr_position r = length before"
    and fits: "length (sr_output r) + length (if operand = [] then [] else '' '' @ show_nat (length operand) @ '' '' @ hex_of (take 255 operand)) < sr_output_size r"
    and size: "length operand < 256 ^ p" "p \<le> 4" and A: "operand \<noteq> [] \<Longrightarrow> A (length operand)"
  shows "print_prefixed A p r =
           (Ok (), r\<lparr>sr_position := sr_position r + p + length operand,
                     sr_output := sr_output r @ (if operand = [] then [] else '' '' @ show_nat (length operand) @ '' '' @ hex_of (take 255 operand))\<rparr>)"
proof -
  let ?n = "length operand"
  let ?r1 = "r\<lparr>sr_position := sr_position r + p\<rparr>"
  note prefix = read_prefix_enc [OF script(1,2) size(1)]
  show ?thesis
  proof (cases "operand = []")
    case True
    with prefix show ?thesis by (simp add: print_prefixed_def try_c_def cmd_eval)
  next
    case False
    with fits have room: "length (sr_output r) + length ('' '' @ show_nat (length operand) @ '' '' @ hex_of (take 255 operand)) < sr_output_size r"
      by simp
    let ?s = "'' '' @ show_nat ?n @ '' ''"
    let ?r2 = "?r1\<lparr>sr_output := sr_output r @ ?s\<rparr>"
    have "(256 :: nat) ^ p \<le> 256 ^ 4" using size(2) by (intro power_increasing) simp_all
    with size(1) have "?n < 10 ^ 10" by simp
    then have "length (show_nat ?n) \<le> 10" by (rule length_show_nat_10) simp
    then have fmt: "neoc_script_reader_append_formatted ?s ?r1 = (Ok (), ?r2)"
      using room by (subst formatted_fits) simp_all
    have rd: "neoc_script_reader_read_bytes ?n ?r2 = (Ok operand, ?r2\<lparr>sr_position := sr_position ?r2 + ?n\<rparr>)"
      by (rule read_bytes_here [where before = "before @ enc_prefix p ?n" and rest = rest])
         (simp_all add: script)
    have out: "neoc_script_reader_append_output (hex_of (take 255 operand)) (?r2\<lparr>sr_position := sr_position ?r2 + ?n\<rparr>)
        = (Ok (), ?r2\<lparr>sr_position := sr_position ?r2 + ?n, sr_output := sr_output ?r2 @ hex_of (take 255 operand)\<rparr>)"
      by (subst append_fits) (use room in simp_all)
    have cut: "take (if 255 < ?n then 255 else ?n) operand = take 255 operand" by simp
    have n: "(?n = 0) = False" "(\<not> A ?n) = False" using False A by simp_all
    show ?thesis
      unfolding print_prefixed_def try_c_def prefix prod.case result.case n if_False 
        then_c_eval(1) [where m = "neoc_script_reader_append_formatted ?s" and s = ?r1, OF fmt] rd cut out return_c_def
      using False by simp
  qed
qed

lemma print_instr:
  assumes ok: "instr_ok (opcode, operand)" and script: "sr_script r = before @ instr_bytes (opcode, operand) @ rest"
    and pos: "sr_position r = length before"
    and room: "length (sr_output r) + length (instr_text (opcode, operand)) < sr_output_size r"
    and A: "operand \<noteq> [] \<Longrightarrow> A (length operand)"
  shows "print_turn A r =
    (Ok (), r\<lparr>sr_position := length (before @ instr_bytes (opcode, operand)), sr_output := sr_output r @ instr_text (opcode, operand)\<rparr>)"
proof -
  let ?r0 = "r\<lparr>sr_position := sr_position r + 1\<rparr>"
  let ?r1 = "?r0\<lparr>sr_output := sr_output r @ opcode_to_string opcode\<rparr>"
  define q where "q = snd (get_operand_size_info opcode)"
  let ?r2 = "?r1\<lparr>sr_position := sr_position ?r1 + q + length operand, sr_output := sr_output ?r1 @ operand_text opcode operand\<rparr>"
  have script': "sr_script r = (before @ [opcode]) @ enc_prefix q (length operand) @ operand @ rest"
    using script by (simp add: instr_bytes_def q_def)
  have turn: "print_turn A r = print_opcode A opcode ?r0"
    using script' pos by (simp add: print_turn_def bind_c_def neoc_script_reader_read_byte_def nth_append)
  have name: "neoc_script_reader_append_output (opcode_to_string opcode) ?r0 = (Ok (), ?r1)"
    using room by (subst append_fits) (simp_all add: instr_text_def)
  have operand: "print_operand A opcode ?r1 = (Ok (), ?r2)"
  proof (cases rule: operand_info_cases [of opcode])
    case 1
    then show ?thesis using ok by (simp add: print_operand_def instr_ok_def operand_text_def cmd_eval q_def)
  next
    case (2 n)
    then have n: "length operand = n" "operand \<noteq> []" using ok by (auto simp: instr_ok_def)
    have "print_fixed (length operand) ?r1 = (Ok (), ?r1\<lparr>sr_position := sr_position ?r1 + length operand,
        sr_output := sr_output ?r1 @ '' '' @ hex_of operand\<rparr>)"
      by (rule print_fixed_here [where before = "before @ [opcode]" and rest = rest])
         (use script' pos room 2 n in \<open>auto simp: q_def instr_text_def operand_text_def\<close>)
    with 2 n show ?thesis by (simp add: print_operand_def operand_text_def q_def)
  next
    case (3 p)
    then have p: "length operand < 256 ^ p" using ok by (simp add: instr_ok_def)
    have "print_prefixed A p ?r1 = (Ok (), ?r1\<lparr>sr_position := sr_position ?r1 + p + length operand,
        sr_output := sr_output ?r1 @ (if operand = [] then [] else '' '' @ show_nat (length operand) @ '' '' @ hex_of (take 255 operand))\<rparr>)"
      by (rule print_prefixed_here [where before = "before @ [opcode]" and rest = rest])
         (use script' pos room 3 p A in \<open>auto simp: q_def instr_text_def operand_text_def\<close>)
    with 3 show ?thesis by (simp add: print_operand_def operand_text_def q_def)
  qed
  have newline: "neoc_script_reader_append_output [CHR 0x0A] ?r2 = (Ok (), ?r2\<lparr>sr_output := sr_output ?r2 @ [CHR 0x0A]\<rparr>)"
    using room by (subst append_fits) (simp_all add: instr_text_def)
  show ?thesis
    unfolding turn print_opcode_def
      then_c_eval(1) [where m = "neoc_script_reader_append_output (opcode_to_string opcode)" and s = ?r0, OF name]
      then_c_eval(1) [where m = "print_operand A opcode" and s = ?r1, OF operand] newline
    using pos by (simp add: instr_bytes_def instr_text_def q_def)
qed

lemma print_instrs:
  assumes "list_all instr_ok ins" and "sr_script r = before @ concat (map instr_bytes ins) @ rest"
    and "sr_position r = length before"
    and "length (sr_output r) + length (script_text ins) < sr_output_size r"
    and "\<And>i. i \<in> set ins \<Longrightarrow> snd i \<noteq> [] \<Longrightarrow> A (length (snd i))"
  shows "print_loop A r = print_loop A
    (r\<lparr>sr_position := length before + length (concat (map instr_bytes ins)), sr_output := sr_output r @ script_text ins\<rparr>)"
  using assms
proof (induction ins arbitrary: r before)
  case Nil
  then have "r\<lparr>sr_position := length before, sr_output := sr_output r\<rparr> = r" by simp
  then show ?case by (simp add: script_text_def)
next
  case (Cons i ins)
  obtain opcode operand where i: "i = (opcode, operand)" by fastforce
  let ?r = "r\<lparr>sr_position := length (before @ instr_bytes i), sr_output := sr_output r @ instr_text i\<rparr>"
  have "print_turn A r = (Ok (), ?r)"
    unfolding i by (rule print_instr [where rest = "concat (map instr_bytes ins) @ rest"])
      (use Cons.prems Cons.prems(5) [of i] i in \<open>simp_all add: script_text_def\<close>)
  moreover have "neoc_script_reader_has_more r"
    using Cons.prems(2,3) by (simp add: neoc_script_reader_has_more_def i instr_bytes_def)
  ultimately have "print_loop A r = print_loop A ?r" by (subst print_loop.simps) simp
  also have "\<dots> = print_loop A (?r\<lparr>sr_position := length (before @ instr_bytes i) + length (concat (map instr_bytes ins)),
      sr_output := sr_output ?r @ script_text ins\<rparr>)"
    by (rule Cons.IH) (use Cons.prems in \<open>simp_all add: script_text_def\<close>)
  finally show ?case by (simp add: script_text_def add.assoc)
qed

lemma print_loop_end: "\<not> neoc_script_reader_has_more r \<Longrightarrow> print_loop A r = (Ok (), r)"
  by (simp add: print_loop.simps)

text \<open>The operand size the disassembler uses, in the convention of \<^verbatim>\<open>opcode.c\<close>: negative for a length prefix.\<close>

definition reader_operand_size :: "neoc_opcode \<Rightarrow> int" where
  "reader_operand_size opcode = (case get_operand_size_info opcode of (f, p) \<Rightarrow> int f - int p)"

definition mismatched :: "neoc_opcode list" where
  "mismatched = [0x04, 0x05, 0x23, 0x25, 0x27, 0x29, 0x2B, 0x2D, 0x2F, 0x31, 0x33, 0x35, 0x37, 0x3B, 0x3C, 0x3E, 0x3F,
     0x56, 0x57, 0x5F, 0x67, 0x6F, 0x77, 0x7F, 0x87, 0xC4, 0xD9, 0xDB]"

lemma operand_rows:
  "list_all (\<lambda>(code, _, n). (reader_operand_size code = n) = (code \<notin> set mismatched)) opcode_table"
  by code_simp

lemma mismatched_rows: "list_all (\<lambda>code. code \<in> set (map fst opcode_table)) mismatched"
  by code_simp

lemma operands_in_table:
  "get_operand_size_info opcode \<noteq> (0, 0) \<Longrightarrow> opcode \<in> set (map fst opcode_table)"
proof -
  have "list_all (\<lambda>code. code \<in> set (map fst opcode_table))
    [0x00, 0x22, 0x24, 0x26, 0x28, 0x2A, 0x2C, 0x2E, 0x30, 0x32, 0x34, 0x3D, 0x01, 0x23, 0x25, 0x27, 0x29, 0x2B, 0x2D,
     0x2F, 0x31, 0x33, 0x35, 0x3E, 0x02, 0x0A, 0x41, 0x3F, 0x03, 0x04, 0x05, 0x0C, 0x0D, 0x0E]"
    by code_simp
  moreover assume "get_operand_size_info opcode \<noteq> (0, 0)"
  then have "opcode \<in> set [0x00, 0x22, 0x24, 0x26, 0x28, 0x2A, 0x2C, 0x2E, 0x30, 0x32, 0x34, 0x3D, 0x01, 0x23, 0x25, 0x27, 0x29, 0x2B, 0x2D,
     0x2F, 0x31, 0x33, 0x35, 0x3E, 0x02, 0x0A, 0x41, 0x3F, 0x03, 0x04, 0x05, 0x0C, 0x0D, 0x0E]"
    by (rule contrapos_np) (simp add: get_operand_size_info_def)
  ultimately show ?thesis unfolding list_all_iff by blast
qed

lemma find_opcode_map_of: "find_opcode xs opcode = map_of xs opcode"
  by (induction xs opcode rule: find_opcode.induct) auto

lemma run_disassembler_position:
  assumes "run_disassembler A (Some script) n = (res, position, out)"
  shows "position \<le> length script"
  using print_loop_outcome [of "\<lparr>sr_script = script, sr_position = 0, sr_output = [], sr_output_size = n\<rparr>" A] assms
  by (auto simp: run_disassembler_def neoc_script_reader_init_def neoc_script_reader_get_position_def sr_step_def
      split: prod.splits)

lemma print_loop_passes:
  assumes "neoc_script_reader_has_more r" and "sr_position r = p"
  shows "p < sr_position (snd (print_loop A r))"
proof -
  obtain res r' where t: "print_turn A r = (res, r')" by fastforce
  have adv: "p < sr_position r'" "res \<noteq> Fault" using print_turn_advances [OF assms(1), of A] t assms(2) by simp_all
  show ?thesis
  proof (cases res)
    case (Ok u)
    with assms(1) t have "print_loop A r = print_loop A r'" by (subst print_loop.simps) simp
    moreover have "sr_position r' \<le> sr_position (snd (print_loop A r'))"
      using print_loop_outcome [of r' A] by (simp add: sr_step_def)
    ultimately show ?thesis using adv by simp
  qed (use assms(1) t adv in \<open>simp_all add: print_loop.simps [of A r]\<close>)
qed

subsection \<open>Theorems\<close>

text \<open>The disassembler is safe and total on every script, well-formed or not: it ends, reads only inside the
  script, writes only inside the output buffer (with its terminating zero), and when it reports success it has
  gone through the whole script.\<close>

theorem disassembler_safe:
  assumes "0 < n"
  shows "case run_disassembler A (Some script) n of (res, position, output) \<Rightarrow>
    res \<noteq> Fault \<and> position \<le> length script \<and> length output < n \<and> (res = Ok () \<longrightarrow> position = length script)"
proof -
  let ?r = "\<lparr>sr_script = script, sr_position = 0, sr_output = [], sr_output_size = n\<rparr>"
  have "sr_step ?r (snd (print_loop A ?r)) \<and> fst (print_loop A ?r) \<noteq> Fault
    \<and> (fst (print_loop A ?r) = Ok () \<longrightarrow> \<not> neoc_script_reader_has_more (snd (print_loop A ?r)))"
    by (rule print_loop_outcome)
  with assms show ?thesis
    by (auto simp: run_disassembler_def neoc_script_reader_init_def neoc_script_reader_get_position_def
        neoc_script_reader_has_more_def sr_step_def split: prod.split)
qed

theorem disassembler_safe_witness:
  "case run_disassembler (\<lambda>_. False) (Some [0x0C, 0x05, 0x01]) 16 of (res, position, output) \<Rightarrow>
    res \<noteq> Fault \<and> position \<le> 3 \<and> length output < 16"
  using disassembler_safe [where n = 16 and script = "[0x0C, 0x05, 0x01]" and A = "\<lambda>_. False"] by (auto split: prod.splits)

text \<open>What the disassembler prints: for a script that is a sequence of instructions (with the operand sizes of
  its own table) and a large enough buffer, one line per instruction with the name of the opcode,
  the length of a prefixed operand in decimal, and the operand in hexadecimal, cut after 255 bytes.\<close>

theorem disassembler_text:
  assumes "list_all instr_ok ins" and "length (script_text ins) < n" and "\<forall>i\<in>set ins. snd i \<noteq> [] \<longrightarrow> A (length (snd i))"
  shows "neoc_script_reader_to_opcode_string A (Some (concat (map instr_bytes ins))) n = (Ok (), script_text ins)"
proof -
  let ?bs = "concat (map instr_bytes ins)"
  let ?r = "\<lparr>sr_script = ?bs, sr_position = 0, sr_output = [], sr_output_size = n\<rparr>"
  have "print_loop A ?r = print_loop A (?r\<lparr>sr_position := length ([] :: byte list) + length ?bs, sr_output := sr_output ?r @ script_text ins\<rparr>)"
    by (rule print_instrs [where rest = "[]"]) (use assms in auto)
  also have "\<dots> = (Ok (), ?r\<lparr>sr_position := length ?bs, sr_output := script_text ins\<rparr>)"
    by (subst print_loop_end) (simp_all add: neoc_script_reader_has_more_def)
  finally show ?thesis
    by (simp add: neoc_script_reader_to_opcode_string_def run_disassembler_def neoc_script_reader_init_def)
qed

theorem disassembler_text_witness:
  "neoc_script_reader_to_opcode_string (\<lambda>_. True) (Some [0x0C, 0x02, 0xAB, 0xCD, 0x41, 0x01, 0x02, 0x03, 0x04, 0x40]) 64
   = (Ok (), ''PUSHDATA1 2 abcd'' @ [CHR 0x0A] @ ''SYSCALL 01020304'' @ [CHR 0x0A] @ ''RET'' @ [CHR 0x0A])"
proof -
  let ?ins = "[(0x0C, [0xAB, 0xCD]), (0x41, [0x01, 0x02, 0x03, 0x04]), (0x40, [])] :: (neoc_opcode \<times> byte list) list"
  have bytes: "concat (map instr_bytes ?ins) = [0x0C, 0x02, 0xAB, 0xCD, 0x41, 0x01, 0x02, 0x03, 0x04, 0x40]" by code_simp
  have printed: "script_text ?ins = ''PUSHDATA1 2 abcd'' @ [CHR 0x0A] @ ''SYSCALL 01020304'' @ [CHR 0x0A] @ ''RET'' @ [CHR 0x0A]" by code_simp
  have "list_all instr_ok ?ins" by code_simp
  from disassembler_text [OF this, of 64 "\<lambda>_. True"] show ?thesis unfolding bytes printed by simp
qed

text \<open>The hexadecimal front end on the text of an instruction sequence, with a large enough buffer: without a
  prefix it is the disassembler on the decoded bytes; with a \<^verbatim>\<open>0x\<close> prefix, which the decoder accepts, it
  reads a byte of the script buffer that was never written.\<close>

theorem disassembler_hex_prefix_faults:
  assumes "list_all instr_ok ins" and "length (script_text ins) < n" and "\<forall>k. 0 < k \<longrightarrow> A k" and "ins \<noteq> []"
  defines "bs \<equiv> concat (map instr_bytes ins)"
  shows "neoc_script_reader_to_opcode_string_hex A (Some (hex_of bs)) n
      = neoc_script_reader_to_opcode_string A (Some bs) n
    \<and> fst (neoc_script_reader_to_opcode_string_hex A (Some (''0x'' @ hex_of bs)) n) = Fault"
proof -
  let ?s = "hex_of bs"
  let ?r = "\<lparr>sr_script = bs @ [0], sr_position = 0, sr_output = [], sr_output_size = n\<rparr>"
  let ?r1 = "?r\<lparr>sr_position := length ([] :: byte list) + length bs, sr_output := sr_output ?r @ script_text ins\<rparr>"
  have A: "A k" if "0 < k" for k using assms(3) that by blast
  have ne: "bs \<noteq> []" using assms(4) by (cases ins) (auto simp: bs_def instr_bytes_def)
  have valid: "list_all neoc_hex_is_valid_char ?s" unfolding hex_of_def by (rule encoded_valid)
  have pairs: "hex_decode_pairs ?s = Ok bs" unfolding hex_of_def by (rule decode_pairs_encoded)
  have plain: "neoc_hex_decode (Some ?s) (length bs) = Ok bs"
    using valid by (simp add: neoc_hex_decode_def Let_def pairs)
  have prefixed: "neoc_hex_decode (Some (''0x'' @ ?s)) (Suc (length bs)) = Ok bs"
    by (simp add: neoc_hex_decode_def Let_def pairs)
  have fst_part: "neoc_script_reader_to_opcode_string_hex A (Some ?s) n = neoc_script_reader_to_opcode_string A (Some bs) n"
  proof -
    obtain res position out where run: "run_disassembler A (Some bs) n = (res, position, out)"
      by (cases "run_disassembler A (Some bs) n") auto
    have "position \<le> length bs" using run_disassembler_position [OF run] .
    with run plain ne A [of "length bs"] show ?thesis
      by (simp add: neoc_script_reader_to_opcode_string_hex_def neoc_script_reader_to_opcode_string_def Let_def)
  qed
  have "print_loop A ?r = print_loop A ?r1"
    unfolding bs_def by (rule print_instrs [where rest = "[0]"]) (use assms(1,2) A in auto)
  moreover have "length bs < sr_position (snd (print_loop A ?r1))"
    by (rule print_loop_passes) (simp_all add: neoc_script_reader_has_more_def)
  ultimately have passed: "length bs < sr_position (snd (print_loop A ?r))" by simp
  have "neoc_script_reader_to_opcode_string_hex A (Some (''0x'' @ ?s)) n = (Fault, sr_output (snd (print_loop A ?r)))"
    using prefixed A passed
    by (simp add: neoc_script_reader_to_opcode_string_hex_def Let_def run_disassembler_def neoc_script_reader_init_def
        neoc_script_reader_get_position_def case_prod_beta)
  with fst_part show ?thesis by simp
qed

theorem disassembler_hex_prefix_faults_witness:
  "fst (neoc_script_reader_to_opcode_string_hex (\<lambda>_. True) (Some ''0x1140'') 64) = Fault"
proof -
  have ok: "list_all instr_ok [(0x11, []), (0x40, [])]" by code_simp
  have len: "length (script_text [(0x11, []), (0x40, [])]) < 64" by code_simp
  have hex: "hex_of (concat (map instr_bytes [(0x11, []), (0x40, [])])) = ''1140''" by code_simp
  show ?thesis
    using disassembler_hex_prefix_faults [OF ok len, of "\<lambda>_. True"] unfolding hex by simp
qed

text \<open>Where the disassembler misreads: the opcodes whose operand size in its own table differs from the one in
  \<^verbatim>\<open>opcode.c\<close>.  They are the wide integers, the long jumps and calls, \<^verbatim>\<open>CALLT\<close>, the exception opcodes, the slot
  opcodes with an index, and the opcodes with a type operand; for all others both agree.\<close>

theorem disassembler_operand_mismatch:
  "reader_operand_size opcode \<noteq> neoc_opcode_get_operand_size opcode \<longleftrightarrow>
   opcode \<in> set [0x04, 0x05, 0x23, 0x25, 0x27, 0x29, 0x2B, 0x2D, 0x2F, 0x31, 0x33, 0x35, 0x37, 0x3B, 0x3C, 0x3E, 0x3F,
     0x56, 0x57, 0x5F, 0x67, 0x6F, 0x77, 0x7F, 0x87, 0xC4, 0xD9, 0xDB]"
proof -
  have "(reader_operand_size opcode \<noteq> neoc_opcode_get_operand_size opcode) = (opcode \<in> set mismatched)"
  proof (cases "map_of opcode_table opcode")
    case None
    then have out: "opcode \<notin> set (map fst opcode_table)" by (simp add: map_of_eq_None_iff)
    then have "get_operand_size_info opcode = (0, 0)" using operands_in_table by blast
    moreover have "opcode \<notin> set mismatched" using mismatched_rows out unfolding list_all_iff by blast
    ultimately show ?thesis
      using None by (simp add: reader_operand_size_def neoc_opcode_get_operand_size_def find_opcode_map_of)
  next
    case (Some row)
    obtain name k where row: "row = (name, k)" by fastforce
    with Some have "(opcode, name, k) \<in> set opcode_table" by (simp add: map_of_SomeD)
    from bspec [OF operand_rows [unfolded list_all_iff] this]
    have "(reader_operand_size opcode = k) = (opcode \<notin> set mismatched)" by (simp only: prod.case)
    moreover have "neoc_opcode_get_operand_size opcode = k"
      using Some row by (simp add: neoc_opcode_get_operand_size_def find_opcode_map_of)
    ultimately show ?thesis by simp
  qed
  then show ?thesis unfolding mismatched_def .
qed

end
