(* ===== verification/Witness.thy ===== *)
theory Witness
  imports Codec Hex
begin

text \<open>
  \<^verbatim>\<open>src/transaction/witness.c\<close>: a witness is an invocation script and a verification script; the constructors
  keep a null pointer exactly for an empty script, so a script is a byte list here.  Script lengths are
  lengths of existing objects.
\<close>

record neoc_witness =
  invocation_script :: "byte list"
  verification_script :: "byte list"

definition sizeof_witness :: nat where "sizeof_witness = 32"

definition neoc_var_int_size :: "u64 \<Rightarrow> nat" where
  "neoc_var_int_size v = (if v < 0xFD then 1 else if v \<le> 0xFFFF then 3 else if v \<le> 0xFFFFFFFF then 5 else 9)"

text \<open>A script is copied when its pointer is not null and its length not zero.\<close>

definition copy_script :: "allocator \<Rightarrow> byte list option \<Rightarrow> byte list result" where
  "copy_script A script =
     (case script of
        None \<Rightarrow> Ok []
      | Some bs \<Rightarrow> if bs = [] then Ok [] else bind_r (neoc_malloc_r A (length bs)) (\<lambda>_. Ok bs))"

definition neoc_witness_create :: "allocator \<Rightarrow> byte list option \<Rightarrow> byte list option \<Rightarrow> neoc_witness result" where
  "neoc_witness_create A invocation verification =
     bind_r (malloc_r A sizeof_witness) (\<lambda>_.
     bind_r (copy_script A invocation) (\<lambda>inv.
     bind_r (copy_script A verification) (\<lambda>ver.
       Ok \<lparr>invocation_script = inv, verification_script = ver\<rparr>)))"

definition neoc_witness_create_from_signature ::
  "allocator \<Rightarrow> byte list option \<Rightarrow> byte list option \<Rightarrow> neoc_witness result" where
  "neoc_witness_create_from_signature A signature public_key =
     (case (signature, public_key) of
        (Some sig, Some key) \<Rightarrow>
          bind_r (neoc_malloc_r A (1 + length sig)) (\<lambda>_.
          bind_r (neoc_malloc_r A (1 + length key + 1)) (\<lambda>_.
            neoc_witness_create A (Some (0x40 # sig)) (Some ([0x21] @ key @ [0xAC]))))
      | _ \<Rightarrow> Err NEOC_ERROR_INVALID_ARGUMENT)"

definition neoc_witness_get_size :: "neoc_witness option \<Rightarrow> nat" where
  "neoc_witness_get_size witness =
     (case witness of
        None \<Rightarrow> 0
      | Some w \<Rightarrow>
          neoc_var_int_size (of_nat (length (invocation_script w))) + length (invocation_script w)
          + (neoc_var_int_size (of_nat (length (verification_script w))) + length (verification_script w)))"

text \<open>A script is passed to the writer as its pointer and its length.\<close>

definition script_ptr :: "byte list \<Rightarrow> byte list option" where
  "script_ptr bs = (if bs = [] then None else Some bs)"

definition write_script :: "allocator \<Rightarrow> byte list \<Rightarrow> (neoc_binary_writer, unit) cmd" where
  "write_script A bs = neoc_binary_writer_write_var_bytes A (script_ptr bs) (of_nat (length bs))"

definition neoc_witness_serialize :: "allocator \<Rightarrow> neoc_witness option \<Rightarrow> byte list result" where
  "neoc_witness_serialize A witness =
     (case witness of
        None \<Rightarrow> Err NEOC_ERROR_INVALID_ARGUMENT
      | Some w \<Rightarrow> run_writer A 64 (then_c (write_script A (invocation_script w)) (write_script A (verification_script w))))"

definition read_scripts :: "allocator \<Rightarrow> (neoc_binary_reader, byte list option \<times> byte list option) cmd" where
  "read_scripts A =
     bind_c (neoc_binary_reader_read_var_bytes A) (\<lambda>invocation.
     bind_c (neoc_binary_reader_read_var_bytes A) (\<lambda>verification.
       return_c (invocation, verification)))"

definition neoc_witness_deserialize :: "allocator \<Rightarrow> byte list option \<Rightarrow> size_t \<Rightarrow> neoc_witness result" where
  "neoc_witness_deserialize A bytes len =
     (case bytes of
        None \<Rightarrow> Err NEOC_ERROR_INVALID_ARGUMENT
      | Some bs \<Rightarrow>
          bind_r (run_reader A (Some bs) len (read_scripts A)) (\<lambda>(invocation, verification).
            neoc_witness_create A invocation verification))"

text \<open>A text that could not be allocated is printed as the empty text.\<close>

definition script_hex :: "allocator \<Rightarrow> byte list \<Rightarrow> string" where
  "script_hex A bs =
     (if bs = [] then []
      else (case neoc_hex_encode_alloc A (Some bs) False False of Ok s \<Rightarrow> s | _ \<Rightarrow> []))"

definition neoc_witness_to_json :: "allocator \<Rightarrow> neoc_witness option \<Rightarrow> string option" where
  "neoc_witness_to_json A witness =
     (case witness of
        None \<Rightarrow> None
      | Some w \<Rightarrow>
          let invocation_hex = script_hex A (invocation_script w);
              verification_hex = script_hex A (verification_script w);
              json_size = 256 + length invocation_hex + length verification_hex
          in if \<not> A json_size then None
             else Some (take (json_size - 1)
               (''{\"invocation\":\"'' @ invocation_hex @ ''\",\"verification\":\"'' @ verification_hex @ ''\"}'')))"

definition neoc_witness_clone :: "allocator \<Rightarrow> neoc_witness option \<Rightarrow> neoc_witness result" where
  "neoc_witness_clone A source =
     (case source of
        None \<Rightarrow> Err NEOC_ERROR_INVALID_ARGUMENT
      | Some w \<Rightarrow> neoc_witness_create A (script_ptr (invocation_script w)) (script_ptr (verification_script w)))"

subsection \<open>Lemmas\<close>

definition enc_witness :: "neoc_witness \<Rightarrow> byte list" where
  "enc_witness w = enc_var_bytes (invocation_script w) @ enc_var_bytes (verification_script w)"

definition witness_ok :: "neoc_witness \<Rightarrow> bool" where
  "witness_ok w \<longleftrightarrow> length (invocation_script w) < 2 ^ 60 \<and> length (verification_script w) < 2 ^ 60"

lemma length_enc_var_int: "length (enc_var_int v) = neoc_var_int_size v"
  by (simp add: enc_var_int_def neoc_var_int_size_def)

lemma witness_size: "neoc_witness_get_size (Some w) = length (enc_witness w)"
  by (simp add: neoc_witness_get_size_def enc_witness_def length_enc_var_bytes length_enc_var_int)

lemma writes_write_script: "length bs < 2 ^ 64 \<Longrightarrow> writes A (write_script A bs) (enc_var_bytes bs)"
proof (cases "bs = []")
  case True
  then show ?thesis
    using writes_write_var_bytes [of "[]" A]
    by (simp add: write_script_def script_ptr_def neoc_binary_writer_write_var_bytes_def)
next
  case False
  moreover assume "length bs < 2 ^ 64"
  ultimately show ?thesis using writes_write_var_bytes [of bs A] by (simp add: write_script_def script_ptr_def)
qed

lemma writes_witness:
  "witness_ok w \<Longrightarrow>
     writes A (then_c (write_script A (invocation_script w)) (write_script A (verification_script w))) (enc_witness w)"
  unfolding enc_witness_def by (intro writes_then writes_write_script) (simp_all add: witness_ok_def)

lemma length_enc_witness: "length (enc_witness w) \<le> length (invocation_script w) + length (verification_script w) + 18"
  using enc_var_int_le_9 [of "of_nat (length (invocation_script w))"]
    enc_var_int_le_9 [of "of_nat (length (verification_script w))"]
  by (simp add: enc_witness_def length_enc_var_bytes)

lemma length_enc_witness_bound: "witness_ok w \<Longrightarrow> length (enc_witness w) < 2 ^ 62"
  using length_enc_witness [of w] by (simp add: witness_ok_def)

lemma witness_serialize_cases:
  "witness_ok w \<Longrightarrow> neoc_witness_serialize A (Some w) = Ok (enc_witness w)
     \<or> neoc_witness_serialize A (Some w) = Err NEOC_ERROR_MEMORY"
  unfolding neoc_witness_serialize_def option.case
  by (rule run_writer_cases [OF writes_witness]) (auto dest: length_enc_witness_bound)

lemma witness_serialize_Ok:
  "witness_ok w \<Longrightarrow> grants A (64 + 2 * length (enc_witness w)) \<Longrightarrow>
     neoc_witness_serialize A (Some w) = Ok (enc_witness w)"
  unfolding neoc_witness_serialize_def option.case
  by (rule run_writer_Ok [OF writes_witness]) (auto dest: length_enc_witness_bound elim: grants_mono)

lemma copy_script_Ok: "A (length bs) \<Longrightarrow> copy_script A (script_ptr bs) = Ok bs"
  by (simp add: copy_script_def script_ptr_def)

lemma null_if_empty_ptr: "null_if_empty = script_ptr"
  by (simp add: fun_eq_iff null_if_empty_def script_ptr_def)

lemma reads_scripts:
  assumes "witness_ok w" and "grants A (length (enc_witness w))"
  shows "reads (read_scripts A) (enc_witness w) (script_ptr (invocation_script w), script_ptr (verification_script w))"
proof -
  have "A (length (invocation_script w))" "A (length (verification_script w))"
    using assms(2) by (auto simp: grants_def enc_witness_def length_enc_var_bytes)
  then have one: "reads (neoc_binary_reader_read_var_bytes A) (enc_var_bytes (invocation_script w)) (script_ptr (invocation_script w))"
    and two: "reads (neoc_binary_reader_read_var_bytes A) (enc_var_bytes (verification_script w)) (script_ptr (verification_script w))"
    unfolding null_if_empty_ptr [symmetric]
    using assms(1) reads_read_var_bytes by (simp_all add: witness_ok_def)
  show ?thesis
    unfolding read_scripts_def enc_witness_def by (rule reads_bind [OF one]) (rule reads_map [OF two refl])
qed

subsection \<open>Theorems\<close>

text \<open>A witness survives serialization: its bytes are the two scripts, each with its length; \<^verbatim>\<open>neoc_witness_get_size\<close>
  is their number; reading them back, whatever follows them in the input, gives an equal witness; and so
  does cloning it.\<close>

theorem witness_roundtrip:
  assumes "witness_ok w" and "length rest < 2 ^ 60" and "grants A (64 + 2 * length (enc_witness w @ rest))"
  shows "neoc_witness_serialize A (Some w) = Ok (enc_witness w)
    \<and> length (enc_witness w) = neoc_witness_get_size (Some w)
    \<and> neoc_witness_deserialize A (Some (enc_witness w @ rest)) (of_nat (length (enc_witness w @ rest))) = Ok w
    \<and> neoc_witness_clone A (Some w) = Ok w"
proof -
  have g: "grants A (64 + 2 * length (enc_witness w))" "grants A (max 40 (length (enc_witness w @ rest)))"
    "grants A (length (enc_witness w))"
    using assms(3) by (auto elim!: grants_mono)
  have copies: "A (length (invocation_script w))" "A (length (verification_script w))" "A 32"
    using assms(3) by (auto simp: grants_def enc_witness_def length_enc_var_bytes)
  have "run_reader A (Some (enc_witness w @ rest)) (of_nat (length (enc_witness w @ rest))) (read_scripts A)
      = Ok (script_ptr (invocation_script w), script_ptr (verification_script w))"
    using assms(1,2) g length_enc_witness [of w]
    by (intro run_reader_reads reads_scripts) (auto simp: witness_ok_def)
  then show ?thesis
    using assms(1) g(1) copies
    by (simp add: witness_serialize_Ok witness_size neoc_witness_deserialize_def neoc_witness_create_def sizeof_witness_def
        copy_script_Ok neoc_witness_clone_def)
qed

theorem witness_roundtrip_witness:
  "neoc_witness_deserialize (\<lambda>_. True) (Some [2, 7, 8, 0, 99]) 5
   = Ok \<lparr>invocation_script = [7, 8], verification_script = []\<rparr>"
proof -
  let ?w = "\<lparr>invocation_script = [7, 8], verification_script = []\<rparr>"
  have "enc_witness ?w @ [99] = [2, 7, 8, 0, 99]" by code_simp
  with witness_roundtrip [of ?w "[99]" "\<lambda>_. True"] show ?thesis by (simp add: witness_ok_def)
qed

end
