(* ===== verification/Script_Helper.thy ===== *)
theory Script_Helper
  imports Script_Builder
begin

text \<open>
  \<^verbatim>\<open>src/script/script_helper.c\<close>: whole verification, invocation and call scripts, and the two functions of
  \<^verbatim>\<open>src/types/neoc_hash160.c\<close> that hash a verification script.  A list of keys is the list of the C arrays
  with their lengths.
\<close>

definition neoc_script_create_single_sig_verification ::
  "allocator \<Rightarrow> crypto \<Rightarrow> interop_table \<Rightarrow> byte list option \<Rightarrow> byte list result" where
  "neoc_script_create_single_sig_verification A C T public_key =
     (case public_key of
        None \<Rightarrow> Err NEOC_ERROR_INVALID_ARGUMENT
      | Some key \<Rightarrow>
          if length key \<noteq> 33 \<and> length key \<noteq> 65 then Err NEOC_ERROR_INVALID_SIZE
          else run_builder A
            (then_c (neoc_script_builder_push_data A (Some key) (of_nat (length key)))
                    (neoc_script_builder_emit_syscall A C T NEOC_INTEROP_SYSTEM_CRYPTO_CHECKSIG)))"

definition neoc_script_create_single_sig_invocation :: "allocator \<Rightarrow> byte list option \<Rightarrow> byte list result" where
  "neoc_script_create_single_sig_invocation A signature =
     (case signature of
        None \<Rightarrow> Err NEOC_ERROR_INVALID_ARGUMENT
      | Some sig \<Rightarrow>
          if length sig \<noteq> 64 \<and> length sig \<noteq> 65 then Err NEOC_ERROR_INVALID_SIZE
          else run_builder A (neoc_script_builder_push_data A (Some sig) (of_nat (length sig))))"

text \<open>The bodies of the loops over keys and over signatures.\<close>

definition push_sized :: "allocator \<Rightarrow> nat \<Rightarrow> nat \<Rightarrow> byte list \<Rightarrow> (neoc_script_builder, unit) cmd" where
  "push_sized A m n bs =
     (if length bs \<noteq> m \<and> length bs \<noteq> n then fail_c NEOC_ERROR_INVALID_SIZE
      else neoc_script_builder_push_data A (Some bs) (of_nat (length bs)))"

definition neoc_script_create_multi_sig_verification_internal ::
  "allocator \<Rightarrow> crypto \<Rightarrow> interop_table \<Rightarrow> byte list list option \<Rightarrow> size_t \<Rightarrow> byte list result" where
  "neoc_script_create_multi_sig_verification_internal A C T public_keys min_signatures =
     (case public_keys of
        None \<Rightarrow> Err NEOC_ERROR_INVALID_ARGUMENT
      | Some keys \<Rightarrow>
          if length keys = 0 \<or> 1024 < length keys then Err NEOC_ERROR_INVALID_SIZE
          else if min_signatures = 0 \<or> of_nat (length keys) < min_signatures then Err NEOC_ERROR_INVALID_ARGUMENT
          else run_builder A
            (then_c (neoc_script_builder_push_integer A min_signatures)
            (then_c (foreach_c (push_sized A 33 65) keys)
            (then_c (neoc_script_builder_push_integer A (of_nat (length keys)))
                    (neoc_script_builder_emit_syscall A C T NEOC_INTEROP_SYSTEM_CRYPTO_CHECKMULTISIG)))))"

definition neoc_script_create_multisig_verification ::
  "allocator \<Rightarrow> crypto \<Rightarrow> interop_table \<Rightarrow> byte \<Rightarrow> byte list list option \<Rightarrow> byte list result" where
  "neoc_script_create_multisig_verification A C T minimum_signatures public_keys =
     neoc_script_create_multi_sig_verification_internal A C T public_keys (ucast minimum_signatures)"

definition neoc_script_create_multi_sig_verification ::
  "allocator \<Rightarrow> crypto \<Rightarrow> interop_table \<Rightarrow> byte list list option \<Rightarrow> size_t \<Rightarrow> byte list result" where
  "neoc_script_create_multi_sig_verification A C T public_keys min_signatures =
     neoc_script_create_multi_sig_verification_internal A C T public_keys min_signatures"

text \<open>The parameters are an array of structs, so no item is null; the array itself may be.\<close>

definition neoc_script_create_contract_call ::
  "allocator \<Rightarrow> crypto \<Rightarrow> interop_table \<Rightarrow> neoc_hash160 option \<Rightarrow> byte list option
   \<Rightarrow> contract_parameter list option \<Rightarrow> nat \<Rightarrow> byte list result" where
  "neoc_script_create_contract_call A C T contract_hash method params param_count =
     (case (contract_hash, method) of
        (Some hash, Some name) \<Rightarrow>
          run_builder A
            (then_c (case params of
                       Some ps \<Rightarrow> foreach_c (\<lambda>p. neoc_script_builder_push_param A (Some p)) (rev (take param_count ps))
                     | None \<Rightarrow> return_c ())
            (then_c (if 0 < param_count
                     then then_c (neoc_script_builder_push_integer A (of_nat param_count))
                                 (neoc_script_builder_emit A NEOC_OP_PACK)
                     else neoc_script_builder_emit A NEOC_OP_NEWARRAY0)
            (then_c (neoc_script_builder_push_string A (Some name))
            (then_c (neoc_script_builder_push_data A (Some hash) 20)
                    (neoc_script_builder_emit_syscall A C T NEOC_INTEROP_SYSTEM_CONTRACT_CALL)))))
      | _ \<Rightarrow> Err NEOC_ERROR_INVALID_ARGUMENT)"

definition transfer_name :: "byte list" where
  "transfer_name = string_bytes ''transfer''"

definition neoc_script_create_nep17_transfer ::
  "allocator \<Rightarrow> crypto \<Rightarrow> interop_table \<Rightarrow> neoc_hash160 option \<Rightarrow> neoc_hash160 option \<Rightarrow> neoc_hash160 option
   \<Rightarrow> u64 \<Rightarrow> byte list option \<Rightarrow> byte list result" where
  "neoc_script_create_nep17_transfer A C T token_hash from_hash to_hash amount data =
     (case (token_hash, from_hash, to_hash) of
        (Some token, Some sender, Some receiver) \<Rightarrow>
          run_builder A
            (then_c (case data of
                       Some d \<Rightarrow> if 0 < length d then neoc_script_builder_push_data A (Some d) (of_nat (length d))
                                  else neoc_script_builder_emit A NEOC_OP_PUSHNULL
                     | None \<Rightarrow> neoc_script_builder_emit A NEOC_OP_PUSHNULL)
            (then_c (neoc_script_builder_push_integer A amount)
            (then_c (neoc_script_builder_push_data A (Some receiver) 20)
            (then_c (neoc_script_builder_push_data A (Some sender) 20)
            (then_c (neoc_script_builder_push_integer A 4)
            (then_c (neoc_script_builder_emit A NEOC_OP_PACK)
            (then_c (neoc_script_builder_push_string A (Some transfer_name))
            (then_c (neoc_script_builder_push_data A (Some token) 20)
            (then_c (neoc_script_builder_emit_syscall A C T NEOC_INTEROP_SYSTEM_CONTRACT_CALL)
                    (neoc_script_builder_emit A NEOC_OP_ASSERT))))))))))
      | _ \<Rightarrow> Err NEOC_ERROR_INVALID_ARGUMENT)"

definition neoc_script_create_witness_invocation :: "allocator \<Rightarrow> byte list option \<Rightarrow> byte list result" where
  "neoc_script_create_witness_invocation A signature =
     (case signature of
        None \<Rightarrow> Err NEOC_ERROR_INVALID_ARGUMENT
      | Some sig \<Rightarrow>
          if length sig \<noteq> 64 \<and> length sig \<noteq> 65 then Err NEOC_ERROR_INVALID_SIZE
          else run_builder A (neoc_script_builder_push_data A (Some sig) (of_nat (length sig))))"

definition neoc_script_create_witness_multi_invocation ::
  "allocator \<Rightarrow> byte list list option \<Rightarrow> byte list result" where
  "neoc_script_create_witness_multi_invocation A signatures =
     (case signatures of
        None \<Rightarrow> Err NEOC_ERROR_INVALID_ARGUMENT
      | Some sigs \<Rightarrow>
          if length sigs = 0 \<or> 1024 < length sigs then Err NEOC_ERROR_INVALID_SIZE
          else run_builder A (foreach_c (push_sized A 64 65) sigs))"

definition neoc_script_hash_to_address ::
  "crypto \<Rightarrow> allocator \<Rightarrow> neoc_hash160 option \<Rightarrow> byte \<Rightarrow> string result" where
  "neoc_script_hash_to_address C A script_hash version =
     (case script_hash of
        None \<Rightarrow> Err NEOC_ERROR_INVALID_ARGUMENT
      | Some h \<Rightarrow>
          let address_version = (if version \<noteq> 0 then version else NEOC_ADDRESS_VERSION);
              versioned = address_version # h;
              buffer_size = neoc_base58_check_encode_buffer_size (length versioned)
          in bind_r (malloc_r A buffer_size) (\<lambda>_. neoc_base58_check_encode C A (Some versioned) buffer_size))"

definition neoc_script_address_to_hash :: "crypto \<Rightarrow> allocator \<Rightarrow> string option \<Rightarrow> neoc_hash160 result" where
  "neoc_script_address_to_hash C A address =
     (case address of
        None \<Rightarrow> Err NEOC_ERROR_INVALID_ARGUMENT
      | Some s \<Rightarrow> neoc_hash160_from_address C A (Some s))"

definition neoc_hash160_from_public_key ::
  "allocator \<Rightarrow> crypto \<Rightarrow> interop_table \<Rightarrow> byte list option \<Rightarrow> neoc_hash160 result" where
  "neoc_hash160_from_public_key A C T public_key_data =
     (case public_key_data of
        None \<Rightarrow> Err NEOC_ERROR_NULL_POINTER
      | Some key \<Rightarrow>
          bind_r (neoc_script_create_single_sig_verification A C T (Some key)) (\<lambda>script.
            neoc_hash160_from_script C (Some script)))"

text \<open>The threshold is a \<^verbatim>\<open>size_t\<close> that is cast to \<^verbatim>\<open>uint8_t\<close> for the call.\<close>

definition neoc_hash160_from_public_keys ::
  "allocator \<Rightarrow> crypto \<Rightarrow> interop_table \<Rightarrow> byte list list option \<Rightarrow> size_t \<Rightarrow> neoc_hash160 result" where
  "neoc_hash160_from_public_keys A C T public_keys signing_threshold =
     (case public_keys of
        None \<Rightarrow> Err NEOC_ERROR_NULL_POINTER
      | Some keys \<Rightarrow>
          if length keys = 0 \<or> signing_threshold = 0 \<or> of_nat (length keys) < signing_threshold
          then Err NEOC_ERROR_INVALID_ARGUMENT
          else if 1024 < length keys then Err NEOC_ERROR_INVALID_ARGUMENT
          else bind_r (neoc_script_create_multisig_verification A C T (ucast signing_threshold) (Some keys)) (\<lambda>script.
            neoc_hash160_from_script C (Some script)))"

subsection \<open>Layouts\<close>

abbreviation checksig_hash :: "crypto \<Rightarrow> interop_table \<Rightarrow> u32" where
  "checksig_hash C T \<equiv> fst (neoc_interop_get_hash C NEOC_INTEROP_SYSTEM_CRYPTO_CHECKSIG T)"

abbreviation checkmultisig_hash :: "crypto \<Rightarrow> interop_table \<Rightarrow> u32" where
  "checkmultisig_hash C T \<equiv> fst (neoc_interop_get_hash C NEOC_INTEROP_SYSTEM_CRYPTO_CHECKMULTISIG T)"

abbreviation contract_call_hash :: "crypto \<Rightarrow> interop_table \<Rightarrow> u32" where
  "contract_call_hash C T \<equiv> fst (neoc_interop_get_hash C NEOC_INTEROP_SYSTEM_CONTRACT_CALL T)"

definition key_size :: "byte list \<Rightarrow> bool" where
  "key_size key \<longleftrightarrow> length key = 33 \<or> length key = 65"

definition multisig_layout :: "u32 \<Rightarrow> size_t \<Rightarrow> byte list list \<Rightarrow> byte list" where
  "multisig_layout hash m keys =
     enc_push_int m @ concat (map enc_push_data keys) @ enc_push_int (of_nat (length keys)) @ enc_syscall hash"

lemma enc_push_key: "key_size key \<Longrightarrow> enc_push_data key = [0x0C, of_nat (length key)] @ key"
  by (auto simp: key_size_def enc_push_data_def le_bytes_def)

lemma push_sized_keys:
  assumes "\<And>key. key \<in> set keys \<Longrightarrow> key_size key"
  shows "foreach_c (push_sized A 33 65) keys
    = foreach_c (\<lambda>key. neoc_script_builder_push_data A (Some key) (of_nat (length key))) keys"
  using assms by (intro foreach_c_cong refl) (auto simp: key_size_def push_sized_def)

lemma push_checked_keys:
  assumes "\<And>key. key \<in> set keys \<Longrightarrow> key_size key"
  shows "foreach_c (push_checked_key A) (map Some keys) = foreach_c (push_sized A 33 65) keys"
  using assms
proof (induction keys)
  case (Cons key keys)
  have "key_size key" using Cons.prems [of key] by simp
  then have "push_checked_key A (Some key) = push_sized A 33 65 key"
    by (auto simp: key_size_def push_sized_def push_checked_key_def)
  with Cons show ?case by simp
qed simp

lemma writes_push_keys:
  assumes "\<And>key. key \<in> set keys \<Longrightarrow> key_size key"
  shows "writes A (foreach_c (\<lambda>key. neoc_script_builder_push_data A (Some key) (of_nat (length key))) keys)
    (concat (map enc_push_data keys))"
proof (rule writes_foreach)
  fix key
  assume "key \<in> set keys"
  with assms have "length key < 2 ^ 64" by (fastforce simp: key_size_def)
  then show "writes A (neoc_script_builder_push_data A (Some key) (of_nat (length key))) (enc_push_data key)"
    by (rule writes_push_bytes)
qed

lemma writes_multisig:
  assumes "\<And>key. key \<in> set keys \<Longrightarrow> key_size key"
  shows "writes A
    (then_c (neoc_script_builder_push_integer A m)
    (then_c (foreach_c (\<lambda>key. neoc_script_builder_push_data A (Some key) (of_nat (length key))) keys)
    (then_c (neoc_script_builder_push_integer A (of_nat (length keys)))
            (neoc_script_builder_emit_syscall A C T NEOC_INTEROP_SYSTEM_CRYPTO_CHECKMULTISIG))))
    (multisig_layout (checkmultisig_hash C T) m keys)"
  unfolding multisig_layout_def
  by (intro writes_then writes_push_integer writes_push_keys writes_emit_syscall assms)

lemma length_multisig_layout:
  assumes "\<And>key. key \<in> set keys \<Longrightarrow> key_size key"
  shows "length (multisig_layout hash m keys) \<le> 23 + 67 * length keys"
proof -
  have "length (concat (map enc_push_data keys)) \<le> 67 * length keys"
    using assms
  proof (induction keys)
    case (Cons key keys)
    have "length (enc_push_data key) \<le> 67" using Cons.prems [of key] by (auto simp: enc_push_key key_size_def)
    with Cons show ?case by simp
  qed simp
  then show ?thesis
    using length_enc_push_int [of m] length_enc_push_int [of "of_nat (length keys)"]
    by (simp add: multisig_layout_def enc_syscall_def)
qed

lemma multi_sig_internal_eq:
  assumes "keys \<noteq> []" and "length keys \<le> 1024" and "m \<noteq> 0" and "m \<le> of_nat (length keys)"
    and "\<And>key. key \<in> set keys \<Longrightarrow> key_size key" and "grants A 140000"
  shows "neoc_script_create_multi_sig_verification_internal A C T (Some keys) m
    = Ok (multisig_layout (checkmultisig_hash C T) m keys)"
proof -
  let ?layout = "multisig_layout (checkmultisig_hash C T) m keys"
  have push: "foreach_c (push_sized A 33 65) keys
      = foreach_c (\<lambda>key. neoc_script_builder_push_data A (Some key) (of_nat (length key))) keys"
    using assms(5) by (rule push_sized_keys)
  have "length ?layout \<le> 23 + 67 * length keys" using assms(5) by (rule length_multisig_layout)
  with assms(2) have len: "length ?layout \<le> 69000" by simp
  have "run_builder A
      (then_c (neoc_script_builder_push_integer A m)
      (then_c (foreach_c (\<lambda>key. neoc_script_builder_push_data A (Some key) (of_nat (length key))) keys)
      (then_c (neoc_script_builder_push_integer A (of_nat (length keys)))
              (neoc_script_builder_emit_syscall A C T NEOC_INTEROP_SYSTEM_CRYPTO_CHECKMULTISIG)))) = Ok ?layout"
    by (rule run_builder_Ok [OF writes_multisig [OF assms(5)]]) (use len assms(6) in \<open>auto elim!: grants_mono\<close>)
  then show ?thesis
    using assms(1-4) push by (simp add: neoc_script_create_multi_sig_verification_internal_def not_less)
qed

lemma single_sig_eq:
  assumes "key_size key" and "grants A 1000"
  shows "neoc_script_create_single_sig_verification A C T (Some key)
    = Ok ([0x0C, of_nat (length key)] @ key @ enc_syscall (checksig_hash C T))"
proof -
  have size: "length key < 2 ^ 64" "length key \<le> 65" using assms(1) by (auto simp: key_size_def)
  let ?bs = "enc_push_data key @ enc_syscall (checksig_hash C T)"
  have "length ?bs \<le> 100" using size enc_push_key [OF assms(1)] by (simp add: enc_syscall_def)
  then have "run_builder A (then_c (neoc_script_builder_push_data A (Some key) (of_nat (length key)))
      (neoc_script_builder_emit_syscall A C T NEOC_INTEROP_SYSTEM_CRYPTO_CHECKSIG)) = Ok ?bs"
    using assms(2) by (intro run_builder_Ok writes_then writes_push_bytes writes_emit_syscall size) (auto elim!: grants_mono)
  then show ?thesis
    using assms(1) by (auto simp: neoc_script_create_single_sig_verification_def enc_push_key key_size_def)
qed

subsection \<open>Properties\<close>

text \<open>The two implementations of the single-signature verification script agree: for a 33- or 65-byte key both
  produce \<^verbatim>\<open>PUSHDATA1\<close>, the length, the key, \<^verbatim>\<open>SYSCALL\<close> and the four hash bytes of the signature check.\<close>

theorem single_sig_scripts_agree:
  assumes "key_size key" and "grants A 1000"
  shows "neoc_script_create_single_sig_verification A C T (Some key)
      = Ok ([0x0C, of_nat (length key)] @ key @ enc_syscall (checksig_hash C T))
    \<and> neoc_script_builder_build_verification_script A C T (Some key)
      = neoc_script_create_single_sig_verification A C T (Some key)"
proof -
  have "A (1 + 1 + length key + 1 + 4)" by (rule grantsD [OF assms(2)]) (use assms(1) in \<open>auto simp: key_size_def\<close>)
  then show ?thesis
    using assms(1) single_sig_eq [OF assms]
    by (auto simp: neoc_script_builder_build_verification_script_def key_size_def enc_syscall_def)
qed

theorem single_sig_scripts_agree_witness:
  "neoc_script_builder_build_verification_script (\<lambda>_. True) toy_crypto initial_interop_table (Some (replicate 33 2))
   = neoc_script_create_single_sig_verification (\<lambda>_. True) toy_crypto initial_interop_table (Some (replicate 33 2))"
  using single_sig_scripts_agree [of "replicate 33 2" "\<lambda>_. True" toy_crypto initial_interop_table]
  by (simp add: key_size_def)

text \<open>The two implementations of the multi-signature verification script agree on every valid input (1 to 1024
  keys of 33 or 65 bytes, a threshold between 1 and the number of keys) and produce the
  documented layout: threshold, keys in order, number of keys, system call.\<close>

theorem multi_sig_scripts_agree:
  assumes "keys \<noteq> []" and "length keys \<le> 1024" and "0 < m" and "m \<le> int (length keys)"
    and "\<forall>key \<in> set keys. key_size key" and "grants A 140000"
  shows "neoc_script_create_multi_sig_verification A C T (Some keys) (word_of_int m)
      = Ok (multisig_layout (checkmultisig_hash C T) (word_of_int m) keys)
    \<and> neoc_script_builder_build_multisig_script A C T m (Some (map Some keys))
      = neoc_script_create_multi_sig_verification A C T (Some keys) (word_of_int m)"
proof -
  let ?m = "word_of_int m :: size_t"
  have "uint ?m = m" using assms(2-4) by (simp add: uint_word_of_int)
  then have um: "unat ?m = nat m" by (simp add: unat_eq_nat_uint)
  then have "?m \<noteq> 0" "?m \<le> of_nat (length keys)"
    using assms(2-4) by (auto simp: size_le_iff unat_of_nat_size)
  then have helper: "neoc_script_create_multi_sig_verification A C T (Some keys) ?m
      = Ok (multisig_layout (checkmultisig_hash C T) ?m keys)"
    using multi_sig_internal_eq assms by (simp add: neoc_script_create_multi_sig_verification_def)
  have "neoc_script_builder_build_multisig_script A C T m (Some (map Some keys))
      = neoc_script_create_multi_sig_verification A C T (Some keys) ?m"
    using assms \<open>?m \<noteq> 0\<close> \<open>?m \<le> of_nat (length keys)\<close> push_checked_keys [of keys A]
    by (simp add: neoc_script_builder_build_multisig_script_def neoc_script_create_multi_sig_verification_def
        neoc_script_create_multi_sig_verification_internal_def leD)
  with helper show ?thesis by simp
qed

theorem multi_sig_scripts_agree_witness:
  "neoc_script_builder_build_multisig_script (\<lambda>_. True) toy_crypto initial_interop_table 1
     (Some (map Some [replicate 33 2, replicate 33 3]))
   = neoc_script_create_multi_sig_verification (\<lambda>_. True) toy_crypto initial_interop_table
       (Some [replicate 33 2, replicate 33 3]) 1"
  using multi_sig_scripts_agree [of "[replicate 33 2, replicate 33 3]" 1 "\<lambda>_. True" toy_crypto initial_interop_table]
  by (simp add: key_size_def)

text \<open>The threshold of a multi-signature hash is cut to eight bits: for 257 to 1024 keys, the script hash
  of a 257-signature account is the script hash of the one-signature account of the same
  keys.\<close>

theorem multisig_threshold_truncated:
  assumes "257 \<le> length keys"
  shows "neoc_hash160_from_public_keys A C T (Some keys) 257 = neoc_hash160_from_public_keys A C T (Some keys) 1"
proof (cases "1024 < length keys")
  case False
  have "keys \<noteq> []" using assms by auto
  with False assms have "\<not> of_nat (length keys) < (257 :: size_t)" "\<not> of_nat (length keys) < (1 :: size_t)"
    by (simp_all add: size_less_iff unat_of_nat_size)
  moreover have cut: "(257 :: byte) = 1" by simp
  ultimately show ?thesis by (simp add: neoc_hash160_from_public_keys_def cut)
next
  case True
  then show ?thesis by (auto simp: neoc_hash160_from_public_keys_def)
qed

theorem multisig_threshold_truncated_witness:
  "neoc_hash160_from_public_keys (\<lambda>_. True) toy_crypto initial_interop_table (Some (replicate 300 (replicate 33 2))) 257
   = neoc_hash160_from_public_keys (\<lambda>_. True) toy_crypto initial_interop_table (Some (replicate 300 (replicate 33 2))) 1"
  by (rule multisig_threshold_truncated) simp

text \<open>The address functions of the script helper are not inverse to each other: an address made from a script
  hash by \<^verbatim>\<open>neoc_script_hash_to_address\<close> is accepted by \<^verbatim>\<open>neoc_script_address_to_hash\<close> and yields the hash
  with its bytes reversed.\<close>

theorem script_address_reverses:
  assumes "crypto_works C" and "grants A (neoc_base58_check_encode_buffer_size 21)" and "length h = 20"
    and "version = 0 \<or> version = NEOC_ADDRESS_VERSION"
  shows "bind_r (neoc_script_hash_to_address C A (Some h) version)
    (\<lambda>s. neoc_script_address_to_hash C A (Some s)) = Ok (rev h)"
proof -
  let ?v = "NEOC_ADDRESS_VERSION # h"
  have g: "grants A (neoc_base58_check_encode_buffer_size (length ?v))" using assms(2,3) by simp
  then obtain s where s: "neoc_base58_check_encode_alloc C A (Some ?v) = Ok s"
    "neoc_base58_check_decode_alloc C A (Some s) = Ok ?v"
    by (rule check_alloc_roundtrip [OF assms(1)]) (use assms(3) in simp_all)
  have "A (neoc_base58_check_encode_buffer_size (length ?v))" by (rule grantsD [OF g]) simp
  then have "neoc_script_hash_to_address C A (Some h) version = Ok s"
    using s(1) assms(4) by (auto simp: neoc_script_hash_to_address_def neoc_base58_check_encode_alloc_def Let_def)
  moreover have "neoc_script_address_to_hash C A (Some s) = Ok (rev h)"
    using s(2) assms(3) map_rev_index_tail [of ?v 20]
    by (simp add: neoc_script_address_to_hash_def neoc_hash160_from_address_def hash_sizes)
  ultimately show ?thesis by simp
qed

theorem script_address_reverses_witness:
  "bind_r (neoc_script_hash_to_address toy_crypto (\<lambda>_. True) (Some (1 # replicate 19 0)) 0)
     (\<lambda>s. neoc_script_address_to_hash toy_crypto (\<lambda>_. True) (Some s)) = Ok (replicate 19 0 @ [1])"
  using script_address_reverses [OF toy_crypto_works, of "\<lambda>_. True" "1 # replicate 19 0" 0] by simp

text \<open>The helper's contract-call script has no call flags: for a call without arguments it is the script the
  builder emits with the push of the flags left out.\<close>

theorem helper_call_omits_flags:
  fixes C :: crypto and T :: interop_table
  assumes "length h = 20" and "length method < 2 ^ 20" and "grants A (2 ^ 22)"
  defines "rest \<equiv> enc_push_data method @ enc_push_data h @ enc_syscall (contract_call_hash C T)"
  shows "neoc_script_create_contract_call A C T (Some h) (Some method) None 0 = Ok (0xC2 # rest)
    \<and> run_builder A (neoc_script_builder_contract_call A C T (Some h) (Some method) 0 flags)
      = Ok (0xC2 # enc_push_int flags @ rest)"
proof -
  have h: "writes A (neoc_script_builder_push_data A (Some h) 20) (enc_push_data h)"
    using writes_push_data [of 20 h A] assms(1) by simp
  have m: "writes A (neoc_script_builder_push_string A (Some method)) (enc_push_data method)"
    using assms(2) by (intro writes_push_string) simp
  have w: "writes A (then_c (neoc_script_builder_push_string A (Some method))
      (then_c (neoc_script_builder_push_data A (Some h) 20)
        (neoc_script_builder_emit_syscall A C T NEOC_INTEROP_SYSTEM_CONTRACT_CALL))) rest"
    unfolding rest_def by (intro writes_then m h writes_emit_syscall)
  have "length (enc_push_data bs) \<le> length bs + 5" for bs by (simp add: enc_push_data_def)
  from this [of "method"] this [of h] have len: "length rest \<le> 2 ^ 20 + 35"
    using assms(1,2) by (simp add: rest_def enc_syscall_def)
  note run = run_builder_Ok [where A = A]
  have "run_builder A (then_c (neoc_script_builder_emit A NEOC_OP_NEWARRAY0) (then_c (neoc_script_builder_push_string A (Some method))
      (then_c (neoc_script_builder_push_data A (Some h) 20)
        (neoc_script_builder_emit_syscall A C T NEOC_INTEROP_SYSTEM_CONTRACT_CALL)))) = Ok (0xC2 # rest)"
    by (intro run writes_emit_then w) (use len assms(3) in \<open>auto elim!: grants_mono\<close>)
  moreover have "run_builder A (then_c (neoc_script_builder_emit A NEOC_OP_NEWARRAY0)
      (then_c (neoc_script_builder_push_integer A flags) (then_c (neoc_script_builder_push_string A (Some method))
      (then_c (neoc_script_builder_push_data A (Some h) 20)
        (neoc_script_builder_emit_syscall A C T NEOC_INTEROP_SYSTEM_CONTRACT_CALL)))))
      = Ok (0xC2 # enc_push_int flags @ rest)"
    by (intro run writes_emit_then writes_then writes_push_integer w)
       (use len length_enc_push_int [of flags] assms(3) in \<open>auto elim!: grants_mono\<close>)
  ultimately show ?thesis
    by (simp add: neoc_script_create_contract_call_def neoc_script_builder_contract_call_def
        neoc_hash160_to_bytes_def hash_sizes)
qed

theorem helper_call_omits_flags_witness:
  "neoc_script_create_contract_call (\<lambda>_. True) toy_crypto initial_interop_table (Some (replicate 20 1)) (Some [97]) None 0
   = Ok (0xC2 # enc_push_data [97] @ enc_push_data (replicate 20 1)
       @ enc_syscall (contract_call_hash toy_crypto initial_interop_table))"
  using helper_call_omits_flags [of "replicate 20 1" "[97]" "\<lambda>_. True" toy_crypto initial_interop_table] by simp

end
