(* ===== verification/Script_Object.thy ===== *)
theory Script_Object
  imports Witness Script_Helper
begin

text \<open>
  What invocation scripts (\<^verbatim>\<open>src/script/invocation_script.c\<close>) and verification scripts (\<^verbatim>\<open>src/script/verification_script.c\<close>) have in
  common.  Both are objects that own one byte array, null exactly when it is empty, and the two files repeat the same allocation,
  copying, comparison and serialization.  The locale \<open>script_object\<close> states these operations over the bytes of an object and
  proves the facts that follow from them once; each of the two theories interprets it on its own definitions.
\<close>

definition sizeof_script_object :: nat where "sizeof_script_object = 16"

text \<open>\<^verbatim>\<open>neoc_memdup\<close> of a pointer and a length: nothing for a null pointer or no bytes.\<close>

definition memdup_r :: "allocator \<Rightarrow> byte list option \<Rightarrow> nat \<Rightarrow> byte list option result" where
  "memdup_r A data n =
     (case data of
        None \<Rightarrow> Ok None
      | Some bs \<Rightarrow>
          if n = 0 \<or> \<not> A n then Ok None
          else if length bs < n then Fault else Ok (Some (take n bs)))"

locale script_object =
  fixes bytes_of :: "'s \<Rightarrow> byte list"
    and make :: "byte list \<Rightarrow> 's"
    and create :: "allocator \<Rightarrow> byte list option \<Rightarrow> nat \<Rightarrow> 's result"
    and copy :: "allocator \<Rightarrow> 's option \<Rightarrow> 's result"
    and equals :: "'s option \<Rightarrow> 's option \<Rightarrow> bool"
    and get_size :: "'s option \<Rightarrow> nat"
    and serialize :: "allocator \<Rightarrow> 's option \<Rightarrow> byte list result"
    and deserialize :: "allocator \<Rightarrow> byte list option \<Rightarrow> size_t \<Rightarrow> 's result"
  assumes bytes_make: "bytes_of (make bs) = bs"
    and make_bytes: "make (bytes_of s) = s"
    and create_eq: "create A script n =
      bind_r (malloc_r A sizeof_script_object) (\<lambda>_.
        if 0 < n then
          (case script of
             None \<Rightarrow> Err NEOC_ERROR_INVALID_ARGUMENT
           | Some _ \<Rightarrow> bind_r (memdup_r A script n) (\<lambda>d. case d of None \<Rightarrow> Err NEOC_ERROR_MEMORY | Some bs \<Rightarrow> Ok (make bs)))
        else Ok (make []))"
    and copy_eq: "copy A (Some s) = create A (script_ptr (bytes_of s)) (length (bytes_of s))"
    and equals_eq: "equals (Some s) (Some t) \<longleftrightarrow> bytes_of s = bytes_of t"
    and size_eq: "get_size (Some s) = neoc_var_int_size (of_nat (length (bytes_of s))) + length (bytes_of s)"
    and serialize_eq: "serialize A (Some s) = run_writer A 32 (write_script A (bytes_of s))"
    and deserialize_eq: "deserialize A (Some data) len =
      bind_r (run_reader A (Some data) len (neoc_binary_reader_read_var_bytes A)) (\<lambda>d.
        create A d (case d of None \<Rightarrow> 0 | Some bs \<Rightarrow> length bs))"
begin

lemma create_Ok:
  assumes "grants A (max 16 (length bs))"
  shows "create A (Some bs) (length bs) = Ok (make bs)"
proof -
  have "A sizeof_script_object" "A (length bs)" using assms by (auto intro: grantsD simp: sizeof_script_object_def)
  then show ?thesis by (simp add: create_eq memdup_r_def)
qed

lemma create_empty: "A sizeof_script_object \<Longrightarrow> create A d 0 = Ok (make [])"
  by (simp add: create_eq)

lemma copy_same:
  assumes "grants A (max 16 (length (bytes_of s)))"
  shows "copy A (Some s) = Ok s"
proof (cases "bytes_of s = []")
  case True
  moreover have "A sizeof_script_object" using assms by (auto intro: grantsD simp: sizeof_script_object_def)
  ultimately show ?thesis using make_bytes [of s] by (simp add: copy_eq create_empty)
next
  case False
  then show ?thesis using create_Ok [OF assms] make_bytes [of s] by (simp add: copy_eq script_ptr_def)
qed

lemma equals_iff: "equals (Some s) (Some t) \<longleftrightarrow> s = t"
  using make_bytes equals_eq by metis

text \<open>An object is written as its length and its bytes, as many as \<open>get_size\<close> says, and read back equal.\<close>

lemma serialize_roundtrip:
  assumes "length (bytes_of s) < 2 ^ 60" and "grants A (100 + 2 * length (bytes_of s))"
  shows "serialize A (Some s) = Ok (enc_var_bytes (bytes_of s))"
    and "length (enc_var_bytes (bytes_of s)) = get_size (Some s)"
    and "deserialize A (Some (enc_var_bytes (bytes_of s))) (of_nat (length (enc_var_bytes (bytes_of s)))) = Ok s"
proof -
  let ?bs = "bytes_of s" let ?enc = "enc_var_bytes (bytes_of s)"
  have len: "length ?enc \<le> length ?bs + 9"
    using enc_var_int_le_9 [of "of_nat (length ?bs)"] by (simp add: length_enc_var_bytes)
  show "serialize A (Some s) = Ok ?enc"
    unfolding serialize_eq using assms len
    by (intro run_writer_Ok writes_write_script) (auto elim!: grants_mono)
  show "length ?enc = get_size (Some s)"
    by (simp add: size_eq length_enc_var_bytes length_enc_var_int)
  have "A (length ?bs)" "grants A (max 40 (length (?enc @ [])))" "grants A (max 16 (length ?bs))"
    using assms(2) len by (auto elim: grants_mono intro: grantsD)
  moreover from this(1) assms(1) have "reads (neoc_binary_reader_read_var_bytes A) ?enc (null_if_empty ?bs)"
    by (intro reads_read_var_bytes) simp_all
  ultimately have "run_reader A (Some (?enc @ [])) (of_nat (length (?enc @ []))) (neoc_binary_reader_read_var_bytes A)
      = Ok (null_if_empty ?bs)"
    using assms(1) len by (intro run_reader_reads) simp_all
  then show "deserialize A (Some ?enc) (of_nat (length ?enc)) = Ok s"
    using create_Ok [OF \<open>grants A (max 16 (length ?bs))\<close>] create_empty [of A None] make_bytes [of s]
      grantsD [OF \<open>grants A (max 16 (length ?bs))\<close>, of 16]
    by (cases "?bs = []") (simp_all add: deserialize_eq null_if_empty_def sizeof_script_object_def)
qed

end

end
