(* ===== verification/Invocation_Script.thy ===== *)
theory Invocation_Script
  imports Script_Object
begin

text \<open>
  \<^verbatim>\<open>src/script/invocation_script.c\<close>: the script that pushes the signatures of a witness.  The object owns a byte array that is null
  exactly when it is empty; lengths are lengths of existing objects.  Signatures are taken out of a script by two passes over it: the
  first counts them and checks every length, the second copies them and relies on the checks of the first.
\<close>

record neoc_invocation_script =
  inv_bytes :: "byte list"

abbreviation (input) "NEOC_SIGNATURE_SIZE \<equiv> (64 :: nat)"

definition neoc_invocation_var_int_size :: "u64 \<Rightarrow> nat" where
  "neoc_invocation_var_int_size v = (if v < 0xFD then 1 else if v \<le> 0xFFFF then 3 else if v \<le> 0xFFFFFFFF then 5 else 9)"

definition neoc_invocation_pushdata_header_size :: "nat \<Rightarrow> nat result" where
  "neoc_invocation_pushdata_header_size data_len =
     (if data_len \<le> 0xFF then Ok 2
      else if data_len \<le> 0xFFFF then Ok 3
      else if data_len \<le> 0xFFFFFFFF then Ok 5
      else Err NEOC_ERROR_INVALID_LENGTH)"

text \<open>The bytes stored in the header buffer; their number is what the function returns through its last pointer.\<close>

definition neoc_invocation_write_pushdata_header :: "nat \<Rightarrow> nat \<Rightarrow> byte list result" where
  "neoc_invocation_write_pushdata_header buffer_len data_len =
     bind_r (neoc_invocation_pushdata_header_size data_len) (\<lambda>required.
       let v = of_nat data_len :: size_t in
       if buffer_len < required then Err NEOC_ERROR_BUFFER_OVERFLOW
       else Ok
         (if data_len \<le> 0xFF then [NEOC_OP_PUSHDATA1, ucast v]
          else if data_len \<le> 0xFFFF then [NEOC_OP_PUSHDATA2, ucast (v AND 0xFF), ucast (drop_bit 8 v AND 0xFF)]
          else [NEOC_OP_PUSHDATA4, ucast (v AND 0xFF), ucast (drop_bit 8 v AND 0xFF),
                ucast (drop_bit 16 v AND 0xFF), ucast (drop_bit 24 v AND 0xFF)]))"

definition neoc_invocation_append_data :: "allocator \<Rightarrow> byte list option \<Rightarrow> (neoc_invocation_script, unit) cmd" where
  "neoc_invocation_append_data A data s =
     (case data of
        None \<Rightarrow> (Err NEOC_ERROR_INVALID_ARGUMENT, s)
      | Some bs \<Rightarrow>
          (case neoc_invocation_write_pushdata_header 5 (length bs) of
             Err e \<Rightarrow> (Err e, s)
           | Fault \<Rightarrow> (Fault, s)
           | Ok header \<Rightarrow>
               let new_len = length (inv_bytes s) + length header + length bs in
               if \<not> A new_len then (Err NEOC_ERROR_MEMORY, s)
               else (Ok (), s\<lparr>inv_bytes := inv_bytes s @ header @ bs\<rparr>)))"

definition neoc_invocation_script_allocate :: "allocator \<Rightarrow> byte list option \<Rightarrow> nat \<Rightarrow> neoc_invocation_script result" where
  "neoc_invocation_script_allocate A script script_length =
     bind_r (malloc_r A sizeof_script_object) (\<lambda>_.
       if 0 < script_length then
         (case script of
            None \<Rightarrow> Err NEOC_ERROR_INVALID_ARGUMENT
          | Some _ \<Rightarrow>
              bind_r (memdup_r A script script_length) (\<lambda>copied.
                case copied of None \<Rightarrow> Err NEOC_ERROR_MEMORY | Some bs \<Rightarrow> Ok \<lparr>inv_bytes = bs\<rparr>))
       else Ok \<lparr>inv_bytes = []\<rparr>)"

definition neoc_invocation_script_create :: "allocator \<Rightarrow> byte list option \<Rightarrow> nat \<Rightarrow> neoc_invocation_script result" where
  "neoc_invocation_script_create A script script_length = neoc_invocation_script_allocate A script script_length"

definition neoc_invocation_script_create_empty :: "allocator \<Rightarrow> neoc_invocation_script result" where
  "neoc_invocation_script_create_empty A = neoc_invocation_script_allocate A None 0"

definition neoc_invocation_script_create_single_sig :: "allocator \<Rightarrow> byte list option \<Rightarrow> neoc_invocation_script result" where
  "neoc_invocation_script_create_single_sig A signature =
     (case signature of
        None \<Rightarrow> Err NEOC_ERROR_INVALID_ARGUMENT
      | Some sig \<Rightarrow>
          if length sig \<noteq> NEOC_SIGNATURE_SIZE then Err NEOC_ERROR_INVALID_LENGTH
          else bind_r (neoc_invocation_script_allocate A None 0) (\<lambda>s.
            (case neoc_invocation_append_data A (Some sig) s of
               (Ok _, s') \<Rightarrow> Ok s' | (Err e, _) \<Rightarrow> Err e | (Fault, _) \<Rightarrow> Fault)))"

text \<open>The body of the loop over the signatures; a signature is a pointer and may be null.\<close>

definition append_signature :: "allocator \<Rightarrow> byte list option \<Rightarrow> (neoc_invocation_script, unit) cmd" where
  "append_signature A signature =
     (case signature of
        None \<Rightarrow> fail_c NEOC_ERROR_INVALID_ARGUMENT
      | Some sig \<Rightarrow>
          if length sig = 0 then fail_c NEOC_ERROR_INVALID_LENGTH else neoc_invocation_append_data A (Some sig))"

definition neoc_invocation_script_create_multi_sig ::
  "allocator \<Rightarrow> byte list option list \<Rightarrow> neoc_invocation_script result" where
  "neoc_invocation_script_create_multi_sig A signatures =
     bind_r (neoc_invocation_script_allocate A None 0) (\<lambda>s.
       case foreach_c (append_signature A) signatures s of
         (Ok _, s') \<Rightarrow> Ok s' | (Err e, _) \<Rightarrow> Err e | (Fault, _) \<Rightarrow> Fault)"

definition neoc_invocation_script_add_signature ::
  "allocator \<Rightarrow> byte list option \<Rightarrow> (neoc_invocation_script, unit) cmd" where
  "neoc_invocation_script_add_signature A signature =
     (case signature of
        None \<Rightarrow> fail_c NEOC_ERROR_INVALID_ARGUMENT
      | Some sig \<Rightarrow>
          if length sig = 0 then fail_c NEOC_ERROR_INVALID_LENGTH else neoc_invocation_append_data A (Some sig))"

definition neoc_invocation_script_get_script :: "neoc_invocation_script option \<Rightarrow> byte list result" where
  "neoc_invocation_script_get_script s =
     (case s of None \<Rightarrow> Err NEOC_ERROR_INVALID_ARGUMENT | Some s \<Rightarrow> Ok (inv_bytes s))"

definition neoc_invocation_script_get_size :: "neoc_invocation_script option \<Rightarrow> nat" where
  "neoc_invocation_script_get_size s =
     (case s of
        None \<Rightarrow> 0
      | Some s \<Rightarrow> neoc_invocation_var_int_size (of_nat (length (inv_bytes s))) + length (inv_bytes s))"

definition neoc_invocation_script_is_empty :: "neoc_invocation_script option \<Rightarrow> bool" where
  "neoc_invocation_script_is_empty s = (case s of None \<Rightarrow> True | Some s \<Rightarrow> length (inv_bytes s) = 0)"

subsection \<open>Taking the signatures out\<close>

text \<open>
  The length of the data that an opcode pushes and the offset at which they start, from the offset after the opcode; nothing for
  another opcode.  The first pass tests that the length bytes are inside the script, the second does not.
\<close>

definition payload_checked :: "byte list \<Rightarrow> neoc_opcode \<Rightarrow> nat \<Rightarrow> (nat \<times> nat) option result" where
  "payload_checked buffer opcode offset =
     (if opcode = NEOC_OP_PUSHDATA1 then
        if length buffer \<le> offset then Err NEOC_ERROR_INVALID_FORMAT
        else Ok (Some (unat (buffer ! offset), offset + 1))
      else if opcode = NEOC_OP_PUSHDATA2 then
        if length buffer \<le> offset + 1 then Err NEOC_ERROR_INVALID_FORMAT
        else Ok (Some (unat (ucast (buffer ! offset) OR push_bit 8 (ucast (buffer ! (offset + 1))) :: size_t), offset + 2))
      else if opcode = NEOC_OP_PUSHDATA4 then
        if length buffer \<le> offset + 3 then Err NEOC_ERROR_INVALID_FORMAT
        else Ok (Some (unat (ucast (buffer ! offset) OR push_bit 8 (ucast (buffer ! (offset + 1)))
               OR push_bit 16 (ucast (buffer ! (offset + 2))) OR push_bit 24 (ucast (buffer ! (offset + 3))) :: size_t), offset + 4))
      else Ok None)"

definition payload_trusted :: "byte list \<Rightarrow> neoc_opcode \<Rightarrow> nat \<Rightarrow> (nat \<times> nat) option result" where
  "payload_trusted buffer opcode offset =
     (if opcode = NEOC_OP_PUSHDATA1 then
        if length buffer \<le> offset then Fault
        else Ok (Some (unat (buffer ! offset), offset + 1))
      else if opcode = NEOC_OP_PUSHDATA2 then
        if length buffer \<le> offset + 1 then Fault
        else Ok (Some (unat (ucast (buffer ! offset) OR push_bit 8 (ucast (buffer ! (offset + 1))) :: size_t), offset + 2))
      else if opcode = NEOC_OP_PUSHDATA4 then
        if length buffer \<le> offset + 3 then Fault
        else Ok (Some (unat (ucast (buffer ! offset) OR push_bit 8 (ucast (buffer ! (offset + 1)))
               OR push_bit 16 (ucast (buffer ! (offset + 2))) OR push_bit 24 (ucast (buffer ! (offset + 3))) :: size_t), offset + 4))
      else Ok None)"

lemma payload_checked_after: "payload_checked buffer opcode offset = Ok (Some (n, start)) \<Longrightarrow> offset < start"
  by (auto simp: payload_checked_def split: if_splits)

lemma payload_trusted_after: "payload_trusted buffer opcode offset = Ok (Some (n, start)) \<Longrightarrow> offset < start"
  by (auto simp: payload_trusted_def split: if_splits)

lemma payload_trusted_checked: "payload_checked buffer opcode offset = Ok x \<Longrightarrow> payload_trusted buffer opcode offset = Ok x"
  by (auto simp: payload_checked_def payload_trusted_def split: if_splits)

function count_signatures :: "byte list \<Rightarrow> nat \<Rightarrow> nat \<Rightarrow> nat result" where
  "count_signatures buffer offset count =
     (if offset < length buffer then
        (case payload_checked buffer (buffer ! offset) (offset + 1) of
           Err e \<Rightarrow> Err e
         | Fault \<Rightarrow> Fault
         | Ok None \<Rightarrow> Ok count
         | Ok (Some (payload_len, start)) \<Rightarrow>
             if length buffer < start + payload_len then Err NEOC_ERROR_INVALID_FORMAT
             else count_signatures buffer (start + payload_len)
               (if payload_len = NEOC_SIGNATURE_SIZE then count + 1 else count))
      else Ok count)"
  by pat_completeness auto

termination
  by (relation "measure (\<lambda>(buffer, offset, _). length buffer - offset)")
     (auto dest!: payload_checked_after)

text \<open>The second pass: the signatures copied so far are the entries of the output array.\<close>

function copy_signatures :: "allocator \<Rightarrow> byte list \<Rightarrow> nat \<Rightarrow> nat \<Rightarrow> byte list list \<Rightarrow> byte list list result" where
  "copy_signatures A buffer count offset copied =
     (if offset < length buffer \<and> length copied < count then
        (case payload_trusted buffer (buffer ! offset) (offset + 1) of
           Err e \<Rightarrow> Err e
         | Fault \<Rightarrow> Fault
         | Ok None \<Rightarrow> Ok copied
         | Ok (Some (payload_len, start)) \<Rightarrow>
             if length buffer < start + payload_len then Err NEOC_ERROR_INVALID_FORMAT
             else if payload_len = NEOC_SIGNATURE_SIZE then
               if \<not> A payload_len then Err NEOC_ERROR_MEMORY
               else copy_signatures A buffer count (start + payload_len) (copied @ [take payload_len (drop start buffer)])
             else copy_signatures A buffer count (start + payload_len) copied)
      else Ok copied)"
  by pat_completeness auto

termination
  by (relation "measure (\<lambda>(_, buffer, _, offset, _). length buffer - offset)")
     (auto dest!: payload_trusted_after)

declare count_signatures.simps [simp del] copy_signatures.simps [simp del]

definition neoc_invocation_script_extract_signatures ::
  "allocator \<Rightarrow> neoc_invocation_script option \<Rightarrow> byte list list result" where
  "neoc_invocation_script_extract_signatures A s =
     (case s of
        None \<Rightarrow> Err NEOC_ERROR_INVALID_ARGUMENT
      | Some s \<Rightarrow>
          if neoc_invocation_script_is_empty (Some s) then Ok []
          else bind_r (count_signatures (inv_bytes s) 0 0) (\<lambda>count.
            if count = 0 then Ok []
            else if \<not> A (count * 8) then Err NEOC_ERROR_MEMORY
            else copy_signatures A (inv_bytes s) count 0 []))"

subsection \<open>Copies, comparison, serialization\<close>

definition neoc_invocation_script_copy :: "allocator \<Rightarrow> neoc_invocation_script option \<Rightarrow> neoc_invocation_script result" where
  "neoc_invocation_script_copy A source =
     (case source of
        None \<Rightarrow> Err NEOC_ERROR_INVALID_ARGUMENT
      | Some s \<Rightarrow> neoc_invocation_script_allocate A (script_ptr (inv_bytes s)) (length (inv_bytes s)))"

text \<open>Two pointers are options; two different objects with the same contents are compared byte by byte.\<close>

definition neoc_invocation_script_equals :: "neoc_invocation_script option \<Rightarrow> neoc_invocation_script option \<Rightarrow> bool" where
  "neoc_invocation_script_equals script1 script2 =
     (case (script1, script2) of
        (None, None) \<Rightarrow> True
      | (Some a, Some b) \<Rightarrow>
          if length (inv_bytes a) \<noteq> length (inv_bytes b) then False
          else if length (inv_bytes a) = 0 then True
          else memcmp_c (inv_bytes a) (inv_bytes b) = 0
      | _ \<Rightarrow> False)"

definition neoc_invocation_script_hash :: "neoc_invocation_script option \<Rightarrow> u32" where
  "neoc_invocation_script_hash s =
     (case s of
        None \<Rightarrow> neoc_hash_murmur32 [] 0
      | Some s \<Rightarrow> if length (inv_bytes s) = 0 then neoc_hash_murmur32 [] 0 else neoc_hash_murmur32 (inv_bytes s) 0)"

definition neoc_invocation_script_serialize :: "allocator \<Rightarrow> neoc_invocation_script option \<Rightarrow> byte list result" where
  "neoc_invocation_script_serialize A s =
     (case s of
        None \<Rightarrow> Err NEOC_ERROR_INVALID_ARGUMENT
      | Some s \<Rightarrow> run_writer A 32 (write_script A (inv_bytes s)))"

definition neoc_invocation_script_deserialize ::
  "allocator \<Rightarrow> byte list option \<Rightarrow> size_t \<Rightarrow> neoc_invocation_script result" where
  "neoc_invocation_script_deserialize A serialized serialized_length =
     (case serialized of
        None \<Rightarrow> Err NEOC_ERROR_INVALID_ARGUMENT
      | Some bs \<Rightarrow>
          bind_r (run_reader A (Some bs) serialized_length (neoc_binary_reader_read_var_bytes A)) (\<lambda>data.
            neoc_invocation_script_allocate A data (case data of None \<Rightarrow> 0 | Some d \<Rightarrow> length d)))"

definition neoc_invocation_script_clear :: "(neoc_invocation_script, unit) cmd" where
  "neoc_invocation_script_clear s = (Ok (), s\<lparr>inv_bytes := []\<rparr>)"

interpretation invocation: script_object inv_bytes "\<lambda>bs. \<lparr>inv_bytes = bs\<rparr>" neoc_invocation_script_create
  neoc_invocation_script_copy neoc_invocation_script_equals neoc_invocation_script_get_size
  neoc_invocation_script_serialize neoc_invocation_script_deserialize
  by unfold_locales
     (auto simp: neoc_invocation_script_create_def neoc_invocation_script_allocate_def neoc_invocation_script_copy_def
        neoc_invocation_script_equals_def memcmp_zero_iff neoc_invocation_script_get_size_def neoc_invocation_var_int_size_def
        neoc_var_int_size_def neoc_invocation_script_serialize_def neoc_invocation_script_deserialize_def)

subsection \<open>Lemmas\<close>

definition payload_ok :: "byte list \<Rightarrow> bool" where
  "payload_ok bs \<longleftrightarrow> bs \<noteq> [] \<and> length bs < 2 ^ 32"

lemma unat_length_payload:
  assumes "payload_ok bs"
  shows "unat (of_nat (length bs) :: size_t) = length bs"
  using assms by (intro unat_of_nat_size) (simp add: payload_ok_def)

lemma le_bytes_small:
  fixes v :: size_t
  shows "le_bytes 2 v = [ucast v, ucast (drop_bit 8 v)]"
    "le_bytes 4 v = [ucast v, ucast (drop_bit 8 v), ucast (drop_bit 16 v), ucast (drop_bit 24 v)]"
    "le_bytes (Suc 0) v = [ucast v]"
  by (simp_all add: le_bytes_def upt_rec)

lemma pushdata_header_eq:
  assumes "payload_ok bs"
  obtains header where "neoc_invocation_write_pushdata_header 5 (length bs) = Ok header" and "header @ bs = enc_push_data bs"
  using assms
  by (cases "length bs \<le> 0xFF"; cases "length bs \<le> 0xFFFF")
     (auto simp: neoc_invocation_write_pushdata_header_def neoc_invocation_pushdata_header_size_def enc_push_data_def
        payload_ok_def le_bytes_small byte_of_and Let_def)

lemma append_data_eq:
  assumes "payload_ok bs" and "A (length (inv_bytes s @ enc_push_data bs))"
  shows "neoc_invocation_append_data A (Some bs) s = (Ok (), s\<lparr>inv_bytes := inv_bytes s @ enc_push_data bs\<rparr>)"
proof -
  obtain header where h: "neoc_invocation_write_pushdata_header 5 (length bs) = Ok header" "header @ bs = enc_push_data bs"
    using assms(1) by (rule pushdata_header_eq)
  then have "length (inv_bytes s) + length header + length bs = length (inv_bytes s @ enc_push_data bs)"
    by (simp flip: h(2))
  with assms(2) have "A (length (inv_bytes s) + length header + length bs)" by (simp only:)
  with h show ?thesis by (simp add: neoc_invocation_append_data_def)
qed

lemma append_signatures_eq:
  assumes "list_all payload_ok sigs" and "grants A (length (inv_bytes s @ concat (map enc_push_data sigs)))"
  shows "foreach_c (append_signature A) (map Some sigs) s
    = (Ok (), s\<lparr>inv_bytes := inv_bytes s @ concat (map enc_push_data sigs)\<rparr>)"
  using assms
proof (induction sigs arbitrary: s)
  case (Cons sig sigs)
  let ?s = "s\<lparr>inv_bytes := inv_bytes s @ enc_push_data sig\<rparr>"
  have "A (length (inv_bytes s @ enc_push_data sig))" by (rule grantsD [OF Cons.prems(2)]) simp
  then have "append_signature A (Some sig) s = (Ok (), ?s)"
    using append_data_eq [of sig A s] Cons.prems(1) by (simp add: append_signature_def payload_ok_def)
  moreover have "foreach_c (append_signature A) (map Some sigs) ?s
      = (Ok (), ?s\<lparr>inv_bytes := inv_bytes ?s @ concat (map enc_push_data sigs)\<rparr>)"
    using Cons.prems by (intro Cons.IH) simp_all
  ultimately show ?case by (simp add: then_c_eval(1))
qed (simp add: cmd_eval)

lemma create_multi_sig_eq:
  assumes "list_all payload_ok sigs" and "grants A (max 16 (length (concat (map enc_push_data sigs))))"
  shows "neoc_invocation_script_create_multi_sig A (map Some sigs) = Ok \<lparr>inv_bytes = concat (map enc_push_data sigs)\<rparr>"
proof -
  have "A sizeof_script_object" by (rule grantsD [OF assms(2)]) (simp add: sizeof_script_object_def)
  then have "neoc_invocation_script_allocate A None 0 = Ok \<lparr>inv_bytes = []\<rparr>"
    by (simp add: neoc_invocation_script_allocate_def)
  moreover have "foreach_c (append_signature A) (map Some sigs) \<lparr>inv_bytes = []\<rparr>
      = (Ok (), \<lparr>inv_bytes = concat (map enc_push_data sigs)\<rparr>)"
    using append_signatures_eq [OF assms(1), of A "\<lparr>inv_bytes = []\<rparr>"] grants_mono [OF assms(2)] by simp
  ultimately show ?thesis by (simp add: neoc_invocation_script_create_multi_sig_def)
qed

text \<open>What the header of a pushed payload looks like to the two passes.\<close>

lemma or_push_bits:
  "(ucast a OR push_bit 8 (ucast b) :: size_t) = of_le [a, b]"
  "(ucast a OR push_bit 8 (ucast b) OR push_bit 16 (ucast c) OR push_bit 24 (ucast d) :: size_t) = of_le [a, b, c, d]"
  by (simp_all add: push_bit_or or.assoc)

lemma of_le_length:
  assumes "length bs < 256 ^ n" and "n \<le> 4"
  shows "unat (of_le (le_bytes n (of_nat (length bs) :: size_t)) :: size_t) = length bs"
proof -
  let ?v = "of_nat (length bs) :: size_t"
  have pow: "256 ^ n = (2 :: nat) ^ (8 * n)" by (simp add: power_mult)
  have "(2 :: nat) ^ (8 * n) \<le> 2 ^ 32" using assms(2) by (intro power_increasing) simp_all
  with assms(1) pow have v: "unat ?v = length bs" by (intro unat_of_nat_size) simp
  have "(of_le (le_bytes n ?v) :: size_t) = take_bit (8 * n) ?v" by (simp add: of_le_le_bytes_trunc)
  moreover have "unat (take_bit (8 * n) ?v) = length bs"
    using assms(1) v pow by (simp add: unsigned_take_bit_eq take_bit_nat_eq_self)
  ultimately show ?thesis by simp
qed

lemma payload_of_push:
  assumes "payload_ok bs"
  shows "\<exists>op start. enc_push_data bs ! 0 = op \<and> start + length bs = length (enc_push_data bs) \<and> enc_push_data bs \<noteq> []
    \<and> drop start (enc_push_data bs) = bs
    \<and> (\<forall>pre rest. payload_checked (pre @ enc_push_data bs @ rest) op (length pre + 1) = Ok (Some (length bs, length pre + start)))"
proof -
  note len = of_le_length [of bs 1] of_le_length [of bs 2] of_le_length [of bs 4]
  have unat1: "length bs \<le> 0xFF \<Longrightarrow> unat (ucast (of_nat (length bs) :: size_t) :: byte) = length bs"
    using unat_length_payload [OF assms] by (subst unat_ucast_down) simp_all
  consider "length bs \<le> 0xFF" | "\<not> length bs \<le> 0xFF" "length bs \<le> 0xFFFF" | "\<not> length bs \<le> 0xFF" "\<not> length bs \<le> 0xFFFF" by blast
  then show ?thesis
  proof cases
    case 1
    with unat1 assms show ?thesis
      by (intro exI [of _ "0x0C"] exI [of _ 2])
         (simp add: enc_push_data_def payload_ok_def payload_checked_def le_bytes_small nth_append)
  next
    case 2
    with len(2) assms show ?thesis
      by (intro exI [of _ "0x0D"] exI [of _ 3])
         (simp add: enc_push_data_def payload_ok_def payload_checked_def le_bytes_small nth_append or_push_bits del: of_le.simps)
  next
    case 3
    with len(3) assms show ?thesis
      by (intro exI [of _ "0x0E"] exI [of _ 5])
         (simp add: enc_push_data_def payload_ok_def payload_checked_def le_bytes_small nth_append or_push_bits del: of_le.simps)
  qed
qed

abbreviation is_signature :: "byte list \<Rightarrow> bool" where
  "is_signature bs \<equiv> length bs = NEOC_SIGNATURE_SIZE"

lemma count_signatures_pushes:
  assumes "list_all payload_ok sigs"
  shows "count_signatures (pre @ concat (map enc_push_data sigs)) (length pre) count
    = Ok (count + length (filter is_signature sigs))"
  using assms
proof (induction sigs arbitrary: pre count)
  case Nil
  then show ?case by (subst count_signatures.simps) simp
next
  case (Cons sig sigs)
  let ?rest = "concat (map enc_push_data sigs)" let ?enc = "enc_push_data sig"
  from Cons.prems obtain op start where op: "?enc ! 0 = op" "start + length sig = length ?enc" "?enc \<noteq> []"
      "payload_checked (pre @ ?enc @ ?rest) op (length pre + 1) = Ok (Some (length sig, length pre + start))"
    using payload_of_push [of sig] by auto
  have "(pre @ ?enc @ ?rest) ! length pre = op" using op(1,3) by (simp add: nth_append)
  moreover have "length pre + start + length sig = length (pre @ ?enc)" using op(2) by simp
  moreover have "count_signatures ((pre @ ?enc) @ ?rest) (length (pre @ ?enc)) c = Ok (c + length (filter is_signature sigs))" for c
    using Cons.prems by (intro Cons.IH) simp
  ultimately show ?case
    using op(3,4) by (subst count_signatures.simps) (simp add: add.assoc)
qed

lemma copy_signatures_pushes:
  assumes "list_all payload_ok sigs" and "A 64" and "length copied + length (filter is_signature sigs) = count"
  shows "copy_signatures A (pre @ concat (map enc_push_data sigs)) count (length pre) copied
    = Ok (copied @ filter is_signature sigs)"
  using assms(1,3)
proof (induction sigs arbitrary: pre copied)
  case Nil
  then show ?case by (subst copy_signatures.simps) simp
next
  case (Cons sig sigs)
  let ?rest = "concat (map enc_push_data sigs)" let ?enc = "enc_push_data sig"
  from Cons.prems obtain op start where op: "?enc ! 0 = op" "start + length sig = length ?enc" "?enc \<noteq> []" "drop start ?enc = sig"
      "payload_checked (pre @ ?enc @ ?rest) op (length pre + 1) = Ok (Some (length sig, length pre + start))"
    using payload_of_push [of sig] by auto
  have head: "(pre @ ?enc @ ?rest) ! length pre = op" using op(1,3) by (simp add: nth_append)
  have next_at: "length pre + start + length sig = length (pre @ ?enc)" using op(2) by simp
  have sig: "take (length sig) (drop (length pre + start) (pre @ ?enc @ ?rest)) = sig" using op(2,4) by simp
  note trusted = payload_trusted_checked [OF op(5)]
  have IH: "copy_signatures A ((pre @ ?enc) @ ?rest) count (length (pre @ ?enc)) c = Ok (c @ filter is_signature sigs)"
    if "length c + length (filter is_signature sigs) = count" for c
    using Cons.prems that by (intro Cons.IH) simp_all
  show ?case
  proof (cases "length copied < count")
    case True
    then show ?thesis
      using op(3) head next_at sig trusted IH [of "copied @ [sig]"] IH [of copied] Cons.prems(2) assms(2)
      by (subst copy_signatures.simps) (auto simp: add.assoc)
  next
    case False
    with Cons.prems(2) have "length (filter is_signature (sig # sigs)) = 0" by linarith
    then have "filter is_signature (sig # sigs) = []" by (simp only: length_0_conv)
    with False show ?thesis by (subst copy_signatures.simps) (simp only: if_False append_Nil2 simp_thms)
  qed
qed

text \<open>On any script, the second pass finds what the first counted and never leaves the script.\<close>

lemma copy_signatures_safe:
  assumes "count_signatures buffer offset (length copied) = Ok count" and "list_all is_signature copied"
  shows "(\<exists>sigs. copy_signatures A buffer count offset copied = Ok sigs \<and> length sigs = count \<and> list_all is_signature sigs)
    \<or> copy_signatures A buffer count offset copied = Err NEOC_ERROR_MEMORY"
  using assms
proof (induction A buffer count offset copied rule: copy_signatures.induct)
  case (1 A buffer count offset copied)
  note step = "1.prems"(1) [unfolded count_signatures.simps [of buffer offset]]
  have mono: "count_signatures buffer off c = Ok n \<Longrightarrow> c \<le> n" for off c n
  proof (induction buffer off c rule: count_signatures.induct)
    case (1 b off c)
    note eq = "1.prems" [unfolded count_signatures.simps [of b off]]
    show ?case
    proof (cases "off < length b")
      case True
      then show ?thesis
        using eq "1.IH" by (fastforce split: result.splits option.splits if_splits)
    qed (use eq in simp)
  qed
  show ?case
  proof (cases "offset < length buffer \<and> length copied < count")
    case False
    then show ?thesis
      using mono [OF "1.prems"(1)] "1.prems"(2) step
      by (subst copy_signatures.simps) (auto split: if_splits)
  next
    case True
    then obtain p where p: "payload_checked buffer (buffer ! offset) (offset + 1) = Ok p"
      using step by (auto split: result.splits)
    note trusted = payload_trusted_checked [OF p]
    show ?thesis
    proof (cases p)
      case None
      with True step p have "count = length copied" by simp
      with True show ?thesis by simp
    next
      case (Some q)
      obtain n start where q: "q = (n, start)" by (cases q)
      with Some True step p have fits: "\<not> length buffer < start + n"
        and rest: "count_signatures buffer (start + n) (if n = NEOC_SIGNATURE_SIZE then length copied + 1 else length copied) = Ok count"
        by (auto split: if_splits)
      show ?thesis
      proof (cases "n = NEOC_SIGNATURE_SIZE")
        case sig: True
        let ?c = "copied @ [take n (drop start buffer)]"
        have "list_all is_signature ?c" using "1.prems"(2) sig fits by simp
        moreover have "count_signatures buffer (start + n) (length ?c) = Ok count" using rest sig by simp
        ultimately show ?thesis
          using "1.IH"(1) [OF True trusted Some q [symmetric] fits sig] True trusted Some q fits sig
          by (simp add: copy_signatures.simps [of A buffer count offset])
      next
        case False
        then show ?thesis
          using "1.IH"(2) [OF True trusted Some q [symmetric] fits False] rest "1.prems"(2) True trusted Some q fits
          by (simp add: copy_signatures.simps [of A buffer count offset])
      qed
    qed
  qed
qed

lemma enc_push_data_length: "payload_ok bs \<Longrightarrow> length bs < length (enc_push_data bs)"
  by (auto simp: enc_push_data_def payload_ok_def)

lemma count_fits_script: "list_all payload_ok sigs \<Longrightarrow> 64 * length (filter is_signature sigs) \<le> length (concat (map enc_push_data sigs))"
proof (induction sigs)
  case (Cons sig sigs)
  then show ?case using enc_push_data_length [of sig] by simp
qed simp

subsection \<open>Theorems\<close>

lemma extract_pushes:
  assumes "list_all payload_ok sigs" and "grants A (64 + length (concat (map enc_push_data sigs)))"
  shows "neoc_invocation_script_extract_signatures A (Some \<lparr>inv_bytes = concat (map enc_push_data sigs)\<rparr>) = Ok (filter is_signature sigs)"
proof -
  let ?bs = "concat (map enc_push_data sigs)" let ?n = "length (filter is_signature sigs)"
  have count: "count_signatures ?bs 0 0 = Ok ?n" using count_signatures_pushes [OF assms(1), of "[]" 0] by simp
  have "A 64" by (rule grantsD [OF assms(2)]) simp
  then have copy: "copy_signatures A ?bs ?n 0 [] = Ok (filter is_signature sigs)"
    using copy_signatures_pushes [OF assms(1), of A "[]" ?n "[]"] by simp
  have "A (?n * 8)" by (rule grantsD [OF assms(2)]) (use count_fits_script [OF assms(1)] in linarith)
  moreover have "filter is_signature sigs = []" if "?bs = []"
    using count_fits_script [OF assms(1)] unfolding that by simp
  ultimately show ?thesis
    using count copy
    by (cases "?bs = []")
       (simp_all add: neoc_invocation_script_extract_signatures_def neoc_invocation_script_is_empty_def del: concat_eq_Nil_conv)
qed

text \<open>Signatures survive the trip through an invocation script: from any list of non-empty payloads of less than \<open>2 ^ 32\<close> bytes the
  multi-signature constructor makes the concatenation of their pushes, and extraction returns exactly the payloads of 64 bytes, in order; so
  a list of signatures comes back unchanged.\<close>

theorem invocation_signatures_roundtrip:
  assumes "list_all payload_ok sigs" and "grants A (64 + length (concat (map enc_push_data sigs)))"
  shows "bind_r (neoc_invocation_script_create_multi_sig A (map Some sigs))
      (\<lambda>s. neoc_invocation_script_extract_signatures A (Some s)) = Ok (filter is_signature sigs)"
  using create_multi_sig_eq [OF assms(1) grants_mono [OF assms(2)]] extract_pushes [OF assms] by simp

theorem invocation_signatures_roundtrip_witness:
  "bind_r (neoc_invocation_script_create_multi_sig (\<lambda>_. True) (map Some [replicate 64 1, [7], replicate 64 2]))
     (\<lambda>s. neoc_invocation_script_extract_signatures (\<lambda>_. True) (Some s)) = Ok [replicate 64 1, replicate 64 2]"
  using invocation_signatures_roundtrip [of "[replicate 64 1, [7], replicate 64 2]" "\<lambda>_. True"] by (simp add: payload_ok_def)

text \<open>Extracting signatures from any script has a defined outcome, although the second pass reads lengths without a test: it
  returns byte arrays of 64 bytes or one of two errors, and never reads outside the script.\<close>

theorem invocation_extract_safe:
  "(\<exists>sigs. neoc_invocation_script_extract_signatures A (Some s) = Ok sigs \<and> list_all is_signature sigs)
   \<or> neoc_invocation_script_extract_signatures A (Some s) = Err NEOC_ERROR_INVALID_FORMAT
   \<or> neoc_invocation_script_extract_signatures A (Some s) = Err NEOC_ERROR_MEMORY"
proof -
  let ?bs = "inv_bytes s"
  have first: "(\<exists>n. count_signatures b off c = Ok n) \<or> count_signatures b off c = Err NEOC_ERROR_INVALID_FORMAT" for b off c
  proof (induction b off c rule: count_signatures.induct)
    case (1 b off c)
    show ?case
    proof (cases "payload_checked b (b ! off) (off + 1)")
      case (Ok p)
      then show ?thesis
        using "1.IH" by (cases p) (fastforce simp: count_signatures.simps [of b off])+
    qed (auto simp: count_signatures.simps [of b off] payload_checked_def split: if_splits)
  qed
  show ?thesis
  proof (cases "count_signatures ?bs 0 0")
    case (Ok n)
    then show ?thesis
      using copy_signatures_safe [of ?bs 0 "[]" n A]
      by (auto simp: neoc_invocation_script_extract_signatures_def)
  next
    case (Err e)
    then show ?thesis using first [of ?bs 0 0] by (auto simp: neoc_invocation_script_extract_signatures_def)
  next
    case Fault
    then show ?thesis using first [of ?bs 0 0] by auto
  qed
qed

text \<open>The object and the script helper build the same invocation scripts: for one signature of 64 bytes, and for 1 to 1024 signatures of
  64 or 65 bytes, the bytes of the object are those the helper returns.\<close>

theorem invocation_scripts_agree:
  assumes "sigs \<noteq> []" and "length sigs \<le> 1024" and "\<forall>sig \<in> set sigs. length sig = 64 \<or> length sig = 65" and "length sig = 64"
    and "grants A 200000"
  shows "bind_r (neoc_invocation_script_create_multi_sig A (map Some sigs)) (\<lambda>s. Ok (inv_bytes s))
      = neoc_script_create_witness_multi_invocation A (Some sigs)
    \<and> bind_r (neoc_invocation_script_create_single_sig A (Some sig)) (\<lambda>s. Ok (inv_bytes s))
      = neoc_script_create_single_sig_invocation A (Some sig)"
proof -
  have writes: "writes A (foreach_c (push_sized A 64 65) l) (concat (map enc_push_data l))"
    if "\<forall>sig \<in> set l. length sig = 64 \<or> length sig = 65" for l
    using that by (intro writes_foreach) (auto simp: push_sized_def intro!: writes_push_bytes)
  have ok: "list_all payload_ok l" if "\<forall>sig \<in> set l. length sig = 64 \<or> length sig = 65" for l
    using that by (fastforce simp: list_all_iff payload_ok_def)
  have len: "length (concat (map enc_push_data l)) \<le> 67 * length l" if "\<forall>sig \<in> set l. length sig = 64 \<or> length sig = 65" for l
    using that by (induction l) (auto simp: enc_push_data_def)
  have run: "run_builder A (foreach_c (push_sized A 64 65) l) = Ok (concat (map enc_push_data l))"
    "neoc_invocation_script_create_multi_sig A (map Some l) = Ok \<lparr>inv_bytes = concat (map enc_push_data l)\<rparr>"
    if l: "\<forall>sig \<in> set l. length sig = 64 \<or> length sig = 65" "length l \<le> 1024" for l
  proof -
    have "length (concat (map enc_push_data l)) \<le> 68608" using len [OF l(1)] l(2) by linarith
    then show "run_builder A (foreach_c (push_sized A 64 65) l) = Ok (concat (map enc_push_data l))"
      and "neoc_invocation_script_create_multi_sig A (map Some l) = Ok \<lparr>inv_bytes = concat (map enc_push_data l)\<rparr>"
      using assms(5) by (auto intro!: run_builder_Ok writes create_multi_sig_eq ok l(1) elim!: grants_mono)
  qed
  have one: "\<forall>s \<in> set [sig]. length s = 64 \<or> length s = 65" using assms(4) by simp
  have "run_builder A (neoc_script_builder_push_data A (Some sig) (of_nat (length sig))) = Ok (enc_push_data sig)"
    using run(1) [OF one] assms(4) by (simp add: push_sized_def then_c_def)
  moreover have "neoc_invocation_append_data A (Some sig) \<lparr>inv_bytes = []\<rparr> = (Ok (), \<lparr>inv_bytes = enc_push_data sig\<rparr>)"
    using append_data_eq [of sig A "\<lparr>inv_bytes = []\<rparr>"] ok [OF one] grantsD [OF assms(5), of "length (enc_push_data sig)"] len [OF one]
    by simp
  moreover have "neoc_invocation_script_allocate A None 0 = Ok \<lparr>inv_bytes = []\<rparr>"
    using grantsD [OF assms(5), of 16] by (simp add: neoc_invocation_script_allocate_def sizeof_script_object_def)
  ultimately show ?thesis
    using run [OF assms(3,2)] assms(1,2,4)
    by (auto simp: neoc_script_create_witness_multi_invocation_def neoc_script_create_single_sig_invocation_def
        neoc_invocation_script_create_single_sig_def)
qed

theorem invocation_scripts_agree_witness:
  "bind_r (neoc_invocation_script_create_multi_sig (\<lambda>_. True) (map Some [replicate 64 1, replicate 65 2])) (\<lambda>s. Ok (inv_bytes s))
   = neoc_script_create_witness_multi_invocation (\<lambda>_. True) (Some [replicate 64 1, replicate 65 2])"
  using invocation_scripts_agree [of "[replicate 64 1, replicate 65 2]" "replicate 64 3" "\<lambda>_. True"] by simp

text \<open>An invocation script is serialized as its length and its bytes, as many as \<^verbatim>\<open>neoc_invocation_script_get_size\<close> says, and read back
  equal; so is its copy, and the comparison decides equality.\<close>

theorem invocation_serialize_roundtrip:
  assumes "length (inv_bytes s) < 2 ^ 60" and "grants A (100 + 2 * length (inv_bytes s))"
  shows "\<exists>bs. neoc_invocation_script_serialize A (Some s) = Ok bs \<and> length bs = neoc_invocation_script_get_size (Some s)
      \<and> neoc_invocation_script_deserialize A (Some bs) (of_nat (length bs)) = Ok s
      \<and> neoc_invocation_script_copy A (Some s) = Ok s \<and> (neoc_invocation_script_equals (Some s) (Some t) \<longleftrightarrow> s = t)"
  using invocation.serialize_roundtrip [OF assms] invocation.copy_same [of A s] invocation.equals_iff [of s t]
    grants_mono [OF assms(2), of "max 16 (length (inv_bytes s))"] by auto

theorem invocation_serialize_roundtrip_witness:
  "\<exists>bs. neoc_invocation_script_serialize (\<lambda>_. True) (Some \<lparr>inv_bytes = replicate 300 7\<rparr>) = Ok bs
    \<and> neoc_invocation_script_deserialize (\<lambda>_. True) (Some bs) (of_nat (length bs)) = Ok \<lparr>inv_bytes = replicate 300 7\<rparr>"
  using invocation_serialize_roundtrip [of "\<lparr>inv_bytes = replicate 300 7\<rparr>" "\<lambda>_. True"] by auto

end
