(* ===== verification/Witness_Condition.thy ===== *)
theory Witness_Condition
  imports Hash_Types Witness
begin

text \<open>
  \<^verbatim>\<open>src/protocol/core/witnessrule/witness_action.c\<close>, \<^verbatim>\<open>witness_condition.c\<close> and \<^verbatim>\<open>witness_rule.c\<close>, with the two functions of
  \<^verbatim>\<open>src/crypto/ec_key_pair.c\<close> on public keys they call.  A condition is a tree: the union of the C structure is a
  datatype with one constructor per type tag.  The JSON functions go through the cJSON library and
  are left out.
\<close>

subsection \<open>Public keys\<close>

text \<open>
  The elliptic-curve point of a key lives in OpenSSL.  A \<open>curve\<close> tells for an encoding whether \<^verbatim>\<open>EC_POINT_oct2point\<close>
  accepts it, and the compressed and the uncompressed encoding \<^verbatim>\<open>EC_POINT_point2oct\<close> then gives for the point.
  \<open>curve_ok\<close> is what the library documents: the encodings have 33 and 65 bytes, and decoding the
  compressed one gives the same point.
\<close>

type_synonym curve = "byte list \<Rightarrow> (byte list \<times> byte list) option"

definition curve_ok :: "curve \<Rightarrow> bool" where
  "curve_ok K \<longleftrightarrow> (\<forall>e c u. K e = Some (c, u) \<longrightarrow> length c = 33 \<and> length u = 65 \<and> K c = Some (c, u))"

record neoc_ec_public_key =
  pk_compressed :: "byte list"
  pk_uncompressed :: "byte list"
  pk_is_compressed :: bool

definition sizeof_public_key :: nat where "sizeof_public_key = 120"

definition neoc_ec_public_key_from_bytes :: "allocator \<Rightarrow> curve \<Rightarrow> byte list option \<Rightarrow> neoc_ec_public_key result" where
  "neoc_ec_public_key_from_bytes A K encoded =
     (case encoded of
        None \<Rightarrow> Err NEOC_ERROR_INVALID_ARGUMENT
      | Some e \<Rightarrow>
          if length e \<noteq> 33 \<and> length e \<noteq> 65 then Err NEOC_ERROR_INVALID_ARGUMENT
          else bind_r (malloc_r A sizeof_public_key) (\<lambda>_.
            case K e of
              None \<Rightarrow> Err NEOC_ERROR_CRYPTO
            | Some (c, u) \<Rightarrow> Ok \<lparr>pk_compressed = c, pk_uncompressed = u, pk_is_compressed = (length e = 33)\<rparr>))"

definition neoc_ec_public_key_get_encoded :: "allocator \<Rightarrow> neoc_ec_public_key option \<Rightarrow> bool \<Rightarrow> byte list result" where
  "neoc_ec_public_key_get_encoded A public_key compressed =
     (case public_key of
        None \<Rightarrow> Err NEOC_ERROR_INVALID_ARGUMENT
      | Some k \<Rightarrow>
          if compressed then bind_r (malloc_r A 33) (\<lambda>_. Ok (pk_compressed k))
          else bind_r (malloc_r A 65) (\<lambda>_. Ok (pk_uncompressed k)))"

subsection \<open>Actions\<close>

datatype neoc_witness_action = NEOC_WITNESS_ACTION_DENY | NEOC_WITNESS_ACTION_ALLOW

definition neoc_witness_action_get_byte :: "neoc_witness_action \<Rightarrow> byte" where
  "neoc_witness_action_get_byte action = (if action = NEOC_WITNESS_ACTION_ALLOW then 1 else 0)"

definition neoc_witness_action_from_byte :: "byte \<Rightarrow> neoc_witness_action result" where
  "neoc_witness_action_from_byte b =
     (if b = 0 then Ok NEOC_WITNESS_ACTION_DENY
      else if b = 1 then Ok NEOC_WITNESS_ACTION_ALLOW
      else Err NEOC_ERROR_INVALID_ARGUMENT)"

fun neoc_witness_action_to_json_string :: "neoc_witness_action \<Rightarrow> string" where
  "neoc_witness_action_to_json_string NEOC_WITNESS_ACTION_DENY = ''Deny''"
| "neoc_witness_action_to_json_string NEOC_WITNESS_ACTION_ALLOW = ''Allow''"

definition neoc_witness_action_from_json_string :: "string option \<Rightarrow> neoc_witness_action result" where
  "neoc_witness_action_from_json_string json_str =
     (case json_str of
        None \<Rightarrow> Err NEOC_ERROR_INVALID_ARGUMENT
      | Some s \<Rightarrow>
          if s = ''Deny'' then Ok NEOC_WITNESS_ACTION_DENY
          else if s = ''Allow'' then Ok NEOC_WITNESS_ACTION_ALLOW
          else Err NEOC_ERROR_INVALID_ARGUMENT)"

subsection \<open>Conditions\<close>

datatype neoc_witness_condition_type =
    NEOC_WITNESS_CONDITION_BOOLEAN | NEOC_WITNESS_CONDITION_NOT | NEOC_WITNESS_CONDITION_AND | NEOC_WITNESS_CONDITION_OR
  | NEOC_WITNESS_CONDITION_SCRIPT_HASH | NEOC_WITNESS_CONDITION_GROUP | NEOC_WITNESS_CONDITION_CALLED_BY_ENTRY
  | NEOC_WITNESS_CONDITION_CALLED_BY_CONTRACT | NEOC_WITNESS_CONDITION_CALLED_BY_GROUP

datatype neoc_witness_condition =
    Cond_Boolean bool
  | Cond_Not neoc_witness_condition
  | Cond_And "neoc_witness_condition list"
  | Cond_Or "neoc_witness_condition list"
  | Cond_Script_Hash neoc_hash160
  | Cond_Group neoc_ec_public_key
  | Cond_Called_By_Entry
  | Cond_Called_By_Contract neoc_hash160
  | Cond_Called_By_Group neoc_ec_public_key

definition NEOC_WITNESS_CONDITION_MAX_SUBITEMS :: nat where "NEOC_WITNESS_CONDITION_MAX_SUBITEMS = 16"
definition NEOC_WITNESS_CONDITION_MAX_NESTING_DEPTH :: nat where "NEOC_WITNESS_CONDITION_MAX_NESTING_DEPTH = 2"
definition sizeof_condition :: nat where "sizeof_condition = 32"

lemmas cond_limits = NEOC_WITNESS_CONDITION_MAX_SUBITEMS_def NEOC_WITNESS_CONDITION_MAX_NESTING_DEPTH_def

fun cond_type :: "neoc_witness_condition \<Rightarrow> neoc_witness_condition_type" where
  "cond_type (Cond_Boolean _) = NEOC_WITNESS_CONDITION_BOOLEAN"
| "cond_type (Cond_Not _) = NEOC_WITNESS_CONDITION_NOT"
| "cond_type (Cond_And _) = NEOC_WITNESS_CONDITION_AND"
| "cond_type (Cond_Or _) = NEOC_WITNESS_CONDITION_OR"
| "cond_type (Cond_Script_Hash _) = NEOC_WITNESS_CONDITION_SCRIPT_HASH"
| "cond_type (Cond_Group _) = NEOC_WITNESS_CONDITION_GROUP"
| "cond_type Cond_Called_By_Entry = NEOC_WITNESS_CONDITION_CALLED_BY_ENTRY"
| "cond_type (Cond_Called_By_Contract _) = NEOC_WITNESS_CONDITION_CALLED_BY_CONTRACT"
| "cond_type (Cond_Called_By_Group _) = NEOC_WITNESS_CONDITION_CALLED_BY_GROUP"

definition neoc_witness_condition_get_type :: "neoc_witness_condition option \<Rightarrow> neoc_witness_condition_type" where
  "neoc_witness_condition_get_type condition =
     (case condition of Some c \<Rightarrow> cond_type c | None \<Rightarrow> NEOC_WITNESS_CONDITION_BOOLEAN)"

definition neoc_witness_condition_get_boolean :: "neoc_witness_condition option \<Rightarrow> bool result" where
  "neoc_witness_condition_get_boolean condition =
     (case condition of
        None \<Rightarrow> Err NEOC_ERROR_INVALID_ARGUMENT
      | Some (Cond_Boolean b) \<Rightarrow> Ok b
      | Some _ \<Rightarrow> Err NEOC_ERROR_INVALID_TYPE)"

fun neoc_witness_condition_type_to_byte :: "neoc_witness_condition_type \<Rightarrow> byte" where
  "neoc_witness_condition_type_to_byte NEOC_WITNESS_CONDITION_BOOLEAN = 0x00"
| "neoc_witness_condition_type_to_byte NEOC_WITNESS_CONDITION_NOT = 0x01"
| "neoc_witness_condition_type_to_byte NEOC_WITNESS_CONDITION_AND = 0x02"
| "neoc_witness_condition_type_to_byte NEOC_WITNESS_CONDITION_OR = 0x03"
| "neoc_witness_condition_type_to_byte NEOC_WITNESS_CONDITION_SCRIPT_HASH = 0x18"
| "neoc_witness_condition_type_to_byte NEOC_WITNESS_CONDITION_GROUP = 0x19"
| "neoc_witness_condition_type_to_byte NEOC_WITNESS_CONDITION_CALLED_BY_ENTRY = 0x20"
| "neoc_witness_condition_type_to_byte NEOC_WITNESS_CONDITION_CALLED_BY_CONTRACT = 0x28"
| "neoc_witness_condition_type_to_byte NEOC_WITNESS_CONDITION_CALLED_BY_GROUP = 0x29"

definition neoc_witness_condition_type_get_byte :: "neoc_witness_condition_type \<Rightarrow> byte" where
  "neoc_witness_condition_type_get_byte type = neoc_witness_condition_type_to_byte type"

fun neoc_witness_condition_type_to_json_string :: "neoc_witness_condition_type \<Rightarrow> string" where
  "neoc_witness_condition_type_to_json_string NEOC_WITNESS_CONDITION_BOOLEAN = ''Boolean''"
| "neoc_witness_condition_type_to_json_string NEOC_WITNESS_CONDITION_NOT = ''Not''"
| "neoc_witness_condition_type_to_json_string NEOC_WITNESS_CONDITION_AND = ''And''"
| "neoc_witness_condition_type_to_json_string NEOC_WITNESS_CONDITION_OR = ''Or''"
| "neoc_witness_condition_type_to_json_string NEOC_WITNESS_CONDITION_SCRIPT_HASH = ''ScriptHash''"
| "neoc_witness_condition_type_to_json_string NEOC_WITNESS_CONDITION_GROUP = ''Group''"
| "neoc_witness_condition_type_to_json_string NEOC_WITNESS_CONDITION_CALLED_BY_ENTRY = ''CalledByEntry''"
| "neoc_witness_condition_type_to_json_string NEOC_WITNESS_CONDITION_CALLED_BY_CONTRACT = ''CalledByContract''"
| "neoc_witness_condition_type_to_json_string NEOC_WITNESS_CONDITION_CALLED_BY_GROUP = ''CalledByGroup''"

subsubsection \<open>Copies and constructors\<close>

definition neoc_witness_condition_alloc :: "allocator \<Rightarrow> unit result" where
  "neoc_witness_condition_alloc A = malloc_r A sizeof_condition"

definition neoc_witness_condition_clone_public_key ::
  "allocator \<Rightarrow> curve \<Rightarrow> neoc_ec_public_key option \<Rightarrow> neoc_ec_public_key result" where
  "neoc_witness_condition_clone_public_key A K source =
     (case source of
        None \<Rightarrow> Err NEOC_ERROR_INVALID_ARGUMENT
      | Some k \<Rightarrow>
          bind_r (neoc_ec_public_key_get_encoded A (Some k) True) (\<lambda>encoded.
            neoc_ec_public_key_from_bytes A K (Some encoded)))"

fun neoc_witness_condition_clone_internal ::
  "allocator \<Rightarrow> curve \<Rightarrow> neoc_witness_condition \<Rightarrow> neoc_witness_condition result" where
  "neoc_witness_condition_clone_internal A K (Cond_Boolean b) =
     bind_r (neoc_witness_condition_alloc A) (\<lambda>_. Ok (Cond_Boolean b))"
| "neoc_witness_condition_clone_internal A K (Cond_Not c) =
     bind_r (neoc_witness_condition_alloc A) (\<lambda>_.
     bind_r (neoc_witness_condition_clone_internal A K c) (\<lambda>e. Ok (Cond_Not e)))"
| "neoc_witness_condition_clone_internal A K (Cond_And cs) =
     bind_r (neoc_witness_condition_alloc A) (\<lambda>_.
     bind_r (malloc_r A (length cs * 8)) (\<lambda>_.
     bind_r (map_r (\<lambda>c. neoc_witness_condition_clone_internal A K c) cs) (\<lambda>es. Ok (Cond_And es))))"
| "neoc_witness_condition_clone_internal A K (Cond_Or cs) =
     bind_r (neoc_witness_condition_alloc A) (\<lambda>_.
     bind_r (malloc_r A (length cs * 8)) (\<lambda>_.
     bind_r (map_r (\<lambda>c. neoc_witness_condition_clone_internal A K c) cs) (\<lambda>es. Ok (Cond_Or es))))"
| "neoc_witness_condition_clone_internal A K (Cond_Script_Hash h) =
     bind_r (neoc_witness_condition_alloc A) (\<lambda>_. Ok (Cond_Script_Hash h))"
| "neoc_witness_condition_clone_internal A K (Cond_Group k) =
     bind_r (neoc_witness_condition_alloc A) (\<lambda>_.
     bind_r (neoc_witness_condition_clone_public_key A K (Some k)) (\<lambda>k'. Ok (Cond_Group k')))"
| "neoc_witness_condition_clone_internal A K Cond_Called_By_Entry =
     bind_r (neoc_witness_condition_alloc A) (\<lambda>_. Ok Cond_Called_By_Entry)"
| "neoc_witness_condition_clone_internal A K (Cond_Called_By_Contract h) =
     bind_r (neoc_witness_condition_alloc A) (\<lambda>_. Ok (Cond_Called_By_Contract h))"
| "neoc_witness_condition_clone_internal A K (Cond_Called_By_Group k) =
     bind_r (neoc_witness_condition_alloc A) (\<lambda>_.
     bind_r (neoc_witness_condition_clone_public_key A K (Some k)) (\<lambda>k'. Ok (Cond_Called_By_Group k')))"

definition neoc_witness_condition_clone ::
  "allocator \<Rightarrow> curve \<Rightarrow> neoc_witness_condition option \<Rightarrow> neoc_witness_condition result" where
  "neoc_witness_condition_clone A K src =
     (case src of None \<Rightarrow> Err NEOC_ERROR_INVALID_ARGUMENT | Some c \<Rightarrow> neoc_witness_condition_clone_internal A K c)"

definition neoc_witness_condition_create_boolean :: "allocator \<Rightarrow> bool \<Rightarrow> neoc_witness_condition result" where
  "neoc_witness_condition_create_boolean A value_b =
     bind_r (neoc_witness_condition_alloc A) (\<lambda>_. Ok (Cond_Boolean value_b))"

definition neoc_witness_condition_create_not ::
  "allocator \<Rightarrow> curve \<Rightarrow> neoc_witness_condition option \<Rightarrow> neoc_witness_condition result" where
  "neoc_witness_condition_create_not A K expression =
     (case expression of
        None \<Rightarrow> Err NEOC_ERROR_INVALID_ARGUMENT
      | Some c \<Rightarrow>
          bind_r (neoc_witness_condition_alloc A) (\<lambda>_.
          bind_r (neoc_witness_condition_clone_internal A K c) (\<lambda>e. Ok (Cond_Not e))))"

text \<open>The pointers in the array may be null; the clone of a null pointer is an error.\<close>

definition neoc_witness_condition_create_logical ::
  "allocator \<Rightarrow> curve \<Rightarrow> (neoc_witness_condition list \<Rightarrow> neoc_witness_condition)
   \<Rightarrow> neoc_witness_condition option list option \<Rightarrow> neoc_witness_condition result" where
  "neoc_witness_condition_create_logical A K mk expressions =
     (case expressions of
        None \<Rightarrow> Err NEOC_ERROR_INVALID_ARGUMENT
      | Some cs \<Rightarrow>
          if length cs = 0 \<or> NEOC_WITNESS_CONDITION_MAX_SUBITEMS < length cs then Err NEOC_ERROR_INVALID_ARGUMENT
          else
            bind_r (neoc_witness_condition_alloc A) (\<lambda>_.
            bind_r (malloc_r A (length cs * 8)) (\<lambda>_.
            bind_r (map_r (neoc_witness_condition_clone A K) cs) (\<lambda>es. Ok (mk es)))))"

definition neoc_witness_condition_create_and ::
  "allocator \<Rightarrow> curve \<Rightarrow> neoc_witness_condition option list option \<Rightarrow> neoc_witness_condition result" where
  "neoc_witness_condition_create_and A K = neoc_witness_condition_create_logical A K Cond_And"

definition neoc_witness_condition_create_or ::
  "allocator \<Rightarrow> curve \<Rightarrow> neoc_witness_condition option list option \<Rightarrow> neoc_witness_condition result" where
  "neoc_witness_condition_create_or A K = neoc_witness_condition_create_logical A K Cond_Or"

definition neoc_witness_condition_create_script_hash :: "allocator \<Rightarrow> neoc_hash160 option \<Rightarrow> neoc_witness_condition result" where
  "neoc_witness_condition_create_script_hash A hash =
     (case hash of
        None \<Rightarrow> Err NEOC_ERROR_INVALID_ARGUMENT
      | Some h \<Rightarrow> bind_r (neoc_witness_condition_alloc A) (\<lambda>_. Ok (Cond_Script_Hash h)))"

definition neoc_witness_condition_create_group ::
  "allocator \<Rightarrow> curve \<Rightarrow> neoc_ec_public_key option \<Rightarrow> neoc_witness_condition result" where
  "neoc_witness_condition_create_group A K public_key =
     (case public_key of
        None \<Rightarrow> Err NEOC_ERROR_INVALID_ARGUMENT
      | Some k \<Rightarrow>
          bind_r (neoc_witness_condition_alloc A) (\<lambda>_.
          bind_r (neoc_witness_condition_clone_public_key A K (Some k)) (\<lambda>k'. Ok (Cond_Group k'))))"

definition neoc_witness_condition_create_called_by_entry :: "allocator \<Rightarrow> neoc_witness_condition result" where
  "neoc_witness_condition_create_called_by_entry A = bind_r (neoc_witness_condition_alloc A) (\<lambda>_. Ok Cond_Called_By_Entry)"

definition neoc_witness_condition_create_called_by_contract ::
  "allocator \<Rightarrow> neoc_hash160 option \<Rightarrow> neoc_witness_condition result" where
  "neoc_witness_condition_create_called_by_contract A contract_hash =
     (case contract_hash of
        None \<Rightarrow> Err NEOC_ERROR_INVALID_ARGUMENT
      | Some h \<Rightarrow> bind_r (neoc_witness_condition_alloc A) (\<lambda>_. Ok (Cond_Called_By_Contract h)))"

definition neoc_witness_condition_create_called_by_group ::
  "allocator \<Rightarrow> curve \<Rightarrow> neoc_ec_public_key option \<Rightarrow> neoc_witness_condition result" where
  "neoc_witness_condition_create_called_by_group A K group_key =
     (case group_key of
        None \<Rightarrow> Err NEOC_ERROR_INVALID_ARGUMENT
      | Some k \<Rightarrow>
          bind_r (neoc_witness_condition_alloc A) (\<lambda>_.
          bind_r (neoc_witness_condition_clone_public_key A K (Some k)) (\<lambda>k'. Ok (Cond_Called_By_Group k'))))"

subsubsection \<open>Binary form\<close>

fun neoc_witness_condition_internal_size :: "neoc_witness_condition \<Rightarrow> nat" where
  "neoc_witness_condition_internal_size (Cond_Boolean _) = 1 + 1"
| "neoc_witness_condition_internal_size (Cond_Not c) = 1 + neoc_witness_condition_internal_size c"
| "neoc_witness_condition_internal_size (Cond_And cs) =
     1 + neoc_var_int_size (of_nat (length cs)) + sum_list (map neoc_witness_condition_internal_size cs)"
| "neoc_witness_condition_internal_size (Cond_Or cs) =
     1 + neoc_var_int_size (of_nat (length cs)) + sum_list (map neoc_witness_condition_internal_size cs)"
| "neoc_witness_condition_internal_size (Cond_Script_Hash _) = 1 + NEOC_HASH160_SIZE"
| "neoc_witness_condition_internal_size (Cond_Group _) = 1 + 33"
| "neoc_witness_condition_internal_size Cond_Called_By_Entry = 1"
| "neoc_witness_condition_internal_size (Cond_Called_By_Contract _) = 1 + NEOC_HASH160_SIZE"
| "neoc_witness_condition_internal_size (Cond_Called_By_Group _) = 1 + 33"

definition neoc_witness_condition_get_size :: "neoc_witness_condition option \<Rightarrow> nat" where
  "neoc_witness_condition_get_size condition =
     (case condition of None \<Rightarrow> 0 | Some c \<Rightarrow> neoc_witness_condition_internal_size c)"

text \<open>The depth check and the type byte come first for every type.\<close>

definition serialize_head ::
  "allocator \<Rightarrow> neoc_witness_condition_type \<Rightarrow> nat \<Rightarrow> (neoc_binary_writer, unit) cmd \<Rightarrow> (neoc_binary_writer, unit) cmd" where
  "serialize_head A type depth m =
     (if NEOC_WITNESS_CONDITION_MAX_NESTING_DEPTH < depth then fail_c NEOC_ERROR_INVALID_FORMAT
      else then_c (neoc_binary_writer_write_byte A (neoc_witness_condition_type_to_byte type)) m)"

definition serialize_key :: "allocator \<Rightarrow> neoc_ec_public_key \<Rightarrow> (neoc_binary_writer, unit) cmd" where
  "serialize_key A k =
     bind_c (lift_c (neoc_ec_public_key_get_encoded A (Some k) True)) (\<lambda>encoded.
       if length encoded \<noteq> 33 then fail_c NEOC_ERROR_INVALID_LENGTH
       else neoc_binary_writer_write_bytes A (Some encoded) (of_nat (length encoded)))"

fun neoc_witness_condition_serialize_internal ::
  "allocator \<Rightarrow> neoc_witness_condition \<Rightarrow> nat \<Rightarrow> (neoc_binary_writer, unit) cmd" where
  "neoc_witness_condition_serialize_internal A (Cond_Boolean b) depth =
     serialize_head A NEOC_WITNESS_CONDITION_BOOLEAN depth (neoc_binary_writer_write_bool A b)"
| "neoc_witness_condition_serialize_internal A (Cond_Not c) depth =
     serialize_head A NEOC_WITNESS_CONDITION_NOT depth
       (neoc_witness_condition_serialize_internal A c (depth + 1))"
| "neoc_witness_condition_serialize_internal A (Cond_And cs) depth =
     serialize_head A NEOC_WITNESS_CONDITION_AND depth
       (then_c (neoc_binary_writer_write_var_int A (of_nat (length cs)))
         (foreach_c (\<lambda>c. neoc_witness_condition_serialize_internal A c (depth + 1)) cs))"
| "neoc_witness_condition_serialize_internal A (Cond_Or cs) depth =
     serialize_head A NEOC_WITNESS_CONDITION_OR depth
       (then_c (neoc_binary_writer_write_var_int A (of_nat (length cs)))
         (foreach_c (\<lambda>c. neoc_witness_condition_serialize_internal A c (depth + 1)) cs))"
| "neoc_witness_condition_serialize_internal A (Cond_Script_Hash h) depth =
     serialize_head A NEOC_WITNESS_CONDITION_SCRIPT_HASH depth
       (neoc_binary_writer_write_bytes A (Some h) (of_nat NEOC_HASH160_SIZE))"
| "neoc_witness_condition_serialize_internal A (Cond_Group k) depth =
     serialize_head A NEOC_WITNESS_CONDITION_GROUP depth (serialize_key A k)"
| "neoc_witness_condition_serialize_internal A Cond_Called_By_Entry depth =
     serialize_head A NEOC_WITNESS_CONDITION_CALLED_BY_ENTRY depth (return_c ())"
| "neoc_witness_condition_serialize_internal A (Cond_Called_By_Contract h) depth =
     serialize_head A NEOC_WITNESS_CONDITION_CALLED_BY_CONTRACT depth
       (neoc_binary_writer_write_bytes A (Some h) (of_nat NEOC_HASH160_SIZE))"
| "neoc_witness_condition_serialize_internal A (Cond_Called_By_Group k) depth =
     serialize_head A NEOC_WITNESS_CONDITION_CALLED_BY_GROUP depth (serialize_key A k)"

definition neoc_witness_condition_serialize ::
  "allocator \<Rightarrow> neoc_witness_condition option \<Rightarrow> (neoc_binary_writer, unit) cmd" where
  "neoc_witness_condition_serialize A condition =
     (case condition of
        None \<Rightarrow> fail_c NEOC_ERROR_INVALID_ARGUMENT
      | Some c \<Rightarrow> neoc_witness_condition_serialize_internal A c 0)"

definition cond_type_of_byte :: "byte \<Rightarrow> neoc_witness_condition_type option" where
  "cond_type_of_byte b =
     (if b = 0x00 then Some NEOC_WITNESS_CONDITION_BOOLEAN
      else if b = 0x01 then Some NEOC_WITNESS_CONDITION_NOT
      else if b = 0x02 then Some NEOC_WITNESS_CONDITION_AND
      else if b = 0x03 then Some NEOC_WITNESS_CONDITION_OR
      else if b = 0x18 then Some NEOC_WITNESS_CONDITION_SCRIPT_HASH
      else if b = 0x19 then Some NEOC_WITNESS_CONDITION_GROUP
      else if b = 0x20 then Some NEOC_WITNESS_CONDITION_CALLED_BY_ENTRY
      else if b = 0x28 then Some NEOC_WITNESS_CONDITION_CALLED_BY_CONTRACT
      else if b = 0x29 then Some NEOC_WITNESS_CONDITION_CALLED_BY_GROUP
      else None)"

definition read_key :: "allocator \<Rightarrow> curve \<Rightarrow> (neoc_binary_reader, neoc_ec_public_key) cmd" where
  "read_key A K =
     bind_c (neoc_binary_reader_read_bytes 33) (\<lambda>buffer. lift_c (neoc_ec_public_key_from_bytes A K (Some buffer)))"

text \<open>The count and the items of a conjunction or a disjunction; \<open>m\<close> reads one item.\<close>

definition read_items :: "allocator \<Rightarrow> (neoc_binary_reader, neoc_witness_condition) cmd
  \<Rightarrow> (neoc_binary_reader, neoc_witness_condition list) cmd" where
  "read_items A m =
     bind_c neoc_binary_reader_read_var_int (\<lambda>count.
       if count = 0 \<or> of_nat NEOC_WITNESS_CONDITION_MAX_SUBITEMS < count then fail_c NEOC_ERROR_INVALID_FORMAT
       else then_c (malloc_c A (unat count * 8)) (repeat_c (unat count) m))"

function neoc_witness_condition_deserialize_internal ::
  "allocator \<Rightarrow> curve \<Rightarrow> nat \<Rightarrow> (neoc_binary_reader, neoc_witness_condition) cmd" where
  "neoc_witness_condition_deserialize_internal A K depth =
     (if NEOC_WITNESS_CONDITION_MAX_NESTING_DEPTH < depth then fail_c NEOC_ERROR_INVALID_FORMAT
      else
        bind_c neoc_binary_reader_read_byte (\<lambda>type_byte.
          case cond_type_of_byte type_byte of
            None \<Rightarrow> fail_c NEOC_ERROR_INVALID_FORMAT
          | Some type \<Rightarrow>
              then_c (lift_c (neoc_witness_condition_alloc A))
                (case type of
                   NEOC_WITNESS_CONDITION_BOOLEAN \<Rightarrow>
                     bind_c neoc_binary_reader_read_bool (\<lambda>b. return_c (Cond_Boolean b))
                 | NEOC_WITNESS_CONDITION_NOT \<Rightarrow>
                     bind_c (neoc_witness_condition_deserialize_internal A K (depth + 1)) (\<lambda>c. return_c (Cond_Not c))
                 | NEOC_WITNESS_CONDITION_AND \<Rightarrow>
                     bind_c (read_items A (neoc_witness_condition_deserialize_internal A K (depth + 1)))
                       (\<lambda>cs. return_c (Cond_And cs))
                 | NEOC_WITNESS_CONDITION_OR \<Rightarrow>
                     bind_c (read_items A (neoc_witness_condition_deserialize_internal A K (depth + 1)))
                       (\<lambda>cs. return_c (Cond_Or cs))
                 | NEOC_WITNESS_CONDITION_SCRIPT_HASH \<Rightarrow>
                     bind_c neoc_hash160_deserialize (\<lambda>h. return_c (Cond_Script_Hash h))
                 | NEOC_WITNESS_CONDITION_GROUP \<Rightarrow>
                     bind_c (read_key A K) (\<lambda>k. return_c (Cond_Group k))
                 | NEOC_WITNESS_CONDITION_CALLED_BY_ENTRY \<Rightarrow> return_c Cond_Called_By_Entry
                 | NEOC_WITNESS_CONDITION_CALLED_BY_CONTRACT \<Rightarrow>
                     bind_c neoc_hash160_deserialize (\<lambda>h. return_c (Cond_Called_By_Contract h))
                 | NEOC_WITNESS_CONDITION_CALLED_BY_GROUP \<Rightarrow>
                     bind_c (read_key A K) (\<lambda>k. return_c (Cond_Called_By_Group k)))))"
  by pat_completeness auto
termination
  by (relation "measure (\<lambda>(_, _, depth). 3 - depth)") (auto simp: cond_limits)

declare neoc_witness_condition_deserialize_internal.simps [simp del]

definition neoc_witness_condition_deserialize ::
  "allocator \<Rightarrow> curve \<Rightarrow> (neoc_binary_reader, neoc_witness_condition) cmd" where
  "neoc_witness_condition_deserialize A K = neoc_witness_condition_deserialize_internal A K 0"

subsection \<open>Rules\<close>

record neoc_witness_rule =
  wr_action :: neoc_witness_action
  wr_condition :: "neoc_witness_condition option"

definition sizeof_rule :: nat where "sizeof_rule = 16"

definition neoc_witness_rule_alloc :: "allocator \<Rightarrow> unit result" where
  "neoc_witness_rule_alloc A = malloc_r A sizeof_rule"

definition neoc_witness_rule_copy_condition ::
  "allocator \<Rightarrow> curve \<Rightarrow> neoc_witness_condition option \<Rightarrow> neoc_witness_condition result" where
  "neoc_witness_rule_copy_condition A K source = neoc_witness_condition_clone A K source"

definition neoc_witness_rule_create ::
  "allocator \<Rightarrow> curve \<Rightarrow> neoc_witness_action \<Rightarrow> neoc_witness_condition option \<Rightarrow> neoc_witness_rule result" where
  "neoc_witness_rule_create A K action condition =
     (case condition of
        None \<Rightarrow> Err NEOC_ERROR_INVALID_ARGUMENT
      | Some c \<Rightarrow>
          bind_r (neoc_witness_rule_alloc A) (\<lambda>_.
          bind_r (neoc_witness_rule_copy_condition A K (Some c)) (\<lambda>c'.
            Ok \<lparr>wr_action = action, wr_condition = Some c'\<rparr>)))"

definition neoc_witness_rule_clone :: "allocator \<Rightarrow> curve \<Rightarrow> neoc_witness_rule option \<Rightarrow> neoc_witness_rule result" where
  "neoc_witness_rule_clone A K src =
     (case src of
        None \<Rightarrow> Err NEOC_ERROR_INVALID_ARGUMENT
      | Some r \<Rightarrow>
          bind_r (neoc_witness_rule_alloc A) (\<lambda>_.
            case wr_condition r of
              None \<Rightarrow> Ok \<lparr>wr_action = wr_action r, wr_condition = None\<rparr>
            | Some c \<Rightarrow>
                bind_r (neoc_witness_condition_clone A K (Some c)) (\<lambda>c'.
                  Ok \<lparr>wr_action = wr_action r, wr_condition = Some c'\<rparr>)))"

definition neoc_witness_rule_get_action :: "neoc_witness_rule option \<Rightarrow> neoc_witness_action" where
  "neoc_witness_rule_get_action rule = (case rule of Some r \<Rightarrow> wr_action r | None \<Rightarrow> NEOC_WITNESS_ACTION_DENY)"

definition neoc_witness_rule_get_condition :: "neoc_witness_rule option \<Rightarrow> neoc_witness_condition option" where
  "neoc_witness_rule_get_condition rule = (case rule of Some r \<Rightarrow> wr_condition r | None \<Rightarrow> None)"

definition neoc_witness_rule_get_size :: "neoc_witness_rule option \<Rightarrow> nat" where
  "neoc_witness_rule_get_size rule =
     (case rule of None \<Rightarrow> 0 | Some r \<Rightarrow> 1 + neoc_witness_condition_get_size (wr_condition r))"

definition write_rule :: "allocator \<Rightarrow> neoc_witness_rule \<Rightarrow> (neoc_binary_writer, unit) cmd" where
  "write_rule A r =
     then_c (neoc_binary_writer_write_byte A (neoc_witness_action_get_byte (wr_action r)))
       (neoc_witness_condition_serialize A (wr_condition r))"

text \<open>
  The result is the outcome with the bytes copied to the buffer, and what is stored in \<^verbatim>\<open>*bytes_written\<close>, if
  anything.  A copy longer than the buffer would be a fault.
\<close>

definition neoc_witness_rule_serialize ::
  "allocator \<Rightarrow> neoc_witness_rule option \<Rightarrow> nat \<Rightarrow> byte list result \<times> nat option" where
  "neoc_witness_rule_serialize A rule buffer_size =
     (case rule of
        None \<Rightarrow> (Err NEOC_ERROR_INVALID_ARGUMENT, None)
      | Some r \<Rightarrow>
          let required = neoc_witness_rule_get_size (Some r) in
          if buffer_size < required then (Err NEOC_ERROR_BUFFER_TOO_SMALL, Some required)
          else
            (case run_writer A (of_nat required) (write_rule A r) of
               Ok serialized \<Rightarrow>
                 if buffer_size < length serialized then (Fault, None) else (Ok serialized, Some (length serialized))
             | Err e \<Rightarrow> (Err e, None)
             | Fault \<Rightarrow> (Fault, None)))"

definition read_rule :: "allocator \<Rightarrow> curve \<Rightarrow> (neoc_binary_reader, neoc_witness_rule) cmd" where
  "read_rule A K =
     bind_c neoc_binary_reader_read_byte (\<lambda>action_byte.
     bind_c (lift_c (neoc_witness_action_from_byte action_byte)) (\<lambda>action.
     bind_c (neoc_witness_condition_deserialize A K) (\<lambda>condition.
     then_c (lift_c (neoc_witness_rule_alloc A))
       (return_c \<lparr>wr_action = action, wr_condition = Some condition\<rparr>))))"

definition neoc_witness_rule_deserialize ::
  "allocator \<Rightarrow> curve \<Rightarrow> byte list option \<Rightarrow> size_t \<Rightarrow> (neoc_witness_rule \<times> size_t) result" where
  "neoc_witness_rule_deserialize A K buffer buffer_size =
     (case buffer of
        None \<Rightarrow> Err NEOC_ERROR_INVALID_ARGUMENT
      | Some bs \<Rightarrow>
          bind_r (neoc_binary_reader_create A (Some bs) buffer_size) (\<lambda>reader.
            case read_rule A K reader of
              (Ok rule, reader') \<Rightarrow> Ok (rule, neoc_binary_reader_get_position reader')
            | (Err e, _) \<Rightarrow> Err e
            | (Fault, _) \<Rightarrow> Fault))"

text \<open>
  \<open>same\<close> tells whether the two pointers are equal.  The results of the two serializations are not looked at: when one fails,
  the number of bytes to compare is zero.
\<close>

definition written_bytes :: "allocator \<Rightarrow> neoc_witness_rule \<Rightarrow> nat \<Rightarrow> byte list result" where
  "written_bytes A r n =
     (case neoc_witness_rule_serialize A (Some r) n of
        (Ok bs, _) \<Rightarrow> Ok bs
      | (Err _, _) \<Rightarrow> Ok []
      | (Fault, _) \<Rightarrow> Fault)"

definition neoc_witness_rule_equals ::
  "allocator \<Rightarrow> bool \<Rightarrow> neoc_witness_rule option \<Rightarrow> neoc_witness_rule option \<Rightarrow> bool result" where
  "neoc_witness_rule_equals A same rule1 rule2 =
     (if same then Ok True
      else
        (case (rule1, rule2) of
           (Some r1, Some r2) \<Rightarrow>
             let size1 = neoc_witness_rule_get_size (Some r1); size2 = neoc_witness_rule_get_size (Some r2) in
             if wr_action r1 \<noteq> wr_action r2 then Ok False
             else if size1 \<noteq> size2 then Ok False
             else if \<not> A size1 \<or> \<not> A size2 then Ok False
             else
               bind_r (written_bytes A r1 size1) (\<lambda>buf1.
               bind_r (written_bytes A r2 size2) (\<lambda>buf2.
                 Ok (length buf1 = length buf2 \<and> take (length buf1) buf1 = take (length buf1) buf2)))
         | _ \<Rightarrow> Ok False))"

definition neoc_witness_rule_validate :: "neoc_witness_rule option \<Rightarrow> unit result" where
  "neoc_witness_rule_validate rule =
     (case rule of
        None \<Rightarrow> Err NEOC_ERROR_INVALID_ARGUMENT
      | Some r \<Rightarrow> if wr_condition r = None then Err NEOC_ERROR_INVALID_ARGUMENT else Ok ())"

subsection \<open>Well-formed conditions\<close>

definition key_ok :: "curve \<Rightarrow> neoc_ec_public_key \<Rightarrow> bool" where
  "key_ok K k \<longleftrightarrow> length (pk_compressed k) = 33 \<and> K (pk_compressed k) = Some (pk_compressed k, pk_uncompressed k)
     \<and> pk_is_compressed k"

text \<open>A condition at nesting depth \<open>d\<close>.\<close>

fun cond_ok :: "curve \<Rightarrow> nat \<Rightarrow> neoc_witness_condition \<Rightarrow> bool" where
  "cond_ok K d (Cond_Not c) \<longleftrightarrow> d \<le> 2 \<and> cond_ok K (Suc d) c"
| "cond_ok K d (Cond_And cs) \<longleftrightarrow> d \<le> 2 \<and> cs \<noteq> [] \<and> length cs \<le> 16 \<and> (\<forall>c\<in>set cs. cond_ok K (Suc d) c)"
| "cond_ok K d (Cond_Or cs) \<longleftrightarrow> d \<le> 2 \<and> cs \<noteq> [] \<and> length cs \<le> 16 \<and> (\<forall>c\<in>set cs. cond_ok K (Suc d) c)"
| "cond_ok K d (Cond_Script_Hash h) \<longleftrightarrow> d \<le> 2 \<and> length h = 20"
| "cond_ok K d (Cond_Called_By_Contract h) \<longleftrightarrow> d \<le> 2 \<and> length h = 20"
| "cond_ok K d (Cond_Group k) \<longleftrightarrow> d \<le> 2 \<and> key_ok K k"
| "cond_ok K d (Cond_Called_By_Group k) \<longleftrightarrow> d \<le> 2 \<and> key_ok K k"
| "cond_ok K d (Cond_Boolean b) \<longleftrightarrow> d \<le> 2"
| "cond_ok K d Cond_Called_By_Entry \<longleftrightarrow> d \<le> 2"

fun enc_condition :: "neoc_witness_condition \<Rightarrow> byte list" where
  "enc_condition (Cond_Boolean b) = [0x00, of_bool b]"
| "enc_condition (Cond_Not c) = 0x01 # enc_condition c"
| "enc_condition (Cond_And cs) = 0x02 # enc_var_int (of_nat (length cs)) @ concat (map enc_condition cs)"
| "enc_condition (Cond_Or cs) = 0x03 # enc_var_int (of_nat (length cs)) @ concat (map enc_condition cs)"
| "enc_condition (Cond_Script_Hash h) = 0x18 # h"
| "enc_condition (Cond_Group k) = 0x19 # pk_compressed k"
| "enc_condition Cond_Called_By_Entry = [0x20]"
| "enc_condition (Cond_Called_By_Contract h) = 0x28 # h"
| "enc_condition (Cond_Called_By_Group k) = 0x29 # pk_compressed k"

lemma condition_size: "cond_ok K d c \<Longrightarrow> neoc_witness_condition_internal_size c = length (enc_condition c)"
proof (induction c arbitrary: d rule: enc_condition.induct)
  case (3 cs)
  then have "sum_list (map neoc_witness_condition_internal_size cs) = sum_list (map (\<lambda>c. length (enc_condition c)) cs)"
    by (intro arg_cong [where f = sum_list] map_cong refl) auto
  then show ?case by (simp add: length_enc_var_int length_concat comp_def)
next
  case (4 cs)
  then have "sum_list (map neoc_witness_condition_internal_size cs) = sum_list (map (\<lambda>c. length (enc_condition c)) cs)"
    by (intro arg_cong [where f = sum_list] map_cong refl) auto
  then show ?case by (simp add: length_enc_var_int length_concat comp_def)
qed (auto simp: hash_sizes key_ok_def)

lemma writes_head:
  "d \<le> 2 \<Longrightarrow> writes A m bs \<Longrightarrow> writes A (serialize_head A type d m) (neoc_witness_condition_type_to_byte type # bs)"
  using writes_then [OF writes_write_byte, of A m bs "neoc_witness_condition_type_to_byte type"]
  by (simp add: serialize_head_def cond_limits)

lemma writes_key: "key_ok K k \<Longrightarrow> A 33 \<Longrightarrow> writes A (serialize_key A k) (pk_compressed k)"
  using writes_write_bytes [of "pk_compressed k" A]
  by (simp add: serialize_key_def key_ok_def neoc_ec_public_key_get_encoded_def)

lemma writes_hash: "length h = 20 \<Longrightarrow> writes A (neoc_binary_writer_write_bytes A (Some h) (of_nat NEOC_HASH160_SIZE)) h"
  using writes_write_bytes [of h A] by (simp add: hash_sizes)

lemma writes_condition:
  "cond_ok K d c \<Longrightarrow> A 33 \<Longrightarrow> writes A (neoc_witness_condition_serialize_internal A c d) (enc_condition c)"
proof (induction c arbitrary: d rule: enc_condition.induct)
  case (1 b)
  then show ?case using writes_head [of d A _ _ NEOC_WITNESS_CONDITION_BOOLEAN] writes_write_bool [of A b] by simp
next
  case (2 c)
  then show ?case using writes_head [of d A _ _ NEOC_WITNESS_CONDITION_NOT] "2.IH" [of "Suc d"] by simp
next
  case (3 cs)
  then have "writes A (foreach_c (\<lambda>c. neoc_witness_condition_serialize_internal A c (d + 1)) cs) (concat (map enc_condition cs))"
    by (intro writes_foreach) auto
  with 3 show ?case
    using writes_head [of d A _ _ NEOC_WITNESS_CONDITION_AND] writes_then [OF writes_write_var_int] by simp
next
  case (4 cs)
  then have "writes A (foreach_c (\<lambda>c. neoc_witness_condition_serialize_internal A c (d + 1)) cs) (concat (map enc_condition cs))"
    by (intro writes_foreach) auto
  with 4 show ?case
    using writes_head [of d A _ _ NEOC_WITNESS_CONDITION_OR] writes_then [OF writes_write_var_int] by simp
next
  case (5 h)
  then show ?case using writes_head [of d A _ h NEOC_WITNESS_CONDITION_SCRIPT_HASH] writes_hash [of h A] by simp
next
  case (6 k)
  then show ?case using writes_head [of d A _ _ NEOC_WITNESS_CONDITION_GROUP] writes_key [of K k A] by simp
next
  case 7
  then show ?case using writes_head [of d A _ _ NEOC_WITNESS_CONDITION_CALLED_BY_ENTRY] writes_return [of A] by simp
next
  case (8 h)
  then show ?case using writes_head [of d A _ h NEOC_WITNESS_CONDITION_CALLED_BY_CONTRACT] writes_hash [of h A] by simp
next
  case (9 k)
  then show ?case using writes_head [of d A _ _ NEOC_WITNESS_CONDITION_CALLED_BY_GROUP] writes_key [of K k A] by simp
qed

lemma type_byte_inverse [simp]: "cond_type_of_byte (neoc_witness_condition_type_to_byte type) = Some type"
  by (cases type) (simp_all add: cond_type_of_byte_def)

lemma reads_malloc_then: "A n \<Longrightarrow> reads m bs x \<Longrightarrow> reads (then_c (malloc_c A n) m) bs x"
  by simp

lemma reads_items:
  assumes "\<And>c. c \<in> set cs \<Longrightarrow> reads m (enc_condition c) c" and "cs \<noteq> []" and "length cs \<le> 16" and "A (length cs * 8)"
  shows "reads (read_items A m) (enc_var_int (of_nat (length cs)) @ concat (map enc_condition cs)) cs"
proof -
  let ?n = "of_nat (length cs) :: u64"
  have n: "unat ?n = length cs" using assms(3) by (simp add: unat_of_nat_size)
  moreover have "?n \<noteq> 0" using n assms(2) by auto
  moreover have "\<not> 16 < ?n" using n assms(3) by (simp add: word_less_nat_alt)
  ultimately show ?thesis
    unfolding read_items_def
    by (intro reads_bind [OF reads_read_var_int])
       (use assms reads_repeat [of cs m enc_condition "\<lambda>c. c"] in \<open>simp add: cond_limits\<close>)
qed

lemma reads_key:
  assumes "key_ok K k" and "A 120"
  shows "reads (read_key A K) (pk_compressed k) k"
proof -
  have len: "length (pk_compressed k) = 33" and K: "K (pk_compressed k) = Some (pk_compressed k, pk_uncompressed k)"
    using assms(1) by (simp_all add: key_ok_def)
  have "neoc_ec_public_key_from_bytes A K (Some (pk_compressed k)) = Ok k"
    using assms len K by (simp add: neoc_ec_public_key_from_bytes_def sizeof_public_key_def key_ok_def)
  moreover have "reads (neoc_binary_reader_read_bytes 33) (pk_compressed k) (pk_compressed k)"
    by (rule reads_read_bytes) (simp_all add: len)
  ultimately have "reads (read_key A K) (pk_compressed k @ []) k"
    unfolding read_key_def by (intro reads_bind) (auto simp: lift_c_def [abs_def] reads_return [unfolded return_c_def [abs_def]])
  then show ?thesis by simp
qed

text \<open>The part of the reader after the type byte.\<close>

definition read_body :: "allocator \<Rightarrow> curve \<Rightarrow> nat \<Rightarrow> neoc_witness_condition_type \<Rightarrow> (neoc_binary_reader, neoc_witness_condition) cmd" where
  "read_body A K depth type =
     (case type of
        NEOC_WITNESS_CONDITION_BOOLEAN \<Rightarrow> bind_c neoc_binary_reader_read_bool (\<lambda>b. return_c (Cond_Boolean b))
      | NEOC_WITNESS_CONDITION_NOT \<Rightarrow>
          bind_c (neoc_witness_condition_deserialize_internal A K (depth + 1)) (\<lambda>c. return_c (Cond_Not c))
      | NEOC_WITNESS_CONDITION_AND \<Rightarrow>
          bind_c (read_items A (neoc_witness_condition_deserialize_internal A K (depth + 1))) (\<lambda>cs. return_c (Cond_And cs))
      | NEOC_WITNESS_CONDITION_OR \<Rightarrow>
          bind_c (read_items A (neoc_witness_condition_deserialize_internal A K (depth + 1))) (\<lambda>cs. return_c (Cond_Or cs))
      | NEOC_WITNESS_CONDITION_SCRIPT_HASH \<Rightarrow> bind_c neoc_hash160_deserialize (\<lambda>h. return_c (Cond_Script_Hash h))
      | NEOC_WITNESS_CONDITION_GROUP \<Rightarrow> bind_c (read_key A K) (\<lambda>k. return_c (Cond_Group k))
      | NEOC_WITNESS_CONDITION_CALLED_BY_ENTRY \<Rightarrow> return_c Cond_Called_By_Entry
      | NEOC_WITNESS_CONDITION_CALLED_BY_CONTRACT \<Rightarrow>
          bind_c neoc_hash160_deserialize (\<lambda>h. return_c (Cond_Called_By_Contract h))
      | NEOC_WITNESS_CONDITION_CALLED_BY_GROUP \<Rightarrow> bind_c (read_key A K) (\<lambda>k. return_c (Cond_Called_By_Group k)))"

lemma deserialize_unfold:
  "neoc_witness_condition_deserialize_internal A K depth =
     (if 2 < depth then fail_c NEOC_ERROR_INVALID_FORMAT
      else bind_c neoc_binary_reader_read_byte (\<lambda>type_byte.
        case cond_type_of_byte type_byte of
          None \<Rightarrow> fail_c NEOC_ERROR_INVALID_FORMAT
        | Some type \<Rightarrow> then_c (lift_c (neoc_witness_condition_alloc A)) (read_body A K depth type)))"
  by (subst neoc_witness_condition_deserialize_internal.simps) (simp only: read_body_def cond_limits)

lemma lift_alloc: "A 32 \<Longrightarrow> then_c (lift_c (neoc_witness_condition_alloc A)) m = m"
  by (simp add: neoc_witness_condition_alloc_def sizeof_condition_def then_c_def)

lemma reads_after_type:
  assumes "d \<le> 2" and "A 32" and "reads (read_body A K d type) bs c"
  shows "reads (neoc_witness_condition_deserialize_internal A K d) (neoc_witness_condition_type_to_byte type # bs) c"
proof -
  have "reads (neoc_witness_condition_deserialize_internal A K d) ([neoc_witness_condition_type_to_byte type] @ bs) c"
    unfolding deserialize_unfold if_not_P [OF leD [OF assms(1)]]
    by (rule reads_bind [OF reads_read_byte]) (simp add: lift_alloc assms)
  then show ?thesis by simp
qed

lemma reads_hash: "length h = 20 \<Longrightarrow> reads neoc_hash160_deserialize h h"
  using hash160_codec.rd_law [where x = h and A = "\<lambda>_. True"] by simp

lemma reads_bool: "reads neoc_binary_reader_read_bool [of_bool b] b"
  using bool_codec.rd_law [where x = b and A = "\<lambda>_. True"] by simp

lemma reads_condition:
  "cond_ok K d c \<Longrightarrow> grants A 128 \<Longrightarrow> reads (neoc_witness_condition_deserialize_internal A K d) (enc_condition c) c"
proof (induction c arbitrary: d rule: enc_condition.induct)
  case (1 b)
  have "reads (read_body A K d NEOC_WITNESS_CONDITION_BOOLEAN) [of_bool b] (Cond_Boolean b)"
    unfolding read_body_def by (simp add: reads_map [OF reads_bool])
  with 1 reads_after_type [of d A K NEOC_WITNESS_CONDITION_BOOLEAN] show ?case by (simp add: grants_def)
next
  case (2 c)
  have "reads (read_body A K d NEOC_WITNESS_CONDITION_NOT) (enc_condition c) (Cond_Not c)"
    unfolding read_body_def using 2 by (simp add: reads_map [OF "2.IH" [of "Suc d"]])
  with 2 reads_after_type [of d A K NEOC_WITNESS_CONDITION_NOT] show ?case by (simp add: grants_def)
next
  case (3 cs)
  have "reads (read_items A (neoc_witness_condition_deserialize_internal A K (d + 1)))
      (enc_var_int (of_nat (length cs)) @ concat (map enc_condition cs)) cs"
    by (rule reads_items) (use 3 in \<open>auto simp: grants_def\<close>)
  from reads_map [OF this, of _ Cond_And]
  have "reads (read_body A K d NEOC_WITNESS_CONDITION_AND) (enc_var_int (of_nat (length cs)) @ concat (map enc_condition cs)) (Cond_And cs)"
    unfolding read_body_def by simp
  with 3 reads_after_type [of d A K NEOC_WITNESS_CONDITION_AND] show ?case by (simp add: grants_def)
next
  case (4 cs)
  have "reads (read_items A (neoc_witness_condition_deserialize_internal A K (d + 1)))
      (enc_var_int (of_nat (length cs)) @ concat (map enc_condition cs)) cs"
    by (rule reads_items) (use 4 in \<open>auto simp: grants_def\<close>)
  from reads_map [OF this, of _ Cond_Or]
  have "reads (read_body A K d NEOC_WITNESS_CONDITION_OR) (enc_var_int (of_nat (length cs)) @ concat (map enc_condition cs)) (Cond_Or cs)"
    unfolding read_body_def by simp
  with 4 reads_after_type [of d A K NEOC_WITNESS_CONDITION_OR] show ?case by (simp add: grants_def)
next
  case (5 h)
  have "reads (read_body A K d NEOC_WITNESS_CONDITION_SCRIPT_HASH) h (Cond_Script_Hash h)"
    unfolding read_body_def using 5 by (simp add: reads_map [OF reads_hash])
  with 5 reads_after_type [of d A K NEOC_WITNESS_CONDITION_SCRIPT_HASH] show ?case by (simp add: grants_def)
next
  case (6 k)
  have "reads (read_body A K d NEOC_WITNESS_CONDITION_GROUP) (pk_compressed k) (Cond_Group k)"
    unfolding read_body_def using 6 by (simp add: reads_map [OF reads_key] grants_def)
  with 6 reads_after_type [of d A K NEOC_WITNESS_CONDITION_GROUP] show ?case by (simp add: grants_def)
next
  case 7
  have "reads (read_body A K d NEOC_WITNESS_CONDITION_CALLED_BY_ENTRY) [] Cond_Called_By_Entry"
    unfolding read_body_def by (simp add: reads_return)
  with 7 reads_after_type [of d A K NEOC_WITNESS_CONDITION_CALLED_BY_ENTRY] show ?case by (simp add: grants_def)
next
  case (8 h)
  have "reads (read_body A K d NEOC_WITNESS_CONDITION_CALLED_BY_CONTRACT) h (Cond_Called_By_Contract h)"
    unfolding read_body_def using 8 by (simp add: reads_map [OF reads_hash])
  with 8 reads_after_type [of d A K NEOC_WITNESS_CONDITION_CALLED_BY_CONTRACT] show ?case by (simp add: grants_def)
next
  case (9 k)
  have "reads (read_body A K d NEOC_WITNESS_CONDITION_CALLED_BY_GROUP) (pk_compressed k) (Cond_Called_By_Group k)"
    unfolding read_body_def using 9 by (simp add: reads_map [OF reads_key] grants_def)
  with 9 reads_after_type [of d A K NEOC_WITNESS_CONDITION_CALLED_BY_GROUP] show ?case by (simp add: grants_def)
qed

subsection \<open>Whatever is read is well-formed\<close>

lemma from_bytes_key_ok:
  "curve_ok K \<Longrightarrow> length e = 33 \<Longrightarrow> neoc_ec_public_key_from_bytes A K (Some e) = Ok k \<Longrightarrow> key_ok K k"
  by (auto simp: neoc_ec_public_key_from_bytes_def curve_ok_def key_ok_def bind_r_Ok_iff split: option.splits)

lemma from_bytes_no_Fault: "neoc_ec_public_key_from_bytes A K e \<noteq> Fault"
  by (auto simp: neoc_ec_public_key_from_bytes_def bind_r_Fault_iff malloc_r_def split: option.splits if_splits)

lemma yields_key: "curve_ok K \<Longrightarrow> yields (read_key A K) (key_ok K)"
  unfolding read_key_def
  by (rule yields_bind [OF yields_read_bytes], simp, rule yields_lift)
     (auto simp: from_bytes_no_Fault intro: from_bytes_key_ok)

lemma yields_hash: "yields neoc_hash160_deserialize (\<lambda>h. length h = 20)"
  using yields_read_bytes [of 20] by (simp add: neoc_hash160_deserialize_def hash_sizes)

lemma yields_items:
  assumes "yields m P"
  shows "yields (read_items A m) (\<lambda>cs. cs \<noteq> [] \<and> length cs \<le> 16 \<and> list_all P cs)"
  unfolding read_items_def
proof (rule yields_bind [OF yields_True [OF reader_safe_var_int]])
  fix count :: u64
  show "yields (if count = 0 \<or> of_nat NEOC_WITNESS_CONDITION_MAX_SUBITEMS < count then fail_c NEOC_ERROR_INVALID_FORMAT
      else then_c (malloc_c A (unat count * 8)) (repeat_c (unat count) m))
    (\<lambda>cs. cs \<noteq> [] \<and> length cs \<le> 16 \<and> list_all P cs)"
  proof (cases "count = 0 \<or> 16 < count")
    case True
    then show ?thesis by (auto simp: cond_limits yields_fail)
  next
    case False
    then have c: "0 < unat count" "unat count \<le> 16" by (auto simp: word_less_nat_alt unat_gt_0)
    have "yields (then_c (malloc_c A (unat count * 8)) (repeat_c (unat count) m)) (\<lambda>cs. length cs = unat count \<and> list_all P cs)"
      by (rule yields_then [OF yields_malloc yields_repeat [OF assms]])
    then have "yields (then_c (malloc_c A (unat count * 8)) (repeat_c (unat count) m)) (\<lambda>cs. cs \<noteq> [] \<and> length cs \<le> 16 \<and> list_all P cs)"
      by (rule yields_weaken) (use c in auto)
    with False show ?thesis by (simp add: cond_limits)
  qed
qed

lemma yields_condition: "curve_ok K \<Longrightarrow> yields (neoc_witness_condition_deserialize_internal A K d) (cond_ok K d)"
proof (induction "3 - d" arbitrary: d rule: less_induct)
  case less
  show ?case
  proof (cases "2 < d")
    case True
    then show ?thesis by (simp add: deserialize_unfold yields_fail)
  next
    case False
    have sub: "yields (neoc_witness_condition_deserialize_internal A K (Suc d)) (cond_ok K (Suc d))"
      by (rule less.hyps) (use False less.prems in auto)
    have key: "yields (read_key A K) (key_ok K)" using less.prems by (rule yields_key)
    have items: "yields (read_items A (neoc_witness_condition_deserialize_internal A K (Suc d)))
        (\<lambda>cs. cs \<noteq> [] \<and> length cs \<le> 16 \<and> list_all (cond_ok K (Suc d)) cs)"
      by (rule yields_items [OF sub])
    have bool: "yields neoc_binary_reader_read_bool (\<lambda>_. True)"
      unfolding neoc_binary_reader_read_bool_def by (intro yields_True codec_laws)
    have body: "yields (read_body A K d type) (cond_ok K d)" for type
      using False unfolding read_body_def
      by (cases type)
         (auto intro!: yields_bind [OF bool] yields_bind [OF sub] yields_bind [OF items] yields_bind [OF yields_hash]
           yields_bind [OF key] yields_return simp: list_all_iff)
    have "yields (case cond_type_of_byte b of None \<Rightarrow> fail_c NEOC_ERROR_INVALID_FORMAT
        | Some type \<Rightarrow> then_c (lift_c (neoc_witness_condition_alloc A)) (read_body A K d type)) (cond_ok K d)" for b
      by (cases "cond_type_of_byte b")
         (auto intro!: yields_fail yields_then [OF yields_lift [where P = "\<lambda>_. True"] body]
           simp: neoc_witness_condition_alloc_def malloc_r_def)
    with False show ?thesis
      unfolding deserialize_unfold by (auto intro!: yields_bind [OF yields_True [OF reader_safe_byte]])
  qed
qed

subsection \<open>The codec of conditions and rules\<close>

lemma cond_ok_depth: "cond_ok K d c \<Longrightarrow> d \<le> 2"
  by (cases c) auto

lemma length_concat_le: "(\<And>x. x \<in> set xs \<Longrightarrow> length (f x) \<le> b) \<Longrightarrow> length (concat (map f xs)) \<le> length xs * b"
  by (induction xs) (auto simp: add_mono)

text \<open>The nesting limit bounds the size: no well-formed condition takes more than 11560 bytes.\<close>

lemma length_enc_items:
  assumes "\<And>c. c \<in> set cs \<Longrightarrow> length (enc_condition c) \<le> 40 * 17 ^ (2 - Suc d)" and "length cs \<le> 16" and "d \<le> 1"
  shows "Suc (length (enc_var_int n) + length (concat (map enc_condition cs))) \<le> 40 * 17 ^ (2 - d)"
proof -
  define X where "X = (40 * 17 ^ (2 - Suc d) :: nat)"
  have "length (concat (map enc_condition cs)) \<le> length cs * X" using assms(1) unfolding X_def by (rule length_concat_le)
  also have "\<dots> \<le> 16 * X" using assms(2) by (intro mult_right_mono) simp_all
  finally have "length (concat (map enc_condition cs)) \<le> 16 * X" .
  moreover have "40 * 17 ^ (2 - d) = 17 * X" unfolding X_def using assms(3) by (cases d) (simp_all add: numeral_2_eq_2)
  moreover have "40 \<le> X" using one_le_power [of "17 :: nat" "2 - Suc d"] by (simp add: X_def)
  ultimately show ?thesis using enc_var_int_le_9 [of n] by linarith
qed

lemma power_17_pos: "40 \<le> 40 * (17 :: nat) ^ n"
  by simp

lemma length_enc_condition: "cond_ok K d c \<Longrightarrow> length (enc_condition c) \<le> 40 * 17 ^ (2 - d)"
proof (induction c arbitrary: d rule: enc_condition.induct)
  case (2 c)
  then have sub: "cond_ok K (Suc d) c" and "d \<le> 1" using cond_ok_depth by fastforce+
  define X where "X = (17 ^ (2 - Suc d) :: nat)"
  have "(17 :: nat) ^ (2 - d) = 17 * X" unfolding X_def using \<open>d \<le> 1\<close> by (cases d) (simp_all add: numeral_2_eq_2)
  moreover have "1 \<le> X" by (simp add: X_def)
  moreover have "length (enc_condition c) \<le> 40 * X" using "2.IH" [OF sub] by (simp add: X_def)
  ultimately show ?case unfolding enc_condition.simps length_Cons by linarith
next
  case (3 cs)
  then have "d \<le> 1" using cond_ok_depth [of K "Suc d" "hd cs"] by (cases cs) auto
  moreover have "length (enc_condition c) \<le> 40 * 17 ^ (2 - Suc d)" if "c \<in> set cs" for c
    by (rule "3.IH") (use that "3.prems" in auto)
  ultimately have "Suc (length (enc_var_int (of_nat (length cs))) + length (concat (map enc_condition cs))) \<le> 40 * 17 ^ (2 - d)"
    using "3.prems" by (intro length_enc_items) auto
  then show ?case by simp
next
  case (4 cs)
  then have "d \<le> 1" using cond_ok_depth [of K "Suc d" "hd cs"] by (cases cs) auto
  moreover have "length (enc_condition c) \<le> 40 * 17 ^ (2 - Suc d)" if "c \<in> set cs" for c
    by (rule "4.IH") (use that "4.prems" in auto)
  ultimately have "Suc (length (enc_var_int (of_nat (length cs))) + length (concat (map enc_condition cs))) \<le> 40 * 17 ^ (2 - d)"
    using "4.prems" by (intro length_enc_items) auto
  then show ?case by simp
next
  case (6 k)
  then show ?case by (intro order_trans [OF _ power_17_pos]) (simp add: key_ok_def)
next
  case (9 k)
  then show ?case by (intro order_trans [OF _ power_17_pos]) (simp add: key_ok_def)
next
  case (5 h)
  then show ?case by (intro order_trans [OF _ power_17_pos]) simp
next
  case (8 h)
  then show ?case by (intro order_trans [OF _ power_17_pos]) simp
next
  case (1 b)
  then show ?case by (intro order_trans [OF _ power_17_pos]) simp
next
  case 7
  then show ?case by (intro order_trans [OF _ power_17_pos]) simp
qed

lemma length_enc_condition_0: "cond_ok K 0 c \<Longrightarrow> length (enc_condition c) \<le> 11560"
  using length_enc_condition [of K 0 c] by simp

interpretation condition_codec: object_codec "\<lambda>A c. neoc_witness_condition_serialize A (Some c)"
  "\<lambda>A. neoc_witness_condition_deserialize A K" enc_condition "\<lambda>c. c" "cond_ok K 0" "\<lambda>_. 128" for K
proof
  fix c A
  assume "cond_ok K 0 c" and "grants A 128"
  then show "writes A (neoc_witness_condition_serialize A (Some c)) (enc_condition c)"
    and "reads (neoc_witness_condition_deserialize A K) (enc_condition c) c"
    by (simp_all add: neoc_witness_condition_serialize_def neoc_witness_condition_deserialize_def writes_condition
        reads_condition grants_def)
qed

lemma clone_key: "key_ok K k \<Longrightarrow> grants A 128 \<Longrightarrow> neoc_witness_condition_clone_public_key A K (Some k) = Ok k"
  by (simp add: neoc_witness_condition_clone_public_key_def neoc_ec_public_key_get_encoded_def
      neoc_ec_public_key_from_bytes_def sizeof_public_key_def grants_def key_ok_def)

lemma clone_condition: "cond_ok K d c \<Longrightarrow> grants A 128 \<Longrightarrow> neoc_witness_condition_clone_internal A K c = Ok c"
proof (induction c arbitrary: d rule: enc_condition.induct)
  case (3 cs)
  then have "map_r (neoc_witness_condition_clone_internal A K) cs = Ok (map (\<lambda>c. c) cs)"
    by (intro map_r_Ok) auto
  with 3 show ?case by (simp add: neoc_witness_condition_alloc_def sizeof_condition_def grants_def)
next
  case (4 cs)
  then have "map_r (neoc_witness_condition_clone_internal A K) cs = Ok (map (\<lambda>c. c) cs)"
    by (intro map_r_Ok) auto
  with 4 show ?case by (simp add: neoc_witness_condition_alloc_def sizeof_condition_def grants_def)
qed (auto simp: neoc_witness_condition_alloc_def sizeof_condition_def clone_key grantsD)

definition rule_ok :: "curve \<Rightarrow> neoc_witness_rule \<Rightarrow> bool" where
  "rule_ok K r \<longleftrightarrow> (\<exists>c. wr_condition r = Some c \<and> cond_ok K 0 c)"

definition enc_rule :: "neoc_witness_rule \<Rightarrow> byte list" where
  "enc_rule r = neoc_witness_action_get_byte (wr_action r) # (case wr_condition r of Some c \<Rightarrow> enc_condition c | None \<Rightarrow> [])"

lemma action_byte_inverse [simp]: "neoc_witness_action_from_byte (neoc_witness_action_get_byte a) = Ok a"
  by (cases a) (simp_all add: neoc_witness_action_from_byte_def neoc_witness_action_get_byte_def)

interpretation rule_codec: object_codec write_rule "\<lambda>A. read_rule A K" enc_rule "\<lambda>r. r" "rule_ok K" "\<lambda>_. 128" for K
proof
  fix r A
  assume "rule_ok K r" and A: "grants A 128"
  then obtain a c where r: "r = \<lparr>wr_action = a, wr_condition = Some c\<rparr>" and c: "cond_ok K 0 c"
    by (cases r) (auto simp: rule_ok_def)
  have "writes A (write_rule A r) ([neoc_witness_action_get_byte a] @ enc_condition c)"
    unfolding write_rule_def r neoc_witness_rule.select_convs
    by (rule writes_then [OF writes_write_byte condition_codec.object_wr [OF c A]])
  then show "writes A (write_rule A r) (enc_rule r)" by (simp add: enc_rule_def r)
  have "A 16" using A by (simp add: grants_def)
  then have ret: "reads (then_c (lift_c (neoc_witness_rule_alloc A)) (return_c r)) [] r"
    by (simp add: neoc_witness_rule_alloc_def sizeof_rule_def then_c_def reads_return)
  have "reads (read_rule A K) ([neoc_witness_action_get_byte a] @ enc_condition c @ []) r"
    unfolding read_rule_def
    by (rule reads_bind [OF reads_read_byte], unfold action_byte_inverse bind_c_lift,
        rule reads_bind [OF condition_codec.object_rd [OF c A]], fold r, rule ret)
  then show "reads (read_rule A K) (enc_rule r) r" by (simp add: enc_rule_def r)
qed


lemma rule_size: "rule_ok K r \<Longrightarrow> neoc_witness_rule_get_size (Some r) = length (enc_rule r)"
  by (auto simp: rule_ok_def enc_rule_def neoc_witness_rule_get_size_def neoc_witness_condition_get_size_def condition_size)

lemma length_enc_rule: "rule_ok K r \<Longrightarrow> length (enc_rule r) \<le> 11561"
  by (auto simp: rule_ok_def enc_rule_def dest: length_enc_condition_0)

lemma rule_serialize_Ok:
  assumes "rule_ok K r" and "length (enc_rule r) \<le> n" and "grants A 40000"
  shows "neoc_witness_rule_serialize A (Some r) n = (Ok (enc_rule r), Some (length (enc_rule r)))"
proof -
  have len: "length (enc_rule r) \<le> 11561" using assms(1) by (rule length_enc_rule)
  have "run_writer A (of_nat (length (enc_rule r))) (write_rule A r) = Ok (enc_rule r)"
    by (rule run_writer_Ok [OF rule_codec.object_wr [OF assms(1)]])
       (use assms(3) len in \<open>auto simp: unat_of_nat_size elim!: grants_mono\<close>)
  with assms(2) show ?thesis
    unfolding neoc_witness_rule_serialize_def option.case Let_def rule_size [OF assms(1)] by simp
qed

text \<open>A run that ends with an error value after some writes is no fault and yields nothing.\<close>

lemma run_writer_then_fail:
  assumes "writes A m bs" and "length bs < 2 ^ 62" and "unat cap < 2 ^ 63"
  shows "\<exists>e'. run_writer A cap (then_c m (fail_c e)) = Err e'"
proof (cases "neoc_binary_writer_create A cap True")
  case (Ok w)
  note fresh = writer_create_fresh [OF Ok assms(3)]
  then have "fst (m w) \<noteq> Fault" using writes_no_Fault [OF assms(1), of w "snd (m w)"] assms(2)
    by (cases "m w") auto
  with Ok show ?thesis
    by (cases "m w"; cases "fst (m w)") (auto simp: run_writer_def then_c_eval cmd_eval)
qed (auto simp: run_writer_def neoc_binary_writer_create_def malloc_r_def Let_def split: if_splits)

definition three_nots :: "neoc_witness_action \<Rightarrow> neoc_witness_condition \<Rightarrow> neoc_witness_rule" where
  "three_nots a c = \<lparr>wr_action = a, wr_condition = Some (Cond_Not (Cond_Not (Cond_Not c)))\<rparr>"

lemma serialize_too_deep: "2 < d \<Longrightarrow> neoc_witness_condition_serialize_internal A c d = fail_c NEOC_ERROR_INVALID_FORMAT"
  by (cases c) (simp_all add: serialize_head_def cond_limits)

lemma write_three_nots:
  "write_rule A (three_nots a c) =
     then_c (foreach_c (neoc_binary_writer_write_byte A) [neoc_witness_action_get_byte a, 1, 1, 1])
       (fail_c NEOC_ERROR_INVALID_FORMAT)"
  by (simp add: write_rule_def three_nots_def neoc_witness_condition_serialize_def serialize_head_def cond_limits
      serialize_too_deep then_c_assoc)

lemma written_three_nots:
  assumes "neoc_witness_rule_get_size (Some (three_nots a c)) \<le> n" and "n < 2 ^ 62"
  shows "written_bytes A (three_nots a c) n = Ok []"
proof -
  let ?b = "[neoc_witness_action_get_byte a, 1, 1, 1]"
  have "writes A (foreach_c (neoc_binary_writer_write_byte A) ?b) (concat (map (\<lambda>b. [b]) ?b))"
    by (rule byte_codec.sequence_written) simp
  from run_writer_then_fail [OF this, of "of_nat (neoc_witness_rule_get_size (Some (three_nots a c)))"] assms
  obtain e where "run_writer A (of_nat (neoc_witness_rule_get_size (Some (three_nots a c)))) (write_rule A (three_nots a c)) = Err e"
    by (auto simp: write_three_nots unat_of_nat_size)
  with assms(1) show ?thesis by (simp add: written_bytes_def neoc_witness_rule_serialize_def Let_def)
qed

subsection \<open>Theorems\<close>

definition toy_curve :: curve where
  "toy_curve e = (if length e = 33 then Some (e, e @ replicate 32 0) else None)"

lemma toy_curve_ok: "curve_ok toy_curve"
  by (auto simp: curve_ok_def toy_curve_def split: if_splits)

text \<open>C28. A witness condition nested at most two levels deep, with at most sixteen items in every conjunction and
  disjunction and with points of the curve as its groups, is written as exactly \<^verbatim>\<open>neoc_witness_condition_get_size\<close> bytes,
  at most 11560; reading them back gives an equal condition, and so does cloning it.\<close>

theorem condition_roundtrip:
  assumes "cond_ok K 0 c" and "unat cap < 2 ^ 63" and "grants A (unat cap + 24000)"
  shows "\<exists>bs. run_writer A cap (neoc_witness_condition_serialize A (Some c)) = Ok bs
    \<and> length bs = neoc_witness_condition_get_size (Some c) \<and> length bs \<le> 11560
    \<and> run_reader A (Some bs) (of_nat (length bs)) (neoc_witness_condition_deserialize A K) = Ok c
    \<and> neoc_witness_condition_clone A K (Some c) = Ok c"
proof -
  have len: "length (enc_condition c) \<le> 11560" using assms(1) by (rule length_enc_condition_0)
  have g: "grants A 128" using assms(3) by (rule grants_mono) simp
  have w: "run_writer A cap (neoc_witness_condition_serialize A (Some c)) = Ok (enc_condition c)"
    by (rule run_writer_Ok [OF condition_codec.object_wr [OF assms(1) g] _ assms(2)])
       (use assms(3) len in \<open>auto elim!: grants_mono\<close>)
  have "grants A (max 40 (unat cap + 2 * length (enc_condition c) + 128))" using assms(3) by (rule grants_mono) (use len in auto)
  from condition_codec.object_roundtrip [OF assms(1) _ assms(2) this] len w
  have "run_reader A (Some (enc_condition c)) (of_nat (length (enc_condition c))) (neoc_witness_condition_deserialize A K) = Ok c"
    by simp
  with w len g assms(1) show ?thesis
    by (simp add: neoc_witness_condition_get_size_def condition_size neoc_witness_condition_clone_def clone_condition)
qed

theorem condition_roundtrip_witness:
  "neoc_witness_condition_clone (\<lambda>_. True) toy_curve
     (Some (Cond_And [Cond_Boolean True, Cond_Not (Cond_Script_Hash (replicate 20 7))]))
   = Ok (Cond_And [Cond_Boolean True, Cond_Not (Cond_Script_Hash (replicate 20 7))])"
  using condition_roundtrip [of toy_curve "Cond_And [Cond_Boolean True, Cond_Not (Cond_Script_Hash (replicate 20 7))]" 64 "\<lambda>_. True"]
  by auto

text \<open>C29. Whatever the input bytes are, reading a condition has a defined outcome, does not move outside the buffer,
  and any condition it accepts respects the nesting and size limits and holds only points of the curve.\<close>

theorem condition_deserialize_wf:
  assumes "curve_ok K" and "reader_inv r"
  shows "case neoc_witness_condition_deserialize A K r of
      (res, r') \<Rightarrow> res \<noteq> Fault \<and> reader_inv r' \<and> unat (r_position r) \<le> unat (r_position r')
        \<and> (\<forall>c. res = Ok c \<longrightarrow> cond_ok K 0 c)"
proof -
  from yields_condition [OF assms(1), of A 0] assms(2)
  obtain k where k: "k \<le> length (r_rest r)" "snd (neoc_witness_condition_deserialize A K r) = advance k r"
    and "fst (neoc_witness_condition_deserialize A K r) \<noteq> Fault"
    and "\<And>c. fst (neoc_witness_condition_deserialize A K r) = Ok c \<Longrightarrow> cond_ok K 0 c"
    unfolding yields_def neoc_witness_condition_deserialize_def by blast
  moreover have "reader_inv (advance k r)" using assms(2) k(1) by (rule advance_inv)
  ultimately show ?thesis using unat_advance [OF assms(2) k(1)] by (auto simp: case_prod_beta advance_def)
qed

theorem condition_deserialize_wf_witness:
  "case neoc_witness_condition_deserialize (\<lambda>_. True) toy_curve
       \<lparr>r_data = [1, 0, 1], r_size = 3, r_position = 0, r_marker = SIZE_MAX\<rparr> of
     (res, r') \<Rightarrow> res \<noteq> Fault \<and> reader_inv r' \<and> unat (0 :: size_t) \<le> unat (r_position r')
       \<and> (\<forall>c. res = Ok c \<longrightarrow> cond_ok toy_curve 0 c)"
  using condition_deserialize_wf [OF toy_curve_ok, of "\<lparr>r_data = [1, 0, 1], r_size = 3, r_position = 0, r_marker = SIZE_MAX\<rparr>" "\<lambda>_. True"]
  by (simp add: reader_inv_def)

text \<open>A rule with a well-formed condition is serialized into any buffer of at least \<^verbatim>\<open>neoc_witness_rule_get_size\<close> bytes,
  a smaller buffer is refused and told the size, and deserializing the bytes, whatever follows them, gives
  the rule and the number of bytes it took.\<close>

theorem rule_roundtrip:
  assumes "rule_ok K r" and "length rest < 2 ^ 60" and "grants A (40000 + length rest)"
  shows "neoc_witness_rule_serialize A (Some r) n =
      (if n < neoc_witness_rule_get_size (Some r) then (Err NEOC_ERROR_BUFFER_TOO_SMALL, Some (neoc_witness_rule_get_size (Some r)))
       else (Ok (enc_rule r), Some (neoc_witness_rule_get_size (Some r))))
    \<and> neoc_witness_rule_deserialize A K (Some (enc_rule r @ rest)) (of_nat (length (enc_rule r @ rest)))
      = Ok (r, of_nat (neoc_witness_rule_get_size (Some r)))"
proof -
  note size_r = rule_size [OF assms(1)]
  have len: "length (enc_rule r) \<le> 11561" using assms(1) by (rule length_enc_rule)
  have g: "grants A 40000" "grants A 128" "grants A (max 40 (length (enc_rule r @ rest)))"
    using assms(3) len by (auto elim!: grants_mono)
  have small: "length (enc_rule r @ rest) < 2 ^ 63" using len assms(2) by simp
  obtain rd where rd: "neoc_binary_reader_create A (Some (enc_rule r @ rest)) (of_nat (length (enc_rule r @ rest))) = Ok rd"
    "reader_inv rd" "r_rest rd = enc_rule r @ rest" using reader_create_fresh [OF small g(3)] .
  have pos: "r_position rd = 0" using rd(1) by (auto simp: neoc_binary_reader_create_def bind_r_Ok_iff split: if_splits)
  have "neoc_witness_rule_deserialize A K (Some (enc_rule r @ rest)) (of_nat (length (enc_rule r @ rest)))
      = Ok (r, of_nat (length (enc_rule r)))"
    using readsD [OF rule_codec.object_rd [OF assms(1) g(2)] rd(2,3)] rd(1) pos
    by (simp add: neoc_witness_rule_deserialize_def neoc_binary_reader_get_position_def advance_def)
  moreover have "neoc_witness_rule_serialize A (Some r) n = (Err NEOC_ERROR_BUFFER_TOO_SMALL, Some (length (enc_rule r)))"
    if "n < length (enc_rule r)" using that by (simp add: neoc_witness_rule_serialize_def size_r)
  ultimately show ?thesis using rule_serialize_Ok [OF assms(1) _ g(1), of n] size_r by auto
qed

theorem rule_roundtrip_witness:
  "neoc_witness_rule_serialize (\<lambda>_. True) (Some \<lparr>wr_action = NEOC_WITNESS_ACTION_ALLOW, wr_condition = Some Cond_Called_By_Entry\<rparr>) 1
   = (Err NEOC_ERROR_BUFFER_TOO_SMALL, Some 2)"
  using rule_roundtrip [of toy_curve "\<lparr>wr_action = NEOC_WITNESS_ACTION_ALLOW, wr_condition = Some Cond_Called_By_Entry\<rparr>" "[]" "\<lambda>_. True" 1]
  by (simp add: rule_ok_def neoc_witness_rule_get_size_def neoc_witness_condition_get_size_def)

text \<open>On rules with well-formed conditions \<^verbatim>\<open>neoc_witness_rule_equals\<close> decides equality.\<close>

theorem rule_equals_correct:
  assumes "rule_ok K r1" and "rule_ok K r2" and "grants A 40000"
  shows "neoc_witness_rule_equals A False (Some r1) (Some r2) = Ok (r1 = r2)"
proof -
  have len: "length (enc_rule r1) \<le> 11561" using assms(1) by (rule length_enc_rule)
  have inj: "enc_rule r1 = enc_rule r2 \<longleftrightarrow> r1 = r2"
    using rule_codec.object_injective [OF assms(1,2)] len by auto
  have A: "A (length (enc_rule r1))" using assms(3) len by (simp add: grants_def)
  show ?thesis
    using inj A rule_serialize_Ok [OF assms(1) order_refl assms(3)] rule_serialize_Ok [OF assms(2) order_refl assms(3)]
    by (auto simp: neoc_witness_rule_equals_def rule_size [OF assms(1)] rule_size [OF assms(2)] Let_def written_bytes_def)
qed

theorem rule_equals_correct_witness:
  "neoc_witness_rule_equals (\<lambda>_. True) False
     (Some \<lparr>wr_action = NEOC_WITNESS_ACTION_ALLOW, wr_condition = Some (Cond_Boolean True)\<rparr>)
     (Some \<lparr>wr_action = NEOC_WITNESS_ACTION_ALLOW, wr_condition = Some (Cond_Boolean False)\<rparr>) = Ok False"
  using rule_equals_correct [of toy_curve "\<lparr>wr_action = NEOC_WITNESS_ACTION_ALLOW, wr_condition = Some (Cond_Boolean True)\<rparr>"
      "\<lparr>wr_action = NEOC_WITNESS_ACTION_ALLOW, wr_condition = Some (Cond_Boolean False)\<rparr>" "\<lambda>_. True"]
  by (simp add: rule_ok_def)

text \<open>Rules nested deeper than the serializer allows compare equal as soon as their actions and sizes agree: the
  failures of the two serializations are ignored and nothing is compared.\<close>

theorem rule_equals_ignores_failure:
  assumes "neoc_witness_condition_internal_size c1 = neoc_witness_condition_internal_size c2"
    and "neoc_witness_condition_internal_size c1 < 2 ^ 60" and "A (neoc_witness_condition_internal_size c1 + 4)"
  shows "neoc_witness_rule_equals A False (Some (three_nots a c1)) (Some (three_nots a c2)) = Ok True"
proof -
  have size_c: "neoc_witness_rule_get_size (Some (three_nots a c)) = neoc_witness_condition_internal_size c + 4" for c
    by (simp add: three_nots_def neoc_witness_rule_get_size_def neoc_witness_condition_get_size_def)
  have small: "neoc_witness_condition_internal_size c1 + 4 < 2 ^ 62" using assms(2) by simp
  have "written_bytes A (three_nots a c1) (neoc_witness_condition_internal_size c1 + 4) = Ok []"
    "written_bytes A (three_nots a c2) (neoc_witness_condition_internal_size c1 + 4) = Ok []"
    using small by (intro written_three_nots; simp add: size_c assms(1))+
  then show ?thesis
    using assms(1,3) by (simp add: neoc_witness_rule_equals_def size_c Let_def) (simp add: three_nots_def)
qed

theorem rule_equals_ignores_failure_witness:
  "neoc_witness_rule_equals (\<lambda>_. True) False (Some (three_nots NEOC_WITNESS_ACTION_ALLOW (Cond_Boolean True)))
     (Some (three_nots NEOC_WITNESS_ACTION_ALLOW (Cond_Boolean False))) = Ok True"
  by (rule rule_equals_ignores_failure) simp_all

end
