(* ===== verification/Verification_Script.thy ===== *)
theory Verification_Script
  imports Script_Object Witness_Condition "HOL-Library.Multiset"
begin

text \<open>
  \<^verbatim>\<open>src/script/verification_script.c\<close>: the script that checks the signatures of a witness, with its recognition as a
  single-signature or multi-signature script and the reading of threshold and keys out of it.  The object owns a byte array that is
  null exactly when it is empty.  As in the other theories \<open>C\<close> is the cryptographic library, \<open>T\<close> the table of system calls, \<open>K\<close> the curve.
\<close>

record neoc_verification_script =
  ver_bytes :: "byte list"

abbreviation (input) "NEOC_MAX_PUBLIC_KEYS_PER_MULTISIG_ACCOUNT \<equiv> (1024 :: nat)"
abbreviation (input) "NEOC_PUBLIC_KEY_SIZE_COMPRESSED \<equiv> (33 :: nat)"

definition neoc_verification_var_int_size :: "u64 \<Rightarrow> nat" where
  "neoc_verification_var_int_size v = (if v < 0xFD then 1 else if v \<le> 0xFFFF then 3 else if v \<le> 0xFFFFFFFF then 5 else 9)"

definition neoc_verification_script_allocate :: "allocator \<Rightarrow> byte list option \<Rightarrow> nat \<Rightarrow> neoc_verification_script result" where
  "neoc_verification_script_allocate A script script_length =
     bind_r (malloc_r A sizeof_script_object) (\<lambda>_.
       if 0 < script_length then
         (case script of
            None \<Rightarrow> Err NEOC_ERROR_INVALID_ARGUMENT
          | Some _ \<Rightarrow>
              bind_r (memdup_r A script script_length) (\<lambda>copied.
                case copied of None \<Rightarrow> Err NEOC_ERROR_MEMORY | Some bs \<Rightarrow> Ok \<lparr>ver_bytes = bs\<rparr>))
       else Ok \<lparr>ver_bytes = []\<rparr>)"

definition neoc_key_entry_compare :: "byte list \<Rightarrow> byte list \<Rightarrow> int" where
  "neoc_key_entry_compare a b =
     (let min_len = min (length a) (length b); cmp = memcmp_c (take min_len a) (take min_len b) in
      if cmp \<noteq> 0 then cmp
      else if length a = length b then 0
      else if length a < length b then - 1 else 1)"

text \<open>
  \<^verbatim>\<open>qsort\<close> with a comparison function.  The C standard says that the result is a permutation in ascending order, not which one among
  equal elements; \<open>qsort_unique\<close> below shows that for the comparison of key entries there is only one.
\<close>

fun insert_c :: "('a \<Rightarrow> 'a \<Rightarrow> int) \<Rightarrow> 'a \<Rightarrow> 'a list \<Rightarrow> 'a list" where
  "insert_c compare x [] = [x]"
| "insert_c compare x (y # ys) = (if compare x y \<le> 0 then x # y # ys else y # insert_c compare x ys)"

definition qsort_c :: "('a \<Rightarrow> 'a \<Rightarrow> int) \<Rightarrow> 'a list \<Rightarrow> 'a list" where
  "qsort_c compare xs = foldr (insert_c compare) xs []"

text \<open>
  The integer that an opcode at an offset pushes, and the offset after it.  The bytes of the operand are put together as
  an integer of their width and sign-extended.
\<close>

definition neoc_verification_script_parse_push_int :: "byte list option \<Rightarrow> nat \<Rightarrow> (64 word \<times> nat) result" where
  "neoc_verification_script_parse_push_int script offset =
     (case script of
        None \<Rightarrow> Err NEOC_ERROR_INVALID_ARGUMENT
      | Some bs \<Rightarrow>
          if length bs \<le> offset then Err NEOC_ERROR_INVALID_FORMAT
          else
            let opcode = bs ! offset; at = offset + 1 in
            if opcode = NEOC_OP_PUSHM1 then Ok (- 1, at)
            else if opcode = NEOC_OP_PUSH0 then Ok (0, at)
            else if NEOC_OP_PUSH1 \<le> opcode \<and> opcode \<le> NEOC_OP_PUSH16 then Ok (ucast (opcode - NEOC_OP_PUSH0), at)
            else if opcode = NEOC_OP_PUSHINT8 then
              if length bs < at + 1 then Err NEOC_ERROR_INVALID_FORMAT
              else Ok (scast (bs ! at), at + 1)
            else if opcode = NEOC_OP_PUSHINT16 then
              if length bs < at + 2 then Err NEOC_ERROR_INVALID_FORMAT
              else Ok (scast (of_le (take 2 (drop at bs)) :: 16 word), at + 2)
            else if opcode = NEOC_OP_PUSHINT32 then
              if length bs < at + 4 then Err NEOC_ERROR_INVALID_FORMAT
              else Ok (scast (of_le (take 4 (drop at bs)) :: 32 word), at + 4)
            else if opcode = NEOC_OP_PUSHINT64 then
              if length bs < at + 8 then Err NEOC_ERROR_INVALID_FORMAT
              else Ok (of_le (take 8 (drop at bs)), at + 8)
            else Err NEOC_ERROR_INVALID_FORMAT)"

definition neoc_verification_script_expected_hash :: "crypto \<Rightarrow> interop_table \<Rightarrow> neoc_interop_service \<Rightarrow> u32" where
  "neoc_verification_script_expected_hash C T service = fst (neoc_interop_get_hash C service T)"

definition neoc_verification_script_create :: "allocator \<Rightarrow> byte list option \<Rightarrow> nat \<Rightarrow> neoc_verification_script result" where
  "neoc_verification_script_create A script script_length = neoc_verification_script_allocate A script script_length"

definition neoc_verification_script_create_single_sig ::
  "allocator \<Rightarrow> crypto \<Rightarrow> interop_table \<Rightarrow> neoc_ec_public_key option \<Rightarrow> neoc_verification_script result" where
  "neoc_verification_script_create_single_sig A C T public_key =
     (case public_key of
        None \<Rightarrow> Err NEOC_ERROR_INVALID_ARGUMENT
      | Some key \<Rightarrow>
          bind_r (neoc_ec_public_key_get_encoded A (Some key) True) (\<lambda>encoded.
          bind_r (neoc_script_builder_build_verification_script A C T (Some encoded)) (\<lambda>script.
            neoc_verification_script_allocate A (Some script) (length script))))"

text \<open>The keys are an array of pointers, each of which may be null; the threshold is an \<^verbatim>\<open>int\<close>.\<close>

definition neoc_verification_script_create_multi_sig ::
  "allocator \<Rightarrow> crypto \<Rightarrow> interop_table \<Rightarrow> neoc_ec_public_key option list \<Rightarrow> int \<Rightarrow> neoc_verification_script result" where
  "neoc_verification_script_create_multi_sig A C T public_keys signing_threshold =
     (if length public_keys = 0 \<or> signing_threshold \<le> 0 \<or> int (length public_keys) < signing_threshold
      then Err NEOC_ERROR_INVALID_ARGUMENT
      else if NEOC_MAX_PUBLIC_KEYS_PER_MULTISIG_ACCOUNT < length public_keys then Err NEOC_ERROR_INVALID_ARGUMENT
      else
        bind_r (malloc_r A (length public_keys * 16)) (\<lambda>_.
        bind_r (map_r (\<lambda>key. neoc_ec_public_key_get_encoded A key True) public_keys) (\<lambda>encoded.
        let entries = qsort_c neoc_key_entry_compare encoded in
        bind_r (run_builder A
            (then_c (neoc_script_builder_push_integer A (word_of_int signing_threshold))
            (then_c (foreach_c (\<lambda>e. neoc_script_builder_push_data A (Some e) (of_nat (length e))) entries)
            (then_c (neoc_script_builder_push_integer A (of_nat (length public_keys)))
                    (neoc_script_builder_emit_syscall A C T NEOC_INTEROP_SYSTEM_CRYPTO_CHECKMULTISIG))))) (\<lambda>script.
          neoc_verification_script_allocate A (Some script) (length script)))))"

definition neoc_verification_script_get_script :: "neoc_verification_script option \<Rightarrow> byte list result" where
  "neoc_verification_script_get_script s =
     (case s of None \<Rightarrow> Err NEOC_ERROR_INVALID_ARGUMENT | Some s \<Rightarrow> Ok (ver_bytes s))"

definition neoc_verification_script_get_size :: "neoc_verification_script option \<Rightarrow> nat" where
  "neoc_verification_script_get_size s =
     (case s of
        None \<Rightarrow> 0
      | Some s \<Rightarrow> neoc_verification_var_int_size (of_nat (length (ver_bytes s))) + length (ver_bytes s))"

subsection \<open>Recognition\<close>

definition neoc_verification_script_checksig_match :: "crypto \<Rightarrow> interop_table \<Rightarrow> byte list \<Rightarrow> bool" where
  "neoc_verification_script_checksig_match C T script =
     (if length script \<noteq> 40 then False
      else if script ! 0 \<noteq> NEOC_OP_PUSHDATA1 \<or> unat (script ! 1) \<noteq> NEOC_PUBLIC_KEY_SIZE_COMPRESSED then False
      else if script ! 35 \<noteq> NEOC_OP_SYSCALL then False
      else neoc_verification_script_expected_hash C T NEOC_INTEROP_SYSTEM_CRYPTO_CHECKSIG = of_le (take 4 (drop 36 script)))"

definition neoc_verification_script_is_single_sig :: "crypto \<Rightarrow> interop_table \<Rightarrow> neoc_verification_script option \<Rightarrow> bool" where
  "neoc_verification_script_is_single_sig C T s =
     (case s of
        None \<Rightarrow> False
      | Some s \<Rightarrow> if length (ver_bytes s) \<noteq> 40 then False else neoc_verification_script_checksig_match C T (ver_bytes s))"

text \<open>The loop over the pushed keys: offset and number of keys after it, or nothing where the function returns false.\<close>

function scan_keys :: "byte list \<Rightarrow> nat \<Rightarrow> nat \<Rightarrow> (nat \<times> nat) option" where
  "scan_keys script offset key_count =
     (if offset < length script then
        if script ! offset \<noteq> NEOC_OP_PUSHDATA1 then Some (offset, key_count)
        else if length script < offset + 2 then None
        else
          let len = script ! (offset + 1) in
          if unat len \<noteq> NEOC_PUBLIC_KEY_SIZE_COMPRESSED then None
          else if length script < offset + 2 + unat len then None
          else scan_keys script (offset + (2 + unat len)) (key_count + 1)
      else Some (offset, key_count))"
  by pat_completeness auto

termination
  by (relation "measure (\<lambda>(script, offset, _). length script - offset)") auto

declare scan_keys.simps [simp del]

definition neoc_verification_script_is_multi_sig :: "crypto \<Rightarrow> interop_table \<Rightarrow> neoc_verification_script option \<Rightarrow> bool" where
  "neoc_verification_script_is_multi_sig C T s =
     (case s of
        None \<Rightarrow> False
      | Some s \<Rightarrow>
          let script = ver_bytes s in
          if length script < 42 then False
          else (case neoc_verification_script_parse_push_int (script_ptr script) 0 of
              Ok (threshold, offset) \<Rightarrow>
                if sint threshold < 1 \<or> int NEOC_MAX_PUBLIC_KEYS_PER_MULTISIG_ACCOUNT < sint threshold then False
                else (case scan_keys script offset 0 of
                    None \<Rightarrow> False
                  | Some (offset, key_count) \<Rightarrow>
                      if key_count = 0 \<or> NEOC_MAX_PUBLIC_KEYS_PER_MULTISIG_ACCOUNT < key_count then False
                      else if int key_count < sint threshold then False
                      else (case neoc_verification_script_parse_push_int (script_ptr script) offset of
                          Ok (declared_count, offset) \<Rightarrow>
                            if sint declared_count \<noteq> int key_count then False
                            else if length script \<le> offset \<or> script ! offset \<noteq> NEOC_OP_SYSCALL then False
                            else
                              let offset = offset + 1 in
                              if length script < offset + 4 then False
                              else if neoc_verification_script_expected_hash C T NEOC_INTEROP_SYSTEM_CRYPTO_CHECKMULTISIG
                                  \<noteq> of_le (take 4 (drop offset script)) then False
                              else offset + 4 = length script
                        | _ \<Rightarrow> False))
            | _ \<Rightarrow> False))"

definition neoc_verification_script_get_signing_threshold ::
  "crypto \<Rightarrow> interop_table \<Rightarrow> neoc_verification_script option \<Rightarrow> int result" where
  "neoc_verification_script_get_signing_threshold C T s =
     (case s of
        None \<Rightarrow> Err NEOC_ERROR_INVALID_ARGUMENT
      | Some s \<Rightarrow>
          if neoc_verification_script_is_single_sig C T (Some s) then Ok 1
          else bind_r (neoc_verification_script_parse_push_int (script_ptr (ver_bytes s)) 0) (\<lambda>(value, _).
            if sint value < 1 \<or> int NEOC_MAX_PUBLIC_KEYS_PER_MULTISIG_ACCOUNT < sint value
            then Err NEOC_ERROR_INVALID_FORMAT
            else Ok (sint value)))"

text \<open>The loop that counts the keys, and the loop that decodes them.\<close>

function count_keys :: "byte list \<Rightarrow> nat \<Rightarrow> nat" where
  "count_keys script offset =
     (if offset < length script \<and> script ! offset = NEOC_OP_PUSHDATA1
      then Suc (count_keys script (offset + (2 + NEOC_PUBLIC_KEY_SIZE_COMPRESSED))) else 0)"
  by pat_completeness auto

termination
  by (relation "measure (\<lambda>(script, offset). length script - offset)") auto

declare count_keys.simps [simp del]

fun decode_keys :: "allocator \<Rightarrow> curve \<Rightarrow> byte list \<Rightarrow> nat \<Rightarrow> nat \<Rightarrow> neoc_ec_public_key list result" where
  "decode_keys A K script 0 offset = Ok []"
| "decode_keys A K script (Suc n) offset =
     (if length script < offset + 2 + NEOC_PUBLIC_KEY_SIZE_COMPRESSED then Err NEOC_ERROR_INVALID_FORMAT
      else
        bind_r (neoc_ec_public_key_from_bytes A K (Some (take NEOC_PUBLIC_KEY_SIZE_COMPRESSED (drop (offset + 2) script)))) (\<lambda>key.
        bind_r (decode_keys A K script n (offset + 2 + NEOC_PUBLIC_KEY_SIZE_COMPRESSED)) (\<lambda>keys. Ok (key # keys))))"

definition neoc_verification_script_get_public_keys ::
  "allocator \<Rightarrow> crypto \<Rightarrow> interop_table \<Rightarrow> curve \<Rightarrow> neoc_verification_script option \<Rightarrow> neoc_ec_public_key list result" where
  "neoc_verification_script_get_public_keys A C T K s =
     (case s of
        None \<Rightarrow> Err NEOC_ERROR_INVALID_ARGUMENT
      | Some s \<Rightarrow>
          let script = ver_bytes s in
          if neoc_verification_script_is_single_sig C T (Some s) then
            bind_r (malloc_r A 8) (\<lambda>_.
            bind_r (neoc_ec_public_key_from_bytes A K (Some (take NEOC_PUBLIC_KEY_SIZE_COMPRESSED (drop 2 script)))) (\<lambda>key.
              Ok [key]))
          else if \<not> neoc_verification_script_is_multi_sig C T (Some s) then Err NEOC_ERROR_INVALID_FORMAT
          else bind_r (neoc_verification_script_parse_push_int (script_ptr script) 0) (\<lambda>(_, offset).
            let count = count_keys script offset in
            if count = 0 then Err NEOC_ERROR_INVALID_FORMAT
            else bind_r (malloc_r A (count * 8)) (\<lambda>_. decode_keys A K script count offset)))"

definition neoc_verification_script_get_nr_accounts ::
  "allocator \<Rightarrow> crypto \<Rightarrow> interop_table \<Rightarrow> curve \<Rightarrow> neoc_verification_script option \<Rightarrow> int result" where
  "neoc_verification_script_get_nr_accounts A C T K s =
     (case s of
        None \<Rightarrow> Err NEOC_ERROR_INVALID_ARGUMENT
      | Some s \<Rightarrow>
          bind_r (neoc_verification_script_get_public_keys A C T K (Some s)) (\<lambda>keys. Ok (int (length keys))))"

subsection \<open>Hash, address, copies, serialization\<close>

definition neoc_verification_script_get_script_hash ::
  "crypto \<Rightarrow> neoc_verification_script option \<Rightarrow> neoc_hash160 result" where
  "neoc_verification_script_get_script_hash C s =
     (case s of
        None \<Rightarrow> Err NEOC_ERROR_INVALID_ARGUMENT
      | Some s \<Rightarrow> neoc_hash160_from_script C (script_ptr (ver_bytes s)))"

definition neoc_verification_script_get_address ::
  "crypto \<Rightarrow> allocator \<Rightarrow> neoc_verification_script option \<Rightarrow> string result" where
  "neoc_verification_script_get_address C A s =
     (case s of
        None \<Rightarrow> Err NEOC_ERROR_INVALID_ARGUMENT
      | Some s \<Rightarrow>
          bind_r (neoc_verification_script_get_script_hash C (Some s)) (\<lambda>hash.
          let buffer_size = neoc_base58_check_encode_buffer_size (1 + NEOC_HASH160_SIZE) in
          bind_r (malloc_r A buffer_size) (\<lambda>_. neoc_hash160_to_address C A (Some hash) buffer_size)))"

definition neoc_verification_script_copy :: "allocator \<Rightarrow> neoc_verification_script option \<Rightarrow> neoc_verification_script result" where
  "neoc_verification_script_copy A source =
     (case source of
        None \<Rightarrow> Err NEOC_ERROR_INVALID_ARGUMENT
      | Some s \<Rightarrow> neoc_verification_script_allocate A (script_ptr (ver_bytes s)) (length (ver_bytes s)))"

definition neoc_verification_script_equals ::
  "neoc_verification_script option \<Rightarrow> neoc_verification_script option \<Rightarrow> bool" where
  "neoc_verification_script_equals script1 script2 =
     (case (script1, script2) of
        (None, None) \<Rightarrow> True
      | (Some a, Some b) \<Rightarrow>
          if length (ver_bytes a) \<noteq> length (ver_bytes b) then False
          else if length (ver_bytes a) = 0 then True
          else memcmp_c (ver_bytes a) (ver_bytes b) = 0
      | _ \<Rightarrow> False)"

definition neoc_verification_script_hash :: "neoc_verification_script option \<Rightarrow> u32" where
  "neoc_verification_script_hash s =
     (case s of
        None \<Rightarrow> neoc_hash_murmur32 [] 0
      | Some s \<Rightarrow> if length (ver_bytes s) = 0 then neoc_hash_murmur32 [] 0 else neoc_hash_murmur32 (ver_bytes s) 0)"

definition neoc_verification_script_serialize :: "allocator \<Rightarrow> neoc_verification_script option \<Rightarrow> byte list result" where
  "neoc_verification_script_serialize A s =
     (case s of
        None \<Rightarrow> Err NEOC_ERROR_INVALID_ARGUMENT
      | Some s \<Rightarrow> run_writer A 32 (write_script A (ver_bytes s)))"

definition neoc_verification_script_deserialize ::
  "allocator \<Rightarrow> byte list option \<Rightarrow> size_t \<Rightarrow> neoc_verification_script result" where
  "neoc_verification_script_deserialize A serialized serialized_length =
     (case serialized of
        None \<Rightarrow> Err NEOC_ERROR_INVALID_ARGUMENT
      | Some bs \<Rightarrow>
          bind_r (run_reader A (Some bs) serialized_length (neoc_binary_reader_read_var_bytes A)) (\<lambda>data.
            neoc_verification_script_allocate A data (case data of None \<Rightarrow> 0 | Some d \<Rightarrow> length d)))"

definition neoc_verification_script_clear :: "(neoc_verification_script, unit) cmd" where
  "neoc_verification_script_clear s = (Ok (), s\<lparr>ver_bytes := []\<rparr>)"

interpretation verification: script_object ver_bytes "\<lambda>bs. \<lparr>ver_bytes = bs\<rparr>" neoc_verification_script_create
  neoc_verification_script_copy neoc_verification_script_equals neoc_verification_script_get_size
  neoc_verification_script_serialize neoc_verification_script_deserialize
  by unfold_locales
     (auto simp: neoc_verification_script_create_def neoc_verification_script_allocate_def neoc_verification_script_copy_def
        neoc_verification_script_equals_def memcmp_zero_iff neoc_verification_script_get_size_def neoc_verification_var_int_size_def
        neoc_var_int_size_def neoc_verification_script_serialize_def neoc_verification_script_deserialize_def)

subsection \<open>The order of the keys\<close>

lemma key_compare_rec [simp]:
  "neoc_key_entry_compare [] [] = 0"
  "neoc_key_entry_compare [] (y # ys) = - 1"
  "neoc_key_entry_compare (x # xs) [] = 1"
  "neoc_key_entry_compare (x # xs) (y # ys) = (if x < y then - 1 else if y < x then 1 else neoc_key_entry_compare xs ys)"
  by (simp_all add: neoc_key_entry_compare_def Let_def)

lemma key_compare_zero: "neoc_key_entry_compare a b = 0 \<longleftrightarrow> a = b"
  by (induction a arbitrary: b; case_tac b) (auto simp: not_less_iff_gr_or_eq)

lemma key_compare_refl [simp]: "neoc_key_entry_compare a a = 0"
  by (simp add: key_compare_zero)

lemma key_compare_sym: "neoc_key_entry_compare a b = - neoc_key_entry_compare b a"
  by (induction a arbitrary: b; case_tac b) auto

lemma key_compare_antisym: "neoc_key_entry_compare a b \<le> 0 \<Longrightarrow> neoc_key_entry_compare b a \<le> 0 \<Longrightarrow> a = b"
  using key_compare_sym [of a b] key_compare_zero [of a b] by linarith

lemma key_compare_trans:
  "neoc_key_entry_compare a b \<le> 0 \<Longrightarrow> neoc_key_entry_compare b c \<le> 0 \<Longrightarrow> neoc_key_entry_compare a c \<le> 0"
proof (induction a arbitrary: b c)
  case Nil
  then show ?case by (cases c) auto
next
  case (Cons x xs)
  from Cons.prems(1) obtain y ys where b: "b = y # ys" by (cases b) auto
  with Cons.prems(2) obtain z zs where c: "c = z # zs" by (cases c) auto
  show ?case using Cons b c by (auto split: if_splits)
qed

abbreviation key_le :: "byte list \<Rightarrow> byte list \<Rightarrow> bool" where
  "key_le a b \<equiv> neoc_key_entry_compare a b \<le> 0"

lemma mset_insert_c [simp]: "mset (insert_c compare x ys) = add_mset x (mset ys)"
  by (induction ys) auto

lemma mset_qsort [simp]: "mset (qsort_c compare xs) = mset xs"
  by (induction xs) (simp_all add: qsort_c_def)

lemma qsort_basic [simp]: "length (qsort_c compare xs) = length xs" "set (qsort_c compare xs) = set xs"
  by (metis mset_qsort size_mset, metis mset_qsort set_mset_mset)

lemma sorted_insert_key: "sorted_wrt key_le ys \<Longrightarrow> sorted_wrt key_le (insert_c neoc_key_entry_compare x ys)"
proof (induction ys)
  case (Cons y ys)
  show ?case
  proof (cases "key_le x y")
    case True
    with Cons.prems show ?thesis by (auto intro: key_compare_trans)
  next
    case False
    then have "key_le y x" using key_compare_sym [of x y] by linarith
    moreover have "set (insert_c neoc_key_entry_compare x ys) = insert x (set ys)"
      by (metis mset_insert_c set_mset_add_mset_insert set_mset_mset)
    ultimately show ?thesis using False Cons by simp
  qed
qed simp

lemma sorted_qsort: "sorted_wrt key_le (qsort_c neoc_key_entry_compare xs)"
  by (induction xs) (simp_all add: qsort_c_def sorted_insert_key)

lemma sorted_keys_unique: "sorted_wrt key_le xs \<Longrightarrow> sorted_wrt key_le ys \<Longrightarrow> mset xs = mset ys \<Longrightarrow> xs = ys"
proof (induction xs arbitrary: ys)
  case (Cons x xs)
  then obtain y ys' where ys: "ys = y # ys'" by (cases ys) auto
  have "x \<in> set ys" "y \<in> set (x # xs)"
    using Cons.prems(3) ys by (metis list.set_intros(1) set_mset_mset)+
  with Cons.prems(1,2) ys have "key_le y x" "key_le x y" by (auto simp: key_compare_zero)
  then have "x = y" by (rule key_compare_antisym [symmetric])
  with Cons ys show ?case by simp
qed simp

text \<open>Whatever \<^verbatim>\<open>qsort\<close> does, its result on key entries is the one computed here.\<close>

lemma qsort_unique: "mset ys = mset xs \<Longrightarrow> sorted_wrt key_le ys \<Longrightarrow> ys = qsort_c neoc_key_entry_compare xs"
  by (rule sorted_keys_unique) (simp_all add: sorted_qsort)

lemma qsort_perm: "mset xs = mset ys \<Longrightarrow> qsort_c neoc_key_entry_compare xs = qsort_c neoc_key_entry_compare ys"
  by (rule sorted_keys_unique) (simp_all add: sorted_qsort)

subsection \<open>Reading pushed integers\<close>

lemma scast_ucast_in_range:
  fixes v :: "64 word"
  assumes "- (2 ^ (LENGTH('b) - 1)) \<le> sint v" and "sint v < 2 ^ (LENGTH('b) - 1)" and "LENGTH('b::len) \<le> 64"
  shows "scast (ucast v :: 'b word) = v"
proof -
  have le63: "LENGTH('b) - Suc 0 \<le> 63" using assms(3) by simp
  have "sint (ucast v :: 'b word) = signed_take_bit (LENGTH('b) - 1) (sint v)"
    using le63 by (simp add: sint_uint signed_take_bit_take_bit unsigned_ucast_eq signed_take_bit_signed_take_bit take_bit_signed_take_bit min_def)
  also have "\<dots> = sint v" using assms(1,2) by (simp add: signed_take_bit_int_eq_self)
  finally show ?thesis by (simp add: scast_eq)
qed

lemma of_le_narrow:
  fixes v :: "64 word"
  assumes "LENGTH('b::len) = 8 * n"
  shows "(of_le (le_bytes n v) :: 'b word) = ucast v"
proof (rule bit_word_eqI)
  fix k
  assume "k < LENGTH('b)"
  with assms show "bit (of_le (le_bytes n v) :: 'b word) k = bit (ucast v :: 'b word) k"
    by (simp add: of_le_le_bytes_trunc bit_simps)
qed

lemma take_drop_at: "n = length bs \<Longrightarrow> take n (drop (Suc (length pre)) (pre @ op # bs @ rest)) = bs"
  by simp

lemma parse_push_wide:
  assumes "bs ! offset = op"
  shows "op = 0x00 \<Longrightarrow> offset + 1 < length bs \<Longrightarrow>
      neoc_verification_script_parse_push_int (Some bs) offset = Ok (scast (bs ! (offset + 1)), offset + 2)"
    and "op = 0x01 \<Longrightarrow> offset + 2 < length bs \<Longrightarrow>
      neoc_verification_script_parse_push_int (Some bs) offset = Ok (scast (of_le (take 2 (drop (offset + 1) bs)) :: 16 word), offset + 3)"
    and "op = 0x02 \<Longrightarrow> offset + 4 < length bs \<Longrightarrow>
      neoc_verification_script_parse_push_int (Some bs) offset = Ok (scast (of_le (take 4 (drop (offset + 1) bs)) :: 32 word), offset + 5)"
    and "op = 0x03 \<Longrightarrow> offset + 8 < length bs \<Longrightarrow>
      neoc_verification_script_parse_push_int (Some bs) offset = Ok (of_le (take 8 (drop (offset + 1) bs)), offset + 9)"
  using assms by (simp_all add: neoc_verification_script_parse_push_int_def Let_def word_le_nat_alt)

lemma parse_push_int_enc:
  "neoc_verification_script_parse_push_int (Some (pre @ enc_push_int v @ rest)) (length pre)
   = Ok (v, length pre + length (enc_push_int v))"
proof -
  let ?bs = "pre @ enc_push_int v @ rest" let ?k = "length pre"
  consider (m1) "sint v = -1" | (small) "0 \<le> sint v" "sint v \<le> 16"
    | (one) "sint v \<noteq> -1" "\<not> (0 \<le> sint v \<and> sint v \<le> 16)" "-128 \<le> sint v" "sint v \<le> 127"
    | (two) "\<not> (-128 \<le> sint v \<and> sint v \<le> 127)" "-32768 \<le> sint v" "sint v \<le> 32767"
    | (four) "\<not> (-32768 \<le> sint v \<and> sint v \<le> 32767)" "-2147483648 \<le> sint v" "sint v \<le> 2147483647"
    | (eight) "\<not> (-2147483648 \<le> sint v \<and> sint v \<le> 2147483647)" by linarith
  then show ?thesis
  proof cases
    case m1
    have "v = word_of_int (sint v)" by simp
    then have "v = - 1" unfolding m1 by simp
    with m1 show ?thesis by (simp add: enc_push_int_def neoc_verification_script_parse_push_int_def nth_append Let_def)
  next
    case small
    let ?op = "0x10 + ucast v :: byte"
    have u: "unat v \<le> 16" using small uint_eq_sint [of v] by (simp add: unat_eq_nat_uint)
    then have v8: "unat (ucast v :: byte) = unat v" by (simp add: unat_ucast_down)
    then have op: "unat ?op = 16 + unat v" using u by (simp add: unat_word_ariths)
    have "?op \<noteq> 0x0F" "?op = 0x10 \<longleftrightarrow> v = 0" "v \<noteq> 0 \<Longrightarrow> 0x11 \<le> ?op" "?op \<le> 0x20"
      using op u v8 by (auto simp: word_le_nat_alt word_unat_eq_iff)
    moreover have "(ucast (?op - 0x10) :: 64 word) = v"
    proof -
      have "?op - 0x10 = ucast v" by simp
      then show ?thesis using u by (simp only:) (rule ucast_ucast_down, simp)
    qed
    moreover have "enc_push_int v = [?op]" using small by (simp add: enc_push_int_def Let_def)
    ultimately show ?thesis
      by (cases "v = 0") (simp_all add: neoc_verification_script_parse_push_int_def nth_append Let_def)
  next
    case one
    then have enc: "enc_push_int v = 0x00 # le_bytes 1 v" by (auto simp: enc_push_int_def Let_def)
    have "(scast (ucast v :: byte) :: 64 word) = v" using one by (intro scast_ucast_in_range) simp_all
    with enc parse_push_wide(1) [of ?bs ?k 0] show ?thesis by (simp add: nth_append le_bytes_def)
  next
    case two
    then have enc: "enc_push_int v = 0x01 # le_bytes 2 v" by (auto simp: enc_push_int_def Let_def)
    have "(scast (ucast v :: 16 word) :: 64 word) = v" using two by (intro scast_ucast_in_range) simp_all
    with enc parse_push_wide(2) [of ?bs ?k 1] of_le_narrow [of 2 v, where ?'b = 16] show ?thesis
      by (simp add: nth_append take_drop_at)
  next
    case four
    then have enc: "enc_push_int v = 0x02 # le_bytes 4 v" by (auto simp: enc_push_int_def Let_def)
    have "(scast (ucast v :: 32 word) :: 64 word) = v" using four by (intro scast_ucast_in_range) simp_all
    with enc parse_push_wide(3) [of ?bs ?k 2] of_le_narrow [of 4 v, where ?'b = 32] show ?thesis
      by (simp add: nth_append take_drop_at)
  next
    case eight
    then have enc: "enc_push_int v = 0x03 # le_bytes 8 v" by (auto simp: enc_push_int_def Let_def)
    with parse_push_wide(4) [of ?bs ?k 3] of_le_narrow [of 8 v, where ?'b = 64] show ?thesis
      by (simp add: nth_append take_drop_at)
  qed
qed

lemma parse_push_int_bounds:
  assumes "neoc_verification_script_parse_push_int (Some bs) offset = Ok (v, offset')"
  shows "offset < offset'" and "offset' \<le> length bs"
  using assms by (auto simp: neoc_verification_script_parse_push_int_def Let_def split: if_splits)

lemma parse_push_int_no_Fault: "neoc_verification_script_parse_push_int p offset \<noteq> Fault"
  by (auto simp: neoc_verification_script_parse_push_int_def Let_def split: option.splits)

lemma le_bytes_of_le:
  assumes "length bs = n" and "8 * n \<le> LENGTH('a::len)"
  shows "le_bytes n (of_le bs :: 'a word) = bs"
proof (rule nth_equalityI)
  fix i
  assume "i < length (le_bytes n (of_le bs :: 'a word))"
  then have i: "i < n" by simp
  show "le_bytes n (of_le bs :: 'a word) ! i = bs ! i"
  proof (rule bit_word_eqI)
    fix k
    assume k: "k < LENGTH(8)"
    with i assms have "8 * i + k < LENGTH('a)" "(8 * i + k) div 8 = i" "(8 * i + k) mod 8 = k" by auto
    with i k assms(1) show "bit (le_bytes n (of_le bs :: 'a word) ! i) k = bit (bs ! i) k"
      by (simp add: le_bytes_def bit_simps bit_of_le add.commute)
  qed
qed (use assms in simp)

text \<open>
  The pushes of an integer, as the virtual machine defines them: \<^verbatim>\<open>PUSHM1\<close> (15) for minus one, one of the seventeen opcodes from \<^verbatim>\<open>PUSH0\<close> (16) on for
  0 to 16, and \<^verbatim>\<open>PUSHINT8\<close> to \<^verbatim>\<open>PUSHINT64\<close> (0 to 3) followed by the bytes of a signed integer of that width, least significant first.
\<close>

inductive int_push :: "byte list \<Rightarrow> 64 word \<Rightarrow> bool" where
    push_m1: "int_push [15] (- 1)"
  | push_small: "k \<le> 16 \<Longrightarrow> int_push [of_nat (16 + k)] (of_nat k)"
  | push_int8: "int_push (0 # le_bytes 1 x) (scast (x :: 8 word))"
  | push_int16: "int_push (1 # le_bytes 2 y) (scast (y :: 16 word))"
  | push_int32: "int_push (2 # le_bytes 4 z) (scast (z :: 32 word))"
  | push_int64: "int_push (3 # le_bytes 8 v) v"

text \<open>What is read at an offset of a script is such a push.\<close>

text \<open>The width of the operand of an integer opcode and its value.\<close>

definition push_operand :: "byte \<Rightarrow> nat option" where
  "push_operand op =
     (if op = 0x0F \<or> op = 0x10 \<or> (0x11 \<le> op \<and> op \<le> 0x20) then Some 0
      else if op = 0 then Some 1 else if op = 1 then Some 2 else if op = 2 then Some 4 else if op = 3 then Some 8 else None)"

definition push_value :: "byte \<Rightarrow> byte list \<Rightarrow> 64 word" where
  "push_value op arg =
     (if op = 0x0F then - 1
      else if op = 0x10 then 0
      else if 0x11 \<le> op \<and> op \<le> 0x20 then ucast (op - 0x10)
      else if op = 0 then scast (arg ! 0)
      else if op = 1 then scast (of_le arg :: 16 word)
      else if op = 2 then scast (of_le arg :: 32 word)
      else of_le arg)"

lemma parse_push_int_eq:
  "neoc_verification_script_parse_push_int (Some bs) offset =
     (if length bs \<le> offset then Err NEOC_ERROR_INVALID_FORMAT
      else case push_operand (bs ! offset) of
        None \<Rightarrow> Err NEOC_ERROR_INVALID_FORMAT
      | Some w \<Rightarrow>
          if length bs < offset + 1 + w then Err NEOC_ERROR_INVALID_FORMAT
          else Ok (push_value (bs ! offset) (take w (drop (offset + 1) bs)), offset + 1 + w))"
proof -
  have first: "take (Suc 0) (drop (Suc offset) bs) ! 0 = bs ! Suc offset" if "Suc offset < length bs" using that by simp
  consider "length bs \<le> offset" | "offset < length bs" "bs ! offset = 0x0F \<or> bs ! offset = 0x10 \<or> (0x11 \<le> bs ! offset \<and> bs ! offset \<le> 0x20)"
    | "offset < length bs" "\<not> (bs ! offset = 0x0F \<or> bs ! offset = 0x10 \<or> (0x11 \<le> bs ! offset \<and> bs ! offset \<le> 0x20))" by linarith
  then show ?thesis
  proof cases
    case 2
    then show ?thesis
      by (auto simp: neoc_verification_script_parse_push_int_def Let_def push_operand_def push_value_def)
  next
    case 3
    moreover have "\<not> (17 :: byte) \<le> 1" by (simp add: word_le_nat_alt)
    ultimately show ?thesis
      using first by (auto simp: neoc_verification_script_parse_push_int_def Let_def push_operand_def push_value_def)
  qed (simp add: neoc_verification_script_parse_push_int_def)
qed

lemma small_push_value:
  assumes "k \<le> 16"
  shows "push_operand (of_nat (16 + k)) = Some 0" and "push_value (of_nat (16 + k)) [] = of_nat k"
proof -
  have u: "unat (of_nat (16 + k) :: byte) = 16 + k" using assms by (intro unat_digit) simp
  then have op: "(of_nat (16 + k) :: byte) = 0x10 \<longleftrightarrow> k = 0" "(of_nat (16 + k) :: byte) \<noteq> 0x0F" "0x11 \<le> (of_nat (16 + k) :: byte) \<longleftrightarrow> k \<noteq> 0"
    "(of_nat (16 + k) :: byte) \<le> 0x20" using assms by (auto simp: word_unat_eq_iff word_le_nat_alt)
  show "push_operand (of_nat (16 + k)) = Some 0" using op by (auto simp: push_operand_def simp del: of_nat_add)
  have "(of_nat (16 + k) :: byte) - 0x10 = of_nat k" by simp
  moreover have "(ucast (of_nat k :: byte) :: 64 word) = of_nat k"
    using assms by (simp add: word_unat_eq_iff unsigned_ucast_eq unsigned_of_nat take_bit_nat_eq_self)
  ultimately show "push_value (of_nat (16 + k)) [] = of_nat k" using op by (simp add: push_value_def del: of_nat_add)
qed

lemma le_bytes_byte: "le_bytes (Suc 0) (x :: byte) = [x]"
  by (simp add: le_bytes_def)

lemma int_push_iff:
  "int_push bs v \<longleftrightarrow> (\<exists>op arg. bs = op # arg \<and> push_operand op = Some (length arg) \<and> v = push_value op arg)"
proof
  assume "int_push bs v"
  then show "\<exists>op arg. bs = op # arg \<and> push_operand op = Some (length arg) \<and> v = push_value op arg"
  proof cases
    case (push_small k)
    then show ?thesis using small_push_value [OF push_small(3)] by (intro exI [of _ "of_nat (16 + k)"] exI [of _ "[]"]) simp
  qed (auto simp: push_operand_def push_value_def le_bytes_byte of_le_le_bytes word_le_nat_alt)
next
  assume "\<exists>op arg. bs = op # arg \<and> push_operand op = Some (length arg) \<and> v = push_value op arg"
  then obtain op arg where p: "bs = op # arg" "push_operand op = Some (length arg)" "v = push_value op arg" by blast
  consider "op = 0x0F" | "0x10 \<le> op" "op \<le> 0x20" | "op = 0" "length arg = 1" | "op = 1" "length arg = 2" | "op = 2" "length arg = 4" | "op = 3" "length arg = 8"
    using p(2) unfolding push_operand_def by (auto simp: word_le_nat_alt split: if_splits)
  then show "int_push bs v"
  proof cases
    case 1
    then show ?thesis using p push_m1 by (simp add: push_operand_def push_value_def)
  next
    case 2
    define k where "k = unat op - 16"
    then have k: "k \<le> 16" "op = of_nat (16 + k)" using 2 by (auto simp: word_le_nat_alt word_unat_eq_iff unsigned_of_nat take_bit_nat_eq_self)
    then show ?thesis using p push_small [OF k(1)] small_push_value [OF k(1)] by (simp del: of_nat_add)
  next
    case 3
    then show ?thesis using p push_int8 [of "arg ! 0"] by (cases arg) (simp_all add: push_value_def le_bytes_byte)
  next
    case 4
    then show ?thesis using p push_int16 [of "of_le arg"] by (simp add: push_value_def le_bytes_of_le word_le_nat_alt)
  next
    case 5
    then show ?thesis using p push_int32 [of "of_le arg"] by (simp add: push_value_def le_bytes_of_le)
  next
    case 6
    then show ?thesis using p push_int64 [of "of_le arg"] by (simp add: push_value_def le_bytes_of_le)
  qed
qed

lemma int_push_enc: "int_push (enc_push_int v) v"
  using parse_push_int_enc [of "[]" v "[]"] by (cases "enc_push_int v") (auto simp: int_push_iff parse_push_int_eq split: option.splits if_splits)

lemma int_push_hd: "int_push bs v \<Longrightarrow> bs \<noteq> [] \<and> hd bs \<noteq> 0x0C"
  by (auto simp: int_push_iff push_operand_def)

lemma parse_push_int_at:
  assumes "int_push bs v"
  shows "neoc_verification_script_parse_push_int (Some (pre @ bs @ rest)) (length pre) = Ok (v, length pre + length bs)"
  using assms by (auto simp: int_push_iff parse_push_int_eq nth_append)

lemma parse_push_int_part:
  assumes "neoc_verification_script_parse_push_int (Some script) offset = Ok (v, offset')"
  shows "int_push (take (offset' - offset) (drop offset script)) v"
proof -
  have "offset < length script" using parse_push_int_bounds [OF assms] by simp
  then have "drop offset script = script ! offset # drop (Suc offset) script" by (rule Cons_nth_drop_Suc [symmetric])
  then show ?thesis
    using assms by (auto simp: int_push_iff parse_push_int_eq split: option.splits if_splits)
qed

subsection \<open>Scanning keys\<close>

definition compressed_key :: "byte list \<Rightarrow> bool" where
  "compressed_key key \<longleftrightarrow> length key = 33"

lemma enc_push_compressed: "compressed_key key \<Longrightarrow> enc_push_data key = [0x0C, 33] @ key"
  by (auto simp: enc_push_data_def compressed_key_def le_bytes_def)

lemma length_pushed_keys: "list_all compressed_key keys \<Longrightarrow> length (concat (map enc_push_data keys)) = 35 * length keys"
  by (induction keys) (auto simp: enc_push_compressed compressed_key_def)

lemma scan_keys_pushes:
  assumes "list_all compressed_key keys" and "rest \<noteq> []" and "hd rest \<noteq> 0x0C"
  shows "scan_keys (pre @ concat (map enc_push_data keys) @ rest) (length pre) n
    = Some (length pre + 35 * length keys, n + length keys)"
  using assms(1)
proof (induction keys arbitrary: pre n)
  case Nil
  then show ?case using assms(2,3) by (subst scan_keys.simps) (simp add: nth_append hd_conv_nth)
next
  case (Cons key keys)
  let ?enc = "[0x0C, 33] @ key"
  have len: "length key = 33" and enc: "enc_push_data key = ?enc"
    using Cons.prems by (simp_all add: compressed_key_def enc_push_compressed)
  have "scan_keys ((pre @ ?enc) @ concat (map enc_push_data keys) @ rest) (length (pre @ ?enc)) (n + 1)
      = Some (length (pre @ ?enc) + 35 * length keys, n + 1 + length keys)"
    using Cons.prems by (intro Cons.IH) simp
  moreover have "unat (33 :: byte) = 33" by simp
  ultimately show ?case
    using len enc by (subst scan_keys.simps) (simp add: nth_append add.assoc del: unsigned_numeral)
qed

lemma scan_keys_sound:
  assumes "scan_keys script offset n = Some (offset', n')"
  shows "\<exists>keys. list_all compressed_key keys \<and> n' = n + length keys \<and> offset' = offset + 35 * length keys
    \<and> (offset \<le> length script \<longrightarrow> offset' \<le> length script \<and> take (35 * length keys) (drop offset script) = concat (map enc_push_data keys))"
  using assms
proof (induction script offset n rule: scan_keys.induct)
  case (1 script offset n)
  note step = "1.prems" [unfolded scan_keys.simps [of script offset]]
  show ?case
  proof (cases "offset < length script \<and> script ! offset = 0x0C")
    case False
    with step have "offset' = offset" "n' = n" by (auto split: if_splits)
    then show ?thesis by (intro exI [of _ "[]"]) simp
  next
    case True
    with step have two: "offset + 2 \<le> length script" "unat (script ! (offset + 1)) = 33" "offset + 35 \<le> length script"
      and rest: "scan_keys script (offset + 35) (n + 1) = Some (offset', n')"
      by (auto simp: Let_def split: if_splits)
    from "1.IH" [of "script ! (offset + 1)"] True two rest
    obtain keys where keys: "list_all compressed_key keys" "n' = n + 1 + length keys" "offset' = offset + 35 + 35 * length keys"
      "offset' \<le> length script" "take (35 * length keys) (drop (offset + 35) script) = concat (map enc_push_data keys)"
      by auto
    let ?key = "take 33 (drop (offset + 2) script)"
    have key: "compressed_key ?key" using two(3) by (simp add: compressed_key_def)
    have "script ! (offset + 1) = 33" using two(2) by (simp add: word_unat_eq_iff)
    then have "take 2 (drop offset script) = [0x0C, 33]"
      using True two(1) by (simp add: take_Suc_conv_app_nth numeral_2_eq_2)
    then have "take 35 (drop offset script) = enc_push_data ?key"
      using take_add [of 2 33 "drop offset script"] enc_push_compressed [OF key] by simp
    moreover have "take (35 + 35 * length keys) (drop offset script)
        = take 35 (drop offset script) @ take (35 * length keys) (drop (offset + 35) script)"
      by (simp add: take_add add.commute)
    ultimately show ?thesis using keys key
      by (intro exI [of _ "?key # keys"]) simp
  qed
qed

lemma hd_enc_push_int: "hd (enc_push_int v) \<noteq> 0x0C" "enc_push_int v \<noteq> []"
proof -
  show "enc_push_int v \<noteq> []" by (simp add: enc_push_int_def Let_def)
  show "hd (enc_push_int v) \<noteq> 0x0C"
  proof (cases "0 \<le> sint v \<and> sint v \<le> 16")
    case True
    with uint_eq_sint [of v] have "uint v \<le> 16" by simp
    then have "unat v \<le> 16" unfolding unat_eq_nat_uint by linarith
    then have "unat (0x10 + ucast v :: byte) = 16 + unat v" by (simp add: unat_word_ariths unat_ucast_down)
    then have "0x10 + ucast v \<noteq> (0x0C :: byte)" by (auto simp: word_unat_eq_iff)
    with True show ?thesis by (auto simp: enc_push_int_def Let_def)
  qed (auto simp: enc_push_int_def Let_def)
qed

text \<open>The parts of a multi-signature script, as the recogniser finds them.\<close>

lemma multisig_parts:
  fixes m :: "64 word" and h :: u32
  defines "head \<equiv> enc_push_int m"
  assumes "list_all compressed_key keys"
  defines "script \<equiv> multisig_layout h m keys" and "body \<equiv> concat (map enc_push_data keys)" and "n \<equiv> enc_push_int (of_nat (length keys))"
  shows "neoc_verification_script_parse_push_int (Some script) 0 = Ok (m, length head)"
    and "scan_keys script (length head) 0 = Some (length head + 35 * length keys, length keys)"
    and "neoc_verification_script_parse_push_int (Some script) (length head + 35 * length keys)
      = Ok (of_nat (length keys), length head + 35 * length keys + length n)"
    and "length script = length head + 35 * length keys + length n + 5"
    and "script ! (length head + 35 * length keys + length n) = 0x41"
    and "take 4 (drop (length head + 35 * length keys + length n + 1) script) = le_bytes 4 h"
proof -
  have script: "script = head @ body @ n @ enc_syscall h" by (simp add: script_def head_def body_def n_def multisig_layout_def)
  have body: "length body = 35 * length keys" using length_pushed_keys [OF assms(2)] by (simp add: body_def)
  show "neoc_verification_script_parse_push_int (Some script) 0 = Ok (m, length head)"
    using parse_push_int_enc [of "[]" m] by (simp add: script head_def)
  have "hd (n @ enc_syscall h) \<noteq> 0x0C" using hd_enc_push_int by (simp add: n_def)
  then show "scan_keys script (length head) 0 = Some (length head + 35 * length keys, length keys)"
    using scan_keys_pushes [OF assms(2), of "n @ enc_syscall h" head 0] hd_enc_push_int(2) by (simp add: script body_def n_def)
  show "neoc_verification_script_parse_push_int (Some script) (length head + 35 * length keys)
      = Ok (of_nat (length keys), length head + 35 * length keys + length n)"
    using parse_push_int_enc [of "head @ body" "of_nat (length keys)" "enc_syscall h"] by (simp add: script n_def body)
  show "length script = length head + 35 * length keys + length n + 5" by (simp add: script body enc_syscall_def)
  have tail: "script = (head @ body @ n) @ 0x41 # le_bytes 4 h" by (simp add: script enc_syscall_def)
  have at: "length head + 35 * length keys + length n = length (head @ body @ n)" by (simp add: body)
  show "script ! (length head + 35 * length keys + length n) = 0x41" unfolding at tail by (simp only: nth_append_length)
  show "take 4 (drop (length head + 35 * length keys + length n + 1) script) = le_bytes 4 h"
    unfolding at tail by simp
qed

lemma sint_of_count: "n \<le> 1024 \<Longrightarrow> sint (of_nat n :: 64 word) = int n"
  by (simp add: signed_of_nat signed_take_bit_int_eq_self)

lemma is_multi_sig_layout:
  assumes "list_all compressed_key keys" and "keys \<noteq> []" and "length keys \<le> 1024" and "1 \<le> sint m" and "sint m \<le> int (length keys)"
    and "ver_bytes s = multisig_layout (checkmultisig_hash C T) m keys"
  shows "neoc_verification_script_is_multi_sig C T (Some s)"
proof -
  note parts = multisig_parts [OF assms(1), where m = m and h = "checkmultisig_hash C T", folded assms(6)]
  have pos: "0 < length (enc_push_int v)" for v using hd_enc_push_int(2) by simp
  have long: "42 \<le> length (ver_bytes s)"
  proof -
    have "35 \<le> 35 * length keys" using assms(2) by (cases keys) auto
    then show ?thesis using parts(4) pos [of m] pos [of "of_nat (length keys)"] by linarith
  qed
  then have ptr: "script_ptr (ver_bytes s) = Some (ver_bytes s)" by (auto simp: script_ptr_def)
  have "of_le (le_bytes 4 (checkmultisig_hash C T)) = checkmultisig_hash C T" by (rule of_le_le_bytes) simp
  with parts long ptr assms(2-5) sint_of_count [OF assms(3)] show ?thesis
    by (simp add: neoc_verification_script_is_multi_sig_def neoc_verification_script_expected_hash_def Let_def)
qed

lemma multi_sig_not_single:
  assumes "ver_bytes s = multisig_layout h m keys"
  shows "\<not> neoc_verification_script_is_single_sig C T (Some s)"
proof -
  have "ver_bytes s ! 0 = hd (enc_push_int m)"
    using hd_enc_push_int(2) [of m] by (simp add: assms multisig_layout_def nth_append hd_conv_nth)
  then show ?thesis
    using hd_enc_push_int(1) [of m]
    by (auto simp: neoc_verification_script_is_single_sig_def neoc_verification_script_checksig_match_def)
qed

lemma count_keys_scan: "scan_keys script offset n = Some (offset', n') \<Longrightarrow> n + count_keys script offset = n'"
proof (induction script offset n rule: scan_keys.induct)
  case (1 script offset n)
  note step = "1.prems" [unfolded scan_keys.simps [of script offset]]
  show ?case
  proof (cases "offset < length script \<and> script ! offset = 0x0C")
    case True
    with step have two: "offset + 2 \<le> length script" "unat (script ! (offset + 1)) = 33" "offset + 35 \<le> length script"
      and rest: "scan_keys script (offset + 35) (n + 1) = Some (offset', n')"
      by (auto simp: Let_def split: if_splits)
    from "1.IH" [of "script ! (offset + 1)"] True two rest have "n + 1 + count_keys script (offset + 35) = n'" by auto
    with True show ?thesis by (simp add: count_keys.simps [of script offset])
  next
    case False
    with step show ?thesis by (auto simp: count_keys.simps [of script offset] split: if_splits)
  qed
qed

lemma decode_keys_pushes:
  assumes "list_all compressed_key (map pk_compressed keys)" and "A sizeof_public_key"
    and "\<And>k. k \<in> set keys \<Longrightarrow> K (pk_compressed k) = Some (pk_compressed k, pk_uncompressed k) \<and> pk_is_compressed k"
  shows "decode_keys A K (pre @ concat (map enc_push_data (map pk_compressed keys)) @ rest) (length keys) (length pre) = Ok keys"
  using assms(1,3)
proof (induction keys arbitrary: pre)
  case (Cons k keys)
  let ?enc = "[0x0C, 33] @ pk_compressed k"
  let ?body = "concat (map enc_push_data (map pk_compressed keys))"
  have len: "length (pk_compressed k) = 33" and enc: "enc_push_data (pk_compressed k) = ?enc"
    using Cons.prems by (simp_all add: compressed_key_def enc_push_compressed)
  have "decode_keys A K ((pre @ ?enc) @ ?body @ rest) (length keys) (length (pre @ ?enc)) = Ok keys"
    using Cons.prems by (intro Cons.IH) auto
  moreover have "neoc_ec_public_key_from_bytes A K (Some (pk_compressed k)) = Ok k"
    using Cons.prems(2) [of k] len assms(2) by (simp add: neoc_ec_public_key_from_bytes_def)
  moreover have "take 33 (drop (length pre + 2) (pre @ ?enc @ ?body @ rest)) = pk_compressed k" using len by simp
  ultimately show ?case using len enc by (simp add: add.commute [of _ 35] numeral_eq_Suc [of "num.Bit1 num.One"])
qed simp

subsection \<open>Theorems\<close>

lemma get_encoded_all:
  "map_r (\<lambda>key. neoc_ec_public_key_get_encoded A key True) (map Some keys)
   = (if keys = [] \<or> A 33 then Ok (map pk_compressed keys) else Err NEOC_ERROR_MEMORY)"
  by (induction keys) (simp_all add: neoc_ec_public_key_get_encoded_def)

lemma sint_threshold: "0 < m \<Longrightarrow> m \<le> 1024 \<Longrightarrow> sint (word_of_int m :: 64 word) = m"
  using sint_of_count [of "nat m"] by (simp add: nat_le_iff)

lemma verification_multi_sig_eq:
  assumes "keys \<noteq> []" and "length keys \<le> 1024" and "0 < m" and "m \<le> int (length keys)"
    and "list_all compressed_key (map pk_compressed keys)" and "grants A 140000"
  shows "neoc_verification_script_create_multi_sig A C T (map Some keys) m
    = Ok \<lparr>ver_bytes = multisig_layout (checkmultisig_hash C T) (word_of_int m)
        (qsort_c neoc_key_entry_compare (map pk_compressed keys))\<rparr>"
proof -
  let ?entries = "qsort_c neoc_key_entry_compare (map pk_compressed keys)"
  let ?layout = "multisig_layout (checkmultisig_hash C T) (word_of_int m) ?entries"
  have sized: "key_size key" if "key \<in> set ?entries" for key
    using that assms(5) by (auto simp: list_all_iff compressed_key_def key_size_def)
  have "length ?layout \<le> 23 + 67 * length keys" using length_multisig_layout [OF sized, of ?entries] by simp
  with assms(2) have len: "length ?layout \<le> 69000" by simp
  have build: "run_builder A
      (then_c (neoc_script_builder_push_integer A (word_of_int m))
      (then_c (foreach_c (\<lambda>e. neoc_script_builder_push_data A (Some e) (of_nat (length e))) ?entries)
      (then_c (neoc_script_builder_push_integer A (of_nat (length ?entries)))
              (neoc_script_builder_emit_syscall A C T NEOC_INTEROP_SYSTEM_CRYPTO_CHECKMULTISIG)))) = Ok ?layout"
    using len assms(6) by (intro run_builder_Ok writes_multisig sized) (auto elim!: grants_mono)
  have "A 33" "A (length keys * 16)" using assms(2) by (auto intro!: grantsD [OF assms(6)])
  moreover have "neoc_verification_script_allocate A (Some ?layout) (length ?layout) = Ok \<lparr>ver_bytes = ?layout\<rparr>"
    using verification.create_Ok [OF grants_mono [OF assms(6)], of ?layout] len
    by (simp add: neoc_verification_script_create_def)
  ultimately show ?thesis
    using build assms(1-4)
    by (simp add: neoc_verification_script_create_multi_sig_def get_encoded_all)
qed

text \<open>C26. A multi-signature verification script made from 1 to 1024 keys is recognised as one, and not as a single-signature script; the
  threshold, the number of accounts and the keys read back from it are those it was made from, the keys in ascending order of their
  encodings.\<close>

theorem multi_sig_recognised:
  assumes "keys \<noteq> []" and "length keys \<le> 1024" and "0 < m" and "m \<le> int (length keys)" and "grants A 140000"
    and "\<forall>k \<in> set keys. length (pk_compressed k) = 33 \<and> pk_is_compressed k
      \<and> K (pk_compressed k) = Some (pk_compressed k, pk_uncompressed k)"
  shows "\<exists>s ks. neoc_verification_script_create_multi_sig A C T (map Some keys) m = Ok s
    \<and> neoc_verification_script_is_multi_sig C T (Some s) \<and> \<not> neoc_verification_script_is_single_sig C T (Some s)
    \<and> neoc_verification_script_get_signing_threshold C T (Some s) = Ok m
    \<and> neoc_verification_script_get_nr_accounts A C T K (Some s) = Ok (int (length keys))
    \<and> neoc_verification_script_get_public_keys A C T K (Some s) = Ok ks
    \<and> mset ks = mset keys \<and> sorted_wrt key_le (map pk_compressed ks)"
proof -
  let ?h = "checkmultisig_hash C T"
  define entries where "entries = qsort_c neoc_key_entry_compare (map pk_compressed keys)"
  define f where "f c = \<lparr>pk_compressed = c, pk_uncompressed = snd (the (K c)), pk_is_compressed = True\<rparr>" for c
  define ks where "ks = map f entries"
  define s where "s = \<lparr>ver_bytes = multisig_layout ?h (word_of_int m) entries\<rparr>"
  have ok: "list_all compressed_key (map pk_compressed keys)" using assms(6) by (auto simp: list_all_iff compressed_key_def)
  have create: "neoc_verification_script_create_multi_sig A C T (map Some keys) m = Ok s"
    using verification_multi_sig_eq [OF assms(1-4) ok assms(5)] by (simp add: s_def entries_def)
  have count_entries: "length entries = length keys" by (simp add: entries_def)
  then have "entries \<noteq> []" using assms(1) by auto
  moreover have "list_all compressed_key entries" using ok by (simp add: entries_def list_all_iff)
  ultimately have entries: "list_all compressed_key entries" "entries \<noteq> []" by simp_all
  have m: "sint (word_of_int m :: 64 word) = m" using assms(2-4) by (intro sint_threshold) auto
  have "map f (map pk_compressed keys) = keys" using assms(6) by (intro nth_equalityI) (auto simp: f_def)
  then have perm: "mset ks = mset keys"
    by (metis (no_types) ks_def entries_def mset_map mset_qsort)
  have ks: "map pk_compressed ks = entries" by (simp add: ks_def f_def comp_def)
  have set_ks: "set ks = set keys" using perm by (metis set_mset_mset)
  have multi: "neoc_verification_script_is_multi_sig C T (Some s)"
    using entries count_entries assms(2-4) m by (intro is_multi_sig_layout [where m = "word_of_int m"]) (simp_all add: s_def)
  have single: "\<not> neoc_verification_script_is_single_sig C T (Some s)"
    by (rule multi_sig_not_single) (simp add: s_def)
  note parts = multisig_parts [OF entries(1), where m = "word_of_int m" and h = ?h]
  have ptr: "script_ptr (ver_bytes s) = Some (ver_bytes s)" using multi by (auto simp: script_ptr_def neoc_verification_script_is_multi_sig_def)
  have count: "count_keys (ver_bytes s) (length (enc_push_int (word_of_int m))) = length ks"
    using count_keys_scan [OF parts(2)] by (simp add: s_def ks_def)
  have decode: "decode_keys A K (ver_bytes s) (length ks) (length (enc_push_int (word_of_int m))) = Ok ks"
    using decode_keys_pushes [of ks A K "enc_push_int (word_of_int m)"] entries(1) assms(6) set_ks grantsD [OF assms(5)]
    by (simp add: s_def multisig_layout_def ks sizeof_public_key_def)
  have n: "length ks = length keys" "0 < length keys" "A (length keys * 8)"
    using assms(1,2) count_entries by (auto simp: ks_def intro!: grantsD [OF assms(5)])
  have "neoc_verification_script_get_public_keys A C T K (Some s) = Ok ks"
    using multi single ptr parts(1) count decode n
    by (simp add: neoc_verification_script_get_public_keys_def s_def)
  moreover have "neoc_verification_script_get_signing_threshold C T (Some s) = Ok m"
    using single ptr parts(1) m assms(2-4) by (simp add: neoc_verification_script_get_signing_threshold_def s_def)
  ultimately show ?thesis
    using create multi single perm n sorted_qsort [of "map pk_compressed keys"] ks
    by (intro exI [of _ s] exI [of _ ks]) (simp add: neoc_verification_script_get_nr_accounts_def entries_def)
qed

definition demo_key :: "byte \<Rightarrow> neoc_ec_public_key" where
  "demo_key b = \<lparr>pk_compressed = replicate 33 b, pk_uncompressed = replicate 65 b, pk_is_compressed = True\<rparr>"

definition demo_curve :: curve where
  "demo_curve e = Some (replicate 33 (e ! 0), replicate 65 (e ! 0))"

theorem multi_sig_recognised_witness:
  "\<exists>s. neoc_verification_script_create_multi_sig (\<lambda>_. True) toy_crypto initial_interop_table [Some (demo_key 3), Some (demo_key 2)] 2 = Ok s
    \<and> neoc_verification_script_is_multi_sig toy_crypto initial_interop_table (Some s)
    \<and> neoc_verification_script_get_signing_threshold toy_crypto initial_interop_table (Some s) = Ok 2"
  using multi_sig_recognised [of "[demo_key 3, demo_key 2]" 2 "\<lambda>_. True" demo_curve toy_crypto initial_interop_table]
  by (auto simp: demo_key_def demo_curve_def)

text \<open>The order in which the keys of an account are given does not matter: any two arrangements of the same keys give the same
  verification script, errors included, and hence the same script hash and address.\<close>

theorem multi_sig_order_irrelevant:
  assumes "mset keys = mset keys'"
  shows "neoc_verification_script_create_multi_sig A C T (map Some keys) m
    = neoc_verification_script_create_multi_sig A C T (map Some keys') m"
proof -
  have "mset (map pk_compressed keys) = mset (map pk_compressed keys')" using assms by simp
  then have "qsort_c neoc_key_entry_compare (map pk_compressed keys) = qsort_c neoc_key_entry_compare (map pk_compressed keys')"
    by (rule qsort_perm)
  moreover have "length keys = length keys'" "keys = [] \<longleftrightarrow> keys' = []" using assms by (auto dest: mset_eq_length)
  ultimately show ?thesis by (simp add: neoc_verification_script_create_multi_sig_def get_encoded_all)
qed

theorem multi_sig_order_irrelevant_witness:
  "neoc_verification_script_create_multi_sig (\<lambda>_. True) toy_crypto initial_interop_table [Some (demo_key 2), Some (demo_key 3)] 1
   = neoc_verification_script_create_multi_sig (\<lambda>_. True) toy_crypto initial_interop_table [Some (demo_key 3), Some (demo_key 2)] 1"
  using multi_sig_order_irrelevant [of "[demo_key 2, demo_key 3]" "[demo_key 3, demo_key 2]"] by (simp add: add_mset_commute)

subsection \<open>What the recognisers accept\<close>

lemma of_le_eq_iff: "length bs = 4 \<Longrightarrow> h = (of_le bs :: u32) \<longleftrightarrow> bs = le_bytes 4 h"
  using le_bytes_of_le [of bs 4, where ?'a = 32] of_le_le_bytes [of 4 h] by auto

lemma single_sig_iff:
  "neoc_verification_script_is_single_sig C T (Some s)
   \<longleftrightarrow> (\<exists>key. length key = 33 \<and> ver_bytes s = [0x0C, 33] @ key @ enc_syscall (checksig_hash C T))"
proof
  let ?bs = "ver_bytes s"
  assume "neoc_verification_script_is_single_sig C T (Some s)"
  then have bs: "length ?bs = 40" "?bs ! 0 = 0x0C" "unat (?bs ! 1) = 33" "?bs ! 35 = 0x41"
      "checksig_hash C T = of_le (take 4 (drop 36 ?bs))"
    by (auto simp: neoc_verification_script_is_single_sig_def neoc_verification_script_checksig_match_def
        neoc_verification_script_expected_hash_def split: if_splits)
  have b1: "?bs ! 1 = 33" using bs(3) by (simp add: word_unat_eq_iff)
  have "?bs = take 2 ?bs @ take 33 (drop 2 ?bs) @ drop 35 ?bs"
    using append_take_drop_id [of 2 ?bs] append_take_drop_id [of 33 "drop 2 ?bs"] by simp
  moreover have "take 2 ?bs = [0x0C, 33]" using bs(1,2) b1 by (simp add: take_Suc_conv_app_nth numeral_2_eq_2)
  moreover have "drop 35 ?bs = 0x41 # drop 36 ?bs" using Cons_nth_drop_Suc [of 35 ?bs] bs(1,4) by simp
  moreover have "drop 36 ?bs = le_bytes 4 (checksig_hash C T)"
    using bs(1,5) of_le_eq_iff [of "drop 36 ?bs"] by simp
  ultimately show "\<exists>key. length key = 33 \<and> ?bs = [0x0C, 33] @ key @ enc_syscall (checksig_hash C T)"
    using bs(1) by (intro exI [of _ "take 33 (drop 2 ?bs)"]) (simp add: enc_syscall_def)
next
  assume "\<exists>key. length key = 33 \<and> ver_bytes s = [0x0C, 33] @ key @ enc_syscall (checksig_hash C T)"
  then obtain key where key: "length key = 33" "ver_bytes s = [0x0C, 33] @ key @ enc_syscall (checksig_hash C T)" by blast
  moreover have "of_le (le_bytes 4 (checksig_hash C T)) = checksig_hash C T" by (rule of_le_le_bytes) simp
  ultimately show "neoc_verification_script_is_single_sig C T (Some s)"
    by (simp add: neoc_verification_script_is_single_sig_def neoc_verification_script_checksig_match_def
        neoc_verification_script_expected_hash_def enc_syscall_def nth_append nth_Cons')
qed

lemma multi_sig_complete:
  assumes "ver_bytes s = head @ concat (map enc_push_data keys) @ tail @ enc_syscall (checkmultisig_hash C T)"
    and "int_push head m" and "int_push tail n" and "list_all compressed_key keys" and "keys \<noteq> []" and "length keys \<le> 1024"
    and "1 \<le> sint m" and "sint m \<le> int (length keys)" and "sint n = int (length keys)"
  shows "neoc_verification_script_is_multi_sig C T (Some s)"
proof -
  let ?bs = "ver_bytes s" let ?body = "concat (map enc_push_data keys)" let ?h = "checkmultisig_hash C T"
  have body: "length ?body = 35 * length keys" using assms(4) by (rule length_pushed_keys)
  note heads = int_push_hd [OF assms(2)] int_push_hd [OF assms(3)]
  have p1: "neoc_verification_script_parse_push_int (Some ?bs) 0 = Ok (m, length head)"
    using parse_push_int_at [OF assms(2), of "[]"] by (simp add: assms(1))
  have sc: "scan_keys ?bs (length head) 0 = Some (length head + 35 * length keys, length keys)"
    using scan_keys_pushes [OF assms(4), of "tail @ enc_syscall ?h" head 0] heads by (simp add: assms(1))
  have p2: "neoc_verification_script_parse_push_int (Some ?bs) (length head + 35 * length keys)
      = Ok (n, length head + 35 * length keys + length tail)"
    using parse_push_int_at [OF assms(3), of "head @ ?body" "enc_syscall ?h"] by (simp add: assms(1) body)
  have len: "length ?bs = length head + 35 * length keys + length tail + 5" by (simp add: assms(1) body enc_syscall_def)
  have at: "length head + 35 * length keys + length tail = length (head @ ?body @ tail)" by (simp add: body)
  have end_eq: "?bs = (head @ ?body @ tail) @ 0x41 # le_bytes 4 ?h" by (simp add: assms(1) enc_syscall_def)
  have sys: "?bs ! (length head + 35 * length keys + length tail) = 0x41"
    and hash: "take 4 (drop (length head + 35 * length keys + length tail + 1) ?bs) = le_bytes 4 ?h"
    unfolding at end_eq by simp_all
  have long: "42 \<le> length ?bs"
  proof -
    have "35 \<le> 35 * length keys" "0 < length head" "0 < length tail" using assms(5) heads by (cases keys; simp)+
    then show ?thesis using len by linarith
  qed
  then have ptr: "script_ptr ?bs = Some ?bs" by (auto simp: script_ptr_def)
  have "of_le (le_bytes 4 ?h) = ?h" by (rule of_le_le_bytes) simp
  with p1 sc p2 len sys hash long ptr assms(5-9) show ?thesis
    by (simp add: neoc_verification_script_is_multi_sig_def neoc_verification_script_expected_hash_def Let_def)
qed

lemma multi_sig_sound:
  assumes "neoc_verification_script_is_multi_sig C T (Some s)"
  shows "\<exists>head m keys tail n. ver_bytes s = head @ concat (map enc_push_data keys) @ tail @ enc_syscall (checkmultisig_hash C T)
      \<and> int_push head m \<and> int_push tail n \<and> list_all compressed_key keys \<and> keys \<noteq> [] \<and> length keys \<le> 1024
      \<and> 1 \<le> sint m \<and> sint m \<le> int (length keys) \<and> sint n = int (length keys)"
proof -
  let ?bs = "ver_bytes s" let ?h = "checkmultisig_hash C T"
  have ptr: "script_ptr ?bs = Some ?bs"
    using assms by (auto simp: script_ptr_def neoc_verification_script_is_multi_sig_def)
  note multi = assms [unfolded neoc_verification_script_is_multi_sig_def Let_def, simplified, unfolded ptr
      neoc_verification_script_expected_hash_def]
  obtain m o1 where p1: "neoc_verification_script_parse_push_int (Some ?bs) 0 = Ok (m, o1)"
    using multi by (cases "neoc_verification_script_parse_push_int (Some ?bs) 0") (auto split: if_splits)
  obtain o2 count where sc: "scan_keys ?bs o1 0 = Some (o2, count)"
    using multi p1 by (cases "scan_keys ?bs o1 0") (auto split: if_splits)
  obtain n o3 where p2: "neoc_verification_script_parse_push_int (Some ?bs) o2 = Ok (n, o3)"
    using multi p1 sc by (cases "neoc_verification_script_parse_push_int (Some ?bs) o2") (auto split: if_splits)
  have m: "1 \<le> sint m" and count: "count \<noteq> 0" "count \<le> 1024" "sint m \<le> int count" and n: "sint n = int count"
    and sys: "?bs ! o3 = 0x41" "?h = of_le (take 4 (drop (o3 + 1) ?bs))" "o3 + 5 = length ?bs"
    using multi p1 sc p2 by (auto simp: not_less split: if_splits)
  note b1 = parse_push_int_bounds [OF p1] and b2 = parse_push_int_bounds [OF p2]
  from scan_keys_sound [OF sc] b1 obtain keys where keys: "list_all compressed_key keys" "count = length keys"
      "o2 = o1 + 35 * length keys" "take (o2 - o1) (drop o1 ?bs) = concat (map enc_push_data keys)"
    by auto
  have "drop (o3 + 1) ?bs = le_bytes 4 ?h"
    using sys(2,3) of_le_eq_iff [of "drop (o3 + 1) ?bs" ?h] by simp
  then have tail: "drop o3 ?bs = enc_syscall ?h"
    using Cons_nth_drop_Suc [of o3 ?bs] sys(1,3) by (simp add: enc_syscall_def)
  have split: "drop i ?bs = take (j - i) (drop i ?bs) @ drop j ?bs" if "i \<le> j" for i j
    using append_take_drop_id [of "j - i" "drop i ?bs"] that by simp
  have "?bs = take o1 ?bs @ take (o2 - o1) (drop o1 ?bs) @ take (o3 - o2) (drop o2 ?bs) @ drop o3 ?bs"
    using split [of 0 o1] split [of o1 o2] split [of o2 o3] b2 keys(3) by simp
  then have parts: "?bs = take o1 ?bs @ concat (map enc_push_data keys) @ take (o3 - o2) (drop o2 ?bs) @ enc_syscall ?h"
    unfolding keys(4) tail .
  show ?thesis
    by (intro exI conjI, rule parts)
       (use parse_push_int_part [OF p1] parse_push_int_part [OF p2] keys(1,2) m count n in auto)
qed

text \<open>C27. What the two recognisers accept, exactly.  A single-signature script is the push of a 33-byte key followed by the
  system call that checks a signature.  A multi-signature script is the push of a threshold, 1 to 1024 pushes of 33-byte keys, the push of their number
  and the system call that checks several signatures, with a threshold between 1 and the number of keys; the two integers may be pushed
  in any of their encodings (\<open>int_push\<close>, which is stated from the opcodes and not from the parser of the code).\<close>

theorem recognisers_exact:
  "(neoc_verification_script_is_single_sig C T (Some s)
    \<longleftrightarrow> (\<exists>key. length key = 33 \<and> ver_bytes s = [0x0C, 33] @ key @ enc_syscall (checksig_hash C T)))
   \<and> (neoc_verification_script_is_multi_sig C T (Some s)
    \<longleftrightarrow> (\<exists>head m keys tail n. ver_bytes s = head @ concat (map enc_push_data keys) @ tail @ enc_syscall (checkmultisig_hash C T)
      \<and> int_push head m \<and> int_push tail n \<and> list_all compressed_key keys \<and> keys \<noteq> [] \<and> length keys \<le> 1024
      \<and> 1 \<le> sint m \<and> sint m \<le> int (length keys) \<and> sint n = int (length keys)))"
  using single_sig_iff [of C T s] multi_sig_sound [of C T s] multi_sig_complete [of s _ _ _ C T] by blast

text \<open>The single-signature script made from a key is recognised as one and not as a multi-signature script; it needs one signature,
  and the key read back from it is the key it was made from.\<close>

theorem single_sig_recognised:
  assumes "length (pk_compressed k) = 33" and "pk_is_compressed k" and "K (pk_compressed k) = Some (pk_compressed k, pk_uncompressed k)"
    and "grants A 1000"
  shows "\<exists>s. neoc_verification_script_create_single_sig A C T (Some k) = Ok s
    \<and> neoc_verification_script_is_single_sig C T (Some s) \<and> \<not> neoc_verification_script_is_multi_sig C T (Some s)
    \<and> neoc_verification_script_get_signing_threshold C T (Some s) = Ok 1
    \<and> neoc_verification_script_get_nr_accounts A C T K (Some s) = Ok 1
    \<and> neoc_verification_script_get_public_keys A C T K (Some s) = Ok [k]"
proof -
  let ?key = "pk_compressed k"
  let ?bs = "[0x0C, 33] @ ?key @ enc_syscall (checksig_hash C T)" let ?s = "\<lparr>ver_bytes = ?bs\<rparr>"
  have "A (1 + 1 + length ?key + 1 + 4)" "A 33" "A 8" "A sizeof_public_key"
    using assms(1) by (auto intro!: grantsD [OF assms(4)] simp: sizeof_public_key_def)
  moreover have "(of_nat (length ?key) :: byte) = 33" using assms(1) by simp
  ultimately have build: "neoc_script_builder_build_verification_script A C T (Some ?key) = Ok ?bs"
    and encoded: "neoc_ec_public_key_get_encoded A (Some k) True = Ok ?key"
    and decoded: "neoc_ec_public_key_from_bytes A K (Some ?key) = Ok k" and "A 8"
    using assms(1-3)
    by (simp_all add: neoc_script_builder_build_verification_script_def neoc_ec_public_key_get_encoded_def
        neoc_ec_public_key_from_bytes_def enc_syscall_def)
  have "neoc_verification_script_allocate A (Some ?bs) (length ?bs) = Ok ?s"
    using verification.create_Ok [OF grants_mono [OF assms(4)], of ?bs] assms(1)
    by (simp add: neoc_verification_script_create_def enc_syscall_def)
  with build encoded have create: "neoc_verification_script_create_single_sig A C T (Some k) = Ok ?s"
    by (simp add: neoc_verification_script_create_single_sig_def)
  have single: "neoc_verification_script_is_single_sig C T (Some ?s)"
    using single_sig_iff [of C T ?s] assms(1) by auto
  have multi: "\<not> neoc_verification_script_is_multi_sig C T (Some ?s)"
  proof
    assume "neoc_verification_script_is_multi_sig C T (Some ?s)"
    from multi_sig_sound [OF this] obtain head m rest where "?bs = head @ rest" "int_push head m" by auto
    then show False using int_push_hd [of head m] by (cases head) auto
  qed
  have keys: "neoc_verification_script_get_public_keys A C T K (Some ?s) = Ok [k]"
    using single decoded \<open>A 8\<close> assms(1) by (simp add: neoc_verification_script_get_public_keys_def)
  show ?thesis
    using create single multi keys
    by (intro exI [of _ ?s])
       (simp add: neoc_verification_script_get_signing_threshold_def neoc_verification_script_get_nr_accounts_def)
qed

theorem single_sig_recognised_witness:
  "\<exists>s. neoc_verification_script_create_single_sig (\<lambda>_. True) toy_crypto initial_interop_table (Some (demo_key 2)) = Ok s
    \<and> neoc_verification_script_get_public_keys (\<lambda>_. True) toy_crypto initial_interop_table demo_curve (Some s) = Ok [demo_key 2]"
  using single_sig_recognised [of "demo_key 2" demo_curve "\<lambda>_. True" toy_crypto initial_interop_table]
  by (auto simp: demo_key_def demo_curve_def)

text \<open>A verification script is serialized as its length and its bytes, as many as \<^verbatim>\<open>neoc_verification_script_get_size\<close> says, and read
  back equal; so is its copy, and the comparison decides equality.\<close>

theorem verification_serialize_roundtrip:
  assumes "length (ver_bytes s) < 2 ^ 60" and "grants A (100 + 2 * length (ver_bytes s))"
  shows "\<exists>bs. neoc_verification_script_serialize A (Some s) = Ok bs \<and> length bs = neoc_verification_script_get_size (Some s)
      \<and> neoc_verification_script_deserialize A (Some bs) (of_nat (length bs)) = Ok s
      \<and> neoc_verification_script_copy A (Some s) = Ok s \<and> (neoc_verification_script_equals (Some s) (Some t) \<longleftrightarrow> s = t)"
  using verification.serialize_roundtrip [OF assms] verification.copy_same [of A s] verification.equals_iff [of s t]
    grants_mono [OF assms(2), of "max 16 (length (ver_bytes s))"] by auto

theorem verification_serialize_roundtrip_witness:
  "\<exists>bs. neoc_verification_script_serialize (\<lambda>_. True) (Some \<lparr>ver_bytes = replicate 300 7\<rparr>) = Ok bs
    \<and> neoc_verification_script_deserialize (\<lambda>_. True) (Some bs) (of_nat (length bs)) = Ok \<lparr>ver_bytes = replicate 300 7\<rparr>"
  using verification_serialize_roundtrip [of "\<lparr>ver_bytes = replicate 300 7\<rparr>" "\<lambda>_. True"] by auto

end
