(* ===== verification/Multi_Sig.thy ===== *)
theory Multi_Sig
  imports Verification_Script Invocation_Script
begin

text \<open>
  \<^verbatim>\<open>wallet/multi_sig.c\<close>: accounts of several keys.  The keys are borrowed from the caller.  A key count and the array are separate
  arguments of the constructor, because callers cut the count to eight bits; the signatures of a witness are a list.
\<close>

subsection \<open>Accounts\<close>

record neoc_multi_sig_account =
  ms_threshold :: byte
  ms_public_key_count :: byte
  ms_public_keys :: "neoc_ec_public_key option list"
  ms_script_hash :: neoc_hash160
  ms_verification_script :: "byte list"

definition sizeof_multi_sig_account :: nat where "sizeof_multi_sig_account = 56"

text \<open>
  The comparison ignores that copying a key may fail.  A null key leaves a null pointer and length zero, so nothing is compared; when the
  allocation fails, the length is already 33 and the null pointer is read.
\<close>

definition key_encoding :: "neoc_ec_public_key option \<Rightarrow> byte list" where
  "key_encoding key = (case key of None \<Rightarrow> [] | Some k \<Rightarrow> pk_compressed k)"

definition compare_public_keys :: "neoc_ec_public_key option \<Rightarrow> neoc_ec_public_key option \<Rightarrow> int" where
  "compare_public_keys a b =
     (let n = min (length (key_encoding a)) (length (key_encoding b)) in memcmp_c (take n (key_encoding a)) (take n (key_encoding b)))"

definition sort_public_keys :: "allocator \<Rightarrow> neoc_ec_public_key option list \<Rightarrow> neoc_ec_public_key option list result" where
  "sort_public_keys A keys =
     (if 1 < length (filter (\<lambda>k. k \<noteq> None) keys) \<and> \<not> A 33 then Fault else Ok (qsort_c compare_public_keys keys))"

definition push_public_key :: "allocator \<Rightarrow> neoc_ec_public_key option \<Rightarrow> (neoc_script_builder, unit) cmd" where
  "push_public_key A key =
     bind_c (lift_c (neoc_ec_public_key_get_encoded A key True)) (\<lambda>bytes. neoc_script_builder_push_data A (Some bytes) (of_nat (length bytes)))"

definition neoc_multi_sig_create ::
  "allocator \<Rightarrow> crypto \<Rightarrow> interop_table \<Rightarrow> byte \<Rightarrow> neoc_ec_public_key option list option \<Rightarrow> byte \<Rightarrow> neoc_multi_sig_account result" where
  "neoc_multi_sig_create A C T threshold public_keys key_count =
     (case public_keys of
        None \<Rightarrow> Err NEOC_ERROR_INVALID_ARGUMENT
      | Some ks \<Rightarrow>
          if key_count = 0 then Err NEOC_ERROR_INVALID_ARGUMENT
          else if threshold = 0 \<or> key_count < threshold then Err NEOC_ERROR_INVALID_ARGUMENT
          else
            bind_r (malloc_r A sizeof_multi_sig_account) (\<lambda>_.
            bind_r (malloc_r A (unat key_count * 8)) (\<lambda>_.
              if length ks < unat key_count then Fault
              else
                bind_r (sort_public_keys A (take (unat key_count) ks)) (\<lambda>keys.
                bind_r (run_builder A
                    (then_c (neoc_script_builder_push_integer A (ucast threshold))
                    (then_c (foreach_c (push_public_key A) keys)
                    (then_c (neoc_script_builder_push_integer A (ucast key_count))
                            (neoc_script_builder_emit_syscall A C T NEOC_INTEROP_SYSTEM_CRYPTO_CHECKMULTISIG))))) (\<lambda>script.
                bind_r (malloc_r A (length script)) (\<lambda>_.
                bind_r (neoc_hash160_from_script C (Some script)) (\<lambda>hash.
                  Ok \<lparr>ms_threshold = threshold, ms_public_key_count = key_count, ms_public_keys = keys, ms_script_hash = hash,
                      ms_verification_script = script\<rparr>)))))))"

definition neoc_multi_sig_get_verification_script :: "neoc_multi_sig_account option \<Rightarrow> nat \<Rightarrow> byte list result" where
  "neoc_multi_sig_get_verification_script account script_size =
     (case account of
        None \<Rightarrow> Err NEOC_ERROR_INVALID_ARGUMENT
      | Some a \<Rightarrow>
          if script_size < length (ms_verification_script a) then Err NEOC_ERROR_BUFFER_TOO_SMALL else Ok (ms_verification_script a))"

definition neoc_multi_sig_get_script_hash :: "neoc_multi_sig_account option \<Rightarrow> neoc_hash160 result" where
  "neoc_multi_sig_get_script_hash account =
     (case account of None \<Rightarrow> Err NEOC_ERROR_INVALID_ARGUMENT | Some a \<Rightarrow> Ok (ms_script_hash a))"

definition push_signature :: "allocator \<Rightarrow> byte list option \<Rightarrow> (neoc_script_builder, unit) cmd" where
  "push_signature A signature =
     (case signature of None \<Rightarrow> fail_c NEOC_ERROR_INVALID_ARGUMENT | Some s \<Rightarrow> neoc_script_builder_push_data A (Some s) 64)"

definition neoc_multi_sig_create_witness ::
  "allocator \<Rightarrow> neoc_multi_sig_account option \<Rightarrow> byte list option list option \<Rightarrow> nat \<Rightarrow> byte list result" where
  "neoc_multi_sig_create_witness A account signatures invocation_size =
     (case (account, signatures) of
        (Some a, Some sigs) \<Rightarrow>
          if length sigs < unat (ms_threshold a) then Err NEOC_ERROR_INVALID_ARGUMENT
          else
            bind_r (neoc_script_builder_create A) (\<lambda>b.
              case foreach_c (push_signature A) (take (unat (ms_threshold a)) sigs) b of
                (Err e, _) \<Rightarrow> Err e
              | (Fault, _) \<Rightarrow> Fault
              | (Ok _, b') \<Rightarrow>
                  if invocation_size < unat (neoc_script_builder_get_size b') then Err NEOC_ERROR_BUFFER_TOO_SMALL
                  else
                    bind_r (neoc_script_builder_to_array A b') (\<lambda>script_data.
                      if length script_data \<noteq> unat (neoc_script_builder_get_size b') then Err NEOC_ERROR_INTERNAL else Ok script_data))
      | _ \<Rightarrow> Err NEOC_ERROR_INVALID_ARGUMENT)"

text \<open>A key of the account that cannot be copied is skipped.\<close>

fun contains_loop :: "allocator \<Rightarrow> byte list \<Rightarrow> neoc_ec_public_key option list \<Rightarrow> bool" where
  "contains_loop A key_bytes [] = False"
| "contains_loop A key_bytes (k # ks) =
     (case neoc_ec_public_key_get_encoded A k True of
        Ok bytes \<Rightarrow> if bytes = key_bytes then True else contains_loop A key_bytes ks
      | _ \<Rightarrow> contains_loop A key_bytes ks)"

definition neoc_multi_sig_contains_key :: "allocator \<Rightarrow> neoc_multi_sig_account option \<Rightarrow> neoc_ec_public_key option \<Rightarrow> bool" where
  "neoc_multi_sig_contains_key A account public_key =
     (case (account, public_key) of
        (Some a, Some k) \<Rightarrow>
          (case neoc_ec_public_key_get_encoded A (Some k) True of
             Ok key_bytes \<Rightarrow> contains_loop A key_bytes (take (unat (ms_public_key_count a)) (ms_public_keys a))
           | _ \<Rightarrow> False)
      | _ \<Rightarrow> False)"

subsection \<open>Lemmas\<close>

lemma memcmp_is_key_compare: "length a = length b \<Longrightarrow> memcmp_c a b = neoc_key_entry_compare a b"
  by (simp add: neoc_key_entry_compare_def Let_def)

text \<open>Sorting pointers to keys by their encoding is sorting the encodings.\<close>

lemma sort_encodings:
  assumes "\<forall>k \<in> set keys. length (pk_compressed k) = 33"
  obtains ks where "qsort_c compare_public_keys (map Some keys) = map Some ks"
    and "map pk_compressed ks = qsort_c neoc_key_entry_compare (map pk_compressed keys)" and "mset ks = mset keys"
proof -
  have ins: "\<exists>zs. insert_c compare_public_keys (Some x) (map Some ys) = map Some zs
      \<and> map pk_compressed zs = insert_c neoc_key_entry_compare (pk_compressed x) (map pk_compressed ys) \<and> mset zs = add_mset x (mset ys)"
    if "length (pk_compressed x) = 33" "\<forall>k \<in> set ys. length (pk_compressed k) = 33" for x ys
    using that
  proof (induction ys)
    case Nil
    show ?case by (intro exI [of _ "[x]"]) simp
  next
    case (Cons y ys)
    then have "compare_public_keys (Some x) (Some y) = neoc_key_entry_compare (pk_compressed x) (pk_compressed y)"
      by (simp add: compare_public_keys_def key_encoding_def memcmp_is_key_compare)
    moreover from Cons obtain zs where "insert_c compare_public_keys (Some x) (map Some ys) = map Some zs"
      "map pk_compressed zs = insert_c neoc_key_entry_compare (pk_compressed x) (map pk_compressed ys)" "mset zs = add_mset x (mset ys)" by auto
    ultimately show ?case by (intro exI [of _ "if neoc_key_entry_compare (pk_compressed x) (pk_compressed y) \<le> 0 then x # y # ys else y # zs"]) simp
  qed
  have "\<exists>ks. qsort_c compare_public_keys (map Some keys) = map Some ks
      \<and> map pk_compressed ks = qsort_c neoc_key_entry_compare (map pk_compressed keys) \<and> mset ks = mset keys" using assms
  proof (induction keys)
    case (Cons k keys)
    then obtain ks where ks: "qsort_c compare_public_keys (map Some keys) = map Some ks"
      "map pk_compressed ks = qsort_c neoc_key_entry_compare (map pk_compressed keys)" "mset ks = mset keys" by auto
    have "set ks = set keys" using ks(3) by (metis set_mset_mset)
    then have "length (pk_compressed k) = 33" "\<forall>x \<in> set ks. length (pk_compressed x) = 33" using Cons.prems by auto
    from ins [OF this] obtain zs where "insert_c compare_public_keys (Some k) (map Some ks) = map Some zs"
      "map pk_compressed zs = insert_c neoc_key_entry_compare (pk_compressed k) (map pk_compressed ks)" "mset zs = add_mset k (mset ks)" by blast
    with ks show ?case by (intro exI [of _ zs]) (simp add: qsort_c_def)
  qed (simp add: qsort_c_def)
  then show thesis using that by blast
qed

lemma push_public_keys:
  assumes "A 33"
  shows "foreach_c (push_public_key A) (map Some ks) = foreach_c (\<lambda>e. neoc_script_builder_push_data A (Some e) (of_nat (length e))) (map pk_compressed ks)"
proof -
  have "push_public_key A (Some k) = neoc_script_builder_push_data A (Some (pk_compressed k)) (of_nat (length (pk_compressed k)))" for k
    using assms by (simp add: push_public_key_def neoc_ec_public_key_get_encoded_def bind_c_def lift_c_def fun_eq_iff)
  then show ?thesis by (induction ks) simp_all
qed

text \<open>A builder that ran to the end: its size and its bytes.\<close>

lemma builder_run:
  assumes "writes A m bs" and "length bs < 2 ^ 62" and "grants A (256 + 2 * length bs)"
  obtains b b' where "neoc_script_builder_create A = Ok b" and "m b = (Ok (), b')" and "unat (neoc_script_builder_get_size b') = length bs"
    and "neoc_script_builder_to_array A b' = Ok bs"
proof -
  have "A sizeof_script_builder" "A sizeof_binary_writer" "A 256" using assms(3) by (simp_all add: grants_def sizeof_script_builder_def sizeof_binary_writer_def)
  then obtain b where b: "neoc_script_builder_create A = Ok b" "neoc_binary_writer_create A 256 True = Ok b"
    by (simp add: neoc_script_builder_create_def neoc_binary_writer_create_def Let_def MIN_CAPACITY_def)
  note fresh = writer_create_fresh [OF b(2), simplified]
  have "grants A (2 * (unat (w_position b) + length bs))" using fresh(4) assms(3) by (simp add: grants_def)
  with fresh assms(2) obtain b' where r: "m b = (Ok (), b')" "writer_inv b'" "w_contents b' = bs"
    using writes_succeeds [OF assms(1) fresh(1)] by auto
  have size: "unat (w_position b') = length bs" using r(3) length_w_contents [OF r(2)] by simp
  moreover have "A (length bs)" using assms(3) by (simp add: grants_def)
  ultimately have "neoc_script_builder_to_array A b' = Ok bs" using r(2,3) by (simp add: neoc_script_builder_to_array_def to_array_contents)
  with b(1) r(1) size show thesis by (intro that) (simp_all add: neoc_script_builder_get_size_def neoc_binary_writer_get_position_def)
qed

lemma multi_sig_create_eq:
  assumes "keys \<noteq> []" and "length keys \<le> 255" and "0 < m" and "m \<le> length keys" and "\<forall>k \<in> set keys. length (pk_compressed k) = 33"
    and "crypto_works C" and "grants A 140000"
  obtains acc ks where "neoc_multi_sig_create A C T (of_nat m) (Some (map Some keys @ more_keys)) (of_nat (length keys)) = Ok acc"
    and "ms_verification_script acc = multisig_layout (checkmultisig_hash C T) (of_nat m) (qsort_c neoc_key_entry_compare (map pk_compressed keys))"
    and "neoc_hash160_from_script C (Some (ms_verification_script acc)) = Ok (ms_script_hash acc)" and "length (ms_script_hash acc) = 20"
    and "ms_public_keys acc = map Some ks" and "mset ks = mset keys" and "ms_threshold acc = of_nat m" and "ms_public_key_count acc = of_nat (length keys)"
proof -
  let ?entries = "qsort_c neoc_key_entry_compare (map pk_compressed keys)"
  let ?layout = "multisig_layout (checkmultisig_hash C T) (of_nat m) ?entries"
  have "A 33" "A 56" "A (length keys * 8)" using assms(2) by (auto intro!: grantsD [OF assms(7)])
  from assms(5) obtain ks where ks: "qsort_c compare_public_keys (map Some keys) = map Some ks" "map pk_compressed ks = ?entries" "mset ks = mset keys"
    by (rule sort_encodings)
  have sized: "key_size key" if "key \<in> set ?entries" for key
    using that assms(5) by (auto simp: key_size_def)
  have "length ?layout \<le> 23 + 67 * length keys" using length_multisig_layout [OF sized, of ?entries] by simp
  with assms(2) have len: "length ?layout \<le> 18000" by simp
  have u: "unat (of_nat n :: byte) = n" "ucast (of_nat n :: byte) = (of_nat n :: 64 word)" if "n \<le> 255" for n
    using that by (simp_all add: unsigned_of_nat take_bit_nat_eq_self)
  have build: "run_builder A (then_c (neoc_script_builder_push_integer A (of_nat m))
      (then_c (foreach_c (push_public_key A) (map Some ks)) (then_c (neoc_script_builder_push_integer A (of_nat (length ?entries)))
              (neoc_script_builder_emit_syscall A C T NEOC_INTEROP_SYSTEM_CRYPTO_CHECKMULTISIG)))) = Ok ?layout"
    unfolding push_public_keys [of A, OF \<open>A 33\<close>] ks(2) using len assms(7) by (intro run_builder_Ok writes_multisig sized) (auto elim!: grants_mono)
  obtain h where h: "neoc_hash160_from_script C (Some ?layout) = Ok h" "length h = 20" using assms(6) by (rule from_script_works)
  have "A (length ?layout)" using len by (auto intro!: grantsD [OF assms(7)])
  moreover have "(of_nat (length keys) :: byte) \<noteq> 0" "(of_nat m :: byte) \<noteq> 0" "\<not> (of_nat (length keys) :: byte) < of_nat m"
    using assms(1-4) u(1) [of "length keys"] u(1) [of m] by (auto simp: word_less_nat_alt word_unat_eq_iff)
  ultimately have create: "neoc_multi_sig_create A C T (of_nat m) (Some (map Some keys @ more_keys)) (of_nat (length keys))
      = Ok \<lparr>ms_threshold = of_nat m, ms_public_key_count = of_nat (length keys), ms_public_keys = map Some ks, ms_script_hash = h, ms_verification_script = ?layout\<rparr>"
    using build h(1) ks(1) \<open>A 33\<close> \<open>A 56\<close> \<open>A (length keys * 8)\<close> assms(2,4) u
    by (simp add: neoc_multi_sig_create_def sort_public_keys_def sizeof_multi_sig_account_def)
  show thesis by (rule that [where ks = ks, OF create]) (simp_all add: h ks(3))
qed

lemma contains_loop_iff: "A 33 \<Longrightarrow> contains_loop A bs (map Some ks) \<longleftrightarrow> bs \<in> pk_compressed ` set ks"
  by (induction ks) (auto simp: neoc_ec_public_key_get_encoded_def)

lemma length_pushed_signatures: "\<forall>s \<in> set xs. length s = 64 \<Longrightarrow> length (concat (map enc_push_data xs)) = 66 * length xs"
  by (induction xs) (auto simp: enc_push_data_def)

subsection \<open>Properties\<close>

text \<open>C13.  Both ways to an account of several keys agree: for 1 to 255 keys and a threshold up to their number, in whatever order the keys are
  given, \<^verbatim>\<open>multi_sig.c\<close> makes the verification script that \<^verbatim>\<open>verification_script.c\<close> makes, with the same hash, and finds exactly the given keys in
  the account.\<close>

theorem multi_sig_accounts_agree:
  assumes "keys \<noteq> []" and "length keys \<le> 255" and "0 < m" and "m \<le> length keys" and "\<forall>k \<in> set keys. length (pk_compressed k) = 33"
    and "crypto_works C" and "grants A 140000"
  shows "\<exists>acc s. neoc_multi_sig_create A C T (of_nat m) (Some (map Some keys)) (of_nat (length keys)) = Ok acc
    \<and> neoc_verification_script_create_multi_sig A C T (map Some keys) (int m) = Ok s
    \<and> neoc_multi_sig_get_verification_script (Some acc) (length (ver_bytes s)) = Ok (ver_bytes s)
    \<and> neoc_verification_script_get_script_hash C (Some s) = neoc_multi_sig_get_script_hash (Some acc)
    \<and> (\<forall>k. neoc_multi_sig_contains_key A (Some acc) (Some k) \<longleftrightarrow> pk_compressed k \<in> pk_compressed ` set keys)"
proof -
  obtain acc ks where acc: "neoc_multi_sig_create A C T (of_nat m) (Some (map Some keys @ [])) (of_nat (length keys)) = Ok acc"
    "ms_verification_script acc = multisig_layout (checkmultisig_hash C T) (of_nat m) (qsort_c neoc_key_entry_compare (map pk_compressed keys))"
    "neoc_hash160_from_script C (Some (ms_verification_script acc)) = Ok (ms_script_hash acc)" "length (ms_script_hash acc) = 20"
    "ms_public_keys acc = map Some ks" "mset ks = mset keys" "ms_threshold acc = of_nat m" "ms_public_key_count acc = of_nat (length keys)"
    using assms by (rule multi_sig_create_eq)
  let ?s = "\<lparr>ver_bytes = ms_verification_script acc\<rparr>"
  have "list_all compressed_key (map pk_compressed keys)" using assms(5) by (simp add: list_all_iff compressed_key_def)
  from verification_multi_sig_eq [OF assms(1) _ _ _ this assms(7), of "int m"] assms(2-4)
  have "neoc_verification_script_create_multi_sig A C T (map Some keys) (int m) = Ok ?s" by (simp add: acc(2))
  moreover have "ms_verification_script acc \<noteq> []" by (simp add: acc(2) multisig_layout_def enc_syscall_def)
  then have "neoc_verification_script_get_script_hash C (Some ?s) = Ok (ms_script_hash acc)"
    using acc(3) by (simp add: neoc_verification_script_get_script_hash_def script_ptr_def)
  moreover have "neoc_multi_sig_contains_key A (Some acc) (Some k) \<longleftrightarrow> pk_compressed k \<in> pk_compressed ` set keys" for k
  proof -
    have "A 33" by (rule grantsD [OF assms(7)]) simp
    moreover have "set ks = set keys" "length ks = length keys" using acc(6) by (metis set_mset_mset, metis size_mset)
    moreover have "unat (of_nat (length keys) :: byte) = length keys" using assms(2) by (simp add: unsigned_of_nat take_bit_nat_eq_self)
    ultimately show ?thesis
      using contains_loop_iff [of A "pk_compressed k" ks] acc(5,8) by (simp add: neoc_multi_sig_contains_key_def neoc_ec_public_key_get_encoded_def)
  qed
  ultimately show ?thesis using acc(1)
    by (intro exI [of _ acc] exI [of _ ?s]) (simp add: neoc_multi_sig_get_verification_script_def neoc_multi_sig_get_script_hash_def)
qed

text \<open> A witness for an account with threshold \<open>m\<close> holds the first \<open>m\<close> of the signatures given, in their order, and nothing else: extraction
  returns them.  With fewer signatures, or with a buffer that is too small, the function reports an error.\<close>

theorem multi_sig_witness_signatures:
  assumes "list_all (\<lambda>s. length s = 64) sigs" and "grants A 40000"
  shows "neoc_multi_sig_create_witness A (Some acc) (Some (map Some sigs)) n =
      (if length sigs < unat (ms_threshold acc) then Err NEOC_ERROR_INVALID_ARGUMENT
       else if n < 66 * unat (ms_threshold acc) then Err NEOC_ERROR_BUFFER_TOO_SMALL
       else Ok (concat (map enc_push_data (take (unat (ms_threshold acc)) sigs))))
    \<and> (unat (ms_threshold acc) \<le> length sigs \<longrightarrow>
        neoc_invocation_script_extract_signatures A (Some \<lparr>inv_bytes = concat (map enc_push_data (take (unat (ms_threshold acc)) sigs))\<rparr>)
          = Ok (take (unat (ms_threshold acc)) sigs))"
proof -
  let ?m = "unat (ms_threshold acc)" let ?ss = "take ?m sigs" let ?bs = "concat (map enc_push_data ?ss)"
  have m: "?m < 256" using unsigned_less [of "ms_threshold acc", where ?'a = nat] by simp
  have s64: "\<forall>s \<in> set ?ss. length s = 64" using assms(1) set_take_subset [of ?m sigs] by (auto simp: list_all_iff)
  have len: "length ?bs = 66 * length ?ss"
    using s64 by (rule length_pushed_signatures)
  show ?thesis
  proof (cases "length sigs < ?m")
    case False
    then have lm: "length ?ss = ?m" by simp
    have small: "length ?bs \<le> 17000" using len lm m by simp
    have "writes A (push_signature A (Some s)) (enc_push_data s)" if "s \<in> set ?ss" for s
      using writes_push_data [of 64 s A] s64 that by (simp add: push_signature_def)
    then have "writes A (foreach_c (\<lambda>s. push_signature A (Some s)) ?ss) ?bs" by (intro writes_foreach)
    moreover have "foreach_c (\<lambda>s. push_signature A (Some s)) xs = foreach_c (push_signature A) (map Some xs)" for xs by (induction xs) simp_all
    ultimately have w: "writes A (foreach_c (push_signature A) (map Some ?ss)) ?bs" by simp
    have "length ?bs < 2 ^ 62" "grants A (256 + 2 * length ?bs)" using small assms(2) by (auto elim!: grants_mono)
    from builder_run [OF w this] obtain b b' where b: "neoc_script_builder_create A = Ok b" "foreach_c (push_signature A) (map Some ?ss) b = (Ok (), b')"
      "unat (neoc_script_builder_get_size b') = length ?bs" "neoc_script_builder_to_array A b' = Ok ?bs" by blast
    have "list_all payload_ok ?ss" using s64 by (auto simp: list_all_iff payload_ok_def)
    from extract_pushes [OF this, of A] have "neoc_invocation_script_extract_signatures A (Some \<lparr>inv_bytes = ?bs\<rparr>) = Ok (filter is_signature ?ss)"
      using grants_mono [OF assms(2)] small by simp
    moreover have "filter is_signature ?ss = ?ss" using s64 by (simp add: filter_id_conv)
    ultimately show ?thesis using False b len lm by (simp add: neoc_multi_sig_create_witness_def take_map)
  qed (simp add: neoc_multi_sig_create_witness_def)
qed

theorem multi_sig_accounts_agree_witness:
  "\<exists>acc s. neoc_multi_sig_create (\<lambda>_. True) toy_crypto initial_interop_table 2 (Some [Some (demo_key 3), Some (demo_key 2), Some (demo_key 9)]) 3 = Ok acc
     \<and> neoc_verification_script_create_multi_sig (\<lambda>_. True) toy_crypto initial_interop_table [Some (demo_key 3), Some (demo_key 2), Some (demo_key 9)] 2 = Ok s
     \<and> neoc_multi_sig_get_verification_script (Some acc) (length (ver_bytes s)) = Ok (ver_bytes s)"
  using multi_sig_accounts_agree [of "[demo_key 3, demo_key 2, demo_key 9]" 2 toy_crypto "\<lambda>_. True" initial_interop_table] toy_crypto_works
  by (auto simp: demo_key_def)

theorem multi_sig_witness_signatures_witness:
  "\<exists>bs. neoc_multi_sig_create_witness (\<lambda>_. True) (Some \<lparr>ms_threshold = 1, ms_public_key_count = 2, ms_public_keys = [], ms_script_hash = [], ms_verification_script = []\<rparr>)
      (Some (map Some [replicate 64 1, replicate 64 2])) 100 = Ok bs
     \<and> neoc_invocation_script_extract_signatures (\<lambda>_. True) (Some \<lparr>inv_bytes = bs\<rparr>) = Ok [replicate 64 1]"
  using multi_sig_witness_signatures [of "[replicate 64 1, replicate 64 2]" "\<lambda>_. True"
    "\<lparr>ms_threshold = 1, ms_public_key_count = 2, ms_public_keys = [], ms_script_hash = [], ms_verification_script = []\<rparr>" 100] by simp

end
