(* ===== verification/Key_Pair.thy ===== *)
theory Key_Pair
  imports Witness_Condition Script_Builder
begin

text \<open>
  \<^verbatim>\<open>crypto/ec_key_pair.c\<close> and \<^verbatim>\<open>crypto/wif.c\<close>: key pairs, their script hash and address, and the wallet import format; with the
  function of \<^verbatim>\<open>crypto/ecdsasignature.c\<close> that signing calls.  The two functions on public keys that witness conditions use are
  in \<^verbatim>\<open>Witness_Condition\<close>.  Elliptic curve arithmetic and random bytes are OpenSSL functions and are parameters.
\<close>

subsection \<open>Wallet import format\<close>

definition WIF_VERSION :: byte where "WIF_VERSION = 0x80"
definition WIF_COMPRESSED_FLAG :: byte where "WIF_COMPRESSED_FLAG = 0x01"
definition WIF_MAX_LENGTH :: nat where "WIF_MAX_LENGTH = 64"
definition WIF_DECODED_MAX_LENGTH :: nat where "WIF_DECODED_MAX_LENGTH = 40"

lemmas wif_consts = WIF_VERSION_def WIF_COMPRESSED_FLAG_def WIF_MAX_LENGTH_def WIF_DECODED_MAX_LENGTH_def

definition neoc_private_key_to_wif_len :: "crypto \<Rightarrow> allocator \<Rightarrow> byte list option \<Rightarrow> string result" where
  "neoc_private_key_to_wif_len C A private_key =
     (case private_key of
        None \<Rightarrow> Err NEOC_ERROR_INVALID_ARGUMENT
      | Some key \<Rightarrow>
          if length key \<noteq> 32 then Err NEOC_ERROR_INVALID_SIZE
          else
            let payload = [WIF_VERSION] @ key @ [WIF_COMPRESSED_FLAG] in
            bind_r (malloc_r A WIF_MAX_LENGTH) (\<lambda>_. neoc_base58_check_encode C A (Some payload) WIF_MAX_LENGTH))"

text \<open>Here the caller passes no length: 32 bytes are read.\<close>

definition neoc_private_key_to_wif :: "crypto \<Rightarrow> allocator \<Rightarrow> byte list option \<Rightarrow> string result" where
  "neoc_private_key_to_wif C A private_key =
     (case private_key of
        None \<Rightarrow> neoc_private_key_to_wif_len C A None
      | Some key \<Rightarrow> if length key < 32 then Fault else neoc_private_key_to_wif_len C A (Some (take 32 key)))"

definition neoc_wif_to_private_key :: "crypto \<Rightarrow> allocator \<Rightarrow> string option \<Rightarrow> byte list result" where
  "neoc_wif_to_private_key C A wif =
     (case wif of
        None \<Rightarrow> Err NEOC_ERROR_INVALID_ARGUMENT
      | Some s \<Rightarrow>
          bind_r (neoc_base58_check_decode C A (Some s) WIF_DECODED_MAX_LENGTH) (\<lambda>decoded.
            if length decoded \<noteq> 34 then Err NEOC_ERROR_INVALID_FORMAT
            else if decoded ! 0 \<noteq> WIF_VERSION then Err NEOC_ERROR_INVALID_FORMAT
            else if decoded ! 33 \<noteq> WIF_COMPRESSED_FLAG then Err NEOC_ERROR_INVALID_FORMAT
            else bind_r (malloc_r A 32) (\<lambda>_. Ok (take 32 (drop 1 decoded)))))"

definition neoc_wif_is_valid :: "crypto \<Rightarrow> allocator \<Rightarrow> string option \<Rightarrow> bool result" where
  "neoc_wif_is_valid C A wif =
     (case neoc_wif_to_private_key C A wif of Ok _ \<Rightarrow> Ok True | Err _ \<Rightarrow> Ok False | Fault \<Rightarrow> Fault)"

subsection \<open>Key pairs\<close>

text \<open>
  \<open>G d\<close> stands for the multiplication of the base point with the private key \<open>d\<close> and the two encodings of the result; it is \<open>None\<close>
  when one of the OpenSSL functions before the encoding fails.  The point at infinity has an encoding of one byte.
\<close>

type_synonym base_mul = "byte list \<Rightarrow> (byte list \<times> byte list) option"

record neoc_ec_key_pair =
  kp_private_key :: "byte list option"
  kp_public_key :: "neoc_ec_public_key option"

definition sizeof_key_pair :: nat where "sizeof_key_pair = 16"
definition sizeof_private_key :: nat where "sizeof_private_key = 48"

definition neoc_ec_key_pair_create_from_private_key :: "allocator \<Rightarrow> base_mul \<Rightarrow> byte list option \<Rightarrow> neoc_ec_key_pair result" where
  "neoc_ec_key_pair_create_from_private_key A G private_key_bytes =
     (case private_key_bytes of
        None \<Rightarrow> Err NEOC_ERROR_INVALID_ARGUMENT
      | Some key \<Rightarrow>
          bind_r (malloc_r A sizeof_key_pair) (\<lambda>_.
          bind_r (malloc_r A sizeof_private_key) (\<lambda>_.
            if length key < 32 then Fault
            else (case G (take 32 key) of
                    None \<Rightarrow> Err NEOC_ERROR_CRYPTO
                  | Some (c, u) \<Rightarrow>
                      bind_r (malloc_r A sizeof_public_key) (\<lambda>_.
                        if length c \<noteq> 33 \<or> length u \<noteq> 65 then Err NEOC_ERROR_CRYPTO
                        else Ok \<lparr>kp_private_key = Some (take 32 key),
                                 kp_public_key = Some \<lparr>pk_compressed = c, pk_uncompressed = u, pk_is_compressed = True\<rparr>\<rparr>)))))"

definition neoc_ec_key_pair_from_private_key :: "allocator \<Rightarrow> base_mul \<Rightarrow> byte list option \<Rightarrow> nat \<Rightarrow> neoc_ec_key_pair result" where
  "neoc_ec_key_pair_from_private_key A G private_key_bytes key_size =
     (if key_size \<noteq> 32 then Err NEOC_ERROR_INVALID_LENGTH else neoc_ec_key_pair_create_from_private_key A G private_key_bytes)"

text \<open>\<open>R n\<close>: \<open>n\<close> random bytes, or \<open>None\<close> when \<^verbatim>\<open>RAND_bytes\<close> fails.\<close>

definition neoc_ec_key_pair_create_random :: "(nat \<Rightarrow> byte list option) \<Rightarrow> allocator \<Rightarrow> base_mul \<Rightarrow> neoc_ec_key_pair result" where
  "neoc_ec_key_pair_create_random R A G =
     (case R 32 of
        None \<Rightarrow> Err NEOC_ERROR_CRYPTO
      | Some private_key \<Rightarrow> neoc_ec_key_pair_create_from_private_key A G (Some private_key))"

text \<open>The digest is copied as it is: not reversed, unlike in \<^const>\<open>neoc_hash160_from_script\<close>.\<close>

definition neoc_ec_key_pair_get_script_hash ::
  "crypto \<Rightarrow> allocator \<Rightarrow> interop_table \<Rightarrow> neoc_ec_key_pair option \<Rightarrow> neoc_hash160 result" where
  "neoc_ec_key_pair_get_script_hash C A T key_pair =
     (case key_pair of
        None \<Rightarrow> Err NEOC_ERROR_INVALID_ARGUMENT
      | Some kp \<Rightarrow>
          (case kp_public_key kp of
             None \<Rightarrow> Err NEOC_ERROR_INVALID_ARGUMENT
           | Some pk \<Rightarrow>
               bind_r (neoc_script_builder_build_verification_script A C T (Some (pk_compressed pk))) (\<lambda>script.
                 neoc_hash160 C (Some script))))"

definition neoc_ec_key_pair_get_address ::
  "crypto \<Rightarrow> allocator \<Rightarrow> interop_table \<Rightarrow> neoc_ec_key_pair option \<Rightarrow> string result" where
  "neoc_ec_key_pair_get_address C A T key_pair =
     (case key_pair of
        None \<Rightarrow> Err NEOC_ERROR_INVALID_ARGUMENT
      | Some kp \<Rightarrow>
          bind_r (neoc_ec_key_pair_get_script_hash C A T (Some kp)) (\<lambda>script_hash.
          bind_r (neoc_hash160_to_address C A (Some script_hash) 58) (\<lambda>address.
          bind_r (malloc_r A (length address + 1)) (\<lambda>_. Ok address))))"

definition neoc_ec_key_pair_export_as_wif :: "crypto \<Rightarrow> allocator \<Rightarrow> neoc_ec_key_pair option \<Rightarrow> string result" where
  "neoc_ec_key_pair_export_as_wif C A key_pair =
     (case key_pair of
        None \<Rightarrow> Err NEOC_ERROR_INVALID_ARGUMENT
      | Some kp \<Rightarrow>
          (case kp_private_key kp of
             None \<Rightarrow> Err NEOC_ERROR_INVALID_ARGUMENT
           | Some d \<Rightarrow> neoc_private_key_to_wif C A (Some d)))"

definition neoc_ec_key_pair_import_from_wif :: "crypto \<Rightarrow> allocator \<Rightarrow> base_mul \<Rightarrow> string option \<Rightarrow> neoc_ec_key_pair result" where
  "neoc_ec_key_pair_import_from_wif C A G wif =
     (case wif of
        None \<Rightarrow> Err NEOC_ERROR_INVALID_ARGUMENT
      | Some s \<Rightarrow>
          bind_r (neoc_wif_to_private_key C A (Some s)) (\<lambda>private_key.
            neoc_ec_key_pair_create_from_private_key A G (Some private_key)))"

definition neoc_ec_key_pair_get_private_key :: "neoc_ec_key_pair option \<Rightarrow> nat \<Rightarrow> byte list result" where
  "neoc_ec_key_pair_get_private_key key_pair key_len =
     (case key_pair of
        None \<Rightarrow> Err NEOC_ERROR_NULL_POINTER
      | Some kp \<Rightarrow>
          (case kp_private_key kp of
             None \<Rightarrow> Err NEOC_ERROR_INVALID_STATE
           | Some d \<Rightarrow> if key_len < 32 then Err NEOC_ERROR_BUFFER_TOO_SMALL else Ok d))"

definition neoc_ec_key_pair_get_public_key :: "neoc_ec_key_pair option \<Rightarrow> nat \<Rightarrow> byte list result" where
  "neoc_ec_key_pair_get_public_key key_pair key_len =
     (case key_pair of
        None \<Rightarrow> Err NEOC_ERROR_NULL_POINTER
      | Some kp \<Rightarrow>
          (case kp_public_key kp of
             None \<Rightarrow> Err NEOC_ERROR_INVALID_STATE
           | Some pk \<Rightarrow> if key_len < 33 then Err NEOC_ERROR_BUFFER_TOO_SMALL else Ok (pk_compressed pk)))"

definition neoc_ec_key_pair_get_public_key_object :: "allocator \<Rightarrow> curve \<Rightarrow> neoc_ec_key_pair option \<Rightarrow> neoc_ec_public_key result" where
  "neoc_ec_key_pair_get_public_key_object A K key_pair =
     (case key_pair of
        None \<Rightarrow> Err NEOC_ERROR_NULL_POINTER
      | Some kp \<Rightarrow>
          bind_r (neoc_ec_key_pair_get_public_key (Some kp) 65) (\<lambda>encoded. neoc_ec_public_key_from_bytes A K (Some encoded)))"

text \<open>The copy of the point and the second group object are taken to succeed.\<close>

definition neoc_ec_public_key_from_private :: "allocator \<Rightarrow> base_mul \<Rightarrow> byte list option \<Rightarrow> neoc_ec_public_key result" where
  "neoc_ec_public_key_from_private A G private_key_bytes =
     (case private_key_bytes of
        None \<Rightarrow> Err NEOC_ERROR_INVALID_ARGUMENT
      | Some key \<Rightarrow>
          bind_r (neoc_ec_key_pair_create_from_private_key A G (Some key)) (\<lambda>kp.
          bind_r (malloc_r A sizeof_public_key) (\<lambda>_.
            case kp_public_key kp of None \<Rightarrow> Fault | Some pk \<Rightarrow> Ok pk)))"

definition neoc_ec_public_key_to_bytes :: "neoc_ec_public_key option \<Rightarrow> nat \<Rightarrow> byte list result" where
  "neoc_ec_public_key_to_bytes public_key len =
     (case public_key of
        None \<Rightarrow> Err NEOC_ERROR_INVALID_ARGUMENT
      | Some pk \<Rightarrow> if len < 33 then Err NEOC_ERROR_BUFFER_TOO_SMALL else Ok (pk_compressed pk))"

definition neoc_ec_public_key_clone :: "allocator \<Rightarrow> curve \<Rightarrow> neoc_ec_public_key option \<Rightarrow> neoc_ec_public_key result" where
  "neoc_ec_public_key_clone A K public_key =
     (case public_key of
        None \<Rightarrow> Err NEOC_ERROR_INVALID_ARGUMENT
      | Some pk \<Rightarrow> neoc_ec_public_key_from_bytes A K (Some (pk_compressed pk)))"

subsection \<open>Signing\<close>

text \<open>
  Signing is randomised: \<^verbatim>\<open>ECDSA_do_sign\<close> draws a fresh nonce in every call.  A value of type \<open>ecdsa\<close> stands for one such call, with the nonce
  that this call has drawn and the conversion of the two numbers of the signature to 32 bytes each: it takes the private key and the digest, and is
  \<open>None\<close> when OpenSSL reports failure.  An operation that signs once takes one such value; an operation that signs several times takes a family
  \<open>nat \<Rightarrow> ecdsa\<close>, its \<open>i\<close>-th signing call uses the \<open>i\<close>-th member, and the members are unrelated, so that the same key and digest may be signed
  differently each time.
\<close>

type_synonym ecdsa = "byte list \<Rightarrow> byte list \<Rightarrow> (byte list \<times> byte list) option"

definition neoc_ec_key_pair_sign ::
  "allocator \<Rightarrow> ecdsa \<Rightarrow> neoc_ec_key_pair option \<Rightarrow> byte list option \<Rightarrow> (byte list \<times> byte list) result" where
  "neoc_ec_key_pair_sign A S key_pair message_hash =
     (case (key_pair, message_hash) of
        (Some kp, Some h) \<Rightarrow>
          (case kp_private_key kp of
             None \<Rightarrow> Err NEOC_ERROR_INVALID_ARGUMENT
           | Some d \<Rightarrow>
               bind_r (malloc_r A 64) (\<lambda>_.
                 case S d h of None \<Rightarrow> Err NEOC_ERROR_CRYPTO | Some rs \<Rightarrow> Ok rs))
      | _ \<Rightarrow> Err NEOC_ERROR_INVALID_ARGUMENT)"

definition neoc_ecdsa_signature_to_bytes :: "allocator \<Rightarrow> (byte list \<times> byte list) option \<Rightarrow> byte list result" where
  "neoc_ecdsa_signature_to_bytes A signature =
     (case signature of
        None \<Rightarrow> Err NEOC_ERROR_INVALID_ARGUMENT
      | Some (r, s) \<Rightarrow> bind_r (malloc_r A 64) (\<lambda>_. Ok (r @ s)))"

subsection \<open>Lemmas\<close>

lemma wif_payload_size: "neoc_base58_check_encode_buffer_size 34 = 54"
  by (simp add: neoc_base58_check_encode_buffer_size_def neoc_base58_encode_buffer_size_def NEOC_BASE58_CHECKSUM_LENGTH_def)

lemma wif_text:
  assumes "crypto_works C" and "grants A 64" and "length key = 32"
  obtains hash where "neoc_sha256_double C (Some ([WIF_VERSION] @ key @ [WIF_COMPRESSED_FLAG])) = Ok hash" and "length hash = 32"
    and "neoc_private_key_to_wif C A (Some key) = Ok (b58_text (([WIF_VERSION] @ key @ [WIF_COMPRESSED_FLAG]) @ take 4 hash))"
proof -
  let ?p = "[WIF_VERSION] @ key @ [WIF_COMPRESSED_FLAG]"
  have l: "length ?p = 34" using assms(3) by simp
  have "grants A (neoc_base58_check_encode_buffer_size (length ?p))" "neoc_base58_check_encode_buffer_size (length ?p) \<le> 64" "length ?p < 2 ^ 52"
    unfolding l wif_payload_size using assms(2) by (auto simp: grants_def)
  from check_encode_buffer [OF assms(1) this] obtain hash where
    h: "neoc_sha256_double C (Some ?p) = Ok hash" "length hash = 32" "neoc_base58_check_encode C A (Some ?p) 64 = Ok (b58_text (?p @ take 4 hash))" by blast
  moreover have "A 64" using assms(2) by (simp add: grants_def)
  ultimately show thesis using assms(3) by (intro that) (simp_all add: neoc_private_key_to_wif_def neoc_private_key_to_wif_len_def wif_consts)
qed

lemma key_pair_wif:
  assumes "neoc_ec_key_pair_create_from_private_key A G (Some d) = Ok kp"
  shows "32 \<le> length d" and "kp_private_key kp = Some (take 32 d)"
    and "neoc_ec_key_pair_create_from_private_key A G (Some (take 32 d)) = Ok kp"
  using assms by (auto simp: neoc_ec_key_pair_create_from_private_key_def bind_r_Ok_iff split: if_splits option.splits)

subsection \<open>Properties\<close>

text \<open>C12.  Keys survive the wallet import format: the text of a key is decoded to the same key and recognised as valid, and exporting a key
  pair and importing the text gives the same key pair.\<close>

theorem wif_roundtrip:
  assumes "crypto_works C" and "grants A 64" and "neoc_ec_key_pair_create_from_private_key A G (Some d) = Ok kp"
  shows "\<exists>s. neoc_ec_key_pair_export_as_wif C A (Some kp) = Ok s \<and> neoc_wif_is_valid C A (Some s) = Ok True
    \<and> neoc_wif_to_private_key C A (Some s) = Ok (take 32 d) \<and> neoc_ec_key_pair_import_from_wif C A G (Some s) = Ok kp"
proof -
  note kp = key_pair_wif [OF assms(3)]
  let ?k = "take 32 d"
  have k: "length ?k = 32" using kp(1) by simp
  from wif_text [OF assms(1,2) this] obtain hash where
    h: "neoc_sha256_double C (Some ([WIF_VERSION] @ ?k @ [WIF_COMPRESSED_FLAG])) = Ok hash" "length hash = 32"
    "neoc_private_key_to_wif C A (Some ?k) = Ok (b58_text (([WIF_VERSION] @ ?k @ [WIF_COMPRESSED_FLAG]) @ take 4 hash))" by blast
  let ?p = "[WIF_VERSION] @ ?k @ [WIF_COMPRESSED_FLAG]"
  have l: "length ?p = 34" using k by simp
  have "grants A (neoc_base58_check_encode_buffer_size (length ?p))" "length ?p \<le> 40" "length ?p < 2 ^ 52"
    unfolding l wif_payload_size using assms(2) by (auto simp: grants_def)
  from check_decode_text [OF h(1,2) this] have "neoc_base58_check_decode C A (Some (b58_text (?p @ take 4 hash))) 40 = Ok ?p" .
  moreover have "A 32" using assms(2) by (simp add: grants_def)
  moreover have "?p ! 33 = WIF_COMPRESSED_FLAG" using k by (simp add: nth_append)
  ultimately have "neoc_wif_to_private_key C A (Some (b58_text (?p @ take 4 hash))) = Ok ?k"
    using l k by (simp add: neoc_wif_to_private_key_def WIF_DECODED_MAX_LENGTH_def)
  with h(3) kp(2,3) show ?thesis
    by (simp add: neoc_ec_key_pair_export_as_wif_def neoc_wif_is_valid_def neoc_ec_key_pair_import_from_wif_def)
qed

text \<open> Only one text stands for a key: what the import accepts is the text the export makes for the key it returns.\<close>

theorem wif_canonical:
  assumes "no_nul s" and "neoc_wif_to_private_key C A (Some s) = Ok key" and "crypto_works C" and "grants A' 64"
  shows "length key = 32 \<and> neoc_private_key_to_wif C A' (Some key) = Ok s"
proof -
  from assms(2) obtain p where p: "neoc_base58_check_decode C A (Some s) 40 = Ok p" "length p = 34" "p ! 0 = WIF_VERSION"
    "p ! 33 = WIF_COMPRESSED_FLAG" "key = take 32 (drop 1 p)"
    by (auto simp: neoc_wif_to_private_key_def WIF_DECODED_MAX_LENGTH_def bind_r_Ok_iff split: if_splits)
  have k: "length key = 32" using p(2,5) by simp
  have "p = [p ! 0] @ take 32 (drop 1 p) @ [p ! 33]"
    using p(2) by (intro nth_equalityI) (auto simp: nth_append nth_Cons' less_Suc_eq numeral_eq_Suc)
  then have eq: "p = [WIF_VERSION] @ key @ [WIF_COMPRESSED_FLAG]" unfolding p(3-5) .
  from assms(1) p(1) obtain hash where h: "neoc_sha256_double C (Some p) = Ok hash" "s = b58_text (p @ take 4 hash)"
    by (rule check_decode_canonical)
  from wif_text [OF assms(3,4) k] h show ?thesis unfolding eq using k by auto
qed

text \<open>The script hash of a key pair is the reverse of the one the rest of the library computes for the same script.\<close>

lemma key_pair_hash_reversed:
  assumes "neoc_ec_key_pair_get_script_hash C A T (Some kp) = Ok h" and "kp_public_key kp = Some pk" and "length h = 20"
  shows "bind_r (neoc_script_builder_build_verification_script A C T (Some (pk_compressed pk))) (\<lambda>script. neoc_hash160_from_script C (Some script))
    = Ok (rev h)"
  using assms map_rev_index [of h 20]
  by (auto simp: neoc_ec_key_pair_get_script_hash_def neoc_hash160_from_script_def bind_r_Ok_iff hash_sizes)

definition demo_mul :: base_mul where "demo_mul d = Some (2 # replicate 32 5, 4 # replicate 64 5)"

theorem wif_roundtrip_witness:
  "\<exists>s. neoc_wif_to_private_key toy_crypto (\<lambda>_. True) (Some s) = Ok (replicate 32 7)
     \<and> neoc_ec_key_pair_import_from_wif toy_crypto (\<lambda>_. True) demo_mul (Some s) = neoc_ec_key_pair_create_from_private_key (\<lambda>_. True) demo_mul (Some (replicate 32 7))"
proof -
  let ?kp = "\<lparr>kp_private_key = Some (replicate 32 7), kp_public_key = Some \<lparr>pk_compressed = 2 # replicate 32 5, pk_uncompressed = 4 # replicate 64 5, pk_is_compressed = True\<rparr>\<rparr>"
  have kp: "neoc_ec_key_pair_create_from_private_key (\<lambda>_. True) demo_mul (Some (replicate 32 7)) = Ok ?kp"
    by (simp add: neoc_ec_key_pair_create_from_private_key_def demo_mul_def)
  from wif_roundtrip [OF toy_crypto_works _ this] show ?thesis unfolding kp by auto
qed

theorem wif_canonical_witness:
  "\<exists>s. neoc_wif_to_private_key toy_crypto (\<lambda>_. True) (Some s) = Ok (replicate 32 7) \<and> neoc_private_key_to_wif toy_crypto (\<lambda>_. True) (Some (replicate 32 7)) = Ok s"
proof -
  let ?p = "[WIF_VERSION] @ replicate 32 7 @ [WIF_COMPRESSED_FLAG]"
  have h: "neoc_sha256_double toy_crypto (Some ?p) = Ok (replicate 32 32)"
    by (simp add: neoc_sha256_double_def neoc_sha256_def digest_calls_def toy_crypto_def)
  have "neoc_base58_check_decode toy_crypto (\<lambda>_. True) (Some (b58_text (?p @ take 4 (replicate 32 32)))) 40 = Ok ?p"
    by (rule check_decode_text [OF h]) simp_all
  then have "neoc_wif_to_private_key toy_crypto (\<lambda>_. True) (Some (b58_text (?p @ take 4 (replicate 32 32)))) = Ok (replicate 32 7)"
    by (simp add: neoc_wif_to_private_key_def WIF_DECODED_MAX_LENGTH_def nth_append)
  with wif_canonical [OF no_nul_text this toy_crypto_works, of "\<lambda>_. True"] show ?thesis by auto
qed

end
