(* ===== verification/Nep2.thy ===== *)
theory Nep2
  imports Key_Pair
begin

text \<open>
  \<^verbatim>\<open>crypto/nep2.c\<close>: private keys encrypted with a password, and \<^verbatim>\<open>crypto/scrypt_params.c\<close>.  The key derivation and the block cipher are
  OpenSSL functions and are parameters; a failure of one of the calls around them is \<open>None\<close>.
\<close>

subsection \<open>Parameters\<close>

record neoc_nep2_params =
  n2_n :: u32
  n2_r :: u32
  n2_p :: u32

definition NEOC_NEP2_DEFAULT_PARAMS :: neoc_nep2_params where
  "NEOC_NEP2_DEFAULT_PARAMS = \<lparr>n2_n = 16384, n2_r = 8, n2_p = 8\<rparr>"

definition NEOC_NEP2_LIGHT_PARAMS :: neoc_nep2_params where
  "NEOC_NEP2_LIGHT_PARAMS = \<lparr>n2_n = 1024, n2_r = 1, n2_p = 1\<rparr>"

record neoc_scrypt_params =
  sc_n :: u32
  sc_r :: u32
  sc_p :: u32
  sc_dk_len :: u32

definition neoc_scrypt_params_create :: "allocator \<Rightarrow> u32 \<Rightarrow> u32 \<Rightarrow> u32 \<Rightarrow> u32 \<Rightarrow> neoc_scrypt_params result" where
  "neoc_scrypt_params_create A n r p dk_len =
     (if n < 1024 \<or> n AND (n - 1) \<noteq> 0 then Err NEOC_ERROR_INVALID_ARGUMENT
      else if r = 0 \<or> p = 0 then Err NEOC_ERROR_INVALID_ARGUMENT
      else bind_r (malloc_r A 16) (\<lambda>_. Ok \<lparr>sc_n = n, sc_r = r, sc_p = p, sc_dk_len = dk_len\<rparr>))"

definition neoc_scrypt_params_is_valid :: "neoc_scrypt_params option \<Rightarrow> bool" where
  "neoc_scrypt_params_is_valid params =
     (case params of
        None \<Rightarrow> False
      | Some s \<Rightarrow>
          if sc_n s = 0 \<or> sc_n s AND (sc_n s - 1) \<noteq> 0 then False
          else if sc_r s = 0 \<or> sc_p s = 0 \<or> sc_dk_len s = 0 then False
          else True)"

subsection \<open>Encryption\<close>

definition NEP2_PREFIX_1 :: byte where "NEP2_PREFIX_1 = 0x01"
definition NEP2_PREFIX_2 :: byte where "NEP2_PREFIX_2 = 0x42"
definition NEP2_FLAG_UNCOMPRESSED :: byte where "NEP2_FLAG_UNCOMPRESSED = 0xC0"
definition NEP2_FLAG_COMPRESSED :: byte where "NEP2_FLAG_COMPRESSED = 0xE0"
definition NEP2_ENCRYPTED_SIZE :: nat where "NEP2_ENCRYPTED_SIZE = 39"
definition NEP2_ENCODED_SIZE :: nat where "NEP2_ENCODED_SIZE = 58"
definition NEP2_ADDRESS_BUFFER_LEN :: nat where "NEP2_ADDRESS_BUFFER_LEN = 64"

lemmas nep2_consts = NEP2_PREFIX_1_def NEP2_PREFIX_2_def NEP2_FLAG_UNCOMPRESSED_def NEP2_FLAG_COMPRESSED_def NEP2_ENCRYPTED_SIZE_def
  NEP2_ENCODED_SIZE_def NEP2_ADDRESS_BUFFER_LEN_def

text \<open>Scrypt of a password and a salt; AES-256 in ECB mode without padding, a key of 32 bytes and a text of 32 bytes.\<close>

record ciphers =
  scrypt :: "string \<Rightarrow> byte list \<Rightarrow> neoc_nep2_params \<Rightarrow> byte list option"
  aes_encrypt :: "byte list \<Rightarrow> byte list \<Rightarrow> byte list option"
  aes_decrypt :: "byte list \<Rightarrow> byte list \<Rightarrow> byte list option"

definition derive_key :: "ciphers \<Rightarrow> string \<Rightarrow> byte list \<Rightarrow> neoc_nep2_params option \<Rightarrow> byte list result" where
  "derive_key E password salt params =
     (let p = (case params of None \<Rightarrow> NEOC_NEP2_DEFAULT_PARAMS | Some p \<Rightarrow> p) in
      case scrypt E password salt p of
        None \<Rightarrow> Err NEOC_ERROR_CRYPTO
      | Some k \<Rightarrow> if length k \<noteq> 64 then Err NEOC_ERROR_CRYPTO else Ok k)"

definition xor_bytes :: "byte list \<Rightarrow> byte list \<Rightarrow> byte list" where
  "xor_bytes dest src = map2 (XOR) dest src"

text \<open>Both directions build the verification script of the key, its address, and the digest of the address.\<close>

definition nep2_address_hash :: "crypto \<Rightarrow> allocator \<Rightarrow> interop_table \<Rightarrow> neoc_ec_public_key \<Rightarrow> bool \<Rightarrow> byte list result" where
  "nep2_address_hash C A T pk is_compressed =
     (let pubkey = (if is_compressed then pk_compressed pk else pk_uncompressed pk); pubkey_len = (if is_compressed then 33 else 65) in
      if length pubkey < pubkey_len then Fault
      else
        bind_r (malloc_r A (2 + pubkey_len + 1 + 4)) (\<lambda>_.
          let verification_script = [NEOC_OP_PUSHDATA1, of_nat pubkey_len] @ take pubkey_len pubkey
                @ [NEOC_OP_SYSCALL] @ le_bytes 4 (fst (neoc_interop_get_hash C NEOC_INTEROP_SYSTEM_CRYPTO_CHECKSIG T)) in
          bind_r (neoc_hash160_from_script C (Some verification_script)) (\<lambda>script_hash.
          bind_r (neoc_hash160_to_address C A (Some script_hash) NEP2_ADDRESS_BUFFER_LEN) (\<lambda>address.
            neoc_sha256_double C (Some (string_bytes address))))))"

definition neoc_nep2_encrypt ::
  "crypto \<Rightarrow> allocator \<Rightarrow> interop_table \<Rightarrow> base_mul \<Rightarrow> ciphers \<Rightarrow> byte list option \<Rightarrow> string option \<Rightarrow> neoc_nep2_params option \<Rightarrow> nat \<Rightarrow> string result" where
  "neoc_nep2_encrypt C A T G E private_key password params encrypted_key_len =
     (case (private_key, password) of
        (Some key, Some pass) \<Rightarrow>
          if encrypted_key_len < NEP2_ENCODED_SIZE then Err NEOC_ERROR_BUFFER_TOO_SMALL
          else
            bind_r (neoc_ec_key_pair_create_from_private_key A G (Some key)) (\<lambda>kp.
              case kp_public_key kp of
                None \<Rightarrow> Err NEOC_ERROR_INVALID_STATE
              | Some pk \<Rightarrow>
                  let is_compressed = pk_is_compressed pk in
                  bind_r (nep2_address_hash C A T pk is_compressed) (\<lambda>address_hash.
                    let salt = take 4 address_hash in
                    bind_r (derive_key E pass salt params) (\<lambda>derived_key.
                      case aes_encrypt E (drop 32 derived_key) (xor_bytes (take 32 key) (take 32 derived_key)) of
                        None \<Rightarrow> Err NEOC_ERROR_CRYPTO
                      | Some ciphertext \<Rightarrow>
                          let nep2_data = [NEP2_PREFIX_1, NEP2_PREFIX_2, if is_compressed then NEP2_FLAG_COMPRESSED else NEP2_FLAG_UNCOMPRESSED]
                                @ salt @ take 32 ciphertext in
                          neoc_base58_check_encode C A (Some nep2_data) encrypted_key_len)))
      | _ \<Rightarrow> Err NEOC_ERROR_INVALID_ARGUMENT)"

definition neoc_nep2_decrypt ::
  "crypto \<Rightarrow> allocator \<Rightarrow> interop_table \<Rightarrow> base_mul \<Rightarrow> ciphers \<Rightarrow> string option \<Rightarrow> string option \<Rightarrow> neoc_nep2_params option \<Rightarrow> nat \<Rightarrow> byte list result" where
  "neoc_nep2_decrypt C A T G E encrypted_key password params private_key_len =
     (case (encrypted_key, password) of
        (Some s, Some pass) \<Rightarrow>
          if private_key_len < 32 then Err NEOC_ERROR_BUFFER_TOO_SMALL
          else
            (case neoc_base58_check_decode C A (Some s) NEP2_ENCRYPTED_SIZE of
               Fault \<Rightarrow> Fault
             | Err _ \<Rightarrow> Err NEOC_ERROR_INVALID_FORMAT
             | Ok nep2_data \<Rightarrow>
                 if length nep2_data \<noteq> NEP2_ENCRYPTED_SIZE then Err NEOC_ERROR_INVALID_FORMAT
                 else if nep2_data ! 0 \<noteq> NEP2_PREFIX_1 \<or> nep2_data ! 1 \<noteq> NEP2_PREFIX_2 then Err NEOC_ERROR_INVALID_FORMAT
                 else
                   let salt = take 4 (drop 3 nep2_data); encrypted = take 32 (drop 7 nep2_data) in
                   bind_r (derive_key E pass salt params) (\<lambda>derived_key.
                     case aes_decrypt E (drop 32 derived_key) encrypted of
                       None \<Rightarrow> Err NEOC_ERROR_CRYPTO
                     | Some decrypted \<Rightarrow>
                         let private_key = xor_bytes (take 32 decrypted) (take 32 derived_key) in
                         (case neoc_ec_key_pair_create_from_private_key A G (Some private_key) of
                            Fault \<Rightarrow> Fault
                          | Err _ \<Rightarrow> Err NEOC_ERROR_INVALID_PASSWORD
                          | Ok kp \<Rightarrow>
                              (case kp_public_key kp of
                                 None \<Rightarrow> Err NEOC_ERROR_INVALID_STATE
                               | Some pk \<Rightarrow>
                                   if nep2_data ! 2 \<noteq> NEP2_FLAG_COMPRESSED \<and> nep2_data ! 2 \<noteq> NEP2_FLAG_UNCOMPRESSED then Err NEOC_ERROR_INVALID_FORMAT
                                   else
                                     bind_r (nep2_address_hash C A T pk (nep2_data ! 2 = NEP2_FLAG_COMPRESSED)) (\<lambda>address_hash.
                                       if salt \<noteq> take 4 address_hash then Err NEOC_ERROR_INVALID_PASSWORD else Ok private_key)))))
      | _ \<Rightarrow> Err NEOC_ERROR_INVALID_ARGUMENT)"

definition neoc_nep2_decrypt_key_pair ::
  "crypto \<Rightarrow> allocator \<Rightarrow> interop_table \<Rightarrow> base_mul \<Rightarrow> ciphers \<Rightarrow> string option \<Rightarrow> string option \<Rightarrow> neoc_nep2_params option \<Rightarrow> neoc_ec_key_pair result" where
  "neoc_nep2_decrypt_key_pair C A T G E encrypted_key password params =
     bind_r (neoc_nep2_decrypt C A T G E encrypted_key password params 32) (\<lambda>private_key.
       neoc_ec_key_pair_create_from_private_key A G (Some private_key))"

definition neoc_nep2_encrypt_key_pair ::
  "crypto \<Rightarrow> allocator \<Rightarrow> interop_table \<Rightarrow> base_mul \<Rightarrow> ciphers \<Rightarrow> neoc_ec_key_pair option \<Rightarrow> string option \<Rightarrow> neoc_nep2_params option \<Rightarrow> string result" where
  "neoc_nep2_encrypt_key_pair C A T G E key_pair password params =
     (case key_pair of
        None \<Rightarrow> Err NEOC_ERROR_INVALID_ARGUMENT
      | Some kp \<Rightarrow>
          bind_r (neoc_ec_key_pair_get_private_key (Some kp) 32) (\<lambda>private_key.
          bind_r (malloc_r A (NEP2_ENCODED_SIZE + 2)) (\<lambda>_.
            neoc_nep2_encrypt C A T G E (Some private_key) password params (NEP2_ENCODED_SIZE + 2))))"

definition neoc_nep2_verify_password ::
  "crypto \<Rightarrow> allocator \<Rightarrow> interop_table \<Rightarrow> base_mul \<Rightarrow> ciphers \<Rightarrow> string option \<Rightarrow> string option \<Rightarrow> neoc_nep2_params option \<Rightarrow> bool result" where
  "neoc_nep2_verify_password C A T G E encrypted_key password params =
     (case neoc_nep2_decrypt C A T G E encrypted_key password params 32 of Ok _ \<Rightarrow> Ok True | Err _ \<Rightarrow> Ok False | Fault \<Rightarrow> Fault)"

definition neoc_nep2_is_valid_format :: "crypto \<Rightarrow> allocator \<Rightarrow> string option \<Rightarrow> bool result" where
  "neoc_nep2_is_valid_format C A encrypted_key =
     (case encrypted_key of
        None \<Rightarrow> Ok False
      | Some s \<Rightarrow>
          if length s \<noteq> NEP2_ENCODED_SIZE then Ok False
          else (case neoc_base58_check_decode C A (Some s) NEP2_ENCRYPTED_SIZE of
                  Fault \<Rightarrow> Fault
                | Err _ \<Rightarrow> Ok False
                | Ok decoded \<Rightarrow>
                    if length decoded \<noteq> NEP2_ENCRYPTED_SIZE then Ok False
                    else Ok (decoded ! 0 = NEP2_PREFIX_1 \<and> decoded ! 1 = NEP2_PREFIX_2)))"

subsection \<open>Lemmas\<close>

text \<open>
  What the code relies on.  OpenSSL's scrypt accepts a cost that is a power of two above one and below \<open>2 ^ (16 * r)\<close>, a positive block size and
  parallelisation, and working memory of at most 1025 MiB, which is its default limit; within these limits a key of the 64 bytes asked for is
  derived, outside them the derivation fails, and \<open>derive_key\<close> with it.  AES-256 without padding, with a key of 32 bytes, turns 32 bytes into
  32 bytes and back.
\<close>

definition scrypt_admits :: "neoc_nep2_params \<Rightarrow> bool" where
  "scrypt_admits p \<longleftrightarrow> 1 < n2_n p \<and> n2_n p AND (n2_n p - 1) = 0 \<and> 0 < n2_r p \<and> 0 < n2_p p
     \<and> unat (n2_n p) < 2 ^ (16 * unat (n2_r p))
     \<and> 128 * unat (n2_r p) * (unat (n2_n p) + unat (n2_p p) + 2) \<le> 1025 * 1024 * 1024"

definition ciphers_ok :: "ciphers \<Rightarrow> bool" where
  "ciphers_ok E \<longleftrightarrow>
     (\<forall>w s p. if scrypt_admits p then \<exists>k. scrypt E w s p = Some k \<and> length k = 64 else scrypt E w s p = None)
     \<and> (\<forall>k m. length k = 32 \<and> length m = 32 \<longrightarrow> (\<exists>c. aes_encrypt E k m = Some c \<and> length c = 32 \<and> aes_decrypt E k c = Some m))"

abbreviation params_used :: "neoc_nep2_params option \<Rightarrow> neoc_nep2_params" where
  "params_used params \<equiv> (case params of None \<Rightarrow> NEOC_NEP2_DEFAULT_PARAMS | Some p \<Rightarrow> p)"

lemma default_params_admitted: "scrypt_admits NEOC_NEP2_DEFAULT_PARAMS" "scrypt_admits NEOC_NEP2_LIGHT_PARAMS"
  by (simp_all add: scrypt_admits_def NEOC_NEP2_DEFAULT_PARAMS_def NEOC_NEP2_LIGHT_PARAMS_def)

lemma derive_key_works:
  assumes "ciphers_ok E" and "scrypt_admits (params_used params)"
  obtains k where "derive_key E w s params = Ok k"
proof -
  obtain k where "scrypt E w s (params_used params) = Some k" "length k = 64" using assms unfolding ciphers_ok_def by meson
  then show thesis by (intro that [of k]) (simp add: derive_key_def)
qed

lemma derive_key_refused:
  assumes "ciphers_ok E" and "\<not> scrypt_admits p"
  shows "derive_key E w s (Some p) = Err NEOC_ERROR_CRYPTO"
proof -
  have "scrypt E w s p = None" using assms unfolding ciphers_ok_def by presburger
  then show ?thesis by (simp add: derive_key_def)
qed

lemma derive_key_length: "derive_key E w s params = Ok k \<Longrightarrow> length k = 64"
  by (auto simp: derive_key_def Let_def split: option.splits if_splits)

lemma aes_works:
  assumes "ciphers_ok E" and "length k = 32" and "length m = 32"
  obtains c where "aes_encrypt E k m = Some c" and "length c = 32" and "aes_decrypt E k c = Some m"
  using assms unfolding ciphers_ok_def by blast

lemma length_xor [simp]: "length (xor_bytes a b) = min (length a) (length b)"
  by (simp add: xor_bytes_def)

lemma xor_twice: "length a = length k \<Longrightarrow> xor_bytes (xor_bytes a k) k = a"
  by (induction a k rule: list_induct2) (simp_all add: xor_bytes_def xor.assoc)

lemma address_hash_works:
  assumes "crypto_works C" and "grants A 128" and "length (pk_compressed pk) = 33" and "length (pk_uncompressed pk) = 65"
  obtains h where "nep2_address_hash C A T pk b = Ok h" and "length h = 32"
proof -
  let ?len = "if b then 33 else 65 :: nat" and ?key = "if b then pk_compressed pk else pk_uncompressed pk"
  let ?script = "[NEOC_OP_PUSHDATA1, of_nat ?len] @ take ?len ?key @ [NEOC_OP_SYSCALL]
    @ le_bytes 4 (fst (neoc_interop_get_hash C NEOC_INTEROP_SYSTEM_CRYPTO_CHECKSIG T))"
  from assms(1) obtain sh where sh: "neoc_hash160_from_script C (Some ?script) = Ok sh" "length sh = 20" by (rule from_script_works)
  have "grants A (neoc_base58_check_encode_buffer_size 21)"
    using assms(2) by (simp add: grants_def neoc_base58_check_encode_buffer_size_def neoc_base58_encode_buffer_size_def NEOC_BASE58_CHECKSUM_LENGTH_def)
  then obtain a where a: "neoc_hash160_to_address C A (Some sh) 64 = Ok a" using to_address_Ok [OF assms(1) _ sh(2), of A 64] by auto
  obtain h where h: "neoc_sha256_double C (Some (string_bytes a)) = Ok h" "length h = 32" using sha256_double_works [OF assms(1)] by blast
  have "A (2 + ?len + 1 + 4)" using grantsD [OF assms(2)] by simp
  moreover have "\<not> length ?key < ?len" using assms(3,4) by simp
  ultimately have "nep2_address_hash C A T pk b = Ok h"
    using sh(1) a h(1) unfolding nep2_address_hash_def Let_def NEP2_ADDRESS_BUFFER_LEN_def by (simp del: take_all)
  with h(2) show thesis by (intro that)
qed

lemma be_val_acc: "be_val b v ds = v * b ^ length ds + be_val b 0 ds"
proof (induction ds arbitrary: v)
  case (Cons d ds)
  show ?case using Cons.IH [of "v * b + d"] Cons.IH [of d] by (simp add: be_val_Cons algebra_simps)
qed (simp add: be_val_def)

text \<open>The prefix makes every encrypted key a text of 58 characters.\<close>

lemma nep2_text_length:
  assumes "length bs = 41"
  shows "length (b58_text (NEP2_PREFIX_1 # NEP2_PREFIX_2 # bs)) = 58"
proof -
  let ?v = "be_val 256 0 (map unat (NEP2_PREFIX_1 # NEP2_PREFIX_2 # bs))" and ?r = "be_val 256 0 (map unat bs)"
  have "?r < 256 ^ 41"
    using be_val_less [of 256 "map unat bs"] assms unsigned_less [where ?'a = nat and ?'b = 8] by (simp add: list_all_iff)
  moreover have v: "?v = 322 * 256 ^ 41 + ?r"
    using be_val_acc [of 256 322 "map unat bs"] assms by (simp add: be_val_Cons nep2_consts)
  ultimately have "?v < 58 ^ 58" "\<not> ?v < 58 ^ 57" unfolding v by simp_all
  then have "length (digits 58 ?v) \<le> 58" "\<not> length (digits 58 ?v) \<le> 57" unfolding length_digits_le [of 58, simplified] by blast+
  then have "length (digits 58 ?v) = 58" by simp
  then show ?thesis by (simp add: b58_text_def nep2_consts)
qed

lemma nep2_buffer: "neoc_base58_check_encode_buffer_size 39 = 61"
  by (simp add: neoc_base58_check_encode_buffer_size_def neoc_base58_encode_buffer_size_def NEOC_BASE58_CHECKSUM_LENGTH_def)

lemma nep2_encode:
  assumes "crypto_works C" and "grants A 128" and "length bs = 37" and "p = NEP2_PREFIX_1 # NEP2_PREFIX_2 # bs"
  obtains s where "\<And>n. neoc_base58_check_encode C A (Some p) n = (if n < 59 then Err NEOC_ERROR_BUFFER_TOO_SMALL else Ok s)"
    and "neoc_base58_check_decode C A (Some s) 39 = Ok p" and "length s = 58" and "no_nul s"
proof -
  have l: "length p = 39" using assms(3,4) by simp
  have g: "grants A (neoc_base58_check_encode_buffer_size (length p))" unfolding l nep2_buffer using assms(2) by (auto simp: grants_def)
  obtain hash where h: "neoc_sha256_double C (Some p) = Ok hash" "length hash = 32" using sha256_double_works [OF assms(1)] by blast
  let ?s = "b58_text (p @ take 4 hash)"
  have s: "length ?s = 58" using nep2_text_length [of "bs @ take 4 hash"] assms(3,4) h(2) by simp
  have "A 43" "A (43 * 138 div 100 + 1)" using grantsD [OF assms(2)] by simp_all
  moreover have "length (p @ take 4 hash) = 43" "p @ take 4 hash \<noteq> []" using l h(2) by auto
  ultimately have "neoc_base58_check_encode C A (Some p) n = (if n < 59 then Err NEOC_ERROR_BUFFER_TOO_SMALL else Ok ?s)" for n
    using h(1) s l by (simp add: neoc_base58_check_encode_def neoc_base58_encode_eq)
  moreover have "neoc_base58_check_decode C A (Some ?s) 39 = Ok p" using check_decode_text [OF h g, of 39] l by simp
  ultimately show thesis using s no_nul_text by (intro that)
qed

text \<open>The data of an encrypted key and what comes out of it.\<close>

lemma key_pair_address:
  assumes "crypto_works C" and "grants A 128" and "neoc_ec_key_pair_create_from_private_key A G (Some key) = Ok kp"
  obtains pk h where "kp_public_key kp = Some pk" and "pk_is_compressed pk" and "32 \<le> length key"
    and "nep2_address_hash C A T pk True = Ok h" and "length h = 32"
proof -
  from assms(3) obtain pk where pk: "kp_public_key kp = Some pk" "pk_is_compressed pk" "length (pk_compressed pk) = 33"
    "length (pk_uncompressed pk) = 65" "32 \<le> length key"
    by (auto simp: neoc_ec_key_pair_create_from_private_key_def bind_r_Ok_iff split: if_splits option.splits)
  from assms(1,2) pk(3,4) obtain h where "nep2_address_hash C A T pk True = Ok h" "length h = 32" by (rule address_hash_works)
  with pk(1,2,5) show thesis by (intro that)
qed

lemma nep2_encrypt_eq:
  assumes "neoc_ec_key_pair_create_from_private_key A G (Some key) = Ok kp" and "kp_public_key kp = Some pk" and "pk_is_compressed pk"
    and "nep2_address_hash C A T pk True = Ok h" and "58 \<le> n"
  shows "neoc_nep2_encrypt C A T G E (Some key) (Some pass) params n =
    bind_r (derive_key E pass (take 4 h) params) (\<lambda>k.
      case aes_encrypt E (drop 32 k) (xor_bytes (take 32 key) (take 32 k)) of
        None \<Rightarrow> Err NEOC_ERROR_CRYPTO
      | Some c \<Rightarrow> neoc_base58_check_encode C A (Some ([NEP2_PREFIX_1, NEP2_PREFIX_2, NEP2_FLAG_COMPRESSED] @ take 4 h @ take 32 c)) n)"
  using assms by (simp add: neoc_nep2_encrypt_def NEP2_ENCODED_SIZE_def Let_def cong: option.case_cong)

lemma nep2_encrypt_data:
  assumes "ciphers_ok E" and "neoc_ec_key_pair_create_from_private_key A G (Some key) = Ok kp" and "kp_public_key kp = Some pk"
    and "pk_is_compressed pk" and "nep2_address_hash C A T pk True = Ok h" and "32 \<le> length key"
    and "derive_key E pass (take 4 h) params = Ok k"
  obtains c where "length c = 32" and "aes_decrypt E (drop 32 k) c = Some (xor_bytes (take 32 key) (take 32 k))"
    and "\<And>n. 58 \<le> n \<Longrightarrow> neoc_nep2_encrypt C A T G E (Some key) (Some pass) params n
      = neoc_base58_check_encode C A (Some ([NEP2_PREFIX_1, NEP2_PREFIX_2, NEP2_FLAG_COMPRESSED] @ take 4 h @ c)) n"
proof -
  have k: "length k = 64" using assms(7) by (rule derive_key_length)
  then have "length (drop 32 k) = 32" "length (xor_bytes (take 32 key) (take 32 k)) = 32" using assms(6) by simp_all
  with assms(1) obtain c where c: "aes_encrypt E (drop 32 k) (xor_bytes (take 32 key) (take 32 k)) = Some c" "length c = 32"
    "aes_decrypt E (drop 32 k) c = Some (xor_bytes (take 32 key) (take 32 k))" by (rule aes_works)
  have "neoc_nep2_encrypt C A T G E (Some key) (Some pass) params n
      = neoc_base58_check_encode C A (Some ([NEP2_PREFIX_1, NEP2_PREFIX_2, NEP2_FLAG_COMPRESSED] @ take 4 h @ c)) n" if "58 \<le> n" for n
    using nep2_encrypt_eq [OF assms(2-5) that, of E pass params] assms(7) c(1,2) by simp
  with c(2,3) show thesis by (intro that)
qed

lemma nep2_decrypt_eq:
  assumes "neoc_base58_check_decode C A (Some s) 39 = Ok q" and "length q = 39" and "q ! 0 = NEP2_PREFIX_1" and "q ! 1 = NEP2_PREFIX_2"
    and "q ! 2 = NEP2_FLAG_COMPRESSED" and "32 \<le> m"
  shows "neoc_nep2_decrypt C A T G E (Some s) (Some pass) params m =
    bind_r (derive_key E pass (take 4 (drop 3 q)) params) (\<lambda>k.
      case aes_decrypt E (drop 32 k) (take 32 (drop 7 q)) of
        None \<Rightarrow> Err NEOC_ERROR_CRYPTO
      | Some d \<Rightarrow>
          (case neoc_ec_key_pair_create_from_private_key A G (Some (xor_bytes (take 32 d) (take 32 k))) of
             Fault \<Rightarrow> Fault
           | Err _ \<Rightarrow> Err NEOC_ERROR_INVALID_PASSWORD
           | Ok kp \<Rightarrow>
               (case kp_public_key kp of
                  None \<Rightarrow> Err NEOC_ERROR_INVALID_STATE
                | Some pk \<Rightarrow>
                    bind_r (nep2_address_hash C A T pk True) (\<lambda>h.
                      if take 4 (drop 3 q) \<noteq> take 4 h then Err NEOC_ERROR_INVALID_PASSWORD
                      else Ok (xor_bytes (take 32 d) (take 32 k))))))"
  using assms by (simp add: neoc_nep2_decrypt_def NEP2_ENCRYPTED_SIZE_def Let_def cong: option.case_cong result.case_cong)

lemma nep2_decrypt_Ok:
  assumes "neoc_base58_check_decode C A (Some s) 39 = Ok q" and "length q = 39" and "q ! 0 = NEP2_PREFIX_1" and "q ! 1 = NEP2_PREFIX_2"
    and "q ! 2 = NEP2_FLAG_COMPRESSED" and "neoc_nep2_decrypt C A T G E (Some s) (Some pass) params m = Ok key"
  obtains kp pk h where "neoc_ec_key_pair_create_from_private_key A G (Some key) = Ok kp" and "kp_public_key kp = Some pk"
    and "nep2_address_hash C A T pk True = Ok h" and "take 4 (drop 3 q) = take 4 h"
proof -
  have "32 \<le> m" using assms(6) by (auto simp: neoc_nep2_decrypt_def split: if_splits)
  note eq = trans [OF nep2_decrypt_eq [OF assms(1-5) this, of T G E pass params, symmetric] assms(6)]
  from eq obtain k where k: "(case aes_decrypt E (drop 32 k) (take 32 (drop 7 q)) of
        None \<Rightarrow> Err NEOC_ERROR_CRYPTO
      | Some d \<Rightarrow>
          (case neoc_ec_key_pair_create_from_private_key A G (Some (xor_bytes (take 32 d) (take 32 k))) of
             Fault \<Rightarrow> Fault
           | Err _ \<Rightarrow> Err NEOC_ERROR_INVALID_PASSWORD
           | Ok kp \<Rightarrow>
               (case kp_public_key kp of
                  None \<Rightarrow> Err NEOC_ERROR_INVALID_STATE
                | Some pk \<Rightarrow>
                    bind_r (nep2_address_hash C A T pk True) (\<lambda>h.
                      if take 4 (drop 3 q) \<noteq> take 4 h then Err NEOC_ERROR_INVALID_PASSWORD
                      else Ok (xor_bytes (take 32 d) (take 32 k)))))) = Ok key" unfolding bind_r_Ok_iff by blast
  then obtain d kp where d: "(case kp_public_key kp of None \<Rightarrow> Err NEOC_ERROR_INVALID_STATE
      | Some pk \<Rightarrow> bind_r (nep2_address_hash C A T pk True) (\<lambda>h. if take 4 (drop 3 q) \<noteq> take 4 h then Err NEOC_ERROR_INVALID_PASSWORD
          else Ok (xor_bytes (take 32 d) (take 32 k)))) = Ok key"
      "neoc_ec_key_pair_create_from_private_key A G (Some (xor_bytes (take 32 d) (take 32 k))) = Ok kp"
    by (cases "aes_decrypt E (drop 32 k) (take 32 (drop 7 q))") (auto split: result.splits)
  then obtain pk h where pk: "kp_public_key kp = Some pk" "nep2_address_hash C A T pk True = Ok h" "take 4 (drop 3 q) = take 4 h"
      "key = xor_bytes (take 32 d) (take 32 k)"
    by (cases "kp_public_key kp") (auto simp: bind_r_Ok_iff split: if_splits)
  show thesis using d(2) pk(1-3) unfolding pk(4) [symmetric] by (rule that)
qed

lemma unat_exp: "k < 32 \<Longrightarrow> unat (2 ^ k :: u32) = 2 ^ k"
proof -
  assume "k < 32"
  then have "take_bit 32 (2 ^ k :: nat) = 2 ^ k" by (simp add: take_bit_nat_eq_self)
  then have "unat (of_nat (2 ^ k) :: u32) = 2 ^ k" by (simp only: unsigned_of_nat) simp
  then show ?thesis by simp
qed

lemma and_pred_zero_iff:
  fixes n :: u32
  shows "n \<noteq> 0 \<and> n AND (n - 1) = 0 \<longleftrightarrow> (\<exists>k < 32. n = 2 ^ k)"
proof
  assume n: "n \<noteq> 0 \<and> n AND (n - 1) = 0"
  then have "1 \<le> unat n" by (simp add: Suc_le_eq unat_gt_0)
  from ex_power_ivl1 [OF _ this, of 2] obtain k where k: "2 ^ k \<le> unat n" "unat n < 2 ^ Suc k" by auto
  have bitk: "bit m k" if "2 ^ k \<le> unat m" "unat m < 2 ^ Suc k" for m :: u32
  proof -
    have "unat m div 2 ^ k = 1" using that by (simp add: div_nat_eqI)
    then have "bit (unat m) k" by (simp add: bit_iff_odd)
    then show ?thesis by (simp add: bit_unsigned_iff)
  qed
  have "2 ^ k < (2 :: nat) ^ 32" using k(1) unsigned_less [of n, where ?'a = nat] by (simp add: le_less_trans)
  then have k32: "k < 32" by (rule power_less_imp_less_exp [rotated]) simp
  have "unat n = 2 ^ k"
  proof (rule ccontr)
    assume "unat n \<noteq> 2 ^ k"
    moreover have "unat (n - 1) = unat n - 1" using n by (simp add: unat_minus_one)
    ultimately have "bit (n - 1) k" "bit n k" using k by (auto intro!: bitk)
    then have "bit (n AND (n - 1)) k" by (simp add: bit_and_iff)
    with n show False by simp
  qed
  then have "n = 2 ^ k" using unat_exp [OF k32] by (simp add: word_unat_eq_iff)
  with k32 show "\<exists>k < 32. n = 2 ^ k" by blast
next
  assume "\<exists>k < 32. n = 2 ^ k"
  then obtain k where k: "k < 32" "n = 2 ^ k" by blast
  have "bit n j \<longleftrightarrow> j = k" "bit (n - 1) j \<longleftrightarrow> j < k" if "j < 32" for j
    using k that by (auto simp: bit_exp_iff mask_eq_exp_minus_1 [symmetric] bit_mask_iff)
  then have "n AND (n - 1) = 0" by (intro bit_word_eqI) (auto simp: bit_and_iff)
  moreover have "n \<noteq> 0" using k by simp
  ultimately show "n \<noteq> 0 \<and> n AND (n - 1) = 0" by simp
qed

lemma scrypt_params_create_iff:
  "(\<exists>s. neoc_scrypt_params_create A n r p dk_len = Ok s) \<longleftrightarrow> (\<exists>k. 10 \<le> k \<and> k < 32 \<and> n = 2 ^ k) \<and> r \<noteq> 0 \<and> p \<noteq> 0 \<and> A 16"
proof -
  have "\<not> n < 1024 \<and> n AND (n - 1) = 0 \<longleftrightarrow> (\<exists>k. 10 \<le> k \<and> k < 32 \<and> n = 2 ^ k)"
  proof -
    have ge: "(2 ^ k :: u32) < 1024 \<longleftrightarrow> k < 10" if "k < 32" for k
    proof -
      have "unat (2 ^ k :: u32) = 2 ^ k" using unat_exp [OF that] .
      moreover have "(2 :: nat) ^ k < 2 ^ 10 \<longleftrightarrow> k < 10" by (rule power_strict_increasing_iff) simp
      ultimately show ?thesis by (auto simp: word_less_nat_alt)
    qed
    have "n \<noteq> 0" if "\<not> n < 1024" using that by auto
    then have "\<not> n < 1024 \<and> n AND (n - 1) = 0 \<longleftrightarrow> \<not> n < 1024 \<and> (\<exists>k < 32. n = 2 ^ k)" using and_pred_zero_iff [of n] by blast
    also have "\<dots> \<longleftrightarrow> (\<exists>k. 10 \<le> k \<and> k < 32 \<and> n = 2 ^ k)" using ge by (metis not_less)
    finally show ?thesis .
  qed
  then show ?thesis by (cases "A 16") (auto simp: neoc_scrypt_params_create_def)
qed

lemma nep2_works:
  assumes "crypto_works C" and "ciphers_ok E" and "grants A 128" and "neoc_ec_key_pair_create_from_private_key A G (Some key) = Ok kp" and "59 \<le> n"
    and "scrypt_admits (params_used params)"
  shows "\<exists>s. neoc_nep2_encrypt C A T G E (Some key) (Some pass) params n = Ok s \<and> length s = 58 \<and> no_nul s
    \<and> neoc_nep2_is_valid_format C A (Some s) = Ok True
    \<and> neoc_nep2_decrypt C A T G E (Some s) (Some pass) params 32 = Ok (take 32 key)
    \<and> neoc_nep2_verify_password C A T G E (Some s) (Some pass) params = Ok True
    \<and> neoc_nep2_encrypt_key_pair C A T G E (Some kp) (Some pass) params = Ok s
    \<and> neoc_nep2_decrypt_key_pair C A T G E (Some s) (Some pass) params = Ok kp
    \<and> neoc_nep2_encrypt C A T G E (Some key) (Some pass) params 58 = Err NEOC_ERROR_BUFFER_TOO_SMALL
    \<and> (\<forall>p'. \<not> scrypt_admits p' \<longrightarrow>
          neoc_nep2_encrypt C A T G E (Some key) (Some pass) (Some p') n = Err NEOC_ERROR_CRYPTO
          \<and> neoc_nep2_decrypt C A T G E (Some s) (Some pass) (Some p') 32 = Err NEOC_ERROR_CRYPTO)"
proof -
  note kp = key_pair_wif [OF assms(4)]
  from assms(1,3,4) obtain pk h where pk: "kp_public_key kp = Some pk" "pk_is_compressed pk" "32 \<le> length key"
    "nep2_address_hash C A T pk True = Ok h" "length h = 32" by (rule key_pair_address)
  from assms(2,6) obtain k where k: "derive_key E pass (take 4 h) params = Ok k" by (rule derive_key_works)
  obtain c where c: "length c = 32" "aes_decrypt E (drop 32 k) c = Some (xor_bytes (take 32 key) (take 32 k))"
    and enc: "\<And>n. 58 \<le> n \<Longrightarrow> neoc_nep2_encrypt C A T G E (Some key) (Some pass) params n
      = neoc_base58_check_encode C A (Some ([NEP2_PREFIX_1, NEP2_PREFIX_2, NEP2_FLAG_COMPRESSED] @ take 4 h @ c)) n"
    using nep2_encrypt_data [OF assms(2,4) pk(1,2,4,3) k] by blast
  note e = pk(1,4,5) k c(1,2) derive_key_length [OF k]
  let ?p = "[NEP2_PREFIX_1, NEP2_PREFIX_2, NEP2_FLAG_COMPRESSED] @ take 4 h @ c"
  have "length (NEP2_FLAG_COMPRESSED # take 4 h @ c) = 37" using e(3,5) by simp
  from nep2_encode [OF assms(1,3) this, of ?p] obtain s where
    s: "\<And>n. neoc_base58_check_encode C A (Some ?p) n = (if n < 59 then Err NEOC_ERROR_BUFFER_TOO_SMALL else Ok s)"
    "neoc_base58_check_decode C A (Some s) 39 = Ok ?p" "length s = 58" "no_nul s" by auto
  have p: "take 4 (drop 3 ?p) = take 4 h" "take 32 (drop 7 ?p) = c" "length ?p = 39" "?p ! 2 = NEP2_FLAG_COMPRESSED"
    "?p ! 0 = NEP2_PREFIX_1" "?p ! 1 = NEP2_PREFIX_2"
    using e(3,5) by (simp_all add: drop_Cons' numeral_2_eq_2)
  have "xor_bytes (take 32 (xor_bytes (take 32 key) (take 32 k))) (take 32 k) = take 32 key"
    using kp(1) e(7) by (simp add: xor_twice)
  then have dec: "neoc_nep2_decrypt C A T G E (Some s) (Some pass) params 32 = Ok (take 32 key)"
    using nep2_decrypt_eq [OF s(2) p(3,5,6,4), of 32 T G E pass params] unfolding p(1,2) using e(1,2,4,6) kp(3) by simp
  have "neoc_nep2_encrypt C A T G E (Some (take 32 key)) (Some pass) params 60 = neoc_nep2_encrypt C A T G E (Some key) (Some pass) params 60"
    using assms(4) kp(3) by (simp add: neoc_nep2_encrypt_def Let_def cong: option.case_cong)
  moreover have "A 60" using grantsD [OF assms(3)] by simp
  ultimately have "neoc_nep2_encrypt_key_pair C A T G E (Some kp) (Some pass) params = Ok s"
    using kp(2) enc [of 60] s(1) by (simp add: neoc_nep2_encrypt_key_pair_def neoc_ec_key_pair_get_private_key_def NEP2_ENCODED_SIZE_def)
  moreover have "neoc_nep2_is_valid_format C A (Some s) = Ok True"
    using s(2,3) p(3) by (simp add: neoc_nep2_is_valid_format_def nep2_consts)
  moreover have "neoc_nep2_encrypt C A T G E (Some key) (Some pass) (Some p') n = Err NEOC_ERROR_CRYPTO
      \<and> neoc_nep2_decrypt C A T G E (Some s) (Some pass) (Some p') 32 = Err NEOC_ERROR_CRYPTO" if "\<not> scrypt_admits p'" for p'
    using nep2_encrypt_eq [OF assms(4) pk(1,2,4), of n E pass "Some p'"] nep2_decrypt_eq [OF s(2) p(3,5,6,4), of 32 T G E pass "Some p'"]
      derive_key_refused [OF assms(2) that] assms(5) by simp
  ultimately show ?thesis using dec kp(3) s assms(5) enc [of n] enc [of 58]
    by (simp add: neoc_nep2_verify_password_def neoc_nep2_decrypt_key_pair_def)
qed

subsection \<open>Properties\<close>

text \<open>C10.  With scrypt parameters within OpenSSL's documented limits, encrypting a private key and decrypting it with the same password gives the
  key back, for single keys and for key pairs; with parameters outside them both directions return \<^verbatim>\<open>NEOC_ERROR_CRYPTO\<close>.  The
  text has 58 characters, none of them zero, and is recognised.  A buffer of 58 bytes, which the length check admits, has no room for the final zero and is refused.\<close>

theorem nep2_roundtrip:
  assumes "crypto_works C" and "ciphers_ok E" and "grants A 128" and "neoc_ec_key_pair_create_from_private_key A G (Some key) = Ok kp" and "59 \<le> n"
    and "scrypt_admits (params_used params)"
  shows "\<exists>s. neoc_nep2_encrypt C A T G E (Some key) (Some pass) params n = Ok s \<and> length s = 58 \<and> no_nul s
    \<and> neoc_nep2_is_valid_format C A (Some s) = Ok True
    \<and> neoc_nep2_decrypt C A T G E (Some s) (Some pass) params 32 = Ok (take 32 key)
    \<and> neoc_nep2_verify_password C A T G E (Some s) (Some pass) params = Ok True
    \<and> neoc_nep2_encrypt_key_pair C A T G E (Some kp) (Some pass) params = Ok s
    \<and> neoc_nep2_decrypt_key_pair C A T G E (Some s) (Some pass) params = Ok kp
    \<and> neoc_nep2_encrypt C A T G E (Some key) (Some pass) params 58 = Err NEOC_ERROR_BUFFER_TOO_SMALL
    \<and> (\<forall>p'. \<not> scrypt_admits p' \<longrightarrow>
          neoc_nep2_encrypt C A T G E (Some key) (Some pass) (Some p') n = Err NEOC_ERROR_CRYPTO
          \<and> neoc_nep2_decrypt C A T G E (Some s) (Some pass) (Some p') 32 = Err NEOC_ERROR_CRYPTO)"
  using assms by (rule nep2_works)

text \<open>C11.  The password is checked: when a key was encrypted, with whatever parameters the derivation accepted, and the text is decrypted with
  whatever password and parameters and a key comes out, the address of
  that key has a digest with the same first four bytes as the address of the key that was encrypted.\<close>

theorem nep2_password_checked:
  assumes "crypto_works C" and "ciphers_ok E" and "grants A 128" and "neoc_ec_key_pair_create_from_private_key A G (Some key) = Ok kp"
    and "neoc_nep2_encrypt C A T G E (Some key) (Some pass) params n = Ok s"
    and "neoc_nep2_decrypt C A T G E (Some s) (Some pass') params' m = Ok key'"
  shows "\<exists>pk kp' pk' h h'. kp_public_key kp = Some pk \<and> nep2_address_hash C A T pk True = Ok h
    \<and> neoc_ec_key_pair_create_from_private_key A G (Some key') = Ok kp' \<and> kp_public_key kp' = Some pk'
    \<and> nep2_address_hash C A T pk' True = Ok h' \<and> take 4 h = take 4 h'"
proof -
  from assms(1,3,4) obtain pk h where pk: "kp_public_key kp = Some pk" "pk_is_compressed pk" "32 \<le> length key"
    "nep2_address_hash C A T pk True = Ok h" "length h = 32" by (rule key_pair_address)
  have "58 \<le> n" using assms(5) by (auto simp: neoc_nep2_encrypt_def NEP2_ENCODED_SIZE_def split: if_splits)
  from nep2_encrypt_eq [OF assms(4) pk(1,2,4) this, of E pass params] assms(5)
  obtain k where k: "derive_key E pass (take 4 h) params = Ok k" by (cases "derive_key E pass (take 4 h) params") simp_all
  obtain c where c: "length c = 32" "aes_decrypt E (drop 32 k) c = Some (xor_bytes (take 32 key) (take 32 k))"
    and enc: "\<And>n. 58 \<le> n \<Longrightarrow> neoc_nep2_encrypt C A T G E (Some key) (Some pass) params n
      = neoc_base58_check_encode C A (Some ([NEP2_PREFIX_1, NEP2_PREFIX_2, NEP2_FLAG_COMPRESSED] @ take 4 h @ c)) n"
    using nep2_encrypt_data [OF assms(2,4) pk(1,2,4,3) k] by blast
  note e = pk(1,4,5) k c(1,2) derive_key_length [OF k]
  let ?p = "[NEP2_PREFIX_1, NEP2_PREFIX_2, NEP2_FLAG_COMPRESSED] @ take 4 h @ c"
  have "length (NEP2_FLAG_COMPRESSED # take 4 h @ c) = 37" using e(3,5) by simp
  from nep2_encode [OF assms(1,3) this, of ?p] obtain t where
    t: "\<And>n. neoc_base58_check_encode C A (Some ?p) n = (if n < 59 then Err NEOC_ERROR_BUFFER_TOO_SMALL else Ok t)"
    "neoc_base58_check_decode C A (Some t) 39 = Ok ?p" by auto
  have st: "s = t" using enc [OF \<open>58 \<le> n\<close>] t(1) assms(5) by (auto split: if_splits)
  have p: "take 4 (drop 3 ?p) = take 4 h" "length ?p = 39" "?p ! 2 = NEP2_FLAG_COMPRESSED" "?p ! 0 = NEP2_PREFIX_1" "?p ! 1 = NEP2_PREFIX_2"
    using e(3,5) by (simp_all add: drop_Cons' numeral_2_eq_2)
  have "neoc_base58_check_decode C A (Some s) 39 = Ok ?p" using t(2) unfolding st .
  from nep2_decrypt_Ok [OF this p(2,4,5,3) assms(6)] obtain kp' pk' h' where "neoc_ec_key_pair_create_from_private_key A G (Some key') = Ok kp'"
    "kp_public_key kp' = Some pk'" "nep2_address_hash C A T pk' True = Ok h'" "take 4 (drop 3 ?p) = take 4 h'" by blast
  note this(1-3) this(4) [unfolded p(1)]
  with e(1,2) show ?thesis by blast
qed

definition demo_ciphers :: ciphers where
  "demo_ciphers = \<lparr>scrypt = (\<lambda>w s p. if scrypt_admits p then Some (replicate 64 (of_nat (length w))) else None),
      aes_encrypt = (\<lambda>k m. Some (rev m)), aes_decrypt = (\<lambda>k c. Some (rev c))\<rparr>"

lemma demo_ciphers_ok: "ciphers_ok demo_ciphers"
  by (simp add: ciphers_ok_def demo_ciphers_def)

lemma demo_key_pair:
  "neoc_ec_key_pair_create_from_private_key (\<lambda>_. True) demo_mul (Some (replicate 32 7)) = Ok \<lparr>kp_private_key = Some (replicate 32 7),
     kp_public_key = Some \<lparr>pk_compressed = 2 # replicate 32 5, pk_uncompressed = 4 # replicate 64 5, pk_is_compressed = True\<rparr>\<rparr>"
  by (simp add: neoc_ec_key_pair_create_from_private_key_def demo_mul_def)

theorem nep2_roundtrip_witness:
  "\<exists>s. neoc_nep2_encrypt toy_crypto (\<lambda>_. True) initial_interop_table demo_mul demo_ciphers (Some (replicate 32 7)) (Some ''pass'') None 64 = Ok s
     \<and> neoc_nep2_decrypt toy_crypto (\<lambda>_. True) initial_interop_table demo_mul demo_ciphers (Some s) (Some ''pass'') None 32 = Ok (replicate 32 7)"
  using nep2_roundtrip [OF toy_crypto_works demo_ciphers_ok _ demo_key_pair, of 64 None initial_interop_table "''pass''"] default_params_admitted(1) by auto

theorem nep2_password_checked_witness:
  "\<exists>s pk pk' h h'. neoc_nep2_encrypt toy_crypto (\<lambda>_. True) initial_interop_table demo_mul demo_ciphers (Some (replicate 32 7)) (Some ''pass'') None 64 = Ok s
     \<and> neoc_nep2_decrypt toy_crypto (\<lambda>_. True) initial_interop_table demo_mul demo_ciphers (Some s) (Some ''pass'') None 32 = Ok (replicate 32 7)
     \<and> nep2_address_hash toy_crypto (\<lambda>_. True) initial_interop_table pk True = Ok h \<and> nep2_address_hash toy_crypto (\<lambda>_. True) initial_interop_table pk' True = Ok h' \<and> take 4 h = take 4 h'"
proof -
  from nep2_works [OF toy_crypto_works demo_ciphers_ok _ demo_key_pair, of 64 None initial_interop_table "''pass''"] default_params_admitted(1) obtain s where
    s: "neoc_nep2_encrypt toy_crypto (\<lambda>_. True) initial_interop_table demo_mul demo_ciphers (Some (replicate 32 7)) (Some ''pass'') None 64 = Ok s"
    "neoc_nep2_decrypt toy_crypto (\<lambda>_. True) initial_interop_table demo_mul demo_ciphers (Some s) (Some ''pass'') None 32 = Ok (replicate 32 7)" by auto
  from nep2_password_checked [OF toy_crypto_works demo_ciphers_ok _ demo_key_pair this] s show ?thesis by auto
qed

end
