(* ===== verification/Account.thy ===== *)
theory Account
  imports Multi_Sig Nep2
begin

text \<open>
  \<^verbatim>\<open>wallet/account.c\<close>: accounts.  An account has an address and a script hash, and, depending on how it was made, a key pair, a verification
  script, an encrypted key or the data of a multi-signature account.  The conversions to and from NEP-6 are in \<^verbatim>\<open>Nep6\<close>.
\<close>

subsection \<open>The structure\<close>

datatype account_extra = Extra_None | Extra_Multisig neoc_multi_sig_account | Extra_Multisig_Info int int

record neoc_account =
  ac_label :: "string option"
  ac_address :: "string option"
  ac_script_hash :: neoc_hash160
  ac_key_pair :: "neoc_ec_key_pair option"
  ac_is_locked :: bool
  ac_is_default :: bool
  ac_encrypted_key :: "byte list option"
  ac_verification_script :: "byte list option"
  ac_extra :: account_extra

definition sizeof_account :: nat where "sizeof_account = 104"
definition NEOC_ADDRESS_LENGTH :: nat where "NEOC_ADDRESS_LENGTH = 64"

text \<open>What the constructors start from: the structure filled with zeros.\<close>

definition new_account :: neoc_account where
  "new_account = \<lparr>ac_label = None, ac_address = None, ac_script_hash = replicate 20 0, ac_key_pair = None, ac_is_locked = False,
     ac_is_default = False, ac_encrypted_key = None, ac_verification_script = None, ac_extra = Extra_None\<rparr>"

text \<open>The text that a C function sees in a block of bytes with a final zero, and the copy of a text.\<close>

definition c_text :: "byte list \<Rightarrow> string" where
  "c_text bs = map (\<lambda>b. char_of (unat b)) (takeWhile (\<lambda>b. b \<noteq> 0) bs)"

definition strdup_r :: "allocator \<Rightarrow> string \<Rightarrow> string result" where
  "strdup_r A s = bind_r (malloc_r A (length s + 1)) (\<lambda>_. Ok s)"

definition is_multisig_internal :: "neoc_account option \<Rightarrow> bool" where
  "is_multisig_internal account =
     (case account of
        None \<Rightarrow> False
      | Some a \<Rightarrow>
          (case ac_extra a of
             Extra_None \<Rightarrow> False
           | Extra_Multisig m \<Rightarrow> 0 < ms_threshold m \<and> ms_threshold m \<le> ms_public_key_count m \<and> 1 \<le> ms_public_key_count m
           | Extra_Multisig_Info threshold nr \<Rightarrow> 0 < threshold \<and> threshold \<le> nr \<and> 1 \<le> nr))"

definition neoc_account_clear_encrypted_key :: "neoc_account \<Rightarrow> neoc_account" where
  "neoc_account_clear_encrypted_key a = a\<lparr>ac_encrypted_key := None\<rparr>"

definition neoc_account_store_encrypted_key :: "allocator \<Rightarrow> string option \<Rightarrow> (neoc_account, unit) cmd" where
  "neoc_account_store_encrypted_key A encrypted_key a =
     (let a = (neoc_account_clear_encrypted_key a)\<lparr>ac_verification_script := None\<rparr> in
      case encrypted_key of
        None \<Rightarrow> (Ok (), a)
      | Some s \<Rightarrow>
          if \<not> A (length s + 1) then (Err NEOC_ERROR_OUT_OF_MEMORY, a)
          else (Ok (), a\<lparr>ac_encrypted_key := Some (string_bytes s)\<rparr>))"

subsection \<open>Making accounts\<close>

text \<open>The steps that the constructors share: hash of the script, address, label.\<close>

definition account_address :: "crypto \<Rightarrow> allocator \<Rightarrow> neoc_hash160 \<Rightarrow> string result" where
  "account_address C A script_hash =
     bind_r (malloc_r A NEOC_ADDRESS_LENGTH) (\<lambda>_. neoc_hash160_to_address C A (Some script_hash) NEOC_ADDRESS_LENGTH)"

definition key_pair_account ::
  "crypto \<Rightarrow> allocator \<Rightarrow> interop_table \<Rightarrow> string option \<Rightarrow> neoc_ec_key_pair \<Rightarrow> neoc_account result" where
  "key_pair_account C A T label kp =
     bind_r (neoc_ec_key_pair_get_public_key (Some kp) 65) (\<lambda>public_key.
     bind_r (neoc_script_create_single_sig_verification A C T (Some public_key)) (\<lambda>script.
     bind_r (neoc_hash160_from_script C (Some script)) (\<lambda>script_hash.
     bind_r (account_address C A script_hash) (\<lambda>address.
     bind_r (strdup_r A (case label of Some l \<Rightarrow> l | None \<Rightarrow> address)) (\<lambda>label.
       Ok (new_account\<lparr>ac_label := Some label, ac_address := Some address, ac_script_hash := script_hash, ac_key_pair := Some kp,
                       ac_verification_script := Some script\<rparr>))))))"

definition neoc_account_create_with_label ::
  "(nat \<Rightarrow> byte list option) \<Rightarrow> crypto \<Rightarrow> allocator \<Rightarrow> interop_table \<Rightarrow> base_mul \<Rightarrow> string option \<Rightarrow> neoc_account result" where
  "neoc_account_create_with_label R C A T G label =
     bind_r (malloc_r A sizeof_account) (\<lambda>_.
     bind_r (neoc_ec_key_pair_create_random R A G) (\<lambda>kp. key_pair_account C A T label kp))"

definition neoc_account_create_random ::
  "(nat \<Rightarrow> byte list option) \<Rightarrow> crypto \<Rightarrow> allocator \<Rightarrow> interop_table \<Rightarrow> base_mul \<Rightarrow> neoc_account result" where
  "neoc_account_create_random R C A T G = neoc_account_create_with_label R C A T G None"

definition neoc_account_create_from_key_pair_with_label ::
  "crypto \<Rightarrow> allocator \<Rightarrow> interop_table \<Rightarrow> base_mul \<Rightarrow> string option \<Rightarrow> neoc_ec_key_pair option \<Rightarrow> neoc_account result" where
  "neoc_account_create_from_key_pair_with_label C A T G label key_pair =
     (case key_pair of
        None \<Rightarrow> Err NEOC_ERROR_INVALID_ARGUMENT
      | Some source \<Rightarrow>
          bind_r (malloc_r A sizeof_account) (\<lambda>_.
          bind_r (neoc_ec_key_pair_get_private_key (Some source) 32) (\<lambda>private_key.
          bind_r (neoc_ec_key_pair_create_from_private_key A G (Some private_key)) (\<lambda>kp. key_pair_account C A T label kp))))"

definition neoc_account_create_from_wif_with_label ::
  "crypto \<Rightarrow> allocator \<Rightarrow> interop_table \<Rightarrow> base_mul \<Rightarrow> string option \<Rightarrow> string option \<Rightarrow> neoc_account result" where
  "neoc_account_create_from_wif_with_label C A T G label wif =
     (case wif of
        None \<Rightarrow> Err NEOC_ERROR_INVALID_ARGUMENT
      | Some s \<Rightarrow>
          bind_r (neoc_ec_key_pair_import_from_wif C A G (Some s)) (\<lambda>kp.
            neoc_account_create_from_key_pair_with_label C A T G label (Some kp)))"

definition neoc_account_create_from_nep2_with_label ::
  "crypto \<Rightarrow> allocator \<Rightarrow> interop_table \<Rightarrow> base_mul \<Rightarrow> ciphers \<Rightarrow> string option \<Rightarrow> string option \<Rightarrow> string option \<Rightarrow> neoc_account result" where
  "neoc_account_create_from_nep2_with_label C A T G E label encrypted_key passphrase =
     (case (encrypted_key, passphrase) of
        (Some s, Some pass) \<Rightarrow>
          bind_r (neoc_nep2_decrypt C A T G E (Some s) (Some pass) None 32) (\<lambda>private_key.
          bind_r (neoc_ec_key_pair_from_private_key A G (Some private_key) 32) (\<lambda>kp.
            neoc_account_create_from_key_pair_with_label C A T G label (Some kp)))
      | _ \<Rightarrow> Err NEOC_ERROR_INVALID_ARGUMENT)"

text \<open>The number of keys is limited to 1024, but both numbers are cut to eight bits.\<close>

definition neoc_account_create_multisig_from_public_keys ::
  "crypto \<Rightarrow> allocator \<Rightarrow> interop_table \<Rightarrow> neoc_ec_public_key option list option \<Rightarrow> int \<Rightarrow> neoc_account result" where
  "neoc_account_create_multisig_from_public_keys C A T public_keys threshold =
     (case public_keys of
        None \<Rightarrow> Err NEOC_ERROR_INVALID_ARGUMENT
      | Some ks \<Rightarrow>
          if length ks = 0 then Err NEOC_ERROR_INVALID_ARGUMENT
          else if threshold \<le> 0 \<or> int (length ks) < threshold then Err NEOC_ERROR_INVALID_ARGUMENT
          else if 1024 < length ks then Err NEOC_ERROR_INVALID_ARGUMENT
          else
            bind_r (neoc_multi_sig_create A C T (word_of_int threshold) (Some ks) (of_nat (length ks))) (\<lambda>multisig.
            bind_r (malloc_r A sizeof_account) (\<lambda>_.
            bind_r (account_address C A (ms_script_hash multisig)) (\<lambda>address.
            bind_r (strdup_r A address) (\<lambda>label.
              Ok (new_account\<lparr>ac_label := Some label, ac_address := Some address, ac_script_hash := ms_script_hash multisig,
                              ac_extra := Extra_Multisig multisig\<rparr>))))))"

definition neoc_account_create_multisig ::
  "crypto \<Rightarrow> allocator \<Rightarrow> interop_table \<Rightarrow> int \<Rightarrow> neoc_ec_public_key option list option \<Rightarrow> neoc_account result" where
  "neoc_account_create_multisig C A T threshold public_keys = neoc_account_create_multisig_from_public_keys C A T public_keys threshold"

definition neoc_account_create_multi_sig ::
  "crypto \<Rightarrow> allocator \<Rightarrow> interop_table \<Rightarrow> neoc_ec_public_key option list option \<Rightarrow> int \<Rightarrow> neoc_account result" where
  "neoc_account_create_multi_sig C A T public_keys threshold = neoc_account_create_multisig_from_public_keys C A T public_keys threshold"

definition neoc_account_create_from_address :: "crypto \<Rightarrow> allocator \<Rightarrow> string option \<Rightarrow> neoc_account result" where
  "neoc_account_create_from_address C A address =
     (case address of
        None \<Rightarrow> Err NEOC_ERROR_INVALID_ARGUMENT
      | Some s \<Rightarrow>
          bind_r (malloc_r A sizeof_account) (\<lambda>_.
          bind_r (strdup_r A s) (\<lambda>copy.
          bind_r (neoc_hash160_from_address C A (Some s)) (\<lambda>script_hash.
          bind_r (strdup_r A s) (\<lambda>label.
            Ok (new_account\<lparr>ac_label := Some label, ac_address := Some copy, ac_script_hash := script_hash\<rparr>))))))"

definition neoc_account_create_multisig_with_address ::
  "crypto \<Rightarrow> allocator \<Rightarrow> string option \<Rightarrow> int \<Rightarrow> int \<Rightarrow> neoc_account result" where
  "neoc_account_create_multisig_with_address C A address threshold nr_participants =
     (case address of
        None \<Rightarrow> Err NEOC_ERROR_INVALID_ARGUMENT
      | Some s \<Rightarrow>
          if threshold \<le> 0 \<or> nr_participants \<le> 0 then Err NEOC_ERROR_INVALID_ARGUMENT
          else if nr_participants < threshold then Err NEOC_ERROR_INVALID_ARGUMENT
          else
            bind_r (malloc_r A sizeof_account) (\<lambda>_.
            bind_r (strdup_r A s) (\<lambda>copy.
            bind_r (neoc_hash160_from_address C A (Some s)) (\<lambda>script_hash.
            bind_r (malloc_r A 12) (\<lambda>_.
            bind_r (strdup_r A s) (\<lambda>label.
              Ok (new_account\<lparr>ac_label := Some label, ac_address := Some copy, ac_script_hash := script_hash,
                              ac_extra := Extra_Multisig_Info threshold nr_participants\<rparr>)))))))"

definition neoc_account_create_from_public_key ::
  "crypto \<Rightarrow> allocator \<Rightarrow> interop_table \<Rightarrow> neoc_ec_public_key option \<Rightarrow> neoc_account result" where
  "neoc_account_create_from_public_key C A T public_key =
     (case public_key of
        None \<Rightarrow> Err NEOC_ERROR_INVALID_ARGUMENT
      | Some pk \<Rightarrow>
          bind_r (malloc_r A sizeof_account) (\<lambda>_.
          bind_r (neoc_ec_public_key_get_encoded A (Some pk) True) (\<lambda>pubkey_bytes.
          bind_r (neoc_script_create_single_sig_verification A C T (Some pubkey_bytes)) (\<lambda>script.
          bind_r (neoc_hash160_from_script C (Some script)) (\<lambda>script_hash.
          bind_r (account_address C A script_hash) (\<lambda>address.
          bind_r (strdup_r A address) (\<lambda>label.
            Ok (new_account\<lparr>ac_label := Some label, ac_address := Some address, ac_script_hash := script_hash,
                            ac_verification_script := Some script\<rparr>))))))))"

subsection \<open>Accounts from scripts\<close>

text \<open>Reading a byte of the script; outside it is a fault.\<close>

definition read_at :: "byte list \<Rightarrow> nat \<Rightarrow> byte result" where
  "read_at script pos = (if pos < length script then Ok (script ! pos) else Fault)"

text \<open>A small number: \<^verbatim>\<open>PUSH1\<close> to \<^verbatim>\<open>PUSH16\<close>, or \<^verbatim>\<open>PUSHINT8\<close> with a byte; anything else is zero and stays where it is.\<close>

definition small_number :: "byte list \<Rightarrow> nat \<Rightarrow> (byte \<times> nat) result" where
  "small_number script pos =
     bind_r (read_at script pos) (\<lambda>b.
       if 0x11 \<le> b \<and> b \<le> 0x20 then Ok (b - 0x10, pos + 1)
       else if b = 0x00 then
         (if pos + 1 < length script then bind_r (read_at script (pos + 1)) (\<lambda>v. Ok (v, pos + 2)) else Ok (0, pos + 1))
       else Ok (0, pos))"

function count_pubkeys :: "byte list \<Rightarrow> nat \<Rightarrow> nat \<Rightarrow> (nat \<times> nat) result" where
  "count_pubkeys script pos n =
     (if pos < length script - 2 then
        bind_r (read_at script pos) (\<lambda>b.
          if b = 0x21 then count_pubkeys script (pos + 34) (n + 1)
          else if b = 0x41 then count_pubkeys script (pos + 66) (n + 1)
          else if b = 0x0C \<and> pos + 1 < length script then
            bind_r (read_at script (pos + 1)) (\<lambda>len.
              if len = 33 \<or> len = 65 then count_pubkeys script (pos + 2 + unat len) (n + 1) else Ok (pos, n))
          else Ok (pos, n))
      else Ok (pos, n))"
  by auto
termination
  by (relation "measure (\<lambda>(script, pos, _). length script - pos)") auto

declare count_pubkeys.simps [simp del]

definition checkmultisig_at :: "crypto \<Rightarrow> interop_table \<Rightarrow> byte list \<Rightarrow> nat \<Rightarrow> bool result" where
  "checkmultisig_at C T script pos =
     (if \<not> pos + 4 < length script then Ok False
      else
        bind_r (read_at script pos) (\<lambda>op.
          if op \<noteq> 0x41 then Ok False
          else
            bind_r (map_r (read_at script) [pos + 1, pos + 2, pos + 3, pos + 4]) (\<lambda>bs.
              Ok (of_le bs = fst (neoc_interop_get_hash C NEOC_INTEROP_SYSTEM_CRYPTO_CHECKMULTISIG T)))))"

definition script_multisig_info :: "crypto \<Rightarrow> interop_table \<Rightarrow> byte list \<Rightarrow> (byte \<times> byte) option result" where
  "script_multisig_info C T script =
     (if length script < 4 then Ok None
      else
        bind_r (small_number script 0) (\<lambda>(threshold, pos).
        bind_r (count_pubkeys script pos 0) (\<lambda>(pos, pubkey_count).
        bind_r (if pos < length script then small_number script pos else Ok (0, pos)) (\<lambda>(participants, pos).
        bind_r (checkmultisig_at C T script pos) (\<lambda>is_multisig.
          if is_multisig \<and> 0 < threshold \<and> 0 < participants \<and> unat participants = pubkey_count \<and> threshold \<le> participants
          then Ok (Some (threshold, participants)) else Ok None)))))"

text \<open>When the block for the multi-signature data is refused, the account is made without it.\<close>

definition script_extra :: "allocator \<Rightarrow> (byte \<times> byte) option \<Rightarrow> account_extra" where
  "script_extra A info =
     (case info of
        Some (threshold, participants) \<Rightarrow>
          if A 12 then Extra_Multisig_Info (int (unat threshold)) (int (unat participants)) else Extra_None
      | None \<Rightarrow> Extra_None)"

definition neoc_account_create_from_verification_script ::
  "crypto \<Rightarrow> allocator \<Rightarrow> interop_table \<Rightarrow> byte list option \<Rightarrow> neoc_account result" where
  "neoc_account_create_from_verification_script C A T script =
     (case script of
        None \<Rightarrow> Err NEOC_ERROR_INVALID_ARGUMENT
      | Some bs \<Rightarrow>
          if length bs = 0 then Err NEOC_ERROR_INVALID_ARGUMENT
          else
            bind_r (malloc_r A sizeof_account) (\<lambda>_.
            bind_r (neoc_hash160_from_script C (Some bs)) (\<lambda>script_hash.
            bind_r (malloc_r A (length bs)) (\<lambda>_.
            bind_r (account_address C A script_hash) (\<lambda>address.
            bind_r (script_multisig_info C T bs) (\<lambda>info.
              bind_r (strdup_r A address) (\<lambda>label.
                Ok (new_account\<lparr>ac_label := Some label, ac_address := Some address, ac_script_hash := script_hash,
                                ac_verification_script := Some bs, ac_extra := script_extra A info\<rparr>))))))))"

subsection \<open>Reading accounts\<close>

definition neoc_account_get_public_key :: "neoc_account option \<Rightarrow> neoc_ec_public_key option" where
  "neoc_account_get_public_key account =
     (case account of None \<Rightarrow> None | Some a \<Rightarrow> (case ac_key_pair a of None \<Rightarrow> None | Some kp \<Rightarrow> kp_public_key kp))"

definition neoc_account_get_key_pair_ptr :: "neoc_account option \<Rightarrow> neoc_ec_key_pair option" where
  "neoc_account_get_key_pair_ptr account = (case account of None \<Rightarrow> None | Some a \<Rightarrow> ac_key_pair a)"

definition neoc_account_get_key_pair_copy :: "allocator \<Rightarrow> base_mul \<Rightarrow> neoc_account option \<Rightarrow> neoc_ec_key_pair option result" where
  "neoc_account_get_key_pair_copy A G account =
     (case account of
        None \<Rightarrow> Err NEOC_ERROR_INVALID_ARGUMENT
      | Some a \<Rightarrow>
          (case ac_key_pair a of
             None \<Rightarrow> Ok None
           | Some kp \<Rightarrow>
               bind_r (neoc_ec_key_pair_get_private_key (Some kp) 32) (\<lambda>private_key.
               bind_r (neoc_ec_key_pair_create_from_private_key A G (Some private_key)) (\<lambda>copy. Ok (Some copy)))))"

definition neoc_account_export_wif :: "crypto \<Rightarrow> allocator \<Rightarrow> neoc_account option \<Rightarrow> string result" where
  "neoc_account_export_wif C A account =
     (case account of
        None \<Rightarrow> Err NEOC_ERROR_INVALID_ARGUMENT
      | Some a \<Rightarrow>
          if ac_is_locked a then Err NEOC_ERROR_INVALID_STATE
          else if ac_key_pair a = None then Err NEOC_ERROR_INVALID_STATE
          else neoc_ec_key_pair_export_as_wif C A (ac_key_pair a))"

definition neoc_account_export_nep2 ::
  "crypto \<Rightarrow> allocator \<Rightarrow> interop_table \<Rightarrow> base_mul \<Rightarrow> ciphers \<Rightarrow> neoc_account option \<Rightarrow> string option \<Rightarrow> string result" where
  "neoc_account_export_nep2 C A T G E account password =
     (case (account, password) of
        (Some a, Some pass) \<Rightarrow>
          (case ac_key_pair a of
             None \<Rightarrow> Err NEOC_ERROR_INVALID_STATE
           | Some kp \<Rightarrow>
               bind_r (neoc_ec_key_pair_get_private_key (Some kp) 32) (\<lambda>private_key.
               bind_r (malloc_r A 64) (\<lambda>_. neoc_nep2_encrypt C A T G E (Some private_key) (Some pass) None 64)))
      | _ \<Rightarrow> Err NEOC_ERROR_INVALID_ARGUMENT)"

definition neoc_account_is_default_value :: "neoc_account option \<Rightarrow> bool" where
  "neoc_account_is_default_value account = (case account of None \<Rightarrow> False | Some a \<Rightarrow> ac_is_default a)"

definition neoc_account_is_default_out :: "neoc_account option \<Rightarrow> bool result" where
  "neoc_account_is_default_out account = (case account of None \<Rightarrow> Err NEOC_ERROR_INVALID_ARGUMENT | Some a \<Rightarrow> Ok (ac_is_default a))"

definition neoc_account_get_address_ptr :: "neoc_account option \<Rightarrow> string option" where
  "neoc_account_get_address_ptr account = (case account of None \<Rightarrow> None | Some a \<Rightarrow> ac_address a)"

definition neoc_account_get_address_copy :: "allocator \<Rightarrow> neoc_account option \<Rightarrow> string result" where
  "neoc_account_get_address_copy A account =
     (case account of
        None \<Rightarrow> Err NEOC_ERROR_INVALID_ARGUMENT
      | Some a \<Rightarrow> (case ac_address a of None \<Rightarrow> Err NEOC_ERROR_INVALID_STATE | Some s \<Rightarrow> strdup_r A s))"

definition neoc_account_get_script_hash_ptr :: "neoc_account option \<Rightarrow> neoc_hash160 option" where
  "neoc_account_get_script_hash_ptr account = map_option ac_script_hash account"

definition neoc_account_get_script_hash_copy :: "neoc_account option \<Rightarrow> neoc_hash160 result" where
  "neoc_account_get_script_hash_copy account = (case account of None \<Rightarrow> Err NEOC_ERROR_INVALID_ARGUMENT | Some a \<Rightarrow> Ok (ac_script_hash a))"

definition neoc_account_get_label_ptr :: "neoc_account option \<Rightarrow> string option" where
  "neoc_account_get_label_ptr account = (case account of None \<Rightarrow> None | Some a \<Rightarrow> ac_label a)"

definition neoc_account_get_label_copy :: "allocator \<Rightarrow> neoc_account option \<Rightarrow> string option result" where
  "neoc_account_get_label_copy A account =
     (case account of
        None \<Rightarrow> Err NEOC_ERROR_INVALID_ARGUMENT
      | Some a \<Rightarrow> (case ac_label a of None \<Rightarrow> Ok None | Some l \<Rightarrow> bind_r (strdup_r A l) (\<lambda>copy. Ok (Some copy))))"

definition neoc_account_get_verification_script ::
  "crypto \<Rightarrow> allocator \<Rightarrow> interop_table \<Rightarrow> neoc_account option \<Rightarrow> byte list result" where
  "neoc_account_get_verification_script C A T account =
     (case account of
        None \<Rightarrow> Err NEOC_ERROR_INVALID_ARGUMENT
      | Some a \<Rightarrow>
          (case ac_verification_script a of
             Some (b # bs) \<Rightarrow> bind_r (malloc_r A (length (b # bs))) (\<lambda>_. Ok (b # bs))
           | _ \<Rightarrow>
               (case ac_extra a of
                  Extra_Multisig m \<Rightarrow> bind_r (malloc_r A (length (ms_verification_script m))) (\<lambda>_. Ok (ms_verification_script m))
                | Extra_Multisig_Info _ _ \<Rightarrow> Err NEOC_ERROR_INVALID_STATE
                | Extra_None \<Rightarrow>
                    (case ac_key_pair a of
                       None \<Rightarrow> Err NEOC_ERROR_INVALID_STATE
                     | Some kp \<Rightarrow>
                         bind_r (neoc_ec_key_pair_get_public_key (Some kp) 65) (\<lambda>public_key.
                           neoc_script_create_single_sig_verification A C T (Some public_key))))))"

definition neoc_account_get_verification_script_object ::
  "crypto \<Rightarrow> allocator \<Rightarrow> interop_table \<Rightarrow> neoc_account option \<Rightarrow> neoc_verification_script result" where
  "neoc_account_get_verification_script_object C A T account =
     (case account of
        None \<Rightarrow> Err NEOC_ERROR_INVALID_ARGUMENT
      | Some a \<Rightarrow>
          bind_r (neoc_account_get_verification_script C A T (Some a)) (\<lambda>bs. neoc_verification_script_create A (Some bs) (length bs)))"

definition neoc_account_get_verification_script_ptr ::
  "crypto \<Rightarrow> allocator \<Rightarrow> interop_table \<Rightarrow> neoc_account option \<Rightarrow> neoc_verification_script option result" where
  "neoc_account_get_verification_script_ptr C A T account =
     (case neoc_account_get_verification_script_object C A T account of Ok s \<Rightarrow> Ok (Some s) | Err _ \<Rightarrow> Ok None | Fault \<Rightarrow> Fault)"

definition neoc_account_is_multisig :: "neoc_account option \<Rightarrow> bool result" where
  "neoc_account_is_multisig account =
     (case account of None \<Rightarrow> Err NEOC_ERROR_INVALID_ARGUMENT | Some a \<Rightarrow> Ok (is_multisig_internal (Some a)))"

definition neoc_account_is_multi_sig :: "neoc_account option \<Rightarrow> bool" where
  "neoc_account_is_multi_sig account = is_multisig_internal account"

definition neoc_account_get_signing_threshold :: "neoc_account option \<Rightarrow> int result" where
  "neoc_account_get_signing_threshold account =
     (case account of
        None \<Rightarrow> Err NEOC_ERROR_INVALID_ARGUMENT
      | Some a \<Rightarrow>
          if \<not> is_multisig_internal (Some a) then Err NEOC_ERROR_INVALID_STATE
          else (case ac_extra a of
                  Extra_Multisig m \<Rightarrow>
                    if 0 < ms_threshold m \<and> ms_threshold m \<le> ms_public_key_count m then Ok (int (unat (ms_threshold m)))
                    else Err NEOC_ERROR_INVALID_STATE
                | Extra_Multisig_Info threshold _ \<Rightarrow> if 0 < threshold then Ok threshold else Err NEOC_ERROR_INVALID_STATE
                | Extra_None \<Rightarrow> Err NEOC_ERROR_INVALID_STATE))"

definition neoc_account_get_nr_participants :: "neoc_account option \<Rightarrow> int result" where
  "neoc_account_get_nr_participants account =
     (case account of
        None \<Rightarrow> Err NEOC_ERROR_INVALID_ARGUMENT
      | Some a \<Rightarrow>
          if \<not> is_multisig_internal (Some a) then Err NEOC_ERROR_INVALID_STATE
          else (case ac_extra a of
                  Extra_Multisig m \<Rightarrow>
                    if 0 < ms_public_key_count m then Ok (int (unat (ms_public_key_count m))) else Err NEOC_ERROR_INVALID_STATE
                | Extra_Multisig_Info _ nr \<Rightarrow> if 0 < nr then Ok nr else Err NEOC_ERROR_INVALID_STATE
                | Extra_None \<Rightarrow> Err NEOC_ERROR_INVALID_STATE))"

subsection \<open>Signing\<close>

definition neoc_account_sign :: "allocator \<Rightarrow> ecdsa \<Rightarrow> neoc_account option \<Rightarrow> byte list option \<Rightarrow> byte list result" where
  "neoc_account_sign A S account data =
     (case (account, data) of
        (Some a, Some bs) \<Rightarrow>
          if ac_key_pair a = None then Err NEOC_ERROR_INVALID_STATE
          else if length bs \<noteq> 32 then Err NEOC_ERROR_INVALID_ARGUMENT
          else bind_r (neoc_ec_key_pair_sign A S (ac_key_pair a) (Some bs)) (\<lambda>rs.
            neoc_ecdsa_signature_to_bytes A (Some rs))
      | _ \<Rightarrow> Err NEOC_ERROR_INVALID_ARGUMENT)"

definition neoc_account_sign_hash ::
  "crypto \<Rightarrow> allocator \<Rightarrow> interop_table \<Rightarrow> ecdsa \<Rightarrow> neoc_account option \<Rightarrow> neoc_hash256 option \<Rightarrow> neoc_witness result" where
  "neoc_account_sign_hash C A T S account hash =
     (case (account, hash) of
        (Some a, Some h) \<Rightarrow>
          if ac_key_pair a = None then Err NEOC_ERROR_INVALID_STATE
          else
            bind_r (neoc_ec_key_pair_sign A S (ac_key_pair a) (Some h)) (\<lambda>rs.
            bind_r (neoc_ecdsa_signature_to_bytes A (Some rs)) (\<lambda>signature.
            bind_r (neoc_script_create_single_sig_invocation A (Some signature)) (\<lambda>invocation.
            bind_r (neoc_account_get_verification_script C A T (Some a)) (\<lambda>verification.
              neoc_witness_create A (Some invocation) (Some verification)))))
      | _ \<Rightarrow> Err NEOC_ERROR_INVALID_ARGUMENT)"

subsection \<open>Changing accounts\<close>

definition neoc_account_set_default :: "bool \<Rightarrow> (neoc_account, unit) cmd" where
  "neoc_account_set_default is_default a = (Ok (), a\<lparr>ac_is_default := is_default\<rparr>)"

text \<open>The old label is gone before the new one is there.\<close>

definition neoc_account_set_label :: "allocator \<Rightarrow> string option \<Rightarrow> (neoc_account, unit) cmd" where
  "neoc_account_set_label A label a =
     (case label of
        None \<Rightarrow> (Ok (), a\<lparr>ac_label := None\<rparr>)
      | Some l \<Rightarrow> if A (length l + 1) then (Ok (), a\<lparr>ac_label := Some l\<rparr>) else (Err NEOC_ERROR_MEMORY, a\<lparr>ac_label := None\<rparr>))"

definition neoc_account_lock_internal :: "(neoc_account, unit) cmd" where
  "neoc_account_lock_internal a = (Ok (), a\<lparr>ac_is_locked := True\<rparr>)"

definition neoc_account_unlock_internal :: "(neoc_account, unit) cmd" where
  "neoc_account_unlock_internal a = (Ok (), a\<lparr>ac_is_locked := False\<rparr>)"

definition neoc_account_is_locked_value :: "neoc_account option \<Rightarrow> bool" where
  "neoc_account_is_locked_value account = (case account of None \<Rightarrow> False | Some a \<Rightarrow> ac_is_locked a)"

definition neoc_account_is_locked_out :: "neoc_account option \<Rightarrow> bool result" where
  "neoc_account_is_locked_out account = (case account of None \<Rightarrow> Err NEOC_ERROR_INVALID_ARGUMENT | Some a \<Rightarrow> Ok (ac_is_locked a))"

definition neoc_account_has_encrypted_private_key_value :: "neoc_account option \<Rightarrow> bool" where
  "neoc_account_has_encrypted_private_key_value account =
     (case account of None \<Rightarrow> False | Some a \<Rightarrow> (case ac_encrypted_key a of None \<Rightarrow> False | Some bs \<Rightarrow> 0 < length bs))"

definition neoc_account_has_encrypted_private_key_out :: "neoc_account option \<Rightarrow> bool result" where
  "neoc_account_has_encrypted_private_key_out account =
     (case account of None \<Rightarrow> Err NEOC_ERROR_INVALID_ARGUMENT | Some a \<Rightarrow> Ok (neoc_account_has_encrypted_private_key_value (Some a)))"

definition neoc_account_get_encrypted_private_key_ptr :: "neoc_account option \<Rightarrow> string option" where
  "neoc_account_get_encrypted_private_key_ptr account =
     (case account of None \<Rightarrow> None | Some a \<Rightarrow> map_option c_text (ac_encrypted_key a))"

definition neoc_account_get_encrypted_private_key_copy :: "allocator \<Rightarrow> neoc_account option \<Rightarrow> string option result" where
  "neoc_account_get_encrypted_private_key_copy A account =
     (case account of
        None \<Rightarrow> Err NEOC_ERROR_INVALID_ARGUMENT
      | Some a \<Rightarrow>
          (case ac_encrypted_key a of None \<Rightarrow> Ok None | Some bs \<Rightarrow> bind_r (strdup_r A (c_text bs)) (\<lambda>copy. Ok (Some copy))))"

definition neoc_account_get_encrypted_private_key :: "allocator \<Rightarrow> neoc_account option \<Rightarrow> byte list option result" where
  "neoc_account_get_encrypted_private_key A account =
     (case account of
        None \<Rightarrow> Err NEOC_ERROR_INVALID_ARGUMENT
      | Some a \<Rightarrow>
          (case ac_encrypted_key a of None \<Rightarrow> Ok None | Some bs \<Rightarrow> bind_r (malloc_r A (length bs + 1)) (\<lambda>_. Ok (Some bs))))"

definition neoc_account_set_encrypted_private_key :: "allocator \<Rightarrow> byte list option \<Rightarrow> (neoc_account, unit) cmd" where
  "neoc_account_set_encrypted_private_key A encrypted_key a =
     (case encrypted_key of
        None \<Rightarrow> (Ok (), neoc_account_clear_encrypted_key a)
      | Some bs \<Rightarrow>
          if length bs = 0 then (Ok (), neoc_account_clear_encrypted_key a)
          else if \<not> A (length bs + 1) then (Err NEOC_ERROR_OUT_OF_MEMORY, a)
          else (Ok (), a\<lparr>ac_encrypted_key := Some bs\<rparr>))"

definition neoc_scrypt_to_nep2 :: "neoc_scrypt_params option \<Rightarrow> neoc_nep2_params option" where
  "neoc_scrypt_to_nep2 params = map_option (\<lambda>s. \<lparr>n2_n = sc_n s, n2_r = sc_r s, n2_p = sc_p s\<rparr>) params"

definition neoc_account_encrypt_private_key_with_params ::
  "crypto \<Rightarrow> allocator \<Rightarrow> interop_table \<Rightarrow> base_mul \<Rightarrow> ciphers \<Rightarrow> string option \<Rightarrow> neoc_scrypt_params option \<Rightarrow> (neoc_account, unit) cmd" where
  "neoc_account_encrypt_private_key_with_params C A T G E password params a =
     (case password of
        None \<Rightarrow> (Err NEOC_ERROR_INVALID_ARGUMENT, a)
      | Some pass \<Rightarrow>
          (case ac_key_pair a of
             None \<Rightarrow> (Err NEOC_ERROR_INVALID_STATE, a)
           | Some kp \<Rightarrow>
               bind_c (lift_c (neoc_ec_key_pair_get_private_key (Some kp) 32)) (\<lambda>private_key.
               bind_c (lift_c (neoc_nep2_encrypt C A T G E (Some private_key) (Some pass) (neoc_scrypt_to_nep2 params) 128)) (\<lambda>encrypted_key.
               then_c (neoc_account_store_encrypted_key A (Some encrypted_key))
                      (\<lambda>a. (Ok (), a\<lparr>ac_is_locked := True\<rparr>)))) a))"

definition neoc_account_decrypt_private_key_with_params ::
  "crypto \<Rightarrow> allocator \<Rightarrow> interop_table \<Rightarrow> base_mul \<Rightarrow> ciphers \<Rightarrow> string option \<Rightarrow> neoc_scrypt_params option \<Rightarrow> (neoc_account, unit) cmd" where
  "neoc_account_decrypt_private_key_with_params C A T G E password params a =
     (case password of
        None \<Rightarrow> (Err NEOC_ERROR_INVALID_ARGUMENT, a)
      | Some pass \<Rightarrow>
          (case ac_encrypted_key a of
             None \<Rightarrow> (Err NEOC_ERROR_INVALID_STATE, a)
           | Some bs \<Rightarrow>
               bind_c (lift_c (neoc_nep2_decrypt C A T G E (Some (c_text bs)) (Some pass) (neoc_scrypt_to_nep2 params) 32)) (\<lambda>private_key.
               bind_c (lift_c (neoc_ec_key_pair_create_from_private_key A G (Some private_key))) (\<lambda>kp.
                 (\<lambda>a. (Ok (), a\<lparr>ac_key_pair := Some kp, ac_is_locked := False\<rparr>)))) a))"

definition neoc_account_encrypt ::
  "crypto \<Rightarrow> allocator \<Rightarrow> interop_table \<Rightarrow> base_mul \<Rightarrow> ciphers \<Rightarrow> string option \<Rightarrow> (neoc_account, unit) cmd" where
  "neoc_account_encrypt C A T G E password = neoc_account_encrypt_private_key_with_params C A T G E password None"

definition neoc_account_decrypt ::
  "crypto \<Rightarrow> allocator \<Rightarrow> interop_table \<Rightarrow> base_mul \<Rightarrow> ciphers \<Rightarrow> string option \<Rightarrow> (neoc_account, unit) cmd" where
  "neoc_account_decrypt C A T G E password = neoc_account_decrypt_private_key_with_params C A T G E password None"

subsection \<open>Consistent accounts\<close>

text \<open>The script of one key, whatever the allocator that let it be built.\<close>

definition single_sig_bytes :: "crypto \<Rightarrow> interop_table \<Rightarrow> byte list \<Rightarrow> byte list" where
  "single_sig_bytes C T key = enc_push_data key @ enc_syscall (fst (neoc_interop_get_hash C NEOC_INTEROP_SYSTEM_CRYPTO_CHECKSIG T))"

lemma single_sig_Ok:
  assumes "neoc_script_create_single_sig_verification A C T (Some key) = Ok script"
  shows "script = single_sig_bytes C T key" and "length key = 33 \<or> length key = 65"
proof -
  let ?m = "then_c (neoc_script_builder_push_data A (Some key) (of_nat (length key)))
    (neoc_script_builder_emit_syscall A C T NEOC_INTEROP_SYSTEM_CRYPTO_CHECKSIG)"
  show l: "length key = 33 \<or> length key = 65"
    using assms by (auto simp: neoc_script_create_single_sig_verification_def split: if_splits)
  then have "writes A ?m (single_sig_bytes C T key)"
    unfolding single_sig_bytes_def by (intro writes_then writes_push_bytes writes_emit_syscall) auto
  moreover have "length (single_sig_bytes C T key) < 2 ^ 62"
    using l by (auto simp: single_sig_bytes_def enc_push_data_def enc_syscall_def)
  ultimately show "script = single_sig_bytes C T key"
    using run_builder_cases [of A ?m] assms l by (auto simp: neoc_script_create_single_sig_verification_def split: if_splits)
qed

text \<open>
  An account is consistent when its address stands for its script hash, and its script hash is the hash of each script it can show: the one
  it keeps, the one of its multi-signature data, and the one of its key.
\<close>

definition account_consistent :: "crypto \<Rightarrow> allocator \<Rightarrow> interop_table \<Rightarrow> neoc_account \<Rightarrow> bool" where
  "account_consistent C A T a \<longleftrightarrow>
     (\<exists>s. ac_address a = Some s \<and> neoc_hash160_from_address C A (Some s) = Ok (ac_script_hash a))
   \<and> (\<forall>bs. ac_verification_script a = Some bs \<longrightarrow> neoc_hash160_from_script C (Some bs) = Ok (ac_script_hash a))
   \<and> (\<forall>m. ac_extra a = Extra_Multisig m \<longrightarrow> neoc_hash160_from_script C (Some (ms_verification_script m)) = Ok (ac_script_hash a))
   \<and> (\<forall>kp. ac_key_pair a = Some kp \<longrightarrow> (\<exists>pk. kp_public_key kp = Some pk
        \<and> neoc_hash160_from_script C (Some (single_sig_bytes C T (pk_compressed pk))) = Ok (ac_script_hash a)))"

text \<open>The operations that a client can run on an account.\<close>

datatype account_op =
    Set_Label "string option" | Set_Default bool | Lock | Unlock | Set_Encrypted "byte list option"
  | Encrypt "string option" "neoc_scrypt_params option" | Decrypt "string option" "neoc_scrypt_params option"

definition run_account ::
  "crypto \<Rightarrow> allocator \<Rightarrow> interop_table \<Rightarrow> base_mul \<Rightarrow> ciphers \<Rightarrow> account_op \<Rightarrow> (neoc_account, unit) cmd" where
  "run_account C A T G E oper =
     (case oper of
        Set_Label l \<Rightarrow> neoc_account_set_label A l
      | Set_Default b \<Rightarrow> neoc_account_set_default b
      | Lock \<Rightarrow> neoc_account_lock_internal
      | Unlock \<Rightarrow> neoc_account_unlock_internal
      | Set_Encrypted bs \<Rightarrow> neoc_account_set_encrypted_private_key A bs
      | Encrypt pass params \<Rightarrow> neoc_account_encrypt_private_key_with_params C A T G E pass params
      | Decrypt pass params \<Rightarrow> neoc_account_decrypt_private_key_with_params C A T G E pass params)"

text \<open>The constructors of accounts; \<open>Nep6\<close> adds the import from a NEP-6 file and what may happen to an account since.\<close>

inductive account_made ::
  "(nat \<Rightarrow> byte list option) \<Rightarrow> crypto \<Rightarrow> allocator \<Rightarrow> interop_table \<Rightarrow> base_mul \<Rightarrow> ciphers \<Rightarrow> neoc_account \<Rightarrow> bool"
  for R C A T G E where
    made_random: "neoc_account_create_with_label R C A T G label = Ok a \<Longrightarrow> account_made R C A T G E a"
  | made_key_pair: "neoc_account_create_from_key_pair_with_label C A T G label kp = Ok a \<Longrightarrow> account_made R C A T G E a"
  | made_wif: "neoc_account_create_from_wif_with_label C A T G label wif = Ok a \<Longrightarrow> account_made R C A T G E a"
  | made_nep2: "neoc_account_create_from_nep2_with_label C A T G E label s pass = Ok a \<Longrightarrow> account_made R C A T G E a"
  | made_multisig: "neoc_account_create_multisig_from_public_keys C A T keys m = Ok a \<Longrightarrow> account_made R C A T G E a"
  | made_multisig_address: "neoc_account_create_multisig_with_address C A address m n = Ok a \<Longrightarrow> account_made R C A T G E a"
  | made_script: "neoc_account_create_from_verification_script C A T script = Ok a \<Longrightarrow> account_made R C A T G E a"
  | made_public_key: "neoc_account_create_from_public_key C A T key = Ok a \<Longrightarrow> account_made R C A T G E a"
  | made_address: "neoc_account_create_from_address C A address = Ok a \<Longrightarrow> account_made R C A T G E a"

lemma account_address_Ok:
  assumes "crypto_works C" and "grants A 100" and "account_address C A h = Ok s" and "length h = 20"
  shows "neoc_hash160_from_address C A (Some s) = Ok h"
proof -
  have "grants A (neoc_base58_check_encode_buffer_size 21)"
    using assms(2) by (simp add: grants_def neoc_base58_check_encode_buffer_size_def neoc_base58_encode_buffer_size_def NEOC_BASE58_CHECKSUM_LENGTH_def)
  from to_address_Ok [OF assms(1) this assms(4), of 64] show ?thesis
    using assms(3) by (auto simp: account_address_def NEOC_ADDRESS_LENGTH_def bind_r_Ok_iff)
qed

lemma account_address_works:
  assumes "crypto_works C" and "grants A 100" and "length h = 20"
  obtains s where "account_address C A h = Ok s" and "strdup_r A s = Ok s"
proof -
  have "grants A (neoc_base58_check_encode_buffer_size 21)"
    using assms(2) by (simp add: grants_def neoc_base58_check_encode_buffer_size_def neoc_base58_encode_buffer_size_def NEOC_BASE58_CHECKSUM_LENGTH_def)
  from to_address_Ok [OF assms(1) this assms(3), of 64] obtain s where "neoc_hash160_to_address C A (Some h) 64 = Ok s" "length s < 36" by auto
  moreover have "A 64" "A (length s + 1)" using calculation(2) grantsD [OF assms(2)] by simp_all
  ultimately show thesis by (intro that [of s]) (simp_all add: account_address_def NEOC_ADDRESS_LENGTH_def strdup_r_def)
qed

lemma from_script_length: "crypto_works C \<Longrightarrow> neoc_hash160_from_script C (Some bs) = Ok h \<Longrightarrow> length h = 20"
  using from_script_works [of C bs] by auto

lemma consistentI [intro]:
  assumes "ac_address a = Some s" and "neoc_hash160_from_address C A (Some s) = Ok (ac_script_hash a)"
    and "\<And>bs. ac_verification_script a = Some bs \<Longrightarrow> neoc_hash160_from_script C (Some bs) = Ok (ac_script_hash a)"
    and "\<And>m. ac_extra a = Extra_Multisig m \<Longrightarrow> neoc_hash160_from_script C (Some (ms_verification_script m)) = Ok (ac_script_hash a)"
    and "\<And>kp. ac_key_pair a = Some kp \<Longrightarrow> \<exists>pk. kp_public_key kp = Some pk
        \<and> neoc_hash160_from_script C (Some (single_sig_bytes C T (pk_compressed pk))) = Ok (ac_script_hash a)"
  shows "account_consistent C A T a"
  using assms unfolding account_consistent_def by blast

lemma key_pair_account_consistent:
  assumes "crypto_works C" and "grants A 100" and "key_pair_account C A T label kp = Ok a"
  shows "account_consistent C A T a"
proof -
  from assms(3) obtain key script h s l where k: "neoc_ec_key_pair_get_public_key (Some kp) 65 = Ok key"
    "neoc_script_create_single_sig_verification A C T (Some key) = Ok script" "neoc_hash160_from_script C (Some script) = Ok h"
    "account_address C A h = Ok s"
    and a: "a = new_account\<lparr>ac_label := Some l, ac_address := Some s, ac_script_hash := h, ac_key_pair := Some kp, ac_verification_script := Some script\<rparr>"
    by (auto simp: key_pair_account_def bind_r_Ok_iff)
  from k(1) obtain pk where pk: "kp_public_key kp = Some pk" "key = pk_compressed pk"
    by (auto simp: neoc_ec_key_pair_get_public_key_def split: option.splits)
  show ?thesis
  proof
    show "ac_address a = Some s" by (simp add: a)
    show "neoc_hash160_from_address C A (Some s) = Ok (ac_script_hash a)"
      using account_address_Ok [OF assms(1,2) k(4)] from_script_length [OF assms(1) k(3)] by (simp add: a)
  qed (use pk k(3) single_sig_Ok(1) [OF k(2)] in \<open>auto simp: a new_account_def\<close>)
qed

lemma multi_sig_create_hash:
  "neoc_multi_sig_create A C T m keys n = Ok acc \<Longrightarrow> neoc_hash160_from_script C (Some (ms_verification_script acc)) = Ok (ms_script_hash acc)"
  by (auto simp: neoc_multi_sig_create_def bind_r_Ok_iff split: option.splits if_splits)

lemma run_account_keeps:
  assumes "run_account C A T G E oper a = (r, a')"
  shows "ac_address a' = ac_address a" and "ac_script_hash a' = ac_script_hash a" and "ac_extra a' = ac_extra a"
    and "ac_verification_script a' = None \<or> ac_verification_script a' = ac_verification_script a"
  using assms
  by (auto simp: run_account_def neoc_account_set_label_def neoc_account_set_default_def neoc_account_lock_internal_def neoc_account_unlock_internal_def
      neoc_account_set_encrypted_private_key_def neoc_account_clear_encrypted_key_def neoc_account_encrypt_private_key_with_params_def
      neoc_account_decrypt_private_key_with_params_def neoc_account_store_encrypted_key_def bind_c_def lift_c_def then_c_def Let_def split: account_op.splits option.splits if_splits prod.splits result.splits)

lemma made_consistent:
  assumes "account_made R C A T G E a" and "crypto_works C" and "grants A 100"
  shows "account_consistent C A T a"
  using assms
proof (induction rule: account_made.induct)
  case (made_random label a)
  then show ?case by (auto simp: neoc_account_create_with_label_def bind_r_Ok_iff intro: key_pair_account_consistent)
next
  case (made_key_pair label kp a)
  then show ?case
    by (auto simp: neoc_account_create_from_key_pair_with_label_def bind_r_Ok_iff intro: key_pair_account_consistent split: option.splits)
next
  case (made_wif label wif a)
  then show ?case
    by (auto simp: neoc_account_create_from_wif_with_label_def neoc_account_create_from_key_pair_with_label_def bind_r_Ok_iff
        intro: key_pair_account_consistent split: option.splits)
next
  case (made_nep2 label s pass a)
  then show ?case
    by (auto simp: neoc_account_create_from_nep2_with_label_def neoc_account_create_from_key_pair_with_label_def bind_r_Ok_iff
        intro: key_pair_account_consistent split: option.splits)
next
  case (made_multisig keys m a)
  then obtain acc s l where acc: "neoc_hash160_from_script C (Some (ms_verification_script acc)) = Ok (ms_script_hash acc)"
    "account_address C A (ms_script_hash acc) = Ok s"
    and a: "a = new_account\<lparr>ac_label := Some l, ac_address := Some s, ac_script_hash := ms_script_hash acc, ac_extra := Extra_Multisig acc\<rparr>"
    by (auto simp: neoc_account_create_multisig_from_public_keys_def bind_r_Ok_iff dest!: multi_sig_create_hash split: option.splits if_splits)
  show ?case
    by (rule consistentI [of _ s]) (use acc account_address_Ok [OF made_multisig.prems acc(2) from_script_length] made_multisig.prems in \<open>auto simp: a new_account_def\<close>)
next
  case (made_multisig_address address m n a)
  then show ?case
    by (auto simp: neoc_account_create_multisig_with_address_def bind_r_Ok_iff new_account_def strdup_r_def intro!: consistentI split: option.splits if_splits)
next
  case (made_script script a)
  then obtain bs h s l info where a: "neoc_hash160_from_script C (Some bs) = Ok h" "account_address C A h = Ok s"
    "a = new_account\<lparr>ac_label := Some l, ac_address := Some s, ac_script_hash := h, ac_verification_script := Some bs, ac_extra := script_extra A info\<rparr>"
    by (auto simp: neoc_account_create_from_verification_script_def bind_r_Ok_iff split: option.splits if_splits)
  show ?case
    by (rule consistentI [of _ s]) (use a account_address_Ok [OF made_script.prems a(2) from_script_length [OF made_script.prems(1) a(1)]] in \<open>auto simp: new_account_def script_extra_def split: option.splits if_splits\<close>)
next
  case (made_public_key key a)
  then obtain script h s l where a: "neoc_hash160_from_script C (Some script) = Ok h" "account_address C A h = Ok s"
    "a = new_account\<lparr>ac_label := Some l, ac_address := Some s, ac_script_hash := h, ac_verification_script := Some script\<rparr>"
    by (auto simp: neoc_account_create_from_public_key_def bind_r_Ok_iff split: option.splits)
  show ?case
    by (rule consistentI [of _ s]) (use a account_address_Ok [OF made_public_key.prems a(2) from_script_length [OF made_public_key.prems(1) a(1)]] in \<open>auto simp: new_account_def\<close>)
next
  case (made_address address a)
  then show ?case
    by (auto simp: neoc_account_create_from_address_def bind_r_Ok_iff new_account_def strdup_r_def intro!: consistentI split: option.splits)
qed

lemma consistent_changed:
  assumes "account_consistent C A T a" and "run_account C A T G E oper a = (r, a')" and "ac_key_pair a' = ac_key_pair a"
  shows "account_consistent C A T a'"
  using run_account_keeps [OF assms(2)] assms(1,3) by (auto simp: account_consistent_def)

lemma consistent_script:
  assumes "account_consistent C A T a" and "neoc_account_get_verification_script C A T (Some a) = Ok script"
  shows "neoc_hash160_from_script C (Some script) = Ok (ac_script_hash a)"
  using assms unfolding account_consistent_def
  by (auto simp: neoc_account_get_verification_script_def neoc_ec_key_pair_get_public_key_def bind_r_Ok_iff
      dest: single_sig_Ok(1) split: option.splits list.splits account_extra.splits)

subsection \<open>Scripts of several keys\<close>

lemma read_at_append [simp]: "k < length bs \<Longrightarrow> read_at (pre @ bs @ rest) (length pre + k) = Ok (bs ! k)"
  by (simp add: read_at_def nth_append)

lemma read_at_first [simp]: "bs \<noteq> [] \<Longrightarrow> read_at (pre @ bs) (length pre) = Ok (hd bs)"
  by (simp add: read_at_def nth_append hd_conv_nth)

lemma small_number_safe: "pos < length script \<Longrightarrow> \<exists>v. small_number script pos = Ok v"
  by (auto simp: small_number_def read_at_def)

lemma count_pubkeys_safe: "\<exists>v. count_pubkeys script pos n = Ok v"
proof (induction script pos n rule: count_pubkeys.induct)
  case (1 script pos n)
  show ?case
  proof (cases "pos < length script - 2")
    case True
    then have "read_at script pos = Ok (script ! pos)" "read_at script (pos + 1) = Ok (script ! (pos + 1))" by (simp_all add: read_at_def)
    with 1 True show ?thesis by (subst count_pubkeys.simps) simp
  qed (simp add: count_pubkeys.simps)
qed

lemma checkmultisig_at_safe: "\<exists>v. checkmultisig_at C T script pos = Ok v"
  by (cases "pos + 4 < length script"; cases "script ! pos = 0x41") (auto simp: checkmultisig_at_def read_at_def)

lemma multisig_info_safe: "\<exists>v. script_multisig_info C T script = Ok v"
proof (cases "length script < 4")
  case False
  then have "0 < length script" by linarith
  then obtain t p where 1: "small_number script 0 = Ok (t, p)" using small_number_safe by fastforce
  obtain q n where 2: "count_pubkeys script p 0 = Ok (q, n)" using count_pubkeys_safe by fastforce
  obtain k r where 3: "(if q < length script then small_number script q else Ok (0, q)) = Ok (k, r)"
    using small_number_safe [of q script] by (cases "q < length script") fastforce+
  obtain b where "checkmultisig_at C T script r = Ok b" using checkmultisig_at_safe by blast
  with False 1 2 3 show ?thesis by (simp add: script_multisig_info_def)
qed (simp add: script_multisig_info_def)

lemma push_word: "n \<le> 255 \<Longrightarrow> sint (of_nat n :: 64 word) = int n" "n \<le> 255 \<Longrightarrow> ucast (of_nat n :: 64 word) = (of_nat n :: byte)"
  by (simp_all add: signed_of_nat signed_take_bit_int_eq_self unsigned_of_nat take_bit_nat_eq_self)

text \<open>Numbers up to 127 are read back; larger ones have an operand of two bytes, which the loop does not know.\<close>

lemma small_number_push:
  assumes "n \<le> 255"
  shows "small_number (pre @ enc_push_int (of_nat n) @ rest) (length pre)
    = Ok (if n = 0 \<or> 127 < n then (0, length pre) else (of_nat n, length pre + length (enc_push_int (of_nat n))))"
proof -
  let ?v = "of_nat n :: 64 word"
  note v = push_word [OF assms]
  have u: "unat (of_nat n :: byte) = n" using assms by (simp add: unsigned_of_nat take_bit_nat_eq_self)
  consider "n \<le> 16" | "16 < n" "n \<le> 127" | "127 < n" by linarith
  then show ?thesis
  proof cases
    case 1
    have e: "enc_push_int ?v = [0x10 + of_nat n]" using v 1 by (simp add: enc_push_int_def Let_def)
    have w: "0x10 + of_nat n = (of_nat (16 + n) :: byte)" by simp
    have "unat (of_nat (16 + n) :: byte) = 16 + n" using 1 by (subst unsigned_of_nat) (simp add: take_bit_nat_eq_self)
    then have "(0x11 \<le> 0x10 + (of_nat n :: byte)) = (0 < n)" "0x10 + (of_nat n :: byte) \<le> 0x20" "0x10 + (of_nat n :: byte) \<noteq> 0"
      unfolding w using 1 by (auto simp: word_le_nat_alt word_unat_eq_iff)
    then show ?thesis unfolding e using 1 by (auto simp: small_number_def)
  next
    case 2
    then have e: "enc_push_int ?v = [0, of_nat n]" using v by (simp add: enc_push_int_def Let_def le_bytes_def)
    have "read_at (pre @ [0, of_nat n] @ rest) (Suc (length pre)) = Ok (of_nat n)" by (simp add: read_at_def nth_append)
    then show ?thesis unfolding e using 2 by (simp add: small_number_def)
  next
    case 3
    then have e: "enc_push_int ?v = 1 # le_bytes 2 ?v" using v assms by (simp add: enc_push_int_def Let_def)
    have "\<not> (0x11 :: byte) \<le> 1" by (simp add: word_le_nat_alt)
    then show ?thesis unfolding e using 3 by (simp add: small_number_def)
  qed
qed

lemma first_push_byte:
  assumes "n \<le> 255"
  shows "hd (enc_push_int (of_nat n)) \<notin> {0x21, 0x41, 0x0C}"
proof -
  let ?v = "of_nat n :: 64 word"
  note v = push_word [OF assms]
  have "0x10 + (of_nat n :: byte) \<notin> {0x21, 0x41, 0x0C}" if "n \<le> 16"
  proof -
    have w: "0x10 + of_nat n = (of_nat (16 + n) :: byte)" by simp
    have "unat (of_nat (16 + n) :: byte) = 16 + n" using that by (subst unsigned_of_nat) (simp add: take_bit_nat_eq_self)
    then show ?thesis unfolding w using that by (auto simp: word_unat_eq_iff)
  qed
  then show ?thesis using v assms by (auto simp: enc_push_int_def Let_def)
qed

lemma count_pubkeys_stop:
  assumes "hd rest \<notin> {0x21, 0x41, 0x0C}" and "rest \<noteq> []"
  shows "count_pubkeys (pre @ rest) (length pre) n = Ok (length pre, n)"
  using assms by (subst count_pubkeys.simps) simp

lemma count_pubkeys_keys:
  assumes "\<forall>key \<in> set keys. key_size key" and "hd rest \<notin> {0x21, 0x41, 0x0C}" and "2 < length rest"
  shows "count_pubkeys (pre @ concat (map enc_push_data keys) @ rest) (length pre) n
    = Ok (length (pre @ concat (map enc_push_data keys)), n + length keys)"
  using assms(1)
proof (induction keys arbitrary: pre n)
  case Nil
  have "rest \<noteq> []" using assms(3) by auto
  then show ?case using count_pubkeys_stop [OF assms(2)] by simp
next
  case (Cons key keys)
  let ?tail = "concat (map enc_push_data keys) @ rest"
  let ?s = "pre @ [0x0C, of_nat (length key)] @ key @ ?tail"
  have key: "key_size key" using Cons.prems by simp
  then have len: "of_nat (length key) = (33 :: byte) \<or> of_nat (length key) = (65 :: byte)" "unat (of_nat (length key) :: byte) = length key"
    by (auto simp: key_size_def)
  have "read_at ?s (length pre) = Ok 0x0C" "read_at ?s (length pre + 1) = Ok (of_nat (length key))" by (simp_all add: read_at_def nth_append)
  moreover have "rest \<noteq> []" using assms(3) by auto
  ultimately have "count_pubkeys ?s (length pre) n = count_pubkeys ?s (length pre + 2 + length key) (n + 1)"
    using len by (subst count_pubkeys.simps) simp
  also have "\<dots> = Ok (length (pre @ [0x0C, of_nat (length key)] @ key @ concat (map enc_push_data keys)), n + 1 + length keys)"
    using Cons.IH [of "pre @ [0x0C, of_nat (length key)] @ key" "n + 1"] Cons.prems by (simp add: add.assoc)
  finally show ?case using enc_push_key [OF key] by simp
qed

lemma checkmultisig_at_end: "checkmultisig_at C T (pre @ enc_syscall (checkmultisig_hash C T)) (length pre) = Ok True"
proof -
  let ?h = "checkmultisig_hash C T" let ?s = "pre @ enc_syscall ?h"
  have "read_at ?s (length pre + Suc k) = Ok (le_bytes 4 ?h ! k)" if "k < 4" for k
    using that by (simp add: read_at_def nth_append enc_syscall_def)
  from this [of 0] this [of 1] this [of 2] this [of 3]
  have "map_r (read_at ?s) [length pre + 1, length pre + 2, length pre + 3, length pre + 4] = Ok [le_bytes 4 ?h ! 0, le_bytes 4 ?h ! 1, le_bytes 4 ?h ! 2, le_bytes 4 ?h ! 3]"
    by (simp add: numeral_eq_Suc)
  also have "[le_bytes 4 ?h ! 0, le_bytes 4 ?h ! 1, le_bytes 4 ?h ! 2, le_bytes 4 ?h ! 3] = le_bytes 4 ?h"
    by (simp add: le_bytes_def upt_rec)
  finally have "map_r (read_at ?s) [length pre + 1, length pre + 2, length pre + 3, length pre + 4] = Ok (le_bytes 4 ?h)" .
  moreover have "read_at ?s (length pre) = Ok 0x41" by (simp add: enc_syscall_def)
  moreover have "length pre + 4 < length ?s" by (simp add: enc_syscall_def)
  moreover have "of_le (le_bytes 4 ?h) = ?h" by (rule of_le_le_bytes) simp
  ultimately show ?thesis unfolding checkmultisig_at_def by simp
qed

lemma multisig_info_layout:
  assumes "keys \<noteq> []" and "length keys \<le> 255" and "0 < m" and "m \<le> length keys" and "\<forall>key \<in> set keys. key_size key"
  shows "script_multisig_info C T (multisig_layout (checkmultisig_hash C T) (of_nat m) keys)
    = Ok (if length keys \<le> 127 then Some (of_nat m, of_nat (length keys)) else None)"
proof -
  let ?mi = "enc_push_int (of_nat m)" and ?ks = "concat (map enc_push_data keys)" and ?ni = "enc_push_int (of_nat (length keys))"
    and ?sys = "enc_syscall (checkmultisig_hash C T)"
  let ?s = "?mi @ ?ks @ ?ni @ ?sys"
  have l: "\<not> length ?s < 4" by (simp add: enc_syscall_def)
  have m: "m \<le> 255" "m \<noteq> 0" using assms(2-4) by simp_all
  have small: "small_number ?s 0 = Ok (if 127 < m then (0, 0) else (of_nat m, length ?mi))"
    using small_number_push [of m "[]" "?ks @ ?ni @ ?sys"] m by simp
  show ?thesis
  proof (cases "127 < m")
    case True
    have "count_pubkeys ?s 0 0 = Ok (0, 0)" using count_pubkeys_stop [of ?s "[]"] first_push_byte [OF m(1)] by (simp add: enc_push_int_def Let_def)
    moreover obtain b where "checkmultisig_at C T ?s 0 = Ok b" using checkmultisig_at_safe by blast
    moreover have "0 < length ?s" using l by linarith
    ultimately show ?thesis using True l small assms(4) by (simp del: length_greater_0_conv add: multisig_layout_def script_multisig_info_def)
  next
    case False
    let ?pre = "?mi @ ?ks"
    have "hd (?ni @ ?sys) \<notin> {0x21, 0x41, 0x0C}" using first_push_byte [OF assms(2)] by (simp add: enc_push_int_def Let_def)
    moreover have "2 < length (?ni @ ?sys)" by (simp add: enc_syscall_def)
    ultimately have count: "count_pubkeys ?s (length ?mi) 0 = Ok (length ?pre, length keys)"
      using count_pubkeys_keys [OF assms(5), of "?ni @ ?sys" ?mi 0] by simp
    have n: "small_number ?s (length ?pre) = Ok (if 127 < length keys then (0, length ?pre) else (of_nat (length keys), length ?pre + length ?ni))"
      using small_number_push [OF assms(2), of ?pre ?sys] assms(1) by simp
    have "length ?pre < length ?s" by (simp add: enc_syscall_def)
    show ?thesis
    proof (cases "127 < length keys")
      case True
      obtain b where "checkmultisig_at C T ?s (length ?pre) = Ok b" using checkmultisig_at_safe by blast
      with True False l small count n \<open>length ?pre < length ?s\<close> show ?thesis
        by (simp add: multisig_layout_def script_multisig_info_def)
    next
      case small_n: False
      have "checkmultisig_at C T ?s (length ?pre + length ?ni) = Ok True" using checkmultisig_at_end [of C T "?pre @ ?ni"] by (simp add: add.assoc)
      moreover have "unat (of_nat (length keys) :: byte) = length keys" "unat (of_nat m :: byte) = m"
        using m(1) assms(2) by (simp_all add: unsigned_of_nat take_bit_nat_eq_self)
      moreover have "0 < (of_nat m :: byte)" "0 < (of_nat (length keys) :: byte)" "(of_nat m :: byte) \<le> of_nat (length keys)"
        using calculation(2,3) m(2) assms(1,4) by (auto simp: word_less_nat_alt word_le_nat_alt)
      ultimately show ?thesis using small_n False l small count n \<open>length ?pre < length ?s\<close>
        by (simp add: multisig_layout_def script_multisig_info_def)
    qed
  qed
qed

subsection \<open>Encrypting the key of an account\<close>

lemma unat_of_char: "unat (of_char c :: byte) = of_char c"
proof -
  have "(of_char c :: byte) = of_nat (of_char c)" by (simp add: of_nat_of_char)
  moreover have "of_char c < (256 :: nat)" by simp
  ultimately show ?thesis by (simp only: unsigned_of_nat) (simp add: take_bit_nat_eq_self)
qed

lemma c_text_bytes:
  assumes "no_nul s"
  shows "c_text (string_bytes s) = s"
proof -
  have "of_char c \<noteq> (0 :: byte)" if "c \<in> set s" for c
  proof
    assume "of_char c = (0 :: byte)"
    then have "of_char c = (0 :: nat)" using unat_of_char [of c] by simp
    then have "of_char c = (of_char (CHR 0x00) :: nat)" by simp
    then have "c = CHR 0x00" unfolding of_char_eq_iff .
    with assms that show False by (simp add: no_nul_def)
  qed
  then have "takeWhile (\<lambda>b. b \<noteq> 0) (string_bytes s) = string_bytes s" by (simp add: takeWhile_eq_all_conv string_bytes_def)
  then show ?thesis unfolding c_text_def by (simp only:) (simp add: string_bytes_def unat_of_char map_idI)
qed

lemma key_pair_private:
  assumes "neoc_ec_key_pair_create_from_private_key A G (Some d) = Ok kp"
  shows "neoc_ec_key_pair_get_private_key (Some kp) 32 = Ok (take 32 d)"
  using key_pair_wif [OF assms] by (simp add: neoc_ec_key_pair_get_private_key_def)

subsection \<open>Properties\<close>

text \<open>C8.  With scrypt parameters within OpenSSL's documented limits, encrypting the key of an account with a password and decrypting it with the same one gives the account its key pair back.  In between the
  account counts as locked: it has an encrypted key and refuses to export the key, but it keeps the key pair and still signs, and unlocking needs no password.\<close>

theorem account_encrypt_decrypt:
  assumes "crypto_works C" and "ciphers_ok E" and "grants A 128" and "ac_key_pair a = Some kp"
    and "neoc_ec_key_pair_create_from_private_key A G (Some d) = Ok kp" and "scrypt_admits (params_used (neoc_scrypt_to_nep2 params))"
  shows "\<exists>a' a''. neoc_account_encrypt_private_key_with_params C A T G E (Some pass) params a = (Ok (), a')
    \<and> neoc_account_is_locked_value (Some a') \<and> neoc_account_has_encrypted_private_key_value (Some a')
    \<and> neoc_account_export_wif C A (Some a') = Err NEOC_ERROR_INVALID_STATE
    \<and> neoc_account_sign A S (Some a') data = neoc_account_sign A S (Some a) data
    \<and> neoc_account_export_wif C A (Some (snd (neoc_account_unlock_internal a'))) = neoc_ec_key_pair_export_as_wif C A (Some kp)
    \<and> neoc_account_decrypt_private_key_with_params C A T G E (Some pass) params a' = (Ok (), a'')
    \<and> ac_key_pair a'' = Some kp \<and> \<not> neoc_account_is_locked_value (Some a'')"
proof -
  let ?d = "take 32 d" let ?p = "neoc_scrypt_to_nep2 params"
  from nep2_works [OF assms(1-3) key_pair_wif(3) [OF assms(5)] _ assms(6), of 128 T pass] obtain s where
    s: "neoc_nep2_encrypt C A T G E (Some ?d) (Some pass) ?p 128 = Ok s" "length s = 58" "no_nul s"
    "neoc_nep2_decrypt C A T G E (Some s) (Some pass) ?p 32 = Ok ?d" by auto
  let ?a = "a\<lparr>ac_encrypted_key := Some (string_bytes s), ac_verification_script := None, ac_is_locked := True\<rparr>"
  have "A (length s + 1)" using s(2) grantsD [OF assms(3)] by simp
  then have e: "neoc_account_encrypt_private_key_with_params C A T G E (Some pass) params a = (Ok (), ?a)"
    using key_pair_private [OF assms(5)] s(1) assms(4)
    by (simp add: neoc_account_encrypt_private_key_with_params_def neoc_account_store_encrypted_key_def neoc_account_clear_encrypted_key_def
        bind_c_def lift_c_def then_c_def Let_def)
  have "neoc_account_decrypt_private_key_with_params C A T G E (Some pass) params ?a = (Ok (), ?a\<lparr>ac_key_pair := Some kp, ac_is_locked := False\<rparr>)"
    using key_pair_wif(3) [OF assms(5)] s(3,4) by (simp add: neoc_account_decrypt_private_key_with_params_def bind_c_def lift_c_def c_text_bytes)
  moreover have "string_bytes s \<noteq> []" using s(2) by (auto simp: string_bytes_def)
  moreover have "neoc_account_sign A S (Some ?a) data = neoc_account_sign A S (Some a) data" using assms(4) by (cases data) (simp_all add: neoc_account_sign_def)
  ultimately show ?thesis using e assms(4)
    by (intro exI [of _ ?a] exI [of _ "?a\<lparr>ac_key_pair := Some kp, ac_is_locked := False\<rparr>"])
       (simp add: neoc_account_is_locked_value_def neoc_account_has_encrypted_private_key_value_def neoc_account_export_wif_def neoc_account_unlock_internal_def)
qed

text \<open>C9.  An account of several keys reports the threshold and the number of keys it was made for, and its verification script is the one of the
  sorted keys; an account made from that script alone has the same address and script hash, and reports the same numbers as long as there are at
  most 127 keys.  With 128 keys or more the numbers of a script are not recognised, and of more than 255 keys only the first \<open>n mod 256\<close> count.\<close>

theorem account_multisig_script:
  assumes "length keys \<le> 1024" and "0 < m" and "m \<le> length keys mod 256" and "\<forall>k \<in> set keys. length (pk_compressed k) = 33"
    and "crypto_works C" and "grants A 140000"
  shows "\<exists>a a' script. neoc_account_create_multisig C A T (int m) (Some (map Some keys)) = Ok a
    \<and> neoc_account_get_signing_threshold (Some a) = Ok (int m) \<and> neoc_account_get_nr_participants (Some a) = Ok (int (length keys mod 256))
    \<and> neoc_account_get_verification_script C A T (Some a) = Ok script
    \<and> script = multisig_layout (checkmultisig_hash C T) (of_nat m) (qsort_c neoc_key_entry_compare (map pk_compressed (take (length keys mod 256) keys)))
    \<and> neoc_account_create_from_verification_script C A T (Some script) = Ok a'
    \<and> neoc_account_get_address_ptr (Some a') = neoc_account_get_address_ptr (Some a)
    \<and> neoc_account_get_script_hash_ptr (Some a') = neoc_account_get_script_hash_ptr (Some a)
    \<and> (if length keys mod 256 \<le> 127
       then neoc_account_get_signing_threshold (Some a') = Ok (int m) \<and> neoc_account_get_nr_participants (Some a') = Ok (int (length keys mod 256))
       else \<not> neoc_account_is_multi_sig (Some a'))"
proof -
  let ?n = "length keys mod 256" let ?first = "take ?n keys" and ?more = "map Some (drop ?n keys)"
  have n: "0 < ?n" "?n \<le> 255" "length ?first = ?n" using assms(2,3) by simp_all
  have first: "?first \<noteq> []" "length ?first \<le> 255" "m \<le> length ?first" "\<forall>k \<in> set ?first. length (pk_compressed k) = 33"
    using n assms(3,4) by (auto dest: in_set_takeD)
  obtain acc ks where acc: "neoc_multi_sig_create A C T (of_nat m) (Some (map Some ?first @ ?more)) (of_nat (length ?first)) = Ok acc"
    "ms_verification_script acc = multisig_layout (checkmultisig_hash C T) (of_nat m) (qsort_c neoc_key_entry_compare (map pk_compressed ?first))"
    "neoc_hash160_from_script C (Some (ms_verification_script acc)) = Ok (ms_script_hash acc)" "length (ms_script_hash acc) = 20"
    "ms_threshold acc = of_nat m" "ms_public_key_count acc = of_nat (length ?first)"
    using first(1,2) assms(2) first(3,4) assms(5,6) by (rule multi_sig_create_eq)
  let ?keys = "qsort_c neoc_key_entry_compare (map pk_compressed ?first)" let ?s = "ms_verification_script acc"
  have all: "map Some ?first @ ?more = map Some keys" by (simp flip: map_append)
  have count: "(of_nat (length ?first) :: byte) = of_nat (length keys)" unfolding n(3) by (simp add: word_unat_eq_iff unsigned_of_nat take_bit_eq_mod)
  have key: "\<forall>key \<in> set ?keys. key_size key" using first(4) by (auto simp: key_size_def)
  have "length ?keys = ?n" using n(3) by simp
  then have nk: "?keys \<noteq> []" using n(1) by (metis less_numeral_extra(3) list.size(3))
  have info: "script_multisig_info C T ?s = Ok (if ?n \<le> 127 then Some (of_nat m, of_nat ?n) else None)"
    using multisig_info_layout [of ?keys m C T] nk n(3) first assms(2) key unfolding acc(2) by auto
  have "length ?s \<le> 23 + 67 * length ?keys" unfolding acc(2) by (rule length_multisig_layout) (use key in blast)
  then have "length ?s \<le> 20000" using n(2,3) by simp
  then have A: "A (length ?s)" "A sizeof_account" "A 12" "?s \<noteq> []"
    using grantsD [OF assms(6)] by (auto simp: sizeof_account_def acc(2) multisig_layout_def enc_syscall_def)
  have "grants A 100" using assms(6) by (rule grants_mono) simp
  from account_address_works [OF assms(5) this acc(4)] obtain s where s: "account_address C A (ms_script_hash acc) = Ok s" "strdup_r A s = Ok s" by blast
  let ?a = "new_account\<lparr>ac_label := Some s, ac_address := Some s, ac_script_hash := ms_script_hash acc, ac_extra := Extra_Multisig acc\<rparr>"
  let ?a' = "new_account\<lparr>ac_label := Some s, ac_address := Some s, ac_script_hash := ms_script_hash acc, ac_verification_script := Some ?s,
    ac_extra := if ?n \<le> 127 then Extra_Multisig_Info (int m) (int ?n) else Extra_None\<rparr>"
  have u: "unat (of_nat m :: byte) = m" "unat (of_nat ?n :: byte) = ?n"
    using n(2) assms(3) by (simp_all add: unsigned_of_nat take_bit_nat_eq_self)
  have ui: "uint (of_nat m :: byte) = int m" "uint (of_nat ?n :: byte) = int ?n" using u by (metis of_nat_unat)+
  have le: "m \<le> length keys" "keys \<noteq> []" using assms(2,3) mod_less_eq_dividend [of "length keys" 256] by auto
  have "neoc_account_create_multisig C A T (int m) (Some (map Some keys)) = Ok ?a"
    using acc(1) [unfolded all count] assms(1,2) le s A(2)
    by (simp add: neoc_account_create_multisig_def neoc_account_create_multisig_from_public_keys_def)
  moreover have "neoc_account_create_from_verification_script C A T (Some ?s) = Ok ?a'"
    using acc(3) s A info ui by (simp add: neoc_account_create_from_verification_script_def script_extra_def)
  moreover have "is_multisig_internal (Some ?a)" "0 < ms_threshold acc" "ms_threshold acc \<le> ms_public_key_count acc" "0 < ms_public_key_count acc"
    unfolding is_multisig_internal_def using u n assms(2,3) by (simp_all add: acc(5,6) n(3) word_less_nat_alt word_le_nat_alt)
  then have "neoc_account_get_signing_threshold (Some ?a) = Ok (int m)" "neoc_account_get_nr_participants (Some ?a) = Ok (int ?n)"
    using u ui by (simp_all add: neoc_account_get_signing_threshold_def neoc_account_get_nr_participants_def acc(5,6) n(3))
  moreover have "neoc_account_get_verification_script C A T (Some ?a) = Ok ?s"
    using A by (simp add: neoc_account_get_verification_script_def new_account_def)
  moreover have "if ?n \<le> 127 then neoc_account_get_signing_threshold (Some ?a') = Ok (int m) \<and> neoc_account_get_nr_participants (Some ?a') = Ok (int ?n)
    else \<not> neoc_account_is_multi_sig (Some ?a')"
    using n assms(2,3)
    by (simp add: neoc_account_get_signing_threshold_def neoc_account_get_nr_participants_def neoc_account_is_multi_sig_def is_multisig_internal_def)
  moreover have "neoc_account_get_address_ptr (Some ?a') = neoc_account_get_address_ptr (Some ?a)"
    "neoc_account_get_script_hash_ptr (Some ?a') = neoc_account_get_script_hash_ptr (Some ?a)"
    by (simp_all add: neoc_account_get_address_ptr_def neoc_account_get_script_hash_ptr_def)
  ultimately show ?thesis using acc(2) by (intro exI [of _ ?a] exI [of _ ?a'] exI [of _ ?s] conjI) assumption+
qed

definition demo_account :: neoc_account where
  "demo_account = new_account\<lparr>ac_label := Some ''demo'', ac_key_pair := Some \<lparr>kp_private_key = Some (replicate 32 7),
     kp_public_key = Some \<lparr>pk_compressed = 2 # replicate 32 5, pk_uncompressed = 4 # replicate 64 5, pk_is_compressed = True\<rparr>\<rparr>\<rparr>"

lemma demo_account_made:
  obtains a script where "neoc_account_create_from_key_pair_with_label toy_crypto (\<lambda>_. True) initial_interop_table demo_mul None (ac_key_pair demo_account) = Ok a"
    and "neoc_account_get_verification_script toy_crypto (\<lambda>_. True) initial_interop_table (Some a) = Ok script"
proof -
  let ?A = "\<lambda>_. True" let ?kp = "the (ac_key_pair demo_account)"
  have kp: "neoc_ec_key_pair_create_from_private_key ?A demo_mul (Some (replicate 32 7)) = Ok ?kp"
    using demo_key_pair by (simp add: demo_account_def)
  let ?key = "2 # replicate 32 5 :: byte list" and ?T = initial_interop_table
  obtain script where sc: "neoc_script_create_single_sig_verification ?A toy_crypto ?T (Some ?key) = Ok script" "script \<noteq> []"
    using single_sig_eq [of ?key ?A toy_crypto ?T] by (auto simp: key_size_def)
  obtain h where h: "neoc_hash160_from_script toy_crypto (Some script) = Ok h" "length h = 20" using toy_crypto_works by (rule from_script_works)
  obtain s where s: "account_address toy_crypto ?A h = Ok s" "strdup_r ?A s = Ok s" using account_address_works [OF toy_crypto_works _ h(2), of ?A] by auto
  let ?a = "new_account\<lparr>ac_label := Some s, ac_address := Some s, ac_script_hash := h, ac_key_pair := Some ?kp, ac_verification_script := Some script\<rparr>"
  have "neoc_account_create_from_key_pair_with_label toy_crypto ?A ?T demo_mul None (ac_key_pair demo_account) = Ok ?a"
    using kp sc(1) h(1) s
    by (simp add: demo_account_def neoc_account_create_from_key_pair_with_label_def key_pair_account_def neoc_ec_key_pair_get_private_key_def
        neoc_ec_key_pair_get_public_key_def)
  moreover have "neoc_account_get_verification_script toy_crypto ?A ?T (Some ?a) = Ok script"
    using sc(2) by (cases script) (simp_all add: neoc_account_get_verification_script_def)
  ultimately show thesis by (rule that)
qed

theorem account_encrypt_decrypt_witness:
  "\<exists>a' a''. neoc_account_encrypt_private_key_with_params toy_crypto (\<lambda>_. True) initial_interop_table demo_mul demo_ciphers (Some ''pass'') None demo_account = (Ok (), a')
     \<and> neoc_account_decrypt_private_key_with_params toy_crypto (\<lambda>_. True) initial_interop_table demo_mul demo_ciphers (Some ''pass'') None a' = (Ok (), a'')
     \<and> ac_key_pair a'' = ac_key_pair demo_account"
proof -
  have kp: "ac_key_pair demo_account = Some (the (ac_key_pair demo_account))" by (simp add: demo_account_def)
  have "neoc_ec_key_pair_create_from_private_key (\<lambda>_. True) demo_mul (Some (replicate 32 7)) = Ok (the (ac_key_pair demo_account))"
    using demo_key_pair by (simp add: demo_account_def)
  from account_encrypt_decrypt [OF toy_crypto_works demo_ciphers_ok _ kp this, of None initial_interop_table "''pass''" "\<lambda>_ _. None" None]
  show ?thesis using kp default_params_admitted(1) by (auto simp: neoc_scrypt_to_nep2_def)
qed

theorem account_multisig_script_witness:
  "\<exists>a. neoc_account_create_multisig toy_crypto (\<lambda>_. True) initial_interop_table 2 (Some (map Some [demo_key 3, demo_key 2, demo_key 9])) = Ok a
     \<and> neoc_account_get_signing_threshold (Some a) = Ok 2 \<and> neoc_account_get_nr_participants (Some a) = Ok 3"
  using account_multisig_script [of "[demo_key 3, demo_key 2, demo_key 9]" 2 toy_crypto "\<lambda>_. True" initial_interop_table] toy_crypto_works
  by (auto simp: demo_key_def)

end
