(* ===== verification/Wallet.thy ===== *)
theory Wallet
  imports Account
begin

text \<open>
  \<^verbatim>\<open>wallet/wallet.c\<close>: wallets.  A wallet keeps pointers to accounts that also the client may hold, so the accounts are in a heap that maps
  addresses to accounts; using an address without an account is a fault.  Conversions to and from NEP-6 and wallet files are left out.
\<close>

subsection \<open>The structure\<close>

record neoc_wallet =
  wl_name :: "string option"
  wl_version :: "string option"
  wl_accounts :: "nat list"
  wl_capacity :: nat
  wl_default_account :: "nat option"

record wallet_state =
  ws_wallet :: neoc_wallet
  ws_heap :: "nat \<Rightarrow> neoc_account option"

definition INITIAL_ACCOUNT_CAPACITY :: nat where "INITIAL_ACCOUNT_CAPACITY = 10"
definition sizeof_wallet :: nat where "sizeof_wallet = 56"

text \<open>The default name is not checked: when its copy is refused, the wallet has none.\<close>

definition neoc_wallet_create :: "allocator \<Rightarrow> string option \<Rightarrow> neoc_wallet result" where
  "neoc_wallet_create A name =
     bind_r (malloc_r A sizeof_wallet) (\<lambda>_.
     bind_r (case name of
               Some n \<Rightarrow> bind_r (malloc_r A (length n + 1)) (\<lambda>_. Ok (Some n))
             | None \<Rightarrow> Ok (if A 12 then Some ''NeoC Wallet'' else None)) (\<lambda>name.
     bind_r (malloc_r A 4) (\<lambda>_.
     bind_r (malloc_r A (INITIAL_ACCOUNT_CAPACITY * 8)) (\<lambda>_.
       Ok \<lparr>wl_name = name, wl_version = Some ''1.0'', wl_accounts = [], wl_capacity = INITIAL_ACCOUNT_CAPACITY, wl_default_account = None\<rparr>))))"

definition neoc_wallet_get_name_ptr :: "neoc_wallet option \<Rightarrow> string option" where
  "neoc_wallet_get_name_ptr wallet = (case wallet of None \<Rightarrow> None | Some w \<Rightarrow> wl_name w)"

definition neoc_wallet_get_name_copy :: "allocator \<Rightarrow> neoc_wallet option \<Rightarrow> string option result" where
  "neoc_wallet_get_name_copy A wallet =
     (case wallet of
        None \<Rightarrow> Err NEOC_ERROR_INVALID_ARGUMENT
      | Some w \<Rightarrow> (case wl_name w of None \<Rightarrow> Ok None | Some n \<Rightarrow> bind_r (malloc_r A (length n + 1)) (\<lambda>_. Ok (Some n))))"

subsection \<open>Accounts through pointers\<close>

definition account_at :: "wallet_state \<Rightarrow> nat \<Rightarrow> neoc_account result" where
  "account_at s p = (case ws_heap s p of None \<Rightarrow> Fault | Some a \<Rightarrow> Ok a)"

text \<open>\<^verbatim>\<open>strcmp\<close> reads the address: a null address is a fault.\<close>

definition address_at :: "wallet_state \<Rightarrow> nat \<Rightarrow> string result" where
  "address_at s p = bind_r (account_at s p) (\<lambda>a. case ac_address a of None \<Rightarrow> Fault | Some x \<Rightarrow> Ok x)"

definition modify_at :: "nat \<Rightarrow> (neoc_account, unit) cmd \<Rightarrow> (wallet_state, unit) cmd" where
  "modify_at p m s =
     (case ws_heap s p of None \<Rightarrow> (Fault, s) | Some a \<Rightarrow> (let (r, a') = m a in (r, s\<lparr>ws_heap := (ws_heap s)(p \<mapsto> a')\<rparr>)))"

text \<open>\<^verbatim>\<open>neoc_account_free\<close>: the address holds no account any more.\<close>

definition neoc_account_free :: "nat \<Rightarrow> (wallet_state, unit) cmd" where
  "neoc_account_free p s = (if ws_heap s p = None then (Fault, s) else (Ok (), s\<lparr>ws_heap := (ws_heap s)(p := None)\<rparr>))"

text \<open>The search for an address, and for a script hash, in the array of accounts.\<close>

fun find_address :: "wallet_state \<Rightarrow> string result \<Rightarrow> nat \<Rightarrow> nat list \<Rightarrow> nat option result" where
  "find_address s address i [] = Ok None"
| "find_address s address i (p # ps) =
     bind_r (address_at s p) (\<lambda>x. bind_r address (\<lambda>y. if x = y then Ok (Some i) else find_address s address (i + 1) ps))"

fun find_hash :: "wallet_state \<Rightarrow> neoc_hash160 \<Rightarrow> nat list \<Rightarrow> nat option result" where
  "find_hash s h [] = Ok None"
| "find_hash s h (p # ps) = bind_r (account_at s p) (\<lambda>a. if ac_script_hash a = h then Ok (Some p) else find_hash s h ps)"

definition set_wallet :: "neoc_wallet \<Rightarrow> wallet_state \<Rightarrow> wallet_state" where
  "set_wallet w s = s\<lparr>ws_wallet := w\<rparr>"

subsection \<open>Operations\<close>

definition resize_accounts :: "allocator \<Rightarrow> (wallet_state, unit) cmd" where
  "resize_accounts A s =
     (let w = ws_wallet s in
      if wl_capacity w \<le> length (wl_accounts w) then
        if A (wl_capacity w * 2 * 8) then (Ok (), set_wallet (w\<lparr>wl_capacity := wl_capacity w * 2\<rparr>) s) else (Err NEOC_ERROR_MEMORY, s)
      else (Ok (), s))"

definition store_account :: "nat \<Rightarrow> (wallet_state, unit) cmd" where
  "store_account p s =
     (let w = ws_wallet s in
      if length (wl_accounts w) < wl_capacity w then (Ok (), set_wallet (w\<lparr>wl_accounts := wl_accounts w @ [p]\<rparr>) s) else (Fault, s))"

definition neoc_wallet_add_account :: "allocator \<Rightarrow> nat option \<Rightarrow> (wallet_state, unit) cmd" where
  "neoc_wallet_add_account A account s =
     (case account of
        None \<Rightarrow> (Err NEOC_ERROR_INVALID_ARGUMENT, s)
      | Some p \<Rightarrow>
          (case find_address s (address_at s p) 0 (wl_accounts (ws_wallet s)) of
             Ok (Some _) \<Rightarrow> (Err NEOC_ERROR_INVALID_STATE, s)
           | Err e \<Rightarrow> (Err e, s)
           | Fault \<Rightarrow> (Fault, s)
           | Ok None \<Rightarrow>
               then_c (resize_accounts A)
               (then_c (store_account p)
                  (\<lambda>s. if length (wl_accounts (ws_wallet s)) = 1
                       then modify_at p (neoc_account_set_default True) (set_wallet ((ws_wallet s)\<lparr>wl_default_account := Some p\<rparr>) s)
                       else (Ok (), s))) s))"

definition remove_at :: "nat \<Rightarrow> 'a list \<Rightarrow> 'a list" where
  "remove_at i xs = take i xs @ drop (i + 1) xs"

definition drop_account :: "nat \<Rightarrow> nat \<Rightarrow> (wallet_state, unit) cmd" where
  "drop_account index account =
     then_c (\<lambda>s. (Ok (), set_wallet ((ws_wallet s)\<lparr>wl_accounts := remove_at index (wl_accounts (ws_wallet s))\<rparr>) s)) (neoc_account_free account)"

definition neoc_wallet_remove_account :: "string option \<Rightarrow> (wallet_state, unit) cmd" where
  "neoc_wallet_remove_account address s =
     (case address of
        None \<Rightarrow> (Err NEOC_ERROR_INVALID_ARGUMENT, s)
      | Some x \<Rightarrow>
          (case find_address s (Ok x) 0 (wl_accounts (ws_wallet s)) of
             Ok None \<Rightarrow> (Err NEOC_ERROR_INVALID_ARGUMENT, s)
           | Err e \<Rightarrow> (Err e, s)
           | Fault \<Rightarrow> (Fault, s)
           | Ok (Some index) \<Rightarrow>
               let w = ws_wallet s; account = wl_accounts w ! index in
               then_c (\<lambda>s. if Some account = wl_default_account w then
                             if 1 < length (wl_accounts w) then
                               let new = (if 0 < index then wl_accounts w ! 0 else wl_accounts w ! 1) in
                               modify_at new (neoc_account_set_default True) (set_wallet (w\<lparr>wl_default_account := Some new\<rparr>) s)
                             else (Ok (), set_wallet (w\<lparr>wl_default_account := None\<rparr>) s)
                           else (Ok (), s))
               (drop_account index account) s))"

definition neoc_wallet_get_account_by_address :: "wallet_state \<Rightarrow> string option \<Rightarrow> nat option result" where
  "neoc_wallet_get_account_by_address s address =
     (case address of
        None \<Rightarrow> Ok None
      | Some x \<Rightarrow>
          bind_r (find_address s (Ok x) 0 (wl_accounts (ws_wallet s))) (\<lambda>found.
            Ok (map_option (\<lambda>i. wl_accounts (ws_wallet s) ! i) found)))"

definition neoc_wallet_get_account_by_index :: "wallet_state \<Rightarrow> nat \<Rightarrow> nat option" where
  "neoc_wallet_get_account_by_index s index =
     (if length (wl_accounts (ws_wallet s)) \<le> index then None else Some (wl_accounts (ws_wallet s) ! index))"

definition neoc_wallet_get_account_by_script_hash :: "wallet_state \<Rightarrow> neoc_hash160 option \<Rightarrow> nat option result" where
  "neoc_wallet_get_account_by_script_hash s script_hash =
     (case script_hash of None \<Rightarrow> Ok None | Some h \<Rightarrow> find_hash s h (wl_accounts (ws_wallet s)))"

definition neoc_wallet_get_accounts :: "wallet_state \<Rightarrow> nat list" where
  "neoc_wallet_get_accounts s = wl_accounts (ws_wallet s)"

definition neoc_wallet_get_default_account_ptr :: "neoc_wallet option \<Rightarrow> nat option" where
  "neoc_wallet_get_default_account_ptr wallet = (case wallet of None \<Rightarrow> None | Some w \<Rightarrow> wl_default_account w)"

definition neoc_wallet_get_default_account_out :: "neoc_wallet option \<Rightarrow> nat result" where
  "neoc_wallet_get_default_account_out wallet =
     (case neoc_wallet_get_default_account_ptr wallet of None \<Rightarrow> Err NEOC_ERROR_NOT_FOUND | Some p \<Rightarrow> Ok p)"

definition neoc_wallet_set_default_account_str :: "string option \<Rightarrow> (wallet_state, unit) cmd" where
  "neoc_wallet_set_default_account_str address s =
     (case address of
        None \<Rightarrow> (Err NEOC_ERROR_INVALID_ARGUMENT, s)
      | Some x \<Rightarrow>
          (case neoc_wallet_get_account_by_address s (Some x) of
             Ok None \<Rightarrow> (Err NEOC_ERROR_INVALID_ARGUMENT, s)
           | Err e \<Rightarrow> (Err e, s)
           | Fault \<Rightarrow> (Fault, s)
           | Ok (Some account) \<Rightarrow>
               then_c (case wl_default_account (ws_wallet s) of
                         None \<Rightarrow> return_c ()
                       | Some old \<Rightarrow> modify_at old (neoc_account_set_default False))
               (then_c (\<lambda>s. (Ok (), set_wallet ((ws_wallet s)\<lparr>wl_default_account := Some account\<rparr>) s))
                       (modify_at account (neoc_account_set_default True))) s))"

definition neoc_wallet_set_default_account_hash :: "crypto \<Rightarrow> allocator \<Rightarrow> neoc_hash160 option \<Rightarrow> (wallet_state, unit) cmd" where
  "neoc_wallet_set_default_account_hash C A script_hash =
     (case script_hash of
        None \<Rightarrow> fail_c NEOC_ERROR_INVALID_ARGUMENT
      | Some h \<Rightarrow>
          bind_c (lift_c (neoc_hash160_to_address C A (Some h) NEOC_ADDRESS_LENGTH)) (\<lambda>address.
            neoc_wallet_set_default_account_str (Some address)))"

definition neoc_wallet_set_default_account_account :: "crypto \<Rightarrow> allocator \<Rightarrow> nat option \<Rightarrow> (wallet_state, unit) cmd" where
  "neoc_wallet_set_default_account_account C A account s =
     (case account of
        None \<Rightarrow> (Err NEOC_ERROR_INVALID_ARGUMENT, s)
      | Some p \<Rightarrow>
          (case account_at s p of
             Fault \<Rightarrow> (Fault, s)
           | Err e \<Rightarrow> (Err e, s)
           | Ok a \<Rightarrow>
               (case neoc_account_get_address_ptr (Some a) of
                  None \<Rightarrow>
                    bind_c (lift_c (neoc_hash160_to_address C A (neoc_account_get_script_hash_ptr (Some a)) NEOC_ADDRESS_LENGTH)) (\<lambda>address.
                      neoc_wallet_set_default_account_str (Some address)) s
                | Some x \<Rightarrow> neoc_wallet_set_default_account_str (Some x) s)))"

text \<open>
  The functions that make an account and add it: \<open>p\<close> is the address that the allocation of the account returns.  They return the pointer, or
  null for any failure.
\<close>

definition add_new :: "allocator \<Rightarrow> nat \<Rightarrow> neoc_account result \<Rightarrow> (wallet_state, nat option) cmd" where
  "add_new A p account s =
     (case account of
        Fault \<Rightarrow> (Fault, s)
      | Err _ \<Rightarrow> (Ok None, s)
      | Ok a \<Rightarrow>
          (case neoc_wallet_add_account A (Some p) (s\<lparr>ws_heap := (ws_heap s)(p \<mapsto> a)\<rparr>) of
             (Ok _, s') \<Rightarrow> (Ok (Some p), s')
           | (Err _, s') \<Rightarrow> then_c (neoc_account_free p) (return_c None) s'
           | (Fault, s') \<Rightarrow> (Fault, s')))"

definition neoc_wallet_create_account ::
  "(nat \<Rightarrow> byte list option) \<Rightarrow> crypto \<Rightarrow> allocator \<Rightarrow> interop_table \<Rightarrow> base_mul \<Rightarrow> nat \<Rightarrow> string option \<Rightarrow> (wallet_state, nat option) cmd" where
  "neoc_wallet_create_account R C A T G p label = add_new A p (neoc_account_create_with_label R C A T G label)"

definition neoc_wallet_import_from_wif ::
  "crypto \<Rightarrow> allocator \<Rightarrow> interop_table \<Rightarrow> base_mul \<Rightarrow> nat \<Rightarrow> string option \<Rightarrow> string option \<Rightarrow> (wallet_state, nat option) cmd" where
  "neoc_wallet_import_from_wif C A T G p wif label =
     (case wif of None \<Rightarrow> return_c None | Some x \<Rightarrow> add_new A p (neoc_account_create_from_wif_with_label C A T G label (Some x)))"

definition neoc_wallet_import_from_nep2 ::
  "crypto \<Rightarrow> allocator \<Rightarrow> interop_table \<Rightarrow> base_mul \<Rightarrow> ciphers \<Rightarrow> nat \<Rightarrow> string option \<Rightarrow> string option \<Rightarrow> string option
     \<Rightarrow> (wallet_state, nat option) cmd" where
  "neoc_wallet_import_from_nep2 C A T G E p nep2 passphrase label =
     (case (nep2, passphrase) of
        (Some x, Some pass) \<Rightarrow> add_new A p (neoc_account_create_from_nep2_with_label C A T G E label (Some x) (Some pass))
      | _ \<Rightarrow> return_c None)"

definition neoc_wallet_contains :: "wallet_state \<Rightarrow> string option \<Rightarrow> bool result" where
  "neoc_wallet_contains s address = bind_r (neoc_wallet_get_account_by_address s address) (\<lambda>p. Ok (p \<noteq> None))"

definition neoc_wallet_get_account_count_value :: "neoc_wallet option \<Rightarrow> nat" where
  "neoc_wallet_get_account_count_value wallet = (case wallet of None \<Rightarrow> 0 | Some w \<Rightarrow> length (wl_accounts w))"

definition neoc_wallet_get_account_count_out :: "neoc_wallet option \<Rightarrow> nat result" where
  "neoc_wallet_get_account_count_out wallet = Ok (neoc_wallet_get_account_count_value wallet)"

definition neoc_wallet_lock_all :: "(wallet_state, unit) cmd" where
  "neoc_wallet_lock_all s = foreach_c (\<lambda>p. modify_at p neoc_account_lock_internal) (wl_accounts (ws_wallet s)) s"

definition neoc_wallet_unlock_all :: "(wallet_state, unit) cmd" where
  "neoc_wallet_unlock_all s = foreach_c (\<lambda>p. modify_at p neoc_account_unlock_internal) (wl_accounts (ws_wallet s)) s"

definition neoc_wallet_free :: "(wallet_state, unit) cmd" where
  "neoc_wallet_free s = foreach_c neoc_account_free (wl_accounts (ws_wallet s)) s"

subsection \<open>What a wallet is\<close>

text \<open>
  The client sees a list of addresses without repetitions and a default among them.  The invariant ties this to the pointers and the flags of the
  accounts: exactly the default account has its flag set.
\<close>

definition addr_of :: "wallet_state \<Rightarrow> nat \<Rightarrow> string" where
  "addr_of s p = (case ws_heap s p of Some a \<Rightarrow> (case ac_address a of Some x \<Rightarrow> x | None \<Rightarrow> []) | None \<Rightarrow> [])"

definition has_address :: "wallet_state \<Rightarrow> nat \<Rightarrow> bool" where
  "has_address s p \<longleftrightarrow> (case ws_heap s p of Some a \<Rightarrow> ac_address a \<noteq> None | None \<Rightarrow> False)"

definition flagged :: "wallet_state \<Rightarrow> nat \<Rightarrow> bool" where
  "flagged s p \<longleftrightarrow> (case ws_heap s p of Some a \<Rightarrow> ac_is_default a | None \<Rightarrow> False)"

definition wallet_inv :: "wallet_state \<Rightarrow> bool" where
  "wallet_inv s \<longleftrightarrow>
     (let w = ws_wallet s in
      (\<forall>p \<in> set (wl_accounts w). has_address s p \<and> (flagged s p \<longleftrightarrow> wl_default_account w = Some p))
    \<and> distinct (map (addr_of s) (wl_accounts w)) \<and> length (wl_accounts w) \<le> wl_capacity w \<and> 0 < wl_capacity w
    \<and> (case wl_default_account w of None \<Rightarrow> wl_accounts w = [] | Some p \<Rightarrow> p \<in> set (wl_accounts w)))"

definition view :: "wallet_state \<Rightarrow> string list \<times> string option" where
  "view s = (map (addr_of s) (wl_accounts (ws_wallet s)), map_option (addr_of s) (wl_default_account (ws_wallet s)))"

text \<open>The operations on the list of addresses.\<close>

definition spec_add :: "string \<Rightarrow> string list \<times> string option \<Rightarrow> string list \<times> string option" where
  "spec_add x v = (fst v @ [x], if fst v = [] then Some x else snd v)"

definition spec_remove :: "string \<Rightarrow> string list \<times> string option \<Rightarrow> string list \<times> string option" where
  "spec_remove x v =
     (let rest = remove1 x (fst v) in (rest, if snd v = Some x then (if rest = [] then None else Some (hd rest)) else snd v))"

definition spec_default :: "string \<Rightarrow> string list \<times> string option \<Rightarrow> string list \<times> string option" where
  "spec_default x v = (fst v, Some x)"

subsection \<open>Lemmas\<close>

lemma address_at_ok: "has_address s p \<Longrightarrow> address_at s p = Ok (addr_of s p)"
  by (auto simp: has_address_def address_at_def account_at_def addr_of_def split: option.splits)

lemma find_address_cases:
  assumes "\<forall>p \<in> set ps. has_address s p"
  obtains (absent) "x \<notin> set (map (addr_of s) ps)" and "find_address s (Ok x) i ps = Ok None"
  | (present) k where "k < length ps" and "addr_of s (ps ! k) = x" and "find_address s (Ok x) i ps = Ok (Some (i + k))"
proof -
  have "(x \<notin> set (map (addr_of s) ps) \<and> find_address s (Ok x) i ps = Ok None)
      \<or> (\<exists>k < length ps. addr_of s (ps ! k) = x \<and> find_address s (Ok x) i ps = Ok (Some (i + k)))"
    using assms
  proof (induction ps arbitrary: i)
    case (Cons p ps)
    have p: "address_at s p = Ok (addr_of s p)" using Cons.prems by (simp add: address_at_ok)
    show ?case
    proof (cases "addr_of s p = x")
      case False
      have "\<forall>p \<in> set ps. has_address s p" using Cons.prems by simp
      from Cons.IH [OF this, of "i + 1"] show ?thesis
      proof (elim disjE)
        assume "\<exists>k < length ps. addr_of s (ps ! k) = x \<and> find_address s (Ok x) (i + 1) ps = Ok (Some (i + 1 + k))"
        then obtain k where "k < length ps" "addr_of s (ps ! k) = x" "find_address s (Ok x) (i + 1) ps = Ok (Some (i + 1 + k))" by blast
        then show ?thesis using p False by (intro disjI2 exI [of _ "Suc k"]) simp
      qed (use p False in auto)
    qed (use p in auto)
  qed simp
  then show thesis using that by blast
qed

lemma remove_at_map: "map f (remove_at k xs) = remove_at k (map f xs)"
  by (simp add: remove_at_def take_map drop_map)

lemma remove_at_remove1: "distinct xs \<Longrightarrow> k < length xs \<Longrightarrow> remove_at k xs = remove1 (xs ! k) xs"
proof (induction xs arbitrary: k)
  case (Cons x xs)
  show ?case
  proof (cases k)
    case (Suc j)
    then have "xs ! j \<noteq> x" using Cons.prems by (metis Suc_less_eq distinct.simps(2) length_Cons nth_mem)
    then show ?thesis using Cons Suc by (simp add: remove_at_def)
  qed (simp add: remove_at_def)
qed simp

lemma hd_remove_at: "1 < length xs \<Longrightarrow> k < length xs \<Longrightarrow> hd (remove_at k xs) = (if 0 < k then xs ! 0 else xs ! 1)"
  by (cases xs; cases k) (auto simp: remove_at_def hd_conv_nth nth_append)

lemma wallet_invI:
  assumes "wl_accounts (ws_wallet s) = ps" and "wl_default_account (ws_wallet s) = d" and "length ps \<le> wl_capacity (ws_wallet s)" and "0 < wl_capacity (ws_wallet s)"
    and "distinct (map (addr_of s) ps)" and "\<And>q. q \<in> set ps \<Longrightarrow> has_address s q" and "\<And>q. q \<in> set ps \<Longrightarrow> flagged s q \<longleftrightarrow> d = Some q"
    and "case d of None \<Rightarrow> ps = [] | Some p \<Rightarrow> p \<in> set ps"
  shows "wallet_inv s"
  using assms unfolding wallet_inv_def by auto

lemma inv_distinct: "wallet_inv s \<Longrightarrow> distinct (wl_accounts (ws_wallet s))"
  by (auto simp: wallet_inv_def Let_def distinct_map)

lemma inv_addresses: "wallet_inv s \<Longrightarrow> p \<in> set (wl_accounts (ws_wallet s)) \<Longrightarrow> has_address s p"
  by (simp add: wallet_inv_def Let_def)

lemma inv_flags: "wallet_inv s \<Longrightarrow> p \<in> set (wl_accounts (ws_wallet s)) \<Longrightarrow> flagged s p \<longleftrightarrow> wl_default_account (ws_wallet s) = Some p"
  by (simp add: wallet_inv_def Let_def)

text \<open>Changing an account without its address changes only flags.\<close>

lemma modify_at_ok:
  assumes "has_address s p" and "\<And>a. m a = (Ok (), f a)" and "\<And>a. ac_address (f a) = ac_address a"
  obtains s' where "modify_at p m s = (Ok (), s')" and "ws_wallet s' = ws_wallet s" and "has_address s' = has_address s" and "addr_of s' = addr_of s"
    and "\<And>q. q \<noteq> p \<Longrightarrow> ws_heap s' q = ws_heap s q" and "ws_heap s' p = map_option f (ws_heap s p)"
proof -
  from assms(1) obtain a where a: "ws_heap s p = Some a" by (auto simp: has_address_def split: option.splits)
  let ?s = "s\<lparr>ws_heap := (ws_heap s)(p \<mapsto> f a)\<rparr>"
  have "modify_at p m s = (Ok (), ?s)" using a assms(2) by (simp add: modify_at_def)
  moreover have "has_address ?s = has_address s" "addr_of ?s = addr_of s"
    using a assms(3) by (auto simp: has_address_def addr_of_def fun_eq_iff)
  ultimately show thesis using a by (intro that [of ?s]) simp_all
qed

definition fits :: "allocator \<Rightarrow> wallet_state \<Rightarrow> bool" where
  "fits A s \<longleftrightarrow> length (wl_accounts (ws_wallet s)) < wl_capacity (ws_wallet s) \<or> A (wl_capacity (ws_wallet s) * 2 * 8)"

lemma add_account_step:
  assumes "wallet_inv s" and "has_address s p" and "flagged s p \<longrightarrow> p \<in> set (wl_accounts (ws_wallet s))"
  obtains (present) "addr_of s p \<in> set (fst (view s))" and "neoc_wallet_add_account A (Some p) s = (Err NEOC_ERROR_INVALID_STATE, s)"
  | (full) "addr_of s p \<notin> set (fst (view s))" and "\<not> fits A s" and "neoc_wallet_add_account A (Some p) s = (Err NEOC_ERROR_MEMORY, s)"
  | (added) s' where "addr_of s p \<notin> set (fst (view s))" and "fits A s" and "neoc_wallet_add_account A (Some p) s = (Ok (), s')"
      and "wallet_inv s'" and "view s' = spec_add (addr_of s p) (view s)" and "addr_of s' = addr_of s"
proof -
  let ?w = "ws_wallet s" let ?ps = "wl_accounts ?w"
  have ok: "\<forall>q \<in> set ?ps. has_address s q" using inv_addresses [OF assms(1)] by blast
  note a = address_at_ok [OF assms(2)]
  from find_address_cases [OF ok, of "addr_of s p" 0] show thesis
  proof cases
    case absent: 1
    then have new: "addr_of s p \<notin> set (fst (view s))" "p \<notin> set ?ps" by (auto simp: view_def)
    show thesis
    proof (cases "fits A s")
      case False
      then have "neoc_wallet_add_account A (Some p) s = (Err NEOC_ERROR_MEMORY, s)"
        using absent(2) a by (auto simp: neoc_wallet_add_account_def resize_accounts_def fits_def Let_def then_c_def bind_c_def)
      with new(1) False show thesis by (rule full)
    next
      case True
      let ?cap = "if wl_capacity ?w \<le> length ?ps then wl_capacity ?w * 2 else wl_capacity ?w"
      let ?s1 = "set_wallet (?w\<lparr>wl_capacity := ?cap, wl_accounts := ?ps @ [p]\<rparr>) s"
      have cap: "length ?ps \<le> wl_capacity ?w" "0 < wl_capacity ?w" using assms(1) by (simp_all add: wallet_inv_def Let_def)
      then have run: "neoc_wallet_add_account A (Some p) s = (if ?ps = [] then
          modify_at p (neoc_account_set_default True) (set_wallet ((ws_wallet ?s1)\<lparr>wl_default_account := Some p\<rparr>) ?s1) else (Ok (), ?s1))"
        using absent(2) a True
        by (auto simp: neoc_wallet_add_account_def resize_accounts_def store_account_def fits_def set_wallet_def Let_def then_c_def bind_c_def)
      show thesis
      proof (cases "?ps = []")
        case True
        let ?s2 = "set_wallet ((ws_wallet ?s1)\<lparr>wl_default_account := Some p\<rparr>) ?s1"
        have h: "ws_heap ?s2 = ws_heap s" by (simp add: set_wallet_def)
        then have same: "has_address ?s2 = has_address s" "addr_of ?s2 = addr_of s" by (simp_all add: has_address_def addr_of_def fun_eq_iff)
        have "has_address ?s2 p" using same assms(2) by simp
        from modify_at_ok [OF this, of "neoc_account_set_default True" "\<lambda>a. a\<lparr>ac_is_default := True\<rparr>"] obtain s' where
          s': "modify_at p (neoc_account_set_default True) ?s2 = (Ok (), s')" "ws_wallet s' = ws_wallet ?s2" "has_address s' = has_address ?s2"
          "addr_of s' = addr_of ?s2" "ws_heap s' p = map_option (\<lambda>a. a\<lparr>ac_is_default := True\<rparr>) (ws_heap ?s2 p)"
          by (auto simp: neoc_account_set_default_def)
        have fl: "flagged s' p" using s'(5) assms(2) h by (auto simp: flagged_def has_address_def split: option.splits)
        have w': "ws_wallet s' = ?w\<lparr>wl_capacity := ?cap, wl_accounts := [p], wl_default_account := Some p\<rparr>"
          using s'(2) True by (simp add: set_wallet_def)
        have "wallet_inv s'" unfolding wallet_inv_def w' Let_def using fl s'(3) same assms(2) cap True by simp
        moreover have "view s' = spec_add (addr_of s p) (view s)" using True s'(4) same by (simp add: view_def w' spec_add_def)
        ultimately show thesis using new(1) \<open>fits A s\<close> run True s'(1,4) same by (intro added [of s']) simp_all
      next
        case False
        have h: "ws_heap ?s1 = ws_heap s" by (simp add: set_wallet_def)
        then have same: "has_address ?s1 = has_address s" "addr_of ?s1 = addr_of s" "flagged ?s1 = flagged s"
          by (simp_all add: has_address_def addr_of_def flagged_def fun_eq_iff)
        have w': "ws_wallet ?s1 = ?w\<lparr>wl_capacity := ?cap, wl_accounts := ?ps @ [p]\<rparr>" by (simp add: set_wallet_def)
        obtain d where d: "wl_default_account ?w = Some d" "d \<in> set ?ps" using assms(1) False by (auto simp: wallet_inv_def Let_def split: option.splits)
        have "\<not> flagged s p" using assms(3) new(2) by blast
        moreover have "d \<noteq> p" using d(2) new(2) by blast
        moreover have "distinct (map (addr_of s) (?ps @ [p]))" using new(1) assms(1) by (simp add: wallet_inv_def Let_def view_def)
        ultimately have "wallet_inv ?s1" unfolding wallet_inv_def w' Let_def
          using same assms(1,2) cap d ok inv_flags [OF assms(1)] by auto
        moreover have "view ?s1 = spec_add (addr_of s p) (view s)" using False same by (simp add: view_def w' spec_add_def)
        ultimately show thesis using new(1) \<open>fits A s\<close> run False same by (intro added [of ?s1]) simp_all
      qed
    qed
  next
    case present: (2 k)
    then have "addr_of s p \<in> addr_of s ` set ?ps" by (metis imageI nth_mem)
    then have "addr_of s p \<in> set (fst (view s))" by (simp add: view_def)
    moreover have "neoc_wallet_add_account A (Some p) s = (Err NEOC_ERROR_INVALID_STATE, s)"
      using present a by (simp add: neoc_wallet_add_account_def)
    ultimately show thesis by (rule that(1))
  qed
qed

lemma removal_facts:
  assumes "wallet_inv s" and "k < length (wl_accounts (ws_wallet s))"
  shows "set (remove_at k (wl_accounts (ws_wallet s))) = set (wl_accounts (ws_wallet s)) - {wl_accounts (ws_wallet s) ! k}"
    and "map (addr_of s) (remove_at k (wl_accounts (ws_wallet s)))
      = remove1 (addr_of s (wl_accounts (ws_wallet s) ! k)) (map (addr_of s) (wl_accounts (ws_wallet s)))"
    and "wl_default_account (ws_wallet s) = Some (wl_accounts (ws_wallet s) ! k) \<longleftrightarrow> snd (view s) = Some (addr_of s (wl_accounts (ws_wallet s) ! k))"
proof -
  let ?ps = "wl_accounts (ws_wallet s)" let ?p = "?ps ! k" let ?rest = "remove_at k ?ps"
  have dm: "distinct (map (addr_of s) ?ps)" using assms(1) by (simp add: wallet_inv_def Let_def)
  show "set ?rest = set ?ps - {?p}" using remove_at_remove1 [OF inv_distinct [OF assms(1)] assms(2)] inv_distinct [OF assms(1)] by simp
  show "map (addr_of s) ?rest = remove1 (addr_of s ?p) (map (addr_of s) ?ps)"
    using remove_at_remove1 [OF dm, of k] assms(2) by (simp add: remove_at_map)
  show "wl_default_account (ws_wallet s) = Some ?p \<longleftrightarrow> snd (view s) = Some (addr_of s ?p)"
  proof
    assume "snd (view s) = Some (addr_of s ?p)"
    then obtain d where d: "wl_default_account (ws_wallet s) = Some d" "addr_of s d = addr_of s ?p" by (auto simp: view_def)
    then have "d \<in> set ?ps" using assms(1) by (auto simp: wallet_inv_def Let_def)
    then have "d = ?p" using d(2) nth_mem [OF assms(2)] dm by (metis distinct_map inj_onD)
    then show "wl_default_account (ws_wallet s) = Some ?p" using d(1) by simp
  qed (simp add: view_def)
qed

lemma drop_account_step:
  assumes "wallet_inv s" and "k < length (wl_accounts (ws_wallet s))"
    and "ws_wallet s1 = (ws_wallet s)\<lparr>wl_default_account := d\<rparr>" and "has_address s1 = has_address s" and "addr_of s1 = addr_of s"
    and "\<And>q. q \<in> set (remove_at k (wl_accounts (ws_wallet s))) \<Longrightarrow> flagged s1 q \<longleftrightarrow> d = Some q"
    and "case d of None \<Rightarrow> remove_at k (wl_accounts (ws_wallet s)) = [] | Some q \<Rightarrow> q \<in> set (remove_at k (wl_accounts (ws_wallet s)))"
    and "d = (if snd (view s) = Some (addr_of s (wl_accounts (ws_wallet s) ! k))
          then (if remove_at k (wl_accounts (ws_wallet s)) = [] then None else Some (hd (remove_at k (wl_accounts (ws_wallet s)))))
          else wl_default_account (ws_wallet s))"
  obtains s' where "drop_account k (wl_accounts (ws_wallet s) ! k) s1 = (Ok (), s')" and "wallet_inv s'"
    and "view s' = spec_remove (addr_of s (wl_accounts (ws_wallet s) ! k)) (view s)"
proof -
  let ?w = "ws_wallet s" let ?ps = "wl_accounts ?w" let ?p = "?ps ! k" let ?rest = "remove_at k ?ps"
  let ?s = "s1\<lparr>ws_wallet := ?w\<lparr>wl_default_account := d, wl_accounts := ?rest\<rparr>, ws_heap := (ws_heap s1)(?p := None)\<rparr>"
  note facts = removal_facts [OF assms(1,2)]
  have "has_address s1 ?p" unfolding assms(4) using inv_addresses [OF assms(1)] assms(2) by simp
  then have "ws_heap s1 ?p \<noteq> None" by (auto simp: has_address_def split: option.splits)
  then have r: "drop_account k ?p s1 = (Ok (), ?s)"
    using assms(3) by (simp add: drop_account_def then_c_def bind_c_def neoc_account_free_def set_wallet_def)
  have on: "has_address ?s q = has_address s q" "addr_of ?s q = addr_of s q" "flagged ?s q = flagged s1 q" if "q \<noteq> ?p" for q
    using that fun_cong [OF assms(4), of q] fun_cong [OF assms(5), of q] by (simp_all add: has_address_def addr_of_def flagged_def)
  have q: "q \<noteq> ?p" if "q \<in> set ?rest" for q using that facts(1) by auto
  have m: "map (addr_of ?s) ?rest = map (addr_of s) ?rest" using on(2) q by (intro map_cong refl) simp
  have "distinct (map (addr_of ?s) ?rest)" unfolding m facts(2) using assms(1) by (intro distinct_remove1) (simp add: wallet_inv_def Let_def)
  moreover have "length ?rest \<le> wl_capacity ?w" "0 < wl_capacity ?w" using assms(1,2) by (auto simp: wallet_inv_def Let_def remove_at_def)
  moreover have "has_address ?s q" "flagged ?s q \<longleftrightarrow> d = Some q" if "q \<in> set ?rest" for q
    using on [OF q [OF that]] assms(6) [OF that] inv_addresses [OF assms(1), of q] that facts(1) by auto
  ultimately have inv: "wallet_inv ?s" using assms(7) by (intro wallet_invI [of ?s ?rest d]) simp_all
  have "map_option (addr_of ?s) d = map_option (addr_of s) d" using assms(7) q on(2) by (cases d) auto
  moreover have "remove1 (addr_of s ?p) (fst (view s)) = map (addr_of s) ?rest" using facts(2) by (simp add: view_def)
  then have "spec_remove (addr_of s ?p) (view s) = (map (addr_of s) ?rest, map_option (addr_of s) d)"
    unfolding spec_remove_def Let_def by (simp add: assms(8) hd_map) (simp add: view_def)
  ultimately have "view ?s = spec_remove (addr_of s ?p) (view s)" using m by (simp add: view_def)
  with r inv show thesis by (intro that [of ?s])
qed

lemma remove_account_step:
  assumes "wallet_inv s"
  obtains (absent) "x \<notin> set (fst (view s))" and "neoc_wallet_remove_account (Some x) s = (Err NEOC_ERROR_INVALID_ARGUMENT, s)"
  | (removed) s' where "x \<in> set (fst (view s))" and "neoc_wallet_remove_account (Some x) s = (Ok (), s')" and "wallet_inv s'"
      and "view s' = spec_remove x (view s)"
proof -
  let ?w = "ws_wallet s" let ?ps = "wl_accounts ?w"
  have ok: "\<forall>q \<in> set ?ps. has_address s q" using inv_addresses [OF assms] by blast
  from find_address_cases [OF ok, of x 0] show thesis
  proof cases
    case 1
    then show thesis by (intro absent) (simp_all add: view_def neoc_wallet_remove_account_def)
  next
    case (2 k)
    let ?p = "?ps ! k" let ?rest = "remove_at k ?ps"
    have p: "?p \<in> set ?ps" using 2(1) by simp
    have x: "x \<in> set (fst (view s))" using p 2(2) by (auto simp: view_def)
    note facts = removal_facts [OF assms 2(1), unfolded 2(2)]
    note finish = drop_account_step [OF assms 2(1), unfolded 2(2)]
    show thesis
    proof (cases "wl_default_account ?w = Some ?p")
      case False
      then have "neoc_wallet_remove_account (Some x) s = drop_account k ?p s"
        using 2 by (simp add: neoc_wallet_remove_account_def Let_def then_c_def bind_c_def)
      moreover obtain q where "wl_default_account ?w = Some q" "q \<in> set ?ps"
        using assms p by (auto simp: wallet_inv_def Let_def split: option.splits)
      moreover have "flagged s q \<longleftrightarrow> wl_default_account ?w = Some q" if "q \<in> set ?rest" for q using that facts(1) by (intro inv_flags [OF assms]) auto
      ultimately obtain s' where "drop_account k ?p s = (Ok (), s')" "wallet_inv s'" "view s' = spec_remove x (view s)"
        using False facts(1,3) by (auto intro: finish [of s "wl_default_account ?w"])
      with \<open>neoc_wallet_remove_account (Some x) s = drop_account k ?p s\<close> x show thesis by (intro removed [of s']) simp_all
    next
      case True
      show thesis
      proof (cases "1 < length ?ps")
        case False
        then have "length ?rest = 0" using 2(1) by (simp add: remove_at_def)
        then have "?rest = []" by simp
        moreover have "neoc_wallet_remove_account (Some x) s = drop_account k ?p (set_wallet (?w\<lparr>wl_default_account := None\<rparr>) s)"
          using 2 True False by (simp add: neoc_wallet_remove_account_def Let_def then_c_def bind_c_def)
        ultimately obtain s' where "neoc_wallet_remove_account (Some x) s = (Ok (), s')" "wallet_inv s'" "view s' = spec_remove x (view s)"
          using True facts(3)
          by (auto intro: finish [of "set_wallet (?w\<lparr>wl_default_account := None\<rparr>) s" None] simp: set_wallet_def has_address_def addr_of_def fun_eq_iff)
        with x show thesis by (intro removed [of s'])
      next
        case many: True
        define new where "new = (if 0 < k then ?ps ! 0 else ?ps ! 1)"
        have ne: "?rest \<noteq> []" using many 2(1) by (auto simp: remove_at_def)
        have new: "new = hd ?rest" "hd ?rest \<in> set ?rest"
          using hd_remove_at [OF many 2(1)] hd_in_set [OF ne] unfolding new_def by simp_all
        let ?s0 = "set_wallet (?w\<lparr>wl_default_account := Some new\<rparr>) s"
        have same: "has_address ?s0 = has_address s" "addr_of ?s0 = addr_of s" "ws_heap ?s0 = ws_heap s"
          by (simp_all add: has_address_def addr_of_def set_wallet_def fun_eq_iff)
        have "has_address ?s0 new" using new ok facts(1) same by auto
        from modify_at_ok [OF this, of "neoc_account_set_default True" "\<lambda>a. a\<lparr>ac_is_default := True\<rparr>"] obtain s1 where
          s1: "modify_at new (neoc_account_set_default True) ?s0 = (Ok (), s1)" "ws_wallet s1 = ws_wallet ?s0" "has_address s1 = has_address ?s0"
            "addr_of s1 = addr_of ?s0" "\<And>q. q \<noteq> new \<Longrightarrow> ws_heap s1 q = ws_heap ?s0 q"
            "ws_heap s1 new = map_option (\<lambda>a. a\<lparr>ac_is_default := True\<rparr>) (ws_heap ?s0 new)"
          by (auto simp: neoc_account_set_default_def)
        have run: "neoc_wallet_remove_account (Some x) s = drop_account k ?p s1"
          using 2 True many s1(1) [unfolded new_def] by (simp add: neoc_wallet_remove_account_def Let_def then_c_def bind_c_def)
        have fl: "flagged s1 q \<longleftrightarrow> Some new = Some q" if "q \<in> set ?rest" for q
        proof (cases "q = new")
          case True
          then show ?thesis using s1(6) same \<open>has_address ?s0 new\<close> by (auto simp: flagged_def has_address_def split: option.splits)
        next
          case False
          then have "flagged s1 q = flagged s q" using s1(5) same by (simp add: flagged_def)
          also have "\<dots> \<longleftrightarrow> wl_default_account ?w = Some q" using that facts(1) by (intro inv_flags [OF assms]) auto
          finally show ?thesis using False that facts(1) True by auto
        qed
        obtain s' where "drop_account k ?p s1 = (Ok (), s')" "wallet_inv s'" "view s' = spec_remove x (view s)"
          by (rule finish [of s1 "Some new"]) (use s1(2-4) same fl new ne facts(3) True in \<open>simp_all add: set_wallet_def\<close>)
        with x run show thesis by (intro removed [of s']) simp_all
      qed
    qed
  qed
qed

lemma set_default_step:
  assumes "wallet_inv s"
  obtains (absent) "x \<notin> set (fst (view s))" and "neoc_wallet_set_default_account_str (Some x) s = (Err NEOC_ERROR_INVALID_ARGUMENT, s)"
  | (changed) s' where "x \<in> set (fst (view s))" and "neoc_wallet_set_default_account_str (Some x) s = (Ok (), s')" and "wallet_inv s'"
      and "view s' = spec_default x (view s)" and "addr_of s' = addr_of s"
proof -
  let ?w = "ws_wallet s" let ?ps = "wl_accounts ?w"
  have ok: "\<forall>q \<in> set ?ps. has_address s q" using inv_addresses [OF assms] by blast
  from find_address_cases [OF ok, of x 0] show thesis
  proof cases
    case 1
    then show thesis
      by (intro absent) (simp_all add: view_def neoc_wallet_set_default_account_str_def neoc_wallet_get_account_by_address_def)
  next
    case (2 k)
    let ?p = "?ps ! k"
    have p: "?p \<in> set ?ps" "has_address s ?p" using 2(1) ok by simp_all
    then obtain old where old: "wl_default_account ?w = Some old" "old \<in> set ?ps" using assms by (auto simp: wallet_inv_def Let_def split: option.splits)
    have "has_address s old" using old(2) ok by blast
    from modify_at_ok [OF this, of "neoc_account_set_default False" "\<lambda>a. a\<lparr>ac_is_default := False\<rparr>"] obtain s1 where
      s1: "modify_at old (neoc_account_set_default False) s = (Ok (), s1)" "ws_wallet s1 = ?w" "has_address s1 = has_address s"
        "addr_of s1 = addr_of s" "\<And>q. q \<noteq> old \<Longrightarrow> ws_heap s1 q = ws_heap s q" "ws_heap s1 old = map_option (\<lambda>a. a\<lparr>ac_is_default := False\<rparr>) (ws_heap s old)"
      by (auto simp: neoc_account_set_default_def)
    let ?s2 = "set_wallet (?w\<lparr>wl_default_account := Some ?p\<rparr>) s1"
    have s2: "has_address ?s2 = has_address s" "addr_of ?s2 = addr_of s" "ws_heap ?s2 = ws_heap s1"
      using s1(3,4) by (simp_all add: set_wallet_def has_address_def addr_of_def fun_eq_iff)
    have "has_address ?s2 ?p" using s2(1) p(2) by simp
    from modify_at_ok [OF this, of "neoc_account_set_default True" "\<lambda>a. a\<lparr>ac_is_default := True\<rparr>"] obtain s' where
      s': "modify_at ?p (neoc_account_set_default True) ?s2 = (Ok (), s')" "ws_wallet s' = ws_wallet ?s2" "has_address s' = has_address ?s2"
        "addr_of s' = addr_of ?s2" "\<And>q. q \<noteq> ?p \<Longrightarrow> ws_heap s' q = ws_heap ?s2 q" "ws_heap s' ?p = map_option (\<lambda>a. a\<lparr>ac_is_default := True\<rparr>) (ws_heap ?s2 ?p)"
      by (auto simp: neoc_account_set_default_def)
    have w': "wl_accounts (ws_wallet s') = ?ps" "wl_default_account (ws_wallet s') = Some ?p" "wl_capacity (ws_wallet s') = wl_capacity ?w"
      using s'(2) by (simp_all add: set_wallet_def)
    have run: "neoc_wallet_set_default_account_str (Some x) s = (Ok (), s')"
      using 2 old(1) s1(1,2) s'(1)
      by (simp add: neoc_wallet_set_default_account_str_def neoc_wallet_get_account_by_address_def then_c_def bind_c_def)
    have fl: "flagged s' q \<longleftrightarrow> Some ?p = Some q" if q: "q \<in> set ?ps" for q
    proof (cases "q = ?p")
      case True
      then show ?thesis using s'(6) \<open>has_address ?s2 ?p\<close> by (auto simp: flagged_def has_address_def split: option.splits)
    next
      case False
      then have "flagged s' q = flagged s1 q" using s'(5) s2(3) by (simp add: flagged_def)
      also have "\<not> flagged s1 q"
      proof (cases "q = old")
        case True
        then show ?thesis using s1(6) by (auto simp: flagged_def split: option.splits)
      next
        case other: False
        then have "flagged s1 q = flagged s q" using s1(5) by (simp add: flagged_def)
        then show ?thesis using inv_flags [OF assms q] old(1) other by simp
      qed
      finally show ?thesis using False by auto
    qed
    have "wallet_inv s'"
      by (rule wallet_invI [OF w'(1,2)]) (use w'(3) assms s'(3,4) s2 ok fl p(1) in \<open>auto simp: wallet_inv_def Let_def\<close>)
    moreover have "view s' = spec_default x (view s)" using w' s'(4) s2(2) 2(2) by (simp add: view_def spec_default_def)
    moreover have "x \<in> set (fst (view s))" using p(1) 2(2) by (auto simp: view_def)
    ultimately show thesis using run s'(4) s2(2) by (intro changed [of s']) simp_all
  qed
qed

lemma inv_other_heap:
  assumes "wallet_inv s" and "\<And>p. p \<in> set (wl_accounts (ws_wallet s)) \<Longrightarrow> h p = ws_heap s p"
  shows "wallet_inv (s\<lparr>ws_heap := h\<rparr>)" and "view (s\<lparr>ws_heap := h\<rparr>) = view s"
proof -
  let ?s = "s\<lparr>ws_heap := h\<rparr>"
  have same: "has_address ?s q = has_address s q" "addr_of ?s q = addr_of s q" "flagged ?s q = flagged s q" if "q \<in> set (wl_accounts (ws_wallet s))" for q
    using assms(2) [OF that] by (simp_all add: has_address_def addr_of_def flagged_def)
  have m: "map (addr_of ?s) (wl_accounts (ws_wallet s)) = map (addr_of s) (wl_accounts (ws_wallet s))" using same(2) by (intro map_cong refl)
  have "distinct (map (addr_of ?s) (wl_accounts (ws_wallet s)))" unfolding m using assms(1) by (simp add: wallet_inv_def Let_def)
  then show "wallet_inv ?s" using assms(1) same unfolding wallet_inv_def Let_def
    by (intro wallet_invI [of ?s "wl_accounts (ws_wallet s)" "wl_default_account (ws_wallet s)", unfolded wallet_inv_def Let_def]) simp_all
  have "map_option (addr_of ?s) (wl_default_account (ws_wallet s)) = map_option (addr_of s) (wl_default_account (ws_wallet s))"
    using assms(1) same(2) by (cases "wl_default_account (ws_wallet s)") (auto simp: wallet_inv_def Let_def)
  with m show "view ?s = view s" by (simp add: view_def)
qed

lemma foreach_modify:
  assumes "\<forall>p \<in> set ps. has_address s p" and "\<And>a. m a = (Ok (), f a)" and "\<And>a. ac_address (f a) = ac_address a" and "\<And>a. ac_is_default (f a) = ac_is_default a"
    and "\<And>a. f (f a) = f a"
  shows "\<exists>s'. foreach_c (\<lambda>p. modify_at p m) ps s = (Ok (), s') \<and> ws_wallet s' = ws_wallet s \<and> has_address s' = has_address s \<and> addr_of s' = addr_of s
    \<and> flagged s' = flagged s \<and> (\<forall>p. ws_heap s' p = (if p \<in> set ps then map_option f (ws_heap s p) else ws_heap s p))"
  using assms(1)
proof (induction ps arbitrary: s)
  case (Cons p ps)
  have p: "has_address s p" using Cons.prems by simp
  from modify_at_ok [OF p assms(2,3)] obtain s1 where
    s1: "modify_at p m s = (Ok (), s1)" "ws_wallet s1 = ws_wallet s" "has_address s1 = has_address s" "addr_of s1 = addr_of s"
      "\<And>q. q \<noteq> p \<Longrightarrow> ws_heap s1 q = ws_heap s q" "ws_heap s1 p = map_option f (ws_heap s p)" by blast
  have fl: "flagged s1 = flagged s"
  proof
    show "flagged s1 q = flagged s q" for q using s1(5,6) assms(4) by (cases "q = p"; cases "ws_heap s q") (simp_all add: flagged_def)
  qed
  from Cons.IH [of s1] s1(3) Cons.prems obtain s' where
    s': "foreach_c (\<lambda>p. modify_at p m) ps s1 = (Ok (), s')" "ws_wallet s' = ws_wallet s1" "has_address s' = has_address s1" "addr_of s' = addr_of s1"
      "flagged s' = flagged s1" "\<forall>q. ws_heap s' q = (if q \<in> set ps then map_option f (ws_heap s1 q) else ws_heap s1 q)" by auto
  have "ws_heap s' q = (if q \<in> set (p # ps) then map_option f (ws_heap s q) else ws_heap s q)" for q
    using s'(6) s1(5,6) assms(5) by (cases "q = p"; cases "ws_heap s q") auto
  with s' s1 fl show ?case by (intro exI [of _ s']) (simp add: then_c_def bind_c_def)
qed (simp add: return_c_def)

lemma same_inv:
  assumes "wallet_inv s" and "ws_wallet s' = ws_wallet s" and "has_address s' = has_address s" and "addr_of s' = addr_of s" and "flagged s' = flagged s"
  shows "wallet_inv s'" and "view s' = view s"
  using assms by (simp_all add: wallet_inv_def view_def)

lemma add_new_step:
  assumes "wallet_inv s" and "ws_heap s p = None" and "ac_address a = Some x" and "\<not> ac_is_default a"
  obtains (added) s' where "add_new A p (Ok a) s = (Ok (Some p), s')" and "wallet_inv s'" and "view s' = spec_add (addr_of s' p) (view s)"
      and "addr_of s' p = x" and "x \<notin> set (fst (view s))"
  | (refused) s' where "add_new A p (Ok a) s = (Ok None, s')" and "wallet_inv s'" and "view s' = view s"
proof -
  let ?s = "s\<lparr>ws_heap := (ws_heap s)(p \<mapsto> a)\<rparr>"
  have out: "p \<notin> set (wl_accounts (ws_wallet s))" using inv_addresses [OF assms(1), of p] assms(2) by (auto simp: has_address_def)
  then have "((ws_heap s)(p \<mapsto> a)) q = ws_heap s q" if "q \<in> set (wl_accounts (ws_wallet s))" for q using that by auto
  then have inv: "wallet_inv ?s" "view ?s = view s" using inv_other_heap [OF assms(1), of "(ws_heap s)(p \<mapsto> a)"] by blast+
  have p: "has_address ?s p" "addr_of ?s p = x" "\<not> flagged ?s p" using assms(3,4) by (simp_all add: has_address_def addr_of_def flagged_def)
  then have "flagged ?s p \<longrightarrow> p \<in> set (wl_accounts (ws_wallet ?s))" by blast
  from add_account_step [OF inv(1) p(1) this, of A] show thesis
  proof cases
    case (3 s')
    then show thesis using p(2) inv(2) by (intro added [of s']) (simp_all add: add_new_def)
  next
    case 1
    have "add_new A p (Ok a) s = (Ok None, s)"
      using 1(2) assms(2) by (simp add: add_new_def neoc_account_free_def then_c_def bind_c_def return_c_def fun_upd_idem)
    with assms(1) show thesis by (intro refused [of s]) simp_all
  next
    case 2
    have "add_new A p (Ok a) s = (Ok None, s)"
      using 2(3) assms(2) by (simp add: add_new_def neoc_account_free_def then_c_def bind_c_def return_c_def fun_upd_idem)
    with assms(1) show thesis by (intro refused [of s]) simp_all
  qed
qed

lemma key_pair_account_new:
  "key_pair_account C A T label kp = Ok a \<Longrightarrow> \<exists>x. ac_address a = Some x" "key_pair_account C A T label kp = Ok a \<Longrightarrow> \<not> ac_is_default a"
  by (auto simp: key_pair_account_def new_account_def bind_r_Ok_iff)

lemma made_accounts_new:
  "neoc_account_create_with_label R C A T G label = Ok a \<Longrightarrow> (\<exists>x. ac_address a = Some x) \<and> \<not> ac_is_default a"
  "neoc_account_create_from_wif_with_label C A T G label wif = Ok a \<Longrightarrow> (\<exists>x. ac_address a = Some x) \<and> \<not> ac_is_default a"
  "neoc_account_create_from_nep2_with_label C A T G E label nep2 pass = Ok a \<Longrightarrow> (\<exists>x. ac_address a = Some x) \<and> \<not> ac_is_default a"
  by (auto simp: neoc_account_create_with_label_def neoc_account_create_from_wif_with_label_def neoc_account_create_from_nep2_with_label_def
      neoc_account_create_from_key_pair_with_label_def bind_r_Ok_iff split: option.splits dest: key_pair_account_new)

subsection \<open>Sequences of operations\<close>

datatype wallet_op =
    Add_Account nat | Remove_Account string | Default_Address string | Default_Hash neoc_hash160 | Default_Account nat
  | Create_Account nat "string option" | Import_Wif nat string "string option" | Import_Nep2 nat string string "string option"
  | Lock_Accounts | Unlock_Accounts

text \<open>Each operation with one kind of outcome: whether it reported success.\<close>

definition reported :: "('a result \<Rightarrow> bool result) \<Rightarrow> (wallet_state, 'a) cmd \<Rightarrow> (wallet_state, bool) cmd" where
  "reported f m s = (let (r, s') = m s in (f r, s'))"

definition success :: "unit result \<Rightarrow> bool result" where
  "success r = (case r of Ok _ \<Rightarrow> Ok True | Err _ \<Rightarrow> Ok False | Fault \<Rightarrow> Fault)"

definition returned :: "nat option result \<Rightarrow> bool result" where
  "returned r = (case r of Ok p \<Rightarrow> Ok (p \<noteq> None) | Err _ \<Rightarrow> Ok False | Fault \<Rightarrow> Fault)"

definition run_wallet ::
  "(nat \<Rightarrow> byte list option) \<Rightarrow> crypto \<Rightarrow> allocator \<Rightarrow> interop_table \<Rightarrow> base_mul \<Rightarrow> ciphers \<Rightarrow> wallet_op \<Rightarrow> (wallet_state, bool) cmd" where
  "run_wallet R C A T G E oper =
     (case oper of
        Add_Account p \<Rightarrow> reported success (neoc_wallet_add_account A (Some p))
      | Remove_Account x \<Rightarrow> reported success (neoc_wallet_remove_account (Some x))
      | Default_Address x \<Rightarrow> reported success (neoc_wallet_set_default_account_str (Some x))
      | Default_Hash h \<Rightarrow> reported success (neoc_wallet_set_default_account_hash C A (Some h))
      | Default_Account p \<Rightarrow> reported success (neoc_wallet_set_default_account_account C A (Some p))
      | Create_Account p label \<Rightarrow> reported returned (neoc_wallet_create_account R C A T G p label)
      | Import_Wif p wif label \<Rightarrow> reported returned (neoc_wallet_import_from_wif C A T G p (Some wif) label)
      | Import_Nep2 p nep2 pass label \<Rightarrow> reported returned (neoc_wallet_import_from_nep2 C A T G E p (Some nep2) (Some pass) label)
      | Lock_Accounts \<Rightarrow> reported success neoc_wallet_lock_all
      | Unlock_Accounts \<Rightarrow> reported success neoc_wallet_unlock_all)"

text \<open>
  What the client may do: add an account that has an address and is not flagged as default, pass a pointer to an existing account, and
  let new accounts be made at free addresses by a constructor with a defined outcome.
\<close>

definition wallet_allowed ::
  "(nat \<Rightarrow> byte list option) \<Rightarrow> crypto \<Rightarrow> allocator \<Rightarrow> interop_table \<Rightarrow> base_mul \<Rightarrow> ciphers \<Rightarrow> wallet_op \<Rightarrow> wallet_state \<Rightarrow> bool" where
  "wallet_allowed R C A T G E oper s =
     (case oper of
        Add_Account p \<Rightarrow> has_address s p \<and> (flagged s p \<longrightarrow> p \<in> set (wl_accounts (ws_wallet s)))
      | Default_Hash h \<Rightarrow> length h = 20
      | Default_Account p \<Rightarrow> has_address s p
      | Create_Account p label \<Rightarrow> ws_heap s p = None \<and> neoc_account_create_with_label R C A T G label \<noteq> Fault
      | Import_Wif p wif label \<Rightarrow> ws_heap s p = None \<and> neoc_account_create_from_wif_with_label C A T G label (Some wif) \<noteq> Fault
      | Import_Nep2 p nep2 pass label \<Rightarrow>
          ws_heap s p = None \<and> neoc_account_create_from_nep2_with_label C A T G E label (Some nep2) (Some pass) \<noteq> Fault
      | _ \<Rightarrow> True)"

text \<open>What an operation that reported success did to the view.\<close>

definition wallet_acts :: "crypto \<Rightarrow> allocator \<Rightarrow> wallet_state \<Rightarrow> wallet_op \<Rightarrow> string list \<times> string option \<Rightarrow> string list \<times> string option" where
  "wallet_acts C A s oper v =
     (case oper of
        Add_Account p \<Rightarrow> spec_add (addr_of s p) v
      | Create_Account p _ \<Rightarrow> spec_add (addr_of s p) v
      | Import_Wif p _ _ \<Rightarrow> spec_add (addr_of s p) v
      | Import_Nep2 p _ _ _ \<Rightarrow> spec_add (addr_of s p) v
      | Remove_Account x \<Rightarrow> spec_remove x v
      | Default_Address x \<Rightarrow> spec_default x v
      | Default_Hash h \<Rightarrow> (case neoc_hash160_to_address C A (Some h) NEOC_ADDRESS_LENGTH of Ok x \<Rightarrow> spec_default x v | _ \<Rightarrow> v)
      | Default_Account p \<Rightarrow> spec_default (addr_of s p) v
      | _ \<Rightarrow> v)"

text \<open>When an operation reports success.\<close>

definition wallet_succeeds :: "allocator \<Rightarrow> wallet_state \<Rightarrow> wallet_op \<Rightarrow> bool \<Rightarrow> bool" where
  "wallet_succeeds A s oper ok =
     (case oper of
        Add_Account p \<Rightarrow> ok = (addr_of s p \<notin> set (fst (view s)) \<and> fits A s)
      | Remove_Account x \<Rightarrow> ok = (x \<in> set (fst (view s)))
      | Default_Address x \<Rightarrow> ok = (x \<in> set (fst (view s)))
      | Default_Account p \<Rightarrow> ok = (addr_of s p \<in> set (fst (view s)))
      | Lock_Accounts \<Rightarrow> ok | Unlock_Accounts \<Rightarrow> ok
      | _ \<Rightarrow> True)"

text \<open>States of a wallet: a new wallet, the operations, and whatever the client does to accounts that are not in the wallet.\<close>

inductive wallet_reach ::
  "(nat \<Rightarrow> byte list option) \<Rightarrow> crypto \<Rightarrow> allocator \<Rightarrow> interop_table \<Rightarrow> base_mul \<Rightarrow> ciphers \<Rightarrow> wallet_state \<Rightarrow> bool" for R C A T G E where
    reach_new: "neoc_wallet_create A name = Ok w \<Longrightarrow> wallet_reach R C A T G E \<lparr>ws_wallet = w, ws_heap = h\<rparr>"
  | reach_run: "wallet_reach R C A T G E s \<Longrightarrow> wallet_allowed R C A T G E oper s \<Longrightarrow> run_wallet R C A T G E oper s = (r, s') \<Longrightarrow> wallet_reach R C A T G E s'"
  | reach_client: "wallet_reach R C A T G E s \<Longrightarrow> (\<And>p. p \<in> set (wl_accounts (ws_wallet s)) \<Longrightarrow> h p = ws_heap s p)
      \<Longrightarrow> wallet_reach R C A T G E (s\<lparr>ws_heap := h\<rparr>)"

lemma new_account_run:
  assumes "wallet_inv s" and "ws_heap s p = None" and "acc \<noteq> Fault" and "\<And>a. acc = Ok a \<Longrightarrow> (\<exists>x. ac_address a = Some x) \<and> \<not> ac_is_default a"
  shows "\<exists>ok s'. reported returned (add_new A p acc) s = (Ok ok, s') \<and> wallet_inv s' \<and> view s' = (if ok then spec_add (addr_of s' p) (view s) else view s)"
proof (cases acc)
  case (Ok a)
  with assms(4) obtain x where x: "ac_address a = Some x" "\<not> ac_is_default a" by blast
  from assms(1,2) x show ?thesis
    by (rule add_new_step [where A = A]) (auto simp: Ok reported_def returned_def)
qed (use assms in \<open>auto simp: add_new_def reported_def returned_def\<close>)

lemma default_str_run:
  assumes "wallet_inv s"
  shows "\<exists>ok s'. reported success (neoc_wallet_set_default_account_str (Some x)) s = (Ok ok, s') \<and> wallet_inv s'
    \<and> view s' = (if ok then spec_default x (view s) else view s) \<and> (ok \<longleftrightarrow> x \<in> set (fst (view s))) \<and> addr_of s' = addr_of s"
  using assms by (rule set_default_step [where x = x]) (use assms in \<open>auto simp: reported_def success_def\<close>)

lemma lock_run:
  assumes "wallet_inv s" and "m = neoc_account_lock_internal \<or> m = neoc_account_unlock_internal"
  shows "\<exists>s'. foreach_c (\<lambda>p. modify_at p m) (wl_accounts (ws_wallet s)) s = (Ok (), s') \<and> wallet_inv s' \<and> view s' = view s"
proof -
  obtain f where f: "m = (\<lambda>a. (Ok (), f a))" "\<And>a. ac_address (f a) = ac_address a" "\<And>a. ac_is_default (f a) = ac_is_default a" "\<And>a. f (f a) = f a"
    using assms(2)
  proof
    assume "m = neoc_account_lock_internal"
    then show thesis by (intro that [of "\<lambda>a. a\<lparr>ac_is_locked := True\<rparr>"]) (simp_all add: neoc_account_lock_internal_def fun_eq_iff)
  next
    assume "m = neoc_account_unlock_internal"
    then show thesis by (intro that [of "\<lambda>a. a\<lparr>ac_is_locked := False\<rparr>"]) (simp_all add: neoc_account_unlock_internal_def fun_eq_iff)
  qed
  have "\<forall>p \<in> set (wl_accounts (ws_wallet s)). has_address s p" using inv_addresses [OF assms(1)] by blast
  from foreach_modify [OF this, of m f] f obtain s' where "foreach_c (\<lambda>p. modify_at p m) (wl_accounts (ws_wallet s)) s = (Ok (), s')"
    "ws_wallet s' = ws_wallet s" "has_address s' = has_address s" "addr_of s' = addr_of s" "flagged s' = flagged s" by auto
  then show ?thesis using same_inv [OF assms(1), of s'] by blast
qed

lemma wallet_step:
  assumes "wallet_inv s" and "wallet_allowed R C A T G E oper s" and "crypto_works C" and "grants A 100"
  shows "\<exists>ok s'. run_wallet R C A T G E oper s = (Ok ok, s') \<and> wallet_inv s'
    \<and> view s' = (if ok then wallet_acts C A s' oper (view s) else view s) \<and> wallet_succeeds A s oper ok"
proof (cases oper)
  case (Add_Account p)
  then have p: "has_address s p" "flagged s p \<longrightarrow> p \<in> set (wl_accounts (ws_wallet s))" using assms(2) by (simp_all add: wallet_allowed_def)
  show ?thesis
    by (rule add_account_step [OF assms(1) p, of A])
       (use assms(1) in \<open>auto simp: Add_Account run_wallet_def reported_def success_def wallet_acts_def wallet_succeeds_def\<close>)
next
  case (Remove_Account x)
  show ?thesis
    by (rule remove_account_step [OF assms(1), of x])
       (use assms(1) in \<open>auto simp: Remove_Account run_wallet_def reported_def success_def wallet_acts_def wallet_succeeds_def\<close>)
next
  case (Default_Address x)
  then show ?thesis using default_str_run [OF assms(1), of x] by (auto simp: run_wallet_def wallet_acts_def wallet_succeeds_def)
next
  case (Default_Hash h)
  then have h: "length h = 20" using assms(2) by (simp add: wallet_allowed_def)
  from account_address_works [OF assms(3,4) h] obtain x where "neoc_hash160_to_address C A (Some h) NEOC_ADDRESS_LENGTH = Ok x"
    by (auto simp: account_address_def bind_r_Ok_iff)
  note x = this
  from x have "neoc_wallet_set_default_account_hash C A (Some h) = neoc_wallet_set_default_account_str (Some x)"
    by (simp add: neoc_wallet_set_default_account_hash_def)
  then have r: "run_wallet R C A T G E oper s = reported success (neoc_wallet_set_default_account_str (Some x)) s" by (simp add: Default_Hash run_wallet_def)
  have acts: "wallet_acts C A s' oper v = spec_default x v" "wallet_succeeds A s oper ok" for s' v ok
    by (simp_all add: Default_Hash wallet_acts_def x wallet_succeeds_def)
  from default_str_run [OF assms(1), of x] show ?thesis unfolding r acts(1) using acts(2) by blast
next
  case (Default_Account p)
  then have p: "has_address s p" using assms(2) by (simp add: wallet_allowed_def)
  then obtain a where a: "ws_heap s p = Some a" "ac_address a = Some (addr_of s p)" by (auto simp: has_address_def addr_of_def split: option.splits)
  then have "neoc_wallet_set_default_account_account C A (Some p) s = neoc_wallet_set_default_account_str (Some (addr_of s p)) s"
    by (simp add: neoc_wallet_set_default_account_account_def account_at_def neoc_account_get_address_ptr_def)
  then have "reported success (neoc_wallet_set_default_account_account C A (Some p)) s = reported success (neoc_wallet_set_default_account_str (Some (addr_of s p))) s"
    by (simp add: reported_def)
  then show ?thesis using default_str_run [OF assms(1), of "addr_of s p"]
    by (auto simp: Default_Account run_wallet_def wallet_acts_def wallet_succeeds_def)
next
  case (Create_Account p label)
  then have "ws_heap s p = None" "neoc_account_create_with_label R C A T G label \<noteq> Fault" using assms(2) by (simp_all add: wallet_allowed_def)
  then have "\<exists>ok s'. reported returned (add_new A p (neoc_account_create_with_label R C A T G label)) s = (Ok ok, s') \<and> wallet_inv s'
      \<and> view s' = (if ok then spec_add (addr_of s' p) (view s) else view s)"
    by (intro new_account_run assms(1)) (auto dest: made_accounts_new(1))
  then show ?thesis
    by (simp add: Create_Account run_wallet_def wallet_acts_def wallet_succeeds_def neoc_wallet_create_account_def cong: if_cong split del: if_split)
next
  case (Import_Wif p wif label)
  then have "ws_heap s p = None" "neoc_account_create_from_wif_with_label C A T G label (Some wif) \<noteq> Fault" using assms(2) by (simp_all add: wallet_allowed_def)
  then have "\<exists>ok s'. reported returned (add_new A p (neoc_account_create_from_wif_with_label C A T G label (Some wif))) s = (Ok ok, s') \<and> wallet_inv s'
      \<and> view s' = (if ok then spec_add (addr_of s' p) (view s) else view s)"
    by (intro new_account_run assms(1)) (auto dest: made_accounts_new(2))
  then show ?thesis
    by (simp add: Import_Wif run_wallet_def wallet_acts_def wallet_succeeds_def neoc_wallet_import_from_wif_def cong: if_cong split del: if_split)
next
  case (Import_Nep2 p nep2 pass label)
  then have "ws_heap s p = None" "neoc_account_create_from_nep2_with_label C A T G E label (Some nep2) (Some pass) \<noteq> Fault"
    using assms(2) by (simp_all add: wallet_allowed_def)
  then have "\<exists>ok s'. reported returned (add_new A p (neoc_account_create_from_nep2_with_label C A T G E label (Some nep2) (Some pass))) s = (Ok ok, s') \<and> wallet_inv s'
      \<and> view s' = (if ok then spec_add (addr_of s' p) (view s) else view s)"
    by (intro new_account_run assms(1)) (auto dest: made_accounts_new(3))
  then show ?thesis
    by (simp add: Import_Nep2 run_wallet_def wallet_acts_def wallet_succeeds_def neoc_wallet_import_from_nep2_def cong: if_cong split del: if_split)
next
  case Lock_Accounts
  from lock_run [OF assms(1), of neoc_account_lock_internal] obtain s' where
    "foreach_c (\<lambda>p. modify_at p neoc_account_lock_internal) (wl_accounts (ws_wallet s)) s = (Ok (), s')" "wallet_inv s'" "view s' = view s" by blast
  then show ?thesis
    by (intro exI [of _ True] exI [of _ s']) (simp add: Lock_Accounts run_wallet_def reported_def success_def wallet_acts_def wallet_succeeds_def neoc_wallet_lock_all_def)
next
  case Unlock_Accounts
  from lock_run [OF assms(1), of neoc_account_unlock_internal] obtain s' where
    "foreach_c (\<lambda>p. modify_at p neoc_account_unlock_internal) (wl_accounts (ws_wallet s)) s = (Ok (), s')" "wallet_inv s'" "view s' = view s" by blast
  then show ?thesis
    by (intro exI [of _ True] exI [of _ s']) (simp add: Unlock_Accounts run_wallet_def reported_def success_def wallet_acts_def wallet_succeeds_def neoc_wallet_unlock_all_def)
qed

lemma reach_inv:
  assumes "wallet_reach R C A T G E s" and "crypto_works C" and "grants A 100"
  shows "wallet_inv s"
  using assms
proof (induction rule: wallet_reach.induct)
  case (reach_new name w h)
  then show ?case by (auto simp: neoc_wallet_create_def bind_r_Ok_iff wallet_inv_def INITIAL_ACCOUNT_CAPACITY_def split: option.splits)
next
  case (reach_run s oper r s')
  from wallet_step [OF reach_run.IH [OF reach_run.prems] reach_run.hyps(2) reach_run.prems] reach_run.hyps(3) show ?case by auto
next
  case (reach_client s h)
  then show ?case using inv_other_heap(1) by blast
qed

lemma free_accounts:
  assumes "distinct ps" and "\<forall>p \<in> set ps. ws_heap s p \<noteq> None"
  shows "foreach_c neoc_account_free ps s = (Ok (), s\<lparr>ws_heap := (\<lambda>p. if p \<in> set ps then None else ws_heap s p)\<rparr>)"
  using assms
proof (induction ps arbitrary: s)
  case (Cons p ps)
  let ?s = "s\<lparr>ws_heap := (ws_heap s)(p := None)\<rparr>"
  have "neoc_account_free p s = (Ok (), ?s)" using Cons.prems by (simp add: neoc_account_free_def)
  moreover have "\<forall>q \<in> set ps. ws_heap ?s q \<noteq> None" using Cons.prems by auto
  moreover have "(\<lambda>q. if q \<in> set ps then None else ws_heap ?s q) = (\<lambda>q. if q \<in> set (p # ps) then None else ws_heap s q)" by (auto simp: fun_eq_iff)
  ultimately show ?case using Cons.IH [of ?s] Cons.prems by (simp add: then_c_def bind_c_def)
qed (simp add: return_c_def)

subsection \<open>Properties\<close>

text \<open>C14.  Through any operations a wallet acts as a list of addresses without repetitions with a default address in it: no operation goes wrong,
  one that reports success does to the list what its name says, one that reports failure leaves it as it was, and exactly the account of the default
  address is flagged as default.  Adding reports success unless the address is there or memory is refused; removing and choosing a default report
  success exactly for addresses in the list.\<close>

theorem wallet_refines_addresses:
  assumes "wallet_reach R C A T G E s" and "wallet_allowed R C A T G E oper s" and "crypto_works C" and "grants A 100"
  shows "\<exists>ok s'. run_wallet R C A T G E oper s = (Ok ok, s') \<and> wallet_inv s'
    \<and> view s' = (if ok then wallet_acts C A s' oper (view s) else view s) \<and> wallet_succeeds A s oper ok"
  using reach_inv [OF assms(1,3,4)] assms(2-4) by (rule wallet_step)

text \<open>C15.  Looking up an address finds the account with that address, which is the only one, and nothing for another address; there is a default
  account exactly when the wallet is not empty, and it is one of the accounts; and releasing the wallet releases each of its accounts once and no other.\<close>

theorem wallet_lookup_and_release:
  assumes "wallet_reach R C A T G E s" and "crypto_works C" and "grants A 100"
  shows "(\<forall>x p. neoc_wallet_get_account_by_address s (Some x) = Ok (Some p) \<longleftrightarrow> p \<in> set (neoc_wallet_get_accounts s) \<and> addr_of s p = x)
    \<and> (\<forall>x. neoc_wallet_contains s (Some x) = Ok (x \<in> set (fst (view s))))
    \<and> (case neoc_wallet_get_default_account_ptr (Some (ws_wallet s)) of None \<Rightarrow> neoc_wallet_get_accounts s = [] | Some p \<Rightarrow> p \<in> set (neoc_wallet_get_accounts s))
    \<and> neoc_wallet_free s = (Ok (), s\<lparr>ws_heap := (\<lambda>p. if p \<in> set (neoc_wallet_get_accounts s) then None else ws_heap s p)\<rparr>)"
proof -
  note inv = reach_inv [OF assms]
  let ?ps = "wl_accounts (ws_wallet s)"
  have ok: "\<forall>q \<in> set ?ps. has_address s q" using inv_addresses [OF inv] by blast
  have inj: "inj_on (addr_of s) (set ?ps)" using inv by (simp add: wallet_inv_def Let_def distinct_map)
  have found: "neoc_wallet_get_account_by_address s (Some x) = Ok (Some p) \<longleftrightarrow> p \<in> set ?ps \<and> addr_of s p = x" for x p
    by (rule find_address_cases [OF ok, of x 0])
       (use inj in \<open>auto simp: neoc_wallet_get_account_by_address_def dest: inj_onD\<close>)
  have "neoc_wallet_contains s (Some x) = Ok (x \<in> set (fst (view s)))" for x
    by (rule find_address_cases [OF ok, of x 0])
       (auto simp: neoc_wallet_contains_def neoc_wallet_get_account_by_address_def view_def)
  moreover have "\<forall>p \<in> set ?ps. ws_heap s p \<noteq> None" using ok by (auto simp: has_address_def split: option.splits)
  from free_accounts [OF inv_distinct [OF inv] this]
  have "neoc_wallet_free s = (Ok (), s\<lparr>ws_heap := (\<lambda>p. if p \<in> set ?ps then None else ws_heap s p)\<rparr>)" by (simp add: neoc_wallet_free_def)
  moreover have "case wl_default_account (ws_wallet s) of None \<Rightarrow> ?ps = [] | Some p \<Rightarrow> p \<in> set ?ps" using inv by (simp add: wallet_inv_def Let_def)
  ultimately show ?thesis using found unfolding neoc_wallet_get_accounts_def neoc_wallet_get_default_account_ptr_def option.case by blast
qed

text \<open>An account whose flag is already set keeps it when it is added: then two accounts are flagged as default.\<close>

definition demo_heap :: "nat \<Rightarrow> neoc_account option" where
  "demo_heap = [1 \<mapsto> new_account\<lparr>ac_address := Some ''a''\<rparr>, 2 \<mapsto> new_account\<lparr>ac_address := Some ''b'', ac_is_default := True\<rparr>]"

definition demo_wallet :: neoc_wallet where
  "demo_wallet = \<lparr>wl_name = Some ''w'', wl_version = Some ''1.0'', wl_accounts = [], wl_capacity = 10, wl_default_account = None\<rparr>"

lemma wallet_two_defaults:
  "let s = snd (then_c (neoc_wallet_add_account (\<lambda>_. True) (Some 1)) (neoc_wallet_add_account (\<lambda>_. True) (Some 2)) \<lparr>ws_wallet = demo_wallet, ws_heap = demo_heap\<rparr>)
   in wl_accounts (ws_wallet s) = [1, 2] \<and> flagged s 1 \<and> flagged s 2"
  by (simp add: demo_wallet_def demo_heap_def then_c_def bind_c_def neoc_wallet_add_account_def resize_accounts_def store_account_def modify_at_def
      set_wallet_def address_at_def account_at_def neoc_account_set_default_def flagged_def new_account_def Let_def)

lemma demo_wallet_reach: "wallet_reach R C (\<lambda>_. True) T G E \<lparr>ws_wallet = demo_wallet, ws_heap = demo_heap\<rparr>"
  by (rule reach_new [of _ "Some ''w''"]) (simp add: neoc_wallet_create_def demo_wallet_def INITIAL_ACCOUNT_CAPACITY_def)

theorem wallet_refines_addresses_witness:
  "\<exists>s'. run_wallet (\<lambda>_. None) toy_crypto (\<lambda>_. True) initial_interop_table demo_mul demo_ciphers (Add_Account 1) \<lparr>ws_wallet = demo_wallet, ws_heap = demo_heap\<rparr> = (Ok True, s')
     \<and> fst (view s') = [''a''] \<and> snd (view s') = Some ''a''"
proof -
  let ?s = "\<lparr>ws_wallet = demo_wallet, ws_heap = demo_heap\<rparr>" let ?A = "\<lambda>_ :: nat. True"
  have "wallet_allowed (\<lambda>_. None) toy_crypto ?A initial_interop_table demo_mul demo_ciphers (Add_Account 1) ?s"
    by (simp add: wallet_allowed_def has_address_def flagged_def demo_heap_def new_account_def)
  from wallet_refines_addresses [OF demo_wallet_reach this toy_crypto_works grants_all] obtain ok s' where
    r: "run_wallet (\<lambda>_. None) toy_crypto ?A initial_interop_table demo_mul demo_ciphers (Add_Account 1) ?s = (Ok ok, s')"
      "view s' = (if ok then wallet_acts toy_crypto ?A s' (Add_Account 1) (view ?s) else view ?s)" "wallet_succeeds ?A ?s (Add_Account 1) ok" by blast
  have "view ?s = ([], None)" "fits ?A ?s" by (simp_all add: view_def demo_wallet_def fits_def)
  then have ok using r(3) by (simp add: wallet_succeeds_def)
  moreover have "addr_of s' 1 = ''a''"
    using r(1) by (simp add: run_wallet_def reported_def success_def demo_wallet_def demo_heap_def then_c_def bind_c_def neoc_wallet_add_account_def resize_accounts_def
        store_account_def modify_at_def set_wallet_def neoc_account_set_default_def new_account_def Let_def) (auto simp: addr_of_def)
  ultimately show ?thesis using r(1,2) \<open>view ?s = ([], None)\<close> by (simp add: wallet_acts_def spec_add_def)
qed

theorem wallet_lookup_and_release_witness:
  "neoc_wallet_contains \<lparr>ws_wallet = demo_wallet, ws_heap = demo_heap\<rparr> (Some ''a'') = Ok False
   \<and> fst (neoc_wallet_free \<lparr>ws_wallet = demo_wallet, ws_heap = demo_heap\<rparr>) = Ok ()"
proof -
  have "fst (view \<lparr>ws_wallet = demo_wallet, ws_heap = demo_heap\<rparr>) = []" by (simp add: view_def demo_wallet_def)
  with wallet_lookup_and_release [OF demo_wallet_reach toy_crypto_works grants_all] show ?thesis by simp
qed

end
