(* ===== verification/Parameter_Type.thy ===== *)
theory Parameter_Type
  imports NeoC_Prelude
begin

text \<open>
  \<^verbatim>\<open>types/contract_parameter_type.c\<close>: the types of contract parameters with their names and bytes.  A value of the enumeration is a 32-bit
  number, so values outside the enumeration are there too.
\<close>

type_synonym parameter_type = u32

abbreviation (input) "NEOC_PARAM_TYPE_ANY \<equiv> (0x00 :: parameter_type)"
abbreviation (input) "NEOC_PARAM_TYPE_BOOLEAN \<equiv> (0x10 :: parameter_type)"
abbreviation (input) "NEOC_PARAM_TYPE_INTEGER \<equiv> (0x11 :: parameter_type)"
abbreviation (input) "NEOC_PARAM_TYPE_BYTE_ARRAY \<equiv> (0x12 :: parameter_type)"
abbreviation (input) "NEOC_PARAM_TYPE_STRING \<equiv> (0x13 :: parameter_type)"
abbreviation (input) "NEOC_PARAM_TYPE_HASH160 \<equiv> (0x14 :: parameter_type)"
abbreviation (input) "NEOC_PARAM_TYPE_HASH256 \<equiv> (0x15 :: parameter_type)"
abbreviation (input) "NEOC_PARAM_TYPE_PUBLIC_KEY \<equiv> (0x16 :: parameter_type)"
abbreviation (input) "NEOC_PARAM_TYPE_SIGNATURE \<equiv> (0x17 :: parameter_type)"
abbreviation (input) "NEOC_PARAM_TYPE_ARRAY \<equiv> (0x20 :: parameter_type)"
abbreviation (input) "NEOC_PARAM_TYPE_MAP \<equiv> (0x22 :: parameter_type)"
abbreviation (input) "NEOC_PARAM_TYPE_INTEROP_INTERFACE \<equiv> (0x30 :: parameter_type)"
abbreviation (input) "NEOC_PARAM_TYPE_VOID \<equiv> (0xFF :: parameter_type)"

definition to_lower_char :: "char \<Rightarrow> nat" where
  "to_lower_char c = (let n = of_char c in if 65 \<le> n \<and> n \<le> 90 then n + 32 else n)"

text \<open>Both texts are not null here: the only caller has checked one, and the other is in a table.\<close>

fun equals_ignore_case :: "string \<Rightarrow> string \<Rightarrow> bool" where
  "equals_ignore_case (a # as) (b # bs) = (to_lower_char a = to_lower_char b \<and> equals_ignore_case as bs)"
| "equals_ignore_case as bs = (as = [] \<and> bs = [])"

definition neoc_contract_parameter_type_to_string :: "parameter_type \<Rightarrow> string option" where
  "neoc_contract_parameter_type_to_string ty =
     (if ty = NEOC_PARAM_TYPE_ANY then Some ''Any''
      else if ty = NEOC_PARAM_TYPE_BOOLEAN then Some ''Boolean''
      else if ty = NEOC_PARAM_TYPE_INTEGER then Some ''Integer''
      else if ty = NEOC_PARAM_TYPE_BYTE_ARRAY then Some ''ByteArray''
      else if ty = NEOC_PARAM_TYPE_STRING then Some ''String''
      else if ty = NEOC_PARAM_TYPE_HASH160 then Some ''Hash160''
      else if ty = NEOC_PARAM_TYPE_HASH256 then Some ''Hash256''
      else if ty = NEOC_PARAM_TYPE_PUBLIC_KEY then Some ''PublicKey''
      else if ty = NEOC_PARAM_TYPE_SIGNATURE then Some ''Signature''
      else if ty = NEOC_PARAM_TYPE_ARRAY then Some ''Array''
      else if ty = NEOC_PARAM_TYPE_MAP then Some ''Map''
      else if ty = NEOC_PARAM_TYPE_INTEROP_INTERFACE then Some ''InteropInterface''
      else if ty = NEOC_PARAM_TYPE_VOID then Some ''Void''
      else None)"

definition parameter_type_mapping :: "(string \<times> parameter_type) list" where
  "parameter_type_mapping =
     [(''Any'', NEOC_PARAM_TYPE_ANY), (''Boolean'', NEOC_PARAM_TYPE_BOOLEAN), (''Integer'', NEOC_PARAM_TYPE_INTEGER),
      (''ByteArray'', NEOC_PARAM_TYPE_BYTE_ARRAY), (''String'', NEOC_PARAM_TYPE_STRING), (''Hash160'', NEOC_PARAM_TYPE_HASH160),
      (''Hash256'', NEOC_PARAM_TYPE_HASH256), (''PublicKey'', NEOC_PARAM_TYPE_PUBLIC_KEY), (''Signature'', NEOC_PARAM_TYPE_SIGNATURE),
      (''Array'', NEOC_PARAM_TYPE_ARRAY), (''Map'', NEOC_PARAM_TYPE_MAP), (''InteropInterface'', NEOC_PARAM_TYPE_INTEROP_INTERFACE),
      (''Void'', NEOC_PARAM_TYPE_VOID)]"

definition neoc_contract_parameter_type_from_string :: "string option \<Rightarrow> parameter_type result" where
  "neoc_contract_parameter_type_from_string str =
     (case str of
        None \<Rightarrow> Err NEOC_ERROR_INVALID_ARGUMENT
      | Some s \<Rightarrow>
          (case find (\<lambda>(name, _). equals_ignore_case s name) parameter_type_mapping of
             Some (_, ty) \<Rightarrow> Ok ty
           | None \<Rightarrow> Err NEOC_ERROR_INVALID_ARGUMENT))"

definition neoc_contract_parameter_type_is_valid :: "parameter_type \<Rightarrow> bool" where
  "neoc_contract_parameter_type_is_valid ty \<longleftrightarrow>
     ty \<in> {NEOC_PARAM_TYPE_ANY, NEOC_PARAM_TYPE_BOOLEAN, NEOC_PARAM_TYPE_INTEGER, NEOC_PARAM_TYPE_BYTE_ARRAY, NEOC_PARAM_TYPE_STRING,
           NEOC_PARAM_TYPE_HASH160, NEOC_PARAM_TYPE_HASH256, NEOC_PARAM_TYPE_PUBLIC_KEY, NEOC_PARAM_TYPE_SIGNATURE, NEOC_PARAM_TYPE_ARRAY,
           NEOC_PARAM_TYPE_MAP, NEOC_PARAM_TYPE_INTEROP_INTERFACE, NEOC_PARAM_TYPE_VOID}"

definition neoc_contract_parameter_type_to_byte :: "parameter_type \<Rightarrow> byte" where
  "neoc_contract_parameter_type_to_byte ty = ucast ty"

definition neoc_contract_parameter_type_from_byte :: "byte \<Rightarrow> parameter_type result" where
  "neoc_contract_parameter_type_from_byte b =
     (let candidate = ucast b :: parameter_type in
      if \<not> neoc_contract_parameter_type_is_valid candidate then Err NEOC_ERROR_INVALID_ARGUMENT else Ok candidate)"

subsection \<open>Lemmas\<close>

lemma equals_ignore_case_iff: "equals_ignore_case s t \<longleftrightarrow> map to_lower_char s = map to_lower_char t"
  by (induction s t rule: equals_ignore_case.induct) auto

lemma mapping_distinct: "distinct (map (map to_lower_char \<circ> fst) parameter_type_mapping)"
  by code_simp

lemma to_string_mapping: "neoc_contract_parameter_type_to_string ty = Some s \<longleftrightarrow> (s, ty) \<in> set parameter_type_mapping"
  by (auto simp: neoc_contract_parameter_type_to_string_def parameter_type_mapping_def)

lemma find_key:
  assumes "distinct (map f xs)" and "x \<in> set xs" and "\<And>y. P y \<longleftrightarrow> f y = f x"
  shows "find P xs = Some x"
  using assms(1,2)
proof (induction xs)
  case (Cons y ys)
  then show ?case using assms(3) [of y] by (auto simp: image_iff)
qed simp

lemma from_string_mapping:
  assumes "(s, ty) \<in> set parameter_type_mapping" and "map to_lower_char t = map to_lower_char s"
  shows "neoc_contract_parameter_type_from_string (Some t) = Ok ty"
proof -
  have "find (\<lambda>(name, _). equals_ignore_case t name) parameter_type_mapping = Some (s, ty)"
    by (rule find_key [OF mapping_distinct assms(1)]) (use assms(2) in \<open>auto simp: equals_ignore_case_iff\<close>)
  then show ?thesis by (simp add: neoc_contract_parameter_type_from_string_def)
qed

text \<open> Every type has a name, and only the types of the enumeration do; a text is read as a type exactly when it is the name of the type up to upper
  and lower case, so that names and bytes can be read back.\<close>

theorem parameter_type_roundtrip:
  shows "(neoc_contract_parameter_type_to_string ty \<noteq> None \<longleftrightarrow> neoc_contract_parameter_type_is_valid ty)
    \<and> (neoc_contract_parameter_type_from_string (Some t) = Ok ty
         \<longleftrightarrow> (\<exists>s. neoc_contract_parameter_type_to_string ty = Some s \<and> map to_lower_char t = map to_lower_char s))
    \<and> (neoc_contract_parameter_type_from_byte (neoc_contract_parameter_type_to_byte ty) = Ok ty \<longleftrightarrow> neoc_contract_parameter_type_is_valid ty)"
proof -
  have n: "neoc_contract_parameter_type_to_string ty \<noteq> None \<longleftrightarrow> neoc_contract_parameter_type_is_valid ty"
    by (simp add: neoc_contract_parameter_type_to_string_def neoc_contract_parameter_type_is_valid_def)
  have "\<exists>s. (s, ty) \<in> set parameter_type_mapping \<and> map to_lower_char t = map to_lower_char s" if "neoc_contract_parameter_type_from_string (Some t) = Ok ty"
    using that by (auto simp: neoc_contract_parameter_type_from_string_def find_Some_iff equals_ignore_case_iff in_set_conv_nth split: option.splits) metis
  then have s: "neoc_contract_parameter_type_from_string (Some t) = Ok ty
      \<longleftrightarrow> (\<exists>s. neoc_contract_parameter_type_to_string ty = Some s \<and> map to_lower_char t = map to_lower_char s)"
    unfolding to_string_mapping using from_string_mapping by blast
  have "neoc_contract_parameter_type_is_valid ty \<Longrightarrow> ucast (ucast ty :: byte) = ty"
    by (auto simp: neoc_contract_parameter_type_is_valid_def)
  then have "neoc_contract_parameter_type_from_byte (neoc_contract_parameter_type_to_byte ty) = Ok ty \<longleftrightarrow> neoc_contract_parameter_type_is_valid ty"
    by (auto simp: neoc_contract_parameter_type_from_byte_def neoc_contract_parameter_type_to_byte_def Let_def)
  with n s show ?thesis by simp
qed

end
