(* ===== verification/Nep6.thy ===== *)
theory Nep6
  imports Wallet Parameter_Type Base64 Hex
begin

text \<open>
  \<^verbatim>\<open>wallet/nep6/nep6_contract.c\<close>, \<^verbatim>\<open>wallet/nep6/nep6_account.c\<close> and \<^verbatim>\<open>wallet/nep6.c\<close>: the objects of a NEP-6 wallet file, and the conversions
  of accounts (\<^verbatim>\<open>wallet/account.c\<close>) and wallets (\<^verbatim>\<open>wallet/wallet.c\<close>) to and from them.  The objects are stored by value: an account object is
  added to a wallet once, and what a client does to it later through the pointer it holds is a change of the account with that index in the wallet.
  Loading a wallet from JSON text takes the cJSON library as a parameter; the JSON forms of single accounts and contracts and the files are left
  out; the text that \<^verbatim>\<open>nep6.c\<close> prints itself is in \<^verbatim>\<open>Nep6_Json\<close>.
\<close>

subsection \<open>Contracts\<close>

record neoc_nep6_parameter =
  pm_name :: "string option"
  pm_type :: parameter_type

record neoc_nep6_contract =
  nc_script :: "string option"
  nc_parameters :: "neoc_nep6_parameter list"
  nc_is_deployed :: bool

definition sizeof_nep6_contract :: nat where "sizeof_nep6_contract = 32"
definition sizeof_nep6_parameter :: nat where "sizeof_nep6_parameter = 16"

text \<open>The copy of a text that may be null, and the error a refused copy is reported as.\<close>

definition copy_optional :: "allocator \<Rightarrow> string option \<Rightarrow> string option result" where
  "copy_optional A s = (case s of None \<Rightarrow> Ok None | Some s \<Rightarrow> bind_r (strdup_r A s) (\<lambda>s. Ok (Some s)))"

definition as_error :: "neoc_error \<Rightarrow> 'a result \<Rightarrow> 'a result" where
  "as_error e r = (case r of Err _ \<Rightarrow> Err e | r \<Rightarrow> r)"

definition copy_parameters :: "allocator \<Rightarrow> neoc_nep6_parameter list \<Rightarrow> neoc_nep6_parameter list result" where
  "copy_parameters A ps =
     (if ps = [] then Ok []
      else bind_r (malloc_r A (length ps * sizeof_nep6_parameter)) (\<lambda>_.
             map_r (\<lambda>p. bind_r (copy_optional A (pm_name p)) (\<lambda>name. Ok (p\<lparr>pm_name := name\<rparr>))) ps))"

definition neoc_nep6_contract_get_script :: "neoc_nep6_contract option \<Rightarrow> string option" where
  "neoc_nep6_contract_get_script contract = (case contract of None \<Rightarrow> None | Some c \<Rightarrow> nc_script c)"

definition neoc_nep6_contract_get_parameter_count :: "neoc_nep6_contract option \<Rightarrow> nat" where
  "neoc_nep6_contract_get_parameter_count contract = (case contract of None \<Rightarrow> 0 | Some c \<Rightarrow> length (nc_parameters c))"

definition neoc_nep6_contract_get_parameter :: "neoc_nep6_contract option \<Rightarrow> nat \<Rightarrow> neoc_nep6_parameter option" where
  "neoc_nep6_contract_get_parameter contract index =
     (case contract of
        None \<Rightarrow> None
      | Some c \<Rightarrow> if length (nc_parameters c) \<le> index then None else Some (nc_parameters c ! index))"

definition neoc_nep6_contract_is_deployed :: "neoc_nep6_contract option \<Rightarrow> bool" where
  "neoc_nep6_contract_is_deployed contract = (case contract of None \<Rightarrow> False | Some c \<Rightarrow> nc_is_deployed c)"

definition neoc_nep6_parameter_get_name :: "neoc_nep6_parameter option \<Rightarrow> string option" where
  "neoc_nep6_parameter_get_name parameter = (case parameter of None \<Rightarrow> None | Some p \<Rightarrow> pm_name p)"

definition neoc_nep6_parameter_get_type :: "neoc_nep6_parameter option \<Rightarrow> parameter_type" where
  "neoc_nep6_parameter_get_type parameter = (case parameter of None \<Rightarrow> NEOC_PARAM_TYPE_ANY | Some p \<Rightarrow> pm_type p)"

definition neoc_nep6_contract_create ::
  "allocator \<Rightarrow> string option \<Rightarrow> neoc_nep6_parameter list option \<Rightarrow> bool \<Rightarrow> neoc_nep6_contract result" where
  "neoc_nep6_contract_create A script parameters is_deployed =
     bind_r (malloc_r A sizeof_nep6_contract) (\<lambda>_.
     bind_r (copy_optional A script) (\<lambda>script.
     bind_r (case parameters of None \<Rightarrow> Ok [] | Some ps \<Rightarrow> copy_parameters A ps) (\<lambda>ps.
       Ok \<lparr>nc_script = script, nc_parameters = ps, nc_is_deployed = is_deployed\<rparr>)))"

definition neoc_nep6_parameter_create :: "allocator \<Rightarrow> string option \<Rightarrow> parameter_type \<Rightarrow> neoc_nep6_parameter result" where
  "neoc_nep6_parameter_create A name ty =
     bind_r (malloc_r A sizeof_nep6_parameter) (\<lambda>_.
     bind_r (copy_optional A name) (\<lambda>name. Ok \<lparr>pm_name = name, pm_type = ty\<rparr>))"

definition neoc_nep6_contracts_equal :: "neoc_nep6_contract option \<Rightarrow> neoc_nep6_contract option \<Rightarrow> bool" where
  "neoc_nep6_contracts_equal a b =
     (case (a, b) of
        (None, None) \<Rightarrow> True
      | (Some a, Some b) \<Rightarrow>
          nc_is_deployed a = nc_is_deployed b \<and> nc_script a = nc_script b \<and> length (nc_parameters a) = length (nc_parameters b)
          \<and> list_all2 (\<lambda>pa pb. pm_type pa = pm_type pb \<and> pm_name pa = pm_name pb) (nc_parameters a) (nc_parameters b)
      | _ \<Rightarrow> False)"

definition neoc_nep6_contract_clone :: "allocator \<Rightarrow> neoc_nep6_contract option \<Rightarrow> neoc_nep6_contract result" where
  "neoc_nep6_contract_clone A src =
     (case src of
        None \<Rightarrow> Err NEOC_ERROR_INVALID_ARGUMENT
      | Some c \<Rightarrow> as_error NEOC_ERROR_OUT_OF_MEMORY (neoc_nep6_contract_create A (nc_script c) (Some (nc_parameters c)) (nc_is_deployed c)))"

subsection \<open>Accounts\<close>

record neoc_nep6_account =
  na_address :: "string option"
  na_label :: "string option"
  na_is_default :: bool
  na_lock :: bool
  na_key :: "string option"
  na_contract :: "neoc_nep6_contract option"
  na_extra :: "(string \<times> string) list"

definition sizeof_nep6_account :: nat where "sizeof_nep6_account = 56"
definition sizeof_nep6_account_extra :: nat where "sizeof_nep6_account_extra = 16"

definition neoc_nep6_account_create ::
  "allocator \<Rightarrow> string option \<Rightarrow> string option \<Rightarrow> bool \<Rightarrow> bool \<Rightarrow> string option \<Rightarrow> neoc_nep6_contract option \<Rightarrow> neoc_nep6_account result" where
  "neoc_nep6_account_create A address label is_default lock key contract =
     (case address of
        None \<Rightarrow> Err NEOC_ERROR_INVALID_ARGUMENT
      | Some x \<Rightarrow>
          as_error NEOC_ERROR_OUT_OF_MEMORY
            (bind_r (malloc_r A sizeof_nep6_account) (\<lambda>_.
             bind_r (strdup_r A x) (\<lambda>x.
             bind_r (copy_optional A label) (\<lambda>label.
             bind_r (copy_optional A key) (\<lambda>key.
               Ok \<lparr>na_address = Some x, na_label = label, na_is_default = is_default, na_lock = lock, na_key = key, na_contract = contract,
                   na_extra = []\<rparr>))))))"

definition neoc_nep6_account_set_address :: "allocator \<Rightarrow> string option \<Rightarrow> (neoc_nep6_account, unit) cmd" where
  "neoc_nep6_account_set_address A address a =
     (case address of
        None \<Rightarrow> (Err NEOC_ERROR_INVALID_ARGUMENT, a)
      | Some x \<Rightarrow> if A (length x + 1) then (Ok (), a\<lparr>na_address := Some x\<rparr>) else (Err NEOC_ERROR_OUT_OF_MEMORY, a))"

definition neoc_nep6_account_get_address :: "neoc_nep6_account option \<Rightarrow> string option" where
  "neoc_nep6_account_get_address account = (case account of None \<Rightarrow> None | Some a \<Rightarrow> na_address a)"

definition neoc_nep6_account_set_label :: "allocator \<Rightarrow> string option \<Rightarrow> (neoc_nep6_account, unit) cmd" where
  "neoc_nep6_account_set_label A label a =
     (case copy_optional A label of Ok copy \<Rightarrow> (Ok (), a\<lparr>na_label := copy\<rparr>) | Err _ \<Rightarrow> (Err NEOC_ERROR_OUT_OF_MEMORY, a) | Fault \<Rightarrow> (Fault, a))"

definition neoc_nep6_account_get_label :: "neoc_nep6_account option \<Rightarrow> string option" where
  "neoc_nep6_account_get_label account = (case account of None \<Rightarrow> None | Some a \<Rightarrow> na_label a)"

definition neoc_nep6_account_set_default :: "bool \<Rightarrow> (neoc_nep6_account, unit) cmd" where
  "neoc_nep6_account_set_default is_default a = (Ok (), a\<lparr>na_is_default := is_default\<rparr>)"

definition neoc_nep6_account_is_default :: "neoc_nep6_account option \<Rightarrow> bool" where
  "neoc_nep6_account_is_default account = (case account of None \<Rightarrow> False | Some a \<Rightarrow> na_is_default a)"

definition neoc_nep6_account_set_locked :: "bool \<Rightarrow> (neoc_nep6_account, unit) cmd" where
  "neoc_nep6_account_set_locked lock a = (Ok (), a\<lparr>na_lock := lock\<rparr>)"

definition neoc_nep6_account_is_locked :: "neoc_nep6_account option \<Rightarrow> bool" where
  "neoc_nep6_account_is_locked account = (case account of None \<Rightarrow> False | Some a \<Rightarrow> na_lock a)"

definition neoc_nep6_account_set_key :: "allocator \<Rightarrow> string option \<Rightarrow> (neoc_nep6_account, unit) cmd" where
  "neoc_nep6_account_set_key A key a =
     (case copy_optional A key of Ok copy \<Rightarrow> (Ok (), a\<lparr>na_key := copy\<rparr>) | Err _ \<Rightarrow> (Err NEOC_ERROR_OUT_OF_MEMORY, a) | Fault \<Rightarrow> (Fault, a))"

definition neoc_nep6_account_get_key :: "neoc_nep6_account option \<Rightarrow> string option" where
  "neoc_nep6_account_get_key account = (case account of None \<Rightarrow> None | Some a \<Rightarrow> na_key a)"

definition neoc_nep6_account_set_contract :: "neoc_nep6_contract option \<Rightarrow> (neoc_nep6_account, unit) cmd" where
  "neoc_nep6_account_set_contract contract a = (Ok (), a\<lparr>na_contract := contract\<rparr>)"

definition neoc_nep6_account_get_contract :: "neoc_nep6_account option \<Rightarrow> neoc_nep6_contract option" where
  "neoc_nep6_account_get_contract account = (case account of None \<Rightarrow> None | Some a \<Rightarrow> na_contract a)"

text \<open>One entry of the first account against the entries of the second: the first entry with the same key decides.\<close>

definition extra_matches :: "(string \<times> string) list \<Rightarrow> string \<times> string \<Rightarrow> bool" where
  "extra_matches extra entry = (case find (\<lambda>e. fst e = fst entry) extra of None \<Rightarrow> False | Some e \<Rightarrow> snd e = snd entry)"

text \<open>\<open>same\<close>: the two pointers are equal.  Comparing a null address is a fault.\<close>

definition neoc_nep6_account_equals :: "bool \<Rightarrow> neoc_nep6_account option \<Rightarrow> neoc_nep6_account option \<Rightarrow> bool result" where
  "neoc_nep6_account_equals same account1 account2 =
     (if same then Ok True
      else case (account1, account2) of
        (Some a, Some b) \<Rightarrow>
          (case (na_address a, na_address b) of
             (Some x, Some y) \<Rightarrow>
               Ok (x = y \<and> na_label a = na_label b \<and> na_is_default a = na_is_default b \<and> na_lock a = na_lock b \<and> na_key a = na_key b
                   \<and> (na_contract a = None) = (na_contract b = None)
                   \<and> (na_contract a \<noteq> None \<and> na_contract b \<noteq> None \<longrightarrow> neoc_nep6_contracts_equal (na_contract a) (na_contract b))
                   \<and> length (na_extra a) = length (na_extra b) \<and> list_all (extra_matches (na_extra b)) (na_extra a))
           | _ \<Rightarrow> Fault)
      | _ \<Rightarrow> Ok False)"

definition neoc_nep6_account_copy :: "allocator \<Rightarrow> neoc_nep6_account option \<Rightarrow> neoc_nep6_account result" where
  "neoc_nep6_account_copy A src =
     (case src of
        None \<Rightarrow> Err NEOC_ERROR_INVALID_ARGUMENT
      | Some a \<Rightarrow>
          bind_r (case na_contract a of None \<Rightarrow> Ok None | Some c \<Rightarrow> bind_r (neoc_nep6_contract_clone A (Some c)) (\<lambda>c. Ok (Some c))) (\<lambda>contract.
          bind_r (neoc_nep6_account_create A (na_address a) (na_label a) (na_is_default a) (na_lock a) (na_key a) contract) (\<lambda>copy.
            if na_extra a = [] then Ok copy
            else as_error NEOC_ERROR_OUT_OF_MEMORY
              (bind_r (malloc_r A (length (na_extra a) * sizeof_nep6_account_extra)) (\<lambda>_.
               bind_r (map_r (\<lambda>(k, v). bind_r (strdup_r A k) (\<lambda>k. bind_r (strdup_r A v) (\<lambda>v. Ok (k, v)))) (na_extra a)) (\<lambda>extra.
                 Ok (copy\<lparr>na_extra := extra\<rparr>)))))))"

subsection \<open>Wallets\<close>

record neoc_nep6_scrypt_params =
  n6_n :: u32
  n6_r :: u32
  n6_p :: u32

record neoc_nep6_wallet =
  nw_name :: "string option"
  nw_version :: "string option"
  nw_scrypt :: neoc_nep6_scrypt_params
  nw_accounts :: "neoc_nep6_account list"
  nw_capacity :: nat

definition sizeof_nep6_wallet :: nat where "sizeof_nep6_wallet = 64"

text \<open>The copies of name and version are not checked.\<close>

definition copy_unchecked :: "allocator \<Rightarrow> string \<Rightarrow> string option" where
  "copy_unchecked A s = (if A (length s + 1) then Some s else None)"

definition neoc_nep6_wallet_create :: "allocator \<Rightarrow> string option \<Rightarrow> string option \<Rightarrow> neoc_nep6_wallet result" where
  "neoc_nep6_wallet_create A name version =
     bind_r (malloc_r A sizeof_nep6_wallet) (\<lambda>_.
     bind_r (malloc_r A (10 * 8)) (\<lambda>_.
       Ok \<lparr>nw_name = copy_unchecked A (case name of Some n \<Rightarrow> n | None \<Rightarrow> ''NeoC Wallet''),
           nw_version = copy_unchecked A (case version of Some v \<Rightarrow> v | None \<Rightarrow> ''1.0''),
           nw_scrypt = \<lparr>n6_n = 16384, n6_r = 8, n6_p = 8\<rparr>, nw_accounts = [], nw_capacity = 10\<rparr>))"

text \<open>
  A refused growth of the array is noticed before the flags change.  The array is grown once: when it is still too small then, as it is for a wallet
  loaded from JSON with four accounts or more, whose capacity is zero, the accounts are read and stored outside of it.
\<close>

definition neoc_nep6_wallet_add_account_existing :: "allocator \<Rightarrow> neoc_nep6_account option \<Rightarrow> (neoc_nep6_wallet, unit) cmd" where
  "neoc_nep6_wallet_add_account_existing A account w =
     (case account of
        None \<Rightarrow> (Err NEOC_ERROR_INVALID_ARGUMENT, w)
      | Some a \<Rightarrow>
          (case neoc_nep6_account_get_address (Some a) of
             None \<Rightarrow> (Err NEOC_ERROR_INVALID_ARGUMENT, w)
           | Some x \<Rightarrow>
               if list_ex (\<lambda>b. neoc_nep6_account_get_address (Some b) = Some x) (nw_accounts w) then (Err NEOC_ERROR_INVALID_STATE, w)
               else
                 let new_capacity = (if nw_capacity w = 0 then 4 else nw_capacity w * 2); full = nw_capacity w \<le> length (nw_accounts w) in
                 if full \<and> \<not> A (new_capacity * 8) then (Err NEOC_ERROR_MEMORY, w)
                 else if full \<and> new_capacity \<le> length (nw_accounts w) then (Fault, w)
                 else (Ok (), w\<lparr>nw_capacity := (if full then new_capacity else nw_capacity w),
                       nw_accounts := (if neoc_nep6_account_is_default (Some a) then map (\<lambda>b. snd (neoc_nep6_account_set_default False b)) (nw_accounts w)
                                       else nw_accounts w) @ [a]\<rparr>)))"

text \<open>\<^verbatim>\<open>sprintf\<close> with \<^verbatim>\<open>%02x\<close>.\<close>

definition hex_byte :: "byte \<Rightarrow> string" where
  "hex_byte b = [neoc_hex_value_to_char (uint (drop_bit 4 b)) False, neoc_hex_value_to_char (uint (b AND 0x0F)) False]"

definition signature_parameter :: neoc_nep6_parameter where
  "signature_parameter = \<lparr>pm_name = Some ''signature'', pm_type = NEOC_PARAM_TYPE_SIGNATURE\<rparr>"

definition neoc_nep6_wallet_add_account ::
  "crypto \<Rightarrow> allocator \<Rightarrow> interop_table \<Rightarrow> base_mul \<Rightarrow> ciphers \<Rightarrow> byte list option \<Rightarrow> string option \<Rightarrow> string option \<Rightarrow> bool
     \<Rightarrow> (neoc_nep6_wallet, unit) cmd" where
  "neoc_nep6_wallet_add_account C A T G E private_key password label is_default w =
     (case (private_key, password) of
        (Some key, Some pass) \<Rightarrow>
          bind_c (lift_c
            (bind_r (neoc_ec_key_pair_from_private_key A G (Some key) 32) (\<lambda>key_pair.
             bind_r (neoc_ec_key_pair_get_address C A T (Some key_pair)) (\<lambda>address_ptr.
             bind_r (neoc_nep2_encrypt C A T G E (Some key) (Some pass)
                       (Some \<lparr>n2_n = n6_n (nw_scrypt w), n2_r = n6_r (nw_scrypt w), n2_p = n6_p (nw_scrypt w)\<rparr>) 64) (\<lambda>encrypted_key.
             bind_r (neoc_nep6_account_create A (Some (take 63 address_ptr)) label is_default False (Some encrypted_key) None) (\<lambda>account.
             bind_r (case neoc_ec_key_pair_get_public_key (Some key_pair) 65 of Err _ \<Rightarrow> Fault | r \<Rightarrow> r) (\<lambda>public_key.
             bind_r (neoc_nep6_contract_create A (Some (concat (map hex_byte (0x21 # take 33 public_key @ [0xAC])))) (Some [signature_parameter]) False)
               (\<lambda>contract. Ok (snd (neoc_nep6_account_set_contract (Some contract) account))))))))))
          (\<lambda>account. neoc_nep6_wallet_add_account_existing A (Some account)) w
      | _ \<Rightarrow> (Err NEOC_ERROR_INVALID_ARGUMENT, w))"

definition neoc_nep6_wallet_get_name_ptr :: "neoc_nep6_wallet option \<Rightarrow> string option" where
  "neoc_nep6_wallet_get_name_ptr wallet = (case wallet of None \<Rightarrow> None | Some w \<Rightarrow> nw_name w)"

definition neoc_nep6_wallet_get_name_copy :: "allocator \<Rightarrow> neoc_nep6_wallet option \<Rightarrow> string option result" where
  "neoc_nep6_wallet_get_name_copy A wallet =
     (case wallet of None \<Rightarrow> Err NEOC_ERROR_INVALID_ARGUMENT | Some w \<Rightarrow> copy_optional A (nw_name w))"

definition neoc_nep6_wallet_get_version_ptr :: "neoc_nep6_wallet option \<Rightarrow> string option" where
  "neoc_nep6_wallet_get_version_ptr wallet = (case wallet of None \<Rightarrow> None | Some w \<Rightarrow> nw_version w)"

definition neoc_nep6_wallet_get_version_copy :: "allocator \<Rightarrow> neoc_nep6_wallet option \<Rightarrow> string option result" where
  "neoc_nep6_wallet_get_version_copy A wallet =
     (case wallet of None \<Rightarrow> Err NEOC_ERROR_INVALID_ARGUMENT | Some w \<Rightarrow> copy_optional A (nw_version w))"

definition neoc_nep6_wallet_set_version :: "allocator \<Rightarrow> string option \<Rightarrow> (neoc_nep6_wallet, unit) cmd" where
  "neoc_nep6_wallet_set_version A version w =
     (case version of
        None \<Rightarrow> (Ok (), w\<lparr>nw_version := None\<rparr>)
      | Some v \<Rightarrow> if A (length v + 1) then (Ok (), w\<lparr>nw_version := Some v\<rparr>) else (Err NEOC_ERROR_MEMORY, w\<lparr>nw_version := None\<rparr>))"

definition neoc_nep6_wallet_get_scrypt_raw :: "neoc_nep6_wallet option \<Rightarrow> neoc_nep6_scrypt_params option" where
  "neoc_nep6_wallet_get_scrypt_raw wallet = (case wallet of None \<Rightarrow> None | Some w \<Rightarrow> Some (nw_scrypt w))"

definition neoc_nep6_wallet_get_scrypt_copy :: "allocator \<Rightarrow> neoc_nep6_wallet option \<Rightarrow> neoc_scrypt_params option" where
  "neoc_nep6_wallet_get_scrypt_copy A wallet =
     (case wallet of
        None \<Rightarrow> None
      | Some w \<Rightarrow> if A 16 then Some \<lparr>sc_n = n6_n (nw_scrypt w), sc_r = n6_r (nw_scrypt w), sc_p = n6_p (nw_scrypt w), sc_dk_len = 64\<rparr> else None)"

definition neoc_nep6_wallet_get_scrypt_out :: "neoc_nep6_wallet option \<Rightarrow> (neoc_scrypt_params, unit) cmd" where
  "neoc_nep6_wallet_get_scrypt_out wallet params =
     (case wallet of
        None \<Rightarrow> (Err NEOC_ERROR_INVALID_ARGUMENT, params)
      | Some w \<Rightarrow> (Ok (), \<lparr>sc_n = n6_n (nw_scrypt w), sc_r = n6_r (nw_scrypt w), sc_p = n6_p (nw_scrypt w),
                          sc_dk_len = (if sc_dk_len params = 0 then 64 else sc_dk_len params)\<rparr>))"

definition neoc_nep6_wallet_set_scrypt :: "neoc_scrypt_params option \<Rightarrow> (neoc_nep6_wallet, unit) cmd" where
  "neoc_nep6_wallet_set_scrypt params w =
     (case params of
        None \<Rightarrow> (Err NEOC_ERROR_INVALID_ARGUMENT, w)
      | Some s \<Rightarrow> (Ok (), w\<lparr>nw_scrypt := \<lparr>n6_n = sc_n s, n6_r = sc_r s, n6_p = sc_p s\<rparr>\<rparr>))"

text \<open>\<^verbatim>\<open>strcmp\<close> with a null address is a fault here; the other searches skip such accounts.\<close>

fun find_nep6 :: "string \<Rightarrow> nat \<Rightarrow> neoc_nep6_account list \<Rightarrow> nat option result" where
  "find_nep6 address i [] = Ok None"
| "find_nep6 address i (a # as) =
     (case na_address a of None \<Rightarrow> Fault | Some x \<Rightarrow> if x = address then Ok (Some i) else find_nep6 address (i + 1) as)"

definition neoc_nep6_wallet_remove_account :: "string option \<Rightarrow> (neoc_nep6_wallet, unit) cmd" where
  "neoc_nep6_wallet_remove_account address w =
     (case address of
        None \<Rightarrow> (Err NEOC_ERROR_INVALID_ARGUMENT, w)
      | Some x \<Rightarrow>
          (case find_nep6 x 0 (nw_accounts w) of
             Ok (Some i) \<Rightarrow> (Ok (), w\<lparr>nw_accounts := remove_at i (nw_accounts w)\<rparr>)
           | Ok None \<Rightarrow> (Err NEOC_ERROR_NOT_FOUND, w)
           | Err e \<Rightarrow> (Err e, w)
           | Fault \<Rightarrow> (Fault, w)))"

definition neoc_nep6_wallet_get_account_by_address :: "neoc_nep6_wallet option \<Rightarrow> string option \<Rightarrow> neoc_nep6_account option" where
  "neoc_nep6_wallet_get_account_by_address wallet address =
     (case (wallet, address) of
        (Some w, Some x) \<Rightarrow> find (\<lambda>a. neoc_nep6_account_get_address (Some a) = Some x) (nw_accounts w)
      | _ \<Rightarrow> None)"

definition neoc_nep6_wallet_find_account_by_address :: "neoc_nep6_wallet option \<Rightarrow> string option \<Rightarrow> neoc_nep6_account option" where
  "neoc_nep6_wallet_find_account_by_address wallet address = neoc_nep6_wallet_get_account_by_address wallet address"

definition neoc_nep6_wallet_get_default_account_ptr :: "neoc_nep6_wallet option \<Rightarrow> neoc_nep6_account option" where
  "neoc_nep6_wallet_get_default_account_ptr wallet =
     (case wallet of
        None \<Rightarrow> None
      | Some w \<Rightarrow>
          (case find (\<lambda>a. neoc_nep6_account_is_default (Some a)) (nw_accounts w) of
             Some a \<Rightarrow> Some a
           | None \<Rightarrow> if 0 < length (nw_accounts w) then Some (nw_accounts w ! 0) else None))"

definition neoc_nep6_wallet_get_default_account_out :: "neoc_nep6_wallet option \<Rightarrow> neoc_nep6_account result" where
  "neoc_nep6_wallet_get_default_account_out wallet =
     (case neoc_nep6_wallet_get_default_account_ptr wallet of None \<Rightarrow> Err NEOC_ERROR_NOT_FOUND | Some a \<Rightarrow> Ok a)"

definition neoc_nep6_wallet_get_account_count_value :: "neoc_nep6_wallet option \<Rightarrow> nat" where
  "neoc_nep6_wallet_get_account_count_value wallet = (case wallet of None \<Rightarrow> 0 | Some w \<Rightarrow> length (nw_accounts w))"

definition neoc_nep6_wallet_get_account_count_out :: "neoc_nep6_wallet option \<Rightarrow> nat result" where
  "neoc_nep6_wallet_get_account_count_out wallet = Ok (neoc_nep6_wallet_get_account_count_value wallet)"

definition neoc_nep6_wallet_get_account_by_index :: "neoc_nep6_wallet option \<Rightarrow> nat \<Rightarrow> neoc_nep6_account option" where
  "neoc_nep6_wallet_get_account_by_index wallet index =
     (case wallet of
        None \<Rightarrow> None
      | Some w \<Rightarrow> if length (nw_accounts w) \<le> index then None else Some (nw_accounts w ! index))"

text \<open>
  The functions of cJSON that loading a wallet calls; values are of a type of the library.  \<open>string_value\<close> is \<^verbatim>\<open>valuestring\<close> of a value for which
  \<^verbatim>\<open>cJSON_IsString\<close> holds, \<open>bool_value\<close> is \<^verbatim>\<open>cJSON_IsTrue\<close> of one for which \<^verbatim>\<open>cJSON_IsBool\<close> holds, and \<open>array_items\<close> are the items, by
  \<^verbatim>\<open>cJSON_GetArrayItem\<close>, of one for which \<^verbatim>\<open>cJSON_IsArray\<close> holds.
\<close>

record 'j cjson_lib =
  cJSON_Parse :: "string \<Rightarrow> 'j option"
  cJSON_GetObjectItem :: "'j \<Rightarrow> string \<Rightarrow> 'j option"
  string_value :: "'j \<Rightarrow> string option"
  bool_value :: "'j \<Rightarrow> bool option"
  valueint :: "'j \<Rightarrow> int"
  array_items :: "'j \<Rightarrow> 'j list option"

definition json_text :: "'j cjson_lib \<Rightarrow> allocator \<Rightarrow> 'j \<Rightarrow> string \<Rightarrow> string option" where
  "json_text J A obj key = Option.bind (Option.bind (cJSON_GetObjectItem J obj key) (string_value J)) (copy_unchecked A)"

definition json_flag :: "'j cjson_lib \<Rightarrow> 'j \<Rightarrow> string \<Rightarrow> bool" where
  "json_flag J obj key = (Option.bind (cJSON_GetObjectItem J obj key) (bool_value J) = Some True)"

definition json_u32 :: "'j cjson_lib \<Rightarrow> 'j option \<Rightarrow> string \<Rightarrow> u32" where
  "json_u32 J obj key = (case Option.bind obj (\<lambda>obj. cJSON_GetObjectItem J obj key) of None \<Rightarrow> 0 | Some v \<Rightarrow> word_of_int (valueint J v))"

text \<open>
  The object of an account is not checked for null before its fields are set.  (A refused object none of whose fields is present would stay in the
  array as a null pointer; this counts as a fault, too.)
\<close>

definition json_account :: "'j cjson_lib \<Rightarrow> allocator \<Rightarrow> 'j \<Rightarrow> neoc_nep6_account result" where
  "json_account J A account =
     (if \<not> A sizeof_nep6_account then Fault
      else Ok \<lparr>na_address = json_text J A account ''address'', na_label = json_text J A account ''label'',
               na_is_default = json_flag J account ''isDefault'', na_lock = json_flag J account ''lock'',
               na_key = json_text J A account ''key'', na_contract = None, na_extra = []\<rparr>)"

text \<open>
  \<open>J\<close> is \<open>None\<close> in a build without cJSON.  The capacity stays zero, whatever the number of accounts; the array of the accounts is not checked for null.
\<close>

definition neoc_nep6_wallet_from_json :: "'j cjson_lib option \<Rightarrow> allocator \<Rightarrow> string option \<Rightarrow> neoc_nep6_wallet result" where
  "neoc_nep6_wallet_from_json lib A json_str =
     (case json_str of
        None \<Rightarrow> Err NEOC_ERROR_INVALID_ARGUMENT
      | Some text \<Rightarrow>
          (case lib of
             None \<Rightarrow> Err NEOC_ERROR_NOT_IMPLEMENTED
           | Some J \<Rightarrow>
               (case cJSON_Parse J text of
                  None \<Rightarrow> Err NEOC_ERROR_INVALID_FORMAT
                | Some json_obj \<Rightarrow>
                    bind_r (malloc_r A sizeof_nep6_wallet) (\<lambda>_.
                      let scrypt = cJSON_GetObjectItem J json_obj ''scrypt'';
                          items = (case Option.bind (cJSON_GetObjectItem J json_obj ''accounts'') (array_items J) of None \<Rightarrow> [] | Some xs \<Rightarrow> xs) in
                      if items \<noteq> [] \<and> \<not> A (length items * 8) then Fault
                      else bind_r (map_r (json_account J A) items) (\<lambda>accounts.
                        Ok \<lparr>nw_name = json_text J A json_obj ''name'', nw_version = json_text J A json_obj ''version'',
                            nw_scrypt = \<lparr>n6_n = json_u32 J scrypt ''n'', n6_r = json_u32 J scrypt ''r'', n6_p = json_u32 J scrypt ''p''\<rparr>,
                            nw_accounts = accounts, nw_capacity = 0\<rparr>)))))"

text \<open>The parameters are always the default ones, not those of the wallet.\<close>

definition neoc_nep6_account_decrypt_private_key ::
  "crypto \<Rightarrow> allocator \<Rightarrow> interop_table \<Rightarrow> base_mul \<Rightarrow> ciphers \<Rightarrow> neoc_nep6_account option \<Rightarrow> string option \<Rightarrow> nat \<Rightarrow> byte list result" where
  "neoc_nep6_account_decrypt_private_key C A T G E account password private_key_len =
     (case (account, password) of
        (Some a, Some pass) \<Rightarrow>
          if private_key_len < 32 then Err NEOC_ERROR_BUFFER_TOO_SMALL
          else (case na_key a of
                  None \<Rightarrow> Err NEOC_ERROR_INVALID_STATE
                | Some key \<Rightarrow> neoc_nep2_decrypt C A T G E (Some key) (Some pass) None private_key_len)
      | _ \<Rightarrow> Err NEOC_ERROR_INVALID_ARGUMENT)"

subsection \<open>Conversions of accounts\<close>

definition neoc_account_to_nep6 :: "crypto \<Rightarrow> allocator \<Rightarrow> interop_table \<Rightarrow> neoc_account option \<Rightarrow> neoc_nep6_account result" where
  "neoc_account_to_nep6 C A T account =
     (case account of
        None \<Rightarrow> Err NEOC_ERROR_INVALID_ARGUMENT
      | Some a \<Rightarrow>
          (case ac_address a of
             None \<Rightarrow> Err NEOC_ERROR_INVALID_STATE
           | Some address \<Rightarrow>
               let label = (case ac_label a of Some (c # cs) \<Rightarrow> Some (c # cs) | _ \<Rightarrow> None);
                   encrypted_key = map_option c_text (ac_encrypted_key a) in
               bind_r (neoc_nep6_account_create A (Some address) label (ac_is_default a) (ac_is_locked a) encrypted_key None) (\<lambda>n.
                 case neoc_account_get_verification_script C A T (Some a) of
                   Fault \<Rightarrow> Fault
                 | Ok (b # bs) \<Rightarrow>
                     bind_r (as_error NEOC_ERROR_OUT_OF_MEMORY (neoc_base64_encode_alloc A (Some (b # bs)) (length (b # bs)))) (\<lambda>script_base64.
                     bind_r (neoc_nep6_contract_create A (Some script_base64) (Some [signature_parameter]) False) (\<lambda>contract.
                       Ok (snd (neoc_nep6_account_set_contract (Some contract) n))))
                 | _ \<Rightarrow> Ok n)))"

text \<open>A script that is not Base64 is dropped without an error.\<close>

definition neoc_account_from_nep6 :: "crypto \<Rightarrow> allocator \<Rightarrow> neoc_nep6_account option \<Rightarrow> neoc_account result" where
  "neoc_account_from_nep6 C A nep6_account =
     (case nep6_account of
        None \<Rightarrow> Err NEOC_ERROR_INVALID_ARGUMENT
      | Some n \<Rightarrow>
          (case neoc_nep6_account_get_address (Some n) of
             None \<Rightarrow> Err NEOC_ERROR_INVALID_FORMAT
           | Some address \<Rightarrow>
               bind_r (neoc_account_create_from_address C A (Some address)) (\<lambda>a.
                 let a = (case neoc_nep6_account_get_label (Some n) of None \<Rightarrow> a | Some l \<Rightarrow> snd (neoc_account_set_label A (Some l) a));
                     a = snd (neoc_account_set_default (neoc_nep6_account_is_default (Some n)) a);
                     encrypted_key = neoc_nep6_account_get_key (Some n) in
                 case neoc_account_store_encrypted_key A encrypted_key a of
                   (Fault, _) \<Rightarrow> Fault
                 | (Err e, _) \<Rightarrow> Err e
                 | (Ok _, a) \<Rightarrow>
                     let a = a\<lparr>ac_is_locked := neoc_nep6_account_is_locked (Some n) \<or> encrypted_key \<noteq> None\<rparr> in
                     (case neoc_nep6_contract_get_script (neoc_nep6_account_get_contract (Some n)) of
                        None \<Rightarrow> Ok a
                      | Some script_base64 \<Rightarrow>
                          (case neoc_base64_decode_alloc A (Some script_base64) of
                             Fault \<Rightarrow> Fault
                           | Err _ \<Rightarrow> Ok a
                           | Ok decoded \<Rightarrow> Ok (a\<lparr>ac_verification_script := Some decoded\<rparr>))))))"

definition neoc_account_create_from_nep6 :: "crypto \<Rightarrow> allocator \<Rightarrow> neoc_nep6_account option \<Rightarrow> neoc_account result" where
  "neoc_account_create_from_nep6 C A nep6_account = neoc_account_from_nep6 C A nep6_account"

subsection \<open>Conversions of wallets\<close>

fun add_converted :: "crypto \<Rightarrow> allocator \<Rightarrow> interop_table \<Rightarrow> wallet_state \<Rightarrow> nat list \<Rightarrow> neoc_nep6_wallet \<Rightarrow> neoc_nep6_wallet result" where
  "add_converted C A T s [] w = Ok w"
| "add_converted C A T s (p # ps) w =
     bind_r (account_at s p) (\<lambda>a.
     bind_r (neoc_account_to_nep6 C A T (Some a)) (\<lambda>n.
       case neoc_nep6_wallet_add_account_existing A (Some n) w of
         (Ok _, w') \<Rightarrow> add_converted C A T s ps w'
       | (Err e, _) \<Rightarrow> Err e
       | (Fault, _) \<Rightarrow> Fault))"

definition neoc_wallet_to_nep6 :: "crypto \<Rightarrow> allocator \<Rightarrow> interop_table \<Rightarrow> wallet_state \<Rightarrow> neoc_nep6_wallet result" where
  "neoc_wallet_to_nep6 C A T s =
     (let w = ws_wallet s;
          name = (case wl_name w of Some n \<Rightarrow> n | None \<Rightarrow> ''NeoC Wallet'');
          version = (case wl_version w of Some v \<Rightarrow> v | None \<Rightarrow> ''1.0'') in
      bind_r (neoc_nep6_wallet_create A (Some name) (Some version)) (\<lambda>nw.
        add_converted C A T s (wl_accounts w)
          (case wl_version w of None \<Rightarrow> nw | Some v \<Rightarrow> snd (neoc_nep6_wallet_set_version A (Some v) nw))))"

text \<open>
  \<open>ps\<close>: the addresses that the allocations of the accounts return.  A failure releases the account at hand, if there is one; the caller releases the
  wallet.
\<close>

fun load_accounts :: "crypto \<Rightarrow> allocator \<Rightarrow> nat list \<Rightarrow> neoc_nep6_account list \<Rightarrow> (wallet_state, unit) cmd" where
  "load_accounts C A (p # ps) (n # ns) s =
     (case neoc_account_from_nep6 C A (Some n) of
        Fault \<Rightarrow> (Fault, s)
      | Err e \<Rightarrow> (Err e, s)
      | Ok a \<Rightarrow>
          (case neoc_wallet_add_account A (Some p) (s\<lparr>ws_heap := (ws_heap s)(p \<mapsto> a)\<rparr>) of
             (Fault, s) \<Rightarrow> (Fault, s)
           | (Err e, s) \<Rightarrow> then_c (neoc_account_free p) (fail_c e) s
           | (Ok _, s) \<Rightarrow>
               (case account_at s p of
                  Ok a \<Rightarrow>
                    (if ac_is_default a
                     then (case neoc_wallet_set_default_account_account C A (Some p) s of
                             (Fault, s) \<Rightarrow> (Fault, s)
                           | (_, s) \<Rightarrow> load_accounts C A ps ns s)
                     else load_accounts C A ps ns s)
                | _ \<Rightarrow> (Fault, s))))"
| "load_accounts C A ps ns s = (Ok (), s)"

definition neoc_wallet_from_nep6 ::
  "crypto \<Rightarrow> allocator \<Rightarrow> nat list \<Rightarrow> neoc_nep6_wallet option \<Rightarrow> (nat \<Rightarrow> neoc_account option) \<Rightarrow> wallet_state result" where
  "neoc_wallet_from_nep6 C A ps nep6_wallet heap =
     (case nep6_wallet of
        None \<Rightarrow> Err NEOC_ERROR_INVALID_ARGUMENT
      | Some nw \<Rightarrow>
          bind_r (neoc_wallet_create A (neoc_nep6_wallet_get_name_ptr (Some nw))) (\<lambda>w.
            let w = (case neoc_nep6_wallet_get_version_copy A (Some nw) of Ok (Some v) \<Rightarrow> w\<lparr>wl_version := Some v\<rparr> | _ \<Rightarrow> w) in
            case load_accounts C A ps (nw_accounts nw) \<lparr>ws_wallet = w, ws_heap = heap\<rparr> of
              (Ok _, s) \<Rightarrow> Ok s
            | (Fault, _) \<Rightarrow> Fault
            | (Err e, s) \<Rightarrow> (case neoc_wallet_free s of (Fault, _) \<Rightarrow> Fault | _ \<Rightarrow> Err e)))"

subsection \<open>Copies\<close>

text \<open>Statements about success assume that no allocation is refused.\<close>

lemma copies_granted [simp]:
  "strdup_r (\<lambda>_. True) s = Ok s" "copy_optional (\<lambda>_. True) x = Ok x" "copy_unchecked (\<lambda>_. True) s = Some s" "as_error e (Ok y) = Ok y"
  by (simp_all add: strdup_r_def copy_optional_def copy_unchecked_def as_error_def split: option.split)

lemma copy_parameters_granted [simp]: "copy_parameters (\<lambda>_. True) ps = Ok ps"
  using map_r_Ok [of ps "\<lambda>p. Ok (p\<lparr>pm_name := pm_name p\<rparr>)" "\<lambda>p. p"] by (simp add: copy_parameters_def)

lemma contract_create_granted [simp]:
  "neoc_nep6_contract_create (\<lambda>_. True) s (Some ps) d = Ok \<lparr>nc_script = s, nc_parameters = ps, nc_is_deployed = d\<rparr>"
  by (simp add: neoc_nep6_contract_create_def)

lemma account_create_granted [simp]:
  "neoc_nep6_account_create (\<lambda>_. True) (Some x) l d k e c
    = Ok \<lparr>na_address = Some x, na_label = l, na_is_default = d, na_lock = k, na_key = e, na_contract = c, na_extra = []\<rparr>"
  by (simp add: neoc_nep6_account_create_def)

lemma clone_granted [simp]: "neoc_nep6_contract_clone (\<lambda>_. True) (Some c) = Ok c"
  by (simp add: neoc_nep6_contract_clone_def)

lemma contracts_equal_iff: "neoc_nep6_contracts_equal a b \<longleftrightarrow> a = b"
proof -
  have "list_all2 (\<lambda>pa pb. pm_type pa = pm_type pb \<and> pm_name pa = pm_name pb) xs ys \<longleftrightarrow> xs = ys" for xs ys :: "neoc_nep6_parameter list"
  proof -
    have "(\<lambda>pa pb :: neoc_nep6_parameter. pm_type pa = pm_type pb \<and> pm_name pa = pm_name pb) = (=)"
      by (auto simp: fun_eq_iff intro: neoc_nep6_parameter.equality)
    then show ?thesis by (simp add: list.rel_eq)
  qed
  then show ?thesis by (auto simp: neoc_nep6_contracts_equal_def split: option.splits intro: neoc_nep6_contract.equality)
qed

lemma find_distinct_keys: "distinct (map fst xs) \<Longrightarrow> find (\<lambda>e. fst e = k) xs = Some e \<longleftrightarrow> e \<in> set xs \<and> fst e = k"
  by (induction xs) (auto simp: image_iff)

lemma extras_match_iff:
  assumes "distinct (map fst xs)" and "distinct (map fst ys)"
  shows "length xs = length ys \<and> list_all (extra_matches ys) xs \<longleftrightarrow> set xs = set ys"
proof -
  have m: "extra_matches ys e \<longleftrightarrow> e \<in> set ys" for e
  proof
    assume "extra_matches ys e"
    then obtain f where "find (\<lambda>f. fst f = fst e) ys = Some f" "snd f = snd e" by (auto simp: extra_matches_def split: option.splits)
    then show "e \<in> set ys" using find_distinct_keys [OF assms(2)] by (metis prod_eqI)
  next
    assume "e \<in> set ys"
    then have "find (\<lambda>f. fst f = fst e) ys = Some e" using find_distinct_keys [OF assms(2)] by blast
    then show "extra_matches ys e" by (simp add: extra_matches_def)
  qed
  have d: "distinct xs" "distinct ys" using assms by (simp_all add: distinct_map)
  then have "set xs \<subseteq> set ys \<and> length xs = length ys \<longleftrightarrow> set xs = set ys"
    by (metis card_seteq distinct_card finite_set order_refl)
  then show ?thesis by (auto simp: m list_all_iff)
qed

subsection \<open>Converting an account\<close>

lemma base64_alloc_roundtrip:
  assumes "bs \<noteq> []" and "length bs < 2 ^ 62"
  obtains s where "neoc_base64_encode_alloc (\<lambda>_. True) (Some bs) (length bs) = Ok s" and "neoc_base64_decode_alloc (\<lambda>_. True) (Some s) = Ok bs"
proof -
  from base64_codec.decode_encode [OF assms(2)] obtain s where
    s: "neoc_base64_encode (Some bs) (length bs) (neoc_base64_encode_buffer_size (length bs)) = Ok s"
      "neoc_base64_decode (Some s) (unat (neoc_base64_decode_buffer_size (Some s))) = Ok bs" by blast
  then have "s = base64_encode_loop bs" by (simp add: neoc_base64_encode_def neoc_base64_encode_buffer_size_def)
  then have "unat (neoc_base64_decode_buffer_size (Some s)) = length bs"
    using decode_buffer_size_output_len [of s] assms(2) by (simp add: output_len_encode_loop length_encode_loop)
  then have "neoc_base64_decode_buffer_size (Some s) \<noteq> 0" using assms(1) by auto
  then show thesis using s by (intro that [of s]) (simp_all add: neoc_base64_encode_alloc_def neoc_base64_decode_alloc_def Let_def)
qed

lemma verification_script_no_fault: "neoc_account_get_verification_script C (\<lambda>_. True) T (Some a) \<noteq> Fault"
proof -
  have "neoc_script_create_single_sig_verification (\<lambda>_. True) C T (Some key) \<noteq> Fault" for key
  proof (cases "key_size key")
    case True
    then show ?thesis by (simp add: single_sig_eq)
  qed (auto simp: key_size_def neoc_script_create_single_sig_verification_def)
  then show ?thesis
    by (auto simp: neoc_account_get_verification_script_def neoc_ec_key_pair_get_public_key_def split: option.splits list.splits account_extra.splits)
qed

text \<open>Accounts as they come about: the address stands for the script hash, and scripts have a size.\<close>

definition convertible :: "crypto \<Rightarrow> interop_table \<Rightarrow> neoc_account \<Rightarrow> bool" where
  "convertible C T a \<longleftrightarrow>
     (\<exists>x. ac_address a = Some x \<and> neoc_hash160_from_address C (\<lambda>_. True) (Some x) = Ok (ac_script_hash a))
     \<and> (\<forall>bs. neoc_account_get_verification_script C (\<lambda>_. True) T (Some a) = Ok bs \<longrightarrow> length bs < 2 ^ 60)"

definition shown_script :: "crypto \<Rightarrow> interop_table \<Rightarrow> neoc_account \<Rightarrow> byte list option" where
  "shown_script C T a =
     (case neoc_account_get_verification_script C (\<lambda>_. True) T (Some a) of Ok (b # bs) \<Rightarrow> Some (b # bs) | _ \<Rightarrow> None)"

text \<open>What is left of an account in a NEP-6 file.\<close>

definition kept :: "crypto \<Rightarrow> interop_table \<Rightarrow> neoc_account \<Rightarrow> neoc_account" where
  "kept C T a = new_account\<lparr>ac_label := (case ac_label a of Some (c # cs) \<Rightarrow> Some (c # cs) | _ \<Rightarrow> ac_address a), ac_address := ac_address a,
     ac_script_hash := ac_script_hash a, ac_is_locked := ac_is_locked a \<or> ac_encrypted_key a \<noteq> None, ac_is_default := ac_is_default a,
     ac_encrypted_key := map_option (string_bytes \<circ> c_text) (ac_encrypted_key a), ac_verification_script := shown_script C T a\<rparr>"

lemma to_nep6_granted:
  assumes "convertible C T a" and "ac_address a = Some x"
  obtains c where "neoc_account_to_nep6 C (\<lambda>_. True) T (Some a) = Ok \<lparr>na_address = Some x, na_label = (case ac_label a of Some (c # cs) \<Rightarrow> Some (c # cs) | _ \<Rightarrow> None),
      na_is_default = ac_is_default a, na_lock = ac_is_locked a, na_key = map_option c_text (ac_encrypted_key a), na_contract = c, na_extra = []\<rparr>"
    and "case shown_script C T a of None \<Rightarrow> c = None
      | Some bs \<Rightarrow> \<exists>s. neoc_nep6_contract_get_script c = Some s \<and> neoc_base64_decode_alloc (\<lambda>_. True) (Some s) = Ok bs"
proof (cases "shown_script C T a")
  case None
  then show thesis using verification_script_no_fault [of C T a] assms(2)
    by (intro that [of None])
       (auto simp: neoc_account_to_nep6_def shown_script_def neoc_nep6_account_set_contract_def Let_def split: result.splits list.splits)
next
  case (Some bs)
  then have bs: "neoc_account_get_verification_script C (\<lambda>_. True) T (Some a) = Ok bs" "bs \<noteq> []"
    by (auto simp: shown_script_def split: result.splits list.splits)
  then have "length bs < 2 ^ 62" using assms(1) by (auto simp: convertible_def)
  with bs(2) obtain s where s: "neoc_base64_encode_alloc (\<lambda>_. True) (Some bs) (length bs) = Ok s" "neoc_base64_decode_alloc (\<lambda>_. True) (Some s) = Ok bs"
    by (rule base64_alloc_roundtrip)
  obtain b cs where "bs = b # cs" using bs(2) by (cases bs) auto
  then show thesis using bs(1) s assms(2) Some
    by (intro that [of "Some \<lparr>nc_script = Some s, nc_parameters = [signature_parameter], nc_is_deployed = False\<rparr>"])
       (auto simp: neoc_account_to_nep6_def neoc_nep6_account_set_contract_def Let_def neoc_nep6_contract_get_script_def)
qed

lemma from_to_nep6:
  assumes "convertible C T a"
  shows "\<exists>n. neoc_account_to_nep6 C (\<lambda>_. True) T (Some a) = Ok n \<and> na_address n = ac_address a \<and> na_is_default n = ac_is_default a
    \<and> neoc_account_from_nep6 C (\<lambda>_. True) (Some n) = Ok (kept C T a)"
proof -
  from assms obtain x where x: "ac_address a = Some x" "neoc_hash160_from_address C (\<lambda>_. True) (Some x) = Ok (ac_script_hash a)"
    by (auto simp: convertible_def)
  from assms x(1) obtain c where n: "neoc_account_to_nep6 C (\<lambda>_. True) T (Some a) = Ok \<lparr>na_address = Some x, na_label = (case ac_label a of Some (c # cs) \<Rightarrow> Some (c # cs) | _ \<Rightarrow> None),
      na_is_default = ac_is_default a, na_lock = ac_is_locked a, na_key = map_option c_text (ac_encrypted_key a), na_contract = c, na_extra = []\<rparr>" (is "_ = Ok ?n")
    and c: "case shown_script C T a of None \<Rightarrow> c = None
      | Some bs \<Rightarrow> \<exists>s. neoc_nep6_contract_get_script c = Some s \<and> neoc_base64_decode_alloc (\<lambda>_. True) (Some s) = Ok bs"
    by (rule to_nep6_granted)
  have "neoc_account_from_nep6 C (\<lambda>_. True) (Some ?n) = Ok (kept C T a)"
    using x c
    by (cases "shown_script C T a"; cases "ac_encrypted_key a")
       (auto simp: neoc_account_from_nep6_def neoc_nep6_account_get_address_def neoc_account_create_from_address_def neoc_nep6_account_get_label_def
         neoc_account_set_label_def neoc_account_set_default_def neoc_nep6_account_is_default_def neoc_nep6_account_get_key_def
         neoc_account_store_encrypted_key_def neoc_account_clear_encrypted_key_def neoc_nep6_account_is_locked_def neoc_nep6_account_get_contract_def
         neoc_nep6_contract_get_script_def kept_def new_account_def Let_def split: option.splits list.splits)
  then show ?thesis using n x(1) by auto
qed

subsection \<open>Converting a wallet\<close>

text \<open>Adding an account whose flag may be set, and making it the default when it is.\<close>

lemma heap_update_same:
  assumes "p \<notin> set ps" and "q \<in> set ps"
  shows "has_address (s\<lparr>ws_heap := (ws_heap s)(p := v)\<rparr>) q = has_address s q" and "addr_of (s\<lparr>ws_heap := (ws_heap s)(p := v)\<rparr>) q = addr_of s q"
  using assms by (auto simp: has_address_def addr_of_def)

lemma add_form:
  assumes "wallet_inv s" and "p \<notin> set (wl_accounts (ws_wallet s))" and "ac_address a = Some x" and "x \<notin> set (fst (view s))"
  obtains c where "length (wl_accounts (ws_wallet s)) < c"
    and "neoc_wallet_add_account (\<lambda>_. True) (Some p) (s\<lparr>ws_heap := (ws_heap s)(p \<mapsto> a)\<rparr>)
    = (Ok (), \<lparr>ws_wallet = (ws_wallet s)\<lparr>wl_capacity := c, wl_accounts := wl_accounts (ws_wallet s) @ [p],
           wl_default_account := if wl_accounts (ws_wallet s) = [] then Some p else wl_default_account (ws_wallet s)\<rparr>,
         ws_heap = (ws_heap s)(p \<mapsto> if wl_accounts (ws_wallet s) = [] then a\<lparr>ac_is_default := True\<rparr> else a)\<rparr>)"
proof -
  let ?w = "ws_wallet s" let ?ps = "wl_accounts ?w" let ?s = "s\<lparr>ws_heap := (ws_heap s)(p \<mapsto> a)\<rparr>"
  note same = heap_update_same [OF assms(2)]
  have ok: "\<forall>q \<in> set ?ps. has_address ?s q" using same(1) inv_addresses [OF assms(1)] by blast
  have m: "map (addr_of ?s) ?ps = map (addr_of s) ?ps" using same(2) by (intro map_cong refl)
  have "address_at ?s p = Ok x" using assms(3) by (simp add: address_at_def account_at_def)
  moreover have "find_address ?s (Ok x) 0 ?ps = Ok None"
  proof (rule find_address_cases [OF ok, of x 0])
    fix k
    assume k: "k < length ?ps" "addr_of ?s (?ps ! k) = x"
    then have "map (addr_of ?s) ?ps ! k = x" by (simp del: map_eq_conv)
    then show ?thesis using k(1) assms(4) unfolding m by (simp add: view_def) (metis image_eqI nth_mem)
  qed
  moreover have cap: "length ?ps \<le> wl_capacity ?w" "0 < wl_capacity ?w" using assms(1) by (simp_all add: wallet_inv_def Let_def)
  ultimately show thesis
    by (intro that [of "if wl_capacity ?w \<le> length ?ps then wl_capacity ?w * 2 else wl_capacity ?w"])
       (auto simp: neoc_wallet_add_account_def resize_accounts_def store_account_def set_wallet_def modify_at_def neoc_account_set_default_def
         Let_def then_c_def bind_c_def)
qed

lemma added_inv:
  assumes "wallet_inv s" and "p \<notin> set (wl_accounts (ws_wallet s))" and "ac_address a = Some x" and "x \<notin> set (fst (view s))"
    and "length (wl_accounts (ws_wallet s)) < c" and "wl_default_account (ws_wallet s') = d" and "ws_wallet s' = (ws_wallet s)\<lparr>wl_capacity := c, wl_accounts := wl_accounts (ws_wallet s) @ [p], wl_default_account := d\<rparr>"
    and "\<And>q. q \<in> set (wl_accounts (ws_wallet s)) \<Longrightarrow> map_option ac_address (ws_heap s' q) = map_option ac_address (ws_heap s q)" and "map_option ac_address (ws_heap s' p) = Some (Some x)"
    and "d = Some p \<and> flagged s' p \<and> (\<forall>q \<in> set (wl_accounts (ws_wallet s)). \<not> flagged s' q)
      \<or> d = wl_default_account (ws_wallet s) \<and> wl_accounts (ws_wallet s) \<noteq> [] \<and> \<not> flagged s' p \<and> (\<forall>q \<in> set (wl_accounts (ws_wallet s)). flagged s' q = flagged s q)"
  shows "wallet_inv s'" and "view s' = (fst (view s) @ [x], if d = Some p then Some x else snd (view s))"
proof -
  let ?ps = "wl_accounts (ws_wallet s)"
  have a: "addr_of s' q = addr_of s q" "has_address s' q" if "q \<in> set ?ps" for q
    using assms(8) [OF that] inv_addresses [OF assms(1) that] by (auto simp: addr_of_def has_address_def split: option.splits)
  have p: "addr_of s' p = x" "has_address s' p" using assms(9) by (auto simp: addr_of_def has_address_def split: option.splits)
  have m: "map (addr_of s') ?ps = map (addr_of s) ?ps" using a(1) by (intro map_cong refl)
  have dist: "distinct (map (addr_of s) ?ps)" and def: "case wl_default_account (ws_wallet s) of None \<Rightarrow> ?ps = [] | Some q \<Rightarrow> q \<in> set ?ps"
    using assms(1) by (simp_all add: wallet_inv_def Let_def)
  have "x \<notin> set (map (addr_of s) ?ps)" using assms(4) by (simp add: view_def)
  then have "distinct (map (addr_of s') (?ps @ [p]))" unfolding map_append m using dist p(1) by simp
  moreover have "flagged s' q \<longleftrightarrow> d = Some q" if "q \<in> set (?ps @ [p])" for q
    using assms(10) that assms(2) inv_flags [OF assms(1), of q] def by (cases "q = p") (auto split: option.splits)
  moreover have "case d of None \<Rightarrow> ?ps @ [p] = [] | Some q \<Rightarrow> q \<in> set (?ps @ [p])" using assms(10) def by (auto split: option.splits)
  ultimately show "wallet_inv s'" using assms(5,7) a(2) p(2)
    by (intro wallet_invI [of s' "?ps @ [p]" d]) auto
  show "view s' = (fst (view s) @ [x], if d = Some p then Some x else snd (view s))"
    using assms(2,10) def p(1) a(1) m unfolding view_def assms(7) by (auto split: option.splits)
qed

definition unflag :: "neoc_account \<Rightarrow> neoc_account" where
  "unflag a = a\<lparr>ac_is_default := False\<rparr>"

definition contents :: "wallet_state \<Rightarrow> neoc_account option list" where
  "contents s = map (\<lambda>p. map_option unflag (ws_heap s p)) (wl_accounts (ws_wallet s))"

lemma load_step:
  assumes "wallet_inv s" and "p \<notin> set (wl_accounts (ws_wallet s))" and "ac_address a = Some x" and "x \<notin> set (fst (view s))"
    and "neoc_account_from_nep6 C (\<lambda>_. True) (Some n) = Ok a"
  obtains s' where "load_accounts C (\<lambda>_. True) (p # ps) (n # ns) s = load_accounts C (\<lambda>_. True) ps ns s'" and "wallet_inv s'"
    and "view s' = (fst (view s) @ [x], if ac_is_default a \<or> fst (view s) = [] then Some x else snd (view s))"
    and "wl_accounts (ws_wallet s') = wl_accounts (ws_wallet s) @ [p]" and "contents s' = contents s @ [Some (unflag a)]" and "wl_name (ws_wallet s') = wl_name (ws_wallet s)" and "wl_version (ws_wallet s') = wl_version (ws_wallet s)"
proof -
  let ?w = "ws_wallet s" let ?ps = "wl_accounts ?w" let ?A = "\<lambda>_ :: nat. True"
  from assms(1-4) obtain c where c: "length ?ps < c" and add: "neoc_wallet_add_account ?A (Some p) (s\<lparr>ws_heap := (ws_heap s)(p \<mapsto> a)\<rparr>)
    = (Ok (), \<lparr>ws_wallet = ?w\<lparr>wl_capacity := c, wl_accounts := ?ps @ [p], wl_default_account := if ?ps = [] then Some p else wl_default_account ?w\<rparr>,
         ws_heap = (ws_heap s)(p \<mapsto> if ?ps = [] then a\<lparr>ac_is_default := True\<rparr> else a)\<rparr>)" (is "_ = (_, ?s1)") by (rule add_form)
  note inv = added_inv [OF assms(1-4) c]
  have def: "case wl_default_account ?w of None \<Rightarrow> ?ps = [] | Some q \<Rightarrow> q \<in> set ?ps" using assms(1) by (simp add: wallet_inv_def Let_def)
  show thesis
  proof (cases "?ps = [] \<or> ac_is_default a")
    case False
    then have "wallet_inv ?s1" "view ?s1 = (fst (view s) @ [x], if wl_default_account ?w = Some p then Some x else snd (view s))"
      by (intro inv [of ?s1 "wl_default_account ?w"]; use assms(2,3) in \<open>auto simp: flagged_def\<close>)+
    moreover have "wl_default_account ?w \<noteq> Some p" using def assms(2) by auto
    moreover have "contents ?s1 = contents s @ [Some (unflag a)]" using assms(2) False by (auto simp: contents_def)
    ultimately show thesis using False assms(5) add by (intro that [of ?s1]) (auto simp: account_at_def view_def)
  next
    case True
    obtain old where old: "wl_default_account (ws_wallet ?s1) = Some old" "old = p \<and> ?ps = [] \<or> old \<in> set ?ps \<and> old \<noteq> p"
      using def assms(2) by (cases "?ps = []") (auto split: option.splits)
    then obtain b where b: "ws_heap ?s1 old = Some b" using inv_addresses [OF assms(1), of old] by (auto simp: has_address_def split: option.splits)
    let ?h = "((ws_heap ?s1)(old \<mapsto> b\<lparr>ac_is_default := False\<rparr>))(p \<mapsto> a\<lparr>ac_is_default := True\<rparr>)"
    let ?s2 = "\<lparr>ws_wallet = (ws_wallet ?s1)\<lparr>wl_default_account := Some p\<rparr>, ws_heap = ?h\<rparr>"
    have ad: "\<forall>q \<in> set (?ps @ [p]). has_address ?s1 q" "map (addr_of ?s1) (?ps @ [p]) = map (addr_of s) ?ps @ [x]"
      using inv_addresses [OF assms(1)] assms(2,3) by (auto simp: has_address_def addr_of_def)
    have "neoc_wallet_get_account_by_address ?s1 (Some x) = Ok (Some p)"
    proof (rule find_address_cases [OF ad(1), of x 0])
      assume "x \<notin> set (map (addr_of ?s1) (?ps @ [p]))"
      then show ?thesis unfolding ad(2) by simp
    next
      fix k
      assume k: "k < length (?ps @ [p])" "addr_of ?s1 ((?ps @ [p]) ! k) = x" "find_address ?s1 (Ok x) 0 (?ps @ [p]) = Ok (Some (0 + k))"
      then have "(map (addr_of ?s1) (?ps @ [p])) ! k = x" by (simp only: nth_map)
      then have "(map (addr_of s) ?ps @ [x]) ! k = x" unfolding ad(2) .
      then have "k = length ?ps" using k(1) assms(4) by (auto simp: nth_append view_def split: if_splits)
      then show ?thesis using k(3) by (simp add: neoc_wallet_get_account_by_address_def)
    qed
    moreover obtain a1 where a1: "account_at ?s1 p = Ok a1" "ac_is_default a1" "ac_address a1 = Some x" "a1\<lparr>ac_is_default := True\<rparr> = a\<lparr>ac_is_default := True\<rparr>"
      using True assms(3) by (auto simp: account_at_def)
    ultimately have "neoc_wallet_set_default_account_account C ?A (Some p) ?s1 = (Ok (), ?s2)"
      using old b assms(3)
      by (auto simp: neoc_wallet_set_default_account_account_def neoc_wallet_set_default_account_str_def neoc_account_get_address_ptr_def
          then_c_def bind_c_def modify_at_def neoc_account_set_default_def set_wallet_def)
    then have run: "load_accounts C ?A (p # ps) (n # ns) s = load_accounts C ?A ps ns ?s2" using assms(5) add a1 by simp
    have b': "old \<noteq> p \<Longrightarrow> ws_heap s old = Some b" using b by simp
    have "\<not> flagged ?s2 q" if "q \<in> set ?ps" for q
      using that old assms(2) inv_flags [OF assms(1) that] def by (cases "q = old") (auto simp: flagged_def split: option.splits if_splits)
    moreover have "flagged ?s2 p" by (simp add: flagged_def)
    ultimately have "wallet_inv ?s2" "view ?s2 = (fst (view s) @ [x], if Some p = Some p then Some x else snd (view s))"
      by (intro inv [of ?s2 "Some p"]; use assms(2,3) b' in \<open>auto\<close>)+
    moreover have "contents ?s2 = contents s @ [Some (unflag a)]"
    proof -
      have "map_option unflag (ws_heap ?s2 q) = map_option unflag (ws_heap s q)" if "q \<in> set ?ps" for q
        using that assms(2) b' by (auto simp: unflag_def)
      then show ?thesis by (simp add: contents_def unflag_def)
    qed
    ultimately show thesis using True run by (intro that [of ?s2]) (auto simp: view_def)
  qed
qed

text \<open>What loading a list of accounts does to the list of addresses and the default.\<close>

definition load_view :: "string list \<times> string option \<Rightarrow> neoc_nep6_account \<Rightarrow> string list \<times> string option" where
  "load_view v n = (fst v @ [the (na_address n)], if na_is_default n \<or> fst v = [] then na_address n else snd v)"

definition loads_as :: "crypto \<Rightarrow> neoc_nep6_account \<Rightarrow> neoc_account \<Rightarrow> bool" where
  "loads_as C n a \<longleftrightarrow> neoc_account_from_nep6 C (\<lambda>_. True) (Some n) = Ok a \<and> ac_address a = na_address n \<and> na_address n \<noteq> None \<and> ac_is_default a = na_is_default n"

lemma load_all:
  assumes "list_all2 (loads_as C) ns as" and "wallet_inv s" and "distinct ps" and "set ps \<inter> set (wl_accounts (ws_wallet s)) = {}" and "length ns \<le> length ps"
    and "distinct (map na_address ns)" and "\<forall>n \<in> set ns. na_address n \<notin> Some ` set (fst (view s))"
  shows "\<exists>s'. load_accounts C (\<lambda>_. True) ps ns s = (Ok (), s') \<and> wallet_inv s' \<and> view s' = foldl load_view (view s) ns
    \<and> contents s' = contents s @ map (\<lambda>a. Some (unflag a)) as \<and> wl_name (ws_wallet s') = wl_name (ws_wallet s) \<and> wl_version (ws_wallet s') = wl_version (ws_wallet s)"
  using assms
proof (induction ns as arbitrary: s ps rule: list_all2_induct)
  case (Cons n ns a as)
  obtain p qs where ps: "ps = p # qs" using Cons.prems(4) by (cases ps) auto
  obtain x where x: "na_address n = Some x" "ac_address a = Some x" "neoc_account_from_nep6 C (\<lambda>_. True) (Some n) = Ok a" "ac_is_default a = na_is_default n"
    using Cons.hyps(1) by (auto simp: loads_as_def)
  have "p \<notin> set (wl_accounts (ws_wallet s))" "x \<notin> set (fst (view s))" using Cons.prems(3,6) x(1) by (auto simp: ps)
  from load_step [OF Cons.prems(1) this(1) x(2) this(2) x(3)] obtain s1 where
    s1: "load_accounts C (\<lambda>_. True) ps (n # ns) s = load_accounts C (\<lambda>_. True) qs ns s1" "wallet_inv s1"
      "view s1 = (fst (view s) @ [x], if ac_is_default a \<or> fst (view s) = [] then Some x else snd (view s))"
      "wl_accounts (ws_wallet s1) = wl_accounts (ws_wallet s) @ [p]" "contents s1 = contents s @ [Some (unflag a)]"
      "wl_name (ws_wallet s1) = wl_name (ws_wallet s)" "wl_version (ws_wallet s1) = wl_version (ws_wallet s)" unfolding ps by metis
  have v: "view s1 = load_view (view s) n" using s1(3) x(1,4) by (simp add: load_view_def)
  have "\<exists>s'. load_accounts C (\<lambda>_. True) qs ns s1 = (Ok (), s') \<and> wallet_inv s' \<and> view s' = foldl load_view (view s1) ns
    \<and> contents s' = contents s1 @ map (\<lambda>a. Some (unflag a)) as \<and> wl_name (ws_wallet s') = wl_name (ws_wallet s1) \<and> wl_version (ws_wallet s') = wl_version (ws_wallet s1)"
  proof (rule Cons.IH [OF s1(2)])
    show "\<forall>m \<in> set ns. na_address m \<notin> Some ` set (fst (view s1))" using Cons.prems(5,6) x(1) unfolding s1(3) by (auto simp: image_iff)
  qed (use Cons.prems s1(4) ps in auto)
  then show ?case unfolding s1(1) using v s1(5-7) by simp
qed auto

lemma fst_foldl_view: "fst (foldl load_view v ns) = fst v @ map (\<lambda>n. the (na_address n)) ns"
  by (induction ns arbitrary: v) (simp_all add: load_view_def)

lemma snd_foldl_view:
  assumes "\<forall>n \<in> set ns. na_is_default n \<longleftrightarrow> na_address n = d" and "d \<in> na_address ` set ns"
  shows "snd (foldl load_view v ns) = d"
  using assms
proof (induction ns rule: rev_induct)
  case (snoc n ns)
  show ?case
  proof (cases "na_address n = d")
    case False
    then have "d \<in> na_address ` set ns" using snoc.prems(2) by auto
    moreover from this have "ns \<noteq> []" by auto
    moreover have "\<not> na_is_default n" "\<forall>n \<in> set ns. na_is_default n \<longleftrightarrow> na_address n = d" using snoc.prems(1) False by simp_all
    ultimately show ?thesis using snoc.IH by (simp add: load_view_def [of _ n] fst_foldl_view)
  next
    case True
    then have "na_is_default n" using snoc.prems(1) by simp
    then show ?thesis using True by (simp add: load_view_def)
  qed
qed simp

text \<open>The wallet the other way.\<close>

definition nep6_of :: "crypto \<Rightarrow> interop_table \<Rightarrow> neoc_account \<Rightarrow> neoc_nep6_account" where
  "nep6_of C T a = (case neoc_account_to_nep6 C (\<lambda>_. True) T (Some a) of Ok n \<Rightarrow> n | _ \<Rightarrow> undefined)"

lemma nep6_of_ok:
  assumes "convertible C T a"
  shows "neoc_account_to_nep6 C (\<lambda>_. True) T (Some a) = Ok (nep6_of C T a)" and "na_address (nep6_of C T a) = ac_address a"
    and "na_is_default (nep6_of C T a) = ac_is_default a" and "loads_as C (nep6_of C T a) (kept C T a)"
proof -
  from from_to_nep6 [OF assms] obtain n where n: "neoc_account_to_nep6 C (\<lambda>_. True) T (Some a) = Ok n" "na_address n = ac_address a" "na_is_default n = ac_is_default a"
    "neoc_account_from_nep6 C (\<lambda>_. True) (Some n) = Ok (kept C T a)" by blast
  moreover have "ac_address a \<noteq> None" using assms by (auto simp: convertible_def)
  ultimately show "neoc_account_to_nep6 C (\<lambda>_. True) T (Some a) = Ok (nep6_of C T a)" and "na_address (nep6_of C T a) = ac_address a"
    and "na_is_default (nep6_of C T a) = ac_is_default a" and "loads_as C (nep6_of C T a) (kept C T a)"
    by (simp_all add: nep6_of_def loads_as_def kept_def new_account_def)
qed

lemma unflag_nep6: "\<not> na_is_default b \<Longrightarrow> b\<lparr>na_is_default := False\<rparr> = b"
  by (cases b) simp

text \<open>Adding an account with a new address to an array that is not overfull.\<close>

lemma add_existing_granted:
  assumes "na_address a = Some x" and "\<forall>b \<in> set (nw_accounts w). na_address b \<noteq> Some x" and "length (nw_accounts w) \<le> nw_capacity w"
  obtains c where "length (nw_accounts w) < c" and "neoc_nep6_wallet_add_account_existing (\<lambda>_. True) (Some a) w
    = (Ok (), w\<lparr>nw_capacity := c, nw_accounts := (if na_is_default a then map (\<lambda>b. b\<lparr>na_is_default := False\<rparr>) (nw_accounts w) else nw_accounts w) @ [a]\<rparr>)"
proof -
  let ?full = "nw_capacity w \<le> length (nw_accounts w)" and ?new = "if nw_capacity w = 0 then 4 else nw_capacity w * 2"
  have "length (nw_accounts w) < (if ?full then ?new else nw_capacity w)" "\<not> (?full \<and> ?new \<le> length (nw_accounts w))" using assms(3) by auto
  moreover have "\<not> list_ex (\<lambda>b. na_address b = Some x) (nw_accounts w)" using assms(2) by (auto simp: list_ex_iff)
  ultimately show thesis using assms(1)
    by (intro that [of "if ?full then ?new else nw_capacity w"])
       (simp_all only: neoc_nep6_wallet_add_account_existing_def neoc_nep6_account_get_address_def neoc_nep6_account_is_default_def
         neoc_nep6_account_set_default_def Let_def option.case snd_conv if_False simp_thms)
qed

lemma add_converted_all:
  assumes "\<forall>p \<in> set ps. \<exists>a. ws_heap s p = Some a \<and> convertible C T a" and "distinct (map (addr_of s) ps)"
    and "\<forall>p \<in> set ps. flagged s p \<longleftrightarrow> d = Some p" and "distinct ps"
    and "\<forall>n \<in> set (nw_accounts w). \<exists>x. na_address n = Some x \<and> x \<notin> set (map (addr_of s) ps)"
    and "(\<exists>n \<in> set (nw_accounts w). na_is_default n) \<longrightarrow> d \<notin> Some ` set ps" and "length (nw_accounts w) \<le> nw_capacity w"
  shows "\<exists>w'. add_converted C (\<lambda>_. True) T s ps w = Ok w' \<and> nw_accounts w' = nw_accounts w @ map (\<lambda>p. nep6_of C T (the (ws_heap s p))) ps
    \<and> nw_name w' = nw_name w \<and> nw_version w' = nw_version w"
  using assms
proof (induction ps arbitrary: w)
  case (Cons p ps)
  obtain a where a: "ws_heap s p = Some a" "convertible C T a" using Cons.prems(1) by auto
  note n = nep6_of_ok [OF a(2)]
  obtain x where x: "ac_address a = Some x" using a(2) by (auto simp: convertible_def)
  have xp: "addr_of s p = x" using a(1) x by (simp add: addr_of_def)
  have new: "\<forall>b \<in> set (nw_accounts w). na_address b \<noteq> Some x" using Cons.prems(5) xp by fastforce
  have fl: "na_is_default (nep6_of C T a) \<longleftrightarrow> d = Some p" using n(3) Cons.prems(3) a(1) by (simp add: flagged_def)
  have id: "map (\<lambda>b. b\<lparr>na_is_default := False\<rparr>) (nw_accounts w) = nw_accounts w" if "d = Some p"
  proof (rule map_idI)
    fix b
    assume "b \<in> set (nw_accounts w)"
    then have "\<not> na_is_default b" using Cons.prems(6) that by auto
    then show "b\<lparr>na_is_default := False\<rparr> = b" by (rule unflag_nep6)
  qed
  obtain w1 where w1: "neoc_nep6_wallet_add_account_existing (\<lambda>_. True) (Some (nep6_of C T a)) w = (Ok (), w1)" "nw_accounts w1 = nw_accounts w @ [nep6_of C T a]"
    "nw_name w1 = nw_name w" "nw_version w1 = nw_version w" "length (nw_accounts w1) \<le> nw_capacity w1"
  proof -
    have "na_address (nep6_of C T a) = Some x" using n(2) x by simp
    from this new Cons.prems(7) obtain c where "length (nw_accounts w) < c" "neoc_nep6_wallet_add_account_existing (\<lambda>_. True) (Some (nep6_of C T a)) w
      = (Ok (), w\<lparr>nw_capacity := c, nw_accounts := (if na_is_default (nep6_of C T a) then map (\<lambda>b. b\<lparr>na_is_default := False\<rparr>) (nw_accounts w)
          else nw_accounts w) @ [nep6_of C T a]\<rparr>)" by (rule add_existing_granted)
    then show thesis using fl id by (intro that [of "w\<lparr>nw_capacity := c, nw_accounts := nw_accounts w @ [nep6_of C T a]\<rparr>"]) auto
  qed
  have "\<exists>w'. add_converted C (\<lambda>_. True) T s ps w1 = Ok w' \<and> nw_accounts w' = nw_accounts w1 @ map (\<lambda>p. nep6_of C T (the (ws_heap s p))) ps
    \<and> nw_name w' = nw_name w1 \<and> nw_version w' = nw_version w1"
  proof (rule Cons.IH)
    show "\<forall>m \<in> set (nw_accounts w1). \<exists>y. na_address m = Some y \<and> y \<notin> set (map (addr_of s) ps)"
      using Cons.prems(2,5) w1(2) n(2) x xp by auto
    show "(\<exists>m \<in> set (nw_accounts w1). na_is_default m) \<longrightarrow> d \<notin> Some ` set ps"
      using Cons.prems(4,6) w1(2) fl by auto
  qed (use Cons.prems w1(5) in auto)
  then show ?case using a(1) n(1) w1 by (auto simp: account_at_def)
qed simp

lemma created_wallet: "neoc_wallet_create (\<lambda>_. True) (Some name) = Ok w \<Longrightarrow> wallet_inv \<lparr>ws_wallet = w\<lparr>wl_version := v\<rparr>, ws_heap = h\<rparr>
    \<and> view \<lparr>ws_wallet = w\<lparr>wl_version := v\<rparr>, ws_heap = h\<rparr> = ([], None) \<and> contents \<lparr>ws_wallet = w\<lparr>wl_version := v\<rparr>, ws_heap = h\<rparr> = []
    \<and> wl_name w = Some name \<and> wl_accounts w = []"
  by (auto simp: neoc_wallet_create_def INITIAL_ACCOUNT_CAPACITY_def wallet_inv_def view_def contents_def)

subsection \<open>How accounts come about\<close>

text \<open>
  An account is made by a constructor or imported from a NEP-6 account, and then changed.  The flag says that the scripts the account can show are its own: it is
  lost when the import brought a verification script, which nobody compares with the address, and when a decryption puts another key pair into the account.
\<close>

inductive account_reach ::
  "(nat \<Rightarrow> byte list option) \<Rightarrow> crypto \<Rightarrow> allocator \<Rightarrow> interop_table \<Rightarrow> base_mul \<Rightarrow> ciphers \<Rightarrow> bool \<Rightarrow> neoc_account \<Rightarrow> bool"
  for R C A T G E where
    reach_made: "account_made R C A T G E a \<Longrightarrow> account_reach R C A T G E True a"
  | reach_imported: "neoc_account_from_nep6 C A n = Ok a \<Longrightarrow> account_reach R C A T G E (ac_verification_script a = None) a"
  | reach_changed: "account_reach R C A T G E own a \<Longrightarrow> run_account C A T G E oper a = (r, a')
      \<Longrightarrow> account_reach R C A T G E (own \<and> ac_key_pair a' = ac_key_pair a) a'"

lemma store_encrypted_keeps:
  assumes "neoc_account_store_encrypted_key A key a = (r, a')"
  shows "ac_address a' = ac_address a" "ac_script_hash a' = ac_script_hash a" "ac_key_pair a' = ac_key_pair a" "ac_extra a' = ac_extra a"
  using assms by (auto simp: neoc_account_store_encrypted_key_def neoc_account_clear_encrypted_key_def Let_def split: option.splits if_splits)

lemma set_label_keeps:
  "ac_address (snd (neoc_account_set_label A l a)) = ac_address a" "ac_script_hash (snd (neoc_account_set_label A l a)) = ac_script_hash a"
  "ac_key_pair (snd (neoc_account_set_label A l a)) = ac_key_pair a" "ac_extra (snd (neoc_account_set_label A l a)) = ac_extra a"
  by (simp_all add: neoc_account_set_label_def split: option.split)

lemma imported_account:
  assumes "neoc_account_from_nep6 C A n = Ok a"
  obtains s where "ac_address a = Some s" and "neoc_hash160_from_address C A (Some s) = Ok (ac_script_hash a)"
    and "ac_key_pair a = None" and "ac_extra a = Extra_None"
proof -
  from assms obtain m x a0 where m: "n = Some m" and a0: "neoc_account_create_from_address C A (Some x) = Ok a0" "neoc_nep6_account_get_address (Some m) = Some x"
    by (auto simp: neoc_account_from_nep6_def bind_r_Ok_iff split: option.splits)
  define a1 where "a1 = (case neoc_nep6_account_get_label (Some m) of None \<Rightarrow> a0 | Some l \<Rightarrow> snd (neoc_account_set_label A (Some l) a0))"
  obtain r a2 where a2: "neoc_account_store_encrypted_key A (neoc_nep6_account_get_key (Some m))
    (snd (neoc_account_set_default (neoc_nep6_account_is_default (Some m)) a1)) = (r, a2)" by fastforce
  have r: "r = Ok ()" using assms a0 a2 unfolding m a1_def by (cases r) (simp_all add: neoc_account_from_nep6_def Let_def)
  have a: "ac_address a = ac_address a2" "ac_script_hash a = ac_script_hash a2" "ac_key_pair a = ac_key_pair a2" "ac_extra a = ac_extra a2"
    using assms a0 a2 unfolding m r a1_def by (auto simp: neoc_account_from_nep6_def Let_def split: option.splits result.splits)
  have "ac_address a0 = Some x" "neoc_hash160_from_address C A (Some x) = Ok (ac_script_hash a0)" "ac_key_pair a0 = None" "ac_extra a0 = Extra_None"
    using a0(1) by (auto simp: neoc_account_create_from_address_def new_account_def strdup_r_def bind_r_Ok_iff split: option.splits if_splits)
  moreover have "ac_address a2 = ac_address a0" "ac_script_hash a2 = ac_script_hash a0" "ac_key_pair a2 = ac_key_pair a0" "ac_extra a2 = ac_extra a0"
    using store_encrypted_keeps [OF a2] by (simp_all add: a1_def neoc_account_set_default_def set_label_keeps split: option.split)
  ultimately show thesis using a by (intro that [of x]) simp_all
qed

lemma reach_addressed:
  assumes "account_reach R C A T G E own a" and "crypto_works C" and "grants A 100"
  shows "(\<exists>s. ac_address a = Some s \<and> neoc_hash160_from_address C A (Some s) = Ok (ac_script_hash a)) \<and> (own \<longrightarrow> account_consistent C A T a)"
  using assms
proof (induction rule: account_reach.induct)
  case (reach_made a)
  then show ?case using made_consistent [of R C A T G E a] by (auto simp: account_consistent_def)
next
  case (reach_imported n a)
  then show ?case by (auto elim!: imported_account intro!: consistentI)
next
  case (reach_changed own a oper r a')
  then show ?case using run_account_keeps [OF reach_changed.hyps(2)] consistent_changed [OF _ reach_changed.hyps(2)] by auto
qed

subsection \<open>NEP-6 wallets\<close>

definition nep6_inv :: "neoc_nep6_wallet \<Rightarrow> bool" where
  "nep6_inv w \<longleftrightarrow> None \<notin> na_address ` set (nw_accounts w) \<and> distinct (map na_address (nw_accounts w))
     \<and> length (filter na_is_default (nw_accounts w)) \<le> 1 \<and> length (nw_accounts w) \<le> nw_capacity w"

text \<open>What a client can do to an account through a pointer to it.\<close>

datatype nep6_change =
    New_Address "string option" | New_Label "string option" | New_Default bool | New_Lock bool | New_Key "string option"
  | New_Contract "neoc_nep6_contract option"

definition nep6_changed :: "allocator \<Rightarrow> nep6_change \<Rightarrow> neoc_nep6_account \<Rightarrow> neoc_nep6_account" where
  "nep6_changed A change a =
     (case change of
        New_Address x \<Rightarrow> snd (neoc_nep6_account_set_address A x a)
      | New_Label l \<Rightarrow> snd (neoc_nep6_account_set_label A l a)
      | New_Default d \<Rightarrow> snd (neoc_nep6_account_set_default d a)
      | New_Lock b \<Rightarrow> snd (neoc_nep6_account_set_locked b a)
      | New_Key k \<Rightarrow> snd (neoc_nep6_account_set_key A k a)
      | New_Contract c \<Rightarrow> snd (neoc_nep6_account_set_contract c a))"

datatype nep6_op =
    Add_Existing "neoc_nep6_account option" | Add_Key "byte list option" "string option" "string option" bool | Remove_Address "string option"
  | Set_Wallet_Version "string option" | Set_Wallet_Scrypt "neoc_scrypt_params option" | Change_Account nat nep6_change

text \<open>The wallet an operation leaves, whatever it reports.\<close>

definition nep6_after :: "crypto \<Rightarrow> allocator \<Rightarrow> interop_table \<Rightarrow> base_mul \<Rightarrow> ciphers \<Rightarrow> nep6_op \<Rightarrow> neoc_nep6_wallet \<Rightarrow> neoc_nep6_wallet" where
  "nep6_after C A T G E oper w =
     (case oper of
        Add_Existing a \<Rightarrow> snd (neoc_nep6_wallet_add_account_existing A a w)
      | Add_Key key pass label d \<Rightarrow> snd (neoc_nep6_wallet_add_account C A T G E key pass label d w)
      | Remove_Address x \<Rightarrow> snd (neoc_nep6_wallet_remove_account x w)
      | Set_Wallet_Version v \<Rightarrow> snd (neoc_nep6_wallet_set_version A v w)
      | Set_Wallet_Scrypt p \<Rightarrow> snd (neoc_nep6_wallet_set_scrypt p w)
      | Change_Account i change \<Rightarrow> w\<lparr>nw_accounts := (nw_accounts w)[i := nep6_changed A change (nw_accounts w ! i)]\<rparr>)"

text \<open>
  How a wallet comes about: it is created or loaded from JSON, then operations follow.  The flag says that the wallet was under control of its own
  operations all the time: it was not loaded, and no client gave one of its accounts a new address or flagged one as default behind its back.
\<close>

definition wallet_controlled :: "nep6_op \<Rightarrow> bool" where
  "wallet_controlled oper =
     (case oper of
        Change_Account i change \<Rightarrow> (case change of New_Address x \<Rightarrow> False | New_Default d \<Rightarrow> \<not> d | _ \<Rightarrow> True)
      | _ \<Rightarrow> True)"

inductive nep6_reach :: "'j cjson_lib option \<Rightarrow> crypto \<Rightarrow> interop_table \<Rightarrow> base_mul \<Rightarrow> ciphers \<Rightarrow> bool \<Rightarrow> neoc_nep6_wallet \<Rightarrow> bool" for J C T G E where
    nep6_new: "neoc_nep6_wallet_create A name version = Ok w \<Longrightarrow> nep6_reach J C T G E True w"
  | nep6_loaded: "neoc_nep6_wallet_from_json J A text = Ok w \<Longrightarrow> nep6_reach J C T G E False w"
  | nep6_run: "nep6_reach J C T G E controlled w \<Longrightarrow> nep6_reach J C T G E (controlled \<and> wallet_controlled oper) (nep6_after C A T G E oper w)"

lemma add_existing_inv:
  assumes "nep6_inv w"
  shows "nep6_inv (snd (neoc_nep6_wallet_add_account_existing A account w))"
proof (cases "\<exists>a x w'. account = Some a \<and> na_address a = Some x \<and> Some x \<notin> na_address ` set (nw_accounts w) \<and> neoc_nep6_wallet_add_account_existing A account w = (Ok (), w')")
  case True
  then obtain a x w' where a: "account = Some a" "na_address a = Some x" "Some x \<notin> na_address ` set (nw_accounts w)"
    "neoc_nep6_wallet_add_account_existing A account w = (Ok (), w')" by blast
  let ?old = "if na_is_default a then map (\<lambda>b. b\<lparr>na_is_default := False\<rparr>) (nw_accounts w) else nw_accounts w"
  have "length (nw_accounts w) \<le> nw_capacity w" using assms by (simp add: nep6_inv_def)
  then have n: "nw_accounts w' = ?old @ [a]" "length (nw_accounts w) < nw_capacity w'"
    using a by (auto simp: neoc_nep6_wallet_add_account_existing_def neoc_nep6_account_get_address_def neoc_nep6_account_is_default_def
        neoc_nep6_account_set_default_def Let_def split: if_splits)
  have "map na_address ?old = map na_address (nw_accounts w)" "na_address ` set ?old = na_address ` set (nw_accounts w)" by (auto simp: image_iff)
  moreover have "length (filter na_is_default (?old @ [a])) \<le> 1" using assms by (auto simp: nep6_inv_def filter_empty_conv)
  ultimately show ?thesis using assms a n by (auto simp: nep6_inv_def)
next
  case False
  have "snd (neoc_nep6_wallet_add_account_existing A account w) = w"
  proof (cases "\<exists>a x. account = Some a \<and> na_address a = Some x \<and> Some x \<notin> na_address ` set (nw_accounts w)")
    case True
    then obtain a x where a: "account = Some a" "na_address a = Some x" "Some x \<notin> na_address ` set (nw_accounts w)" by blast
    then have "\<not> list_ex (\<lambda>b. na_address b = Some x) (nw_accounts w)" by (force simp: list_ex_iff)
    with False a show ?thesis by (auto simp: neoc_nep6_wallet_add_account_existing_def neoc_nep6_account_get_address_def Let_def)
  next
    case False
    then have "list_ex (\<lambda>b. na_address b = Some x) (nw_accounts w)" if "account = Some a" "na_address a = Some x" for a x
      using that by (force simp: list_ex_iff)
    then show ?thesis by (auto simp: neoc_nep6_wallet_add_account_existing_def neoc_nep6_account_get_address_def split: option.split)
  qed
  then show ?thesis using assms by simp
qed

lemma remove_at_subset: "set (remove_at i xs) \<subseteq> set xs"
  by (auto simp: remove_at_def dest: in_set_takeD in_set_dropD)

lemma remove_at_inv:
  assumes "nep6_inv w"
  shows "nep6_inv (w\<lparr>nw_accounts := remove_at i (nw_accounts w)\<rparr>)"
proof (cases "i < length (nw_accounts w)")
  case True
  define us vs where "us = take i (nw_accounts w)" and "vs = drop (i + 1) (nw_accounts w)"
  then have eq: "nw_accounts w = us @ [nw_accounts w ! i] @ vs" and r: "remove_at i (nw_accounts w) = us @ vs"
    using True by (simp_all add: id_take_nth_drop remove_at_def)
  obtain y where y: "nw_accounts w = us @ [y] @ vs" using eq by blast
  show ?thesis unfolding r nep6_inv_def using assms [unfolded nep6_inv_def y] by (cases "na_is_default y") auto
qed (use assms in \<open>simp add: remove_at_def\<close>)

lemma changed_account:
  assumes "wallet_controlled (Change_Account i change)"
  shows "na_address (nep6_changed A change a) = na_address a" and "na_is_default (nep6_changed A change a) \<longrightarrow> na_is_default a"
  using assms
  by (auto simp: wallet_controlled_def nep6_changed_def neoc_nep6_account_set_label_def neoc_nep6_account_set_default_def neoc_nep6_account_set_locked_def
      neoc_nep6_account_set_key_def neoc_nep6_account_set_contract_def split: nep6_change.splits result.splits)

lemma filter_update_le: "(P x \<Longrightarrow> P (xs ! i)) \<Longrightarrow> length (filter P (xs[i := x])) \<le> length (filter P xs)"
proof (induction xs arbitrary: i)
  case (Cons y xs)
  then show ?case by (cases i) (auto intro: le_SucI)
qed simp

lemma change_inv:
  assumes "nep6_inv w" and "wallet_controlled (Change_Account i change)"
  shows "nep6_inv (nep6_after C A T G E (Change_Account i change) w)"
proof -
  let ?a = "nep6_changed A change (nw_accounts w ! i)" let ?as = "(nw_accounts w)[i := ?a]"
  have "map na_address ?as = (map na_address (nw_accounts w))[i := na_address (nw_accounts w ! i)]"
    using changed_account(1) [OF assms(2)] by (simp add: map_update)
  also have "\<dots> = map na_address (nw_accounts w)" by (cases "i < length (nw_accounts w)") (simp_all add: list_update_beyond list_update_same_conv)
  finally have m: "map na_address ?as = map na_address (nw_accounts w)" .
  then have "na_address ` set ?as = na_address ` set (nw_accounts w)" by (metis set_map)
  moreover have "length (filter na_is_default ?as) \<le> length (filter na_is_default (nw_accounts w))"
    using changed_account(2) [OF assms(2)] by (intro filter_update_le) blast
  ultimately show ?thesis using assms(1) m unfolding nep6_inv_def by (simp add: nep6_after_def del: map_update)
qed

lemma nep6_reach_inv: "nep6_reach J C T G E controlled w \<Longrightarrow> controlled \<Longrightarrow> nep6_inv w"
proof (induction rule: nep6_reach.induct)
  case (nep6_new A name version w)
  then show ?case by (auto simp: neoc_nep6_wallet_create_def bind_r_Ok_iff nep6_inv_def)
next
  case (nep6_run controlled w oper A)
  then have inv: "nep6_inv w" and c: "wallet_controlled oper" by simp_all
  show ?case
  proof (cases oper)
    case (Add_Key key pass label d)
    then show ?thesis using inv add_existing_inv [OF inv]
      by (auto simp: nep6_after_def neoc_nep6_wallet_add_account_def bind_c_def lift_c_def split: option.splits result.splits)
  next
    case (Change_Account i change)
    then show ?thesis using change_inv [OF inv] c by simp
  qed (use inv add_existing_inv [OF inv] remove_at_inv [OF inv] in
    \<open>auto simp: nep6_after_def neoc_nep6_wallet_remove_account_def neoc_nep6_wallet_set_version_def neoc_nep6_wallet_set_scrypt_def nep6_inv_def
       split: option.splits result.splits\<close>)
qed simp

text \<open>Keys that are put into a NEP-6 wallet.\<close>

lemma key_pair_address_works:
  assumes "crypto_works C" and "neoc_ec_key_pair_create_from_private_key (\<lambda>_. True) G (Some key) = Ok kp"
  obtains x h pk where "neoc_ec_key_pair_get_address C (\<lambda>_. True) T (Some kp) = Ok x" and "length x < 36"
    and "neoc_hash160_from_address C (\<lambda>_. True) (Some x) = Ok h" and "kp_public_key kp = Some pk" and "length (pk_compressed pk) = 33"
proof -
  from assms(2) obtain pk where pk: "kp_public_key kp = Some pk" "length (pk_compressed pk) = 33"
    by (auto simp: neoc_ec_key_pair_create_from_private_key_def split: if_splits option.splits prod.splits)
  then obtain script where "neoc_script_builder_build_verification_script (\<lambda>_. True) C T (Some (pk_compressed pk)) = Ok script"
    by (auto simp: neoc_script_builder_build_verification_script_def)
  moreover obtain h where "neoc_hash160 C (Some script) = Ok h" "length h = 20" using hash160_works [OF assms(1)] by blast
  moreover obtain x where "neoc_hash160_to_address C (\<lambda>_. True) (Some h) 58 = Ok x" "neoc_hash160_from_address C (\<lambda>_. True) (Some x) = Ok h" "length x < 36"
    using to_address_Ok [OF assms(1) grants_all calculation(3), of 58] by auto
  ultimately show thesis using pk by (intro that [of x h pk]) (simp_all add: neoc_ec_key_pair_get_address_def neoc_ec_key_pair_get_script_hash_def)
qed

lemma encrypt_default: "neoc_nep2_encrypt C A T G E key pass (Some NEOC_NEP2_DEFAULT_PARAMS) n = neoc_nep2_encrypt C A T G E key pass None n"
proof -
  have "derive_key E pass salt (Some NEOC_NEP2_DEFAULT_PARAMS) = derive_key E pass salt None" for pass salt by (simp add: derive_key_def)
  then show ?thesis by (simp only: neoc_nep2_encrypt_def)
qed

lemma length_hex_bytes [simp]: "length (hex_byte b) = 2" "length (concat (map hex_byte bs)) = 2 * length bs"
  by (induction bs) (simp_all add: hex_byte_def)

lemma hex_is_not_base64: "length s mod 4 \<noteq> 0 \<Longrightarrow> \<exists>e. neoc_base64_decode_alloc (\<lambda>_. True) (Some s) = Err e"
  by (auto simp: neoc_base64_decode_alloc_def neoc_base64_decode_def Let_def)

subsection \<open>Theorems\<close>

text \<open>C7.  Every account, however it was made or imported and whatever was done to it since, has an address that stands for its script hash.  And unless it was
  imported from NEP-6 with a verification script, or a decryption gave it another key pair than it had, the verification script it gives out, if any,
  has that hash: the account can spend what its address receives.\<close>

theorem account_spends_its_address:
  assumes "account_reach R C A T G E own a" and "crypto_works C" and "grants A 100"
  shows "(\<exists>s. neoc_account_get_address_ptr (Some a) = Some s \<and> neoc_hash160_from_address C A (Some s) = neoc_account_get_script_hash_copy (Some a))
    \<and> (own \<longrightarrow> (\<forall>script. neoc_account_get_verification_script C A T (Some a) = Ok script
         \<longrightarrow> neoc_hash160_from_script C (Some script) = neoc_account_get_script_hash_copy (Some a)))"
  using reach_addressed [OF assms] consistent_script [of C A T a]
  by (auto simp: neoc_account_get_address_ptr_def neoc_account_get_script_hash_copy_def)

text \<open> Converting an account to NEP-6 and back keeps its address, script hash, default flag, encrypted key and the verification script it can show; an
  empty label becomes the address, and an account with an encrypted key is locked.  The key pair is gone: a private key survives only when it was
  encrypted before.\<close>

theorem account_nep6_roundtrip:
  assumes "\<forall>n. A n" and "convertible C T a"
  shows "\<exists>n a'. neoc_account_to_nep6 C A T (Some a) = Ok n \<and> neoc_account_from_nep6 C A (Some n) = Ok a'
    \<and> ac_address a' = ac_address a \<and> ac_script_hash a' = ac_script_hash a \<and> ac_is_default a' = ac_is_default a
    \<and> ac_label a' = (case ac_label a of Some (c # cs) \<Rightarrow> Some (c # cs) | _ \<Rightarrow> ac_address a)
    \<and> ac_encrypted_key a' = map_option (string_bytes \<circ> c_text) (ac_encrypted_key a) \<and> (ac_is_locked a' \<longleftrightarrow> ac_is_locked a \<or> ac_encrypted_key a \<noteq> None)
    \<and> (\<forall>bs. neoc_account_get_verification_script C A T (Some a) = Ok bs \<and> bs \<noteq> [] \<longrightarrow> neoc_account_get_verification_script C A T (Some a') = Ok bs)
    \<and> ac_key_pair a' = None"
proof -
  have A: "A = (\<lambda>_. True)" using assms(1) by auto
  from from_to_nep6 [OF assms(2)] obtain n where n: "neoc_account_to_nep6 C (\<lambda>_. True) T (Some a) = Ok n" "neoc_account_from_nep6 C (\<lambda>_. True) (Some n) = Ok (kept C T a)"
    by blast
  have "neoc_account_get_verification_script C (\<lambda>_. True) T (Some (kept C T a)) = Ok bs"
    if g: "neoc_account_get_verification_script C (\<lambda>_. True) T (Some a) = Ok bs" and ne: "bs \<noteq> []" for bs
  proof -
    obtain b cs where bs: "bs = b # cs" using ne by (cases bs) auto
    then have "ac_verification_script (kept C T a) = Some (b # cs)" using g by (simp add: kept_def shown_script_def)
    then show ?thesis by (simp add: neoc_account_get_verification_script_def bs)
  qed
  then show ?thesis unfolding A using n
    by (intro exI [of _ n] exI [of _ "kept C T a"]) (simp add: kept_def new_account_def)
qed

text \<open>C16.  Converting a wallet to NEP-6 and back gives a wallet with the same addresses in the same order, the same default account, the same name and
  version; its accounts are what the conversion keeps of the accounts of the first one.\<close>

theorem wallet_nep6_roundtrip:
  assumes "\<forall>n. A n" and "wallet_inv s" and "\<forall>p \<in> set (wl_accounts (ws_wallet s)). \<exists>a. ws_heap s p = Some a \<and> convertible C T a"
    and "distinct ps" and "length (wl_accounts (ws_wallet s)) \<le> length ps" and "wl_name (ws_wallet s) = Some name" and "wl_version (ws_wallet s) = Some version"
  shows "\<exists>nw s'. neoc_wallet_to_nep6 C A T s = Ok nw \<and> neoc_wallet_from_nep6 C A ps (Some nw) h = Ok s' \<and> wallet_inv s'
    \<and> view s' = view s \<and> wl_name (ws_wallet s') = Some name \<and> wl_version (ws_wallet s') = Some version
    \<and> contents s' = map (\<lambda>p. map_option (unflag \<circ> kept C T) (ws_heap s p)) (wl_accounts (ws_wallet s))"
proof -
  let ?T = "\<lambda>_ :: nat. True" and ?w = "ws_wallet s" let ?qs = "wl_accounts ?w"
  have A: "A = ?T" using assms(1) by auto
  let ?ns = "map (\<lambda>p. nep6_of C T (the (ws_heap s p))) ?qs" and ?as = "map (\<lambda>p. kept C T (the (ws_heap s p))) ?qs"
  have inv: "distinct (map (addr_of s) ?qs)" "\<forall>p \<in> set ?qs. flagged s p \<longleftrightarrow> wl_default_account ?w = Some p" "distinct ?qs"
    "case wl_default_account ?w of None \<Rightarrow> ?qs = [] | Some p \<Rightarrow> p \<in> set ?qs"
    using assms(2) inv_distinct [OF assms(2)] by (simp_all add: wallet_inv_def Let_def)
  obtain w0 where w0: "neoc_nep6_wallet_create ?T (Some name) (Some version) = Ok w0" "nw_accounts w0 = []" "nw_name w0 = Some name" "nw_version w0 = Some version"
    "nw_capacity w0 = 10" by (simp add: neoc_nep6_wallet_create_def)
  from add_converted_all [OF assms(3) inv(1-3), of w0] obtain nw where
    nw: "add_converted C ?T T s ?qs w0 = Ok nw" "nw_accounts nw = ?ns" "nw_name nw = Some name" "nw_version nw = Some version" using w0(2-5) by auto
  moreover have "w0\<lparr>nw_version := Some version\<rparr> = w0" using w0(4) by (cases w0) simp
  ultimately have to: "neoc_wallet_to_nep6 C ?T T s = Ok nw"
    using w0(1) assms(6,7) by (simp add: neoc_wallet_to_nep6_def neoc_nep6_wallet_set_version_def)
  have ad: "na_address (nep6_of C T (the (ws_heap s p))) = Some (addr_of s p)" "na_is_default (nep6_of C T (the (ws_heap s p))) \<longleftrightarrow> wl_default_account ?w = Some p"
    "loads_as C (nep6_of C T (the (ws_heap s p))) (kept C T (the (ws_heap s p)))" if "p \<in> set ?qs" for p
    using bspec [OF assms(3) that] nep6_of_ok inv(2) that by (auto simp: addr_of_def flagged_def convertible_def)
  obtain w1 where w1: "neoc_wallet_create ?T (Some name) = Ok w1" by (simp add: neoc_wallet_create_def)
  let ?s1 = "\<lparr>ws_wallet = w1\<lparr>wl_version := Some version\<rparr>, ws_heap = h\<rparr>"
  note c = created_wallet [OF w1, of "Some version" h]
  have m: "map na_address ?ns = map (\<lambda>p. Some (addr_of s p)) ?qs" using ad(1) by simp
  have "distinct (map na_address ?ns)" unfolding m using inv(1) by (simp add: distinct_map inj_on_def)
  moreover have "list_all2 (loads_as C) ?ns ?as" using ad(3) by (simp add: list_all2_conv_all_nth)
  ultimately obtain s' where s': "load_accounts C ?T ps ?ns ?s1 = (Ok (), s')" "wallet_inv s'" "view s' = foldl load_view ([], None) ?ns"
    "contents s' = map (\<lambda>a. Some (unflag a)) ?as" "wl_name (ws_wallet s') = Some name" "wl_version (ws_wallet s') = Some version"
    using load_all [of C ?ns ?as ?s1 ps] c assms(4,5) by auto
  have v: "view s' = view s"
  proof (cases "wl_default_account ?w")
    case None
    then show ?thesis using inv(4) s'(3) by (simp add: view_def)
  next
    case (Some d)
    then have "snd (foldl load_view ([], None) ?ns) = Some (addr_of s d)"
      using inv(1,4) ad by (intro snd_foldl_view) (auto simp: image_image distinct_map dest: inj_onD)
    moreover have "fst (foldl load_view ([], None) ?ns) = map (addr_of s) ?qs" using ad(1) by (simp add: fst_foldl_view)
    ultimately show ?thesis unfolding s'(3) by (simp add: view_def Some prod_eq_iff)
  qed
  have "contents s' = map (\<lambda>p. map_option (unflag \<circ> kept C T) (ws_heap s p)) ?qs" unfolding s'(4) using assms(3) by auto
  moreover have "neoc_wallet_from_nep6 C ?T ps (Some nw) h = Ok s'"
    using w1 s'(1) nw by (simp add: neoc_wallet_from_nep6_def neoc_nep6_wallet_get_name_ptr_def neoc_nep6_wallet_get_version_copy_def)
  ultimately show ?thesis unfolding A using to s' v by (intro exI [of _ nw] exI [of _ s']) simp
qed

text \<open>C17.  However a NEP-6 wallet comes about (created or loaded from JSON, changed by its own operations or through pointers to its accounts), looking up an
  address gives the first account with it and nothing when there is none, and the default account is the first one that is flagged, or the first one
  when none is.  When the wallet was not loaded from JSON, and no client gave one of its accounts another address or flagged one as default directly,
  every account has an address, no two have the same one, and at most one is flagged: the lookups then find the account with the address and the account that
  is flagged, wherever they are.\<close>

theorem nep6_wallet_lookup:
  assumes "nep6_reach J C T G E controlled w"
  shows "(\<forall>x. neoc_nep6_wallet_get_account_by_address (Some w) (Some x)
           = (case dropWhile (\<lambda>a. na_address a \<noteq> Some x) (nw_accounts w) of [] \<Rightarrow> None | a # as \<Rightarrow> Some a))
    \<and> neoc_nep6_wallet_get_default_account_ptr (Some w)
        = (case dropWhile (\<lambda>a. \<not> na_is_default a) (nw_accounts w) @ nw_accounts w of [] \<Rightarrow> None | a # as \<Rightarrow> Some a)
    \<and> (controlled \<longrightarrow>
         None \<notin> na_address ` set (nw_accounts w) \<and> distinct (map na_address (nw_accounts w)) \<and> length (nw_accounts w) \<le> nw_capacity w
       \<and> (\<forall>x a. neoc_nep6_wallet_get_account_by_address (Some w) (Some x) = Some a \<longleftrightarrow> a \<in> set (nw_accounts w) \<and> na_address a = Some x)
       \<and> (\<forall>a \<in> set (nw_accounts w). na_is_default a \<longrightarrow> neoc_nep6_wallet_get_default_account_ptr (Some w) = Some a)
       \<and> ((\<forall>a \<in> set (nw_accounts w). \<not> na_is_default a) \<longrightarrow> nw_accounts w \<noteq> [] \<longrightarrow> neoc_nep6_wallet_get_default_account_ptr (Some w) = Some (hd (nw_accounts w))))"
proof -
  have first: "find P as = (case dropWhile (\<lambda>a. \<not> P a) as of [] \<Rightarrow> None | a # as \<Rightarrow> Some a)" for P and as :: "neoc_nep6_account list"
    by (induction as) auto
  have d: "neoc_nep6_wallet_get_default_account_ptr (Some w) = (case find na_is_default (nw_accounts w) of Some a \<Rightarrow> Some a
      | None \<Rightarrow> if 0 < length (nw_accounts w) then Some (nw_accounts w ! 0) else None)"
    and l: "neoc_nep6_wallet_get_account_by_address (Some w) (Some x) = find (\<lambda>a. na_address a = Some x) (nw_accounts w)" for x
    by (simp_all add: neoc_nep6_wallet_get_default_account_ptr_def neoc_nep6_account_is_default_def neoc_nep6_wallet_get_account_by_address_def
        neoc_nep6_account_get_address_def)
  have 1: "\<forall>x. neoc_nep6_wallet_get_account_by_address (Some w) (Some x)
           = (case dropWhile (\<lambda>a. na_address a \<noteq> Some x) (nw_accounts w) of [] \<Rightarrow> None | a # as \<Rightarrow> Some a)"
    unfolding l first by (intro allI refl)
  have 2: "neoc_nep6_wallet_get_default_account_ptr (Some w)
      = (case dropWhile (\<lambda>a. \<not> na_is_default a) (nw_accounts w) @ nw_accounts w of [] \<Rightarrow> None | a # as \<Rightarrow> Some a)"
    unfolding d first by (cases "dropWhile (\<lambda>a. \<not> na_is_default a) (nw_accounts w)"; cases "nw_accounts w") simp_all
  have "find (\<lambda>a. na_address a = Some x) as = Some a \<longleftrightarrow> a \<in> set as \<and> na_address a = Some x" if "distinct (map na_address as)" for as x a
    using that by (induction as) (auto simp: image_iff)
  moreover have "find na_is_default as = Some a" if "length (filter na_is_default as) \<le> 1" "a \<in> set as" "na_is_default a" for as a
    using that by (induction as) (auto simp: filter_empty_conv)
  ultimately have f: "nep6_inv w \<longrightarrow> (\<forall>x a. find (\<lambda>a. na_address a = Some x) (nw_accounts w) = Some a \<longleftrightarrow> a \<in> set (nw_accounts w) \<and> na_address a = Some x)
    \<and> (\<forall>a \<in> set (nw_accounts w). na_is_default a \<longrightarrow> find na_is_default (nw_accounts w) = Some a)" by (auto simp: nep6_inv_def)
  have g: "(\<forall>a \<in> set (nw_accounts w). \<not> na_is_default a) \<longrightarrow> find na_is_default (nw_accounts w) = None" by (simp add: find_None_iff)
  have 3: "nep6_inv w \<longrightarrow>
      (\<forall>x a. neoc_nep6_wallet_get_account_by_address (Some w) (Some x) = Some a \<longleftrightarrow> a \<in> set (nw_accounts w) \<and> na_address a = Some x)
    \<and> (\<forall>a \<in> set (nw_accounts w). na_is_default a \<longrightarrow> neoc_nep6_wallet_get_default_account_ptr (Some w) = Some a)
    \<and> ((\<forall>a \<in> set (nw_accounts w). \<not> na_is_default a) \<longrightarrow> nw_accounts w \<noteq> [] \<longrightarrow> neoc_nep6_wallet_get_default_account_ptr (Some w) = Some (hd (nw_accounts w)))"
    unfolding l d using f g by (auto simp: hd_conv_nth)
  show ?thesis using 1 2 3 nep6_reach_inv [OF assms] unfolding nep6_inv_def by blast
qed

text \<open> A wallet that was loaded from JSON with four accounts or more cannot take another one: adding an account with a new address, with memory granted,
  stores it outside the array of the accounts.\<close>

theorem nep6_loaded_add_faults:
  assumes "neoc_nep6_wallet_from_json J A text = Ok w" and "4 \<le> length (nw_accounts w)" and "\<forall>n. A' n"
    and "na_address a = Some x" and "Some x \<notin> na_address ` set (nw_accounts w)"
  shows "fst (neoc_nep6_wallet_add_account_existing A' (Some a) w) = Fault"
proof -
  have "nw_capacity w = 0" using assms(1) by (auto simp: neoc_nep6_wallet_from_json_def bind_r_Ok_iff Let_def split: option.splits if_splits)
  moreover have "\<not> list_ex (\<lambda>b. na_address b = Some x) (nw_accounts w)" using assms(5) by (force simp: list_ex_iff)
  ultimately show ?thesis using assms(2-4) by (simp add: neoc_nep6_wallet_add_account_existing_def neoc_nep6_account_get_address_def Let_def)
qed

text \<open>C18.  A private key that is put into a NEP-6 wallet with the default parameters and an array that is not overfull is found under the address of its key pair and decrypted with the same
  password.  But the script of the account is hexadecimal, where the conversion to an account expects Base64: the account made from it has no
  verification script.\<close>

theorem nep6_key_recovered:
  assumes "\<forall>n. A n" and "crypto_works C" and "ciphers_ok E" and "neoc_ec_key_pair_create_from_private_key A G (Some key) = Ok kp"
    and "nw_scrypt w = \<lparr>n6_n = 16384, n6_r = 8, n6_p = 8\<rparr>"
    and "\<forall>a \<in> set (nw_accounts w). na_address a \<noteq> Some address" and "length (nw_accounts w) \<le> nw_capacity w" and "neoc_ec_key_pair_get_address C A T (Some kp) = Ok address"
  shows "\<exists>w' n a. neoc_nep6_wallet_add_account C A T G E (Some key) (Some pass) label is_default w = (Ok (), w')
    \<and> neoc_nep6_wallet_get_account_by_address (Some w') (Some address) = Some n
    \<and> neoc_nep6_account_decrypt_private_key C A T G E (Some n) (Some pass) 32 = Ok (take 32 key)
    \<and> neoc_nep6_contract_get_script (neoc_nep6_account_get_contract (Some n)) \<noteq> None
    \<and> neoc_account_from_nep6 C A (Some n) = Ok a \<and> ac_address a = Some address \<and> ac_verification_script a = None"
proof -
  let ?A = "\<lambda>_ :: nat. True"
  have A: "A = ?A" using assms(1) by auto
  note kp = assms(4) [unfolded A]
  obtain y h pk where "neoc_ec_key_pair_get_address C ?A T (Some kp) = Ok y" "length y < 36" "neoc_hash160_from_address C ?A (Some y) = Ok h"
    "kp_public_key kp = Some pk" "length (pk_compressed pk) = 33" using key_pair_address_works [OF assms(2) kp] by metis
  then have x: "length address < 36" "neoc_hash160_from_address C ?A (Some address) = Ok h" "kp_public_key kp = Some pk" "length (pk_compressed pk) = 33"
    using assms(8) [unfolded A] by simp_all
  from nep2_works [OF assms(2,3) grants_all kp, of 64 None T pass] default_params_admitted(1) obtain s where
    s: "neoc_nep2_encrypt C ?A T G E (Some key) (Some pass) None 64 = Ok s" "neoc_nep2_decrypt C ?A T G E (Some s) (Some pass) None 32 = Ok (take 32 key)" by auto
  let ?script = "concat (map hex_byte (0x21 # pk_compressed pk @ [0xAC]))"
  let ?n = "\<lparr>na_address = Some address, na_label = label, na_is_default = is_default, na_lock = False, na_key = Some s,
    na_contract = Some \<lparr>nc_script = Some ?script, nc_parameters = [signature_parameter], nc_is_deployed = False\<rparr>, na_extra = []\<rparr>"
  obtain w' where w': "neoc_nep6_wallet_add_account_existing ?A (Some ?n) w = (Ok (), w')"
    "nw_accounts w' = (if is_default then map (\<lambda>b. b\<lparr>na_is_default := False\<rparr>) (nw_accounts w) else nw_accounts w) @ [?n]"
    by (rule add_existing_granted [OF _ assms(6,7), of ?n]) auto
  have "neoc_nep6_wallet_add_account C ?A T G E (Some key) (Some pass) label is_default w = (Ok (), w')"
    using kp assms(5) assms(8) [unfolded A] x s(1) encrypt_default [of C ?A T G E "Some key" "Some pass" 64] w'(1)
    by (simp add: neoc_nep6_wallet_add_account_def neoc_ec_key_pair_from_private_key_def NEOC_NEP2_DEFAULT_PARAMS_def neoc_ec_key_pair_get_public_key_def
        neoc_nep6_account_set_contract_def bind_c_def lift_c_def)
  moreover have "find (\<lambda>a. na_address a = Some address) (nw_accounts w') = Some ?n"
  proof -
    have "find (\<lambda>a. na_address a = Some address) (xs @ [?n]) = Some ?n" if "\<forall>a \<in> set xs. na_address a \<noteq> Some address" for xs using that by (induction xs) auto
    then show ?thesis unfolding w'(2) using assms(6) by auto
  qed
  moreover obtain e where "neoc_base64_decode_alloc ?A (Some ?script) = Err e" using hex_is_not_base64 [of ?script] x(4) by auto
  then have "\<exists>a. neoc_account_from_nep6 C ?A (Some ?n) = Ok a \<and> ac_address a = Some address \<and> ac_verification_script a = None"
    using x(2)
    by (auto simp: neoc_account_from_nep6_def neoc_nep6_account_get_address_def neoc_account_create_from_address_def neoc_nep6_account_get_label_def
         neoc_account_set_label_def neoc_account_set_default_def neoc_nep6_account_is_default_def neoc_nep6_account_get_key_def
         neoc_account_store_encrypted_key_def neoc_account_clear_encrypted_key_def neoc_nep6_account_is_locked_def neoc_nep6_account_get_contract_def
         neoc_nep6_contract_get_script_def new_account_def Let_def split: option.split)
  ultimately show ?thesis unfolding A using s(2)
    by (auto simp: neoc_nep6_wallet_get_account_by_address_def neoc_nep6_account_get_address_def neoc_nep6_account_decrypt_private_key_def
        neoc_nep6_contract_get_script_def neoc_nep6_account_get_contract_def)
qed

text \<open> Comparing two accounts whose extra entries have different keys tells whether they agree in everything, the extra entries as a set; and copying an
  account gives the same account.\<close>

theorem nep6_account_equality:
  assumes "na_address a \<noteq> None" and "na_address b \<noteq> None" and "distinct (map fst (na_extra a))" and "distinct (map fst (na_extra b))" and "\<forall>n. A n"
  shows "neoc_nep6_account_equals False (Some a) (Some b) = Ok (a\<lparr>na_extra := []\<rparr> = b\<lparr>na_extra := []\<rparr> \<and> set (na_extra a) = set (na_extra b))
    \<and> neoc_nep6_account_copy A (Some a) = Ok a"
proof -
  have A: "A = (\<lambda>_. True)" using assms(5) by auto
  have "map_r (\<lambda>(k, v). Ok (k, v)) xs = Ok xs" for xs :: "(string \<times> string) list" by (induction xs) auto
  then have "neoc_nep6_account_copy A (Some a) = Ok a"
    unfolding A using assms(1) by (cases a; cases "na_contract a") (auto simp: neoc_nep6_account_copy_def)
  moreover have "neoc_nep6_account_equals False (Some a) (Some b) = Ok (a\<lparr>na_extra := []\<rparr> = b\<lparr>na_extra := []\<rparr> \<and> set (na_extra a) = set (na_extra b))"
    using assms(1,2) extras_match_iff [OF assms(3,4)]
    by (cases a; cases b) (auto simp: neoc_nep6_account_equals_def contracts_equal_iff)
  ultimately show ?thesis by simp
qed

subsection \<open>Instances\<close>

theorem account_spends_its_address_witness:
  "\<exists>a s script. neoc_account_create_from_key_pair_with_label toy_crypto (\<lambda>_. True) initial_interop_table demo_mul None (ac_key_pair demo_account) = Ok a
     \<and> neoc_account_get_address_ptr (Some a) = Some s \<and> neoc_hash160_from_address toy_crypto (\<lambda>_. True) (Some s) = neoc_account_get_script_hash_copy (Some a)
     \<and> neoc_account_get_verification_script toy_crypto (\<lambda>_. True) initial_interop_table (Some a) = Ok script
     \<and> neoc_hash160_from_script toy_crypto (Some script) = neoc_account_get_script_hash_copy (Some a)"
proof -
  obtain a script where a: "neoc_account_create_from_key_pair_with_label toy_crypto (\<lambda>_. True) initial_interop_table demo_mul None (ac_key_pair demo_account) = Ok a"
    "neoc_account_get_verification_script toy_crypto (\<lambda>_. True) initial_interop_table (Some a) = Ok script" by (rule demo_account_made)
  have "account_reach (\<lambda>_. None) toy_crypto (\<lambda>_. True) initial_interop_table demo_mul demo_ciphers True a"
    using a(1) by (intro reach_made made_key_pair)
  from account_spends_its_address [OF this toy_crypto_works] a show ?thesis by auto
qed

definition scripted_account :: "string \<Rightarrow> neoc_account" where
  "scripted_account x = new_account\<lparr>ac_label := Some [], ac_address := Some x, ac_script_hash := replicate 20 1, ac_is_default := True, ac_verification_script := Some [0x40]\<rparr>"

lemma scripted_convertible: "\<exists>x. convertible toy_crypto T (scripted_account x)"
proof -
  obtain x where "neoc_hash160_from_address toy_crypto (\<lambda>_. True) (Some x) = Ok (replicate 20 1)"
    by (rule to_address_Ok [OF toy_crypto_works grants_all, of "replicate 20 1" 64]) simp_all
  then have "convertible toy_crypto T (scripted_account x)"
    by (simp add: convertible_def scripted_account_def neoc_account_get_verification_script_def)
  then show ?thesis by blast
qed

theorem account_nep6_roundtrip_witness:
  "\<exists>x n a'. neoc_account_to_nep6 toy_crypto (\<lambda>_. True) initial_interop_table (Some (scripted_account x)) = Ok n
     \<and> neoc_account_from_nep6 toy_crypto (\<lambda>_. True) (Some n) = Ok a' \<and> ac_label a' = Some x"
proof -
  obtain x where x: "convertible toy_crypto initial_interop_table (scripted_account x)" using scripted_convertible by blast
  have "\<forall>n :: nat. (\<lambda>_. True) n" by simp
  from account_nep6_roundtrip [OF this x] show ?thesis
    by (elim exE) (rule exI [of _ x], auto simp: scripted_account_def)
qed

definition scripted_wallet :: "string \<Rightarrow> wallet_state" where
  "scripted_wallet x = \<lparr>ws_wallet = \<lparr>wl_name = Some ''w'', wl_version = Some ''1.0'', wl_accounts = [1], wl_capacity = 10, wl_default_account = Some 1\<rparr>,
     ws_heap = [1 \<mapsto> scripted_account x]\<rparr>"

theorem wallet_nep6_roundtrip_witness:
  "\<exists>x nw s'. neoc_wallet_to_nep6 toy_crypto (\<lambda>_. True) initial_interop_table (scripted_wallet x) = Ok nw
     \<and> neoc_wallet_from_nep6 toy_crypto (\<lambda>_. True) [5] (Some nw) (\<lambda>_. None) = Ok s' \<and> view s' = ([x], Some x)"
proof -
  obtain x where x: "convertible toy_crypto initial_interop_table (scripted_account x)" using scripted_convertible by blast
  let ?s = "scripted_wallet x"
  have t: "\<forall>n :: nat. (\<lambda>_. True) n" by simp
  have inv: "wallet_inv ?s" by (simp add: wallet_inv_def scripted_wallet_def scripted_account_def has_address_def flagged_def addr_of_def new_account_def)
  have a: "\<forall>p \<in> set (wl_accounts (ws_wallet ?s)). \<exists>a. ws_heap ?s p = Some a \<and> convertible toy_crypto initial_interop_table a"
    using x by (simp add: scripted_wallet_def)
  have w: "wl_name (ws_wallet ?s) = Some ''w''" "wl_version (ws_wallet ?s) = Some ''1.0''" "length (wl_accounts (ws_wallet ?s)) \<le> length [5 :: nat]" "distinct [5 :: nat]"
    by (simp_all add: scripted_wallet_def)
  have "view ?s = ([x], Some x)" by (simp add: view_def scripted_wallet_def scripted_account_def addr_of_def)
  with wallet_nep6_roundtrip [OF t inv a w(4,3,1,2), of "\<lambda>_. None"] show ?thesis by (intro exI [of _ x]) auto
qed

definition demo_nep6_account :: "(string \<times> string) list \<Rightarrow> neoc_nep6_account" where
  "demo_nep6_account extra = \<lparr>na_address = Some ''a'', na_label = None, na_is_default = True, na_lock = False, na_key = None, na_contract = None, na_extra = extra\<rparr>"

definition new_nep6_wallet :: neoc_nep6_wallet where
  "new_nep6_wallet = \<lparr>nw_name = Some ''w'', nw_version = Some ''1.0'', nw_scrypt = \<lparr>n6_n = 16384, n6_r = 8, n6_p = 8\<rparr>, nw_accounts = [], nw_capacity = 10\<rparr>"

lemma new_nep6_wallet_created: "neoc_nep6_wallet_create (\<lambda>_. True) (Some ''w'') (Some ''1.0'') = Ok new_nep6_wallet"
  by (simp add: neoc_nep6_wallet_create_def new_nep6_wallet_def)

theorem nep6_wallet_lookup_witness:
  "neoc_nep6_wallet_get_default_account_ptr (Some (new_nep6_wallet\<lparr>nw_accounts := [demo_nep6_account []]\<rparr>)) = Some (demo_nep6_account [])"
proof -
  let ?w = "new_nep6_wallet\<lparr>nw_accounts := [demo_nep6_account []]\<rparr>"
  have "nep6_reach (None :: unit cjson_lib option) toy_crypto initial_interop_table demo_mul demo_ciphers True new_nep6_wallet"
    using new_nep6_wallet_created by (rule nep6_new)
  from nep6_run [OF this, of "Add_Existing (Some (demo_nep6_account []))" "\<lambda>_. True"]
  have "nep6_reach (None :: unit cjson_lib option) toy_crypto initial_interop_table demo_mul demo_ciphers True ?w"
    by (simp add: nep6_after_def neoc_nep6_wallet_add_account_existing_def neoc_nep6_account_get_address_def neoc_nep6_account_is_default_def
        demo_nep6_account_def new_nep6_wallet_def wallet_controlled_def Let_def)
  from nep6_wallet_lookup [OF this] show ?thesis by (simp add: demo_nep6_account_def)
qed

theorem nep6_key_recovered_witness:
  "\<exists>w' n. neoc_nep6_wallet_add_account toy_crypto (\<lambda>_. True) initial_interop_table demo_mul demo_ciphers (Some (replicate 32 7)) (Some ''pass'') None True new_nep6_wallet = (Ok (), w')
     \<and> neoc_nep6_account_decrypt_private_key toy_crypto (\<lambda>_. True) initial_interop_table demo_mul demo_ciphers (Some n) (Some ''pass'') 32 = Ok (replicate 32 7)"
proof -
  have t: "\<forall>n :: nat. (\<lambda>_. True) n" by simp
  obtain x where x: "neoc_ec_key_pair_get_address toy_crypto (\<lambda>_. True) initial_interop_table (Some \<lparr>kp_private_key = Some (replicate 32 7),
     kp_public_key = Some \<lparr>pk_compressed = 2 # replicate 32 5, pk_uncompressed = 4 # replicate 64 5, pk_is_compressed = True\<rparr>\<rparr>) = Ok x"
    using key_pair_address_works [OF toy_crypto_works demo_key_pair] by metis
  have "nw_scrypt new_nep6_wallet = \<lparr>n6_n = 16384, n6_r = 8, n6_p = 8\<rparr>" "\<forall>a \<in> set (nw_accounts new_nep6_wallet). na_address a \<noteq> Some x"
    "length (nw_accounts new_nep6_wallet) \<le> nw_capacity new_nep6_wallet" by (simp_all add: new_nep6_wallet_def)
  from nep6_key_recovered [OF t toy_crypto_works demo_ciphers_ok demo_key_pair this x, of "''pass''" None True] show ?thesis by auto
qed

theorem nep6_account_equality_witness:
  "neoc_nep6_account_equals False (Some (demo_nep6_account [(''k'', ''v''), (''l'', ''w'')])) (Some (demo_nep6_account [(''l'', ''w''), (''k'', ''v'')])) = Ok True"
  using nep6_account_equality [of "demo_nep6_account [(''k'', ''v''), (''l'', ''w'')]" "demo_nep6_account [(''l'', ''w''), (''k'', ''v'')]" "\<lambda>_. True"]
  by (auto simp: demo_nep6_account_def)

end
