(* ===== verification/Nep6_Json.thy ===== *)
theory Nep6_Json
  imports Nep6
begin

text \<open>
  \<^verbatim>\<open>neoc_nep6_wallet_to_json\<close> of \<^verbatim>\<open>wallet/nep6.c\<close>: the text of a NEP-6 wallet, which the code prints itself into a buffer of estimated size.  The buffer is
  the list of its characters, and writing outside it is a fault.  Texts of \<open>2 ^ 31\<close> characters or more, where the \<^verbatim>\<open>int\<close> results of
  \<^verbatim>\<open>snprintf\<close> overflow, count as faults too.
\<close>

abbreviation NUL :: char where "NUL \<equiv> CHR 0x00"

definition quote :: "string \<Rightarrow> string" where
  "quote s = CHR 0x22 # s @ [CHR 0x22]"

definition nl :: string where "nl = [CHR 0x0A]"

definition show_bool :: "bool \<Rightarrow> string" where
  "show_bool b = (if b then ''true'' else ''false'')"

subsection \<open>The buffer\<close>

definition put_text :: "nat \<Rightarrow> string \<Rightarrow> string \<Rightarrow> string result" where
  "put_text pos s buffer =
     (if pos + length s \<le> length buffer then Ok (take pos buffer @ s @ drop (pos + length s) buffer) else Fault)"

text \<open>\<^verbatim>\<open>snprintf\<close> at a position, with the limit it is given.\<close>

definition snprintf_at :: "nat \<Rightarrow> nat \<Rightarrow> string \<Rightarrow> string \<Rightarrow> string result" where
  "snprintf_at pos limit s buffer = (if limit = 0 then Ok buffer else put_text pos (take (limit - 1) s @ [NUL]) buffer)"

text \<open>\<^verbatim>\<open>offset += snprintf(buffer + offset, estimated_size - offset, ...)\<close>: the difference wraps around.\<close>

definition append_text :: "string \<Rightarrow> string \<times> nat \<Rightarrow> (string \<times> nat) result" where
  "append_text s st =
     (case st of (buffer, offset) \<Rightarrow>
        let limit = unat (of_nat (length buffer) - of_nat offset :: size_t) in
        bind_r (snprintf_at offset limit s buffer) (\<lambda>buffer.
          if 2 ^ 31 \<le> offset + length s then Fault else Ok (buffer, offset + length s)))"

definition strlen_at :: "string \<Rightarrow> nat result" where
  "strlen_at buffer = (if NUL \<in> set buffer then Ok (length (takeWhile (\<lambda>c. c \<noteq> NUL) buffer)) else Fault)"

subsection \<open>The texts\<close>

definition json_head :: "neoc_nep6_wallet \<Rightarrow> string" where
  "json_head w =
     ''{'' @ nl @
     ''  '' @ quote ''name'' @ '': '' @ quote (case nw_name w of Some n \<Rightarrow> n | None \<Rightarrow> []) @ '','' @ nl @
     ''  '' @ quote ''version'' @ '': '' @ quote (case nw_version w of Some v \<Rightarrow> v | None \<Rightarrow> []) @ '','' @ nl @
     ''  '' @ quote ''scrypt'' @ '': {'' @ nl @
     ''    '' @ quote ''n'' @ '': '' @ show_nat (unat (n6_n (nw_scrypt w))) @ '','' @ nl @
     ''    '' @ quote ''r'' @ '': '' @ show_nat (unat (n6_r (nw_scrypt w))) @ '','' @ nl @
     ''    '' @ quote ''p'' @ '': '' @ show_nat (unat (n6_p (nw_scrypt w))) @ nl @
     ''  },'' @ nl @
     ''  '' @ quote ''accounts'' @ '': ['' @ nl"

text \<open>For an account with a label the empty text is printed.\<close>

definition json_account_head :: "neoc_nep6_account \<Rightarrow> string" where
  "json_account_head a =
     ''    {'' @ nl @
     ''      '' @ quote ''address'' @ '': '' @ quote (case na_address a of Some x \<Rightarrow> x | None \<Rightarrow> []) @ '','' @ nl @
     ''      '' @ quote ''label'' @ '': '' @ (if na_label a \<noteq> None then [] else ''null'') @ '','' @ nl @
     ''      '' @ quote ''isDefault'' @ '': '' @ show_bool (na_is_default a) @ '','' @ nl @
     ''      '' @ quote ''lock'' @ '': '' @ show_bool (na_lock a) @ '','' @ nl @
     ''      '' @ quote ''key'' @ '': '' @ quote (case na_key a of Some k \<Rightarrow> k | None \<Rightarrow> []) @ '','' @ nl @
     ''      '' @ quote ''contract'' @ '': {'' @ nl @
     ''        '' @ quote ''script'' @ '': '' @ [CHR 0x22]"

definition json_parameters :: string where
  "json_parameters = [CHR 0x22] @ '','' @ nl @ ''        '' @ quote ''parameters'' @ '': []''"

definition json_account_tail :: "bool \<Rightarrow> bool \<Rightarrow> string" where
  "json_account_tail deployed is_last =
     (if deployed then '','' else ''],'') @ nl @
     ''        '' @ quote ''deployed'' @ '': '' @ show_bool deployed @ nl @
     ''      }'' @ nl @
     ''    }'' @ (if is_last then [] else '','') @ nl"

definition json_foot :: string where
  "json_foot = ''  ]'' @ nl @ ''}'' @ nl"

subsection \<open>Printing\<close>

text \<open>The label is printed six characters before the end, over the text that is there.\<close>

definition print_label :: "string option \<Rightarrow> string \<times> nat \<Rightarrow> string result" where
  "print_label label st =
     (case st of (buffer, offset) \<Rightarrow>
        (case label of
           None \<Rightarrow> Ok buffer
         | Some l \<Rightarrow> if offset < 6 then Fault else snprintf_at (offset - 6) 256 (quote l @ '','' @ nl) buffer))"

definition print_account :: "bool \<Rightarrow> neoc_nep6_account \<Rightarrow> string \<times> nat \<Rightarrow> (string \<times> nat) result" where
  "print_account is_last a st =
     bind_r (append_text (json_account_head a) st) (\<lambda>st.
     bind_r (print_label (na_label a) st) (\<lambda>buffer.
     bind_r (strlen_at buffer) (\<lambda>offset.
     bind_r (append_text json_parameters (buffer, offset)) (\<lambda>st.
       append_text (json_account_tail (neoc_nep6_contract_is_deployed (na_contract a)) is_last) st))))"

fun print_accounts :: "neoc_nep6_account list \<Rightarrow> string \<times> nat \<Rightarrow> (string \<times> nat) result" where
  "print_accounts [] st = Ok st"
| "print_accounts (a # as) st = bind_r (print_account (as = []) a st) (print_accounts as)"

text \<open>\<open>junk\<close>: what is in the memory that \<^verbatim>\<open>neoc_malloc\<close> returns.  The results are the text in the buffer and the length that is reported.\<close>

definition neoc_nep6_wallet_to_json :: "allocator \<Rightarrow> (nat \<Rightarrow> string) \<Rightarrow> neoc_nep6_wallet option \<Rightarrow> (string \<times> nat) result" where
  "neoc_nep6_wallet_to_json A junk wallet =
     (case wallet of
        None \<Rightarrow> Err NEOC_ERROR_INVALID_ARGUMENT
      | Some w \<Rightarrow>
          let estimated_size = 4096 + length (nw_accounts w) * 512 in
          bind_r (neoc_malloc_r A estimated_size) (\<lambda>_.
          bind_r (append_text (json_head w) (junk estimated_size, 0)) (\<lambda>st.
          bind_r (print_accounts (nw_accounts w) st) (\<lambda>st.
          bind_r (append_text json_foot st) (\<lambda>(buffer, offset).
            Ok (takeWhile (\<lambda>c. c \<noteq> NUL) buffer, offset))))))"

subsection \<open>Lemmas\<close>

text \<open>A buffer that holds a text, with room for more.\<close>

definition holds :: "nat \<Rightarrow> string \<Rightarrow> string \<Rightarrow> bool" where
  "holds m t buffer \<longleftrightarrow> length buffer = m \<and> NUL \<notin> set t \<and> (\<exists>rest. buffer = t @ NUL # rest)"

lemma holds_strlen: "holds m t buffer \<Longrightarrow> strlen_at buffer = Ok (length t) \<and> takeWhile (\<lambda>c. c \<noteq> NUL) buffer = t"
proof -
  assume "holds m t buffer"
  then obtain rest where r: "buffer = t @ NUL # rest" "NUL \<notin> set t" by (auto simp: holds_def)
  then have "takeWhile (\<lambda>c. c \<noteq> NUL) (t @ NUL # rest) = t" by (induction t arbitrary: buffer) auto
  with r show ?thesis by (simp add: strlen_at_def)
qed

lemma append_holds:
  assumes "holds m t buffer \<or> t = [] \<and> length buffer = m" and "length t + length s < m" and "NUL \<notin> set s" and "m < 2 ^ 31"
  shows "\<exists>buffer'. append_text s (buffer, length t) = Ok (buffer', length (t @ s)) \<and> holds m (t @ s) buffer'"
proof -
  have len: "length buffer = m" and pre: "take (length t) buffer = t" and t: "NUL \<notin> set t" using assms(1) by (auto simp: holds_def)
  have "unat (of_nat m - of_nat (length t) :: size_t) = m - length t"
  proof -
    have "(of_nat m - of_nat (length t) :: size_t) = of_nat (m - length t)" using assms(2) by (simp add: of_nat_diff)
    moreover have "m - length t < 2 ^ 64" using assms(4) by simp
    ultimately show ?thesis by (simp only: unat_of_nat_size)
  qed
  then have lim: "take (unat (of_nat m - of_nat (length t) :: size_t) - 1) s = s" "unat (of_nat m - of_nat (length t) :: size_t) \<noteq> 0" using assms(2) by simp_all
  let ?b = "t @ (s @ [NUL]) @ drop (length t + length (s @ [NUL])) buffer"
  have "append_text s (buffer, length t) = Ok (?b, length (t @ s))"
    using lim len pre assms(2,4) by (simp add: append_text_def snprintf_at_def put_text_def Let_def)
  moreover have "holds m (t @ s) ?b" using len assms(2,3) t by (auto simp: holds_def)
  ultimately show ?thesis by blast
qed

lemma label_holds:
  assumes "holds m (t @ v) buffer" and "length v = 6" and "length t + 256 \<le> m" and "NUL \<notin> set l"
  shows "\<exists>buffer'. print_label (Some l) (buffer, length (t @ v)) = Ok buffer' \<and> holds m (t @ take 255 (quote l @ '','' @ nl)) buffer'"
proof -
  let ?s = "take 255 (quote l @ '','' @ nl)"
  from assms(1) have b: "length buffer = m" "take (length t) buffer = t" "NUL \<notin> set t" by (auto simp: holds_def)
  let ?b = "t @ (?s @ [NUL]) @ drop (length t + length (?s @ [NUL])) buffer"
  have "length ?s \<le> 255" by simp
  then have "length t + length (?s @ [NUL]) \<le> m" using assms(3) by (simp only: length_append list.size)
  then have "print_label (Some l) (buffer, length (t @ v)) = Ok ?b" using b assms(2) by (simp add: print_label_def snprintf_at_def put_text_def)
  moreover have "NUL \<notin> set ?s" using assms(4) by (auto simp: quote_def nl_def dest: in_set_takeD)
  then have "holds m (t @ ?s) ?b" using b \<open>length t + length (?s @ [NUL]) \<le> m\<close> by (auto simp: holds_def)
  ultimately show ?thesis by blast
qed

lemma show_nat_plain: "c \<in> set (show_nat n) \<Longrightarrow> 48 \<le> ord_c c \<and> ord_c c \<le> 57"
proof (induction n rule: show_nat.induct)
  case (1 n)
  have "c = chr_c (48 + int (n mod 10)) \<or> \<not> n < 10 \<and> c \<in> set (show_nat (n div 10))"
    using "1.prems" by (subst (asm) show_nat.simps) (auto split: if_splits)
  moreover have "ord_c (chr_c (48 + int (n mod 10))) = 48 + int (n mod 10)" by (rule ord_chr_c) auto
  ultimately show ?case using "1.IH" by auto
qed

lemma length_show_nat: "n < 10 ^ Suc k \<Longrightarrow> length (show_nat n) \<le> Suc k"
proof (induction k arbitrary: n)
  case 0
  then show ?case by (subst show_nat.simps) simp
next
  case (Suc k)
  then have "n div 10 < 10 ^ Suc k" by (simp add: less_mult_imp_div_less mult.commute)
  from Suc.IH [OF this] show ?case by (subst show_nat.simps) simp
qed

lemma length_show_u32: "length (show_nat (unat (v :: u32))) \<le> 10"
proof -
  have "unat v < 2 ^ 32" using unsigned_less [of v] by simp
  then have "unat v < 10 ^ Suc 9" by simp
  from length_show_nat [OF this] show ?thesis by simp
qed

text \<open>Texts without a final zero inside and without brackets.\<close>

definition plain :: "string \<Rightarrow> bool" where
  "plain s \<longleftrightarrow> NUL \<notin> set s \<and> CHR 0x5B \<notin> set s \<and> CHR 0x5D \<notin> set s"

lemma plain_append [simp]: "plain (s @ t) \<longleftrightarrow> plain s \<and> plain t"
  by (auto simp: plain_def)

lemma plain_Cons [simp]: "plain (c # s) \<longleftrightarrow> c \<noteq> NUL \<and> c \<noteq> CHR 0x5B \<and> c \<noteq> CHR 0x5D \<and> plain s"
  by (auto simp: plain_def)

lemma plain_Nil [simp]: "plain []"
  by (simp add: plain_def)

lemma plain_take: "plain s \<Longrightarrow> plain (take n s)"
  by (auto simp: plain_def dest: in_set_takeD)

lemma plain_show_nat [simp]: "plain (show_nat n)"
  using show_nat_plain [of NUL n] show_nat_plain [of "CHR 0x5B" n] show_nat_plain [of "CHR 0x5D" n] by (auto simp: plain_def ord_c_def)

lemma plain_quote [simp]: "plain (quote s) \<longleftrightarrow> plain s" "plain nl" "plain (show_bool b)"
  by (auto simp: quote_def nl_def show_bool_def)

lemma length_quote [simp]: "length (quote s) = length s + 2" "length nl = 1"
  by (simp_all add: quote_def nl_def)

lemma length_show_bool: "length (show_bool b) \<le> 5"
  by (simp add: show_bool_def)

definition printable :: "neoc_nep6_account \<Rightarrow> bool" where
  "printable a \<longleftrightarrow> (\<forall>x. na_address a = Some x \<longrightarrow> plain x \<and> length x \<le> 40) \<and> (\<forall>k. na_key a = Some k \<longrightarrow> plain k \<and> length k \<le> 64)
     \<and> (\<forall>l. na_label a = Some l \<longrightarrow> plain l \<and> length l \<le> 100)"

lemma account_head_plain: "printable a \<Longrightarrow> plain (json_account_head a)"
  by (auto simp: printable_def json_account_head_def split: option.split)

lemma account_head_length: "printable a \<Longrightarrow> length (json_account_head a) \<le> 255" "6 \<le> length (json_account_head a)"
  using length_show_bool [of "na_is_default a"] length_show_bool [of "na_lock a"]
  by (auto simp: printable_def json_account_head_def split: option.split)

text \<open>The text of an account, with the label over the end of its first part.\<close>

definition account_text :: "bool \<Rightarrow> neoc_nep6_account \<Rightarrow> string" where
  "account_text is_last a =
     (case na_label a of
        None \<Rightarrow> json_account_head a
      | Some l \<Rightarrow> take (length (json_account_head a) - 6) (json_account_head a) @ quote l @ '','' @ nl)
     @ json_parameters @ json_account_tail (neoc_nep6_contract_is_deployed (na_contract a)) is_last"

lemma no_nul_parts: "NUL \<notin> set json_parameters" "NUL \<notin> set (json_account_tail d e)" "NUL \<notin> set json_foot"
  by (auto simp: json_parameters_def json_account_tail_def json_foot_def quote_def nl_def show_bool_def)

lemma length_parts: "length json_parameters \<le> 30" "length (json_account_tail d e) \<le> 50" "length json_foot \<le> 10"
  by (simp_all add: json_parameters_def json_account_tail_def json_foot_def quote_def nl_def show_bool_def)

lemma print_account_holds:
  assumes "holds m t buffer" and "printable a" and "length t + 512 \<le> m" and "m < 2 ^ 31"
  shows "\<exists>buffer'. print_account is_last a (buffer, length t) = Ok (buffer', length (t @ account_text is_last a)) \<and> holds m (t @ account_text is_last a) buffer'"
    and "length (account_text is_last a) \<le> 450"
proof -
  let ?h = "json_account_head a" and ?tail = "json_account_tail (neoc_nep6_contract_is_deployed (na_contract a)) is_last"
  have h: "plain ?h" "length ?h \<le> 255" "6 \<le> length ?h" using account_head_plain [OF assms(2)] account_head_length(1) [OF assms(2)] account_head_length(2) by simp_all
  obtain u where u: "account_text is_last a = u @ json_parameters @ ?tail" "length u \<le> 355" "NUL \<notin> set u"
    and lab: "\<And>b. holds m (t @ ?h) b \<Longrightarrow> \<exists>b'. print_label (na_label a) (b, length (t @ ?h)) = Ok b' \<and> holds m (t @ u) b'"
  proof (cases "na_label a")
    case None
    then show thesis using h by (intro that [of ?h]) (auto simp: account_text_def print_label_def plain_def)
  next
    case (Some l)
    let ?v = "take (length ?h - 6) ?h" and ?w = "drop (length ?h - 6) ?h"
    have l: "plain l" "length l \<le> 100" using assms(2) Some by (simp_all add: printable_def)
    have "\<exists>b'. print_label (na_label a) (b, length (t @ ?h)) = Ok b' \<and> holds m (t @ ?v @ quote l @ '','' @ nl) b'" if "holds m (t @ ?h) b" for b
    proof -
      have "holds m ((t @ ?v) @ ?w) b" using that by simp
      moreover have "length ?w = 6" "length (t @ ?v) + 256 \<le> m" "NUL \<notin> set l" using h assms(3) l by (simp_all add: plain_def)
      ultimately have "\<exists>b'. print_label (Some l) (b, length ((t @ ?v) @ ?w)) = Ok b' \<and> holds m ((t @ ?v) @ take 255 (quote l @ '','' @ nl)) b'"
        by (rule label_holds)
      then show ?thesis using l(2) h(3) by (simp add: Some)
    qed
    moreover have "plain (?v @ quote l @ '','' @ nl)" using h(1) l(1) by (simp add: plain_take)
    ultimately show thesis using h l(2) Some by (intro that [of "?v @ quote l @ '','' @ nl"]) (auto simp: account_text_def plain_def)
  qed
  show "length (account_text is_last a) \<le> 450" using u(1,2) length_parts(1) length_parts(2) [of "neoc_nep6_contract_is_deployed (na_contract a)" is_last] by simp
  have "length t + length ?h < m" "NUL \<notin> set ?h" using h assms(3) by (simp_all add: plain_def)
  with append_holds [of m t buffer ?h] obtain b1 where b1: "append_text ?h (buffer, length t) = Ok (b1, length (t @ ?h))" "holds m (t @ ?h) b1" using assms(1,4) by blast
  from lab [OF b1(2)] obtain b2 where b2: "print_label (na_label a) (b1, length (t @ ?h)) = Ok b2" "holds m (t @ u) b2" by blast
  have "length (t @ u) + length json_parameters < m" using u(2) length_parts(1) assms(3) by simp
  with append_holds [of m "t @ u" b2 json_parameters] obtain b3 where
    b3: "append_text json_parameters (b2, length (t @ u)) = Ok (b3, length ((t @ u) @ json_parameters))" "holds m ((t @ u) @ json_parameters) b3"
    using b2(2) assms(4) no_nul_parts(1) by blast
  have "length ((t @ u) @ json_parameters) + length ?tail < m" using u(2) length_parts(1) length_parts(2) [of "neoc_nep6_contract_is_deployed (na_contract a)" is_last] assms(3) by simp
  with append_holds [of m "(t @ u) @ json_parameters" b3 ?tail] obtain b4 where
    "append_text ?tail (b3, length ((t @ u) @ json_parameters)) = Ok (b4, length (((t @ u) @ json_parameters) @ ?tail))" "holds m (((t @ u) @ json_parameters) @ ?tail) b4"
    using b3(2) assms(4) no_nul_parts(2) by blast
  then show "\<exists>buffer'. print_account is_last a (buffer, length t) = Ok (buffer', length (t @ account_text is_last a)) \<and> holds m (t @ account_text is_last a) buffer'"
    using b1(1) b2 b3(1) holds_strlen [OF b2(2)] by (auto simp: print_account_def u(1))
qed

fun accounts_text :: "neoc_nep6_account list \<Rightarrow> string" where
  "accounts_text [] = []"
| "accounts_text (a # as) = account_text (as = []) a @ accounts_text as"

lemma print_accounts_hold:
  assumes "list_all printable as" and "holds m t buffer" and "length t + 512 * length as + 10 < m" and "m < 2 ^ 31"
  shows "\<exists>buffer'. print_accounts as (buffer, length t) = Ok (buffer', length (t @ accounts_text as)) \<and> holds m (t @ accounts_text as) buffer'
    \<and> length (t @ accounts_text as) + 10 < m"
  using assms
proof (induction as arbitrary: t buffer)
  case (Cons a as)
  have p: "printable a" "length t + 512 \<le> m" using Cons.prems by simp_all
  note one = print_account_holds [OF Cons.prems(2) p Cons.prems(4), of "as = []"]
  from one(1) obtain b where b: "print_account (as = []) a (buffer, length t) = Ok (b, length (t @ account_text (as = []) a))" "holds m (t @ account_text (as = []) a) b" by blast
  have "length (t @ account_text (as = []) a) + 512 * length as + 10 < m" using one(2) Cons.prems(3) by simp
  from Cons.IH [OF _ b(2) this Cons.prems(4)] show ?case using Cons.prems(1) b(1) by auto
qed simp

definition wallet_printable :: "neoc_nep6_wallet \<Rightarrow> bool" where
  "wallet_printable w \<longleftrightarrow> (\<forall>n. nw_name w = Some n \<longrightarrow> plain n \<and> length n \<le> 1000) \<and> (\<forall>v. nw_version w = Some v \<longrightarrow> plain v \<and> length v \<le> 1000)
     \<and> list_all printable (nw_accounts w) \<and> length (nw_accounts w) < 2 ^ 20"

lemma plain_count: "plain s \<Longrightarrow> count_list s (CHR 0x5B) = 0 \<and> count_list s (CHR 0x5D) = 0"
  by (simp add: plain_def count_list_0_iff)

lemma json_head_text:
  assumes "wallet_printable w"
  shows "length (json_head w) \<le> 2500" and "NUL \<notin> set (json_head w)" and "count_list (json_head w) (CHR 0x5B) = 1" and "count_list (json_head w) (CHR 0x5D) = 0"
proof -
  let ?n = "case nw_name w of Some n \<Rightarrow> n | None \<Rightarrow> []" and ?v = "case nw_version w of Some v \<Rightarrow> v | None \<Rightarrow> []"
  have t: "plain ?n" "plain ?v" "length ?n \<le> 1000" "length ?v \<le> 1000" using assms by (auto simp: wallet_printable_def split: option.split)
  then show "length (json_head w) \<le> 2500"
    using length_show_u32 [of "n6_n (nw_scrypt w)"] length_show_u32 [of "n6_r (nw_scrypt w)"] length_show_u32 [of "n6_p (nw_scrypt w)"]
    by (simp add: json_head_def)
  let ?pre = "''{'' @ nl @ ''  '' @ quote ''name'' @ '': '' @ quote ?n @ '','' @ nl @ ''  '' @ quote ''version'' @ '': '' @ quote ?v @ '','' @ nl @
     ''  '' @ quote ''scrypt'' @ '': {'' @ nl @ ''    '' @ quote ''n'' @ '': '' @ show_nat (unat (n6_n (nw_scrypt w))) @ '','' @ nl @
     ''    '' @ quote ''r'' @ '': '' @ show_nat (unat (n6_r (nw_scrypt w))) @ '','' @ nl @
     ''    '' @ quote ''p'' @ '': '' @ show_nat (unat (n6_p (nw_scrypt w))) @ nl @ ''  },'' @ nl @ ''  '' @ quote ''accounts'' @ '': ''"
  obtain pre where pre: "json_head w = pre @ ''['' @ nl" "plain pre" using t by (intro that [of ?pre]) (simp_all add: json_head_def)
  show "NUL \<notin> set (json_head w)" using pre by (simp add: plain_def nl_def)
  show "count_list (json_head w) (CHR 0x5B) = 1" "count_list (json_head w) (CHR 0x5D) = 0" using pre by (simp_all add: plain_def nl_def)
qed

lemma to_json_text:
  assumes "\<forall>n. A n" and "wallet_printable w" and "\<And>n. length (junk n) = n"
  shows "neoc_nep6_wallet_to_json A junk (Some w)
    = Ok (json_head w @ accounts_text (nw_accounts w) @ json_foot, length (json_head w @ accounts_text (nw_accounts w) @ json_foot))"
proof -
  let ?m = "4096 + length (nw_accounts w) * 512" and ?h = "json_head w" and ?as = "accounts_text (nw_accounts w)"
  note head = json_head_text [OF assms(2)]
  have m: "?m < 2 ^ 31" using assms(2) by (simp add: wallet_printable_def)
  have "length ([] :: string) + length ?h < ?m" using head(1) by simp
  with append_holds [of ?m "[]" "junk ?m" ?h] obtain b1 where b1: "append_text ?h (junk ?m, 0) = Ok (b1, length ?h)" "holds ?m ?h b1"
    using head(2) m assms(3) by auto
  have p: "list_all printable (nw_accounts w)" and r: "length ?h + 512 * length (nw_accounts w) + 10 < ?m"
    using assms(2) head(1) by (simp_all add: wallet_printable_def)
  from print_accounts_hold [OF p b1(2) r m] obtain b2 where
    b2: "print_accounts (nw_accounts w) (b1, length ?h) = Ok (b2, length (?h @ ?as))" "holds ?m (?h @ ?as) b2" "length (?h @ ?as) + 10 < ?m" by blast
  have "length (?h @ ?as) + length json_foot < ?m" using b2(3) length_parts(3) by simp
  with append_holds [of ?m "?h @ ?as" b2 json_foot] obtain b3 where
    b3: "append_text json_foot (b2, length (?h @ ?as)) = Ok (b3, length ((?h @ ?as) @ json_foot))" "holds ?m ((?h @ ?as) @ json_foot) b3"
    using b2(2) m no_nul_parts(3) by blast
  from holds_strlen [OF b3(2)] show ?thesis using assms(1) b1(1) b2(1) b3(1) by (simp add: neoc_nep6_wallet_to_json_def Let_def)
qed

text \<open>Brackets: the list of parameters is closed twice unless the contract is deployed.\<close>

lemma account_text_brackets:
  assumes "printable a"
  shows "count_list (account_text is_last a) (CHR 0x5B) = 1"
    and "count_list (account_text is_last a) (CHR 0x5D) = (if neoc_nep6_contract_is_deployed (na_contract a) then 1 else 2)"
proof -
  let ?u = "case na_label a of None \<Rightarrow> json_account_head a | Some l \<Rightarrow> take (length (json_account_head a) - 6) (json_account_head a) @ quote l @ '','' @ nl"
  have "plain ?u" using assms account_head_plain [OF assms] by (auto simp: printable_def plain_take split: option.split)
  note u = plain_count [OF this]
  have "count_list json_parameters (CHR 0x5B) = 1" "count_list json_parameters (CHR 0x5D) = 1" by (simp_all add: json_parameters_def quote_def nl_def)
  moreover have "count_list (json_account_tail d e) (CHR 0x5B) = 0" "count_list (json_account_tail d e) (CHR 0x5D) = (if d then 0 else 1)" for d e
    by (auto simp: json_account_tail_def quote_def nl_def show_bool_def)
  ultimately show "count_list (account_text is_last a) (CHR 0x5B) = 1"
    and "count_list (account_text is_last a) (CHR 0x5D) = (if neoc_nep6_contract_is_deployed (na_contract a) then 1 else 2)"
    using u by (simp_all add: account_text_def)
qed

lemma accounts_text_brackets:
  "list_all printable as \<Longrightarrow> count_list (accounts_text as) (CHR 0x5D)
    = count_list (accounts_text as) (CHR 0x5B) + length (filter (\<lambda>a. \<not> neoc_nep6_contract_is_deployed (na_contract a)) as)"
  by (induction as) (auto simp: account_text_brackets)

text \<open>Once the offset is behind the buffer, the room that is left wraps around and the next text is written there.\<close>

lemma append_behind:
  assumes "length b < k" and "k < 2 ^ 31"
  shows "append_text s (b, k) = Fault"
proof -
  have "(of_nat k :: size_t) \<noteq> of_nat (length b)"
  proof
    assume "(of_nat k :: size_t) = of_nat (length b)"
    then have "unat (of_nat k :: size_t) = unat (of_nat (length b) :: size_t)" by simp
    then show False using assms by (simp add: unat_of_nat_size)
  qed
  then have "unat (of_nat (length b) - of_nat k :: size_t) \<noteq> 0" by (simp add: unat_eq_0)
  then show ?thesis using assms by (simp add: append_text_def snprintf_at_def put_text_def Let_def)
qed

subsection \<open>Theorems\<close>

text \<open>C39.  For a wallet with texts of moderate length the text is printed without leaving the buffer, and the reported length is its length.  But the
  array of parameters of every account whose contract is not deployed is closed twice: when the texts of the wallet contain no brackets, the printed
  text has one closing bracket too many for each such account, so it is not JSON and cannot be loaded again.\<close>

theorem nep6_json_unbalanced:
  assumes "\<forall>n. A n" and "wallet_printable w" and "\<And>n. length (junk n) = n"
  shows "\<exists>json. neoc_nep6_wallet_to_json A junk (Some w) = Ok (json, length json)
    \<and> count_list json (CHR 0x5D) = count_list json (CHR 0x5B) + length (filter (\<lambda>a. \<not> neoc_nep6_contract_is_deployed (na_contract a)) (nw_accounts w))"
proof -
  have "list_all printable (nw_accounts w)" using assms(2) by (simp add: wallet_printable_def)
  moreover have "count_list json_foot (CHR 0x5B) = 0" "count_list json_foot (CHR 0x5D) = 1" by (simp_all add: json_foot_def nl_def)
  ultimately show ?thesis using to_json_text [OF assms] json_head_text(3,4) [OF assms(2)] accounts_text_brackets [of "nw_accounts w"] by simp
qed

text \<open>C40.  The size of the buffer depends on the number of accounts but not on the length of the name: when the name alone has at least the \<open>4096 + 512 * n\<close>
  characters of the buffer of a wallet of \<open>n\<close> accounts, the text that follows is written behind the buffer, because the room that is left is computed by
  an unsigned subtraction that wraps around.\<close>

theorem nep6_json_overflow:
  assumes "\<forall>n. A n" and "nw_name w = Some name" and "4096 + 512 * length (nw_accounts w) \<le> length name" and "\<And>n. length (junk n) = n"
  shows "neoc_nep6_wallet_to_json A junk (Some w) = Fault"
proof (cases "append_text (json_head w) (junk (4096 + length (nw_accounts w) * 512), 0)")
  case (Ok st)
  let ?k = "length (json_head w)" and ?m = "4096 + length (nw_accounts w) * 512"
  have k: "?m < ?k" using assms(2,3) by (simp add: json_head_def)
  from Ok obtain b where b: "st = (b, ?k)" "?k < 2 ^ 31" "length b = ?m"
    using assms(4) by (auto simp: append_text_def snprintf_at_def put_text_def Let_def bind_r_Ok_iff split: if_splits)
  then have "append_text s st = Fault" for s using k by (simp add: append_behind)
  then show ?thesis using assms(1) Ok by (cases "nw_accounts w") (simp_all add: neoc_nep6_wallet_to_json_def print_account_def Let_def)
next
  case (Err e)
  then show ?thesis by (auto simp: append_text_def snprintf_at_def put_text_def Let_def split: if_splits)
qed (use assms in \<open>simp add: neoc_nep6_wallet_to_json_def Let_def\<close>)

theorem nep6_json_unbalanced_witness:
  "\<exists>json. neoc_nep6_wallet_to_json (\<lambda>_. True) (\<lambda>n. replicate n (CHR 0x2A)) (Some (new_nep6_wallet\<lparr>nw_accounts := [demo_nep6_account []]\<rparr>)) = Ok (json, length json)
     \<and> count_list json (CHR 0x5D) = count_list json (CHR 0x5B) + 1"
proof -
  have "wallet_printable (new_nep6_wallet\<lparr>nw_accounts := [demo_nep6_account []]\<rparr>)"
    by (simp add: wallet_printable_def printable_def new_nep6_wallet_def demo_nep6_account_def)
  from nep6_json_unbalanced [OF _ this, of "\<lambda>_. True" "\<lambda>n. replicate n (CHR 0x2A)"] show ?thesis
    by (simp add: demo_nep6_account_def neoc_nep6_contract_is_deployed_def)
qed

theorem nep6_json_overflow_witness:
  "neoc_nep6_wallet_to_json (\<lambda>_. True) (\<lambda>n. replicate n (CHR 0x2A))
     (Some (new_nep6_wallet\<lparr>nw_name := Some (replicate 5000 (CHR 0x61)), nw_accounts := [demo_nep6_account []]\<rparr>)) = Fault"
  by (rule nep6_json_overflow [where name = "replicate 5000 (CHR 0x61)"]) (simp_all add: new_nep6_wallet_def)

end
