(* ===== verification/Witness_Scope.thy ===== *)
theory Witness_Scope
  imports NeoC_Prelude
begin

text \<open>
  \<^verbatim>\<open>src/transaction/witness_scope.c\<close> (repeated line for line in \<^verbatim>\<open>witness_scope_impl.c\<close>).  A scope is a value of a
  C enumeration, a 32-bit integer of which six values have a name; a combination of scopes is one byte.
\<close>

type_synonym neoc_witness_scope = u32

definition NEOC_WITNESS_SCOPE_NONE :: neoc_witness_scope where "NEOC_WITNESS_SCOPE_NONE = 0x00"
definition NEOC_WITNESS_SCOPE_CALLED_BY_ENTRY :: neoc_witness_scope where "NEOC_WITNESS_SCOPE_CALLED_BY_ENTRY = 0x01"
definition NEOC_WITNESS_SCOPE_CUSTOM_CONTRACTS :: neoc_witness_scope where "NEOC_WITNESS_SCOPE_CUSTOM_CONTRACTS = 0x10"
definition NEOC_WITNESS_SCOPE_CUSTOM_GROUPS :: neoc_witness_scope where "NEOC_WITNESS_SCOPE_CUSTOM_GROUPS = 0x20"
definition NEOC_WITNESS_SCOPE_WITNESS_RULES :: neoc_witness_scope where "NEOC_WITNESS_SCOPE_WITNESS_RULES = 0x40"
definition NEOC_WITNESS_SCOPE_GLOBAL :: neoc_witness_scope where "NEOC_WITNESS_SCOPE_GLOBAL = 0x80"

lemmas scope_values = NEOC_WITNESS_SCOPE_NONE_def NEOC_WITNESS_SCOPE_CALLED_BY_ENTRY_def
  NEOC_WITNESS_SCOPE_CUSTOM_CONTRACTS_def NEOC_WITNESS_SCOPE_CUSTOM_GROUPS_def
  NEOC_WITNESS_SCOPE_WITNESS_RULES_def NEOC_WITNESS_SCOPE_GLOBAL_def

definition neoc_witness_scope_to_json :: "neoc_witness_scope \<Rightarrow> string" where
  "neoc_witness_scope_to_json scope =
     (if scope = NEOC_WITNESS_SCOPE_NONE then ''None''
      else if scope = NEOC_WITNESS_SCOPE_CALLED_BY_ENTRY then ''CalledByEntry''
      else if scope = NEOC_WITNESS_SCOPE_CUSTOM_CONTRACTS then ''CustomContracts''
      else if scope = NEOC_WITNESS_SCOPE_CUSTOM_GROUPS then ''CustomGroups''
      else if scope = NEOC_WITNESS_SCOPE_WITNESS_RULES then ''WitnessRules''
      else if scope = NEOC_WITNESS_SCOPE_GLOBAL then ''Global''
      else ''Unknown'')"

definition neoc_witness_scope_from_json :: "string option \<Rightarrow> neoc_witness_scope result" where
  "neoc_witness_scope_from_json json =
     (case json of
        None \<Rightarrow> Err NEOC_ERROR_INVALID_ARGUMENT
      | Some s \<Rightarrow>
          if s = ''None'' then Ok NEOC_WITNESS_SCOPE_NONE
          else if s = ''CalledByEntry'' then Ok NEOC_WITNESS_SCOPE_CALLED_BY_ENTRY
          else if s = ''CustomContracts'' then Ok NEOC_WITNESS_SCOPE_CUSTOM_CONTRACTS
          else if s = ''CustomGroups'' then Ok NEOC_WITNESS_SCOPE_CUSTOM_GROUPS
          else if s = ''WitnessRules'' then Ok NEOC_WITNESS_SCOPE_WITNESS_RULES
          else if s = ''Global'' then Ok NEOC_WITNESS_SCOPE_GLOBAL
          else Err NEOC_ERROR_INVALID_FORMAT)"

definition neoc_witness_scope_combine :: "neoc_witness_scope list option \<Rightarrow> byte" where
  "neoc_witness_scope_combine scopes =
     (case scopes of None \<Rightarrow> 0 | Some ss \<Rightarrow> foldl (\<lambda>combined s. combined OR ucast s) 0 ss)"

definition all_scopes :: "neoc_witness_scope list" where
  "all_scopes = [NEOC_WITNESS_SCOPE_CALLED_BY_ENTRY, NEOC_WITNESS_SCOPE_CUSTOM_CONTRACTS,
     NEOC_WITNESS_SCOPE_CUSTOM_GROUPS, NEOC_WITNESS_SCOPE_WITNESS_RULES, NEOC_WITNESS_SCOPE_GLOBAL]"

definition neoc_witness_scope_has :: "byte \<Rightarrow> neoc_witness_scope \<Rightarrow> bool" where
  "neoc_witness_scope_has combined scope \<longleftrightarrow> (ucast combined :: u32) AND scope \<noteq> 0"

text \<open>The loop over the known scopes; \<open>out\<close> is what has been stored so far.\<close>

fun extract_loop :: "byte \<Rightarrow> nat \<Rightarrow> neoc_witness_scope list \<Rightarrow> (neoc_witness_scope list, unit) cmd" where
  "extract_loop combined max_count [] out = (Ok (), out)"
| "extract_loop combined max_count (s # ss) out =
     (if (ucast combined :: u32) AND s \<noteq> 0 then
        if max_count \<le> length out then (Err NEOC_ERROR_BUFFER_TOO_SMALL, out)
        else extract_loop combined max_count ss (out @ [s])
      else extract_loop combined max_count ss out)"

definition neoc_witness_scope_extract :: "byte \<Rightarrow> nat \<Rightarrow> unit result \<times> neoc_witness_scope list" where
  "neoc_witness_scope_extract combined max_count =
     (if max_count = 0 then (Err NEOC_ERROR_INVALID_ARGUMENT, [])
      else if (ucast combined :: u32) = NEOC_WITNESS_SCOPE_NONE then (Ok (), [NEOC_WITNESS_SCOPE_NONE])
      else extract_loop combined max_count all_scopes [])"

definition neoc_witness_scope_is_valid :: "neoc_witness_scope \<Rightarrow> bool" where
  "neoc_witness_scope_is_valid scope \<longleftrightarrow>
     scope = NEOC_WITNESS_SCOPE_NONE \<or> scope = NEOC_WITNESS_SCOPE_CALLED_BY_ENTRY
     \<or> scope = NEOC_WITNESS_SCOPE_CUSTOM_CONTRACTS \<or> scope = NEOC_WITNESS_SCOPE_CUSTOM_GROUPS
     \<or> scope = NEOC_WITNESS_SCOPE_WITNESS_RULES \<or> scope = NEOC_WITNESS_SCOPE_GLOBAL"

subsection \<open>Lemmas\<close>

lemma extract_loop_enough:
  "length out + length ss \<le> max_count \<Longrightarrow>
     extract_loop b max_count ss out = (Ok (), out @ filter (neoc_witness_scope_has b) ss)"
  by (induction ss arbitrary: out) (auto simp: neoc_witness_scope_has_def)

text \<open>A scope flag of a combination is one bit of the byte.\<close>

lemma has_scope_bit: "n < 8 \<Longrightarrow> neoc_witness_scope_has b (2 ^ n) \<longleftrightarrow> bit b n"
  by (simp add: neoc_witness_scope_has_def and_exp_eq_0_iff_not_bit bit_simps)

lemma scope_bits:
  "neoc_witness_scope_has b NEOC_WITNESS_SCOPE_CALLED_BY_ENTRY \<longleftrightarrow> bit b 0"
  "neoc_witness_scope_has b NEOC_WITNESS_SCOPE_CUSTOM_CONTRACTS \<longleftrightarrow> bit b 4"
  "neoc_witness_scope_has b NEOC_WITNESS_SCOPE_CUSTOM_GROUPS \<longleftrightarrow> bit b 5"
  "neoc_witness_scope_has b NEOC_WITNESS_SCOPE_WITNESS_RULES \<longleftrightarrow> bit b 6"
  "neoc_witness_scope_has b NEOC_WITNESS_SCOPE_GLOBAL \<longleftrightarrow> bit b 7"
  using has_scope_bit [of 0 b] has_scope_bit [of 4 b] has_scope_bit [of 5 b] has_scope_bit [of 6 b] has_scope_bit [of 7 b]
  by (simp_all add: scope_values)

lemma bit_combine:
  "bit (foldl (\<lambda>combined s. combined OR ucast (s :: u32)) (c :: byte) ss) n \<longleftrightarrow> bit c n \<or> (n < 8 \<and> (\<exists>s\<in>set ss. bit s n))"
  by (induction ss arbitrary: c) (auto simp: bit_simps)

text \<open>Extracting the scopes of a byte and combining them again gives the byte without its three unused bits, and each
  extracted scope is a valid one whose JSON name is read back as the scope.\<close>

theorem scope_extract_combine:
  assumes "5 \<le> max_count"
  shows "\<exists>ss. neoc_witness_scope_extract b max_count = (Ok (), ss)
    \<and> neoc_witness_scope_combine (Some ss) = b AND 0xF1
    \<and> list_all neoc_witness_scope_is_valid ss
    \<and> list_all (\<lambda>s. neoc_witness_scope_from_json (Some (neoc_witness_scope_to_json s)) = Ok s) ss"
proof (cases "b = 0")
  case True
  then have "neoc_witness_scope_extract b max_count = (Ok (), [0])"
    using assms by (simp add: neoc_witness_scope_extract_def scope_values)
  then show ?thesis
    using True by (simp add: neoc_witness_scope_combine_def neoc_witness_scope_is_valid_def neoc_witness_scope_from_json_def
        neoc_witness_scope_to_json_def scope_values)
next
  case False
  let ?ss = "filter (neoc_witness_scope_has b) all_scopes"
  have "(ucast b :: u32) \<noteq> 0" using False ucast_up_inj [of b 0, where ?'b = 32] by auto
  then have "neoc_witness_scope_extract b max_count = (Ok (), ?ss)"
    using assms extract_loop_enough [of "[]" all_scopes max_count b]
    by (simp add: neoc_witness_scope_extract_def NEOC_WITNESS_SCOPE_NONE_def all_scopes_def)
  moreover have "neoc_witness_scope_combine (Some ?ss) = b AND 0xF1"
  proof (rule bit_word_eqI)
    fix n
    assume "n < LENGTH(8)"
    then have "n \<in> {0, 1, 2, 3, 4, 5, 6, 7}" by auto
    then show "bit (neoc_witness_scope_combine (Some ?ss)) n = bit (b AND 0xF1) n"
      unfolding neoc_witness_scope_combine_def option.case bit_combine
      by (elim insertE emptyE) (simp_all add: all_scopes_def scope_bits [unfolded scope_values] scope_values bit_and_iff)
  qed
  moreover have "neoc_witness_scope_is_valid s \<and> neoc_witness_scope_from_json (Some (neoc_witness_scope_to_json s)) = Ok s"
    if "s \<in> set all_scopes" for s
    using that by (auto simp: all_scopes_def neoc_witness_scope_is_valid_def neoc_witness_scope_from_json_def
        neoc_witness_scope_to_json_def scope_values)
  ultimately show ?thesis by (auto simp: list_all_iff)
qed

theorem scope_extract_combine_witness:
  "\<exists>ss. neoc_witness_scope_extract 0x31 8 = (Ok (), ss) \<and> neoc_witness_scope_combine (Some ss) = 0x31"
  using scope_extract_combine [of 8 "0x31"] by auto

end
