(* ===== verification/Signer.thy ===== *)
theory Signer
  imports Witness_Scope Witness_Condition
begin

text \<open>
  \<^verbatim>\<open>src/transaction/signer.c\<close>.  The counted arrays of the structure are lists; the pointer of an array is null exactly when
  the list is empty.  The array of group keys and the array of their sizes can be left dangling by an
  allocation failure: \<open>groups_live\<close> and \<open>sizes_live\<close> tell whether the two pointers still point to their blocks, and any
  use of a dangling pointer is a fault.
\<close>

record neoc_signer =
  sg_account :: neoc_hash160
  sg_scopes :: byte
  allowed_contracts :: "neoc_hash160 list"
  allowed_groups :: "byte list list"
  groups_live :: bool
  sizes_live :: bool
  sg_rules :: "neoc_witness_rule option list"

definition NEOC_MAX_SIGNER_SUBITEMS :: nat where "NEOC_MAX_SIGNER_SUBITEMS = 16"
definition sizeof_signer :: nat where "sizeof_signer = 80"

abbreviation "has_scope s flag \<equiv> neoc_witness_scope_has (sg_scopes s) flag"

definition neoc_signer_create :: "allocator \<Rightarrow> neoc_hash160 option \<Rightarrow> byte \<Rightarrow> neoc_signer result" where
  "neoc_signer_create A account scopes =
     (case account of
        None \<Rightarrow> Err NEOC_ERROR_INVALID_ARGUMENT
      | Some h \<Rightarrow>
          bind_r (malloc_r A sizeof_signer) (\<lambda>_.
            Ok \<lparr>sg_account = h, sg_scopes = scopes, allowed_contracts = [], allowed_groups = [],
                groups_live = True, sizes_live = True, sg_rules = []\<rparr>))"

definition neoc_signer_create_global :: "allocator \<Rightarrow> neoc_hash160 option \<Rightarrow> neoc_signer result" where
  "neoc_signer_create_global A account = neoc_signer_create A account (ucast NEOC_WITNESS_SCOPE_GLOBAL)"

definition neoc_signer_create_called_by_entry :: "allocator \<Rightarrow> neoc_hash160 option \<Rightarrow> neoc_signer result" where
  "neoc_signer_create_called_by_entry A account = neoc_signer_create A account (ucast NEOC_WITNESS_SCOPE_CALLED_BY_ENTRY)"

definition neoc_signer_add_allowed_contract :: "allocator \<Rightarrow> neoc_hash160 option \<Rightarrow> (neoc_signer, unit) cmd" where
  "neoc_signer_add_allowed_contract A contract s =
     (case contract of
        None \<Rightarrow> (Err NEOC_ERROR_INVALID_ARGUMENT, s)
      | Some c \<Rightarrow>
          if has_scope s NEOC_WITNESS_SCOPE_GLOBAL then (Err NEOC_ERROR_INVALID_STATE, s)
          else if NEOC_MAX_SIGNER_SUBITEMS \<le> length (allowed_contracts s) then (Err NEOC_ERROR_INVALID_SIZE, s)
          else
            let s1 = s\<lparr>sg_scopes := sg_scopes s OR ucast NEOC_WITNESS_SCOPE_CUSTOM_CONTRACTS\<rparr>;
                new_count = length (allowed_contracts s) + 1
            in if \<not> A (new_count * NEOC_HASH160_SIZE) then (Err NEOC_ERROR_MEMORY, s1)
               else (Ok (), s1\<lparr>allowed_contracts := allowed_contracts s @ [c]\<rparr>))"

text \<open>
  The three requests of this function have allocators of their own, since two of them ask for the same size and
  may be answered differently.  \<open>moves_groups\<close> and \<open>moves_sizes\<close> tell whether \<^verbatim>\<open>realloc\<close> returns another address for the block it
  grows; the old block is then gone.  On failure the new block is freed but the old pointer stays in
  the signer; a null pointer, the one of an empty array, is not a pointer to a block.
\<close>

definition neoc_signer_add_allowed_group ::
  "allocator \<Rightarrow> allocator \<Rightarrow> allocator \<Rightarrow> bool \<Rightarrow> bool \<Rightarrow> byte list option \<Rightarrow> (neoc_signer, unit) cmd" where
  "neoc_signer_add_allowed_group A_groups A_sizes A_key moves_groups moves_sizes group_pubkey s =
     (case group_pubkey of
        None \<Rightarrow> (Err NEOC_ERROR_INVALID_ARGUMENT, s)
      | Some key \<Rightarrow>
          if key = [] then (Err NEOC_ERROR_INVALID_ARGUMENT, s)
          else if has_scope s NEOC_WITNESS_SCOPE_GLOBAL then (Err NEOC_ERROR_INVALID_STATE, s)
          else if NEOC_MAX_SIGNER_SUBITEMS \<le> length (allowed_groups s) then (Err NEOC_ERROR_INVALID_SIZE, s)
          else
            let s1 = s\<lparr>sg_scopes := sg_scopes s OR ucast NEOC_WITNESS_SCOPE_CUSTOM_GROUPS\<rparr>;
                new_count = length (allowed_groups s) + 1;
                block = (allowed_groups s \<noteq> []);
                gone_groups = (block \<and> moves_groups);
                gone_sizes = (block \<and> moves_sizes)
            in if \<not> groups_live s then (Fault, s1)
               else if \<not> A_groups (new_count * 8) then (Err NEOC_ERROR_MEMORY, s1)
               else if \<not> sizes_live s then (Fault, s1)
               else if \<not> A_sizes (new_count * 8) then (Err NEOC_ERROR_MEMORY, s1\<lparr>groups_live := \<not> gone_groups\<rparr>)
               else if \<not> A_key (length key) then
                 (Err NEOC_ERROR_MEMORY, s1\<lparr>groups_live := \<not> gone_groups, sizes_live := \<not> gone_sizes\<rparr>)
               else (Ok (), s1\<lparr>allowed_groups := allowed_groups s @ [key]\<rparr>))"

definition neoc_signer_has_global_scope :: "neoc_signer option \<Rightarrow> bool" where
  "neoc_signer_has_global_scope signer = (case signer of None \<Rightarrow> False | Some s \<Rightarrow> has_scope s NEOC_WITNESS_SCOPE_GLOBAL)"

definition neoc_signer_has_called_by_entry_scope :: "neoc_signer option \<Rightarrow> bool" where
  "neoc_signer_has_called_by_entry_scope signer =
     (case signer of None \<Rightarrow> False | Some s \<Rightarrow> has_scope s NEOC_WITNESS_SCOPE_CALLED_BY_ENTRY)"

definition neoc_signer_has_custom_contracts_scope :: "neoc_signer option \<Rightarrow> bool" where
  "neoc_signer_has_custom_contracts_scope signer =
     (case signer of None \<Rightarrow> False | Some s \<Rightarrow> has_scope s NEOC_WITNESS_SCOPE_CUSTOM_CONTRACTS)"

definition neoc_signer_has_custom_groups_scope :: "neoc_signer option \<Rightarrow> bool" where
  "neoc_signer_has_custom_groups_scope signer =
     (case signer of None \<Rightarrow> False | Some s \<Rightarrow> has_scope s NEOC_WITNESS_SCOPE_CUSTOM_GROUPS)"

definition neoc_signer_get_size :: "neoc_signer option \<Rightarrow> nat result" where
  "neoc_signer_get_size signer =
     (case signer of
        None \<Rightarrow> Ok 0
      | Some s \<Rightarrow>
          if has_scope s NEOC_WITNESS_SCOPE_CUSTOM_GROUPS \<and> allowed_groups s \<noteq> [] \<and> \<not> sizes_live s then Fault
          else Ok (20 + 1
            + (if has_scope s NEOC_WITNESS_SCOPE_CUSTOM_CONTRACTS then 1 + length (allowed_contracts s) * 20 else 0)
            + (if has_scope s NEOC_WITNESS_SCOPE_CUSTOM_GROUPS then 1 + sum_list (map (\<lambda>g. 1 + length g) (allowed_groups s)) else 0)
            + (if has_scope s NEOC_WITNESS_SCOPE_WITNESS_RULES then 1 else 0)))"

definition copy_contracts :: "allocator \<Rightarrow> neoc_hash160 list \<Rightarrow> neoc_hash160 list result" where
  "copy_contracts A cs = (if cs = [] then Ok [] else bind_r (malloc_r A (length cs * 20)) (\<lambda>_. Ok cs))"

definition copy_groups :: "allocator \<Rightarrow> neoc_signer \<Rightarrow> byte list list result" where
  "copy_groups A s =
     (if allowed_groups s = [] then Ok []
      else
        bind_r (malloc_r A (length (allowed_groups s) * 8)) (\<lambda>_.
          if \<not> groups_live s \<or> \<not> sizes_live s then Fault
          else map_r (\<lambda>g. bind_r (malloc_r A (length g)) (\<lambda>_. Ok g)) (allowed_groups s)))"

definition copy_rule :: "allocator \<Rightarrow> curve \<Rightarrow> neoc_witness_rule option \<Rightarrow> neoc_witness_rule option result" where
  "copy_rule A K rule =
     (case rule of
        None \<Rightarrow> Ok None
      | Some r \<Rightarrow> bind_r (neoc_witness_rule_clone A K (Some r)) (\<lambda>r'. Ok (Some r')))"

definition copy_rules :: "allocator \<Rightarrow> curve \<Rightarrow> neoc_witness_rule option list \<Rightarrow> neoc_witness_rule option list result" where
  "copy_rules A K rs =
     (if rs = [] then Ok [] else bind_r (malloc_r A (length rs * 8)) (\<lambda>_. map_r (copy_rule A K) rs))"

definition neoc_signer_copy :: "allocator \<Rightarrow> curve \<Rightarrow> neoc_signer option \<Rightarrow> neoc_signer result" where
  "neoc_signer_copy A K source =
     (case source of
        None \<Rightarrow> Err NEOC_ERROR_INVALID_ARGUMENT
      | Some s \<Rightarrow>
          bind_r (malloc_r A sizeof_signer) (\<lambda>_.
          bind_r (copy_contracts A (allowed_contracts s)) (\<lambda>contracts.
          bind_r (copy_groups A s) (\<lambda>groups.
          bind_r (copy_rules A K (sg_rules s)) (\<lambda>rules.
            Ok \<lparr>sg_account = sg_account s, sg_scopes = sg_scopes s, allowed_contracts = contracts,
                allowed_groups = groups, groups_live = True, sizes_live = True, sg_rules = rules\<rparr>)))))"

definition neoc_signer_get_account :: "neoc_signer option \<Rightarrow> neoc_hash160 result" where
  "neoc_signer_get_account signer =
     (case signer of None \<Rightarrow> Err NEOC_ERROR_INVALID_ARGUMENT | Some s \<Rightarrow> Ok (sg_account s))"

definition write_hash :: "allocator \<Rightarrow> neoc_hash160 \<Rightarrow> (neoc_binary_writer, unit) cmd" where
  "write_hash A h = neoc_binary_writer_write_bytes A (Some h) (of_nat NEOC_HASH160_SIZE)"

definition write_group :: "allocator \<Rightarrow> neoc_signer \<Rightarrow> byte list \<Rightarrow> (neoc_binary_writer, unit) cmd" where
  "write_group A s g =
     (if \<not> groups_live s \<or> \<not> sizes_live s then lift_c Fault
      else neoc_binary_writer_write_var_bytes A (Some g) (of_nat (length g)))"

text \<open>The action is written as its enumeration value, which is what \<^verbatim>\<open>neoc_witness_action_get_byte\<close> computes too.\<close>

definition write_signer_rule :: "allocator \<Rightarrow> neoc_witness_rule option \<Rightarrow> (neoc_binary_writer, unit) cmd" where
  "write_signer_rule A rule =
     (case rule of None \<Rightarrow> fail_c NEOC_ERROR_INVALID_ARGUMENT | Some r \<Rightarrow> write_rule A r)"

definition write_if :: "bool \<Rightarrow> (neoc_binary_writer, unit) cmd \<Rightarrow> (neoc_binary_writer, unit) cmd" where
  "write_if b m = (if b then m else return_c ())"

definition neoc_signer_serialize :: "allocator \<Rightarrow> neoc_signer option \<Rightarrow> (neoc_binary_writer, unit) cmd" where
  "neoc_signer_serialize A signer =
     (case signer of
        None \<Rightarrow> fail_c NEOC_ERROR_INVALID_ARGUMENT
      | Some s \<Rightarrow>
          then_c (write_hash A (sg_account s))
         (then_c (neoc_binary_writer_write_byte A (sg_scopes s))
         (then_c (write_if (has_scope s NEOC_WITNESS_SCOPE_CUSTOM_CONTRACTS)
            (then_c (neoc_binary_writer_write_var_int A (of_nat (length (allowed_contracts s))))
               (foreach_c (write_hash A) (allowed_contracts s))))
         (then_c (write_if (has_scope s NEOC_WITNESS_SCOPE_CUSTOM_GROUPS)
            (then_c (neoc_binary_writer_write_var_int A (of_nat (length (allowed_groups s))))
               (foreach_c (write_group A s) (allowed_groups s))))
         (write_if (has_scope s NEOC_WITNESS_SCOPE_WITNESS_RULES)
            (then_c (neoc_binary_writer_write_var_int A (of_nat (length (sg_rules s))))
               (foreach_c (write_signer_rule A) (sg_rules s))))))))"

subsection \<open>The invariant\<close>

text \<open>
  A signer has at most sixteen contracts and sixteen groups; having some, it has their scope and not
  the global one.
\<close>

definition signer_inv :: "neoc_signer \<Rightarrow> bool" where
  "signer_inv s \<longleftrightarrow>
     length (sg_account s) = 20
     \<and> length (allowed_contracts s) \<le> 16 \<and> list_all (\<lambda>c. length c = 20) (allowed_contracts s)
     \<and> length (allowed_groups s) \<le> 16 \<and> list_all (\<lambda>g. g \<noteq> []) (allowed_groups s)
     \<and> (allowed_contracts s \<noteq> [] \<longrightarrow> bit (sg_scopes s) 4) \<and> (allowed_groups s \<noteq> [] \<longrightarrow> bit (sg_scopes s) 5)
     \<and> (bit (sg_scopes s) 7 \<longrightarrow> allowed_contracts s = [] \<and> allowed_groups s = [])"

text \<open>The signers a client can build: created, then extended by any calls, whatever they return.\<close>

inductive signer_built :: "neoc_signer \<Rightarrow> bool" where
  created: "length h = 20 \<Longrightarrow> neoc_signer_create A (Some h) scopes = Ok s \<Longrightarrow> signer_built s"
| contract_added: "signer_built s \<Longrightarrow> (\<And>c. contract = Some c \<Longrightarrow> length c = 20) \<Longrightarrow>
    neoc_signer_add_allowed_contract A contract s = (res, s') \<Longrightarrow> signer_built s'"
| group_added: "signer_built s \<Longrightarrow>
    neoc_signer_add_allowed_group A1 A2 A3 m1 m2 group_pubkey s = (res, s') \<Longrightarrow> signer_built s'"

lemma bit_scope_byte [simp]:
  "bit (sc OR (ucast NEOC_WITNESS_SCOPE_CUSTOM_CONTRACTS) :: byte) n \<longleftrightarrow> bit sc n \<or> n = 4"
  "bit (sc OR (ucast NEOC_WITNESS_SCOPE_CUSTOM_GROUPS) :: byte) n \<longleftrightarrow> bit sc n \<or> n = 5"
proof -
  have "(ucast NEOC_WITNESS_SCOPE_CUSTOM_CONTRACTS :: byte) = 2 ^ 4" "(ucast NEOC_WITNESS_SCOPE_CUSTOM_GROUPS :: byte) = 2 ^ 5"
    by (simp_all add: scope_values)
  then show "bit (sc OR (ucast NEOC_WITNESS_SCOPE_CUSTOM_CONTRACTS) :: byte) n \<longleftrightarrow> bit sc n \<or> n = 4"
    "bit (sc OR (ucast NEOC_WITNESS_SCOPE_CUSTOM_GROUPS) :: byte) n \<longleftrightarrow> bit sc n \<or> n = 5"
    by (auto simp del: power_numeral simp: bit_or_iff bit_exp_iff)
qed

lemma contract_keeps_inv:
  "signer_inv s \<Longrightarrow> (\<And>c. contract = Some c \<Longrightarrow> length c = 20) \<Longrightarrow>
     signer_inv (snd (neoc_signer_add_allowed_contract A contract s))"
  by (auto simp: neoc_signer_add_allowed_contract_def signer_inv_def scope_bits NEOC_MAX_SIGNER_SUBITEMS_def Let_def
      split: option.split)

lemma group_keeps_inv:
  "signer_inv s \<Longrightarrow> signer_inv (snd (neoc_signer_add_allowed_group A1 A2 A3 m1 m2 group_pubkey s))"
  by (auto simp: neoc_signer_add_allowed_group_def signer_inv_def scope_bits NEOC_MAX_SIGNER_SUBITEMS_def Let_def
      split: option.split)

subsection \<open>The binary form\<close>

definition signer_ok :: "curve \<Rightarrow> neoc_signer \<Rightarrow> bool" where
  "signer_ok K s \<longleftrightarrow>
     signer_inv s \<and> groups_live s \<and> sizes_live s \<and> list_all (\<lambda>g. length g < 2 ^ 50) (allowed_groups s)
     \<and> length (sg_rules s) < 2 ^ 40 \<and> list_all (on_ptr (rule_ok K)) (sg_rules s)
     \<and> (sg_rules s \<noteq> [] \<longrightarrow> bit (sg_scopes s) 6)"

definition enc_if :: "bool \<Rightarrow> byte list \<Rightarrow> byte list" where
  "enc_if b bs = (if b then bs else [])"

definition enc_signer :: "neoc_signer \<Rightarrow> byte list" where
  "enc_signer s =
     sg_account s @ [sg_scopes s]
     @ enc_if (bit (sg_scopes s) 4) (enc_list (\<lambda>c. c) (allowed_contracts s))
     @ enc_if (bit (sg_scopes s) 5) (enc_list enc_var_bytes (allowed_groups s))
     @ enc_if (bit (sg_scopes s) 6) (enc_list (enc_ptr enc_rule) (sg_rules s))"

lemma writes_if: "(b \<Longrightarrow> writes A m bs) \<Longrightarrow> writes A (write_if b m) (enc_if b bs)"
  by (simp add: write_if_def enc_if_def writes_return)

lemma writes_signer:
  assumes ok: "signer_ok K s" and A: "grants A 128"
  shows "writes A (neoc_signer_serialize A (Some s)) (enc_signer s)"
proof -
  have "writes A (write_hash A h) h" if "length h = 20" for h
    unfolding write_hash_def using that by (rule writes_hash)
  moreover have "writes A (write_group A s g) (enc_var_bytes g)" if "g \<in> set (allowed_groups s)" for g
    using that ok by (auto simp: write_group_def signer_ok_def list_all_iff intro!: writes_write_var_bytes)
  moreover have "writes A (write_signer_rule A r) (enc_ptr enc_rule r)" if "r \<in> set (sg_rules s)" for r
    using that ok A by (auto simp: write_signer_rule_def signer_ok_def list_all_iff dest!: bspec
        elim!: on_ptrE intro: rule_codec.object_wr)
  ultimately show ?thesis
    unfolding neoc_signer_serialize_def option.case enc_signer_def scope_bits
    by (intro writes_then writes_write_byte writes_if writes_list) (use ok in \<open>auto simp: signer_ok_def signer_inv_def list_all_iff\<close>)
qed

lemma prefix_free_rule_ptr: "prefix_free (on_ptr (rule_ok K)) (enc_ptr enc_rule)"
  by (rule prefix_free_ptr, rule rule_codec.prefix_free) simp

text \<open>Optional parts that are present together.\<close>

lemma prefix_free_ifD:
  assumes "prefix_free ok enc" and "enc_if b (enc x) @ bs = enc_if b (enc y) @ cs" and "length (enc_if b (enc x) @ bs) < 2 ^ 63"
    and "b \<Longrightarrow> ok x" and "b \<Longrightarrow> ok y"
  shows "(b \<longrightarrow> x = y) \<and> bs = cs"
proof (cases b)
  case True
  then show ?thesis using prefix_freeD [OF assms(1), of x y bs cs] assms by (simp add: enc_if_def)
qed (use assms in \<open>simp add: enc_if_def\<close>)

lemma signer_ok_lists:
  assumes "signer_ok K s"
  shows "length (allowed_contracts s) < 2 ^ 64 \<and> list_all (\<lambda>c. length c = 20) (allowed_contracts s)"
    and "length (allowed_groups s) < 2 ^ 64 \<and> list_all (\<lambda>g. length g < 2 ^ 62) (allowed_groups s)"
    and "length (sg_rules s) < 2 ^ 64 \<and> list_all (on_ptr (rule_ok K)) (sg_rules s)"
proof -
  have "length g < 2 ^ 62" if "g \<in> set (allowed_groups s)" for g
    using assms that by (fastforce simp: signer_ok_def list_all_iff)
  then show "length (allowed_groups s) < 2 ^ 64 \<and> list_all (\<lambda>g. length g < 2 ^ 62) (allowed_groups s)"
    using assms by (simp add: signer_ok_def signer_inv_def list_all_iff)
qed (use assms in \<open>simp_all add: signer_ok_def signer_inv_def\<close>)

lemma prefix_free_signer: "prefix_free (signer_ok K) enc_signer"
  unfolding prefix_free_def
proof (intro allI impI)
  fix s t bs cs
  assume s: "signer_ok K s" and t: "signer_ok K t" and eq: "enc_signer s @ bs = enc_signer t @ cs"
    and len: "length (enc_signer s @ bs) < 2 ^ 63"
  note [simp] = enc_signer_def
  let ?b = "bit (sg_scopes s)"
  let ?g = "\<lambda>s bs. enc_if (?b 5) (enc_list enc_var_bytes (allowed_groups s)) @ enc_if (?b 6) (enc_list (enc_ptr enc_rule) (sg_rules s)) @ bs"
  let ?r = "\<lambda>s bs. enc_if (?b 6) (enc_list (enc_ptr enc_rule) (sg_rules s)) @ bs"
  have "length (sg_account s) = length (sg_account t)" using s t by (simp add: signer_ok_def signer_inv_def)
  then have acc: "sg_account s = sg_account t" and sc: "sg_scopes t = sg_scopes s"
    and e1: "enc_if (?b 4) (enc_list (\<lambda>c. c) (allowed_contracts s)) @ ?g s bs
      = enc_if (?b 4) (enc_list (\<lambda>c. c) (allowed_contracts t)) @ ?g t cs"
    using eq by (auto simp: append_eq_append_conv)
  have l1: "length (enc_if (?b 4) (enc_list (\<lambda>c. c) (allowed_contracts s)) @ ?g s bs) < 2 ^ 63" using len by simp
  have c: "(?b 4 \<longrightarrow> allowed_contracts s = allowed_contracts t) \<and> ?g s bs = ?g t cs"
    by (rule prefix_free_ifD [OF prefix_free_list [OF prefix_free_fixed [of 20]] e1 l1])
       (use signer_ok_lists [OF s] signer_ok_lists [OF t] in simp_all)
  have g: "(?b 5 \<longrightarrow> allowed_groups s = allowed_groups t) \<and> ?r s bs = ?r t cs"
    by (rule prefix_free_ifD [OF prefix_free_list [OF prefix_free_var_bytes] c [THEN conjunct2]])
       (use signer_ok_lists [OF s] signer_ok_lists [OF t] len in simp_all)
  have r: "(?b 6 \<longrightarrow> sg_rules s = sg_rules t) \<and> bs = cs"
    by (rule prefix_free_ifD [OF prefix_free_list [OF prefix_free_rule_ptr [of K]] g [THEN conjunct2]])
       (use signer_ok_lists [OF s] signer_ok_lists [OF t] len in simp_all)
  have empty: "\<not> ?b 4 \<Longrightarrow> allowed_contracts u = []" "\<not> ?b 5 \<Longrightarrow> allowed_groups u = []" "\<not> ?b 6 \<Longrightarrow> sg_rules u = []"
    if "signer_ok K u" "sg_scopes u = sg_scopes s" for u
    using that by (auto simp: signer_ok_def signer_inv_def)
  have "allowed_contracts s = allowed_contracts t" "allowed_groups s = allowed_groups t" "sg_rules s = sg_rules t"
    using c g r empty [OF s refl] empty [OF t sc] by metis+
  with acc sc r s t show "s = t \<and> bs = cs" by (simp add: signer_ok_def)
qed

text \<open>What \<^verbatim>\<open>neoc_signer_get_size\<close> leaves out: it takes every length prefix for one byte, and rules for nothing.\<close>

definition uncounted :: "neoc_signer \<Rightarrow> nat" where
  "uncounted s =
     (if bit (sg_scopes s) 5 then sum_list (map (\<lambda>g. neoc_var_int_size (of_nat (length g)) - 1) (allowed_groups s)) else 0)
     + (if bit (sg_scopes s) 6 then neoc_var_int_size (of_nat (length (sg_rules s))) - 1
          + sum_list (map (\<lambda>r. length (enc_ptr enc_rule r)) (sg_rules s)) else 0)"

lemma var_int_size_pos: "1 \<le> neoc_var_int_size v"
  by (simp add: neoc_var_int_size_def)

lemma length_enc_list: "length (enc_list enc xs) = neoc_var_int_size (of_nat (length xs)) + sum_list (map (\<lambda>x. length (enc x)) xs)"
  by (simp add: enc_list_def length_enc_var_int length_concat comp_def)

lemma var_int_size_16: "length xs \<le> 16 \<Longrightarrow> neoc_var_int_size (of_nat (length xs)) = 1"
proof -
  assume "length xs \<le> 16"
  then have "unat (of_nat (length xs) :: u64) \<le> 16" by (simp add: unat_of_nat_size)
  then show ?thesis by (simp add: neoc_var_int_size_def word_less_nat_alt)
qed

lemma sum_lengths_20: "list_all (\<lambda>c. length c = 20) cs \<Longrightarrow> sum_list (map length cs) = length cs * 20"
  by (induction cs) auto

lemma sum_group_lengths:
  "sum_list (map (\<lambda>g. length (enc_var_bytes g)) gs)
     = sum_list (map (\<lambda>g. 1 + length g) gs) + sum_list (map (\<lambda>g. neoc_var_int_size (of_nat (length g)) - 1) gs)"
proof (induction gs)
  case (Cons g gs)
  then show ?case using var_int_size_pos [of "of_nat (length g)"] by (simp add: length_enc_var_bytes length_enc_var_int)
qed simp

lemma signer_size:
  assumes "signer_ok K s"
  shows "\<exists>n. neoc_signer_get_size (Some s) = Ok n \<and> length (enc_signer s) = n + uncounted s"
  using assms var_int_size_pos [of "of_nat (length (sg_rules s))"]
  by (simp add: neoc_signer_get_size_def scope_bits signer_ok_def signer_inv_def enc_signer_def uncounted_def enc_if_def
      length_enc_list var_int_size_16 sum_lengths_20 sum_group_lengths)

lemma copy_signer:
  assumes "signer_ok K s" and "grants A (320 + 8 * length (sg_rules s) + sum_list (map length (allowed_groups s)))"
  shows "neoc_signer_copy A K (Some s) = Ok s"
proof -
  have A: "A n" if "n \<le> 320 + 8 * length (sg_rules s) + sum_list (map length (allowed_groups s))" for n
    using assms(2) that by (simp add: grants_def)
  have inv: "signer_inv s" and live: "groups_live s" "sizes_live s" using assms(1) by (simp_all add: signer_ok_def)
  have "copy_contracts A (allowed_contracts s) = Ok (allowed_contracts s)"
    using inv A [of "length (allowed_contracts s) * 20"] by (simp add: copy_contracts_def signer_inv_def)
  moreover have "map_r (\<lambda>g. bind_r (malloc_r A (length g)) (\<lambda>_. Ok g)) (allowed_groups s) = Ok (map (\<lambda>g. g) (allowed_groups s))"
    by (rule map_r_Ok) (use A member_le_sum_list [of _ "map length (allowed_groups s)"] in \<open>fastforce\<close>)
  then have "copy_groups A s = Ok (allowed_groups s)"
    using inv live A [of "length (allowed_groups s) * 8"] by (simp add: copy_groups_def signer_inv_def)
  moreover have "copy_rule A K r = Ok r" if "r \<in> set (sg_rules s)" for r
  proof -
    have "grants A 128" using A by (simp add: grants_def)
    then have g: "grants A 128" "A 16" by (simp_all add: grants_def)
    from that assms(1) have "on_ptr (rule_ok K) r" by (simp add: signer_ok_def list_all_iff)
    then obtain r' where "r = Some r'" "rule_ok K r'" by (rule on_ptrE)
    then obtain a c where "r = Some \<lparr>wr_action = a, wr_condition = Some c\<rparr>" "cond_ok K 0 c"
      by (cases r') (auto simp: rule_ok_def)
    then show ?thesis
      using g clone_condition by (simp add: copy_rule_def neoc_witness_rule_clone_def neoc_witness_rule_alloc_def
          sizeof_rule_def neoc_witness_condition_clone_def)
  qed
  then have "copy_rules A K (sg_rules s) = Ok (map (\<lambda>r. r) (sg_rules s))"
    using map_r_Ok [of "sg_rules s" "copy_rule A K" "\<lambda>r. r"] A [of "length (sg_rules s) * 8"] by (simp add: copy_rules_def)
  ultimately show ?thesis
    using live A [of 80] by (simp add: neoc_signer_copy_def sizeof_signer_def)
qed

subsection \<open>Theorems\<close>

text \<open>C25. However a client builds a signer, failing calls included: it holds at most sixteen contracts and sixteen groups, it has
  the scope that goes with the items it holds, and a signer with the global scope holds none.\<close>

theorem signer_built_inv:
  assumes "signer_built s"
  shows "signer_inv s"
  using assms
proof induction
  case (created h A scopes s)
  then show ?case by (auto simp: neoc_signer_create_def signer_inv_def bind_r_Ok_iff)
next
  case (contract_added s contract A res s')
  then show ?case using contract_keeps_inv [of s contract A] by simp
next
  case (group_added s A1 A2 A3 m1 m2 group_pubkey res s')
  then show ?case using group_keeps_inv [of s A1 A2 A3 m1 m2 group_pubkey] by simp
qed

definition demo_signer :: neoc_signer where
  "demo_signer = \<lparr>sg_account = replicate 20 1, sg_scopes = 0x11, allowed_contracts = [replicate 20 2], allowed_groups = [],
     groups_live = True, sizes_live = True, sg_rules = []\<rparr>"

theorem signer_built_inv_witness: "signer_inv demo_signer"
proof (rule signer_built_inv)
  let ?A = "\<lambda>_ :: nat. True"
  obtain s where s: "neoc_signer_create ?A (Some (replicate 20 1)) 0x01 = Ok s" by (simp add: neoc_signer_create_def)
  then have "signer_built s" by (rule created [rotated]) simp
  moreover have "neoc_signer_add_allowed_contract ?A (Some (replicate 20 2)) s = (Ok (), demo_signer)"
    using s by (auto simp: neoc_signer_create_def neoc_signer_add_allowed_contract_def demo_signer_def scope_values
        neoc_witness_scope_has_def NEOC_MAX_SIGNER_SUBITEMS_def)
  ultimately show "signer_built demo_signer"
    using contract_added [of s "Some (replicate 20 2)" ?A "Ok ()" demo_signer] by simp
qed

text \<open>C24. A signer is written as its account, its scopes and, for each scope it has, the counted list that belongs to it.  The
  bytes determine the signer.  \<^verbatim>\<open>neoc_signer_get_size\<close> is their number less what \<open>uncounted\<close> says: the rules, and
  length prefixes beyond one byte.  Copying the signer gives an equal one.\<close>

theorem signer_layout:
  assumes "signer_ok K s" and "length (enc_signer s) < 2 ^ 60"
    and "grants A (512 + 2 * length (enc_signer s) + 8 * length (sg_rules s) + sum_list (map length (allowed_groups s)))"
  shows "run_writer A 64 (neoc_signer_serialize A (Some s)) = Ok (enc_signer s)
    \<and> neoc_signer_get_size (Some s) = Ok (length (enc_signer s) - uncounted s)
    \<and> uncounted s \<le> length (enc_signer s)
    \<and> neoc_signer_copy A K (Some s) = Ok s
    \<and> (\<forall>t. signer_ok K t \<and> enc_signer t = enc_signer s \<longrightarrow> t = s)"
proof -
  have g: "grants A 128" "grants A (max 32 (64 + 2 * length (enc_signer s)))"
    "grants A (320 + 8 * length (sg_rules s) + sum_list (map length (allowed_groups s)))"
    using assms(3) by (auto elim!: grants_mono)
  have small: "length (enc_signer s) < 2 ^ 62" using assms(2) by simp
  have w: "run_writer A 64 (neoc_signer_serialize A (Some s)) = Ok (enc_signer s)"
    by (rule run_writer_Ok [OF writes_signer [OF assms(1) g(1)] small]) (use g(2) in simp_all)
  have inj: "t = s" if "signer_ok K t" "enc_signer t = enc_signer s" for t
    using prefix_freeD [OF prefix_free_signer that(1) assms(1), of "[]" "[]"] that(2) assms(2) by simp
  obtain n where "neoc_signer_get_size (Some s) = Ok n" "length (enc_signer s) = n + uncounted s"
    using signer_size [OF assms(1)] by blast
  with w inj copy_signer [OF assms(1) g(3)] show ?thesis by simp
qed

lemma demo_signer_ok: "signer_ok K demo_signer"
  by (simp add: signer_ok_def signer_inv_def demo_signer_def bit_numeral_simps)

theorem signer_layout_witness: "neoc_signer_copy (\<lambda>_. True) toy_curve (Some demo_signer) = Ok demo_signer"
proof -
  have "length (enc_signer demo_signer) = 42" by code_simp
  with signer_layout [OF demo_signer_ok [of toy_curve], of "\<lambda>_. True"] show ?thesis by simp
qed

text \<open>When the last of the three allocations of \<^verbatim>\<open>neoc_signer_add_allowed_group\<close> fails after \<^verbatim>\<open>realloc\<close> has moved the arrays, the
  signer keeps the addresses of blocks that no longer exist: asking for its size, copying it and adding another group are
  then faults.\<close>

theorem signer_group_refused_dangles:
  assumes "signer_ok K s" and "allowed_groups s \<noteq> []" and "length (allowed_groups s) < 16"
    and "key \<noteq> []" and "\<not> A_key (length key)" and "grants A 512"
  shows "\<exists>s'. neoc_signer_add_allowed_group A A A_key True True (Some key) s = (Err NEOC_ERROR_MEMORY, s')
    \<and> neoc_signer_get_size (Some s') = Fault \<and> neoc_signer_copy A K (Some s') = Fault
    \<and> fst (neoc_signer_add_allowed_group A A A True True (Some key) s') = Fault"
proof -
  have inv: "signer_inv s" and live: "groups_live s" "sizes_live s" using assms(1) by (simp_all add: signer_ok_def)
  then have bits: "bit (sg_scopes s) 5" "\<not> bit (sg_scopes s) 7" using assms(2) by (auto simp: signer_inv_def)
  have "length (allowed_contracts s) \<le> 16" using inv by (simp add: signer_inv_def)
  then have A: "A (Suc (length (allowed_groups s)) * 8)" "A (length (allowed_groups s) * 8)" "A (length (allowed_contracts s) * 20)" "A 80"
    using assms(3,6) by (simp_all add: grants_def)
  let ?s = "s\<lparr>sg_scopes := sg_scopes s OR ucast NEOC_WITNESS_SCOPE_CUSTOM_GROUPS, groups_live := False, sizes_live := False\<rparr>"
  have "neoc_signer_add_allowed_group A A A_key True True (Some key) s = (Err NEOC_ERROR_MEMORY, ?s)"
    using assms(2-5) live bits A(1) by (simp add: neoc_signer_add_allowed_group_def scope_bits NEOC_MAX_SIGNER_SUBITEMS_def Let_def)
  moreover have "neoc_signer_get_size (Some ?s) = Fault" using assms(2) by (simp add: neoc_signer_get_size_def scope_bits)
  moreover have "neoc_signer_copy A K (Some ?s) = Fault"
    using assms(2) A by (simp add: neoc_signer_copy_def sizeof_signer_def copy_contracts_def copy_groups_def)
  moreover have "fst (neoc_signer_add_allowed_group A A A True True (Some key) ?s) = Fault"
    using assms(3,4) bits by (simp add: neoc_signer_add_allowed_group_def scope_bits NEOC_MAX_SIGNER_SUBITEMS_def Let_def)
  ultimately show ?thesis by blast
qed

theorem signer_group_refused_dangles_witness:
  "\<exists>s'. neoc_signer_add_allowed_group (\<lambda>_. True) (\<lambda>_. True) (\<lambda>_. False) True True (Some [7])
      (demo_signer\<lparr>sg_scopes := 0x31, allowed_groups := [[2]]\<rparr>) = (Err NEOC_ERROR_MEMORY, s')
    \<and> neoc_signer_get_size (Some s') = Fault \<and> neoc_signer_copy (\<lambda>_. True) toy_curve (Some s') = Fault
    \<and> fst (neoc_signer_add_allowed_group (\<lambda>_. True) (\<lambda>_. True) (\<lambda>_. True) True True (Some [7]) s') = Fault"
  by (rule signer_group_refused_dangles)
     (simp_all add: signer_ok_def signer_inv_def demo_signer_def bit_numeral_simps)

end
