(* ===== verification/Transaction.thy ===== *)
theory Transaction
  imports Signer Account
begin

text \<open>
  \<^verbatim>\<open>src/transaction/transaction.c\<close>; signing calls the functions of \<^verbatim>\<open>Account\<close> and \<^verbatim>\<open>Key_Pair\<close>.  A transaction holds arrays of pointers to its signers,
  attributes and witnesses: lists of options.  The script pointer and the script length are two fields, because an allocation
  failure leaves them in disagreement.  Reading a transaction from JSON goes through the cJSON library and is left out.
\<close>

subsection \<open>Attributes\<close>

text \<open>The type is a C enumeration, a 32-bit integer; the data pointer is null exactly for empty data.\<close>

record neoc_tx_attribute =
  at_type :: u32
  at_data :: "byte list"

definition sizeof_tx_attribute :: nat where "sizeof_tx_attribute = 24"

definition neoc_tx_attribute_create :: "allocator \<Rightarrow> u32 \<Rightarrow> byte list option \<Rightarrow> neoc_tx_attribute result" where
  "neoc_tx_attribute_create A type data =
     bind_r (malloc_r A sizeof_tx_attribute) (\<lambda>_.
     bind_r (copy_script A data) (\<lambda>bs. Ok \<lparr>at_type = type, at_data = bs\<rparr>))"

definition neoc_tx_attribute_clone_internal :: "allocator \<Rightarrow> neoc_tx_attribute option \<Rightarrow> neoc_tx_attribute result" where
  "neoc_tx_attribute_clone_internal A source =
     (case source of
        None \<Rightarrow> Err NEOC_ERROR_INVALID_ARGUMENT
      | Some a \<Rightarrow> neoc_tx_attribute_create A (at_type a) (script_ptr (at_data a)))"

subsection \<open>Building a transaction\<close>

record neoc_transaction =
  tx_version :: byte
  tx_nonce :: u32
  tx_system_fee :: u64
  tx_network_fee :: u64
  tx_valid_until_block :: u32
  tx_signers :: "neoc_signer option list"
  tx_attributes :: "neoc_tx_attribute option list"
  tx_script :: "byte list option"
  tx_script_len :: nat
  tx_witnesses :: "neoc_witness option list"
  tx_hash :: neoc_hash256

definition sizeof_transaction :: nat where "sizeof_transaction = 128"

text \<open>\<open>now\<close> is the current time.\<close>

definition neoc_transaction_create :: "allocator \<Rightarrow> u64 \<Rightarrow> neoc_transaction result" where
  "neoc_transaction_create A now =
     bind_r (malloc_r A sizeof_transaction) (\<lambda>_.
       Ok \<lparr>tx_version = 0, tx_nonce = ucast now, tx_system_fee = 0, tx_network_fee = 0, tx_valid_until_block = 0,
           tx_signers = [], tx_attributes = [], tx_script = None, tx_script_len = 0, tx_witnesses = [],
           tx_hash = replicate 32 0\<rparr>)"

definition neoc_transaction_set_version :: "byte \<Rightarrow> (neoc_transaction, unit) cmd" where
  "neoc_transaction_set_version version t = (Ok (), t\<lparr>tx_version := version\<rparr>)"

definition neoc_transaction_set_nonce :: "u32 \<Rightarrow> (neoc_transaction, unit) cmd" where
  "neoc_transaction_set_nonce nonce t = (Ok (), t\<lparr>tx_nonce := nonce\<rparr>)"

definition neoc_transaction_set_system_fee :: "u64 \<Rightarrow> (neoc_transaction, unit) cmd" where
  "neoc_transaction_set_system_fee fee t = (Ok (), t\<lparr>tx_system_fee := fee\<rparr>)"

definition neoc_transaction_set_network_fee :: "u64 \<Rightarrow> (neoc_transaction, unit) cmd" where
  "neoc_transaction_set_network_fee fee t = (Ok (), t\<lparr>tx_network_fee := fee\<rparr>)"

definition neoc_transaction_set_valid_until_block :: "u32 \<Rightarrow> (neoc_transaction, unit) cmd" where
  "neoc_transaction_set_valid_until_block block t = (Ok (), t\<lparr>tx_valid_until_block := block\<rparr>)"

text \<open>The old script is freed before the new one is allocated; its length is only replaced after.\<close>

definition neoc_transaction_set_script :: "allocator \<Rightarrow> byte list option \<Rightarrow> (neoc_transaction, unit) cmd" where
  "neoc_transaction_set_script A script t =
     (case script of
        None \<Rightarrow> (Err NEOC_ERROR_INVALID_ARGUMENT, t)
      | Some bs \<Rightarrow>
          if bs = [] then (Err NEOC_ERROR_INVALID_ARGUMENT, t)
          else if \<not> A (length bs) then (Err NEOC_ERROR_MEMORY, t\<lparr>tx_script := None\<rparr>)
          else (Ok (), t\<lparr>tx_script := Some bs, tx_script_len := length bs\<rparr>))"

definition neoc_transaction_get_script :: "allocator \<Rightarrow> neoc_transaction \<Rightarrow> byte list option result" where
  "neoc_transaction_get_script A t =
     (case tx_script t of
        None \<Rightarrow> Ok None
      | Some bs \<Rightarrow>
          if tx_script_len t = 0 then Ok None
          else bind_r (malloc_r A (tx_script_len t)) (\<lambda>_. Ok (Some bs)))"

definition neoc_transaction_get_script_ptr :: "neoc_transaction \<Rightarrow> byte list option \<times> nat" where
  "neoc_transaction_get_script_ptr t = (tx_script t, tx_script_len t)"

text \<open>Whether one of the signers has the account; a null entry is dereferenced.\<close>

fun find_signer :: "neoc_hash160 \<Rightarrow> neoc_signer option list \<Rightarrow> bool result" where
  "find_signer account [] = Ok False"
| "find_signer account (None # ss) = Fault"
| "find_signer account (Some s # ss) = (if sg_account s = account then Ok True else find_signer account ss)"

definition neoc_transaction_add_signer :: "allocator \<Rightarrow> neoc_signer option \<Rightarrow> (neoc_transaction, unit) cmd" where
  "neoc_transaction_add_signer A signer t =
     (case signer of
        None \<Rightarrow> (Err NEOC_ERROR_INVALID_ARGUMENT, t)
      | Some s \<Rightarrow>
          (case find_signer (sg_account s) (tx_signers t) of
             Ok present \<Rightarrow>
               if present then (Err NEOC_ERROR_INVALID_STATE, t)
               else if \<not> A ((length (tx_signers t) + 1) * 8) then (Err NEOC_ERROR_MEMORY, t)
               else (Ok (), t\<lparr>tx_signers := tx_signers t @ [Some s]\<rparr>)
           | Err e \<Rightarrow> (Err e, t)
           | Fault \<Rightarrow> (Fault, t)))"

definition neoc_transaction_add_attribute :: "allocator \<Rightarrow> neoc_tx_attribute option \<Rightarrow> (neoc_transaction, unit) cmd" where
  "neoc_transaction_add_attribute A attribute t =
     (case attribute of
        None \<Rightarrow> (Err NEOC_ERROR_INVALID_ARGUMENT, t)
      | Some a \<Rightarrow>
          if \<not> A ((length (tx_attributes t) + 1) * 8) then (Err NEOC_ERROR_MEMORY, t)
          else (Ok (), t\<lparr>tx_attributes := tx_attributes t @ [Some a]\<rparr>))"

definition neoc_transaction_add_witness :: "allocator \<Rightarrow> neoc_witness option \<Rightarrow> (neoc_transaction, unit) cmd" where
  "neoc_transaction_add_witness A witness t =
     (case witness of
        None \<Rightarrow> (Err NEOC_ERROR_INVALID_ARGUMENT, t)
      | Some w \<Rightarrow>
          if \<not> A ((length (tx_witnesses t) + 1) * 8) then (Err NEOC_ERROR_MEMORY, t)
          else (Ok (), t\<lparr>tx_witnesses := tx_witnesses t @ [Some w]\<rparr>))"

subsection \<open>Binary form\<close>

definition write_signer :: "allocator \<Rightarrow> neoc_signer option \<Rightarrow> (neoc_binary_writer, unit) cmd" where
  "write_signer A signer =
     (case signer of None \<Rightarrow> fail_c NEOC_ERROR_INVALID_STATE | Some s \<Rightarrow> neoc_signer_serialize A (Some s))"

definition neoc_tx_write_signers :: "allocator \<Rightarrow> neoc_transaction \<Rightarrow> (neoc_binary_writer, unit) cmd" where
  "neoc_tx_write_signers A t =
     then_c (neoc_binary_writer_write_var_int A (of_nat (length (tx_signers t))))
       (foreach_c (write_signer A) (tx_signers t))"

definition neoc_tx_attribute_write :: "allocator \<Rightarrow> neoc_tx_attribute option \<Rightarrow> (neoc_binary_writer, unit) cmd" where
  "neoc_tx_attribute_write A attribute =
     (case attribute of
        None \<Rightarrow> fail_c NEOC_ERROR_INVALID_ARGUMENT
      | Some a \<Rightarrow>
          then_c (neoc_binary_writer_write_byte A (ucast (at_type a)))
            (neoc_binary_writer_write_var_bytes A (script_ptr (at_data a)) (of_nat (length (at_data a)))))"

definition neoc_tx_write_attributes :: "allocator \<Rightarrow> neoc_transaction \<Rightarrow> (neoc_binary_writer, unit) cmd" where
  "neoc_tx_write_attributes A t =
     then_c (neoc_binary_writer_write_var_int A (of_nat (length (tx_attributes t))))
       (foreach_c (neoc_tx_attribute_write A) (tx_attributes t))"

definition write_witness :: "allocator \<Rightarrow> neoc_witness option \<Rightarrow> (neoc_binary_writer, unit) cmd" where
  "write_witness A witness =
     bind_c (lift_c (neoc_witness_serialize A witness)) (\<lambda>witness_bytes.
       neoc_binary_writer_write_bytes A (Some witness_bytes) (of_nat (length witness_bytes)))"

definition neoc_tx_write_witnesses :: "allocator \<Rightarrow> neoc_transaction \<Rightarrow> (neoc_binary_writer, unit) cmd" where
  "neoc_tx_write_witnesses A t =
     then_c (neoc_binary_writer_write_var_int A (of_nat (length (tx_witnesses t))))
       (foreach_c (write_witness A) (tx_witnesses t))"

definition neoc_tx_var_int_size :: "u64 \<Rightarrow> nat" where
  "neoc_tx_var_int_size v = (if v < 0xFD then 1 else if v \<le> 0xFFFF then 3 else if v \<le> 0xFFFFFFFF then 5 else 9)"

definition neoc_transaction_build_serialized :: "allocator \<Rightarrow> neoc_transaction \<Rightarrow> bool \<Rightarrow> byte list result" where
  "neoc_transaction_build_serialized A t include_witnesses =
     run_writer A 256
       (then_c (neoc_binary_writer_write_byte A (tx_version t))
       (then_c (neoc_binary_writer_write_uint32 A (tx_nonce t))
       (then_c (neoc_binary_writer_write_uint64 A (tx_system_fee t))
       (then_c (neoc_binary_writer_write_uint64 A (tx_network_fee t))
       (then_c (neoc_binary_writer_write_uint32 A (tx_valid_until_block t))
       (then_c (neoc_tx_write_signers A t)
       (then_c (neoc_tx_write_attributes A t)
       (then_c (neoc_binary_writer_write_var_bytes A (tx_script t) (of_nat (tx_script_len t)))
         (write_if include_witnesses (neoc_tx_write_witnesses A t))))))))))"

definition neoc_transaction_calculate_hash :: "crypto \<Rightarrow> allocator \<Rightarrow> (neoc_transaction, neoc_hash256) cmd" where
  "neoc_transaction_calculate_hash C A t =
     (case bind_r (neoc_transaction_build_serialized A t False) (\<lambda>data. neoc_sha256 C (Some data)) of
        Ok hash \<Rightarrow> (Ok hash, t\<lparr>tx_hash := hash\<rparr>)
      | Err e \<Rightarrow> (Err e, t)
      | Fault \<Rightarrow> (Fault, t))"

definition neoc_transaction_get_hash :: "crypto \<Rightarrow> allocator \<Rightarrow> (neoc_transaction, neoc_hash256) cmd" where
  "neoc_transaction_get_hash C A =
     then_c (\<lambda>t. if neoc_hash256_is_zero (Some (tx_hash t)) then neoc_transaction_calculate_hash C A t else (Ok (tx_hash t), t))
       (\<lambda>t. (Ok (tx_hash t), t))"

definition neoc_transaction_serialize :: "allocator \<Rightarrow> neoc_transaction option \<Rightarrow> nat \<Rightarrow> byte list result" where
  "neoc_transaction_serialize A transaction buffer_size =
     (case transaction of
        None \<Rightarrow> Err NEOC_ERROR_INVALID_ARGUMENT
      | Some t \<Rightarrow>
          bind_r (neoc_transaction_build_serialized A t True) (\<lambda>data.
            if buffer_size < length data then Err NEOC_ERROR_BUFFER_TOO_SMALL else Ok data))"

text \<open>Not implemented in the source: no transaction, no byte consumed.\<close>

definition neoc_transaction_deserialize_simple :: "byte list \<Rightarrow> neoc_transaction option \<times> nat" where
  "neoc_transaction_deserialize_simple bytes = (None, 0)"

definition neoc_transaction_verify :: "neoc_transaction option \<Rightarrow> bool" where
  "neoc_transaction_verify transaction = False"

fun attribute_size :: "neoc_tx_attribute option \<Rightarrow> nat" where
  "attribute_size None = 1"
| "attribute_size (Some a) = 1 + neoc_tx_var_int_size (of_nat (length (at_data a))) + length (at_data a)"

definition neoc_transaction_get_size :: "neoc_transaction option \<Rightarrow> nat result" where
  "neoc_transaction_get_size transaction =
     (case transaction of
        None \<Rightarrow> Ok 0
      | Some t \<Rightarrow>
          bind_r (map_r neoc_signer_get_size (tx_signers t)) (\<lambda>signer_sizes.
            Ok (1 + 4 + 8 + 8 + 4
              + neoc_tx_var_int_size (of_nat (length (tx_signers t))) + sum_list signer_sizes
              + neoc_tx_var_int_size (of_nat (length (tx_attributes t))) + sum_list (map attribute_size (tx_attributes t))
              + neoc_tx_var_int_size (of_nat (tx_script_len t)) + tx_script_len t
              + neoc_tx_var_int_size (of_nat (length (tx_witnesses t)))
              + sum_list (map neoc_witness_get_size (tx_witnesses t)))))"

subsection \<open>Copies\<close>

definition clone_array :: "allocator \<Rightarrow> ('a option \<Rightarrow> 'a result) \<Rightarrow> 'a option list \<Rightarrow> 'a option list result" where
  "clone_array A f xs =
     (if xs = [] then Ok []
      else bind_r (malloc_r A (length xs * 8)) (\<lambda>_. map_r (\<lambda>x. bind_r (f x) (\<lambda>y. Ok (Some y))) xs))"

definition clone_script :: "allocator \<Rightarrow> neoc_transaction \<Rightarrow> (byte list option \<times> nat) result" where
  "clone_script A t =
     (case tx_script t of
        None \<Rightarrow> Ok (None, 0)
      | Some bs \<Rightarrow>
          if tx_script_len t = 0 then Ok (None, 0)
          else bind_r (malloc_r A (tx_script_len t)) (\<lambda>_. Ok (Some bs, tx_script_len t)))"

definition neoc_transaction_clone :: "allocator \<Rightarrow> curve \<Rightarrow> u64 \<Rightarrow> neoc_transaction option \<Rightarrow> neoc_transaction result" where
  "neoc_transaction_clone A K now source =
     (case source of
        None \<Rightarrow> Err NEOC_ERROR_INVALID_ARGUMENT
      | Some t \<Rightarrow>
          bind_r (neoc_transaction_create A now) (\<lambda>copy.
          bind_r (clone_script A t) (\<lambda>(script, script_len).
          bind_r (clone_array A (neoc_signer_copy A K) (tx_signers t)) (\<lambda>signers.
          bind_r (clone_array A (neoc_tx_attribute_clone_internal A) (tx_attributes t)) (\<lambda>attributes.
          bind_r (clone_array A (neoc_witness_clone A) (tx_witnesses t)) (\<lambda>witnesses.
            Ok (copy\<lparr>tx_version := tx_version t, tx_nonce := tx_nonce t, tx_system_fee := tx_system_fee t,
                     tx_network_fee := tx_network_fee t, tx_valid_until_block := tx_valid_until_block t,
                     tx_hash := tx_hash t, tx_script := script, tx_script_len := script_len,
                     tx_signers := signers, tx_attributes := attributes, tx_witnesses := witnesses\<rparr>)))))))"

subsection \<open>Signing\<close>

definition neoc_transaction_sign ::
  "crypto \<Rightarrow> ecdsa \<Rightarrow> allocator \<Rightarrow> neoc_account option \<Rightarrow> (neoc_transaction, unit) cmd" where
  "neoc_transaction_sign C S A account =
     (case account of
        None \<Rightarrow> fail_c NEOC_ERROR_INVALID_ARGUMENT
      | Some a \<Rightarrow>
          bind_c (neoc_transaction_calculate_hash C A) (\<lambda>hash.
          bind_c (lift_c (neoc_account_sign A S (Some a) (Some hash))) (\<lambda>signature.
            case neoc_account_get_key_pair_ptr (Some a) of
              None \<Rightarrow> fail_c NEOC_ERROR_INVALID_STATE
            | Some key_pair \<Rightarrow>
                bind_c (lift_c (neoc_ec_key_pair_get_public_key (Some key_pair) 65)) (\<lambda>public_key.
                bind_c (lift_c (neoc_witness_create_from_signature A (Some signature) (Some public_key))) (\<lambda>witness.
                  neoc_transaction_add_witness A (Some witness))))))"

definition neoc_transaction_sign_multi ::
  "crypto \<Rightarrow> (nat \<Rightarrow> ecdsa) \<Rightarrow> allocator \<Rightarrow> neoc_account option list option \<Rightarrow> (neoc_transaction, unit) cmd" where
  "neoc_transaction_sign_multi C S A accounts =
     (case accounts of
        None \<Rightarrow> fail_c NEOC_ERROR_INVALID_ARGUMENT
      | Some as \<Rightarrow>
          if as = [] then fail_c NEOC_ERROR_INVALID_ARGUMENT
          else foreach_c (\<lambda>(i, a). neoc_transaction_sign C (S i) A a) (enumerate 0 as))"

subsection \<open>JSON text\<close>

text \<open>\<^verbatim>\<open>snprintf\<close> into a buffer of 4096 bytes keeps the first 4095 characters.\<close>

definition neoc_transaction_to_json :: "allocator \<Rightarrow> neoc_transaction option \<Rightarrow> string option" where
  "neoc_transaction_to_json A transaction =
     (case transaction of
        None \<Rightarrow> None
      | Some t \<Rightarrow>
          if \<not> A 4096 then None
          else
            let script_hex =
                  (if tx_script t \<noteq> None \<and> 0 < tx_script_len t \<and> A (tx_script_len t * 2 + 1) then
                     (case neoc_hex_encode (tx_script t) (tx_script_len t * 2 + 1) False False of Ok s \<Rightarrow> s | _ \<Rightarrow> [])
                   else []);
                hash_str = (case neoc_hash256_to_string (Some (tx_hash t)) 65 of Ok s \<Rightarrow> s | _ \<Rightarrow> [])
            in Some (take 4095
                 (''{\"hash\":\"'' @ hash_str @ ''\",\"version\":'' @ show_nat (unat (tx_version t))
                  @ '',\"nonce\":'' @ show_nat (unat (tx_nonce t))
                  @ '',\"sysfee\":\"'' @ show_nat (unat (tx_system_fee t))
                  @ ''\",\"netfee\":\"'' @ show_nat (unat (tx_network_fee t))
                  @ ''\",\"validuntilblock\":'' @ show_nat (unat (tx_valid_until_block t))
                  @ '',\"script\":\"'' @ script_hex @ ''\",\"signers\":[],\"attributes\":[],\"witnesses\":[]}'')))"

subsection \<open>The bytes of a transaction\<close>

definition attribute_ok :: "neoc_tx_attribute \<Rightarrow> bool" where
  "attribute_ok a \<longleftrightarrow> unat (at_type a) < 256 \<and> length (at_data a) < 2 ^ 50"

definition enc_attribute :: "neoc_tx_attribute \<Rightarrow> byte list" where
  "enc_attribute a = ucast (at_type a) # enc_var_bytes (at_data a)"

definition script_bytes :: "neoc_transaction \<Rightarrow> byte list" where
  "script_bytes t = (case tx_script t of None \<Rightarrow> [] | Some bs \<Rightarrow> bs)"

definition script_ok :: "neoc_transaction \<Rightarrow> bool" where
  "script_ok t \<longleftrightarrow> tx_script t = script_ptr (script_bytes t) \<and> tx_script_len t = length (script_bytes t)"

text \<open>Everything that is signed.\<close>

definition enc_unsigned :: "neoc_transaction \<Rightarrow> byte list" where
  "enc_unsigned t =
     [tx_version t] @ le_bytes 4 (tx_nonce t) @ le_bytes 8 (tx_system_fee t) @ le_bytes 8 (tx_network_fee t)
     @ le_bytes 4 (tx_valid_until_block t) @ enc_list (enc_ptr enc_signer) (tx_signers t)
     @ enc_list (enc_ptr enc_attribute) (tx_attributes t) @ enc_var_bytes (script_bytes t)"

definition enc_tx :: "neoc_transaction \<Rightarrow> byte list" where
  "enc_tx t = enc_unsigned t @ enc_list (enc_ptr enc_witness) (tx_witnesses t)"

definition tx_ok :: "curve \<Rightarrow> neoc_transaction \<Rightarrow> bool" where
  "tx_ok K t \<longleftrightarrow>
     list_all (on_ptr (signer_ok K)) (tx_signers t) \<and> length (tx_signers t) < 2 ^ 40
     \<and> list_all (on_ptr attribute_ok) (tx_attributes t) \<and> length (tx_attributes t) < 2 ^ 40
     \<and> script_ok t \<and> length (script_bytes t) < 2 ^ 50
     \<and> list_all (on_ptr witness_ok) (tx_witnesses t) \<and> length (tx_witnesses t) < 2 ^ 40
     \<and> length (tx_hash t) = 32 \<and> length (enc_tx t) < 2 ^ 60"

text \<open>A size up to which requests have to be granted to serialize or to copy the transaction.\<close>

definition tx_need :: "neoc_transaction \<Rightarrow> nat" where
  "tx_need t = 1024 + 8 * length (enc_tx t)"

lemma writes_attribute: "on_ptr attribute_ok a \<Longrightarrow> writes A (neoc_tx_attribute_write A a) (enc_ptr enc_attribute a)"
proof (elim on_ptrE)
  fix x
  assume a: "a = Some x" "attribute_ok x"
  then have "writes A (write_script A (at_data x)) (enc_var_bytes (at_data x))"
    by (intro writes_write_script) (simp add: attribute_ok_def)
  from writes_then [OF writes_write_byte this] a show ?thesis
    by (simp add: neoc_tx_attribute_write_def enc_attribute_def write_script_def)
qed

lemma writes_witness_ptr:
  assumes "on_ptr witness_ok w" and "grants A (64 + 2 * length (enc_ptr enc_witness w))"
  shows "writes A (write_witness A w) (enc_ptr enc_witness w)"
  using assms
proof (elim on_ptrE)
  fix x
  assume w: "w = Some x" "witness_ok x"
  with assms(2) have "neoc_witness_serialize A w = Ok (enc_witness x)" by (simp add: witness_serialize_Ok)
  moreover have "length (enc_witness x) < 2 ^ 64" using length_enc_witness_bound [OF w(2)] by simp
  ultimately show ?thesis using w writes_write_bytes [of "enc_witness x" A] by (simp add: write_witness_def)
qed

lemma grants_tx: "grants A (tx_need t) \<Longrightarrow> n \<le> 1024 + 8 * length (enc_tx t) \<Longrightarrow> grants A n"
  unfolding tx_need_def by (rule grants_mono)

lemma writes_signers:
  "tx_ok K t \<Longrightarrow> grants A 128 \<Longrightarrow> writes A (neoc_tx_write_signers A t) (enc_list (enc_ptr enc_signer) (tx_signers t))"
  unfolding neoc_tx_write_signers_def
  by (rule writes_list) (auto simp: tx_ok_def list_all_iff write_signer_def dest!: bspec elim!: on_ptrE intro: writes_signer)

lemma writes_attributes:
  "tx_ok K t \<Longrightarrow> writes A (neoc_tx_write_attributes A t) (enc_list (enc_ptr enc_attribute) (tx_attributes t))"
  unfolding neoc_tx_write_attributes_def
  by (rule writes_list) (auto simp: tx_ok_def list_all_iff intro: writes_attribute)

lemma writes_witnesses:
  assumes "tx_ok K t" and "grants A (tx_need t)"
  shows "writes A (neoc_tx_write_witnesses A t) (enc_list (enc_ptr enc_witness) (tx_witnesses t))"
  unfolding neoc_tx_write_witnesses_def
proof (rule writes_list, rule writes_witness_ptr)
  fix w
  assume "w \<in> set (tx_witnesses t)"
  then show "on_ptr witness_ok w" and "grants A (64 + 2 * length (enc_ptr enc_witness w))"
    using assms length_in_list [of w "tx_witnesses t" "enc_ptr enc_witness"]
    by (auto simp: tx_ok_def list_all_iff enc_tx_def intro!: grants_tx [OF assms(2)])
qed

lemma writes_tx_script:
  "tx_ok K t \<Longrightarrow> writes A (neoc_binary_writer_write_var_bytes A (tx_script t) (of_nat (tx_script_len t))) (enc_var_bytes (script_bytes t))"
  using writes_write_script [of "script_bytes t" A] by (simp add: tx_ok_def script_ok_def write_script_def)

lemma build_serialized_Ok:
  assumes "tx_ok K t" and "grants A (tx_need t)"
  shows "neoc_transaction_build_serialized A t include = Ok (enc_unsigned t @ enc_if include (enc_list (enc_ptr enc_witness) (tx_witnesses t)))"
proof -
  have g: "grants A 128" by (rule grants_tx [OF assms(2)]) simp
  have le: "length (enc_unsigned t @ enc_if include (enc_list (enc_ptr enc_witness) (tx_witnesses t))) \<le> length (enc_tx t)"
    by (simp add: enc_tx_def enc_if_def)
  show ?thesis
    unfolding neoc_transaction_build_serialized_def
  proof (rule run_writer_Ok)
    show "writes A (then_c (neoc_binary_writer_write_byte A (tx_version t))
       (then_c (neoc_binary_writer_write_uint32 A (tx_nonce t))
       (then_c (neoc_binary_writer_write_uint64 A (tx_system_fee t))
       (then_c (neoc_binary_writer_write_uint64 A (tx_network_fee t))
       (then_c (neoc_binary_writer_write_uint32 A (tx_valid_until_block t))
       (then_c (neoc_tx_write_signers A t)
       (then_c (neoc_tx_write_attributes A t)
       (then_c (neoc_binary_writer_write_var_bytes A (tx_script t) (of_nat (tx_script_len t)))
         (write_if include (neoc_tx_write_witnesses A t))))))))))
       (enc_unsigned t @ enc_if include (enc_list (enc_ptr enc_witness) (tx_witnesses t)))"
      unfolding enc_unsigned_def append_assoc
      by (intro writes_then writes_if writes_write_byte writes_write_uint32 writes_write_uint64
          writes_signers [OF assms(1) g] writes_attributes [OF assms(1)] writes_tx_script [OF assms(1)]
          writes_witnesses [OF assms])
    show "length (enc_unsigned t @ enc_if include (enc_list (enc_ptr enc_witness) (tx_witnesses t))) < 2 ^ 62"
      using le assms(1) by (simp add: tx_ok_def)
    show "grants A (max 32 (unat (256 :: size_t) + 2 * length (enc_unsigned t @ enc_if include (enc_list (enc_ptr enc_witness) (tx_witnesses t)))))"
      by (rule grants_tx [OF assms(2)]) (use le in simp)
  qed simp
qed

subsection \<open>The bytes determine the transaction\<close>

abbreviation "signed_parts t \<equiv>
  (tx_version t, tx_nonce t, tx_system_fee t, tx_network_fee t, tx_valid_until_block t, tx_signers t, tx_attributes t, script_bytes t)"

lemma prefix_free_attribute: "prefix_free attribute_ok enc_attribute"
  unfolding prefix_free_def
proof (intro allI impI)
  fix a b bs cs
  assume ok: "attribute_ok a" "attribute_ok b" and eq: "enc_attribute a @ bs = enc_attribute b @ cs"
    and len: "length (enc_attribute a @ bs) < 2 ^ 63"
  have "at_data a = at_data b \<and> bs = cs" (is ?data)
    using ok eq len by (intro prefix_freeD [OF prefix_free_var_bytes]) (simp_all add: attribute_ok_def enc_attribute_def)
  have "(ucast (at_type a) :: byte) = ucast (at_type b)" using eq by (simp add: enc_attribute_def)
  moreover have again: "ucast (ucast (at_type x) :: byte) = at_type x" if "attribute_ok x" for x
    by (rule ucast_ucast_down) (use that in \<open>simp add: attribute_ok_def\<close>)
  ultimately have "at_type a = at_type b" using again [OF ok(1)] again [OF ok(2)] by metis
  with \<open>?data\<close> show "a = b \<and> bs = cs" by simp
qed

lemma prefix_free_witness: "prefix_free witness_ok enc_witness"
  unfolding prefix_free_def enc_witness_def append_assoc
proof (intro allI impI)
  fix v w bs cs
  assume ok: "witness_ok v" "witness_ok w"
    and eq: "enc_var_bytes (invocation_script v) @ enc_var_bytes (verification_script v) @ bs
      = enc_var_bytes (invocation_script w) @ enc_var_bytes (verification_script w) @ cs"
    and len: "length (enc_var_bytes (invocation_script v) @ enc_var_bytes (verification_script v) @ bs) < 2 ^ 63"
  have one: "invocation_script v = invocation_script w \<and>
      enc_var_bytes (verification_script v) @ bs = enc_var_bytes (verification_script w) @ cs"
    using ok eq len by (intro prefix_freeD [OF prefix_free_var_bytes]) (simp_all add: witness_ok_def)
  have "verification_script v = verification_script w \<and> bs = cs"
    using ok one len by (intro prefix_freeD [OF prefix_free_var_bytes]) (simp_all add: witness_ok_def)
  with one show "v = w \<and> bs = cs" by simp
qed

lemma prefix_free_le:
  "prefix_free (\<lambda>_. True) (le_bytes 4 :: u32 \<Rightarrow> _)" "prefix_free (\<lambda>_. True) (le_bytes 8 :: u64 \<Rightarrow> _)"
  by (rule uint32_codec.prefix_free, simp) (rule uint64_codec.prefix_free, simp)

lemma enc_unsigned_pairs:
  "enc_unsigned t =
     enc_pair (\<lambda>b. [b]) (enc_pair (le_bytes 4) (enc_pair (le_bytes 8) (enc_pair (le_bytes 8) (enc_pair (le_bytes 4)
       (enc_pair (enc_list (enc_ptr enc_signer)) (enc_pair (enc_list (enc_ptr enc_attribute)) enc_var_bytes)))))) (signed_parts t)"
  by (simp add: enc_unsigned_def enc_pair_def)

lemma tx_ok_lists:
  assumes "tx_ok K t"
  shows "length (tx_signers t) < 2 ^ 64 \<and> list_all (on_ptr (signer_ok K)) (tx_signers t)"
    and "length (tx_attributes t) < 2 ^ 64 \<and> list_all (on_ptr attribute_ok) (tx_attributes t)"
    and "length (tx_witnesses t) < 2 ^ 64 \<and> list_all (on_ptr witness_ok) (tx_witnesses t)"
    and "length (script_bytes t) < 2 ^ 62"
  using assms by (simp_all add: tx_ok_def)

lemmas prefix_free_signed_parts = prefix_free_pair [OF prefix_free_byte prefix_free_pair [OF prefix_free_le(1)
  prefix_free_pair [OF prefix_free_le(2) prefix_free_pair [OF prefix_free_le(2) prefix_free_pair [OF prefix_free_le(1)
  prefix_free_pair [OF prefix_free_list [OF prefix_free_ptr [OF prefix_free_signer]]
  prefix_free_pair [OF prefix_free_list [OF prefix_free_ptr [OF prefix_free_attribute]] prefix_free_var_bytes]]]]]]]

lemma unsigned_determines:
  assumes "tx_ok K t" and "tx_ok K u" and "enc_unsigned t @ bs = enc_unsigned u @ cs" and "length (enc_unsigned t @ bs) < 2 ^ 63"
  shows "signed_parts t = signed_parts u \<and> bs = cs"
  by (rule prefix_freeD [OF prefix_free_signed_parts [of K] _ _ assms(3,4) [unfolded enc_unsigned_pairs]])
     (simp_all only: fst_conv snd_conv tx_ok_lists [OF assms(1)] tx_ok_lists [OF assms(2)] simp_thms)

lemma witnesses_determine:
  assumes "tx_ok K t" and "tx_ok K u" and "enc_tx t = enc_tx u"
  shows "signed_parts t = signed_parts u \<and> tx_witnesses t = tx_witnesses u"
proof -
  have len: "length (enc_tx t) < 2 ^ 63" using assms(1) by (simp add: tx_ok_def)
  with unsigned_determines [OF assms(1,2) assms(3) [unfolded enc_tx_def]]
  have parts: "signed_parts t = signed_parts u"
    and eq: "enc_list (enc_ptr enc_witness) (tx_witnesses t) @ [] = enc_list (enc_ptr enc_witness) (tx_witnesses u) @ []"
    by (simp_all add: enc_tx_def)
  have "length (enc_list (enc_ptr enc_witness) (tx_witnesses t) @ []) < 2 ^ 63" using len by (simp add: enc_tx_def)
  from prefix_freeD [OF prefix_free_list [OF prefix_free_ptr [OF prefix_free_witness]] _ _ eq this] assms parts
  show ?thesis by (simp add: tx_ok_def)
qed

lemma same_parts:
  assumes "tx_ok K t" and "tx_ok K u" and "signed_parts t = signed_parts u"
  shows "u = t\<lparr>tx_witnesses := tx_witnesses u, tx_hash := tx_hash u\<rparr>"
  using assms by (simp add: tx_ok_def script_ok_def)

subsection \<open>Sizes and copies\<close>

lemma tx_var_int_size: "neoc_tx_var_int_size v = neoc_var_int_size v"
  by (simp add: neoc_tx_var_int_size_def neoc_var_int_size_def)

lemma signer_sizes:
  "list_all (on_ptr (signer_ok K)) ss \<Longrightarrow>
     \<exists>ns. map_r neoc_signer_get_size ss = Ok ns
       \<and> sum_list (map (\<lambda>s. length (enc_ptr enc_signer s)) ss) = sum_list ns + sum_list (map (\<lambda>s. uncounted (the s)) ss)"
proof (induction ss)
  case (Cons s ss)
  then obtain x where x: "s = Some x" "signer_ok K x" by (auto elim: on_ptrE)
  obtain n where "neoc_signer_get_size (Some x) = Ok n" "length (enc_signer x) = n + uncounted x"
    using signer_size [OF x(2)] by blast
  with Cons x(1) show ?case by auto
qed simp

lemma attribute_sizes:
  "list_all (on_ptr attribute_ok) as \<Longrightarrow>
     sum_list (map attribute_size as) = sum_list (map (\<lambda>a. length (enc_ptr enc_attribute a)) as)"
  by (induction as) (auto elim!: on_ptrE simp: enc_attribute_def length_enc_var_bytes length_enc_var_int tx_var_int_size)

lemma witness_sizes:
  "list_all (on_ptr witness_ok) ws \<Longrightarrow>
     sum_list (map neoc_witness_get_size ws) = sum_list (map (\<lambda>w. length (enc_ptr enc_witness w)) ws)"
  by (induction ws) (auto elim!: on_ptrE simp: witness_size)

lemma tx_size:
  assumes "tx_ok K t"
  shows "\<exists>n. neoc_transaction_get_size (Some t) = Ok n
    \<and> length (enc_tx t) = n + sum_list (map (\<lambda>s. uncounted (the s)) (tx_signers t))"
proof -
  note lists = tx_ok_lists [OF assms]
  obtain ns where "map_r neoc_signer_get_size (tx_signers t) = Ok ns"
    and "sum_list (map (\<lambda>s. length (enc_ptr enc_signer s)) (tx_signers t)) = sum_list ns + sum_list (map (\<lambda>s. uncounted (the s)) (tx_signers t))"
    using signer_sizes [OF lists(1) [THEN conjunct2]] by blast
  moreover have "tx_script_len t = length (script_bytes t)" using assms by (simp add: tx_ok_def script_ok_def)
  ultimately show ?thesis
    using attribute_sizes [OF lists(2) [THEN conjunct2]] witness_sizes [OF lists(3) [THEN conjunct2]]
    by (simp add: neoc_transaction_get_size_def enc_tx_def enc_unsigned_def length_enc_list length_enc_var_bytes
        length_enc_var_int tx_var_int_size)
qed

lemma length_le_sum: "(\<And>x. x \<in> set xs \<Longrightarrow> (1 :: nat) \<le> f x) \<Longrightarrow> length xs \<le> sum_list (map f xs)"
  by (induction xs) (auto simp: Suc_le_eq add_strict_increasing)

lemma signer_copy_need:
  assumes "signer_ok K s"
  shows "8 * length (sg_rules s) + sum_list (map length (allowed_groups s)) \<le> 8 * length (enc_signer s)"
proof -
  let ?g = "enc_if (bit (sg_scopes s) 5) (enc_list enc_var_bytes (allowed_groups s))"
  let ?r = "enc_if (bit (sg_scopes s) 6) (enc_list (enc_ptr enc_rule) (sg_rules s))"
  have "1 \<le> length (enc_ptr enc_rule r)" if "r \<in> set (sg_rules s)" for r
    using that assms by (auto simp: signer_ok_def list_all_iff enc_rule_def dest!: bspec elim!: on_ptrE)
  then have "length (sg_rules s) \<le> sum_list (map (\<lambda>r. length (enc_ptr enc_rule r)) (sg_rules s))" by (rule length_le_sum)
  moreover have "\<not> bit (sg_scopes s) 6 \<Longrightarrow> sg_rules s = []" using assms by (auto simp: signer_ok_def)
  ultimately have rules: "length (sg_rules s) \<le> length ?r" by (auto simp: enc_if_def length_enc_list)
  have "sum_list (map length (allowed_groups s)) \<le> sum_list (map (\<lambda>g. length (enc_var_bytes g)) (allowed_groups s))"
    by (rule sum_list_mono) (simp add: length_enc_var_bytes)
  moreover have "\<not> bit (sg_scopes s) 5 \<Longrightarrow> allowed_groups s = []" using assms by (auto simp: signer_ok_def signer_inv_def)
  ultimately have "sum_list (map length (allowed_groups s)) \<le> length ?g" by (auto simp: enc_if_def length_enc_list)
  moreover have "length ?g + length ?r \<le> length (enc_signer s)" by (simp add: enc_signer_def)
  ultimately show ?thesis using rules by linarith
qed

lemma clone_array_Ok:
  assumes ok: "list_all (on_ptr ok) ps" and len: "length (enc_list (enc_ptr enc) ps) \<le> n" and A: "grants A (8 * n)"
    and one: "\<And>x. ok x \<Longrightarrow> length (enc x) \<le> n \<Longrightarrow> f (Some x) = Ok x" and pos: "\<And>x. ok x \<Longrightarrow> 1 \<le> length (enc x)"
  shows "clone_array A f ps = Ok ps"
proof -
  have "bind_r (f p) (\<lambda>y. Ok (Some y)) = Ok p" if "p \<in> set ps" for p
    using that ok len length_in_list [OF that, of "enc_ptr enc"] by (auto simp: list_all_iff one dest!: bspec elim!: on_ptrE)
  then have "map_r (\<lambda>x. bind_r (f x) (\<lambda>y. Ok (Some y))) ps = Ok (map (\<lambda>p. p) ps)" by (rule map_r_Ok)
  moreover have "length ps \<le> sum_list (map (\<lambda>p. length (enc_ptr enc p)) ps)"
    using ok pos by (intro length_le_sum) (auto simp: list_all_iff dest!: bspec elim!: on_ptrE)
  then have "A (length ps * 8)" using len A by (simp add: grants_def length_enc_list)
  ultimately show ?thesis by (simp add: clone_array_def)
qed

lemma clone_attribute:
  "length (enc_attribute a) \<le> n \<Longrightarrow> grants A (24 + n) \<Longrightarrow> neoc_tx_attribute_clone_internal A (Some a) = Ok a"
  by (simp add: neoc_tx_attribute_clone_internal_def neoc_tx_attribute_create_def sizeof_tx_attribute_def copy_script_Ok
      grants_def enc_attribute_def length_enc_var_bytes)

lemma clone_witness:
  "length (enc_witness w) \<le> n \<Longrightarrow> grants A (32 + n) \<Longrightarrow> neoc_witness_clone A (Some w) = Ok w"
  by (simp add: neoc_witness_clone_def neoc_witness_create_def sizeof_witness_def copy_script_Ok grants_def enc_witness_def
      length_enc_var_bytes)

lemma clone_signer:
  assumes "signer_ok K s" and "length (enc_signer s) \<le> n" and "grants A (320 + 8 * n)"
  shows "neoc_signer_copy A K (Some s) = Ok s"
  using signer_copy_need [OF assms(1)] assms by (intro copy_signer) (auto elim!: grants_mono)

lemma clone_tx:
  assumes "tx_ok K t" and "grants A (tx_need t)"
  shows "neoc_transaction_clone A K now (Some t) = Ok t"
proof -
  note lists = tx_ok_lists(1-3) [OF assms(1), THEN conjunct2]
  let ?n = "length (enc_tx t)"
  have g: "grants A (8 * ?n)" "grants A (24 + ?n)" "grants A (32 + ?n)" "grants A (320 + 8 * ?n)"
    using assms(2) by (auto simp: tx_need_def elim!: grants_mono)
  have parts: "length (enc_list (enc_ptr enc_signer) (tx_signers t)) \<le> ?n"
    "length (enc_list (enc_ptr enc_attribute) (tx_attributes t)) \<le> ?n"
    "length (enc_list (enc_ptr enc_witness) (tx_witnesses t)) \<le> ?n" "length (script_bytes t) \<le> ?n"
    by (simp_all add: enc_tx_def enc_unsigned_def length_enc_var_bytes)
  have "clone_array A (neoc_signer_copy A K) (tx_signers t) = Ok (tx_signers t)"
    by (rule clone_array_Ok [OF lists(1) parts(1) g(1)]) (use g in \<open>auto intro: clone_signer simp: enc_signer_def\<close>)
  moreover have "clone_array A (neoc_tx_attribute_clone_internal A) (tx_attributes t) = Ok (tx_attributes t)"
    by (rule clone_array_Ok [OF lists(2) parts(2) g(1)]) (use g in \<open>auto intro: clone_attribute simp: enc_attribute_def\<close>)
  moreover have "clone_array A (neoc_witness_clone A) (tx_witnesses t) = Ok (tx_witnesses t)"
    by (rule clone_array_Ok [OF lists(3) parts(3) g(1)])
       (use g enc_var_int_pos in \<open>auto intro: clone_witness simp: enc_witness_def length_enc_var_bytes Suc_le_eq\<close>)
  moreover have "clone_script A t = Ok (tx_script t, tx_script_len t)"
    using assms(1) grantsD [OF g(2), of "length (script_bytes t)"] parts(4)
    by (cases "script_bytes t = []") (simp_all add: clone_script_def tx_ok_def script_ok_def script_ptr_def)
  moreover have "A 128" using g(4) by (simp add: grants_def)
  ultimately show ?thesis
    by (simp add: neoc_transaction_clone_def neoc_transaction_create_def sizeof_transaction_def)
qed

subsection \<open>Reachable transactions\<close>

text \<open>The calls of the interface that change a transaction.\<close>

datatype tx_op =
    Set_Version byte | Set_Nonce u32 | Set_System_Fee u64 | Set_Network_Fee u64 | Set_Valid_Until_Block u32
  | Set_Script "byte list option" | Add_Signer "neoc_signer option" | Add_Attribute "neoc_tx_attribute option"
  | Add_Witness "neoc_witness option" | Get_Hash | Sign "neoc_account option"

fun tx_call :: "crypto \<Rightarrow> ecdsa \<Rightarrow> allocator \<Rightarrow> tx_op \<Rightarrow> (neoc_transaction, unit) cmd" where
  "tx_call C S A (Set_Version v) = neoc_transaction_set_version v"
| "tx_call C S A (Set_Nonce n) = neoc_transaction_set_nonce n"
| "tx_call C S A (Set_System_Fee f) = neoc_transaction_set_system_fee f"
| "tx_call C S A (Set_Network_Fee f) = neoc_transaction_set_network_fee f"
| "tx_call C S A (Set_Valid_Until_Block b) = neoc_transaction_set_valid_until_block b"
| "tx_call C S A (Set_Script bs) = neoc_transaction_set_script A bs"
| "tx_call C S A (Add_Signer s) = neoc_transaction_add_signer A s"
| "tx_call C S A (Add_Attribute a) = neoc_transaction_add_attribute A a"
| "tx_call C S A (Add_Witness w) = neoc_transaction_add_witness A w"
| "tx_call C S A Get_Hash = then_c (neoc_transaction_get_hash C A) (return_c ())"
| "tx_call C S A (Sign a) = neoc_transaction_sign C S A a"

inductive tx_built :: "crypto \<Rightarrow> neoc_transaction \<Rightarrow> bool" for C where
  tx_created: "neoc_transaction_create A now = Ok t \<Longrightarrow> tx_built C t"
| tx_called: "tx_built C t \<Longrightarrow> tx_call C S A op t = (res, t') \<Longrightarrow> tx_built C t'"

definition tx_inv :: "neoc_transaction \<Rightarrow> bool" where
  "tx_inv t \<longleftrightarrow>
     None \<notin> set (tx_signers t) \<and> distinct (map (map_option sg_account) (tx_signers t))
     \<and> None \<notin> set (tx_attributes t) \<and> None \<notin> set (tx_witnesses t)
     \<and> (\<forall>bs. tx_script t = Some bs \<longrightarrow> bs \<noteq> [] \<and> tx_script_len t = length bs)"

lemma find_signer_correct:
  "None \<notin> set ss \<Longrightarrow> find_signer a ss = Ok (Some a \<in> set (map (map_option sg_account) ss))"
  by (induction a ss rule: find_signer.induct) auto

lemma add_signer_inv:
  assumes "tx_inv t"
  shows "fst (neoc_transaction_add_signer A s t) \<noteq> Fault \<and> tx_inv (snd (neoc_transaction_add_signer A s t))"
proof (cases s)
  case (Some x)
  then show ?thesis
    using assms find_signer_correct [of "tx_signers t" "sg_account x"]
    by (auto simp: neoc_transaction_add_signer_def tx_inv_def)
qed (use assms in \<open>simp add: neoc_transaction_add_signer_def\<close>)

lemma set_script_inv: "tx_inv t \<Longrightarrow> tx_inv (snd (neoc_transaction_set_script A bs t))"
  by (auto simp: neoc_transaction_set_script_def tx_inv_def split: option.split)

lemma add_attribute_inv: "tx_inv t \<Longrightarrow> tx_inv (snd (neoc_transaction_add_attribute A a t))"
  by (auto simp: neoc_transaction_add_attribute_def tx_inv_def split: option.split)

lemma add_witness_inv: "tx_inv t \<Longrightarrow> tx_inv (snd (neoc_transaction_add_witness A w t))"
  by (auto simp: neoc_transaction_add_witness_def tx_inv_def split: option.split)

lemma hash_inv: "tx_inv t \<Longrightarrow> tx_inv (snd (neoc_transaction_calculate_hash C A t))"
  unfolding neoc_transaction_calculate_hash_def by (auto simp: tx_inv_def split: result.split)

text \<open>Properties of the state that each part of a command keeps.\<close>

definition keeps :: "('s \<Rightarrow> bool) \<Rightarrow> ('s, 'a) cmd \<Rightarrow> bool" where
  "keeps P m \<longleftrightarrow> (\<forall>s. P s \<longrightarrow> P (snd (m s)))"

lemma keeps_bind: "keeps P m \<Longrightarrow> (\<And>x. keeps P (f x)) \<Longrightarrow> keeps P (bind_c m f)"
  by (auto simp: keeps_def bind_c_def split: prod.split result.split)

lemma keeps_simple: "keeps P (lift_c r)" "keeps P (fail_c e)" "keeps P (return_c x)"
  by (simp_all add: keeps_def cmd_eval)

lemma sign_keeps: "keeps tx_inv (neoc_transaction_sign C S A a)"
  unfolding neoc_transaction_sign_def
  by (cases a)
     (auto intro!: keeps_bind keeps_simple simp: keeps_def [of _ "neoc_transaction_calculate_hash C A"] hash_inv
       keeps_def [of _ "neoc_transaction_add_witness A _"] add_witness_inv split: option.split)

lemma get_hash_keeps: "keeps tx_inv (neoc_transaction_get_hash C A)"
  unfolding neoc_transaction_get_hash_def then_c_def
  by (rule keeps_bind) (auto simp: keeps_def hash_inv)

lemma tx_call_inv: "tx_inv t \<Longrightarrow> tx_inv (snd (tx_call C S A op t))"
proof (cases op)
  case Get_Hash
  have "keeps tx_inv (tx_call C S A Get_Hash)"
    unfolding tx_call.simps then_c_def by (intro keeps_bind get_hash_keeps keeps_simple)
  then show "tx_inv t \<Longrightarrow> ?thesis" by (simp add: Get_Hash keeps_def)
next
  case (Sign a)
  then show "tx_inv t \<Longrightarrow> ?thesis" using sign_keeps [of C S A a] by (simp add: keeps_def)
qed (simp_all add: add_signer_inv set_script_inv add_attribute_inv add_witness_inv,
     simp_all add: tx_inv_def neoc_transaction_set_version_def neoc_transaction_set_nonce_def
       neoc_transaction_set_system_fee_def neoc_transaction_set_network_fee_def neoc_transaction_set_valid_until_block_def)

subsection \<open>Hashing and signing\<close>

lemma build_unsigned:
  assumes "tx_ok K t" and "grants A (tx_need t)"
  shows "neoc_transaction_build_serialized A (t\<lparr>tx_witnesses := ws, tx_hash := h\<rparr>) False = Ok (enc_unsigned t)"
  using build_serialized_Ok [OF assms, of False]
  by (simp add: neoc_transaction_build_serialized_def neoc_tx_write_signers_def neoc_tx_write_attributes_def enc_if_def
      write_if_def)

lemma calculate_hash_Ok:
  assumes "tx_ok K t" and "grants A (tx_need t)" and "crypto_initialized C" and "ossl_sha256 C (enc_unsigned t) = Some h"
  shows "neoc_transaction_calculate_hash C A (t\<lparr>tx_witnesses := ws, tx_hash := g\<rparr>) = (Ok h, t\<lparr>tx_witnesses := ws, tx_hash := h\<rparr>)"
  using assms(3,4) by (simp add: neoc_transaction_calculate_hash_def build_unsigned [OF assms(1,2)] neoc_sha256_def digest_calls_def)

lemma hash_is_zero: "length h = 32 \<Longrightarrow> neoc_hash256_is_zero (Some h) \<longleftrightarrow> h = replicate 32 0"
  by (simp add: neoc_hash256_is_zero_def neoc_hash256_equal_def neoc_hash256_compare_def compare_pointers_def memcmp_zero_iff
      hash_sizes)

text \<open>The witness an account adds for a digest, if it can sign it.\<close>

definition signed_witness :: "ecdsa \<Rightarrow> neoc_hash256 \<Rightarrow> neoc_account \<Rightarrow> neoc_witness option" where
  "signed_witness S h a =
     (case ac_key_pair a of
        None \<Rightarrow> None
      | Some kp \<Rightarrow>
          (case (kp_private_key kp, kp_public_key kp) of
             (Some d, Some pk) \<Rightarrow>
               (case S d h of
                  None \<Rightarrow> None
                | Some (r, s) \<Rightarrow>
                    Some \<lparr>invocation_script = 0x40 # r @ s, verification_script = [0x21] @ pk_compressed pk @ [0xAC]\<rparr>)
           | _ \<Rightarrow> None))"

definition ecdsa_ok :: "ecdsa \<Rightarrow> bool" where
  "ecdsa_ok S \<longleftrightarrow> (\<forall>d h r s. S d h = Some (r, s) \<longrightarrow> length r = 32 \<and> length s = 32)"

definition account_ok :: "neoc_account \<Rightarrow> bool" where
  "account_ok a \<longleftrightarrow> (\<forall>kp pk. ac_key_pair a = Some kp \<longrightarrow> kp_public_key kp = Some pk \<longrightarrow> length (pk_compressed pk) = 33)"

lemma signed_witnessE:
  assumes "signed_witness S h a = Some w"
  obtains kp d pk r s where "ac_key_pair a = Some kp" and "kp_private_key kp = Some d" and "kp_public_key kp = Some pk"
    and "S d h = Some (r, s)"
    and "w = \<lparr>invocation_script = 0x40 # r @ s, verification_script = [0x21] @ pk_compressed pk @ [0xAC]\<rparr>"
  using assms by (auto simp: signed_witness_def split: option.splits prod.splits)

lemma sign_Ok:
  assumes t: "tx_ok K t" "grants A (tx_need t)" and C: "crypto_initialized C" "ossl_sha256 C (enc_unsigned t) = Some h" "length h = 32"
    and S: "ecdsa_ok S" and a: "account_ok a" "signed_witness S h a = Some w" and A: "A ((length ws + 1) * 8)"
  shows "neoc_transaction_sign C S A (Some a) (t\<lparr>tx_witnesses := ws, tx_hash := g\<rparr>)
    = (Ok (), t\<lparr>tx_witnesses := ws @ [Some w], tx_hash := h\<rparr>)"
proof -
  have g: "A n" if "n \<le> 1024" for n using grantsD [OF grants_tx [OF t(2)], of n n] that by simp
  from a(2) obtain kp d pk r s where kp: "ac_key_pair a = Some kp" "kp_private_key kp = Some d" "kp_public_key kp = Some pk"
    and rs: "S d h = Some (r, s)"
    and w: "w = \<lparr>invocation_script = 0x40 # r @ s, verification_script = [0x21] @ pk_compressed pk @ [0xAC]\<rparr>"
    by (rule signed_witnessE)
  have sign: "neoc_account_sign A S (Some a) (Some h) = Ok (r @ s)"
    using kp rs C(3) g [of 64] by (simp add: neoc_account_sign_def neoc_ec_key_pair_sign_def neoc_ecdsa_signature_to_bytes_def)
  have "length r = 32" "length s = 32" "length (pk_compressed pk) = 33"
    using rs S a(1) kp by (auto simp: ecdsa_ok_def account_ok_def)
  then have "neoc_witness_create_from_signature A (Some (r @ s)) (Some (pk_compressed pk)) = Ok w"
    using g w by (simp add: neoc_witness_create_from_signature_def neoc_witness_create_def sizeof_witness_def copy_script_def)
  with kp sign A show ?thesis
    using calculate_hash_Ok [OF t C(1,2), where ws = ws and g = g]
    by (simp add: neoc_transaction_sign_def bind_c_eval neoc_account_get_key_pair_ptr_def neoc_ec_key_pair_get_public_key_def
        neoc_transaction_add_witness_def)
qed

lemma sign_null: "neoc_transaction_sign C S A None = fail_c NEOC_ERROR_INVALID_ARGUMENT"
  by (simp add: neoc_transaction_sign_def)

lemma sign_all_Ok:
  assumes t: "tx_ok K t" "grants A (tx_need t)" and C: "crypto_initialized C" "ossl_sha256 C (enc_unsigned t) = Some h" "length h = 32"
    and S: "\<And>i. ecdsa_ok (S i)"
  shows "list_all account_ok as \<Longrightarrow> map (\<lambda>(i, a). signed_witness (S i) h a) (enumerate k as) = map Some vs \<Longrightarrow>
    grants A (8 * (length ws + length as)) \<Longrightarrow> as \<noteq> [] \<Longrightarrow>
    foreach_c (\<lambda>(i, a). neoc_transaction_sign C (S i) A a) (enumerate k (map Some as)) (t\<lparr>tx_witnesses := ws, tx_hash := g\<rparr>)
      = (Ok (), t\<lparr>tx_witnesses := ws @ map Some vs, tx_hash := h\<rparr>)"
proof (induction as arbitrary: ws g vs k)
  case (Cons a as)
  then obtain v vs' where vs: "vs = v # vs'" "signed_witness (S k) h a = Some v"
    "map (\<lambda>(i, a). signed_witness (S i) h a) (enumerate (Suc k) as) = map Some vs'" by auto
  have "neoc_transaction_sign C (S k) A (Some a) (t\<lparr>tx_witnesses := ws, tx_hash := g\<rparr>)
      = (Ok (), t\<lparr>tx_witnesses := ws @ [Some v], tx_hash := h\<rparr>)"
    using Cons.prems vs by (intro sign_Ok [OF t C S]) (simp_all add: grants_def)
  note first = then_c_eval(1) [where m = "neoc_transaction_sign C (S k) A (Some a)", OF this]
  show ?case
  proof (cases "as = []")
    case True
    with vs show ?thesis by (simp add: first cmd_eval)
  next
    case False
    with Cons.IH [of "Suc k" vs' "ws @ [Some v]" h] Cons.prems vs show ?thesis by (simp add: first)
  qed
qed simp

subsection \<open>Theorems\<close>

text \<open>C5. However a client builds a transaction, failing calls included: no two signers have the same account, no array holds a
  null pointer, and a script that is present is not empty and has its length recorded.\<close>

theorem tx_built_inv:
  assumes "tx_built C t"
  shows "tx_inv t"
  using assms
proof induction
  case (tx_created A now t)
  then show ?case by (auto simp: neoc_transaction_create_def tx_inv_def bind_r_Ok_iff)
next
  case (tx_called t S A op res t')
  then show ?case using tx_call_inv [of t C S A op] by simp
qed

definition demo_tx :: neoc_transaction where
  "demo_tx = \<lparr>tx_version = 0, tx_nonce = 5, tx_system_fee = 1, tx_network_fee = 2, tx_valid_until_block = 9,
     tx_signers = [Some demo_signer], tx_attributes = [Some \<lparr>at_type = 1, at_data = [3]\<rparr>], tx_script = Some [0x40],
     tx_script_len = 1, tx_witnesses = [], tx_hash = replicate 32 0\<rparr>"

definition demo_ecdsa :: ecdsa where "demo_ecdsa d h = Some (replicate 32 1, replicate 32 2)"

theorem tx_built_inv_witness: "tx_inv (demo_tx\<lparr>tx_attributes := []\<rparr>)"
proof (rule tx_built_inv [of toy_crypto])
  let ?A = "\<lambda>_ :: nat. True"
  let ?t0 = "\<lparr>tx_version = 0, tx_nonce = 5, tx_system_fee = 0, tx_network_fee = 0, tx_valid_until_block = 0,
     tx_signers = [], tx_attributes = [], tx_script = None, tx_script_len = 0, tx_witnesses = [], tx_hash = replicate 32 0\<rparr>"
  have "tx_built toy_crypto ?t0" by (rule tx_created [of ?A 5]) (simp add: neoc_transaction_create_def)
  then have "tx_built toy_crypto (?t0\<lparr>tx_system_fee := 1\<rparr>)"
    by (rule tx_called [where op = "Set_System_Fee 1" and A = ?A]) (simp add: neoc_transaction_set_system_fee_def)
  then have "tx_built toy_crypto (?t0\<lparr>tx_system_fee := 1, tx_network_fee := 2\<rparr>)"
    by (rule tx_called [where op = "Set_Network_Fee 2" and A = ?A]) (simp add: neoc_transaction_set_network_fee_def)
  then have "tx_built toy_crypto (?t0\<lparr>tx_system_fee := 1, tx_network_fee := 2, tx_valid_until_block := 9\<rparr>)"
    by (rule tx_called [where op = "Set_Valid_Until_Block 9" and A = ?A]) (simp add: neoc_transaction_set_valid_until_block_def)
  then have "tx_built toy_crypto (?t0\<lparr>tx_system_fee := 1, tx_network_fee := 2, tx_valid_until_block := 9,
      tx_signers := [Some demo_signer]\<rparr>)"
    by (rule tx_called [where op = "Add_Signer (Some demo_signer)" and A = ?A]) (simp add: neoc_transaction_add_signer_def)
  then show "tx_built toy_crypto (demo_tx\<lparr>tx_attributes := []\<rparr>)"
    by (rule tx_called [where op = "Set_Script (Some [0x40])" and A = ?A])
       (simp add: neoc_transaction_set_script_def demo_tx_def)
qed

text \<open>C4. A well-formed transaction is serialized into any buffer that is large enough as exactly the bytes of the format, and a
  smaller buffer is refused.  \<^verbatim>\<open>neoc_transaction_get_size\<close> is the number of these bytes less what it leaves out of its signers;
  and cloning the transaction gives an equal one.\<close>

theorem tx_serialize_layout:
  assumes "tx_ok K t" and "grants A (tx_need t)"
  shows "neoc_transaction_serialize A (Some t) n =
      (if n < length (enc_tx t) then Err NEOC_ERROR_BUFFER_TOO_SMALL else Ok (enc_tx t))
    \<and> neoc_transaction_get_size (Some t) = Ok (length (enc_tx t) - sum_list (map (\<lambda>s. uncounted (the s)) (tx_signers t)))
    \<and> neoc_transaction_clone A K now (Some t) = Ok t"
proof -
  have "neoc_transaction_build_serialized A t True = Ok (enc_tx t)"
    using build_serialized_Ok [OF assms, of True] by (simp add: enc_tx_def enc_if_def)
  moreover obtain m where "neoc_transaction_get_size (Some t) = Ok m"
    "length (enc_tx t) = m + sum_list (map (\<lambda>s. uncounted (the s)) (tx_signers t))"
    using tx_size [OF assms(1)] by blast
  ultimately show ?thesis by (simp add: neoc_transaction_serialize_def clone_tx [OF assms])
qed

lemma demo_tx_length: "length (enc_tx demo_tx) = 75"
  by code_simp

lemma demo_tx_ok: "tx_ok K demo_tx"
  using demo_tx_length
  by (simp add: tx_ok_def demo_signer_ok) (simp add: demo_tx_def demo_signer_ok attribute_ok_def script_ok_def script_bytes_def script_ptr_def)

theorem tx_serialize_layout_witness:
  "neoc_transaction_serialize (\<lambda>_. True) (Some demo_tx) 80 = Ok (enc_tx demo_tx)
   \<and> neoc_transaction_clone (\<lambda>_. True) toy_curve 7 (Some demo_tx) = Ok demo_tx"
  using tx_serialize_layout [OF demo_tx_ok [of toy_curve], of "\<lambda>_. True" 80 7] demo_tx_length by simp

text \<open>C3. The signed bytes determine the transaction: two well-formed transactions that are hashed over the same bytes agree in
  everything but their witnesses and their cached hash, and two with the same serialization agree in their witnesses too.\<close>

theorem tx_bytes_injective:
  assumes "tx_ok K t" and "tx_ok K u" and "grants A (tx_need t)" and "grants A (tx_need u)"
  shows "(neoc_transaction_build_serialized A t False = neoc_transaction_build_serialized A u False \<longrightarrow>
      u = t\<lparr>tx_witnesses := tx_witnesses u, tx_hash := tx_hash u\<rparr>)
    \<and> (neoc_transaction_build_serialized A t True = neoc_transaction_build_serialized A u True \<longrightarrow>
      u = t\<lparr>tx_hash := tx_hash u\<rparr>)"
proof -
  have len: "length (enc_unsigned t @ []) < 2 ^ 63" using assms(1) by (simp add: tx_ok_def enc_tx_def)
  have "u = t\<lparr>tx_witnesses := tx_witnesses u, tx_hash := tx_hash u\<rparr>" if "enc_unsigned t = enc_unsigned u"
    using unsigned_determines [OF assms(1,2) _ len, of "[]"] that same_parts [OF assms(1,2)] by simp
  moreover have "u = t\<lparr>tx_hash := tx_hash u\<rparr>" if "enc_tx t = enc_tx u"
    using witnesses_determine [OF assms(1,2) that] same_parts [OF assms(1,2)]
    by (metis neoc_transaction.surjective neoc_transaction.update_convs(10))
  ultimately show ?thesis
    using build_serialized_Ok [OF assms(1,3)] build_serialized_Ok [OF assms(2,4)] by (simp add: enc_if_def enc_tx_def)
qed

theorem tx_bytes_injective_witness:
  "neoc_transaction_build_serialized (\<lambda>_. True) demo_tx True
   \<noteq> neoc_transaction_build_serialized (\<lambda>_. True) (demo_tx\<lparr>tx_network_fee := 3\<rparr>) True"
proof -
  have "tx_ok toy_curve (demo_tx\<lparr>tx_network_fee := 3\<rparr>)"
  proof -
    have "length (enc_tx (demo_tx\<lparr>tx_network_fee := 3\<rparr>)) = 75" by code_simp
    then show ?thesis using demo_tx_ok [of toy_curve] by (simp add: tx_ok_def script_ok_def script_bytes_def)
  qed
  from tx_bytes_injective [OF demo_tx_ok this, of "\<lambda>_. True"] show ?thesis by (auto simp: demo_tx_def)
qed

text \<open>C6. Signing with several accounts hashes the signed bytes and appends one signature witness per account, in the order of the
  accounts, whatever signature each signing call produces; when an account pointer is null, the call fails with the witnesses of the accounts before it already added.\<close>

theorem tx_sign_multi_witnesses:
  assumes "tx_ok K t" and "grants A (tx_need t + 8 * (length (tx_witnesses t) + length as))"
    and "crypto_initialized C" and "ossl_sha256 C (enc_unsigned t) = Some h" and "length h = 32"
    and "\<And>i. ecdsa_ok (S i)" and "list_all account_ok as" and "as \<noteq> []"
    and "map (\<lambda>(i, a). signed_witness (S i) h a) (enumerate 0 as) = map Some vs"
  shows "neoc_transaction_sign_multi C S A (Some (map Some as)) t
      = (Ok (), t\<lparr>tx_witnesses := tx_witnesses t @ map Some vs, tx_hash := h\<rparr>)
    \<and> neoc_transaction_sign_multi C S A (Some (map Some as @ None # rest)) t
      = (Err NEOC_ERROR_INVALID_ARGUMENT, t\<lparr>tx_witnesses := tx_witnesses t @ map Some vs, tx_hash := h\<rparr>)"
proof -
  have g: "grants A (tx_need t)" "grants A (8 * (length (tx_witnesses t) + length as))"
    using assms(2) by (auto elim!: grants_mono)
  have "foreach_c (\<lambda>(i, a). neoc_transaction_sign C (S i) A a) (enumerate 0 (map Some as)) t = (Ok (), t\<lparr>tx_witnesses := tx_witnesses t @ map Some vs, tx_hash := h\<rparr>)"
    using sign_all_Ok [OF assms(1) g(1) assms(3-7,9) g(2) assms(8), of "tx_hash t"] by simp
  with assms(8) show ?thesis
    by (simp add: neoc_transaction_sign_multi_def enumerate_append_eq foreach_c_append then_c_eval sign_null cmd_eval)
qed

theorem tx_sign_multi_witnesses_witness:
  "fst (neoc_transaction_sign_multi toy_crypto (\<lambda>_. demo_ecdsa) (\<lambda>_. True) (Some [Some demo_account, None]) demo_tx)
   = Err NEOC_ERROR_INVALID_ARGUMENT"
proof -
  let ?h = "replicate 32 (of_nat (length (enc_unsigned demo_tx))) :: byte list"
  obtain v where v: "signed_witness demo_ecdsa ?h demo_account = Some v" by (simp add: signed_witness_def demo_account_def demo_ecdsa_def)
  have "ossl_sha256 toy_crypto (enc_unsigned demo_tx) = Some ?h" "crypto_initialized toy_crypto" by (simp_all add: toy_crypto_def)
  moreover have "ecdsa_ok demo_ecdsa" "account_ok demo_account"
    by (simp_all add: ecdsa_ok_def demo_ecdsa_def account_ok_def demo_account_def)
  ultimately show ?thesis
    using tx_sign_multi_witnesses [OF demo_tx_ok [of toy_curve], of "\<lambda>_. True" "[demo_account]" toy_crypto ?h "\<lambda>_. demo_ecdsa" "[v]" "[]"] v
    by simp
qed

text \<open>The hash of a transaction is cached and never invalidated: once it has been asked for, changing the nonce (or any other
  field) does not change the hash that is returned, although the signed bytes are others.\<close>

theorem tx_hash_stale:
  assumes "tx_ok K t" and "tx_hash t = replicate 32 0" and "grants A (tx_need t)" and "crypto_initialized C"
    and "ossl_sha256 C (enc_unsigned t) = Some h" and "length h = 32" and "h \<noteq> replicate 32 0" and "nonce \<noteq> tx_nonce t"
  shows "neoc_transaction_get_hash C A t = (Ok h, t\<lparr>tx_hash := h\<rparr>)
    \<and> neoc_transaction_set_nonce nonce (t\<lparr>tx_hash := h\<rparr>) = (Ok (), t\<lparr>tx_hash := h, tx_nonce := nonce\<rparr>)
    \<and> neoc_transaction_get_hash C A (t\<lparr>tx_hash := h, tx_nonce := nonce\<rparr>) = (Ok h, t\<lparr>tx_hash := h, tx_nonce := nonce\<rparr>)
    \<and> enc_unsigned (t\<lparr>tx_hash := h, tx_nonce := nonce\<rparr>) \<noteq> enc_unsigned t"
proof -
  have "neoc_transaction_calculate_hash C A t = (Ok h, t\<lparr>tx_hash := h\<rparr>)"
    using calculate_hash_Ok [OF assms(1,3-5), where ws = "tx_witnesses t" and g = "tx_hash t"] by simp
  then have "neoc_transaction_get_hash C A t = (Ok h, t\<lparr>tx_hash := h\<rparr>)"
    using assms(2) by (simp add: neoc_transaction_get_hash_def then_c_def bind_c_def hash_is_zero)
  moreover have "neoc_transaction_get_hash C A (t\<lparr>tx_hash := h, tx_nonce := nonce\<rparr>) = (Ok h, t\<lparr>tx_hash := h, tx_nonce := nonce\<rparr>)"
    using assms(6,7) by (simp add: neoc_transaction_get_hash_def then_c_def bind_c_def hash_is_zero)
  moreover have "of_le (le_bytes 4 v) = v" for v :: u32 by (rule of_le_le_bytes) simp
  then have "le_bytes 4 nonce \<noteq> le_bytes 4 (tx_nonce t)" using assms(8) by metis
  then have "enc_unsigned (t\<lparr>tx_hash := h, tx_nonce := nonce\<rparr>) \<noteq> enc_unsigned t" by (simp add: enc_unsigned_def)
  ultimately show ?thesis by (simp add: neoc_transaction_set_nonce_def)
qed

theorem tx_hash_stale_witness:
  "neoc_transaction_get_hash toy_crypto (\<lambda>_. True) (demo_tx\<lparr>tx_hash := replicate 32 74, tx_nonce := 6\<rparr>)
   = (Ok (replicate 32 74), demo_tx\<lparr>tx_hash := replicate 32 74, tx_nonce := 6\<rparr>)"
proof -
  have "length (enc_unsigned demo_tx) = 74" by code_simp
  then have "ossl_sha256 toy_crypto (enc_unsigned demo_tx) = Some (replicate 32 74)" "crypto_initialized toy_crypto"
    by (simp_all add: toy_crypto_def)
  moreover have "tx_hash demo_tx = replicate 32 0" "6 \<noteq> tx_nonce demo_tx" by (simp_all add: demo_tx_def)
  moreover have "replicate 32 (74 :: byte) \<noteq> replicate 32 0" by (simp add: replicate_eq_replicate)
  ultimately show ?thesis using tx_hash_stale [OF demo_tx_ok [of toy_curve], of "\<lambda>_. True" toy_crypto "replicate 32 74" 6] by simp
qed

end
