(* ===== verification/Transaction_Builder.thy ===== *)
theory Transaction_Builder
  imports Transaction
begin

text \<open>
  \<^verbatim>\<open>transaction/transaction_builder.c\<close>.  The builder keeps the address of the transaction it built, which the caller owns and may release, and
  the addresses of the data of its attributes: transactions and data are in heaps that map addresses to values, and the use of a released
  address is a fault.  Addresses that allocations return, the random nonce and what a node answers are arguments.  Parsing the parameters of a
  contract call goes through cJSON and is a parameter.
\<close>

subsection \<open>The structure\<close>

record attribute_slot =
  sl_type :: u32
  sl_data :: "nat option"
  sl_data_len :: nat

record neoc_tx_builder =
  bd_version :: byte
  bd_nonce :: u32
  bd_valid_until_block :: u32
  bd_signers :: "neoc_signer option list"
  bd_system_fee :: u64
  bd_network_fee :: u64
  bd_attributes :: "attribute_slot list"
  bd_attribute_count :: nat
  bd_script :: "byte list option"
  bd_script_size :: nat
  bd_is_signed :: bool
  bd_built_transaction :: "nat option"

record builder_state =
  bs_builder :: neoc_tx_builder
  bs_transactions :: "nat \<Rightarrow> neoc_transaction option"
  bs_blocks :: "nat \<Rightarrow> byte list option"

definition TX_BUILDER_MAX_SCRIPT_SIZE :: nat where "TX_BUILDER_MAX_SCRIPT_SIZE = 65536"
definition TX_BUILDER_MAX_SIGNERS :: nat where "TX_BUILDER_MAX_SIGNERS = 16"
definition TX_BUILDER_MAX_ATTRIBUTES :: nat where "TX_BUILDER_MAX_ATTRIBUTES = 16"
definition TX_DEFAULT_VALID_UNTIL_BLOCK :: u32 where "TX_DEFAULT_VALID_UNTIL_BLOCK = 1000000"
definition TX_DEFAULT_NETWORK_FEE :: u64 where "TX_DEFAULT_NETWORK_FEE = 100000"
definition NEOC_TX_ATTR_HIGH_PRIORITY :: u32 where "NEOC_TX_ATTR_HIGH_PRIORITY = 0x01"
definition sizeof_tx_builder :: nat where "sizeof_tx_builder = 752"

lemmas builder_consts = TX_BUILDER_MAX_SCRIPT_SIZE_def TX_BUILDER_MAX_SIGNERS_def TX_BUILDER_MAX_ATTRIBUTES_def TX_DEFAULT_VALID_UNTIL_BLOCK_def
  TX_DEFAULT_NETWORK_FEE_def NEOC_TX_ATTR_HIGH_PRIORITY_def

text \<open>\<open>nonce\<close> is what \<^verbatim>\<open>generate_nonce\<close> returns.\<close>

definition neoc_tx_builder_create :: "allocator \<Rightarrow> u32 \<Rightarrow> neoc_tx_builder result" where
  "neoc_tx_builder_create A nonce =
     bind_r (malloc_r A sizeof_tx_builder) (\<lambda>_.
       Ok \<lparr>bd_version = 0, bd_nonce = nonce, bd_valid_until_block = TX_DEFAULT_VALID_UNTIL_BLOCK, bd_signers = [], bd_system_fee = 0,
           bd_network_fee = TX_DEFAULT_NETWORK_FEE,
           bd_attributes = replicate TX_BUILDER_MAX_ATTRIBUTES \<lparr>sl_type = 0, sl_data = None, sl_data_len = 0\<rparr>, bd_attribute_count = 0,
           bd_script = None, bd_script_size = 0, bd_is_signed = False, bd_built_transaction = None\<rparr>)"

definition neoc_transaction_builder_create :: "allocator \<Rightarrow> u32 \<Rightarrow> neoc_tx_builder result" where
  "neoc_transaction_builder_create A nonce = neoc_tx_builder_create A nonce"

subsection \<open>Setters\<close>

definition neoc_tx_builder_set_version :: "byte \<Rightarrow> (neoc_tx_builder, unit) cmd" where
  "neoc_tx_builder_set_version version b = (Ok (), b\<lparr>bd_version := version\<rparr>)"

definition neoc_tx_builder_set_nonce :: "u32 \<Rightarrow> (neoc_tx_builder, unit) cmd" where
  "neoc_tx_builder_set_nonce nonce b = (Ok (), b\<lparr>bd_nonce := nonce\<rparr>)"

definition neoc_tx_builder_set_valid_until_block :: "u32 \<Rightarrow> (neoc_tx_builder, unit) cmd" where
  "neoc_tx_builder_set_valid_until_block block_height b =
     (if block_height = 0 then (Err NEOC_ERROR_INVALID_ARGUMENT, b) else (Ok (), b\<lparr>bd_valid_until_block := block_height\<rparr>))"

text \<open>\<open>block_count\<close> is the answer of the node to \<^verbatim>\<open>neoc_rpc_get_block_count\<close>.\<close>

definition neoc_tx_builder_set_valid_until_block_from_rpc :: "u32 result \<Rightarrow> u32 \<Rightarrow> (neoc_tx_builder, unit) cmd" where
  "neoc_tx_builder_set_valid_until_block_from_rpc block_count increment =
     bind_c (lift_c block_count) (\<lambda>height b.
       let inc = (if increment = 0 then 1000 else ucast increment :: u64);
           target = (ucast height :: u64) + inc in
       if target > 0xFFFFFFFF then (Err NEOC_ERROR_INVALID_SIZE, b) else (Ok (), b\<lparr>bd_valid_until_block := ucast target\<rparr>))"

text \<open>The old script is released first; a refused allocation leaves no script and the old size.\<close>

definition neoc_tx_builder_set_script :: "allocator \<Rightarrow> byte list option \<Rightarrow> (neoc_tx_builder, unit) cmd" where
  "neoc_tx_builder_set_script A script b =
     (case script of
        None \<Rightarrow> (Err NEOC_ERROR_INVALID_ARGUMENT, b)
      | Some bs \<Rightarrow>
          if TX_BUILDER_MAX_SCRIPT_SIZE < length bs then (Err NEOC_ERROR_INVALID_SIZE, b)
          else
            (case neoc_malloc_r A (length bs) of
               Ok _ \<Rightarrow> (Ok (), b\<lparr>bd_script := Some bs, bd_script_size := length bs\<rparr>)
             | Err e \<Rightarrow> (Err e, b\<lparr>bd_script := None\<rparr>)
             | Fault \<Rightarrow> (Fault, b)))"

definition neoc_tx_builder_add_network_fee :: "u64 \<Rightarrow> (neoc_tx_builder, unit) cmd" where
  "neoc_tx_builder_add_network_fee fee b = (Ok (), b\<lparr>bd_network_fee := bd_network_fee b + fee\<rparr>)"

definition neoc_tx_builder_add_system_fee :: "u64 \<Rightarrow> (neoc_tx_builder, unit) cmd" where
  "neoc_tx_builder_add_system_fee fee b = (Ok (), b\<lparr>bd_system_fee := bd_system_fee b + fee\<rparr>)"

subsection \<open>Signers\<close>

text \<open>A signer of the array that is null (after a failed build) is skipped by the search.\<close>

definition same_account :: "neoc_signer option \<Rightarrow> neoc_signer option \<Rightarrow> bool" where
  "same_account x y =
     (case (neoc_signer_get_account x, neoc_signer_get_account y) of (Ok a, Ok b) \<Rightarrow> a = b | _ \<Rightarrow> False)"

definition neoc_tx_builder_add_signer :: "allocator \<Rightarrow> curve \<Rightarrow> neoc_signer option \<Rightarrow> (neoc_tx_builder, unit) cmd" where
  "neoc_tx_builder_add_signer A K signer b =
     (case signer of
        None \<Rightarrow> (Err NEOC_ERROR_INVALID_ARGUMENT, b)
      | Some s \<Rightarrow>
          if TX_BUILDER_MAX_SIGNERS \<le> length (bd_signers b) then (Err NEOC_ERROR_INVALID_SIZE, b)
          else if list_ex (\<lambda>x. same_account x (Some s)) (bd_signers b) then (Err NEOC_ERROR_INVALID_STATE, b)
          else bind_c (lift_c (neoc_signer_copy A K (Some s))) (\<lambda>new b. (Ok (), b\<lparr>bd_signers := bd_signers b @ [Some new]\<rparr>)) b)"

definition neoc_tx_builder_add_signer_from_account :: "allocator \<Rightarrow> curve \<Rightarrow> neoc_account option \<Rightarrow> byte \<Rightarrow> (neoc_tx_builder, unit) cmd" where
  "neoc_tx_builder_add_signer_from_account A K account scope =
     (case account of
        None \<Rightarrow> fail_c NEOC_ERROR_INVALID_ARGUMENT
      | Some a \<Rightarrow>
          (case neoc_account_get_script_hash_copy (Some a) of
             Ok script_hash \<Rightarrow>
               bind_c (lift_c (neoc_signer_create A (Some script_hash) scope)) (\<lambda>signer. neoc_tx_builder_add_signer A K (Some signer))
           | Err _ \<Rightarrow> fail_c NEOC_ERROR_INVALID_STATE
           | Fault \<Rightarrow> lift_c Fault))"

text \<open>The search ignores the result of reading the account: a null signer leaves an indeterminate hash.\<close>

fun find_account :: "neoc_hash160 \<Rightarrow> nat \<Rightarrow> neoc_signer option list \<Rightarrow> nat option result" where
  "find_account h i [] = Ok None"
| "find_account h i (x # xs) =
     (case neoc_signer_get_account x of
        Ok a \<Rightarrow> if neoc_hash160_equal (Some a) (Some h) then Ok (Some i) else find_account h (i + 1) xs
      | _ \<Rightarrow> Fault)"

text \<open>The signer at an index goes to the front; the ones before it move back by one.\<close>

definition to_front :: "nat \<Rightarrow> 'a list \<Rightarrow> 'a list" where
  "to_front i xs = (xs ! i) # take i xs @ drop (i + 1) xs"

definition neoc_tx_builder_set_first_signer :: "neoc_account option \<Rightarrow> (neoc_tx_builder, unit) cmd" where
  "neoc_tx_builder_set_first_signer account b =
     (case account of
        None \<Rightarrow> (Err NEOC_ERROR_INVALID_ARGUMENT, b)
      | Some a \<Rightarrow>
          (case bind_r (case neoc_account_get_script_hash_copy (Some a) of Err _ \<Rightarrow> Err NEOC_ERROR_INVALID_STATE | r \<Rightarrow> r)
                  (\<lambda>script_hash. find_account script_hash 0 (bd_signers b)) of
             Fault \<Rightarrow> (Fault, b)
           | Err e \<Rightarrow> (Err e, b)
           | Ok None \<Rightarrow> (Err NEOC_ERROR_NOT_FOUND, b)
           | Ok (Some i) \<Rightarrow> (Ok (), if 0 < i then b\<lparr>bd_signers := to_front i (bd_signers b)\<rparr> else b)))"

subsection \<open>Attributes\<close>

definition free_block :: "nat \<Rightarrow> (builder_state, unit) cmd" where
  "free_block q s = (if bs_blocks s q = None then (Fault, s) else (Ok (), s\<lparr>bs_blocks := (bs_blocks s)(q := None)\<rparr>))"

definition free_data :: "attribute_slot \<Rightarrow> (builder_state, unit) cmd" where
  "free_data slot = (case sl_data slot of None \<Rightarrow> return_c () | Some q \<Rightarrow> free_block q)"

text \<open>
  The attribute is written into the first unused slot; \<open>q\<close> is the address of the copy of its data.  Without data the two data fields of the slot
  keep what an earlier attribute left there.
\<close>

definition neoc_tx_builder_add_attribute :: "allocator \<Rightarrow> nat \<Rightarrow> neoc_tx_attribute option \<Rightarrow> (builder_state, unit) cmd" where
  "neoc_tx_builder_add_attribute A q attribute s =
     (case attribute of
        None \<Rightarrow> (Err NEOC_ERROR_INVALID_ARGUMENT, s)
      | Some a \<Rightarrow>
          let b = bs_builder s; n = bd_attribute_count b in
          if TX_BUILDER_MAX_ATTRIBUTES \<le> n then (Err NEOC_ERROR_INVALID_SIZE, s)
          else
            let slot = (bd_attributes b ! n)\<lparr>sl_type := at_type a\<rparr>; typed = b\<lparr>bd_attributes := (bd_attributes b)[n := slot]\<rparr> in
            if at_data a = [] then (Ok (), s\<lparr>bs_builder := typed\<lparr>bd_attribute_count := n + 1\<rparr>\<rparr>)
            else if \<not> A (length (at_data a))
            then (Err NEOC_ERROR_MEMORY, s\<lparr>bs_builder := typed\<lparr>bd_attributes := (bd_attributes b)[n := slot\<lparr>sl_data := None\<rparr>]\<rparr>\<rparr>)
            else (Ok (), s\<lparr>bs_builder := typed\<lparr>bd_attributes := (bd_attributes b)[n := slot\<lparr>sl_data := Some q, sl_data_len := length (at_data a)\<rparr>],
                                              bd_attribute_count := n + 1\<rparr>,
                           bs_blocks := (bs_blocks s)(q \<mapsto> at_data a)\<rparr>))"

fun find_priority :: "nat \<Rightarrow> attribute_slot list \<Rightarrow> nat option" where
  "find_priority i [] = None"
| "find_priority i (x # xs) = (if sl_type x = NEOC_TX_ATTR_HIGH_PRIORITY then Some i else find_priority (i + 1) xs)"

text \<open>The slots after the removed one move forward; the last used slot keeps its contents.\<close>

definition shift_slots :: "nat \<Rightarrow> nat \<Rightarrow> attribute_slot list \<Rightarrow> attribute_slot list" where
  "shift_slots i n xs = take i xs @ take (n - 1 - i) (drop (i + 1) xs) @ drop (n - 1) xs"

definition neoc_tx_builder_set_high_priority :: "allocator \<Rightarrow> bool \<Rightarrow> (builder_state, unit) cmd" where
  "neoc_tx_builder_set_high_priority A high_priority =
     then_c (\<lambda>s. let b = bs_builder s; n = bd_attribute_count b in
              case find_priority 0 (take n (bd_attributes b)) of
                None \<Rightarrow> (Ok (), s)
              | Some i \<Rightarrow>
                  then_c (free_data (bd_attributes b ! i))
                    (\<lambda>s. (Ok (), s\<lparr>bs_builder := b\<lparr>bd_attributes := shift_slots i n (bd_attributes b), bd_attribute_count := n - 1\<rparr>\<rparr>)) s)
       (if high_priority then neoc_tx_builder_add_attribute A 0 (Some \<lparr>at_type = NEOC_TX_ATTR_HIGH_PRIORITY, at_data = []\<rparr>) else return_c ())"

subsection \<open>Building\<close>

definition on_builder :: "(neoc_tx_builder, 'a) cmd \<Rightarrow> (builder_state, 'a) cmd" where
  "on_builder m s = (let (r, b) = m (bs_builder s) in (r, s\<lparr>bs_builder := b\<rparr>))"

definition on_transaction :: "nat \<Rightarrow> (neoc_transaction, 'a) cmd \<Rightarrow> (builder_state, 'a) cmd" where
  "on_transaction p m s =
     (case bs_transactions s p of
        None \<Rightarrow> (Fault, s)
      | Some t \<Rightarrow> (let (r, t') = m t in (r, s\<lparr>bs_transactions := (bs_transactions s)(p \<mapsto> t')\<rparr>)))"

definition neoc_transaction_free :: "nat \<Rightarrow> (builder_state, unit) cmd" where
  "neoc_transaction_free p s =
     (if bs_transactions s p = None then (Fault, s) else (Ok (), s\<lparr>bs_transactions := (bs_transactions s)(p := None)\<rparr>))"

text \<open>The signers move into the transaction one by one: the result, the transaction, and how many moved.\<close>

fun transfer_signers :: "allocator \<Rightarrow> neoc_transaction \<Rightarrow> neoc_signer option list \<Rightarrow> unit result \<times> neoc_transaction \<times> nat" where
  "transfer_signers A t [] = (Ok (), t, 0)"
| "transfer_signers A t (s # ss) =
     (case neoc_transaction_add_signer A s t of
        (Ok _, t') \<Rightarrow> (let (r, t'', n) = transfer_signers A t' ss in (r, t'', n + 1))
      | (Err e, t') \<Rightarrow> (Err e, t', 0)
      | (Fault, t') \<Rightarrow> (Fault, t', 0))"

text \<open>The properties of the transaction; the result of setting the script is not looked at.\<close>

definition fill_transaction :: "allocator \<Rightarrow> neoc_tx_builder \<Rightarrow> neoc_transaction \<Rightarrow> neoc_transaction" where
  "fill_transaction A b t =
     snd (neoc_transaction_set_script A (bd_script b)
       (snd (neoc_transaction_set_network_fee (bd_network_fee b)
       (snd (neoc_transaction_set_system_fee (bd_system_fee b)
       (snd (neoc_transaction_set_valid_until_block (bd_valid_until_block b)
       (snd (neoc_transaction_set_nonce (bd_nonce b)
       (snd (neoc_transaction_set_version (bd_version b) t)))))))))))"

definition neoc_tx_builder_build_unsigned :: "allocator \<Rightarrow> u64 \<Rightarrow> nat \<Rightarrow> (builder_state, nat) cmd" where
  "neoc_tx_builder_build_unsigned A now p s =
     (let b = bs_builder s in
      if bd_script b = None \<or> bd_script_size b = 0 then (Err NEOC_ERROR_INVALID_STATE, s)
      else if bd_valid_until_block b = 0 then (Err NEOC_ERROR_INVALID_STATE, s)
      else if bd_signers b = [] then (Err NEOC_ERROR_INVALID_STATE, s)
      else
        (case neoc_transaction_create A now of
           Fault \<Rightarrow> (Fault, s)
         | Err e \<Rightarrow> (Err e, s)
         | Ok t \<Rightarrow>
             (case transfer_signers A (fill_transaction A b t) (bd_signers b) of
                (Fault, _, _) \<Rightarrow> (Fault, s)
              | (Err e, _, n) \<Rightarrow> (Err e, s\<lparr>bs_builder := b\<lparr>bd_signers := replicate n None @ drop n (bd_signers b)\<rparr>\<rparr>)
              | (Ok _, t', _) \<Rightarrow>
                  (Ok p, s\<lparr>bs_builder := b\<lparr>bd_signers := [], bd_built_transaction := Some p\<rparr>, bs_transactions := (bs_transactions s)(p \<mapsto> t')\<rparr>))))"

text \<open>Fees are 64-bit numbers and wrap around.\<close>

definition size_fees :: "nat \<Rightarrow> nat \<Rightarrow> u64" where
  "size_fees serialized_size signer_count =
     (let fee = (of_nat serialized_size :: u64) * 1000 + of_nat signer_count * 1000000 in if fee < 100000 then 100000 else fee)"

definition neoc_tx_builder_calculate_fees :: "allocator \<Rightarrow> u64 \<Rightarrow> nat \<Rightarrow> (builder_state, u64 \<times> u64) cmd" where
  "neoc_tx_builder_calculate_fees A now p s =
     (let b = bs_builder s; signer_count = length (bd_signers b);
          minimum = (if 0 < bd_network_fee b then bd_network_fee b else 100000);
          system = (if 0 < bd_system_fee b then bd_system_fee b else 100000 + of_nat (bd_script_size b) * 10000) in
      case neoc_tx_builder_build_unsigned A now p s of
        (Fault, s) \<Rightarrow> (Fault, s)
      | (Err _, s) \<Rightarrow> (Ok (minimum, bd_system_fee b), s)
      | (Ok tx, s) \<Rightarrow>
          (case bind_r (neoc_transaction_get_size (bs_transactions s tx)) (\<lambda>serialized_size.
                  bind_r (neoc_malloc_r A serialized_size) (\<lambda>_.
                    case neoc_transaction_serialize A (bs_transactions s tx) serialized_size of
                      Ok bytes \<Rightarrow> Ok (size_fees (min (length bytes) serialized_size) signer_count)
                    | Err _ \<Rightarrow> Ok minimum
                    | Fault \<Rightarrow> Fault)) of
             Fault \<Rightarrow> (Fault, s)
           | Err e \<Rightarrow> then_c (neoc_transaction_free tx) (fail_c e) s
           | Ok network \<Rightarrow> then_c (neoc_transaction_free tx) (return_c (network, system)) s))"

definition neoc_tx_builder_sign :: "crypto \<Rightarrow> (nat \<Rightarrow> ecdsa) \<Rightarrow> allocator \<Rightarrow> neoc_account option list option \<Rightarrow> (builder_state, unit) cmd" where
  "neoc_tx_builder_sign C S A accounts s =
     (case accounts of
        None \<Rightarrow> (Err NEOC_ERROR_INVALID_ARGUMENT, s)
      | Some as \<Rightarrow>
          if as = [] then (Err NEOC_ERROR_INVALID_ARGUMENT, s)
          else
            (case bd_built_transaction (bs_builder s) of
               None \<Rightarrow> (Err NEOC_ERROR_INVALID_STATE, s)
             | Some p \<Rightarrow>
                 then_c (foreach_c (\<lambda>(i, a). on_transaction p (neoc_transaction_sign C (S i) A a)) (enumerate 0 as))
                   (\<lambda>s. (Ok (), s\<lparr>bs_builder := (bs_builder s)\<lparr>bd_is_signed := True\<rparr>\<rparr>)) s))"

definition neoc_tx_builder_build_and_sign ::
  "crypto \<Rightarrow> (nat \<Rightarrow> ecdsa) \<Rightarrow> allocator \<Rightarrow> u64 \<Rightarrow> nat \<Rightarrow> neoc_account option list option \<Rightarrow> (builder_state, nat) cmd" where
  "neoc_tx_builder_build_and_sign C S A now p accounts =
     (case accounts of
        None \<Rightarrow> fail_c NEOC_ERROR_INVALID_ARGUMENT
      | Some as \<Rightarrow>
          bind_c (neoc_tx_builder_build_unsigned A now p) (\<lambda>tx s.
            case neoc_tx_builder_sign C S A (Some as) s of
              (Ok _, s') \<Rightarrow> (Ok tx, s')
            | (Err e, s') \<Rightarrow> then_c (neoc_transaction_free tx) (fail_c e) s'
            | (Fault, s') \<Rightarrow> (Fault, s')))"

definition neoc_tx_builder_get_hash :: "crypto \<Rightarrow> allocator \<Rightarrow> u64 \<Rightarrow> nat \<Rightarrow> (builder_state, neoc_hash256) cmd" where
  "neoc_tx_builder_get_hash C A now p =
     then_c (\<lambda>s. if bd_built_transaction (bs_builder s) = None then then_c (neoc_tx_builder_build_unsigned A now p) (return_c ()) s else (Ok (), s))
       (\<lambda>s. case bd_built_transaction (bs_builder s) of
              None \<Rightarrow> (Err NEOC_ERROR_INVALID_ARGUMENT, s)
            | Some tx \<Rightarrow> on_transaction tx (neoc_transaction_calculate_hash C A) s)"

definition neoc_tx_builder_serialize :: "allocator \<Rightarrow> builder_state \<Rightarrow> nat \<Rightarrow> byte list result" where
  "neoc_tx_builder_serialize A s buffer_size =
     (case bd_built_transaction (bs_builder s) of
        None \<Rightarrow> Err NEOC_ERROR_INVALID_STATE
      | Some p \<Rightarrow>
          (case bs_transactions s p of None \<Rightarrow> Fault | Some t \<Rightarrow> neoc_transaction_serialize A (Some t) buffer_size))"

text \<open>Releasing the builder: the data of the attributes.  The built transaction stays with the caller.\<close>

definition neoc_tx_builder_free :: "(builder_state, unit) cmd" where
  "neoc_tx_builder_free s = foreach_c free_data (take (bd_attribute_count (bs_builder s)) (bd_attributes (bs_builder s))) s"

subsection \<open>Builders for common transactions\<close>

definition transfer_script ::
  "allocator \<Rightarrow> crypto \<Rightarrow> interop_table \<Rightarrow> neoc_hash160 \<Rightarrow> neoc_hash160 \<Rightarrow> neoc_hash160 \<Rightarrow> u64 \<Rightarrow> byte list option \<Rightarrow> byte list result" where
  "transfer_script A C T token from_hash to_hash amount data =
     run_builder A
       (then_c (case data of
                  Some d \<Rightarrow> if 0 < length d then neoc_script_builder_push_data A (Some d) (of_nat (length d))
                             else neoc_script_builder_emit A NEOC_OP_PUSHNULL
                | None \<Rightarrow> neoc_script_builder_emit A NEOC_OP_PUSHNULL)
       (then_c (neoc_script_builder_push_integer A amount)
       (then_c (neoc_script_builder_push_data A (Some to_hash) 20)
       (then_c (neoc_script_builder_push_data A (Some from_hash) 20)
       (then_c (neoc_script_builder_push_integer A 4)
       (then_c (neoc_script_builder_emit A NEOC_OP_PACK)
       (then_c (neoc_script_builder_push_string A (Some transfer_name))
       (then_c (neoc_script_builder_push_data A (Some token) 20)
               (neoc_script_builder_emit_syscall A C T NEOC_INTEROP_SYSTEM_CONTRACT_CALL)))))))))"

text \<open>A failed step releases the builder.\<close>

definition finish_builder :: "(neoc_tx_builder, unit) cmd \<Rightarrow> neoc_tx_builder \<Rightarrow> neoc_tx_builder result" where
  "finish_builder m b = (case m b of (Ok _, b') \<Rightarrow> Ok b' | (Err e, _) \<Rightarrow> Err e | (Fault, _) \<Rightarrow> Fault)"

definition neoc_tx_builder_create_nep17_transfer ::
  "allocator \<Rightarrow> crypto \<Rightarrow> interop_table \<Rightarrow> curve \<Rightarrow> u32 \<Rightarrow> neoc_hash160 option \<Rightarrow> neoc_account option \<Rightarrow> string option \<Rightarrow> u64 \<Rightarrow> byte list option
     \<Rightarrow> neoc_tx_builder result" where
  "neoc_tx_builder_create_nep17_transfer A C T K nonce token_hash from_account to_address amount data =
     (case (token_hash, from_account, to_address) of
        (Some token, Some account, Some address) \<Rightarrow>
          bind_r (neoc_tx_builder_create A nonce) (\<lambda>b.
          bind_r (case neoc_account_get_script_hash_copy (Some account) of Err _ \<Rightarrow> Err NEOC_ERROR_INVALID_STATE | r \<Rightarrow> r) (\<lambda>from_hash.
          bind_r (neoc_hash160_from_address C A (Some address)) (\<lambda>to_hash.
          bind_r (transfer_script A C T token from_hash to_hash amount data) (\<lambda>script.
            finish_builder
              (then_c (neoc_tx_builder_set_script A (Some script))
                      (neoc_tx_builder_add_signer_from_account A K (Some account) (ucast NEOC_WITNESS_SCOPE_CALLED_BY_ENTRY))) b))))
      | _ \<Rightarrow> Err NEOC_ERROR_INVALID_ARGUMENT)"

text \<open>\<open>push_params\<close> stands for parsing a non-empty text of parameters and pushing their values.\<close>

definition neoc_tx_builder_create_contract_call ::
  "allocator \<Rightarrow> crypto \<Rightarrow> interop_table \<Rightarrow> curve \<Rightarrow> (string \<Rightarrow> (neoc_script_builder, unit) cmd) \<Rightarrow> u32 \<Rightarrow> neoc_hash160 option \<Rightarrow> string option
     \<Rightarrow> string option \<Rightarrow> neoc_signer option list option \<Rightarrow> neoc_tx_builder result" where
  "neoc_tx_builder_create_contract_call A C T K push_params nonce contract_hash contract_method params signers =
     (case (contract_hash, contract_method) of
        (Some h, Some name) \<Rightarrow>
          bind_r (neoc_tx_builder_create A nonce) (\<lambda>b.
          bind_r (run_builder A
              (then_c (case params of
                         Some ps \<Rightarrow> if ps \<noteq> [] then push_params ps else neoc_script_builder_emit A NEOC_OP_NEWARRAY0
                       | None \<Rightarrow> neoc_script_builder_emit A NEOC_OP_NEWARRAY0)
              (then_c (neoc_script_builder_push_string A (Some (string_bytes name)))
              (then_c (neoc_script_builder_push_data A (Some h) 20)
                      (neoc_script_builder_emit_syscall A C T NEOC_INTEROP_SYSTEM_CONTRACT_CALL))))) (\<lambda>script.
            finish_builder
              (then_c (neoc_tx_builder_set_script A (Some script))
                      (case signers of Some ss \<Rightarrow> foreach_c (neoc_tx_builder_add_signer A K) ss | None \<Rightarrow> return_c ())) b))
      | _ \<Rightarrow> Err NEOC_ERROR_INVALID_ARGUMENT)"

subsection \<open>The other names of the operations\<close>

definition neoc_transaction_builder_set_version :: "byte \<Rightarrow> (neoc_tx_builder, unit) cmd" where
  "neoc_transaction_builder_set_version version = neoc_tx_builder_set_version version"

definition neoc_transaction_builder_set_nonce :: "u32 \<Rightarrow> (neoc_tx_builder, unit) cmd" where
  "neoc_transaction_builder_set_nonce nonce = neoc_tx_builder_set_nonce nonce"

definition neoc_transaction_builder_set_valid_until_block :: "u32 \<Rightarrow> (neoc_tx_builder, unit) cmd" where
  "neoc_transaction_builder_set_valid_until_block block_height = neoc_tx_builder_set_valid_until_block block_height"

definition neoc_transaction_builder_set_valid_until_block_from_rpc :: "u32 result \<Rightarrow> u32 \<Rightarrow> (neoc_tx_builder, unit) cmd" where
  "neoc_transaction_builder_set_valid_until_block_from_rpc block_count increment = neoc_tx_builder_set_valid_until_block_from_rpc block_count increment"

definition neoc_transaction_builder_set_script :: "allocator \<Rightarrow> byte list option \<Rightarrow> (neoc_tx_builder, unit) cmd" where
  "neoc_transaction_builder_set_script A script = neoc_tx_builder_set_script A script"

definition neoc_transaction_builder_add_signer :: "allocator \<Rightarrow> curve \<Rightarrow> neoc_signer option \<Rightarrow> (neoc_tx_builder, unit) cmd" where
  "neoc_transaction_builder_add_signer A K signer = neoc_tx_builder_add_signer A K signer"

definition neoc_transaction_builder_add_signer_from_account ::
  "allocator \<Rightarrow> curve \<Rightarrow> neoc_account option \<Rightarrow> byte \<Rightarrow> (neoc_tx_builder, unit) cmd" where
  "neoc_transaction_builder_add_signer_from_account A K account scope = neoc_tx_builder_add_signer_from_account A K account scope"

definition neoc_transaction_builder_set_first_signer :: "neoc_account option \<Rightarrow> (neoc_tx_builder, unit) cmd" where
  "neoc_transaction_builder_set_first_signer account = neoc_tx_builder_set_first_signer account"

definition neoc_transaction_builder_add_network_fee :: "u64 \<Rightarrow> (neoc_tx_builder, unit) cmd" where
  "neoc_transaction_builder_add_network_fee fee = neoc_tx_builder_add_network_fee fee"

definition neoc_transaction_builder_add_system_fee :: "u64 \<Rightarrow> (neoc_tx_builder, unit) cmd" where
  "neoc_transaction_builder_add_system_fee fee = neoc_tx_builder_add_system_fee fee"

definition neoc_transaction_builder_build :: "allocator \<Rightarrow> u64 \<Rightarrow> nat \<Rightarrow> (builder_state, nat) cmd" where
  "neoc_transaction_builder_build A now p = neoc_tx_builder_build_unsigned A now p"

definition neoc_transaction_builder_sign :: "crypto \<Rightarrow> (nat \<Rightarrow> ecdsa) \<Rightarrow> allocator \<Rightarrow> neoc_account option list option \<Rightarrow> (builder_state, unit) cmd" where
  "neoc_transaction_builder_sign C S A accounts = neoc_tx_builder_sign C S A accounts"

definition neoc_transaction_builder_build_and_sign ::
  "crypto \<Rightarrow> (nat \<Rightarrow> ecdsa) \<Rightarrow> allocator \<Rightarrow> u64 \<Rightarrow> nat \<Rightarrow> neoc_account option list option \<Rightarrow> (builder_state, nat) cmd" where
  "neoc_transaction_builder_build_and_sign C S A now p accounts = neoc_tx_builder_build_and_sign C S A now p accounts"

definition neoc_transaction_builder_serialize :: "allocator \<Rightarrow> builder_state \<Rightarrow> nat \<Rightarrow> byte list result" where
  "neoc_transaction_builder_serialize A s buffer_size = neoc_tx_builder_serialize A s buffer_size"

definition neoc_transaction_builder_free :: "(builder_state, unit) cmd" where
  "neoc_transaction_builder_free s = neoc_tx_builder_free s"

subsection \<open>The signers of a builder\<close>

text \<open>The signers that are there; null entries are left by a build that failed.\<close>

fun present :: "'a option list \<Rightarrow> 'a list" where
  "present [] = []"
| "present (None # xs) = present xs"
| "present (Some x # xs) = x # present xs"

definition builder_inv :: "neoc_tx_builder \<Rightarrow> bool" where
  "builder_inv b \<longleftrightarrow> length (bd_signers b) \<le> 16 \<and> distinct (map sg_account (present (bd_signers b)))
     \<and> (\<forall>s \<in> set (present (bd_signers b)). length (sg_account s) = 20)"

lemma present_append [simp]: "present (xs @ ys) = present xs @ present ys"
  by (induction xs rule: present.induct) simp_all

lemma set_present: "set (present xs) = {x. Some x \<in> set xs}"
  by (induction xs rule: present.induct) auto

lemma present_Some [simp]: "present (map Some xs) = xs"
  by (induction xs) simp_all

lemma present_None [simp]: "present (replicate n None) = []"
  by (induction n) simp_all

lemma present_to_front:
  assumes "i < length xs"
  shows "mset (present (to_front i xs)) = mset (present xs)"
proof -
  have "mset (present xs) = mset (present (take i xs @ xs ! i # drop (i + 1) xs))" using assms by (simp add: id_take_nth_drop [symmetric])
  also have "\<dots> = mset (present (to_front i xs))" by (cases "xs ! i") (simp_all add: to_front_def)
  finally show ?thesis by simp
qed

lemma inv_mset:
  assumes "builder_inv b" and "mset (present xs) = mset (present (bd_signers b))" and "length xs = length (bd_signers b)"
  shows "builder_inv (b\<lparr>bd_signers := xs\<rparr>)"
proof -
  have "set (present xs) = set (present (bd_signers b))" using assms(2) by (metis set_mset_mset)
  moreover have "mset (map sg_account (present xs)) = mset (map sg_account (present (bd_signers b)))" using assms(2) by simp
  then have "distinct (map sg_account (present xs)) = distinct (map sg_account (present (bd_signers b)))" by (rule mset_eq_imp_distinct_iff)
  ultimately show ?thesis using assms(1,3) by (simp add: builder_inv_def)
qed

lemma copy_account: "neoc_signer_copy A K (Some s) = Ok s' \<Longrightarrow> sg_account s' = sg_account s"
  by (auto simp: neoc_signer_copy_def bind_r_Ok_iff)

lemma same_account_iff: "list_ex (\<lambda>x. same_account x (Some s)) xs \<longleftrightarrow> sg_account s \<in> set (map sg_account (present xs))"
  by (induction xs rule: present.induct) (auto simp: same_account_def neoc_signer_get_account_def)

lemma add_signer_builder_inv:
  assumes "builder_inv b" and "\<And>s. signer = Some s \<Longrightarrow> length (sg_account s) = 20" and "neoc_tx_builder_add_signer A K signer b = (r, b')"
  shows "builder_inv b'"
proof (cases "r = Ok ()")
  case True
  then obtain s new where s: "signer = Some s" "neoc_signer_copy A K (Some s) = Ok new" "length (bd_signers b) < 16"
    "sg_account s \<notin> set (map sg_account (present (bd_signers b)))" "b' = b\<lparr>bd_signers := bd_signers b @ [Some new]\<rparr>"
    using assms(3) same_account_iff [of _ "bd_signers b"]
    by (auto simp: neoc_tx_builder_add_signer_def TX_BUILDER_MAX_SIGNERS_def bind_c_def lift_c_def split: option.splits if_splits result.splits)
  then show ?thesis using assms(1,2) copy_account [OF s(2)] by (auto simp: builder_inv_def)
next
  case False
  then have "b' = b" using assms(3) by (auto simp: neoc_tx_builder_add_signer_def bind_c_def lift_c_def split: option.splits if_splits result.splits)
  then show ?thesis using assms(1) by simp
qed

lemma find_account_index: "find_account h i xs = Ok (Some k) \<Longrightarrow> i \<le> k \<and> k < i + length xs"
  by (induction h i xs rule: find_account.induct) (auto split: result.splits if_splits)

lemma find_account_present:
  assumes "\<forall>s \<in> set ss. length (sg_account s) = 20" and "length h = 20"
  shows "find_account h i (map Some ss) = Ok (if h \<in> sg_account ` set ss then Some (i + length (takeWhile (\<lambda>s. sg_account s \<noteq> h) ss)) else None)"
  using assms(1)
proof (induction ss arbitrary: i)
  case (Cons s ss)
  have "neoc_hash160_equal (Some (sg_account s)) (Some h) \<longleftrightarrow> sg_account s = h"
    using Cons.prems assms(2) memcmp_zero_iff [of "sg_account s" h]
    by (simp add: neoc_hash160_equal_def neoc_hash160_compare_def compare_pointers_def hash_sizes)
  with Cons show ?case by (auto simp: neoc_signer_get_account_def)
qed simp

lemma first_signer_cases:
  assumes "b' \<noteq> b" and "neoc_tx_builder_set_first_signer account b = (r, b')"
  obtains h i where "find_account h 0 (bd_signers b) = Ok (Some i)" and "b' = b\<lparr>bd_signers := to_front i (bd_signers b)\<rparr>"
proof -
  from assms obtain a where "account = Some a" by (auto simp: neoc_tx_builder_set_first_signer_def split: option.splits)
  then have eq: "neoc_tx_builder_set_first_signer account b = (case find_account (ac_script_hash a) 0 (bd_signers b) of
      Fault \<Rightarrow> (Fault, b) | Err e \<Rightarrow> (Err e, b) | Ok None \<Rightarrow> (Err NEOC_ERROR_NOT_FOUND, b)
    | Ok (Some i) \<Rightarrow> (Ok (), if 0 < i then b\<lparr>bd_signers := to_front i (bd_signers b)\<rparr> else b))"
    by (simp add: neoc_tx_builder_set_first_signer_def neoc_account_get_script_hash_copy_def)
  show thesis
  proof (cases "find_account (ac_script_hash a) 0 (bd_signers b)")
    case (Ok k)
    with assms eq show thesis by (cases k) (auto split: if_splits intro!: that)
  qed (use assms eq in auto)
qed

lemma first_signer_builder_inv:
  assumes "builder_inv b" and "neoc_tx_builder_set_first_signer account b = (r, b')"
  shows "builder_inv b'"
proof (cases "b' = b")
  case False
  from this assms(2) obtain h i where i: "find_account h 0 (bd_signers b) = Ok (Some i)" "b' = b\<lparr>bd_signers := to_front i (bd_signers b)\<rparr>"
    by (rule first_signer_cases)
  then have "i < length (bd_signers b)" using find_account_index by fastforce
  then show ?thesis using i(2) assms(1) present_to_front by (auto intro!: inv_mset simp: to_front_def)
qed (use assms in simp)

lemma transfer_count: "transfer_signers A t ss = (r, t', n) \<Longrightarrow> n \<le> length ss"
  by (induction A t ss arbitrary: r t' n rule: transfer_signers.induct) (auto split: prod.splits result.splits)

lemma build_cases:
  assumes "neoc_tx_builder_build_unsigned A now p s = (r, s')"
  obtains (unchanged) "s' = s" and "r \<noteq> Ok p"
  | (built) t where "r = Ok p" and "s' = s\<lparr>bs_builder := (bs_builder s)\<lparr>bd_signers := [], bd_built_transaction := Some p\<rparr>, bs_transactions := (bs_transactions s)(p \<mapsto> t)\<rparr>"
  | (half) t t' e n where "r = Err e" and "transfer_signers A t (bd_signers (bs_builder s)) = (Err e, t', n)"
      and "s' = s\<lparr>bs_builder := (bs_builder s)\<lparr>bd_signers := replicate n None @ drop n (bd_signers (bs_builder s))\<rparr>\<rparr>"
proof (cases "bd_script (bs_builder s) = None \<or> bd_script_size (bs_builder s) = 0 \<or> bd_valid_until_block (bs_builder s) = 0 \<or> bd_signers (bs_builder s) = []")
  case True
  then have "s' = s" "r = Err NEOC_ERROR_INVALID_STATE" using assms by (auto simp: neoc_tx_builder_build_unsigned_def Let_def split: if_splits)
  then show thesis using unchanged by simp
next
  case False
  show thesis
  proof (cases "neoc_transaction_create A now")
    case (Ok t)
    obtain q t' n where tr: "transfer_signers A (fill_transaction A (bs_builder s) t) (bd_signers (bs_builder s)) = (q, t', n)" by (metis prod_cases3)
    then show thesis
      using assms False Ok by (cases q) (auto simp: neoc_tx_builder_build_unsigned_def Let_def intro: that)
  qed (use assms False in \<open>auto simp: neoc_tx_builder_build_unsigned_def Let_def intro: unchanged\<close>)
qed

lemma build_builder_inv:
  assumes "builder_inv (bs_builder s)" and "neoc_tx_builder_build_unsigned A now p s = (r, s')"
  shows "builder_inv (bs_builder s')"
proof -
  let ?b = "bs_builder s"
  from assms(2) show ?thesis
  proof (cases rule: build_cases)
    case (half t t' e n)
    from transfer_count [OF half(2)] have n: "n \<le> length (bd_signers ?b)" .
    have "present (bd_signers ?b) = present (take n (bd_signers ?b)) @ present (drop n (bd_signers ?b))"
      by (simp flip: present_append)
    then show ?thesis using n assms(1) unfolding builder_inv_def half(3) by simp
  qed (use assms(1) in \<open>simp_all add: builder_inv_def\<close>)
qed

lemma transfer_all:
  assumes "distinct (map sg_account ss)" and "\<forall>s \<in> set ss. sg_account s \<notin> set (map sg_account rs)" and "tx_signers t = map Some rs"
    and "\<And>k. k \<le> length rs + length ss \<Longrightarrow> A (k * 8)"
  shows "transfer_signers A t (map Some ss) = (Ok (), t\<lparr>tx_signers := map Some (rs @ ss)\<rparr>, length ss)"
  using assms
proof (induction ss arbitrary: t rs)
  case (Cons s ss)
  have "find_signer (sg_account s) (map Some rs) = Ok False" if "sg_account s \<notin> set (map sg_account rs)" using that by (induction rs) auto
  then have f: "find_signer (sg_account s) (tx_signers t) = Ok False" using Cons.prems by simp
  have "A ((length rs + 1) * 8)" by (rule Cons.prems(4)) simp
  then have add: "neoc_transaction_add_signer A (Some s) t = (Ok (), t\<lparr>tx_signers := map Some (rs @ [s])\<rparr>)"
    using f Cons.prems(3) by (simp add: neoc_transaction_add_signer_def)
  have "transfer_signers A (t\<lparr>tx_signers := map Some (rs @ [s])\<rparr>) (map Some ss) = (Ok (), t\<lparr>tx_signers := map Some (rs @ [s])\<rparr>\<lparr>tx_signers := map Some ((rs @ [s]) @ ss)\<rparr>, length ss)"
    by (rule Cons.IH) (use Cons.prems in \<open>auto simp: image_iff\<close>)
  with add show ?case by simp
qed simp

subsection \<open>Sequences of operations\<close>

datatype builder_op =
    Set_Version byte | Set_Nonce u32 | Set_Valid_Until u32 | Set_Valid_From_Rpc "u32 result" u32 | Set_Script "byte list option" | Add_Network_Fee u64
  | Add_System_Fee u64 | Add_Signer "neoc_signer option" | Add_Signer_From "neoc_account option" byte | First_Signer "neoc_account option"
  | Add_Attribute nat "neoc_tx_attribute option" | High_Priority bool | Build u64 nat | Fees u64 nat | Sign "neoc_account option list option"
  | Build_And_Sign u64 nat "neoc_account option list option" | Hash_Built u64 nat

text \<open>The state an operation leaves, whatever it reports.\<close>

definition builder_after :: "crypto \<Rightarrow> (nat \<Rightarrow> ecdsa) \<Rightarrow> curve \<Rightarrow> allocator \<Rightarrow> builder_op \<Rightarrow> builder_state \<Rightarrow> builder_state" where
  "builder_after C S K A oper s =
     (case oper of
        Set_Version v \<Rightarrow> snd (on_builder (neoc_tx_builder_set_version v) s)
      | Set_Nonce n \<Rightarrow> snd (on_builder (neoc_tx_builder_set_nonce n) s)
      | Set_Valid_Until h \<Rightarrow> snd (on_builder (neoc_tx_builder_set_valid_until_block h) s)
      | Set_Valid_From_Rpc h inc \<Rightarrow> snd (on_builder (neoc_tx_builder_set_valid_until_block_from_rpc h inc) s)
      | Set_Script bs \<Rightarrow> snd (on_builder (neoc_tx_builder_set_script A bs) s)
      | Add_Network_Fee f \<Rightarrow> snd (on_builder (neoc_tx_builder_add_network_fee f) s)
      | Add_System_Fee f \<Rightarrow> snd (on_builder (neoc_tx_builder_add_system_fee f) s)
      | Add_Signer x \<Rightarrow> snd (on_builder (neoc_tx_builder_add_signer A K x) s)
      | Add_Signer_From a scope \<Rightarrow> snd (on_builder (neoc_tx_builder_add_signer_from_account A K a scope) s)
      | First_Signer a \<Rightarrow> snd (on_builder (neoc_tx_builder_set_first_signer a) s)
      | Add_Attribute q a \<Rightarrow> snd (neoc_tx_builder_add_attribute A q a s)
      | High_Priority b \<Rightarrow> snd (neoc_tx_builder_set_high_priority A b s)
      | Build now p \<Rightarrow> snd (neoc_tx_builder_build_unsigned A now p s)
      | Fees now p \<Rightarrow> snd (neoc_tx_builder_calculate_fees A now p s)
      | Sign as \<Rightarrow> snd (neoc_tx_builder_sign C S A as s)
      | Build_And_Sign now p as \<Rightarrow> snd (neoc_tx_builder_build_and_sign C S A now p as s)
      | Hash_Built now p \<Rightarrow> snd (neoc_tx_builder_get_hash C A now p s))"

text \<open>The script hashes that come in have twenty bytes.\<close>

definition builder_allowed :: "builder_op \<Rightarrow> bool" where
  "builder_allowed oper =
     (case oper of
        Add_Signer (Some x) \<Rightarrow> length (sg_account x) = 20
      | Add_Signer_From (Some a) _ \<Rightarrow> length (ac_script_hash a) = 20
      | _ \<Rightarrow> True)"

inductive builder_reach :: "crypto \<Rightarrow> curve \<Rightarrow> builder_state \<Rightarrow> bool" for C K where
    builder_new: "neoc_tx_builder_create A nonce = Ok b \<Longrightarrow> builder_reach C K \<lparr>bs_builder = b, bs_transactions = txs, bs_blocks = blocks\<rparr>"
  | builder_run: "builder_reach C K s \<Longrightarrow> builder_allowed oper \<Longrightarrow> builder_reach C K (builder_after C S K A oper s)"
  | builder_client: "builder_reach C K s \<Longrightarrow> builder_reach C K (s\<lparr>bs_transactions := txs, bs_blocks := blocks\<rparr>)"

text \<open>Commands that leave the signers alone, or keep the invariant.\<close>

abbreviation keeps_inv :: "(builder_state, 'a) cmd \<Rightarrow> bool" where
  "keeps_inv \<equiv> keeps (\<lambda>s. builder_inv (bs_builder s))"

lemmas keeps_inv_iff = keeps_def [of "\<lambda>s. builder_inv (bs_builder s)"]

lemma keeps_inv_then [intro]: "keeps_inv m \<Longrightarrow> keeps_inv n \<Longrightarrow> keeps_inv (then_c m n)"
  unfolding then_c_def by (rule keeps_bind)

lemma keeps_inv_foreach [intro]: "(\<And>x. keeps_inv (f x)) \<Longrightarrow> keeps_inv (foreach_c f xs)"
  by (induction xs) (auto intro: keeps_simple)

lemma keeps_inv_heaps [intro]:
  "keeps_inv (on_transaction p m)" "keeps_inv (neoc_transaction_free p)" "keeps_inv (free_data slot)"
  by (auto simp: keeps_inv_iff on_transaction_def neoc_transaction_free_def free_data_def free_block_def return_c_def split: option.splits prod.splits)

lemma same_signers_inv: "builder_inv b \<Longrightarrow> bd_signers b' = bd_signers b \<Longrightarrow> builder_inv b'"
  by (simp add: builder_inv_def)

lemma keeps_inv_attribute [intro]: "keeps_inv (neoc_tx_builder_add_attribute A q a)"
  unfolding keeps_inv_iff neoc_tx_builder_add_attribute_def
  by (auto simp: Let_def builder_inv_def split: option.splits)

lemma keeps_inv_build [intro]: "keeps_inv (neoc_tx_builder_build_unsigned A now p)"
  unfolding keeps_inv_iff using build_builder_inv surjective_pairing by blast

lemma keeps_inv_sign [intro]: "keeps_inv (neoc_tx_builder_sign C S A as)"
proof -
  have "keeps_inv (then_c (foreach_c (\<lambda>(i, a). on_transaction p (neoc_transaction_sign C (S i) A a)) xs)
      (\<lambda>s. (Ok (), s\<lparr>bs_builder := (bs_builder s)\<lparr>bd_is_signed := True\<rparr>\<rparr>)))" for p xs
    by (intro keeps_inv_then keeps_inv_foreach) (auto simp: keeps_def [of _ "\<lambda>s. (_ s, _ s)"] same_signers_inv split: prod.split)
  then show ?thesis unfolding keeps_inv_iff neoc_tx_builder_sign_def by (auto split: option.splits)
qed

lemma keeps_inv_priority [intro]: "keeps_inv (neoc_tx_builder_set_high_priority A b)"
proof -
  have "keeps_inv (\<lambda>s. let b = bs_builder s; n = bd_attribute_count b in
      case find_priority 0 (take n (bd_attributes b)) of
        None \<Rightarrow> (Ok (), s)
      | Some i \<Rightarrow> then_c (free_data (bd_attributes b ! i))
          (\<lambda>s. (Ok (), s\<lparr>bs_builder := b\<lparr>bd_attributes := shift_slots i n (bd_attributes b), bd_attribute_count := n - 1\<rparr>\<rparr>)) s)"
    unfolding keeps_inv_iff
    by (auto simp: Let_def then_c_def bind_c_def free_data_def free_block_def return_c_def builder_inv_def split: option.splits result.splits prod.splits if_splits)
  moreover have "keeps_inv (if b then neoc_tx_builder_add_attribute A 0 (Some \<lparr>at_type = NEOC_TX_ATTR_HIGH_PRIORITY, at_data = []\<rparr>) else return_c ())"
    using keeps_simple(3) by (cases b) auto
  ultimately show ?thesis unfolding neoc_tx_builder_set_high_priority_def by (rule keeps_inv_then)
qed

lemma keeps_inv_fees [intro]: "keeps_inv (neoc_tx_builder_calculate_fees A now p)"
proof -
  have free: "builder_inv (bs_builder s) \<Longrightarrow> builder_inv (bs_builder (snd (then_c (neoc_transaction_free q) m s)))" if "keeps_inv m" for m :: "(builder_state, 'a) cmd" and q s
    using keeps_inv_then [OF keeps_inv_heaps(2) that, of q] by (simp add: keeps_inv_iff)
  have "builder_inv (bs_builder (snd (neoc_tx_builder_calculate_fees A now p s)))" if "builder_inv (bs_builder s)" for s
  proof -
    obtain r s1 where b: "neoc_tx_builder_build_unsigned A now p s = (r, s1)" by (metis prod.exhaust)
    then have "builder_inv (bs_builder s1)" using build_builder_inv that by blast
    then show ?thesis using free [OF keeps_simple(2)] free [OF keeps_simple(3)]
      by (cases r) (auto simp: neoc_tx_builder_calculate_fees_def Let_def b split: result.splits)
  qed
  then show ?thesis by (simp add: keeps_inv_iff)
qed

lemma keeps_inv_build_and_sign [intro]: "keeps_inv (neoc_tx_builder_build_and_sign C S A now p as)"
proof (cases as)
  case (Some xs)
  have "keeps_inv (\<lambda>s. case neoc_tx_builder_sign C S A (Some xs) s of
      (Ok _, s') \<Rightarrow> (Ok tx, s') | (Err e, s') \<Rightarrow> then_c (neoc_transaction_free tx) (fail_c e) s' | (Fault, s') \<Rightarrow> (Fault, s'))" for tx
  proof -
    have "builder_inv (bs_builder s')" if "neoc_tx_builder_sign C S A (Some xs) s = (r, s')" "builder_inv (bs_builder s)" for s s' r
      using keeps_inv_sign [of C S A "Some xs"] that unfolding keeps_inv_iff by (metis snd_conv)
    moreover have "keeps_inv (then_c (neoc_transaction_free tx) (fail_c e) :: (builder_state, nat) cmd)" for e
      by (intro keeps_inv_then keeps_inv_heaps keeps_simple)
    ultimately show ?thesis unfolding keeps_inv_iff by (auto split: prod.splits result.splits)
  qed
  then show ?thesis unfolding neoc_tx_builder_build_and_sign_def Some option.case by (intro keeps_bind keeps_inv_build)
qed (simp add: neoc_tx_builder_build_and_sign_def keeps_simple)

lemma keeps_inv_hash [intro]: "keeps_inv (neoc_tx_builder_get_hash C A now p)"
proof -
  have "keeps_inv (\<lambda>s. if bd_built_transaction (bs_builder s) = None then then_c (neoc_tx_builder_build_unsigned A now p) (return_c ()) s else (Ok (), s))"
    using keeps_inv_then [OF keeps_inv_build keeps_simple(3), of A now p "()"] by (simp add: keeps_inv_iff)
  moreover have "keeps_inv (\<lambda>s. case bd_built_transaction (bs_builder s) of
      None \<Rightarrow> (Err NEOC_ERROR_INVALID_ARGUMENT, s) | Some tx \<Rightarrow> on_transaction tx (neoc_transaction_calculate_hash C A) s)"
    using keeps_inv_heaps(1) [of _ "neoc_transaction_calculate_hash C A"] unfolding keeps_inv_iff by (auto split: option.splits)
  ultimately show ?thesis unfolding neoc_tx_builder_get_hash_def by (rule keeps_inv_then)
qed

lemma setters_inv:
  "builder_inv b \<Longrightarrow> builder_inv (snd (neoc_tx_builder_set_version v b))"
  "builder_inv b \<Longrightarrow> builder_inv (snd (neoc_tx_builder_set_nonce n b))"
  "builder_inv b \<Longrightarrow> builder_inv (snd (neoc_tx_builder_set_valid_until_block h b))"
  "builder_inv b \<Longrightarrow> builder_inv (snd (neoc_tx_builder_set_valid_until_block_from_rpc c inc b))"
  "builder_inv b \<Longrightarrow> builder_inv (snd (neoc_tx_builder_set_script A bs b))"
  "builder_inv b \<Longrightarrow> builder_inv (snd (neoc_tx_builder_add_network_fee f b))"
  "builder_inv b \<Longrightarrow> builder_inv (snd (neoc_tx_builder_add_system_fee f b))"
  by (auto simp: builder_inv_def neoc_tx_builder_set_version_def neoc_tx_builder_set_nonce_def neoc_tx_builder_set_valid_until_block_def
      neoc_tx_builder_set_valid_until_block_from_rpc_def neoc_tx_builder_set_script_def neoc_tx_builder_add_network_fee_def
      neoc_tx_builder_add_system_fee_def bind_c_def lift_c_def Let_def split: option.splits result.splits)

lemma signer_ops_inv:
  "builder_inv b \<Longrightarrow> (\<And>x. signer = Some x \<Longrightarrow> length (sg_account x) = 20) \<Longrightarrow> builder_inv (snd (neoc_tx_builder_add_signer A K signer b))"
  "builder_inv b \<Longrightarrow> builder_inv (snd (neoc_tx_builder_set_first_signer account b))"
  "builder_inv b \<Longrightarrow> (\<And>x. account = Some x \<Longrightarrow> length (ac_script_hash x) = 20)
    \<Longrightarrow> builder_inv (snd (neoc_tx_builder_add_signer_from_account A K account scope b))"
proof -
  show add: "builder_inv (snd (neoc_tx_builder_add_signer A K signer b))" if "builder_inv b" "\<And>x. signer = Some x \<Longrightarrow> length (sg_account x) = 20" for signer
    using add_signer_builder_inv [OF that(1), of signer A K] that(2) by (metis surjective_pairing)
  show "builder_inv (snd (neoc_tx_builder_set_first_signer account b))" if "builder_inv b"
    using first_signer_builder_inv [OF that] by (metis surjective_pairing)
  show "builder_inv (snd (neoc_tx_builder_add_signer_from_account A K account scope b))"
    if "builder_inv b" "\<And>x. account = Some x \<Longrightarrow> length (ac_script_hash x) = 20"
  proof (cases account)
    case (Some a)
    have "\<And>x. neoc_signer_create A (Some (ac_script_hash a)) scope = Ok x \<Longrightarrow> length (sg_account x) = 20"
      using that(2) Some by (auto simp: neoc_signer_create_def bind_r_Ok_iff)
    then show ?thesis using that(1) add
      by (cases "neoc_signer_create A (Some (ac_script_hash a)) scope")
         (auto simp: Some neoc_tx_builder_add_signer_from_account_def neoc_account_get_script_hash_copy_def cmd_eval)
  qed (use that in \<open>simp add: neoc_tx_builder_add_signer_from_account_def cmd_eval\<close>)
qed

lemma on_builder_inv: "(\<And>b. builder_inv b \<Longrightarrow> builder_inv (snd (m b))) \<Longrightarrow> builder_inv (bs_builder s) \<Longrightarrow> builder_inv (bs_builder (snd (on_builder m s)))"
  by (simp add: on_builder_def split: prod.split) (metis snd_conv)

lemma builder_after_inv:
  assumes "builder_inv (bs_builder s)" and "builder_allowed oper"
  shows "builder_inv (bs_builder (builder_after C S K A oper s))"
proof (cases oper)
  case (Add_Signer x)
  then have "\<And>y. x = Some y \<Longrightarrow> length (sg_account y) = 20" using assms(2) by (simp add: builder_allowed_def)
  then have "builder_inv (bs_builder (snd (on_builder (neoc_tx_builder_add_signer A K x) s)))"
    by (intro on_builder_inv signer_ops_inv(1) assms(1))
  then show ?thesis by (simp add: Add_Signer builder_after_def)
next
  case (Add_Signer_From a scope)
  then have "\<And>y. a = Some y \<Longrightarrow> length (ac_script_hash y) = 20" using assms(2) by (simp add: builder_allowed_def)
  then have "builder_inv (bs_builder (snd (on_builder (neoc_tx_builder_add_signer_from_account A K a scope) s)))"
    by (intro on_builder_inv signer_ops_inv(3) assms(1))
  then show ?thesis by (simp add: Add_Signer_From builder_after_def)
next
  case (Build now p)
  then show ?thesis using assms(1) keeps_inv_build by (auto simp: builder_after_def keeps_inv_iff)
next
  case (Fees now p)
  then show ?thesis using assms(1) keeps_inv_fees by (auto simp: builder_after_def keeps_inv_iff)
next
  case (Sign as)
  then show ?thesis using assms(1) keeps_inv_sign by (auto simp: builder_after_def keeps_inv_iff)
next
  case (Build_And_Sign now p as)
  then show ?thesis using assms(1) keeps_inv_build_and_sign by (auto simp: builder_after_def keeps_inv_iff)
next
  case (Hash_Built now p)
  then show ?thesis using assms(1) keeps_inv_hash by (auto simp: builder_after_def keeps_inv_iff)
next
  case (High_Priority b)
  then show ?thesis using assms(1) keeps_inv_priority by (auto simp: builder_after_def keeps_inv_iff)
next
  case (Add_Attribute q a)
  then show ?thesis using assms(1) keeps_inv_attribute by (auto simp: builder_after_def keeps_inv_iff)
qed (use assms setters_inv signer_ops_inv(2) in \<open>auto simp: builder_after_def intro!: on_builder_inv\<close>)

lemma builder_reach_inv: "builder_reach C K s \<Longrightarrow> builder_inv (bs_builder s)"
proof (induction rule: builder_reach.induct)
  case (builder_new A nonce b txs blocks)
  then show ?case by (auto simp: neoc_tx_builder_create_def bind_r_Ok_iff builder_inv_def)
qed (auto intro: builder_after_inv)

lemma first_signer_moves:
  assumes "bd_signers b = map Some ss" and "\<forall>x \<in> set ss. length (sg_account x) = 20" and "distinct (map sg_account ss)"
    and "x \<in> set ss" and "ac_script_hash a = sg_account x"
  shows "neoc_tx_builder_set_first_signer (Some a) b = (Ok (), b\<lparr>bd_signers := map Some (x # filter (\<lambda>y. y \<noteq> x) ss)\<rparr>)"
proof -
  obtain us vs where ss: "ss = us @ x # vs" using split_list [OF assms(4)] by blast
  have ne: "\<forall>y \<in> set us \<union> set vs. sg_account y \<noteq> sg_account x" using assms(3) by (auto simp: ss) (metis imageI)+
  then have "\<forall>y \<in> set us \<union> set vs. y \<noteq> x" by blast
  then have f: "filter (\<lambda>y. y \<noteq> x) ss = us @ vs" by (simp add: ss filter_id_conv)
  have "length (sg_account x) = 20" using assms(2,4) by blast
  moreover have "takeWhile (\<lambda>s. sg_account s \<noteq> sg_account x) ss = us" using ne by (simp add: ss takeWhile_append2)
  ultimately have "find_account (sg_account x) 0 (bd_signers b) = Ok (Some (length us))"
    using find_account_present [OF assms(2), of "sg_account x" 0] assms(1,4) by auto
  moreover have "to_front (length us) (bd_signers b) = map Some (x # us @ vs)" by (simp add: to_front_def assms(1) ss nth_append)
  moreover have "b\<lparr>bd_signers := map Some (x # us @ vs)\<rparr> = b" if "us = []" using that assms(1) ss by simp
  ultimately show ?thesis
    by (cases us) (simp_all add: neoc_tx_builder_set_first_signer_def neoc_account_get_script_hash_copy_def assms(5) f)
qed

text \<open>What a builder that has everything makes.\<close>

definition ready :: "allocator \<Rightarrow> neoc_tx_builder \<Rightarrow> byte list \<Rightarrow> neoc_signer list \<Rightarrow> bool" where
  "ready A b bs ss \<longleftrightarrow> bd_script b = Some bs \<and> bs \<noteq> [] \<and> bd_script_size b = length bs \<and> bd_valid_until_block b \<noteq> 0
     \<and> bd_signers b = map Some ss \<and> ss \<noteq> [] \<and> distinct (map sg_account ss) \<and> grants A (128 + length bs + 8 * length ss)"

definition unsigned_transaction :: "neoc_tx_builder \<Rightarrow> byte list \<Rightarrow> neoc_signer list \<Rightarrow> neoc_transaction" where
  "unsigned_transaction b bs ss =
     \<lparr>tx_version = bd_version b, tx_nonce = bd_nonce b, tx_system_fee = bd_system_fee b, tx_network_fee = bd_network_fee b,
      tx_valid_until_block = bd_valid_until_block b, tx_signers = map Some ss, tx_attributes = [], tx_script = Some bs, tx_script_len = length bs,
      tx_witnesses = [], tx_hash = replicate 32 0\<rparr>"

lemma ready_builds:
  assumes "ready A (bs_builder s) bs ss"
  shows "neoc_tx_builder_build_unsigned A now p s
    = (Ok p, s\<lparr>bs_builder := (bs_builder s)\<lparr>bd_signers := [], bd_built_transaction := Some p\<rparr>,
             bs_transactions := (bs_transactions s)(p \<mapsto> unsigned_transaction (bs_builder s) bs ss)\<rparr>)"
proof -
  let ?b = "bs_builder s"
  have A: "A n" if "n \<le> 128 + length bs + 8 * length ss" for n using assms that by (simp add: ready_def grants_def)
  obtain t where t: "neoc_transaction_create A now = Ok t" "tx_signers t = []" "tx_attributes t = []" "tx_witnesses t = []" "tx_hash t = replicate 32 0"
    using A [of 128] by (simp add: neoc_transaction_create_def sizeof_transaction_def)
  let ?t = "fill_transaction A ?b t"
  have f: "?t = t\<lparr>tx_version := bd_version ?b, tx_nonce := bd_nonce ?b, tx_valid_until_block := bd_valid_until_block ?b, tx_system_fee := bd_system_fee ?b,
      tx_network_fee := bd_network_fee ?b, tx_script := Some bs, tx_script_len := length bs\<rparr>"
    using assms A [of "length bs"]
    by (simp add: fill_transaction_def ready_def neoc_transaction_set_version_def neoc_transaction_set_nonce_def neoc_transaction_set_valid_until_block_def
        neoc_transaction_set_system_fee_def neoc_transaction_set_network_fee_def neoc_transaction_set_script_def)
  have "transfer_signers A ?t (map Some ss) = (Ok (), ?t\<lparr>tx_signers := map Some ([] @ ss)\<rparr>, length ss)"
    by (rule transfer_all) (use assms A t(2) in \<open>auto simp: ready_def f\<close>)
  moreover have "?t\<lparr>tx_signers := map Some ss\<rparr> = unsigned_transaction ?b bs ss"
    unfolding f unsigned_transaction_def using t(2-) by (cases t) simp
  ultimately show ?thesis using assms t(1) by (simp add: neoc_tx_builder_build_unsigned_def ready_def Let_def)
qed

text \<open>The size and the bytes of the built transaction.\<close>

lemma serialize_built:
  assumes "tx_ok K t" and "grants A (tx_need t)"
  shows "neoc_transaction_serialize A (Some t) n = (if n < length (enc_tx t) then Err NEOC_ERROR_BUFFER_TOO_SMALL else Ok (enc_tx t))"
  using build_serialized_Ok [OF assms, of True] by (simp add: neoc_transaction_serialize_def enc_tx_def enc_if_def)

lemma fees_of_ready:
  assumes "ready A (bs_builder s) bs ss" and "tx_ok K (unsigned_transaction (bs_builder s) bs ss)"
    and "grants A (tx_need (unsigned_transaction (bs_builder s) bs ss))"
  defines "t \<equiv> unsigned_transaction (bs_builder s) bs ss"
  shows "neoc_tx_builder_calculate_fees A now p s
    = (Ok (if sum_list (map uncounted ss) = 0 then size_fees (length (enc_tx t)) (length ss)
           else if 0 < bd_network_fee (bs_builder s) then bd_network_fee (bs_builder s) else 100000,
           if 0 < bd_system_fee (bs_builder s) then bd_system_fee (bs_builder s) else 100000 + of_nat (length bs) * 10000),
       s\<lparr>bs_builder := (bs_builder s)\<lparr>bd_signers := [], bd_built_transaction := Some p\<rparr>, bs_transactions := (bs_transactions s)(p := None)\<rparr>)"
proof -
  have k: "tx_ok K t" "grants A (tx_need t)" using assms(2,3) by (simp_all add: t_def)
  obtain m where m: "neoc_transaction_get_size (Some t) = Ok m" "length (enc_tx t) = m + sum_list (map uncounted ss)"
    using tx_size [OF k(1)] by (auto simp: t_def unsigned_transaction_def comp_def)
  have "m \<noteq> 0" using m(1) by (auto simp: neoc_transaction_get_size_def bind_r_Ok_iff)
  then have "neoc_malloc_r A m = Ok ()" using k(2) m(2) by (simp add: grants_def tx_need_def)
  moreover have "bd_signers (bs_builder s) = map Some ss" "bd_script_size (bs_builder s) = length bs" using assms(1) by (simp_all add: ready_def)
  ultimately show ?thesis
    using m(2) unfolding neoc_tx_builder_calculate_fees_def Let_def ready_builds [OF assms(1)]
    by (simp add: m(1) serialize_built [OF k] then_c_def bind_c_def neoc_transaction_free_def return_c_def del: sum_list_eq_0_iff flip: t_def)
qed

text \<open>The script of a token transfer.\<close>

definition transfer_layout :: "crypto \<Rightarrow> interop_table \<Rightarrow> neoc_hash160 \<Rightarrow> neoc_hash160 \<Rightarrow> neoc_hash160 \<Rightarrow> u64 \<Rightarrow> byte list option \<Rightarrow> byte list" where
  "transfer_layout C T token from_hash to_hash amount data =
     (case data of Some d \<Rightarrow> if d = [] then [0x0B] else enc_push_data d | None \<Rightarrow> [0x0B]) @ enc_push_int amount
     @ enc_push_data to_hash @ enc_push_data from_hash @ [0x14, 0xC0] @ enc_push_data transfer_name @ enc_push_data token
     @ enc_syscall (contract_call_hash C T)"

lemma length_transfer_name [simp]: "length transfer_name = 8"
  by (simp add: transfer_name_def string_bytes_def)

lemma writes_transfer:
  assumes "length token = 20" and "length from_hash = 20" and "length to_hash = 20" and "\<forall>d. data = Some d \<longrightarrow> length d < 2 ^ 32"
    and "writes A m (enc_syscall (contract_call_hash C T) @ bs)"
  shows "writes A
       (then_c (case data of
                  Some d \<Rightarrow> if 0 < length d then neoc_script_builder_push_data A (Some d) (of_nat (length d))
                             else neoc_script_builder_emit A NEOC_OP_PUSHNULL
                | None \<Rightarrow> neoc_script_builder_emit A NEOC_OP_PUSHNULL)
       (then_c (neoc_script_builder_push_integer A amount)
       (then_c (neoc_script_builder_push_data A (Some to_hash) 20)
       (then_c (neoc_script_builder_push_data A (Some from_hash) 20)
       (then_c (neoc_script_builder_push_integer A 4)
       (then_c (neoc_script_builder_emit A NEOC_OP_PACK)
       (then_c (neoc_script_builder_push_string A (Some transfer_name))
       (then_c (neoc_script_builder_push_data A (Some token) 20) m))))))))
    (transfer_layout C T token from_hash to_hash amount data @ bs)"
proof -
  have h: "writes A (neoc_script_builder_push_data A (Some x) 20) (enc_push_data x)" if "length x = 20" for x
    using writes_push_data [of 20 x A] that by simp
  have n: "writes A (neoc_script_builder_push_string A (Some transfer_name)) (enc_push_data transfer_name)"
    by (rule writes_push_string) simp
  have d: "writes A (case data of
         Some d \<Rightarrow> if 0 < length d then neoc_script_builder_push_data A (Some d) (of_nat (length d)) else neoc_script_builder_emit A NEOC_OP_PUSHNULL
       | None \<Rightarrow> neoc_script_builder_emit A NEOC_OP_PUSHNULL)
     (case data of Some d \<Rightarrow> if d = [] then [0x0B] else enc_push_data d | None \<Rightarrow> [0x0B])"
    using assms(4) by (auto intro: writes_emit writes_push_bytes split: option.split)
  have four: "enc_push_int 4 = [0x14]" by (simp add: enc_push_int_def)
  show ?thesis unfolding transfer_layout_def append_assoc append_Cons append_Nil
    by (intro writes_then d writes_push_integer h assms(1-3) writes_emit_then n assms(5)
        writes_then [OF writes_push_integer [of A 4], unfolded four append_Cons append_Nil])
qed

lemma transfer_layout_length:
  assumes "length token = 20" and "length from_hash = 20" and "length to_hash = 20"
  shows "length (transfer_layout C T token from_hash to_hash amount data) \<le> 128 + (case data of Some d \<Rightarrow> length d | None \<Rightarrow> 0)"
proof -
  have "length (enc_push_data x) \<le> length x + 5" for x by (simp add: enc_push_data_def)
  from this [of token] this [of from_hash] this [of to_hash] this [of transfer_name] this [of "the data"] show ?thesis
    using assms length_enc_push_int [of amount] by (cases data) (simp_all add: transfer_layout_def enc_syscall_def)
qed

lemma signer_from_account_Ok:
  assumes "grants A 512" and "length (bd_signers b) < 16" and "ac_script_hash a \<notin> set (map sg_account (present (bd_signers b)))" and "length (ac_script_hash a) = 20"
  shows "neoc_tx_builder_add_signer_from_account A K (Some a) (ucast NEOC_WITNESS_SCOPE_CALLED_BY_ENTRY) b
    = (Ok (), b\<lparr>bd_signers := bd_signers b @ [Some \<lparr>sg_account = ac_script_hash a, sg_scopes = 1, allowed_contracts = [], allowed_groups = [],
         groups_live = True, sizes_live = True, sg_rules = []\<rparr>]\<rparr>)"
proof -
  let ?s = "\<lparr>sg_account = ac_script_hash a, sg_scopes = 1 :: byte, allowed_contracts = [], allowed_groups = [], groups_live = True, sizes_live = True, sg_rules = []\<rparr>"
  have "signer_ok K ?s" using assms(4) by (simp add: signer_ok_def signer_inv_def bit_numeral_simps)
  then have "neoc_signer_copy A K (Some ?s) = Ok ?s" by (rule copy_signer) (use assms(1) in \<open>auto elim!: grants_mono\<close>)
  moreover have "A sizeof_signer" using assms(1) by (simp add: grants_def sizeof_signer_def)
  ultimately show ?thesis
    using assms(2,3) same_account_iff [of ?s "bd_signers b"]
    by (simp add: neoc_tx_builder_add_signer_from_account_def neoc_account_get_script_hash_copy_def neoc_signer_create_def cmd_eval scope_values
        neoc_tx_builder_add_signer_def TX_BUILDER_MAX_SIGNERS_def bind_c_def lift_c_def)
qed

subsection \<open>Theorems\<close>

text \<open>C19.  Whatever sequence of calls a client makes, failing ones included: the builder holds at most sixteen signers, no two of them for the same
  account.  A further signer for an account that is there is refused and changes nothing.  While no signer is null, the signer of an account can be
  made the first one, which keeps the order of the others.\<close>

theorem builder_signers_distinct:
  assumes "builder_reach C K s"
  defines "b \<equiv> bs_builder s"
  shows "length (bd_signers b) \<le> TX_BUILDER_MAX_SIGNERS \<and> distinct (map sg_account (present (bd_signers b)))
    \<and> (\<forall>x. length (bd_signers b) < TX_BUILDER_MAX_SIGNERS \<and> sg_account x \<in> set (map sg_account (present (bd_signers b)))
         \<longrightarrow> neoc_tx_builder_add_signer A K (Some x) b = (Err NEOC_ERROR_INVALID_STATE, b))
    \<and> (\<forall>ss x a. bd_signers b = map Some ss \<and> x \<in> set ss \<and> ac_script_hash a = sg_account x
         \<longrightarrow> neoc_tx_builder_set_first_signer (Some a) b = (Ok (), b\<lparr>bd_signers := map Some (x # filter (\<lambda>y. y \<noteq> x) ss)\<rparr>))"
proof -
  have inv: "builder_inv b" using builder_reach_inv [OF assms(1)] by (simp add: b_def)
  have "neoc_tx_builder_set_first_signer (Some a) b = (Ok (), b\<lparr>bd_signers := map Some (x # filter (\<lambda>y. y \<noteq> x) ss)\<rparr>)"
    if "bd_signers b = map Some ss" "x \<in> set ss" "ac_script_hash a = sg_account x" for ss x a
    by (rule first_signer_moves) (use inv that in \<open>simp_all add: builder_inv_def\<close>)
  then show ?thesis using inv same_account_iff [of _ "bd_signers b"] by (auto simp: builder_inv_def neoc_tx_builder_add_signer_def TX_BUILDER_MAX_SIGNERS_def)
qed

text \<open>C20.  A builder with a script, signers for different accounts and a block makes the unsigned transaction with its fields, script and signers, at
  the address the allocation gave; the builder serializes this transaction into a buffer that is large enough.  The attributes of the builder are
  not in the transaction.  The signers have moved: building again is refused.\<close>

theorem builder_builds_transaction:
  assumes "ready A (bs_builder s) bs ss" and "tx_ok K t" and "grants A (tx_need t)"
    and "t = unsigned_transaction (bs_builder s) bs ss"
  shows "\<exists>s'. neoc_tx_builder_build_unsigned A now p s = (Ok p, s') \<and> bs_transactions s' p = Some t \<and> tx_attributes t = []
    \<and> neoc_tx_builder_serialize A s' n = (if n < length (enc_tx t) then Err NEOC_ERROR_BUFFER_TOO_SMALL else Ok (enc_tx t))
    \<and> bd_signers (bs_builder s') = [] \<and> neoc_tx_builder_build_unsigned A now' p' s' = (Err NEOC_ERROR_INVALID_STATE, s')"
  unfolding ready_builds [OF assms(1)] using assms(1) serialize_built [OF assms(2,3), of n] assms(4)
  by (simp add: neoc_tx_builder_serialize_def neoc_tx_builder_build_unsigned_def ready_def unsigned_transaction_def)

text \<open>C21.  Calculating the fees of such a builder: a thousand per byte of the unsigned transaction and a million per signer, at least a hundred
  thousand; but when the size of some signer is under-reported the network fee set before, or the default.  The call consumes the builder: it
  builds and releases the transaction, keeps its address and leaves no signers.  Signing afterwards uses the released transaction, and building is
  refused.\<close>

theorem fees_consume_builder:
  assumes "ready A (bs_builder s) bs ss" and "tx_ok K t" and "grants A (tx_need t)"
    and "t = unsigned_transaction (bs_builder s) bs ss" and "accounts \<noteq> []"
  shows "\<exists>s'. neoc_tx_builder_calculate_fees A now p s
      = (Ok (if sum_list (map uncounted ss) = 0 then size_fees (length (enc_tx t)) (length ss)
             else if 0 < bd_network_fee (bs_builder s) then bd_network_fee (bs_builder s) else 100000,
             if 0 < bd_system_fee (bs_builder s) then bd_system_fee (bs_builder s) else 100000 + of_nat (length bs) * 10000), s')
    \<and> bd_signers (bs_builder s') = [] \<and> bd_built_transaction (bs_builder s') = Some p \<and> bs_transactions s' p = None
    \<and> fst (neoc_tx_builder_sign C S A (Some accounts) s') = Fault
    \<and> fst (neoc_tx_builder_build_unsigned A now' p' s') = Err NEOC_ERROR_INVALID_STATE"
proof -
  have "foreach_c (\<lambda>(i, a). on_transaction p (neoc_transaction_sign C (S i) A a)) (enumerate 0 accounts) s' = (Fault, s')" if "bs_transactions s' p = None" for s'
    using that assms(5) by (cases accounts) (simp_all add: on_transaction_def then_c_def bind_c_def)
  then show ?thesis
    using assms(1,5) unfolding assms(4) fees_of_ready [OF assms(1-3) [unfolded assms(4)]]
    by (simp add: neoc_tx_builder_sign_def neoc_tx_builder_build_unsigned_def ready_def then_c_def bind_c_def)
qed

text \<open>C22.  A new builder that is given the high-priority attribute, an attribute with data, and the high-priority attribute once more, holds the
  address of the data twice: the slot that the removal leaves behind is used again with its old data fields.  Releasing the builder releases the data
  twice.\<close>

theorem priority_double_free:
  assumes "neoc_tx_builder_create A nonce = Ok b" and "d \<noteq> []" and "A (length d)" and "ty \<noteq> NEOC_TX_ATTR_HIGH_PRIORITY"
  shows "\<exists>s. then_c (neoc_tx_builder_set_high_priority A True)
           (then_c (neoc_tx_builder_add_attribute A q (Some \<lparr>at_type = ty, at_data = d\<rparr>)) (neoc_tx_builder_set_high_priority A True))
           \<lparr>bs_builder = b, bs_transactions = txs, bs_blocks = blocks\<rparr> = (Ok (), s)
         \<and> bd_attribute_count (bs_builder s) = 2 \<and> map sl_data (take 2 (bd_attributes (bs_builder s))) = [Some q, Some q]
         \<and> fst (neoc_tx_builder_free s) = Fault"
  using assms
  by (auto simp: neoc_tx_builder_create_def bind_r_Ok_iff neoc_tx_builder_set_high_priority_def neoc_tx_builder_add_attribute_def
      then_c_def bind_c_def return_c_def builder_consts free_data_def free_block_def shift_slots_def neoc_tx_builder_free_def Let_def numeral_eq_Suc)

text \<open>C23.  The builder for a token transfer puts the same script together as the script helper, without the assertion that the helper adds at the
  end: the data or null, the amount, the receiver and the sender, packed into an array of four, the name and the token, and the system call, with no
  call flags.  Its only signer is the sender, for calls from the entry script.\<close>

theorem transfer_builder_script:
  fixes C :: crypto and T :: interop_table and amount :: u64
  assumes "length token = 20" and "length (ac_script_hash a) = 20" and "length to_hash = 20" and "\<forall>d. data = Some d \<longrightarrow> length d \<le> 65000"
    and "neoc_hash160_from_address C A (Some address) = Ok to_hash" and "grants A (2 ^ 20)"
  defines "script \<equiv> transfer_layout C T token (ac_script_hash a) to_hash amount data"
  shows "neoc_script_create_nep17_transfer A C T (Some token) (Some (ac_script_hash a)) (Some to_hash) amount data = Ok (script @ [NEOC_OP_ASSERT])
    \<and> (\<exists>b. neoc_tx_builder_create_nep17_transfer A C T K nonce (Some token) (Some a) (Some address) amount data = Ok b
         \<and> bd_script b = Some script \<and> bd_script_size b = length script \<and> bd_nonce b = nonce \<and> bd_valid_until_block b = TX_DEFAULT_VALID_UNTIL_BLOCK
         \<and> bd_signers b = [Some \<lparr>sg_account = ac_script_hash a, sg_scopes = 1, allowed_contracts = [], allowed_groups = [],
              groups_live = True, sizes_live = True, sg_rules = []\<rparr>])"
proof -
  have small: "\<forall>d. data = Some d \<longrightarrow> length d < 2 ^ 32" using assms(4) by auto
  have len: "length script \<le> 65128"
    using transfer_layout_length [OF assms(1-3), of C T amount data] assms(4) by (auto simp: script_def split: option.splits)
  note run = run_builder_Ok [where A = A]
  have "neoc_script_create_nep17_transfer A C T (Some token) (Some (ac_script_hash a)) (Some to_hash) amount data = Ok (script @ [NEOC_OP_ASSERT])"
    unfolding neoc_script_create_nep17_transfer_def script_def prod.case option.case
    by (intro run writes_transfer writes_then writes_emit_syscall writes_emit assms(1-3) small)
       (use len assms(6) in \<open>auto simp: script_def elim!: grants_mono\<close>)
  moreover have t: "transfer_script A C T token (ac_script_hash a) to_hash amount data = Ok script"
    unfolding transfer_script_def script_def
    by (intro run writes_transfer [where bs = "[]", unfolded append_Nil2] writes_emit_syscall assms(1-3) small)
       (use len assms(6) in \<open>auto simp: script_def elim!: grants_mono\<close>)
  moreover have "script \<noteq> []" by (simp add: script_def transfer_layout_def)
  moreover have "A (length script)" "A sizeof_tx_builder" "grants A 512"
    using assms(6) len by (auto simp: grants_def sizeof_tx_builder_def)
  ultimately show ?thesis
    using len assms(2,5) signer_from_account_Ok [of A _ a K]
    by (simp add: neoc_tx_builder_create_nep17_transfer_def neoc_tx_builder_create_def neoc_account_get_script_hash_copy_def finish_builder_def
        then_c_def bind_c_def neoc_tx_builder_set_script_def TX_BUILDER_MAX_SCRIPT_SIZE_def)
qed

subsection \<open>Instances\<close>

definition new_builder :: neoc_tx_builder where
  "new_builder = \<lparr>bd_version = 0, bd_nonce = 5, bd_valid_until_block = 1000000, bd_signers = [], bd_system_fee = 0, bd_network_fee = 100000,
     bd_attributes = replicate 16 \<lparr>sl_type = 0, sl_data = None, sl_data_len = 0\<rparr>, bd_attribute_count = 0, bd_script = None, bd_script_size = 0,
     bd_is_signed = False, bd_built_transaction = None\<rparr>"

definition demo_builder :: builder_state where
  "demo_builder = \<lparr>bs_builder = new_builder\<lparr>bd_signers := [Some demo_signer], bd_script := Some [0x40], bd_script_size := 1\<rparr>,
     bs_transactions = (\<lambda>_. None), bs_blocks = (\<lambda>_. None)\<rparr>"

definition demo_built :: neoc_transaction where
  "demo_built = unsigned_transaction (bs_builder demo_builder) [0x40] [demo_signer]"

lemma new_builder_created: "neoc_tx_builder_create (\<lambda>_. True) 5 = Ok new_builder"
  by (simp add: neoc_tx_builder_create_def new_builder_def builder_consts)

lemma demo_builder_reach: "builder_reach C toy_curve demo_builder"
proof -
  let ?A = "\<lambda>_ :: nat. True"
  let ?s = "\<lparr>bs_builder = new_builder, bs_transactions = (\<lambda>_. None), bs_blocks = (\<lambda>_. None)\<rparr>"
  have "builder_reach C toy_curve ?s" using new_builder_created by (rule builder_new)
  then have "builder_reach C toy_curve (builder_after C S toy_curve ?A (Add_Signer (Some demo_signer)) ?s)"
    by (rule builder_run) (simp add: builder_allowed_def demo_signer_def)
  then have "builder_reach C toy_curve (builder_after C S toy_curve ?A (Set_Script (Some [0x40])) (builder_after C S toy_curve ?A (Add_Signer (Some demo_signer)) ?s))"
    by (rule builder_run) (simp add: builder_allowed_def)
  moreover have "neoc_signer_copy ?A toy_curve (Some demo_signer) = Ok demo_signer" using demo_signer_ok by (rule copy_signer) simp
  then have "builder_after C S toy_curve ?A (Add_Signer (Some demo_signer)) ?s = ?s\<lparr>bs_builder := new_builder\<lparr>bd_signers := [Some demo_signer]\<rparr>\<rparr>"
    by (simp add: builder_after_def on_builder_def neoc_tx_builder_add_signer_def builder_consts new_builder_def bind_c_def lift_c_def)
  ultimately show ?thesis
    by (simp add: builder_after_def on_builder_def neoc_tx_builder_set_script_def builder_consts demo_builder_def)
qed

lemma demo_ready: "ready (\<lambda>_. True) (bs_builder demo_builder) [0x40] [demo_signer]"
  by (simp add: ready_def demo_builder_def new_builder_def)

lemma demo_built_length: "length (enc_tx demo_built) = 72"
  by code_simp

lemma demo_built_ok: "tx_ok toy_curve demo_built"
  using demo_built_length
  by (simp add: tx_ok_def) (simp add: demo_built_def unsigned_transaction_def demo_signer_ok script_ok_def script_bytes_def script_ptr_def)

theorem builder_signers_distinct_witness:
  "neoc_tx_builder_add_signer (\<lambda>_. True) toy_curve (Some demo_signer) (bs_builder demo_builder) = (Err NEOC_ERROR_INVALID_STATE, bs_builder demo_builder)"
  using builder_signers_distinct [OF demo_builder_reach [of toy_crypto], of "\<lambda>_. True"]
  by (simp add: demo_builder_def TX_BUILDER_MAX_SIGNERS_def)

theorem builder_builds_transaction_witness:
  "\<exists>s'. neoc_tx_builder_build_unsigned (\<lambda>_. True) 7 3 demo_builder = (Ok 3, s') \<and> bs_transactions s' 3 = Some demo_built
     \<and> neoc_tx_builder_serialize (\<lambda>_. True) s' 80 = Ok (enc_tx demo_built)"
  using builder_builds_transaction [OF demo_ready demo_built_ok grants_all demo_built_def, of 7 3 80] demo_built_length by auto

theorem fees_consume_builder_witness:
  "\<exists>s'. neoc_tx_builder_calculate_fees (\<lambda>_. True) 7 3 demo_builder = (Ok (1072000, 110000), s')
     \<and> fst (neoc_tx_builder_sign toy_crypto (\<lambda>_. demo_ecdsa) (\<lambda>_. True) (Some [Some demo_account]) s') = Fault"
proof -
  have "size_fees 72 1 = 1072000" "uncounted demo_signer = 0" by code_simp+
  then show ?thesis
    using fees_consume_builder [OF demo_ready demo_built_ok grants_all demo_built_def, of "[Some demo_account]" 7 3 toy_crypto "\<lambda>_. demo_ecdsa"] demo_built_length
    by (auto simp: demo_builder_def new_builder_def)
qed

theorem priority_double_free_witness:
  "\<exists>s. then_c (neoc_tx_builder_set_high_priority (\<lambda>_. True) True)
         (then_c (neoc_tx_builder_add_attribute (\<lambda>_. True) 4 (Some \<lparr>at_type = 0x11, at_data = [1]\<rparr>)) (neoc_tx_builder_set_high_priority (\<lambda>_. True) True))
         \<lparr>bs_builder = new_builder, bs_transactions = (\<lambda>_. None), bs_blocks = (\<lambda>_. None)\<rparr> = (Ok (), s)
       \<and> fst (neoc_tx_builder_free s) = Fault"
proof -
  have "(0x11 :: u32) \<noteq> NEOC_TX_ATTR_HIGH_PRIORITY" by (simp add: NEOC_TX_ATTR_HIGH_PRIORITY_def)
  from priority_double_free [OF new_builder_created _ _ this, of "[1]" 4 "\<lambda>_. None" "\<lambda>_. None"] show ?thesis by auto
qed

theorem transfer_builder_script_witness:
  "\<exists>s b. neoc_hash160_from_address toy_crypto (\<lambda>_. True) (Some s) = Ok (replicate 20 1)
     \<and> neoc_tx_builder_create_nep17_transfer (\<lambda>_. True) toy_crypto initial_interop_table toy_curve 5 (Some (replicate 20 2)) (Some demo_account) (Some s) 1000 None = Ok b
     \<and> bd_script b = Some (transfer_layout toy_crypto initial_interop_table (replicate 20 2) (ac_script_hash demo_account) (replicate 20 1) 1000 None)"
proof -
  obtain s where s: "neoc_hash160_from_address toy_crypto (\<lambda>_. True) (Some s) = Ok (replicate 20 1)"
    by (rule to_address_Ok [OF toy_crypto_works grants_all, of "replicate 20 1" 64]) simp_all
  have "length (ac_script_hash demo_account) = 20" by (simp add: demo_account_def new_account_def)
  from transfer_builder_script [of "replicate 20 2" demo_account "replicate 20 1" None toy_crypto "\<lambda>_. True" s initial_interop_table 1000 toy_curve 5] this s
  show ?thesis by auto
qed

end
