(* ===== verification/Nef_File.thy ===== *)
theory Nef_File
  imports Hash_Types Signer
begin

text \<open>
  \<^verbatim>\<open>src/contract/nef_file.c\<close>, the executable format of contracts.  The character arrays of the structures are byte lists of
  the size of the array; a C string in one ends at its first zero byte, and asking for the length of a string without one
  is a fault.  \<open>tokens_live\<close> tells whether the pointer to the tokens still points to their block.  The two functions
  on files only add \<^verbatim>\<open>fopen\<close> and \<^verbatim>\<open>fread\<close> or \<^verbatim>\<open>fwrite\<close> and are left out.
\<close>

record neoc_nef_method_token =
  tk_hash :: neoc_hash160
  tk_method :: "byte list"
  tk_parameters_count :: u16
  tk_has_return_value :: bool
  tk_call_flags :: byte

record neoc_nef_file =
  nef_magic :: u32
  nef_compiler :: "byte list"
  nef_source :: "byte list"
  nef_reserved :: "byte list"
  nef_reserved2 :: byte
  nef_tokens :: "neoc_nef_method_token list"
  token_capacity :: nat
  tokens_live :: bool
  nef_script :: "byte list"
  nef_checksum :: neoc_hash256
  checksum_valid :: bool

definition NEF_MAGIC :: u32 where "NEF_MAGIC = 0x3346454E"
definition NEF_MAX_SCRIPT_SIZE :: nat where "NEF_MAX_SCRIPT_SIZE = 512000"
definition NEF_MAX_SOURCE_SIZE :: nat where "NEF_MAX_SOURCE_SIZE = 255"
definition NEF_MAX_TOKENS :: nat where "NEF_MAX_TOKENS = 128"

lemmas nef_limits = NEF_MAX_SCRIPT_SIZE_def NEF_MAX_SOURCE_SIZE_def NEF_MAX_TOKENS_def

definition sizeof_nef_header :: nat where "sizeof_nef_header = 328"
definition sizeof_nef_file :: nat where "sizeof_nef_file = 408"
definition sizeof_nef_token :: nat where "sizeof_nef_token = 56"

text \<open>\<^verbatim>\<open>strlen\<close> on a character array, and \<^verbatim>\<open>strncpy\<close> of a string into a zeroed array of \<open>n\<close> characters.\<close>

definition array_strlen :: "byte list \<Rightarrow> nat result" where
  "array_strlen bs = (if 0 \<in> set bs then Ok (length (takeWhile (\<lambda>b. b \<noteq> 0) bs)) else Fault)"

definition pad_to :: "nat \<Rightarrow> byte list \<Rightarrow> byte list" where
  "pad_to n bs = take n (bs @ replicate n 0)"

subsection \<open>Writing\<close>

text \<open>A length byte and that many characters of a string held in an array; the length is cast to \<^verbatim>\<open>uint8_t\<close>.\<close>

definition write_token :: "allocator \<Rightarrow> neoc_nef_method_token \<Rightarrow> (neoc_binary_writer, unit) cmd" where
  "write_token A t =
     bind_c (lift_c (neoc_hash160_to_bytes (Some (tk_hash t)) 20)) (\<lambda>hash_bytes.
     then_c (neoc_binary_writer_write_bytes A (Some hash_bytes) 20)
    (bind_c (lift_c (array_strlen (tk_method t))) (\<lambda>n.
     let method_len = of_nat n :: byte in
     then_c (neoc_binary_writer_write_byte A method_len)
    (then_c (neoc_binary_writer_write_bytes A (Some (tk_method t)) (ucast method_len))
    (then_c (neoc_binary_writer_write_uint16 A (tk_parameters_count t))
    (then_c (neoc_binary_writer_write_byte A (if tk_has_return_value t then 1 else 0))
       (neoc_binary_writer_write_byte A (tk_call_flags t))))))))"

definition write_tokens :: "allocator \<Rightarrow> neoc_nef_file \<Rightarrow> (neoc_binary_writer, unit) cmd" where
  "write_tokens A nef =
     (if nef_tokens nef \<noteq> [] \<and> \<not> tokens_live nef then lift_c Fault else foreach_c (write_token A) (nef_tokens nef))"

text \<open>What \<^verbatim>\<open>calculate_checksum\<close> and \<^verbatim>\<open>neoc_nef_file_to_bytes\<close> both write, given the 64 bytes of the compiler field.\<close>

definition write_nef_body :: "allocator \<Rightarrow> byte list \<Rightarrow> neoc_nef_file \<Rightarrow> (neoc_binary_writer, unit) cmd" where
  "write_nef_body A compiler nef =
     then_c (neoc_binary_writer_write_uint32 A (nef_magic nef))
    (then_c (neoc_binary_writer_write_bytes A (Some compiler) 64)
    (bind_c (lift_c (array_strlen (nef_source nef))) (\<lambda>n.
     let source_len = of_nat n :: byte in
     then_c (neoc_binary_writer_write_byte A source_len)
    (then_c (write_if (0 < source_len) (neoc_binary_writer_write_bytes A (Some (nef_source nef)) (ucast source_len)))
    (then_c (neoc_binary_writer_write_bytes A (Some (nef_reserved nef)) 2)
    (then_c (neoc_binary_writer_write_byte A (of_nat (length (nef_tokens nef))))
    (then_c (write_tokens A nef)
    (then_c (neoc_binary_writer_write_byte A (nef_reserved2 nef))
       (write_script A (nef_script nef))))))))))"

definition calculate_checksum :: "crypto \<Rightarrow> allocator \<Rightarrow> neoc_nef_file \<Rightarrow> neoc_hash256 result" where
  "calculate_checksum C A nef =
     bind_r (run_writer A 1024 (write_nef_body A (nef_compiler nef) nef)) (\<lambda>data.
     bind_r (neoc_sha256_double C (Some data)) (\<lambda>checksum_bytes. neoc_hash256_from_bytes (Some checksum_bytes)))"

definition neoc_nef_file_to_bytes :: "allocator \<Rightarrow> neoc_nef_file option \<Rightarrow> byte list result" where
  "neoc_nef_file_to_bytes A nef =
     (case nef of
        None \<Rightarrow> Err NEOC_ERROR_INVALID_ARGUMENT
      | Some f \<Rightarrow>
          bind_r (array_strlen (nef_compiler f)) (\<lambda>len.
            let compiler_len = (if 63 < len then 63 else len);
                compiler_buf = take compiler_len (nef_compiler f) @ replicate (64 - compiler_len) 0
            in run_writer A 1024
                 (then_c (write_nef_body A compiler_buf f)
                    (bind_c (lift_c (neoc_hash256_to_bytes (Some (nef_checksum f)) 32)) (\<lambda>checksum_bytes.
                       neoc_binary_writer_write_bytes A (Some checksum_bytes) 32)))))"

subsection \<open>Creation and method tokens\<close>

definition neoc_nef_file_create ::
  "crypto \<Rightarrow> allocator \<Rightarrow> byte list option \<Rightarrow> byte list option \<Rightarrow> byte list option \<Rightarrow> neoc_nef_file result" where
  "neoc_nef_file_create C A compiler source script =
     (case (compiler, script) of
        (Some cmp, Some scr) \<Rightarrow>
          if NEF_MAX_SCRIPT_SIZE < length scr then Err NEOC_ERROR_INVALID_SIZE
          else if 63 < length cmp then Err NEOC_ERROR_INVALID_SIZE
          else if (case source of None \<Rightarrow> False | Some src \<Rightarrow> NEF_MAX_SOURCE_SIZE < length src) then Err NEOC_ERROR_INVALID_SIZE
          else
            bind_r (malloc_r A sizeof_nef_file) (\<lambda>_.
            bind_r (malloc_r A (10 * sizeof_nef_token)) (\<lambda>_.
            bind_r (neoc_malloc_r A (length scr)) (\<lambda>_.
              let nef = \<lparr>nef_magic = NEF_MAGIC, nef_compiler = pad_to 64 cmp,
                         nef_source = pad_to 256 (case source of None \<Rightarrow> [] | Some src \<Rightarrow> src),
                         nef_reserved = [0, 0], nef_reserved2 = 0, nef_tokens = [], token_capacity = 10, tokens_live = True,
                         nef_script = scr, nef_checksum = replicate 32 0, checksum_valid = False\<rparr>
              in bind_r (calculate_checksum C A nef) (\<lambda>checksum.
                   Ok (nef\<lparr>nef_checksum := checksum, checksum_valid := True\<rparr>)))))
      | _ \<Rightarrow> Err NEOC_ERROR_INVALID_ARGUMENT)"

text \<open>
  Growing the array of tokens.  A capacity of zero is doubled to zero: \<^verbatim>\<open>neoc_realloc\<close> to zero bytes frees the block, if
  there is one, and returns null.
\<close>

definition grow_tokens :: "allocator \<Rightarrow> (neoc_nef_file, unit) cmd" where
  "grow_tokens A nef =
     (if length (nef_tokens nef) < token_capacity nef then (Ok (), nef)
      else
        let new_capacity = min (token_capacity nef * 2) NEF_MAX_TOKENS in
        if nef_tokens nef \<noteq> [] \<and> \<not> tokens_live nef then (Fault, nef)
        else if new_capacity = 0 then (Err NEOC_ERROR_MEMORY, nef\<lparr>tokens_live := (nef_tokens nef = [])\<rparr>)
        else if \<not> A (new_capacity * sizeof_nef_token) then (Err NEOC_ERROR_MEMORY, nef)
        else (Ok (), nef\<lparr>token_capacity := new_capacity\<rparr>))"

definition store_checksum :: "crypto \<Rightarrow> allocator \<Rightarrow> (neoc_nef_file, unit) cmd" where
  "store_checksum C A nef =
     (case calculate_checksum C A nef of
        Ok checksum \<Rightarrow> (Ok (), nef\<lparr>nef_checksum := checksum\<rparr>)
      | Err e \<Rightarrow> (Err e, nef)
      | Fault \<Rightarrow> (Fault, nef))"

definition neoc_nef_file_add_method_token ::
  "crypto \<Rightarrow> allocator \<Rightarrow> neoc_hash160 option \<Rightarrow> byte list option \<Rightarrow> u16 \<Rightarrow> bool \<Rightarrow> byte \<Rightarrow> (neoc_nef_file, unit) cmd" where
  "neoc_nef_file_add_method_token C A hash name parameters_count has_return_value call_flags nef =
     (case (hash, name) of
        (Some h, Some m) \<Rightarrow>
          if 31 < length m then (Err NEOC_ERROR_INVALID_SIZE, nef)
          else if NEF_MAX_TOKENS \<le> length (nef_tokens nef) then (Err NEOC_ERROR_INVALID_SIZE, nef)
          else
            then_c (grow_tokens A)
              (\<lambda>f. store_checksum C A
                 (f\<lparr>nef_tokens := nef_tokens f @ [\<lparr>tk_hash = h, tk_method = pad_to 32 m, tk_parameters_count = parameters_count,
                    tk_has_return_value = has_return_value, tk_call_flags = call_flags\<rparr>]\<rparr>)) nef
      | _ \<Rightarrow> (Err NEOC_ERROR_INVALID_ARGUMENT, nef))"

subsection \<open>Access\<close>

definition neoc_nef_file_get_script :: "neoc_nef_file option \<Rightarrow> byte list result" where
  "neoc_nef_file_get_script nef = (case nef of None \<Rightarrow> Err NEOC_ERROR_INVALID_ARGUMENT | Some f \<Rightarrow> Ok (nef_script f))"

definition neoc_nef_file_get_compiler :: "neoc_nef_file option \<Rightarrow> byte list option" where
  "neoc_nef_file_get_compiler nef = (case nef of None \<Rightarrow> None | Some f \<Rightarrow> Some (nef_compiler f))"

definition neoc_nef_file_get_source :: "neoc_nef_file option \<Rightarrow> byte list option" where
  "neoc_nef_file_get_source nef =
     (case nef of None \<Rightarrow> None | Some f \<Rightarrow> if nef_source f ! 0 \<noteq> 0 then Some (nef_source f) else None)"

definition neoc_nef_file_get_checksum :: "neoc_nef_file option \<Rightarrow> neoc_hash256 result" where
  "neoc_nef_file_get_checksum nef = (case nef of None \<Rightarrow> Err NEOC_ERROR_INVALID_ARGUMENT | Some f \<Rightarrow> Ok (nef_checksum f))"

definition neoc_nef_file_verify_checksum :: "crypto \<Rightarrow> allocator \<Rightarrow> neoc_nef_file option \<Rightarrow> bool result" where
  "neoc_nef_file_verify_checksum C A nef =
     (case nef of
        None \<Rightarrow> Ok False
      | Some f \<Rightarrow>
          (case calculate_checksum C A f of
             Ok calculated \<Rightarrow> Ok (neoc_hash256_equal (Some calculated) (Some (nef_checksum f)))
           | Err _ \<Rightarrow> Ok False
           | Fault \<Rightarrow> Fault))"

definition neoc_nef_file_get_token_count :: "neoc_nef_file option \<Rightarrow> nat" where
  "neoc_nef_file_get_token_count nef = (case nef of None \<Rightarrow> 0 | Some f \<Rightarrow> length (nef_tokens f))"

definition neoc_nef_file_get_token :: "neoc_nef_file option \<Rightarrow> nat \<Rightarrow> neoc_nef_method_token result" where
  "neoc_nef_file_get_token nef index =
     (case nef of
        None \<Rightarrow> Err NEOC_ERROR_INVALID_ARGUMENT
      | Some f \<Rightarrow>
          if length (nef_tokens f) \<le> index then Err NEOC_ERROR_OUT_OF_BOUNDS
          else if \<not> tokens_live f then Fault
          else Ok (nef_tokens f ! index))"

subsection \<open>Reading\<close>

definition read_source :: "byte \<Rightarrow> (neoc_binary_reader, byte list) cmd" where
  "read_source source_len =
     (if 0 < source_len then
        if 255 \<le> source_len then fail_c NEOC_ERROR_INVALID_FORMAT
        else bind_c (neoc_binary_reader_read_bytes (ucast source_len)) (\<lambda>bs. return_c (pad_to 256 bs))
      else return_c (replicate 256 0))"

definition read_token :: "(neoc_binary_reader, neoc_nef_method_token) cmd" where
  "read_token =
     bind_c (neoc_binary_reader_read_bytes 20) (\<lambda>hash_bytes.
     bind_c (lift_c (neoc_hash160_from_bytes (Some hash_bytes))) (\<lambda>hash.
     bind_c neoc_binary_reader_read_byte (\<lambda>method_len.
       if 32 \<le> method_len then fail_c NEOC_ERROR_INVALID_FORMAT
       else
         bind_c (neoc_binary_reader_read_bytes (ucast method_len)) (\<lambda>name.
         bind_c neoc_binary_reader_read_uint16 (\<lambda>parameters_count.
         bind_c neoc_binary_reader_read_byte (\<lambda>has_return.
         bind_c neoc_binary_reader_read_byte (\<lambda>call_flags.
           return_c \<lparr>tk_hash = hash, tk_method = pad_to 32 name, tk_parameters_count = parameters_count,
                     tk_has_return_value = (has_return \<noteq> 0), tk_call_flags = call_flags\<rparr>)))))))"

definition read_tokens :: "allocator \<Rightarrow> byte \<Rightarrow> (neoc_binary_reader, neoc_nef_method_token list) cmd" where
  "read_tokens A token_count =
     (if 0 < token_count then
        then_c (malloc_c A (unat token_count * sizeof_nef_token)) (repeat_c (unat token_count) read_token)
      else return_c [])"

definition read_nef :: "allocator \<Rightarrow> (neoc_binary_reader, neoc_nef_file) cmd" where
  "read_nef A =
     bind_c neoc_binary_reader_read_uint32 (\<lambda>magic.
       if magic \<noteq> NEF_MAGIC then fail_c NEOC_ERROR_INVALID_FORMAT
       else
         bind_c (neoc_binary_reader_read_bytes 64) (\<lambda>compiler.
         bind_c neoc_binary_reader_read_byte (\<lambda>source_len.
         bind_c (read_source source_len) (\<lambda>source.
         bind_c (neoc_binary_reader_read_bytes 2) (\<lambda>reserved.
         bind_c neoc_binary_reader_read_byte (\<lambda>token_count.
         bind_c (read_tokens A token_count) (\<lambda>tokens.
         bind_c neoc_binary_reader_read_byte (\<lambda>reserved2.
         bind_c (neoc_binary_reader_read_var_bytes A) (\<lambda>script.
         bind_c (neoc_binary_reader_read_bytes 32) (\<lambda>checksum_bytes.
         bind_c (lift_c (neoc_hash256_from_bytes (Some checksum_bytes))) (\<lambda>checksum.
           return_c \<lparr>nef_magic = magic, nef_compiler = compiler, nef_source = source, nef_reserved = reserved,
             nef_reserved2 = reserved2, nef_tokens = tokens, token_capacity = 0, tokens_live = True,
             nef_script = (case script of None \<Rightarrow> [] | Some bs \<Rightarrow> bs), nef_checksum = checksum, checksum_valid = False\<rparr>)))))))))))"

definition neoc_nef_file_from_bytes :: "allocator \<Rightarrow> byte list option \<Rightarrow> size_t \<Rightarrow> neoc_nef_file result" where
  "neoc_nef_file_from_bytes A data data_size =
     (case data of
        None \<Rightarrow> Err NEOC_ERROR_INVALID_ARGUMENT
      | Some bs \<Rightarrow>
          if unat data_size < sizeof_nef_header then Err NEOC_ERROR_INVALID_FORMAT
          else
            bind_r (neoc_binary_reader_create A (Some bs) data_size) (\<lambda>reader.
            bind_r (malloc_r A sizeof_nef_file) (\<lambda>_. fst (read_nef A reader))))"

subsection \<open>Strings in arrays\<close>

definition cstr :: "byte list \<Rightarrow> byte list" where
  "cstr bs = takeWhile (\<lambda>b. b \<noteq> 0) bs"

text \<open>An array of \<open>n\<close> characters that holds a terminated string and zeros after it.\<close>

definition string_ok :: "nat \<Rightarrow> byte list \<Rightarrow> bool" where
  "string_ok n bs \<longleftrightarrow> length (cstr bs) < n \<and> bs = pad_to n (cstr bs)"

lemma length_pad_to [simp]: "length (pad_to n bs) = n"
  by (simp add: pad_to_def)

lemma pad_to_eq: "length bs < n \<Longrightarrow> pad_to n bs = bs @ 0 # replicate (n - length bs - 1) 0"
  by (simp add: pad_to_def) (metis Suc_diff_Suc diff_zero replicate_Suc take_replicate min.absorb1 diff_le_self)

lemma cstr_pad_to: "0 \<notin> set bs \<Longrightarrow> length bs < n \<Longrightarrow> cstr (pad_to n bs) = bs"
  by (simp add: pad_to_eq cstr_def takeWhile_append takeWhile_eq_all_conv)

lemma string_ok_pad_to: "0 \<notin> set bs \<Longrightarrow> length bs < n \<Longrightarrow> string_ok n (pad_to n bs)"
  by (simp add: string_ok_def cstr_pad_to)

lemma string_okD:
  assumes "string_ok n bs"
  shows "length bs = n" and "array_strlen bs = Ok (length (cstr bs))" and "take (length (cstr bs)) bs = cstr bs"
    and "length (cstr bs) < n"
proof -
  have eq: "bs = pad_to n (cstr bs)" and len: "length (cstr bs) < n" using assms by (simp_all add: string_ok_def)
  show "length (cstr bs) < n" by (rule len)
  show "length bs = n" using eq length_pad_to by metis
  have "0 \<in> set (pad_to n (cstr bs))" using len by (simp add: pad_to_eq)
  then have "0 \<in> set bs" using eq by simp
  then show "array_strlen bs = Ok (length (cstr bs))" by (simp add: array_strlen_def cstr_def)
  show "take (length (cstr bs)) bs = cstr bs" by (simp add: cstr_def takeWhile_eq_take [symmetric])
qed

lemma unat_byte_size [simp]: "unat (ucast (b :: byte) :: size_t) = unat b"
proof (rule unat_ucast_down)
  have "unat b < 2 ^ 8" using unsigned_less [of b, where ?'a = nat] by simp
  also have "\<dots> < 2 ^ LENGTH(64)" by simp
  finally show "unat b < 2 ^ LENGTH(64)" .
qed

lemma unat_of_nat_byte: "n < 256 \<Longrightarrow> unat (of_nat n :: byte) = n"
  by (simp add: unat_of_nat take_bit_nat_eq_self)

lemma writes_string:
  assumes "string_ok n bs" and "n \<le> 256"
  shows "writes A (neoc_binary_writer_write_bytes A (Some bs) (ucast (of_nat (length (cstr bs)) :: byte))) (cstr bs)"
proof -
  note ok = string_okD [OF assms(1)]
  let ?n = "ucast (of_nat (length (cstr bs)) :: byte) :: size_t"
  have n: "unat ?n = length (cstr bs)" using ok(4) assms(2) by (simp add: unat_of_nat_byte)
  have "writes A (neoc_binary_writer_write_bytes A (Some bs) ?n) (take (unat ?n) bs)"
    by (rule writes_write_bytes_take) (simp only: n ok(1) less_imp_le [OF ok(4)])
  then show ?thesis by (simp only: n ok(3))
qed

lemma reads_string:
  assumes "string_ok n bs" and "n \<le> 256"
  shows "reads (neoc_binary_reader_read_bytes (ucast (of_nat (length (cstr bs)) :: byte))) (cstr bs) (cstr bs)"
  by (rule reads_read_bytes) (use string_okD(4) [OF assms(1)] assms(2) in \<open>simp_all add: unat_of_nat_byte\<close>)

subsection \<open>The codec\<close>

definition token_ok :: "neoc_nef_method_token \<Rightarrow> bool" where
  "token_ok t \<longleftrightarrow> length (tk_hash t) = 20 \<and> string_ok 32 (tk_method t)"

definition nef_ok :: "neoc_nef_file \<Rightarrow> bool" where
  "nef_ok f \<longleftrightarrow>
     nef_magic f = NEF_MAGIC \<and> string_ok 64 (nef_compiler f) \<and> string_ok 256 (nef_source f) \<and> length (cstr (nef_source f)) < 255
     \<and> length (nef_reserved f) = 2 \<and> length (nef_tokens f) < 256 \<and> list_all token_ok (nef_tokens f) \<and> tokens_live f
     \<and> length (nef_script f) < 2 ^ 50 \<and> length (nef_checksum f) = 32"

definition enc_token :: "neoc_nef_method_token \<Rightarrow> byte list" where
  "enc_token t = tk_hash t @ of_nat (length (cstr (tk_method t))) # cstr (tk_method t) @ le_bytes 2 (tk_parameters_count t)
     @ [of_bool (tk_has_return_value t), tk_call_flags t]"

definition enc_nef_body :: "neoc_nef_file \<Rightarrow> byte list" where
  "enc_nef_body f = le_bytes 4 (nef_magic f) @ nef_compiler f @ [of_nat (length (cstr (nef_source f)))] @ cstr (nef_source f)
     @ nef_reserved f @ [of_nat (length (nef_tokens f))] @ concat (map enc_token (nef_tokens f)) @ [nef_reserved2 f]
     @ enc_var_bytes (nef_script f)"

definition enc_nef :: "neoc_nef_file \<Rightarrow> byte list" where
  "enc_nef f = enc_nef_body f @ nef_checksum f"

lemma writes_fixed: "length bs = n \<Longrightarrow> n < 2 ^ 64 \<Longrightarrow> writes A (neoc_binary_writer_write_bytes A (Some bs) (of_nat n)) bs"
  using writes_write_bytes [of bs A] by simp

lemma writes_token: "token_ok t \<Longrightarrow> writes A (write_token A t) (enc_token t)"
proof -
  assume ok: "token_ok t"
  then have m: "string_ok 32 (tk_method t)" and h: "length (tk_hash t) = 20" by (simp_all add: token_ok_def)
  have b: "writes A (neoc_binary_writer_write_byte A (if tk_has_return_value t then 1 else 0)) [of_bool (tk_has_return_value t)]"
    using writes_write_byte [of A "of_bool (tk_has_return_value t)"] by (simp add: of_bool_def)
  have "writes A (then_c (neoc_binary_writer_write_bytes A (Some (tk_hash t)) 20)
     (then_c (neoc_binary_writer_write_byte A (of_nat (length (cstr (tk_method t)))))
     (then_c (neoc_binary_writer_write_bytes A (Some (tk_method t)) (ucast (of_nat (length (cstr (tk_method t))) :: byte)))
     (then_c (neoc_binary_writer_write_uint16 A (tk_parameters_count t))
     (then_c (neoc_binary_writer_write_byte A (if tk_has_return_value t then 1 else 0))
       (neoc_binary_writer_write_byte A (tk_call_flags t)))))))
     (tk_hash t @ [of_nat (length (cstr (tk_method t)))] @ cstr (tk_method t) @ le_bytes 2 (tk_parameters_count t)
      @ [of_bool (tk_has_return_value t)] @ [tk_call_flags t])"
    using writes_fixed [OF h, of A] writes_string [OF m]
    by (intro writes_then writes_write_byte writes_write_uint16 b) simp_all
  then show ?thesis
    using string_okD(2) [OF m] by (simp add: write_token_def neoc_hash160_to_bytes_def hash_sizes enc_token_def Let_def)
qed

lemma writes_nef_body:
  assumes "nef_ok f"
  shows "writes A (write_nef_body A (nef_compiler f) f) (enc_nef_body f)"
proof -
  have src: "string_ok 256 (nef_source f)" "length (cstr (nef_source f)) < 256" and cmp: "length (nef_compiler f) = 64"
    and res: "length (nef_reserved f) = 2" and tok: "list_all token_ok (nef_tokens f)" "tokens_live f" and scr: "length (nef_script f) < 2 ^ 64"
    using assms string_okD(1) by (auto simp: nef_ok_def)
  let ?n = "of_nat (length (cstr (nef_source f))) :: byte"
  have s: "writes A (write_if (0 < ?n) (neoc_binary_writer_write_bytes A (Some (nef_source f)) (ucast ?n))) (cstr (nef_source f))"
  proof (cases "cstr (nef_source f) = []")
    case True
    then show ?thesis by (simp add: write_if_def writes_return)
  next
    case False
    then have "0 < ?n" using unat_of_nat_byte [OF src(2)] by (simp add: word_less_nat_alt)
    then show ?thesis using writes_string [OF src(1)] by (simp add: write_if_def)
  qed
  have t: "writes A (write_tokens A f) (concat (map enc_token (nef_tokens f)))"
    using tok by (auto simp: write_tokens_def list_all_iff intro!: writes_foreach writes_token)
  show ?thesis
    unfolding write_nef_body_def enc_nef_body_def string_okD(2) [OF src(1)] bind_c_lift Let_def
    using writes_fixed [OF cmp, of A] writes_fixed [OF res, of A]
    by (intro writes_then writes_write_uint32 writes_write_byte s t writes_write_script scr) simp_all
qed

lemma reads_return_eq: "x = y \<Longrightarrow> reads (return_c x) [] y"
  by (simp add: reads_return)

lemma reads_token:
  assumes "token_ok t"
  shows "reads read_token (enc_token t) t"
proof -
  have m: "string_ok 32 (tk_method t)" and h: "length (tk_hash t) = 20" using assms by (simp_all add: token_ok_def)
  have small: "\<not> (32 :: byte) \<le> of_nat (length (cstr (tk_method t)))"
    using string_okD(4) [OF m] by (simp add: word_le_nat_alt unat_of_nat_byte)
  have hash: "reads (neoc_binary_reader_read_bytes 20) (tk_hash t) (tk_hash t)" by (rule reads_read_bytes) (simp_all add: h)
  have from_bytes: "neoc_hash160_from_bytes (Some (tk_hash t)) = Ok (tk_hash t)" by (simp add: neoc_hash160_from_bytes_def h hash_sizes)
  have pad: "pad_to 32 (cstr (tk_method t)) = tk_method t" using m by (simp add: string_ok_def)
  have "reads read_token (tk_hash t @ [of_nat (length (cstr (tk_method t)))] @ cstr (tk_method t) @ le_bytes 2 (tk_parameters_count t)
      @ [of_bool (tk_has_return_value t)] @ [tk_call_flags t] @ []) t"
    unfolding read_token_def
    by (rule reads_bind [OF hash], unfold from_bytes bind_c_lift, rule reads_bind [OF reads_read_byte], simp only: small if_False,
        rule reads_bind [OF reads_string [OF m]], simp,
        rule reads_bind [OF reads_read_uint16], rule reads_bind [OF reads_read_byte], rule reads_bind [OF reads_read_byte],
        rule reads_return_eq, rule neoc_nef_method_token.equality) (simp_all add: pad)
  then show ?thesis by (simp add: enc_token_def)
qed

text \<open>What reading a file gives: the capacity of the array of tokens and the flag are not stored.\<close>

definition loaded :: "neoc_nef_file \<Rightarrow> neoc_nef_file" where
  "loaded f = f\<lparr>token_capacity := 0, checksum_valid := False\<rparr>"

definition write_nef :: "allocator \<Rightarrow> neoc_nef_file \<Rightarrow> (neoc_binary_writer, unit) cmd" where
  "write_nef A f = then_c (write_nef_body A (nef_compiler f) f) (neoc_binary_writer_write_bytes A (Some (nef_checksum f)) 32)"

lemma reads_source:
  assumes "string_ok 256 bs" and "length (cstr bs) < 255"
  shows "reads (read_source (of_nat (length (cstr bs)))) (cstr bs) bs"
proof -
  let ?n = "of_nat (length (cstr bs)) :: byte"
  have n: "unat ?n = length (cstr bs)" using assms(2) by (simp add: unat_of_nat_byte)
  then have big: "\<not> 255 \<le> ?n" using assms(2) by (simp add: word_le_nat_alt)
  have pad: "pad_to 256 (cstr bs) = bs" using assms(1) by (simp add: string_ok_def)
  show ?thesis
  proof (cases "cstr bs = []")
    case True
    then have "bs = replicate 256 0" using pad by (simp add: pad_to_def)
    with True show ?thesis by (simp add: read_source_def reads_return)
  next
    case False
    then have "0 < ?n" using n by (simp add: word_less_nat_alt)
    with big pad show ?thesis
      using reads_map [OF reads_string [OF assms(1)], of bs "pad_to 256"] by (simp add: read_source_def)
  qed
qed

lemma reads_tokens:
  assumes "list_all token_ok ts" and "length ts < 256" and "A (length ts * 56)"
  shows "reads (read_tokens A (of_nat (length ts))) (concat (map enc_token ts)) ts"
proof (cases "ts = []")
  case True
  then show ?thesis by (simp add: read_tokens_def reads_return)
next
  case False
  have n: "unat (of_nat (length ts) :: byte) = length ts" using assms(2) by (rule unat_of_nat_byte)
  then have "(0 :: byte) < of_nat (length ts)" using False by (simp add: word_less_nat_alt)
  moreover have "reads (repeat_c (length ts) read_token) (concat (map enc_token ts)) (map (\<lambda>t. t) ts)"
    using assms(1) by (intro reads_repeat reads_token) (simp add: list_all_iff)
  ultimately show ?thesis using n assms(3) by (simp add: read_tokens_def sizeof_nef_token_def)
qed

lemma reads_nef:
  assumes ok: "nef_ok f" and A: "grants A (15000 + length (nef_script f))"
  shows "reads (read_nef A) (enc_nef f) (loaded f)"
proof -
  have src: "string_ok 256 (nef_source f)" "length (cstr (nef_source f)) < 255" and cmp: "length (nef_compiler f) = 64"
    and res: "length (nef_reserved f) = 2" and tok: "list_all token_ok (nef_tokens f)" "length (nef_tokens f) < 256"
    and scr: "length (nef_script f) < 2 ^ 63" and sum: "length (nef_checksum f) = 32" and magic: "nef_magic f = NEF_MAGIC"
    using ok string_okD(1) by (auto simp: nef_ok_def)
  have fixed: "reads (neoc_binary_reader_read_bytes (of_nat (length bs))) bs bs" if "length bs < 2 ^ 63" for bs
    by (rule reads_read_bytes) (use that in \<open>simp_all add: unat_of_nat_size\<close>)
  have f64: "reads (neoc_binary_reader_read_bytes 64) (nef_compiler f) (nef_compiler f)" using fixed [of "nef_compiler f"] cmp by simp
  have f2: "reads (neoc_binary_reader_read_bytes 2) (nef_reserved f) (nef_reserved f)" using fixed [of "nef_reserved f"] res by simp
  have f32: "reads (neoc_binary_reader_read_bytes 32) (nef_checksum f) (nef_checksum f)" using fixed [of "nef_checksum f"] sum by simp
  have ts: "reads (read_tokens A (of_nat (length (nef_tokens f)))) (concat (map enc_token (nef_tokens f))) (nef_tokens f)"
    by (rule reads_tokens [OF tok]) (use A tok(2) in \<open>simp add: grants_def\<close>)
  have var: "reads (neoc_binary_reader_read_var_bytes A) (enc_var_bytes (nef_script f)) (null_if_empty (nef_script f))"
    by (rule reads_read_var_bytes [OF scr]) (use A in \<open>simp add: grants_def\<close>)
  have scr_eq: "(case null_if_empty bs of None \<Rightarrow> [] | Some x \<Rightarrow> x) = bs" for bs by (simp add: null_if_empty_def)
  have check: "neoc_hash256_from_bytes (Some (nef_checksum f)) = Ok (nef_checksum f)"
    by (simp add: neoc_hash256_from_bytes_def sum hash_sizes)
  have "reads (read_nef A) (le_bytes 4 (nef_magic f) @ nef_compiler f @ [of_nat (length (cstr (nef_source f)))] @ cstr (nef_source f)
     @ nef_reserved f @ [of_nat (length (nef_tokens f))] @ concat (map enc_token (nef_tokens f)) @ [nef_reserved2 f]
     @ enc_var_bytes (nef_script f) @ nef_checksum f @ []) (loaded f)"
    unfolding read_nef_def
    by (rule reads_bind [OF reads_read_uint32], simp only: magic simp_thms if_False not_True_eq_False,
        rule reads_bind [OF f64], rule reads_bind [OF reads_read_byte], rule reads_bind [OF reads_source [OF src]],
        rule reads_bind [OF f2], rule reads_bind [OF reads_read_byte], rule reads_bind [OF ts],
        rule reads_bind [OF reads_read_byte], rule reads_bind [OF var], rule reads_bind [OF f32],
        unfold check bind_c_lift, rule reads_return_eq, rule neoc_nef_file.equality)
       (use ok in \<open>simp_all add: scr_eq loaded_def nef_ok_def\<close>)
  then show ?thesis by (simp add: enc_nef_def enc_nef_body_def)
qed

interpretation nef_codec: object_codec write_nef read_nef enc_nef loaded nef_ok "\<lambda>f. 15000 + length (nef_script f)"
proof
  fix f A
  assume ok: "nef_ok f" and A: "grants A (15000 + length (nef_script f))"
  have "writes A (neoc_binary_writer_write_bytes A (Some (nef_checksum f)) 32) (nef_checksum f)"
    using ok writes_fixed [of "nef_checksum f" 32 A] by (simp add: nef_ok_def)
  then show "writes A (write_nef A f) (enc_nef f)"
    unfolding write_nef_def enc_nef_def by (rule writes_then [OF writes_nef_body [OF ok]])
  show "reads (read_nef A) (enc_nef f) (loaded f)" using ok A by (rule reads_nef)
qed

lemma to_bytes_run:
  assumes "nef_ok f"
  shows "neoc_nef_file_to_bytes A (Some f) = run_writer A 1024 (write_nef A f)"
proof -
  have c: "string_ok 64 (nef_compiler f)" and "length (nef_checksum f) = 32" using assms by (simp_all add: nef_ok_def)
  note ok = string_okD [OF c]
  have "take (length (cstr (nef_compiler f))) (nef_compiler f) @ replicate (64 - length (cstr (nef_compiler f))) 0 = nef_compiler f"
    using c ok(3,4) by (simp add: string_ok_def pad_to_def)
  then show ?thesis
    using ok(2,4) \<open>length (nef_checksum f) = 32\<close>
    by (simp add: neoc_nef_file_to_bytes_def write_nef_def neoc_hash256_to_bytes_def hash_sizes)
qed

lemma length_enc_token: "token_ok t \<Longrightarrow> length (enc_token t) \<le> 56"
  using string_okD(4) [of 32 "tk_method t"] by (simp add: token_ok_def enc_token_def)

lemma length_enc_nef:
  assumes "nef_ok f"
  shows "length (nef_script f) \<le> length (enc_nef f)" and "length (enc_nef f) \<le> length (nef_script f) + 15000"
proof -
  show "length (nef_script f) \<le> length (enc_nef f)" by (simp add: enc_nef_def enc_nef_body_def length_enc_var_bytes)
  have "length (concat (map enc_token (nef_tokens f))) \<le> length (nef_tokens f) * 56"
    using assms by (intro length_concat_le length_enc_token) (simp add: nef_ok_def list_all_iff)
  also have "\<dots> \<le> 255 * 56" using assms by (intro mult_right_mono) (simp_all add: nef_ok_def)
  finally have t: "length (concat (map enc_token (nef_tokens f))) \<le> 14280" by simp
  have "length (nef_compiler f) = 64" using assms string_okD(1) [of 64 "nef_compiler f"] by (simp add: nef_ok_def)
  then show "length (enc_nef f) \<le> length (nef_script f) + 15000"
    using assms t enc_var_int_le_9 [of "of_nat (length (nef_script f))"]
    by (simp add: enc_nef_def enc_nef_body_def length_enc_var_bytes nef_ok_def)
qed

lemma nef_load:
  assumes "nef_ok f" and "grants A (20000 + 2 * length (enc_nef f))" and "328 \<le> length (enc_nef f)"
  shows "neoc_nef_file_from_bytes A (Some (enc_nef f)) (of_nat (length (enc_nef f))) = Ok (loaded f)"
proof -
  note len = length_enc_nef [OF assms(1)]
  have small: "length (enc_nef f) < 2 ^ 63" using len assms(1) by (simp add: nef_ok_def)
  have g: "grants A (max 40 (length (enc_nef f)))" "grants A (15000 + length (nef_script f))" "A 408"
    using assms(2) len by (auto simp: grants_def)
  obtain r where r: "neoc_binary_reader_create A (Some (enc_nef f)) (of_nat (length (enc_nef f))) = Ok r"
    "reader_inv r" "r_rest r = enc_nef f" using reader_create_fresh [OF small g(1)] .
  then have "fst (read_nef A r) = Ok (loaded f)"
    using readsD [OF nef_codec.object_rd [OF assms(1) g(2)] r(2), of "[]"] by simp
  moreover have "unat (of_nat (length (enc_nef f)) :: size_t) = length (enc_nef f)" using small by (simp add: unat_of_nat_size)
  ultimately show ?thesis
    using r(1) g(3) assms(3) by (simp add: neoc_nef_file_from_bytes_def sizeof_nef_header_def sizeof_nef_file_def)
qed

lemma nef_save:
  assumes "nef_ok f" and "grants A (20000 + 2 * length (enc_nef f))"
  shows "neoc_nef_file_to_bytes A (Some f) = Ok (enc_nef f)"
proof -
  note len = length_enc_nef [OF assms(1)]
  have g: "grants A (15000 + length (nef_script f))" "grants A (max 32 (unat (1024 :: size_t) + 2 * length (enc_nef f)))"
    using assms(2) len by (auto elim!: grants_mono)
  have "length (enc_nef f) < 2 ^ 62" using len assms(1) by (simp add: nef_ok_def)
  with run_writer_Ok [OF nef_codec.object_wr [OF assms(1) g(1)] _ _ g(2)] show ?thesis by (simp add: to_bytes_run [OF assms(1)])
qed

lemma checksum_ignores_fields [simp]:
  "calculate_checksum C A (f\<lparr>nef_checksum := h\<rparr>) = calculate_checksum C A f"
  "calculate_checksum C A (f\<lparr>checksum_valid := b\<rparr>) = calculate_checksum C A f"
  by (simp_all add: calculate_checksum_def write_nef_body_def write_tokens_def)

lemma hash256_equal_refl [simp]: "neoc_hash256_equal (Some h) (Some h)"
  by (simp add: neoc_hash256_equal_def neoc_hash256_compare_def compare_pointers_def memcmp_zero_iff)

subsection \<open>Theorems\<close>

text \<open>A well-formed executable file is written as the bytes of the format.  Reading them back gives the file, except that the
  capacity of its token array is zero; but a file of fewer than 328 bytes, the size of the header structure in memory, is
  refused although it was written by the same library.\<close>

theorem nef_roundtrip:
  assumes "nef_ok f" and "grants A (20000 + 2 * length (enc_nef f))"
  shows "neoc_nef_file_to_bytes A (Some f) = Ok (enc_nef f)
    \<and> neoc_nef_file_from_bytes A (Some (enc_nef f)) (of_nat (length (enc_nef f)))
      = (if length (enc_nef f) < 328 then Err NEOC_ERROR_INVALID_FORMAT else Ok (f\<lparr>token_capacity := 0, checksum_valid := False\<rparr>))"
proof (cases "length (enc_nef f) < 328")
  case True
  then have "unat (of_nat (length (enc_nef f)) :: size_t) < 328" by (simp add: unat_of_nat_size)
  with True nef_save [OF assms] show ?thesis by (simp add: neoc_nef_file_from_bytes_def sizeof_nef_header_def)
next
  case False
  with nef_save [OF assms] nef_load [OF assms] show ?thesis by (simp add: loaded_def)
qed

definition demo_nef :: "nat \<Rightarrow> neoc_nef_file" where
  "demo_nef n = \<lparr>nef_magic = NEF_MAGIC, nef_compiler = pad_to 64 [110, 101, 111], nef_source = pad_to 256 [],
     nef_reserved = [0, 0], nef_reserved2 = 0,
     nef_tokens = [\<lparr>tk_hash = replicate 20 1, tk_method = pad_to 32 [109], tk_parameters_count = 2, tk_has_return_value = True, tk_call_flags = 15\<rparr>],
     token_capacity = 10, tokens_live = True, nef_script = replicate n 0x40, nef_checksum = replicate 32 5, checksum_valid = True\<rparr>"

lemma demo_nef_ok: "n < 2 ^ 50 \<Longrightarrow> nef_ok (demo_nef n)"
  by (simp add: nef_ok_def demo_nef_def token_ok_def string_ok_pad_to cstr_pad_to)

lemma demo_nef_length: "328 \<le> length (enc_nef (demo_nef 300))"
proof -
  have "length (enc_nef f) \<ge> length (nef_script f) + length (nef_compiler f)" for f
    by (simp add: enc_nef_def enc_nef_body_def length_enc_var_bytes)
  from this [of "demo_nef 300"] show ?thesis by (simp add: demo_nef_def)
qed

theorem nef_roundtrip_witness:
  "neoc_nef_file_from_bytes (\<lambda>_. True) (Some (enc_nef (demo_nef 4))) (of_nat (length (enc_nef (demo_nef 4)))) = Err NEOC_ERROR_INVALID_FORMAT"
proof -
  have "length (enc_nef (demo_nef 4)) = 136" by code_simp
  with nef_roundtrip [OF demo_nef_ok [of 4], of "\<lambda>_. True"] show ?thesis by simp
qed

text \<open>Every successful creation and every successful addition of a method token leaves a file whose stored checksum is the one
  that \<^verbatim>\<open>neoc_nef_file_verify_checksum\<close> computes.\<close>

theorem nef_checksum_kept:
  "(neoc_nef_file_create C A compiler source script = Ok f \<longrightarrow> neoc_nef_file_verify_checksum C A (Some f) = Ok True)
   \<and> (neoc_nef_file_add_method_token C A hash name n b flags g = (Ok (), g') \<longrightarrow> neoc_nef_file_verify_checksum C A (Some g') = Ok True)"
proof (intro conjI impI)
  assume "neoc_nef_file_create C A compiler source script = Ok f"
  then obtain nef h where "calculate_checksum C A nef = Ok h" "f = nef\<lparr>nef_checksum := h, checksum_valid := True\<rparr>"
    by (auto simp: neoc_nef_file_create_def Let_def bind_r_Ok_iff split: option.splits if_splits)
  then show "neoc_nef_file_verify_checksum C A (Some f) = Ok True" by (simp add: neoc_nef_file_verify_checksum_def)
next
  assume "neoc_nef_file_add_method_token C A hash name n b flags g = (Ok (), g')"
  then obtain nef h where "calculate_checksum C A nef = Ok h" "g' = nef\<lparr>nef_checksum := h\<rparr>"
    by (auto simp: neoc_nef_file_add_method_token_def then_c_def bind_c_def store_checksum_def
        split: option.splits if_splits prod.splits result.splits)
  then show "neoc_nef_file_verify_checksum C A (Some g') = Ok True" by (simp add: neoc_nef_file_verify_checksum_def)
qed

lemma toy_checksum:
  assumes "nef_ok f" and "length (enc_nef_body f) < 2 ^ 60"
  shows "calculate_checksum toy_crypto (\<lambda>_. True) f = Ok (replicate 32 32)"
proof -
  have "run_writer (\<lambda>_. True) 1024 (write_nef_body (\<lambda>_. True) (nef_compiler f) f) = Ok (enc_nef_body f)"
    by (rule run_writer_Ok [OF writes_nef_body [OF assms(1)]]) (use assms(2) in simp_all)
  then show ?thesis
    by (simp add: calculate_checksum_def neoc_sha256_double_def neoc_sha256_def digest_calls_def toy_crypto_def
        neoc_hash256_from_bytes_def hash_sizes)
qed

theorem nef_checksum_kept_witness:
  "\<exists>f. neoc_nef_file_create toy_crypto (\<lambda>_. True) (Some [110]) None (Some [0x40]) = Ok f
    \<and> neoc_nef_file_verify_checksum toy_crypto (\<lambda>_. True) (Some f) = Ok True"
proof -
  let ?nef = "\<lparr>nef_magic = NEF_MAGIC, nef_compiler = pad_to 64 [110], nef_source = pad_to 256 [], nef_reserved = [0, 0], nef_reserved2 = 0,
    nef_tokens = [], token_capacity = 10, tokens_live = True, nef_script = [0x40], nef_checksum = replicate 32 0, checksum_valid = False\<rparr>"
  have ok: "nef_ok ?nef" by (simp add: nef_ok_def string_ok_pad_to cstr_pad_to)
  have "length (enc_nef_body ?nef) < 2 ^ 60" using length_enc_nef(2) [OF ok] by (simp add: enc_nef_def)
  from toy_checksum [OF ok this]
  obtain f where "neoc_nef_file_create toy_crypto (\<lambda>_. True) (Some [110]) None (Some [0x40]) = Ok f"
    by (simp add: neoc_nef_file_create_def nef_limits)
  with nef_checksum_kept [of toy_crypto "\<lambda>_. True" "Some [110]" None "Some [0x40]" f] show ?thesis by blast
qed

text \<open>The stored checksum is not compared on loading: a file whose last 32 bytes were replaced by anything else loads as well.\<close>

theorem nef_load_ignores_checksum:
  assumes "nef_ok f" and "length ck = 32" and "328 \<le> length (enc_nef f)" and "grants A (20000 + 2 * length (enc_nef f))"
  shows "neoc_nef_file_from_bytes A (Some (enc_nef_body f @ ck)) (of_nat (length (enc_nef_body f @ ck)))
    = Ok (f\<lparr>token_capacity := 0, checksum_valid := False, nef_checksum := ck\<rparr>)"
proof -
  have "enc_nef_body (f\<lparr>nef_checksum := ck\<rparr>) = enc_nef_body f" by (simp add: enc_nef_body_def)
  then have enc: "enc_nef (f\<lparr>nef_checksum := ck\<rparr>) = enc_nef_body f @ ck" by (simp add: enc_nef_def)
  have len: "length (enc_nef_body f @ ck) = length (enc_nef f)" using assms(1,2) by (simp add: enc_nef_def nef_ok_def)
  have "nef_ok (f\<lparr>nef_checksum := ck\<rparr>)" using assms(1,2) by (simp add: nef_ok_def)
  from nef_load [OF this, of A, unfolded enc len loaded_def] assms(3,4) show ?thesis unfolding len by simp
qed

theorem nef_load_ignores_checksum_witness:
  "neoc_nef_file_from_bytes (\<lambda>_. True) (Some (enc_nef_body (demo_nef 300) @ replicate 32 0)) (of_nat (length (enc_nef_body (demo_nef 300) @ replicate 32 (0 :: byte))))
   = Ok ((demo_nef 300)\<lparr>token_capacity := 0, checksum_valid := False, nef_checksum := replicate 32 0\<rparr>)"
  using nef_load_ignores_checksum [OF demo_nef_ok [of 300] _ demo_nef_length, of "replicate 32 0" "\<lambda>_. True"] by simp

text \<open>A file that was loaded with method tokens cannot be extended: the capacity zero is doubled to zero, the block of the tokens is
  freed by the request for zero bytes, and the file keeps its address, so that the next access to a token is a fault.\<close>

theorem nef_add_after_load_dangles:
  assumes "nef_ok f" and "328 \<le> length (enc_nef f)" and "grants A (20000 + 2 * length (enc_nef f))"
    and "nef_tokens f \<noteq> []" and "length (nef_tokens f) < 128" and "length m \<le> 31"
  shows "\<exists>g g'. neoc_nef_file_from_bytes A (Some (enc_nef f)) (of_nat (length (enc_nef f))) = Ok g
    \<and> neoc_nef_file_get_token (Some g) 0 = Ok (nef_tokens f ! 0)
    \<and> neoc_nef_file_add_method_token C A (Some h) (Some m) n b flags g = (Err NEOC_ERROR_MEMORY, g')
    \<and> neoc_nef_file_get_token (Some g') 0 = Fault"
proof (intro exI conjI)
  show "neoc_nef_file_from_bytes A (Some (enc_nef f)) (of_nat (length (enc_nef f))) = Ok (loaded f)"
    using assms(1-3) by (intro nef_load)
  show "neoc_nef_file_get_token (Some (loaded f)) 0 = Ok (nef_tokens f ! 0)"
    using assms(1,4) by (simp add: neoc_nef_file_get_token_def loaded_def nef_ok_def)
  show "neoc_nef_file_add_method_token C A (Some h) (Some m) n b flags (loaded f)
      = (Err NEOC_ERROR_MEMORY, (loaded f)\<lparr>tokens_live := False\<rparr>)"
    using assms(1,4-6)
    by (simp add: neoc_nef_file_add_method_token_def then_c_def bind_c_def grow_tokens_def loaded_def nef_ok_def nef_limits)
  show "neoc_nef_file_get_token (Some ((loaded f)\<lparr>tokens_live := False\<rparr>)) 0 = Fault"
    using assms(4) by (simp add: neoc_nef_file_get_token_def loaded_def)
qed

theorem nef_add_after_load_dangles_witness:
  "\<exists>g g'. neoc_nef_file_from_bytes (\<lambda>_. True) (Some (enc_nef (demo_nef 300))) (of_nat (length (enc_nef (demo_nef 300)))) = Ok g
    \<and> neoc_nef_file_get_token (Some g) 0 = Ok (nef_tokens (demo_nef 300) ! 0)
    \<and> neoc_nef_file_add_method_token toy_crypto (\<lambda>_. True) (Some (replicate 20 2)) (Some [120]) 0 False 1 g = (Err NEOC_ERROR_MEMORY, g')
    \<and> neoc_nef_file_get_token (Some g') 0 = Fault"
  by (rule nef_add_after_load_dangles [OF _ demo_nef_length]) (simp_all add: demo_nef_ok, simp_all add: demo_nef_def)

end
