(* ===== verification/Memory.thy ===== *)
theory Memory
  imports NeoC_Prelude
begin

text \<open>
  \<^verbatim>\<open>src/neoc_memory.c\<close>: allocation with statistics, a list that tracks the blocks handed out, and a replaceable
  allocator.  The state holds the heap (which addresses are the start of a live block, and its bytes; an indeterminate byte is \<open>None\<close>), the
  statistics, the tracking list from its head, the spin lock around the list and the custom allocator.  A null pointer is \<open>None\<close>.  A block records
  whether the C library handed it out, because \<^verbatim>\<open>free\<close> and \<^verbatim>\<open>realloc\<close> are defined on such blocks only.

  The allocator of the C library is a parameter \<open>L\<close>: for a heap and a size it returns the address of the new block or
  nothing.  \<open>libc_ok\<close> is what the C standard says of it: a new block does not overlap a live one.  The definitions
  below are those of one thread: a lock that is already taken is a loop that never ends.  The other theories use of all this only whether a
  request is granted (\<open>allocator\<close>); \<open>malloc_refines\<close> connects the two.
\<close>

subsection \<open>State\<close>

type_synonym addr = u64

record block =
  from_libc :: bool
  contents :: "byte option list"

type_synonym heap = "addr \<Rightarrow> block option"

record libc =
  sys_malloc :: "heap \<Rightarrow> nat \<Rightarrow> addr option"
  sys_realloc :: "heap \<Rightarrow> addr \<Rightarrow> nat \<Rightarrow> addr option"

definition libc_ok :: "libc \<Rightarrow> bool" where
  "libc_ok L \<longleftrightarrow>
     (\<forall>h n p. sys_malloc L h n = Some p \<longrightarrow> h p = None)
     \<and> (\<forall>h p n q. sys_realloc L h p n = Some q \<longrightarrow> q = p \<or> h q = None)"

record memory_stats =
  total_allocated :: size_t
  total_freed :: size_t
  current_usage :: size_t
  peak_usage :: size_t
  allocation_count :: size_t
  free_count :: size_t

text \<open>A node of the list: its own address, the block it tracks and the size of that block.\<close>

record alloc_entry =
  entry_node :: addr
  entry_ptr :: addr
  entry_size :: size_t

text \<open>The functions of a custom allocator work on the same heap; each may be missing.\<close>

record neoc_allocator =
  malloc_func :: "(heap \<Rightarrow> size_t \<Rightarrow> addr option \<times> heap) option"
  realloc_func :: "(heap \<Rightarrow> addr \<Rightarrow> size_t \<Rightarrow> addr option \<times> heap) option"
  free_func :: "(heap \<Rightarrow> addr \<Rightarrow> heap) option"

record memory =
  heap :: heap
  stats :: memory_stats
  alloc_list :: "alloc_entry list"
  alloc_lock :: bool
  custom_allocator :: neoc_allocator

definition default_allocator :: neoc_allocator where
  "default_allocator = \<lparr>malloc_func = None, realloc_func = None, free_func = None\<rparr>"

definition initial_memory :: memory where
  "initial_memory = \<lparr>heap = (\<lambda>_. None), stats = \<lparr>total_allocated = 0, total_freed = 0, current_usage = 0, peak_usage = 0,
     allocation_count = 0, free_count = 0\<rparr>, alloc_list = [], alloc_lock = False, custom_allocator = default_allocator\<rparr>"

definition using_custom_allocator :: "memory \<Rightarrow> bool" where
  "using_custom_allocator s \<longleftrightarrow>
     malloc_func (custom_allocator s) \<noteq> None \<or> realloc_func (custom_allocator s) \<noteq> None \<or> free_func (custom_allocator s) \<noteq> None"

subsection \<open>The C library\<close>

definition libc_malloc :: "libc \<Rightarrow> nat \<Rightarrow> (memory, addr option) cmd" where
  "libc_malloc L n s =
     (case sys_malloc L (heap s) n of
        None \<Rightarrow> (Ok None, s)
      | Some p \<Rightarrow> (Ok (Some p), s\<lparr>heap := (heap s)(p \<mapsto> \<lparr>from_libc = True, contents = replicate n None\<rparr>)\<rparr>))"

text \<open>\<^verbatim>\<open>calloc\<close> refuses a product that does not fit in a \<^verbatim>\<open>size_t\<close>.\<close>

definition libc_calloc :: "libc \<Rightarrow> size_t \<Rightarrow> size_t \<Rightarrow> (memory, addr option) cmd" where
  "libc_calloc L count sz s =
     (if 2 ^ 64 \<le> unat count * unat sz then (Ok None, s)
      else (case sys_malloc L (heap s) (unat count * unat sz) of
          None \<Rightarrow> (Ok None, s)
        | Some p \<Rightarrow> (Ok (Some p), s\<lparr>heap := (heap s)(p \<mapsto> \<lparr>from_libc = True, contents = replicate (unat count * unat sz) (Some 0)\<rparr>)\<rparr>)))"

definition libc_realloc :: "libc \<Rightarrow> addr \<Rightarrow> nat \<Rightarrow> (memory, addr option) cmd" where
  "libc_realloc L p n s =
     (case heap s p of
        None \<Rightarrow> (Fault, s)
      | Some b \<Rightarrow>
          if \<not> from_libc b then (Fault, s)
          else (case sys_realloc L (heap s) p n of
              None \<Rightarrow> (Ok None, s)
            | Some q \<Rightarrow>
                (Ok (Some q), s\<lparr>heap := (heap s)(p := None,
                   q \<mapsto> \<lparr>from_libc = True, contents = take n (contents b) @ replicate (n - length (contents b)) None\<rparr>)\<rparr>)))"

definition libc_free :: "addr \<Rightarrow> (memory, unit) cmd" where
  "libc_free p s =
     (case heap s p of
        None \<Rightarrow> (Fault, s)
      | Some b \<Rightarrow> if \<not> from_libc b then (Fault, s) else (Ok (), s\<lparr>heap := (heap s)(p := None)\<rparr>))"

subsection \<open>The tracking list\<close>

definition alloc_lock_acquire :: "(memory, unit) cmd" where
  "alloc_lock_acquire s = (if alloc_lock s then (Fault, s) else (Ok (), s\<lparr>alloc_lock := True\<rparr>))"

definition alloc_lock_release :: "(memory, unit) cmd" where
  "alloc_lock_release s = (Ok (), s\<lparr>alloc_lock := False\<rparr>)"

definition sizeof_alloc_entry :: nat where "sizeof_alloc_entry = 24"

definition track_allocation :: "libc \<Rightarrow> addr option \<Rightarrow> size_t \<Rightarrow> (memory, unit) cmd" where
  "track_allocation L ptr sz =
     (case ptr of
        None \<Rightarrow> return_c ()
      | Some p \<Rightarrow>
          bind_c (libc_malloc L sizeof_alloc_entry) (\<lambda>entry.
            case entry of
              None \<Rightarrow> return_c ()
            | Some node \<Rightarrow>
                then_c alloc_lock_acquire
                (then_c (\<lambda>s. (Ok (), s\<lparr>alloc_list := \<lparr>entry_node = node, entry_ptr = p, entry_size = sz\<rparr> # alloc_list s\<rparr>))
                        alloc_lock_release)))"

text \<open>The search from the head of the list: the entry found and the list without it.\<close>

fun unlink_entry :: "addr \<Rightarrow> alloc_entry list \<Rightarrow> (alloc_entry \<times> alloc_entry list) option" where
  "unlink_entry p [] = None"
| "unlink_entry p (cur # rest) =
     (if entry_ptr cur = p then Some (cur, rest)
      else map_option (\<lambda>(found, others). (found, cur # others)) (unlink_entry p rest))"

definition untrack_allocation :: "addr option \<Rightarrow> (memory, size_t option) cmd" where
  "untrack_allocation ptr =
     (case ptr of
        None \<Rightarrow> return_c None
      | Some p \<Rightarrow>
          then_c alloc_lock_acquire
            (\<lambda>s. case unlink_entry p (alloc_list s) of
               None \<Rightarrow> then_c alloc_lock_release (return_c None) s
             | Some (cur, rest) \<Rightarrow>
                 then_c (\<lambda>s. (Ok (), s\<lparr>alloc_list := rest\<rparr>))
                 (then_c alloc_lock_release
                 (then_c (libc_free (entry_node cur)) (return_c (Some (entry_size cur))))) s))"

subsection \<open>Allocation\<close>

definition upd_stats :: "(memory_stats \<Rightarrow> memory_stats) \<Rightarrow> (memory, unit) cmd" where
  "upd_stats f s = (Ok (), s\<lparr>stats := f (stats s)\<rparr>)"

text \<open>What \<^verbatim>\<open>neoc_malloc\<close> and \<^verbatim>\<open>neoc_calloc\<close> do with a block of the default allocator.\<close>

definition account_new :: "libc \<Rightarrow> addr option \<Rightarrow> size_t \<Rightarrow> (memory, unit) cmd" where
  "account_new L ptr sz =
     then_c (upd_stats (\<lambda>t. t\<lparr>allocation_count := allocation_count t + 1\<rparr>))
     (then_c (track_allocation L ptr sz)
     (then_c (upd_stats (\<lambda>t. t\<lparr>total_allocated := total_allocated t + sz\<rparr>))
     (then_c (upd_stats (\<lambda>t. t\<lparr>current_usage := current_usage t + sz\<rparr>))
             (upd_stats (\<lambda>t. if peak_usage t < current_usage t then t\<lparr>peak_usage := current_usage t\<rparr> else t)))))"

definition neoc_malloc :: "libc \<Rightarrow> size_t \<Rightarrow> (memory, addr option) cmd" where
  "neoc_malloc L sz s =
     (if sz = 0 then (Ok None, s)
      else
        let custom = using_custom_allocator s in
        bind_c (case malloc_func (custom_allocator s) of
              Some f \<Rightarrow> (\<lambda>s. let (ptr, h) = f (heap s) sz in (Ok ptr, s\<lparr>heap := h\<rparr>))
            | None \<Rightarrow> libc_malloc L (unat sz)) (\<lambda>ptr.
          then_c (if ptr \<noteq> None \<and> \<not> custom then account_new L ptr sz else return_c ()) (return_c ptr)) s)"

text \<open>\<^verbatim>\<open>memset\<close> of a block to zero: the bytes must be inside it.\<close>

definition store_zeros :: "addr \<Rightarrow> nat \<Rightarrow> (memory, unit) cmd" where
  "store_zeros p n s =
     (case heap s p of
        None \<Rightarrow> (Fault, s)
      | Some b \<Rightarrow>
          if length (contents b) < n then (Fault, s)
          else (Ok (), s\<lparr>heap := (heap s)(p \<mapsto> b\<lparr>contents := replicate n (Some 0) @ drop n (contents b)\<rparr>)\<rparr>))"

definition neoc_calloc :: "libc \<Rightarrow> size_t \<Rightarrow> size_t \<Rightarrow> (memory, addr option) cmd" where
  "neoc_calloc L count sz s =
     (if count = 0 \<or> sz = 0 then (Ok None, s)
      else
        let total = count * sz; custom = using_custom_allocator s in
        bind_c (case malloc_func (custom_allocator s) of
              Some f \<Rightarrow>
                bind_c (\<lambda>s. let (ptr, h) = f (heap s) total in (Ok ptr, s\<lparr>heap := h\<rparr>)) (\<lambda>ptr.
                  then_c (case ptr of Some p \<Rightarrow> store_zeros p (unat total) | None \<Rightarrow> return_c ()) (return_c ptr))
            | None \<Rightarrow> libc_calloc L count sz) (\<lambda>ptr.
          then_c (if ptr \<noteq> None \<and> \<not> custom then account_new L ptr total else return_c ()) (return_c ptr)) s)"

definition neoc_free :: "addr option \<Rightarrow> (memory, unit) cmd" where
  "neoc_free ptr s =
     (case ptr of
        None \<Rightarrow> (Ok (), s)
      | Some p \<Rightarrow>
          let custom = using_custom_allocator s in
          (case free_func (custom_allocator s) of
             Some f \<Rightarrow>
               then_c (\<lambda>s. (Ok (), s\<lparr>heap := f (heap s) p\<rparr>))
                 (if \<not> custom then upd_stats (\<lambda>t. t\<lparr>free_count := free_count t + 1\<rparr>) else return_c ()) s
           | None \<Rightarrow>
               bind_c (untrack_allocation (Some p)) (\<lambda>tracked.
                 then_c (libc_free p)
                   (if \<not> custom then
                      then_c (upd_stats (\<lambda>t. t\<lparr>free_count := free_count t + 1\<rparr>))
                        (case tracked of
                           Some sz \<Rightarrow>
                             then_c (upd_stats (\<lambda>t. t\<lparr>total_freed := total_freed t + sz\<rparr>))
                                    (upd_stats (\<lambda>t. t\<lparr>current_usage := current_usage t - sz\<rparr>))
                         | None \<Rightarrow> return_c ())
                    else return_c ())) s))"

definition neoc_realloc :: "libc \<Rightarrow> addr option \<Rightarrow> size_t \<Rightarrow> (memory, addr option) cmd" where
  "neoc_realloc L ptr sz s =
     (case ptr of
        None \<Rightarrow> neoc_malloc L sz s
      | Some p \<Rightarrow>
          if sz = 0 then then_c (neoc_free (Some p)) (return_c None) s
          else
            let custom = using_custom_allocator s in
            bind_c (if \<not> custom then untrack_allocation (Some p) else return_c None) (\<lambda>old.
            bind_c (case realloc_func (custom_allocator s) of
                  Some f \<Rightarrow> (\<lambda>s. let (q, h) = f (heap s) p sz in (Ok q, s\<lparr>heap := h\<rparr>))
                | None \<Rightarrow> libc_realloc L p (unat sz)) (\<lambda>new_ptr.
              case new_ptr of
                None \<Rightarrow>
                  then_c (case old of Some old_size \<Rightarrow> track_allocation L (Some p) old_size | None \<Rightarrow> return_c ()) (return_c None)
              | Some q \<Rightarrow>
                  then_c (if \<not> custom then
                      then_c (upd_stats (\<lambda>t. t\<lparr>allocation_count := allocation_count t + 1\<rparr>))
                      (then_c (track_allocation L (Some q) sz)
                      (then_c (upd_stats (\<lambda>t. t\<lparr>total_allocated := total_allocated t + sz\<rparr>))
                      (then_c (upd_stats (\<lambda>t. t\<lparr>current_usage := current_usage t + sz\<rparr>))
                        (case old of
                           Some old_size \<Rightarrow>
                             if 0 < old_size then
                               then_c (upd_stats (\<lambda>t. t\<lparr>free_count := free_count t + 1\<rparr>))
                               (then_c (upd_stats (\<lambda>t. t\<lparr>total_freed := total_freed t + old_size\<rparr>))
                                       (upd_stats (\<lambda>t. t\<lparr>current_usage := current_usage t - old_size\<rparr>)))
                             else return_c ()
                         | None \<Rightarrow> return_c ()))))
                    else return_c ())
                  (return_c (Some q)))) s)"

subsection \<open>Copies\<close>

text \<open>\<^verbatim>\<open>memcpy\<close> to the start of a block.\<close>

definition store_bytes_at :: "addr \<Rightarrow> byte list \<Rightarrow> (memory, unit) cmd" where
  "store_bytes_at p data s =
     (case heap s p of
        None \<Rightarrow> (Fault, s)
      | Some b \<Rightarrow>
          if length (contents b) < length data then (Fault, s)
          else (Ok (), s\<lparr>heap := (heap s)(p \<mapsto> b\<lparr>contents := map Some data @ drop (length data) (contents b)\<rparr>)\<rparr>))"

definition fill_new :: "libc \<Rightarrow> byte list \<Rightarrow> (memory, addr option) cmd" where
  "fill_new L data =
     bind_c (neoc_malloc L (of_nat (length data))) (\<lambda>copy.
       then_c (case copy of Some p \<Rightarrow> store_bytes_at p data | None \<Rightarrow> return_c ()) (return_c copy))"

text \<open>A C string is the list of its bytes before the terminating zero.\<close>

definition neoc_strdup :: "libc \<Rightarrow> byte list option \<Rightarrow> (memory, addr option) cmd" where
  "neoc_strdup L str = (case str of None \<Rightarrow> return_c None | Some t \<Rightarrow> fill_new L (t @ [0]))"

definition neoc_strndup :: "libc \<Rightarrow> byte list option \<Rightarrow> size_t \<Rightarrow> (memory, addr option) cmd" where
  "neoc_strndup L str n =
     (case str of
        None \<Rightarrow> return_c None
      | Some t \<Rightarrow> let len = (if unat n < length t then unat n else length t) in fill_new L (take len t @ [0]))"

definition neoc_memdup :: "libc \<Rightarrow> byte list option \<Rightarrow> size_t \<Rightarrow> (memory, addr option) cmd" where
  "neoc_memdup L data sz =
     (case data of
        None \<Rightarrow> return_c None
      | Some d \<Rightarrow>
          if sz = 0 then return_c None
          else if length d < unat sz then lift_c Fault
          else fill_new L (take (unat sz) d))"

subsection \<open>Custom allocators\<close>

definition neoc_set_allocator :: "neoc_allocator option \<Rightarrow> (memory, unit) cmd" where
  "neoc_set_allocator allocator s =
     (case allocator of None \<Rightarrow> (Err NEOC_ERROR_INVALID_ARGUMENT, s) | Some c \<Rightarrow> (Ok (), s\<lparr>custom_allocator := c\<rparr>))"

definition neoc_get_allocator :: "(memory, neoc_allocator) cmd" where
  "neoc_get_allocator s = (Ok (custom_allocator s), s)"

definition neoc_reset_allocator :: "(memory, unit) cmd" where
  "neoc_reset_allocator s = (Ok (), s\<lparr>custom_allocator := default_allocator\<rparr>)"

subsection \<open>Secrets\<close>

definition neoc_secure_memzero :: "addr option \<Rightarrow> size_t \<Rightarrow> (memory, unit) cmd" where
  "neoc_secure_memzero ptr sz =
     (case ptr of None \<Rightarrow> return_c () | Some p \<Rightarrow> if 0 < sz then store_zeros p (unat sz) else return_c ())"

definition neoc_secure_free :: "addr option \<Rightarrow> size_t \<Rightarrow> (memory, unit) cmd" where
  "neoc_secure_free ptr sz =
     (case ptr of None \<Rightarrow> return_c () | Some p \<Rightarrow> then_c (neoc_secure_memzero (Some p) sz) (neoc_free (Some p)))"

text \<open>The comparison looks at every byte, whatever the earlier ones were.\<close>

definition neoc_secure_memcmp :: "byte list option \<Rightarrow> byte list option \<Rightarrow> nat \<Rightarrow> int result" where
  "neoc_secure_memcmp a b n =
     (case (a, b) of
        (Some pa, Some pb) \<Rightarrow>
          if length pa < n \<or> length pb < n then Fault
          else Ok (of_bool (fold (\<lambda>i acc. acc OR (pa ! i XOR pb ! i)) [0..<n] (0 :: byte) \<noteq> 0))
      | _ \<Rightarrow> Ok (- 1))"

subsection \<open>Statistics\<close>

definition neoc_get_allocation_count :: "memory \<Rightarrow> size_t" where
  "neoc_get_allocation_count s =
     (let allocs = allocation_count (stats s); frees = free_count (stats s) in
      if frees < allocs then allocs - frees else 0)"

definition neoc_memory_debug_disable :: "(memory, unit) cmd" where
  "neoc_memory_debug_disable =
     upd_stats (\<lambda>_. \<lparr>total_allocated = 0, total_freed = 0, current_usage = 0, peak_usage = 0, allocation_count = 0, free_count = 0\<rparr>)"

definition neoc_memory_debug_check_leaks :: "memory \<Rightarrow> size_t" where
  "neoc_memory_debug_check_leaks s =
     (let alloc = allocation_count (stats s); free = free_count (stats s) in
      if free < alloc then alloc - free else 0)"

definition neoc_memory_debug_get_stats :: "memory \<Rightarrow> (size_t \<times> size_t) result" where
  "neoc_memory_debug_get_stats s =
     Ok (current_usage (stats s), allocation_count (stats s) - free_count (stats s))"

record neoc_memory_stats =
  ms_total_allocated :: size_t
  ms_current_allocated :: size_t
  ms_allocation_count :: size_t
  ms_free_count :: size_t

definition neoc_get_memory_stats :: "memory \<Rightarrow> neoc_memory_stats result" where
  "neoc_get_memory_stats s =
     Ok \<lparr>ms_total_allocated = total_allocated (stats s), ms_current_allocated = current_usage (stats s),
         ms_allocation_count = allocation_count (stats s), ms_free_count = free_count (stats s)\<rparr>"

subsection \<open>The invariant\<close>

abbreviation nodes :: "memory \<Rightarrow> addr set" where
  "nodes s \<equiv> entry_node ` set (alloc_list s)"

abbreviation tracked :: "memory \<Rightarrow> addr set" where
  "tracked s \<equiv> entry_ptr ` set (alloc_list s)"

text \<open>The blocks of the client: those that are not nodes of the list.\<close>

definition client :: "memory \<Rightarrow> addr set" where
  "client s = dom (heap s) - nodes s"

definition entry_ok :: "heap \<Rightarrow> alloc_entry \<Rightarrow> bool" where
  "entry_ok h e \<longleftrightarrow> 0 < entry_size e \<and> entry_node e \<in> dom h
     \<and> (\<exists>b. h (entry_ptr e) = Some b \<and> length (contents b) = unat (entry_size e))"

text \<open>The list and the heap agree: every node is a live block of its own, every tracked block is live and has the recorded size, no
  block is tracked twice, and the lock is free.\<close>

definition list_inv :: "memory \<Rightarrow> bool" where
  "list_inv s \<longleftrightarrow> \<not> alloc_lock s \<and> custom_allocator s = default_allocator
     \<and> distinct (map entry_node (alloc_list s) @ map entry_ptr (alloc_list s))
     \<and> (\<forall>e \<in> set (alloc_list s). entry_ok (heap s) e)
     \<and> (\<forall>p b. heap s p = Some b \<longrightarrow> from_libc b) \<and> finite (dom (heap s))"

lemma default_custom [simp]:
  "malloc_func default_allocator = None" "realloc_func default_allocator = None" "free_func default_allocator = None"
  by (simp_all add: default_allocator_def)

lemma using_default: "list_inv s \<Longrightarrow> \<not> using_custom_allocator s"
  by (simp add: list_inv_def using_custom_allocator_def)

lemma list_inv_stats [simp]: "list_inv (s\<lparr>stats := t\<rparr>) \<longleftrightarrow> list_inv s"
  by (simp add: list_inv_def)

lemma list_inv_initial: "list_inv initial_memory"
  by (simp add: list_inv_def initial_memory_def)

lemma entry_ok_upd:
  assumes "entry_ok h e" and "p \<noteq> entry_ptr e" and "p \<noteq> entry_node e"
  shows "entry_ok (h(p := v)) e"
  using assms by (auto simp: entry_ok_def)

lemma list_inv_new_block:
  assumes "list_inv s" and "heap s p = None"
  shows "list_inv (s\<lparr>heap := (heap s)(p \<mapsto> \<lparr>from_libc = True, contents = bs\<rparr>)\<rparr>)"
proof -
  have "p \<noteq> entry_ptr e \<and> p \<noteq> entry_node e" if "e \<in> set (alloc_list s)" for e
    using assms that by (auto simp: list_inv_def entry_ok_def)
  then show ?thesis using assms(1) by (auto simp: list_inv_def intro!: entry_ok_upd)
qed

lemma list_inv_drop_block:
  assumes "list_inv s" and "p \<notin> nodes s" and "p \<notin> tracked s"
  shows "list_inv (s\<lparr>heap := (heap s)(p := None)\<rparr>)"
  using assms by (auto simp: list_inv_def intro!: entry_ok_upd)

lemma list_inv_write:
  assumes "list_inv s" and "heap s p = Some b" and "length bs = length (contents b)"
  shows "list_inv (s\<lparr>heap := (heap s)(p \<mapsto> b\<lparr>contents := bs\<rparr>)\<rparr>)"
  using assms by (auto simp: list_inv_def entry_ok_def)

text \<open>The state after tracking a block: unchanged when no node could be allocated.\<close>

definition after_track :: "libc \<Rightarrow> addr \<Rightarrow> size_t \<Rightarrow> memory \<Rightarrow> memory" where
  "after_track L p sz s =
     (case sys_malloc L (heap s) sizeof_alloc_entry of
        None \<Rightarrow> s
      | Some node \<Rightarrow> s\<lparr>heap := (heap s)(node \<mapsto> \<lparr>from_libc = True, contents = replicate sizeof_alloc_entry None\<rparr>),
          alloc_list := \<lparr>entry_node = node, entry_ptr = p, entry_size = sz\<rparr> # alloc_list s\<rparr>)"

lemma track_eq: "\<not> alloc_lock s \<Longrightarrow> track_allocation L (Some p) sz s = (Ok (), after_track L p sz s)"
  by (simp add: track_allocation_def after_track_def libc_malloc_def bind_c_def then_c_def alloc_lock_acquire_def
      alloc_lock_release_def cmd_eval split: option.splits)

lemma track_inv:
  assumes "libc_ok L" and "list_inv s" and "heap s p = Some b" and "length (contents b) = unat sz" and "0 < sz"
    and "p \<notin> nodes s" and "p \<notin> tracked s"
  shows "list_inv (after_track L p sz s)"
proof (cases "sys_malloc L (heap s) sizeof_alloc_entry")
  case (Some node)
  with assms(1) have free: "heap s node = None" by (auto simp: libc_ok_def)
  have fresh: "node \<noteq> entry_ptr e \<and> node \<noteq> entry_node e" if "e \<in> set (alloc_list s)" for e
    using assms(2) free that by (auto simp: list_inv_def entry_ok_def)
  have "node \<noteq> p" using assms(3) free by auto
  with assms free fresh Some show ?thesis
    by (auto simp: list_inv_def after_track_def entry_ok_def intro!: entry_ok_upd [unfolded entry_ok_def])
qed (use assms(2) in \<open>simp add: after_track_def\<close>)

lemma unlink_Some:
  "unlink_entry p es = Some (e, rest) \<Longrightarrow> entry_ptr e = p \<and> (\<exists>xs ys. es = xs @ e # ys \<and> rest = xs @ ys)"
proof (induction es arbitrary: rest)
  case (Cons x es)
  show ?case
  proof (cases "entry_ptr x = p")
    case True
    with Cons.prems show ?thesis by (auto intro: exI [of _ "[]"])
  next
    case False
    with Cons.prems obtain others where "unlink_entry p es = Some (e, others)" "rest = x # others" by auto
    with Cons.IH [of others] obtain xs ys where "entry_ptr e = p" "es = xs @ e # ys" "others = xs @ ys" by auto
    with \<open>rest = x # others\<close> show ?thesis by (intro conjI exI [of _ "x # xs"] exI [of _ ys]) simp_all
  qed
qed simp

lemma unlink_None: "unlink_entry p es = None \<longleftrightarrow> p \<notin> entry_ptr ` set es"
  by (induction es) auto

definition after_unlink :: "alloc_entry \<Rightarrow> alloc_entry list \<Rightarrow> memory \<Rightarrow> memory" where
  "after_unlink e rest s = s\<lparr>alloc_list := rest, heap := (heap s)(entry_node e := None)\<rparr>"

lemma unlink_inv:
  assumes "list_inv s" and "unlink_entry p (alloc_list s) = Some (e, rest)"
  shows "list_inv (after_unlink e rest s)" and "p \<notin> tracked (after_unlink e rest s)" and "p \<notin> nodes (after_unlink e rest s)"
    and "heap (after_unlink e rest s) p = heap s p" and "nodes s = insert (entry_node e) (nodes (after_unlink e rest s))"
    and "entry_node e \<notin> nodes (after_unlink e rest s)" and "tracked s = insert p (tracked (after_unlink e rest s))"
proof -
  obtain xs ys where p: "entry_ptr e = p" and list: "alloc_list s = xs @ e # ys" "rest = xs @ ys"
    using unlink_Some [OF assms(2)] by blast
  have d: "distinct (map entry_node (alloc_list s) @ map entry_ptr (alloc_list s))" using assms(1) by (simp add: list_inv_def)
  show "list_inv (after_unlink e rest s)"
    using assms(1) d unfolding list_inv_def after_unlink_def list by (auto intro!: entry_ok_upd)
  show "p \<notin> tracked (after_unlink e rest s)" "p \<notin> nodes (after_unlink e rest s)" "heap (after_unlink e rest s) p = heap s p"
    "entry_node e \<notin> nodes (after_unlink e rest s)"
    using d p unfolding list after_unlink_def by auto
  show "nodes s = insert (entry_node e) (nodes (after_unlink e rest s))" "tracked s = insert p (tracked (after_unlink e rest s))"
    using p unfolding list after_unlink_def by auto
qed

lemma untrack_eq:
  assumes "list_inv s"
  shows "untrack_allocation (Some p) s =
    (case unlink_entry p (alloc_list s) of
       None \<Rightarrow> (Ok None, s)
     | Some (e, rest) \<Rightarrow> (Ok (Some (entry_size e)), after_unlink e rest s))"
proof (cases "unlink_entry p (alloc_list s)")
  case None
  have "s\<lparr>alloc_lock := False\<rparr> = s" using assms by (simp add: list_inv_def)
  with None assms show ?thesis
    by (simp add: untrack_allocation_def then_c_def bind_c_def alloc_lock_acquire_def alloc_lock_release_def cmd_eval list_inv_def)
next
  case (Some q)
  obtain e rest where q: "q = (e, rest)" by (cases q)
  with Some assms have "entry_ok (heap s) e" by (auto simp: list_inv_def dest!: unlink_Some)
  then obtain b where b: "heap s (entry_node e) = Some b" "from_libc b" using assms by (auto simp: list_inv_def entry_ok_def)
  have "s\<lparr>alloc_list := rest, alloc_lock := False, heap := h\<rparr> = s\<lparr>alloc_list := rest, heap := h\<rparr>" for h
    using assms by (simp add: list_inv_def)
  with Some q assms b show ?thesis
    by (simp add: untrack_allocation_def then_c_def bind_c_def alloc_lock_acquire_def alloc_lock_release_def cmd_eval list_inv_def
        libc_free_def after_unlink_def)
qed

subsection \<open>What the operations do\<close>

lemma after_track_stats [simp]:
  "stats (after_track L p sz s) = stats s"
  "after_track L p sz (s\<lparr>stats := t\<rparr>) = (after_track L p sz s)\<lparr>stats := t\<rparr>"
  by (simp_all add: after_track_def split: option.split)

lemma after_unlink_stats [simp]: "stats (after_unlink e rest s) = stats s"
  by (simp add: after_unlink_def)

definition stats_new :: "size_t \<Rightarrow> memory_stats \<Rightarrow> memory_stats" where
  "stats_new sz t =
     (let t = t\<lparr>allocation_count := allocation_count t + 1, total_allocated := total_allocated t + sz,
            current_usage := current_usage t + sz\<rparr>
      in if peak_usage t < current_usage t then t\<lparr>peak_usage := current_usage t\<rparr> else t)"

lemma account_new_eq:
  assumes "\<not> alloc_lock s"
  shows "account_new L (Some p) sz s = (Ok (), (after_track L p sz s)\<lparr>stats := stats_new sz (stats s)\<rparr>)"
  using assms
  by (simp add: account_new_def then_c_def bind_c_def upd_stats_def track_eq stats_new_def Let_def)

abbreviation new_block :: "addr \<Rightarrow> byte option list \<Rightarrow> memory \<Rightarrow> memory" where
  "new_block p bs s \<equiv> s\<lparr>heap := (heap s)(p \<mapsto> \<lparr>from_libc = True, contents = bs\<rparr>)\<rparr>"

lemma malloc_eq:
  assumes "list_inv s" and "sz \<noteq> 0"
  shows "neoc_malloc L sz s =
    (case sys_malloc L (heap s) (unat sz) of
       None \<Rightarrow> (Ok None, s)
     | Some p \<Rightarrow> (Ok (Some p), (after_track L p sz (new_block p (replicate (unat sz) None) s))\<lparr>stats := stats_new sz (stats s)\<rparr>))"
  using assms using_default [OF assms(1)]
  by (simp add: neoc_malloc_def list_inv_def libc_malloc_def bind_c_def then_c_def cmd_eval account_new_eq Let_def split: option.splits)

lemma calloc_eq:
  assumes "list_inv s" and "count \<noteq> 0" and "sz \<noteq> 0"
  shows "neoc_calloc L count sz s =
    (if 2 ^ 64 \<le> unat count * unat sz then (Ok None, s)
     else case sys_malloc L (heap s) (unat count * unat sz) of
       None \<Rightarrow> (Ok None, s)
     | Some p \<Rightarrow> (Ok (Some p), (after_track L p (count * sz) (new_block p (replicate (unat count * unat sz) (Some 0)) s))
         \<lparr>stats := stats_new (count * sz) (stats s)\<rparr>))"
  using assms using_default [OF assms(1)]
  by (simp add: neoc_calloc_def list_inv_def libc_calloc_def bind_c_def then_c_def cmd_eval account_new_eq Let_def split: option.splits)

definition stats_free :: "size_t option \<Rightarrow> memory_stats \<Rightarrow> memory_stats" where
  "stats_free old t =
     (case old of
        None \<Rightarrow> t\<lparr>free_count := free_count t + 1\<rparr>
      | Some sz \<Rightarrow> t\<lparr>free_count := free_count t + 1, total_freed := total_freed t + sz, current_usage := current_usage t - sz\<rparr>)"

definition untracked_state :: "addr \<Rightarrow> memory \<Rightarrow> size_t option \<times> memory" where
  "untracked_state p s =
     (case unlink_entry p (alloc_list s) of
        None \<Rightarrow> (None, s) | Some (e, rest) \<Rightarrow> (Some (entry_size e), after_unlink e rest s))"

lemma untracked_stateE:
  assumes "list_inv s" and "p \<in> client s" and "untracked_state p s = (old, u)"
  obtains "old = None" "u = s" "p \<notin> tracked s" "p \<notin> nodes s"
  | e rest where "unlink_entry p (alloc_list s) = Some (e, rest)" "old = Some (entry_size e)" "u = after_unlink e rest s"
  using assms by (auto simp: untracked_state_def client_def unlink_None split: option.splits)

lemma untracked_inv:
  assumes "list_inv s" and "p \<in> client s" and "untracked_state p s = (old, u)"
  shows "list_inv u" and "p \<notin> tracked u" and "p \<notin> nodes u" and "heap u p = heap s p" and "stats u = stats s"
proof -
  from assms have "list_inv u \<and> p \<notin> tracked u \<and> p \<notin> nodes u \<and> heap u p = heap s p \<and> stats u = stats s"
  proof (rule untracked_stateE)
    fix e rest
    assume "unlink_entry p (alloc_list s) = Some (e, rest)" "u = after_unlink e rest s"
    then show ?thesis using unlink_inv(1-4) [OF assms(1)] by simp
  qed (use assms(1) in simp)
  then show "list_inv u" "p \<notin> tracked u" "p \<notin> nodes u" "heap u p = heap s p" "stats u = stats s" by blast+
qed

lemma untrack_state_eq:
  assumes "list_inv s" and "untracked_state p s = (old, u)"
  shows "untrack_allocation (Some p) s = (Ok old, u)"
  using untrack_eq [OF assms(1), of p] assms(2) by (auto simp: untracked_state_def split: option.splits)

lemma free_eq:
  assumes "list_inv s" and "p \<in> client s" and "untracked_state p s = (old, u)"
  shows "neoc_free (Some p) s = (Ok (), u\<lparr>heap := (heap u)(p := None), stats := stats_free old (stats s)\<rparr>)"
proof -
  note u = untracked_inv [OF assms]
  obtain b where b: "heap s p = Some b" "from_libc b" using assms(1,2) by (auto simp: client_def list_inv_def)
  with u(4) have "libc_free p u = (Ok (), u\<lparr>heap := (heap u)(p := None)\<rparr>)" by (simp add: libc_free_def)
  then show ?thesis
    using assms(1) untrack_state_eq [OF assms(1,3)] using_default [OF assms(1)] u(5)
    by (cases old)
       (simp_all add: neoc_free_def list_inv_def bind_c_def then_c_def cmd_eval upd_stats_def stats_free_def Let_def)
qed

definition stats_realloc :: "size_t option \<Rightarrow> size_t \<Rightarrow> memory_stats \<Rightarrow> memory_stats" where
  "stats_realloc old sz t =
     (let t = t\<lparr>allocation_count := allocation_count t + 1, total_allocated := total_allocated t + sz, current_usage := current_usage t + sz\<rparr>
      in case old of
          None \<Rightarrow> t
        | Some old_size \<Rightarrow>
            if 0 < old_size then t\<lparr>free_count := free_count t + 1, total_freed := total_freed t + old_size,
              current_usage := current_usage t - old_size\<rparr> else t)"

definition moved :: "addr \<Rightarrow> addr \<Rightarrow> nat \<Rightarrow> memory \<Rightarrow> memory" where
  "moved p q n u = u\<lparr>heap := (heap u)(p := None, q \<mapsto> \<lparr>from_libc = True,
     contents = take n (contents (the (heap u p))) @ replicate (n - length (contents (the (heap u p)))) None\<rparr>)\<rparr>"

lemma realloc_eq:
  assumes "list_inv s" and "p \<in> client s" and "untracked_state p s = (old, u)" and "sz \<noteq> 0"
  shows "neoc_realloc L (Some p) sz s =
    (case sys_realloc L (heap u) p (unat sz) of
       None \<Rightarrow> (Ok None, case old of Some old_size \<Rightarrow> after_track L p old_size u | None \<Rightarrow> u)
     | Some q \<Rightarrow> (Ok (Some q), (after_track L q sz (moved p q (unat sz) u))\<lparr>stats := stats_realloc old sz (stats s)\<rparr>))"
proof -
  note u = untracked_inv [OF assms(1-3)]
  obtain b where b: "heap u p = Some b" "from_libc b" using assms(1,2) u(4) by (auto simp: client_def list_inv_def)
  have re: "libc_realloc L p (unat sz) u = (case sys_realloc L (heap u) p (unat sz) of
      None \<Rightarrow> (Ok None, u) | Some q \<Rightarrow> (Ok (Some q), moved p q (unat sz) u))"
    using b by (simp add: libc_realloc_def moved_def split: option.split)
  have lock: "\<not> alloc_lock u" "\<not> alloc_lock (moved p q n u)" for q n using u(1) by (simp_all add: list_inv_def moved_def)
  have custom: "custom_allocator s = default_allocator" using assms(1) by (simp add: list_inv_def)
  have st: "stats (moved p q n u) = stats s" for q n using u(5) by (simp add: moved_def)
  show ?thesis
  proof (cases "sys_realloc L (heap u) p (unat sz)")
    case None
    with re show ?thesis
      using assms(4) untrack_state_eq [OF assms(1,3)] using_default [OF assms(1)] lock custom
      by (simp add: neoc_realloc_def bind_c_def then_c_def cmd_eval track_eq Let_def split: option.split)
  next
    case (Some q)
    with re show ?thesis
      using assms(4) untrack_state_eq [OF assms(1,3)] using_default [OF assms(1)] lock(2) custom st
      by (simp add: neoc_realloc_def bind_c_def then_c_def cmd_eval track_eq Let_def upd_stats_def stats_realloc_def split: option.split)
  qed
qed

subsection \<open>Accounting\<close>

text \<open>The C library has room for a node of the list as long as no more than \<open>N\<close> blocks are live.\<close>

definition nodes_granted :: "libc \<Rightarrow> nat \<Rightarrow> bool" where
  "nodes_granted L N \<longleftrightarrow> (\<forall>h. card (dom h) \<le> N \<longrightarrow> sys_malloc L h sizeof_alloc_entry \<noteq> None)"

lemma nodes_granted_mono: "nodes_granted L N \<Longrightarrow> M \<le> N \<Longrightarrow> nodes_granted L M"
  by (auto simp: nodes_granted_def)

definition usage_ok :: "memory_stats \<Rightarrow> bool" where
  "usage_ok t \<longleftrightarrow> current_usage t = total_allocated t - total_freed t"

text \<open>Exact accounting: every block is tracked, the usage is the sum of the sizes and the counts differ by the number of blocks.\<close>

definition exact :: "nat \<Rightarrow> memory \<Rightarrow> bool" where
  "exact n s \<longleftrightarrow> dom (heap s) = nodes s \<union> tracked s
     \<and> current_usage (stats s) = sum_list (map entry_size (alloc_list s))
     \<and> unat (allocation_count (stats s)) \<le> n
     \<and> unat (allocation_count (stats s)) = unat (free_count (stats s)) + length (alloc_list s)"

text \<open>The state after at most \<open>n\<close> operations.\<close>

definition mem_good :: "libc \<Rightarrow> nat \<Rightarrow> memory \<Rightarrow> bool" where
  "mem_good L n s \<longleftrightarrow> list_inv s \<and> usage_ok (stats s) \<and> (nodes_granted L (2 * n) \<longrightarrow> n < 2 ^ 64 \<longrightarrow> exact n s)"

lemma mem_good_mono: "mem_good L n s \<Longrightarrow> n \<le> m \<Longrightarrow> mem_good L m s"
  using nodes_granted_mono [of L "2 * m" "2 * n"] by (auto simp: mem_good_def exact_def)

lemma exact_card:
  assumes "exact n s"
  shows "card (dom (heap s)) \<le> 2 * n"
proof -
  have "card (dom (heap s)) \<le> card (nodes s) + card (tracked s)" using assms by (simp add: exact_def card_Un_le)
  also have "\<dots> \<le> 2 * length (alloc_list s)"
    using card_image_le [of "set (alloc_list s)" entry_node] card_image_le [of "set (alloc_list s)" entry_ptr]
      card_length [of "alloc_list s"] by simp
  finally show ?thesis using assms by (simp add: exact_def)
qed

lemma mem_good_exact: "mem_good L n s \<Longrightarrow> nodes_granted L (2 * Suc n) \<Longrightarrow> Suc n < 2 ^ 64 \<Longrightarrow> exact n s"
  using nodes_granted_mono [of L "2 * Suc n" "2 * n"] by (simp add: mem_good_def)

lemma card_dom_upd: "card (dom (h(p \<mapsto> v))) \<le> Suc (card (dom h))"
  by (simp add: card_insert_le_m1 card_insert_if)

lemma count_Suc: "unat (x :: size_t) \<le> n \<Longrightarrow> Suc n < 2 ^ 64 \<Longrightarrow> unat (x + 1) = Suc (unat x)"
  by (simp add: unat_word_ariths)

lemma usage_ok_ops:
  "usage_ok t \<Longrightarrow> usage_ok (stats_new sz t)" "usage_ok t \<Longrightarrow> usage_ok (stats_free old t)" "usage_ok t \<Longrightarrow> usage_ok (stats_realloc old sz t)"
  by (auto simp: usage_ok_def stats_new_def stats_free_def stats_realloc_def Let_def split: option.split)

lemma after_track_granted:
  assumes "libc_ok L" and "nodes_granted L N" and "card (dom (heap s)) \<le> N"
  obtains node where "heap s node = None" and "heap (after_track L q sz s) = (heap s)(node \<mapsto> \<lparr>from_libc = True, contents = replicate 24 None\<rparr>)"
    and "alloc_list (after_track L q sz s) = \<lparr>entry_node = node, entry_ptr = q, entry_size = sz\<rparr> # alloc_list s"
proof -
  obtain node where "sys_malloc L (heap s) sizeof_alloc_entry = Some node" using assms(2,3) by (auto simp: nodes_granted_def)
  moreover from this assms(1) have "heap s node = None" by (auto simp: libc_ok_def)
  ultimately show thesis using that [of node] by (simp add: after_track_def sizeof_alloc_entry_def)
qed

lemma track_new_inv:
  assumes "libc_ok L" and "list_inv s" and "heap s p = None" and "length bs = unat sz" and "sz \<noteq> 0"
  shows "list_inv (after_track L p sz (new_block p bs s))"
proof -
  have "p \<notin> nodes s" "p \<notin> tracked s" using assms(2,3) by (auto simp: list_inv_def entry_ok_def)
  moreover have "list_inv (new_block p bs s)" using assms(2,3) by (rule list_inv_new_block)
  ultimately show ?thesis using assms(1,4,5) by (intro track_inv) (auto simp: word_gt_0)
qed

lemma new_block_good:
  assumes "libc_ok L" and "mem_good L n s" and "heap s p = None" and "length bs = unat sz" and "sz \<noteq> 0"
  shows "mem_good L (Suc n) ((after_track L p sz (new_block p bs s))\<lparr>stats := stats_new sz (stats s)\<rparr>)"
proof -
  let ?s = "new_block p bs s"
  have "list_inv (after_track L p sz ?s)" using assms by (intro track_new_inv) (simp_all add: mem_good_def)
  moreover have "exact (Suc n) ((after_track L p sz ?s)\<lparr>stats := stats_new sz (stats s)\<rparr>)" if g: "nodes_granted L (2 * Suc n)" "Suc n < 2 ^ 64"
  proof -
    have e: "exact n s" using assms(2) g by (rule mem_good_exact)
    have card: "card (dom (heap ?s)) \<le> 2 * Suc n" using card_dom_upd [of "heap s" p "\<lparr>from_libc = True, contents = bs\<rparr>"] exact_card [OF e] by (simp del: dom_fun_upd)
    note c = count_Suc [OF _ g(2), of "allocation_count (stats s)"]
    obtain node where "heap ?s node = None" and "heap (after_track L p sz ?s) = (heap ?s)(node \<mapsto> \<lparr>from_libc = True, contents = replicate 24 None\<rparr>)"
      and "alloc_list (after_track L p sz ?s) = \<lparr>entry_node = node, entry_ptr = p, entry_size = sz\<rparr> # alloc_list ?s"
      using assms(1) g(1) card by (rule after_track_granted)
    with e c show ?thesis by (auto simp: exact_def stats_new_def Let_def)
  qed
  ultimately show ?thesis using assms(2) by (simp add: mem_good_def usage_ok_ops)
qed

lemma untracked_exact:
  assumes "list_inv s" and "exact n s" and "p \<in> client s" and "untracked_state p s = (old, u)"
  obtains osz where "old = Some osz" and "0 < osz" and "sum_list (map entry_size (alloc_list s)) = osz + sum_list (map entry_size (alloc_list u))"
    and "length (alloc_list s) = Suc (length (alloc_list u))" and "dom (heap u) = insert p (nodes u \<union> tracked u)"
proof -
  have "p \<in> tracked s" using assms(2,3) by (auto simp: exact_def client_def)
  then obtain e rest where e: "unlink_entry p (alloc_list s) = Some (e, rest)" "old = Some (entry_size e)" "u = after_unlink e rest s"
    using assms(4) by (auto simp: untracked_state_def unlink_None split: option.splits)
  from unlink_Some [OF e(1)] obtain xs ys where list: "alloc_list s = xs @ e # ys" "rest = xs @ ys" by blast
  have "entry_ok (heap s) e" using assms(1) list by (auto simp: list_inv_def)
  then have "0 < entry_size e" by (simp add: entry_ok_def)
  moreover have "sum_list (map entry_size (alloc_list s)) = entry_size e + sum_list (map entry_size (alloc_list u))"
    "length (alloc_list s) = Suc (length (alloc_list u))"
    using list e(3) by (simp_all add: after_unlink_def)
  moreover have "dom (heap u) = insert p (nodes u \<union> tracked u)"
  proof -
    note parts = unlink_inv(2-) [OF assms(1) e(1), folded e(3)]
    have "entry_node e \<noteq> p" using assms(3) parts(4) by (auto simp: client_def)
    moreover have "entry_node e \<notin> tracked u"
      using assms(1) unfolding e(3) after_unlink_def list_inv_def list by auto
    moreover have "dom (heap u) = dom (heap s) - {entry_node e}" by (auto simp: e(3) after_unlink_def)
    ultimately show ?thesis using assms(2) parts by (auto simp: exact_def)
  qed
  ultimately show thesis using that e(2) by blast
qed

lemma untracked_client:
  assumes "list_inv s" and "p \<in> client s" and "untracked_state p s = (old, u)"
  shows "client u = client s"
  using assms
proof (rule untracked_stateE)
  fix e rest
  assume e: "unlink_entry p (alloc_list s) = Some (e, rest)" "u = after_unlink e rest s"
  note parts = unlink_inv(5,6) [OF assms(1) e(1), folded e(2)]
  have "dom (heap u) = dom (heap s) - {entry_node e}" by (auto simp: e(2) after_unlink_def)
  with parts show ?thesis by (auto simp: client_def)
qed simp

lemma free_good:
  assumes "mem_good L n s" and "p \<in> client s"
  shows "\<exists>s'. neoc_free (Some p) s = (Ok (), s') \<and> mem_good L (Suc n) s' \<and> client s' = client s - {p}"
proof -
  obtain old u where u: "untracked_state p s = (old, u)" by (cases "untracked_state p s")
  have inv: "list_inv s" using assms(1) by (simp add: mem_good_def)
  note ui = untracked_inv [OF inv assms(2) u]
  let ?s = "u\<lparr>heap := (heap u)(p := None), stats := stats_free old (stats s)\<rparr>"
  have "list_inv (u\<lparr>heap := (heap u)(p := None)\<rparr>)" using ui(1-3) by (intro list_inv_drop_block)
  then have "list_inv ?s" using list_inv_stats [where s = "u\<lparr>heap := (heap u)(p := None)\<rparr>"] by simp
  moreover have "exact (Suc n) ?s" if "nodes_granted L (2 * Suc n)" "Suc n < 2 ^ 64"
  proof -
    have e: "exact n s" using assms(1) that by (rule mem_good_exact)
    obtain osz where "old = Some osz" "sum_list (map entry_size (alloc_list s)) = osz + sum_list (map entry_size (alloc_list u))"
      "length (alloc_list s) = Suc (length (alloc_list u))" "dom (heap u) = insert p (nodes u \<union> tracked u)"
      using inv e assms(2) u by (rule untracked_exact)
    moreover from e calculation(3) have "unat (free_count (stats s)) \<le> n" by (simp add: exact_def)
    then have "unat (free_count (stats s) + 1) = Suc (unat (free_count (stats s)))" using that(2) by (rule count_Suc)
    ultimately show ?thesis using e ui(2,3) by (auto simp: exact_def stats_free_def)
  qed
  ultimately have "mem_good L (Suc n) ?s" using assms(1) by (simp add: mem_good_def usage_ok_ops)
  moreover have "client ?s = client s - {p}" using untracked_client [OF inv assms(2) u] by (auto simp: client_def)
  ultimately show ?thesis using free_eq [OF inv assms(2) u] by auto
qed

lemma moved_eq:
  "moved p q n u = new_block q (take n (contents (the (heap u p))) @ replicate (n - length (contents (the (heap u p)))) None)
     (u\<lparr>heap := (heap u)(p := None)\<rparr>)"
  by (simp add: moved_def)

lemma sys_fresh:
  assumes "libc_ok L"
  shows "sys_malloc L h k = Some p \<Longrightarrow> h p = None" and "sys_realloc L h p k = Some q \<Longrightarrow> q = p \<or> h q = None"
  using assms by (simp_all add: libc_ok_def)

lemma realloc_good:
  assumes "libc_ok L" and "mem_good L n s" and "p \<in> client s" and "sz \<noteq> 0"
  shows "\<exists>r s'. neoc_realloc L (Some p) sz s = (Ok r, s') \<and> mem_good L (Suc n) s'"
proof -
  obtain old u where u: "untracked_state p s = (old, u)" by (cases "untracked_state p s")
  have inv: "list_inv s" using assms(2) by (simp add: mem_good_def)
  note ui = untracked_inv [OF inv assms(3) u] and eq = realloc_eq [OF inv assms(3) u assms(4), of L]
  have ex: thesis if "nodes_granted L (2 * Suc n) \<and> Suc n < 2 ^ 64" and "\<And>osz. exact n s \<Longrightarrow> old = Some osz \<Longrightarrow> 0 < osz
      \<Longrightarrow> sum_list (map entry_size (alloc_list s)) = osz + sum_list (map entry_size (alloc_list u))
      \<Longrightarrow> length (alloc_list s) = Suc (length (alloc_list u)) \<Longrightarrow> dom (heap u) = insert p (nodes u \<union> tracked u) \<Longrightarrow> thesis" for thesis
    using untracked_exact [OF inv mem_good_exact [OF assms(2)] assms(3) u] mem_good_exact [OF assms(2)] that by blast
  have dom: "dom (heap u) \<subseteq> dom (heap s)" and fin: "finite (dom (heap s))"
    using inv u by (auto simp: untracked_state_def after_unlink_def list_inv_def split: option.splits if_splits)
  show ?thesis
  proof (cases "sys_realloc L (heap u) p (unat sz)")
    case None
    show ?thesis
    proof (cases old)
      case (Some osz)
      then obtain e rest where e: "unlink_entry p (alloc_list s) = Some (e, rest)" "osz = entry_size e"
        using u by (auto simp: untracked_state_def split: option.splits)
      then have "entry_ptr e = p" "entry_ok (heap s) e" using inv unlink_Some [OF e(1)] by (auto simp: list_inv_def)
      then obtain b where "heap u p = Some b" "length (contents b) = unat osz" "0 < osz"
        using e(2) ui(4) by (auto simp: entry_ok_def)
      then have "list_inv (after_track L p osz u)" using assms(1) ui(1-3) by (intro track_inv)
      moreover have "exact (Suc n) (after_track L p osz u)" if g: "nodes_granted L (2 * Suc n) \<and> Suc n < 2 ^ 64"
        using g
      proof (rule ex)
        fix osz'
        assume a: "exact n s" "old = Some osz'" "sum_list (map entry_size (alloc_list s)) = osz' + sum_list (map entry_size (alloc_list u))"
          "length (alloc_list s) = Suc (length (alloc_list u))" "dom (heap u) = insert p (nodes u \<union> tracked u)"
        have card: "card (dom (heap u)) \<le> 2 * Suc n" using card_mono [OF fin dom] exact_card [OF a(1)] by simp
        obtain node where "heap u node = None"
          "heap (after_track L p osz u) = (heap u)(node \<mapsto> \<lparr>from_libc = True, contents = replicate 24 None\<rparr>)"
          "alloc_list (after_track L p osz u) = \<lparr>entry_node = node, entry_ptr = p, entry_size = osz\<rparr> # alloc_list u"
          using assms(1) conjunct1 [OF g] card by (rule after_track_granted)
        with a Some ui(5) show ?thesis by (auto simp: exact_def)
      qed
      ultimately show ?thesis using eq None Some assms(2) ui(5) by (simp add: mem_good_def)
    next
      case None': None
      with u inv assms(3) have "u = s" by (auto elim: untracked_stateE)
      with eq None None' mem_good_mono [OF assms(2), of "Suc n"] show ?thesis by simp
    qed
  next
    case (Some q)
    let ?v = "u\<lparr>heap := (heap u)(p := None)\<rparr>"
    let ?s = "(after_track L q sz (moved p q (unat sz) u))\<lparr>stats := stats_realloc old sz (stats s)\<rparr>"
    have q: "heap ?v q = None" using sys_fresh(2) [OF assms(1) Some] by auto
    have v: "list_inv ?v" using ui(1-3) by (intro list_inv_drop_block)
    have "list_inv (after_track L q sz (moved p q (unat sz) u))"
      unfolding moved_eq using assms(1,4) v q by (intro track_new_inv) simp_all
    moreover have "exact (Suc n) ?s" if g: "nodes_granted L (2 * Suc n) \<and> Suc n < 2 ^ 64"
      using g
    proof (rule ex)
      fix osz
      assume a: "exact n s" "old = Some osz" "0 < osz" "sum_list (map entry_size (alloc_list s)) = osz + sum_list (map entry_size (alloc_list u))"
        "length (alloc_list s) = Suc (length (alloc_list u))" "dom (heap u) = insert p (nodes u \<union> tracked u)"
      have "card (dom (heap ?v)) \<le> card (dom (heap s))" using dom fin by (intro card_mono) auto
      then have card: "card (dom (heap (moved p q (unat sz) u))) \<le> 2 * Suc n"
        using card_dom_upd [of "heap ?v" q "the (heap (moved p q (unat sz) u) q)"] exact_card [OF a(1)]
        by (simp add: moved_def del: dom_fun_upd)
      obtain node where n: "heap (moved p q (unat sz) u) node = None"
        "heap (after_track L q sz (moved p q (unat sz) u)) = (heap (moved p q (unat sz) u))(node \<mapsto> \<lparr>from_libc = True, contents = replicate 24 None\<rparr>)"
        "alloc_list (after_track L q sz (moved p q (unat sz) u)) = \<lparr>entry_node = node, entry_ptr = q, entry_size = sz\<rparr> # alloc_list (moved p q (unat sz) u)"
        using assms(1) conjunct1 [OF g] card by (rule after_track_granted)
      have "dom (heap ?v) = nodes u \<union> tracked u" using a(6) ui(2,3) by auto
      moreover have "unat (allocation_count (stats s) + 1) = Suc (unat (allocation_count (stats s)))"
        "unat (free_count (stats s) + 1) = Suc (unat (free_count (stats s)))"
        using a(1,5) g count_Suc [of _ n] by (simp_all add: exact_def)
      ultimately show ?thesis using a(1-5) n
        by (auto simp: exact_def stats_realloc_def moved_def Let_def)
    qed
    ultimately have "mem_good L (Suc n) ?s" using assms(2) by (simp add: mem_good_def usage_ok_ops)
    with eq Some show ?thesis by simp
  qed
qed

text \<open>A new block belongs to the client, whether or not it could be tracked, and is the only new one.\<close>

lemma after_track_new:
  assumes "libc_ok L" and "list_inv s" and "heap s p = None"
  shows "client (after_track L p sz (new_block p bs s)) = insert p (client s)"
    and "heap (after_track L p sz (new_block p bs s)) p = Some \<lparr>from_libc = True, contents = bs\<rparr>"
proof -
  let ?h = "heap (new_block p bs s)"
  have n: "p \<notin> nodes s" using assms(2,3) by (auto simp: list_inv_def entry_ok_def)
  have "node \<noteq> p \<and> node \<notin> dom (heap s)" if "sys_malloc L ?h sizeof_alloc_entry = Some node" for node
    using sys_fresh(1) [OF assms(1) that] by (auto split: if_splits)
  with n show "client (after_track L p sz (new_block p bs s)) = insert p (client s)"
    "heap (after_track L p sz (new_block p bs s)) p = Some \<lparr>from_libc = True, contents = bs\<rparr>"
    by (auto simp: client_def after_track_def split: option.splits)
qed

text \<open>What every operation that hands out a block promises: the invariant, and a block of the size asked for that belongs to the client.\<close>

definition hands_out :: "libc \<Rightarrow> nat \<Rightarrow> nat \<Rightarrow> memory \<Rightarrow> addr option \<times> memory \<Rightarrow> bool" where
  "hands_out L n len s rs \<longleftrightarrow> mem_good L (Suc n) (snd rs)
     \<and> (case fst rs of
          None \<Rightarrow> snd rs = s
        | Some p \<Rightarrow> heap s p = None \<and> client (snd rs) = insert p (client s) \<and> (\<exists>b. heap (snd rs) p = Some b \<and> length (contents b) = len))"

lemma new_block_hands_out:
  assumes "libc_ok L" and "mem_good L n s" and "heap s p = None" and "length bs = unat sz" and "sz \<noteq> 0"
  shows "hands_out L n (unat sz) s (Some p, (after_track L p sz (new_block p bs s))\<lparr>stats := stats_new sz (stats s)\<rparr>)"
proof -
  have inv: "list_inv s" using assms(2) by (simp add: mem_good_def)
  show ?thesis
    using new_block_good [OF assms] after_track_new [OF assms(1) inv assms(3), of sz bs] assms(3,4)
    by (simp add: hands_out_def client_def)
qed

lemma hands_out_none: "mem_good L n s \<Longrightarrow> hands_out L n len s (None, s)"
  by (simp add: hands_out_def mem_good_mono)

lemma malloc_good:
  assumes "libc_ok L" and "mem_good L n s"
  obtains r s' where "neoc_malloc L sz s = (Ok r, s')" and "hands_out L n (unat sz) s (r, s')"
proof (cases "sz = 0")
  case False
  have inv: "list_inv s" using assms(2) by (simp add: mem_good_def)
  show ?thesis
  proof (cases "sys_malloc L (heap s) (unat sz)")
    case (Some p)
    with assms(1) have "heap s p = None" by (rule sys_fresh(1))
    with assms False have "hands_out L n (unat sz) s (Some p,
        (after_track L p sz (new_block p (replicate (unat sz) None) s))\<lparr>stats := stats_new sz (stats s)\<rparr>)"
      by (intro new_block_hands_out) simp_all
    with malloc_eq [OF inv False, of L] Some show ?thesis by (intro that) simp_all
  qed (use malloc_eq [OF inv False, of L] hands_out_none [OF assms(2)] that in auto)
qed (use hands_out_none [OF assms(2)] that in \<open>simp add: neoc_malloc_def\<close>)

lemma calloc_good:
  assumes "libc_ok L" and "mem_good L n s"
  obtains r s' where "neoc_calloc L count sz s = (Ok r, s')" and "hands_out L n (unat count * unat sz) s (r, s')"
proof (cases "count = 0 \<or> sz = 0")
  case False
  then have nz: "count \<noteq> 0" "sz \<noteq> 0" by simp_all
  have inv: "list_inv s" using assms(2) by (simp add: mem_good_def)
  note eq = calloc_eq [OF inv nz, of L]
  show ?thesis
  proof (cases "2 ^ 64 \<le> unat count * unat sz")
    case fits: False
    then have prod: "unat (count * sz) = unat count * unat sz" by (simp add: unat_word_ariths)
    then have "count * sz \<noteq> 0" using nz by (auto simp: unat_eq_0)
    show ?thesis
    proof (cases "sys_malloc L (heap s) (unat count * unat sz)")
      case (Some p)
      with assms(1) have "heap s p = None" by (rule sys_fresh(1))
      with assms \<open>count * sz \<noteq> 0\<close> have "hands_out L n (unat (count * sz)) s (Some p,
          (after_track L p (count * sz) (new_block p (replicate (unat count * unat sz) (Some 0)) s))\<lparr>stats := stats_new (count * sz) (stats s)\<rparr>)"
        by (intro new_block_hands_out) (simp_all add: prod)
      with eq Some fits prod show ?thesis by (intro that) simp_all
    qed (use eq fits hands_out_none [OF assms(2)] that in auto)
  qed (use eq hands_out_none [OF assms(2)] that in auto)
qed (use hands_out_none [OF assms(2)] that in \<open>auto simp: neoc_calloc_def\<close>)

lemma mem_good_write:
  assumes "mem_good L n s" and "heap s p = Some b" and "length bs = length (contents b)"
  shows "mem_good L n (s\<lparr>heap := (heap s)(p \<mapsto> b\<lparr>contents := bs\<rparr>)\<rparr>)"
proof -
  have "dom ((heap s)(p \<mapsto> b\<lparr>contents := bs\<rparr>)) = dom (heap s)" using assms(2) by auto
  moreover have "list_inv s" using assms(1) by (simp add: mem_good_def)
  then have "list_inv (s\<lparr>heap := (heap s)(p \<mapsto> b\<lparr>contents := bs\<rparr>)\<rparr>)" using assms(2,3) by (rule list_inv_write)
  ultimately show ?thesis using assms(1) unfolding mem_good_def exact_def by (auto simp del: dom_fun_upd)
qed

lemma fill_new_good:
  assumes "libc_ok L" and "mem_good L n s" and "length data < 2 ^ 64"
  obtains r s' where "fill_new L data s = (Ok r, s')" and "hands_out L n (length data) s (r, s')"
    and "\<And>p. r = Some p \<Longrightarrow> map_option contents (heap s' p) = Some (map Some data)"
proof -
  have len: "unat (of_nat (length data) :: size_t) = length data" using assms(3) by (simp add: unat_of_nat take_bit_nat_eq_self)
  from assms(1,2) obtain r t where t: "neoc_malloc L (of_nat (length data)) s = (Ok r, t)" "hands_out L n (length data) s (r, t)"
    by (rule malloc_good [where sz = "of_nat (length data)", unfolded len])
  show ?thesis
  proof (cases r)
    case None
    with t show ?thesis by (intro that [of r t]) (simp_all add: fill_new_def bind_c_def then_c_def cmd_eval)
  next
    case (Some p)
    with t(2) obtain b where b: "heap t p = Some b" "length (contents b) = length data" by (auto simp: hands_out_def)
    let ?t = "t\<lparr>heap := (heap t)(p \<mapsto> b\<lparr>contents := map Some data\<rparr>)\<rparr>"
    have "mem_good L (Suc n) ?t" using t(2) b by (intro mem_good_write) (simp_all add: hands_out_def)
    moreover have "client ?t = client t" using b by (auto simp: client_def)
    ultimately have "hands_out L n (length data) s (Some p, ?t)" using t(2) Some by (simp add: hands_out_def)
    moreover have "fill_new L data s = (Ok (Some p), ?t)"
      using t(1) b Some by (simp add: fill_new_def bind_c_def then_c_def cmd_eval store_bytes_at_def)
    ultimately show ?thesis by (intro that) auto
  qed
qed

lemma zeros_good:
  assumes "mem_good L n s" and "p \<in> client s" and "heap s p = Some b" and "unat sz \<le> length (contents b)"
  obtains s' where "neoc_secure_memzero (Some p) sz s = (Ok (), s')" and "mem_good L n s'" and "client s' = client s"
    and "map_option contents (heap s' p) = Some (replicate (unat sz) (Some 0) @ drop (unat sz) (contents b))"
proof (cases "sz = 0")
  case True
  with assms show ?thesis by (intro that [of s]) (simp_all add: neoc_secure_memzero_def cmd_eval)
next
  case False
  let ?s = "s\<lparr>heap := (heap s)(p \<mapsto> b\<lparr>contents := replicate (unat sz) (Some 0) @ drop (unat sz) (contents b)\<rparr>)\<rparr>"
  have "neoc_secure_memzero (Some p) sz s = (Ok (), ?s)"
    using False assms(3,4) by (simp add: neoc_secure_memzero_def store_zeros_def word_gt_0)
  moreover have "mem_good L n ?s" using assms(1,3,4) by (intro mem_good_write) simp_all
  moreover have "client ?s = client s" using assms(3) by (auto simp: client_def)
  ultimately show ?thesis by (rule that) simp
qed

subsection \<open>Programs that use the allocator\<close>

text \<open>A client calls the operations one after the other with blocks it owns.  \<open>run_op\<close> is the call, \<open>permitted\<close> what the
  client has to respect: a pointer is null or one of its live blocks, a length does not exceed the block.\<close>

datatype mem_op =
    Malloc size_t
  | Calloc size_t size_t
  | Realloc "addr option" size_t
  | Free "addr option"
  | Strdup "byte list option"
  | Strndup "byte list option" size_t
  | Memdup "byte list option" size_t
  | Secure_free "addr option" size_t

definition run_op :: "libc \<Rightarrow> mem_op \<Rightarrow> (memory, addr option) cmd" where
  "run_op L c =
     (case c of
        Malloc sz \<Rightarrow> neoc_malloc L sz
      | Calloc count sz \<Rightarrow> neoc_calloc L count sz
      | Realloc ptr sz \<Rightarrow> neoc_realloc L ptr sz
      | Free ptr \<Rightarrow> then_c (neoc_free ptr) (return_c None)
      | Strdup str \<Rightarrow> neoc_strdup L str
      | Strndup str n \<Rightarrow> neoc_strndup L str n
      | Memdup data sz \<Rightarrow> neoc_memdup L data sz
      | Secure_free ptr sz \<Rightarrow> then_c (neoc_secure_free ptr sz) (return_c None))"

definition permitted :: "memory \<Rightarrow> mem_op \<Rightarrow> bool" where
  "permitted s c =
     (case c of
        Malloc sz \<Rightarrow> True
      | Calloc count sz \<Rightarrow> True
      | Realloc ptr sz \<Rightarrow> (case ptr of None \<Rightarrow> True | Some p \<Rightarrow> p \<in> client s)
      | Free ptr \<Rightarrow> (case ptr of None \<Rightarrow> True | Some p \<Rightarrow> p \<in> client s)
      | Strdup str \<Rightarrow> (case str of None \<Rightarrow> True | Some t \<Rightarrow> length t + 1 < 2 ^ 64)
      | Strndup str n \<Rightarrow> (case str of None \<Rightarrow> True | Some t \<Rightarrow> length t + 1 < 2 ^ 64)
      | Memdup data sz \<Rightarrow> (case data of None \<Rightarrow> True | Some d \<Rightarrow> unat sz \<le> length d)
      | Secure_free ptr sz \<Rightarrow>
          (case ptr of None \<Rightarrow> True | Some p \<Rightarrow> p \<in> client s \<and> unat sz \<le> length (contents (the (heap s p)))))"

inductive mem_reach :: "libc \<Rightarrow> nat \<Rightarrow> memory \<Rightarrow> bool" for L where
  start: "mem_reach L 0 initial_memory"
| op_step: "mem_reach L n s \<Longrightarrow> permitted s c \<Longrightarrow> run_op L c s = (r, s') \<Longrightarrow> mem_reach L (Suc n) s'"

text \<open>An operation that returns and keeps the invariant.\<close>

definition returns_good :: "libc \<Rightarrow> nat \<Rightarrow> 'a result \<times> memory \<Rightarrow> bool" where
  "returns_good L n rs \<longleftrightarrow> (\<exists>r s'. rs = (Ok r, s') \<and> mem_good L n s')"

lemma returns_same [simp]: "mem_good L n s \<Longrightarrow> returns_good L (Suc n) (return_c x s)"
  by (simp add: returns_good_def cmd_eval mem_good_mono)

lemma fill_new_returns: "libc_ok L \<Longrightarrow> mem_good L n s \<Longrightarrow> length data < 2 ^ 64 \<Longrightarrow> returns_good L (Suc n) (fill_new L data s)"
  by (rule fill_new_good [of L n s data]) (simp_all add: hands_out_def returns_good_def)

lemma malloc_returns: "libc_ok L \<Longrightarrow> mem_good L n s \<Longrightarrow> returns_good L (Suc n) (neoc_malloc L sz s)"
  by (rule malloc_good [of L n s sz]) (simp_all add: hands_out_def returns_good_def)

lemma free_returns:
  assumes "mem_good L n s" and "p \<in> client s"
  shows "returns_good L (Suc n) (then_c (neoc_free (Some p)) (return_c x) s)"
  using free_good [OF assms] by (auto simp: returns_good_def then_c_def bind_c_def cmd_eval)

lemma secure_free_returns:
  assumes "mem_good L n s" and "p \<in> client s" and "unat sz \<le> length (contents (the (heap s p)))"
  shows "returns_good L (Suc n) (then_c (neoc_secure_free (Some p) sz) (return_c x) s)"
proof -
  from assms(2) obtain b where b: "heap s p = Some b" by (auto simp: client_def)
  obtain t where t: "neoc_secure_memzero (Some p) sz s = (Ok (), t)" "mem_good L n t" "client t = client s"
    using assms(1,2) b by (rule zeros_good) (use assms(3) b in simp_all)
  then have "then_c (neoc_secure_free (Some p) sz) (return_c x) s = then_c (neoc_free (Some p)) (return_c x) t"
    by (simp add: neoc_secure_free_def then_c_def bind_c_def)
  with free_returns [of L n t p x] t assms(2) show ?thesis by simp
qed

lemma free_null [simp]: "neoc_free None = return_c ()"
  by (simp add: fun_eq_iff neoc_free_def cmd_eval)

lemma run_op_good:
  assumes "libc_ok L" and "mem_good L n s" and "permitted s c"
  shows "returns_good L (Suc n) (run_op L c s)"
proof (cases c)
  case (Calloc count sz)
  from assms(1,2) obtain r s' where "neoc_calloc L count sz s = (Ok r, s')" "hands_out L n (unat count * unat sz) s (r, s')"
    by (rule calloc_good)
  with Calloc show ?thesis by (simp add: run_op_def hands_out_def returns_good_def)
next
  case (Realloc ptr sz)
  show ?thesis
  proof (cases ptr)
    case (Some p)
    with assms Realloc have p: "p \<in> client s" by (simp add: permitted_def)
    show ?thesis
    proof (cases "sz = 0")
      case True
      with Realloc Some free_returns [OF assms(2) p] show ?thesis by (simp add: run_op_def neoc_realloc_def)
    next
      case False
      from realloc_good [OF assms(1,2) p False] Realloc Some show ?thesis by (simp add: run_op_def returns_good_def)
    qed
  qed (use assms Realloc in \<open>simp add: run_op_def neoc_realloc_def malloc_returns\<close>)
next
  case (Malloc sz)
  with assms show ?thesis by (simp add: run_op_def malloc_returns)
next
  case (Free ptr)
  with assms show ?thesis
    by (cases ptr) (simp_all add: run_op_def permitted_def free_returns free_null)
next
  case (Secure_free ptr sz)
  show ?thesis
  proof (cases ptr)
    case (Some p)
    with assms Secure_free secure_free_returns [of L n s p sz] show ?thesis by (simp add: run_op_def permitted_def)
  qed (use assms Secure_free in \<open>simp add: run_op_def neoc_secure_free_def\<close>)
next
  case (Strdup str)
  with assms show ?thesis
    by (cases str) (simp_all add: run_op_def permitted_def neoc_strdup_def fill_new_returns)
next
  case (Strndup str k)
  with assms show ?thesis
    by (cases str) (simp_all add: run_op_def permitted_def neoc_strndup_def fill_new_returns Let_def)
next
  case (Memdup data sz)
  with assms show ?thesis
    by (cases data) (simp_all add: run_op_def permitted_def neoc_memdup_def fill_new_returns min_def unat_size_less)
qed

lemma reach_good:
  assumes "libc_ok L"
  shows "mem_reach L n s \<Longrightarrow> mem_good L n s"
proof (induction rule: mem_reach.induct)
  case start
  have "mem_good L 0 initial_memory"
    using list_inv_initial by (simp add: mem_good_def usage_ok_def exact_def initial_memory_def)
  then show ?case .
next
  case (op_step n s c r s')
  from run_op_good [OF assms op_step.IH op_step.hyps(2)] op_step.hyps(3) show ?case by (simp add: returns_good_def)
qed



lemma tracked_client: "list_inv s \<Longrightarrow> tracked s \<subseteq> client s"
  by (auto simp: list_inv_def client_def entry_ok_def image_iff)


lemma sum_list_unat: "of_nat (sum_list (map (unat \<circ> entry_size) es)) = sum_list (map entry_size es)"
  by (induction es) simp_all

lemma sum_entries:
  assumes "list_inv s"
  shows "sum_list (map entry_size (alloc_list s)) = of_nat (\<Sum>p \<in> tracked s. length (contents (the (heap s p))))"
proof -
  have "distinct (map entry_ptr (alloc_list s))" using assms by (simp add: list_inv_def)
  then have "(\<Sum>p \<in> tracked s. length (contents (the (heap s p))))
      = sum_list (map ((\<lambda>p. length (contents (the (heap s p)))) \<circ> entry_ptr) (alloc_list s))"
    by (simp flip: set_map map_map add: sum_list_distinct_conv_sum_set)
  also have "map ((\<lambda>p. length (contents (the (heap s p)))) \<circ> entry_ptr) (alloc_list s) = map (unat \<circ> entry_size) (alloc_list s)"
    using assms by (auto simp: list_inv_def entry_ok_def)
  also have "of_nat (sum_list (map (unat \<circ> entry_size) (alloc_list s))) = sum_list (map entry_size (alloc_list s))"
    by (rule sum_list_unat)
  finally show ?thesis by simp
qed

subsection \<open>Properties\<close>

text \<open>An allocator of the C library for the examples: the first free address of \<open>k\<close> candidates, and growth in place.  The second one
  refuses blocks of 24 bytes, the size of a node of the list.\<close>

fun first_free :: "heap \<Rightarrow> nat \<Rightarrow> addr \<Rightarrow> addr option" where
  "first_free h 0 p = None"
| "first_free h (Suc k) p = (if h p = None then Some p else first_free h k (p + 1))"

definition first_fit :: "nat \<Rightarrow> libc" where
  "first_fit k = \<lparr>sys_malloc = (\<lambda>h n. first_free h k 1), sys_realloc = (\<lambda>h p n. Some p)\<rparr>"

definition no_nodes :: "nat \<Rightarrow> libc" where
  "no_nodes k = \<lparr>sys_malloc = (\<lambda>h n. if n = 24 then None else first_free h k 1), sys_realloc = (\<lambda>h p n. Some p)\<rparr>"

lemma first_free_fresh: "first_free h k p = Some q \<Longrightarrow> h q = None"
  by (induction h k p rule: first_free.induct) (auto split: if_splits)

lemma first_free_None: "first_free h k p = None \<Longrightarrow> i < k \<Longrightarrow> p + of_nat i \<in> dom h"
proof (induction h k p arbitrary: i rule: first_free.induct)
  case (2 h k p)
  then show ?case by (cases i) (auto simp: add.assoc split: if_splits)
qed simp

lemma first_fit_ok: "libc_ok (first_fit k)" "libc_ok (no_nodes k)"
  by (auto simp: libc_ok_def first_fit_def no_nodes_def first_free_fresh split: if_splits)

lemma first_fit_granted:
  assumes "k < 2 ^ 64"
  shows "nodes_granted (first_fit (Suc k)) k"
  unfolding nodes_granted_def
proof (intro allI impI notI)
  fix h :: heap
  let ?A = "(\<lambda>i. 1 + of_nat i :: addr) ` {..k}"
  assume card: "card (dom h) \<le> k" and none: "sys_malloc (first_fit (Suc k)) h sizeof_alloc_entry = None"
  have "inj_on (\<lambda>i. 1 + of_nat i :: addr) {..k}"
    using assms by (auto intro!: inj_onI simp: word_of_nat_eq_iff take_bit_nat_eq_self)
  then have "card ?A = Suc k" by (simp add: card_image)
  moreover have "?A \<subseteq> dom h" using none first_free_None [of h "Suc k" 1] by (auto simp: first_fit_def dom_def simp del: first_free.simps)
  moreover have "finite (dom h)" by (rule finite)
  ultimately show False using card card_mono [of "dom h" ?A] by simp
qed

fun run_ops :: "libc \<Rightarrow> mem_op list \<Rightarrow> memory \<Rightarrow> memory" where
  "run_ops L [] s = s"
| "run_ops L (c # cs) s = run_ops L cs (snd (run_op L c s))"

fun permitted_ops :: "libc \<Rightarrow> mem_op list \<Rightarrow> memory \<Rightarrow> bool" where
  "permitted_ops L [] s \<longleftrightarrow> True"
| "permitted_ops L (c # cs) s \<longleftrightarrow> permitted s c \<and> permitted_ops L cs (snd (run_op L c s))"

lemma run_ops_reach: "mem_reach L n s \<Longrightarrow> permitted_ops L cs s \<Longrightarrow> mem_reach L (n + length cs) (run_ops L cs s)"
proof (induction cs arbitrary: n s)
  case (Cons c cs)
  then have "mem_reach L (Suc n) (snd (run_op L c s))" by (auto intro: op_step prod.collapse [symmetric])
  with Cons.IH [of "Suc n" "snd (run_op L c s)"] Cons.prems(2) show ?case by simp
qed simp

lemma first_free_numeral [simp]:
  "first_free h (numeral k) p = (if h p = None then Some p else first_free h (pred_numeral k) (p + 1))"
  by (simp add: numeral_eq_Suc)

lemmas mem_eval = run_op_def neoc_malloc_def neoc_free_def neoc_realloc_def libc_realloc_def neoc_calloc_def store_zeros_def neoc_strdup_def fill_new_def store_bytes_at_def account_new_def track_allocation_def
  untrack_allocation_def libc_malloc_def libc_free_def upd_stats_def alloc_lock_acquire_def alloc_lock_release_def bind_c_def then_c_def
  cmd_eval initial_memory_def using_custom_allocator_def Let_def sizeof_alloc_entry_def first_fit_def no_nodes_def

text \<open>C35.  Whatever a client does with its own blocks, on an allocator of the C library that may refuse any request, no operation goes wrong
  and the state stays consistent: no operation touches memory it may not touch, releases a block twice or hangs on the lock; every node of
  the tracking list is live and tracks a live block with its true size, no block is tracked twice, the lock is free, and the current usage is
  the difference of the totals.\<close>

theorem memory_invariant:
  assumes "libc_ok L" and "mem_reach L n s" and "permitted s c"
  shows "list_inv s \<and> usage_ok (stats s) \<and> (\<exists>r s'. run_op L c s = (Ok r, s') \<and> list_inv s' \<and> usage_ok (stats s'))"
  using reach_good [OF assms(1,2)] run_op_good [OF assms(1) reach_good [OF assms(1,2)] assms(3)]
  by (auto simp: mem_good_def returns_good_def)

definition example_state :: memory where
  "example_state = run_ops (first_fit 16) [Malloc 8, Strdup (Some [72, 105])] initial_memory"

lemma example_reach: "mem_reach (first_fit 16) 2 example_state"
proof -
  have "permitted_ops (first_fit 16) [Malloc 8, Strdup (Some [72, 105])] initial_memory" by (simp add: permitted_def)
  from run_ops_reach [OF start this] show ?thesis unfolding example_state_def by (simp only: list.size add_0 numeral_2_eq_2 One_nat_def plus_nat.simps)
qed

lemma example_eq:
  "heap example_state = [1 \<mapsto> \<lparr>from_libc = True, contents = replicate 8 None\<rparr>, 2 \<mapsto> \<lparr>from_libc = True, contents = replicate 24 None\<rparr>,
     3 \<mapsto> \<lparr>from_libc = True, contents = [Some 72, Some 105, Some 0]\<rparr>, 4 \<mapsto> \<lparr>from_libc = True, contents = replicate 24 None\<rparr>]"
  "alloc_list example_state = [\<lparr>entry_node = 4, entry_ptr = 3, entry_size = 3\<rparr>, \<lparr>entry_node = 2, entry_ptr = 1, entry_size = 8\<rparr>]"
  "stats example_state = \<lparr>total_allocated = 11, total_freed = 0, current_usage = 11, peak_usage = 11, allocation_count = 2, free_count = 0\<rparr>"
  "alloc_lock example_state = False" "custom_allocator example_state = default_allocator"
  by (simp_all add: mem_eval example_state_def fun_upd_twist)

lemma example_client: "client example_state = {1, 3}"
  by (auto simp: client_def example_eq)

lemma example_granted: "nodes_granted (first_fit 16) 15"
  using first_fit_granted [of 15] by simp

text \<open>The witness frees the first of two blocks.\<close>

theorem memory_invariant_witness:
  "\<exists>s s'. mem_reach (first_fit 16) 2 s \<and> permitted s (Free (Some 1)) \<and> run_op (first_fit 16) (Free (Some 1)) s = (Ok None, s')
     \<and> list_inv s' \<and> current_usage (stats s') = 3"
proof -
  let ?L = "first_fit 16" let ?s = example_state
  have p: "permitted ?s (Free (Some 1))" by (simp add: permitted_def example_client)
  from memory_invariant [OF first_fit_ok(1) example_reach p] obtain r s' where s': "run_op ?L (Free (Some 1)) ?s = (Ok r, s')" "list_inv s'" by blast
  moreover from s'(1) have "r = None" "current_usage (stats s') = 3"
    by (auto simp: mem_eval example_eq)
  ultimately show ?thesis using p example_reach by blast
qed

text \<open> When the C library grants the nodes of the tracking list, the statistics are exact: the blocks tracked are the blocks of the client,
  the current usage is the sum of their sizes, and the counts of \<^verbatim>\<open>neoc_get_allocation_count\<close>, \<^verbatim>\<open>neoc_memory_debug_check_leaks\<close> and
  \<^verbatim>\<open>neoc_memory_debug_get_stats\<close> are their number.\<close>

theorem memory_accounting:
  assumes "libc_ok L" and "mem_reach L n s" and "nodes_granted L (2 * n)" and "n < 2 ^ 64"
  shows "tracked s = client s
    \<and> current_usage (stats s) = of_nat (\<Sum>p \<in> client s. length (contents (the (heap s p))))
    \<and> neoc_get_allocation_count s = of_nat (card (client s))
    \<and> neoc_memory_debug_check_leaks s = of_nat (card (client s))
    \<and> neoc_memory_debug_get_stats s = Ok (of_nat (\<Sum>p \<in> client s. length (contents (the (heap s p)))), of_nat (card (client s)))"
proof -
  have good: "mem_good L n s" using assms(1,2) by (rule reach_good)
  then have inv: "list_inv s" and e: "exact n s" using assms(3,4) by (simp_all add: mem_good_def)
  have tc: "tracked s = client s" using tracked_client [OF inv] e by (auto simp: exact_def client_def)
  have "distinct (map entry_ptr (alloc_list s))" using inv by (simp add: list_inv_def)
  from distinct_card [OF this] tc have card: "card (client s) = length (alloc_list s)" by simp
  have "unat (allocation_count (stats s)) = unat (free_count (stats s)) + card (client s)" using e card by (simp add: exact_def)
  then have "of_nat (unat (allocation_count (stats s))) = (of_nat (unat (free_count (stats s)) + card (client s)) :: size_t)" by (simp only:)
  then have diff: "allocation_count (stats s) = free_count (stats s) + of_nat (card (client s))" by simp
  have "free_count (stats s) < allocation_count (stats s) \<longleftrightarrow> card (client s) \<noteq> 0"
    using e card by (auto simp: exact_def word_less_nat_alt)
  with diff have "neoc_get_allocation_count s = of_nat (card (client s))" "neoc_memory_debug_check_leaks s = of_nat (card (client s))"
    by (simp_all add: neoc_get_allocation_count_def neoc_memory_debug_check_leaks_def Let_def)
  moreover have "current_usage (stats s) = of_nat (\<Sum>p \<in> client s. length (contents (the (heap s p))))"
    using e sum_entries [OF inv] tc by (simp add: exact_def del: of_nat_sum)
  ultimately show ?thesis using diff tc by (simp add: neoc_memory_debug_get_stats_def)
qed

theorem memory_accounting_witness:
  "\<exists>s. mem_reach (first_fit 16) 2 s \<and> client s = {1, 3} \<and> neoc_get_allocation_count s = 2 \<and> neoc_memory_debug_get_stats s = Ok (11, 2)"
proof -
  have "nodes_granted (first_fit 16) (2 * 2)"
    using nodes_granted_mono [OF example_granted] by simp
  from memory_accounting [OF first_fit_ok(1) example_reach this] example_reach show ?thesis
    by (intro exI [of _ example_state]) (simp add: example_client example_eq)
qed



lemma after_track_heap: "libc_ok L \<Longrightarrow> heap s x = Some b \<Longrightarrow> heap (after_track L q sz s) x = Some b"
  by (auto simp: after_track_def dest: sys_fresh(1) split: option.split)

lemma untracked_heap:
  assumes "list_inv s" and "p \<in> client s" and "untracked_state p s = (old, u)" and "x \<in> client s"
  shows "heap u x = heap s x"
  using assms(1-3)
proof (rule untracked_stateE)
  fix e rest
  assume e: "unlink_entry p (alloc_list s) = Some (e, rest)" "u = after_unlink e rest s"
  have "entry_node e \<in> nodes s" using unlink_inv(5) [OF assms(1) e(1)] by blast
  then have "x \<noteq> entry_node e" using assms(4) by (auto simp: client_def)
  with e(2) show ?thesis by (simp add: after_unlink_def)
qed simp

text \<open> \<^verbatim>\<open>neoc_realloc\<close> of a block of the client returns.  When it succeeds, the new block has the size asked for, starts with the bytes of
  the old one as far as they fit, and every other block of the client is as it was; when it fails, so is the old block.\<close>

theorem realloc_keeps_contents:
  assumes "libc_ok L" and "list_inv s" and "p \<in> client s" and "sz \<noteq> 0" and "heap s p = Some b"
  shows "\<exists>r s'. neoc_realloc L (Some p) sz s = (Ok r, s')
    \<and> (case r of
         None \<Rightarrow> heap s' p = Some b
       | Some q \<Rightarrow> map_option contents (heap s' q) = Some (take (unat sz) (contents b) @ replicate (unat sz - length (contents b)) None))
    \<and> (\<forall>x \<in> client s - {p}. heap s' x = heap s x)"
proof -
  obtain old u where u: "untracked_state p s = (old, u)" by (cases "untracked_state p s")
  note eq = realloc_eq [OF assms(2,3) u assms(4), of L] and hu = untracked_heap [OF assms(2,3) u]
  have b: "heap u p = Some b" using hu assms(3,5) by simp
  have keep: "heap (after_track L q k (t :: memory)) x = heap s x" if "heap t x = heap s x" "x \<in> client s" for q k t x
    using after_track_heap [OF assms(1), of t x _ q k] that by (auto simp: client_def)
  show ?thesis
  proof (cases "sys_realloc L (heap u) p (unat sz)")
    case None
    with eq have "neoc_realloc L (Some p) sz s = (Ok None, case old of Some old_size \<Rightarrow> after_track L p old_size u | None \<Rightarrow> u)" by simp
    with hu b assms(3,5) keep show ?thesis by (cases old) simp_all
  next
    case (Some q)
    let ?bs = "take (unat sz) (contents b) @ replicate (unat sz - length (contents b)) None"
    have m: "heap (moved p q (unat sz) u) = (heap u)(p := None, q \<mapsto> \<lparr>from_libc = True, contents = ?bs\<rparr>)" using b by (simp add: moved_def)
    have "x \<noteq> q" if "x \<in> client s - {p}" for x
      using that sys_fresh(2) [OF assms(1) Some] hu [of x] by (auto simp: client_def)
    then have "\<forall>x \<in> client s - {p}. heap (moved p q (unat sz) u) x = heap s x" using m hu by simp
    moreover have "heap (after_track L q sz (moved p q (unat sz) u)) q = Some \<lparr>from_libc = True, contents = ?bs\<rparr>"
      using assms(1) m by (intro after_track_heap) simp_all
    ultimately show ?thesis using eq Some keep by simp
  qed
qed

lemma replicate_numeral: "replicate (numeral k) x = x # replicate (pred_numeral k) x"
  by (simp add: numeral_eq_Suc)

theorem realloc_keeps_contents_witness:
  "\<exists>s'. neoc_realloc (first_fit 16) (Some 3) 5 example_state = (Ok (Some 3), s')
     \<and> map_option contents (heap s' 3) = Some [Some 72, Some 105, Some 0, None, None]"
proof -
  have "list_inv example_state" using reach_good [OF first_fit_ok(1) example_reach] by (simp add: mem_good_def)
  moreover have "heap example_state 3 = Some \<lparr>from_libc = True, contents = [Some 72, Some 105, Some 0]\<rparr>" by (simp add: example_eq)
  moreover have "3 \<in> client example_state" "(5 :: size_t) \<noteq> 0" by (simp_all add: example_client)
  moreover have "fst (neoc_realloc (first_fit 16) (Some 3) 5 example_state) = Ok (Some 3)" by (simp add: mem_eval example_eq)
  ultimately show ?thesis
    using realloc_keeps_contents [OF first_fit_ok(1), of example_state 3 5 _ 16] by (auto simp: replicate_numeral)
qed

text \<open>The other theories only ask whether a request is granted: \<open>neoc_malloc_r\<close> with the requests the C library grants in the current heap is
  what a caller of \<^verbatim>\<open>neoc_malloc\<close> sees.\<close>

lemma malloc_refines:
  assumes "list_inv s"
  shows "map_result (\<lambda>p. p \<noteq> None) (fst (neoc_malloc L sz s)) =
    Ok (neoc_malloc_r (\<lambda>n. sys_malloc L (heap s) n \<noteq> None) (unat sz) = Ok ())"
proof (cases "sz = 0")
  case False
  then have "0 < unat sz" by (simp add: unat_gt_0)
  then show ?thesis using malloc_eq [OF assms False, of L] by (simp add: malloc_r_def split: option.split)
qed (simp add: neoc_malloc_def)

lemma byte_xor_0: "(a :: byte) XOR b = 0 \<longleftrightarrow> a = b"
proof
  assume "a XOR b = 0"
  then have "(a XOR b) XOR b = b" by simp
  then show "a = b" by (simp add: xor.assoc)
qed simp

lemma fold_or_zero: "fold (\<lambda>i acc. acc OR f i) is (a :: byte) = 0 \<longleftrightarrow> a = 0 \<and> (\<forall>i \<in> set is. f i = 0)"
  by (induction "is" arbitrary: a) (auto simp: or_eq_0_iff)

text \<open> \<^verbatim>\<open>neoc_secure_memcmp\<close>, which never stops early, decides equality: on buffers of at least \<open>n\<close> bytes it returns 0 when the first
  \<open>n\<close> bytes agree and 1 otherwise.\<close>

theorem secure_memcmp_decides:
  assumes "n \<le> length a" and "n \<le> length b"
  shows "neoc_secure_memcmp (Some a) (Some b) n = Ok (if take n a = take n b then 0 else 1)"
proof -
  have "take n a = take n b \<longleftrightarrow> (\<forall>i \<in> set [0..<n]. a ! i XOR b ! i = 0)"
    using assms by (simp add: list_eq_iff_nth_eq byte_xor_0) (auto simp: Ball_def)
  then show ?thesis using assms by (simp add: neoc_secure_memcmp_def fold_or_zero del: set_upt)
qed

theorem secure_memcmp_decides_witness:
  "neoc_secure_memcmp (Some [1, 2, 3]) (Some [1, 2, 4]) 3 = Ok 1 \<and> neoc_secure_memcmp (Some [1, 2, 3]) (Some [1, 2, 4]) 2 = Ok 0"
  using secure_memcmp_decides [of 3 "[1, 2, 3]" "[1, 2, 4]"] secure_memcmp_decides [of 2 "[1, 2, 3]" "[1, 2, 4]"]
  by (simp add: take_Cons')

subsection \<open>Where the accounting fails\<close>

text \<open>A block whose node was refused is never taken out of the usage.\<close>

lemma untracked_block_counts_for_ever:
  "run_ops (no_nodes 8) [Malloc 8, Free (Some 1)] initial_memory =
     initial_memory\<lparr>stats := \<lparr>total_allocated = 8, total_freed = 0, current_usage = 8, peak_usage = 8, allocation_count = 1, free_count = 1\<rparr>\<rparr>"
  by (simp add: mem_eval)

text \<open>Growth by \<^verbatim>\<open>neoc_realloc\<close> does not raise the peak.\<close>

lemma realloc_misses_peak:
  "stats (run_ops (first_fit 8) [Malloc 8, Realloc (Some 1) 100] initial_memory) =
     \<lparr>total_allocated = 108, total_freed = 8, current_usage = 100, peak_usage = 8, allocation_count = 2, free_count = 1\<rparr>"
  by (simp add: mem_eval)

text \<open>With a custom allocator, \<^verbatim>\<open>neoc_calloc\<close> multiplies without a check: a request for \<open>2 ^ 61 + 1\<close> items of 8 bytes gets a block of 8
  bytes.  A custom allocator without \<^verbatim>\<open>free_func\<close> is accepted, and its blocks are then given to the C library's \<^verbatim>\<open>free\<close>.\<close>

definition pool_malloc :: "heap \<Rightarrow> size_t \<Rightarrow> addr option \<times> heap" where
  "pool_malloc h sz = (Some 100, h(100 \<mapsto> \<lparr>from_libc = False, contents = replicate (unat sz) None\<rparr>))"

lemma custom_calloc_wraps:
  "fst (then_c (neoc_set_allocator (Some (default_allocator\<lparr>malloc_func := Some pool_malloc\<rparr>)))
     (neoc_calloc L (2 ^ 61 + 1) 8) initial_memory) = Ok (Some 100)"
  "map_option contents (heap (snd (then_c (neoc_set_allocator (Some (default_allocator\<lparr>malloc_func := Some pool_malloc\<rparr>)))
     (neoc_calloc L (2 ^ 61 + 1) 8) initial_memory)) 100) = Some (replicate 8 (Some 0))"
  by (simp_all add: mem_eval neoc_set_allocator_def pool_malloc_def)

lemma custom_without_free:
  "fst (then_c (neoc_set_allocator (Some (default_allocator\<lparr>malloc_func := Some pool_malloc\<rparr>)))
     (bind_c (neoc_malloc L 8) neoc_free) initial_memory) = Fault"
  by (simp add: mem_eval neoc_set_allocator_def pool_malloc_def)

end
