(* ===== verification/Dynamic_Array.thy ===== *)
theory Dynamic_Array
  imports NeoC_Prelude
begin

text \<open>
  What the growing arrays of \<^verbatim>\<open>utils/neoc_array.c\<close> and \<^verbatim>\<open>utils/array.c\<close> share: blocks of slots, of which some may not
  have been written yet (\<open>None\<close>), accesses that are undefined outside the block or on such a slot (\<open>Fault\<close>), the overlapping copies and the reversal in place, and,
  as the locale \<open>dynamic_array\<close>, what adding an item promises, with what follows for a loop that adds many.
\<close>

subsection \<open>Blocks of slots\<close>

definition read_slot :: "'a option list \<Rightarrow> nat \<Rightarrow> 'a result" where
  "read_slot xs i = (if i < length xs then (case xs ! i of Some x \<Rightarrow> Ok x | None \<Rightarrow> Fault) else Fault)"

definition write_slot :: "nat \<Rightarrow> 'a \<Rightarrow> 'a option list \<Rightarrow> 'a option list result" where
  "write_slot i x xs = (if i < length xs then Ok (xs[i := Some x]) else Fault)"

text \<open>\<^verbatim>\<open>memmove\<close> of \<open>n\<close> slots from \<open>src\<close> to \<open>dst\<close>.\<close>

definition memmove_slots :: "nat \<Rightarrow> nat \<Rightarrow> nat \<Rightarrow> 'a list \<Rightarrow> 'a list result" where
  "memmove_slots dst src n xs =
     (if length xs < dst + n \<or> length xs < src + n then Fault
      else Ok (take dst xs @ take n (drop src xs) @ drop (dst + n) xs))"

text \<open>Exchanging the ends and moving inwards, as the loops that reverse in place do.\<close>

function swap_ends :: "nat \<Rightarrow> nat \<Rightarrow> 'a list \<Rightarrow> 'a list" where
  "swap_ends left right xs =
     (if left < right then swap_ends (left + 1) (right - 1) (xs[left := xs ! right, right := xs ! left]) else xs)"
  by auto
termination
  by (relation "measure (\<lambda>(left, right, _). right - left)") auto

declare swap_ends.simps [simp del]

text \<open>A block after \<^verbatim>\<open>neoc_realloc\<close> to \<open>n\<close> slots.\<close>

definition resize_slots :: "nat \<Rightarrow> 'a option list \<Rightarrow> 'a option list" where
  "resize_slots n xs = take n xs @ replicate (n - length xs) None"

text \<open>No block has \<open>2 ^ 61\<close> bytes or more, for which no machine has the address space.\<close>

definition bounded_blocks :: "allocator \<Rightarrow> bool" where
  "bounded_blocks A \<longleftrightarrow> (\<forall>n. A n \<longrightarrow> n < 2 ^ 61)"

subsection \<open>Contents\<close>

definition filled :: "nat \<Rightarrow> 'a option list \<Rightarrow> bool" where
  "filled n xs \<longleftrightarrow> n \<le> length xs \<and> None \<notin> set (take n xs)"

definition content :: "nat \<Rightarrow> 'a option list \<Rightarrow> 'a list" where
  "content n xs = map the (take n xs)"

lemma content_0 [simp]: "content 0 xs = []" "filled 0 xs"
  by (simp_all add: content_def filled_def)

lemma length_content [simp]: "filled n xs \<Longrightarrow> length (content n xs) = n"
  by (simp add: content_def filled_def)

lemma filled_nth: "filled n xs \<Longrightarrow> i < n \<Longrightarrow> xs ! i = Some (content n xs ! i)"
  by (auto simp: filled_def content_def in_set_conv_nth)

lemma filledI: "take n xs = map Some ys \<Longrightarrow> n \<le> length xs \<Longrightarrow> filled n xs \<and> content n xs = ys"
  by (auto simp: filled_def content_def map_idI)

lemma filled_take: "filled n xs \<longleftrightarrow> n \<le> length xs \<and> take n xs = map Some (content n xs)"
proof
  assume "filled n xs"
  then show "n \<le> length xs \<and> take n xs = map Some (content n xs)"
    by (auto simp: filled_nth intro!: nth_equalityI) (simp_all add: filled_def)
qed (use filledI in blast)

lemma filled_split: "filled n xs \<Longrightarrow> xs = map Some (content n xs) @ drop n xs"
  by (metis append_take_drop_id filled_take)

lemma filled_map_Some [simp]:
  "n = length ys \<Longrightarrow> filled n (map Some ys @ zs)" "n = length ys \<Longrightarrow> content n (map Some ys @ zs) = ys"
  using filledI [of n "map Some ys @ zs" ys] by simp_all

lemma read_filled: "filled n xs \<Longrightarrow> i < n \<Longrightarrow> read_slot xs i = Ok (content n xs ! i)"
  using filled_nth [of n xs i] by (simp add: read_slot_def filled_def)

lemma read_all: "filled n xs \<Longrightarrow> map (read_slot xs) [0..<n] = map Ok (content n xs)"
  by (auto intro!: nth_equalityI simp: read_filled)

lemma resize_filled: "filled n xs \<Longrightarrow> n \<le> m \<Longrightarrow> filled n (resize_slots m xs) \<and> content n (resize_slots m xs) = content n xs"
  by (intro filledI) (simp_all add: resize_slots_def filled_take min_absorb1)

lemma length_resize_slots [simp]: "length (resize_slots m xs) = m"
  by (simp add: resize_slots_def)

lemma write_append:
  assumes "filled n xs" and "n < length xs"
  obtains ys where "write_slot n x xs = Ok ys" and "length ys = length xs" and "filled (Suc n) ys" and "content (Suc n) ys = content n xs @ [x]"
proof -
  let ?ys = "xs[n := Some x]"
  have "take (Suc n) ?ys = map Some (content n xs @ [x])"
    using assms by (simp add: take_Suc_conv_app_nth filled_take)
  from filledI [OF this] assms(2) show thesis by (intro that [of ?ys]) (simp_all add: write_slot_def)
qed

lemma write_inside:
  assumes "filled n xs" and "i < n"
  obtains ys where "write_slot i x xs = Ok ys" and "length ys = length xs" and "filled n ys" and "content n ys = (content n xs)[i := x]"
proof -
  have "take n (xs[i := Some x]) = map Some ((content n xs)[i := x])" using assms by (simp add: take_update_swap filled_take map_update)
  from filledI [OF this] assms show thesis by (intro that [of "xs[i := Some x]"]) (simp_all add: write_slot_def filled_def)
qed

lemma shift_up_write:
  assumes "filled n xs" and "n < length xs" and "i \<le> n"
  obtains ys where "bind_r (memmove_slots (i + 1) i (n - i) xs) (write_slot i x) = Ok ys" and "length ys = length xs"
    and "filled (Suc n) ys" and "content (Suc n) ys = take i (content n xs) @ x # drop i (content n xs)"
proof -
  define zs where "zs = take (i + 1) xs @ take (n - i) (drop i xs) @ drop (n + 1) xs"
  have m: "memmove_slots (i + 1) i (n - i) xs = Ok zs" using assms(2,3) by (simp add: memmove_slots_def zs_def)
  have xs: "take n xs = map Some (content n xs)" using assms(1) by (simp add: filled_take)
  have "take i xs = map Some (take i (content n xs))" "take (n - i) (drop i xs) = map Some (drop i (content n xs))"
    using arg_cong [OF xs, of "take i"] arg_cong [OF xs, of "drop i"] assms(3) by (simp_all add: take_map drop_map drop_take min_absorb1)
  then have zs: "zs[i := Some x] = map Some (take i (content n xs) @ x # drop i (content n xs)) @ drop (n + 1) xs"
    using assms(2,3) length_content [OF assms(1)] by (simp add: zs_def take_Suc_conv_app_nth list_update_append)
  have len: "length (take i (content n xs) @ x # drop i (content n xs)) = Suc n" using assms(1,3) by simp
  have "length zs = length xs" using assms(2,3) by (simp add: zs_def)
  moreover from this m assms(2,3) have "bind_r (memmove_slots (i + 1) i (n - i) xs) (write_slot i x) = Ok (zs[i := Some x])"
    by (simp add: write_slot_def)
  moreover have "filled (Suc n) (zs[i := Some x])" "content (Suc n) (zs[i := Some x]) = take i (content n xs) @ x # drop i (content n xs)"
    unfolding zs using len by (intro filled_map_Some, simp)+
  ultimately show thesis by (intro that) simp_all
qed

lemma shift_down:
  assumes "filled n xs" and "i < n"
  obtains ys where "memmove_slots i (i + 1) (n - i - 1) xs = Ok ys" and "length ys = length xs"
    and "filled (n - 1) ys" and "content (n - 1) ys = take i (content n xs) @ drop (i + 1) (content n xs)"
proof -
  have n: "n \<le> length xs" using assms(1) by (simp add: filled_def)
  have xs: "take n xs = map Some (content n xs)" using assms(1) by (simp add: filled_take)
  let ?ys = "take i xs @ take (n - i - 1) (drop (i + 1) xs) @ drop (n - 1) xs"
  have "take i xs = map Some (take i (content n xs))" "take (n - i - 1) (drop (i + 1) xs) = map Some (drop (i + 1) (content n xs))"
    using arg_cong [OF xs, of "take i"] arg_cong [OF xs, of "drop (i + 1)"] assms(2) by (simp_all add: take_map drop_map drop_take min_absorb1)
  then have ys: "?ys = map Some (take i (content n xs) @ drop (i + 1) (content n xs)) @ drop (n - 1) xs" by simp
  have len: "n - 1 = length (take i (content n xs) @ drop (i + 1) (content n xs))" using assms by simp
  have "memmove_slots i (i + 1) (n - i - 1) xs = Ok ?ys" using n assms(2) by (simp add: memmove_slots_def)
  moreover have "length ?ys = length xs" using n assms(2) by simp
  moreover have "filled (n - 1) ?ys" "content (n - 1) ?ys = take i (content n xs) @ drop (i + 1) (content n xs)"
    unfolding ys using len by (intro filled_map_Some, simp)+
  ultimately show thesis by (rule that)
qed

subsection \<open>Reversal\<close>

lemma length_swap_ends [simp]: "length (swap_ends l r xs) = length xs"
  by (induction l r xs rule: swap_ends.induct) (subst swap_ends.simps, simp)

lemma swap_ends_nth:
  "r < length xs \<Longrightarrow> i < length xs \<Longrightarrow> swap_ends l r xs ! i = (if l \<le> i \<and> i \<le> r then xs ! (l + r - i) else xs ! i)"
proof (induction l r xs rule: swap_ends.induct)
  case (1 l r xs)
  show ?case
  proof (cases "l < r")
    case True
    let ?ys = "xs[l := xs ! r, r := xs ! l]"
    have "swap_ends l r xs ! i = swap_ends (l + 1) (r - 1) ?ys ! i" using True by (subst swap_ends.simps) simp
    also have "\<dots> = (if l + 1 \<le> i \<and> i \<le> r - 1 then ?ys ! (l + 1 + (r - 1) - i) else ?ys ! i)"
      using "1.IH" [OF True] "1.prems" True by simp
    also have "\<dots> = (if l \<le> i \<and> i \<le> r then xs ! (l + r - i) else xs ! i)"
      using True "1.prems" by (auto simp: nth_list_update)
    finally show ?thesis .
  next
    case False
    then have "l + r - i = i" if "l \<le> i" "i \<le> r" using that by simp
    with False show ?thesis by (subst swap_ends.simps) auto
  qed
qed

lemma swap_ends_rev: "0 < n \<Longrightarrow> n \<le> length xs \<Longrightarrow> swap_ends 0 (n - 1) xs = rev (take n xs) @ drop n xs"
  by (rule nth_equalityI) (auto simp: swap_ends_nth nth_append rev_nth)

subsection \<open>Adding many items\<close>

text \<open>The contract of an operation that adds one item and reports whether there was room: it always returns; it adds the item at the end or
  changes nothing; and it succeeds when the allocations it needs are granted.\<close>

locale dynamic_array =
  fixes inv :: "'s \<Rightarrow> bool" and contents_of :: "'s \<Rightarrow> 'a list" and room :: "nat \<Rightarrow> 's \<Rightarrow> bool" and add :: "'a \<Rightarrow> ('s, bool) cmd"
  assumes add_returns: "inv s \<Longrightarrow> \<exists>b s'. add x s = (Ok b, s') \<and> inv s' \<and> contents_of s' = (if b then contents_of s @ [x] else contents_of s)"
    and add_room: "inv s \<Longrightarrow> room (Suc n) s \<Longrightarrow> \<exists>s'. add x s = (Ok True, s') \<and> room n s'"
begin

lemma add_succeeds:
  assumes "inv s" and "room (Suc n) s"
  obtains s' where "add x s = (Ok True, s')" and "inv s'" and "contents_of s' = contents_of s @ [x]" and "room n s'"
  using add_returns [OF assms(1), of x] add_room [OF assms, of x] by auto

end

text \<open>The loop: read an item, transform or skip it, add it, stop at the first failure.\<close>

fun add_selected :: "('a \<Rightarrow> ('s, bool) cmd) \<Rightarrow> ('b \<Rightarrow> 'a option) \<Rightarrow> 'b result list \<Rightarrow> ('s, bool) cmd" where
  "add_selected add sel [] = return_c True"
| "add_selected add sel (r # rs) =
     bind_c (lift_c r) (\<lambda>x.
       case sel x of
         None \<Rightarrow> add_selected add sel rs
       | Some y \<Rightarrow> bind_c (add y) (\<lambda>ok. if ok then add_selected add sel rs else return_c False))"

context dynamic_array
begin

lemma add_selected_returns:
  assumes "inv s"
  shows "\<exists>b s' ys. add_selected add sel (map Ok xs) s = (Ok b, s') \<and> inv s' \<and> prefix ys (List.map_filter sel xs) \<and> contents_of s' = contents_of s @ ys
    \<and> (b \<longrightarrow> ys = List.map_filter sel xs)"
  using assms
proof (induction xs arbitrary: s)
  case (Cons x xs)
  show ?case
  proof (cases "sel x")
    case None
    with Cons.IH [OF Cons.prems] show ?thesis by (simp add: List.map_filter_simps)
  next
    case (Some y)
    from add_returns [OF Cons.prems, of y] obtain b t where t: "add y s = (Ok b, t)" "inv t" "contents_of t = (if b then contents_of s @ [y] else contents_of s)"
      by blast
    show ?thesis
    proof (cases b)
      case True
      from Cons.IH [OF t(2)] obtain b' s' ys where "add_selected add sel (map Ok xs) t = (Ok b', s')" "inv s'"
        "prefix ys (List.map_filter sel xs)" "contents_of s' = contents_of t @ ys" "b' \<longrightarrow> ys = List.map_filter sel xs" by blast
      with t True Some show ?thesis
        by (intro exI [of _ b'] exI [of _ s'] exI [of _ "y # ys"]) (simp add: bind_c_def List.map_filter_simps)
    next
      case False
      with t Some show ?thesis by (intro exI [of _ False] exI [of _ t] exI [of _ "[]"]) (simp add: bind_c_def cmd_eval)
    qed
  qed
qed (auto simp: cmd_eval List.map_filter_simps)

lemma add_selected_room:
  assumes "inv s" and "room (length (List.map_filter sel xs)) s"
  shows "\<exists>s'. add_selected add sel (map Ok xs) s = (Ok True, s') \<and> inv s' \<and> contents_of s' = contents_of s @ List.map_filter sel xs"
  using assms
proof (induction xs arbitrary: s)
  case (Cons x xs)
  show ?case
  proof (cases "sel x")
    case None
    with Cons show ?thesis by (simp add: List.map_filter_simps)
  next
    case (Some y)
    with Cons.prems obtain t where "add y s = (Ok True, t)" "inv t" "contents_of t = contents_of s @ [y]" "room (length (List.map_filter sel xs)) t"
      by (auto simp: List.map_filter_simps elim: add_succeeds)
    with Cons.IH [of t] Some show ?thesis by (auto simp: bind_c_def List.map_filter_simps)
  qed
qed (simp add: cmd_eval List.map_filter_simps)

end

end
