(* ===== verification/Pointer_Array.thy ===== *)
theory Pointer_Array
  imports Dynamic_Array
begin

text \<open>
  \<^verbatim>\<open>utils/neoc_array.c\<close>: arrays of \<^verbatim>\<open>void*\<close> that double when full, with an optional function that releases the items, and a few functions on byte
  buffers.  A pointer is an address or null.  \<open>items\<close> is the block of slots: sizes are computed in \<^verbatim>\<open>size_t\<close>, so that for
  a capacity of \<open>2 ^ 61\<close> or more it has fewer slots than \<open>capacity\<close> says.  The functions a client passes are functions of the model; of the release function only
  whether it is set is kept, and an operation that calls it returns the pointers it was called with, in order.  What \<^verbatim>\<open>qsort\<close> makes of an array is
  the parameter \<open>Q\<close> of \<open>neoc_array_sort\<close>.
\<close>

subsection \<open>Arrays\<close>

type_synonym ptr = "u64 option"

record neoc_array =
  items :: "ptr option list"
  count :: size_t
  capacity :: size_t
  free_func :: bool

text \<open>The number of bytes of an array of pointers, as the code computes it, and the number of slots they make.\<close>

definition ptr_bytes :: "size_t \<Rightarrow> size_t" where
  "ptr_bytes n = 8 * n"

definition ptr_slots :: "size_t \<Rightarrow> nat" where
  "ptr_slots n = unat (ptr_bytes n) div 8"

definition neoc_array_create_with_capacity :: "allocator \<Rightarrow> size_t \<Rightarrow> neoc_array option" where
  "neoc_array_create_with_capacity A cap =
     (if \<not> A 32 then None
      else if neoc_malloc_r A (unat (ptr_bytes cap)) \<noteq> Ok () then None
      else Some \<lparr>items = replicate (ptr_slots cap) None, count = 0, capacity = cap, free_func = False\<rparr>)"

definition neoc_array_create :: "allocator \<Rightarrow> neoc_array option" where
  "neoc_array_create A = neoc_array_create_with_capacity A 16"

definition neoc_array_create_with_free_func :: "allocator \<Rightarrow> bool \<Rightarrow> neoc_array option" where
  "neoc_array_create_with_free_func A func = map_option (\<lambda>a. a\<lparr>free_func := func\<rparr>) (neoc_array_create A)"

text \<open>The pointers given to the release function: the items that are not null.\<close>

definition released :: "neoc_array \<Rightarrow> ptr list result" where
  "released a =
     (if free_func a then bind_r (map_r (read_slot (items a)) [0..<unat (count a)]) (\<lambda>ps. Ok (filter (\<lambda>p. p \<noteq> None) ps))
      else Ok [])"

definition neoc_array_free :: "neoc_array option \<Rightarrow> ptr list result" where
  "neoc_array_free array = (case array of None \<Rightarrow> Ok [] | Some a \<Rightarrow> released a)"

text \<open>\<^verbatim>\<open>neoc_realloc\<close> to zero bytes releases the block and returns null; no slot is left.\<close>

definition neoc_array_grow :: "allocator \<Rightarrow> (neoc_array, bool) cmd" where
  "neoc_array_grow A a =
     (let new_capacity = capacity a * 2 in
      if ptr_bytes new_capacity = 0 then (Ok False, a\<lparr>items := []\<rparr>)
      else if \<not> A (unat (ptr_bytes new_capacity)) then (Ok False, a)
      else (Ok True, a\<lparr>items := resize_slots (ptr_slots new_capacity) (items a), capacity := new_capacity\<rparr>))"

definition put_item :: "size_t \<Rightarrow> ptr \<Rightarrow> (neoc_array, unit) cmd" where
  "put_item i x a = (case write_slot (unat i) x (items a) of Ok xs \<Rightarrow> (Ok (), a\<lparr>items := xs\<rparr>) | _ \<Rightarrow> (Fault, a))"

definition move_items :: "size_t \<Rightarrow> size_t \<Rightarrow> size_t \<Rightarrow> (neoc_array, unit) cmd" where
  "move_items dst src n a =
     (case memmove_slots (unat dst) (unat src) (ptr_slots n) (items a) of Ok xs \<Rightarrow> (Ok (), a\<lparr>items := xs\<rparr>) | _ \<Rightarrow> (Fault, a))"

text \<open>Making room when the array is full.\<close>

definition grow_if_full :: "allocator \<Rightarrow> (neoc_array, bool) cmd" where
  "grow_if_full A a = (if capacity a \<le> count a then neoc_array_grow A a else (Ok True, a))"

definition neoc_array_add :: "allocator \<Rightarrow> ptr \<Rightarrow> (neoc_array, bool) cmd" where
  "neoc_array_add A item =
     bind_c (grow_if_full A) (\<lambda>ok.
       if \<not> ok then return_c False
       else (\<lambda>a. then_c (put_item (count a) item)
              (then_c (\<lambda>a. (Ok (), a\<lparr>count := count a + 1\<rparr>)) (return_c True)) a))"

definition neoc_array_insert :: "allocator \<Rightarrow> size_t \<Rightarrow> ptr \<Rightarrow> (neoc_array, bool) cmd" where
  "neoc_array_insert A index item a =
     (if count a < index then (Ok False, a)
      else
        bind_c (grow_if_full A) (\<lambda>ok.
          if \<not> ok then return_c False
          else (\<lambda>a. then_c (if index < count a then move_items (index + 1) index (count a - index) else return_c ())
                 (then_c (put_item index item)
                 (then_c (\<lambda>a. (Ok (), a\<lparr>count := count a + 1\<rparr>)) (return_c True))) a)) a)"

text \<open>The item removed; null when the index is out of range.\<close>

definition neoc_array_remove :: "size_t \<Rightarrow> (neoc_array, ptr) cmd" where
  "neoc_array_remove index a =
     (if count a \<le> index then (Ok None, a)
      else
        bind_c (lift_c (read_slot (items a) (unat index))) (\<lambda>item.
          then_c (if index < count a - 1 then move_items index (index + 1) (count a - index - 1) else return_c ())
          (then_c (\<lambda>a. (Ok (), a\<lparr>count := count a - 1\<rparr>)) (return_c item))) a)"

text \<open>The index is a \<^verbatim>\<open>size_t\<close> and is returned as an \<^verbatim>\<open>int\<close>.\<close>

fun find_slot :: "ptr option list \<Rightarrow> ptr \<Rightarrow> nat list \<Rightarrow> 32 word result" where
  "find_slot xs item [] = Ok (- 1)"
| "find_slot xs item (i # is) =
     bind_r (read_slot xs i) (\<lambda>p. if p = item then Ok (of_nat i) else find_slot xs item is)"

definition neoc_array_index_of :: "neoc_array \<Rightarrow> ptr \<Rightarrow> 32 word result" where
  "neoc_array_index_of a item = find_slot (items a) item [0..<unat (count a)]"

definition neoc_array_contains :: "neoc_array \<Rightarrow> ptr \<Rightarrow> bool result" where
  "neoc_array_contains a item = bind_r (neoc_array_index_of a item) (\<lambda>i. Ok (0 \<le> sint i))"

definition neoc_array_remove_item :: "ptr \<Rightarrow> (neoc_array, bool) cmd" where
  "neoc_array_remove_item item a =
     bind_c (lift_c (neoc_array_index_of a item)) (\<lambda>index.
       if 0 \<le> sint index then then_c (neoc_array_remove (scast index)) (return_c True) else return_c False) a"

definition neoc_array_get :: "neoc_array \<Rightarrow> size_t \<Rightarrow> ptr result" where
  "neoc_array_get a index = (if count a \<le> index then Ok None else read_slot (items a) (unat index))"

definition neoc_array_set :: "size_t \<Rightarrow> ptr \<Rightarrow> (neoc_array, bool \<times> ptr list) cmd" where
  "neoc_array_set index item a =
     (if count a \<le> index then (Ok (False, []), a)
      else
        bind_c (lift_c (if free_func a then read_slot (items a) (unat index) else Ok None)) (\<lambda>old.
          then_c (put_item index item) (return_c (True, if old \<noteq> None then [old] else []))) a)"

definition neoc_array_clear :: "(neoc_array, ptr list) cmd" where
  "neoc_array_clear a = bind_c (lift_c (released a)) (\<lambda>ps. then_c (\<lambda>a. (Ok (), a\<lparr>count := 0\<rparr>)) (return_c ps)) a"

definition neoc_array_size :: "neoc_array option \<Rightarrow> size_t" where
  "neoc_array_size array = (case array of None \<Rightarrow> 0 | Some a \<Rightarrow> count a)"

definition neoc_array_is_empty :: "neoc_array option \<Rightarrow> bool" where
  "neoc_array_is_empty array = (case array of None \<Rightarrow> True | Some a \<Rightarrow> count a = 0)"

definition neoc_array_sort :: "(ptr list \<Rightarrow> ptr list) \<Rightarrow> (neoc_array, unit) cmd" where
  "neoc_array_sort Q a =
     (if count a < 2 then (Ok (), a)
      else
        bind_c (lift_c (map_r (read_slot (items a)) [0..<unat (count a)])) (\<lambda>ps a.
          (Ok (), a\<lparr>items := map Some (Q ps) @ drop (unat (count a)) (items a)\<rparr>)) a)"

definition neoc_array_reverse :: "(neoc_array, unit) cmd" where
  "neoc_array_reverse a =
     (if count a < 2 then (Ok (), a)
      else if length (items a) < unat (count a) then (Fault, a)
      else (Ok (), a\<lparr>items := swap_ends 0 (unat (count a - 1)) (items a)\<rparr>))"

subsection \<open>Arrays from arrays\<close>

text \<open>The loop over the items of one array that adds to a new one; a failure releases the new array, with the pointers its release
  function is called with.\<close>

definition collect :: "allocator \<Rightarrow> (ptr \<Rightarrow> ptr option) \<Rightarrow> ptr result list \<Rightarrow> neoc_array \<Rightarrow> (neoc_array option \<times> ptr list) result" where
  "collect A sel rs fresh =
     (case add_selected (neoc_array_add A) sel rs fresh of
        (Ok True, a) \<Rightarrow> Ok (Some a, [])
      | (Ok False, a) \<Rightarrow> bind_r (neoc_array_free (Some a)) (\<lambda>ps. Ok (None, ps))
      | _ \<Rightarrow> Fault)"

abbreviation slots_of :: "neoc_array \<Rightarrow> ptr result list" where
  "slots_of a \<equiv> map (read_slot (items a)) [0..<unat (count a)]"

definition neoc_array_map :: "allocator \<Rightarrow> neoc_array option \<Rightarrow> (ptr \<Rightarrow> ptr) option \<Rightarrow> (neoc_array option \<times> ptr list) result" where
  "neoc_array_map A array func =
     (case (array, func) of
        (Some a, Some f) \<Rightarrow>
          (case neoc_array_create_with_capacity A (capacity a) of
             None \<Rightarrow> Ok (None, [])
           | Some fresh \<Rightarrow> collect A (\<lambda>x. Some (f x)) (slots_of a) fresh)
      | _ \<Rightarrow> Ok (None, []))"

definition neoc_array_filter :: "allocator \<Rightarrow> neoc_array option \<Rightarrow> (ptr \<Rightarrow> bool) option \<Rightarrow> (neoc_array option \<times> ptr list) result" where
  "neoc_array_filter A array func =
     (case (array, func) of
        (Some a, Some q) \<Rightarrow>
          (case neoc_array_create A of
             None \<Rightarrow> Ok (None, [])
           | Some fresh \<Rightarrow> collect A (\<lambda>x. if q x then Some x else None) (slots_of a) fresh)
      | _ \<Rightarrow> Ok (None, []))"

definition neoc_array_reduce :: "neoc_array option \<Rightarrow> (ptr \<Rightarrow> ptr \<Rightarrow> ptr) option \<Rightarrow> ptr \<Rightarrow> ptr result" where
  "neoc_array_reduce array func initial =
     (case (array, func) of
        (Some a, Some f) \<Rightarrow> bind_r (map_r (read_slot (items a)) [0..<unat (count a)]) (\<lambda>ps. Ok (foldl f initial ps))
      | _ \<Rightarrow> Ok initial)"

text \<open>The pointers a function is called with.\<close>

definition neoc_array_foreach :: "neoc_array option \<Rightarrow> bool \<Rightarrow> ptr list result" where
  "neoc_array_foreach array func =
     (case array of
        None \<Rightarrow> Ok []
      | Some a \<Rightarrow> if func then map_r (read_slot (items a)) [0..<unat (count a)] else Ok [])"

definition neoc_array_clone :: "allocator \<Rightarrow> neoc_array option \<Rightarrow> (neoc_array option \<times> ptr list) result" where
  "neoc_array_clone A array =
     (case array of
        None \<Rightarrow> Ok (None, [])
      | Some a \<Rightarrow>
          (case neoc_array_create_with_capacity A (capacity a) of
             None \<Rightarrow> Ok (None, [])
           | Some fresh \<Rightarrow> collect A Some (slots_of a) (fresh\<lparr>free_func := free_func a\<rparr>)))"

text \<open>When adding fails, the release function is called on every cloned item, and then once more by \<^verbatim>\<open>neoc_array_free\<close>.\<close>

definition neoc_array_deep_clone :: "allocator \<Rightarrow> neoc_array option \<Rightarrow> (ptr \<Rightarrow> ptr) option \<Rightarrow> (neoc_array option \<times> ptr list) result" where
  "neoc_array_deep_clone A array func =
     (case (array, func) of
        (Some a, Some f) \<Rightarrow>
          (case neoc_array_create_with_capacity A (capacity a) of
             None \<Rightarrow> Ok (None, [])
           | Some fresh \<Rightarrow>
               (case add_selected (neoc_array_add A) (\<lambda>x. Some (f x)) (slots_of a) (fresh\<lparr>free_func := free_func a\<rparr>) of
                  (Ok True, c) \<Rightarrow> Ok (Some c, [])
                | (Ok False, c) \<Rightarrow>
                    bind_r (if free_func c then map_r (read_slot (items c)) [0..<unat (count c)] else Ok []) (\<lambda>ps.
                    bind_r (neoc_array_free (Some c)) (\<lambda>qs. Ok (None, ps @ qs)))
                | _ \<Rightarrow> Fault))
      | _ \<Rightarrow> Ok (None, []))"

definition neoc_array_to_c_array :: "allocator \<Rightarrow> neoc_array option \<Rightarrow> ptr list option result" where
  "neoc_array_to_c_array A array =
     (case array of
        None \<Rightarrow> Ok None
      | Some a \<Rightarrow>
          if count a = 0 then Ok None
          else if neoc_malloc_r A (unat (ptr_bytes (count a))) \<noteq> Ok () then Ok None
          else if length (items a) < ptr_slots (count a) then Fault
          else bind_r (map_r (read_slot (items a)) [0..<ptr_slots (count a)]) (\<lambda>ps. Ok (Some ps)))"

definition neoc_array_from_c_array :: "allocator \<Rightarrow> ptr list option \<Rightarrow> (neoc_array option \<times> ptr list) result" where
  "neoc_array_from_c_array A source =
     (case source of
        None \<Rightarrow> Ok (None, [])
      | Some ps \<Rightarrow>
          if ps = [] then Ok (None, [])
          else
            (case neoc_array_create_with_capacity A (of_nat (length ps)) of
               None \<Rightarrow> Ok (None, [])
             | Some fresh \<Rightarrow> collect A Some (map Ok ps) fresh))"

subsection \<open>Byte buffers\<close>

text \<open>A buffer and the length its caller states; \<open>None\<close> is a null pointer.  The length of the result wraps around.\<close>

definition neoc_byte_array_concat :: "allocator \<Rightarrow> byte list option \<Rightarrow> size_t \<Rightarrow> byte list option \<Rightarrow> size_t \<Rightarrow> byte list option result" where
  "neoc_byte_array_concat A a a_len b b_len =
     (if (a = None \<and> 0 < a_len) \<or> (b = None \<and> 0 < b_len) then Ok None
      else
        let total_len = a_len + b_len in
        if total_len = 0 then Ok None
        else if \<not> A (unat total_len) then Ok None
        else if unat total_len < unat a_len + unat b_len then Fault
        else if (0 < a_len \<and> length (the a) < unat a_len) \<or> (0 < b_len \<and> length (the b) < unat b_len) then Fault
        else Ok (Some ((if 0 < a_len then take (unat a_len) (the a) else []) @ (if 0 < b_len then take (unat b_len) (the b) else []))))"

definition neoc_byte_array_slice :: "allocator \<Rightarrow> byte list option \<Rightarrow> size_t \<Rightarrow> size_t \<Rightarrow> byte list option result" where
  "neoc_byte_array_slice A array start stop =
     (case array of
        None \<Rightarrow> Ok None
      | Some bs \<Rightarrow>
          if stop < start then Ok None
          else if stop - start = 0 then Ok None
          else if \<not> A (unat (stop - start)) then Ok None
          else if length bs < unat start + unat (stop - start) then Fault
          else Ok (Some (take (unat (stop - start)) (drop (unat start) bs))))"

definition neoc_byte_array_equals :: "byte list option \<Rightarrow> size_t \<Rightarrow> byte list option \<Rightarrow> size_t \<Rightarrow> bool result" where
  "neoc_byte_array_equals a a_len b b_len =
     (if a_len \<noteq> b_len then Ok False
      else if a_len = 0 then Ok True
      else
        (case (a, b) of
           (Some xs, Some ys) \<Rightarrow>
             if length xs < unat a_len \<or> length ys < unat b_len then Fault else Ok (take (unat a_len) xs = take (unat a_len) ys)
         | _ \<Rightarrow> Ok False))"

definition neoc_byte_array_reverse :: "byte list option \<Rightarrow> size_t \<Rightarrow> byte list option result" where
  "neoc_byte_array_reverse array len =
     (case array of
        None \<Rightarrow> Ok None
      | Some bs \<Rightarrow>
          if len < 2 then Ok (Some bs)
          else if length bs < unat len then Fault
          else Ok (Some (swap_ends 0 (unat (len - 1)) bs)))"

subsection \<open>The invariant\<close>

definition arr_inv :: "neoc_array \<Rightarrow> bool" where
  "arr_inv a \<longleftrightarrow> 0 < capacity a \<and> 8 * unat (capacity a) < 2 ^ 63 \<and> count a \<le> capacity a
     \<and> length (items a) = unat (capacity a) \<and> filled (unat (count a)) (items a)"

definition elems :: "neoc_array \<Rightarrow> ptr list" where
  "elems a = content (unat (count a)) (items a)"

lemma ptr_small:
  assumes "8 * unat n < 2 ^ 64"
  shows "unat (ptr_bytes n) = 8 * unat n" and "ptr_slots n = unat n"
proof -
  show "unat (ptr_bytes n) = 8 * unat n" using assms by (simp add: ptr_bytes_def unat_word_ariths)
  then show "ptr_slots n = unat n" by (simp add: ptr_slots_def)
qed

lemma length_elems: "arr_inv a \<Longrightarrow> length (elems a) = unat (count a)"
  by (simp add: arr_inv_def elems_def)

lemma arr_slots: "arr_inv a \<Longrightarrow> map (read_slot (items a)) [0..<unat (count a)] = map Ok (elems a)"
  by (simp add: arr_inv_def elems_def read_all)

lemma map_r_id: "map_r f xs = Ok ys \<longleftrightarrow> map f xs = map Ok ys"
  by (induction xs arbitrary: ys) (auto simp: bind_r_Ok_iff)

lemma arr_read_all: "arr_inv a \<Longrightarrow> map_r (read_slot (items a)) [0..<unat (count a)] = Ok (elems a)"
  by (simp add: map_r_id arr_slots del: map_map)

lemma create_inv:
  assumes "neoc_array_create_with_capacity A cap = Some a" and "bounded_blocks A" and "8 * unat cap < 2 ^ 64"
  shows "arr_inv a" and "elems a = []" and "count a = 0" and "capacity a = cap" and "free_func a = False"
proof -
  have "0 < unat cap" "A (8 * unat cap)"
    using assms(1) ptr_small [OF assms(3)] by (auto simp: neoc_array_create_with_capacity_def neoc_malloc_r_def malloc_r_def split: if_splits)
  with assms ptr_small [OF assms(3)] show "arr_inv a" "elems a = []" "count a = 0" "capacity a = cap" "free_func a = False"
    by (auto simp: neoc_array_create_with_capacity_def arr_inv_def elems_def bounded_blocks_def word_gt_0 unat_gt_0 split: if_splits)
qed

lemma double_small: "8 * unat c < 2 ^ 63 \<Longrightarrow> unat (c * 2 :: size_t) = 2 * unat c"
  by (simp add: unat_word_ariths)

text \<open>There is room for one more item, or memory for twice the block; and the capacity after making room.\<close>

definition has_room :: "allocator \<Rightarrow> nat \<Rightarrow> nat \<Rightarrow> bool" where
  "has_room A n cap \<longleftrightarrow> n < cap \<or> A (16 * cap)"

definition grown :: "nat \<Rightarrow> nat \<Rightarrow> nat" where
  "grown n cap = (if n < cap then cap else 2 * cap)"

lemma grow_if_full_returns:
  assumes "arr_inv a" and "bounded_blocks A"
  shows "\<not> has_room A (unat (count a)) (unat (capacity a)) \<and> grow_if_full A a = (Ok False, a)
    \<or> has_room A (unat (count a)) (unat (capacity a))
      \<and> (\<exists>a'. grow_if_full A a = (Ok True, a') \<and> arr_inv a' \<and> elems a' = elems a \<and> count a' = count a \<and> count a' < capacity a' \<and> free_func a' = free_func a
           \<and> unat (capacity a') = grown (unat (count a)) (unat (capacity a)))"
proof (cases "capacity a \<le> count a")
  case True
  then have full: "count a = capacity a" using assms(1) by (simp add: arr_inv_def)
  have c: "8 * unat (capacity a) < 2 ^ 63" "0 < unat (capacity a)" using assms(1) by (auto simp: arr_inv_def word_less_nat_alt)
  then have b: "unat (ptr_bytes (capacity a * 2)) = 16 * unat (capacity a)" "ptr_slots (capacity a * 2) = 2 * unat (capacity a)"
    using double_small [OF c(1)] ptr_small [of "capacity a * 2"] by simp_all
  show ?thesis
  proof (cases "A (unat (ptr_bytes (capacity a * 2)))")
    case granted: True
    let ?a = "a\<lparr>items := resize_slots (2 * unat (capacity a)) (items a), capacity := capacity a * 2\<rparr>"
    have nz: "ptr_bytes (capacity a * 2) \<noteq> 0" using b(1) c(2) by auto
    have "16 * unat (capacity a) < 2 ^ 61" using granted assms(2) unfolding b(1) bounded_blocks_def by blast
    moreover have "unat (capacity a) < unat (capacity a * 2)" using double_small [OF c(1)] c(2) by simp
    ultimately have "arr_inv ?a \<and> elems ?a = elems a \<and> count ?a < capacity ?a \<and> unat (capacity ?a) = grown (unat (count a)) (unat (capacity a))"
      using assms(1) full double_small [OF c(1)] resize_filled [of "unat (count a)" "items a" "2 * unat (capacity a)"]
      by (simp add: arr_inv_def elems_def word_less_nat_alt word_le_nat_alt grown_def)
    moreover have "grow_if_full A a = (Ok True, ?a)"
      using True granted nz b(2) by (simp add: grow_if_full_def neoc_array_grow_def Let_def)
    moreover have "has_room A (unat (count a)) (unat (capacity a))" using granted b(1) by (simp add: has_room_def)
    ultimately show ?thesis by auto
  next
    case refused: False
    have "ptr_bytes (capacity a * 2) \<noteq> 0" using b(1) c(2) by auto
    with True refused b(1) show ?thesis by (simp add: grow_if_full_def neoc_array_grow_def has_room_def word_le_nat_alt Let_def)
  qed
qed (use assms(1) in \<open>simp add: grow_if_full_def has_room_def grown_def word_less_nat_alt word_le_nat_alt\<close>)

lemma put_end:
  assumes "arr_inv a" and "count a < capacity a"
  obtains a' where "then_c (put_item (count a) x) (then_c (\<lambda>a. (Ok (), a\<lparr>count := count a + 1\<rparr>)) (return_c True)) a = (Ok True, a')"
    and "arr_inv a'" and "elems a' = elems a @ [x]" and "free_func a' = free_func a" and "capacity a' = capacity a" and "count a' = count a + 1"
proof -
  have lt: "unat (count a) < length (items a)" using assms by (simp add: arr_inv_def word_less_nat_alt)
  from assms(1) have "filled (unat (count a)) (items a)" by (simp add: arr_inv_def)
  from this lt obtain xs where xs: "write_slot (unat (count a)) x (items a) = Ok xs" "length xs = length (items a)"
    "filled (Suc (unat (count a))) xs" "content (Suc (unat (count a))) xs = content (unat (count a)) (items a) @ [x]"
    by (rule write_append)
  show thesis
    using xs assms unat_inc [OF assms(2)]
    by (intro that [of "a\<lparr>items := xs, count := count a + 1\<rparr>"])
       (simp_all add: put_item_def then_c_def bind_c_def cmd_eval arr_inv_def elems_def word_le_nat_alt word_less_nat_alt)
qed

lemma add_cases:
  assumes "arr_inv a" and "bounded_blocks A"
  obtains (refused) "neoc_array_add A x a = (Ok False, a)" and "grow_if_full A a = (Ok False, a)" and "\<not> has_room A (unat (count a)) (unat (capacity a))"
  | (added) a' where "neoc_array_add A x a = (Ok True, a')" and "arr_inv a'" and "elems a' = elems a @ [x]" and "free_func a' = free_func a"
      and "count a' = count a + 1" and "count a < capacity a \<Longrightarrow> capacity a' = capacity a"
      and "has_room A (unat (count a)) (unat (capacity a))" and "unat (capacity a') = grown (unat (count a)) (unat (capacity a))"
  using grow_if_full_returns [OF assms]
proof (elim disjE exE conjE)
  fix g
  assume g: "grow_if_full A a = (Ok True, g)" "arr_inv g" "elems g = elems a" "count g = count a" "count g < capacity g" "free_func g = free_func a"
    "has_room A (unat (count a)) (unat (capacity a))" "unat (capacity g) = grown (unat (count a)) (unat (capacity a))"
  obtain a' where "then_c (put_item (count g) x) (then_c (\<lambda>a. (Ok (), a\<lparr>count := count a + 1\<rparr>)) (return_c True)) g = (Ok True, a')"
    and "arr_inv a'" and "elems a' = elems g @ [x]" and "free_func a' = free_func g" and "capacity a' = capacity g" and "count a' = count g + 1"
    using g(2,5) by (rule put_end)
  moreover have "g = a" if "count a < capacity a" using g(1) that by (simp add: grow_if_full_def not_le split: if_splits)
  ultimately show thesis using g by (intro added [of a']) (simp_all add: neoc_array_add_def bind_c_def)
qed (simp_all add: refused neoc_array_add_def bind_c_def cmd_eval)

text \<open>There is room for \<open>n\<close> more items: in the block, or because the allocations for a block twice as large are granted.\<close>

definition arr_room :: "allocator \<Rightarrow> nat \<Rightarrow> neoc_array \<Rightarrow> bool" where
  "arr_room A n a \<longleftrightarrow> unat (count a) + n \<le> unat (capacity a) \<or> grants A (16 * (unat (count a) + n))"

lemma add_room:
  assumes "arr_inv a" and "bounded_blocks A" and "arr_room A (Suc n) a"
  shows "\<exists>a'. neoc_array_add A x a = (Ok True, a') \<and> arr_room A n a'"
  using assms(1,2)
proof (rule add_cases [of a A x])
  assume "grow_if_full A a = (Ok False, a)"
  then have full: "count a = capacity a" and no: "ptr_bytes (capacity a * 2) = 0 \<or> \<not> A (unat (ptr_bytes (capacity a * 2)))"
    using assms(1) by (auto simp: grow_if_full_def neoc_array_grow_def arr_inv_def Let_def split: if_splits)
  have c: "8 * unat (capacity a) < 2 ^ 63" "0 < unat (capacity a)" using assms(1) by (auto simp: arr_inv_def word_less_nat_alt)
  then have b: "unat (ptr_bytes (capacity a * 2)) = 16 * unat (capacity a)"
    using double_small [OF c(1)] ptr_small [of "capacity a * 2"] by simp
  have "grants A (16 * (unat (count a) + Suc n))" using assms(3) full by (simp add: arr_room_def)
  then have "A (16 * unat (capacity a))" using full by (auto intro: grantsD)
  with no b c(2) show ?thesis by auto
next
  fix a'
  assume a': "neoc_array_add A x a = (Ok True, a')" "count a' = count a + 1" "arr_inv a'" "elems a' = elems a @ [x]"
    "count a < capacity a \<Longrightarrow> capacity a' = capacity a"
  have "unat (count a') = Suc (unat (count a))"
    using length_elems [OF a'(3)] length_elems [OF assms(1)] a'(4) by simp
  then have sum: "unat (count a') + n = unat (count a) + Suc n" by simp
  have "unat (count a') + n \<le> unat (capacity a')" if "unat (count a) + Suc n \<le> unat (capacity a)"
    using that a'(5) sum by (simp add: word_less_nat_alt)
  then have "arr_room A n a'" using assms(3) unfolding arr_room_def sum by blast
  with a'(1) show ?thesis by blast
qed

interpretation pa: dynamic_array "\<lambda>a. bounded_blocks A \<and> arr_inv a" elems "arr_room A" "neoc_array_add A" for A
proof
  fix s x
  assume "bounded_blocks A \<and> arr_inv s"
  then have "arr_inv s" "bounded_blocks A" by simp_all
  then show "\<exists>b s'. neoc_array_add A x s = (Ok b, s') \<and> (bounded_blocks A \<and> arr_inv s') \<and> elems s' = (if b then elems s @ [x] else elems s)"
    by (rule add_cases [of s A x]) (use \<open>arr_inv s\<close> \<open>bounded_blocks A\<close> in auto)
next
  fix s n x
  assume "bounded_blocks A \<and> arr_inv s" "arr_room A (Suc n) s"
  then show "\<exists>s'. neoc_array_add A x s = (Ok True, s') \<and> arr_room A n s'" by (intro add_room) simp_all
qed

subsection \<open>Operations and lists\<close>

datatype arr_op = Add ptr | Insert size_t ptr | Remove size_t | Remove_item ptr | Set size_t ptr | Clear | Sort | Reverse

text \<open>An operation as a command that reports whether it took place and the pointers it hands out: the item removed, or the items given to the release function.\<close>

definition run_arr :: "allocator \<Rightarrow> (ptr list \<Rightarrow> ptr list) \<Rightarrow> arr_op \<Rightarrow> (neoc_array, bool \<times> ptr list) cmd" where
  "run_arr A Q c =
     (case c of
        Add x \<Rightarrow> bind_c (neoc_array_add A x) (\<lambda>ok. return_c (ok, []))
      | Insert i x \<Rightarrow> bind_c (neoc_array_insert A i x) (\<lambda>ok. return_c (ok, []))
      | Remove i \<Rightarrow> bind_c (neoc_array_remove i) (\<lambda>item. return_c (True, [item]))
      | Remove_item x \<Rightarrow> bind_c (neoc_array_remove_item x) (\<lambda>ok. return_c (ok, []))
      | Set i x \<Rightarrow> neoc_array_set i x
      | Clear \<Rightarrow> bind_c neoc_array_clear (\<lambda>ps. return_c (True, ps))
      | Sort \<Rightarrow> then_c (neoc_array_sort Q) (return_c (True, []))
      | Reverse \<Rightarrow> then_c neoc_array_reverse (return_c (True, [])))"

text \<open>
  The same operation on a list with a capacity and a flag that says whether there is a release function.  Adding and inserting fail exactly when the list fills the
  capacity and memory for twice the capacity is refused, or the position is behind the end; removing at a position behind the end hands out the null
  pointer; removing an item and setting fail when there is nothing to remove or set.
\<close>

definition list_arr :: "allocator \<Rightarrow> (ptr list \<Rightarrow> ptr list) \<Rightarrow> arr_op \<Rightarrow> ptr list \<times> nat \<times> bool \<Rightarrow> (bool \<times> ptr list) \<times> ptr list \<times> nat \<times> bool" where
  "list_arr A Q c v =
     (case v of (xs, cap, f) \<Rightarrow>
       (case c of
          Add x \<Rightarrow> if has_room A (length xs) cap then ((True, []), xs @ [x], grown (length xs) cap, f) else ((False, []), v)
        | Insert i x \<Rightarrow>
            if unat i \<le> length xs \<and> has_room A (length xs) cap
            then ((True, []), take (unat i) xs @ x # drop (unat i) xs, grown (length xs) cap, f) else ((False, []), v)
        | Remove i \<Rightarrow> ((True, [if unat i < length xs then xs ! unat i else None]), take (unat i) xs @ drop (unat i + 1) xs, cap, f)
        | Remove_item x \<Rightarrow> ((x \<in> set xs, []), remove1 x xs, cap, f)
        | Set i x \<Rightarrow>
            if unat i < length xs then ((True, if f \<and> xs ! unat i \<noteq> None then [xs ! unat i] else []), xs[unat i := x], cap, f) else ((False, []), v)
        | Clear \<Rightarrow> ((True, if f then filter (\<lambda>p. p \<noteq> None) xs else []), [], cap, f)
        | Sort \<Rightarrow> ((True, []), if length xs < 2 then xs else Q xs, cap, f)
        | Reverse \<Rightarrow> ((True, []), rev xs, cap, f)))"

definition arr_view :: "neoc_array \<Rightarrow> ptr list \<times> nat \<times> bool" where
  "arr_view a = (elems a, unat (capacity a), free_func a)"

text \<open>The contract: the operation returns what the list operation returns, keeps the invariant, and leaves the array the list operation leaves.\<close>

definition acts :: "(bool \<times> ptr list) result \<times> neoc_array \<Rightarrow> (bool \<times> ptr list) \<times> ptr list \<times> nat \<times> bool \<Rightarrow> bool" where
  "acts rs spec \<longleftrightarrow> (\<exists>a'. rs = (Ok (fst spec), a') \<and> arr_inv a' \<and> arr_view a' = snd spec)"

lemma add_acts:
  assumes "arr_inv a" and "bounded_blocks A"
  shows "acts (run_arr A Q (Add x) a) (list_arr A Q (Add x) (arr_view a))"
  using assms
proof (rule add_cases [of a A x])
  assume "neoc_array_add A x a = (Ok False, a)" "\<not> has_room A (unat (count a)) (unat (capacity a))"
  then show ?thesis using assms(1) length_elems [OF assms(1)] by (auto simp: acts_def run_arr_def list_arr_def arr_view_def bind_c_def cmd_eval)
next
  fix a'
  assume "neoc_array_add A x a = (Ok True, a')" "arr_inv a'" "elems a' = elems a @ [x]" "free_func a' = free_func a"
    "has_room A (unat (count a)) (unat (capacity a))" "unat (capacity a') = grown (unat (count a)) (unat (capacity a))"
  then show ?thesis using length_elems [OF assms(1)] by (auto simp: acts_def run_arr_def list_arr_def arr_view_def bind_c_def cmd_eval)
qed

lemma insert_acts:
  assumes "arr_inv a" and "bounded_blocks A"
  shows "acts (run_arr A Q (Insert i x) a) (list_arr A Q (Insert i x) (arr_view a))"
proof (cases "count a < i")
  case True
  with assms(1) length_elems [OF assms(1)] show ?thesis
    by (auto simp: acts_def run_arr_def list_arr_def arr_view_def neoc_array_insert_def bind_c_def cmd_eval word_less_nat_alt)
next
  case False
  then have le: "unat i \<le> length (elems a)" using length_elems [OF assms(1)] by (simp add: word_less_nat_alt)
  from grow_if_full_returns [OF assms] show ?thesis
  proof (elim disjE exE conjE)
    fix g
    assume g: "grow_if_full A a = (Ok True, g)" "arr_inv g" "elems g = elems a" "count g = count a" "count g < capacity g" "free_func g = free_func a"
      "has_room A (unat (count a)) (unat (capacity a))" "unat (capacity g) = grown (unat (count a)) (unat (capacity a))"
    let ?n = "unat (count g)"
    have fl: "filled ?n (items g)" and lt: "?n < length (items g)" and le: "unat i \<le> ?n"
      using g(2,4,5) False by (simp_all add: arr_inv_def word_less_nat_alt)
    then obtain ys where ys: "bind_r (memmove_slots (unat i + 1) (unat i) (?n - unat i) (items g)) (write_slot (unat i) x) = Ok ys"
      "length ys = length (items g)" "filled (Suc ?n) ys" "content (Suc ?n) ys = take (unat i) (elems g) @ x # drop (unat i) (elems g)"
      unfolding elems_def by (rule shift_up_write)
    let ?g = "g\<lparr>items := ys, count := count g + 1\<rparr>"
    have i1: "unat (i + 1) = unat i + 1" using False g(4,5) unat_inc [of i "capacity g"] by simp
    have cnt: "unat (count g - i) = ?n - unat i" using False g(4) by (simp add: unat_sub not_less)
    moreover have "8 * (?n - unat i) < 2 ^ 64" using g(2,5) by (auto simp: arr_inv_def word_less_nat_alt)
    ultimately have slots: "ptr_slots (count g - i) = ?n - unat i" by (simp add: ptr_small)
    have "then_c (if i < count g then move_items (i + 1) i (count g - i) else return_c ())
        (then_c (put_item i x) (then_c (\<lambda>a. (Ok (), a\<lparr>count := count a + 1\<rparr>)) (return_c True))) g = (Ok True, ?g)"
    proof (cases "i < count g")
      case True
      with ys(1) i1 slots show ?thesis
        by (auto simp: then_c_def bind_c_def move_items_def put_item_def cmd_eval bind_r_Ok_iff)
    next
      case no: False
      with False g(4) have "i = count g" by simp
      with ys(1) show ?thesis by (auto simp: then_c_def bind_c_def put_item_def cmd_eval memmove_slots_def split: if_splits)
    qed
    then have "neoc_array_insert A i x a = (Ok True, ?g)" using False g(1) by (simp add: neoc_array_insert_def bind_c_def)
    moreover have "arr_inv ?g" using g(2,5) ys unat_inc [OF g(5)] by (simp add: arr_inv_def word_le_nat_alt word_less_nat_alt)
    moreover have "arr_view ?g = (take (unat i) (elems a) @ x # drop (unat i) (elems a), grown (length (elems a)) (unat (capacity a)), free_func a)"
      using ys(4) g(3,6,8) unat_inc [OF g(5)] length_elems [OF assms(1)] by (simp add: arr_view_def elems_def)
    ultimately show ?thesis using le g(4,7) length_elems [OF assms(1)]
      by (auto simp: acts_def run_arr_def list_arr_def arr_view_def bind_c_def cmd_eval)
  qed (use assms(1) False length_elems [OF assms(1)] in
    \<open>auto simp: acts_def run_arr_def list_arr_def arr_view_def neoc_array_insert_def bind_c_def cmd_eval\<close>)
qed

lemma remove_acts:
  assumes "arr_inv a" and "i < count a"
  shows "\<exists>a'. neoc_array_remove i a = (Ok (elems a ! unat i), a') \<and> arr_inv a' \<and> elems a' = take (unat i) (elems a) @ drop (unat i + 1) (elems a)
    \<and> capacity a' = capacity a \<and> free_func a' = free_func a"
proof -
  let ?n = "unat (count a)"
  have fl: "filled ?n (items a)" and i: "unat i < ?n" using assms by (simp_all add: arr_inv_def word_less_nat_alt)
  then obtain ys where ys: "memmove_slots (unat i) (unat i + 1) (?n - unat i - 1) (items a) = Ok ys" "length ys = length (items a)"
    "filled (?n - 1) ys" "content (?n - 1) ys = take (unat i) (elems a) @ drop (unat i + 1) (elems a)"
    unfolding elems_def by (rule shift_down)
  have pred: "unat (count a - 1) = ?n - 1" using assms(2) by (intro unat_pred) (auto simp: word_less_nat_alt)
  have i1: "unat (i + 1) = unat i + 1" using unat_inc [OF assms(2)] by simp
  have slots: "ptr_slots (count a - i - 1) = ?n - unat i - 1"
    using assms i by (subst ptr_small(2)) (auto simp: arr_inv_def unat_sub word_less_nat_alt word_le_nat_alt unat_pred)
  have rd: "read_slot (items a) (unat i) = Ok (elems a ! unat i)" using read_filled [OF fl i] by (simp add: elems_def)
  define xs where "xs = (if i < count a - 1 then ys else items a)"
  have "neoc_array_remove i a = (Ok (elems a ! unat i), a\<lparr>items := xs, count := count a - 1\<rparr>)"
    using assms(2) ys(1) rd i1 slots
    by (auto simp: neoc_array_remove_def bind_c_def then_c_def move_items_def cmd_eval xs_def)
  moreover have "xs = ys" if "\<not> i < count a - 1"
  proof -
    have "unat i = ?n - 1" using that i pred by (simp add: word_less_nat_alt)
    with that ys(1) i show ?thesis by (auto simp: xs_def memmove_slots_def split: if_splits)
  qed
  then have "xs = ys" by (auto simp: xs_def)
  moreover have "arr_inv (a\<lparr>items := ys, count := count a - 1\<rparr>)" using assms ys pred by (auto simp: arr_inv_def word_le_nat_alt)
  ultimately show ?thesis using ys(4) pred by (simp add: elems_def)
qed

lemma find_slot_filled:
  assumes "filled n xs"
  shows "set is \<subseteq> {..<n} \<Longrightarrow> sorted is \<Longrightarrow> find_slot xs x is =
    (case find (\<lambda>i. content n xs ! i = x) is of None \<Rightarrow> Ok (- 1) | Some i \<Rightarrow> Ok (of_nat i))"
  by (induction "is") (simp_all add: read_filled [OF assms])

lemma takeWhile_short: "x \<in> set xs \<Longrightarrow> length (takeWhile (\<lambda>y. y \<noteq> x) xs) < length xs"
  by (induction xs) auto

lemma index_of_eq:
  assumes "arr_inv a"
  shows "neoc_array_index_of a x = Ok (if x \<in> set (elems a) then of_nat (length (takeWhile (\<lambda>y. y \<noteq> x) (elems a))) else - 1)"
proof -
  have fl: "filled (unat (count a)) (items a)" using assms by (simp add: arr_inv_def)
  have "neoc_array_index_of a x = (case find (\<lambda>i. elems a ! i = x) [0..<length (elems a)] of None \<Rightarrow> Ok (- 1) | Some i \<Rightarrow> Ok (of_nat i))"
    using find_slot_filled [OF fl, of "[0..<unat (count a)]" x] length_elems [OF assms]
    by (simp add: neoc_array_index_of_def elems_def atLeast0LessThan)
  moreover have "find (\<lambda>i. elems a ! i = x) [0..<length (elems a)] =
      (if x \<in> set (elems a) then Some (length (takeWhile (\<lambda>y. y \<noteq> x) (elems a))) else None)"
  proof (cases "x \<in> set (elems a)")
    case True
    let ?k = "length (takeWhile (\<lambda>y. y \<noteq> x) (elems a))"
    have k: "?k < length (elems a)" using True by (rule takeWhile_short)
    moreover have "elems a ! ?k = x" using nth_length_takeWhile [OF k] by simp
    moreover have "elems a ! ([0..<length (elems a)] ! j) \<noteq> x" if "j < ?k" for j
      using that k by simp (metis (mono_tags, lifting) nth_mem set_takeWhileD takeWhile_nth)
    ultimately have "find (\<lambda>i. elems a ! i = x) [0..<length (elems a)] = Some ?k"
      unfolding find_Some_iff by (intro exI [of _ ?k]) simp
    with True show ?thesis by simp
  qed (auto simp: find_None_iff)
  ultimately show ?thesis by simp
qed

lemma remove1_split: "x \<in> set xs \<Longrightarrow> remove1 x xs = take (length (takeWhile (\<lambda>y. y \<noteq> x) xs)) xs @ drop (Suc (length (takeWhile (\<lambda>y. y \<noteq> x) xs))) xs"
  by (induction xs) auto

lemma small_int:
  assumes "k < 2 ^ 31"
  shows "0 \<le> sint (of_nat k :: 32 word)" and "(scast (of_nat k :: 32 word) :: size_t) = of_nat k"
proof -
  have "sint (of_nat k :: 32 word) = int k" using assms by (simp add: signed_of_nat signed_take_bit_int_eq_self)
  moreover have "(scast (of_nat k :: 32 word) :: size_t) = of_int (sint (of_nat k :: 32 word))" by (rule of_int_sint [symmetric])
  ultimately show "0 \<le> sint (of_nat k :: 32 word)" "(scast (of_nat k :: 32 word) :: size_t) = of_nat k" by simp_all
qed

lemma remove_item_acts:
  assumes "arr_inv a" and "unat (count a) < 2 ^ 31"
  shows "acts (run_arr A Q (Remove_item x) a) (list_arr A Q (Remove_item x) (arr_view a))"
proof (cases "x \<in> set (elems a)")
  case True
  let ?k = "length (takeWhile (\<lambda>y. y \<noteq> x) (elems a))"
  have k: "?k < unat (count a)" using takeWhile_short [OF True] length_elems [OF assms(1)] by simp
  then have u: "unat (of_nat ?k :: size_t) = ?k" using assms(2) by (simp add: unat_of_nat take_bit_nat_eq_self)
  then have "(of_nat ?k :: size_t) < count a" using k by (simp add: word_less_nat_alt)
  from remove_acts [OF assms(1) this] obtain a' where "neoc_array_remove (of_nat ?k) a = (Ok (elems a ! ?k), a')" "arr_inv a'"
    "elems a' = remove1 x (elems a)" "capacity a' = capacity a" "free_func a' = free_func a" using u remove1_split [OF True] by auto
  with small_int [of ?k] k assms(2) index_of_eq [OF assms(1)] True show ?thesis
    by (simp add: acts_def run_arr_def list_arr_def arr_view_def neoc_array_remove_item_def bind_c_def then_c_def cmd_eval)
next
  case False
  with index_of_eq [OF assms(1), of x] assms(1) show ?thesis
    by (simp add: acts_def run_arr_def list_arr_def arr_view_def neoc_array_remove_item_def bind_c_def cmd_eval remove1_idem)
qed

lemma set_acts:
  assumes "arr_inv a"
  shows "acts (run_arr A Q (Set i x) a) (list_arr A Q (Set i x) (arr_view a))"
proof (cases "count a \<le> i")
  case True
  with assms length_elems [OF assms] show ?thesis
    by (auto simp: acts_def run_arr_def list_arr_def arr_view_def neoc_array_set_def cmd_eval word_le_nat_alt)
next
  case False
  then have fl: "filled (unat (count a)) (items a)" and i: "unat i < unat (count a)" using assms by (simp_all add: arr_inv_def word_less_nat_alt not_le)
  from fl i obtain ys where ys: "write_slot (unat i) x (items a) = Ok ys" "length ys = length (items a)" "filled (unat (count a)) ys"
    "content (unat (count a)) ys = (elems a)[unat i := x]" unfolding elems_def by (rule write_inside)
  have "read_slot (items a) (unat i) = Ok (elems a ! unat i)" using read_filled [OF fl i] by (simp add: elems_def)
  then have "neoc_array_set i x a = (Ok (True, if free_func a \<and> elems a ! unat i \<noteq> None then [elems a ! unat i] else []), a\<lparr>items := ys\<rparr>)"
    using False ys(1) by (simp add: neoc_array_set_def bind_c_def then_c_def cmd_eval put_item_def)
  moreover have "arr_inv (a\<lparr>items := ys\<rparr>)" "elems (a\<lparr>items := ys\<rparr>) = (elems a)[unat i := x]" using assms ys by (simp_all add: arr_inv_def elems_def)
  ultimately show ?thesis using i length_elems [OF assms] by (simp add: acts_def run_arr_def list_arr_def arr_view_def)
qed

lemma items_replaced:
  assumes "arr_inv a" and "length ys = unat (count a)" and "items a' = map Some ys @ drop (unat (count a)) (items a)"
    and "count a' = count a" and "capacity a' = capacity a"
  shows "arr_inv a' \<and> elems a' = ys"
proof -
  have "unat (count a) \<le> length (items a)" using assms(1) by (simp add: arr_inv_def filled_def)
  then show ?thesis using assms by (simp add: arr_inv_def elems_def)
qed

lemma sort_acts:
  assumes "arr_inv a" and "\<And>xs. length (Q xs) = length xs"
  shows "acts (run_arr A Q Sort a) (list_arr A Q Sort (arr_view a))"
proof (cases "count a < 2")
  case True
  with assms(1) length_elems [OF assms(1)] show ?thesis
    by (simp add: acts_def run_arr_def list_arr_def arr_view_def neoc_array_sort_def then_c_def bind_c_def cmd_eval word_less_nat_alt)
next
  case False
  let ?a = "a\<lparr>items := map Some (Q (elems a)) @ drop (unat (count a)) (items a)\<rparr>"
  have "arr_inv ?a \<and> elems ?a = Q (elems a)" using assms length_elems [OF assms(1)] by (intro items_replaced) simp_all
  with False length_elems [OF assms(1)] arr_read_all [OF assms(1)] show ?thesis
    by (simp add: acts_def run_arr_def list_arr_def arr_view_def neoc_array_sort_def then_c_def bind_c_def cmd_eval word_less_nat_alt)
qed

lemma reverse_acts:
  assumes "arr_inv a"
  shows "acts (run_arr A Q Reverse a) (list_arr A Q Reverse (arr_view a))"
proof (cases "count a < 2")
  case True
  then have "length (elems a) < 2" using length_elems [OF assms] by (simp add: word_less_nat_alt)
  then have "rev (elems a) = elems a" by (cases "elems a" rule: remdups_adj.cases) auto
  with True assms show ?thesis by (simp add: acts_def run_arr_def list_arr_def arr_view_def neoc_array_reverse_def then_c_def bind_c_def cmd_eval)
next
  case False
  let ?n = "unat (count a)"
  have fl: "filled ?n (items a)" and len: "?n \<le> length (items a)" and n: "2 \<le> ?n" using assms False by (simp_all add: arr_inv_def filled_def word_less_nat_alt)
  then have "swap_ends 0 (unat (count a - 1)) (items a) = map Some (rev (elems a)) @ drop ?n (items a)"
    using swap_ends_rev [of ?n "items a"] unat_pred [of "count a"] by (simp add: filled_take elems_def rev_map word_less_nat_alt)
  moreover from this have "arr_inv (a\<lparr>items := swap_ends 0 (unat (count a - 1)) (items a)\<rparr>) \<and> elems (a\<lparr>items := swap_ends 0 (unat (count a - 1)) (items a)\<rparr>) = rev (elems a)"
    using assms length_elems [OF assms] by (intro items_replaced) simp_all
  ultimately show ?thesis using False len
    by (simp add: acts_def run_arr_def list_arr_def arr_view_def neoc_array_reverse_def then_c_def bind_c_def cmd_eval)
qed

lemma clear_acts:
  assumes "arr_inv a"
  shows "acts (run_arr A Q Clear a) (list_arr A Q Clear (arr_view a))"
proof -
  have "released a = Ok (if free_func a then filter (\<lambda>p. p \<noteq> None) (elems a) else [])" using arr_read_all [OF assms] by (simp add: released_def)
  moreover have "arr_inv (a\<lparr>count := 0\<rparr>)" "elems (a\<lparr>count := 0\<rparr>) = []" using assms by (simp_all add: arr_inv_def elems_def)
  ultimately show ?thesis by (simp add: acts_def run_arr_def list_arr_def arr_view_def neoc_array_clear_def then_c_def bind_c_def cmd_eval)
qed

lemma remove_at_acts:
  assumes "arr_inv a"
  shows "acts (run_arr A Q (Remove i) a) (list_arr A Q (Remove i) (arr_view a))"
proof (cases "i < count a")
  case True
  from remove_acts [OF assms this] True length_elems [OF assms] show ?thesis
    by (auto simp: acts_def run_arr_def list_arr_def arr_view_def bind_c_def cmd_eval word_less_nat_alt)
next
  case False
  then have "neoc_array_remove i a = (Ok None, a)" by (simp add: neoc_array_remove_def not_less)
  with False assms length_elems [OF assms] show ?thesis
    by (auto simp: acts_def run_arr_def list_arr_def arr_view_def bind_c_def cmd_eval word_less_nat_alt)
qed

lemma run_arr_acts:
  assumes "bounded_blocks A" and "\<And>xs. length (Q xs) = length xs" and "arr_inv a" and "unat (count a) < 2 ^ 31"
  shows "acts (run_arr A Q c a) (list_arr A Q c (arr_view a))"
  by (cases c) (simp_all add: assms add_acts insert_acts remove_at_acts remove_item_acts [OF assms(3,4)] set_acts sort_acts reverse_acts clear_acts)

text \<open>A sequence of operations, with what each reported.\<close>

fun run_arrs :: "allocator \<Rightarrow> (ptr list \<Rightarrow> ptr list) \<Rightarrow> arr_op list \<Rightarrow> (neoc_array, (bool \<times> ptr list) list) cmd" where
  "run_arrs A Q [] = return_c []"
| "run_arrs A Q (c # cs) = bind_c (run_arr A Q c) (\<lambda>r. bind_c (run_arrs A Q cs) (\<lambda>rs. return_c (r # rs)))"

fun list_arrs ::
  "allocator \<Rightarrow> (ptr list \<Rightarrow> ptr list) \<Rightarrow> arr_op list \<Rightarrow> ptr list \<times> nat \<times> bool \<Rightarrow> (bool \<times> ptr list) list \<times> ptr list \<times> nat \<times> bool" where
  "list_arrs A Q [] v = ([], v)"
| "list_arrs A Q (c # cs) v = (let (r, v) = list_arr A Q c v; (rs, v) = list_arrs A Q cs v in (r # rs, v))"

lemma length_list_arr: "(\<And>xs. length (Q xs) = length xs) \<Longrightarrow> length (fst (snd (list_arr A Q c v))) \<le> Suc (length (fst v))"
  by (cases v; cases c) (auto simp: list_arr_def length_remove1 min_def)

text \<open>C38.  The array of pointers is a list with a capacity: from any array that satisfies the invariant (a new one does), whatever sequence of operations a client runs on
  it, each operation reports what the same operation on a list reports and leaves the same items: adding succeeds exactly when there is room or memory
  for twice the block, inserting moreover when the position is in range, removing hands out the item, setting and clearing hand the old items to the
  release function.  No operation leaves the block.  The items and the operations must be fewer than \<open>2 ^ 31\<close> together, because
  \<^verbatim>\<open>neoc_array_index_of\<close> returns an \<^verbatim>\<open>int\<close>; what \<^verbatim>\<open>qsort\<close> returns is only assumed to have the same length.\<close>

theorem array_refines_list:
  assumes "bounded_blocks A" and "\<And>xs. length (Q xs) = length xs" and "arr_inv a" and "length (elems a) + length cs < 2 ^ 31"
  shows "\<exists>a'. run_arrs A Q cs a = (Ok (fst (list_arrs A Q cs (arr_view a))), a') \<and> arr_inv a' \<and> arr_view a' = snd (list_arrs A Q cs (arr_view a))"
  using assms(3,4)
proof (induction cs arbitrary: a)
  case (Cons c cs)
  have "unat (count a) < 2 ^ 31" using Cons.prems length_elems by simp
  from run_arr_acts [where Q = Q and c = c, OF assms(1,2) Cons.prems(1) this] obtain t where
    t: "run_arr A Q c a = (Ok (fst (list_arr A Q c (arr_view a))), t)" "arr_inv t" "arr_view t = snd (list_arr A Q c (arr_view a))"
    unfolding acts_def by blast
  have "length (fst (snd (list_arr A Q c (arr_view a)))) \<le> Suc (length (elems a))"
    using length_list_arr [OF assms(2), of A c "arr_view a"] by (simp add: arr_view_def)
  then have "length (elems t) + length cs < 2 ^ 31" using Cons.prems(2) unfolding t(3) [symmetric] by (simp add: arr_view_def)
  from Cons.IH [OF t(2) this] t show ?case by (auto simp: bind_c_def cmd_eval split_beta Let_def)
qed (simp add: cmd_eval)

definition three_slots :: neoc_array where
  "three_slots = \<lparr>items = [Some (Some 10), Some (Some 20), None], count = 2, capacity = 3, free_func = False\<rparr>"

lemma three_slots_inv: "arr_inv three_slots" "elems three_slots = [Some 10, Some 20]"
  by (simp_all add: three_slots_def arr_inv_def elems_def filled_def content_def)

text \<open>The witness runs with an allocator that refuses the growth of the block: the second of two additions fails.\<close>

theorem array_refines_list_witness:
  "\<exists>a'. run_arrs (\<lambda>_. False) rev [Insert 1 (Some 15), Add (Some 30), Reverse, Remove 0] three_slots
       = (Ok [(True, []), (False, []), (True, []), (True, [Some 20])], a')
     \<and> arr_inv a' \<and> elems a' = [Some 15, Some 10]"
proof -
  let ?cs = "[Insert 1 (Some 15), Add (Some 30), Reverse, Remove 0]"
  have v: "arr_view three_slots = ([Some 10, Some 20], 3, False)" using three_slots_inv(2) by (simp add: arr_view_def) (simp add: three_slots_def)
  have "\<exists>a'. run_arrs (\<lambda>_. False) rev ?cs three_slots = (Ok (fst (list_arrs (\<lambda>_. False) rev ?cs (arr_view three_slots))), a') \<and> arr_inv a'
      \<and> arr_view a' = snd (list_arrs (\<lambda>_. False) rev ?cs (arr_view three_slots))"
    by (rule array_refines_list) (simp_all add: bounded_blocks_def three_slots_inv)
  moreover have "list_arrs (\<lambda>_. False) rev ?cs (arr_view three_slots)
      = ([(True, []), (False, []), (True, []), (True, [Some 20])], [Some 15, Some 10], 3, False)"
    unfolding v by (simp add: list_arr_def has_room_def grown_def)
  ultimately show ?thesis by (auto simp: arr_view_def)
qed

lemma mf_Some [simp]: "List.map_filter (\<lambda>x. Some (f x)) xs = map f xs"
  by (induction xs) (simp_all add: List.map_filter_simps)

lemma mf_filter [simp]: "List.map_filter (\<lambda>x. if q x then Some x else None) xs = filter q xs"
  by (induction xs) (simp_all add: List.map_filter_simps)

lemma add_free_func: "neoc_array_add A x a = (r, a') \<Longrightarrow> free_func a' = free_func a"
  by (auto simp: neoc_array_add_def grow_if_full_def neoc_array_grow_def put_item_def bind_c_def then_c_def cmd_eval Let_def
      split: if_splits result.splits)

lemma add_selected_preserves:
  assumes "\<And>x s r s'. P s \<Longrightarrow> add x s = (r, s') \<Longrightarrow> P s'" and "P s" and "add_selected add sel rs s = (r, s')"
  shows "P s'"
  using assms(2,3)
proof (induction rs arbitrary: s)
  case (Cons q rs)
  from Cons.prems show ?case
    by (auto simp: bind_c_def cmd_eval split: result.splits option.splits prod.splits if_splits dest: Cons.IH assms(1))
qed (simp add: cmd_eval)

lemma collect_room:
  assumes "bounded_blocks A" and "arr_inv fresh" and "elems fresh = []" and "arr_room A (length (List.map_filter sel xs)) fresh"
  shows "\<exists>a'. collect A sel (map Ok xs) fresh = Ok (Some a', []) \<and> arr_inv a' \<and> elems a' = List.map_filter sel xs"
  using pa.add_selected_room [of A fresh sel xs] assms by (auto simp: collect_def)

lemma created_room:
  assumes "arr_inv a" and "bounded_blocks A" and "neoc_array_create_with_capacity A (capacity a) = Some fresh"
  shows "arr_inv fresh" and "elems fresh = []" and "n \<le> unat (count a) \<Longrightarrow> arr_room A n fresh" and "arr_inv (fresh\<lparr>free_func := f\<rparr>)"
    and "elems (fresh\<lparr>free_func := f\<rparr>) = []" and "n \<le> unat (count a) \<Longrightarrow> arr_room A n (fresh\<lparr>free_func := f\<rparr>)"
proof -
  have "8 * unat (capacity a) < 2 ^ 64" using assms(1) by (simp add: arr_inv_def)
  note c = create_inv [OF assms(3,2) this]
  have le: "unat (count a) \<le> unat (capacity a)" using assms(1) by (simp add: arr_inv_def word_le_nat_alt)
  show "arr_inv fresh" "elems fresh = []" "arr_inv (fresh\<lparr>free_func := f\<rparr>)" "elems (fresh\<lparr>free_func := f\<rparr>) = []"
    using c by (simp_all add: arr_inv_def elems_def)
  show "n \<le> unat (count a) \<Longrightarrow> arr_room A n fresh" "n \<le> unat (count a) \<Longrightarrow> arr_room A n (fresh\<lparr>free_func := f\<rparr>)"
    using c(3,4) le by (simp_all add: arr_room_def)
qed

text \<open> Mapping, cloning and deep cloning fail only when the new array cannot be created, filtering also when it cannot grow; when they
  succeed, the new array holds the mapped, the same, the cloned or the selected items in order.  Neither way is an item released: the
  branch of \<^verbatim>\<open>neoc_array_deep_clone\<close> that would release every item twice cannot be reached.\<close>

theorem array_transforms:
  assumes "arr_inv a" and "bounded_blocks A"
  shows "\<exists>m c d s. neoc_array_map A (Some a) (Some f) = Ok (m, []) \<and> neoc_array_clone A (Some a) = Ok (c, [])
      \<and> neoc_array_deep_clone A (Some a) (Some f) = Ok (d, []) \<and> neoc_array_filter A (Some a) (Some q) = Ok (s, [])
      \<and> map_option elems m = (if neoc_array_create_with_capacity A (capacity a) = None then None else Some (map f (elems a)))
      \<and> map_option elems c = (if neoc_array_create_with_capacity A (capacity a) = None then None else Some (elems a))
      \<and> map_option elems d = (if neoc_array_create_with_capacity A (capacity a) = None then None else Some (map f (elems a)))
      \<and> (\<forall>b. s = Some b \<longrightarrow> elems b = filter q (elems a))
      \<and> (A 32 \<and> grants A (max 128 (16 * unat (count a))) \<longrightarrow> s \<noteq> None)"
proof -
  have len: "length (elems a) = unat (count a)" using assms(1) by (rule length_elems)
  have sl: "slots_of a = map Ok (elems a)" using assms(1) by (rule arr_slots)
  let ?new = "neoc_array_create_with_capacity A (capacity a)"
  have "\<exists>m. neoc_array_map A (Some a) (Some f) = Ok (m, []) \<and> map_option elems m = (if ?new = None then None else Some (map f (elems a)))"
  proof (cases ?new)
    case (Some fresh)
    note c = created_room [OF assms Some]
    from collect_room [OF assms(2) c(1,2), of "\<lambda>x. Some (f x)" "elems a"] c(3) len sl Some show ?thesis
      by (auto simp: neoc_array_map_def)
  qed (simp add: neoc_array_map_def)
  moreover have "\<exists>c. neoc_array_clone A (Some a) = Ok (c, []) \<and> map_option elems c = (if ?new = None then None else Some (elems a))"
  proof (cases ?new)
    case (Some fresh)
    note c = created_room [OF assms Some]
    from collect_room [where A = A and fresh = "fresh\<lparr>free_func := free_func a\<rparr>" and sel = "\<lambda>x. Some x" and xs = "elems a"] assms(2) c(4-6) len sl Some show ?thesis
      by (auto simp: neoc_array_clone_def)
  qed (simp add: neoc_array_clone_def)
  moreover have "\<exists>d. neoc_array_deep_clone A (Some a) (Some f) = Ok (d, []) \<and> map_option elems d = (if ?new = None then None else Some (map f (elems a)))"
  proof (cases ?new)
    case (Some fresh)
    note c = created_room [OF assms Some]
    from pa.add_selected_room [of A "fresh\<lparr>free_func := free_func a\<rparr>" "\<lambda>x. Some (f x)" "elems a"] assms(2) c(4,5,6) len sl Some show ?thesis
      by (auto simp: neoc_array_deep_clone_def)
  qed (simp add: neoc_array_deep_clone_def)
  moreover have "\<exists>s. neoc_array_filter A (Some a) (Some q) = Ok (s, []) \<and> (\<forall>b. s = Some b \<longrightarrow> elems b = filter q (elems a))
      \<and> (A 32 \<and> grants A (max 128 (16 * unat (count a))) \<longrightarrow> s \<noteq> None)"
  proof (cases "neoc_array_create A")
    case None
    then have "\<not> (A 32 \<and> A 128)" by (auto simp: neoc_array_create_def neoc_array_create_with_capacity_def ptr_bytes_def split: if_splits)
    with None show ?thesis using grantsD [of A "max 128 (16 * unat (count a))" 128] by (auto simp: neoc_array_filter_def)
  next
    case (Some fresh)
    note c = create_inv [OF Some [unfolded neoc_array_create_def] assms(2), simplified]
    let ?sel = "\<lambda>x. if q x then Some x else None"
    from pa.add_selected_returns [of A fresh ?sel "elems a"] assms(2) c(1) obtain b t ys where
      t: "add_selected (neoc_array_add A) ?sel (map Ok (elems a)) fresh = (Ok b, t)" "b \<longrightarrow> elems t = filter q (elems a)"
      using c(2) by auto
    have b: "b" if "grants A (max 128 (16 * unat (count a)))"
    proof -
      have "16 * (unat (count fresh) + length (filter q (elems a))) \<le> max 128 (16 * unat (count a))"
        using c(3) len length_filter_le [of q "elems a"] by simp
      then have "arr_room A (length (List.map_filter ?sel (elems a))) fresh" using grants_mono [OF that] by (simp add: arr_room_def)
      from pa.add_selected_room [OF _ this] c(1) assms(2) t(1) show ?thesis by auto
    qed
    have nf: "free_func t = False" using add_selected_preserves [OF _ _ t(1), of "\<lambda>a. \<not> free_func a"] add_free_func c(5) by auto
    show ?thesis using Some sl t b nf by (cases b) (auto simp: neoc_array_filter_def collect_def neoc_array_free_def released_def)
  qed
  ultimately show ?thesis by blast
qed

theorem array_transforms_witness:
  "\<exists>c s. neoc_array_clone (\<lambda>n. n < 2 ^ 20) (Some three_slots) = Ok (Some c, []) \<and> elems c = [Some 10, Some 20]
     \<and> neoc_array_filter (\<lambda>n. n < 2 ^ 20) (Some three_slots) (Some (\<lambda>p. p = Some 20)) = Ok (Some s, []) \<and> elems s = [Some 20]"
proof -
  let ?A = "\<lambda>n :: nat. n < 2 ^ 20"
  have "bounded_blocks ?A" by (simp add: bounded_blocks_def)
  from array_transforms [OF three_slots_inv(1) this, of id "\<lambda>p. p = Some 20"] obtain c s where
    c: "neoc_array_clone ?A (Some three_slots) = Ok (c, [])" "neoc_array_filter ?A (Some three_slots) (Some (\<lambda>p. p = Some 20)) = Ok (s, [])"
    "map_option elems c = (if neoc_array_create_with_capacity ?A (capacity three_slots) = None then None else Some (elems three_slots))"
    "\<forall>b. s = Some b \<longrightarrow> elems b = filter (\<lambda>p. p = Some 20) (elems three_slots)"
    "?A 32 \<and> grants ?A (max 128 (16 * unat (count three_slots))) \<longrightarrow> s \<noteq> None" by blast
  moreover have "grants ?A (max 128 (16 * unat (count three_slots)))" by (simp add: grants_def three_slots_def)
  moreover have "neoc_array_create_with_capacity ?A (capacity three_slots) \<noteq> None"
    by (simp add: neoc_array_create_with_capacity_def three_slots_def ptr_bytes_def)
  ultimately show ?thesis by (auto simp: three_slots_inv)
qed

subsection \<open>Sizes that wrap around\<close>

text \<open>A capacity of \<open>2 ^ 61 + 1\<close> is accepted and gives a block of one slot: the second item is written outside it.\<close>

lemma array_create_wraps:
  "neoc_array_create_with_capacity (\<lambda>n. n \<le> 64) (2 ^ 61 + 1) = Some \<lparr>items = [None], count = 0, capacity = 2 ^ 61 + 1, free_func = False\<rparr>"
  "fst (then_c (neoc_array_add (\<lambda>n. n \<le> 64) p) (neoc_array_add (\<lambda>n. n \<le> 64) q)
     \<lparr>items = [None], count = 0, capacity = 2 ^ 61 + 1, free_func = False\<rparr>) = Fault"
  by (simp_all add: neoc_array_create_with_capacity_def ptr_bytes_def ptr_slots_def neoc_array_add_def grow_if_full_def put_item_def write_slot_def
      then_c_def bind_c_def cmd_eval word_le_nat_alt)

text \<open>The index of an item at position \<open>2 ^ 31\<close> is returned as a negative number, so the item counts as missing.\<close>

lemma array_index_truncated:
  assumes "arr_inv a" and "x \<in> set (elems a)" and "length (takeWhile (\<lambda>y. y \<noteq> x) (elems a)) = 2 ^ 31"
  shows "neoc_array_contains a x = Ok False"
  using index_of_eq [OF assms(1), of x] assms(2,3) by (simp add: neoc_array_contains_def)

subsection \<open>Byte buffers\<close>

lemma byte_array_concat_correct:
  assumes "length xs + length ys < 2 ^ 64" and "xs @ ys \<noteq> []" and "A (length xs + length ys)"
  shows "neoc_byte_array_concat A (Some xs) (of_nat (length xs)) (Some ys) (of_nat (length ys)) = Ok (Some (xs @ ys))"
proof -
  have u: "unat (of_nat (length xs) :: size_t) = length xs" "unat (of_nat (length ys) :: size_t) = length ys"
    "unat (of_nat (length xs) + of_nat (length ys) :: size_t) = length xs + length ys"
    using assms(1) by (simp_all add: unat_of_nat take_bit_nat_eq_self flip: of_nat_add)
  then have "(of_nat (length xs) + of_nat (length ys) :: size_t) \<noteq> 0" using assms(2) by (metis length_append length_0_conv unat_0)
  with u assms(3) show ?thesis by (auto simp: neoc_byte_array_concat_def Let_def word_gt_0)
qed

lemma byte_array_reverse_correct:
  assumes "length bs < 2 ^ 64"
  shows "neoc_byte_array_reverse (Some bs) (of_nat (length bs)) = Ok (Some (rev bs))"
proof -
  have u: "unat (of_nat (length bs) :: size_t) = length bs" using assms by (simp add: unat_of_nat take_bit_nat_eq_self)
  show ?thesis
  proof (cases "length bs < 2")
    case True
    then have "rev bs = bs" by (cases bs rule: remdups_adj.cases) auto
    with True u show ?thesis by (simp add: neoc_byte_array_reverse_def word_less_nat_alt)
  next
    case False
    then have "unat (of_nat (length bs) - 1 :: size_t) = length bs - 1" using u unat_pred [of "of_nat (length bs)"] by (cases bs) (simp_all add: word_less_nat_alt)
    moreover have "bs \<noteq> []" using False by auto
    ultimately show ?thesis using False u swap_ends_rev [of "length bs" bs] by (simp add: neoc_byte_array_reverse_def word_less_nat_alt)
  qed
qed

lemma byte_array_equals_correct:
  assumes "length xs < 2 ^ 64" and "length ys < 2 ^ 64"
  shows "neoc_byte_array_equals (Some xs) (of_nat (length xs)) (Some ys) (of_nat (length ys)) = Ok (xs = ys)"
proof -
  have u: "unat (of_nat (length xs) :: size_t) = length xs" "unat (of_nat (length ys) :: size_t) = length ys"
    using assms by (simp_all add: unat_of_nat take_bit_nat_eq_self)
  have "(of_nat (length xs) :: size_t) = of_nat (length ys) \<longleftrightarrow> length xs = length ys" "(of_nat (length xs) :: size_t) = 0 \<longleftrightarrow> xs = []"
    using u by (simp_all add: word_unat_eq_iff)
  with u show ?thesis by (simp add: neoc_byte_array_equals_def) (auto simp: word_unat_eq_iff)
qed

end
