(* ===== verification/Element_Array.thy ===== *)
theory Element_Array
  imports Dynamic_Array Binary_Writer
begin

text \<open>
  \<^verbatim>\<open>utils/array.c\<close>: arrays that own copies of fixed-size elements, and growing byte arrays.  (The file defines functions of the same names as
  \<^verbatim>\<open>utils/neoc_array.c\<close>.)  An element array keeps pointers to blocks of \<open>element_size\<close> bytes; the blocks are the map \<open>blocks\<close>, so that
  an element released twice or never is visible.  \<open>N\<close> hands out the address of a new block of a given size or refuses; \<open>A\<close> grants the other requests.
\<close>

subsection \<open>Element arrays\<close>

type_synonym ptr = "u64 option"
type_synonym element_heap = "u64 \<Rightarrow> byte list option"
type_synonym element_malloc = "element_heap \<Rightarrow> nat \<Rightarrow> u64 option"

definition DEFAULT_ARRAY_CAPACITY :: size_t where "DEFAULT_ARRAY_CAPACITY = 16"

definition DEFAULT_BYTE_ARRAY_CAPACITY :: size_t where "DEFAULT_BYTE_ARRAY_CAPACITY = 64"

record neoc_array =
  elements :: "ptr option list"
  count :: size_t
  capacity :: size_t
  element_size :: size_t
  blocks :: element_heap

definition pointer_bytes :: "size_t \<Rightarrow> size_t" where
  "pointer_bytes n = n * 8"

definition pointer_slots :: "size_t \<Rightarrow> nat" where
  "pointer_slots n = unat (pointer_bytes n) div 8"

definition neoc_array_create :: "allocator \<Rightarrow> element_heap \<Rightarrow> size_t \<Rightarrow> size_t \<Rightarrow> neoc_array result" where
  "neoc_array_create A h elem_size initial_capacity =
     (if elem_size = 0 then Err NEOC_ERROR_INVALID_PARAM
      else if \<not> A 32 then Err NEOC_ERROR_OUT_OF_MEMORY
      else
        let cap = (if 0 < initial_capacity then initial_capacity else DEFAULT_ARRAY_CAPACITY) in
        if neoc_malloc_r A (unat (pointer_bytes cap)) \<noteq> Ok () then Err NEOC_ERROR_OUT_OF_MEMORY
        else Ok \<lparr>elements = replicate (pointer_slots cap) None, count = 0, capacity = cap, element_size = elem_size, blocks = h\<rparr>)"

text \<open>\<^verbatim>\<open>neoc_realloc\<close> to zero bytes releases the block and returns null.\<close>

definition neoc_array_resize :: "allocator \<Rightarrow> size_t \<Rightarrow> (neoc_array, unit) cmd" where
  "neoc_array_resize A new_capacity a =
     (if pointer_bytes new_capacity = 0 then (Err NEOC_ERROR_OUT_OF_MEMORY, a\<lparr>elements := []\<rparr>)
      else if \<not> A (unat (pointer_bytes new_capacity)) then (Err NEOC_ERROR_OUT_OF_MEMORY, a)
      else (Ok (), a\<lparr>elements := resize_slots (pointer_slots new_capacity) (elements a), capacity := new_capacity\<rparr>))"

definition resize_if_full :: "allocator \<Rightarrow> (neoc_array, unit) cmd" where
  "resize_if_full A a = (if capacity a \<le> count a then neoc_array_resize A (capacity a * 2) a else (Ok (), a))"

text \<open>A new block with a copy of the element; the caller's buffer must hold \<open>element_size\<close> bytes.\<close>

definition copy_element :: "element_malloc \<Rightarrow> byte list \<Rightarrow> (neoc_array, u64) cmd" where
  "copy_element N element a =
     (case (if element_size a = 0 then None else N (blocks a) (unat (element_size a))) of
        None \<Rightarrow> (Err NEOC_ERROR_OUT_OF_MEMORY, a)
      | Some p \<Rightarrow>
          if length element < unat (element_size a) then (Fault, a)
          else (Ok p, a\<lparr>blocks := (blocks a)(p \<mapsto> take (unat (element_size a)) element)\<rparr>))"

definition store_element :: "size_t \<Rightarrow> ptr \<Rightarrow> (neoc_array, unit) cmd" where
  "store_element i p a = (case write_slot (unat i) p (elements a) of Ok xs \<Rightarrow> (Ok (), a\<lparr>elements := xs\<rparr>) | _ \<Rightarrow> (Fault, a))"

definition free_element :: "size_t \<Rightarrow> (neoc_array, unit) cmd" where
  "free_element i a =
     (case read_slot (elements a) (unat i) of
        Ok None \<Rightarrow> (Ok (), a)
      | Ok (Some p) \<Rightarrow> if blocks a p = None then (Fault, a) else (Ok (), a\<lparr>blocks := (blocks a)(p := None)\<rparr>)
      | _ \<Rightarrow> (Fault, a))"

definition set_count :: "size_t \<Rightarrow> (neoc_array, unit) cmd" where
  "set_count n a = (Ok (), a\<lparr>count := n\<rparr>)"

definition neoc_array_append :: "allocator \<Rightarrow> element_malloc \<Rightarrow> byte list option \<Rightarrow> (neoc_array, unit) cmd" where
  "neoc_array_append A N element =
     (case element of
        None \<Rightarrow> fail_c NEOC_ERROR_INVALID_PARAM
      | Some e \<Rightarrow>
          then_c (resize_if_full A)
          (bind_c (copy_element N e) (\<lambda>p a.
             then_c (store_element (count a) (Some p)) (set_count (count a + 1)) a)))"

text \<open>The loops that shift the elements, one slot at a time.\<close>

definition copy_slot :: "nat \<Rightarrow> nat \<Rightarrow> (neoc_array, unit) cmd" where
  "copy_slot dst src a =
     (if dst < length (elements a) \<and> src < length (elements a) then (Ok (), a\<lparr>elements := (elements a)[dst := elements a ! src]\<rparr>)
      else (Fault, a))"

fun shift_right :: "nat \<Rightarrow> nat \<Rightarrow> (neoc_array, unit) cmd" where
  "shift_right index i = (if index < i then then_c (copy_slot i (i - 1)) (shift_right index (i - 1)) else return_c ())"

function shift_left :: "nat \<Rightarrow> nat \<Rightarrow> (neoc_array, unit) cmd" where
  "shift_left i stop = (if i < stop then then_c (copy_slot i (i + 1)) (shift_left (i + 1) stop) else return_c ())"
  by auto
termination
  by (relation "measure (\<lambda>(i, stop). stop - i)") auto

declare shift_right.simps [simp del] and shift_left.simps [simp del]

definition neoc_array_insert :: "allocator \<Rightarrow> element_malloc \<Rightarrow> size_t \<Rightarrow> byte list option \<Rightarrow> (neoc_array, unit) cmd" where
  "neoc_array_insert A N index element a =
     (case element of
        None \<Rightarrow> (Err NEOC_ERROR_INVALID_PARAM, a)
      | Some e \<Rightarrow>
          if count a < index then (Err NEOC_ERROR_INVALID_PARAM, a)
          else
            then_c (resize_if_full A)
            (then_c (shift_right (unat index) (unat (count a)))
            (bind_c (copy_element N e) (\<lambda>p.
               then_c (store_element index (Some p)) (set_count (count a + 1))))) a)"

definition neoc_array_prepend :: "allocator \<Rightarrow> element_malloc \<Rightarrow> byte list option \<Rightarrow> (neoc_array, unit) cmd" where
  "neoc_array_prepend A N element = neoc_array_insert A N 0 element"

definition neoc_array_remove :: "size_t \<Rightarrow> (neoc_array, unit) cmd" where
  "neoc_array_remove index a =
     (if count a \<le> index then (Err NEOC_ERROR_INVALID_PARAM, a)
      else then_c (free_element index)
          (then_c (shift_left (unat index) (unat (count a - 1)))
                  (set_count (count a - 1))) a)"

definition neoc_array_get :: "neoc_array \<Rightarrow> size_t \<Rightarrow> ptr result" where
  "neoc_array_get a index = (if count a \<le> index then Err NEOC_ERROR_INVALID_PARAM else read_slot (elements a) (unat index))"

definition neoc_array_set :: "element_malloc \<Rightarrow> size_t \<Rightarrow> byte list option \<Rightarrow> (neoc_array, unit) cmd" where
  "neoc_array_set N index element a =
     (case element of
        None \<Rightarrow> (Err NEOC_ERROR_INVALID_PARAM, a)
      | Some e \<Rightarrow>
          if count a \<le> index then (Err NEOC_ERROR_INVALID_PARAM, a)
          else
            then_c (free_element index)
              (\<lambda>a. case copy_element N e a of
                 (Ok p, a) \<Rightarrow> store_element index (Some p) a
               | (Err _, a) \<Rightarrow> then_c (store_element index None) (fail_c NEOC_ERROR_OUT_OF_MEMORY) a
               | (Fault, a) \<Rightarrow> (Fault, a)) a)"

definition neoc_array_count :: "neoc_array option \<Rightarrow> size_t" where
  "neoc_array_count array = (case array of None \<Rightarrow> 0 | Some a \<Rightarrow> count a)"

definition neoc_array_is_empty :: "neoc_array option \<Rightarrow> bool" where
  "neoc_array_is_empty array = (case array of None \<Rightarrow> True | Some a \<Rightarrow> count a = 0)"

definition neoc_array_clear :: "(neoc_array, unit) cmd" where
  "neoc_array_clear a = then_c (foreach_c (\<lambda>i. free_element (of_nat i)) [0..<unat (count a)]) (set_count 0) a"

text \<open>What is left of the blocks when the array has been released.\<close>

definition neoc_array_free :: "neoc_array \<Rightarrow> element_heap result" where
  "neoc_array_free a = (case neoc_array_clear a of (Ok _, a) \<Rightarrow> Ok (blocks a) | (Err e, _) \<Rightarrow> Err e | (Fault, _) \<Rightarrow> Fault)"

subsection \<open>Byte arrays\<close>

text \<open>\<open>ba_data\<close> is the block; a byte that was not written is \<open>None\<close>.\<close>

record neoc_byte_array =
  ba_data :: "byte option list"
  ba_length :: size_t
  ba_capacity :: size_t

definition neoc_byte_array_create :: "allocator \<Rightarrow> size_t \<Rightarrow> neoc_byte_array result" where
  "neoc_byte_array_create A initial_capacity =
     (if \<not> A 24 then Err NEOC_ERROR_OUT_OF_MEMORY
      else
        let cap = (if 0 < initial_capacity then initial_capacity else DEFAULT_BYTE_ARRAY_CAPACITY) in
        if \<not> A (unat cap) then Err NEOC_ERROR_OUT_OF_MEMORY
        else Ok \<lparr>ba_data = replicate (unat cap) None, ba_length = 0, ba_capacity = cap\<rparr>)"

text \<open>\<^verbatim>\<open>memcpy\<close> into the block at an offset.\<close>

definition ba_store :: "nat \<Rightarrow> byte list \<Rightarrow> (neoc_byte_array, unit) cmd" where
  "ba_store at bs b =
     (if length (ba_data b) < at + length bs then (Fault, b)
      else (Ok (), b\<lparr>ba_data := take at (ba_data b) @ map Some bs @ drop (at + length bs) (ba_data b)\<rparr>))"

definition neoc_byte_array_from_data :: "allocator \<Rightarrow> byte list option \<Rightarrow> size_t \<Rightarrow> neoc_byte_array result" where
  "neoc_byte_array_from_data A data len =
     (if data = None \<and> 0 < len then Err NEOC_ERROR_INVALID_PARAM
      else
        bind_r (neoc_byte_array_create A len) (\<lambda>b.
          if 0 < len then
            if length (the data) < unat len then Fault
            else (case ba_store 0 (take (unat len) (the data)) b of
                (Ok _, b) \<Rightarrow> Ok (b\<lparr>ba_length := len\<rparr>) | (Err e, _) \<Rightarrow> Err e | (Fault, _) \<Rightarrow> Fault)
          else Ok b))"

definition neoc_byte_array_resize :: "allocator \<Rightarrow> size_t \<Rightarrow> (neoc_byte_array, unit) cmd" where
  "neoc_byte_array_resize A new_capacity b =
     (if new_capacity = 0 then (Err NEOC_ERROR_OUT_OF_MEMORY, b\<lparr>ba_data := []\<rparr>)
      else if \<not> A (unat new_capacity) then (Err NEOC_ERROR_OUT_OF_MEMORY, b)
      else (Ok (), b\<lparr>ba_data := resize_slots (unat new_capacity) (ba_data b), ba_capacity := new_capacity\<rparr>))"

text \<open>The doubling loop is that of the binary writer, started at the current capacity.  \<open>data\<close> are the \<open>length\<close> bytes to append.\<close>

definition neoc_byte_array_append_bytes :: "allocator \<Rightarrow> byte list \<Rightarrow> (neoc_byte_array, unit) cmd" where
  "neoc_byte_array_append_bytes A data b =
     (if data = [] then (Ok (), b)
      else
        let required_capacity = ba_length b + of_nat (length data) in
        then_c
          (if ba_capacity b < required_capacity then
             (case grow_loop (ba_capacity b) required_capacity of
                None \<Rightarrow> lift_c Fault
              | Some new_capacity \<Rightarrow> neoc_byte_array_resize A new_capacity)
           else return_c ())
          (then_c (ba_store (unat (ba_length b)) data)
                  (\<lambda>b. (Ok (), b\<lparr>ba_length := ba_length b + of_nat (length data)\<rparr>))) b)"

definition neoc_byte_array_append_byte :: "allocator \<Rightarrow> byte \<Rightarrow> (neoc_byte_array, unit) cmd" where
  "neoc_byte_array_append_byte A b = neoc_byte_array_append_bytes A [b]"

text \<open>The bytes of an array, for reading: those below its length must have been written.\<close>

definition ba_read :: "neoc_byte_array \<Rightarrow> nat \<Rightarrow> nat \<Rightarrow> byte list result" where
  "ba_read b start n = map_r (read_slot (ba_data b)) [start..<start + n]"

text \<open>A new array of a given capacity to which pieces are appended; a failure releases it.\<close>

definition ba_build :: "allocator \<Rightarrow> size_t \<Rightarrow> (neoc_byte_array, unit) cmd \<Rightarrow> neoc_byte_array result" where
  "ba_build A cap m =
     bind_r (neoc_byte_array_create A cap) (\<lambda>b.
       case m b of (Ok _, b) \<Rightarrow> Ok b | (Err e, _) \<Rightarrow> Err e | (Fault, _) \<Rightarrow> Fault)"

definition append_array :: "allocator \<Rightarrow> neoc_byte_array \<Rightarrow> (neoc_byte_array, unit) cmd" where
  "append_array A src =
     (if 0 < ba_length src then
        bind_c (lift_c (ba_read src 0 (unat (ba_length src)))) (neoc_byte_array_append_bytes A)
      else return_c ())"

definition neoc_byte_array_concat :: "allocator \<Rightarrow> neoc_byte_array \<Rightarrow> neoc_byte_array \<Rightarrow> neoc_byte_array result" where
  "neoc_byte_array_concat A left right =
     ba_build A (ba_length left + ba_length right) (then_c (append_array A left) (append_array A right))"

definition neoc_byte_array_concat_byte :: "allocator \<Rightarrow> neoc_byte_array \<Rightarrow> byte \<Rightarrow> neoc_byte_array result" where
  "neoc_byte_array_concat_byte A b byte =
     ba_build A (ba_length b + 1) (then_c (append_array A b) (neoc_byte_array_append_byte A byte))"

definition neoc_byte_array_prepend_byte :: "allocator \<Rightarrow> byte \<Rightarrow> neoc_byte_array \<Rightarrow> neoc_byte_array result" where
  "neoc_byte_array_prepend_byte A byte b =
     ba_build A (1 + ba_length b) (then_c (neoc_byte_array_append_byte A byte) (append_array A b))"

definition neoc_byte_array_slice :: "allocator \<Rightarrow> neoc_byte_array \<Rightarrow> size_t \<Rightarrow> size_t \<Rightarrow> neoc_byte_array result" where
  "neoc_byte_array_slice A b start stop =
     (if stop < start \<or> ba_length b < stop then Err NEOC_ERROR_INVALID_PARAM
      else
        ba_build A (stop - start)
          (if 0 < stop - start then
             bind_c (lift_c (ba_read b (unat start) (unat (stop - start)))) (neoc_byte_array_append_bytes A)
           else return_c ()))"

subsection \<open>Element arrays are lists\<close>

text \<open>What the shifting loops do: \<^verbatim>\<open>memmove\<close>, one slot at a time.\<close>

lemma shift_right_nth:
  assumes "n < length (elements a)" and "index \<le> n"
  shows "\<exists>xs. shift_right index n a = (Ok (), a\<lparr>elements := xs\<rparr>) \<and> length xs = length (elements a)
    \<and> (\<forall>k < length xs. xs ! k = (if index < k \<and> k \<le> n then elements a ! (k - 1) else elements a ! k))"
  using assms
proof (induction n arbitrary: a)
  case 0
  then show ?case by (subst shift_right.simps) (auto simp: cmd_eval intro!: exI [of _ "elements a"])
next
  case (Suc n)
  show ?case
  proof (cases "index < Suc n")
    case True
    let ?a = "a\<lparr>elements := (elements a)[Suc n := elements a ! n]\<rparr>"
    have "n < length (elements ?a)" "index \<le> n" using Suc.prems True by simp_all
    from Suc.IH [OF this] obtain xs where xs: "shift_right index n ?a = (Ok (), ?a\<lparr>elements := xs\<rparr>)" "length xs = length (elements a)"
      "\<forall>k < length xs. xs ! k = (if index < k \<and> k \<le> n then elements ?a ! (k - 1) else elements ?a ! k)" by auto
    moreover have "shift_right index (Suc n) a = shift_right index n ?a"
      using Suc.prems True by (subst shift_right.simps) (simp add: then_c_def bind_c_def copy_slot_def)
    moreover have "xs ! k = (if index < k \<and> k \<le> Suc n then elements a ! (k - 1) else elements a ! k)" if "k < length xs" for k
      using xs(2,3) that Suc.prems True by (auto simp: nth_list_update)
    ultimately show ?thesis by (intro exI [of _ xs]) simp
  next
    case False
    with Suc.prems show ?thesis by (subst shift_right.simps) (auto simp: cmd_eval intro!: exI [of _ "elements a"])
  qed
qed

lemma shift_right_eq:
  assumes "n < length (elements a)" and "index \<le> n" and "memmove_slots (index + 1) index (n - index) (elements a) = Ok xs"
  shows "shift_right index n a = (Ok (), a\<lparr>elements := xs\<rparr>)"
proof -
  obtain ys where ys: "shift_right index n a = (Ok (), a\<lparr>elements := ys\<rparr>)" "length ys = length (elements a)"
    "\<forall>k < length ys. ys ! k = (if index < k \<and> k \<le> n then elements a ! (k - 1) else elements a ! k)"
    using shift_right_nth [OF assms(1,2)] by blast
  have "xs = take (index + 1) (elements a) @ take (n - index) (drop index (elements a)) @ drop (n + 1) (elements a)"
    using assms by (simp add: memmove_slots_def split: if_splits)
  then have "ys = xs" using ys(2,3) assms(1,2) by (intro nth_equalityI) (auto simp: nth_append)
  with ys(1) show ?thesis by simp
qed

lemma shift_left_nth:
  assumes "stop < length (elements a)"
  shows "\<exists>xs. shift_left i stop a = (Ok (), a\<lparr>elements := xs\<rparr>) \<and> length xs = length (elements a)
    \<and> (\<forall>k < length xs. xs ! k = (if i \<le> k \<and> k < stop then elements a ! (k + 1) else elements a ! k))"
  using assms
proof (induction "stop - i" arbitrary: i a)
  case 0
  then show ?case by (subst shift_left.simps) (auto simp: cmd_eval intro!: exI [of _ "elements a"])
next
  case (Suc d)
  let ?a = "a\<lparr>elements := (elements a)[i := elements a ! (i + 1)]\<rparr>"
  have "d = stop - (i + 1)" "stop < length (elements ?a)" and i: "i < stop" using Suc.hyps(2) Suc.prems by simp_all
  from Suc.hyps(1) [OF this(1,2)] obtain xs where xs: "shift_left (i + 1) stop ?a = (Ok (), ?a\<lparr>elements := xs\<rparr>)" "length xs = length (elements a)"
    "\<forall>k < length xs. xs ! k = (if i + 1 \<le> k \<and> k < stop then elements ?a ! (k + 1) else elements ?a ! k)" by auto
  moreover have "shift_left i stop a = shift_left (i + 1) stop ?a"
    using Suc.prems i by (subst shift_left.simps) (simp add: then_c_def bind_c_def copy_slot_def)
  moreover have "xs ! k = (if i \<le> k \<and> k < stop then elements a ! (k + 1) else elements a ! k)" if "k < length xs" for k
    using xs(2,3) that Suc.prems i by (cases "k = i") auto
  ultimately show ?case by (intro exI [of _ xs]) simp
qed

lemma shift_left_eq:
  assumes "n \<le> length (elements a)" and "i < n" and "memmove_slots i (i + 1) (n - i - 1) (elements a) = Ok xs"
  shows "shift_left i (n - 1) a = (Ok (), a\<lparr>elements := xs\<rparr>)"
proof -
  have "n - 1 < length (elements a)" using assms(1,2) by simp
  then obtain ys where ys: "shift_left i (n - 1) a = (Ok (), a\<lparr>elements := ys\<rparr>)" "length ys = length (elements a)"
    "\<forall>k < length ys. ys ! k = (if i \<le> k \<and> k < n - 1 then elements a ! (k + 1) else elements a ! k)"
    using shift_left_nth by blast
  have "xs = take i (elements a) @ take (n - i - 1) (drop (i + 1) (elements a)) @ drop (n - 1) (elements a)"
    using assms by (simp add: memmove_slots_def split: if_splits)
  then have "ys = xs" using ys(2,3) assms(1,2) by (intro nth_equalityI) (auto simp: nth_append)
  with ys(1) show ?thesis by simp
qed

text \<open>Ownership: the pointers that are not null point to different blocks of the element size, which are the array's own; all other blocks
  are those of the caller, \<open>h\<close>.\<close>

definition owns :: "element_heap \<Rightarrow> nat \<Rightarrow> ptr list \<Rightarrow> element_heap \<Rightarrow> bool" where
  "owns h sz ps bl \<longleftrightarrow> distinct (filter (\<lambda>p. p \<noteq> None) ps)
     \<and> (\<forall>p. Some p \<in> set ps \<longrightarrow> h p = None \<and> (\<exists>bs. bl p = Some bs \<and> length bs = sz))
     \<and> (\<forall>p. Some p \<notin> set ps \<longrightarrow> bl p = h p)"

definition vals_of :: "element_heap \<Rightarrow> ptr list \<Rightarrow> byte list option list" where
  "vals_of bl ps = map (\<lambda>p. Option.bind p bl) ps"

fun drop_ptr :: "ptr \<Rightarrow> element_heap \<Rightarrow> element_heap" where
  "drop_ptr None bl = bl"
| "drop_ptr (Some p) bl = bl(p := None)"

lemma vals_of_simps [simp]: "vals_of bl [] = []" "vals_of bl (xs @ ys) = vals_of bl xs @ vals_of bl ys"
  "vals_of bl (p # ps) = Option.bind p bl # vals_of bl ps" "length (vals_of bl ps) = length ps"
  "vals_of bl (take n ps) = take n (vals_of bl ps)" "vals_of bl (drop n ps) = drop n (vals_of bl ps)"
  by (simp_all add: vals_of_def take_map drop_map)

lemma vals_of_upd: "Some p \<notin> set ps \<Longrightarrow> vals_of (bl(p := v)) ps = vals_of bl ps"
  unfolding vals_of_def by (rule map_cong) (auto split: bind_splits)

lemma owns_insert:
  assumes "owns h sz (xs @ ys) bl" and "bl p = None" and "length bs = sz"
  shows "owns h sz (xs @ Some p # ys) (bl(p \<mapsto> bs))"
    and "vals_of (bl(p \<mapsto> bs)) (xs @ Some p # ys) = vals_of bl xs @ Some bs # vals_of bl ys"
proof -
  have "Some p \<notin> set (xs @ ys)" using assms(1,2) by (auto simp: owns_def)
  with assms show "owns h sz (xs @ Some p # ys) (bl(p \<mapsto> bs))"
    "vals_of (bl(p \<mapsto> bs)) (xs @ Some p # ys) = vals_of bl xs @ Some bs # vals_of bl ys"
    by (auto simp: owns_def vals_of_upd)
qed

lemma owns_remove:
  assumes "owns h sz (xs @ q # ys) bl"
  shows "owns h sz (xs @ ys) (drop_ptr q bl)" and "vals_of (drop_ptr q bl) (xs @ ys) = vals_of bl xs @ vals_of bl ys"
proof (atomize (full), cases q)
  case (Some p)
  then have "Some p \<notin> set (xs @ ys)" "h p = None" using assms by (auto simp: owns_def)
  with assms Some show "owns h sz (xs @ ys) (drop_ptr q bl) \<and> vals_of (drop_ptr q bl) (xs @ ys) = vals_of bl xs @ vals_of bl ys"
    by (auto simp: owns_def vals_of_upd)
qed (use assms in \<open>auto simp: owns_def\<close>)

lemma owns_null: "owns h sz (xs @ ys) bl \<Longrightarrow> owns h sz (xs @ None # ys) bl"
  by (auto simp: owns_def)

definition ptrs :: "neoc_array \<Rightarrow> ptr list" where
  "ptrs a = content (unat (count a)) (elements a)"

definition vals :: "neoc_array \<Rightarrow> byte list option list" where
  "vals a = vals_of (blocks a) (ptrs a)"

definition slots_inv :: "neoc_array \<Rightarrow> bool" where
  "slots_inv a \<longleftrightarrow> 0 < capacity a \<and> 8 * unat (capacity a) < 2 ^ 63 \<and> count a \<le> capacity a
     \<and> length (elements a) = unat (capacity a) \<and> filled (unat (count a)) (elements a) \<and> element_size a \<noteq> 0"

definition ea_inv :: "element_heap \<Rightarrow> neoc_array \<Rightarrow> bool" where
  "ea_inv h a \<longleftrightarrow> slots_inv a \<and> owns h (unat (element_size a)) (ptrs a) (blocks a)"

lemma length_ptrs: "slots_inv a \<Longrightarrow> length (ptrs a) = unat (count a)"
  by (simp add: slots_inv_def ptrs_def)

lemma pointer_small:
  assumes "8 * unat n < 2 ^ 64"
  shows "unat (pointer_bytes n) = 8 * unat n" and "pointer_slots n = unat n"
proof -
  show "unat (pointer_bytes n) = 8 * unat n" using assms by (simp add: pointer_bytes_def unat_word_ariths mult.commute)
  then show "pointer_slots n = unat n" by (simp add: pointer_slots_def)
qed

lemma ea_create:
  assumes "neoc_array_create A h sz cap = Ok a" and "bounded_blocks A" and "8 * unat cap < 2 ^ 64"
  shows "ea_inv h a" and "vals a = []" and "element_size a = sz"
proof -
  let ?c = "if 0 < cap then cap else DEFAULT_ARRAY_CAPACITY"
  have c: "8 * unat ?c < 2 ^ 64" using assms(3) by (simp add: DEFAULT_ARRAY_CAPACITY_def)
  have a: "sz \<noteq> 0" "A (8 * unat ?c)" "0 < ?c" "a = \<lparr>elements = replicate (unat ?c) None, count = 0, capacity = ?c, element_size = sz, blocks = h\<rparr>"
    using assms(1) pointer_small [OF c]
    by (auto simp: neoc_array_create_def Let_def neoc_malloc_r_def malloc_r_def DEFAULT_ARRAY_CAPACITY_def split: if_splits)
  have "8 * unat ?c < 2 ^ 61" using a(2) assms(2) unfolding bounded_blocks_def by blast
  with a show "ea_inv h a" "vals a = []" "element_size a = sz"
    by (simp_all add: ea_inv_def slots_inv_def owns_def ptrs_def vals_def)
qed

text \<open>The array with room for one more element, or unchanged when there is no memory.\<close>

lemma resize_if_full_cases:
  assumes "slots_inv a" and "bounded_blocks A"
  obtains (refused) "resize_if_full A a = (Err NEOC_ERROR_OUT_OF_MEMORY, a)"
  | (ready) a' where "resize_if_full A a = (Ok (), a')" and "slots_inv a'" and "ptrs a' = ptrs a" and "count a' = count a" and "count a' < capacity a'"
      and "blocks a' = blocks a" and "element_size a' = element_size a"
proof (cases "capacity a \<le> count a")
  case True
  let ?c = "capacity a * 2"
  have c: "8 * unat (capacity a) < 2 ^ 63" "0 < unat (capacity a)" and full: "count a = capacity a"
    using assms(1) True by (auto simp: slots_inv_def word_less_nat_alt)
  then have d: "unat ?c = 2 * unat (capacity a)" by (simp add: unat_word_ariths)
  then have b: "unat (pointer_bytes ?c) = 16 * unat (capacity a)" "pointer_slots ?c = 2 * unat (capacity a)"
    using c pointer_small [of ?c] by simp_all
  have nz: "pointer_bytes ?c \<noteq> 0" using b(1) c(2) by auto
  show thesis
  proof (cases "A (unat (pointer_bytes ?c))")
    case granted: True
    let ?a = "a\<lparr>elements := resize_slots (2 * unat (capacity a)) (elements a), capacity := ?c\<rparr>"
    have "16 * unat (capacity a) < 2 ^ 61" using granted assms(2) unfolding b(1) bounded_blocks_def by blast
    then have "slots_inv ?a \<and> ptrs ?a = ptrs a \<and> count ?a < capacity ?a"
      using assms(1) full d c(2) resize_filled [of "unat (count a)" "elements a" "2 * unat (capacity a)"]
      by (simp add: slots_inv_def ptrs_def word_less_nat_alt word_le_nat_alt)
    with True granted nz b(2) show thesis by (intro ready [of ?a]) (simp_all add: resize_if_full_def neoc_array_resize_def)
  qed (use True nz in \<open>auto intro!: refused simp: resize_if_full_def neoc_array_resize_def\<close>)
qed (use assms(1) in \<open>auto intro!: ready [of a] simp: resize_if_full_def not_le\<close>)

text \<open>The contract: the operation returns and keeps the invariant; on success the elements change as the list operation says, on an error
  they are as before.\<close>

definition el_acts :: "element_heap \<Rightarrow> neoc_array \<Rightarrow> (byte list option list \<Rightarrow> byte list option list) \<Rightarrow> unit result \<times> neoc_array \<Rightarrow> bool" where
  "el_acts h a f rs \<longleftrightarrow> (\<exists>r a'. rs = (r, a') \<and> r \<noteq> Fault \<and> ea_inv h a' \<and> element_size a' = element_size a
     \<and> vals a' = (if r = Ok () then f (vals a) else vals a))"

definition fresh_blocks :: "element_malloc \<Rightarrow> bool" where
  "fresh_blocks N \<longleftrightarrow> (\<forall>h n p. N h n = Some p \<longrightarrow> h p = None)"

lemma ea_inv_slots: "ea_inv h a \<Longrightarrow> slots_inv a' \<Longrightarrow> ptrs a' = ptrs a \<Longrightarrow> blocks a' = blocks a \<Longrightarrow> element_size a' = element_size a \<Longrightarrow> ea_inv h a' \<and> vals a' = vals a"
  by (simp add: ea_inv_def vals_def)

text \<open>A new element between those before and those after it.\<close>

lemma ea_new_element:
  assumes "ea_inv h g" and "count g < capacity g" and "blocks g p = None" and "length bs = unat (element_size g)" and "i \<le> unat (count g)"
    and "length xs = length (elements g)" and "filled (Suc (unat (count g))) xs"
    and "content (Suc (unat (count g))) xs = take i (ptrs g) @ Some p # drop i (ptrs g)"
    and "a' = g\<lparr>elements := xs, count := count g + 1, blocks := (blocks g)(p \<mapsto> bs)\<rparr>"
  shows "ea_inv h a' \<and> vals a' = take i (vals g) @ Some bs # drop i (vals g)"
proof -
  have u: "unat (count g + 1) = Suc (unat (count g))" using assms(2) by (rule unat_inc)
  have "owns h (unat (element_size g)) (take i (ptrs g) @ drop i (ptrs g)) (blocks g)" using assms(1) by (simp add: ea_inv_def)
  note o = owns_insert [OF this assms(3,4)]
  have "slots_inv a'" using assms u by (simp add: slots_inv_def ea_inv_def word_le_nat_alt word_less_nat_alt)
  with o assms(8,9) u show ?thesis by (simp add: ea_inv_def vals_def ptrs_def)
qed

lemma copy_element_cases:
  assumes "fresh_blocks N" and "slots_inv a" and "unat (element_size a) \<le> length e"
  obtains (refused) "N (blocks a) (unat (element_size a)) = None" and "copy_element N e a = (Err NEOC_ERROR_OUT_OF_MEMORY, a)"
  | (copied) p where "N (blocks a) (unat (element_size a)) = Some p" and "blocks a p = None"
      and "copy_element N e a = (Ok p, a\<lparr>blocks := (blocks a)(p \<mapsto> take (unat (element_size a)) e)\<rparr>)"
  using assms by (cases "N (blocks a) (unat (element_size a))") (auto simp: copy_element_def fresh_blocks_def slots_inv_def)

lemma append_el_acts:
  assumes "ea_inv h a" and "bounded_blocks A" and "fresh_blocks N" and "unat (element_size a) \<le> length e"
  shows "el_acts h a (\<lambda>vs. vs @ [Some (take (unat (element_size a)) e)]) (neoc_array_append A N (Some e) a)"
proof -
  have "slots_inv a" using assms(1) by (simp add: ea_inv_def)
  from this assms(2) show ?thesis
  proof (rule resize_if_full_cases)
    fix g
    assume g: "resize_if_full A a = (Ok (), g)" "slots_inv g" "ptrs g = ptrs a" "count g = count a" "count g < capacity g"
      "blocks g = blocks a" "element_size g = element_size a"
    have eg: "ea_inv h g" "vals g = vals a" using ea_inv_slots [OF assms(1) g(2,3,6,7)] by simp_all
    have "unat (element_size g) \<le> length e" using g(7) assms(4) by simp
    from assms(3) g(2) this show ?thesis
    proof (rule copy_element_cases)
      fix p
      assume p: "blocks g p = None" "copy_element N e g = (Ok p, g\<lparr>blocks := (blocks g)(p \<mapsto> take (unat (element_size g)) e)\<rparr>)"
      have f: "filled (unat (count g)) (elements g)" "unat (count g) < length (elements g)"
        using g(2,5) by (simp_all add: slots_inv_def word_less_nat_alt)
      then obtain xs where xs: "write_slot (unat (count g)) (Some p) (elements g) = Ok xs" "length xs = length (elements g)"
        "filled (Suc (unat (count g))) xs" "content (Suc (unat (count g))) xs = ptrs g @ [Some p]" unfolding ptrs_def by (rule write_append)
      let ?a = "g\<lparr>elements := xs, count := count g + 1, blocks := (blocks g)(p \<mapsto> take (unat (element_size g)) e)\<rparr>"
      have "ea_inv h ?a \<and> vals ?a = vals a @ [Some (take (unat (element_size a)) e)]"
        using ea_new_element [OF eg(1) g(5) p(1), of "take (unat (element_size g)) e" "unat (count g)" xs ?a] xs(2-4) g(2,7) eg(2) assms(4) length_ptrs [OF g(2)]
        by (simp add: vals_def)
      moreover have "neoc_array_append A N (Some e) a = (Ok (), ?a)"
        using g(1) p(2) xs(1) by (simp add: neoc_array_append_def then_c_def bind_c_def store_element_def set_count_def)
      ultimately show ?thesis using g(7) by (simp add: el_acts_def)
    qed (use g eg in \<open>simp add: el_acts_def neoc_array_append_def then_c_def bind_c_def\<close>)
  qed (use assms(1) in \<open>simp add: el_acts_def neoc_array_append_def then_c_def bind_c_def\<close>)
qed

lemma insert_el_acts:
  assumes "ea_inv h a" and "bounded_blocks A" and "fresh_blocks N" and "unat (element_size a) \<le> length e"
    and "i < count a \<Longrightarrow> N (blocks a) (unat (element_size a)) \<noteq> None"
  shows "el_acts h a (\<lambda>vs. take (unat i) vs @ Some (take (unat (element_size a)) e) # drop (unat i) vs) (neoc_array_insert A N i (Some e) a)"
proof (cases "count a < i")
  case False
  have "slots_inv a" using assms(1) by (simp add: ea_inv_def)
  from this assms(2) show ?thesis
  proof (rule resize_if_full_cases)
    fix g
    assume g: "resize_if_full A a = (Ok (), g)" "slots_inv g" "ptrs g = ptrs a" "count g = count a" "count g < capacity g"
      "blocks g = blocks a" "element_size g = element_size a"
    have eg: "ea_inv h g" "vals g = vals a" using ea_inv_slots [OF assms(1) g(2,3,6,7)] by simp_all
    have f: "filled (unat (count g)) (elements g)" "unat (count g) < length (elements g)" "unat i \<le> unat (count g)"
      using g(2,4,5) False by (simp_all add: slots_inv_def word_less_nat_alt not_less)
    then obtain xs where m: "memmove_slots (unat i + 1) (unat i) (unat (count g) - unat i) (elements g) = Ok xs"
      by (simp add: memmove_slots_def)
    note sh = shift_right_eq [OF f(2,3) m]
    let ?g = "g\<lparr>elements := xs\<rparr>"
    have "unat (element_size g) \<le> length e" using g(7) assms(4) by simp
    show ?thesis
    proof (cases "N (blocks a) (unat (element_size a))")
      case None
      then have i: "i = count g" using assms(5) False g(4) by fastforce
      then have "xs = elements g" using m by (simp add: memmove_slots_def split: if_splits)
      with None i g eg sh show ?thesis
        using assms(1) by (simp add: el_acts_def neoc_array_insert_def then_c_def bind_c_def copy_element_def ea_inv_def slots_inv_def)
    next
      case (Some p)
      have bp: "blocks g p = None" using assms(3) Some g(6) by (simp add: fresh_blocks_def)
      let ?bs = "take (unat (element_size g)) e"
      have c: "copy_element N e ?g = (Ok p, ?g\<lparr>blocks := (blocks g)(p \<mapsto> ?bs)\<rparr>)"
        using Some g(2,6,7) assms(4) by (simp add: copy_element_def slots_inv_def)
      obtain ys where ys: "bind_r (memmove_slots (unat i + 1) (unat i) (unat (count g) - unat i) (elements g)) (write_slot (unat i) (Some p)) = Ok ys"
        "length ys = length (elements g)" "filled (Suc (unat (count g))) ys"
        "content (Suc (unat (count g))) ys = take (unat i) (ptrs g) @ Some p # drop (unat i) (ptrs g)"
        using f unfolding ptrs_def by (rule shift_up_write)
      let ?a = "g\<lparr>elements := ys, count := count g + 1, blocks := (blocks g)(p \<mapsto> ?bs)\<rparr>"
      have "ea_inv h ?a \<and> vals ?a = take (unat i) (vals a) @ Some ?bs # drop (unat i) (vals a)"
        using ea_new_element [OF eg(1) g(5) bp, of ?bs "unat i" ys ?a] ys(2-4) f(3) g(7) eg(2) assms(4) by simp
      moreover have "neoc_array_insert A N i (Some e) a = (Ok (), ?a)"
        using False g(1,4) c sh m ys(1)
        by (simp add: neoc_array_insert_def then_c_def bind_c_def store_element_def set_count_def)
      ultimately show ?thesis using g(7) by (simp add: el_acts_def)
    qed
  qed (use assms(1) False in \<open>simp add: el_acts_def neoc_array_insert_def then_c_def bind_c_def\<close>)
qed (use assms(1) in \<open>simp add: el_acts_def neoc_array_insert_def\<close>)

lemma split_at: "i < length xs \<Longrightarrow> xs = take i xs @ xs ! i # drop (i + 1) xs"
  by (simp add: id_take_nth_drop)

lemma free_element_eq:
  assumes "ea_inv h a" and "i < count a"
  shows "free_element i a = (Ok (), a\<lparr>blocks := drop_ptr (ptrs a ! unat i) (blocks a)\<rparr>)"
proof -
  have f: "filled (unat (count a)) (elements a)" and i: "unat i < unat (count a)" using assms by (simp_all add: ea_inv_def slots_inv_def word_less_nat_alt)
  have r: "read_slot (elements a) (unat i) = Ok (ptrs a ! unat i)" using read_filled [OF f i] by (simp add: ptrs_def)
  show ?thesis
  proof (cases "ptrs a ! unat i")
    case (Some p)
    then have "Some p \<in> set (ptrs a)" using i length_ptrs [of a] assms(1) by (metis ea_inv_def nth_mem)
    with assms(1) have "blocks a p \<noteq> None" by (auto simp: ea_inv_def owns_def)
    with r Some show ?thesis by (simp add: free_element_def)
  qed (use r in \<open>simp add: free_element_def\<close>)
qed

lemma ptrs_split:
  assumes "ea_inv h a" and "i < count a"
  shows "ptrs a = take (unat i) (ptrs a) @ ptrs a ! unat i # drop (unat i + 1) (ptrs a)"
  using assms length_ptrs [of a] by (intro split_at) (simp add: ea_inv_def word_less_nat_alt)

lemma remove_el_acts:
  assumes "ea_inv h a"
  shows "el_acts h a (\<lambda>vs. take (unat i) vs @ drop (unat i + 1) vs) (neoc_array_remove i a)"
proof (cases "count a \<le> i")
  case False
  then have i: "i < count a" by simp
  let ?bl = "drop_ptr (ptrs a ! unat i) (blocks a)" let ?n = "unat (count a)"
  let ?ps = "take (unat i) (ptrs a) @ drop (unat i + 1) (ptrs a)"
  have f: "filled ?n (elements a)" "unat i < ?n" using assms i by (simp_all add: ea_inv_def slots_inv_def word_less_nat_alt)
  then obtain ys where ys: "memmove_slots (unat i) (unat i + 1) (?n - unat i - 1) (elements a) = Ok ys" "length ys = length (elements a)"
    "filled (?n - 1) ys" "content (?n - 1) ys = ?ps" unfolding ptrs_def by (rule shift_down)
  have pred: "unat (count a - 1) = ?n - 1" using f(2) by (intro unat_pred) (simp add: word_less_nat_alt)
  have "?n \<le> length (elements (a\<lparr>blocks := ?bl\<rparr>))" using f(1) by (simp add: filled_def)
  from shift_left_eq [OF this f(2)] ys(1) have sh: "shift_left (unat i) (?n - 1) (a\<lparr>blocks := ?bl\<rparr>) = (Ok (), a\<lparr>blocks := ?bl, elements := ys\<rparr>)" by simp
  let ?a = "a\<lparr>blocks := ?bl, elements := ys, count := count a - 1\<rparr>"
  have "neoc_array_remove i a = (Ok (), ?a)"
    using False free_element_eq [OF assms i] sh pred by (simp add: neoc_array_remove_def then_c_def bind_c_def set_count_def)
  moreover have "owns h (unat (element_size a)) (take (unat i) (ptrs a) @ ptrs a ! unat i # drop (unat i + 1) (ptrs a)) (blocks a)"
    using assms ptrs_split [OF assms i] by (simp add: ea_inv_def)
  note owns_remove [OF this]
  moreover have "ptrs ?a = ?ps" using ys(4) pred by (simp add: ptrs_def)
  moreover have "slots_inv ?a" using assms ys pred by (auto simp: ea_inv_def slots_inv_def word_le_nat_alt)
  ultimately show ?thesis by (simp add: el_acts_def ea_inv_def vals_def)
qed (use assms in \<open>simp add: el_acts_def neoc_array_remove_def\<close>)

lemma list_update_split: "i < length xs \<Longrightarrow> xs[i := y] = take i xs @ y # drop (i + 1) xs"
  by (simp add: upd_conv_take_nth_drop)

lemma put_slot:
  assumes "ea_inv h a" and "i < count a"
  shows "\<exists>xs. write_slot (unat i) q (elements a) = Ok xs \<and> slots_inv (a\<lparr>blocks := b, elements := xs\<rparr>)
    \<and> ptrs (a\<lparr>blocks := b, elements := xs\<rparr>) = take (unat i) (ptrs a) @ q # drop (unat i + 1) (ptrs a)"
proof -
  have fl: "filled (unat (count a)) (elements a)" "unat i < unat (count a)" using assms by (simp_all add: ea_inv_def slots_inv_def word_less_nat_alt)
  then have li: "unat i < length (ptrs a)" using assms(1) length_ptrs [of a] by (simp add: ea_inv_def)
  from fl obtain xs where "write_slot (unat i) q (elements a) = Ok xs" "length xs = length (elements a)" "filled (unat (count a)) xs"
    "content (unat (count a)) xs = (content (unat (count a)) (elements a))[unat i := q]" by (rule write_inside)
  then show ?thesis using assms(1) list_update_split [OF li, of q] by (auto simp: ea_inv_def slots_inv_def ptrs_def)
qed

text \<open>Replacing an element releases the old one first: when there is no memory for the new one, the slot is null.\<close>

lemma set_el_outcome:
  assumes "ea_inv h a" and "fresh_blocks N" and "unat (element_size a) \<le> length e" and "i < count a"
  shows "\<exists>r v a'. neoc_array_set N i (Some e) a = (r, a') \<and> ea_inv h a' \<and> element_size a' = element_size a \<and> vals a' = (vals a)[unat i := v]
    \<and> (r = Ok () \<and> v = Some (take (unat (element_size a)) e) \<or> r = Err NEOC_ERROR_OUT_OF_MEMORY \<and> v = None)"
proof -
  let ?bl = "drop_ptr (ptrs a ! unat i) (blocks a)" let ?f = "a\<lparr>blocks := ?bl\<rparr>"
  let ?x = "take (unat i) (ptrs a)" and ?y = "drop (unat i + 1) (ptrs a)"
  have sl: "slots_inv ?f" using assms(1) by (simp add: ea_inv_def slots_inv_def)
  have li: "unat i < length (ptrs a)" using assms(1,4) length_ptrs [of a] by (simp add: ea_inv_def word_less_nat_alt)
  have "owns h (unat (element_size a)) (?x @ ptrs a ! unat i # ?y) (blocks a)" using assms(1) ptrs_split [OF assms(1,4)] by (simp add: ea_inv_def)
  note o = owns_remove [OF this]
  have vs: "(vals a)[unat i := v] = vals_of (blocks a) ?x @ v # vals_of (blocks a) ?y" for v
    using list_update_split [of "unat i" "vals a" v] li by (simp add: vals_def)
  have fe: "free_element i a = (Ok (), ?f)" using assms(1,4) by (rule free_element_eq)
  have "unat (element_size ?f) \<le> length e" using assms(3) by simp
  from assms(2) sl this show ?thesis
  proof (rule copy_element_cases)
    assume c: "copy_element N e ?f = (Err NEOC_ERROR_OUT_OF_MEMORY, ?f)"
    from put_slot [OF assms(1,4), of None ?bl] obtain xs where xs: "write_slot (unat i) None (elements a) = Ok xs" "slots_inv (a\<lparr>blocks := ?bl, elements := xs\<rparr>)"
      "ptrs (a\<lparr>blocks := ?bl, elements := xs\<rparr>) = ?x @ None # ?y" by blast
    have "neoc_array_set N i (Some e) a = (Err NEOC_ERROR_OUT_OF_MEMORY, a\<lparr>blocks := ?bl, elements := xs\<rparr>)"
      using assms(4) fe c xs(1) by (simp add: neoc_array_set_def then_c_def bind_c_def store_element_def cmd_eval)
    with xs(2,3) owns_null [OF o(1)] o(2) vs show ?thesis by (simp add: ea_inv_def vals_def)
  next
    fix p
    let ?b = "?bl(p \<mapsto> take (unat (element_size a)) e)"
    assume c: "blocks ?f p = None" "copy_element N e ?f = (Ok p, ?f\<lparr>blocks := (blocks ?f)(p \<mapsto> take (unat (element_size ?f)) e)\<rparr>)"
    from put_slot [OF assms(1,4), of "Some p" ?b] obtain xs where xs: "write_slot (unat i) (Some p) (elements a) = Ok xs" "slots_inv (a\<lparr>blocks := ?b, elements := xs\<rparr>)"
      "ptrs (a\<lparr>blocks := ?b, elements := xs\<rparr>) = ?x @ Some p # ?y" by blast
    have "neoc_array_set N i (Some e) a = (Ok (), a\<lparr>blocks := ?b, elements := xs\<rparr>)"
      using assms(4) fe c xs(1) by (simp add: neoc_array_set_def then_c_def bind_c_def store_element_def cmd_eval)
    moreover note owns_insert [OF o(1), of p "take (unat (element_size a)) e"]
    ultimately show ?thesis using xs(2,3) o(2) vs c(1) assms(3) by (simp add: ea_inv_def vals_def)
  qed
qed

lemma clear_loop:
  assumes "slots_inv a" and "k \<le> unat (count a)" and "owns h (unat (element_size a)) (drop k (ptrs a)) (blocks a)"
  shows "foreach_c (\<lambda>i. free_element (of_nat i)) [k..<unat (count a)] a = (Ok (), a\<lparr>blocks := h\<rparr>)"
  using assms
proof (induction "unat (count a) - k" arbitrary: k a)
  case 0
  then have "blocks a = h" using length_ptrs [of a] by (auto simp: owns_def fun_eq_iff)
  with 0 show ?case by (simp add: cmd_eval)
next
  case (Suc d)
  let ?p = "ptrs a ! k" let ?a = "a\<lparr>blocks := drop_ptr ?p (blocks a)\<rparr>"
  have k: "k < unat (count a)" using Suc.hyps(2) by simp
  have "unat (count a) < 2 ^ 64" by simp
  then have u: "unat (of_nat k :: size_t) = k" using k by (intro unat_of_nat_size) linarith
  have dr: "drop k (ptrs a) = ?p # drop (Suc k) (ptrs a)" using k length_ptrs [OF Suc.prems(1)] by (simp add: Cons_nth_drop_Suc)
  have "filled (unat (count a)) (elements a)" using Suc.prems(1) by (simp add: slots_inv_def)
  from read_filled [OF this k] have r: "read_slot (elements a) k = Ok ?p" by (simp add: ptrs_def)
  have "free_element (of_nat k) a = (Ok (), ?a)"
  proof (cases ?p)
    case (Some q)
    then have "blocks a q \<noteq> None" using Suc.prems(3) dr by (auto simp: owns_def)
    with r u Some show ?thesis by (simp add: free_element_def)
  qed (use r u in \<open>simp add: free_element_def\<close>)
  moreover have "owns h (unat (element_size a)) (drop (Suc k) (ptrs a)) (drop_ptr ?p (blocks a))"
    using owns_remove(1) [of h "unat (element_size a)" "[]" ?p "drop (Suc k) (ptrs a)"] Suc.prems(3) dr by simp
  then have "foreach_c (\<lambda>i. free_element (of_nat i)) [Suc k..<unat (count a)] ?a = (Ok (), ?a\<lparr>blocks := h\<rparr>)"
    using Suc.hyps(1) [of ?a "Suc k"] Suc.hyps(2) Suc.prems(1) k by (simp add: slots_inv_def ptrs_def)
  ultimately show ?case using k by (simp add: upt_conv_Cons then_c_def bind_c_def)
qed

lemma clear_eq: "ea_inv h a \<Longrightarrow> neoc_array_clear a = (Ok (), a\<lparr>blocks := h, count := 0\<rparr>)"
  using clear_loop [of a 0 h] by (simp add: neoc_array_clear_def then_c_def bind_c_def set_count_def ea_inv_def)

text \<open> An array of elements is a list that owns its elements.  Appending, inserting and removing keep the invariant and act as on a list; when
  they report an error, the elements are as before, except that inserting in the middle is only correct when the memory for the new element is there.
  Releasing the array gives back exactly the caller's blocks: nothing is released twice, nothing is left, nothing else is touched.\<close>

theorem element_array_owns:
  assumes "ea_inv h a" and "bounded_blocks A" and "fresh_blocks N" and "unat (element_size a) \<le> length e"
  shows "el_acts h a (\<lambda>vs. vs @ [Some (take (unat (element_size a)) e)]) (neoc_array_append A N (Some e) a)
    \<and> (N (blocks a) (unat (element_size a)) \<noteq> None \<longrightarrow>
        el_acts h a (\<lambda>vs. take (unat i) vs @ Some (take (unat (element_size a)) e) # drop (unat i) vs) (neoc_array_insert A N i (Some e) a)
      \<and> el_acts h a (\<lambda>vs. Some (take (unat (element_size a)) e) # vs) (neoc_array_prepend A N (Some e) a))
    \<and> el_acts h a (\<lambda>vs. take (unat i) vs @ drop (unat i + 1) vs) (neoc_array_remove i a)
    \<and> el_acts h a (\<lambda>_. []) (neoc_array_clear a)
    \<and> neoc_array_free a = Ok h"
proof (intro conjI impI)
  assume n: "N (blocks a) (unat (element_size a)) \<noteq> None"
  show "el_acts h a (\<lambda>vs. Some (take (unat (element_size a)) e) # vs) (neoc_array_prepend A N (Some e) a)"
    using insert_el_acts [where i = 0, OF assms] n by (simp add: neoc_array_prepend_def)
  show "el_acts h a (\<lambda>vs. take (unat i) vs @ Some (take (unat (element_size a)) e) # drop (unat i) vs) (neoc_array_insert A N i (Some e) a)"
    using insert_el_acts [OF assms] n by simp
next
  show "el_acts h a (\<lambda>_. []) (neoc_array_clear a)"
    using clear_eq [OF assms(1)] assms(1) by (simp add: el_acts_def ea_inv_def slots_inv_def owns_def ptrs_def vals_def)
  show "neoc_array_free a = Ok h" using clear_eq [OF assms(1)] by (simp add: neoc_array_free_def)
qed (use assms append_el_acts remove_el_acts in simp_all)

text \<open>A small allocator for the examples: address 7 and then 8.\<close>

definition two_blocks :: element_malloc where
  "two_blocks h n = (if h 7 = None then Some 7 else if h 8 = None then Some 8 else None)"

definition one_element :: neoc_array where
  "one_element = \<lparr>elements = [Some (Some 7), None, None], count = 1, capacity = 3, element_size = 2, blocks = [7 \<mapsto> [1, 2]]\<rparr>"

lemma one_element_inv: "ea_inv Map.empty one_element" "vals one_element = [Some [1, 2]]" "fresh_blocks two_blocks"
  by (auto simp: one_element_def ea_inv_def slots_inv_def filled_def owns_def ptrs_def vals_def content_def vals_of_def fresh_blocks_def two_blocks_def
      split: if_splits)

theorem element_array_owns_witness:
  "\<exists>r a'. neoc_array_append (\<lambda>n. n < 100) two_blocks (Some [3, 4]) one_element = (r, a')
     \<and> ea_inv Map.empty a' \<and> vals a' = (if r = Ok () then [Some [1, 2], Some [3, 4]] else [Some [1, 2]]) \<and> neoc_array_free one_element = Ok Map.empty"
proof -
  have b: "bounded_blocks (\<lambda>n. n < 100)" by (simp add: bounded_blocks_def)
  have "unat (element_size one_element) \<le> length [3, 4 :: byte]" by (simp add: one_element_def)
  from element_array_owns [OF one_element_inv(1) b one_element_inv(3) this, of 0]
  have "el_acts Map.empty one_element (\<lambda>vs. vs @ [Some (take (unat (element_size one_element)) [3, 4])])
      (neoc_array_append (\<lambda>n. n < 100) two_blocks (Some [3, 4]) one_element)" "neoc_array_free one_element = Ok Map.empty" by blast+
  moreover have "take (unat (element_size one_element)) [3, 4 :: byte] = [3, 4]" by (simp add: one_element_def)
  ultimately show ?thesis by (auto simp: el_acts_def one_element_inv)
qed

text \<open>The release loop faults on a block that is not live, and so on two slots with the same pointer.\<close>

lemma free_element_cases:
  "free_element i a = (Fault, a)
   \<or> (\<exists>bl. free_element i a = (Ok (), a\<lparr>blocks := bl\<rparr>) \<and> (\<forall>q. blocks a q = None \<longrightarrow> bl q = None)
        \<and> (\<forall>q. read_slot (elements a) (unat i) = Ok (Some q) \<longrightarrow> bl q = None))"
  by (auto simp: free_element_def intro: exI [of _ "blocks a"] split: result.splits option.splits)

lemma free_dead:
  assumes "read_slot (elements a) k = Ok (Some q)" and "k < 2 ^ 64" and "blocks a q = None" and "k \<in> set is"
  shows "fst (foreach_c (\<lambda>i. free_element (of_nat i)) is a) = Fault"
  using assms(1,3,4)
proof (induction "is" arbitrary: a)
  case (Cons i "is")
  show ?case
  proof (cases "i = k")
    case True
    then have "free_element (of_nat i) a = (Fault, a)" using Cons.prems assms(2) by (simp add: free_element_def unat_of_nat_size)
    then show ?thesis by (simp add: then_c_def bind_c_def)
  next
    case False
    with free_element_cases [of "of_nat i" a] Cons show ?thesis by (auto simp: then_c_def bind_c_def)
  qed
qed simp

lemma free_twice:
  assumes "read_slot (elements a) j = Ok (Some q)" and "read_slot (elements a) k = Ok (Some q)" and "j < 2 ^ 64" and "k < 2 ^ 64" and "k \<in> set ys"
  shows "fst (foreach_c (\<lambda>i. free_element (of_nat i)) (xs @ j # ys) a) = Fault"
  using assms(1,2)
proof (induction xs arbitrary: a)
  case Nil
  from free_element_cases [of "of_nat j" a] show ?case
  proof (elim disjE exE conjE)
    fix bl
    assume bl: "free_element (of_nat j) a = (Ok (), a\<lparr>blocks := bl\<rparr>)" "\<forall>q. read_slot (elements a) (unat (of_nat j :: size_t)) = Ok (Some q) \<longrightarrow> bl q = None"
    then have "fst (foreach_c (\<lambda>i. free_element (of_nat i)) ys (a\<lparr>blocks := bl\<rparr>)) = Fault"
      using Nil assms(3-5) by (intro free_dead [where k = k and q = q]) (simp_all add: unat_of_nat_size)
    with bl(1) show ?thesis by (simp add: then_c_def bind_c_def)
  qed (simp add: then_c_def bind_c_def)
next
  case (Cons x xs)
  from free_element_cases [of "of_nat x" a] Cons show ?case by (auto simp: then_c_def bind_c_def)
qed

text \<open> Inserting before an existing element without memory for the new one fails after the elements have been shifted: the element at the index
  is then in the array twice, the one at the end is lost, and releasing the array releases a block twice.\<close>

theorem insert_refused_double_free:
  assumes "ea_inv h a" and "unat i + 1 < unat (count a)" and "count a < capacity a" and "ptrs a ! unat i = Some p" and "N (blocks a) (unat (element_size a)) = None"
  shows "\<exists>a'. neoc_array_insert A N i (Some e) a = (Err NEOC_ERROR_OUT_OF_MEMORY, a') \<and> neoc_array_free a' = Fault"
proof -
  let ?n = "unat (count a)"
  have lt: "i < count a" "\<not> count a < i" "\<not> capacity a \<le> count a" using assms(2,3) by (simp_all add: word_less_nat_alt not_le)
  have f: "filled ?n (elements a)" "?n < length (elements a)" "unat i \<le> ?n"
    using assms(1-3) by (simp_all add: ea_inv_def slots_inv_def word_less_nat_alt)
  then obtain xs where m: "memmove_slots (unat i + 1) (unat i) (?n - unat i) (elements a) = Ok xs" by (simp add: memmove_slots_def)
  let ?a = "a\<lparr>elements := xs\<rparr>"
  have "neoc_array_insert A N i (Some e) a = (Err NEOC_ERROR_OUT_OF_MEMORY, ?a)"
    using lt assms(5) shift_right_eq [OF f(2,3) m]
    by (simp add: neoc_array_insert_def resize_if_full_def then_c_def bind_c_def copy_element_def)
  moreover have "elements a ! unat i = Some (Some p)" using filled_nth [OF f(1), of "unat i"] assms(2,4) by (simp add: ptrs_def)
  then have "read_slot xs (unat i) = Ok (Some p)" "read_slot xs (unat i + 1) = Ok (Some p)"
    using m assms(2) f(2) by (auto simp: memmove_slots_def read_slot_def nth_append split: if_splits)
  then have "fst (foreach_c (\<lambda>i. free_element (of_nat i)) ([0..<unat i] @ unat i # [unat i + 1..<?n]) ?a) = Fault"
    using assms(2) unat_size_less [of "count a"] by (intro free_twice [where k = "unat i + 1" and q = p]) (simp_all del: unat_size_less)
  moreover have "[0..<unat i] @ unat i # [unat i + 1..<?n] = [0..<?n]"
    using assms(2) by (metis Suc_eq_plus1 add_lessD1 le_add1 le_add2 less_imp_le_nat upt_add_eq_append upt_conv_Cons add_0 le_add_diff_inverse)
  ultimately show ?thesis by (auto simp: neoc_array_free_def neoc_array_clear_def then_c_def bind_c_def split: prod.splits result.splits)
qed

definition three_elements :: neoc_array where
  "three_elements = \<lparr>elements = [Some (Some 7), Some (Some 8), None], count = 2, capacity = 3, element_size = 1, blocks = [7 \<mapsto> [1], 8 \<mapsto> [2]]\<rparr>"

theorem insert_refused_double_free_witness:
  "\<exists>a'. neoc_array_insert (\<lambda>_. True) two_blocks 0 (Some [9]) three_elements = (Err NEOC_ERROR_OUT_OF_MEMORY, a') \<and> neoc_array_free a' = Fault"
proof (rule insert_refused_double_free)
  show "ea_inv Map.empty three_elements"
    by (auto simp: three_elements_def ea_inv_def slots_inv_def filled_def owns_def ptrs_def content_def)
qed (simp_all add: three_elements_def ptrs_def content_def two_blocks_def)

subsection \<open>Byte arrays are byte strings\<close>

definition ba_inv :: "neoc_byte_array \<Rightarrow> bool" where
  "ba_inv b \<longleftrightarrow> 0 < ba_capacity b \<and> unat (ba_capacity b) < 2 ^ 61 \<and> ba_length b \<le> ba_capacity b
     \<and> length (ba_data b) = unat (ba_capacity b) \<and> filled (unat (ba_length b)) (ba_data b)"

definition ba_bytes :: "neoc_byte_array \<Rightarrow> byte list" where
  "ba_bytes b = content (unat (ba_length b)) (ba_data b)"

lemma length_ba_bytes: "ba_inv b \<Longrightarrow> length (ba_bytes b) = unat (ba_length b)"
  by (simp add: ba_inv_def ba_bytes_def)

lemma ba_create_inv:
  assumes "neoc_byte_array_create A cap = Ok b" and "bounded_blocks A"
  shows "ba_inv b" and "ba_bytes b = []" and "ba_length b = 0" and "0 < cap \<Longrightarrow> ba_capacity b = cap"
  using assms by (auto simp: neoc_byte_array_create_def Let_def ba_inv_def ba_bytes_def bounded_blocks_def DEFAULT_BYTE_ARRAY_CAPACITY_def
      word_gt_0 split: if_splits)

lemma ba_store_append:
  assumes "ba_inv b" and "unat (ba_length b) + length data \<le> unat (ba_capacity b)"
  obtains b' where "then_c (ba_store (unat (ba_length b)) data) (\<lambda>b. (Ok (), b\<lparr>ba_length := ba_length b + of_nat (length data)\<rparr>)) b = (Ok (), b')"
    and "ba_inv b'" and "ba_bytes b' = ba_bytes b @ data" and "ba_capacity b' = ba_capacity b" and "unat (ba_length b') = unat (ba_length b) + length data"
proof -
  let ?n = "unat (ba_length b)" and ?d = "ba_data b"
  have d: "length ?d = unat (ba_capacity b)" "filled ?n ?d" "unat (ba_capacity b) < 2 ^ 61" using assms(1) by (simp_all add: ba_inv_def)
  have u: "unat (ba_length b + of_nat (length data)) = ?n + length data"
    using assms(2) d(3) by (simp add: unat_word_ariths unat_of_nat)
  let ?d' = "take ?n ?d @ map Some data @ drop (?n + length data) ?d"
  have "?d' = map Some (ba_bytes b @ data) @ drop (?n + length data) ?d" using d(2) by (simp add: filled_take ba_bytes_def)
  then have f: "filled (?n + length data) ?d' \<and> content (?n + length data) ?d' = ba_bytes b @ data"
    using length_ba_bytes [OF assms(1)] filled_map_Some [of "?n + length data" "ba_bytes b @ data"] by simp
  let ?b = "b\<lparr>ba_data := ?d', ba_length := ba_length b + of_nat (length data)\<rparr>"
  have "ba_inv ?b" using assms d u f by (simp add: ba_inv_def word_le_nat_alt)
  with assms d u f show thesis
    by (intro that [of ?b]) (simp_all add: ba_store_def then_c_def bind_c_def ba_bytes_def)
qed

lemma ba_resize_inv:
  assumes "ba_inv b" and "bounded_blocks A" and "A (unat c)" and "unat (ba_capacity b) < unat c"
  shows "neoc_byte_array_resize A c b = (Ok (), b\<lparr>ba_data := resize_slots (unat c) (ba_data b), ba_capacity := c\<rparr>)"
    and "ba_inv (b\<lparr>ba_data := resize_slots (unat c) (ba_data b), ba_capacity := c\<rparr>)"
    and "ba_bytes (b\<lparr>ba_data := resize_slots (unat c) (ba_data b), ba_capacity := c\<rparr>) = ba_bytes b"
proof -
  have "unat (ba_length b) \<le> unat c" using assms(1,4) by (simp add: ba_inv_def word_le_nat_alt)
  with assms resize_filled [of "unat (ba_length b)" "ba_data b" "unat c"]
  show "neoc_byte_array_resize A c b = (Ok (), b\<lparr>ba_data := resize_slots (unat c) (ba_data b), ba_capacity := c\<rparr>)"
    "ba_inv (b\<lparr>ba_data := resize_slots (unat c) (ba_data b), ba_capacity := c\<rparr>)"
    "ba_bytes (b\<lparr>ba_data := resize_slots (unat c) (ba_data b), ba_capacity := c\<rparr>) = ba_bytes b"
    by (auto simp: neoc_byte_array_resize_def ba_inv_def ba_bytes_def bounded_blocks_def word_le_nat_alt word_less_nat_alt)
qed

lemma append_bytes_cases:
  assumes "ba_inv b" and "bounded_blocks A" and "length data < 2 ^ 61"
  obtains (refused) k where "neoc_byte_array_append_bytes A data b = (Err NEOC_ERROR_OUT_OF_MEMORY, b)" and "\<not> A k"
      and "k < 2 * (unat (ba_length b) + length data)" and "unat (ba_capacity b) < unat (ba_length b) + length data"
  | (appended) b' where "neoc_byte_array_append_bytes A data b = (Ok (), b')" and "ba_inv b'" and "ba_bytes b' = ba_bytes b @ data"
      and "unat (ba_length b') = unat (ba_length b) + length data" and "unat (ba_capacity b) \<le> unat (ba_capacity b')"
proof (cases "data = []")
  case True
  with assms(1) show thesis by (intro appended [of b]) (simp_all add: neoc_byte_array_append_bytes_def)
next
  case False
  let ?req = "ba_length b + of_nat (length data)"
  have small: "unat (ba_length b) \<le> unat (ba_capacity b)" "unat (ba_capacity b) < 2 ^ 61" "0 < unat (ba_capacity b)"
    using assms(1) by (simp_all add: ba_inv_def word_le_nat_alt word_less_nat_alt)
  then have u: "unat ?req = unat (ba_length b) + length data" using assms(3) by (simp add: unat_word_ariths unat_of_nat)
  show thesis
  proof (cases "ba_capacity b < ?req")
    case full: True
    then have "\<exists>c. grow_loop (ba_capacity b) ?req = Some c \<and> unat ?req \<le> unat c \<and> unat c < 2 * unat ?req"
      using small u assms(3) by (intro grow_loop_total) (simp_all add: word_less_nat_alt)
    then obtain c where c: "grow_loop (ba_capacity b) ?req = Some c" "unat ?req \<le> unat c" "unat c < 2 * unat ?req" by blast
    have more: "unat (ba_capacity b) < unat c" using c(2) full by (simp add: word_less_nat_alt)
    show thesis
    proof (cases "A (unat c)")
      case True
      let ?b = "b\<lparr>ba_data := resize_slots (unat c) (ba_data b), ba_capacity := c\<rparr>"
      note r = ba_resize_inv [OF assms(1,2) True more]
      obtain b' where "then_c (ba_store (unat (ba_length ?b)) data) (\<lambda>b. (Ok (), b\<lparr>ba_length := ba_length b + of_nat (length data)\<rparr>)) ?b = (Ok (), b')"
        "ba_inv b'" "ba_bytes b' = ba_bytes ?b @ data" "ba_capacity b' = ba_capacity ?b" "unat (ba_length b') = unat (ba_length ?b) + length data"
        using r(2) by (rule ba_store_append) (use c(2) u in simp)
      with False full c(1) r more show thesis
        by (intro appended [of b']) (simp_all add: neoc_byte_array_append_bytes_def Let_def then_c_def bind_c_def cmd_eval)
    next
      case no: False
      with False full c more u show thesis
        by (intro refused [of "unat c"])
           (auto simp: neoc_byte_array_append_bytes_def Let_def then_c_def bind_c_def neoc_byte_array_resize_def word_less_nat_alt)
    qed
  next
    case fits: False
    obtain b' where "then_c (ba_store (unat (ba_length b)) data) (\<lambda>b. (Ok (), b\<lparr>ba_length := ba_length b + of_nat (length data)\<rparr>)) b = (Ok (), b')"
      "ba_inv b'" "ba_bytes b' = ba_bytes b @ data" "ba_capacity b' = ba_capacity b" "unat (ba_length b') = unat (ba_length b) + length data"
      using assms(1) by (rule ba_store_append) (use fits u in \<open>simp add: word_less_nat_alt not_less\<close>)
    with False fits show thesis
      by (intro appended [of b']) (simp_all add: neoc_byte_array_append_bytes_def Let_def then_c_def bind_c_def cmd_eval)
  qed
qed

text \<open>Appending one byte has the contract of a dynamic array.\<close>

definition append_ok :: "allocator \<Rightarrow> byte \<Rightarrow> (neoc_byte_array, bool) cmd" where
  "append_ok A x b =
     (case neoc_byte_array_append_byte A x b of (Ok _, b) \<Rightarrow> (Ok True, b) | (Err _, b) \<Rightarrow> (Ok False, b) | (Fault, b) \<Rightarrow> (Fault, b))"

definition ba_room :: "allocator \<Rightarrow> nat \<Rightarrow> neoc_byte_array \<Rightarrow> bool" where
  "ba_room A n b \<longleftrightarrow> unat (ba_length b) + n \<le> unat (ba_capacity b) \<or> grants A (2 * (unat (ba_length b) + n))"

interpretation ba: dynamic_array "\<lambda>b. bounded_blocks A \<and> ba_inv b" ba_bytes "ba_room A" "append_ok A" for A
proof
  fix s and x :: byte
  assume "bounded_blocks A \<and> ba_inv s"
  then have s: "ba_inv s" "bounded_blocks A" by simp_all
  moreover have "length [x] < 2 ^ 61" by simp
  ultimately show "\<exists>b s'. append_ok A x s = (Ok b, s') \<and> (bounded_blocks A \<and> ba_inv s') \<and> ba_bytes s' = (if b then ba_bytes s @ [x] else ba_bytes s)"
    by (rule append_bytes_cases) (use s in \<open>auto simp: append_ok_def neoc_byte_array_append_byte_def\<close>)
next
  fix s n and x :: byte
  assume "bounded_blocks A \<and> ba_inv s" and room: "ba_room A (Suc n) s"
  then have s: "ba_inv s" "bounded_blocks A" by simp_all
  moreover have "length [x] < 2 ^ 61" by simp
  ultimately show "\<exists>s'. append_ok A x s = (Ok True, s') \<and> ba_room A n s'"
  proof (rule append_bytes_cases)
    fix k
    assume k: "\<not> A k" "k < 2 * (unat (ba_length s) + length [x])" "unat (ba_capacity s) < unat (ba_length s) + length [x]"
    then have "grants A (2 * (unat (ba_length s) + Suc n))" using room by (simp add: ba_room_def)
    then have "A k" using k(2) by (auto intro: grantsD)
    with k(1) show ?thesis by blast
  next
    fix b'
    assume b': "neoc_byte_array_append_bytes A [x] s = (Ok (), b')" "unat (ba_length b') = unat (ba_length s) + length [x]"
      "unat (ba_capacity s) \<le> unat (ba_capacity b')"
    then have sum: "unat (ba_length b') + n = unat (ba_length s) + Suc n" by simp
    have "ba_room A n b'" using room b'(3) unfolding ba_room_def sum by auto
    with b'(1) show ?thesis by (auto simp: append_ok_def neoc_byte_array_append_byte_def)
  qed
qed

lemma ba_read_all:
  assumes "ba_inv b" and "start + n \<le> unat (ba_length b)"
  shows "ba_read b start n = Ok (take n (drop start (ba_bytes b)))"
proof -
  have f: "filled (unat (ba_length b)) (ba_data b)" using assms(1) by (simp add: ba_inv_def)
  have "map_r (read_slot (ba_data b)) [start..<start + n] = Ok (map (\<lambda>i. ba_bytes b ! i) [start..<start + n])"
    using assms(2) by (intro map_r_Ok) (simp add: read_filled [OF f] ba_bytes_def)
  moreover have "map (\<lambda>i. ba_bytes b ! i) [start..<start + n] = take n (drop start (ba_bytes b))"
    using assms(2) length_ba_bytes [OF assms(1)] by (intro nth_equalityI) simp_all
  ultimately show ?thesis by (simp add: ba_read_def)
qed

text \<open>The pieces put together have the size the new array was created with: appending them never fails.\<close>

lemma ba_append_fits:
  assumes "ba_inv b" and "bounded_blocks A" and "unat (ba_length b) + length data \<le> unat (ba_capacity b)"
  shows "\<exists>b'. neoc_byte_array_append_bytes A data b = (Ok (), b') \<and> ba_inv b' \<and> ba_bytes b' = ba_bytes b @ data
    \<and> unat (ba_length b') = unat (ba_length b) + length data \<and> unat (ba_capacity b) \<le> unat (ba_capacity b')"
proof -
  have "length data < 2 ^ 61" using assms(1,3) by (simp add: ba_inv_def)
  with assms(1,2) show ?thesis by (rule append_bytes_cases) (use assms(3) in auto)
qed

lemma append_array_fits:
  assumes "ba_inv b" and "bounded_blocks A" and "ba_inv src" and "unat (ba_length b) + unat (ba_length src) \<le> unat (ba_capacity b)"
  shows "\<exists>b'. append_array A src b = (Ok (), b') \<and> ba_inv b' \<and> ba_bytes b' = ba_bytes b @ ba_bytes src
    \<and> unat (ba_length b') = unat (ba_length b) + unat (ba_length src) \<and> unat (ba_capacity b) \<le> unat (ba_capacity b')"
proof (cases "0 < ba_length src")
  case True
  have "ba_read src 0 (unat (ba_length src)) = Ok (ba_bytes src)"
    using ba_read_all [OF assms(3), of 0 "unat (ba_length src)"] length_ba_bytes [OF assms(3)] by simp
  with True ba_append_fits [OF assms(1,2), of "ba_bytes src"] assms(4) length_ba_bytes [OF assms(3)] show ?thesis
    by (auto simp: append_array_def bind_c_def)
next
  case False
  then have "ba_bytes src = []" using length_ba_bytes [OF assms(3)] by (simp add: word_gt_0)
  with False assms(1) show ?thesis by (simp add: append_array_def cmd_eval word_gt_0)
qed

text \<open>Whether a new byte array can be had.\<close>

definition ba_granted :: "allocator \<Rightarrow> size_t \<Rightarrow> bool" where
  "ba_granted A cap \<longleftrightarrow> A 24 \<and> A (unat (if 0 < cap then cap else DEFAULT_BYTE_ARRAY_CAPACITY))"

text \<open>The outcome of an operation that makes a new array with the given bytes.\<close>

definition ba_makes :: "allocator \<Rightarrow> size_t \<Rightarrow> byte list \<Rightarrow> neoc_byte_array result \<Rightarrow> bool" where
  "ba_makes A cap bs r \<longleftrightarrow>
     (if ba_granted A cap then \<exists>b. r = Ok b \<and> ba_inv b \<and> ba_bytes b = bs else r = Err NEOC_ERROR_OUT_OF_MEMORY)"

lemma ba_build_makes:
  assumes "bounded_blocks A"
    and "\<And>b. ba_inv b \<Longrightarrow> ba_bytes b = [] \<Longrightarrow> ba_length b = 0 \<Longrightarrow> unat cap \<le> unat (ba_capacity b) \<Longrightarrow> \<exists>b'. m b = (Ok (), b') \<and> ba_inv b' \<and> ba_bytes b' = bs"
  shows "ba_makes A cap bs (ba_build A cap m)"
proof (cases "neoc_byte_array_create A cap")
  case (Ok b)
  note c = ba_create_inv [OF Ok assms(1)]
  have "unat cap \<le> unat (ba_capacity b)" using c(4) by (cases "0 < cap") (auto simp: word_gt_0)
  with assms(2) [OF c(1-3)] Ok show ?thesis
    by (auto simp: ba_makes_def ba_build_def ba_granted_def neoc_byte_array_create_def Let_def split: if_splits)
qed (auto simp: ba_makes_def ba_build_def ba_granted_def neoc_byte_array_create_def Let_def split: if_splits)

lemma ba_length_sums:
  assumes "ba_inv l" and "ba_inv r"
  shows "unat (ba_length l + ba_length r) = unat (ba_length l) + unat (ba_length r)" and "unat (ba_length l + 1) = unat (ba_length l) + 1"
    and "unat (1 + ba_length l) = unat (ba_length l) + 1"
proof -
  have "unat (ba_length b) < 2 ^ 61" if "ba_inv b" for b using that by (simp add: ba_inv_def word_le_nat_alt)
  from this [OF assms(1)] this [OF assms(2)] show "unat (ba_length l + ba_length r) = unat (ba_length l) + unat (ba_length r)"
    "unat (ba_length l + 1) = unat (ba_length l) + 1" "unat (1 + ba_length l) = unat (ba_length l) + 1"
    by (simp_all add: unat_word_ariths)
qed

lemma append_array_empty:
  assumes "ba_inv b" and "ba_bytes b = []" and "ba_length b = 0" and "bounded_blocks A" and "ba_inv l" and "unat (ba_length l) \<le> unat (ba_capacity b)"
  obtains t where "append_array A l b = (Ok (), t)" and "ba_inv t" and "ba_bytes t = ba_bytes l" and "unat (ba_length t) = unat (ba_length l)"
    and "unat (ba_capacity b) \<le> unat (ba_capacity t)"
  using append_array_fits [OF assms(1,4,5)] assms(2,3,6) by auto

lemma concat_makes:
  assumes "bounded_blocks A" and "ba_inv l" and "ba_inv r"
  shows "ba_makes A (ba_length l + ba_length r) (ba_bytes l @ ba_bytes r) (neoc_byte_array_concat A l r)"
  unfolding neoc_byte_array_concat_def
proof (rule ba_build_makes [OF assms(1)])
  fix b
  note sum = ba_length_sums(1) [OF assms(2,3)]
  assume b: "ba_inv b" "ba_bytes b = []" "ba_length b = 0" "unat (ba_length l + ba_length r) \<le> unat (ba_capacity b)"
  obtain t where t: "append_array A l b = (Ok (), t)" "ba_inv t" "ba_bytes t = ba_bytes l" "unat (ba_length t) = unat (ba_length l)"
    "unat (ba_capacity b) \<le> unat (ba_capacity t)" using b(1-3) assms(1,2) by (rule append_array_empty) (use b(4) sum in simp)
  then show "\<exists>b'. then_c (append_array A l) (append_array A r) b = (Ok (), b') \<and> ba_inv b' \<and> ba_bytes b' = ba_bytes l @ ba_bytes r"
    using append_array_fits [OF t(2) assms(1,3)] b(4) sum by (auto simp: then_c_def bind_c_def)
qed

lemma concat_byte_makes:
  assumes "bounded_blocks A" and "ba_inv l"
  shows "ba_makes A (ba_length l + 1) (ba_bytes l @ [x]) (neoc_byte_array_concat_byte A l x)"
  unfolding neoc_byte_array_concat_byte_def
proof (rule ba_build_makes [OF assms(1)])
  fix b
  note sum = ba_length_sums(2) [OF assms(2,2)]
  assume b: "ba_inv b" "ba_bytes b = []" "ba_length b = 0" "unat (ba_length l + 1) \<le> unat (ba_capacity b)"
  obtain t where t: "append_array A l b = (Ok (), t)" "ba_inv t" "ba_bytes t = ba_bytes l" "unat (ba_length t) = unat (ba_length l)"
    "unat (ba_capacity b) \<le> unat (ba_capacity t)" using b(1-3) assms by (rule append_array_empty) (use b(4) sum in simp)
  then show "\<exists>b'. then_c (append_array A l) (neoc_byte_array_append_byte A x) b = (Ok (), b') \<and> ba_inv b' \<and> ba_bytes b' = ba_bytes l @ [x]"
    using ba_append_fits [OF t(2) assms(1), of "[x]"] b(4) sum by (auto simp: then_c_def bind_c_def neoc_byte_array_append_byte_def)
qed

lemma prepend_byte_makes:
  assumes "bounded_blocks A" and "ba_inv l"
  shows "ba_makes A (1 + ba_length l) (x # ba_bytes l) (neoc_byte_array_prepend_byte A x l)"
  unfolding neoc_byte_array_prepend_byte_def
proof (rule ba_build_makes [OF assms(1)])
  fix b
  note sum = ba_length_sums(3) [OF assms(2,2)]
  assume b: "ba_inv b" "ba_bytes b = []" "ba_length b = 0" "unat (1 + ba_length l) \<le> unat (ba_capacity b)"
  then obtain t where t: "neoc_byte_array_append_byte A x b = (Ok (), t)" "ba_inv t" "ba_bytes t = [x]" "unat (ba_length t) = 1"
    "unat (ba_capacity b) \<le> unat (ba_capacity t)"
    using ba_append_fits [OF b(1) assms(1), of "[x]"] sum by (auto simp: neoc_byte_array_append_byte_def)
  then show "\<exists>b'. then_c (neoc_byte_array_append_byte A x) (append_array A l) b = (Ok (), b') \<and> ba_inv b' \<and> ba_bytes b' = x # ba_bytes l"
    using append_array_fits [OF t(2) assms] b(4) sum by (auto simp: then_c_def bind_c_def)
qed

lemma slice_makes:
  assumes "bounded_blocks A" and "ba_inv l" and "i \<le> j" and "j \<le> ba_length l"
  shows "ba_makes A (j - i) (take (unat j - unat i) (drop (unat i) (ba_bytes l))) (neoc_byte_array_slice A l i j)"
proof -
  have d: "unat (j - i) = unat j - unat i" "unat i \<le> unat j" "unat j \<le> unat (ba_length l)" using assms(3,4) by (simp_all add: unat_sub word_le_nat_alt)
  have rd: "ba_read l (unat i) (unat (j - i)) = Ok (take (unat j - unat i) (drop (unat i) (ba_bytes l)))"
    using ba_read_all [OF assms(2), of "unat i" "unat j - unat i"] d by simp
  let ?bs = "take (unat j - unat i) (drop (unat i) (ba_bytes l))"
  have len: "length ?bs = unat j - unat i" using d length_ba_bytes [OF assms(2)] by simp
  have "ba_makes A (j - i) ?bs (ba_build A (j - i) (if 0 < j - i then
      bind_c (lift_c (ba_read l (unat i) (unat (j - i)))) (neoc_byte_array_append_bytes A) else return_c ()))"
  proof (rule ba_build_makes [OF assms(1)])
    fix b
    assume b: "ba_inv b" "ba_bytes b = []" "ba_length b = 0" "unat (j - i) \<le> unat (ba_capacity b)"
    have "unat (ba_length b) + length ?bs \<le> unat (ba_capacity b)" unfolding len using b(3,4) d(1) by simp
    from ba_append_fits [OF b(1) assms(1) this] obtain b' where "neoc_byte_array_append_bytes A ?bs b = (Ok (), b')" "ba_inv b'" "ba_bytes b' = ?bs"
      using b(2) by auto
    moreover have "?bs = []" if "\<not> 0 < j - i" using that len d(1) by (simp add: word_gt_0)
    ultimately show "\<exists>b'. (if 0 < j - i then bind_c (lift_c (ba_read l (unat i) (unat (j - i)))) (neoc_byte_array_append_bytes A)
        else return_c ()) b = (Ok (), b') \<and> ba_inv b' \<and> ba_bytes b' = ?bs"
      using rd b(1,2) by (cases "0 < j - i") (simp_all add: cmd_eval bind_c_def)
  qed
  moreover have "\<not> (j < i \<or> ba_length l < j)" using assms(3,4) by (simp add: not_less)
  ultimately show ?thesis unfolding neoc_byte_array_slice_def by (simp only: if_False)
qed

text \<open> Concatenation, prepending, appending and slicing of byte arrays compute just that on the bytes of the arrays; they fail only when the
  memory for the new array is refused, or when the slice is not inside the array.\<close>

theorem byte_array_algebra:
  assumes "bounded_blocks A" and "ba_inv l" and "ba_inv r"
  shows "ba_makes A (ba_length l + ba_length r) (ba_bytes l @ ba_bytes r) (neoc_byte_array_concat A l r)
    \<and> ba_makes A (ba_length l + 1) (ba_bytes l @ [x]) (neoc_byte_array_concat_byte A l x)
    \<and> ba_makes A (1 + ba_length l) (x # ba_bytes l) (neoc_byte_array_prepend_byte A x l)
    \<and> (if i \<le> j \<and> j \<le> ba_length l
       then ba_makes A (j - i) (take (unat j - unat i) (drop (unat i) (ba_bytes l))) (neoc_byte_array_slice A l i j)
       else neoc_byte_array_slice A l i j = Err NEOC_ERROR_INVALID_PARAM)"
  using concat_makes concat_byte_makes prepend_byte_makes slice_makes assms by (auto simp: neoc_byte_array_slice_def)

definition hi_bytes :: neoc_byte_array where
  "hi_bytes = \<lparr>ba_data = [Some 72, Some 105, None], ba_length = 2, ba_capacity = 3\<rparr>"

lemma hi_bytes_inv: "ba_inv hi_bytes" "ba_bytes hi_bytes = [72, 105]" "ba_length hi_bytes = 2"
  by (simp_all add: hi_bytes_def ba_inv_def ba_bytes_def filled_def content_def)

theorem byte_array_algebra_witness:
  "\<exists>b c. neoc_byte_array_concat (\<lambda>n. n < 100) hi_bytes hi_bytes = Ok b \<and> ba_bytes b = [72, 105, 72, 105]
     \<and> neoc_byte_array_slice (\<lambda>n. n < 100) hi_bytes 1 2 = Ok c \<and> ba_bytes c = [105]"
proof -
  have "bounded_blocks (\<lambda>n. n < 100)" by (simp add: bounded_blocks_def)
  from byte_array_algebra [OF this hi_bytes_inv(1) hi_bytes_inv(1), of 0 1 2] show ?thesis
    by (auto simp: ba_makes_def ba_granted_def hi_bytes_inv)
qed

end
