(* ===== verification/Bip39_Wordlist.thy ===== *)
theory Bip39_Wordlist
  imports NeoC_Prelude
begin

text \<open>
  The English word list of \<^verbatim>\<open>crypto/bip39.c\<close>, in sixteen pieces of 128 words, and the comparison of words.  The search in the list relies on
  its order: the words are strictly ascending for \<^verbatim>\<open>strcmp\<close>.
\<close>

subsection \<open>Comparison\<close>

text \<open>\<^verbatim>\<open>strcmp\<close>: the sign of the first difference of the characters as unsigned numbers.\<close>

fun strcmp_c :: "string \<Rightarrow> string \<Rightarrow> int" where
  "strcmp_c [] [] = 0"
| "strcmp_c [] (_ # _) = - 1"
| "strcmp_c (_ # _) [] = 1"
| "strcmp_c (a # s) (b # t) = (if a = b then strcmp_c s t else if of_char a < (of_char b :: nat) then - 1 else 1)"

fun ascending :: "string list \<Rightarrow> bool" where
  "ascending (x # y # zs) \<longleftrightarrow> strcmp_c x y < 0 \<and> ascending (y # zs)"
| "ascending _ \<longleftrightarrow> True"

definition plain_word :: "string \<Rightarrow> bool" where
  "plain_word s \<longleftrightarrow> s \<noteq> [] \<and> length s \<le> 8 \<and> CHR '' '' \<notin> set s"

subsection \<open>The words\<close>

definition words_00 :: "string list" where
  "words_00 =
    [''abandon'', ''ability'', ''able'', ''about'', ''above'', ''absent'', ''absorb'', ''abstract'',
     ''absurd'', ''abuse'', ''access'', ''accident'', ''account'', ''accuse'', ''achieve'', ''acid'',
     ''acoustic'', ''acquire'', ''across'', ''act'', ''action'', ''actor'', ''actress'', ''actual'',
     ''adapt'', ''add'', ''addict'', ''address'', ''adjust'', ''admit'', ''adult'', ''advance'',
     ''advice'', ''aerobic'', ''affair'', ''afford'', ''afraid'', ''again'', ''age'', ''agent'',
     ''agree'', ''ahead'', ''aim'', ''air'', ''airport'', ''aisle'', ''alarm'', ''album'',
     ''alcohol'', ''alert'', ''alien'', ''all'', ''alley'', ''allow'', ''almost'', ''alone'',
     ''alpha'', ''already'', ''also'', ''alter'', ''always'', ''amateur'', ''amazing'', ''among'',
     ''amount'', ''amused'', ''analyst'', ''anchor'', ''ancient'', ''anger'', ''angle'', ''angry'',
     ''animal'', ''ankle'', ''announce'', ''annual'', ''another'', ''answer'', ''antenna'', ''antique'',
     ''anxiety'', ''any'', ''apart'', ''apology'', ''appear'', ''apple'', ''approve'', ''april'',
     ''arch'', ''arctic'', ''area'', ''arena'', ''argue'', ''arm'', ''armed'', ''armor'',
     ''army'', ''around'', ''arrange'', ''arrest'', ''arrive'', ''arrow'', ''art'', ''artefact'',
     ''artist'', ''artwork'', ''ask'', ''aspect'', ''assault'', ''asset'', ''assist'', ''assume'',
     ''asthma'', ''athlete'', ''atom'', ''attack'', ''attend'', ''attitude'', ''attract'', ''auction'',
     ''audit'', ''august'', ''aunt'', ''author'', ''auto'', ''autumn'', ''average'', ''avocado'']"

definition words_01 :: "string list" where
  "words_01 =
    [''avoid'', ''awake'', ''aware'', ''away'', ''awesome'', ''awful'', ''awkward'', ''axis'',
     ''baby'', ''bachelor'', ''bacon'', ''badge'', ''bag'', ''balance'', ''balcony'', ''ball'',
     ''bamboo'', ''banana'', ''banner'', ''bar'', ''barely'', ''bargain'', ''barrel'', ''base'',
     ''basic'', ''basket'', ''battle'', ''beach'', ''bean'', ''beauty'', ''because'', ''become'',
     ''beef'', ''before'', ''begin'', ''behave'', ''behind'', ''believe'', ''below'', ''belt'',
     ''bench'', ''benefit'', ''best'', ''betray'', ''better'', ''between'', ''beyond'', ''bicycle'',
     ''bid'', ''bike'', ''bind'', ''biology'', ''bird'', ''birth'', ''bitter'', ''black'',
     ''blade'', ''blame'', ''blanket'', ''blast'', ''bleak'', ''bless'', ''blind'', ''blood'',
     ''blossom'', ''blouse'', ''blue'', ''blur'', ''blush'', ''board'', ''boat'', ''body'',
     ''boil'', ''bomb'', ''bone'', ''bonus'', ''book'', ''boost'', ''border'', ''boring'',
     ''borrow'', ''boss'', ''bottom'', ''bounce'', ''box'', ''boy'', ''bracket'', ''brain'',
     ''brand'', ''brass'', ''brave'', ''bread'', ''breeze'', ''brick'', ''bridge'', ''brief'',
     ''bright'', ''bring'', ''brisk'', ''broccoli'', ''broken'', ''bronze'', ''broom'', ''brother'',
     ''brown'', ''brush'', ''bubble'', ''buddy'', ''budget'', ''buffalo'', ''build'', ''bulb'',
     ''bulk'', ''bullet'', ''bundle'', ''bunker'', ''burden'', ''burger'', ''burst'', ''bus'',
     ''business'', ''busy'', ''butter'', ''buyer'', ''buzz'', ''cabbage'', ''cabin'', ''cable'']"

definition words_02 :: "string list" where
  "words_02 =
    [''cactus'', ''cage'', ''cake'', ''call'', ''calm'', ''camera'', ''camp'', ''can'',
     ''canal'', ''cancel'', ''candy'', ''cannon'', ''canoe'', ''canvas'', ''canyon'', ''capable'',
     ''capital'', ''captain'', ''car'', ''carbon'', ''card'', ''cargo'', ''carpet'', ''carry'',
     ''cart'', ''case'', ''cash'', ''casino'', ''castle'', ''casual'', ''cat'', ''catalog'',
     ''catch'', ''category'', ''cattle'', ''caught'', ''cause'', ''caution'', ''cave'', ''ceiling'',
     ''celery'', ''cement'', ''census'', ''century'', ''cereal'', ''certain'', ''chair'', ''chalk'',
     ''champion'', ''change'', ''chaos'', ''chapter'', ''charge'', ''chase'', ''chat'', ''cheap'',
     ''check'', ''cheese'', ''chef'', ''cherry'', ''chest'', ''chicken'', ''chief'', ''child'',
     ''chimney'', ''choice'', ''choose'', ''chronic'', ''chuckle'', ''chunk'', ''churn'', ''cigar'',
     ''cinnamon'', ''circle'', ''citizen'', ''city'', ''civil'', ''claim'', ''clap'', ''clarify'',
     ''claw'', ''clay'', ''clean'', ''clerk'', ''clever'', ''click'', ''client'', ''cliff'',
     ''climb'', ''clinic'', ''clip'', ''clock'', ''clog'', ''close'', ''cloth'', ''cloud'',
     ''clown'', ''club'', ''clump'', ''cluster'', ''clutch'', ''coach'', ''coast'', ''coconut'',
     ''code'', ''coffee'', ''coil'', ''coin'', ''collect'', ''color'', ''column'', ''combine'',
     ''come'', ''comfort'', ''comic'', ''common'', ''company'', ''concert'', ''conduct'', ''confirm'',
     ''congress'', ''connect'', ''consider'', ''control'', ''convince'', ''cook'', ''cool'', ''copper'']"

definition words_03 :: "string list" where
  "words_03 =
    [''copy'', ''coral'', ''core'', ''corn'', ''correct'', ''cost'', ''cotton'', ''couch'',
     ''country'', ''couple'', ''course'', ''cousin'', ''cover'', ''coyote'', ''crack'', ''cradle'',
     ''craft'', ''cram'', ''crane'', ''crash'', ''crater'', ''crawl'', ''crazy'', ''cream'',
     ''credit'', ''creek'', ''crew'', ''cricket'', ''crime'', ''crisp'', ''critic'', ''crop'',
     ''cross'', ''crouch'', ''crowd'', ''crucial'', ''cruel'', ''cruise'', ''crumble'', ''crunch'',
     ''crush'', ''cry'', ''crystal'', ''cube'', ''culture'', ''cup'', ''cupboard'', ''curious'',
     ''current'', ''curtain'', ''curve'', ''cushion'', ''custom'', ''cute'', ''cycle'', ''dad'',
     ''damage'', ''damp'', ''dance'', ''danger'', ''daring'', ''dash'', ''daughter'', ''dawn'',
     ''day'', ''deal'', ''debate'', ''debris'', ''decade'', ''december'', ''decide'', ''decline'',
     ''decorate'', ''decrease'', ''deer'', ''defense'', ''define'', ''defy'', ''degree'', ''delay'',
     ''deliver'', ''demand'', ''demise'', ''denial'', ''dentist'', ''deny'', ''depart'', ''depend'',
     ''deposit'', ''depth'', ''deputy'', ''derive'', ''describe'', ''desert'', ''design'', ''desk'',
     ''despair'', ''destroy'', ''detail'', ''detect'', ''develop'', ''device'', ''devote'', ''diagram'',
     ''dial'', ''diamond'', ''diary'', ''dice'', ''diesel'', ''diet'', ''differ'', ''digital'',
     ''dignity'', ''dilemma'', ''dinner'', ''dinosaur'', ''direct'', ''dirt'', ''disagree'', ''discover'',
     ''disease'', ''dish'', ''dismiss'', ''disorder'', ''display'', ''distance'', ''divert'', ''divide'']"

definition words_04 :: "string list" where
  "words_04 =
    [''divorce'', ''dizzy'', ''doctor'', ''document'', ''dog'', ''doll'', ''dolphin'', ''domain'',
     ''donate'', ''donkey'', ''donor'', ''door'', ''dose'', ''double'', ''dove'', ''draft'',
     ''dragon'', ''drama'', ''drastic'', ''draw'', ''dream'', ''dress'', ''drift'', ''drill'',
     ''drink'', ''drip'', ''drive'', ''drop'', ''drum'', ''dry'', ''duck'', ''dumb'',
     ''dune'', ''during'', ''dust'', ''dutch'', ''duty'', ''dwarf'', ''dynamic'', ''eager'',
     ''eagle'', ''early'', ''earn'', ''earth'', ''easily'', ''east'', ''easy'', ''echo'',
     ''ecology'', ''economy'', ''edge'', ''edit'', ''educate'', ''effort'', ''egg'', ''eight'',
     ''either'', ''elbow'', ''elder'', ''electric'', ''elegant'', ''element'', ''elephant'', ''elevator'',
     ''elite'', ''else'', ''embark'', ''embody'', ''embrace'', ''emerge'', ''emotion'', ''employ'',
     ''empower'', ''empty'', ''enable'', ''enact'', ''end'', ''endless'', ''endorse'', ''enemy'',
     ''energy'', ''enforce'', ''engage'', ''engine'', ''enhance'', ''enjoy'', ''enlist'', ''enough'',
     ''enrich'', ''enroll'', ''ensure'', ''enter'', ''entire'', ''entry'', ''envelope'', ''episode'',
     ''equal'', ''equip'', ''era'', ''erase'', ''erode'', ''erosion'', ''error'', ''erupt'',
     ''escape'', ''essay'', ''essence'', ''estate'', ''eternal'', ''ethics'', ''evidence'', ''evil'',
     ''evoke'', ''evolve'', ''exact'', ''example'', ''excess'', ''exchange'', ''excite'', ''exclude'',
     ''excuse'', ''execute'', ''exercise'', ''exhaust'', ''exhibit'', ''exile'', ''exist'', ''exit'']"

definition words_05 :: "string list" where
  "words_05 =
    [''exotic'', ''expand'', ''expect'', ''expire'', ''explain'', ''expose'', ''express'', ''extend'',
     ''extra'', ''eye'', ''eyebrow'', ''fabric'', ''face'', ''faculty'', ''fade'', ''faint'',
     ''faith'', ''fall'', ''false'', ''fame'', ''family'', ''famous'', ''fan'', ''fancy'',
     ''fantasy'', ''farm'', ''fashion'', ''fat'', ''fatal'', ''father'', ''fatigue'', ''fault'',
     ''favorite'', ''feature'', ''february'', ''federal'', ''fee'', ''feed'', ''feel'', ''female'',
     ''fence'', ''festival'', ''fetch'', ''fever'', ''few'', ''fiber'', ''fiction'', ''field'',
     ''figure'', ''file'', ''film'', ''filter'', ''final'', ''find'', ''fine'', ''finger'',
     ''finish'', ''fire'', ''firm'', ''first'', ''fiscal'', ''fish'', ''fit'', ''fitness'',
     ''fix'', ''flag'', ''flame'', ''flash'', ''flat'', ''flavor'', ''flee'', ''flight'',
     ''flip'', ''float'', ''flock'', ''floor'', ''flower'', ''fluid'', ''flush'', ''fly'',
     ''foam'', ''focus'', ''fog'', ''foil'', ''fold'', ''follow'', ''food'', ''foot'',
     ''force'', ''forest'', ''forget'', ''fork'', ''fortune'', ''forum'', ''forward'', ''fossil'',
     ''foster'', ''found'', ''fox'', ''fragile'', ''frame'', ''frequent'', ''fresh'', ''friend'',
     ''fringe'', ''frog'', ''front'', ''frost'', ''frown'', ''frozen'', ''fruit'', ''fuel'',
     ''fun'', ''funny'', ''furnace'', ''fury'', ''future'', ''gadget'', ''gain'', ''galaxy'',
     ''gallery'', ''game'', ''gap'', ''garage'', ''garbage'', ''garden'', ''garlic'', ''garment'']"

definition words_06 :: "string list" where
  "words_06 =
    [''gas'', ''gasp'', ''gate'', ''gather'', ''gauge'', ''gaze'', ''general'', ''genius'',
     ''genre'', ''gentle'', ''genuine'', ''gesture'', ''ghost'', ''giant'', ''gift'', ''giggle'',
     ''ginger'', ''giraffe'', ''girl'', ''give'', ''glad'', ''glance'', ''glare'', ''glass'',
     ''glide'', ''glimpse'', ''globe'', ''gloom'', ''glory'', ''glove'', ''glow'', ''glue'',
     ''goat'', ''goddess'', ''gold'', ''good'', ''goose'', ''gorilla'', ''gospel'', ''gossip'',
     ''govern'', ''gown'', ''grab'', ''grace'', ''grain'', ''grant'', ''grape'', ''grass'',
     ''gravity'', ''great'', ''green'', ''grid'', ''grief'', ''grit'', ''grocery'', ''group'',
     ''grow'', ''grunt'', ''guard'', ''guess'', ''guide'', ''guilt'', ''guitar'', ''gun'',
     ''gym'', ''habit'', ''hair'', ''half'', ''hammer'', ''hamster'', ''hand'', ''happy'',
     ''harbor'', ''hard'', ''harsh'', ''harvest'', ''hat'', ''have'', ''hawk'', ''hazard'',
     ''head'', ''health'', ''heart'', ''heavy'', ''hedgehog'', ''height'', ''hello'', ''helmet'',
     ''help'', ''hen'', ''hero'', ''hidden'', ''high'', ''hill'', ''hint'', ''hip'',
     ''hire'', ''history'', ''hobby'', ''hockey'', ''hold'', ''hole'', ''holiday'', ''hollow'',
     ''home'', ''honey'', ''hood'', ''hope'', ''horn'', ''horror'', ''horse'', ''hospital'',
     ''host'', ''hotel'', ''hour'', ''hover'', ''hub'', ''huge'', ''human'', ''humble'',
     ''humor'', ''hundred'', ''hungry'', ''hunt'', ''hurdle'', ''hurry'', ''hurt'', ''husband'']"

definition words_07 :: "string list" where
  "words_07 =
    [''hybrid'', ''ice'', ''icon'', ''idea'', ''identify'', ''idle'', ''ignore'', ''ill'',
     ''illegal'', ''illness'', ''image'', ''imitate'', ''immense'', ''immune'', ''impact'', ''impose'',
     ''improve'', ''impulse'', ''inch'', ''include'', ''income'', ''increase'', ''index'', ''indicate'',
     ''indoor'', ''industry'', ''infant'', ''inflict'', ''inform'', ''inhale'', ''inherit'', ''initial'',
     ''inject'', ''injury'', ''inmate'', ''inner'', ''innocent'', ''input'', ''inquiry'', ''insane'',
     ''insect'', ''inside'', ''inspire'', ''install'', ''intact'', ''interest'', ''into'', ''invest'',
     ''invite'', ''involve'', ''iron'', ''island'', ''isolate'', ''issue'', ''item'', ''ivory'',
     ''jacket'', ''jaguar'', ''jar'', ''jazz'', ''jealous'', ''jeans'', ''jelly'', ''jewel'',
     ''job'', ''join'', ''joke'', ''journey'', ''joy'', ''judge'', ''juice'', ''jump'',
     ''jungle'', ''junior'', ''junk'', ''just'', ''kangaroo'', ''keen'', ''keep'', ''ketchup'',
     ''key'', ''kick'', ''kid'', ''kidney'', ''kind'', ''kingdom'', ''kiss'', ''kit'',
     ''kitchen'', ''kite'', ''kitten'', ''kiwi'', ''knee'', ''knife'', ''knock'', ''know'',
     ''lab'', ''label'', ''labor'', ''ladder'', ''lady'', ''lake'', ''lamp'', ''language'',
     ''laptop'', ''large'', ''later'', ''latin'', ''laugh'', ''laundry'', ''lava'', ''law'',
     ''lawn'', ''lawsuit'', ''layer'', ''lazy'', ''leader'', ''leaf'', ''learn'', ''leave'',
     ''lecture'', ''left'', ''leg'', ''legal'', ''legend'', ''leisure'', ''lemon'', ''lend'']"

definition words_08 :: "string list" where
  "words_08 =
    [''length'', ''lens'', ''leopard'', ''lesson'', ''letter'', ''level'', ''liar'', ''liberty'',
     ''library'', ''license'', ''life'', ''lift'', ''light'', ''like'', ''limb'', ''limit'',
     ''link'', ''lion'', ''liquid'', ''list'', ''little'', ''live'', ''lizard'', ''load'',
     ''loan'', ''lobster'', ''local'', ''lock'', ''logic'', ''lonely'', ''long'', ''loop'',
     ''lottery'', ''loud'', ''lounge'', ''love'', ''loyal'', ''lucky'', ''luggage'', ''lumber'',
     ''lunar'', ''lunch'', ''luxury'', ''lyrics'', ''machine'', ''mad'', ''magic'', ''magnet'',
     ''maid'', ''mail'', ''main'', ''major'', ''make'', ''mammal'', ''man'', ''manage'',
     ''mandate'', ''mango'', ''mansion'', ''manual'', ''maple'', ''marble'', ''march'', ''margin'',
     ''marine'', ''market'', ''marriage'', ''mask'', ''mass'', ''master'', ''match'', ''material'',
     ''math'', ''matrix'', ''matter'', ''maximum'', ''maze'', ''meadow'', ''mean'', ''measure'',
     ''meat'', ''mechanic'', ''medal'', ''media'', ''melody'', ''melt'', ''member'', ''memory'',
     ''mention'', ''menu'', ''mercy'', ''merge'', ''merit'', ''merry'', ''mesh'', ''message'',
     ''metal'', ''method'', ''middle'', ''midnight'', ''milk'', ''million'', ''mimic'', ''mind'',
     ''minimum'', ''minor'', ''minute'', ''miracle'', ''mirror'', ''misery'', ''miss'', ''mistake'',
     ''mix'', ''mixed'', ''mixture'', ''mobile'', ''model'', ''modify'', ''mom'', ''moment'',
     ''monitor'', ''monkey'', ''monster'', ''month'', ''moon'', ''moral'', ''more'', ''morning'']"

definition words_09 :: "string list" where
  "words_09 =
    [''mosquito'', ''mother'', ''motion'', ''motor'', ''mountain'', ''mouse'', ''move'', ''movie'',
     ''much'', ''muffin'', ''mule'', ''multiply'', ''muscle'', ''museum'', ''mushroom'', ''music'',
     ''must'', ''mutual'', ''myself'', ''mystery'', ''myth'', ''naive'', ''name'', ''napkin'',
     ''narrow'', ''nasty'', ''nation'', ''nature'', ''near'', ''neck'', ''need'', ''negative'',
     ''neglect'', ''neither'', ''nephew'', ''nerve'', ''nest'', ''net'', ''network'', ''neutral'',
     ''never'', ''news'', ''next'', ''nice'', ''night'', ''noble'', ''noise'', ''nominee'',
     ''noodle'', ''normal'', ''north'', ''nose'', ''notable'', ''note'', ''nothing'', ''notice'',
     ''novel'', ''now'', ''nuclear'', ''number'', ''nurse'', ''nut'', ''oak'', ''obey'',
     ''object'', ''oblige'', ''obscure'', ''observe'', ''obtain'', ''obvious'', ''occur'', ''ocean'',
     ''october'', ''odor'', ''off'', ''offer'', ''office'', ''often'', ''oil'', ''okay'',
     ''old'', ''olive'', ''olympic'', ''omit'', ''once'', ''one'', ''onion'', ''online'',
     ''only'', ''open'', ''opera'', ''opinion'', ''oppose'', ''option'', ''orange'', ''orbit'',
     ''orchard'', ''order'', ''ordinary'', ''organ'', ''orient'', ''original'', ''orphan'', ''ostrich'',
     ''other'', ''outdoor'', ''outer'', ''output'', ''outside'', ''oval'', ''oven'', ''over'',
     ''own'', ''owner'', ''oxygen'', ''oyster'', ''ozone'', ''pact'', ''paddle'', ''page'',
     ''pair'', ''palace'', ''palm'', ''panda'', ''panel'', ''panic'', ''panther'', ''paper'']"

definition words_10 :: "string list" where
  "words_10 =
    [''parade'', ''parent'', ''park'', ''parrot'', ''party'', ''pass'', ''patch'', ''path'',
     ''patient'', ''patrol'', ''pattern'', ''pause'', ''pave'', ''payment'', ''peace'', ''peanut'',
     ''pear'', ''peasant'', ''pelican'', ''pen'', ''penalty'', ''pencil'', ''people'', ''pepper'',
     ''perfect'', ''permit'', ''person'', ''pet'', ''phone'', ''photo'', ''phrase'', ''physical'',
     ''piano'', ''picnic'', ''picture'', ''piece'', ''pig'', ''pigeon'', ''pill'', ''pilot'',
     ''pink'', ''pioneer'', ''pipe'', ''pistol'', ''pitch'', ''pizza'', ''place'', ''planet'',
     ''plastic'', ''plate'', ''play'', ''please'', ''pledge'', ''pluck'', ''plug'', ''plunge'',
     ''poem'', ''poet'', ''point'', ''polar'', ''pole'', ''police'', ''pond'', ''pony'',
     ''pool'', ''popular'', ''portion'', ''position'', ''possible'', ''post'', ''potato'', ''pottery'',
     ''poverty'', ''powder'', ''power'', ''practice'', ''praise'', ''predict'', ''prefer'', ''prepare'',
     ''present'', ''pretty'', ''prevent'', ''price'', ''pride'', ''primary'', ''print'', ''priority'',
     ''prison'', ''private'', ''prize'', ''problem'', ''process'', ''produce'', ''profit'', ''program'',
     ''project'', ''promote'', ''proof'', ''property'', ''prosper'', ''protect'', ''proud'', ''provide'',
     ''public'', ''pudding'', ''pull'', ''pulp'', ''pulse'', ''pumpkin'', ''punch'', ''pupil'',
     ''puppy'', ''purchase'', ''purity'', ''purpose'', ''purse'', ''push'', ''put'', ''puzzle'',
     ''pyramid'', ''quality'', ''quantum'', ''quarter'', ''question'', ''quick'', ''quit'', ''quiz'']"

definition words_11 :: "string list" where
  "words_11 =
    [''quote'', ''rabbit'', ''raccoon'', ''race'', ''rack'', ''radar'', ''radio'', ''rail'',
     ''rain'', ''raise'', ''rally'', ''ramp'', ''ranch'', ''random'', ''range'', ''rapid'',
     ''rare'', ''rate'', ''rather'', ''raven'', ''raw'', ''razor'', ''ready'', ''real'',
     ''reason'', ''rebel'', ''rebuild'', ''recall'', ''receive'', ''recipe'', ''record'', ''recycle'',
     ''reduce'', ''reflect'', ''reform'', ''refuse'', ''region'', ''regret'', ''regular'', ''reject'',
     ''relax'', ''release'', ''relief'', ''rely'', ''remain'', ''remember'', ''remind'', ''remove'',
     ''render'', ''renew'', ''rent'', ''reopen'', ''repair'', ''repeat'', ''replace'', ''report'',
     ''require'', ''rescue'', ''resemble'', ''resist'', ''resource'', ''response'', ''result'', ''retire'',
     ''retreat'', ''return'', ''reunion'', ''reveal'', ''review'', ''reward'', ''rhythm'', ''rib'',
     ''ribbon'', ''rice'', ''rich'', ''ride'', ''ridge'', ''rifle'', ''right'', ''rigid'',
     ''ring'', ''riot'', ''ripple'', ''risk'', ''ritual'', ''rival'', ''river'', ''road'',
     ''roast'', ''robot'', ''robust'', ''rocket'', ''romance'', ''roof'', ''rookie'', ''room'',
     ''rose'', ''rotate'', ''rough'', ''round'', ''route'', ''royal'', ''rubber'', ''rude'',
     ''rug'', ''rule'', ''run'', ''runway'', ''rural'', ''sad'', ''saddle'', ''sadness'',
     ''safe'', ''sail'', ''salad'', ''salmon'', ''salon'', ''salt'', ''salute'', ''same'',
     ''sample'', ''sand'', ''satisfy'', ''satoshi'', ''sauce'', ''sausage'', ''save'', ''say'']"

definition words_12 :: "string list" where
  "words_12 =
    [''scale'', ''scan'', ''scare'', ''scatter'', ''scene'', ''scheme'', ''school'', ''science'',
     ''scissors'', ''scorpion'', ''scout'', ''scrap'', ''screen'', ''script'', ''scrub'', ''sea'',
     ''search'', ''season'', ''seat'', ''second'', ''secret'', ''section'', ''security'', ''seed'',
     ''seek'', ''segment'', ''select'', ''sell'', ''seminar'', ''senior'', ''sense'', ''sentence'',
     ''series'', ''service'', ''session'', ''settle'', ''setup'', ''seven'', ''shadow'', ''shaft'',
     ''shallow'', ''share'', ''shed'', ''shell'', ''sheriff'', ''shield'', ''shift'', ''shine'',
     ''ship'', ''shiver'', ''shock'', ''shoe'', ''shoot'', ''shop'', ''short'', ''shoulder'',
     ''shove'', ''shrimp'', ''shrug'', ''shuffle'', ''shy'', ''sibling'', ''sick'', ''side'',
     ''siege'', ''sight'', ''sign'', ''silent'', ''silk'', ''silly'', ''silver'', ''similar'',
     ''simple'', ''since'', ''sing'', ''siren'', ''sister'', ''situate'', ''six'', ''size'',
     ''skate'', ''sketch'', ''ski'', ''skill'', ''skin'', ''skirt'', ''skull'', ''slab'',
     ''slam'', ''sleep'', ''slender'', ''slice'', ''slide'', ''slight'', ''slim'', ''slogan'',
     ''slot'', ''slow'', ''slush'', ''small'', ''smart'', ''smile'', ''smoke'', ''smooth'',
     ''snack'', ''snake'', ''snap'', ''sniff'', ''snow'', ''soap'', ''soccer'', ''social'',
     ''sock'', ''soda'', ''soft'', ''solar'', ''soldier'', ''solid'', ''solution'', ''solve'',
     ''someone'', ''song'', ''soon'', ''sorry'', ''sort'', ''soul'', ''sound'', ''soup'']"

definition words_13 :: "string list" where
  "words_13 =
    [''source'', ''south'', ''space'', ''spare'', ''spatial'', ''spawn'', ''speak'', ''special'',
     ''speed'', ''spell'', ''spend'', ''sphere'', ''spice'', ''spider'', ''spike'', ''spin'',
     ''spirit'', ''split'', ''spoil'', ''sponsor'', ''spoon'', ''sport'', ''spot'', ''spray'',
     ''spread'', ''spring'', ''spy'', ''square'', ''squeeze'', ''squirrel'', ''stable'', ''stadium'',
     ''staff'', ''stage'', ''stairs'', ''stamp'', ''stand'', ''start'', ''state'', ''stay'',
     ''steak'', ''steel'', ''stem'', ''step'', ''stereo'', ''stick'', ''still'', ''sting'',
     ''stock'', ''stomach'', ''stone'', ''stool'', ''story'', ''stove'', ''strategy'', ''street'',
     ''strike'', ''strong'', ''struggle'', ''student'', ''stuff'', ''stumble'', ''style'', ''subject'',
     ''submit'', ''subway'', ''success'', ''such'', ''sudden'', ''suffer'', ''sugar'', ''suggest'',
     ''suit'', ''summer'', ''sun'', ''sunny'', ''sunset'', ''super'', ''supply'', ''supreme'',
     ''sure'', ''surface'', ''surge'', ''surprise'', ''surround'', ''survey'', ''suspect'', ''sustain'',
     ''swallow'', ''swamp'', ''swap'', ''swarm'', ''swear'', ''sweet'', ''swift'', ''swim'',
     ''swing'', ''switch'', ''sword'', ''symbol'', ''symptom'', ''syrup'', ''system'', ''table'',
     ''tackle'', ''tag'', ''tail'', ''talent'', ''talk'', ''tank'', ''tape'', ''target'',
     ''task'', ''taste'', ''tattoo'', ''taxi'', ''teach'', ''team'', ''tell'', ''ten'',
     ''tenant'', ''tennis'', ''tent'', ''term'', ''test'', ''text'', ''thank'', ''that'']"

definition words_14 :: "string list" where
  "words_14 =
    [''theme'', ''then'', ''theory'', ''there'', ''they'', ''thing'', ''this'', ''thought'',
     ''three'', ''thrive'', ''throw'', ''thumb'', ''thunder'', ''ticket'', ''tide'', ''tiger'',
     ''tilt'', ''timber'', ''time'', ''tiny'', ''tip'', ''tired'', ''tissue'', ''title'',
     ''toast'', ''tobacco'', ''today'', ''toddler'', ''toe'', ''together'', ''toilet'', ''token'',
     ''tomato'', ''tomorrow'', ''tone'', ''tongue'', ''tonight'', ''tool'', ''tooth'', ''top'',
     ''topic'', ''topple'', ''torch'', ''tornado'', ''tortoise'', ''toss'', ''total'', ''tourist'',
     ''toward'', ''tower'', ''town'', ''toy'', ''track'', ''trade'', ''traffic'', ''tragic'',
     ''train'', ''transfer'', ''trap'', ''trash'', ''travel'', ''tray'', ''treat'', ''tree'',
     ''trend'', ''trial'', ''tribe'', ''trick'', ''trigger'', ''trim'', ''trip'', ''trophy'',
     ''trouble'', ''truck'', ''true'', ''truly'', ''trumpet'', ''trust'', ''truth'', ''try'',
     ''tube'', ''tuition'', ''tumble'', ''tuna'', ''tunnel'', ''turkey'', ''turn'', ''turtle'',
     ''twelve'', ''twenty'', ''twice'', ''twin'', ''twist'', ''two'', ''type'', ''typical'',
     ''ugly'', ''umbrella'', ''unable'', ''unaware'', ''uncle'', ''uncover'', ''under'', ''undo'',
     ''unfair'', ''unfold'', ''unhappy'', ''uniform'', ''unique'', ''unit'', ''universe'', ''unknown'',
     ''unlock'', ''until'', ''unusual'', ''unveil'', ''update'', ''upgrade'', ''uphold'', ''upon'',
     ''upper'', ''upset'', ''urban'', ''urge'', ''usage'', ''use'', ''used'', ''useful'']"

definition words_15 :: "string list" where
  "words_15 =
    [''useless'', ''usual'', ''utility'', ''vacant'', ''vacuum'', ''vague'', ''valid'', ''valley'',
     ''valve'', ''van'', ''vanish'', ''vapor'', ''various'', ''vast'', ''vault'', ''vehicle'',
     ''velvet'', ''vendor'', ''venture'', ''venue'', ''verb'', ''verify'', ''version'', ''very'',
     ''vessel'', ''veteran'', ''viable'', ''vibrant'', ''vicious'', ''victory'', ''video'', ''view'',
     ''village'', ''vintage'', ''violin'', ''virtual'', ''virus'', ''visa'', ''visit'', ''visual'',
     ''vital'', ''vivid'', ''vocal'', ''voice'', ''void'', ''volcano'', ''volume'', ''vote'',
     ''voyage'', ''wage'', ''wagon'', ''wait'', ''walk'', ''wall'', ''walnut'', ''want'',
     ''warfare'', ''warm'', ''warrior'', ''wash'', ''wasp'', ''waste'', ''water'', ''wave'',
     ''way'', ''wealth'', ''weapon'', ''wear'', ''weasel'', ''weather'', ''web'', ''wedding'',
     ''weekend'', ''weird'', ''welcome'', ''west'', ''wet'', ''whale'', ''what'', ''wheat'',
     ''wheel'', ''when'', ''where'', ''whip'', ''whisper'', ''wide'', ''width'', ''wife'',
     ''wild'', ''will'', ''win'', ''window'', ''wine'', ''wing'', ''wink'', ''winner'',
     ''winter'', ''wire'', ''wisdom'', ''wise'', ''wish'', ''witness'', ''wolf'', ''woman'',
     ''wonder'', ''wood'', ''wool'', ''word'', ''work'', ''world'', ''worry'', ''worth'',
     ''wrap'', ''wreck'', ''wrestle'', ''wrist'', ''write'', ''wrong'', ''yard'', ''year'',
     ''yellow'', ''you'', ''young'', ''youth'', ''zebra'', ''zero'', ''zone'', ''zoo'']"

definition bip39_wordlist_en :: "string list" where
  "bip39_wordlist_en = words_00 @ words_01 @ words_02 @ words_03 @ words_04 @ words_05 @ words_06 @ words_07
     @ words_08 @ words_09 @ words_10 @ words_11 @ words_12 @ words_13 @ words_14 @ words_15"

subsection \<open>Order\<close>

lemma piece_00:
  "ascending words_00" "length words_00 = 128" "list_all plain_word words_00" "hd words_00 = ''abandon''" "last words_00 = ''avocado''"
  by code_simp+

lemma piece_01:
  "ascending words_01" "length words_01 = 128" "list_all plain_word words_01" "hd words_01 = ''avoid''" "last words_01 = ''cable''"
  by code_simp+

lemma piece_02:
  "ascending words_02" "length words_02 = 128" "list_all plain_word words_02" "hd words_02 = ''cactus''" "last words_02 = ''copper''"
  by code_simp+

lemma piece_03:
  "ascending words_03" "length words_03 = 128" "list_all plain_word words_03" "hd words_03 = ''copy''" "last words_03 = ''divide''"
  by code_simp+

lemma piece_04:
  "ascending words_04" "length words_04 = 128" "list_all plain_word words_04" "hd words_04 = ''divorce''" "last words_04 = ''exit''"
  by code_simp+

lemma piece_05:
  "ascending words_05" "length words_05 = 128" "list_all plain_word words_05" "hd words_05 = ''exotic''" "last words_05 = ''garment''"
  by code_simp+

lemma piece_06:
  "ascending words_06" "length words_06 = 128" "list_all plain_word words_06" "hd words_06 = ''gas''" "last words_06 = ''husband''"
  by code_simp+

lemma piece_07:
  "ascending words_07" "length words_07 = 128" "list_all plain_word words_07" "hd words_07 = ''hybrid''" "last words_07 = ''lend''"
  by code_simp+

lemma piece_08:
  "ascending words_08" "length words_08 = 128" "list_all plain_word words_08" "hd words_08 = ''length''" "last words_08 = ''morning''"
  by code_simp+

lemma piece_09:
  "ascending words_09" "length words_09 = 128" "list_all plain_word words_09" "hd words_09 = ''mosquito''" "last words_09 = ''paper''"
  by code_simp+

lemma piece_10:
  "ascending words_10" "length words_10 = 128" "list_all plain_word words_10" "hd words_10 = ''parade''" "last words_10 = ''quiz''"
  by code_simp+

lemma piece_11:
  "ascending words_11" "length words_11 = 128" "list_all plain_word words_11" "hd words_11 = ''quote''" "last words_11 = ''say''"
  by code_simp+

lemma piece_12:
  "ascending words_12" "length words_12 = 128" "list_all plain_word words_12" "hd words_12 = ''scale''" "last words_12 = ''soup''"
  by code_simp+

lemma piece_13:
  "ascending words_13" "length words_13 = 128" "list_all plain_word words_13" "hd words_13 = ''source''" "last words_13 = ''that''"
  by code_simp+

lemma piece_14:
  "ascending words_14" "length words_14 = 128" "list_all plain_word words_14" "hd words_14 = ''theme''" "last words_14 = ''useful''"
  by code_simp+

lemma piece_15:
  "ascending words_15" "length words_15 = 128" "list_all plain_word words_15" "hd words_15 = ''useless''" "last words_15 = ''zoo''"
  by code_simp+

lemma ascending_append:
  assumes "ascending xs" and "ascending ys" and "xs \<noteq> []" and "ys \<noteq> []" and "strcmp_c (last xs) (hd ys) < 0"
  shows "ascending (xs @ ys)"
  using assms
proof (induction xs)
  case (Cons x xs)
  then show ?case by (cases xs; cases ys) auto
qed simp

lemmas pieces = piece_00 piece_01 piece_02 piece_03 piece_04 piece_05 piece_06 piece_07
  piece_08 piece_09 piece_10 piece_11 piece_12 piece_13 piece_14 piece_15

lemma pieces_nonempty:
  "words_00 \<noteq> []" "words_01 \<noteq> []" "words_02 \<noteq> []" "words_03 \<noteq> []" "words_04 \<noteq> []" "words_05 \<noteq> []" "words_06 \<noteq> []" "words_07 \<noteq> []"
  "words_08 \<noteq> []" "words_09 \<noteq> []" "words_10 \<noteq> []" "words_11 \<noteq> []" "words_12 \<noteq> []" "words_13 \<noteq> []" "words_14 \<noteq> []" "words_15 \<noteq> []"
  using pieces by auto

lemma wordlist_length: "length bip39_wordlist_en = 2048"
  by (simp add: bip39_wordlist_en_def pieces)

lemma wordlist_ascending: "ascending bip39_wordlist_en"
  unfolding bip39_wordlist_en_def
  by (intro ascending_append pieces(1,6,11,16,21,26,31,36,41,46,51,56,61,66,71,76))
     (simp_all add: pieces pieces_nonempty)

lemma wordlist_plain: "w \<in> set bip39_wordlist_en \<Longrightarrow> plain_word w"
  using pieces unfolding bip39_wordlist_en_def by (auto simp: list_all_iff)

lemma strcmp_c_zero [simp]: "strcmp_c x y = 0 \<longleftrightarrow> x = y"
  by (induction x y rule: strcmp_c.induct) auto

lemma strcmp_c_sym: "strcmp_c y x = - strcmp_c x y"
  by (induction x y rule: strcmp_c.induct) (auto simp: not_less_iff_gr_or_eq)

lemma strcmp_c_trans: "strcmp_c x y < 0 \<Longrightarrow> strcmp_c y z < 0 \<Longrightarrow> strcmp_c x z < 0"
proof (induction x y arbitrary: z rule: strcmp_c.induct)
  case (4 a s b t)
  then obtain c u where z: "z = c # u" by (cases z) auto
  with 4 show ?case by (auto split: if_splits)
next
  case (2 b t)
  then show ?case by (cases z) auto
qed auto

lemma ascending_less: "ascending ws \<Longrightarrow> i < j \<Longrightarrow> j < length ws \<Longrightarrow> strcmp_c (ws ! i) (ws ! j) < 0"
proof (induction ws arbitrary: i j rule: ascending.induct)
  case (1 x y zs)
  show ?case
  proof (cases i)
    case 0
    then obtain k where j: "j = Suc k" using "1.prems"(2) by (cases j) auto
    show ?thesis
    proof (cases k)
      case (Suc l)
      then have "strcmp_c ((y # zs) ! 0) ((y # zs) ! k) < 0" using "1.IH" "1.prems" j by (metis Suc_less_eq ascending.simps(1) length_Cons zero_less_Suc)
      with "1.prems"(1) 0 j show ?thesis by (auto intro: strcmp_c_trans)
    qed (use "1.prems"(1) 0 j in simp)
  next
    case (Suc h)
    then obtain k where "j = Suc k" "h < k" using "1.prems"(2) by (cases j) auto
    with "1.IH" [of h k] "1.prems" Suc show ?thesis by simp
  qed
qed auto

lemma wordlist_less: "i < j \<Longrightarrow> j < 2048 \<Longrightarrow> strcmp_c (bip39_wordlist_en ! i) (bip39_wordlist_en ! j) < 0"
  using ascending_less [OF wordlist_ascending] by (simp add: wordlist_length)

lemma wordlist_inj: "i < 2048 \<Longrightarrow> j < 2048 \<Longrightarrow> bip39_wordlist_en ! i = bip39_wordlist_en ! j \<longleftrightarrow> i = j"
  using wordlist_less [of i j] wordlist_less [of j i] by (metis less_irrefl linorder_neqE_nat strcmp_c_zero)

end
