(* ===== verification/Bip39.thy ===== *)
theory Bip39
  imports Bip39_Wordlist Hash "HOL-Library.Sublist"
begin

text \<open>
  \<^verbatim>\<open>crypto/bip39.c\<close>: mnemonic sentences.  Random bytes, SHA-256 and PBKDF2 are OpenSSL functions and are parameters; everything else is here: the
  checksum bits, the packing of bits into indices of eleven bits and back, the binary search in the word list, the splitting of the sentence.  An
  access outside a buffer is \<open>Fault\<close>.
\<close>

subsection \<open>Words\<close>

datatype neoc_bip39_language =
    NEOC_BIP39_LANG_ENGLISH
  | NEOC_BIP39_LANG_JAPANESE
  | NEOC_BIP39_LANG_KOREAN
  | NEOC_BIP39_LANG_SPANISH
  | NEOC_BIP39_LANG_CHINESE_SIMPLIFIED
  | NEOC_BIP39_LANG_CHINESE_TRADITIONAL
  | NEOC_BIP39_LANG_FRENCH
  | NEOC_BIP39_LANG_ITALIAN
  | NEOC_BIP39_LANG_CZECH
  | NEOC_BIP39_LANG_PORTUGUESE

text \<open>Every language but the last falls back to the English words.\<close>

definition neoc_bip39_get_wordlist :: "neoc_bip39_language \<Rightarrow> string list option" where
  "neoc_bip39_get_wordlist language = (if language = NEOC_BIP39_LANG_PORTUGUESE then None else Some bip39_wordlist_en)"

definition neoc_bip39_get_word :: "neoc_bip39_language \<Rightarrow> u16 \<Rightarrow> string option" where
  "neoc_bip39_get_word language index =
     (if 2048 \<le> index then None
      else (case neoc_bip39_get_wordlist language of None \<Rightarrow> None | Some wordlist \<Rightarrow> Some (wordlist ! unat index)))"

function search_word :: "string list \<Rightarrow> string \<Rightarrow> int \<Rightarrow> int \<Rightarrow> int" where
  "search_word wordlist w left right =
     (if left \<le> right then
        let mid = left + (right - left) div 2; cmp = strcmp_c w (wordlist ! nat mid) in
        if cmp = 0 then mid
        else if cmp < 0 then search_word wordlist w left (mid - 1)
        else search_word wordlist w (mid + 1) right
      else - 1)"
  by auto
termination
  by (relation "measure (\<lambda>(_, _, left, right). nat (right - left + 1))") auto

declare search_word.simps [simp del]

definition neoc_bip39_find_word :: "neoc_bip39_language \<Rightarrow> string option \<Rightarrow> int" where
  "neoc_bip39_find_word language word =
     (case word of
        None \<Rightarrow> - 1
      | Some w \<Rightarrow> (case neoc_bip39_get_wordlist language of None \<Rightarrow> - 1 | Some wordlist \<Rightarrow> search_word wordlist w 0 2047))"

definition neoc_bip39_get_word_count :: "nat \<Rightarrow> nat" where
  "neoc_bip39_get_word_count strength =
     (if strength = 128 then 12 else if strength = 160 then 15 else if strength = 192 then 18
      else if strength = 224 then 21 else if strength = 256 then 24 else 0)"

subsection \<open>Bits\<close>

text \<open>Bit \<open>pos\<close> of a buffer, counted from the most significant bit of its first byte, and setting it.\<close>

definition bit_at :: "byte list \<Rightarrow> nat \<Rightarrow> byte result" where
  "bit_at bs pos = (if pos div 8 < length bs then Ok (drop_bit (7 - pos mod 8) (bs ! (pos div 8)) AND 1) else Fault)"

definition or_bit_at :: "nat \<Rightarrow> byte list \<Rightarrow> byte list result" where
  "or_bit_at pos bs =
     (if pos div 8 < length bs then Ok (bs[pos div 8 := bs ! (pos div 8) OR push_bit (7 - pos mod 8) 1]) else Fault)"

text \<open>The loops: copying checksum bits, reading and writing an index of eleven bits, collecting the checksum.\<close>

fun checksum_loop :: "byte list \<Rightarrow> nat \<Rightarrow> nat \<Rightarrow> nat \<Rightarrow> byte list \<Rightarrow> byte list result" where
  "checksum_loop hash i 0 pos bs = Ok bs"
| "checksum_loop hash i (Suc n) pos bs =
     bind_r (bit_at hash i) (\<lambda>b.
     bind_r (if b \<noteq> 0 then or_bit_at pos bs else Ok bs) (\<lambda>bs. checksum_loop hash (i + 1) n (pos + 1) bs))"

fun index_loop :: "byte list \<Rightarrow> nat \<Rightarrow> nat \<Rightarrow> u16 \<Rightarrow> u16 result" where
  "index_loop bs pos 0 index = Ok index"
| "index_loop bs pos (Suc n) index =
     bind_r (bit_at bs pos) (\<lambda>b. index_loop bs (pos + 1) n (push_bit 1 index OR ucast b))"

fun put_index_loop :: "int \<Rightarrow> nat \<Rightarrow> nat \<Rightarrow> byte list \<Rightarrow> byte list result" where
  "put_index_loop index 0 pos bs = Ok bs"
| "put_index_loop index (Suc n) pos bs =
     bind_r (if bit (word_of_int index :: 32 word) n then or_bit_at pos bs else Ok bs) (\<lambda>bs. put_index_loop index n (pos + 1) bs)"

fun accum_loop :: "byte list \<Rightarrow> nat \<Rightarrow> nat \<Rightarrow> byte \<Rightarrow> byte result" where
  "accum_loop bs pos 0 acc = Ok acc"
| "accum_loop bs pos (Suc n) acc = bind_r (bit_at bs pos) (\<lambda>b. accum_loop bs (pos + 1) n (push_bit 1 acc OR b))"

subsection \<open>Sentences\<close>

text \<open>The words at the indices \<open>i, \<dots>, i + n - 1\<close> of the bit stream.\<close>

fun words_loop :: "neoc_bip39_language \<Rightarrow> byte list \<Rightarrow> nat \<Rightarrow> nat \<Rightarrow> string list result" where
  "words_loop language bs i 0 = Ok []"
| "words_loop language bs i (Suc n) =
     bind_r (index_loop bs (i * 11) 11 0) (\<lambda>index.
       case neoc_bip39_get_word language index of
         None \<Rightarrow> Err NEOC_ERROR_INVALID_STATE
       | Some w \<Rightarrow> bind_r (words_loop language bs (i + 1) n) (\<lambda>ws. Ok (w # ws)))"

fun join_words :: "string list \<Rightarrow> string" where
  "join_words [] = []"
| "join_words [w] = w"
| "join_words (w # ws) = w @ CHR '' '' # join_words ws"

definition entropy_length_ok :: "nat \<Rightarrow> bool" where
  "entropy_length_ok n \<longleftrightarrow> 16 \<le> n \<and> n \<le> 32 \<and> n mod 4 = 0"

text \<open>The words are looked up twice: once for the length of the output, once to copy them there.\<close>

definition neoc_bip39_mnemonic_from_entropy :: "crypto \<Rightarrow> allocator \<Rightarrow> byte list option \<Rightarrow> neoc_bip39_language \<Rightarrow> string result" where
  "neoc_bip39_mnemonic_from_entropy C A entropy language =
     (case entropy of
        None \<Rightarrow> Err NEOC_ERROR_INVALID_ARGUMENT
      | Some e \<Rightarrow>
          let entropy_len = length e; checksum_bits = entropy_len div 4; total_bits = entropy_len * 8 + checksum_bits;
              word_count = total_bits div 11; total_bytes = (total_bits + 7) div 8 in
          if \<not> entropy_length_ok entropy_len then Err NEOC_ERROR_INVALID_LENGTH
          else if neoc_bip39_get_wordlist language = None then Err NEOC_ERROR_NOT_SUPPORTED
          else
            bind_r (neoc_sha256 C (Some e)) (\<lambda>hash.
            bind_r (malloc_r A total_bytes) (\<lambda>_.
            bind_r (checksum_loop hash 0 checksum_bits (entropy_len * 8) (e @ replicate (total_bytes - entropy_len) 0)) (\<lambda>bitstream.
            bind_r (words_loop language bitstream 0 word_count) (\<lambda>ws.
              let mnemonic_chars = word_count - 1 + sum_list (map length ws) in
              bind_r (malloc_r A (mnemonic_chars + 1)) (\<lambda>_.
              bind_r (words_loop language bitstream 0 word_count) (\<lambda>ws.
                if mnemonic_chars < length (join_words ws) then Fault else Ok (join_words ws))))))))"

definition neoc_bip39_generate_mnemonic ::
  "(nat \<Rightarrow> byte list option) \<Rightarrow> crypto \<Rightarrow> allocator \<Rightarrow> nat \<Rightarrow> neoc_bip39_language \<Rightarrow> string result" where
  "neoc_bip39_generate_mnemonic R C A strength language =
     (let entropy_bytes = strength div 8 in
      if \<not> entropy_length_ok entropy_bytes then Err NEOC_ERROR_INVALID_ARGUMENT
      else
        bind_r (malloc_r A entropy_bytes) (\<lambda>_.
          case R entropy_bytes of
            None \<Rightarrow> Err NEOC_ERROR_CRYPTO
          | Some entropy \<Rightarrow> neoc_bip39_mnemonic_from_entropy C A (Some entropy) language))"

text \<open>\<^verbatim>\<open>strtok\<close> with a space: the maximal pieces without spaces.\<close>

function tokens :: "string \<Rightarrow> string list" where
  "tokens [] = []"
| "tokens (c # s) =
     (if c = CHR '' '' then tokens s
      else (c # takeWhile (\<lambda>x. x \<noteq> CHR '' '') s) # tokens (dropWhile (\<lambda>x. x \<noteq> CHR '' '') s))"
  by pat_completeness auto
termination
  by (relation "measure length") (auto simp: le_imp_less_Suc length_dropWhile_le)

fun put_words :: "neoc_bip39_language \<Rightarrow> string list \<Rightarrow> nat \<Rightarrow> byte list \<Rightarrow> byte list result" where
  "put_words language [] pos bs = Ok bs"
| "put_words language (w # ws) pos bs =
     (let index = neoc_bip39_find_word language (Some w) in
      if index < 0 then Err NEOC_ERROR_INVALID_ARGUMENT
      else bind_r (put_index_loop index 11 pos bs) (\<lambda>bs. put_words language ws (pos + 11) bs))"

definition neoc_bip39_mnemonic_to_entropy :: "crypto \<Rightarrow> allocator \<Rightarrow> string option \<Rightarrow> neoc_bip39_language \<Rightarrow> byte list result" where
  "neoc_bip39_mnemonic_to_entropy C A mnemonic language =
     (case mnemonic of
        None \<Rightarrow> Err NEOC_ERROR_INVALID_ARGUMENT
      | Some m \<Rightarrow>
          bind_r (malloc_r A (length m + 1)) (\<lambda>_.
            let ws = take 24 (tokens m); word_count = length ws in
            if 24 < length (tokens m) \<or> word_count \<notin> {12, 15, 18, 21, 24} then Err NEOC_ERROR_INVALID_ARGUMENT
            else
              let total_bits = word_count * 11; checksum_bits = total_bits div 33; entropy_bits = total_bits - checksum_bits in
              if entropy_bits mod 8 \<noteq> 0 then Err NEOC_ERROR_INTERNAL
              else
                let total_bytes = (total_bits + 7) div 8; entropy_bytes = entropy_bits div 8 in
                bind_r (malloc_r A total_bytes) (\<lambda>_.
                bind_r (put_words language ws 0 (replicate total_bytes 0)) (\<lambda>bitstream.
                bind_r (malloc_r A entropy_bytes) (\<lambda>_.
                  let entropy = take entropy_bytes bitstream in
                  bind_r (accum_loop bitstream entropy_bits checksum_bits 0) (\<lambda>checksum_accum.
                  bind_r (neoc_sha256 C (Some entropy)) (\<lambda>hash.
                    let expected = (if 0 < checksum_bits then drop_bit (8 - checksum_bits) (hash ! 0) else 0) in
                    if checksum_accum \<noteq> expected then Err NEOC_ERROR_INVALID_ARGUMENT else Ok entropy)))))))"

definition neoc_bip39_validate_mnemonic :: "crypto \<Rightarrow> allocator \<Rightarrow> string option \<Rightarrow> neoc_bip39_language \<Rightarrow> bool result" where
  "neoc_bip39_validate_mnemonic C A mnemonic language =
     (case mnemonic of
        None \<Rightarrow> Ok False
      | Some m \<Rightarrow>
          (case neoc_bip39_mnemonic_to_entropy C A (Some m) language of
             Ok _ \<Rightarrow> Ok True | Err _ \<Rightarrow> Ok False | Fault \<Rightarrow> Fault))"

subsection \<open>Seeds\<close>

text \<open>\<open>K\<close> is \<^verbatim>\<open>PKCS5_PBKDF2_HMAC\<close> with SHA-512: password, salt, iterations and length give the bytes or a failure.  A null pass phrase is \<open>None\<close>.\<close>

type_synonym pbkdf2 = "string \<Rightarrow> string \<Rightarrow> nat \<Rightarrow> nat \<Rightarrow> byte list option"

definition neoc_bip39_pbkdf2 :: "pbkdf2 \<Rightarrow> allocator \<Rightarrow> string option \<Rightarrow> string option \<Rightarrow> nat \<Rightarrow> byte list result" where
  "neoc_bip39_pbkdf2 K A mnemonic passphrase seed_len =
     (case mnemonic of
        None \<Rightarrow> Err NEOC_ERROR_INVALID_ARGUMENT
      | Some m \<Rightarrow>
          if seed_len = 0 then Err NEOC_ERROR_INVALID_ARGUMENT
          else
            let pass = (case passphrase of None \<Rightarrow> [] | Some p \<Rightarrow> p) in
            bind_r (malloc_r A (8 + length pass + 1)) (\<lambda>_.
              case K m (''mnemonic'' @ pass) 2048 seed_len of None \<Rightarrow> Err NEOC_ERROR_CRYPTO | Some seed \<Rightarrow> Ok seed))"

definition neoc_bip39_mnemonic_to_seed_buffer :: "pbkdf2 \<Rightarrow> allocator \<Rightarrow> string option \<Rightarrow> string option \<Rightarrow> byte list result" where
  "neoc_bip39_mnemonic_to_seed_buffer K A mnemonic passphrase = neoc_bip39_pbkdf2 K A mnemonic passphrase 64"

definition neoc_bip39_mnemonic_to_seed_len :: "pbkdf2 \<Rightarrow> allocator \<Rightarrow> string option \<Rightarrow> string option \<Rightarrow> nat \<Rightarrow> byte list result" where
  "neoc_bip39_mnemonic_to_seed_len K A mnemonic passphrase seed_len =
     (if seed_len < 64 then Err NEOC_ERROR_INVALID_ARGUMENT else neoc_bip39_pbkdf2 K A mnemonic passphrase seed_len)"

subsection \<open>The search\<close>

lemma strcmp_c_refl [simp]: "strcmp_c x x = 0"
  by simp

lemma wordlist_cmp:
  assumes "i < 2048" and "j < 2048"
  shows "strcmp_c (bip39_wordlist_en ! i) (bip39_wordlist_en ! j) < 0 \<longleftrightarrow> i < j"
proof (cases i j rule: linorder_cases)
  case less
  with wordlist_less [OF less assms(2)] show ?thesis by simp
next
  case greater
  with wordlist_less [OF greater assms(1)] strcmp_c_sym [of "bip39_wordlist_en ! i" "bip39_wordlist_en ! j"] show ?thesis by simp
next
  case equal
  then show ?thesis by simp
qed

lemma wordlist_ne: "i < 2048 \<Longrightarrow> j < 2048 \<Longrightarrow> i \<noteq> j \<Longrightarrow> strcmp_c (bip39_wordlist_en ! i) (bip39_wordlist_en ! j) \<noteq> 0"
  using wordlist_inj by simp

lemma search_word_sound:
  "0 \<le> l \<Longrightarrow> r < 2048 \<Longrightarrow> search_word bip39_wordlist_en w l r = - 1
     \<or> (\<exists>k. search_word bip39_wordlist_en w l r = int k \<and> k < 2048 \<and> bip39_wordlist_en ! k = w)"
proof (induction "nat (r - l + 1)" arbitrary: l r rule: less_induct)
  case less
  let ?m = "l + (r - l) div 2" let ?c = "strcmp_c w (bip39_wordlist_en ! nat ?m)"
  show ?case
  proof (cases "l \<le> r")
    case True
    then have m: "l \<le> ?m" "?m \<le> r" by auto
    consider "?c = 0" | "?c < 0" | "0 < ?c" by linarith
    then show ?thesis
    proof cases
      case 1
      with True m less.prems show ?thesis by (subst (1 2) search_word.simps) (auto simp: Let_def intro!: exI [of _ "nat ?m"])
    next
      case 2
      then have "search_word bip39_wordlist_en w l r = search_word bip39_wordlist_en w l (?m - 1)"
        using True by (subst search_word.simps) (simp add: Let_def del: strcmp_c_zero)
      then show ?thesis using less.hyps [of "?m - 1" l] less.prems m by simp
    next
      case 3
      then have "search_word bip39_wordlist_en w l r = search_word bip39_wordlist_en w (?m + 1) r"
        using True by (subst search_word.simps) (simp add: Let_def del: strcmp_c_zero)
      then show ?thesis using less.hyps [of r "?m + 1"] less.prems m by simp
    qed
  qed (subst search_word.simps, simp)
qed

lemma search_word_complete:
  "0 \<le> l \<Longrightarrow> r < 2048 \<Longrightarrow> l \<le> int k \<Longrightarrow> int k \<le> r \<Longrightarrow> search_word bip39_wordlist_en (bip39_wordlist_en ! k) l r = int k"
proof (induction "nat (r - l + 1)" arbitrary: l r rule: less_induct)
  case less
  let ?m = "l + (r - l) div 2" and ?w = "bip39_wordlist_en ! k"
  have m: "l \<le> ?m" "?m \<le> r" and lr: "l \<le> r" using less.prems by auto
  have k: "k < 2048" "nat ?m < 2048" using less.prems m by auto
  note cmp = wordlist_cmp [OF k] wordlist_ne [OF k]
  consider "k = nat ?m" | "k < nat ?m" | "nat ?m < k" by linarith
  then show ?case
  proof cases
    case 1
    with lr m less.prems show ?thesis by (subst search_word.simps) (simp add: Let_def)
  next
    case 2
    then have "search_word bip39_wordlist_en ?w l r = search_word bip39_wordlist_en ?w l (?m - 1)"
      using lr cmp by (subst search_word.simps) (simp add: Let_def del: strcmp_c_zero)
    then show ?thesis using less.hyps [of "?m - 1" l] less.prems m 2 by simp
  next
    case 3
    then have "search_word bip39_wordlist_en ?w l r = search_word bip39_wordlist_en ?w (?m + 1) r"
      using lr cmp by (subst search_word.simps) (simp add: Let_def del: strcmp_c_zero)
    then show ?thesis using less.hyps [of r "?m + 1"] less.prems m 3 by simp
  qed
qed

lemma find_word_cases:
  assumes "language \<noteq> NEOC_BIP39_LANG_PORTUGUESE"
  shows "neoc_bip39_find_word language (Some w) = - 1 \<and> w \<notin> set bip39_wordlist_en
    \<or> (\<exists>k. neoc_bip39_find_word language (Some w) = int k \<and> k < 2048 \<and> bip39_wordlist_en ! k = w)"
  using search_word_sound [of 0 2047 w] search_word_complete [of 0 2047] assms
  by (auto simp: neoc_bip39_find_word_def neoc_bip39_get_wordlist_def in_set_conv_nth wordlist_length)

lemma find_word_nth:
  assumes "language \<noteq> NEOC_BIP39_LANG_PORTUGUESE" and "k < 2048"
  shows "neoc_bip39_find_word language (Some (bip39_wordlist_en ! k)) = int k"
  using search_word_complete [of 0 2047 k] assms by (simp add: neoc_bip39_find_word_def neoc_bip39_get_wordlist_def)

subsection \<open>Bits of buffers\<close>

definition bits_of :: "byte list \<Rightarrow> bool list" where
  "bits_of bs = map (\<lambda>pos. bit (bs ! (pos div 8)) (7 - pos mod 8)) [0..<8 * length bs]"

lemma length_bits_of [simp]: "length (bits_of bs) = 8 * length bs"
  by (simp add: bits_of_def)

lemma bits_of_nth [simp]: "pos < 8 * length bs \<Longrightarrow> bits_of bs ! pos = bit (bs ! (pos div 8)) (7 - pos mod 8)"
  by (simp add: bits_of_def)

lemma drop_bits: "pos < 8 * length bs \<Longrightarrow> drop pos (bits_of bs) = bits_of bs ! pos # drop (pos + 1) (bits_of bs)"
  by (simp add: Cons_nth_drop_Suc del: bits_of_nth)

lemma bits_of_inj: "bits_of xs = bits_of ys \<longleftrightarrow> xs = ys"
proof
  assume eq: "bits_of xs = bits_of ys"
  have len: "length xs = length ys" using arg_cong [OF eq, of length] by simp
  show "xs = ys"
  proof (rule nth_equalityI [OF len])
    fix i
    assume i: "i < length xs"
    show "xs ! i = ys ! i"
    proof (rule bit_word_eqI)
      fix n
      assume "n < LENGTH(8)"
      then obtain k where k: "k < 8" "n = 7 - k" by (intro that [of "7 - n"]) auto
      let ?p = "8 * i + k"
      have p: "?p < 8 * length xs" "?p div 8 = i" "?p mod 8 = k" using i k(1) by auto
      from arg_cong [OF eq, of "\<lambda>bs. bs ! ?p"] p k(2) len show "bit (xs ! i) n = bit (ys ! i) n" by simp
    qed
  qed
qed simp

lemma bits_of_take: "bits_of (take n bs) = take (8 * n) (bits_of bs)"
  by (rule nth_equalityI) (auto simp: nth_take less_mult_imp_div_less mult.commute)

lemma bits_of_append: "bits_of (xs @ ys) = bits_of xs @ bits_of ys"
proof (rule nth_equalityI)
  fix i
  assume i: "i < length (bits_of (xs @ ys))"
  show "bits_of (xs @ ys) ! i = (bits_of xs @ bits_of ys) ! i"
  proof (cases "i < 8 * length xs")
    case True
    then show ?thesis by (simp add: nth_append less_mult_imp_div_less mult.commute)
  next
    case False
    then obtain j where "i = 8 * length xs + j" by (metis le_add_diff_inverse not_less)
    with i show ?thesis by (simp add: nth_append)
  qed
qed simp

lemma bits_of_zeros [simp]: "bits_of (replicate n 0) = replicate (8 * n) False"
  by (rule nth_equalityI) (auto simp: less_mult_imp_div_less mult.commute)

lemma bit_at_eq: "pos < 8 * length bs \<Longrightarrow> bit_at bs pos = Ok (of_bool (bits_of bs ! pos))"
proof -
  assume "pos < 8 * length bs"
  moreover have "drop_bit k (b :: byte) AND 1 = of_bool (bit b k)" for b k
    by (rule bit_word_eqI) (auto simp: bit_simps)
  ultimately show ?thesis by (simp add: bit_at_def less_mult_imp_div_less mult.commute)
qed

lemma or_bit_at_eq:
  assumes "pos < 8 * length bs"
  shows "\<exists>bs'. or_bit_at pos bs = Ok bs' \<and> length bs' = length bs \<and> bits_of bs' = (bits_of bs)[pos := True]"
proof -
  let ?b = "bs[pos div 8 := bs ! (pos div 8) OR push_bit (7 - pos mod 8) 1]"
  have d: "pos div 8 < length bs" using assms by (simp add: less_mult_imp_div_less mult.commute)
  have "bits_of ?b = (bits_of bs)[pos := True]"
  proof (rule nth_equalityI)
    fix i
    assume "i < length (bits_of ?b)"
    then have i: "i < 8 * length bs" by simp
    show "bits_of ?b ! i = (bits_of bs)[pos := True] ! i"
    proof (cases "i div 8 = pos div 8")
      case True
      have "i = 8 * (pos div 8) + i mod 8" "pos = 8 * (pos div 8) + pos mod 8" "i mod 8 < 8" "pos mod 8 < 8"
        using mult_div_mod_eq [of 8 i] True by simp_all
      then have "i = pos" if "7 - pos mod 8 = 7 - i mod 8" using that by linarith
      then have same: "7 - pos mod 8 = 7 - i mod 8 \<longleftrightarrow> i = pos" by auto
      have "bit (push_bit m 1 :: byte) n \<longleftrightarrow> m = n" if "n < 8" for m n using that by (auto simp: bit_simps)
      then have pb: "bit (push_bit (7 - pos mod 8) 1 :: byte) (7 - i mod 8) \<longleftrightarrow> i = pos" using same by simp
      have "bits_of ?b ! i \<longleftrightarrow> bit (bs ! (i div 8) OR push_bit (7 - pos mod 8) 1) (7 - i mod 8)" using i d True by simp
      also have "\<dots> \<longleftrightarrow> bits_of bs ! i \<or> i = pos" using i pb by (simp only: bit_or_iff bits_of_nth)
      also have "\<dots> \<longleftrightarrow> (bits_of bs)[pos := True] ! i" using i by (cases "i = pos") simp_all
      finally show ?thesis .
    next
      case False
      then have "i \<noteq> pos" by auto
      with False i show ?thesis by simp
    qed
  qed simp
  with d show ?thesis by (simp add: or_bit_at_def)
qed

subsection \<open>Numbers of a given number of bits\<close>

definition bits_val :: "bool list \<Rightarrow> nat" where
  "bits_val bs = foldl (\<lambda>a b. 2 * a + of_bool b) 0 bs"

definition nbits :: "nat \<Rightarrow> nat \<Rightarrow> bool list" where
  "nbits n k = map (bit k) (rev [0..<n])"

lemma bits_val_snoc [simp]: "bits_val [] = 0" "bits_val (bs @ [b]) = 2 * bits_val bs + of_bool b"
  by (simp_all add: bits_val_def)

lemma nbits_simps [simp]: "nbits 0 k = []" "nbits (Suc n) k = bit k n # nbits n k" "length (nbits n k) = n"
  by (simp_all add: nbits_def)

lemma nbits_snoc: "nbits (Suc n) k = nbits n (k div 2) @ [odd k]"
proof -
  have "[0..<Suc n] = 0 # map Suc [0..<n]" unfolding map_Suc_upt by (rule upt_conv_Cons) simp
  then have "rev [0..<Suc n] = map Suc (rev [0..<n]) @ [0]" by (simp only: rev.simps rev_map)
  then show ?thesis by (simp add: nbits_def bit_Suc bit_0)
qed

lemma bits_val_less: "bits_val bs < 2 ^ length bs"
  by (induction bs rule: rev_induct) auto

lemma bits_val_nbits: "k < 2 ^ n \<Longrightarrow> bits_val (nbits n k) = k"
proof (induction n arbitrary: k)
  case (Suc n)
  then have "bits_val (nbits n (k div 2)) = k div 2" by auto
  then show ?case unfolding nbits_snoc by simp
qed simp

lemma nbits_bits_val: "n = length bs \<Longrightarrow> nbits n (bits_val bs) = bs"
proof (induction bs arbitrary: n rule: rev_induct)
  case (snoc b bs)
  then show ?case by (cases n) (simp_all add: nbits_snoc del: nbits_simps(2))
qed simp

lemma bits_val_inj: "length xs = length ys \<Longrightarrow> bits_val xs = bits_val ys \<Longrightarrow> xs = ys"
  by (metis nbits_bits_val)

subsection \<open>The loops\<close>

lemma push_or_bit:
  assumes "2 * unat (i :: 'a::len word) + 1 < 2 ^ LENGTH('a)" and "1 < LENGTH('a)"
  shows "unat (push_bit 1 i OR of_bool b) = 2 * unat i + of_bool b"
proof -
  have d: "unat (2 * i) = 2 * unat i" using assms by (simp add: unat_word_ariths)
  have e: "even (2 * i)" by simp
  show ?thesis
  proof (cases b)
    case True
    have "2 * i OR 1 = 2 * i + 1" using e by (simp add: or_one_eq)
    moreover have "unat (2 * i + 1) = 2 * unat i + 1" using assms d by (simp add: unat_word_ariths)
    ultimately show ?thesis using True by (simp add: push_bit_eq_mult mult.commute)
  qed (use d in \<open>simp add: push_bit_eq_mult mult.commute\<close>)
qed

lemma index_loop_eq:
  assumes "pos + n \<le> 8 * length bs" and "unat index < 2 ^ k" and "k + n \<le> 15"
  shows "\<exists>r. index_loop bs pos n index = Ok r \<and> unat r = foldl (\<lambda>a b. 2 * a + of_bool b) (unat index) (take n (drop pos (bits_of bs))) \<and> unat r < 2 ^ (k + n)"
  using assms
proof (induction n arbitrary: pos index k)
  case (Suc n)
  let ?b = "bits_of bs ! pos" let ?i = "push_bit 1 index OR ucast (of_bool ?b :: byte)"
  have b: "bit_at bs pos = Ok (of_bool ?b)" using Suc.prems(1) by (intro bit_at_eq) simp
  have "(2 :: nat) ^ k \<le> 2 ^ 14" using Suc.prems(3) by (intro power_increasing) simp_all
  then have "2 * unat index + 1 < 2 ^ LENGTH(16)" using Suc.prems(2) by simp
  from push_or_bit [OF this, of ?b] have u: "unat ?i = 2 * unat index + of_bool ?b" by (cases ?b) simp_all
  then have "unat ?i < 2 ^ Suc k" using Suc.prems(2) by (cases ?b) simp_all
  from Suc.IH [of "pos + 1" ?i "Suc k", OF _ this] Suc.prems obtain r where r: "index_loop bs (pos + 1) n ?i = Ok r"
    "unat r = foldl (\<lambda>a b. 2 * a + of_bool b) (unat ?i) (take n (drop (pos + 1) (bits_of bs)))" "unat r < 2 ^ (Suc k + n)" by auto
  have "drop pos (bits_of bs) = ?b # drop (pos + 1) (bits_of bs)" using Suc.prems(1) by (intro drop_bits) simp
  with b r u show ?case by simp
qed simp

lemma accum_loop_eq:
  assumes "pos + n \<le> 8 * length bs" and "unat acc < 2 ^ k" and "k + n \<le> 8"
  shows "\<exists>r. accum_loop bs pos n acc = Ok r \<and> unat r = foldl (\<lambda>a b. 2 * a + of_bool b) (unat acc) (take n (drop pos (bits_of bs)))"
  using assms
proof (induction n arbitrary: pos acc k)
  case (Suc n)
  let ?b = "bits_of bs ! pos" let ?i = "push_bit 1 acc OR of_bool ?b"
  have b: "bit_at bs pos = Ok (of_bool ?b)" using Suc.prems(1) by (intro bit_at_eq) simp
  have "(2 :: nat) ^ k \<le> 2 ^ 7" using Suc.prems(3) by (intro power_increasing) simp_all
  then have "2 * unat acc + 1 < 2 ^ LENGTH(8)" using Suc.prems(2) by simp
  from push_or_bit [OF this, of ?b] have u: "unat ?i = 2 * unat acc + of_bool ?b" by simp
  then have "unat ?i < 2 ^ Suc k" using Suc.prems(2) by (cases ?b) simp_all
  from Suc.IH [of "pos + 1" ?i "Suc k", OF _ this] Suc.prems obtain r where r: "accum_loop bs (pos + 1) n ?i = Ok r"
    "unat r = foldl (\<lambda>a b. 2 * a + of_bool b) (unat ?i) (take n (drop (pos + 1) (bits_of bs)))" by auto
  have "drop pos (bits_of bs) = ?b # drop (pos + 1) (bits_of bs)" using Suc.prems(1) by (intro drop_bits) simp
  with b r u show ?case by simp
qed simp

text \<open>Writing bits into a buffer whose bits from the position on are zero.\<close>

lemma put_bit:
  assumes "bits_of bs = xs @ replicate (Suc n) False"
  shows "\<exists>bs'. (if b then or_bit_at (length xs) bs else Ok bs) = Ok bs' \<and> length bs' = length bs \<and> bits_of bs' = (xs @ [b]) @ replicate n False"
proof -
  have len: "8 * length bs = length xs + Suc n" using arg_cong [OF assms, of length] by simp
  show ?thesis
  proof (cases b)
    case True
    from or_bit_at_eq [of "length xs" bs] len obtain bs' where "or_bit_at (length xs) bs = Ok bs'" "length bs' = length bs"
      "bits_of bs' = (xs @ replicate (Suc n) False)[length xs := True]" unfolding assms by auto
    with True show ?thesis by (simp add: list_update_append)
  qed (use assms in simp)
qed

lemma checksum_loop_eq:
  assumes "bits_of bs = xs @ replicate (n + m) False" and "i + n \<le> 8 * length hash"
  shows "\<exists>bs'. checksum_loop hash i n (length xs) bs = Ok bs' \<and> length bs' = length bs
    \<and> bits_of bs' = xs @ take n (drop i (bits_of hash)) @ replicate m False"
  using assms
proof (induction n arbitrary: i xs bs)
  case (Suc n)
  let ?b = "bits_of hash ! i"
  have b: "bit_at hash i = Ok (of_bool ?b)" using Suc.prems(2) by (intro bit_at_eq) simp
  from put_bit [of bs xs "n + m" ?b] Suc.prems(1) obtain bs1 where bs1: "(if ?b then or_bit_at (length xs) bs else Ok bs) = Ok bs1" "length bs1 = length bs"
    "bits_of bs1 = (xs @ [?b]) @ replicate (n + m) False" by auto
  from Suc.IH [OF bs1(3), of "i + 1"] Suc.prems(2) obtain bs' where "checksum_loop hash (i + 1) n (length xs + 1) bs1 = Ok bs'" "length bs' = length bs1"
    "bits_of bs' = xs @ [?b] @ take n (drop (i + 1) (bits_of hash)) @ replicate m False" by auto
  moreover have "drop i (bits_of hash) = ?b # drop (i + 1) (bits_of hash)" using Suc.prems(2) by (intro drop_bits) simp
  ultimately show ?case using b bs1 by (cases ?b) simp_all
qed simp

lemma put_index_loop_eq:
  assumes "bits_of bs = xs @ replicate (n + m) False" and "n \<le> 32"
  shows "\<exists>bs'. put_index_loop (int k) n (length xs) bs = Ok bs' \<and> length bs' = length bs \<and> bits_of bs' = xs @ nbits n k @ replicate m False"
  using assms
proof (induction n arbitrary: xs bs)
  case (Suc n)
  have w: "bit (word_of_int (int k) :: 32 word) n \<longleftrightarrow> bit k n" using Suc.prems(2) by (simp add: bit_simps)
  from put_bit [of bs xs "n + m" "bit k n"] Suc.prems(1) obtain bs1 where bs1: "(if bit k n then or_bit_at (length xs) bs else Ok bs) = Ok bs1"
    "length bs1 = length bs" "bits_of bs1 = (xs @ [bit k n]) @ replicate (n + m) False" by auto
  from Suc.IH [OF bs1(3)] Suc.prems(2) obtain bs' where "put_index_loop (int k) n (length xs + 1) bs1 = Ok bs'" "length bs' = length bs1"
    "bits_of bs' = xs @ [bit k n] @ nbits n k @ replicate m False" by auto
  with w bs1 show ?case by (cases "bit k n") simp_all
qed simp

subsection \<open>Sentences and bits\<close>

abbreviation chunk :: "nat \<Rightarrow> bool list \<Rightarrow> bool list" where
  "chunk j bits \<equiv> take 11 (drop (11 * j) bits)"

lemma chunk_val_less: "bits_val (chunk j bits) < 2048"
proof -
  have "bits_val (chunk j bits) < 2 ^ length (chunk j bits)" by (rule bits_val_less)
  also have "\<dots> \<le> 2 ^ 11" by (intro power_increasing) simp_all
  finally show ?thesis by simp
qed

lemma words_loop_eq:
  assumes "language \<noteq> NEOC_BIP39_LANG_PORTUGUESE" and "11 * (i + n) \<le> 8 * length bs"
  shows "words_loop language bs i n = Ok (map (\<lambda>j. bip39_wordlist_en ! bits_val (chunk j (bits_of bs))) [i..<i + n])"
  using assms(2)
proof (induction n arbitrary: i)
  case (Suc n)
  from index_loop_eq [of "i * 11" 11 bs 0 0] Suc.prems obtain r where r: "index_loop bs (i * 11) 11 0 = Ok r" "unat r = bits_val (chunk i (bits_of bs))"
    by (auto simp: bits_val_def mult.commute)
  have "unat r < 2048" using r(2) chunk_val_less by simp
  then have "neoc_bip39_get_word language r = Some (bip39_wordlist_en ! unat r)"
    using assms(1) by (simp add: neoc_bip39_get_word_def neoc_bip39_get_wordlist_def word_le_nat_alt)
  moreover have "[i..<i + Suc n] = i # [Suc i..<Suc i + n]" by (simp add: upt_conv_Cons)
  ultimately show ?case using r Suc.IH [of "Suc i"] Suc.prems by (simp del: upt_Suc)
qed simp

lemma concat_chunks: "length S = 11 * w \<Longrightarrow> concat (map (\<lambda>j. chunk j S) [i..<w]) = drop (11 * i) S"
proof (induction "w - i" arbitrary: i)
  case (Suc d)
  then have "[i..<w] = i # [Suc i..<w]" by (simp add: upt_conv_Cons)
  moreover have "concat (map (\<lambda>j. chunk j S) [Suc i..<w]) = drop (11 * Suc i) S" using Suc.hyps Suc.prems by simp
  moreover have "drop (11 * i) S = chunk i S @ drop (11 * Suc i) S" by (metis append_take_drop_id drop_drop mult_Suc_right add.commute)
  ultimately show ?case by simp
qed simp

lemma put_words_eq:
  assumes "language \<noteq> NEOC_BIP39_LANG_PORTUGUESE" and "\<forall>k \<in> set ks. k < 2048" and "bits_of bs = xs @ replicate (11 * length ks + m) False"
  shows "\<exists>bs'. put_words language (map (\<lambda>k. bip39_wordlist_en ! k) ks) (length xs) bs = Ok bs' \<and> length bs' = length bs
    \<and> bits_of bs' = xs @ concat (map (nbits 11) ks) @ replicate m False"
  using assms(2,3)
proof (induction ks arbitrary: xs bs)
  case (Cons k ks)
  have "bits_of bs = xs @ replicate (11 + (11 * length ks + m)) False" using Cons.prems(2) by simp
  from put_index_loop_eq [OF this, of k] obtain bs1 where bs1: "put_index_loop (int k) 11 (length xs) bs = Ok bs1" "length bs1 = length bs"
    "bits_of bs1 = (xs @ nbits 11 k) @ replicate (11 * length ks + m) False" by auto
  from Cons.IH [OF _ bs1(3)] Cons.prems(1) obtain bs' where "put_words language (map (\<lambda>k. bip39_wordlist_en ! k) ks) (length xs + 11) bs1 = Ok bs'"
    "length bs' = length bs1" "bits_of bs' = xs @ nbits 11 k @ concat (map (nbits 11) ks) @ replicate m False" by auto
  with bs1 find_word_nth [OF assms(1), of k] Cons.prems(1) show ?case by (simp add: Let_def)
qed simp

lemma put_words_bad:
  assumes "language \<noteq> NEOC_BIP39_LANG_PORTUGUESE" and "\<not> set ws \<subseteq> set bip39_wordlist_en" and "bits_of bs = xs @ replicate (11 * length ws) False @ ys"
    and "set ys \<subseteq> {False}"
  shows "put_words language ws (length xs) bs = Err NEOC_ERROR_INVALID_ARGUMENT"
  using assms(2,3)
proof (induction ws arbitrary: xs bs)
  case (Cons w ws)
  from find_word_cases [OF assms(1), of w] show ?case
  proof (elim disjE exE conjE)
    fix k
    assume k: "neoc_bip39_find_word language (Some w) = int k" "k < 2048" "bip39_wordlist_en ! k = w"
    have ys: "ys = replicate (length ys) False" using assms(4) by (induction ys) auto
    have "bits_of bs = xs @ replicate (11 + (11 * length ws + length ys)) False"
      using Cons.prems(2) ys by (simp add: replicate_add)
    from put_index_loop_eq [OF this, of k] obtain bs1 where bs1: "put_index_loop (int k) 11 (length xs) bs = Ok bs1"
      "bits_of bs1 = (xs @ nbits 11 k) @ replicate (11 * length ws + length ys) False" by auto
    have "w \<in> set bip39_wordlist_en" using k wordlist_length by (metis nth_mem)
    moreover have "bits_of bs1 = (xs @ nbits 11 k) @ replicate (11 * length ws) False @ ys" using bs1(2) ys by (simp add: replicate_add)
    ultimately show ?thesis using Cons.IH [of bs1 "xs @ nbits 11 k"] Cons.prems(1) bs1(1) k(1) by (simp add: Let_def)
  qed simp
qed simp

lemma nbits_take: "k \<le> n \<Longrightarrow> take k (nbits n x) = nbits k (x div 2 ^ (n - k))"
proof (induction "n - k" arbitrary: n x)
  case (Suc d)
  then obtain l where n: "n = Suc l" "d = l - k" "k \<le> l" by (cases n) auto
  then have "take k (nbits n x) = take k (nbits l (x div 2))" by (simp add: nbits_snoc del: nbits_simps(2))
  then show ?case using Suc.hyps(1) [OF n(2,3)] n by (simp add: div_mult2_eq Suc_diff_le)
qed simp

lemma bits_of_Cons: "bits_of (h # hs) = nbits 8 (unat h) @ bits_of hs"
proof -
  have "bits_of [h] = nbits 8 (unat h)"
    by (rule nth_equalityI) (auto simp: nbits_def rev_nth bit_unsigned_iff)
  then show ?thesis using bits_of_append [of "[h]" hs] by simp
qed

lemma checksum_value:
  assumes "hash \<noteq> []" and "cs \<le> 8"
  shows "bits_val (take cs (bits_of hash)) = unat (drop_bit (8 - cs) (hash ! 0))"
proof -
  obtain h hs where h: "hash = h # hs" using assms(1) by (cases hash) auto
  have "take cs (bits_of hash) = nbits cs (unat h div 2 ^ (8 - cs))" using assms(2) by (simp add: h bits_of_Cons nbits_take)
  moreover have "unat h div 2 ^ (8 - cs) < 2 ^ cs"
  proof -
    have "unat h < 2 ^ 8" using unsigned_less [of h] by simp
    also have "(2 :: nat) ^ 8 = 2 ^ cs * 2 ^ (8 - cs)" using assms(2) by (simp flip: power_add)
    finally show ?thesis by (simp add: less_mult_imp_div_less)
  qed
  ultimately show ?thesis unfolding unat_drop_bit_eq by (simp add: h bits_val_nbits drop_bit_eq_div)
qed

lemma tokens_word: "plain_word w \<Longrightarrow> tokens (w @ CHR '' '' # s) = w # tokens s" "plain_word w \<Longrightarrow> tokens w = [w]"
proof -
  assume "plain_word w"
  then obtain c v where w: "w = c # v" "c \<noteq> CHR '' ''" "\<forall>x \<in> set v. x \<noteq> CHR '' ''" by (cases w) (auto simp: plain_word_def)
  then have "takeWhile (\<lambda>x. x \<noteq> CHR '' '') (v @ CHR '' '' # s) = v" "dropWhile (\<lambda>x. x \<noteq> CHR '' '') (v @ CHR '' '' # s) = CHR '' '' # s"
    "takeWhile (\<lambda>x. x \<noteq> CHR '' '') v = v" and d: "dropWhile (\<lambda>x. x \<noteq> CHR '' '') v = []"
    by (simp_all add: takeWhile_append2 dropWhile_append2)
  moreover have "tokens (dropWhile (\<lambda>x. x \<noteq> CHR '' '') v) = []" by (simp only: d tokens.simps)
  ultimately show "tokens (w @ CHR '' '' # s) = w # tokens s" "tokens w = [w]" using w by simp_all
qed

lemma tokens_join: "list_all plain_word ws \<Longrightarrow> tokens (join_words ws) = ws"
  by (induction ws rule: join_words.induct) (simp_all add: tokens_word)

lemma length_join: "ws \<noteq> [] \<Longrightarrow> length (join_words ws) = length ws - 1 + sum_list (map length ws)"
  by (induction ws rule: join_words.induct) simp_all

text \<open>The bits of a sentence: the entropy and the first bits of its digest.\<close>

definition sentence_bits :: "byte list \<Rightarrow> byte list \<Rightarrow> bool list" where
  "sentence_bits hash e = bits_of e @ take (length e div 4) (bits_of hash)"

definition sentence :: "bool list \<Rightarrow> string list" where
  "sentence S = map (\<lambda>j. bip39_wordlist_en ! bits_val (chunk j S)) [0..<length S div 11]"

text \<open>The numbers of bits and words that belong to an entropy of \<open>4 * c\<close> bytes.\<close>

lemma entropy_length_cases:
  assumes "entropy_length_ok n"
  obtains c where "n = 4 * c" and "4 \<le> c" and "c \<le> 8"
  using assms that [of "n div 4"] by (auto simp: entropy_length_ok_def)

lemma sha_works:
  assumes "crypto_works C"
  obtains hash where "neoc_sha256 C (Some e) = Ok hash" and "length hash = 32"
  using assms that by (auto simp: crypto_works_def neoc_sha256_def digest_calls_def) (metis option.simps(5))

lemma plain_sentence: "list_all plain_word (sentence S)"
  using wordlist_plain chunk_val_less wordlist_length by (auto simp: sentence_def list_all_iff)

lemma chunk_append: "11 * (j + 1) \<le> length S \<Longrightarrow> chunk j (S @ xs) = chunk j S"
  by simp

lemma plain_chars: "list_all plain_word ws \<Longrightarrow> sum_list (map length ws) \<le> 8 * length ws"
  by (induction ws) (simp_all add: plain_word_def)

lemma from_entropy_eq:
  assumes "entropy_length_ok (length e)" and "language \<noteq> NEOC_BIP39_LANG_PORTUGUESE" and "neoc_sha256 C (Some e) = Ok hash" and "length hash = 32"
    and "grants A 256"
  shows "neoc_bip39_mnemonic_from_entropy C A (Some e) language = Ok (join_words (sentence (sentence_bits hash e)))"
proof -
  from assms(1) obtain c where c: "length e = 4 * c" "4 \<le> c" "c \<le> 8" by (rule entropy_length_cases)
  let ?S = "sentence_bits hash e" and ?tb = "(33 * c + 7) div 8" let ?m = "8 * ?tb - 33 * c"
  have S: "length ?S = 33 * c" using c assms(4) by (simp add: sentence_bits_def)
  have tb: "4 * c \<le> ?tb" "8 * (?tb - 4 * c) = c + ?m" "33 * c + ?m = 8 * ?tb" "?tb \<le> 33" using c(2,3) by auto
  have "bits_of (e @ replicate (?tb - 4 * c) 0) = bits_of e @ replicate (c + ?m) False" using tb(2) by (simp add: bits_of_append)
  from checksum_loop_eq [OF this, of 0 hash] c assms(4) obtain bs where
    bs: "checksum_loop hash 0 c (8 * length e) (e @ replicate (?tb - 4 * c) 0) = Ok bs" "length bs = ?tb" "bits_of bs = ?S @ replicate ?m False"
    using tb(1) by (auto simp: sentence_bits_def)
  have "words_loop language bs 0 (3 * c) = Ok (map (\<lambda>j. bip39_wordlist_en ! bits_val (chunk j (bits_of bs))) [0..<3 * c])"
    using words_loop_eq [OF assms(2), of 0 "3 * c" bs] bs(2) tb(3) by simp
  also have "map (\<lambda>j. bip39_wordlist_en ! bits_val (chunk j (bits_of bs))) [0..<3 * c] = sentence ?S"
    unfolding sentence_def S bs(3) using S by (auto intro!: arg_cong [of _ _ bits_val])
  finally have ws: "words_loop language bs 0 (3 * c) = Ok (sentence ?S)" .
  have len: "length (sentence ?S) = 3 * c" by (simp add: sentence_def S)
  then have chars: "length (join_words (sentence ?S)) = 3 * c - 1 + sum_list (map length (sentence ?S))"
    using length_join [of "sentence ?S"] c(2) by (cases "sentence ?S") simp_all
  have "A ?tb" "A (3 * c - 1 + sum_list (map length (sentence ?S)) + 1)"
    using grantsD [OF assms(5)] tb(4) plain_chars [OF plain_sentence, of ?S] len c(3) by simp_all
  then show ?thesis
    using assms(1-3) c bs(1) ws chars
    by (simp add: neoc_bip39_mnemonic_from_entropy_def neoc_bip39_get_wordlist_def Let_def mult.commute)
qed

lemma join_length: "list_all plain_word ws \<Longrightarrow> length (join_words ws) \<le> 9 * length ws"
  using length_join [of ws] plain_chars [of ws] by (cases "ws = []") auto

text \<open>What a sentence of known words decodes to: its bits are those of the entropy and of the checksum.\<close>

lemma to_entropy_eq:
  assumes "language \<noteq> NEOC_BIP39_LANG_PORTUGUESE" and "\<forall>k \<in> set ks. k < 2048" and "tokens m = map (\<lambda>k. bip39_wordlist_en ! k) ks"
    and "length ks = 3 * c" and "4 \<le> c" and "c \<le> 8" and "crypto_works C" and "grants A (max 256 (length m + 1))"
  obtains e hash where "length e = 4 * c" and "bits_of e = take (32 * c) (concat (map (nbits 11) ks))" and "neoc_sha256 C (Some e) = Ok hash"
    and "length hash = 32" and "neoc_bip39_mnemonic_to_entropy C A (Some m) language =
      (if drop (32 * c) (concat (map (nbits 11) ks)) = take c (bits_of hash) then Ok e else Err NEOC_ERROR_INVALID_ARGUMENT)"
proof -
  let ?S = "concat (map (nbits 11) ks)" and ?tb = "(33 * c + 7) div 8" let ?m = "8 * ?tb - 33 * c"
  have S: "length ?S = 33 * c" using assms(4) by (simp add: length_concat o_def sum_list_triv)
  have tb: "4 * c \<le> ?tb" "33 * c + ?m = 8 * ?tb" "?tb \<le> 33" using assms(5,6) by auto
  have "bits_of (replicate ?tb 0) = [] @ replicate (11 * length ks + ?m) False" using tb(2) assms(4) by simp
  from put_words_eq [OF assms(1,2) this] obtain bs where
    bs: "put_words language (map (\<lambda>k. bip39_wordlist_en ! k) ks) 0 (replicate ?tb 0) = Ok bs" "length bs = ?tb" "bits_of bs = ?S @ replicate ?m False" by auto
  define e where "e = take (4 * c) bs"
  have e: "length e = 4 * c" "bits_of e = take (32 * c) ?S" using bs tb(1) S by (simp_all add: e_def bits_of_take)
  obtain hash where hash: "neoc_sha256 C (Some e) = Ok hash" "length hash = 32" using assms(7) by (rule sha_works)
  have "take c (drop (32 * c) (bits_of bs)) = drop (32 * c) ?S" using S unfolding bs(3) by simp
  with accum_loop_eq [of "32 * c" c bs 0 0] bs(2) tb(2) assms(6) obtain r where
    r: "accum_loop bs (32 * c) c 0 = Ok r" "unat r = bits_val (drop (32 * c) ?S)" by (auto simp: bits_val_def)
  have ne: "hash \<noteq> []" using hash(2) by auto
  have "r = drop_bit (8 - c) (hash ! 0) \<longleftrightarrow> bits_val (drop (32 * c) ?S) = bits_val (take c (bits_of hash))"
    using r(2) checksum_value [OF ne assms(6)] by (simp add: word_unat_eq_iff)
  also have "\<dots> \<longleftrightarrow> drop (32 * c) ?S = take c (bits_of hash)"
    using bits_val_inj [of "drop (32 * c) ?S" "take c (bits_of hash)"] S hash(2) assms(6) by auto
  finally have check: "r = drop_bit (8 - c) (hash ! 0) \<longleftrightarrow> drop (32 * c) ?S = take c (bits_of hash)" .
  have "A (length m + 1)" "A ?tb" "A (4 * c)" using grantsD [OF assms(8)] tb(3) assms(6) by simp_all
  moreover have "3 * c \<in> {12, 15, 18, 21, 24}" using assms(5,6) by auto
  moreover have "3 * c * 11 div 33 = c" "3 * c * 11 = 33 * c" "33 * c - c = 32 * c" "32 * c div 8 = 4 * c" "32 * c mod 8 = 0" by simp_all
  ultimately have "neoc_bip39_mnemonic_to_entropy C A (Some m) language =
      (if drop (32 * c) ?S = take c (bits_of hash) then Ok e else Err NEOC_ERROR_INVALID_ARGUMENT)"
    using assms(3-6) bs(1) r(1) hash(1) check
    by (auto simp: neoc_bip39_mnemonic_to_entropy_def Let_def e_def)
  with e hash show thesis by (rule that)
qed

lemma put_words_outcome:
  assumes "ws \<noteq> []" and "length ws * 11 \<le> 8 * n"
  shows "put_words language ws 0 (replicate n 0) = Err NEOC_ERROR_INVALID_ARGUMENT
    \<or> (\<exists>ks. language \<noteq> NEOC_BIP39_LANG_PORTUGUESE \<and> ws = map (\<lambda>k. bip39_wordlist_en ! k) ks \<and> (\<forall>k \<in> set ks. k < 2048)
        \<and> (\<exists>bs. put_words language ws 0 (replicate n 0) = Ok bs \<and> length bs = n))"
proof (cases "language = NEOC_BIP39_LANG_PORTUGUESE")
  case True
  then have "neoc_bip39_find_word language (Some w) = - 1" for w by (simp add: neoc_bip39_find_word_def neoc_bip39_get_wordlist_def)
  with True assms(1) show ?thesis by (cases ws) (simp_all add: Let_def)
next
  case False
  let ?m = "8 * n - 11 * length ws"
  have z: "bits_of (replicate n 0) = [] @ replicate (11 * length ws + ?m) False" using assms(2) by (simp add: mult.commute)
  show ?thesis
  proof (cases "set ws \<subseteq> set bip39_wordlist_en")
    case True
    then have "\<forall>w \<in> set ws. \<exists>k < 2048. w = bip39_wordlist_en ! k" using wordlist_length by (metis in_set_conv_nth subsetD)
    then obtain f where f: "\<forall>w \<in> set ws. f w < 2048 \<and> bip39_wordlist_en ! f w = w" by metis
    then have ws: "ws = map (\<lambda>k. bip39_wordlist_en ! k) (map f ws)" by (simp add: map_idI)
    have "bits_of (replicate n 0) = [] @ replicate (11 * length (map f ws) + ?m) False" using z by simp
    moreover have "\<forall>k \<in> set (map f ws). k < 2048" using f by simp
    ultimately obtain bs where "put_words language (map (\<lambda>k. bip39_wordlist_en ! k) (map f ws)) 0 (replicate n 0) = Ok bs" "length bs = n"
      using put_words_eq [OF False, of "map f ws" "replicate n 0" "[]" ?m] by auto
    with ws f False show ?thesis by (intro disjI2 exI [of _ "map f ws"]) auto
  next
    case bad: False
    have "bits_of (replicate n 0) = [] @ replicate (11 * length ws) False @ replicate ?m False" using z by (simp add: replicate_add)
    moreover have "set (replicate ?m False) \<subseteq> {False}" by auto
    ultimately have "put_words language ws (length ([] :: bool list)) (replicate n 0) = Err NEOC_ERROR_INVALID_ARGUMENT"
      by (rule put_words_bad [OF False bad])
    then show ?thesis by simp
  qed
qed

lemma count_cases:
  assumes "n \<in> {12, 15, 18, 21, 24 :: nat}"
  obtains c where "n = 3 * c" and "4 \<le> c" and "c \<le> 8"
  using assms that [of "n div 3"] by auto

lemma concat_nbits:
  assumes "\<forall>k \<in> set ks. k < 2048"
  shows "sentence (concat (map (nbits 11) ks)) = map (\<lambda>k. bip39_wordlist_en ! k) ks"
proof -
  have len: "length (concat (map (nbits 11) ks)) = 11 * length ks" by (simp add: length_concat o_def sum_list_triv)
  have "chunk j (concat (map (nbits 11) ks)) = nbits 11 (ks ! j)" if "j < length ks" for j
    using that
  proof (induction ks arbitrary: j)
    case (Cons k ks)
    then show ?case by (cases j) simp_all
  qed simp
  moreover have "bits_val (nbits 11 (ks ! j)) = ks ! j" if "j < length ks" for j using assms that by (intro bits_val_nbits) simp
  ultimately show ?thesis unfolding sentence_def len by (intro nth_equalityI) simp_all
qed

text \<open> Mnemonic sentences encode entropy: from 16, 20, 24, 28 or 32 bytes the code makes a sentence of 12, 15, 18, 21 or 24 words, which
  it accepts as valid and decodes to the same bytes.\<close>

theorem mnemonic_roundtrip:
  assumes "entropy_length_ok (length e)" and "language \<noteq> NEOC_BIP39_LANG_PORTUGUESE" and "crypto_works C" and "grants A 256"
  shows "\<exists>m. neoc_bip39_mnemonic_from_entropy C A (Some e) language = Ok m
    \<and> length (tokens m) = neoc_bip39_get_word_count (8 * length e)
    \<and> neoc_bip39_mnemonic_to_entropy C A (Some m) language = Ok e
    \<and> neoc_bip39_validate_mnemonic C A (Some m) language = Ok True"
proof -
  from assms(1) obtain c where c: "length e = 4 * c" "4 \<le> c" "c \<le> 8" by (rule entropy_length_cases)
  obtain hash where hash: "neoc_sha256 C (Some e) = Ok hash" "length hash = 32" using assms(3) by (rule sha_works)
  let ?S = "sentence_bits hash e" let ?m = "join_words (sentence ?S)"
  define ks where "ks = map (\<lambda>j. bits_val (chunk j ?S)) [0..<3 * c]"
  have S: "length ?S = 33 * c" using c hash(2) by (simp add: sentence_bits_def)
  have tok: "tokens ?m = map (\<lambda>k. bip39_wordlist_en ! k) ks" using tokens_join [OF plain_sentence, of ?S] by (simp add: sentence_def S ks_def)
  have "map (nbits 11) ks = map (\<lambda>j. chunk j ?S) [0..<3 * c]"
    unfolding ks_def using S by (auto simp: nbits_bits_val)
  then have cat: "concat (map (nbits 11) ks) = ?S" using concat_chunks [of ?S "3 * c" 0] S by simp
  have "length ?m + 1 \<le> 256" using join_length [OF plain_sentence, of ?S] c(3) by (simp add: sentence_def S)
  then have g: "grants A (max 256 (length ?m + 1))" using assms(4) by (simp add: max_absorb1)
  have ks: "\<forall>k \<in> set ks. k < 2048" "length ks = 3 * c" by (auto simp: ks_def chunk_val_less)
  obtain e' hash' where e': "length e' = 4 * c" "bits_of e' = take (32 * c) (concat (map (nbits 11) ks))" "neoc_sha256 C (Some e') = Ok hash'"
    "neoc_bip39_mnemonic_to_entropy C A (Some ?m) language =
      (if drop (32 * c) (concat (map (nbits 11) ks)) = take c (bits_of hash') then Ok e' else Err NEOC_ERROR_INVALID_ARGUMENT)"
    using assms(2) ks(1) tok ks(2) c(2,3) assms(3) g by (rule to_entropy_eq)
  have "bits_of e' = bits_of e" using e'(2) c(1) unfolding cat by (simp add: sentence_bits_def)
  then have "e' = e" by (simp add: bits_of_inj)
  moreover have "drop (32 * c) ?S = take c (bits_of hash)" using c(1) by (simp add: sentence_bits_def)
  ultimately have "neoc_bip39_mnemonic_to_entropy C A (Some ?m) language = Ok e" using e'(3,4) hash(1) unfolding cat by simp
  moreover have "length (tokens ?m) = neoc_bip39_get_word_count (8 * length e)"
    using c ks(2) tok by (auto simp: neoc_bip39_get_word_count_def)
  ultimately show ?thesis using from_entropy_eq [OF assms(1,2) hash assms(4)] by (simp add: neoc_bip39_validate_mnemonic_def)
qed

text \<open>C34.  Decoding never leaves its buffers, whatever the sentence; and the sentences it accepts are those the code makes: encoding the
  decoded bytes gives the same words, separated by single spaces.  So different sentences of words decode to different bytes, and one wrong word
  that changes the checksum is refused.\<close>

theorem mnemonic_decode_sound:
  assumes "crypto_works C" and "grants A (max 256 (length m + 1))"
  shows "neoc_bip39_mnemonic_to_entropy C A (Some m) language \<noteq> Fault
    \<and> (\<forall>e. neoc_bip39_mnemonic_to_entropy C A (Some m) language = Ok e \<longrightarrow>
          entropy_length_ok (length e) \<and> neoc_bip39_mnemonic_from_entropy C A (Some e) language = Ok (join_words (tokens m)))"
proof (cases "length (tokens m) \<in> {12, 15, 18, 21, 24}")
  case True
  then obtain c where c: "length (tokens m) = 3 * c" "4 \<le> c" "c \<le> 8" by (rule count_cases)
  have tk: "take 24 (tokens m) = tokens m" "\<not> 24 < length (tokens m)" using c by auto
  have g: "A (length m + 1)" "A ((33 * c + 7) div 8)" using grantsD [OF assms(2)] c(3) by simp_all
  have "tokens m \<noteq> []" "length (tokens m) * 11 \<le> 8 * ((33 * c + 7) div 8)" using c by auto
  from put_words_outcome [OF this, of language] show ?thesis
  proof (elim disjE exE conjE)
    fix ks
    assume ks: "language \<noteq> NEOC_BIP39_LANG_PORTUGUESE" "tokens m = map (\<lambda>k. bip39_wordlist_en ! k) ks" "\<forall>k \<in> set ks. k < 2048"
    then have lk: "length ks = 3 * c" using c(1) by simp
    obtain e hash where e: "length e = 4 * c" "bits_of e = take (32 * c) (concat (map (nbits 11) ks))" "neoc_sha256 C (Some e) = Ok hash" "length hash = 32"
      "neoc_bip39_mnemonic_to_entropy C A (Some m) language =
        (if drop (32 * c) (concat (map (nbits 11) ks)) = take c (bits_of hash) then Ok e else Err NEOC_ERROR_INVALID_ARGUMENT)"
      using ks(1,3,2) lk c(2,3) assms by (rule to_entropy_eq)
    have ok: "entropy_length_ok (length e)" using e(1) c by (simp add: entropy_length_ok_def)
    have "sentence_bits hash e = concat (map (nbits 11) ks)" if "drop (32 * c) (concat (map (nbits 11) ks)) = take c (bits_of hash)"
      using that e(1,2) by (simp add: sentence_bits_def flip: that)
    with from_entropy_eq [OF ok ks(1) e(3,4)] grants_mono [OF assms(2), of 256] concat_nbits [OF ks(3)] ks(2) ok e(5) show ?thesis by auto
  next
    assume "put_words language (tokens m) 0 (replicate ((33 * c + 7) div 8) 0) = Err NEOC_ERROR_INVALID_ARGUMENT"
    moreover have "3 * c * 11 div 33 = c" "3 * c * 11 = 33 * c" "33 * c - c = 32 * c" "32 * c div 8 = 4 * c" "32 * c mod 8 = 0" by simp_all
    ultimately have "neoc_bip39_mnemonic_to_entropy C A (Some m) language = Err NEOC_ERROR_INVALID_ARGUMENT"
      using g True tk c(1) by (simp add: neoc_bip39_mnemonic_to_entropy_def Let_def)
    then show ?thesis by simp
  qed
next
  case False
  have "A (length m + 1)" using grantsD [OF assms(2)] by simp
  moreover have "24 < length (tokens m) \<or> length (take 24 (tokens m)) \<notin> {12, 15, 18, 21, 24}" using False by (auto simp: min_def split: if_splits)
  ultimately have "neoc_bip39_mnemonic_to_entropy C A (Some m) language = Err NEOC_ERROR_INVALID_ARGUMENT"
    by (simp add: neoc_bip39_mnemonic_to_entropy_def Let_def)
  then show ?thesis by simp
qed

text \<open>For the examples, a digest that is zero.\<close>

definition zero_digest :: crypto where
  "zero_digest = \<lparr>crypto_initialized = True, ossl_sha256 = (\<lambda>_. Some (replicate 32 0)), ossl_ripemd160 = (\<lambda>_. Some (replicate 20 0)),
     ossl_hmac_sha256 = (\<lambda>_ _. None), ossl_hmac_sha512 = (\<lambda>_ _. None)\<rparr>"

lemma zero_digest_works: "crypto_works zero_digest"
  by (simp add: crypto_works_def zero_digest_def)

theorem mnemonic_roundtrip_witness:
  "\<exists>m. neoc_bip39_mnemonic_from_entropy zero_digest (\<lambda>_. True) (Some (replicate 16 7)) NEOC_BIP39_LANG_ENGLISH = Ok m
     \<and> length (tokens m) = 12 \<and> neoc_bip39_mnemonic_to_entropy zero_digest (\<lambda>_. True) (Some m) NEOC_BIP39_LANG_ENGLISH = Ok (replicate 16 7)"
  using mnemonic_roundtrip [of "replicate 16 7" NEOC_BIP39_LANG_ENGLISH zero_digest "\<lambda>_. True"] zero_digest_works
  by (auto simp: entropy_length_ok_def neoc_bip39_get_word_count_def)

lemma abandon_first: "bip39_wordlist_en ! 0 = ''abandon''"
  by (simp add: bip39_wordlist_en_def words_00_def nth_append)

lemma nbits_zero [simp]: "nbits n 0 = replicate n False"
  by (induction n) simp_all

theorem mnemonic_decode_sound_witness:
  "\<exists>e. neoc_bip39_mnemonic_to_entropy zero_digest (\<lambda>_. True) (Some (join_words (replicate 12 ''abandon''))) NEOC_BIP39_LANG_ENGLISH = Ok e
     \<and> neoc_bip39_mnemonic_from_entropy zero_digest (\<lambda>_. True) (Some e) NEOC_BIP39_LANG_ENGLISH = Ok (join_words (replicate 12 ''abandon''))"
proof -
  let ?m = "join_words (replicate 12 ''abandon'')"
  have tok: "tokens ?m = replicate 12 ''abandon''" by (rule tokens_join) (simp add: list_all_iff plain_word_def)
  have bits: "concat (replicate n (replicate 11 False)) = replicate (11 * n) False" for n by (induction n) (simp_all flip: replicate_add)
  have ks: "\<forall>k \<in> set (replicate 12 (0 :: nat)). k < 2048" "tokens ?m = map (\<lambda>k. bip39_wordlist_en ! k) (replicate 12 0)" "length (replicate 12 (0 :: nat)) = 3 * 4"
    using tok abandon_first by simp_all
  have side: "NEOC_BIP39_LANG_ENGLISH \<noteq> NEOC_BIP39_LANG_PORTUGUESE" "(4 :: nat) \<le> 4" "(4 :: nat) \<le> 8" "grants (\<lambda>_. True) (max 256 (length ?m + 1))" by simp_all
  obtain e hash where "length e = 4 * 4" and "bits_of e = take (32 * 4) (concat (map (nbits 11) (replicate 12 0)))"
    and e: "neoc_sha256 zero_digest (Some e) = Ok hash" and "length hash = 32"
    and eq: "neoc_bip39_mnemonic_to_entropy zero_digest (\<lambda>_. True) (Some ?m) NEOC_BIP39_LANG_ENGLISH =
      (if drop (32 * 4) (concat (map (nbits 11) (replicate 12 0))) = take 4 (bits_of hash) then Ok e else Err NEOC_ERROR_INVALID_ARGUMENT)"
    using side(1) ks side(2,3) zero_digest_works side(4) by (rule to_entropy_eq)
  have "hash = replicate 32 0" using e by (simp add: neoc_sha256_def digest_calls_def zero_digest_def)
  with eq have "neoc_bip39_mnemonic_to_entropy zero_digest (\<lambda>_. True) (Some ?m) NEOC_BIP39_LANG_ENGLISH = Ok e"
    by (simp add: bits)
  with mnemonic_decode_sound [of zero_digest "\<lambda>_. True" ?m NEOC_BIP39_LANG_ENGLISH] zero_digest_works tok show ?thesis by auto
qed

end
