(* ===== verification/Numeric.thy ===== *)
theory Numeric
  imports Witness Hash_Types
begin

text \<open>
  \<^verbatim>\<open>src/utils/numeric.c\<close>: variable-length sizes, numbers as bytes in both byte orders, big numbers from hexadecimal text.  An object behind a
  \<^verbatim>\<open>void\<close> pointer is the list of its bytes in memory; the host is little-endian.  The lemmas on loops over bytes are shared with the other
  byte utilities.
\<close>

subsection \<open>Operations\<close>

definition fits_int :: "int \<Rightarrow> bool" where
  "fits_int x \<longleftrightarrow> - (2 ^ 31) \<le> x \<and> x < 2 ^ 31"

text \<open>A product that does not fit into an \<^verbatim>\<open>int\<close> has no defined value.\<close>

fun power_loop :: "int \<Rightarrow> nat \<Rightarrow> int \<Rightarrow> int result" where
  "power_loop base 0 result = Ok result"
| "power_loop base (Suc n) result = (if fits_int (result * base) then power_loop base n (result * base) else Fault)"

definition neoc_numeric_power :: "int \<Rightarrow> int \<Rightarrow> int result" where
  "neoc_numeric_power base exponent = (if exponent < 0 then Ok 0 else power_loop base (nat exponent) 1)"

definition neoc_numeric_var_size :: "u64 \<Rightarrow> nat" where
  "neoc_numeric_var_size value = (if value < 0xFD then 1 else if value \<le> 0xFFFF then 3 else if value \<le> 0xFFFFFFFF then 5 else 9)"

definition low_byte :: "u64 \<Rightarrow> nat \<Rightarrow> byte" where
  "low_byte value i = ucast (drop_bit (8 * i) value AND 0xFF)"

text \<open>The bytes stored in the buffer; their number is what is reported.\<close>

definition neoc_numeric_encode_var_size :: "u64 \<Rightarrow> nat \<Rightarrow> byte list result" where
  "neoc_numeric_encode_var_size value buffer_size =
     (if buffer_size < neoc_numeric_var_size value then Err NEOC_ERROR_BUFFER_TOO_SMALL
      else Ok (if value < 0xFD then [ucast value]
               else if value \<le> 0xFFFF then [0xFD, ucast (value AND 0xFF), ucast (drop_bit 8 value AND 0xFF)]
               else if value \<le> 0xFFFFFFFF then 0xFE # map (low_byte value) [0..<4]
               else 0xFF # map (low_byte value) [0..<8]))"

text \<open>The loop \<^verbatim>\<open>result |= bytes[i] << (8 * i)\<close>.\<close>

definition or_bytes :: "nat \<Rightarrow> byte list \<Rightarrow> 'a::len word" where
  "or_bytes n bytes = fold (\<lambda>i result. result OR push_bit (8 * i) (ucast (bytes ! i))) [0..<n] 0"

definition neoc_numeric_decode_var_size :: "byte list option \<Rightarrow> (u64 \<times> nat) result" where
  "neoc_numeric_decode_var_size buffer =
     (case buffer of
        None \<Rightarrow> Err NEOC_ERROR_INVALID_ARGUMENT
      | Some [] \<Rightarrow> Err NEOC_ERROR_INVALID_LENGTH
      | Some (first # rest) \<Rightarrow>
          if first < 0xFD then Ok (ucast first, 1)
          else if first = 0xFD then
            if Suc (length rest) < 3 then Err NEOC_ERROR_INVALID_LENGTH else Ok (ucast (rest ! 0) OR push_bit 8 (ucast (rest ! 1)), 3)
          else if first = 0xFE then
            if Suc (length rest) < 5 then Err NEOC_ERROR_INVALID_LENGTH else Ok (or_bytes 4 rest, 5)
          else
            if Suc (length rest) < 9 then Err NEOC_ERROR_INVALID_LENGTH else Ok (or_bytes 8 rest, 9))"

definition neoc_numeric_to_unsigned :: "32 word \<Rightarrow> u32" where
  "neoc_numeric_to_unsigned value = word_of_int (sint value)"

definition neoc_numeric_copy_bytes :: "allocator \<Rightarrow> byte list option \<Rightarrow> bool \<Rightarrow> byte list result" where
  "neoc_numeric_copy_bytes A value little_endian_target =
     (case value of
        None \<Rightarrow> Err NEOC_ERROR_INVALID_ARGUMENT
      | Some source \<Rightarrow>
          if length source = 0 then Err NEOC_ERROR_INVALID_ARGUMENT
          else bind_r (malloc_r A (length source)) (\<lambda>_.
            if little_endian_target then Ok source
            else Ok (map (\<lambda>i. source ! (length source - 1 - i)) [0..<length source])))"

definition neoc_numeric_to_bytes_le :: "allocator \<Rightarrow> byte list option \<Rightarrow> byte list result" where
  "neoc_numeric_to_bytes_le A value = neoc_numeric_copy_bytes A value True"

definition neoc_numeric_to_bytes_be :: "allocator \<Rightarrow> byte list option \<Rightarrow> byte list result" where
  "neoc_numeric_to_bytes_be A value = neoc_numeric_copy_bytes A value False"

definition neoc_numeric_from_bytes :: "byte list option \<Rightarrow> nat \<Rightarrow> bool \<Rightarrow> byte list result" where
  "neoc_numeric_from_bytes bytes value_size little_endian_source =
     (case bytes of
        None \<Rightarrow> Err NEOC_ERROR_INVALID_ARGUMENT
      | Some bs \<Rightarrow>
          if length bs = 0 \<or> value_size = 0 then Err NEOC_ERROR_INVALID_ARGUMENT
          else
            let copy_len = (if length bs < value_size then length bs else value_size); destination = replicate value_size 0 in
            if little_endian_source then Ok (take copy_len bs @ drop copy_len destination)
            else Ok (fold (\<lambda>i d. d[value_size - 1 - i := bs ! i]) [0..<copy_len] destination))"

definition neoc_numeric_from_bytes_le :: "byte list option \<Rightarrow> nat \<Rightarrow> byte list result" where
  "neoc_numeric_from_bytes_le bytes value_size = neoc_numeric_from_bytes bytes value_size True"

definition neoc_numeric_from_bytes_be :: "byte list option \<Rightarrow> nat \<Rightarrow> byte list result" where
  "neoc_numeric_from_bytes_be bytes value_size = neoc_numeric_from_bytes bytes value_size False"

definition neoc_numeric_bigint_to_padded_bytes :: "allocator \<Rightarrow> string option \<Rightarrow> nat \<Rightarrow> byte list result" where
  "neoc_numeric_bigint_to_padded_bytes A big_int_hex target_length =
     (case big_int_hex of
        None \<Rightarrow> Err NEOC_ERROR_INVALID_ARGUMENT
      | Some s \<Rightarrow>
          if target_length = 0 then Err NEOC_ERROR_INVALID_ARGUMENT
          else
            (case neoc_hex_decode_alloc A (Some s) of
               Fault \<Rightarrow> Fault
             | Err _ \<Rightarrow> Err NEOC_ERROR_INVALID_FORMAT
             | Ok decoded \<Rightarrow>
                 let useful_start = length (takeWhile (\<lambda>b. b = 0) decoded); useful_len = length decoded - useful_start in
                 if target_length < useful_len then Err NEOC_ERROR_INVALID_SIZE
                 else bind_r (malloc_r A target_length) (\<lambda>_.
                   Ok (replicate (target_length - useful_len) 0 @ drop useful_start decoded))))"

text \<open>\<open>now\<close>: seconds and microseconds from \<^verbatim>\<open>gettimeofday\<close>, when it succeeds.\<close>

definition neoc_numeric_current_time_millis :: "(int \<times> int) option \<Rightarrow> int" where
  "neoc_numeric_current_time_millis now = (case now of None \<Rightarrow> 0 | Some (tv_sec, tv_usec) \<Rightarrow> tv_sec * 1000 + tv_usec div 1000)"

definition neoc_numeric_get_decimal_scale :: "string option \<Rightarrow> nat" where
  "neoc_numeric_get_decimal_scale decimal_str =
     (case decimal_str of
        None \<Rightarrow> 0
      | Some s \<Rightarrow>
          (case dropWhile (\<lambda>c. c \<noteq> CHR ''.'') s of
             [] \<Rightarrow> 0
           | _ # ptr \<Rightarrow> length (takeWhile (\<lambda>c. CHR ''0'' \<le> c \<and> c \<le> CHR ''9'') ptr)))"

subsection \<open>Reversing in place\<close>

definition swap_at :: "nat \<Rightarrow> nat \<Rightarrow> 'a list \<Rightarrow> 'a list" where
  "swap_at i j xs = xs[i := xs ! j, j := xs ! i]"

text \<open>The loop with two indices that meet in the middle.\<close>

function swap_loop :: "nat \<Rightarrow> nat \<Rightarrow> 'a list \<Rightarrow> 'a list" where
  "swap_loop left right xs = (if left < right then swap_loop (left + 1) (right - 1) (swap_at left right xs) else xs)"
  by auto
termination by (relation "measure (\<lambda>(l, r, _). r - l)") auto

declare swap_loop.simps [simp del]

lemma length_swap_at [simp]: "length (swap_at i j xs) = length xs"
  by (simp add: swap_at_def)

lemma swap_at_nth: "i < length xs \<Longrightarrow> j < length xs \<Longrightarrow> m < length xs \<Longrightarrow> swap_at i j xs ! m = (if m = j then xs ! i else if m = i then xs ! j else xs ! m)"
  by (simp add: swap_at_def nth_list_update)

lemma length_swap_loop [simp]: "length (swap_loop l r xs) = length xs"
  by (induction l r xs rule: swap_loop.induct) (subst swap_loop.simps, simp)

lemma swap_loop_nth:
  "r < length xs \<Longrightarrow> i < length xs \<Longrightarrow> swap_loop l r xs ! i = (if l \<le> i \<and> i \<le> r then xs ! (l + r - i) else xs ! i)"
proof (induction l r xs rule: swap_loop.induct)
  case (1 l r xs)
  show ?case
  proof (cases "l < r")
    case True
    have "swap_loop l r xs ! i = swap_loop (l + 1) (r - 1) (swap_at l r xs) ! i" using True by (subst swap_loop.simps) simp
    also have "\<dots> = (if l + 1 \<le> i \<and> i \<le> r - 1 then swap_at l r xs ! (l + r - i) else swap_at l r xs ! i)"
      using "1.IH" True "1.prems" by simp
    also have "\<dots> = (if l \<le> i \<and> i \<le> r then xs ! (l + r - i) else xs ! i)"
      using True "1.prems" by (auto simp: swap_at_nth)
    finally show ?thesis .
  next
    case False
    then have "l \<le> i \<and> i \<le> r \<Longrightarrow> l + r - i = i" by linarith
    then show ?thesis using False "1.prems" by (subst swap_loop.simps) auto
  qed
qed

lemma swap_loop_take:
  assumes "0 < n" and "n \<le> length xs"
  shows "swap_loop 0 (n - 1) xs = rev (take n xs) @ drop n xs"
  by (rule nth_equalityI) (use assms in \<open>auto simp: swap_loop_nth rev_nth nth_append\<close>)

lemma swap_loop_rev: "xs \<noteq> [] \<Longrightarrow> swap_loop 0 (length xs - 1) xs = rev xs"
  using swap_loop_take [of "length xs" xs] by simp

text \<open>The loop up to half of the length.\<close>

lemma length_swap_fold [simp]: "length (fold (\<lambda>i. swap_at i (f i)) is xs) = length xs"
  by (induction "is" arbitrary: xs) simp_all

lemma swap_fold_nth:
  assumes "k \<le> n div 2" and "n \<le> length xs" and "j < length xs"
  shows "fold (\<lambda>i. swap_at i (n - 1 - i)) [0..<k] xs ! j = (if j < k \<or> n - k \<le> j \<and> j < n then xs ! (n - 1 - j) else xs ! j)"
  using assms
proof (induction k arbitrary: j)
  case (Suc k)
  let ?f = "fold (\<lambda>i. swap_at i (n - 1 - i)) [0..<k] xs"
  have k: "k < n" "n - 1 - k < n" "k < n - 1 - k" "n \<le> length xs" using Suc.prems by auto
  have "?f ! k = xs ! k" "?f ! (n - 1 - k) = xs ! (n - 1 - k)" using Suc.IH [of k] Suc.IH [of "n - 1 - k"] Suc.prems k by auto
  moreover have "n - Suc k \<le> j \<Longrightarrow> \<not> n - k \<le> j \<Longrightarrow> j = n - 1 - k" by linarith
  ultimately show ?case using Suc.IH [of j] Suc.prems k by (auto simp: swap_at_nth)
qed auto

lemma swap_fold_take:
  assumes "n \<le> length xs"
  shows "fold (\<lambda>i. swap_at i (n - 1 - i)) [0..<n div 2] xs = rev (take n xs) @ drop n xs"
proof (rule nth_equalityI)
  fix j
  assume "j < length (fold (\<lambda>i. swap_at i (n - 1 - i)) [0..<n div 2] xs)"
  then have j: "j < length xs" by simp
  have "j = n - 1 - j" if "\<not> j < n div 2" "\<not> n - n div 2 \<le> j" using that j by arith
  then show "fold (\<lambda>i. swap_at i (n - 1 - i)) [0..<n div 2] xs ! j = (rev (take n xs) @ drop n xs) ! j"
    using swap_fold_nth [of "n div 2" n xs j] j assms by (auto simp: rev_nth nth_append)
qed (use assms in simp)

lemma swap_fold_rev: "fold (\<lambda>i. swap_at i (length xs - 1 - i)) [0..<length xs div 2] xs = rev xs"
  using swap_fold_take [of "length xs" xs] by simp

subsection \<open>Bytes and numbers\<close>

lemma of_le_snoc: "(of_le (bs @ [b]) :: 'a::len word) = of_le bs OR push_bit (8 * length bs) (ucast b)"
  by (induction bs) (simp_all add: push_bit_or or.assoc push_bit_push_bit algebra_simps)

lemma or_bytes_of_le: "n \<le> length bs \<Longrightarrow> or_bytes n bs = (of_le (take n bs) :: 'a::len word)"
proof (induction n)
  case (Suc n)
  then have "take (Suc n) bs = take n bs @ [bs ! n]" by (simp add: take_Suc_conv_app_nth)
  then show ?case using Suc by (simp add: or_bytes_def of_le_snoc)
qed (simp add: or_bytes_def)

lemma low_bytes: "map (low_byte v) [0..<n] = le_bytes n v"
  by (simp add: le_bytes_def low_byte_def byte_of_and)

text \<open>The number whose bytes are given, most significant first.\<close>

definition of_be :: "byte list \<Rightarrow> 'a::len word" where
  "of_be bs = of_le (rev bs)"

lemma var_size_length: "neoc_numeric_var_size v = length (enc_var_int v)"
  by (simp add: neoc_numeric_var_size_def enc_var_int_def)

lemma encode_var_size_eq:
  "neoc_numeric_encode_var_size v n = (if n < length (enc_var_int v) then Err NEOC_ERROR_BUFFER_TOO_SMALL else Ok (enc_var_int v))"
proof -
  have "[ucast (v AND 0xFF), ucast (drop_bit 8 v AND 0xFF)] = le_bytes 2 v" by (simp add: le_bytes_def byte_of_and upt_rec)
  then show ?thesis by (simp add: neoc_numeric_encode_var_size_def var_size_length enc_var_int_def low_bytes)
qed

text \<open>The bytes of a value below a power of 256 in a wider word.\<close>

lemma of_le_low_bytes:
  fixes v :: "'a::len word"
  assumes "unat v < 2 ^ (8 * n)"
  shows "of_le (le_bytes n v) = v"
proof (rule bit_word_eqI)
  fix k
  assume k: "k < LENGTH('a)"
  have "\<not> bit v k" if "8 * n \<le> k"
  proof -
    have "take_bit (8 * n) (unat v) = unat v" using assms by (simp add: take_bit_nat_eq_self)
    then have "bit (unat v) k \<longleftrightarrow> k < 8 * n \<and> bit (unat v) k" by (metis bit_take_bit_iff)
    then show ?thesis using that k by (simp add: bit_unsigned_iff)
  qed
  moreover have "k div 8 < n \<longleftrightarrow> \<not> 8 * n \<le> k" by auto
  ultimately show "bit (of_le (le_bytes n v) :: 'a word) k = bit v k"
    using k by (cases "k div 8 < n") (simp_all add: bit_of_le le_bytes_def bit_simps)
qed

lemma decode_var_size_eq: "neoc_numeric_decode_var_size (Some (enc_var_int v @ rest)) = Ok (v, length (enc_var_int v))"
proof -
  consider "v < 0xFD" | "\<not> v < 0xFD" "v \<le> 0xFFFF" | "\<not> v \<le> 0xFFFF" "v \<le> 0xFFFFFFFF" | "\<not> v \<le> 0xFFFFFFFF" by blast
  then show ?thesis
  proof cases
    case 1
    then have u: "unat v < 253" by (simp add: word_less_nat_alt)
    then have "unat (ucast v :: byte) = unat v" by (intro unat_ucast_down) simp
    then have "(ucast v :: byte) < 0xFD" using u by (simp add: word_less_nat_alt)
    then show ?thesis using 1 u by (simp add: enc_var_int_def neoc_numeric_decode_var_size_def ucast_ucast_down)
  next
    case 2
    then have "unat v < 2 ^ (8 * 2)" by (simp add: word_le_nat_alt)
    from of_le_low_bytes [OF this] have "ucast (le_bytes 2 v ! 0) OR push_bit 8 (ucast (le_bytes 2 v ! 1)) = v"
      by (simp add: le_bytes_def upt_rec)
    then show ?thesis using 2 by (simp add: enc_var_int_def neoc_numeric_decode_var_size_def nth_append)
  next
    case 3
    then have "unat v < 2 ^ (8 * 4)" by (simp add: word_le_nat_alt)
    from of_le_low_bytes [OF this] 3 show ?thesis
      by (auto simp: enc_var_int_def neoc_numeric_decode_var_size_def or_bytes_of_le word_le_nat_alt word_less_nat_alt)
  next
    case 4
    have "unat v < 2 ^ (8 * 8)" using unsigned_less [of v, where ?'a = nat] by simp
    from of_le_low_bytes [OF this] 4 show ?thesis
      by (auto simp: enc_var_int_def neoc_numeric_decode_var_size_def or_bytes_of_le word_le_nat_alt word_less_nat_alt)
  qed
qed

lemma from_be_fold:
  fixes bs :: "byte list"
  assumes "k \<le> n" and "k \<le> length bs"
  shows "fold (\<lambda>i d. d[n - 1 - i := bs ! i]) [0..<k] (replicate n 0) = replicate (n - k) 0 @ rev (take k bs)"
  using assms
proof (induction k)
  case (Suc k)
  then obtain m where m: "n - k = Suc m" by (metis Suc_diff_Suc Suc_le_lessD)
  have "replicate (n - k) 0 = replicate m 0 @ [0 :: byte]" by (simp add: m flip: replicate_append_same)
  then have "(replicate (n - k) 0 @ rev (take k bs))[m := bs ! k] = replicate m 0 @ rev (take (Suc k) bs)"
    using Suc.prems list_update_length [of "replicate m (0 :: byte)" 0 "rev (take k bs)" "bs ! k"] by (simp add: take_Suc_conv_app_nth)
  moreover have "n - 1 - k = m" "n - Suc k = m" using m by simp_all
  ultimately show ?case using Suc by simp
qed simp

lemma from_bytes_eq:
  assumes "bs \<noteq> []" and "length bs \<le> n"
  shows "neoc_numeric_from_bytes_le (Some bs) n = Ok (bs @ replicate (n - length bs) 0)"
    and "neoc_numeric_from_bytes_be (Some bs) n = Ok (replicate (n - length bs) 0 @ rev bs)"
  using assms from_be_fold [of "length bs" n bs]
  by (auto simp: neoc_numeric_from_bytes_le_def neoc_numeric_from_bytes_be_def neoc_numeric_from_bytes_def Let_def)

lemma of_le_zeros: "(of_le (bs @ replicate k 0) :: 'a::len word) = of_le bs"
proof (induction bs)
  case Nil
  then show ?case by (induction k) simp_all
qed simp

lemma of_le_shifted: "(of_le (replicate k 0 @ bs) :: 'a::len word) = push_bit (8 * k) (of_le bs)"
  by (induction k) (simp_all add: push_bit_push_bit)

subsection \<open>Powers\<close>

lemma fits_int_abs: "\<bar>x\<bar> \<le> 1 \<Longrightarrow> fits_int x" "\<not> fits_int x \<Longrightarrow> 2 ^ 31 \<le> \<bar>x\<bar>" "2 ^ 32 \<le> \<bar>x\<bar> \<Longrightarrow> \<not> fits_int x"
  by (auto simp: fits_int_def)

lemma power_grows:
  fixes b :: int
  assumes "\<not> fits_int (b ^ Suc k)"
  shows "\<not> fits_int (b ^ (Suc k + n))"
proof (cases "\<bar>b\<bar> \<le> 1")
  case True
  then have "b \<in> {-1, 0, 1}" by auto
  then have "\<bar>b ^ Suc k\<bar> \<le> 1" by (auto simp: power_abs)
  then show ?thesis using assms fits_int_abs(1) by blast
next
  case False
  note big = fits_int_abs(2) [OF assms]
  show ?thesis
  proof (cases n)
    case (Suc m)
    have "2 * 1 \<le> \<bar>b\<bar> * \<bar>b\<bar> ^ m" using False by (intro mult_mono one_le_power) auto
    then have "2 ^ 31 * 2 \<le> \<bar>b ^ Suc k\<bar> * \<bar>b ^ n\<bar>" using big Suc by (intro mult_mono) (auto simp: power_abs abs_mult)
    then have "2 ^ 32 \<le> \<bar>b ^ (Suc k + n)\<bar>" by (simp add: power_add abs_mult)
    then show ?thesis by (rule fits_int_abs(3))
  qed (use assms in simp)
qed

lemma power_loop_eq: "power_loop b n (b ^ k) = (if \<forall>i \<in> {k<..k + n}. fits_int (b ^ i) then Ok (b ^ (k + n)) else Fault)"
proof (induction n arbitrary: k)
  case (Suc n)
  have "{k<..k + Suc n} = insert (Suc k) {Suc k<..Suc k + n}" by auto
  then show ?case using Suc.IH [of "Suc k"] by (simp add: mult.commute)
qed simp

subsection \<open>Properties\<close>

text \<open> The function encodes a size exactly as the binary writer does, refuses a buffer that is too small, and decoding returns the size and
  the number of its bytes whatever follows.\<close>

theorem numeric_var_size_roundtrip:
  "neoc_numeric_encode_var_size v n = (if n < neoc_numeric_var_size v then Err NEOC_ERROR_BUFFER_TOO_SMALL else Ok (enc_var_int v))
   \<and> writes A (neoc_binary_writer_write_var_int A v) (enc_var_int v)
   \<and> neoc_numeric_decode_var_size (Some (enc_var_int v @ rest)) = Ok (v, neoc_numeric_var_size v)"
  using encode_var_size_eq decode_var_size_eq writes_write_var_int by (simp add: var_size_length)

text \<open> The power is computed when it fits into an \<^verbatim>\<open>int\<close>, and otherwise the multiplication overflows: no smaller power overflows
  before one that fits.\<close>

theorem numeric_power_exact:
  assumes "0 \<le> n"
  shows "neoc_numeric_power b n = (if fits_int (b ^ nat n) then Ok (b ^ nat n) else Fault)"
proof -
  have "fits_int (b ^ i)" if "fits_int (b ^ nat n)" "0 < i" "i \<le> nat n" for i
  proof (rule ccontr)
    assume "\<not> fits_int (b ^ i)"
    moreover have "i = Suc (i - 1)" "Suc (i - 1) + (nat n - i) = nat n" using that by simp_all
    ultimately show False using power_grows [of b "i - 1" "nat n - i"] that(1) by simp
  qed
  moreover have "n \<noteq> 0 \<Longrightarrow> nat n \<in> {0<..nat n}" using assms by simp
  moreover have "fits_int (b ^ 0)" by (simp add: fits_int_def)
  ultimately show ?thesis using assms power_loop_eq [of b "nat n" 0]
    by (cases "n = 0") (auto simp: neoc_numeric_power_def)
qed

text \<open> A number written in either byte order is read back from its bytes.  Reading fewer bytes than the number has works in little-endian
  order; in big-endian order the bytes are taken as the most significant ones, so that the number is shifted to the left.\<close>

theorem numeric_bytes_roundtrip:
  fixes v :: u64
  assumes "A 8" and "bs \<noteq> []" and "length bs \<le> 8"
  shows "\<exists>le be. neoc_numeric_to_bytes_le A (Some (le_bytes 8 v)) = Ok le \<and> neoc_numeric_from_bytes_le (Some le) 8 = Ok (le_bytes 8 v)
    \<and> neoc_numeric_to_bytes_be A (Some (le_bytes 8 v)) = Ok be \<and> neoc_numeric_from_bytes_be (Some be) 8 = Ok (le_bytes 8 v)
    \<and> of_be be = v \<and> of_le le = v
    \<and> (\<exists>m. neoc_numeric_from_bytes_le (Some bs) 8 = Ok m \<and> (of_le m :: u64) = of_le bs)
    \<and> (\<exists>m. neoc_numeric_from_bytes_be (Some bs) 8 = Ok m \<and> (of_le m :: u64) = push_bit (8 * (8 - length bs)) (of_be bs))"
proof -
  let ?m = "le_bytes 8 v"
  have m: "?m \<noteq> []" "rev ?m \<noteq> []" "length ?m = 8" "(of_le ?m :: u64) = v" by (simp_all add: of_le_le_bytes flip: length_0_conv)
  have "map (\<lambda>i. ?m ! (8 - 1 - i)) [0..<8] = rev ?m" by (rule map_rev_index) simp
  then have "neoc_numeric_to_bytes_be A (Some ?m) = Ok (rev ?m)" "neoc_numeric_to_bytes_le A (Some ?m) = Ok ?m"
    using assms(1) by (simp_all add: neoc_numeric_to_bytes_be_def neoc_numeric_to_bytes_le_def neoc_numeric_copy_bytes_def)
  moreover have "\<exists>m. neoc_numeric_from_bytes_le (Some bs) 8 = Ok m \<and> (of_le m :: u64) = of_le bs"
    using from_bytes_eq(1) [OF assms(2,3)] by (simp add: of_le_zeros)
  moreover have "\<exists>m. neoc_numeric_from_bytes_be (Some bs) 8 = Ok m \<and> (of_le m :: u64) = push_bit (8 * (8 - length bs)) (of_be bs)"
    using from_bytes_eq(2) [OF assms(2,3)] by (simp add: of_le_shifted of_be_def)
  ultimately show ?thesis using from_bytes_eq(1) [of ?m 8] from_bytes_eq(2) [of "rev ?m" 8] m by (simp add: of_be_def)
qed

lemma be_val_lower: "v * b ^ length ds \<le> be_val b v ds"
proof (induction ds arbitrary: v)
  case (Cons d ds)
  have "v * b ^ length (d # ds) \<le> (v * b + d) * b ^ length ds" by (simp add: algebra_simps)
  also have "\<dots> \<le> be_val b (v * b + d) ds" by (rule Cons)
  finally show ?case by (simp add: be_val_Cons)
qed (simp add: be_val_def)

lemma useful_length: "length (dropWhile (\<lambda>b. b = 0) bs) \<le> n \<longleftrightarrow> be_val 256 0 (map unat (bs :: byte list)) < 256 ^ n"
proof -
  let ?u = "dropWhile (\<lambda>b. b = 0) bs"
  have v: "be_val 256 0 (map unat ?u) = be_val 256 0 (map unat bs)" using be_val_skip [of bs] by (simp flip: dropWhile_eq_drop)
  have bytes: "list_all (\<lambda>d. d < 256) (map unat ds)" for ds :: "byte list" using unsigned_less [where ?'b = 8 and ?'a = nat] by (auto simp: list_all_iff)
  show ?thesis
  proof (cases ?u)
    case Nil
    with v have "be_val 256 0 (map unat bs) = 0" by (simp add: be_val_def)
    with Nil show ?thesis by (simp only: list.size) simp
  next
    case (Cons b rest)
    then have "b \<noteq> 0" using hd_dropWhile [of "\<lambda>b. b = 0" bs] by simp
    then have "1 * 256 ^ length rest \<le> unat b * 256 ^ length rest" by (intro mult_le_mono1) (simp add: unat_gt_0 Suc_leI)
    also have "\<dots> \<le> be_val 256 (unat b) (map unat rest)" using be_val_lower [of "unat b" 256 "map unat rest"] by simp
    finally have low: "256 ^ length rest \<le> be_val 256 0 (map unat bs)" using v Cons by (simp add: be_val_Cons)
    have up: "be_val 256 0 (map unat bs) < 256 ^ length ?u" using be_val_less [OF bytes, of ?u] v by simp
    show ?thesis
    proof
      assume "length ?u \<le> n"
      then have "(256 :: nat) ^ length ?u \<le> 256 ^ n" by (simp add: power_increasing)
      with up show "be_val 256 0 (map unat bs) < 256 ^ n" by linarith
    next
      assume "be_val 256 0 (map unat bs) < 256 ^ n"
      with low have "(256 :: nat) ^ length rest < 256 ^ n" by linarith
      then show "length ?u \<le> n" using Cons by (simp add: power_strict_increasing_iff)
    qed
  qed
qed

text \<open> A hexadecimal number is padded to the given length exactly when its value fits, and keeps its value.\<close>

theorem bigint_padded_value:
  assumes "A n" and "0 < n" and "neoc_hex_decode_alloc A (Some hex) = Ok decoded"
  shows "if be_val 256 0 (map unat decoded) < 256 ^ n
    then \<exists>bs. neoc_numeric_bigint_to_padded_bytes A (Some hex) n = Ok bs \<and> length bs = n \<and> be_val 256 0 (map unat bs) = be_val 256 0 (map unat decoded)
    else neoc_numeric_bigint_to_padded_bytes A (Some hex) n = Err NEOC_ERROR_INVALID_SIZE"
proof -
  let ?u = "dropWhile (\<lambda>b. b = 0) decoded"
  have u: "drop (length (takeWhile (\<lambda>b. b = 0) decoded)) decoded = ?u" "length decoded - length (takeWhile (\<lambda>b. b = 0) decoded) = length ?u"
    by (simp_all add: dropWhile_eq_drop)
  have "be_val 256 0 (map unat (replicate k 0 @ ?u)) = be_val 256 0 (map unat decoded)" for k
    using be_val_skip [of decoded] be_val_zeros [of "map unat (replicate k (0 :: byte))" 256 "map unat ?u"] u(1) by (simp add: list_all_iff)
  then show ?thesis using assms useful_length [of decoded n]
    by (auto simp: neoc_numeric_bigint_to_padded_bytes_def Let_def u not_less)
qed

theorem numeric_power_exact_witness: "neoc_numeric_power (-2) 31 = Ok (-2147483648) \<and> neoc_numeric_power 2 31 = Fault"
  using numeric_power_exact [of 31 "-2"] numeric_power_exact [of 31 2] by (simp add: fits_int_def)

theorem numeric_bytes_roundtrip_witness:
  "\<exists>m. neoc_numeric_from_bytes_be (Some [1]) 8 = Ok m \<and> (of_le m :: u64) = 0x0100000000000000"
  using numeric_bytes_roundtrip [of "\<lambda>_. True" "[1]" 0] by (auto simp: of_be_def push_bit_eq_mult)

theorem bigint_padded_value_witness:
  "\<exists>bs. neoc_numeric_bigint_to_padded_bytes (\<lambda>_. True) (Some ''00ff'') 1 = Ok bs \<and> length bs = 1 \<and> be_val 256 0 (map unat bs) = 255"
proof -
  have "neoc_hex_decode_alloc (\<lambda>_. True) (Some ''00ff'') = Ok [0, 255]" by code_simp
  from bigint_padded_value [OF _ _ this, of 1] show ?thesis by (simp add: be_val_def)
qed

end
