(* ===== verification/Raw_Bytes.thy ===== *)
theory Raw_Bytes
  imports Numeric
begin

text \<open>
  \<^verbatim>\<open>src/utils/neoc_bytes.c\<close>: operations on plain byte buffers.  A buffer is the list of its bytes; a result written to a buffer of the caller
  or to a new one is the list of the bytes written.  (Other files of the library define functions of the same names on
  other types; they are in other theories.)
\<close>

subsection \<open>Operations\<close>

definition neoc_bytes_reverse :: "byte list option \<Rightarrow> byte list result" where
  "neoc_bytes_reverse data =
     (case data of
        None \<Rightarrow> Err NEOC_ERROR_NULL_POINTER
      | Some bs \<Rightarrow> if length bs \<le> 1 then Ok bs else Ok (swap_loop 0 (length bs - 1) bs))"

definition neoc_bytes_reverse_copy :: "byte list option \<Rightarrow> nat \<Rightarrow> byte list result" where
  "neoc_bytes_reverse_copy src dst_len =
     (case src of
        None \<Rightarrow> Err NEOC_ERROR_NULL_POINTER
      | Some bs \<Rightarrow>
          if dst_len < length bs then Err NEOC_ERROR_BUFFER_TOO_SMALL
          else Ok (map (\<lambda>i. bs ! (length bs - 1 - i)) [0..<length bs]))"

text \<open>A single leading zero is dropped before padding.\<close>

definition neoc_bytes_pad :: "allocator \<Rightarrow> byte list option \<Rightarrow> nat \<Rightarrow> bool \<Rightarrow> byte list result" where
  "neoc_bytes_pad A src target_len trailing =
     (case src of
        None \<Rightarrow> Err NEOC_ERROR_NULL_POINTER
      | Some bs \<Rightarrow>
          let src_offset = (if 0 < length bs \<and> bs ! 0 = 0 then 1 else 0); effective_len = length bs - src_offset in
          if target_len < effective_len then Err NEOC_ERROR_INVALID_ARGUMENT
          else bind_r (neoc_malloc_r A target_len) (\<lambda>_.
            if trailing then Ok (drop src_offset bs @ replicate (target_len - effective_len) 0)
            else Ok (replicate (target_len - effective_len) 0 @ drop src_offset bs)))"

text \<open>The loop that shortens the length while the last byte has the given value.\<close>

fun trim_len :: "byte \<Rightarrow> byte list \<Rightarrow> nat \<Rightarrow> nat" where
  "trim_len byte_value src 0 = 0"
| "trim_len byte_value src (Suc n) = (if src ! n = byte_value then trim_len byte_value src n else Suc n)"

definition neoc_bytes_trim_trailing :: "allocator \<Rightarrow> byte list option \<Rightarrow> byte \<Rightarrow> byte list result" where
  "neoc_bytes_trim_trailing A src byte_value =
     (case src of
        None \<Rightarrow> Err NEOC_ERROR_NULL_POINTER
      | Some bs \<Rightarrow>
          let effective_len = trim_len byte_value bs (length bs) in
          if effective_len = 0 then Ok [] else bind_r (malloc_r A effective_len) (\<lambda>_. Ok (take effective_len bs)))"

definition neoc_bytes_xor :: "byte list option \<Rightarrow> byte list option \<Rightarrow> nat \<Rightarrow> byte list result" where
  "neoc_bytes_xor lhs rhs len =
     (case (lhs, rhs) of
        (Some l, Some r) \<Rightarrow> if length l < len \<or> length r < len then Fault else Ok (map (\<lambda>i. l ! i XOR r ! i) [0..<len])
      | _ \<Rightarrow> Err NEOC_ERROR_NULL_POINTER)"

definition neoc_bytes_script_hash_to_address :: "crypto \<Rightarrow> allocator \<Rightarrow> byte list option \<Rightarrow> byte \<Rightarrow> nat \<Rightarrow> string result" where
  "neoc_bytes_script_hash_to_address C A script_hash address_version address_size =
     (case script_hash of
        None \<Rightarrow> Err NEOC_ERROR_NULL_POINTER
      | Some h \<Rightarrow>
          if length h < 20 then Fault
          else let script = address_version # map (\<lambda>i. h ! (19 - i)) [0..<20] in
            bind_r (neoc_sha256_double C (Some script)) (\<lambda>hash. neoc_base58_encode A (Some (script @ take 4 hash)) address_size))"

definition neoc_bytes_var_size :: "u64 \<Rightarrow> nat" where
  "neoc_bytes_var_size value = (if value < 0xfd then 1 else if value \<le> 0xffff then 3 else if value \<le> 0xffffffff then 5 else 9)"

definition neoc_bytes_encode_var_size :: "u64 \<Rightarrow> nat \<Rightarrow> byte list result" where
  "neoc_bytes_encode_var_size value buffer_size =
     (if value < 0xfd then (if buffer_size < 1 then Err NEOC_ERROR_BUFFER_TOO_SMALL else Ok [ucast value])
      else if value \<le> 0xffff then
        (if buffer_size < 3 then Err NEOC_ERROR_BUFFER_TOO_SMALL
         else Ok [0xfd, ucast (value AND 0xff), ucast (drop_bit 8 value AND 0xff)])
      else if value \<le> 0xffffffff then
        (if buffer_size < 5 then Err NEOC_ERROR_BUFFER_TOO_SMALL
         else Ok [0xfe, ucast (value AND 0xff), ucast (drop_bit 8 value AND 0xff), ucast (drop_bit 16 value AND 0xff),
                  ucast (drop_bit 24 value AND 0xff)])
      else
        (if buffer_size < 9 then Err NEOC_ERROR_BUFFER_TOO_SMALL
         else Ok (0xff # map (\<lambda>i. ucast (drop_bit (i * 8) value AND 0xff)) [0..<8])))"

text \<open>
  The shifts are on \<^verbatim>\<open>int\<close> (\<^verbatim>\<open>buffer[4] << 24\<close>): for a byte of \<open>0x80\<close> or more the result does not fit and has no defined value.
  The shifts of the nine-byte form are on \<^verbatim>\<open>size_t\<close>.
\<close>

definition neoc_bytes_decode_var_size :: "byte list option \<Rightarrow> (u64 \<times> nat) result" where
  "neoc_bytes_decode_var_size buffer =
     (case buffer of
        None \<Rightarrow> Err NEOC_ERROR_NULL_POINTER
      | Some [] \<Rightarrow> Err NEOC_ERROR_BUFFER_TOO_SMALL
      | Some (first # rest) \<Rightarrow>
          if first < 0xfd then Ok (ucast first, 1)
          else if first = 0xfd then
            if Suc (length rest) < 3 then Err NEOC_ERROR_BUFFER_TOO_SMALL else Ok (ucast (rest ! 0) OR push_bit 8 (ucast (rest ! 1)), 3)
          else if first = 0xfe then
            if Suc (length rest) < 5 then Err NEOC_ERROR_BUFFER_TOO_SMALL
            else if 0x80 \<le> rest ! 3 then Fault
            else Ok (ucast (rest ! 0) OR push_bit 8 (ucast (rest ! 1)) OR push_bit 16 (ucast (rest ! 2)) OR push_bit 24 (ucast (rest ! 3)), 5)
          else
            if Suc (length rest) < 9 then Err NEOC_ERROR_BUFFER_TOO_SMALL else Ok (or_bytes 8 rest, 9))"

definition neoc_byte_is_between_opcodes :: "byte \<Rightarrow> byte \<Rightarrow> byte \<Rightarrow> bool" where
  "neoc_byte_is_between_opcodes byte op1 op2 \<longleftrightarrow> op1 \<le> byte \<and> byte \<le> op2"

definition neoc_bytes_to_uint64_le :: "byte list option \<Rightarrow> u64 result" where
  "neoc_bytes_to_uint64_le bytes =
     (case bytes of
        None \<Rightarrow> Err NEOC_ERROR_NULL_POINTER
      | Some bs \<Rightarrow> if 8 < length bs then Err NEOC_ERROR_INVALID_ARGUMENT else Ok (or_bytes (length bs) bs))"

text \<open>The loop \<^verbatim>\<open>*result = (*result << 8) | bytes[i]\<close>.\<close>

definition shift_bytes :: "byte list \<Rightarrow> 'a::len word" where
  "shift_bytes bs = foldl (\<lambda>result b. push_bit 8 result OR ucast b) 0 bs"

definition neoc_bytes_to_uint64_be :: "byte list option \<Rightarrow> u64 result" where
  "neoc_bytes_to_uint64_be bytes =
     (case bytes of
        None \<Rightarrow> Err NEOC_ERROR_NULL_POINTER
      | Some bs \<Rightarrow> if 8 < length bs then Err NEOC_ERROR_INVALID_ARGUMENT else Ok (shift_bytes bs))"

definition neoc_uint64_to_bytes_le :: "u64 \<Rightarrow> nat \<Rightarrow> byte list result" where
  "neoc_uint64_to_bytes_le value len =
     (if 8 < len then Err NEOC_ERROR_INVALID_ARGUMENT else Ok (map (\<lambda>i. ucast (drop_bit (i * 8) value AND 0xff)) [0..<len]))"

definition neoc_uint64_to_bytes_be :: "u64 \<Rightarrow> nat \<Rightarrow> byte list result" where
  "neoc_uint64_to_bytes_be value len =
     (if 8 < len then Err NEOC_ERROR_INVALID_ARGUMENT else Ok (map (\<lambda>i. ucast (drop_bit ((len - 1 - i) * 8) value AND 0xff)) [0..<len]))"

subsection \<open>Lemmas\<close>

lemma reverse_eq: "neoc_bytes_reverse (Some bs) = Ok (rev bs)"
proof (cases "length bs \<le> 1")
  case True
  then show ?thesis by (cases bs) (auto simp: neoc_bytes_reverse_def)
next
  case False
  then show ?thesis using swap_loop_rev [of bs] by (cases "bs = []") (simp_all add: neoc_bytes_reverse_def)
qed

lemma shift_bytes_of_be: "shift_bytes bs = of_be bs"
  by (induction bs rule: rev_induct) (simp_all add: shift_bytes_def of_be_def or.commute)

lemma bytes_var_size_eq: "neoc_bytes_var_size v = neoc_numeric_var_size v"
  by (simp add: neoc_bytes_var_size_def neoc_numeric_var_size_def)

lemma bytes_encode_eq: "neoc_bytes_encode_var_size v n = neoc_numeric_encode_var_size v n"
  by (auto simp: neoc_bytes_encode_var_size_def neoc_numeric_encode_var_size_def neoc_numeric_var_size_def low_byte_def mult.commute upt_rec)

lemma trim_len_spec:
  assumes "n \<le> length bs"
  shows "take (trim_len v bs n) bs = rev (dropWhile (\<lambda>b. b = v) (rev (take n bs)))"
  using assms by (induction n) (simp_all add: take_Suc_conv_app_nth)

lemma of_le_take_bit: "of_le (le_bytes n (v :: 'a::len word)) = take_bit (8 * n) v"
proof (rule bit_word_eqI)
  fix k
  assume "k < LENGTH('a)"
  moreover have "k div 8 < n \<longleftrightarrow> k < 8 * n" by auto
  ultimately show "bit (of_le (le_bytes n v) :: 'a word) k = bit (take_bit (8 * n) v) k"
    by (cases "k div 8 < n") (simp_all add: bit_of_le le_bytes_def bit_simps)
qed

lemma uint64_bytes_eq:
  assumes "n \<le> 8"
  shows "neoc_uint64_to_bytes_le v n = Ok (le_bytes n v)" and "neoc_uint64_to_bytes_be v n = Ok (rev (le_bytes n v))"
proof -
  show le: "neoc_uint64_to_bytes_le v n = Ok (le_bytes n v)"
    using assms by (simp add: neoc_uint64_to_bytes_le_def le_bytes_def byte_of_and mult.commute)
  have "map (\<lambda>i. ucast (drop_bit ((n - 1 - i) * 8) v AND 0xff)) [0..<n] = rev (le_bytes n v)"
    by (rule nth_equalityI) (simp_all add: le_bytes_def byte_of_and rev_nth mult.commute)
  then show "neoc_uint64_to_bytes_be v n = Ok (rev (le_bytes n v))" using assms by (simp add: neoc_uint64_to_bytes_be_def)
qed

lemma top_byte:
  assumes "\<not> v \<le> 0xFFFF" and "v \<le> (0xFFFFFFFF :: u64)"
  shows "0x80 \<le> le_bytes 4 v ! 3 \<longleftrightarrow> 0x80000000 \<le> v"
proof -
  have u: "unat v < 2 ^ 32" using assms(2) by (simp add: word_le_nat_alt)
  have "unat (drop_bit 24 v) = unat v div 2 ^ 24" by (simp only: unat_drop_bit_eq) (simp only: drop_bit_eq_div)
  also have "\<dots> < 2 ^ 8" using u by (simp add: less_mult_imp_div_less)
  finally have "unat (ucast (drop_bit 24 v) :: byte) = unat v div 2 ^ 24"
    using \<open>unat (drop_bit 24 v) = unat v div 2 ^ 24\<close> by (subst unat_ucast_down) simp_all
  moreover have "le_bytes 4 v ! 3 = ucast (drop_bit 24 v)" by (simp add: le_bytes_def)
  moreover have "128 \<le> unat v div 2 ^ 24 \<longleftrightarrow> 2147483648 \<le> unat v" by auto
  ultimately show ?thesis by (simp add: word_le_nat_alt)
qed

lemma bytes_decode_eq:
  "neoc_bytes_decode_var_size (Some (enc_var_int v @ rest))
     = (if 0x80000000 \<le> v \<and> v \<le> 0xFFFFFFFF then Fault else neoc_numeric_decode_var_size (Some (enc_var_int v @ rest)))"
proof (cases "\<not> v \<le> 0xFFFF \<and> v \<le> 0xFFFFFFFF")
  case True
  then have e: "enc_var_int v = 0xFE # le_bytes 4 v" by (auto simp: enc_var_int_def word_le_nat_alt word_less_nat_alt)
  have "or_bytes 4 (le_bytes 4 v @ rest) = ucast (le_bytes 4 v ! 0) OR push_bit 8 (ucast (le_bytes 4 v ! 1))
      OR push_bit 16 (ucast (le_bytes 4 v ! 2)) OR push_bit 24 (ucast (le_bytes 4 v ! 3) :: u64)"
    by (simp add: or_bytes_def upt_rec nth_append or.assoc eval_nat_numeral)
  then show ?thesis using True e top_byte [of v] by (auto simp: neoc_bytes_decode_var_size_def neoc_numeric_decode_var_size_def nth_append)
next
  case False
  then have "\<not> (0x80000000 \<le> v \<and> v \<le> 0xFFFFFFFF)" by (auto simp: word_le_nat_alt)
  moreover have "(ucast v :: byte) < 0xFD" if "v < 0xFD"
  proof -
    have "unat v < 253" using that by (simp add: word_less_nat_alt)
    then have "unat (ucast v :: byte) < 253" by (subst unat_ucast_down) simp_all
    then show ?thesis by (simp add: word_less_nat_alt)
  qed
  ultimately show ?thesis using False by (auto simp: neoc_bytes_decode_var_size_def neoc_numeric_decode_var_size_def enc_var_int_def)
qed

lemma bytes_address_eq:
  assumes "crypto_works C" and "grants A (neoc_base58_check_encode_buffer_size 21)" and "length h = 20" and "36 \<le> n"
  shows "neoc_bytes_script_hash_to_address C A (Some h) NEOC_ADDRESS_VERSION n = neoc_hash160_to_address C A (Some h) n"
proof -
  let ?v = "NEOC_ADDRESS_VERSION # rev h"
  have size: "neoc_base58_check_encode_buffer_size (length ?v) = 36"
    using assms(3) by (simp add: neoc_base58_check_encode_buffer_size_def neoc_base58_encode_buffer_size_def NEOC_BASE58_CHECKSUM_LENGTH_def)
  have g: "grants A (neoc_base58_check_encode_buffer_size (length ?v))" using assms(2,3) by simp
  obtain hash where hash: "neoc_sha256_double C (Some ?v) = Ok hash" "length hash = 32"
    "neoc_base58_check_encode C A (Some ?v) n = Ok (b58_text (?v @ take 4 hash))" "length (b58_text (?v @ take 4 hash)) < neoc_base58_check_encode_buffer_size (length ?v)"
    using check_encode_buffer [OF assms(1) g, of n] assms(3,4) size by auto
  obtain hash' where hash': "neoc_sha256_double C (Some ?v) = Ok hash'"
    "neoc_base58_check_encode C A (Some ?v) (neoc_base58_check_encode_buffer_size (length ?v)) = Ok (b58_text (?v @ take 4 hash'))"
    using check_encode_Ok [OF assms(1) g] assms(3) by auto
  have "A (neoc_base58_check_encode_buffer_size (length ?v))" using g by (rule grantsD) simp
  then have "neoc_hash160_to_address C A (Some h) n = Ok (b58_text (?v @ take 4 hash))"
    using hash hash' size assms(3,4) map_rev_index [of h 20] by (simp add: neoc_hash160_to_address_def neoc_base58_check_encode_alloc_def hash_sizes Let_def)
  moreover have "neoc_bytes_script_hash_to_address C A (Some h) NEOC_ADDRESS_VERSION n = Ok (b58_text (?v @ take 4 hash))"
    using hash assms(3) map_rev_index [of h 20]
    by (auto simp: neoc_bytes_script_hash_to_address_def neoc_base58_check_encode_def Let_def bind_r_Ok_iff)
  ultimately show ?thesis by simp
qed

subsection \<open>Properties\<close>

text \<open> This second implementation of variable-length sizes encodes as the first one does and decodes its own output, except for sizes from
  \<open>2 ^ 31\<close> to \<open>2 ^ 32 - 1\<close>: there it shifts a signed number into its sign bit, which has no defined value.\<close>

theorem bytes_var_size_signed_shift:
  "neoc_bytes_encode_var_size v n = neoc_numeric_encode_var_size v n
   \<and> neoc_bytes_decode_var_size (Some (enc_var_int v @ rest))
       = (if 0x80000000 \<le> v \<and> v \<le> 0xFFFFFFFF then Fault else Ok (v, neoc_bytes_var_size v))"
  by (simp add: bytes_encode_eq bytes_decode_eq decode_var_size_eq bytes_var_size_eq var_size_length)

text \<open> A number written into up to eight bytes in either order is read back, reduced to the bytes that were written; the two orders are each
  other's reverse.\<close>

theorem uint64_bytes_roundtrip:
  assumes "n \<le> 8"
  shows "\<exists>le be. neoc_uint64_to_bytes_le v n = Ok le \<and> neoc_uint64_to_bytes_be v n = Ok be \<and> neoc_bytes_reverse (Some le) = Ok be
    \<and> neoc_bytes_to_uint64_le (Some le) = Ok (take_bit (8 * n) v) \<and> neoc_bytes_to_uint64_be (Some be) = Ok (take_bit (8 * n) v)"
  using assms uint64_bytes_eq [OF assms, of v] of_le_take_bit [of n v]
  by (simp add: reverse_eq neoc_bytes_to_uint64_le_def neoc_bytes_to_uint64_be_def or_bytes_of_le shift_bytes_of_be of_be_def)

text \<open> The address of a script hash with the version of Neo is the one \<^verbatim>\<open>neoc_hash160_to_address\<close> makes.\<close>

theorem bytes_address_agrees:
  assumes "crypto_works C" and "grants A (neoc_base58_check_encode_buffer_size 21)" and "length h = 20" and "36 \<le> n"
  shows "neoc_bytes_script_hash_to_address C A (Some h) NEOC_ADDRESS_VERSION n = neoc_hash160_to_address C A (Some h) n"
  using assms by (rule bytes_address_eq)

text \<open> Trimming removes exactly the trailing bytes of the given value; combining with a mask twice gives the bytes back.\<close>

theorem bytes_trim_xor:
  assumes "\<forall>n. A n" and "length bs \<le> length key"
  shows "neoc_bytes_trim_trailing A (Some bs) v = Ok (rev (dropWhile (\<lambda>b. b = v) (rev bs)))
    \<and> bind_r (neoc_bytes_xor (Some bs) (Some key) (length bs)) (\<lambda>x. neoc_bytes_xor (Some x) (Some key) (length bs)) = Ok bs"
proof -
  have "neoc_bytes_trim_trailing A (Some bs) v = Ok (take (trim_len v bs (length bs)) bs)"
    using assms(1) by (simp add: neoc_bytes_trim_trailing_def Let_def)
  moreover have "map (\<lambda>i. map (\<lambda>i. bs ! i XOR key ! i) [0..<length bs] ! i XOR key ! i) [0..<length bs] = bs"
    by (rule nth_equalityI) (simp_all add: xor.assoc)
  ultimately show ?thesis using assms(2) trim_len_spec [of "length bs" bs v] by (simp add: neoc_bytes_xor_def)
qed

theorem uint64_bytes_roundtrip_witness:
  "\<exists>le be. neoc_uint64_to_bytes_le 0x123456 2 = Ok le \<and> neoc_uint64_to_bytes_be 0x123456 2 = Ok be \<and> neoc_bytes_reverse (Some le) = Ok be
    \<and> neoc_bytes_to_uint64_le (Some le) = Ok 0x3456 \<and> neoc_bytes_to_uint64_be (Some be) = Ok 0x3456"
  using uint64_bytes_roundtrip [of 2 "0x123456"] by simp

theorem bytes_address_agrees_witness:
  "neoc_bytes_script_hash_to_address toy_crypto (\<lambda>_. True) (Some (replicate 20 9)) 0x35 64 = neoc_hash160_to_address toy_crypto (\<lambda>_. True) (Some (replicate 20 9)) 64"
  using bytes_address_agrees [OF toy_crypto_works, of "\<lambda>_. True" "replicate 20 9" 64] by (simp add: NEOC_ADDRESS_VERSION_def)

theorem bytes_trim_xor_witness: "neoc_bytes_trim_trailing (\<lambda>_. True) (Some [1, 0, 2, 0, 0]) 0 = Ok [1, 0, 2]"
  using bytes_trim_xor [of "\<lambda>_. True" "[1, 0, 2, 0, 0]" "[1, 0, 2, 0, 0]" 0] by simp

end
