(* ===== verification/String_Utils.thy ===== *)
theory String_Utils
  imports Raw_Bytes Base64 Interop_Service
begin

text \<open>
  \<^verbatim>\<open>src/utils/string.c\<close>: texts, their encodings, and a second check of addresses.  A text is the list of its characters without the final zero.  A
  function that reports failure by a null result stands for the error the caller makes of it.
\<close>

subsection \<open>Prefixes and encodings\<close>

definition isspace_c :: "char \<Rightarrow> bool" where
  "isspace_c c \<longleftrightarrow> c = CHR '' '' \<or> (9 \<le> ord_c c \<and> ord_c c \<le> 13)"

definition neoc_string_starts_with :: "string option \<Rightarrow> string option \<Rightarrow> bool" where
  "neoc_string_starts_with str start =
     (case (str, start) of
        (Some s, Some p) \<Rightarrow> if length s < length p then False else take (length p) s = p
      | _ \<Rightarrow> False)"

definition neoc_string_ends_with :: "string option \<Rightarrow> string option \<Rightarrow> bool" where
  "neoc_string_ends_with str tail =
     (case (str, tail) of
        (Some s, Some t) \<Rightarrow> if length s < length t then False else drop (length s - length t) s = t
      | _ \<Rightarrow> False)"

definition neoc_string_clean_hex_prefix :: "allocator \<Rightarrow> string option \<Rightarrow> string result" where
  "neoc_string_clean_hex_prefix A hex_string =
     (case hex_string of
        None \<Rightarrow> Err NEOC_ERROR_INVALID_PARAM
      | Some s \<Rightarrow>
          let start = (if neoc_string_starts_with (Some s) (Some ''0x'') \<or> neoc_string_starts_with (Some s) (Some ''0X'') then drop 2 s else s) in
          bind_r (malloc_r A (length start + 1)) (\<lambda>_. Ok start))"

text \<open>A null result becomes the given error.\<close>

definition null_error :: "neoc_error \<Rightarrow> 'a result \<Rightarrow> 'a result" where
  "null_error e r = (case r of Err _ \<Rightarrow> Err e | r \<Rightarrow> r)"

definition neoc_string_hex_to_bytes :: "allocator \<Rightarrow> string option \<Rightarrow> byte list result" where
  "neoc_string_hex_to_bytes A hex_string =
     (case hex_string of
        None \<Rightarrow> Err NEOC_ERROR_INVALID_PARAM
      | Some s \<Rightarrow>
          bind_r (neoc_string_clean_hex_prefix A (Some s)) (\<lambda>cleaned_hex.
            null_error NEOC_ERROR_INVALID_HEX (neoc_hex_decode_alloc A (Some cleaned_hex))))"

definition neoc_string_base64_decode :: "allocator \<Rightarrow> string option \<Rightarrow> byte list result" where
  "neoc_string_base64_decode A base64_string =
     (case base64_string of
        None \<Rightarrow> Err NEOC_ERROR_INVALID_PARAM
      | Some s \<Rightarrow> null_error NEOC_ERROR_INVALID_FORMAT (neoc_base64_decode_alloc A (Some s)))"

definition neoc_string_hex_to_base64 :: "allocator \<Rightarrow> string option \<Rightarrow> string result" where
  "neoc_string_hex_to_base64 A hex_string =
     (case hex_string of
        None \<Rightarrow> Err NEOC_ERROR_INVALID_PARAM
      | Some s \<Rightarrow>
          bind_r (neoc_string_hex_to_bytes A (Some s)) (\<lambda>bytes.
            null_error NEOC_ERROR_OUT_OF_MEMORY (neoc_base64_encode_alloc A (Some bytes) (length bytes))))"

definition neoc_string_base58_decode :: "allocator \<Rightarrow> string option \<Rightarrow> byte list result" where
  "neoc_string_base58_decode A base58_string =
     (case base58_string of
        None \<Rightarrow> Err NEOC_ERROR_INVALID_PARAM
      | Some s \<Rightarrow> null_error NEOC_ERROR_INVALID_FORMAT (neoc_base58_decode_alloc A (Some s)))"

definition neoc_string_base58_check_decode :: "crypto \<Rightarrow> allocator \<Rightarrow> string option \<Rightarrow> byte list result" where
  "neoc_string_base58_check_decode C A base58_string =
     (case base58_string of
        None \<Rightarrow> Err NEOC_ERROR_INVALID_PARAM
      | Some s \<Rightarrow> null_error NEOC_ERROR_INVALID_FORMAT (neoc_base58_check_decode_alloc C A (Some s)))"

definition neoc_string_to_bytes :: "allocator \<Rightarrow> string option \<Rightarrow> byte list result" where
  "neoc_string_to_bytes A str =
     (case str of
        None \<Rightarrow> Err NEOC_ERROR_INVALID_PARAM
      | Some s \<Rightarrow> bind_r (neoc_malloc_r A (length s)) (\<lambda>_. Ok (string_bytes s)))"

definition neoc_string_to_base58 :: "allocator \<Rightarrow> string option \<Rightarrow> string result" where
  "neoc_string_to_base58 A input_string =
     (case input_string of
        None \<Rightarrow> Err NEOC_ERROR_INVALID_PARAM
      | Some s \<Rightarrow>
          bind_r (neoc_string_to_bytes A (Some s)) (\<lambda>bytes. null_error NEOC_ERROR_OUT_OF_MEMORY (neoc_base58_encode_alloc A (Some bytes))))"

definition neoc_string_var_size :: "string option \<Rightarrow> nat" where
  "neoc_string_var_size str =
     (case str of
        None \<Rightarrow> 0
      | Some s \<Rightarrow>
          let len = length s in
          if len < 0xFD then 1 + len else if len < 0x10000 then 3 + len else if len < 0x100000000 then 5 + len else 9 + len)"

subsection \<open>Addresses\<close>

text \<open>The checksum is compared with \<^verbatim>\<open>neoc_hash256\<close>, which is a single SHA-256.\<close>

definition neoc_string_is_valid_address :: "crypto \<Rightarrow> allocator \<Rightarrow> string option \<Rightarrow> bool result" where
  "neoc_string_is_valid_address C A address =
     (case address of
        None \<Rightarrow> Ok False
      | Some s \<Rightarrow>
          (case neoc_string_base58_decode A (Some s) of
             Fault \<Rightarrow> Fault
           | Err _ \<Rightarrow> Ok False
           | Ok data \<Rightarrow>
               if length data \<noteq> 25 then Ok False
               else if data ! 0 \<noteq> 0x35 then Ok False
               else (case neoc_hash256 C (Some (take 21 data)) of
                       Fault \<Rightarrow> Fault
                     | Err _ \<Rightarrow> Ok False
                     | Ok hash_result \<Rightarrow> Ok (take 4 hash_result = drop 21 data))))"

definition neoc_string_address_to_script_hash :: "crypto \<Rightarrow> allocator \<Rightarrow> string option \<Rightarrow> byte list result" where
  "neoc_string_address_to_script_hash C A address =
     (case address of
        None \<Rightarrow> Err NEOC_ERROR_INVALID_PARAM
      | Some s \<Rightarrow>
          bind_r (neoc_string_is_valid_address C A (Some s)) (\<lambda>valid.
            if \<not> valid then Err NEOC_ERROR_INVALID_PARAM
            else
              bind_r (neoc_string_base58_decode A (Some s)) (\<lambda>data.
              bind_r (malloc_r A 20) (\<lambda>_. Ok (map (\<lambda>i. data ! (20 - i)) [0..<20])))))"

subsection \<open>Hexadecimal texts\<close>

definition neoc_string_is_hex_digit :: "char \<Rightarrow> bool" where
  "neoc_string_is_hex_digit c = neoc_hex_is_valid_char c"

definition neoc_string_is_valid_hex :: "allocator \<Rightarrow> string option \<Rightarrow> bool" where
  "neoc_string_is_valid_hex A hex_string =
     (case hex_string of
        None \<Rightarrow> False
      | Some s \<Rightarrow>
          (case neoc_string_clean_hex_prefix A (Some s) of
             Ok cleaned_hex \<Rightarrow> if length cleaned_hex mod 2 \<noteq> 0 then False else list_all neoc_string_is_hex_digit cleaned_hex
           | _ \<Rightarrow> False))"

definition neoc_string_reverse_hex :: "allocator \<Rightarrow> string option \<Rightarrow> string result" where
  "neoc_string_reverse_hex A hex_string =
     (case hex_string of
        None \<Rightarrow> Err NEOC_ERROR_INVALID_PARAM
      | Some s \<Rightarrow>
          bind_r (neoc_string_hex_to_bytes A (Some s)) (\<lambda>bytes.
            let bytes = fold (\<lambda>i. swap_at i (length bytes - 1 - i)) [0..<length bytes div 2] bytes in
            null_error NEOC_ERROR_OUT_OF_MEMORY (neoc_hex_encode_alloc A (Some bytes) False False)))"

subsection \<open>Texts\<close>

definition neoc_string_to_lowercase :: "allocator \<Rightarrow> string option \<Rightarrow> string result" where
  "neoc_string_to_lowercase A str =
     (case str of None \<Rightarrow> Err NEOC_ERROR_INVALID_PARAM | Some s \<Rightarrow> bind_r (malloc_r A (length s + 1)) (\<lambda>_. Ok (map tolower_c s)))"

definition neoc_string_to_uppercase :: "allocator \<Rightarrow> string option \<Rightarrow> string result" where
  "neoc_string_to_uppercase A str =
     (case str of None \<Rightarrow> Err NEOC_ERROR_INVALID_PARAM | Some s \<Rightarrow> bind_r (malloc_r A (length s + 1)) (\<lambda>_. Ok (map toupper_c s)))"

text \<open>\<open>stop\<close> is the position behind the last character: \<^verbatim>\<open>end + 1\<close>.\<close>

function trim_end :: "string \<Rightarrow> nat \<Rightarrow> nat \<Rightarrow> nat" where
  "trim_end s start stop = (if start + 1 < stop \<and> isspace_c (s ! (stop - 1)) then trim_end s start (stop - 1) else stop)"
  by auto
termination by (relation "measure (\<lambda>(_, _, stop). stop)") auto

declare trim_end.simps [simp del]

definition neoc_string_trim :: "allocator \<Rightarrow> string option \<Rightarrow> string result" where
  "neoc_string_trim A str =
     (case str of
        None \<Rightarrow> Err NEOC_ERROR_INVALID_PARAM
      | Some s \<Rightarrow>
          let start = length (takeWhile isspace_c s); len = trim_end s start (length s) - start in
          bind_r (malloc_r A (len + 1)) (\<lambda>_. Ok (take len (drop start s))))"

text \<open>The loop over the characters; \<open>part\<close> is the text from \<^verbatim>\<open>start\<close> to \<^verbatim>\<open>p\<close>.\<close>

fun split_loop :: "allocator \<Rightarrow> char \<Rightarrow> string \<Rightarrow> string \<Rightarrow> string list result" where
  "split_loop A delimiter part [] = bind_r (malloc_r A (length part + 1)) (\<lambda>_. Ok [part])"
| "split_loop A delimiter part (c # cs) =
     (if c = delimiter then
        bind_r (malloc_r A (length part + 1)) (\<lambda>_. bind_r (split_loop A delimiter [] cs) (\<lambda>parts. Ok (part # parts)))
      else split_loop A delimiter (part @ [c]) cs)"

definition neoc_string_split :: "allocator \<Rightarrow> string option \<Rightarrow> char \<Rightarrow> string list result" where
  "neoc_string_split A str delimiter =
     (case str of
        None \<Rightarrow> Err NEOC_ERROR_INVALID_PARAM
      | Some s \<Rightarrow> bind_r (malloc_r A ((count_list s delimiter + 1) * 8)) (\<lambda>_. split_loop A delimiter [] s))"

subsection \<open>Lemmas\<close>

lemma null_error_simps [simp]: "null_error e (Ok x) = Ok x" "null_error e (Err f) = Err e" "null_error e Fault = Fault"
  by (simp_all add: null_error_def)

lemma starts_with_hex: "neoc_string_starts_with (Some s) (Some ''0x'') \<or> neoc_string_starts_with (Some s) (Some ''0X'') \<longleftrightarrow> has_hex_prefix s"
proof -
  have "take 2 s = [a, b] \<longleftrightarrow> s ! 0 = a \<and> s ! 1 = b" if "2 \<le> length s" for a b
    using that by (cases s rule: hex_decode_pairs.cases) auto
  moreover have "length ''0x'' = 2" "length ''0X'' = 2" by simp_all
  ultimately show ?thesis unfolding neoc_string_starts_with_def has_hex_prefix_def by (auto simp only: option.case prod.case not_less split: if_splits)
qed

lemma clean_hex_prefix_eq: "\<forall>n. A n \<Longrightarrow> neoc_string_clean_hex_prefix A (Some s) = Ok (neoc_hex_skip_prefix s)"
  unfolding neoc_string_clean_hex_prefix_def starts_with_hex by (simp add: neoc_hex_skip_prefix_def Let_def)

lemma split_loop_eq:
  assumes "\<forall>n. A n"
  shows "\<exists>parts. split_loop A d part s = Ok parts \<and> parts \<noteq> [] \<and> concat (map (\<lambda>p. p @ [d]) parts) = part @ s @ [d]
    \<and> length parts = count_list s d + 1 \<and> (d \<notin> set part \<longrightarrow> list_all (\<lambda>p. d \<notin> set p) parts)"
  using assms
proof (induction A d part s rule: split_loop.induct)
  case (2 A d part c cs)
  show ?case
  proof (cases "c = d")
    case True
    from "2.IH"(1) [OF True "2.prems"] "2.prems" True show ?thesis by force
  next
    case False
    from "2.IH"(2) [OF False "2.prems"] False show ?thesis by auto
  qed
qed simp

lemma trim_end_eq:
  assumes "start < stop" and "stop \<le> length s" and "\<not> isspace_c (s ! start)"
  shows "take (trim_end s start stop - start) (drop start s) = rev (dropWhile isspace_c (rev (take (stop - start) (drop start s))))"
  using assms
proof (induction s start stop rule: trim_end.induct)
  case (1 s start stop)
  have last: "take (stop - start) (drop start s) = take (stop - 1 - start) (drop start s) @ [s ! (stop - 1)]"
    using "1.prems" take_Suc_conv_app_nth [of "stop - 1 - start" "drop start s"] by (simp add: Suc_diff_Suc)
  show ?case
  proof (cases "start + 1 < stop \<and> isspace_c (s ! (stop - 1))")
    case True
    moreover have "start < stop - 1" "stop - 1 \<le> length s" using True "1.prems" by auto
    ultimately show ?thesis using "1.IH" "1.prems"(3) last by (subst trim_end.simps) simp
  next
    case False
    then have "\<not> isspace_c (s ! (stop - 1))" using "1.prems" by (cases "start + 1 = stop") auto
    then show ?thesis using False last by (subst trim_end.simps) simp
  qed
qed

lemma trim_eq:
  assumes "\<forall>n. A n"
  shows "neoc_string_trim A (Some s) = Ok (rev (dropWhile isspace_c (rev (dropWhile isspace_c s))))"
proof -
  let ?start = "length (takeWhile isspace_c s)"
  have d: "drop ?start s = dropWhile isspace_c s" by (simp add: dropWhile_eq_drop)
  have "take (trim_end s ?start (length s) - ?start) (drop ?start s) = rev (dropWhile isspace_c (rev (dropWhile isspace_c s)))"
  proof (cases "dropWhile isspace_c s = []")
    case False
    then have "?start < length s" using d by (metis drop_eq_Nil not_le)
    moreover have "\<not> isspace_c (s ! ?start)" using calculation by (rule nth_length_takeWhile)
    moreover have "take (length s - ?start) (drop ?start s) = drop ?start s" by simp
    ultimately show ?thesis using trim_end_eq [of ?start "length s" s] d by simp
  next
    case True
    with d show ?thesis by (simp only: take_Nil rev.simps dropWhile.simps)
  qed
  then show ?thesis using assms by (simp add: neoc_string_trim_def Let_def)
qed

lemma hex_to_bytes_Ok_iff:
  assumes "\<forall>n. A n"
  shows "(\<exists>bs. neoc_string_hex_to_bytes A (Some s) = Ok bs)
     \<longleftrightarrow> (let t = neoc_hex_skip_prefix (neoc_hex_skip_prefix s) in even (length t) \<and> t \<noteq> [] \<and> list_all neoc_hex_is_valid_char t)"
proof -
  let ?u = "neoc_hex_skip_prefix s" let ?t = "neoc_hex_skip_prefix ?u"
  have n: "neoc_hex_decode_buffer_size (Some ?u) = length ?t div 2" by (simp add: neoc_hex_decode_buffer_size_def neoc_hex_skip_prefix_def)
  have "(\<exists>bs. neoc_string_hex_to_bytes A (Some s) = Ok bs) \<longleftrightarrow> (\<exists>bs. neoc_hex_decode_alloc A (Some ?u) = Ok bs)"
    by (cases "neoc_hex_decode_alloc A (Some ?u)") (simp_all add: neoc_string_hex_to_bytes_def clean_hex_prefix_eq [OF assms])
  also have "\<dots> \<longleftrightarrow> length ?t div 2 \<noteq> 0 \<and> (\<exists>bs. neoc_hex_decode (Some ?u) (length ?t div 2) = Ok bs)"
    using assms by (simp add: neoc_hex_decode_alloc_def Let_def n)
  also have "\<dots> \<longleftrightarrow> even (length ?t) \<and> ?t \<noteq> [] \<and> list_all neoc_hex_is_valid_char ?t"
  proof -
    have "even (length ?t) \<Longrightarrow> length ?t div 2 \<noteq> 0 \<longleftrightarrow> ?t \<noteq> []" by (cases ?t) (auto elim: oddE evenE)
    then show ?thesis unfolding decode_Ok_iff by auto
  qed
  finally show ?thesis by (simp add: Let_def)
qed

lemma base58_decode_text:
  assumes "\<forall>n. A n" and "p \<noteq> []" and short: "length p < 2 ^ 52"
  shows "neoc_string_base58_decode A (Some (b58_text p)) = Ok p"
proof -
  let ?s = "b58_text p"
  have l: "length ?s < 2 ^ 54" using text_short [of p] short by simp
  have ne: "?s \<noteq> []" using b58_bytes_text [of p] assms(2) by (auto simp: b58_bytes_def b58_digits_def be_val_def)
  have "\<not> neoc_base58_decode_buffer_size (Some ?s) < length p"
    using length_bytes_le [OF no_nul_text valid_text _ l] ne by (simp add: b58_bytes_text)
  then have "neoc_base58_decode A (Some ?s) (neoc_base58_decode_buffer_size (Some ?s)) = Ok p"
    using assms(1) neoc_base58_decode_eq [OF no_nul_text [of p] l, of A] valid_text [of p] by (simp add: b58_bytes_text)
  moreover have "neoc_base58_decode_buffer_size (Some ?s) \<noteq> 0" using decode_buffer_size_le(2) [OF l] ne by simp
  ultimately show ?thesis using assms(1) by (simp add: neoc_string_base58_decode_def neoc_base58_decode_alloc_def Let_def)
qed

lemma decoded_address:
  assumes "crypto_works C" and "\<forall>n. A n" and "length h = 20" and "neoc_hash160_to_address C A (Some h) 36 = Ok s"
  obtains d where "neoc_string_base58_decode A (Some s) = Ok ((0x35 # rev h) @ take 4 d)" and "neoc_sha256_double C (Some (0x35 # rev h)) = Ok d" and "length d = 32"
proof -
  let ?v = "NEOC_ADDRESS_VERSION # rev h"
  have g: "grants A k" for k using assms(2) by (simp add: grants_def)
  obtain d where d: "neoc_sha256_double C (Some ?v) = Ok d" "length d = 32"
    "neoc_base58_check_encode C A (Some ?v) (neoc_base58_check_encode_buffer_size (length ?v)) = Ok (b58_text (?v @ take 4 d))"
    using check_encode_Ok [OF assms(1) g, of ?v] assms(3) by auto
  have s: "s = b58_text (?v @ take 4 d)"
    using assms(2,3,4) d map_rev_index [of h 20]
    by (auto simp: neoc_hash160_to_address_def neoc_base58_check_encode_alloc_def hash_sizes Let_def split: if_splits)
  have "neoc_string_base58_decode A (Some s) = Ok (?v @ take 4 d)" unfolding s by (rule base58_decode_text [OF assms(2)]) (simp_all add: assms(3) d(2))
  then show thesis using d(1,2) by (intro that) (simp_all add: NEOC_ADDRESS_VERSION_def)
qed

subsection \<open>Properties\<close>

text \<open> The checksum of an address is the beginning of a double SHA-256; this check compares it with a single one.  So an address the library makes itself
  counts as valid, and gives its script hash back, only when the two digests happen to begin with the same four bytes.\<close>

theorem string_address_wrong_checksum:
  assumes "crypto_works C" and "\<forall>n. A n" and "length h = 20" and "neoc_hash160_to_address C A (Some h) 36 = Ok s"
    and "neoc_sha256 C (Some (0x35 # rev h)) = Ok d1" and "neoc_sha256 C (Some d1) = Ok d2"
  shows "neoc_string_is_valid_address C A (Some s) = Ok (take 4 d1 = take 4 d2)
    \<and> neoc_string_address_to_script_hash C A (Some s) = (if take 4 d1 = take 4 d2 then Ok h else Err NEOC_ERROR_INVALID_PARAM)"
proof -
  let ?v = "0x35 # rev h"
  obtain d where d: "neoc_string_base58_decode A (Some s) = Ok (?v @ take 4 d)" "neoc_sha256_double C (Some ?v) = Ok d" "length d = 32"
    using decoded_address [OF assms(1-4)] .
  have "d = d2" using d(2) assms(5,6) by (simp add: neoc_sha256_double_def)
  then have v: "neoc_string_is_valid_address C A (Some s) = Ok (take 4 d1 = take 4 d2)"
    using d assms(3,5) by (simp add: neoc_string_is_valid_address_def neoc_hash256_def)
  have "map (\<lambda>i. (?v @ take 4 d) ! (20 - i)) [0..<20] = h"
    by (rule nth_equalityI) (use assms(3) in \<open>auto simp: nth_Cons' nth_append rev_nth\<close>)
  then show ?thesis using v d(1) assms(2) by (simp add: neoc_string_address_to_script_hash_def)
qed

text \<open> A text that counts as valid hexadecimal can be converted unless it is empty; but the conversion skips a second prefix as well, so it accepts texts
  that do not count as valid.\<close>

theorem string_hex_second_prefix:
  assumes "\<forall>n. A n"
  shows "(neoc_string_is_valid_hex A (Some s) \<longleftrightarrow> neoc_hex_skip_prefix s = [] \<or> (\<exists>bs. neoc_string_hex_to_bytes A (Some s) = Ok bs) \<and> \<not> has_hex_prefix (neoc_hex_skip_prefix s))
    \<and> neoc_string_hex_to_bytes A (Some (''0x0x'' @ t)) = null_error NEOC_ERROR_INVALID_HEX (neoc_hex_decode_alloc A (Some (''0x'' @ t)))
    \<and> \<not> neoc_string_is_valid_hex A (Some (''0x0x'' @ t))"
proof -
  let ?u = "neoc_hex_skip_prefix s"
  have v: "neoc_string_is_valid_hex A (Some x) \<longleftrightarrow> even (length (neoc_hex_skip_prefix x)) \<and> list_all neoc_hex_is_valid_char (neoc_hex_skip_prefix x)" for x
    using clean_hex_prefix_eq [OF assms, of x] by (simp add: neoc_string_is_valid_hex_def even_iff_mod_2_eq_zero neoc_string_is_hex_digit_def [abs_def])
  have "neoc_hex_skip_prefix ?u = ?u" if "\<not> has_hex_prefix ?u" using that by (simp add: neoc_hex_skip_prefix_def)
  then have "neoc_string_is_valid_hex A (Some s) \<longleftrightarrow> ?u = [] \<or> (\<exists>bs. neoc_string_hex_to_bytes A (Some s) = Ok bs) \<and> \<not> has_hex_prefix ?u"
    using hex_to_bytes_Ok_iff [OF assms, of s] v [of s] no_prefix [of ?u] by (auto simp: Let_def)
  moreover have "neoc_hex_skip_prefix (''0x0x'' @ t) = ''0x'' @ t" by simp
  moreover have "\<not> list_all neoc_hex_is_valid_char (''0x'' @ t)" using no_prefix [of "''0x'' @ t"] by (auto simp: has_hex_prefix_def)
  ultimately show ?thesis using v [of "''0x0x'' @ t"] clean_hex_prefix_eq [OF assms, of "''0x0x'' @ t"] by (simp add: neoc_string_hex_to_bytes_def)
qed

text \<open> Splitting a text gives one part more than there are delimiters, none of which contains the delimiter, and joining the parts gives the text back.
  Trimming removes exactly the white space at both ends.\<close>

theorem string_split_trim:
  assumes "\<forall>n. A n"
  shows "\<exists>parts. neoc_string_split A (Some s) d = Ok parts \<and> length parts = count_list s d + 1 \<and> list_all (\<lambda>p. d \<notin> set p) parts
      \<and> concat (map (\<lambda>p. p @ [d]) parts) = s @ [d]
      \<and> neoc_string_trim A (Some s) = Ok (rev (dropWhile isspace_c (rev (dropWhile isspace_c s))))"
proof -
  from split_loop_eq [OF assms, of d "[]" s] obtain parts where p: "split_loop A d [] s = Ok parts" "concat (map (\<lambda>p. p @ [d]) parts) = s @ [d]"
    "length parts = count_list s d + 1" "list_all (\<lambda>p. d \<notin> set p) parts" by auto
  then show ?thesis using assms by (simp add: neoc_string_split_def trim_eq [OF assms])
qed

text \<open> Reversing the bytes of a hexadecimal text twice gives the text back in lower case and without its prefix.\<close>

theorem string_reverse_hex_involution:
  assumes "\<forall>n. A n" and "neoc_string_hex_to_bytes A (Some s) = Ok bs"
  shows "bind_r (neoc_string_reverse_hex A (Some s)) (\<lambda>r. neoc_string_reverse_hex A (Some r)) = Ok (concat (map (sprintf_02x False) bs))"
proof -
  let ?e = "\<lambda>xs. concat (map (sprintf_02x False) xs)"
  have r: "neoc_string_reverse_hex A (Some x) = Ok (?e (rev xs))" if "neoc_string_hex_to_bytes A (Some x) = Ok xs" for x xs
    using that assms(1) swap_fold_rev [of xs] hex_encode_Ok [of "rev xs" False False]
    by (simp add: neoc_string_reverse_hex_def neoc_hex_encode_alloc_def Let_def)
  have "bs \<noteq> []"
  proof
    assume "bs = []"
    let ?u = "neoc_hex_skip_prefix s" let ?t = "neoc_hex_skip_prefix ?u"
    have "hex_decode_pairs ?t = Ok []" "?t \<noteq> []" "even (length ?t)" "list_all neoc_hex_is_valid_char ?t"
      using assms(2) hex_to_bytes_Ok_iff [OF assms(1), of s] \<open>bs = []\<close>
      by (auto simp: neoc_string_hex_to_bytes_def clean_hex_prefix_eq [OF assms(1)] null_error_def neoc_hex_decode_alloc_def neoc_hex_decode_def
          Let_def bind_r_Ok_iff split: result.splits if_splits)
    then show False using decode_pairs_encode [of ?t False] by auto
  qed
  have "neoc_string_hex_to_bytes A (Some (?e xs)) = Ok xs" if "xs \<noteq> []" for xs
    using that assms(1) no_prefix [OF encoded_valid [of False xs]]
    by (simp add: neoc_string_hex_to_bytes_def clean_hex_prefix_eq [OF assms(1)] neoc_hex_decode_alloc_def neoc_hex_decode_def Let_def
        neoc_hex_decode_buffer_size_def encoded_valid decode_pairs_encoded)
  then show ?thesis using r [OF assms(2)] r [of "?e (rev bs)" "rev bs"] \<open>bs \<noteq> []\<close> by simp
qed

theorem string_address_wrong_checksum_witness:
  "\<exists>s. neoc_hash160_to_address toy_crypto (\<lambda>_. True) (Some (replicate 20 9)) 36 = Ok s
     \<and> neoc_string_is_valid_address toy_crypto (\<lambda>_. True) (Some s) = Ok False
     \<and> neoc_string_address_to_script_hash toy_crypto (\<lambda>_. True) (Some s) = Err NEOC_ERROR_INVALID_PARAM"
proof -
  obtain s where s: "neoc_hash160_to_address toy_crypto (\<lambda>_. True) (Some (replicate 20 9)) 36 = Ok s"
    using to_address_Ok [OF toy_crypto_works, of "\<lambda>_. True" "replicate 20 9" 36] by auto
  have "neoc_sha256 toy_crypto (Some (0x35 # rev (replicate 20 9))) = Ok (replicate 32 21)" "neoc_sha256 toy_crypto (Some (replicate 32 21)) = Ok (replicate 32 32)"
    by (simp_all add: toy_crypto_def neoc_sha256_def digest_calls_def)
  from string_address_wrong_checksum [OF toy_crypto_works _ _ s this] show ?thesis using s by simp
qed

theorem string_hex_second_prefix_witness:
  "neoc_string_hex_to_bytes (\<lambda>_. True) (Some ''0x0xab'') = Ok [0xab] \<and> \<not> neoc_string_is_valid_hex (\<lambda>_. True) (Some ''0x0xab'')"
proof -
  have "neoc_hex_decode_alloc (\<lambda>_. True) (Some ''0xab'') = Ok [0xab]" by code_simp
  then show ?thesis using string_hex_second_prefix [of "\<lambda>_. True" "[]" "''ab''"] by simp
qed

theorem string_split_trim_witness:
  "\<exists>parts. neoc_string_split (\<lambda>_. True) (Some ''a,,b'') (CHR '','') = Ok parts \<and> length parts = 3"
  using string_split_trim [of "\<lambda>_. True" "''a,,b''" "CHR '',''"] by auto

theorem string_reverse_hex_involution_witness:
  "bind_r (neoc_string_reverse_hex (\<lambda>_. True) (Some ''0xABcd'')) (\<lambda>r. neoc_string_reverse_hex (\<lambda>_. True) (Some r)) = Ok ''abcd''"
proof -
  have "neoc_string_hex_to_bytes (\<lambda>_. True) (Some ''0xABcd'') = Ok [0xab, 0xcd]" by code_simp
  from string_reverse_hex_involution [OF _ this] have
    "bind_r (neoc_string_reverse_hex (\<lambda>_. True) (Some ''0xABcd'')) (\<lambda>r. neoc_string_reverse_hex (\<lambda>_. True) (Some r)) = Ok (concat (map (sprintf_02x False) [0xab, 0xcd]))" by simp
  moreover have "concat (map (sprintf_02x False) [0xab, 0xcd]) = ''abcd''" by code_simp
  ultimately show ?thesis by (simp only:)
qed

end
