(* ===== verification/Byte_String.thy ===== *)
theory Byte_String
  imports String_Utils
begin

text \<open>
  \<^verbatim>\<open>src/types/neoc_types.c\<close> and \<^verbatim>\<open>src/utils/neoc_bytes_utils.c\<close>: byte strings that own a block of memory.  The block may be longer than the string;
  a string without a block has the null pointer.  A constructor returns \<open>None\<close> where it returns the null pointer.
\<close>

subsection \<open>Byte strings\<close>

record neoc_bytes =
  bs_data :: "byte list option"
  bs_length :: nat
  bs_capacity :: nat

definition sizeof_bytes :: nat where "sizeof_bytes = 24"

text \<open>Reading from and writing to the block; outside it there is no defined outcome.\<close>

definition block_read :: "neoc_bytes \<Rightarrow> nat \<Rightarrow> byte list result" where
  "block_read b n =
     (if n = 0 then Ok []
      else case bs_data b of None \<Rightarrow> Fault | Some d \<Rightarrow> if length d < n then Fault else Ok (take n d))"

definition block_write :: "nat \<Rightarrow> byte list \<Rightarrow> (neoc_bytes, unit) cmd" where
  "block_write i data b =
     (case bs_data b of
        None \<Rightarrow> (Fault, b)
      | Some d \<Rightarrow>
          if length d < i + length data then (Fault, b)
          else (Ok (), b\<lparr>bs_data := Some (take i d @ data @ drop (i + length data) d)\<rparr>))"

definition neoc_bytes_create :: "allocator \<Rightarrow> nat \<Rightarrow> neoc_bytes option" where
  "neoc_bytes_create A len =
     (if \<not> A sizeof_bytes then None
      else if 0 < len then
        if \<not> A len then None else Some \<lparr>bs_data = Some (replicate len 0), bs_length = len, bs_capacity = len\<rparr>
      else Some \<lparr>bs_data = None, bs_length = 0, bs_capacity = 0\<rparr>)"

text \<open>\<open>data\<close>: the bytes that are copied, or the null pointer.\<close>

definition neoc_bytes_from_data :: "allocator \<Rightarrow> byte list option \<Rightarrow> nat \<Rightarrow> neoc_bytes option result" where
  "neoc_bytes_from_data A data len =
     (if data = None \<and> 0 < len then Ok None
      else
        (case neoc_bytes_create A len of
           None \<Rightarrow> Ok None
         | Some b \<Rightarrow>
             if 0 < len then
               (case data of
                  None \<Rightarrow> Fault
                | Some d \<Rightarrow>
                    if length d < len then Fault
                    else (case block_write 0 (take len d) b of (Ok _, b) \<Rightarrow> Ok (Some b) | _ \<Rightarrow> Fault))
             else Ok (Some b)))"

definition neoc_bytes_from_hex :: "allocator \<Rightarrow> string option \<Rightarrow> neoc_bytes option result" where
  "neoc_bytes_from_hex A hex_string =
     (case hex_string of
        None \<Rightarrow> Ok None
      | Some s \<Rightarrow>
          (case neoc_hex_decode_alloc A (Some s) of
             Fault \<Rightarrow> Fault
           | Err _ \<Rightarrow> Ok None
           | Ok decoded \<Rightarrow> neoc_bytes_from_data A (Some decoded) (length decoded)))"

definition neoc_bytes_duplicate :: "allocator \<Rightarrow> neoc_bytes option \<Rightarrow> neoc_bytes option result" where
  "neoc_bytes_duplicate A bytes =
     (case bytes of None \<Rightarrow> Ok None | Some b \<Rightarrow> neoc_bytes_from_data A (bs_data b) (bs_length b))"

text \<open>A length up to the capacity only changes the length: bytes that were cut off come back.\<close>

definition neoc_bytes_resize :: "allocator \<Rightarrow> nat \<Rightarrow> (neoc_bytes, unit) cmd" where
  "neoc_bytes_resize A new_length b =
     (if new_length = bs_length b then (Ok (), b)
      else if new_length = 0 then (Ok (), \<lparr>bs_data = None, bs_length = 0, bs_capacity = 0\<rparr>)
      else if new_length \<le> bs_capacity b then (Ok (), b\<lparr>bs_length := new_length\<rparr>)
      else if \<not> A new_length then (Err NEOC_ERROR_OUT_OF_MEMORY, b)
      else
        let old = (case bs_data b of None \<Rightarrow> [] | Some d \<Rightarrow> take new_length d);
            kept = take (bs_length b) old in
        (Ok (), \<lparr>bs_data = Some (kept @ replicate (new_length - length kept) 0), bs_length = new_length, bs_capacity = new_length\<rparr>))"

definition neoc_bytes_append :: "allocator \<Rightarrow> byte list option \<Rightarrow> nat \<Rightarrow> (neoc_bytes, unit) cmd" where
  "neoc_bytes_append A data len b =
     (case data of
        None \<Rightarrow> if 0 < len then (Err NEOC_ERROR_NULL_POINTER, b) else (Ok (), b)
      | Some d \<Rightarrow>
          if len = 0 then (Ok (), b)
          else if length d < len then (Fault, b)
          else let old_length = bs_length b in
            then_c (neoc_bytes_resize A (old_length + len)) (block_write old_length (take len d)) b)"

definition neoc_bytes_reverse :: "(neoc_bytes, unit) cmd" where
  "neoc_bytes_reverse b =
     (if bs_length b \<le> 1 then (Ok (), b)
      else case bs_data b of
        None \<Rightarrow> (Fault, b)
      | Some d \<Rightarrow>
          if length d < bs_length b then (Fault, b) else (Ok (), b\<lparr>bs_data := Some (swap_loop 0 (bs_length b - 1) d)\<rparr>))"

definition neoc_bytes_reversed :: "allocator \<Rightarrow> neoc_bytes option \<Rightarrow> neoc_bytes option result" where
  "neoc_bytes_reversed A bytes =
     (case bytes of
        None \<Rightarrow> Ok None
      | Some b \<Rightarrow>
          bind_r (neoc_bytes_duplicate A (Some b)) (\<lambda>reversed.
            case reversed of
              None \<Rightarrow> Ok None
            | Some r \<Rightarrow> (case neoc_bytes_reverse r of (Ok _, r) \<Rightarrow> Ok (Some r) | (Err _, _) \<Rightarrow> Ok None | (Fault, _) \<Rightarrow> Fault)))"

definition neoc_bytes_compare :: "neoc_bytes option \<Rightarrow> neoc_bytes option \<Rightarrow> int result" where
  "neoc_bytes_compare a b =
     (case (a, b) of
        (None, None) \<Rightarrow> Ok 0
      | (Some _, None) \<Rightarrow> Ok 1
      | (None, Some _) \<Rightarrow> Ok (- 1)
      | (Some a, Some b) \<Rightarrow>
          let min_len = (if bs_length a < bs_length b then bs_length a else bs_length b) in
          bind_r (block_read a min_len) (\<lambda>x. bind_r (block_read b min_len) (\<lambda>y.
            let result = memcmp_c x y in
            if result \<noteq> 0 then Ok result
            else if bs_length a < bs_length b then Ok (- 1)
            else if bs_length b < bs_length a then Ok 1
            else Ok 0)))"

definition neoc_bytes_equal :: "neoc_bytes option \<Rightarrow> neoc_bytes option \<Rightarrow> bool result" where
  "neoc_bytes_equal a b = bind_r (neoc_bytes_compare a b) (\<lambda>c. Ok (c = 0))"

text \<open>An empty byte string has no block, and the encoder refuses the null pointer.\<close>

definition neoc_bytes_to_hex :: "allocator \<Rightarrow> neoc_bytes option \<Rightarrow> bool \<Rightarrow> string option result" where
  "neoc_bytes_to_hex A bytes uppercase =
     (case bytes of
        None \<Rightarrow> Ok None
      | Some b \<Rightarrow>
          (case neoc_hex_encode_alloc A (map_option (take (bs_length b)) (bs_data b)) uppercase False of
             Ok s \<Rightarrow> Ok (Some s) | Err _ \<Rightarrow> Ok None | Fault \<Rightarrow> Fault))"

definition neoc_bytes_clear :: "neoc_bytes \<Rightarrow> neoc_bytes" where
  "neoc_bytes_clear b =
     (case bs_data b of
        None \<Rightarrow> b
      | Some d \<Rightarrow> if 0 < bs_length b then b\<lparr>bs_data := Some (replicate (bs_length b) 0 @ drop (bs_length b) d)\<rparr> else b)"

subsection \<open>Utilities\<close>

definition no_bytes :: "neoc_bytes \<Rightarrow> bool" where
  "no_bytes b \<longleftrightarrow> bs_data b = None \<or> bs_length b = 0"

text \<open>The empty text is stored when the buffer has room for its final zero, and reported as a success in any case.\<close>

definition neoc_bytes_to_base64 :: "neoc_bytes option \<Rightarrow> nat \<Rightarrow> string result" where
  "neoc_bytes_to_base64 bytes buffer_size =
     (case bytes of
        None \<Rightarrow> Err NEOC_ERROR_NULL_POINTER
      | Some b \<Rightarrow> if no_bytes b then Ok [] else neoc_base64_encode (bs_data b) (bs_length b) buffer_size)"

definition neoc_bytes_to_base58 :: "allocator \<Rightarrow> neoc_bytes option \<Rightarrow> nat \<Rightarrow> string result" where
  "neoc_bytes_to_base58 A bytes buffer_size =
     (case bytes of
        None \<Rightarrow> Err NEOC_ERROR_NULL_POINTER
      | Some b \<Rightarrow>
          if no_bytes b then Ok []
          else bind_r (block_read b (bs_length b)) (\<lambda>d. neoc_base58_encode A (Some d) buffer_size))"

definition neoc_bytes_to_base58_check :: "crypto \<Rightarrow> allocator \<Rightarrow> neoc_bytes option \<Rightarrow> nat \<Rightarrow> string result" where
  "neoc_bytes_to_base58_check C A bytes buffer_size =
     (case bytes of
        None \<Rightarrow> Err NEOC_ERROR_NULL_POINTER
      | Some b \<Rightarrow>
          if no_bytes b then Ok []
          else
            bind_r (block_read b (bs_length b)) (\<lambda>d.
            bind_r (null_error NEOC_ERROR_INVALID_FORMAT (neoc_base58_check_encode_alloc C A (Some d))) (\<lambda>encoded.
              if buffer_size \<le> length encoded then Err NEOC_ERROR_BUFFER_TOO_SMALL else Ok encoded)))"

definition NEOC_MAX_HEX_STRING_LENGTH :: nat where "NEOC_MAX_HEX_STRING_LENGTH = 1024"

definition neoc_bytes_to_hex_no_prefix :: "neoc_bytes option \<Rightarrow> nat \<Rightarrow> string result" where
  "neoc_bytes_to_hex_no_prefix bytes buffer_size =
     (case bytes of
        None \<Rightarrow> Err NEOC_ERROR_NULL_POINTER
      | Some b \<Rightarrow>
          if no_bytes b then Ok []
          else
            bind_r (block_read b (bs_length b)) (\<lambda>d.
            bind_r (neoc_hex_encode (Some d) NEOC_MAX_HEX_STRING_LENGTH False True) (\<lambda>temp_buffer.
              let hex_start = (if take 2 temp_buffer = ''0x'' then drop 2 temp_buffer else temp_buffer) in
              if buffer_size < length hex_start + 1 then Err NEOC_ERROR_BUFFER_TOO_SMALL else Ok hex_start)))"

definition get_varint_size :: "u64 \<Rightarrow> nat" where
  "get_varint_size value = (if value < 0xFD then 1 else if value \<le> 0xFFFF then 3 else if value \<le> 0xFFFFFFFF then 5 else 9)"

definition neoc_bytes_var_size :: "neoc_bytes option \<Rightarrow> nat" where
  "neoc_bytes_var_size bytes = (case bytes of None \<Rightarrow> 0 | Some b \<Rightarrow> get_varint_size (of_nat (bs_length b)) + bs_length b)"

text \<open>The checksum is the beginning of \<^verbatim>\<open>neoc_hash256\<close>, a single SHA-256.\<close>

definition neoc_bytes_script_hash_to_address :: "crypto \<Rightarrow> allocator \<Rightarrow> neoc_bytes option \<Rightarrow> nat \<Rightarrow> string result" where
  "neoc_bytes_script_hash_to_address C A script_hash buffer_size =
     (case script_hash of
        None \<Rightarrow> Err NEOC_ERROR_NULL_POINTER
      | Some b \<Rightarrow>
          if bs_data b = None \<or> bs_length b \<noteq> NEOC_HASH160_SIZE then Err NEOC_ERROR_INVALID_LENGTH
          else
            bind_r (block_read b NEOC_HASH160_SIZE) (\<lambda>h.
              let versioned_script = NEOC_ADDRESS_VERSION # map (\<lambda>i. h ! (NEOC_HASH160_SIZE - 1 - i)) [0..<NEOC_HASH160_SIZE] in
              bind_r (neoc_hash256 C (Some versioned_script)) (\<lambda>hash256_result.
                neoc_base58_encode A (Some (versioned_script @ take 4 hash256_result)) buffer_size)))"

text \<open>A new byte string with the given contents, which have the length it is created with.\<close>

definition new_bytes :: "allocator \<Rightarrow> byte list \<Rightarrow> neoc_bytes result" where
  "new_bytes A data =
     (case neoc_bytes_create A (length data) of
        None \<Rightarrow> Err NEOC_ERROR_OUT_OF_MEMORY
      | Some b \<Rightarrow> if data = [] then Ok b else (case block_write 0 data b of (Ok _, b) \<Rightarrow> Ok b | _ \<Rightarrow> Fault))"

definition neoc_bytes_pad :: "allocator \<Rightarrow> neoc_bytes option \<Rightarrow> nat \<Rightarrow> bool \<Rightarrow> neoc_bytes result" where
  "neoc_bytes_pad A bytes len trailing =
     (case bytes of
        None \<Rightarrow> Err NEOC_ERROR_NULL_POINTER
      | Some b \<Rightarrow>
          bind_r (block_read b (bs_length b)) (\<lambda>d.
            let src_offset = (if 0 < bs_length b \<and> d ! 0 = 0 then 1 else 0); effective_length = bs_length b - src_offset in
            if len < effective_length then Err NEOC_ERROR_INVALID_ARGUMENT
            else
              let padding = replicate (len - effective_length) 0 in
              new_bytes A (if trailing then drop src_offset d @ padding else padding @ drop src_offset d)))"

definition neoc_bytes_trim_trailing :: "allocator \<Rightarrow> neoc_bytes option \<Rightarrow> byte \<Rightarrow> neoc_bytes result" where
  "neoc_bytes_trim_trailing A bytes byte_value =
     (case bytes of
        None \<Rightarrow> Err NEOC_ERROR_NULL_POINTER
      | Some b \<Rightarrow>
          if no_bytes b then new_bytes A []
          else bind_r (block_read b (bs_length b)) (\<lambda>d. new_bytes A (take (trim_len byte_value d (bs_length b)) d)))"

definition bytes_to_number :: "nat \<Rightarrow> neoc_bytes option \<Rightarrow> bool \<Rightarrow> 'a::len word result" where
  "bytes_to_number width bytes little_endian =
     (case bytes of
        None \<Rightarrow> Err NEOC_ERROR_NULL_POINTER
      | Some b \<Rightarrow>
          if bs_data b = None \<or> bs_length b = 0 \<or> width < bs_length b then Err NEOC_ERROR_INVALID_LENGTH
          else bind_r (block_read b (bs_length b)) (\<lambda>d. Ok (if little_endian then or_bytes (bs_length b) d else shift_bytes d)))"

definition neoc_bytes_to_uint32 :: "neoc_bytes option \<Rightarrow> bool \<Rightarrow> u32 result" where
  "neoc_bytes_to_uint32 bytes little_endian = bytes_to_number 4 bytes little_endian"

definition neoc_bytes_to_uint64 :: "neoc_bytes option \<Rightarrow> bool \<Rightarrow> u64 result" where
  "neoc_bytes_to_uint64 bytes little_endian = bytes_to_number 8 bytes little_endian"

definition neoc_bytes_xor :: "allocator \<Rightarrow> neoc_bytes option \<Rightarrow> neoc_bytes option \<Rightarrow> neoc_bytes result" where
  "neoc_bytes_xor A lhs rhs =
     (case (lhs, rhs) of
        (Some l, Some r) \<Rightarrow>
          if bs_data l = None \<or> bs_data r = None then Err NEOC_ERROR_INVALID_ARGUMENT
          else if bs_length l \<noteq> bs_length r then Err NEOC_ERROR_INVALID_ARGUMENT
          else
            bind_r (block_read l (bs_length l)) (\<lambda>x. bind_r (block_read r (bs_length r)) (\<lambda>y.
              new_bytes A (map (\<lambda>i. x ! i XOR y ! i) [0..<bs_length l])))
      | _ \<Rightarrow> Err NEOC_ERROR_NULL_POINTER)"

definition neoc_bytes_reverse_inplace :: "(neoc_bytes, unit) cmd" where
  "neoc_bytes_reverse_inplace b =
     (case bs_data b of
        None \<Rightarrow> (Err NEOC_ERROR_NULL_POINTER, b)
      | Some d \<Rightarrow>
          if bs_length b \<le> 1 then (Ok (), b)
          else if length d < bs_length b then (Fault, b)
          else (Ok (), b\<lparr>bs_data := Some (fold (\<lambda>i. swap_at i (bs_length b - 1 - i)) [0..<bs_length b div 2] d)\<rparr>))"

definition neoc_bytes_reverse_copy :: "allocator \<Rightarrow> neoc_bytes option \<Rightarrow> neoc_bytes result" where
  "neoc_bytes_reverse_copy A bytes =
     (case bytes of
        None \<Rightarrow> Err NEOC_ERROR_NULL_POINTER
      | Some b \<Rightarrow>
          if no_bytes b then new_bytes A (replicate (bs_length b) 0)
          else bind_r (block_read b (bs_length b)) (\<lambda>d. new_bytes A (map (\<lambda>i. d ! (bs_length b - 1 - i)) [0..<bs_length b])))"

subsection \<open>Invariant and abstract view\<close>

definition bs_inv :: "neoc_bytes \<Rightarrow> bool" where
  "bs_inv b = (case bs_data b of
      None \<Rightarrow> bs_length b = 0 \<and> bs_capacity b = 0
    | Some d \<Rightarrow> length d = bs_capacity b \<and> 0 < bs_length b \<and> bs_length b \<le> bs_capacity b)"

definition bs_block :: "neoc_bytes \<Rightarrow> byte list" where
  "bs_block b = (case bs_data b of None \<Rightarrow> [] | Some d \<Rightarrow> d)"

definition contents :: "neoc_bytes \<Rightarrow> byte list" where
  "contents b = take (bs_length b) (bs_block b)"

text \<open>The string, and the bytes of the block behind it.\<close>

definition bs_view :: "neoc_bytes \<Rightarrow> byte list \<times> byte list" where
  "bs_view b = (contents b, drop (bs_length b) (bs_block b))"

lemma bs_inv_simps:
  assumes "bs_inv b"
  shows "length (bs_block b) = bs_capacity b" and "bs_length b \<le> bs_capacity b" and "length (contents b) = bs_length b"
    and "bs_data b = None \<longleftrightarrow> bs_length b = 0" and "no_bytes b \<longleftrightarrow> bs_length b = 0"
  using assms by (auto simp: bs_inv_def bs_block_def contents_def no_bytes_def split: option.splits)

lemma block_read_contents: "bs_inv b \<Longrightarrow> n \<le> bs_length b \<Longrightarrow> block_read b n = Ok (take n (contents b))"
  by (auto simp: block_read_def bs_inv_def contents_def bs_block_def min_def split: option.splits)

lemma create_eq: "A sizeof_bytes \<Longrightarrow> (0 < n \<Longrightarrow> A n) \<Longrightarrow> neoc_bytes_create A n = Some \<lparr>bs_data = (if 0 < n then Some (replicate n 0) else None), bs_length = n, bs_capacity = n\<rparr>"
  by (simp add: neoc_bytes_create_def)

lemma new_bytes_eq:
  assumes "\<forall>n. A n"
  shows "\<exists>b. new_bytes A data = Ok b \<and> bs_inv b \<and> contents b = data"
  using assms by (cases data) (auto simp: new_bytes_def create_eq block_write_def bs_inv_def contents_def bs_block_def)

subsection \<open>Sequences of operations\<close>

datatype bytes_op = Resize nat | Append "byte list" | Reverse | Reverse_Inplace | Clear

fun bytes_step :: "allocator \<Rightarrow> bytes_op \<Rightarrow> (neoc_bytes, unit) cmd" where
  "bytes_step A (Resize n) b = neoc_bytes_resize A n b"
| "bytes_step A (Append d) b = neoc_bytes_append A (Some d) (length d) b"
| "bytes_step A Reverse b = neoc_bytes_reverse b"
| "bytes_step A Reverse_Inplace b = neoc_bytes_reverse_inplace b"
| "bytes_step A Clear b = (Ok (), neoc_bytes_clear b)"

text \<open>What the operations do to a string with a hidden rest.\<close>

definition spec_resize :: "nat \<Rightarrow> byte list \<times> byte list \<Rightarrow> byte list \<times> byte list" where
  "spec_resize n v =
     (case v of (xs, hidden) \<Rightarrow>
        if n = 0 then if xs = [] then v else ([], [])
        else if n \<le> length (xs @ hidden) then (take n (xs @ hidden), drop n (xs @ hidden))
        else (xs @ replicate (n - length xs) 0, []))"

fun spec_step :: "bytes_op \<Rightarrow> byte list \<times> byte list \<Rightarrow> byte list \<times> byte list" where
  "spec_step (Resize n) v = spec_resize n v"
| "spec_step (Append d) (xs, hidden) = (xs @ d, drop (length d) hidden)"
| "spec_step Reverse (xs, hidden) = (rev xs, hidden)"
| "spec_step Reverse_Inplace (xs, hidden) = (rev xs, hidden)"
| "spec_step Clear (xs, hidden) = (replicate (length xs) 0, hidden)"

lemma resize_cases:
  assumes "bs_inv b"
  shows "neoc_bytes_resize A n b = (Err NEOC_ERROR_OUT_OF_MEMORY, b) \<and> \<not> A n \<and> bs_capacity b < n
    \<or> (\<exists>b'. neoc_bytes_resize A n b = (Ok (), b') \<and> bs_inv b' \<and> bs_view b' = spec_resize n (bs_view b) \<and> bs_length b' = n)"
proof (cases "bs_data b")
  case None
  with assms have b: "bs_length b = 0" "bs_capacity b = 0" by (simp_all add: bs_inv_def)
  then show ?thesis using None
    by (cases "n = 0"; cases "A n")
       (auto simp: neoc_bytes_resize_def bs_inv_def bs_view_def contents_def bs_block_def spec_resize_def Let_def)
next
  case (Some d)
  with assms have b: "length d = bs_capacity b" "0 < bs_length b" "bs_length b \<le> bs_capacity b" by (simp_all add: bs_inv_def)
  have v: "bs_view b = (take (bs_length b) d, drop (bs_length b) d)" using Some by (simp add: bs_view_def contents_def bs_block_def)
  consider "n = bs_length b" | "n = 0" "bs_length b \<noteq> 0" | "n \<noteq> bs_length b" "0 < n" "n \<le> bs_capacity b" | "bs_capacity b < n" "\<not> A n" | "bs_capacity b < n" "A n"
    by linarith
  then show ?thesis
  proof cases
    case 5
    then have "take (bs_length b) (take n d) = take (bs_length b) d" "n \<noteq> bs_length b" "n \<noteq> 0" using b by (auto simp: min_def)
    then show ?thesis using 5 b Some v
      by (auto simp: neoc_bytes_resize_def bs_inv_def bs_view_def contents_def bs_block_def spec_resize_def Let_def)
  qed (use b Some v assms in \<open>auto simp: neoc_bytes_resize_def bs_inv_def bs_view_def contents_def bs_block_def spec_resize_def\<close>)
qed

lemma block_write_view:
  assumes "bs_inv b" and "i + length data = bs_length b" and "0 < length data"
  shows "\<exists>b'. block_write i data b = (Ok (), b') \<and> bs_inv b' \<and> bs_view b' = (take i (contents b) @ data, snd (bs_view b))"
proof -
  obtain d where d: "bs_data b = Some d" "length d = bs_capacity b" "bs_length b \<le> bs_capacity b"
    using assms by (auto simp: bs_inv_def split: option.splits)
  have "0 < bs_length b" using assms(2,3) by linarith
  with d show ?thesis using assms(2) by (auto simp: block_write_def bs_inv_def bs_view_def contents_def bs_block_def)
qed

lemma reverse_view:
  assumes "bs_inv b"
  shows "\<exists>b'. neoc_bytes_reverse b = (Ok (), b') \<and> bs_inv b' \<and> bs_view b' = (rev (contents b), snd (bs_view b))"
    and "bs_data b \<noteq> None \<Longrightarrow> neoc_bytes_reverse_inplace b = neoc_bytes_reverse b"
proof -
  show "\<exists>b'. neoc_bytes_reverse b = (Ok (), b') \<and> bs_inv b' \<and> bs_view b' = (rev (contents b), snd (bs_view b))"
  proof (cases "bs_length b \<le> 1")
    case True
    then have "rev (contents b) = contents b" using bs_inv_simps(3) [OF assms] by (cases "contents b" rule: remdups_adj.cases) auto
    then show ?thesis using True assms by (simp add: neoc_bytes_reverse_def bs_view_def)
  next
    case False
    then obtain d where d: "bs_data b = Some d" "length d = bs_capacity b" "bs_length b \<le> bs_capacity b"
      using assms by (auto simp: bs_inv_def split: option.splits)
    then show ?thesis using False assms swap_loop_take [of "bs_length b" d]
      by (auto simp: neoc_bytes_reverse_def bs_inv_def bs_view_def contents_def bs_block_def)
  qed
  assume "bs_data b \<noteq> None"
  then obtain d where d: "bs_data b = Some d" "length d = bs_capacity b" "0 < bs_length b" "bs_length b \<le> bs_capacity b"
    using assms by (auto simp: bs_inv_def split: option.splits)
  then show "neoc_bytes_reverse_inplace b = neoc_bytes_reverse b"
    using swap_loop_take [of "bs_length b" d] swap_fold_take [of "bs_length b" d] by (simp add: neoc_bytes_reverse_inplace_def neoc_bytes_reverse_def)
qed

lemma append_cases:
  assumes "bs_inv b"
  shows "neoc_bytes_append A (Some d) (length d) b = (Err NEOC_ERROR_OUT_OF_MEMORY, b) \<and> \<not> A (bs_length b + length d)
    \<or> (\<exists>b'. neoc_bytes_append A (Some d) (length d) b = (Ok (), b') \<and> bs_inv b' \<and> bs_view b' = spec_step (Append d) (bs_view b))"
proof (cases "d = []")
  case True
  then show ?thesis using assms by (simp add: neoc_bytes_append_def bs_view_def)
next
  case False
  let ?n = "bs_length b + length d"
  from resize_cases [OF assms, of A ?n] show ?thesis
  proof (elim disjE exE conjE)
    fix b'
    assume r: "neoc_bytes_resize A ?n b = (Ok (), b')" "bs_inv b'" "bs_view b' = spec_resize ?n (bs_view b)" "bs_length b' = ?n"
    obtain b'' where w: "block_write (bs_length b) d b' = (Ok (), b'')" "bs_inv b''" "bs_view b'' = (take (bs_length b) (contents b') @ d, snd (bs_view b'))"
      using block_write_view [OF r(2), of "bs_length b" d] r(4) False by auto
    have len: "length (contents b) = bs_length b" by (rule bs_inv_simps(3) [OF assms])
    have "contents b' = fst (spec_resize ?n (bs_view b))" using r(3) by (simp add: bs_view_def prod_eq_iff)
    then have "take (bs_length b) (contents b') = contents b" and "snd (bs_view b') = drop (length d) (snd (bs_view b))"
      using False len r(3) by (auto simp: spec_resize_def bs_view_def)
    then have "bs_view b'' = spec_step (Append d) (bs_view b)" using w(3) by (cases "bs_view b") (auto simp: bs_view_def)
    moreover have "neoc_bytes_append A (Some d) (length d) b = (Ok (), b'')"
      using False r(1) w(1) by (simp add: neoc_bytes_append_def then_c_def bind_c_def)
    ultimately show ?thesis using w(2) by blast
  qed (use False in \<open>simp add: neoc_bytes_append_def then_c_def bind_c_def\<close>)
qed

lemma clear_view:
  assumes "bs_inv b"
  shows "bs_inv (neoc_bytes_clear b) \<and> bs_view (neoc_bytes_clear b) = (replicate (length (contents b)) 0, snd (bs_view b))"
  using assms by (auto simp: neoc_bytes_clear_def bs_inv_def bs_view_def contents_def bs_block_def split: option.splits)

lemma from_data_inv:
  assumes "neoc_bytes_from_data A (Some d) (length d) = Ok (Some b)"
  shows "bs_inv b \<and> bs_view b = (d, [])"
  using assms by (auto simp: neoc_bytes_from_data_def neoc_bytes_create_def block_write_def bs_inv_def bs_view_def contents_def bs_block_def split: if_splits)

inductive bytes_reach :: "neoc_bytes \<Rightarrow> bool" where
  created: "neoc_bytes_create A n = Some b \<Longrightarrow> bytes_reach b"
| copied: "neoc_bytes_from_data A (Some d) (length d) = Ok (Some b) \<Longrightarrow> bytes_reach b"
| step: "bytes_reach b \<Longrightarrow> bytes_reach (snd (bytes_step A op b))"

lemma bytes_step_refines:
  assumes "bs_inv b"
  shows "case bytes_step A op b of
      (Ok _, b') \<Rightarrow> bs_inv b' \<and> bs_view b' = spec_step op (bs_view b)
    | (Err e, b') \<Rightarrow> b' = b \<and> (e = NEOC_ERROR_OUT_OF_MEMORY \<and> (\<exists>n. \<not> A n) \<or> e = NEOC_ERROR_NULL_POINTER \<and> op = Reverse_Inplace \<and> contents b = [])
    | (Fault, _) \<Rightarrow> False"
proof (cases op)
  case (Resize n)
  with resize_cases [OF assms, of A n] show ?thesis by fastforce
next
  case (Append d)
  with append_cases [OF assms, of A d] show ?thesis by fastforce
next
  case Reverse
  with reverse_view(1) [OF assms] show ?thesis by (auto simp: bs_view_def)
next
  case Reverse_Inplace
  show ?thesis
  proof (cases "bs_data b")
    case None
    then show ?thesis using Reverse_Inplace bs_inv_simps(3,4) [OF assms] by (simp add: neoc_bytes_reverse_inplace_def)
  next
    case (Some d)
    then show ?thesis using Reverse_Inplace reverse_view [OF assms] by (auto simp: bs_view_def)
  qed
next
  case Clear
  with clear_view [OF assms] show ?thesis by (auto simp: bs_view_def)
qed

lemma bytes_reach_inv: "bytes_reach b \<Longrightarrow> bs_inv b"
proof (induction rule: bytes_reach.induct)
  case (created A n b)
  then show ?case by (auto simp: neoc_bytes_create_def bs_inv_def split: if_splits)
next
  case (copied A d b)
  then show ?case using from_data_inv by blast
next
  case (step b A op)
  then show ?case using bytes_step_refines [OF step.IH, where A = A and op = op] by (auto split: prod.splits result.splits)
qed

text \<open>Comparison is the lexicographic order.\<close>

lemma memcmp_take: "memcmp_c (take (min (length xs) (length ys)) xs) (take (min (length xs) (length ys)) ys) = memcmp_c xs ys"
  by (induction xs ys rule: memcmp_c.induct) auto

lemma memcmp_lexord:
  "(memcmp_c xs ys = 0 \<and> length xs = length ys \<longleftrightarrow> xs = ys)
   \<and> (memcmp_c xs ys < 0 \<or> memcmp_c xs ys = 0 \<and> length xs < length ys \<longleftrightarrow> (xs, ys) \<in> lexord {(x, y). x < y})"
  by (induction xs ys rule: memcmp_c.induct) (auto simp: not_less_iff_gr_or_eq neq_Nil_conv)

lemma compare_eq:
  assumes "bs_inv a" and "bs_inv b"
  shows "neoc_bytes_compare (Some a) (Some b) =
    Ok (if memcmp_c (contents a) (contents b) \<noteq> 0 then memcmp_c (contents a) (contents b)
        else if length (contents a) < length (contents b) then - 1 else if length (contents b) < length (contents a) then 1 else 0)"
proof -
  let ?m = "min (bs_length a) (bs_length b)"
  have l: "length (contents a) = bs_length a" "length (contents b) = bs_length b" using assms bs_inv_simps(3) by blast+
  have "memcmp_c (take ?m (contents a)) (take ?m (contents b)) = memcmp_c (contents a) (contents b)"
    using memcmp_take [of "contents a" "contents b"] by (simp add: l)
  moreover have "(if bs_length a < bs_length b then bs_length a else bs_length b) = ?m" by simp
  ultimately show ?thesis unfolding neoc_bytes_compare_def
    using block_read_contents [OF assms(1), of ?m] block_read_contents [OF assms(2), of ?m] by (simp add: Let_def l)
qed

subsection \<open>Properties\<close>

text \<open> A byte string behaves as a list of bytes with a hidden rest: appending, reversing and clearing do to the list what they say, and an operation
  that fails for want of memory changes nothing.  Growing again after shrinking brings the hidden bytes back instead of zeros.\<close>

theorem bytes_refine_tail:
  assumes "bytes_reach b"
  shows "case bytes_step A op b of
      (Ok _, b') \<Rightarrow> bs_view b' = spec_step op (bs_view b)
    | (Err e, b') \<Rightarrow> b' = b \<and> (e = NEOC_ERROR_OUT_OF_MEMORY \<and> (\<exists>n. \<not> A n) \<or> e = NEOC_ERROR_NULL_POINTER \<and> op = Reverse_Inplace \<and> contents b = [])
    | (Fault, _) \<Rightarrow> False"
  using bytes_step_refines [OF bytes_reach_inv [OF assms], where A = A and op = op] by (auto split: prod.splits result.splits)

text \<open> Comparing byte strings is the lexicographic order on their bytes: zero exactly when they are equal, negative exactly when the first is smaller.\<close>

theorem bytes_compare_lexicographic:
  assumes "bytes_reach a" and "bytes_reach b"
  shows "\<exists>c. neoc_bytes_compare (Some a) (Some b) = Ok c \<and> (c = 0 \<longleftrightarrow> contents a = contents b) \<and> (c < 0 \<longleftrightarrow> (contents a, contents b) \<in> lexord {(x, y). x < y})
    \<and> neoc_bytes_equal (Some a) (Some b) = Ok (contents a = contents b)"
  using compare_eq [OF bytes_reach_inv bytes_reach_inv, OF assms] memcmp_lexord [of "contents a" "contents b"]
  by (auto simp: neoc_bytes_equal_def)

text \<open> The address this function makes has a single SHA-256 as checksum.  \<^verbatim>\<open>neoc_string_address_to_script_hash\<close>, which makes the same mistake, gives the
  script hash back; but the address is the right one, which \<^verbatim>\<open>neoc_hash160_to_address\<close> makes, only when the two digests
  begin with the same four bytes.\<close>

theorem bytes_address_wrong_checksum:
  assumes "crypto_works C" and "\<forall>n. A n" and "bytes_reach b" and "length (contents b) = 20"
    and "neoc_sha256 C (Some (0x35 # rev (contents b))) = Ok d1" and "neoc_sha256 C (Some d1) = Ok d2"
  shows "\<exists>s. neoc_bytes_script_hash_to_address C A (Some b) 64 = Ok s \<and> neoc_string_address_to_script_hash C A (Some s) = Ok (contents b)
    \<and> (neoc_hash160_to_address C A (Some (contents b)) 64 = Ok s \<longleftrightarrow> take 4 d1 = take 4 d2)"
proof -
  let ?h = "contents b" let ?v = "0x35 # rev ?h" let ?p = "?v @ take 4 d1" let ?s = "b58_text ?p"
  have inv: "bs_inv b" using assms(3) by (rule bytes_reach_inv)
  have b: "bs_length b = 20" "bs_data b \<noteq> None" using bs_inv_simps(3,4) [OF inv] assms(4) by auto
  have d1: "length d1 = 32" "length d2 = 32" using assms(1,5,6) by (auto simp: crypto_works_def neoc_sha256_def digest_calls_def split: option.splits if_splits) (metis option.inject)+
  have p: "length ?p = 25" "?p \<noteq> []" using d1 assms(4) by simp_all
  have "length ?s + 1 \<le> 64" using length_text_le [of ?p] p by (simp add: neoc_base58_encode_buffer_size_def)
  then have enc: "neoc_base58_encode A (Some ?p) 64 = Ok ?s" using neoc_base58_encode_eq [OF p(2), of A 64] p(1) assms(2) by simp
  have read: "block_read b 20 = Ok ?h" using block_read_contents [OF inv, of 20] b assms(4) by simp
  have a: "neoc_bytes_script_hash_to_address C A (Some b) 64 = Ok ?s"
    using b read assms(4,5) enc map_rev_index [of ?h 20]
    by (simp add: neoc_bytes_script_hash_to_address_def hash_sizes NEOC_ADDRESS_VERSION_def neoc_hash256_def Let_def)
  have dec: "neoc_string_base58_decode A (Some ?s) = Ok ?p" using base58_decode_text [OF assms(2) p(2)] p(1) by simp
  have "map (\<lambda>i. ?p ! (20 - i)) [0..<20] = ?h"
    by (rule nth_equalityI) (use assms(4) in \<open>auto simp: nth_Cons' nth_append rev_nth\<close>)
  then have "neoc_string_address_to_script_hash C A (Some ?s) = Ok ?h"
    using dec p(1) assms(2,4,5) d1(1) by (simp add: neoc_string_address_to_script_hash_def neoc_string_is_valid_address_def neoc_hash256_def)
  moreover have "neoc_hash160_to_address C A (Some ?h) 64 = Ok ?s \<longleftrightarrow> take 4 d1 = take 4 d2"
  proof -
    have "neoc_hash160_to_address C A (Some ?h) 64 = Raw_Bytes.neoc_bytes_script_hash_to_address C A (Some ?h) NEOC_ADDRESS_VERSION 64"
      using bytes_address_eq [OF assms(1) _ assms(4), of A 64] assms(2) by (simp add: grants_def)
    also have "\<dots> = neoc_base58_encode A (Some (?v @ take 4 d2)) 64"
      using assms(4-6) map_rev_index [of ?h 20] by (simp add: Raw_Bytes.neoc_bytes_script_hash_to_address_def NEOC_ADDRESS_VERSION_def neoc_sha256_double_def Let_def)
    also have "\<dots> = Ok (b58_text (?v @ take 4 d2))"
      using neoc_base58_encode_eq [of "?v @ take 4 d2" A 64] length_text_le [of "?v @ take 4 d2"] assms(2,4) d1(2) by (simp add: neoc_base58_encode_buffer_size_def)
    finally show ?thesis using b58_bytes_text [of ?p] b58_bytes_text [of "?v @ take 4 d2"] by (metis append_same_eq same_append_eq result.inject(1))
  qed
  ultimately show ?thesis using a by blast
qed

text \<open> The hexadecimal text of a byte string goes through a buffer of 1024 characters: of more than 510 bytes there is none, however large the buffer of
  the caller is.\<close>

theorem bytes_hex_limit:
  assumes "bytes_reach b" and "contents b \<noteq> []"
  shows "neoc_bytes_to_hex_no_prefix (Some b) n =
    (if 510 < length (contents b) \<or> n < 2 * length (contents b) + 1 then Err NEOC_ERROR_BUFFER_TOO_SMALL else Ok (concat (map (sprintf_02x False) (contents b))))"
proof -
  have inv: "bs_inv b" using assms(1) by (rule bytes_reach_inv)
  then have "block_read b (bs_length b) = Ok (contents b)" "\<not> no_bytes b"
    using block_read_contents [OF inv, of "bs_length b"] bs_inv_simps(3,5) [OF inv] assms(2) by auto
  then show ?thesis by (auto simp: neoc_bytes_to_hex_no_prefix_def neoc_hex_encode_def NEOC_MAX_HEX_STRING_LENGTH_def Let_def)
qed

theorem bytes_refine_tail_witness:
  "bytes_reach \<lparr>bs_data = Some [1, 2, 3], bs_length = 1, bs_capacity = 3\<rparr>
   \<and> (case bytes_step (\<lambda>_. False) (Resize 3) \<lparr>bs_data = Some [1, 2, 3], bs_length = 1, bs_capacity = 3\<rparr> of
        (Ok _, b') \<Rightarrow> bs_view b' = ([1, 2, 3], []) | _ \<Rightarrow> False)"
proof -
  have "neoc_bytes_from_data (\<lambda>_. True) (Some [1, 2, 3]) (length [1, 2, 3 :: byte]) = Ok (Some \<lparr>bs_data = Some [1, 2, 3], bs_length = 3, bs_capacity = 3\<rparr>)" by code_simp
  from bytes_reach.step [OF bytes_reach.copied [OF this], of "\<lambda>_. True" "Resize 1"]
  have r: "bytes_reach \<lparr>bs_data = Some [1, 2, 3], bs_length = 1, bs_capacity = 3\<rparr>" by (simp add: neoc_bytes_resize_def)
  show ?thesis using r bytes_refine_tail [OF r, of "Resize 3" "\<lambda>_. False"]
    by (simp add: neoc_bytes_resize_def spec_resize_def bs_view_def contents_def bs_block_def)
qed

definition demo_bytes :: "byte list \<Rightarrow> neoc_bytes" where
  "demo_bytes d = \<lparr>bs_data = Some d, bs_length = length d, bs_capacity = length d\<rparr>"

lemma demo_bytes_reach: "d \<noteq> [] \<Longrightarrow> bytes_reach (demo_bytes d)" and demo_bytes_contents: "contents (demo_bytes d) = d"
  using bytes_reach.copied [of "\<lambda>_. True" d "demo_bytes d"]
  by (simp_all add: demo_bytes_def neoc_bytes_from_data_def neoc_bytes_create_def block_write_def contents_def bs_block_def)

theorem bytes_compare_lexicographic_witness: "neoc_bytes_equal (Some (demo_bytes [1, 2])) (Some (demo_bytes [1, 3])) = Ok False"
  using bytes_compare_lexicographic [OF demo_bytes_reach demo_bytes_reach, of "[1, 2]" "[1, 3]"] by (auto simp: demo_bytes_contents)

theorem bytes_address_wrong_checksum_witness:
  "\<exists>s. neoc_bytes_script_hash_to_address toy_crypto (\<lambda>_. True) (Some (demo_bytes (replicate 20 9))) 64 = Ok s
     \<and> neoc_hash160_to_address toy_crypto (\<lambda>_. True) (Some (replicate 20 9)) 64 \<noteq> Ok s"
proof -
  have "bytes_reach (demo_bytes (replicate 20 9))" by (rule demo_bytes_reach) simp
  moreover have "neoc_sha256 toy_crypto (Some (0x35 # rev (replicate 20 9))) = Ok (replicate 32 21)" "neoc_sha256 toy_crypto (Some (replicate 32 21)) = Ok (replicate 32 32)"
    by (simp_all add: toy_crypto_def neoc_sha256_def digest_calls_def)
  ultimately show ?thesis
    using bytes_address_wrong_checksum [OF toy_crypto_works, of "\<lambda>_. True" "demo_bytes (replicate 20 9)" "replicate 32 21" "replicate 32 32"] by (auto simp: demo_bytes_contents)
qed

theorem bytes_hex_limit_witness: "neoc_bytes_to_hex_no_prefix (Some (demo_bytes (replicate 600 7))) 5000 = Err NEOC_ERROR_BUFFER_TOO_SMALL"
  using bytes_hex_limit [OF demo_bytes_reach, of "replicate 600 7" 5000] by (simp add: demo_bytes_contents)

end
