(* ===== verification/Spec2Isabelle.thy ===== *)
theory Spec2Isabelle
  imports Stream_Ops Hex Base64 Script_Reader Invocation_Script Nep6_Json Transaction_Builder Nef_File Memory Pointer_Array Element_Array Bip39 Byte_String
begin

text \<open>
  NeoC is a C SDK for the Neo N3 blockchain.  This development models its core, the code between the bytes on the wire
  and the objects a client builds: binary streams, text encodings, checksums and hashes, scripts, keys and their encrypted forms, accounts and
  wallets, the transaction with its signers, witnesses and witness rules, and the builder that puts it together.  The names of the
  definitions are the names of the C functions; what has another name is a loop or a part of a function, or a notion of the specification.

  \<^bold>\<open>The parts and how they interact.\<close>  Every object is turned into bytes by a serializer on a growing \<^emph>\<open>binary writer\<close> and read
  back by a deserializer on a \<^emph>\<open>binary reader\<close>.  The \<^emph>\<open>script builder\<close> appends opcodes to a writer; the \<^emph>\<open>script helper\<close> uses it for
  verification scripts, whose hash gives a \<^emph>\<open>Hash160\<close> and an address in \<^emph>\<open>Base58Check\<close>; the \<^emph>\<open>disassembler\<close> prints scripts.  A \<^emph>\<open>key
  pair\<close> is imported and exported as WIF or, encrypted with a password, as NEP-2; an \<^emph>\<open>account\<close> holds a key pair or the script of several
  keys (\<^emph>\<open>multi-signature\<close>), and a \<^emph>\<open>wallet\<close> holds accounts by address.  A \<^emph>\<open>transaction\<close> holds signers, attributes, a script and
  witnesses; a \<^emph>\<open>signer\<close> holds scopes and, by scope, contracts, groups and witness \<^emph>\<open>rules\<close>, each with a tree of \<^emph>\<open>conditions\<close>; signing with
  an account hashes the signed bytes and appends a \<^emph>\<open>witness\<close>.  The \<^emph>\<open>transaction builder\<close> collects signers, script and fees, builds the
  transaction and has it signed.

  \<^bold>\<open>Theories.\<close>
  \<^item> \<open>NeoC_Prelude\<close>: error codes, results, commands on a state, allocation, words and byte lists.
  \<^item> \<open>Binary_Writer\<close>, \<open>Binary_Reader\<close> (\<^verbatim>\<open>src/serialization/binary_writer.c\<close>, \<^verbatim>\<open>binary_reader.c\<close>): the two stream objects with their
    invariants; \<open>writes\<close> and \<open>reads\<close> say what a command appends and consumes, on its error paths too.
  \<^item> \<open>Codec\<close>: the locales \<open>codec\<close> and \<open>object_codec\<close>, the interface between a serializer and its deserializer, with the
    round trip and unique decoding proved once, and their interpretations for the primitive pairs; \<open>prefix_free\<close> for encodings
    that have no deserializer.
  \<^item> \<open>Stream_Ops\<close>: any sequence of stream operations, as a refinement of appending to and consuming from a list.
  \<^item> \<open>Text_Codec\<close>, \<open>Hex\<close>, \<open>Base64\<close>, \<open>Base58\<close> (\<^verbatim>\<open>src/utils/neoc_hex.c\<close>, \<^verbatim>\<open>neoc_base64.c\<close>, \<^verbatim>\<open>neoc_base58.c\<close>): the text
    encodings, behind the locale \<open>text_codec\<close>.
  \<^item> \<open>Hash\<close> (\<^verbatim>\<open>src/crypto/neoc_hash.c\<close>, \<^verbatim>\<open>hash.c\<close>) and \<open>Hash_Types\<close> (\<^verbatim>\<open>src/types/neoc_hash160.c\<close>, \<^verbatim>\<open>neoc_hash256.c\<close>).
  \<^item> \<open>Opcode\<close>, \<open>Interop_Service\<close>, \<open>Script_Builder\<close>, \<open>Script_Helper\<close>, \<open>Script_Reader\<close> (\<^verbatim>\<open>src/script/\<close>, the files of the same
    names and \<^verbatim>\<open>script_builder_full.c\<close>); \<open>Script_Object\<close>, \<open>Invocation_Script\<close>, \<open>Verification_Script\<close> (\<^verbatim>\<open>invocation_script.c\<close>,
    \<^verbatim>\<open>verification_script.c\<close>).
  \<^item> \<open>Bip39_Wordlist\<close>, \<open>Bip39\<close>, \<open>Key_Pair\<close>, \<open>Nep2\<close> (\<^verbatim>\<open>src/crypto/bip39.c\<close>, \<^verbatim>\<open>ec_key_pair.c\<close>, \<^verbatim>\<open>wif.c\<close>, \<^verbatim>\<open>nep2.c\<close>, \<^verbatim>\<open>scrypt_params.c\<close>):
    mnemonic sentences, keys and their texts.
  \<^item> \<open>Multi_Sig\<close>, \<open>Account\<close>, \<open>Wallet\<close> (\<^verbatim>\<open>src/wallet/multi_sig.c\<close>, \<^verbatim>\<open>account.c\<close>, \<^verbatim>\<open>wallet.c\<close>).  A wallet is a record with a list of
    addresses of accounts and a heap that maps addresses to accounts; using a released account is a fault.
  \<^item> \<open>Parameter_Type\<close> (\<^verbatim>\<open>src/types/contract_parameter_type.c\<close>), \<open>Nep6\<close>, \<open>Nep6_Json\<close> (\<^verbatim>\<open>src/wallet/nep6.c\<close>, \<^verbatim>\<open>nep6/nep6_account.c\<close>,
    \<^verbatim>\<open>nep6/nep6_contract.c\<close>): NEP-6 wallets, the conversions of accounts and wallets, loading a wallet from JSON, and the JSON text \<^verbatim>\<open>nep6.c\<close>
    prints into a buffer.  The reachable accounts and NEP-6 wallets are defined in \<open>Nep6\<close>, where every way of making and changing them is at hand.
  \<^item> \<open>Witness\<close> (\<^verbatim>\<open>src/transaction/witness.c\<close>), \<open>Witness_Condition\<close> (\<^verbatim>\<open>src/protocol/core/witnessrule/\<close>), \<open>Witness_Scope\<close>, \<open>Signer\<close>,
    \<open>Transaction\<close> and \<open>Transaction_Builder\<close> (\<^verbatim>\<open>src/transaction/witness_scope.c\<close>, \<^verbatim>\<open>signer.c\<close>, \<^verbatim>\<open>transaction.c\<close>,
    \<^verbatim>\<open>transaction_builder.c\<close>).  The builder keeps addresses of the transaction it built and of the data of its attributes; both are in heaps.
  \<^item> \<open>Nef_File\<close> (\<^verbatim>\<open>src/contract/nef_file.c\<close>): executable files of contracts.
  \<^item> \<open>Memory\<close> (\<^verbatim>\<open>src/neoc_memory.c\<close>): the tracked allocator, with the blocks of the C library as a heap.
  \<^item> \<open>Dynamic_Array\<close>, \<open>Pointer_Array\<close>, \<open>Element_Array\<close> (\<^verbatim>\<open>src/utils/neoc_array.c\<close>, \<^verbatim>\<open>array.c\<close>): growing arrays of pointers, of owned
    elements and of bytes, behind a locale for their common growth.
  \<^item> \<open>Numeric\<close>, \<open>Raw_Bytes\<close>, \<open>String_Utils\<close>, \<open>Byte_String\<close> (\<^verbatim>\<open>src/utils/numeric.c\<close>, \<^verbatim>\<open>neoc_bytes.c\<close>, \<^verbatim>\<open>string.c\<close>, \<^verbatim>\<open>neoc_bytes_utils.c\<close>,
    \<^verbatim>\<open>src/types/neoc_types.c\<close>): numbers as bytes, plain buffers, texts, and byte strings that own a block.

  \<^bold>\<open>Conventions.\<close>  A function that returns \<^verbatim>\<open>neoc_error_t\<close> returns \<open>'a result\<close>: the values stored through its result pointers, an error
  code, or \<open>Fault\<close> where the C execution has no defined outcome.  A function that updates an object is a command: it returns the
  updated object too, also when it fails.  Result pointers and the object operated on are not null; pointers to inputs
  that the code tests are options.  Integers keep their width where the code computes with them; the length of an existing object is a
  natural number below \<^verbatim>\<open>PTRDIFF_MAX\<close>; where a size is scaled (Base58), the wrap-around of \<^verbatim>\<open>size_t\<close> is written out.  \<open>A n\<close> tells whether the allocator grants \<open>n\<close> bytes; every out-of-memory branch is in the
  model, and a theorem about success assumes the grants it needs.  Releasing memory is modelled where it is the point (allocator, arrays,
  wallets, the builder) and left out elsewhere.  The host is a little-endian 64-bit machine.  OpenSSL is a parameter: the digests
  (\<open>crypto\<close>, with \<open>crypto_works\<close>), the curve (\<open>curve\<close>, with \<open>curve_ok\<close>), multiplication of the base point (\<open>base_mul\<close>), ECDSA (\<open>ecdsa\<close>, with
  \<open>ecdsa_ok\<close>: signing is randomised, so one value of this type stands for one signing call with the nonce it drew, and what signs several times takes a family
  of them), and scrypt with AES (\<open>ciphers\<close>, with \<open>ciphers_ok\<close>: scrypt gives 64 bytes for parameters within its documented limits, \<open>scrypt_admits\<close>, and
  fails outside them; AES with a key of 32 bytes decrypts what it encrypted of a text of 32 bytes).  So are the functions of cJSON that loading a wallet calls
  (\<open>cjson_lib\<close>, with nothing assumed).  The objects a transaction points to are stored in it by value.

  \<^bold>\<open>What the theorems show.\<close>  Streams: a run of writes appends exactly the specified bytes or stops with a justified error; reads
  never leave the buffer for counts up to \<open>2 ^ 63\<close>, with the wrap-around above it; growth terminates below \<open>2 ^ 62\<close> bytes and hangs
  above.  Codecs: round trips for variable-length integers and strings, hashes, witnesses, conditions and rules; whatever bytes a
  condition is read from, the result respects the limits.  Text encodings: round trips with the announced sizes, memory
  safety of the base conversion, soundness of the checksum test.  Scripts: pushing nested parameters, reading pushed values back,
  agreement of the two implementations of verification scripts, termination and output of the disassembler.  Transactions: invariants of every
  reachable signer and transaction, the exact bytes and sizes, the signed bytes determining the transaction, signing by several accounts; the
  signers of every reachable builder, the transaction it builds, its fees, and the script of a token transfer.  Keys and accounts: WIF and NEP-2
  round trips, a wrong password is noticed, every reachable account has the address of its hash, and the script of it unless an import or a decryption
  brought a foreign one, encrypting and decrypting an account, recognition of multi-signature scripts with its limits.  Wallets: any sequence of operations refines a list of addresses with a
  default, and releasing a wallet releases each account once; converting to NEP-6 and back keeps addresses, order and default account, a key
  put into a NEP-6 wallet is found and decrypted, and the printed text is not balanced and can leave its buffer.  Mnemonic sentences: decoding accepts only what encoding makes.
  Allocator and arrays: the tracking list and the counters agree with the blocks in every reachable state, all blocks can be
  released, and arrays refine lists with a capacity, results included.
  Where the code does not do what it means to, the theorem states what it does.

  \<^bold>\<open>Bounds and termination.\<close>  No definition uses fuel: every loop is structural or has a measure (the bytes left in the
  script for the disassembler, the nesting depth left for conditions), except the growth loop of the writer, which does not
  always end in C: it is a partial function whose value \<open>None\<close> is the loop that never ends.

  \<^bold>\<open>Not modelled.\<close>  JSON (through cJSON) but for loading NEP-6 wallets, so manifests and the JSON forms of conditions and transactions; HTTP (through
  libcurl) with the node protocol and its responses; BIP-32 derivation and point arithmetic, which are OpenSSL calls throughout; files; and the
  contract clients that only send scripts to a node.  Enumeration tables, contract parameters as objects, and the signer
  wrappers of \<^verbatim>\<open>account_signer.c\<close> and \<^verbatim>\<open>contract_signer.c\<close> are plain code that could be added.
\<close>

end
